(* ===== verification/Prelude.thy ===== *)
theory Prelude
  imports Main "HOL-Library.Word" "HOL-Library.Multiset"
begin

text \<open>
  Shared vocabulary of the development: machine integers, error codes, results of fallible
  C functions, C strings and byte order, and the generic list and word lemmas that the
  component theories use.

  The host is the platform the extractor is built for: LP64, little endian, signed
  \<open>char\<close>. An allocation is answered by the environment: \<open>alloc n\<close> says whether a request
  of \<open>n\<close> bytes is served, so that every \<open>-ENOMEM\<close> branch is a branch of the model.
\<close>

unbundle bit_operations_syntax

named_theorems result_simps \<open>rewriting of error propagation\<close>
named_theorems bounds_simps \<open>facts that bound indices and offsets\<close>

type_synonym u8 = "8 word"
type_synonym u16 = "16 word"
type_synonym u32 = "32 word"
type_synonym u64 = "64 word"
type_synonym alloc = "nat \<Rightarrow> bool"

text \<open>The result of an operation on \<^verbatim>\<open>int\<close>, which wraps around.\<close>

definition int32 :: "int \<Rightarrow> int" where "int32 x = signed_take_bit 31 x"

lemma int32_small: "- (2 ^ 31) \<le> x \<Longrightarrow> x < 2 ^ 31 \<Longrightarrow> int32 x = x"
  by (simp add: int32_def signed_take_bit_int_eq_self)

subsection \<open>Error codes and results\<close>

text \<open>
  A C function returning \<open>-E...\<close> or \<open>ERR_PTR(-E...)\<close> returns \<open>Inl\<close> of the code.
  \<open>OOB\<close> is no code of the program: it marks a read or write outside an object, where the
  behaviour of the C code is undefined. \<open>NONTERM\<close> marks a loop that does not end.
  \<open>RAW\<close> is a negative result that is no error code.
\<close>

datatype errno =
    EINVAL | ENOMEM | ENOENT | EEXIST | E2BIG | ENOTSUP | ESRCH | ERANGE | EIO | ENAMETOOLONG | EUCLEAN | ELOOP
  | LIBBPF_ERRNO__LIBELF | LIBBPF_ERRNO__FORMAT | LIBBPF_ERRNO__ENDIAN
  | LIBBPF_ERRNO__INTERNAL | LIBBPF_ERRNO__RELOC
  | RAW int
  | OOB | NONTERM

type_synonym 'a result = "errno + 'a"

primrec rbind :: "'a result \<Rightarrow> ('a \<Rightarrow> 'b result) \<Rightarrow> 'b result" where
  "rbind (Inl e) f = Inl e"
| "rbind (Inr x) f = f x"

definition guard :: "bool \<Rightarrow> errno \<Rightarrow> unit result" where
  "guard c e = (if c then Inr () else Inl e)"

definition deref :: "'a option \<Rightarrow> errno \<Rightarrow> 'a result" where
  "deref p e = (case p of None \<Rightarrow> Inl e | Some x \<Rightarrow> Inr x)"

definition array_get :: "'a list \<Rightarrow> nat \<Rightarrow> 'a result" where
  "array_get xs i = (if i < length xs then Inr (xs ! i) else Inl OOB)"

lemma rbind_Inr_iff [result_simps]:
  "rbind m f = Inr y \<longleftrightarrow> (\<exists>x. m = Inr x \<and> f x = Inr y)"
  by (cases m) auto

lemma rbind_Inl_iff [result_simps]:
  "rbind m f = Inl e \<longleftrightarrow> m = Inl e \<or> (\<exists>x. m = Inr x \<and> f x = Inl e)"
  by (cases m) auto

lemma rbind_InrE: "rbind m f = Inr y \<Longrightarrow> (\<And>x. m = Inr x \<Longrightarrow> f x = Inr y \<Longrightarrow> P) \<Longrightarrow> P"
  by (cases m) auto

lemma prodE: "(case p of (a, b) \<Rightarrow> f a b) = z \<Longrightarrow> (\<And>a b. p = (a, b) \<Longrightarrow> f a b = z \<Longrightarrow> P) \<Longrightarrow> P"
  by (cases p) auto

lemma guard_iff [result_simps]:
  "guard c e = Inr u \<longleftrightarrow> c" "guard c e = Inl e' \<longleftrightarrow> \<not> c \<and> e' = e"
  by (auto simp: guard_def)

lemma deref_iff [result_simps]:
  "deref p e = Inr x \<longleftrightarrow> p = Some x" "deref p e = Inl e' \<longleftrightarrow> p = None \<and> e' = e"
  by (auto simp: deref_def split: option.splits)

lemma array_get_iff [result_simps]:
  "array_get xs i = Inr x \<longleftrightarrow> i < length xs \<and> xs ! i = x"
  "array_get xs i = Inl e \<longleftrightarrow> length xs \<le> i \<and> e = OOB"
  by (auto simp: array_get_def)

lemma guard_simps [simp]: "guard True e = Inr ()" "guard False e = Inl e"
  by (simp_all add: guard_def)

lemma deref_simps [simp]: "deref (Some x) e = Inr x" "deref None e = Inl e"
  by (simp_all add: deref_def)

subsection \<open>C strings\<close>

abbreviation NUL :: char where "NUL \<equiv> CHR 0x00"

definition cstr :: "string \<Rightarrow> string" where
  "cstr mem = takeWhile (\<lambda>c. c \<noteq> NUL) mem"

definition cstring :: "string \<Rightarrow> bool" where
  "cstring s \<longleftrightarrow> NUL \<notin> set s"

lemma cstr_NUL [simp]: "cstring s \<Longrightarrow> cstr (s @ NUL # r) = s"
  by (induction s) (auto simp: cstr_def cstring_def)

lemma cstring_cstr [simp]: "cstring (cstr s)"
  by (auto simp: cstr_def cstring_def dest: set_takeWhileD)

lemma cstr_append: "NUL \<in> set m \<Longrightarrow> cstr (m @ r) = cstr m"
  unfolding cstr_def by (rule takeWhile_append1[where x = NUL]) auto

definition char_signed :: "char \<Rightarrow> u64" where
  "char_signed c = (let n = of_char c :: nat in
     if n < 128 then of_nat n else of_nat n - 256)"

definition byte_char :: "u8 \<Rightarrow> char" where
  "byte_char b = char_of (unat b)"

definition char_byte :: "char \<Rightarrow> u8" where
  "char_byte c = of_nat (of_char c)"

lemma byte_char_byte [simp]: "byte_char (char_byte c) = c"
  by (simp add: byte_char_def char_byte_def unat_of_nat)

lemma char_byte_char [simp]: "char_byte (byte_char b) = b"
proof -
  have "unat b < 256" using unsigned_less [of b, where 'a = nat] by simp
  then show ?thesis by (simp add: byte_char_def char_byte_def)
qed

end
