(* ===== verification/Bytes.thy ===== *)
theory Bytes
  imports Prelude
begin

text \<open>
  Byte order: little endian encoding of 16- and 32-bit integers, the byte swaps of
  \<^verbatim>\<open>byteswap.h\<close>, and bounds-checked reads and writes in a byte buffer. A read or write
  that would leave the buffer is \<open>OOB\<close>.
\<close>

definition le16 :: "u16 \<Rightarrow> u8 list" where
  "le16 w = [ucast w, ucast (drop_bit 8 w)]"

definition le32 :: "u32 \<Rightarrow> u8 list" where
  "le32 w = [ucast w, ucast (drop_bit 8 w), ucast (drop_bit 16 w), ucast (drop_bit 24 w)]"

definition u16_of_le :: "u8 \<Rightarrow> u8 \<Rightarrow> u16" where
  "u16_of_le b0 b1 = ucast b0 OR push_bit 8 (ucast b1)"

definition u32_of_le :: "u8 \<Rightarrow> u8 \<Rightarrow> u8 \<Rightarrow> u8 \<Rightarrow> u32" where
  "u32_of_le b0 b1 b2 b3 =
     ucast b0 OR push_bit 8 (ucast b1) OR push_bit 16 (ucast b2) OR push_bit 24 (ucast b3)"

definition bswap_16 :: "u16 \<Rightarrow> u16" where
  "bswap_16 w = (case le16 w of [b0, b1] \<Rightarrow> u16_of_le b1 b0)"

definition bswap_32 :: "u32 \<Rightarrow> u32" where
  "bswap_32 w = (case le32 w of [b0, b1, b2, b3] \<Rightarrow> u32_of_le b3 b2 b1 b0)"

lemma length_le [simp]: "length (le16 h) = 2" "length (le32 w) = 4"
  by (simp_all add: le16_def le32_def)

lemma u16_of_le16: "u16_of_le (ucast w) (ucast (drop_bit 8 w)) = w"
  by (rule bit_word_eqI) (auto simp: u16_of_le_def bit_simps)

lemma u32_of_le32:
  "u32_of_le (ucast w) (ucast (drop_bit 8 w)) (ucast (drop_bit 16 w)) (ucast (drop_bit 24 w)) = w"
proof (rule bit_word_eqI)
  fix n :: nat
  assume "n < LENGTH(32)"
  then consider "n < 8" | "8 \<le> n" "n < 16" | "16 \<le> n" "n < 24" | "24 \<le> n" "n < 32" by fastforce
  then show "bit (u32_of_le (ucast w) (ucast (drop_bit 8 w)) (ucast (drop_bit 16 w))
      (ucast (drop_bit 24 w))) n = bit w n"
    by cases (auto simp: u32_of_le_def bit_simps)
qed

lemma not_bit_byte [simp]: "8 \<le> n \<Longrightarrow> \<not> bit (b :: u8) n"
  using bit_imp_le_length [of b n] by auto

lemma le16_u16_of_le: "le16 (u16_of_le b0 b1) = [b0, b1]"
  by (auto simp: le16_def u16_of_le_def bit_simps intro!: bit_word_eqI)

lemma le32_u32_of_le: "le32 (u32_of_le b0 b1 b2 b3) = [b0, b1, b2, b3]"
  by (auto simp: le32_def u32_of_le_def bit_simps intro!: bit_word_eqI)

lemma bswap_of_le:
  "bswap_16 (u16_of_le b0 b1) = u16_of_le b1 b0"
  "bswap_32 (u32_of_le b0 b1 b2 b3) = u32_of_le b3 b2 b1 b0"
  by (simp_all add: bswap_16_def bswap_32_def le16_u16_of_le le32_u32_of_le)

lemma bswap_bswap [simp]: "bswap_16 (bswap_16 h) = h" "bswap_32 (bswap_32 w) = w"
  by (metis bswap_of_le(1) u16_of_le16, metis bswap_of_le(2) u32_of_le32)

subsection \<open>Reads and writes\<close>

fun read_u32 :: "u8 list \<Rightarrow> nat \<Rightarrow> u32 result" where
  "read_u32 bs off =
     (case take 4 (drop off bs) of
        [b0, b1, b2, b3] \<Rightarrow> Inr (u32_of_le b0 b1 b2 b3)
      | _ \<Rightarrow> Inl OOB)"

fun read_u16 :: "u8 list \<Rightarrow> nat \<Rightarrow> u16 result" where
  "read_u16 bs off =
     (case take 2 (drop off bs) of [b0, b1] \<Rightarrow> Inr (u16_of_le b0 b1) | _ \<Rightarrow> Inl OOB)"

fun read_words :: "u8 list \<Rightarrow> nat \<Rightarrow> nat \<Rightarrow> u32 list result" where
  "read_words bs off 0 = Inr []"
| "read_words bs off (Suc n) =
     rbind (read_u32 bs off) (\<lambda>w. rbind (read_words bs (off + 4) n) (\<lambda>ws. Inr (w # ws)))"

definition write_u32 :: "u8 list \<Rightarrow> nat \<Rightarrow> u32 \<Rightarrow> u8 list result" where
  "write_u32 bs off w =
     (if off + 4 \<le> length bs then Inr (take off bs @ le32 w @ drop (off + 4) bs) else Inl OOB)"

definition words_bytes :: "u32 list \<Rightarrow> u8 list" where
  "words_bytes ws = concat (map le32 ws)"

declare read_u32.simps [simp del] read_u16.simps [simp del]

lemma words_bytes_simps [simp]:
  "words_bytes [] = []" "words_bytes (w # ws) = le32 w @ words_bytes ws"
  "words_bytes (ws @ vs) = words_bytes ws @ words_bytes vs"
  by (simp_all add: words_bytes_def)

lemma length_words_bytes [simp]: "length (words_bytes ws) = 4 * length ws"
  by (induction ws) auto

lemma read_u32_at: "read_u32 (pre @ le32 w @ post) (length pre) = Inr w"
  by (simp add: read_u32.simps le32_def u32_of_le32)

lemma length_4D: "length xs = 4 \<Longrightarrow> \<exists>a b c d. xs = [a, b, c, d]"
  by (auto simp: eval_nat_numeral length_Suc_conv)

lemma read_u32_Inr_iff: "(\<exists>w. read_u32 bs off = Inr w) \<longleftrightarrow> off + 4 \<le> length bs"
proof
  assume "\<exists>w. read_u32 bs off = Inr w"
  then obtain b0 b1 b2 b3 where "take 4 (drop off bs) = [b0, b1, b2, b3]"
    by (auto simp: read_u32.simps split: list.splits)
  then have "length (take 4 (drop off bs)) = 4" by (simp only: list.size)
  then show "off + 4 \<le> length bs" by simp
next
  assume "off + 4 \<le> length bs"
  then have "length (take 4 (drop off bs)) = 4" by simp
  then obtain b0 b1 b2 b3 where "take 4 (drop off bs) = [b0, b1, b2, b3]"
    using length_4D by blast
  then show "\<exists>w. read_u32 bs off = Inr w" by (simp add: read_u32.simps)
qed

lemma read_u32_bytes: "read_u32 bs off = Inr w \<Longrightarrow> take 4 (drop off bs) = le32 w"
  by (auto simp: read_u32.simps le32_u32_of_le split: list.splits)

lemma read_words_at: "read_words (pre @ words_bytes ws @ post) (length pre) (length ws) = Inr ws"
proof (induction ws arbitrary: pre)
  case (Cons w ws)
  have "read_u32 (pre @ le32 w @ words_bytes ws @ post) (length pre) = Inr w"
    by (rule read_u32_at)
  moreover have "read_words (pre @ le32 w @ words_bytes ws @ post) (length pre + 4) (length ws) = Inr ws"
    using Cons.IH [of "pre @ le32 w"] by simp
  ultimately show ?case by simp
qed simp

lemma read_words_length: "read_words bs off n = Inr ws \<Longrightarrow> length ws = n \<and> (0 < n \<longrightarrow> off + 4 * n \<le> length bs)"
proof (induction n arbitrary: off ws)
  case (Suc n)
  then obtain w vs where "read_u32 bs off = Inr w" "read_words bs (off + 4) n = Inr vs" "ws = w # vs"
    by (auto simp: result_simps)
  with Suc.IH [of "off + 4" vs] read_u32_Inr_iff [of bs off] show ?case by (cases n) auto
qed simp

lemma read_words_total: "off + 4 * n \<le> length bs \<Longrightarrow> \<exists>ws. read_words bs off n = Inr ws"
proof (induction n arbitrary: off)
  case (Suc n)
  obtain ws where "read_words bs (off + 4) n = Inr ws" using Suc.IH [of "off + 4"] Suc.prems by auto
  moreover obtain w where "read_u32 bs off = Inr w" using Suc.prems read_u32_Inr_iff [of bs off] by auto
  ultimately show ?case by simp
qed simp

lemma read_words_bytes:
  "read_words bs off n = Inr ws \<Longrightarrow> take (4 * n) (drop off bs) = words_bytes ws"
proof (induction n arbitrary: off ws)
  case (Suc n)
  then obtain w vs where w: "read_u32 bs off = Inr w" "read_words bs (off + 4) n = Inr vs" "ws = w # vs"
    by (auto simp: result_simps)
  have "take (4 * Suc n) (drop off bs) = take 4 (drop off bs) @ take (4 * n) (drop (off + 4) bs)"
    using take_add [of 4 "4 * n" "drop off bs"] by (simp add: ac_simps)
  then show ?case using Suc.IH [OF w(2)] read_u32_bytes [OF w(1)] w(3) by simp
qed simp

lemma read_words_append:
  "read_words bs off n = Inr ws \<Longrightarrow> read_words (bs @ r) off n = Inr ws"
proof (induction n arbitrary: off ws)
  case (Suc n)
  then obtain w vs where w: "read_u32 bs off = Inr w" "read_words bs (off + 4) n = Inr vs" "ws = w # vs"
    by (auto simp: result_simps)
  have "off + 4 \<le> length bs" using w(1) read_u32_Inr_iff by blast
  then have "read_u32 (bs @ r) off = Inr w" using w(1) by (simp add: read_u32.simps)
  then show ?case using Suc.IH [OF w(2)] w(3) by simp
qed simp

end
