(* ===== verification/Btf_Types.thy ===== *)
theory Btf_Types
  imports Bytes
begin

text \<open>
  The BTF type format: the constants, structs and macros of \<^verbatim>\<open>include/uapi/linux/btf.h\<close> and the
  accessors of \<^verbatim>\<open>btf.h\<close>, with \<open>btf_type_size\<close> of \<^verbatim>\<open>btf.c\<close>.

  A type in memory is a \<open>struct btf_type\<close> followed by data whose layout depends on its
  kind. Its decoded form is the record \<open>btf_type\<close>; \<open>encode_type\<close> and \<open>btf_type_at\<close>
  go between the two. The union of \<open>size\<close> and \<open>type\<close> is the field \<open>size_type\<close>, read through
  \<open>type_size\<close> and \<open>ref_type\<close>.
\<close>

definition BTF_MAGIC :: u16 where "BTF_MAGIC = 0xeB9F"
definition BTF_VERSION :: u8 where "BTF_VERSION = 1"

record btf_header =
  h_magic :: u16
  h_version :: u8
  h_flags :: u8
  hdr_len :: u32
  type_off :: u32
  type_len :: u32
  str_off :: u32
  str_len :: u32

definition sizeof_btf_header :: nat where "sizeof_btf_header = 24"

datatype btf_kind_t =
    BTF_KIND_UNKN | BTF_KIND_INT | BTF_KIND_PTR | BTF_KIND_ARRAY | BTF_KIND_STRUCT
  | BTF_KIND_UNION | BTF_KIND_ENUM | BTF_KIND_FWD | BTF_KIND_TYPEDEF | BTF_KIND_VOLATILE
  | BTF_KIND_CONST | BTF_KIND_RESTRICT | BTF_KIND_FUNC | BTF_KIND_FUNC_PROTO
  | BTF_KIND_VAR | BTF_KIND_DATASEC

fun kind_num :: "btf_kind_t \<Rightarrow> nat" where
  "kind_num BTF_KIND_UNKN = 0"
| "kind_num BTF_KIND_INT = 1"
| "kind_num BTF_KIND_PTR = 2"
| "kind_num BTF_KIND_ARRAY = 3"
| "kind_num BTF_KIND_STRUCT = 4"
| "kind_num BTF_KIND_UNION = 5"
| "kind_num BTF_KIND_ENUM = 6"
| "kind_num BTF_KIND_FWD = 7"
| "kind_num BTF_KIND_TYPEDEF = 8"
| "kind_num BTF_KIND_VOLATILE = 9"
| "kind_num BTF_KIND_CONST = 10"
| "kind_num BTF_KIND_RESTRICT = 11"
| "kind_num BTF_KIND_FUNC = 12"
| "kind_num BTF_KIND_FUNC_PROTO = 13"
| "kind_num BTF_KIND_VAR = 14"
| "kind_num BTF_KIND_DATASEC = 15"

definition num_kind :: "nat \<Rightarrow> btf_kind_t" where
  "num_kind n =
     [BTF_KIND_UNKN, BTF_KIND_INT, BTF_KIND_PTR, BTF_KIND_ARRAY, BTF_KIND_STRUCT,
      BTF_KIND_UNION, BTF_KIND_ENUM, BTF_KIND_FWD, BTF_KIND_TYPEDEF, BTF_KIND_VOLATILE,
      BTF_KIND_CONST, BTF_KIND_RESTRICT, BTF_KIND_FUNC, BTF_KIND_FUNC_PROTO,
      BTF_KIND_VAR, BTF_KIND_DATASEC] ! (n mod 16)"

definition BTF_INFO_KIND :: "u32 \<Rightarrow> btf_kind_t" where
  "BTF_INFO_KIND i = num_kind (unat (drop_bit 24 i AND 0x0f))"

definition BTF_INFO_VLEN :: "u32 \<Rightarrow> nat" where
  "BTF_INFO_VLEN i = unat (i AND 0xffff)"

definition BTF_INFO_KFLAG :: "u32 \<Rightarrow> bool" where
  "BTF_INFO_KFLAG i \<longleftrightarrow> drop_bit 31 i \<noteq> 0"

definition BTF_INT_ENCODING :: "u32 \<Rightarrow> u8" where
  "BTF_INT_ENCODING v = ucast (drop_bit 24 (v AND 0x0f000000))"

definition BTF_INT_OFFSET :: "u32 \<Rightarrow> u8" where
  "BTF_INT_OFFSET v = ucast (drop_bit 16 (v AND 0x00ff0000))"

definition BTF_INT_BITS :: "u32 \<Rightarrow> u8" where
  "BTF_INT_BITS v = ucast (v AND 0x000000ff)"

definition BTF_MEMBER_BITFIELD_SIZE :: "u32 \<Rightarrow> u32" where
  "BTF_MEMBER_BITFIELD_SIZE v = drop_bit 24 v"

definition BTF_MEMBER_BIT_OFFSET :: "u32 \<Rightarrow> u32" where
  "BTF_MEMBER_BIT_OFFSET v = v AND 0xffffff"

record btf_enum_t =
  e_name_off :: u32
  e_val :: u32

record btf_array_t =
  a_type :: u32
  a_index_type :: u32
  a_nelems :: u32

record btf_member_t =
  m_name_off :: u32
  m_type :: u32
  m_offset :: u32

record btf_param_t =
  p_name_off :: u32
  p_type :: u32

record btf_var_secinfo_t =
  v_type :: u32
  v_offset :: u32
  v_size :: u32

datatype btf_vdata =
    VNone
  | VInt u32
  | VArray btf_array_t
  | VMembers "btf_member_t list"
  | VEnums "btf_enum_t list"
  | VParams "btf_param_t list"
  | VVar u32
  | VSecinfos "btf_var_secinfo_t list"

record btf_type =
  name_off :: u32
  info :: u32
  size_type :: u32
  vdata :: btf_vdata

definition sizeof_btf_type :: nat where "sizeof_btf_type = 12"

subsection \<open>Accessors\<close>

abbreviation type_size :: "btf_type \<Rightarrow> u32" where "type_size t \<equiv> size_type t"
abbreviation ref_type :: "btf_type \<Rightarrow> u32" where "ref_type t \<equiv> size_type t"

definition btf_kind :: "btf_type \<Rightarrow> btf_kind_t" where
  "btf_kind t = BTF_INFO_KIND (info t)"

definition btf_vlen :: "btf_type \<Rightarrow> nat" where
  "btf_vlen t = BTF_INFO_VLEN (info t)"

definition btf_kflag :: "btf_type \<Rightarrow> bool" where
  "btf_kflag t = BTF_INFO_KFLAG (info t)"

definition btf_is_void :: "btf_type \<Rightarrow> bool" where
  "btf_is_void t \<longleftrightarrow> btf_kind t = BTF_KIND_UNKN"
definition btf_is_int :: "btf_type \<Rightarrow> bool" where
  "btf_is_int t \<longleftrightarrow> btf_kind t = BTF_KIND_INT"
definition btf_is_ptr :: "btf_type \<Rightarrow> bool" where
  "btf_is_ptr t \<longleftrightarrow> btf_kind t = BTF_KIND_PTR"
definition btf_is_array :: "btf_type \<Rightarrow> bool" where
  "btf_is_array t \<longleftrightarrow> btf_kind t = BTF_KIND_ARRAY"
definition btf_is_struct :: "btf_type \<Rightarrow> bool" where
  "btf_is_struct t \<longleftrightarrow> btf_kind t = BTF_KIND_STRUCT"
definition btf_is_union :: "btf_type \<Rightarrow> bool" where
  "btf_is_union t \<longleftrightarrow> btf_kind t = BTF_KIND_UNION"
definition btf_is_composite :: "btf_type \<Rightarrow> bool" where
  "btf_is_composite t \<longleftrightarrow> btf_kind t = BTF_KIND_STRUCT \<or> btf_kind t = BTF_KIND_UNION"
definition btf_is_enum :: "btf_type \<Rightarrow> bool" where
  "btf_is_enum t \<longleftrightarrow> btf_kind t = BTF_KIND_ENUM"
definition btf_is_fwd :: "btf_type \<Rightarrow> bool" where
  "btf_is_fwd t \<longleftrightarrow> btf_kind t = BTF_KIND_FWD"
definition btf_is_typedef :: "btf_type \<Rightarrow> bool" where
  "btf_is_typedef t \<longleftrightarrow> btf_kind t = BTF_KIND_TYPEDEF"
definition btf_is_volatile :: "btf_type \<Rightarrow> bool" where
  "btf_is_volatile t \<longleftrightarrow> btf_kind t = BTF_KIND_VOLATILE"
definition btf_is_const :: "btf_type \<Rightarrow> bool" where
  "btf_is_const t \<longleftrightarrow> btf_kind t = BTF_KIND_CONST"
definition btf_is_restrict :: "btf_type \<Rightarrow> bool" where
  "btf_is_restrict t \<longleftrightarrow> btf_kind t = BTF_KIND_RESTRICT"
definition btf_is_mod :: "btf_type \<Rightarrow> bool" where
  "btf_is_mod t \<longleftrightarrow> btf_kind t = BTF_KIND_VOLATILE \<or> btf_kind t = BTF_KIND_CONST \<or>
     btf_kind t = BTF_KIND_RESTRICT"
definition btf_is_func :: "btf_type \<Rightarrow> bool" where
  "btf_is_func t \<longleftrightarrow> btf_kind t = BTF_KIND_FUNC"
definition btf_is_func_proto :: "btf_type \<Rightarrow> bool" where
  "btf_is_func_proto t \<longleftrightarrow> btf_kind t = BTF_KIND_FUNC_PROTO"
definition btf_is_var :: "btf_type \<Rightarrow> bool" where
  "btf_is_var t \<longleftrightarrow> btf_kind t = BTF_KIND_VAR"
definition btf_is_datasec :: "btf_type \<Rightarrow> bool" where
  "btf_is_datasec t \<longleftrightarrow> btf_kind t = BTF_KIND_DATASEC"

text \<open>
  The accessors of the data behind a type reinterpret its memory; they are used on types of
  the matching kind only, where the decoded data has the constructor they ask for.
\<close>

definition btf_int_data :: "btf_type \<Rightarrow> u32" where
  "btf_int_data t = (case vdata t of VInt v \<Rightarrow> v | _ \<Rightarrow> 0)"

definition btf_int_encoding :: "btf_type \<Rightarrow> u8" where
  "btf_int_encoding t = BTF_INT_ENCODING (btf_int_data t)"
definition btf_int_offset :: "btf_type \<Rightarrow> u8" where
  "btf_int_offset t = BTF_INT_OFFSET (btf_int_data t)"
definition btf_int_bits :: "btf_type \<Rightarrow> u8" where
  "btf_int_bits t = BTF_INT_BITS (btf_int_data t)"

definition btf_array :: "btf_type \<Rightarrow> btf_array_t" where
  "btf_array t = (case vdata t of VArray a \<Rightarrow> a
     | _ \<Rightarrow> \<lparr>a_type = 0, a_index_type = 0, a_nelems = 0\<rparr>)"
definition btf_enum :: "btf_type \<Rightarrow> btf_enum_t list" where
  "btf_enum t = (case vdata t of VEnums es \<Rightarrow> es | _ \<Rightarrow> [])"
definition btf_members :: "btf_type \<Rightarrow> btf_member_t list" where
  "btf_members t = (case vdata t of VMembers ms \<Rightarrow> ms | _ \<Rightarrow> [])"
definition btf_params :: "btf_type \<Rightarrow> btf_param_t list" where
  "btf_params t = (case vdata t of VParams ps \<Rightarrow> ps | _ \<Rightarrow> [])"
definition btf_var :: "btf_type \<Rightarrow> u32" where
  "btf_var t = (case vdata t of VVar l \<Rightarrow> l | _ \<Rightarrow> 0)"
definition btf_var_secinfos :: "btf_type \<Rightarrow> btf_var_secinfo_t list" where
  "btf_var_secinfos t = (case vdata t of VSecinfos vs \<Rightarrow> vs | _ \<Rightarrow> [])"

definition btf_member_bit_offset :: "btf_type \<Rightarrow> nat \<Rightarrow> u32" where
  "btf_member_bit_offset t i =
     (let m = btf_members t ! i in
      if btf_kflag t then BTF_MEMBER_BIT_OFFSET (m_offset m) else m_offset m)"

definition btf_member_bitfield_size :: "btf_type \<Rightarrow> nat \<Rightarrow> u32" where
  "btf_member_bitfield_size t i =
     (let m = btf_members t ! i in
      if btf_kflag t then BTF_MEMBER_BITFIELD_SIZE (m_offset m) else 0)"

subsection \<open>Sizes, decoding and encoding\<close>

definition kind_size :: "btf_kind_t \<Rightarrow> nat \<Rightarrow> nat result" where
  "kind_size k vlen =
     (case k of
        BTF_KIND_FWD \<Rightarrow> Inr sizeof_btf_type
      | BTF_KIND_CONST \<Rightarrow> Inr sizeof_btf_type
      | BTF_KIND_VOLATILE \<Rightarrow> Inr sizeof_btf_type
      | BTF_KIND_RESTRICT \<Rightarrow> Inr sizeof_btf_type
      | BTF_KIND_PTR \<Rightarrow> Inr sizeof_btf_type
      | BTF_KIND_TYPEDEF \<Rightarrow> Inr sizeof_btf_type
      | BTF_KIND_FUNC \<Rightarrow> Inr sizeof_btf_type
      | BTF_KIND_INT \<Rightarrow> Inr (sizeof_btf_type + 4)
      | BTF_KIND_ENUM \<Rightarrow> Inr (sizeof_btf_type + vlen * 8)
      | BTF_KIND_ARRAY \<Rightarrow> Inr (sizeof_btf_type + 12)
      | BTF_KIND_STRUCT \<Rightarrow> Inr (sizeof_btf_type + vlen * 12)
      | BTF_KIND_UNION \<Rightarrow> Inr (sizeof_btf_type + vlen * 12)
      | BTF_KIND_FUNC_PROTO \<Rightarrow> Inr (sizeof_btf_type + vlen * 8)
      | BTF_KIND_VAR \<Rightarrow> Inr (sizeof_btf_type + 4)
      | BTF_KIND_DATASEC \<Rightarrow> Inr (sizeof_btf_type + vlen * 12)
      | BTF_KIND_UNKN \<Rightarrow> Inl EINVAL)"

definition btf_type_size :: "btf_type \<Rightarrow> nat result" where
  "btf_type_size t = kind_size (btf_kind t) (btf_vlen t)"

fun words_members :: "u32 list \<Rightarrow> btf_member_t list" where
  "words_members (n # t # d # ws) =
     \<lparr>m_name_off = n, m_type = t, m_offset = d\<rparr> # words_members ws"
| "words_members _ = []"

fun words_secinfos :: "u32 list \<Rightarrow> btf_var_secinfo_t list" where
  "words_secinfos (t # d # s # ws) = \<lparr>v_type = t, v_offset = d, v_size = s\<rparr> # words_secinfos ws"
| "words_secinfos _ = []"

fun words_enums :: "u32 list \<Rightarrow> btf_enum_t list" where
  "words_enums (n # v # ws) = \<lparr>e_name_off = n, e_val = v\<rparr> # words_enums ws"
| "words_enums _ = []"

fun words_params :: "u32 list \<Rightarrow> btf_param_t list" where
  "words_params (n # t # ws) = \<lparr>p_name_off = n, p_type = t\<rparr> # words_params ws"
| "words_params _ = []"

definition vdata_of_words :: "btf_kind_t \<Rightarrow> u32 list \<Rightarrow> btf_vdata" where
  "vdata_of_words k ws =
     (case k of
        BTF_KIND_INT \<Rightarrow> VInt (hd (ws @ [0]))
      | BTF_KIND_ARRAY \<Rightarrow>
          (case ws of [t, i, n] \<Rightarrow> VArray \<lparr>a_type = t, a_index_type = i, a_nelems = n\<rparr> | _ \<Rightarrow> VNone)
      | BTF_KIND_STRUCT \<Rightarrow> VMembers (words_members ws)
      | BTF_KIND_UNION \<Rightarrow> VMembers (words_members ws)
      | BTF_KIND_ENUM \<Rightarrow> VEnums (words_enums ws)
      | BTF_KIND_FUNC_PROTO \<Rightarrow> VParams (words_params ws)
      | BTF_KIND_VAR \<Rightarrow> VVar (hd (ws @ [0]))
      | BTF_KIND_DATASEC \<Rightarrow> VSecinfos (words_secinfos ws)
      | _ \<Rightarrow> VNone)"

fun vdata_words :: "btf_vdata \<Rightarrow> u32 list" where
  "vdata_words VNone = []"
| "vdata_words (VInt v) = [v]"
| "vdata_words (VArray a) = [a_type a, a_index_type a, a_nelems a]"
| "vdata_words (VMembers ms) = concat (map (\<lambda>m. [m_name_off m, m_type m, m_offset m]) ms)"
| "vdata_words (VEnums es) = concat (map (\<lambda>e. [e_name_off e, e_val e]) es)"
| "vdata_words (VParams ps) = concat (map (\<lambda>p. [p_name_off p, p_type p]) ps)"
| "vdata_words (VVar l) = [l]"
| "vdata_words (VSecinfos vs) = concat (map (\<lambda>v. [v_type v, v_offset v, v_size v]) vs)"

definition encode_type :: "btf_type \<Rightarrow> u8 list" where
  "encode_type t = words_bytes ([name_off t, info t, size_type t] @ vdata_words (vdata t))"

definition btf_base_at :: "u8 list \<Rightarrow> nat \<Rightarrow> btf_type result" where
  "btf_base_at bs off =
     rbind (read_words bs off 3)
       (\<lambda>ws. Inr \<lparr>name_off = ws ! 0, info = ws ! 1, size_type = ws ! 2, vdata = VNone\<rparr>)"

definition btf_type_at :: "u8 list \<Rightarrow> nat \<Rightarrow> btf_type result" where
  "btf_type_at bs off =
     rbind (btf_base_at bs off) (\<lambda>t.
     rbind (btf_type_size t) (\<lambda>n.
     rbind (read_words bs (off + sizeof_btf_type) ((n - sizeof_btf_type) div 4)) (\<lambda>ws.
     Inr (t\<lparr>vdata := vdata_of_words (btf_kind t) ws\<rparr>))))"

text \<open>\<open>btf_type_info\<close> of \<^verbatim>\<open>btf.c\<close>: the info word of a new type.\<close>

definition btf_type_info :: "btf_kind_t \<Rightarrow> nat \<Rightarrow> bool \<Rightarrow> u32" where
  "btf_type_info kind vlen kflag =
     push_bit 31 (of_bool kflag) OR push_bit 24 (of_nat (kind_num kind)) OR of_nat vlen"

text \<open>The decoded data has the constructor of the kind and \<open>vlen\<close> elements.\<close>

definition wf_type :: "btf_type \<Rightarrow> bool" where
  "wf_type t \<longleftrightarrow>
     (case btf_kind t of
        BTF_KIND_UNKN \<Rightarrow> False
      | BTF_KIND_INT \<Rightarrow> (case vdata t of VInt _ \<Rightarrow> True | _ \<Rightarrow> False)
      | BTF_KIND_ARRAY \<Rightarrow> (case vdata t of VArray _ \<Rightarrow> True | _ \<Rightarrow> False)
      | BTF_KIND_STRUCT \<Rightarrow> (case vdata t of VMembers ms \<Rightarrow> length ms = btf_vlen t | _ \<Rightarrow> False)
      | BTF_KIND_UNION \<Rightarrow> (case vdata t of VMembers ms \<Rightarrow> length ms = btf_vlen t | _ \<Rightarrow> False)
      | BTF_KIND_ENUM \<Rightarrow> (case vdata t of VEnums es \<Rightarrow> length es = btf_vlen t | _ \<Rightarrow> False)
      | BTF_KIND_FUNC_PROTO \<Rightarrow> (case vdata t of VParams ps \<Rightarrow> length ps = btf_vlen t | _ \<Rightarrow> False)
      | BTF_KIND_VAR \<Rightarrow> (case vdata t of VVar _ \<Rightarrow> True | _ \<Rightarrow> False)
      | BTF_KIND_DATASEC \<Rightarrow> (case vdata t of VSecinfos vs \<Rightarrow> length vs = btf_vlen t | _ \<Rightarrow> False)
      | _ \<Rightarrow> vdata t = VNone)"

subsection \<open>The info word\<close>

lemma kind_num_less: "kind_num k < 16"
  by (cases k) auto

lemma num_kind_kind_num [simp]: "num_kind (kind_num k) = k"
  by (cases k) (simp_all add: num_kind_def)

lemma kind_num_num_kind: "n < 16 \<Longrightarrow> kind_num (num_kind n) = n"
proof -
  have "\<forall>n < 16. kind_num (num_kind n) = n" by code_simp
  then show "n < 16 \<Longrightarrow> kind_num (num_kind n) = n" by blast
qed

lemma bit_of_nat_high: "n < 2 ^ k \<Longrightarrow> k \<le> m \<Longrightarrow> \<not> bit n m" for n :: nat
  by (metis bit_take_bit_iff linorder_not_le take_bit_nat_eq_self)

lemma info_fields [simp]:
  assumes "vlen < 2 ^ 16"
  shows "BTF_INFO_KIND (btf_type_info k vlen f) = k"
    and "BTF_INFO_VLEN (btf_type_info k vlen f) = vlen"
    and "BTF_INFO_KFLAG (btf_type_info k vlen f) = f"
proof -
  have k4: "\<not> bit (kind_num k) m" if "4 \<le> m" for m
    using bit_of_nat_high [of "kind_num k" 4 m] kind_num_less [of k] that by simp
  have v16: "\<not> bit vlen m" if "16 \<le> m" for m
    using bit_of_nat_high [of vlen 16 m] assms that by simp
  have k4d: "m < 4" if "bit (kind_num k) m" for m
    using that k4 [of m] by linarith
  have v16d: "m < 16" if "bit vlen m" for m
    using that v16 [of m] by linarith
  have mask4: "(0x0f :: u32) = mask 4" "(0xffff :: u32) = mask 16" by (simp_all add: mask_eq_exp_minus_1)
  have "drop_bit 24 (btf_type_info k vlen f) AND 0x0f = word_of_nat (kind_num k)"
    unfolding mask4 btf_type_info_def
    by (rule bit_word_eqI) (auto simp: bit_simps k4 v16 not_le not_less dest: k4d)
  then show "BTF_INFO_KIND (btf_type_info k vlen f) = k"
    using kind_num_less [of k] by (simp add: BTF_INFO_KIND_def unat_of_nat)
  have "btf_type_info k vlen f AND 0xffff = word_of_nat vlen"
    unfolding mask4 btf_type_info_def
    by (rule bit_word_eqI) (auto simp: bit_simps v16 not_le not_less dest: v16d)
  then show "BTF_INFO_VLEN (btf_type_info k vlen f) = vlen"
    using assms by (simp add: BTF_INFO_VLEN_def unat_of_nat)
  have "drop_bit 31 (btf_type_info k vlen f) = of_bool f"
    unfolding btf_type_info_def
    by (rule bit_word_eqI) (auto simp: bit_simps k4 v16 not_le not_less)
  then show "BTF_INFO_KFLAG (btf_type_info k vlen f) = f"
    by (simp add: BTF_INFO_KFLAG_def)
qed

lemma btf_vlen_less [bounds_simps]: "btf_vlen t < 2 ^ 16"
proof -
  have "btf_vlen t = unat (take_bit 16 (info t))"
    by (simp add: btf_vlen_def BTF_INFO_VLEN_def take_bit_eq_mask mask_eq_exp_minus_1)
  also have "\<dots> < 2 ^ 16"
    using take_bit_nat_less_exp [of 16 "unat (info t)"] by (simp add: unsigned_take_bit_eq)
  finally show ?thesis .
qed

subsection \<open>Decoding inverts encoding\<close>

lemma words_members_concat [simp]:
  "words_members (concat (map (\<lambda>m. [m_name_off m, m_type m, m_offset m]) ms)) = ms"
  by (induction ms) auto

lemma words_secinfos_concat [simp]:
  "words_secinfos (concat (map (\<lambda>v. [v_type v, v_offset v, v_size v]) vs)) = vs"
  by (induction vs) auto

lemma words_enums_concat [simp]:
  "words_enums (concat (map (\<lambda>e. [e_name_off e, e_val e]) es)) = es"
  by (induction es) auto

lemma words_params_concat [simp]:
  "words_params (concat (map (\<lambda>p. [p_name_off p, p_type p]) ps)) = ps"
  by (induction ps) auto

lemma length_3_Suc: "length ws = 3 * Suc n \<Longrightarrow> \<exists>a b c vs. ws = a # b # c # vs \<and> length vs = 3 * n"
  by (cases ws; cases "tl ws"; cases "tl (tl ws)") auto

lemma length_2_Suc: "length ws = 2 * Suc n \<Longrightarrow> \<exists>a b vs. ws = a # b # vs \<and> length vs = 2 * n"
  by (cases ws; cases "tl ws") auto

lemma words_members_inv: "length ws = 3 * n \<Longrightarrow>
    length (words_members ws) = n \<and> vdata_words (VMembers (words_members ws)) = ws"
proof (induction n arbitrary: ws)
  case (Suc n)
  from length_3_Suc [OF Suc.prems] obtain a b c vs where
    "ws = a # b # c # vs" "length vs = 3 * n" by blast
  with Suc.IH [of vs] show ?case by simp
qed simp

lemma words_secinfos_inv: "length ws = 3 * n \<Longrightarrow>
    length (words_secinfos ws) = n \<and> vdata_words (VSecinfos (words_secinfos ws)) = ws"
proof (induction n arbitrary: ws)
  case (Suc n)
  from length_3_Suc [OF Suc.prems] obtain a b c vs where
    "ws = a # b # c # vs" "length vs = 3 * n" by blast
  with Suc.IH [of vs] show ?case by simp
qed simp

lemma words_enums_inv: "length ws = 2 * n \<Longrightarrow>
    length (words_enums ws) = n \<and> vdata_words (VEnums (words_enums ws)) = ws"
proof (induction n arbitrary: ws)
  case (Suc n)
  from length_2_Suc [OF Suc.prems] obtain a b vs where
    "ws = a # b # vs" "length vs = 2 * n" by blast
  with Suc.IH [of vs] show ?case by simp
qed simp

lemma words_params_inv: "length ws = 2 * n \<Longrightarrow>
    length (words_params ws) = n \<and> vdata_words (VParams (words_params ws)) = ws"
proof (induction n arbitrary: ws)
  case (Suc n)
  from length_2_Suc [OF Suc.prems] obtain a b vs where
    "ws = a # b # vs" "length vs = 2 * n" by blast
  with Suc.IH [of vs] show ?case by simp
qed simp

lemma length_vdata_words:
  "length (vdata_words (VMembers ms)) = 3 * length ms"
  "length (vdata_words (VSecinfos vs)) = 3 * length vs"
  "length (vdata_words (VEnums es)) = 2 * length es"
  "length (vdata_words (VParams ps)) = 2 * length ps"
  by (induction ms, auto, induction vs, auto, induction es, auto, induction ps, auto)

lemma vdata_of_vdata_words:
  assumes "wf_type t"
  shows "vdata_of_words (btf_kind t) (vdata_words (vdata t)) = vdata t"
  using assms
  by (auto simp: wf_type_def vdata_of_words_def split: btf_kind_t.splits btf_vdata.splits)

lemma btf_type_size_encode:
  assumes "wf_type t"
  shows "btf_type_size t = Inr (length (encode_type t))"
  using assms
  by (auto simp: wf_type_def btf_type_size_def kind_size_def encode_type_def sizeof_btf_type_def
      length_vdata_words simp del: vdata_words.simps(4,5,6,8)
      split: btf_kind_t.splits btf_vdata.splits)

lemma length_1D: "length ws = Suc 0 \<Longrightarrow> \<exists>a. ws = [a]"
  by (cases ws) auto

lemma length_3D: "length ws = 3 \<Longrightarrow> \<exists>a b c. ws = [a, b, c]"
  using length_3_Suc [of ws 0] by auto

lemma wf_vdata_of_words:
  assumes "kind_size (btf_kind t) (btf_vlen t) = Inr n" "4 * length ws = n - sizeof_btf_type"
    and "vdata t = vdata_of_words (btf_kind t) ws"
  shows "wf_type t \<and> vdata_words (vdata t) = ws"
proof -
  note inv = words_members_inv [of ws "btf_vlen t"] words_secinfos_inv [of ws "btf_vlen t"]
    words_enums_inv [of ws "btf_vlen t"] words_params_inv [of ws "btf_vlen t"]
  show ?thesis
    using assms inv length_1D [of ws] length_3D [of ws]
    by (cases "btf_kind t")
      (auto simp: wf_type_def kind_size_def vdata_of_words_def sizeof_btf_type_def
        simp del: vdata_words.simps(4,5,6,8))
qed

lemma btf_type_size_vdata [simp]:
  "btf_type_size (t\<lparr>vdata := v\<rparr>) = btf_type_size t" "btf_kind (t\<lparr>vdata := v\<rparr>) = btf_kind t"
  "btf_vlen (t\<lparr>vdata := v\<rparr>) = btf_vlen t"
  by (simp_all add: btf_type_size_def btf_kind_def btf_vlen_def)

lemma length_encode_type: "length (encode_type t) = sizeof_btf_type + 4 * length (vdata_words (vdata t))"
  by (simp add: encode_type_def sizeof_btf_type_def)

lemma btf_type_at_encode:
  assumes "wf_type t"
  shows "btf_type_at (pre @ encode_type t @ post) (length pre) = Inr t"
proof -
  let ?b = "[name_off t, info t, size_type t]" and ?v = "vdata_words (vdata t)"
  let ?t = "\<lparr>name_off = name_off t, info = info t, size_type = size_type t, vdata = VNone\<rparr>"
  have bs: "pre @ encode_type t @ post = pre @ words_bytes ?b @ (words_bytes ?v @ post)"
    "pre @ encode_type t @ post = (pre @ words_bytes ?b) @ words_bytes ?v @ post"
    by (simp_all add: encode_type_def)
  have "read_words (pre @ encode_type t @ post) (length pre) 3 = Inr ?b"
    unfolding bs(1) using read_words_at [of pre ?b] by (simp add: eval_nat_numeral)
  then have base: "btf_base_at (pre @ encode_type t @ post) (length pre) = Inr ?t"
    by (simp add: btf_base_at_def)
  have kind: "btf_kind ?t = btf_kind t" "btf_vlen ?t = btf_vlen t"
    by (simp_all add: btf_kind_def btf_vlen_def)
  then have size: "btf_type_size ?t = Inr (length (encode_type t))"
    using btf_type_size_encode [OF assms] by (simp add: btf_type_size_def)
  have "read_words (pre @ encode_type t @ post) (length pre + sizeof_btf_type) (length ?v) = Inr ?v"
    unfolding bs(2) using read_words_at [of "pre @ words_bytes ?b" ?v post]
    by (simp add: sizeof_btf_type_def)
  then show ?thesis
    by (simp add: btf_type_at_def base size kind length_encode_type vdata_of_vdata_words [OF assms])
qed

lemma kind_size_ge:
  "kind_size k v = Inr n \<Longrightarrow> sizeof_btf_type \<le> n \<and> 4 * ((n - sizeof_btf_type) div 4) = n - sizeof_btf_type"
  by (cases k) (auto simp: kind_size_def sizeof_btf_type_def)

lemma btf_type_at_sound:
  assumes "btf_type_at bs off = Inr t"
  shows "wf_type t" and "off + length (encode_type t) \<le> length bs"
    and "take (length (encode_type t)) (drop off bs) = encode_type t"
proof -
  obtain bw t0 n ws where bw: "read_words bs off 3 = Inr bw"
    and t0: "t0 = \<lparr>name_off = bw ! 0, info = bw ! 1, size_type = bw ! 2, vdata = VNone\<rparr>"
    and n0: "btf_type_size t0 = Inr n"
    and ws: "read_words bs (off + sizeof_btf_type) ((n - sizeof_btf_type) div 4) = Inr ws"
    and tt: "t = t0\<lparr>vdata := vdata_of_words (btf_kind t0) ws\<rparr>"
    using assms unfolding btf_type_at_def btf_base_at_def rbind_Inr_iff by auto
  obtain a b c where abc: "bw = [a, b, c]"
    using read_words_length [OF bw] length_3D by blast
  then have base: "read_words bs off 3 = Inr [a, b, c]" using bw by simp
  have n: "btf_type_size t = Inr n" using n0 by (simp add: tt)
  have t: "name_off t = a" "info t = b" "size_type t = c" "vdata t = vdata_of_words (btf_kind t) ws"
    by (simp_all add: tt t0 abc btf_kind_def)
  note ks = kind_size_ge [OF n [unfolded btf_type_size_def]]
  have "length ws = (n - sizeof_btf_type) div 4" using read_words_length [OF ws] by simp
  then have lw: "4 * length ws = n - sizeof_btf_type" using ks by simp
  have wf: "wf_type t \<and> vdata_words (vdata t) = ws"
    using wf_vdata_of_words [OF n [unfolded btf_type_size_def] lw t(4)] .
  then show "wf_type t" ..
  have len: "length (encode_type t) = sizeof_btf_type + 4 * length ws"
    using wf by (simp add: length_encode_type)
  show "off + length (encode_type t) \<le> length bs"
    using read_words_length [OF base] read_words_length [OF ws] lw
    by (cases "length ws") (auto simp: len sizeof_btf_type_def)
  have "take (length (encode_type t)) (drop off bs) =
      take (4 * 3) (drop off bs) @ take (4 * length ws) (drop (off + sizeof_btf_type) bs)"
    unfolding len take_add by (simp add: sizeof_btf_type_def add.commute)
  also have "\<dots> = words_bytes [a, b, c] @ words_bytes ws"
    using read_words_bytes [OF base] read_words_bytes [OF ws] read_words_length [OF ws] by simp
  finally show "take (length (encode_type t)) (drop off bs) = encode_type t"
    using wf t by (simp add: encode_type_def)
qed

lemma btf_type_at_append:
  assumes "btf_type_at bs off = Inr t"
  shows "btf_type_at (bs @ r) off = Inr t"
proof -
  note s = btf_type_at_sound [OF assms]
  have "bs = take off bs @ take (length (encode_type t)) (drop off bs) @ drop (off + length (encode_type t)) bs"
    by (metis append_take_drop_id drop_drop add.commute)
  then have "bs @ r = take off bs @ encode_type t @ (drop (off + length (encode_type t)) bs @ r)"
    unfolding s(3) by (metis append.assoc)
  moreover have "length (take off bs) = off" using s(2) by simp
  ultimately show ?thesis using btf_type_at_encode [OF s(1)] by metis
qed

end
