(* ===== verification/Hashmap.thy ===== *)
theory Hashmap
  imports Prelude
begin

text \<open>
  The chained hash table of \<^verbatim>\<open>hashmap.c\<close> and \<^verbatim>\<open>hashmap.h\<close>.

  A bucket chain is the list of its entries, head first; the array of buckets is a list of
  chains, and \<open>[]\<close> stands for the \<open>NULL\<close> array of an empty table. The callbacks
  \<open>hash_fn\<close> and \<open>equal_fn\<close> get the table's \<open>ctx\<close>, as in the source.
\<close>

subsection \<open>Data and operations\<close>

definition hash_bits :: "u64 \<Rightarrow> nat \<Rightarrow> nat" where
  "hash_bits h bits =
     (if bits = 0 then 0
      else unat (drop_bit (64 - bits) (h * 11400714819323198485)))"

fun str_hash_from :: "u64 \<Rightarrow> string \<Rightarrow> u64" where
  "str_hash_from h [] = h"
| "str_hash_from h (c # s) =
     (if c = NUL then h else str_hash_from (h * 31 + char_signed c) s)"

definition str_hash :: "string \<Rightarrow> u64" where
  "str_hash s = str_hash_from 0 s"

record ('k, 'v) hashmap_entry =
  key :: 'k
  hvalue :: 'v

record ('c, 'k, 'v) hashmap =
  hash_fn :: "'c \<Rightarrow> 'k \<Rightarrow> u64"
  equal_fn :: "'c \<Rightarrow> 'k \<Rightarrow> 'k \<Rightarrow> bool"
  ctx :: 'c
  buckets :: "('k, 'v) hashmap_entry list list"
  cap :: nat
  cap_bits :: nat
  sz :: nat

datatype hashmap_insert_strategy =
  HASHMAP_ADD | HASHMAP_SET | HASHMAP_UPDATE | HASHMAP_APPEND

definition HASHMAP_MIN_CAP_BITS :: nat where
  "HASHMAP_MIN_CAP_BITS = 2"

definition sizeof_ptr :: nat where "sizeof_ptr = 8"
definition sizeof_hashmap_entry :: nat where "sizeof_hashmap_entry = 24"
definition sizeof_hashmap :: nat where "sizeof_hashmap = 56"

definition hashmap_add_entry :: "('k, 'v) hashmap_entry list \<Rightarrow> ('k, 'v) hashmap_entry
    \<Rightarrow> ('k, 'v) hashmap_entry list" where
  "hashmap_add_entry chain entry = entry # chain"

definition hashmap_del_entry :: "('k, 'v) hashmap_entry list \<Rightarrow> nat
    \<Rightarrow> ('k, 'v) hashmap_entry list" where
  "hashmap_del_entry chain i = take i chain @ drop (Suc i) chain"

definition hashmap__init :: "('c \<Rightarrow> 'k \<Rightarrow> u64) \<Rightarrow> ('c \<Rightarrow> 'k \<Rightarrow> 'k \<Rightarrow> bool) \<Rightarrow> 'c
    \<Rightarrow> ('c, 'k, 'v) hashmap" where
  "hashmap__init hf ef c =
     \<lparr>hash_fn = hf, equal_fn = ef, ctx = c, buckets = [], cap = 0, cap_bits = 0, sz = 0\<rparr>"

definition hashmap__new :: "alloc \<Rightarrow> ('c \<Rightarrow> 'k \<Rightarrow> u64) \<Rightarrow> ('c \<Rightarrow> 'k \<Rightarrow> 'k \<Rightarrow> bool) \<Rightarrow> 'c
    \<Rightarrow> ('c, 'k, 'v) hashmap result" where
  "hashmap__new alloc hf ef c =
     (if \<not> alloc sizeof_hashmap then Inl ENOMEM else Inr (hashmap__init hf ef c))"

definition hashmap__clear :: "('c, 'k, 'v) hashmap \<Rightarrow> ('c, 'k, 'v) hashmap" where
  "hashmap__clear m = m\<lparr>buckets := [], cap := 0, cap_bits := 0, sz := 0\<rparr>"

definition hashmap__size :: "('c, 'k, 'v) hashmap \<Rightarrow> nat" where
  "hashmap__size m = sz m"

definition hashmap__capacity :: "('c, 'k, 'v) hashmap \<Rightarrow> nat" where
  "hashmap__capacity m = cap m"

definition hashmap_needs_to_grow :: "('c, 'k, 'v) hashmap \<Rightarrow> bool" where
  "hashmap_needs_to_grow m \<longleftrightarrow> cap m = 0 \<or> (sz m + 1) * 4 div 3 > cap m"

fun rehash :: "('k \<Rightarrow> nat) \<Rightarrow> ('k, 'v) hashmap_entry list
    \<Rightarrow> ('k, 'v) hashmap_entry list list \<Rightarrow> ('k, 'v) hashmap_entry list list" where
  "rehash slot [] bs = bs"
| "rehash slot (e # es) bs =
     (let h = slot (key e) in rehash slot es (bs[h := hashmap_add_entry (bs ! h) e]))"

definition hashmap_grow :: "alloc \<Rightarrow> ('c, 'k, 'v) hashmap \<Rightarrow> ('c, 'k, 'v) hashmap result" where
  "hashmap_grow alloc m =
     (let new_cap_bits = max (cap_bits m + 1) HASHMAP_MIN_CAP_BITS;
          new_cap = 2 ^ new_cap_bits
      in if \<not> alloc (new_cap * sizeof_ptr) then Inl ENOMEM
         else Inr (m\<lparr>cap := new_cap, cap_bits := new_cap_bits,
           buckets := rehash (\<lambda>k. hash_bits (hash_fn m (ctx m) k) new_cap_bits)
                        (concat (buckets m)) (replicate new_cap [])\<rparr>))"

fun chain_find :: "('k \<Rightarrow> bool) \<Rightarrow> ('k, 'v) hashmap_entry list
    \<Rightarrow> (nat \<times> ('k, 'v) hashmap_entry) option" where
  "chain_find p [] = None"
| "chain_find p (e # es) =
     (if p (key e) then Some (0, e) else map_option (\<lambda>(i, x). (Suc i, x)) (chain_find p es))"

definition hashmap_find_entry :: "('c, 'k, 'v) hashmap \<Rightarrow> 'k \<Rightarrow> nat
    \<Rightarrow> (nat \<times> ('k, 'v) hashmap_entry) option" where
  "hashmap_find_entry m k h =
     (if buckets m = [] then None
      else chain_find (\<lambda>k'. equal_fn m (ctx m) k' k) (buckets m ! h))"

definition slot_of :: "('c, 'k, 'v) hashmap \<Rightarrow> 'k \<Rightarrow> nat" where
  "slot_of m k = hash_bits (hash_fn m (ctx m) k) (cap_bits m)"

record ('c, 'k, 'v) insert_res =
  ins_map :: "('c, 'k, 'v) hashmap"
  ins_err :: "errno option"
  old_key :: "'k option"
  old_value :: "'v option"

definition hashmap_push :: "('c, 'k, 'v) hashmap \<Rightarrow> 'k \<Rightarrow> 'v \<Rightarrow> ('c, 'k, 'v) hashmap" where
  "hashmap_push m k v =
     (let h = slot_of m k in
      m\<lparr>buckets := (buckets m)[h := hashmap_add_entry (buckets m ! h) \<lparr>key = k, hvalue = v\<rparr>],
        sz := sz m + 1\<rparr>)"

definition hashmap_insert_new :: "alloc \<Rightarrow> ('c, 'k, 'v) hashmap \<Rightarrow> 'k \<Rightarrow> 'v
    \<Rightarrow> ('c, 'k, 'v) hashmap \<times> errno option" where
  "hashmap_insert_new alloc m k v =
     (case (if hashmap_needs_to_grow m then hashmap_grow alloc m else Inr m) of
        Inl e \<Rightarrow> (m, Some e)
      | Inr m' \<Rightarrow>
          if \<not> alloc sizeof_hashmap_entry then (m', Some ENOMEM)
          else (hashmap_push m' k v, None))"

definition hashmap__insert :: "alloc \<Rightarrow> ('c, 'k, 'v) hashmap \<Rightarrow> 'k \<Rightarrow> 'v
    \<Rightarrow> hashmap_insert_strategy \<Rightarrow> ('c, 'k, 'v) insert_res" where
  "hashmap__insert alloc m k v strategy =
     (let h = slot_of m k;
          found = (if strategy = HASHMAP_APPEND then None else hashmap_find_entry m k h)
      in case found of
           Some (i, e) \<Rightarrow>
             if strategy = HASHMAP_SET \<or> strategy = HASHMAP_UPDATE then
               \<lparr>ins_map = m\<lparr>buckets := (buckets m)[h := (buckets m ! h)[i := \<lparr>key = k, hvalue = v\<rparr>]]\<rparr>,
                ins_err = None, old_key = Some (key e), old_value = Some (hvalue e)\<rparr>
             else
               \<lparr>ins_map = m, ins_err = Some EEXIST,
                old_key = Some (key e), old_value = Some (hvalue e)\<rparr>
         | None \<Rightarrow>
             if strategy = HASHMAP_UPDATE then
               \<lparr>ins_map = m, ins_err = Some ENOENT, old_key = None, old_value = None\<rparr>
             else
               (let (m', err) = hashmap_insert_new alloc m k v in
                \<lparr>ins_map = m', ins_err = err, old_key = None, old_value = None\<rparr>))"

definition hashmap__add :: "alloc \<Rightarrow> ('c, 'k, 'v) hashmap \<Rightarrow> 'k \<Rightarrow> 'v
    \<Rightarrow> ('c, 'k, 'v) insert_res" where
  "hashmap__add alloc m k v = hashmap__insert alloc m k v HASHMAP_ADD"

definition hashmap__set :: "alloc \<Rightarrow> ('c, 'k, 'v) hashmap \<Rightarrow> 'k \<Rightarrow> 'v
    \<Rightarrow> ('c, 'k, 'v) insert_res" where
  "hashmap__set alloc m k v = hashmap__insert alloc m k v HASHMAP_SET"

definition hashmap__update :: "alloc \<Rightarrow> ('c, 'k, 'v) hashmap \<Rightarrow> 'k \<Rightarrow> 'v
    \<Rightarrow> ('c, 'k, 'v) insert_res" where
  "hashmap__update alloc m k v = hashmap__insert alloc m k v HASHMAP_UPDATE"

definition hashmap__append :: "alloc \<Rightarrow> ('c, 'k, 'v) hashmap \<Rightarrow> 'k \<Rightarrow> 'v
    \<Rightarrow> ('c, 'k, 'v) insert_res" where
  "hashmap__append alloc m k v = hashmap__insert alloc m k v HASHMAP_APPEND"

definition hashmap__find :: "('c, 'k, 'v) hashmap \<Rightarrow> 'k \<Rightarrow> 'v option" where
  "hashmap__find m k = map_option (\<lambda>(i, e). hvalue e) (hashmap_find_entry m k (slot_of m k))"

definition hashmap__delete :: "('c, 'k, 'v) hashmap \<Rightarrow> 'k
    \<Rightarrow> (('c, 'k, 'v) hashmap \<times> 'k \<times> 'v) option" where
  "hashmap__delete m k =
     (let h = slot_of m k in
      case hashmap_find_entry m k h of
        None \<Rightarrow> None
      | Some (i, e) \<Rightarrow>
          Some (m\<lparr>buckets := (buckets m)[h := hashmap_del_entry (buckets m ! h) i],
                  sz := sz m - 1\<rparr>, key e, hvalue e))"

definition hashmap__for_each_entry :: "('c, 'k, 'v) hashmap \<Rightarrow> ('k, 'v) hashmap_entry list" where
  "hashmap__for_each_entry m = concat (buckets m)"

definition hashmap__for_each_key_entry :: "('c, 'k, 'v) hashmap \<Rightarrow> 'k
    \<Rightarrow> ('k, 'v) hashmap_entry list" where
  "hashmap__for_each_key_entry m k =
     (if buckets m = [] then []
      else filter (\<lambda>e. equal_fn m (ctx m) (key e) k) (buckets m ! slot_of m k))"

subsection \<open>The callbacks the clients install\<close>

text \<open>
  A \<open>void *\<close> key that is a number is its 64-bit value; the \<open>ctx\<close> of these tables is
  \<open>NULL\<close>, here \<open>()\<close>.
\<close>

definition btf_dedup_identity_hash_fn :: "unit \<Rightarrow> u64 \<Rightarrow> u64" where
  "btf_dedup_identity_hash_fn c k = k"

definition btf_dedup_collision_hash_fn :: "unit \<Rightarrow> u64 \<Rightarrow> u64" where
  "btf_dedup_collision_hash_fn c k = 0"

definition btf_dedup_equal_fn :: "unit \<Rightarrow> u64 \<Rightarrow> u64 \<Rightarrow> bool" where
  "btf_dedup_equal_fn c k1 k2 \<longleftrightarrow> k1 = k2"

definition bpf_core_hash_fn :: "unit \<Rightarrow> u64 \<Rightarrow> u64" where
  "bpf_core_hash_fn c k = k"

definition bpf_core_equal_fn :: "unit \<Rightarrow> u64 \<Rightarrow> u64 \<Rightarrow> bool" where
  "bpf_core_equal_fn c k1 k2 \<longleftrightarrow> k1 = k2"

definition u32_as_hash_key :: "u32 \<Rightarrow> u64" where
  "u32_as_hash_key x = ucast x"

definition str_hash_fn :: "unit \<Rightarrow> string \<Rightarrow> u64" where
  "str_hash_fn c k = str_hash k"

definition str_equal_fn :: "unit \<Rightarrow> string \<Rightarrow> string \<Rightarrow> bool" where
  "str_equal_fn c a b \<longleftrightarrow> cstr a = cstr b"

subsection \<open>Specification: a map up to the clients' key equality\<close>

definition map_put :: "('k \<Rightarrow> 'k \<Rightarrow> bool) \<Rightarrow> ('k \<rightharpoonup> 'v) \<Rightarrow> 'k \<Rightarrow> 'v \<Rightarrow> ('k \<rightharpoonup> 'v)" where
  "map_put ef M k v = (\<lambda>k'. if ef k k' then Some v else M k')"

definition insert_spec :: "('k \<Rightarrow> 'k \<Rightarrow> bool) \<Rightarrow> ('k \<rightharpoonup> 'v) \<Rightarrow> 'k \<Rightarrow> 'v
    \<Rightarrow> hashmap_insert_strategy \<Rightarrow> ('k \<rightharpoonup> 'v) \<times> errno option \<times> 'v option" where
  "insert_spec ef M k v strategy =
     (case strategy of
        HASHMAP_ADD \<Rightarrow>
          (case M k of None \<Rightarrow> (map_put ef M k v, None, None) | Some w \<Rightarrow> (M, Some EEXIST, Some w))
      | HASHMAP_SET \<Rightarrow> (map_put ef M k v, None, M k)
      | HASHMAP_UPDATE \<Rightarrow>
          (case M k of None \<Rightarrow> (M, Some ENOENT, None) | Some w \<Rightarrow> (map_put ef M k v, None, Some w))
      | HASHMAP_APPEND \<Rightarrow> (map_put ef M k v, None, None))"

subsection \<open>Invariant and abstraction\<close>

definition hashmap_inv :: "('c, 'k, 'v) hashmap \<Rightarrow> bool" where
  "hashmap_inv m \<longleftrightarrow>
     length (buckets m) = cap m \<and>
     sz m = length (concat (buckets m)) \<and>
     (if cap m = 0 then cap_bits m = 0
      else cap m = 2 ^ cap_bits m \<and> HASHMAP_MIN_CAP_BITS \<le> cap_bits m) \<and>
     (\<forall>i < cap m. \<forall>e \<in> set (buckets m ! i). slot_of m (key e) = i) \<and>
     sz m * 4 div 3 \<le> cap m"

definition uses_callbacks :: "('k \<Rightarrow> u64) \<Rightarrow> ('k \<Rightarrow> 'k \<Rightarrow> bool) \<Rightarrow> ('c, 'k, 'v) hashmap \<Rightarrow> bool" where
  "uses_callbacks hf ef m \<longleftrightarrow> hash_fn m (ctx m) = hf \<and> equal_fn m (ctx m) = ef"

text \<open>The values stored under a key, first match first, read off the whole table.\<close>

definition key_values :: "('c, 'k, 'v) hashmap \<Rightarrow> 'k \<Rightarrow> 'v list" where
  "key_values m k =
     map hvalue (filter (\<lambda>e. equal_fn m (ctx m) (key e) k) (hashmap__for_each_entry m))"

definition unique_keys :: "('c, 'k, 'v) hashmap \<Rightarrow> bool" where
  "unique_keys m \<longleftrightarrow> (\<forall>k. length (key_values m k) \<le> 1)"

subsection \<open>Lists of chains\<close>

lemma hash_bits_less [bounds_simps]: "hash_bits h bits < 2 ^ bits"
proof (cases "64 \<le> bits")
  case True
  have "unat (drop_bit (64 - bits) (h * 11400714819323198485)) < 2 ^ 64"
    using unsigned_less [where 'a = nat and 'b = 64] by simp
  also have "(2 :: nat) ^ 64 \<le> 2 ^ bits" using True by (rule power_increasing) simp
  finally show ?thesis by (simp add: hash_bits_def)
next
  case False
  let ?w = "h * 11400714819323198485"
  have "unat (drop_bit (64 - bits) ?w) = drop_bit (64 - bits) (unat ?w)"
    using unsigned_less [of ?w, where 'a = nat]
    by (simp add: unsigned_drop_bit_eq take_bit_nat_eq_self del: unsigned_less)
  also have "\<dots> = unat ?w div 2 ^ (64 - bits)" by (simp add: drop_bit_eq_div)
  also have "\<dots> < 2 ^ bits"
  proof (rule less_mult_imp_div_less)
    have "(2 :: nat) ^ bits * 2 ^ (64 - bits) = 2 ^ 64"
      using False by (simp flip: power_add)
    then show "unat ?w < 2 ^ bits * 2 ^ (64 - bits)"
      using unsigned_less [of ?w, where 'a = nat] by simp
  qed
  finally show ?thesis by (simp add: hash_bits_def)
qed

lemma concat_split:
  "h < length bss \<Longrightarrow> concat bss = concat (take h bss) @ bss ! h @ concat (drop (Suc h) bss)"
  by (metis concat.simps(2) concat_append id_take_nth_drop)

lemma mset_concat_update:
  assumes "h < length bss"
  shows "mset (concat (bss[h := c])) + mset (bss ! h) = mset (concat bss) + mset c"
  using assms by (simp add: upd_conv_take_nth_drop concat_split [OF assms] ac_simps)

lemma filter_concat_at:
  assumes "h < length bss" "\<And>i. i < length bss \<Longrightarrow> i \<noteq> h \<Longrightarrow> filter P (bss ! i) = []"
  shows "filter P (concat bss) = filter P (bss ! h)"
proof -
  have *: "\<not> P x" if xs: "xs \<in> set bs" and x: "x \<in> set xs"
    and bs: "bs = take h bss \<or> bs = drop (Suc h) bss" for bs xs x
  proof -
    obtain i where i: "i < length bs" "xs = bs ! i" using xs by (auto simp: in_set_conv_nth)
    then obtain j where "j < length bss" "j \<noteq> h" "xs = bss ! j"
    proof (cases "bs = take h bss")
      case True
      with i assms(1) show ?thesis by (intro that [of i]) auto
    next
      case False
      with i bs assms(1) show ?thesis by (intro that [of "Suc h + i"]) auto
    qed
    with assms(2) x show ?thesis by (auto simp: filter_empty_conv)
  qed
  then have "filter P (concat (take h bss)) = []" "filter P (concat (drop (Suc h) bss)) = []"
    by (auto simp: filter_empty_conv)
  then show ?thesis by (simp add: concat_split [OF assms(1)])
qed

lemma chain_find_Some:
  "chain_find p c = Some (i, e) \<Longrightarrow>
     i < length c \<and> c ! i = e \<and> p (key e) \<and> (\<forall>j < i. \<not> p (key (c ! j)))"
proof (induction c arbitrary: i)
  case (Cons a c)
  show ?case
  proof (cases "p (key a)")
    case False
    with Cons.prems obtain j where j: "i = Suc j" "chain_find p c = Some (j, e)" by auto
    from Cons.IH [OF j(2)] j(1) False show ?thesis by (auto simp: less_Suc_eq_0_disj)
  qed (use Cons.prems in auto)
qed simp

lemma chain_find_None: "chain_find p c = None \<longleftrightarrow> (\<forall>e \<in> set c. \<not> p (key e))"
  by (induction c) auto

lemma chain_find_filter:
  "map_option (\<lambda>(i, e). e) (chain_find p c) =
     (case filter (\<lambda>e. p (key e)) c of [] \<Rightarrow> None | e # _ \<Rightarrow> Some e)"
  by (induction c) (auto simp: option.map_comp comp_def split_beta)

lemma length_rehash [simp]: "length (rehash slot es bs) = length bs"
  by (induction es arbitrary: bs) (auto simp: Let_def)

lemma mset_rehash:
  assumes "\<And>e. e \<in> set es \<Longrightarrow> slot (key e) < length bs"
  shows "mset (concat (rehash slot es bs)) = mset es + mset (concat bs)"
  using assms
proof (induction es arbitrary: bs)
  case (Cons e es)
  let ?bs = "bs[slot (key e) := e # bs ! slot (key e)]"
  have "mset (concat ?bs) = add_mset e (mset (concat bs))"
    using mset_concat_update [of "slot (key e)" bs "e # bs ! slot (key e)"] Cons.prems by auto
  then show ?case using Cons by (simp add: Let_def hashmap_add_entry_def)
qed simp

lemma rehash_slots:
  assumes "\<And>i e. i < length bs \<Longrightarrow> e \<in> set (bs ! i) \<Longrightarrow> slot (key e) = i"
    and "i < length bs" and "e \<in> set (rehash slot es bs ! i)"
  shows "slot (key e) = i"
  using assms
proof (induction es arbitrary: bs)
  case (Cons a es)
  show ?case
  proof (rule Cons.IH)
    show "e \<in> set (rehash slot es (bs[slot (key a) := a # bs ! slot (key a)]) ! i)"
      using Cons.prems(3) by (simp add: Let_def hashmap_add_entry_def)
    show "slot (key x) = j"
      if "j < length (bs[slot (key a) := a # bs ! slot (key a)])"
        and "x \<in> set (bs[slot (key a) := a # bs ! slot (key a)] ! j)" for j x
      using that Cons.prems(1)
      by (cases "slot (key a) < length bs") (auto simp: nth_list_update split: if_splits)
  qed (use Cons.prems(2) in simp)
qed auto

subsection \<open>Every operation keeps the invariant\<close>

lemma slot_of_less [bounds_simps]: "hashmap_inv m \<Longrightarrow> cap m \<noteq> 0 \<Longrightarrow> slot_of m k < cap m"
  by (simp add: hashmap_inv_def slot_of_def hash_bits_less)

lemma hashmap_inv_length: "hashmap_inv m \<Longrightarrow> length (buckets m) = cap m"
  by (simp add: hashmap_inv_def)

lemma hashmap_inv_slot:
  "hashmap_inv m \<Longrightarrow> i < cap m \<Longrightarrow> e \<in> set (buckets m ! i) \<Longrightarrow> slot_of m (key e) = i"
  by (simp add: hashmap_inv_def)

lemma hashmap_inv_sz: "hashmap_inv m \<Longrightarrow> sz m = length (concat (buckets m))"
  by (simp add: hashmap_inv_def)

lemma hashmap_inv_rebucket:
  assumes inv: "hashmap_inv m" and "length (buckets m') = cap m" "cap m' = cap m"
    "cap_bits m' = cap_bits m" "sz m' = length (concat (buckets m'))" "sz m' \<le> sz m"
    and "\<And>i e. i < cap m \<Longrightarrow> e \<in> set (buckets m' ! i) \<Longrightarrow> slot_of m' (key e) = i"
  shows "hashmap_inv m'"
proof -
  have "sz m' * 4 div 3 \<le> sz m * 4 div 3" using assms(6) by (intro div_le_mono) simp
  also have "\<dots> \<le> cap m" using inv unfolding hashmap_inv_def by blast
  finally show ?thesis using assms unfolding hashmap_inv_def by simp
qed

lemma hashmap_inv_init: "hashmap_inv (hashmap__init hf ef c)"
  by (simp add: hashmap_inv_def hashmap__init_def)

lemma hashmap_inv_clear: "hashmap_inv (hashmap__clear m)"
  by (simp add: hashmap_inv_def hashmap__clear_def)

lemma hashmap_grow_callbacks:
  "hashmap_grow alloc m = Inr m' \<Longrightarrow>
     hash_fn m' = hash_fn m \<and> equal_fn m' = equal_fn m \<and> ctx m' = ctx m \<and> sz m' = sz m"
  by (auto simp: hashmap_grow_def Let_def split: if_splits)

lemma hashmap_grow_entries:
  assumes "hashmap_grow alloc m = Inr m'"
  shows "mset (hashmap__for_each_entry m') = mset (hashmap__for_each_entry m)"
  using assms mset_rehash [of "concat (buckets m)" _ "replicate _ []"]
  by (auto simp: hashmap_grow_def Let_def hashmap__for_each_entry_def hash_bits_less split: if_splits)

lemma hashmap_grow_cap:
  assumes "hashmap_grow alloc m = Inr m'"
  shows "cap m' = 2 ^ cap_bits m'" "HASHMAP_MIN_CAP_BITS \<le> cap_bits m'" "cap m' \<noteq> 0"
    "length (buckets m') = cap m'"
  using assms by (auto simp: hashmap_grow_def Let_def HASHMAP_MIN_CAP_BITS_def split: if_splits)

lemma hashmap_grow_doubles:
  assumes "hashmap_inv m" "hashmap_grow alloc m = Inr m'"
  shows "2 * cap m \<le> cap m'" "4 \<le> cap m'"
proof -
  have b: "cap_bits m + 1 \<le> cap_bits m'" and c: "cap m' = 2 ^ cap_bits m'"
    and min: "2 \<le> cap_bits m'"
    using assms(2) by (auto simp: hashmap_grow_def Let_def HASHMAP_MIN_CAP_BITS_def split: if_splits)
  have "(2 :: nat) ^ (cap_bits m + 1) \<le> 2 ^ cap_bits m'" using b by (rule power_increasing) simp
  then show "2 * cap m \<le> cap m'" using assms(1) c by (auto simp: hashmap_inv_def split: if_splits)
  have "(2 :: nat) ^ 2 \<le> 2 ^ cap_bits m'" using min by (rule power_increasing) simp
  then show "4 \<le> cap m'" using c by simp
qed

lemma hashmap_inv_grow:
  assumes inv: "hashmap_inv m" and grow: "hashmap_grow alloc m = Inr m'"
  shows "hashmap_inv m'" and "(sz m + 1) * 4 div 3 \<le> cap m'"
proof -
  have "length (concat (buckets m')) = length (concat (buckets m))"
    using hashmap_grow_entries [OF grow]
    by (metis hashmap__for_each_entry_def size_mset)
  moreover have "slot_of m' (key e) = i" if "i < cap m'" "e \<in> set (buckets m' ! i)" for i e
  proof -
    let ?slot = "\<lambda>k. hash_bits (hash_fn m (ctx m) k) (cap_bits m')"
    have bk: "buckets m' = rehash ?slot (concat (buckets m)) (replicate (cap m') [])"
      using grow by (auto simp: hashmap_grow_def Let_def split: if_splits)
    have "?slot (key e) = i"
    proof (rule rehash_slots)
      show "e \<in> set (rehash ?slot (concat (buckets m)) (replicate (cap m') []) ! i)"
        using that(2) bk by simp
    qed (use that(1) in auto)
    then show ?thesis using hashmap_grow_callbacks [OF grow] by (simp add: slot_of_def)
  qed
  moreover have "sz m * 4 div 3 \<le> cap m" and "sz m' = sz m"
    using inv hashmap_grow_callbacks [OF grow] by (auto simp: hashmap_inv_def)
  ultimately show "hashmap_inv m'" and "(sz m + 1) * 4 div 3 \<le> cap m'"
    using inv hashmap_grow_cap [OF grow] hashmap_grow_doubles [OF inv grow]
    by (auto simp: hashmap_inv_def)
qed

lemma hashmap_push_entries:
  assumes "hashmap_inv m" "cap m \<noteq> 0"
  shows "mset (hashmap__for_each_entry (hashmap_push m k v)) =
           add_mset \<lparr>key = k, hvalue = v\<rparr> (mset (hashmap__for_each_entry m))"
proof -
  let ?h = "slot_of m k" and ?e = "\<lparr>key = k, hvalue = v\<rparr>"
  have "?h < length (buckets m)" using slot_of_less [OF assms] assms by (simp add: hashmap_inv_def)
  from mset_concat_update [OF this, of "?e # buckets m ! ?h"]
  have "mset (concat ((buckets m)[?h := ?e # buckets m ! ?h])) + mset (buckets m ! ?h) =
      add_mset ?e (mset (concat (buckets m))) + mset (buckets m ! ?h)"
    by simp
  then have "mset (concat ((buckets m)[?h := ?e # buckets m ! ?h])) =
      add_mset ?e (mset (concat (buckets m)))"
    by (rule add_right_imp_eq)
  then show ?thesis
    by (simp add: hashmap_push_def hashmap__for_each_entry_def hashmap_add_entry_def Let_def)
qed

lemma hashmap_inv_push:
  assumes inv: "hashmap_inv m" and "cap m \<noteq> 0" and load: "(sz m + 1) * 4 div 3 \<le> cap m"
  shows "hashmap_inv (hashmap_push m k v)"
proof -
  let ?m = "hashmap_push m k v"
  have "length (concat (buckets ?m)) = Suc (length (concat (buckets m)))"
    using hashmap_push_entries [OF assms(1,2), of k v]
    by (metis hashmap__for_each_entry_def size_add_mset size_mset)
  moreover have "slot_of ?m (key e) = i" if "i < cap m" "e \<in> set (buckets ?m ! i)" for i e
    using that inv slot_of_less [OF assms(1,2), of k]
    by (auto simp: hashmap_push_def Let_def hashmap_add_entry_def slot_of_def hashmap_inv_def
        nth_list_update split: if_splits)
  ultimately show ?thesis
    using inv load by (simp add: hashmap_inv_def hashmap_push_def Let_def)
qed

lemma hashmap_inv_insert_new:
  assumes "hashmap_inv m" "hashmap_insert_new alloc m k v = (m', err)"
  shows "hashmap_inv m'"
proof (cases "hashmap_needs_to_grow m")
  case True
  show ?thesis
  proof (cases "hashmap_grow alloc m")
    case (Inr m1)
    with assms True hashmap_inv_grow [OF assms(1) Inr] hashmap_grow_cap(3) [OF Inr]
      hashmap_grow_callbacks [OF Inr]
    show ?thesis by (auto simp: hashmap_insert_new_def intro: hashmap_inv_push split: if_splits)
  qed (use assms True in \<open>auto simp: hashmap_insert_new_def\<close>)
next
  case False
  with assms show ?thesis
    by (auto simp: hashmap_insert_new_def hashmap_needs_to_grow_def intro: hashmap_inv_push
        split: if_splits)
qed

subsection \<open>What the callbacks owe the table, and what the table then promises\<close>

locale hash_contract =
  fixes hf :: "'k \<Rightarrow> u64"
    and ef :: "'k \<Rightarrow> 'k \<Rightarrow> bool"
  assumes ef_refl: "ef x x"
    and ef_sym: "ef x y \<Longrightarrow> ef y x"
    and ef_trans: "ef x y \<Longrightarrow> ef y z \<Longrightarrow> ef x z"
    and ef_hash: "ef x y \<Longrightarrow> hf x = hf y"
begin

lemma slot_eq: "uses_callbacks hf ef m \<Longrightarrow> ef x y \<Longrightarrow> slot_of m x = slot_of m y"
  using ef_hash by (simp add: uses_callbacks_def slot_of_def)

lemma ef_cong: "ef x y \<Longrightarrow> ef x z = ef y z"
  using ef_sym ef_trans by blast

lemma key_values_bucket:
  assumes "hashmap_inv m" "uses_callbacks hf ef m"
  shows "key_values m k = map hvalue (hashmap__for_each_key_entry m k)"
proof (cases "cap m = 0")
  case True
  with assms(1) show ?thesis
    by (simp add: key_values_def hashmap__for_each_key_entry_def hashmap__for_each_entry_def
        hashmap_inv_def)
next
  case False
  have h: "slot_of m k < length (buckets m)"
    using slot_of_less [OF assms(1) False] hashmap_inv_length [OF assms(1)] by simp
  have "filter (\<lambda>e. ef (key e) k) (buckets m ! i) = []"
    if "i < length (buckets m)" "i \<noteq> slot_of m k" for i
    using that assms hashmap_inv_length [OF assms(1)] hashmap_inv_slot [OF assms(1)] slot_eq [OF assms(2)]
    by (fastforce simp: filter_empty_conv)
  from filter_concat_at [OF h this]
  show ?thesis using assms h
    by (auto simp: key_values_def hashmap__for_each_entry_def uses_callbacks_def
        hashmap__for_each_key_entry_def)
qed

lemma find_key_values:
  assumes "hashmap_inv m" "uses_callbacks hf ef m"
  shows "hashmap__find m k = (case key_values m k of [] \<Rightarrow> None | v # _ \<Rightarrow> Some v)"
proof -
  have "hashmap__find m k = map_option hvalue (map_option (\<lambda>(i, e). e)
      (hashmap_find_entry m k (slot_of m k)))"
    by (cases "hashmap_find_entry m k (slot_of m k)") (auto simp: hashmap__find_def)
  also have "\<dots> = (case key_values m k of [] \<Rightarrow> None | v # _ \<Rightarrow> Some v)"
    by (auto simp: key_values_bucket [OF assms] hashmap_find_entry_def chain_find_filter
        hashmap__for_each_key_entry_def split: list.splits)
  finally show ?thesis .
qed

lemma found_split:
  assumes inv: "hashmap_inv m" and cb: "uses_callbacks hf ef m"
    and found: "hashmap_find_entry m k (slot_of m k) = Some (i, e)"
  obtains xs ys where
    "hashmap__for_each_entry m = xs @ e # ys"
    "\<forall>e'. concat ((buckets m)[slot_of m k := (buckets m ! slot_of m k)[i := e']]) = xs @ e' # ys"
    "concat ((buckets m)[slot_of m k := hashmap_del_entry (buckets m ! slot_of m k) i]) = xs @ ys"
    "\<forall>x \<in> set xs. \<not> ef (key x) k" "ef (key e) k"
    "i < length (buckets m ! slot_of m k)" "slot_of m k < length (buckets m)"
    "buckets m ! slot_of m k ! i = e"
proof -
  let ?h = "slot_of m k" and ?bs = "buckets m"
  have ne: "?bs \<noteq> []" using found by (auto simp: hashmap_find_entry_def split: if_splits)
  then have "cap m \<noteq> 0" using hashmap_inv_length [OF inv] by (metis length_0_conv)
  then have h: "?h < length ?bs" using slot_of_less [OF inv] hashmap_inv_length [OF inv] by simp
  have c: "i < length (?bs ! ?h)" "?bs ! ?h ! i = e" "ef (key e) k"
    "\<And>j. j < i \<Longrightarrow> \<not> ef (key (?bs ! ?h ! j)) k"
    using chain_find_Some [of _ "?bs ! ?h" i e] found ne cb
    by (auto simp: hashmap_find_entry_def uses_callbacks_def)
  define xs where "xs = concat (take ?h ?bs) @ take i (?bs ! ?h)"
  define ys where "ys = drop (Suc i) (?bs ! ?h) @ concat (drop (Suc ?h) ?bs)"
  have chain: "?bs ! ?h = take i (?bs ! ?h) @ e # drop (Suc i) (?bs ! ?h)"
    using c(1,2) by (metis id_take_nth_drop)
  have pre: "\<not> ef (key x) k" if "x \<in> set xs" for x
  proof -
    consider "x \<in> set (concat (take ?h ?bs))" | "x \<in> set (take i (?bs ! ?h))"
      using \<open>x \<in> set xs\<close> by (auto simp: xs_def)
    then show ?thesis
    proof cases
      case 1
      then obtain j where "j < ?h" "x \<in> set (?bs ! j)"
        using h unfolding set_concat by (force simp: in_set_conv_nth [of _ "take ?h ?bs"])
      with h inv hashmap_inv_length [OF inv] have "slot_of m (key x) = j"
        by (intro hashmap_inv_slot) auto
      with \<open>j < ?h\<close> show ?thesis using slot_eq [OF cb] by fastforce
    next
      case 2
      then show ?thesis using c(4) by (auto simp: in_set_conv_nth)
    qed
  qed
  show thesis
  proof (rule that)
    show "hashmap__for_each_entry m = xs @ e # ys"
      using concat_split [OF h] chain by (simp add: hashmap__for_each_entry_def xs_def ys_def)
    show "\<forall>e'. concat (?bs[?h := (?bs ! ?h)[i := e']]) = xs @ e' # ys"
      using h c(1) by (simp add: upd_conv_take_nth_drop xs_def ys_def)
    show "concat (?bs[?h := hashmap_del_entry (?bs ! ?h) i]) = xs @ ys"
      using h by (simp add: upd_conv_take_nth_drop hashmap_del_entry_def xs_def ys_def)
  qed (use pre c h in auto)
qed

lemma filter_other:
  assumes "ef k k'" "\<forall>x \<in> set xs. \<not> ef (key x) k"
  shows "filter (\<lambda>e. ef (key e) k') xs = []"
proof -
  have "\<not> ef (key x) k'" if "x \<in> set xs" for x
    using that assms(2) ef_trans [of "key x" k' k] ef_sym [OF assms(1)] by blast
  then show ?thesis by (simp add: filter_empty_conv)
qed

lemma insert_found:
  fixes v :: 'v
  assumes inv: "hashmap_inv m" and cb: "uses_callbacks hf ef m"
    and found: "hashmap_find_entry m k (slot_of m k) = Some (i, e)"
  defines "m' \<equiv> m\<lparr>buckets := (buckets m)[slot_of m k :=
      (buckets m ! slot_of m k)[i := \<lparr>key = k, hvalue = v\<rparr>]]\<rparr>"
  shows "hashmap_inv m'"
    and "key_values m' k' = (if ef k k' then v # tl (key_values m k') else key_values m k')"
proof -
  obtain xs ys where
    ent: "hashmap__for_each_entry m = xs @ e # ys"
    and upd0: "\<forall>e'. concat ((buckets m)[slot_of m k := (buckets m ! slot_of m k)[i := e']]) = xs @ e' # ys"
    and del0: "concat ((buckets m)[slot_of m k := hashmap_del_entry (buckets m ! slot_of m k) i]) = xs @ ys"
    and pre: "\<forall>x \<in> set xs. \<not> ef (key x) k" and e: "ef (key e) k"
    and i: "i < length (buckets m ! slot_of m k)" and h: "slot_of m k < length (buckets m)"
    and at_i: "buckets m ! slot_of m k ! i = e"
    by (rule found_split [OF inv cb found])
  have upd: "concat (buckets m') = xs @ \<lparr>key = k, hvalue = v\<rparr> # ys" by (simp add: m'_def upd0)
  show "hashmap_inv m'"
  proof (rule hashmap_inv_rebucket [OF inv])
    show "slot_of m' (key x) = j" if "j < cap m" "x \<in> set (buckets m' ! j)" for j x
      using that hashmap_inv_slot [OF inv, of j x] i h set_update_subset_insert
      by (fastforce simp: m'_def slot_of_def nth_list_update split: if_splits)
    have "length (concat (buckets m')) = length (concat (buckets m))"
      using ent upd by (simp add: hashmap__for_each_entry_def)
    then show "sz m' = length (concat (buckets m'))"
      using hashmap_inv_sz [OF inv] by (simp add: m'_def)
  qed (simp_all add: m'_def hashmap_inv_length [OF inv])
  have c: "equal_fn m' (ctx m') = ef" "equal_fn m (ctx m) = ef"
    using cb by (simp_all add: uses_callbacks_def m'_def)
  show "key_values m' k' = (if ef k k' then v # tl (key_values m k') else key_values m k')"
  proof (cases "ef k k'")
    case True
    with True filter_other [OF True pre] ef_trans [OF e True] show ?thesis
      by (simp add: key_values_def c hashmap__for_each_entry_def upd
          ent [unfolded hashmap__for_each_entry_def])
  next
    case False
    then have "\<not> ef (key e) k'" using e ef_sym ef_trans by blast
    with False show ?thesis
      by (simp add: key_values_def c hashmap__for_each_entry_def upd
          ent [unfolded hashmap__for_each_entry_def])
  qed
qed

lemma delete_found:
  assumes inv: "hashmap_inv m" and cb: "uses_callbacks hf ef m"
    and del: "hashmap__delete m k = Some (m', ok, ov)"
  shows "hashmap_inv m'" "uses_callbacks hf ef m'" "hashmap__find m k = Some ov" "ef ok k"
    and "key_values m' k' = (if ef k k' then tl (key_values m k') else key_values m k')"
proof -
  obtain i e where found: "hashmap_find_entry m k (slot_of m k) = Some (i, e)"
    and m': "m' = m\<lparr>buckets := (buckets m)[slot_of m k :=
        hashmap_del_entry (buckets m ! slot_of m k) i], sz := sz m - 1\<rparr>"
    and o: "ok = key e" "ov = hvalue e"
    using del by (auto simp: hashmap__delete_def Let_def split: option.splits)
  obtain xs ys where
    ent: "hashmap__for_each_entry m = xs @ e # ys"
    and upd0: "\<forall>e'. concat ((buckets m)[slot_of m k := (buckets m ! slot_of m k)[i := e']]) = xs @ e' # ys"
    and del0: "concat ((buckets m)[slot_of m k := hashmap_del_entry (buckets m ! slot_of m k) i]) = xs @ ys"
    and pre: "\<forall>x \<in> set xs. \<not> ef (key x) k" and e: "ef (key e) k"
    and i: "i < length (buckets m ! slot_of m k)" and h: "slot_of m k < length (buckets m)"
    and at_i: "buckets m ! slot_of m k ! i = e"
    by (rule found_split [OF inv cb found])
  have del: "concat (buckets m') = xs @ ys" by (simp add: m' del0)
  show "uses_callbacks hf ef m'" using cb by (simp add: uses_callbacks_def m')
  show "hashmap__find m k = Some ov" using found by (simp add: hashmap__find_def o)
  show "ef ok k" using e by (simp add: o)
  show "hashmap_inv m'"
  proof (rule hashmap_inv_rebucket [OF inv])
    show "slot_of m' (key x) = j" if "j < cap m" "x \<in> set (buckets m' ! j)" for j x
      using that hashmap_inv_slot [OF inv, of j x] h
      by (auto simp: m' slot_of_def nth_list_update hashmap_del_entry_def split: if_splits
          dest: in_set_takeD in_set_dropD)
    have "length (concat (buckets m')) = length (concat (buckets m)) - 1"
      using ent del by (simp add: hashmap__for_each_entry_def)
    then show "sz m' = length (concat (buckets m'))"
      using hashmap_inv_sz [OF inv] by (simp add: m')
  qed (simp_all add: m' hashmap_inv_length [OF inv])
  have c: "equal_fn m' (ctx m') = ef" "equal_fn m (ctx m) = ef"
    using cb by (simp_all add: uses_callbacks_def m')
  show "key_values m' k' = (if ef k k' then tl (key_values m k') else key_values m k')"
  proof (cases "ef k k'")
    case True
    with True filter_other [OF True pre] ef_trans [OF e True] show ?thesis
      by (simp add: key_values_def c hashmap__for_each_entry_def del
          ent [unfolded hashmap__for_each_entry_def])
  next
    case False
    then have "\<not> ef (key e) k'" using e ef_sym ef_trans by blast
    with False show ?thesis
      by (simp add: key_values_def c hashmap__for_each_entry_def del
          ent [unfolded hashmap__for_each_entry_def])
  qed
qed

lemma push_key_values:
  assumes inv: "hashmap_inv m" and "cap m \<noteq> 0" and cb: "uses_callbacks hf ef m"
    and load: "(sz m + 1) * 4 div 3 \<le> cap m"
  shows "key_values (hashmap_push m k v) k' = (if ef k k' then v # key_values m k' else key_values m k')"
proof -
  have cb': "uses_callbacks hf ef (hashmap_push m k v)"
    using cb by (simp add: uses_callbacks_def hashmap_push_def Let_def)
  have slot: "slot_of (hashmap_push m k v) k' = slot_of m k'" "slot_of m k < length (buckets m)"
    "buckets m \<noteq> []"
    using slot_of_less [OF assms(1,2), of k] hashmap_inv_length [OF inv] assms(2)
    by (auto simp: slot_of_def hashmap_push_def Let_def)
  have "key_values (hashmap_push m k v) k' =
      map hvalue (filter (\<lambda>e. ef (key e) k') (buckets (hashmap_push m k v) ! slot_of m k'))"
    using key_values_bucket [OF hashmap_inv_push [OF inv assms(2) load] cb', of k'] slot cb'
    by (simp add: hashmap__for_each_key_entry_def uses_callbacks_def)
      (simp add: hashmap_push_def Let_def)
  moreover have "key_values m k' = map hvalue (filter (\<lambda>e. ef (key e) k') (buckets m ! slot_of m k'))"
    using key_values_bucket [OF inv cb, of k'] slot cb
    by (simp add: hashmap__for_each_key_entry_def uses_callbacks_def)
  ultimately show ?thesis
    using slot slot_eq [OF cb, of k k']
    by (auto simp: hashmap_push_def Let_def hashmap_add_entry_def nth_list_update)
qed

lemma grow_key_values:
  assumes "uses_callbacks hf ef m" "hashmap_grow alloc m = Inr m'"
  shows "uses_callbacks hf ef m'" "mset (key_values m' k) = mset (key_values m k)"
  using assms hashmap_grow_entries [OF assms(2)] hashmap_grow_callbacks [OF assms(2)]
  by (simp_all add: uses_callbacks_def key_values_def)

lemma insert_new_values:
  assumes inv: "hashmap_inv m" and cb: "uses_callbacks hf ef m"
    and ins: "hashmap_insert_new alloc m k v = (m', err)"
  shows "uses_callbacks hf ef m'"
    and "err = None \<Longrightarrow> mset (key_values m' k') =
      (if ef k k' then add_mset v (mset (key_values m k')) else mset (key_values m k'))"
    and "err \<noteq> None \<Longrightarrow> err = Some ENOMEM \<and> mset (key_values m' k') = mset (key_values m k')"
proof -
  define g where "g = (if hashmap_needs_to_grow m then hashmap_grow alloc m else Inr m)"
  have grown: "hashmap_inv m1 \<and> uses_callbacks hf ef m1 \<and> cap m1 \<noteq> 0 \<and>
      (sz m1 + 1) * 4 div 3 \<le> cap m1 \<and> mset (key_values m1 k') = mset (key_values m k')"
    if "g = Inr m1" for m1 k'
  proof (cases "hashmap_needs_to_grow m")
    case True
    with that have gr: "hashmap_grow alloc m = Inr m1" by (simp add: g_def)
    show ?thesis
      using hashmap_inv_grow [OF inv gr] hashmap_grow_cap(3) [OF gr] grow_key_values [OF cb gr]
        hashmap_grow_callbacks [OF gr] by simp
  next
    case False
    with that inv cb show ?thesis by (auto simp: g_def hashmap_needs_to_grow_def)
  qed
  have enomem: "e = ENOMEM" if "g = Inl e" for e
    using that by (auto simp: g_def hashmap_grow_def Let_def split: if_splits)
  have ins': "(case g of Inl e \<Rightarrow> (m, Some e) | Inr m1 \<Rightarrow>
      if \<not> alloc sizeof_hashmap_entry then (m1, Some ENOMEM) else (hashmap_push m1 k v, None)) = (m', err)"
    using ins by (simp add: hashmap_insert_new_def g_def)
  have push_cb: "uses_callbacks hf ef m1 \<Longrightarrow> uses_callbacks hf ef (hashmap_push m1 k v)" for m1
    by (simp add: uses_callbacks_def hashmap_push_def Let_def)
  show "uses_callbacks hf ef m'"
    using ins' cb grown push_cb by (auto split: sum.splits if_splits)
  show "mset (key_values m' k') =
      (if ef k k' then add_mset v (mset (key_values m k')) else mset (key_values m k'))"
    if none: "err = None"
  proof -
    from ins' none obtain m1 where m1: "g = Inr m1" "m' = hashmap_push m1 k v"
      by (auto split: sum.splits if_splits)
    from grown [OF m1(1), of k'] show ?thesis using push_key_values [of m1 k v k'] by (simp add: m1(2))
  qed
  show "err = Some ENOMEM \<and> mset (key_values m' k') = mset (key_values m k')" if "err \<noteq> None"
    using ins' that grown enomem by (auto split: sum.splits if_splits)
qed

lemma insert_keeps:
  assumes inv: "hashmap_inv m" and cb: "uses_callbacks hf ef m"
  shows "hashmap_inv (ins_map (hashmap__insert alloc m k v s))"
    and "uses_callbacks hf ef (ins_map (hashmap__insert alloc m k v s))"
proof -
  obtain m1 err where new: "hashmap_insert_new alloc m k v = (m1, err)" by fastforce
  note n = hashmap_inv_insert_new [OF inv new] insert_new_values(1) [OF inv cb new]
  show "hashmap_inv (ins_map (hashmap__insert alloc m k v s))"
    using n inv insert_found(1) [OF inv cb]
    by (auto simp: hashmap__insert_def Let_def new split: option.splits)
  show "uses_callbacks hf ef (ins_map (hashmap__insert alloc m k v s))"
    using n cb by (auto simp: hashmap__insert_def Let_def new uses_callbacks_def split: option.splits)
qed

lemma short_mset_eq: "mset ys = mset xs \<Longrightarrow> length xs \<le> 1 \<Longrightarrow> ys = xs"
  by (cases xs) (auto simp: Suc_le_eq)

lemma find_entry_values:
  assumes "hashmap_inv m" "uses_callbacks hf ef m"
  shows "hashmap_find_entry m k (slot_of m k) = None \<longleftrightarrow> key_values m k = []"
    and "hashmap_find_entry m k (slot_of m k) = Some (i, e) \<Longrightarrow>
      \<exists>vs. key_values m k = hvalue e # vs"
  using find_key_values [OF assms, of k]
  by (auto simp: hashmap__find_def split: list.splits)

lemma key_values_cong:
  assumes "uses_callbacks hf ef m" "ef k k'"
  shows "key_values m k = key_values m k'"
proof -
  have "ef x k = ef x k'" for x using assms(2) ef_trans ef_sym by blast
  then show ?thesis using assms(1) by (simp add: key_values_def uses_callbacks_def)
qed

lemma insert_key_values:
  assumes inv: "hashmap_inv m" and cb: "uses_callbacks hf ef m" and uniq: "unique_keys m"
    and s: "s \<noteq> HASHMAP_APPEND" and r: "r = hashmap__insert alloc m k v s"
  shows "key_values (ins_map r) k' = (if ins_err r = None \<and> ef k k' then [v] else key_values m k')"
proof (cases "hashmap_find_entry m k (slot_of m k)")
  case None
  then have kv: "key_values m k = []" by (simp add: find_entry_values(1) [OF inv cb])
  obtain m1 err where new: "hashmap_insert_new alloc m k v = (m1, err)" by fastforce
  have "key_values m1 k' = (if err = None \<and> ef k k' then [v] else key_values m k')"
  proof (rule short_mset_eq)
    show "mset (key_values m1 k') =
        mset (if err = None \<and> ef k k' then [v] else key_values m k')"
      using insert_new_values(2,3) [OF inv cb new, of k'] key_values_cong [OF cb, of k k'] kv
      by (cases "err = None") auto
    show "length (if err = None \<and> ef k k' then [v] else key_values m k') \<le> 1"
      using uniq by (simp add: unique_keys_def)
  qed
  then show ?thesis using None s by (cases s) (simp_all add: r hashmap__insert_def new)
next
  case (Some p)
  obtain i e where p: "p = (i, e)" by fastforce
  have "tl (key_values m k') = []"
    using uniq unfolding unique_keys_def by (cases "key_values m k'") (auto dest!: spec [of _ k'])
  then show ?thesis
    using insert_found(2) [OF inv cb Some [unfolded p], of v k'] s
    by (cases s) (simp_all add: r hashmap__insert_def Let_def Some p)
qed

lemma insert_outcome:
  assumes inv: "hashmap_inv m" and cb: "uses_callbacks hf ef m"
    and s: "s \<noteq> HASHMAP_APPEND" and r: "r = hashmap__insert alloc m k v s"
    and mem: "ins_err r \<noteq> Some ENOMEM"
  shows "(ins_err r, old_value r) = snd (insert_spec ef (hashmap__find m) k v s)"
proof (cases "hashmap_find_entry m k (slot_of m k)")
  case None
  obtain m1 err where new: "hashmap_insert_new alloc m k v = (m1, err)" by fastforce
  have "err = None \<or> err = Some ENOMEM" using insert_new_values(3) [OF inv cb new] by blast
  then show ?thesis using None s mem
    by (cases s) (auto simp: r hashmap__insert_def new insert_spec_def hashmap__find_def)
next
  case (Some p)
  obtain i e where p: "p = (i, e)" by fastforce
  show ?thesis using s
    by (cases s) (simp_all add: r hashmap__insert_def Let_def Some p insert_spec_def hashmap__find_def)
qed

lemma insert_refines:
  assumes inv: "hashmap_inv m" and cb: "uses_callbacks hf ef m" and uniq: "unique_keys m"
    and s: "s \<noteq> HASHMAP_APPEND" and r: "r = hashmap__insert alloc m k v s"
  shows "unique_keys (ins_map r)"
    and "ins_err r \<noteq> Some ENOMEM \<Longrightarrow>
      (hashmap__find (ins_map r), ins_err r, old_value r) = insert_spec ef (hashmap__find m) k v s"
    and "ins_err r = Some ENOMEM \<Longrightarrow> hashmap__find (ins_map r) = hashmap__find m"
proof -
  note kv = insert_key_values [OF assms]
  note find = find_key_values [OF inv cb]
    find_key_values [OF insert_keeps [OF inv cb, of alloc k v s, folded r]]
  show "unique_keys (ins_map r)" using uniq by (simp add: unique_keys_def kv)
  show "hashmap__find (ins_map r) = hashmap__find m" if "ins_err r = Some ENOMEM"
    using that by (intro ext) (simp add: find kv)
  have "hashmap__find (ins_map r) =
      (if ins_err r = None then map_put ef (hashmap__find m) k v else hashmap__find m)"
    by (intro ext) (simp add: find kv map_put_def)
  then show "(hashmap__find (ins_map r), ins_err r, old_value r) =
      insert_spec ef (hashmap__find m) k v s" if "ins_err r \<noteq> Some ENOMEM"
    using insert_outcome [OF inv cb s r that] s
    by (cases s) (auto simp: insert_spec_def split: option.splits)
qed

lemma append_values:
  assumes inv: "hashmap_inv m" and cb: "uses_callbacks hf ef m"
    and r: "r = hashmap__append alloc m k v" and ok: "ins_err r = None"
  shows "mset (key_values (ins_map r) k') =
    (if ef k k' then add_mset v (mset (key_values m k')) else mset (key_values m k'))"
proof -
  obtain m1 err where new: "hashmap_insert_new alloc m k v = (m1, err)" by fastforce
  then have "ins_map r = m1" "err = None"
    using ok by (simp_all add: r hashmap__append_def hashmap__insert_def)
  with insert_new_values(2) [OF inv cb new] show ?thesis by simp
qed

lemma delete_refines:
  assumes inv: "hashmap_inv m" and cb: "uses_callbacks hf ef m" and uniq: "unique_keys m"
  shows "case hashmap__delete m k of
      None \<Rightarrow> hashmap__find m k = None
    | Some (m', ok, ov) \<Rightarrow> hashmap__find m k = Some ov \<and> ef ok k \<and> hashmap_inv m' \<and> unique_keys m' \<and>
        hashmap__find m' = (\<lambda>k'. if ef k k' then None else hashmap__find m k')"
proof (cases "hashmap__delete m k")
  case None
  then show ?thesis by (auto simp: hashmap__delete_def Let_def hashmap__find_def split: option.splits)
next
  case (Some p)
  obtain m' ok ov where p: "p = (m', ok, ov)" by (cases p) auto
  note d = delete_found [OF inv cb Some [unfolded p]]
  have tl: "tl (key_values m k') = []" for k'
    using uniq unfolding unique_keys_def by (cases "key_values m k'") (auto dest!: spec [of _ k'])
  have "unique_keys m'" using uniq by (simp add: unique_keys_def d(5) tl)
  moreover have "hashmap__find m' = (\<lambda>k'. if ef k k' then None else hashmap__find m k')"
    by (intro ext) (simp add: find_key_values [OF d(1,2)] find_key_values [OF inv cb] d(5) tl)
  ultimately show ?thesis using d by (simp add: Some p)
qed

lemma rehash_reverses:
  assumes "\<And>e. e \<in> set es \<Longrightarrow> slot (key e) < length bs"
    and "\<And>e. P e \<Longrightarrow> slot (key e) = h" and "h < length bs"
  shows "filter P (rehash slot es bs ! h) = rev (filter P es) @ filter P (bs ! h)"
  using assms
proof (induction es arbitrary: bs)
  case (Cons e es)
  let ?bs = "bs[slot (key e) := e # bs ! slot (key e)]"
  have "filter P (rehash slot es ?bs ! h) = rev (filter P es) @ filter P (?bs ! h)"
    by (rule Cons.IH) (use Cons.prems in auto)
  moreover have "filter P (?bs ! h) = (if P e then e # filter P (bs ! h) else filter P (bs ! h))"
    using Cons.prems by (auto simp: nth_list_update)
  ultimately show ?case by (simp add: Let_def hashmap_add_entry_def)
qed simp

lemma grow_reverses:
  assumes inv: "hashmap_inv m" and cb: "uses_callbacks hf ef m" and grow: "hashmap_grow alloc m = Inr m'"
  shows "key_values m' k = rev (key_values m k)"
proof -
  let ?slot = "\<lambda>k. hash_bits (hash_fn m (ctx m) k) (cap_bits m')"
  have bk: "buckets m' = rehash ?slot (concat (buckets m)) (replicate (cap m') [])"
    using grow by (auto simp: hashmap_grow_def Let_def split: if_splits)
  have c: "cap m' = 2 ^ cap_bits m'" "cap m' \<noteq> 0" "buckets m' \<noteq> []"
    using hashmap_grow_cap [OF grow] by auto
  have cb': "uses_callbacks hf ef m'" using grow_key_values(1) [OF cb grow] .
  have slot: "slot_of m' x = ?slot x" for x
    using hashmap_grow_callbacks [OF grow] by (simp add: slot_of_def)
  have "filter (\<lambda>e. ef (key e) k) (buckets m' ! slot_of m' k) =
      rev (filter (\<lambda>e. ef (key e) k) (concat (buckets m)))"
    unfolding bk using c slot_eq [OF cb'] slot_of_less [OF hashmap_inv_grow(1) [OF inv grow] c(2)]
    by (subst rehash_reverses) (auto simp: slot hash_bits_less)
  then show ?thesis
    using cb cb' c(3) key_values_bucket [OF hashmap_inv_grow(1) [OF inv grow] cb', of k]
    by (simp add: hashmap__for_each_key_entry_def uses_callbacks_def)
      (simp add: key_values_def hashmap__for_each_entry_def rev_map)
qed

end

subsection \<open>The callbacks of the code meet the contract\<close>

lemma str_hash_from_cstr: "str_hash_from h (cstr s) = str_hash_from h s"
  by (induction s arbitrary: h) (auto simp: cstr_def)

lemma str_hash_cstr: "str_hash (cstr s) = str_hash s"
  by (simp add: str_hash_def str_hash_from_cstr)

interpretation dedup_identity: hash_contract "btf_dedup_identity_hash_fn ()" "btf_dedup_equal_fn ()"
  by unfold_locales (auto simp: btf_dedup_equal_fn_def)

interpretation dedup_collision: hash_contract "btf_dedup_collision_hash_fn ()" "btf_dedup_equal_fn ()"
  by unfold_locales (auto simp: btf_dedup_equal_fn_def)

interpretation core_ids: hash_contract "bpf_core_hash_fn ()" "bpf_core_equal_fn ()"
  by unfold_locales (auto simp: bpf_core_equal_fn_def)

interpretation dump_names: hash_contract "str_hash_fn ()" "str_equal_fn ()"
  by unfold_locales (auto simp: str_equal_fn_def str_hash_fn_def, metis str_hash_cstr)

subsection \<open>Properties\<close>

text \<open>
  The tables a client can reach from \<open>hashmap__init\<close> by the operations with one entry per
  key, each next to the map it stands for. A failed allocation leaves the map as it was.
\<close>

inductive reaches :: "('k \<Rightarrow> u64) \<Rightarrow> ('k \<Rightarrow> 'k \<Rightarrow> bool) \<Rightarrow> (unit, 'k, 'v) hashmap \<Rightarrow> ('k \<rightharpoonup> 'v) \<Rightarrow> bool"
  for hf ef where
  init: "reaches hf ef (hashmap__init (\<lambda>_. hf) (\<lambda>_. ef) ()) Map.empty"
| insert: "reaches hf ef m M \<Longrightarrow> s \<noteq> HASHMAP_APPEND \<Longrightarrow> r = hashmap__insert alloc m k v s \<Longrightarrow>
    reaches hf ef (ins_map r)
      (if ins_err r = Some ENOMEM then M else fst (insert_spec ef M k v s))"
| delete: "reaches hf ef m M \<Longrightarrow> hashmap__delete m k = Some (m', ok, ov) \<Longrightarrow>
    reaches hf ef m' (\<lambda>k'. if ef k k' then None else M k')"
| clear: "reaches hf ef m M \<Longrightarrow> reaches hf ef (hashmap__clear m) Map.empty"

text \<open>
  C3. Every table reached by the one-entry-per-key operations of \<^verbatim>\<open>hashmap.c\<close> keeps its
  structural invariant (a power-of-two bucket array, every entry in the bucket of its hash,
  \<open>sz\<close> the number of entries, load at most three quarters) and finds exactly what the map it
  stands for holds, whichever allocations fail and however often it was rehashed.
\<close>

theorem hashmap_refines_map:
  assumes "hash_contract hf ef" "reaches hf ef m M"
  shows "hashmap_inv m \<and> unique_keys m \<and> hashmap__find m = M"
proof -
  have "hashmap_inv m \<and> uses_callbacks hf ef m \<and> unique_keys m \<and> hashmap__find m = M"
    using assms(2)
  proof induction
    case init
    show ?case
      using hashmap_inv_init [of "\<lambda>_. hf" "\<lambda>_. ef" "()"]
      by (auto simp: uses_callbacks_def hashmap__init_def unique_keys_def
          key_values_def hashmap__for_each_entry_def hashmap__find_def hashmap_find_entry_def)
  next
    case (insert m M s r alloc k v)
    then have h: "hashmap_inv m" "uses_callbacks hf ef m" "unique_keys m" "hashmap__find m = M" by auto
    note refines = hash_contract.insert_refines [OF assms(1) h(1-3) insert.hyps(2,3)]
    have "hashmap__find (ins_map r) =
        (if ins_err r = Some ENOMEM then M else fst (insert_spec ef M k v s))"
      using refines(2,3) h(4) by (metis fst_conv)
    then show ?case
      using refines(1) hash_contract.insert_keeps [OF assms(1) h(1,2)] insert.hyps(3) by simp
  next
    case (delete m M k m' ok ov)
    then show ?case
      using hash_contract.delete_refines [OF assms(1), of m k] hash_contract.delete_found(2) [OF assms(1)]
      by auto
  next
    case (clear m M)
    then show ?case
      using hashmap_inv_clear [of m]
      by (auto simp: uses_callbacks_def hashmap__clear_def unique_keys_def
          key_values_def hashmap__for_each_entry_def hashmap__find_def hashmap_find_entry_def)
  qed
  then show ?thesis by simp
qed

theorem hashmap_refines_map_witness:
  "hashmap__find (ins_map (hashmap__insert (\<lambda>_. True)
     (hashmap__init (\<lambda>_. btf_dedup_identity_hash_fn ()) (\<lambda>_. btf_dedup_equal_fn ()) ())
     7 (1 :: nat) HASHMAP_SET)) = [7 \<mapsto> 1]"
proof -
  let ?hf = "btf_dedup_identity_hash_fn ()" and ?ef = "btf_dedup_equal_fn ()"
  let ?r = "hashmap__insert (\<lambda>_. True) (hashmap__init (\<lambda>_. ?hf) (\<lambda>_. ?ef) ()) 7 (1 :: nat) HASHMAP_SET"
  have "reaches ?hf ?ef (ins_map ?r)
      (if ins_err ?r = Some ENOMEM then Map.empty else fst (insert_spec ?ef Map.empty 7 1 HASHMAP_SET))"
    by (rule reaches.insert [OF reaches.init]) simp_all
  from hashmap_refines_map [OF dedup_identity.hash_contract_axioms this]
  have "hashmap__find (ins_map ?r) =
      (if ins_err ?r = Some ENOMEM then Map.empty else fst (insert_spec ?ef Map.empty 7 1 HASHMAP_SET))"
    by simp
  moreover have "ins_err ?r = None" by code_simp
  ultimately show ?thesis
    by (auto simp: insert_spec_def map_put_def btf_dedup_equal_fn_def)
qed

text \<open>
  Rehashing turns the chain of a key round: the values of every key come out of
  \<open>hashmap_grow\<close> in the opposite order, so a multimap filled with \<open>HASHMAP_APPEND\<close> does not keep
  the last inserted entry first.
\<close>

theorem hashmap_grow_reverses_chains:
  assumes "hash_contract hf ef" "hashmap_inv m" "uses_callbacks hf ef m"
    and "hashmap_grow alloc m = Inr m'"
  shows "hashmap_inv m' \<and> key_values m' k = rev (key_values m k)"
  using hashmap_inv_grow(1) [OF assms(2,4)] hash_contract.grow_reverses [OF assms] by simp


text \<open>Two values appended under key 7, then two other keys: the last append grows the table.\<close>

definition append3 :: "(unit, u64, nat) hashmap" where
  "append3 =
     (let put = (\<lambda>m k v. ins_map (hashmap__append (\<lambda>_. True) m k v)) in
      put (put (put (hashmap__init btf_dedup_identity_hash_fn btf_dedup_equal_fn ()) 7 1) 7 2) 8 3)"

theorem hashmap_grow_reverses_chains_witness:
  "hashmap__find append3 7 = Some 2 \<and>
   hashmap__find (ins_map (hashmap__append (\<lambda>_. True) append3 9 4)) 7 = Some 1 \<and>
   (\<exists>m'. hashmap_grow (\<lambda>_. True) append3 = Inr m' \<and> key_values m' 7 = [1, 2])"
proof -
  let ?hf = "btf_dedup_identity_hash_fn ()" and ?ef = "btf_dedup_equal_fn ()"
  let ?m0 = "hashmap__init btf_dedup_identity_hash_fn btf_dedup_equal_fn () :: (unit, u64, nat) hashmap"
  have "hashmap_inv ?m0 \<and> uses_callbacks ?hf ?ef ?m0"
    using hashmap_inv_init by (auto simp: uses_callbacks_def hashmap__init_def)
  then have "hashmap_inv append3" "uses_callbacks ?hf ?ef append3"
    unfolding append3_def Let_def hashmap__append_def
    by (meson dedup_identity.insert_keeps)+
  moreover obtain m' where "hashmap_grow (\<lambda>_. True) append3 = Inr m'"
    by (simp add: hashmap_grow_def Let_def)
  ultimately have "hashmap_grow (\<lambda>_. True) append3 = Inr m'" "key_values m' 7 = rev (key_values append3 7)"
    using hashmap_grow_reverses_chains [OF dedup_identity.hash_contract_axioms] by auto
  moreover have "key_values append3 7 = [2, 1]" by code_simp
  moreover have "hashmap__find append3 7 = Some 2" by code_simp
  moreover have "hashmap__find (ins_map (hashmap__append (\<lambda>_. True) append3 9 4)) 7 = Some 1" by code_simp
  ultimately show ?thesis by simp
qed

end
