(* ===== verification/Btf_Parse.thy ===== *)
theory Btf_Parse
  imports Btf_Types Hashmap
begin

text \<open>
  The BTF object of \<^verbatim>\<open>btf.c\<close>: \<open>struct btf\<close>, its growable arrays, the parser
  (\<open>btf_parse_hdr\<close>, \<open>btf_parse_str_sec\<close>, \<open>btf_parse_type_sec\<close>, \<open>btf_new\<close>), the empty
  object and the serializer (\<open>btf_get_raw_data\<close>), in both byte orders.

  A split BTF points to its base, so \<open>btf\<close> is a datatype over the fields of one instance. The
  pointers \<open>hdr\<close>, \<open>types_data\<close> and \<open>strs_data\<close> are the contents they point to; \<open>modifiable\<close>
  is \<open>hdr != raw_data\<close>. The parser swaps in place, so it works on the bytes of \<open>raw_data\<close>
  and the sections are cut out when it is done. An access outside \<open>raw_data\<close> is \<open>OOB\<close>.

  The lemmas show what a parsed object is: a list of well-formed types laid out without gaps,
  an index of their offsets, and strings that end in a NUL; and that the parser inverts the
  serializer in both byte orders.
\<close>

definition BTF_MAX_NR_TYPES :: nat where "BTF_MAX_NR_TYPES = 0x7fffffff"
definition BTF_MAX_STR_OFFSET :: nat where "BTF_MAX_STR_OFFSET = 0x7fffffff"

record btf_data =
  raw_data :: "u8 list option"
  raw_data_swapped :: "u8 list option"
  raw_size :: nat
  swapped_endian :: bool
  hdr :: btf_header
  hdr_extra :: "u8 list"
  types_data :: "u8 list"
  types_data_cap :: nat
  type_offs :: "u32 list"
  type_offs_cap :: nat
  nr_types :: nat
  start_id :: nat
  start_str_off :: nat
  strs_data :: string
  strs_data_cap :: nat
  strs_hash :: "(string, nat, nat) hashmap option"
  strs_deduped :: bool
  modifiable :: bool
  fd :: int
  ptr_sz :: int

datatype btf = Btf (own: btf_data) (base_btf: "btf option")

definition sizeof_btf :: nat where "sizeof_btf = 152"

definition upd_own :: "(btf_data \<Rightarrow> btf_data) \<Rightarrow> btf \<Rightarrow> btf" where
  "upd_own f b = Btf (f (own b)) (base_btf b)"

lemma upd_own_simps [simp]: "own (upd_own f b) = f (own b)" "base_btf (upd_own f b) = base_btf b"
  by (simp_all add: upd_own_def)

subsection \<open>Growable arrays\<close>

definition libbpf_reallocarray :: "alloc \<Rightarrow> nat \<Rightarrow> nat \<Rightarrow> bool" where
  "libbpf_reallocarray alloc nmemb elem_sz \<longleftrightarrow> nmemb * elem_sz < 2 ^ 64 \<and> alloc (nmemb * elem_sz)"

definition btf_add_mem :: "alloc \<Rightarrow> nat \<Rightarrow> nat \<Rightarrow> nat \<Rightarrow> nat \<Rightarrow> nat \<Rightarrow> nat option" where
  "btf_add_mem alloc cap_cnt elem_sz cur_cnt max_cnt add_cnt =
     (if cur_cnt + add_cnt \<le> cap_cnt then Some cap_cnt
      else if cur_cnt + add_cnt > max_cnt then None
      else let n1 = cap_cnt + cap_cnt div 4;
               n2 = (if n1 < 16 then 16 else n1);
               n3 = (if n2 > max_cnt then max_cnt else n2);
               new_cnt = (if n3 < cur_cnt + add_cnt then cur_cnt + add_cnt else n3)
           in if libbpf_reallocarray alloc new_cnt elem_sz then Some new_cnt else None)"

definition SIZE_MAX :: nat where "SIZE_MAX = 2 ^ 64 - 1"

definition btf_ensure_mem :: "alloc \<Rightarrow> nat \<Rightarrow> nat \<Rightarrow> nat \<Rightarrow> nat result" where
  "btf_ensure_mem alloc cap_cnt elem_sz need_cnt =
     (if need_cnt \<le> cap_cnt then Inr cap_cnt
      else deref (btf_add_mem alloc cap_cnt elem_sz cap_cnt SIZE_MAX (need_cnt - cap_cnt)) ENOMEM)"

definition btf_add_type_idx_entry :: "alloc \<Rightarrow> btf_data \<Rightarrow> u32 \<Rightarrow> btf_data result" where
  "btf_add_type_idx_entry alloc d toff =
     rbind (deref (btf_add_mem alloc (type_offs_cap d) 4 (nr_types d) BTF_MAX_NR_TYPES 1) ENOMEM)
       (\<lambda>c. Inr (d\<lparr>type_offs := take (nr_types d) (type_offs d) @ [toff], type_offs_cap := c\<rparr>))"

subsection \<open>The header\<close>

definition encode_hdr :: "btf_header \<Rightarrow> u8 list" where
  "encode_hdr h = le16 (h_magic h) @ [h_version h, h_flags h] @
     words_bytes [hdr_len h, type_off h, type_len h, str_off h, str_len h]"

definition decode_hdr :: "u8 list \<Rightarrow> btf_header result" where
  "decode_hdr bs =
     rbind (read_u16 bs 0) (\<lambda>m.
     rbind (array_get bs 2) (\<lambda>v.
     rbind (array_get bs 3) (\<lambda>f.
     rbind (read_words bs 4 5) (\<lambda>ws.
     Inr \<lparr>h_magic = m, h_version = v, h_flags = f, hdr_len = ws ! 0, type_off = ws ! 1,
          type_len = ws ! 2, str_off = ws ! 3, str_len = ws ! 4\<rparr>))))"

definition btf_bswap_hdr :: "btf_header \<Rightarrow> btf_header" where
  "btf_bswap_hdr h =
     h\<lparr>h_magic := bswap_16 (h_magic h),
       hdr_len := bswap_32 (hdr_len h),
       type_off := bswap_32 (type_off h),
       type_len := bswap_32 (type_len h),
       str_off := bswap_32 (str_off h),
       str_len := bswap_32 (str_len h)\<rparr>"

definition btf_parse_hdr :: "u8 list \<Rightarrow> (btf_header \<times> bool \<times> u8 list) result" where
  "btf_parse_hdr raw =
     rbind (guard (sizeof_btf_header \<le> length raw) EINVAL) (\<lambda>_.
     rbind (decode_hdr raw) (\<lambda>h0.
     rbind (if h_magic h0 = bswap_16 BTF_MAGIC
            then rbind (guard (unat (bswap_32 (hdr_len h0)) = sizeof_btf_header) ENOTSUP) (\<lambda>_.
                 Inr (btf_bswap_hdr h0, True,
                      encode_hdr (btf_bswap_hdr h0) @ drop sizeof_btf_header raw))
            else rbind (guard (h_magic h0 = BTF_MAGIC) EINVAL) (\<lambda>_. Inr (h0, False, raw)))
       (\<lambda>(h, swapped, raw'). let meta_left = of_nat (length raw - sizeof_btf_header) :: u32 in
     rbind (guard (meta_left \<noteq> 0) EINVAL) (\<lambda>_.
     rbind (guard (\<not> meta_left < str_off h + str_len h) EINVAL) (\<lambda>_.
     rbind (guard (\<not> type_off h + type_len h > str_off h) EINVAL) (\<lambda>_.
     rbind (guard (type_off h mod 4 = 0) EINVAL) (\<lambda>_.
     Inr (h, swapped, raw')))))))) "

subsection \<open>The string section\<close>

definition strs_at :: "btf_header \<Rightarrow> nat" where
  "strs_at h = unat (hdr_len h) + unat (str_off h)"

definition types_at :: "btf_header \<Rightarrow> nat" where
  "types_at h = unat (hdr_len h) + unat (type_off h)"

definition btf_parse_str_sec :: "bool \<Rightarrow> btf_header \<Rightarrow> u8 list \<Rightarrow> unit result" where
  "btf_parse_str_sec has_base h raw =
     (if has_base \<and> str_len h = 0 then Inr ()
      else if str_len h = 0 \<or> unat (str_len h - 1) > BTF_MAX_STR_OFFSET then Inl EINVAL
      else rbind (array_get raw (strs_at h + unat (str_len h) - 1)) (\<lambda>e.
           rbind (guard (e = 0) EINVAL) (\<lambda>_.
           if has_base then Inr ()
           else rbind (array_get raw (strs_at h)) (\<lambda>s. guard (s = 0) EINVAL))))"

subsection \<open>The type section\<close>

fun bswap_words :: "u8 list \<Rightarrow> nat \<Rightarrow> nat \<Rightarrow> u8 list result" where
  "bswap_words mem off 0 = Inr mem"
| "bswap_words mem off (Suc n) =
     rbind (read_u32 mem off) (\<lambda>w.
     rbind (write_u32 mem off (bswap_32 w)) (\<lambda>mem'.
     bswap_words mem' (off + 4) n))"

definition btf_bswap_type_base :: "u8 list \<Rightarrow> nat \<Rightarrow> u8 list result" where
  "btf_bswap_type_base mem t = bswap_words mem t 3"

definition btf_bswap_type_rest :: "u8 list \<Rightarrow> nat \<Rightarrow> u8 list result" where
  "btf_bswap_type_rest mem t =
     rbind (btf_base_at mem t) (\<lambda>ty. let vlen = btf_vlen ty; rest = t + sizeof_btf_type in
     case btf_kind ty of
        BTF_KIND_FWD \<Rightarrow> Inr mem
      | BTF_KIND_CONST \<Rightarrow> Inr mem
      | BTF_KIND_VOLATILE \<Rightarrow> Inr mem
      | BTF_KIND_RESTRICT \<Rightarrow> Inr mem
      | BTF_KIND_PTR \<Rightarrow> Inr mem
      | BTF_KIND_TYPEDEF \<Rightarrow> Inr mem
      | BTF_KIND_FUNC \<Rightarrow> Inr mem
      | BTF_KIND_INT \<Rightarrow> bswap_words mem rest 1
      | BTF_KIND_ENUM \<Rightarrow> bswap_words mem rest (vlen * 2)
      | BTF_KIND_ARRAY \<Rightarrow> bswap_words mem rest 3
      | BTF_KIND_STRUCT \<Rightarrow> bswap_words mem rest (vlen * 3)
      | BTF_KIND_UNION \<Rightarrow> bswap_words mem rest (vlen * 3)
      | BTF_KIND_FUNC_PROTO \<Rightarrow> bswap_words mem rest (vlen * 2)
      | BTF_KIND_VAR \<Rightarrow> bswap_words mem rest 1
      | BTF_KIND_DATASEC \<Rightarrow> bswap_words mem rest (vlen * 3)
      | BTF_KIND_UNKN \<Rightarrow> Inl EINVAL)"

text \<open>One round of the loop of \<open>btf_parse_type_sec\<close>, at offset \<open>nxt\<close> of the section.\<close>

definition btf_parse_type_step :: "alloc \<Rightarrow> nat \<Rightarrow> nat \<Rightarrow> nat \<Rightarrow> u8 list \<Rightarrow> btf_data
    \<Rightarrow> (nat \<times> u8 list \<times> btf_data) result" where
  "btf_parse_type_step alloc types end_type nxt mem d =
     rbind (if swapped_endian d then btf_bswap_type_base mem (types + nxt) else Inr mem) (\<lambda>mem1.
     rbind (btf_base_at mem1 (types + nxt)) (\<lambda>t.
     rbind (btf_type_size t) (\<lambda>type_size.
     rbind (guard (nxt + type_size \<le> end_type) EINVAL) (\<lambda>_.
     rbind (if swapped_endian d then btf_bswap_type_rest mem1 (types + nxt) else Inr mem1) (\<lambda>mem2.
     rbind (btf_add_type_idx_entry alloc d (of_nat nxt)) (\<lambda>d1.
     Inr (nxt + type_size, mem2, d1\<lparr>nr_types := nr_types d1 + 1\<rparr>)))))))"

lemma btf_parse_type_step_progress:
  "btf_parse_type_step alloc types end_type nxt mem d = Inr (nxt', mem', d') \<Longrightarrow>
     nxt < nxt' \<and> nxt' \<le> end_type"
  by (auto simp: btf_parse_type_step_def result_simps btf_type_size_def sizeof_btf_type_def
      dest!: kind_size_ge)

function btf_parse_type_sec :: "alloc \<Rightarrow> nat \<Rightarrow> nat \<Rightarrow> nat \<Rightarrow> u8 list \<Rightarrow> btf_data
    \<Rightarrow> (u8 list \<times> btf_data) result" where
  "btf_parse_type_sec alloc types end_type nxt mem d =
     (if nxt + sizeof_btf_type \<le> end_type
      then (case btf_parse_type_step alloc types end_type nxt mem d of
              Inl e \<Rightarrow> Inl e
            | Inr (nxt', mem', d') \<Rightarrow> btf_parse_type_sec alloc types end_type nxt' mem' d')
      else if nxt \<noteq> end_type then Inl EINVAL else Inr (mem, d))"
  by pat_completeness auto
termination
  by (relation "measure (\<lambda>(alloc, types, end_type, nxt, mem, d). end_type - nxt)")
    (auto dest!: btf_parse_type_step_progress)

declare btf_parse_type_sec.simps [simp del]

subsection \<open>Objects\<close>

definition btf__get_nr_types :: "btf \<Rightarrow> nat" where
  "btf__get_nr_types b = start_id (own b) + nr_types (own b) - 1"

definition hdr_zero :: btf_header where
  "hdr_zero = \<lparr>h_magic = 0, h_version = 0, h_flags = 0, hdr_len = 0, type_off = 0, type_len = 0,
     str_off = 0, str_len = 0\<rparr>"

definition btf_calloc :: "btf option \<Rightarrow> btf_data" where
  "btf_calloc base =
     \<lparr>raw_data = None, raw_data_swapped = None, raw_size = 0, swapped_endian = False,
      hdr = hdr_zero, hdr_extra = [], types_data = [], types_data_cap = 0, type_offs = [],
      type_offs_cap = 0, nr_types = 0,
      start_id = (case base of None \<Rightarrow> 1 | Some b \<Rightarrow> btf__get_nr_types b + 1),
      start_str_off = (case base of None \<Rightarrow> 0 | Some b \<Rightarrow> unat (str_len (hdr (own b)))),
      strs_data = [], strs_data_cap = 0, strs_hash = None, strs_deduped = False,
      modifiable = False, fd = 0, ptr_sz = 0\<rparr>"

definition btf_new_empty :: "alloc \<Rightarrow> btf option \<Rightarrow> btf result" where
  "btf_new_empty alloc base =
     (let n = (if base = None then 1 else 0 :: nat);
          h = hdr_zero\<lparr>hdr_len := of_nat sizeof_btf_header, h_magic := BTF_MAGIC,
                h_version := BTF_VERSION, str_len := of_nat n\<rparr> in
      rbind (guard (alloc sizeof_btf) ENOMEM) (\<lambda>_.
      rbind (guard (alloc (sizeof_btf_header + n)) ENOMEM) (\<lambda>_.
      Inr (Btf ((btf_calloc base)\<lparr>fd := -1, ptr_sz := int sizeof_ptr, hdr := h,
             raw_size := sizeof_btf_header + n,
             raw_data := Some (encode_hdr h @ replicate n 0),
             strs_data := replicate n NUL\<rparr>) base))))"

definition btf__new_empty :: "alloc \<Rightarrow> btf result" where
  "btf__new_empty alloc = btf_new_empty alloc None"

definition btf__new_empty_split :: "alloc \<Rightarrow> btf \<Rightarrow> btf result" where
  "btf__new_empty_split alloc base = btf_new_empty alloc (Some base)"

definition subarray :: "nat \<Rightarrow> nat \<Rightarrow> 'a list \<Rightarrow> 'a list" where
  "subarray off n xs = take n (drop off xs)"

definition btf_new :: "alloc \<Rightarrow> u8 list \<Rightarrow> btf option \<Rightarrow> btf result" where
  "btf_new alloc data base =
     rbind (guard (alloc sizeof_btf) ENOMEM) (\<lambda>_.
     rbind (guard (alloc (length data)) ENOMEM) (\<lambda>_.
     rbind (btf_parse_hdr data) (\<lambda>(h, swapped, raw).
     rbind (btf_parse_str_sec (base \<noteq> None) h raw) (\<lambda>_.
     rbind (btf_parse_type_sec alloc (types_at h) (unat (type_len h)) 0 raw
              ((btf_calloc base)\<lparr>raw_size := length data, hdr := h, swapped_endian := swapped\<rparr>))
       (\<lambda>(raw', d).
     Inr (Btf (d\<lparr>raw_data := Some raw',
                 hdr_extra := subarray sizeof_btf_header (unat (hdr_len h) - sizeof_btf_header) raw',
                 types_data := subarray (types_at h) (unat (type_len h)) raw',
                 strs_data := map byte_char (subarray (strs_at h) (unat (str_len h)) raw'),
                 fd := -1\<rparr>) base))))))"

definition btf__new :: "alloc \<Rightarrow> u8 list \<Rightarrow> btf result" where
  "btf__new alloc data = btf_new alloc data None"

subsection \<open>Serializing\<close>

fun bswap_types :: "u8 list \<Rightarrow> nat \<Rightarrow> u32 list \<Rightarrow> u8 list result" where
  "bswap_types mem p [] = Inr mem"
| "bswap_types mem p (off # offs) =
     rbind (btf_bswap_type_rest mem (p + unat off)) (\<lambda>m1.
     rbind (btf_bswap_type_base m1 (p + unat off)) (\<lambda>m2.
     bswap_types m2 p offs))"

text \<open>
  \<open>hdr_bytes\<close> is the memory behind \<open>hdr\<close>, as long as \<open>hdr_len\<close> asks for: a header longer than
  the struct carries the bytes that follow it. The swap of the copied header happens in the
  zeroed buffer of the result.
\<close>

definition hdr_bytes :: "btf_data \<Rightarrow> u8 list" where
  "hdr_bytes d = take (unat (hdr_len (hdr d))) (encode_hdr (hdr d) @ hdr_extra d)"

definition raw_hdr :: "nat \<Rightarrow> bool \<Rightarrow> u8 list \<Rightarrow> u8 list result" where
  "raw_hdr data_sz swap_endian hb =
     (if swap_endian
      then rbind (decode_hdr (hb @ replicate (data_sz - length hb) 0)) (\<lambda>h.
           Inr (take (length hb) (encode_hdr (btf_bswap_hdr h) @ drop sizeof_btf_header hb)))
      else Inr hb)"

definition btf_get_raw_data :: "alloc \<Rightarrow> btf_data \<Rightarrow> bool \<Rightarrow> (u8 list \<times> nat) option result" where
  "btf_get_raw_data alloc d swap_endian =
     (case if swap_endian then raw_data_swapped d else raw_data d of
        Some data \<Rightarrow> Inr (Some (data, raw_size d))
      | None \<Rightarrow>
          (let h = hdr d; data_sz = unat (hdr_len h + type_len h + str_len h); hb = hdr_bytes d;
               tb = take (unat (type_len h)) (types_data d);
               sb = map char_byte (take (unat (str_len h)) (strs_data d)) in
           if \<not> alloc data_sz then Inr None
           else
             rbind (guard (length hb = unat (hdr_len h) \<and> length tb = unat (type_len h) \<and>
                           length sb = unat (str_len h) \<and>
                           length hb + length tb + length sb = data_sz) OOB) (\<lambda>_.
             rbind (raw_hdr data_sz swap_endian hb) (\<lambda>hb'.
             case (if swap_endian then bswap_types tb 0 (take (nr_types d) (type_offs d)) else Inr tb) of
               Inr tb' \<Rightarrow> Inr (Some (hb' @ tb' @ sb, data_sz))
             | Inl e \<Rightarrow> if e = OOB then Inl OOB else Inr None))))"

definition btf__get_raw_data :: "alloc \<Rightarrow> btf \<Rightarrow> (u8 list \<times> nat) option result \<times> btf" where
  "btf__get_raw_data alloc b =
     (let r = btf_get_raw_data alloc (own b) (swapped_endian (own b)) in
      case r of
        Inr (Some (data, data_sz)) \<Rightarrow>
          (r, upd_own (\<lambda>d. if swapped_endian d
                           then d\<lparr>raw_size := data_sz, raw_data_swapped := Some data\<rparr>
                           else d\<lparr>raw_size := data_sz, raw_data := Some data\<rparr>) b)
      | _ \<Rightarrow> (r, b))"


subsection \<open>Growable arrays: bounds\<close>

lemma btf_add_mem_bounds:
  assumes "btf_add_mem alloc cap_cnt esz cur mx add = Some c"
  shows "cur + add \<le> c" "cap_cnt \<le> mx \<Longrightarrow> c \<le> mx" "cap_cnt \<le> mx \<Longrightarrow> cap_cnt \<le> c"
  using assms by (auto simp: btf_add_mem_def Let_def split: if_splits)

lemma btf_add_mem_total:
  assumes "cur + add \<le> mx" "cap_cnt \<le> mx" "mx * esz < 2 ^ 64" "\<And>n. alloc n"
  shows "\<exists>c. btf_add_mem alloc cap_cnt esz cur mx add = Some c \<and> c \<le> mx"
proof -
  have "n \<le> mx \<Longrightarrow> libbpf_reallocarray alloc n esz" for n
    using assms le_less_trans [OF mult_le_mono1 [of n mx esz] assms(3)]
    by (simp add: libbpf_reallocarray_def)
  then show ?thesis using assms by (auto simp: btf_add_mem_def Let_def)
qed

subsection \<open>Headers\<close>

lemma length_encode_hdr [simp]: "length (encode_hdr h) = sizeof_btf_header"
  by (simp add: encode_hdr_def sizeof_btf_header_def)

lemma read_u16_at: "read_u16 (le16 w @ post) 0 = Inr w"
  by (simp add: read_u16.simps le16_def u16_of_le16)

lemma decode_encode_hdr [simp]: "decode_hdr (encode_hdr h @ r) = Inr h"
proof -
  let ?ws = "[hdr_len h, type_off h, type_len h, str_off h, str_len h]"
  have "read_words ((le16 (h_magic h) @ [h_version h, h_flags h]) @ words_bytes ?ws @ r)
      (length (le16 (h_magic h) @ [h_version h, h_flags h])) (length ?ws) = Inr ?ws"
    by (rule read_words_at)
  then have "read_words (encode_hdr h @ r) 4 5 = Inr ?ws"
    by (simp add: encode_hdr_def eval_nat_numeral)
  moreover have "read_u16 (encode_hdr h @ r) 0 = Inr (h_magic h)"
    using read_u16_at by (simp add: encode_hdr_def)
  moreover have "array_get (encode_hdr h @ r) 2 = Inr (h_version h)"
    "array_get (encode_hdr h @ r) 3 = Inr (h_flags h)"
    by (auto simp: array_get_def encode_hdr_def nth_append)
  ultimately show ?thesis by (simp add: decode_hdr_def)
qed

lemma btf_bswap_hdr_twice [simp]: "btf_bswap_hdr (btf_bswap_hdr h) = h"
  by (simp add: btf_bswap_hdr_def)

subsection \<open>Swapping words in place\<close>

lemma write_u32_at: "write_u32 (pre @ le32 w @ post) (length pre) v = Inr (pre @ le32 v @ post)"
  by (simp add: write_u32_def)

lemma bswap_words_at:
  "bswap_words (pre @ words_bytes ws @ post) (length pre) (length ws) =
     Inr (pre @ words_bytes (map bswap_32 ws) @ post)"
proof (induction ws arbitrary: pre)
  case (Cons w ws)
  have "read_u32 (pre @ le32 w @ words_bytes ws @ post) (length pre) = Inr w"
    "write_u32 (pre @ le32 w @ words_bytes ws @ post) (length pre) (bswap_32 w) =
       Inr (pre @ le32 (bswap_32 w) @ words_bytes ws @ post)"
    by (rule read_u32_at, rule write_u32_at)
  with Cons.IH [of "pre @ le32 (bswap_32 w)"] show ?case by simp
qed simp

lemma write_u32_frame:
  assumes "write_u32 mem off w = Inr mem'"
  shows "length mem' = length mem" "take off mem' = take off mem"
    "off + 4 \<le> m \<Longrightarrow> drop m mem' = drop m mem"
  using assms by (auto simp: write_u32_def drop_take split: if_splits)

lemma bswap_words_frame:
  assumes "bswap_words mem off n = Inr mem'"
  shows "length mem' = length mem" "k \<le> off \<Longrightarrow> take k mem' = take k mem"
    "off + 4 * n \<le> m \<Longrightarrow> drop m mem' = drop m mem"
  using assms
proof (induction n arbitrary: mem off)
  case (Suc n)
  {
    case 1
    with Suc.IH(1) write_u32_frame(1) show ?case by (fastforce simp: result_simps)
  next
    case 2
    then obtain w mem1 where m: "write_u32 mem off (bswap_32 w) = Inr mem1"
      "bswap_words mem1 (off + 4) n = Inr mem'" by (auto simp: result_simps)
    have "take k mem1 = take k mem"
      using write_u32_frame(2) [OF m(1)] 2(1) by (metis min.absorb1 take_take)
    with Suc.IH(2) [OF _ m(2)] 2 show ?case by simp
  next
    case 3
    then obtain w mem1 where m: "write_u32 mem off (bswap_32 w) = Inr mem1"
      "bswap_words mem1 (off + 4) n = Inr mem'" by (auto simp: result_simps)
    with Suc.IH(3) [OF _ m(2)] write_u32_frame(3) [OF m(1), of m] 3 show ?case by simp
  }
qed simp_all

subsection \<open>Types in memory\<close>

abbreviation type_words :: "btf_type \<Rightarrow> u32 list" where
  "type_words t \<equiv> [name_off t, info t, size_type t] @ vdata_words (vdata t)"

definition swap_type :: "btf_type \<Rightarrow> u8 list" where
  "swap_type t = words_bytes (map bswap_32 (type_words t))"

definition type_bytes :: "bool \<Rightarrow> btf_type \<Rightarrow> u8 list" where
  "type_bytes swapped t = (if swapped then swap_type t else encode_type t)"

fun offs_from :: "nat \<Rightarrow> btf_type list \<Rightarrow> u32 list" where
  "offs_from n [] = []"
| "offs_from n (t # ts) = of_nat n # offs_from (n + length (encode_type t)) ts"

definition encode_types :: "btf_type list \<Rightarrow> u8 list" where
  "encode_types ts = concat (map encode_type ts)"

lemma encode_types_simps [simp]:
  "encode_types [] = []" "encode_types (t # ts) = encode_type t @ encode_types ts"
  "encode_types (ts @ us) = encode_types ts @ encode_types us"
  by (simp_all add: encode_types_def)

lemma length_swap_type [simp]: "length (swap_type t) = length (encode_type t)"
  by (simp add: swap_type_def encode_type_def)

lemma length_type_bytes [simp]: "length (type_bytes sw t) = length (encode_type t)"
  by (simp add: type_bytes_def)

lemma length_encode_ge [bounds_simps]: "sizeof_btf_type \<le> length (encode_type t)"
  by (simp add: length_encode_type)

lemma btf_base_at_words:
  "btf_base_at (pre @ words_bytes ([a, b, c] @ ws) @ post) (length pre) =
     Inr \<lparr>name_off = a, info = b, size_type = c, vdata = VNone\<rparr>"
  using read_words_at [of pre "[a, b, c]" "words_bytes ws @ post"]
  by (simp add: btf_base_at_def eval_nat_numeral)

lemma btf_base_at_cong:
  assumes "take (off + sizeof_btf_type) mem = take (off + sizeof_btf_type) mem'"
  shows "btf_base_at mem off = btf_base_at mem' off"
proof -
  have "take 4 (drop (off + k) mem) = take 4 (drop (off + k) mem')" if "k \<le> 8" for k
  proof -
    have "take (off + k + 4) mem = take (off + k + 4) mem'"
      using arg_cong [OF assms, of "take (off + k + 4)"] that
      by (simp add: sizeof_btf_type_def min_def split: if_splits)
    then show ?thesis by (metis add.commute take_drop)
  qed
  then have "read_u32 mem (off + k) = read_u32 mem' (off + k)" if "k \<le> 8" for k
    using that by (simp add: read_u32.simps)
  from this [of 0] this [of 4] this [of 8] show ?thesis
    by (simp add: btf_base_at_def eval_nat_numeral)
qed

lemma btf_type_at_total:
  assumes "btf_base_at mem off = Inr t0" "btf_type_size t0 = Inr n" "off + n \<le> length mem"
  shows "\<exists>t. btf_type_at mem off = Inr t \<and> length (encode_type t) = n"
proof -
  note ks = kind_size_ge [OF assms(2) [unfolded btf_type_size_def]]
  obtain ws where "read_words mem (off + sizeof_btf_type) ((n - sizeof_btf_type) div 4) = Inr ws"
    using read_words_total [of "off + sizeof_btf_type" "(n - sizeof_btf_type) div 4" mem] ks assms(3)
    by auto
  then obtain t where t: "btf_type_at mem off = Inr t" "btf_type_size t = Inr n"
    using assms by (auto simp: btf_type_at_def)
  then show ?thesis using btf_type_size_encode [OF btf_type_at_sound(1) [OF t(1)]] by simp
qed

lemma btf_bswap_type_rest_words:
  assumes "btf_base_at mem off = Inr t0"
  shows "btf_bswap_type_rest mem off =
    rbind (btf_type_size t0)
      (\<lambda>n. bswap_words mem (off + sizeof_btf_type) ((n - sizeof_btf_type) div 4))"
  using assms
  by (simp add: btf_bswap_type_rest_def btf_type_size_def kind_size_def Let_def mult.commute
      split: btf_kind_t.split)


subsection \<open>One type\<close>

lemma type_split: "xs = take off xs @ take n (drop off xs) @ drop (off + n) xs"
  by (metis append_take_drop_id drop_drop add.commute)

lemma btf_parse_type_step_sound:
  assumes step: "btf_parse_type_step alloc types e nxt mem d = Inr (nxt', mem', d')"
    and room: "types + nxt' \<le> length mem"
  obtains t c where "wf_type t" "nxt' = nxt + length (encode_type t)"
    "mem' = take (types + nxt) mem @ encode_type t @ drop (types + nxt') mem"
    "d' = d\<lparr>type_offs := take (nr_types d) (type_offs d) @ [of_nat nxt], type_offs_cap := c,
            nr_types := nr_types d + 1\<rparr>"
proof -
  let ?off = "types + nxt"
  obtain mem1 t0 n d1 where m1: "(if swapped_endian d then btf_bswap_type_base mem ?off else Inr mem) = Inr mem1"
    and t0: "btf_base_at mem1 ?off = Inr t0" and n: "btf_type_size t0 = Inr n"
    and m2: "(if swapped_endian d then btf_bswap_type_rest mem1 ?off else Inr mem1) = Inr mem'"
    and d1: "btf_add_type_idx_entry alloc d (of_nat nxt) = Inr d1"
    and res: "nxt' = nxt + n" "d' = d1\<lparr>nr_types := nr_types d1 + 1\<rparr>"
    using step unfolding btf_parse_type_step_def rbind_Inr_iff by (auto simp: guard_iff)
  note ks = kind_size_ge [OF n [unfolded btf_type_size_def]]
  have f1: "length mem1 = length mem" "take ?off mem1 = take ?off mem"
    "drop (?off + n) mem1 = drop (?off + n) mem"
    using m1 bswap_words_frame(1) [of mem ?off 3 mem1] bswap_words_frame(2) [of mem ?off 3 mem1 ?off]
      bswap_words_frame(3) [of mem ?off 3 mem1 "?off + n"] ks
    by (auto simp: btf_bswap_type_base_def sizeof_btf_type_def split: if_splits)
  have f2: "length mem' = length mem1" "take (?off + sizeof_btf_type) mem' = take (?off + sizeof_btf_type) mem1"
    "drop (?off + n) mem' = drop (?off + n) mem1"
    using m2 bswap_words_frame(1) [of mem1 _ _ mem']
      bswap_words_frame(2) [of mem1 _ _ mem' "?off + sizeof_btf_type"]
      bswap_words_frame(3) [of mem1 "?off + sizeof_btf_type" _ mem' "?off + n"] ks
    by (auto simp: btf_bswap_type_rest_words [OF t0] n split: if_splits)
  have "btf_base_at mem' ?off = Inr t0" using t0 btf_base_at_cong [OF f2(2)] by simp
  then obtain t where t: "btf_type_at mem' ?off = Inr t" "length (encode_type t) = n"
    using btf_type_at_total [of mem' ?off t0 n] n room res f1(1) f2(1) by auto
  note ts = btf_type_at_sound [OF t(1)]
  have pre: "take ?off mem' = take ?off mem"
    using arg_cong [OF f2(2), of "take ?off"] f1(2) by (simp add: min_def)
  have "mem' = take ?off mem' @ take n (drop ?off mem') @ drop (?off + n) mem'" by (rule type_split)
  then have "mem' = take ?off mem @ encode_type t @ drop (types + nxt') mem"
    using ts(3) t(2) pre f1(3) f2(3) res(1) by (simp add: add.assoc)
  moreover obtain c where "d' = d\<lparr>type_offs := take (nr_types d) (type_offs d) @ [of_nat nxt],
      type_offs_cap := c, nr_types := nr_types d + 1\<rparr>"
    using d1 res(2) by (auto simp: btf_add_type_idx_entry_def result_simps)
  ultimately show thesis using that ts(1) t(2) res(1) by blast
qed

lemma btf_parse_type_step_complete:
  assumes wf: "wf_type t" and off: "length pre = types + nxt"
    and e: "nxt + length (encode_type t) \<le> e"
    and idx: "btf_add_type_idx_entry alloc d (of_nat nxt) = Inr d1"
  shows "btf_parse_type_step alloc types e nxt (pre @ type_bytes (swapped_endian d) t @ post) d =
    Inr (nxt + length (encode_type t), pre @ encode_type t @ post, d1\<lparr>nr_types := nr_types d1 + 1\<rparr>)"
proof -
  let ?v = "vdata_words (vdata t)" and ?b = "[name_off t, info t, size_type t]"
  let ?t0 = "\<lparr>name_off = name_off t, info = info t, size_type = size_type t, vdata = VNone\<rparr>"
  have n: "btf_type_size ?t0 = Inr (length (encode_type t))"
    using btf_type_size_encode [OF wf] by (simp add: btf_type_size_def btf_kind_def btf_vlen_def)
  define mem1 where "mem1 = pre @ words_bytes (?b @ map bswap_32 ?v) @ post"
  have "bswap_words (pre @ words_bytes (map bswap_32 ?b) @ (words_bytes (map bswap_32 ?v) @ post)) (length pre)
      (length (map bswap_32 ?b)) = Inr (pre @ words_bytes (map bswap_32 (map bswap_32 ?b)) @ (words_bytes (map bswap_32 ?v) @ post))"
    by (rule bswap_words_at)
  then have s1: "btf_bswap_type_base (pre @ swap_type t @ post) (types + nxt) = Inr mem1"
    by (simp add: btf_bswap_type_base_def off swap_type_def mem1_def eval_nat_numeral)
  have t0: "btf_base_at mem1 (types + nxt) = Inr ?t0"
    "btf_base_at (pre @ encode_type t @ post) (types + nxt) = Inr ?t0"
    using btf_base_at_words [of pre "name_off t" "info t" "size_type t" "map bswap_32 ?v" post]
      btf_base_at_words [of pre "name_off t" "info t" "size_type t" ?v post]
    by (simp_all add: off encode_type_def mem1_def)
  have "bswap_words ((pre @ words_bytes ?b) @ words_bytes (map bswap_32 ?v) @ post)
      (length (pre @ words_bytes ?b)) (length (map bswap_32 ?v)) =
      Inr ((pre @ words_bytes ?b) @ words_bytes (map bswap_32 (map bswap_32 ?v)) @ post)"
    by (rule bswap_words_at)
  then have s2: "btf_bswap_type_rest mem1 (types + nxt) = Inr (pre @ encode_type t @ post)"
    unfolding btf_bswap_type_rest_words [OF t0(1)]
    by (simp add: n length_encode_type off encode_type_def sizeof_btf_type_def comp_def mem1_def)
  show ?thesis
    by (cases "swapped_endian d")
      (simp_all add: btf_parse_type_step_def type_bytes_def s1 s2 t0 n e idx)
qed


abbreviation served :: alloc where "served \<equiv> \<lambda>_. True"

subsection \<open>The whole section\<close>

lemma btf_parse_type_sec_sound:
  assumes "btf_parse_type_sec alloc types e nxt mem d = Inr (mem', d')"
    and "types + e \<le> length mem" "nxt \<le> e"
  shows "\<exists>ts c. (\<forall>t \<in> set ts. wf_type t) \<and> e = nxt + length (encode_types ts) \<and>
    mem' = take (types + nxt) mem @ encode_types ts @ drop (types + e) mem \<and>
    d' = d\<lparr>type_offs := (if ts = [] then type_offs d else take (nr_types d) (type_offs d) @ offs_from nxt ts),
           type_offs_cap := c, nr_types := nr_types d + length ts\<rparr>"
  using assms
proof (induction alloc types e nxt mem d arbitrary: mem' d' rule: btf_parse_type_sec.induct)
  case (1 alloc types e nxt mem d)
  show ?case
  proof (cases "nxt + sizeof_btf_type \<le> e")
    case False
    then have "mem' = mem" "d' = d" "nxt = e"
      using "1.prems"(1) by (auto simp: btf_parse_type_sec.simps split: if_splits)
    then show ?thesis by (intro exI [of _ "[]"] exI [of _ "type_offs_cap d"]) simp
  next
    case True
    then obtain nxt1 mem1 d1 where step: "btf_parse_type_step alloc types e nxt mem d = Inr (nxt1, mem1, d1)"
      and rest: "btf_parse_type_sec alloc types e nxt1 mem1 d1 = Inr (mem', d')"
      using "1.prems"(1) by (auto simp: btf_parse_type_sec.simps [of alloc types e nxt] split: sum.splits)
    have le: "nxt1 \<le> e" using btf_parse_type_step_progress [OF step] by simp
    from step obtain t c where t: "wf_type t" "nxt1 = nxt + length (encode_type t)"
      "mem1 = take (types + nxt) mem @ encode_type t @ drop (types + nxt1) mem"
      "d1 = d\<lparr>type_offs := take (nr_types d) (type_offs d) @ [of_nat nxt], type_offs_cap := c,
            nr_types := nr_types d + 1\<rparr>"
      by (rule btf_parse_type_step_sound) (use le "1.prems"(2) in auto)
    have len: "length mem1 = length mem" using t le "1.prems"(2) by simp
    from "1.IH" [OF True step refl refl rest] len le "1.prems"(2)
    obtain ts c' where ts: "\<forall>t \<in> set ts. wf_type t" "e = nxt1 + length (encode_types ts)"
      "mem' = take (types + nxt1) mem1 @ encode_types ts @ drop (types + e) mem1"
      "d' = d1\<lparr>type_offs := (if ts = [] then type_offs d1 else take (nr_types d1) (type_offs d1) @ offs_from nxt1 ts),
           type_offs_cap := c', nr_types := nr_types d1 + length ts\<rparr>"
      by auto
    have "take (types + nxt1) mem1 = take (types + nxt) mem @ encode_type t"
      using t le "1.prems"(2) by simp
    moreover have "drop (types + e) mem1 = drop (types + e) mem"
      using t le "1.prems"(2) ts(2) by (simp add: ac_simps)
    moreover have "take (nr_types d1) (type_offs d1) = type_offs d1"
      using t(4) by simp
    ultimately show ?thesis using t ts
      by (intro exI [of _ "t # ts"] exI [of _ c']) auto
  qed
qed

lemma btf_add_type_idx_entry_total:
  assumes "nr_types d < BTF_MAX_NR_TYPES" "type_offs_cap d \<le> BTF_MAX_NR_TYPES" "\<And>n. alloc n"
  obtains c where "c \<le> BTF_MAX_NR_TYPES" "btf_add_type_idx_entry alloc d off =
    Inr (d\<lparr>type_offs := take (nr_types d) (type_offs d) @ [off], type_offs_cap := c\<rparr>)"
proof -
  obtain c where "btf_add_mem alloc (type_offs_cap d) 4 (nr_types d) BTF_MAX_NR_TYPES 1 = Some c"
    "c \<le> BTF_MAX_NR_TYPES"
    using btf_add_mem_total [of "nr_types d" 1 BTF_MAX_NR_TYPES "type_offs_cap d" 4 alloc] assms
    by (auto simp: BTF_MAX_NR_TYPES_def)
  then show thesis using that by (simp add: btf_add_type_idx_entry_def)
qed

lemma btf_parse_type_sec_complete:
  assumes "\<forall>t \<in> set ts. wf_type t" and "length pre = types + nxt"
    and "e = nxt + length (encode_types ts)"
    and "nr_types d + length ts \<le> BTF_MAX_NR_TYPES" "type_offs_cap d \<le> BTF_MAX_NR_TYPES"
  shows "\<exists>c. btf_parse_type_sec served types e nxt
      (pre @ concat (map (type_bytes (swapped_endian d)) ts) @ post) d =
    Inr (pre @ encode_types ts @ post,
      d\<lparr>type_offs := (if ts = [] then type_offs d else take (nr_types d) (type_offs d) @ offs_from nxt ts),
        type_offs_cap := c, nr_types := nr_types d + length ts\<rparr>)"
  using assms
proof (induction ts arbitrary: pre nxt d)
  case Nil
  then show ?case
    by (intro exI [of _ "type_offs_cap d"]) (simp add: btf_parse_type_sec.simps sizeof_btf_type_def)
next
  case (Cons t ts)
  obtain c where c: "c \<le> BTF_MAX_NR_TYPES" "btf_add_type_idx_entry served d (of_nat nxt) =
      Inr (d\<lparr>type_offs := take (nr_types d) (type_offs d) @ [of_nat nxt], type_offs_cap := c\<rparr>)"
    by (rule btf_add_type_idx_entry_total [of d served "of_nat nxt"]) (use Cons.prems in auto)
  let ?d = "d\<lparr>type_offs := take (nr_types d) (type_offs d) @ [of_nat nxt], type_offs_cap := c,
    nr_types := nr_types d + 1\<rparr>"
  let ?rest = "concat (map (type_bytes (swapped_endian d)) ts) @ post"
  have step: "btf_parse_type_step served types e nxt (pre @ type_bytes (swapped_endian d) t @ ?rest) d =
      Inr (nxt + length (encode_type t), pre @ encode_type t @ ?rest, ?d)"
    using btf_parse_type_step_complete [of t pre types nxt e served d _ ?rest, OF _ _ _ c(2)] Cons.prems
    by simp
  obtain c' where "btf_parse_type_sec served types e (nxt + length (encode_type t))
      ((pre @ encode_type t) @ concat (map (type_bytes (swapped_endian ?d)) ts) @ post) ?d =
    Inr ((pre @ encode_type t) @ encode_types ts @ post,
      ?d\<lparr>type_offs := (if ts = [] then type_offs ?d else take (nr_types ?d) (type_offs ?d) @ offs_from (nxt + length (encode_type t)) ts),
        type_offs_cap := c', nr_types := nr_types ?d + length ts\<rparr>)"
    using Cons.IH [of "pre @ encode_type t" "nxt + length (encode_type t)" ?d] Cons.prems c(1)
    by auto
  moreover have "nxt + sizeof_btf_type \<le> e"
    using Cons.prems(3) length_encode_ge [of t] by simp
  ultimately show ?case
    by (intro exI [of _ c']) (simp add: btf_parse_type_sec.simps [of _ _ _ nxt] step)
qed


subsection \<open>What a BTF object represents\<close>

text \<open>
  \<open>btf_repr d ts\<close>: the type section of \<open>d\<close> is the list \<open>ts\<close> of well-formed types, laid out
  back to back, with the offsets of their first bytes in the index. \<open>strs_ok\<close>: the string
  section has the length the header says and ends in a NUL, and starts with the empty string
  when there is no base.
\<close>

definition btf_repr :: "btf_data \<Rightarrow> btf_type list \<Rightarrow> bool" where
  "btf_repr d ts \<longleftrightarrow>
     (\<forall>t \<in> set ts. wf_type t) \<and> types_data d = encode_types ts \<and> type_offs d = offs_from 0 ts \<and>
     nr_types d = length ts \<and> unat (type_len (hdr d)) = length (encode_types ts)"

definition strs_ok :: "bool \<Rightarrow> btf_data \<Rightarrow> bool" where
  "strs_ok has_base d \<longleftrightarrow>
     unat (str_len (hdr d)) = length (strs_data d) \<and>
     length (strs_data d) \<le> BTF_MAX_STR_OFFSET + 1 \<and>
     (strs_data d \<noteq> [] \<longrightarrow> last (strs_data d) = NUL) \<and>
     (\<not> has_base \<longrightarrow> strs_data d \<noteq> [] \<and> hd (strs_data d) = NUL)"

lemma btf_parse_type_sec_last:
  assumes "btf_parse_type_sec alloc types e nxt mem d = Inr (mem', d')" "nxt \<le> e"
  shows "nxt = e \<or> types + e < length mem + 2 ^ 20"
  using assms
proof (induction alloc types e nxt mem d arbitrary: mem' d' rule: btf_parse_type_sec.induct)
  case (1 alloc types e nxt mem d)
  show ?case
  proof (cases "nxt + sizeof_btf_type \<le> e")
    case True
    then obtain nxt1 mem1 d1 where step: "btf_parse_type_step alloc types e nxt mem d = Inr (nxt1, mem1, d1)"
      and rest: "btf_parse_type_sec alloc types e nxt1 mem1 d1 = Inr (mem', d')"
      using "1.prems"(1) by (auto simp: btf_parse_type_sec.simps [of alloc types e nxt] split: sum.splits)
    have le: "nxt1 \<le> e" using btf_parse_type_step_progress [OF step] by simp
    obtain m0 t0 n where m0: "(if swapped_endian d then btf_bswap_type_base mem (types + nxt) else Inr mem) = Inr m0"
      "btf_base_at m0 (types + nxt) = Inr t0" "btf_type_size t0 = Inr n" "nxt1 = nxt + n"
      and m1: "(if swapped_endian d then btf_bswap_type_rest m0 (types + nxt) else Inr m0) = Inr mem1"
      using step unfolding btf_parse_type_step_def rbind_Inr_iff by auto
    have len0: "length m0 = length mem"
      using m0(1) bswap_words_frame(1) by (auto simp: btf_bswap_type_base_def split: if_splits)
    have len1: "length mem1 = length m0"
      using m1 bswap_words_frame(1)
      by (auto simp: btf_bswap_type_rest_words [OF m0(2)] m0(3) split: if_splits)
    have "types + nxt + 12 \<le> length mem"
      using m0(2) len0 read_words_length by (fastforce simp: btf_base_at_def result_simps)
    moreover have "n \<le> 12 + 12 * 2 ^ 16"
      using m0(3) btf_vlen_less [of t0]
      by (cases "btf_kind t0") (auto simp: btf_type_size_def kind_size_def sizeof_btf_type_def)
    ultimately have "types + nxt1 < length mem + 2 ^ 20" using m0(4) by simp
    then show ?thesis using "1.IH" [OF True step refl refl rest le] len0 len1 by auto
  qed (use "1.prems" in \<open>auto simp: btf_parse_type_sec.simps split: if_splits\<close>)
qed

lemma btf_parse_hdr_sound:
  assumes "btf_parse_hdr data = Inr (h, sw, raw)"
  shows "length raw = length data" "sw \<Longrightarrow> hdr_len h = 24"
    "sizeof_btf_header < length data"
    "str_off h + str_len h \<le> of_nat (length data - sizeof_btf_header)"
    "type_off h + type_len h \<le> str_off h"
proof -
  have "unat w = 24 \<Longrightarrow> w = 24" for w :: u32
    by (simp add: word_unat_eq_iff)
  then show "length raw = length data" "sw \<Longrightarrow> hdr_len h = 24"
    "str_off h + str_len h \<le> of_nat (length data - sizeof_btf_header)"
    "type_off h + type_len h \<le> str_off h"
    using assms
    by (auto simp: btf_parse_hdr_def result_simps Let_def btf_bswap_hdr_def sizeof_btf_header_def
        not_less split: if_splits)
  show "sizeof_btf_header < length data"
    using assms by (cases "length data = sizeof_btf_header")
      (auto simp: btf_parse_hdr_def result_simps Let_def split: if_splits)
qed

lemma unat_add_wrap: "unat (a + b :: u32) = unat a + unat b \<or> 2 ^ 32 \<le> unat a + unat b"
  using unat_word_ariths(1) [of a b] by (cases "unat a + unat b < 2 ^ 32") auto

lemma btf_parse_str_sec_sound:
  assumes "btf_parse_str_sec has_base h raw = Inr ()"
  shows "has_base \<and> str_len h = 0 \<or>
    (0 < unat (str_len h) \<and> unat (str_len h) \<le> BTF_MAX_STR_OFFSET + 1 \<and>
     strs_at h + unat (str_len h) \<le> length raw \<and> raw ! (strs_at h + unat (str_len h) - 1) = 0 \<and>
     (\<not> has_base \<longrightarrow> raw ! strs_at h = 0))"
  using assms unat_minus_one [of "str_len h"]
  by (auto simp: btf_parse_str_sec_def result_simps unat_gt_0 split: if_splits)


lemma slice_type_sec:
  assumes "mem' = take a mem @ xs @ drop b mem" "b = a + length xs" "b \<le> length mem"
  shows "subarray a (length xs) mem' = xs"
    "b \<le> c \<Longrightarrow> subarray c n mem' = subarray c n mem"
  using assms by (auto simp: subarray_def)

lemma nth_slice [simp]: "i < n \<Longrightarrow> off + n \<le> length xs \<Longrightarrow> subarray off n xs ! i = xs ! (off + i)"
  by (simp add: subarray_def)

lemma length_slice [simp]: "off + n \<le> length xs \<Longrightarrow> length (subarray off n xs) = n"
  by (simp add: subarray_def)

lemma byte_char_0 [simp]: "byte_char 0 = NUL"
  by (simp add: byte_char_def char_of_def)

lemma btf_parse_type_sec_keeps:
  "btf_parse_type_sec alloc types e nxt mem d = Inr (mem', d') \<Longrightarrow> hdr d' = hdr d"
proof (induction alloc types e nxt mem d rule: btf_parse_type_sec.induct)
  case (1 alloc types e nxt mem d)
  show ?case
  proof (cases "nxt + sizeof_btf_type \<le> e")
    case True
    then obtain nxt1 mem1 d1 where step: "btf_parse_type_step alloc types e nxt mem d = Inr (nxt1, mem1, d1)"
      and rest: "btf_parse_type_sec alloc types e nxt1 mem1 d1 = Inr (mem', d')"
      using "1.prems"(1) by (auto simp: btf_parse_type_sec.simps [of alloc types e nxt] split: sum.splits)
    have "hdr d1 = hdr d" using step
      by (auto simp: btf_parse_type_step_def btf_add_type_idx_entry_def result_simps)
    with "1.IH" [OF True step refl refl rest] show ?thesis by simp
  qed (use "1.prems" in \<open>auto simp: btf_parse_type_sec.simps split: if_splits\<close>)
qed

text \<open>
  The sections of a header that passed the checks lie inside the raw data, types before strings,
  whenever no access of the parser left it.
\<close>

lemma btf_sections_inside:
  assumes hdr: "btf_parse_hdr data = Inr (h, sw, raw)"
    and str: "btf_parse_str_sec has_base h raw = Inr ()"
    and tsec: "btf_parse_type_sec alloc (types_at h) (unat (type_len h)) 0 raw d = Inr r"
    and small: "length data < 2 ^ 31" and plain: "\<not> has_base \<or> hdr_len h = 24"
  shows "types_at h + unat (type_len h) \<le> strs_at h" "strs_at h + unat (str_len h) \<le> length raw"
proof -
  note H = btf_parse_hdr_sound [OF hdr]
  have inS: "strs_at h + unat (str_len h) \<le> length raw"
  proof (cases "str_len h = 0")
    case False
    then show ?thesis using btf_parse_str_sec_sound [OF str] by auto
  next
    case True
    with btf_parse_str_sec_sound [OF str] plain have "hdr_len h = 24" by auto
    moreover have "unat (str_off h) \<le> length data - sizeof_btf_header"
      using H(4) small True by (simp add: word_le_nat_alt unat_of_nat)
    ultimately show ?thesis using H(1,3) True by (simp add: strs_at_def sizeof_btf_header_def)
  qed
  then show "strs_at h + unat (str_len h) \<le> length raw" .
  have "unat (type_len h) = 0 \<or> types_at h + unat (type_len h) < length raw + 2 ^ 20"
    using btf_parse_type_sec_last [of alloc "types_at h" "unat (type_len h)" 0 raw d] tsec
    by (cases r) auto
  then have "unat (type_len h) = 0 \<or> unat (type_off h) + unat (type_len h) < 2 ^ 32"
    using small H(1) by (auto simp: types_at_def)
  then have "unat (type_off h + type_len h) = unat (type_off h) + unat (type_len h)"
    using unat_add_wrap [of "type_off h" "type_len h"] unsigned_less [of "type_off h", where 'a = nat] by auto
  then show "types_at h + unat (type_len h) \<le> strs_at h"
    using H(5) by (simp add: word_le_nat_alt types_at_def strs_at_def)
qed

lemma btf_new_parsed:
  assumes new: "btf_new alloc data base = Inr b" and small: "length data < 2 ^ 31"
    and plain: "base = None \<or> hdr_len (hdr (own b)) = 24"
  shows "(\<exists>ts. btf_repr (own b) ts) \<and> strs_ok (base \<noteq> None) (own b) \<and> base_btf b = base \<and>
    start_id (own b) = (case base of None \<Rightarrow> 1 | Some b0 \<Rightarrow> btf__get_nr_types b0 + 1) \<and>
    start_str_off (own b) = (case base of None \<Rightarrow> 0 | Some b0 \<Rightarrow> unat (str_len (hdr (own b0))))"
proof -
  obtain h sw raw raw' d where hdr: "btf_parse_hdr data = Inr (h, sw, raw)"
    and str: "btf_parse_str_sec (base \<noteq> None) h raw = Inr ()"
    and tsec: "btf_parse_type_sec alloc (types_at h) (unat (type_len h)) 0 raw
              ((btf_calloc base)\<lparr>raw_size := length data, hdr := h, swapped_endian := sw\<rparr>) = Inr (raw', d)"
    and b: "b = Btf (d\<lparr>raw_data := Some raw',
                 hdr_extra := subarray sizeof_btf_header (unat (hdr_len h) - sizeof_btf_header) raw',
                 types_data := subarray (types_at h) (unat (type_len h)) raw',
                 strs_data := map byte_char (subarray (strs_at h) (unat (str_len h)) raw'),
                 fd := -1\<rparr>) base"
    using new by (auto simp: btf_new_def rbind_Inr_iff)
  have "hdr d = h" using btf_parse_type_sec_keeps [OF tsec] by simp
  with plain b have "base = None \<or> hdr_len h = 24" by simp
  then have inside: "types_at h + unat (type_len h) \<le> strs_at h" "strs_at h + unat (str_len h) \<le> length raw"
    using btf_sections_inside [OF hdr str tsec small] by auto
  with btf_parse_type_sec_sound [OF tsec] obtain ts c where ts: "\<forall>t \<in> set ts. wf_type t"
    "unat (type_len h) = length (encode_types ts)"
    "raw' = take (types_at h) raw @ encode_types ts @ drop (types_at h + unat (type_len h)) raw"
    and d: "d = (btf_calloc base)\<lparr>raw_size := length data, hdr := h, swapped_endian := sw,
      type_offs := offs_from 0 ts, type_offs_cap := c, nr_types := length ts\<rparr>"
    by (auto simp: btf_calloc_def)
  have tb: "subarray (types_at h) (unat (type_len h)) raw' = encode_types ts"
    and sb: "subarray (strs_at h) (unat (str_len h)) raw' = subarray (strs_at h) (unat (str_len h)) raw"
    using slice_type_sec [OF ts(3)] ts(2) inside by auto
  have "btf_repr (own b) ts" using ts(1,2) tb d by (simp add: b btf_repr_def)
  moreover have "strs_ok (base \<noteq> None) (own b)"
    using btf_parse_str_sec_sound [OF str] inside(2)
    by (auto simp: b d strs_ok_def sb last_conv_nth hd_conv_nth simp flip: length_0_conv)
  ultimately show ?thesis by (auto simp: b d btf_calloc_def)
qed


text \<open>C5. A BTF blob that \<open>btf_new\<close> accepts without an access outside it is a well-formed
  BTF: its types are laid out back to back, the index has the offset of each, and its strings
  end in a NUL (and start with the empty string). The object starts counting ids and string
  offsets where its base ends. (For a split BTF the header length is the struct's.)\<close>

theorem btf_new_sound:
  assumes new: "btf_new alloc data base = Inr b" and small: "length data < 2 ^ 31"
    and plain: "base = None \<or> hdr_len (hdr (own b)) = 24"
  shows "(\<exists>ts. btf_repr (own b) ts) \<and> strs_ok (base \<noteq> None) (own b) \<and> base_btf b = base \<and>
    start_id (own b) = (case base of None \<Rightarrow> 1 | Some b0 \<Rightarrow> btf__get_nr_types b0 + 1) \<and>
    start_str_off (own b) = (case base of None \<Rightarrow> 0 | Some b0 \<Rightarrow> unat (str_len (hdr (own b0))))"
  using btf_new_parsed [OF assms] .

subsection \<open>The serializer\<close>

lemma btf_bswap_type_back:
  assumes "wf_type t"
  shows "rbind (btf_bswap_type_rest (pre @ encode_type t @ post) (length pre))
      (\<lambda>m. btf_bswap_type_base m (length pre)) = Inr (pre @ swap_type t @ post)"
proof -
  let ?v = "vdata_words (vdata t)" and ?b = "[name_off t, info t, size_type t]"
  let ?t0 = "\<lparr>name_off = name_off t, info = info t, size_type = size_type t, vdata = VNone\<rparr>"
  have n: "btf_type_size ?t0 = Inr (length (encode_type t))"
    using btf_type_size_encode [OF assms] by (simp add: btf_type_size_def btf_kind_def btf_vlen_def)
  have t0: "btf_base_at (pre @ encode_type t @ post) (length pre) = Inr ?t0"
    using btf_base_at_words [of pre "name_off t" "info t" "size_type t" ?v post]
    by (simp add: encode_type_def)
  have "bswap_words ((pre @ words_bytes ?b) @ words_bytes ?v @ post) (length (pre @ words_bytes ?b))
      (length ?v) = Inr ((pre @ words_bytes ?b) @ words_bytes (map bswap_32 ?v) @ post)"
    by (rule bswap_words_at)
  then have "btf_bswap_type_rest (pre @ encode_type t @ post) (length pre) =
      Inr (pre @ words_bytes ?b @ (words_bytes (map bswap_32 ?v) @ post))"
    unfolding btf_bswap_type_rest_words [OF t0]
    by (simp add: n length_encode_type encode_type_def sizeof_btf_type_def)
  then show ?thesis
    using bswap_words_at [of pre ?b "words_bytes (map bswap_32 ?v) @ post"]
    by (simp add: btf_bswap_type_base_def swap_type_def eval_nat_numeral)
qed

lemma bswap_types_all:
  assumes "\<forall>t \<in> set ts. wf_type t" "length pre + length (encode_types ts) < 2 ^ 32"
  shows "bswap_types (pre @ encode_types ts @ post) 0 (offs_from (length pre) ts) =
    Inr (pre @ concat (map swap_type ts) @ post)"
  using assms
proof (induction ts arbitrary: pre)
  case (Cons t ts)
  have off: "unat (of_nat (length pre) :: u32) = length pre"
    using Cons.prems(2) by (simp add: unat_of_nat)
  obtain m where m: "btf_bswap_type_rest (pre @ encode_type t @ encode_types ts @ post) (length pre) = Inr m"
    "btf_bswap_type_base m (length pre) = Inr (pre @ swap_type t @ encode_types ts @ post)"
    using btf_bswap_type_back [of t pre "encode_types ts @ post"] Cons.prems(1)
    by (auto simp: result_simps)
  with Cons.IH [of "pre @ swap_type t"] Cons.prems show ?case by (simp add: off)
qed simp

text \<open>The layout the writer produces: the bare header, then types, then strings.\<close>

definition canonical :: "btf_data \<Rightarrow> bool" where
  "canonical d \<longleftrightarrow>
     h_magic (hdr d) = BTF_MAGIC \<and> unat (hdr_len (hdr d)) = sizeof_btf_header \<and>
     type_off (hdr d) = 0 \<and> str_off (hdr d) = type_len (hdr d) \<and>
     sizeof_btf_header + unat (type_len (hdr d)) + unat (str_len (hdr d)) < 2 ^ 32"

definition raw_layout :: "bool \<Rightarrow> btf_header \<Rightarrow> btf_type list \<Rightarrow> string \<Rightarrow> u8 list" where
  "raw_layout swap h ts s =
     encode_hdr (if swap then btf_bswap_hdr h else h) @ concat (map (type_bytes swap) ts) @ map char_byte s"

lemma length_offs_from [simp]: "length (offs_from n ts) = length ts"
  by (induction ts arbitrary: n) auto

lemma type_bytes_simps [simp]: "type_bytes False = encode_type" "type_bytes True = swap_type"
  by (auto simp: type_bytes_def)

lemma encode_types_eq_Nil [simp]: "encode_types ts = [] \<longleftrightarrow> ts = []"
  by (cases ts) (auto simp: encode_type_def le32_def)

lemma btf_get_raw_data_bytes:
  assumes repr: "btf_repr d ts" and strs: "strs_ok has_base d" and canon: "unat (hdr_len (hdr d)) = sizeof_btf_header"
    "sizeof_btf_header + unat (type_len (hdr d)) + unat (str_len (hdr d)) < 2 ^ 32"
    and none: "(if swap then raw_data_swapped d else raw_data d) = None"
  shows "btf_get_raw_data served d swap =
    Inr (Some (raw_layout swap (hdr d) ts (strs_data d), length (raw_layout swap (hdr d) ts (strs_data d))))"
proof -
  let ?h = "hdr d"
  have len: "unat (hdr_len ?h + type_len ?h + str_len ?h) =
      sizeof_btf_header + length (encode_types ts) + length (strs_data d)"
    using canon repr strs unat_add_wrap [of "hdr_len ?h" "type_len ?h"]
      unat_add_wrap [of "hdr_len ?h + type_len ?h" "str_len ?h"]
    by (auto simp: btf_repr_def strs_ok_def)
  have hb: "hdr_bytes d = encode_hdr ?h" using canon by (simp add: hdr_bytes_def)
  have hs: "raw_hdr n swap (encode_hdr ?h) = Inr (encode_hdr (if swap then btf_bswap_hdr ?h else ?h))" for n
    by (simp add: raw_hdr_def)
  have tb: "(if swap then bswap_types (encode_types ts) 0 (offs_from 0 ts) else Inr (encode_types ts)) =
      Inr (concat (map (type_bytes swap) ts))"
    using bswap_types_all [of ts "[]" "[]"] repr unsigned_less [of "type_len ?h", where 'a = nat]
    by (auto simp: btf_repr_def simp flip: encode_types_def)
  have lt: "length (concat (map (type_bytes swap) ts)) = length (encode_types ts)"
    by (simp add: length_concat encode_types_def comp_def)
  have parts: "take (unat (type_len ?h)) (types_data d) = encode_types ts"
    "take (unat (str_len ?h)) (strs_data d) = strs_data d" "take (nr_types d) (type_offs d) = offs_from 0 ts"
    and lens: "unat (hdr_len ?h) = sizeof_btf_header" "unat (type_len ?h) = length (encode_types ts)"
    "unat (str_len ?h) = length (strs_data d)"
    using repr strs canon by (simp_all add: btf_repr_def strs_ok_def)
  show ?thesis
    unfolding btf_get_raw_data_def none option.case Let_def hb parts tb len sum.case
    by (simp add: hs lens lt raw_layout_def)
qed

lemma btf_get_raw_data_layout:
  assumes "btf_repr d ts" "strs_ok has_base d" "canonical d" "(if swap then raw_data_swapped d else raw_data d) = None"
  shows "btf_get_raw_data served d swap =
    Inr (Some (raw_layout swap (hdr d) ts (strs_data d), length (raw_layout swap (hdr d) ts (strs_data d))))"
  using assms btf_get_raw_data_bytes [OF assms(1,2) _ _ assms(4)] by (simp add: canonical_def)

lemma char_byte_NUL: "char_byte NUL = 0"
  by (simp add: char_byte_def)

lemma BTF_MAGIC_swapped: "bswap_16 BTF_MAGIC \<noteq> BTF_MAGIC"
  by code_simp

text \<open>The parser on the writer's layout.\<close>

lemma btf_new_raw_layout:
  assumes repr: "btf_repr d ts" and strs: "strs_ok (base \<noteq> None) d" and canon: "canonical d"
    and some: "ts \<noteq> [] \<or> strs_data d \<noteq> []" and nr: "length ts \<le> BTF_MAX_NR_TYPES"
  shows "\<exists>b. btf_new served (raw_layout swap (hdr d) ts (strs_data d)) base = Inr b \<and>
    hdr (own b) = hdr d \<and> btf_repr (own b) ts \<and>
    strs_data (own b) = strs_data d \<and> swapped_endian (own b) = swap"
proof -
  let ?h = "hdr d" and ?data = "raw_layout swap (hdr d) ts (strs_data d)"
  let ?raw = "encode_hdr (hdr d) @ concat (map (type_bytes swap) ts) @ map char_byte (strs_data d)"
  let ?fin = "encode_hdr (hdr d) @ encode_types ts @ map char_byte (strs_data d)"
  have lt: "length (concat (map (type_bytes swap) ts)) = length (encode_types ts)"
    by (simp add: length_concat encode_types_def comp_def)
  have lens: "unat (type_len ?h) = length (encode_types ts)" "unat (str_len ?h) = length (strs_data d)"
    "unat (str_off ?h) = length (encode_types ts)" "unat (hdr_len ?h) = sizeof_btf_header"
    using repr strs canon by (simp_all add: btf_repr_def strs_ok_def canonical_def)
  have ne: "0 < length (encode_types ts) + length (strs_data d)" using some by auto
  have parse_hdr: "btf_parse_hdr ?data = Inr (?h, swap, ?raw)"
  proof -
    have m: "bswap_32 (hdr_len (btf_bswap_hdr ?h)) = hdr_len ?h" by (simp add: btf_bswap_hdr_def)
    have tot: "length (encode_types ts) + length (strs_data d) < 2 ^ 32"
      using canon lens by (simp add: canonical_def)
    have "unat (str_off ?h + str_len ?h) \<le> length (encode_types ts) + length (strs_data d)"
      using unat_add_wrap [of "str_off ?h" "str_len ?h"] lens tot by auto
    then have "\<not> (of_nat (length (encode_types ts) + length (strs_data d)) :: u32) < str_off ?h + str_len ?h"
      using tot by (simp add: word_less_nat_alt unat_of_nat del: of_nat_add)
    moreover have "(of_nat (length (encode_types ts) + length (strs_data d)) :: u32) \<noteq> 0"
      using tot ne by (simp add: word_unat_eq_iff unat_of_nat del: of_nat_add)
    ultimately show ?thesis
      using canon lens BTF_MAGIC_swapped
      by (simp add: btf_parse_hdr_def raw_layout_def lt Let_def m canonical_def)
        (simp add: btf_bswap_hdr_def)
  qed
  have parse_str: "btf_parse_str_sec (base \<noteq> None) ?h ?raw = Inr ()"
  proof (cases "strs_data d = []")
    case True
    then show ?thesis using strs lens(2) by (auto simp: strs_ok_def btf_parse_str_sec_def unat_eq_0)
  next
    case False
    then have nz: "str_len ?h \<noteq> 0" using lens(2) by auto
    have len: "length (strs_data d) - 1 \<le> BTF_MAX_STR_OFFSET" using strs by (auto simp: strs_ok_def)
    have "?raw ! (strs_at ?h + unat (str_len ?h) - 1) = 0"
    proof -
      have "strs_at ?h + unat (str_len ?h) - 1 = length ?raw - 1"
        using lens lt by (simp add: strs_at_def)
      moreover have "?raw ! (length ?raw - 1) = last ?raw" using False by (subst last_conv_nth) auto
      ultimately show ?thesis
        using strs False by (simp add: strs_ok_def last_map char_byte_NUL)
    qed
    moreover have "\<not> base \<noteq> None \<longrightarrow> ?raw ! strs_at ?h = 0"
      using strs False lens lt
      by (simp add: strs_ok_def strs_at_def nth_append hd_conv_nth char_byte_NUL)
    moreover have "strs_at ?h + unat (str_len ?h) - 1 < length ?raw" "strs_at ?h < length ?raw"
      using lens lt False by (auto simp: strs_at_def simp flip: length_greater_0_conv)
    ultimately have "array_get ?raw (strs_at ?h + unat (str_len ?h) - 1) = Inr 0"
      "base = None \<Longrightarrow> array_get ?raw (strs_at ?h) = Inr 0"
      unfolding array_get_def by simp_all
    then show ?thesis
      using nz len lens(2) unat_minus_one [OF nz]
      by (auto simp: btf_parse_str_sec_def)
  qed
  let ?d0 = "(btf_calloc base)\<lparr>raw_size := length ?data, hdr := ?h, swapped_endian := swap\<rparr>"
  obtain c where tsec: "btf_parse_type_sec served (types_at ?h) (unat (type_len ?h)) 0 ?raw ?d0 =
      Inr (?fin, ?d0\<lparr>type_offs := offs_from 0 ts, type_offs_cap := c, nr_types := length ts\<rparr>)"
    using btf_parse_type_sec_complete [of ts "encode_hdr ?h" "types_at ?h" 0 "unat (type_len ?h)" ?d0
        "map char_byte (strs_data d)"] repr canon lens nr
    by (auto simp: btf_repr_def types_at_def canonical_def btf_calloc_def split: if_splits)
  have "subarray (types_at ?h) (unat (type_len ?h)) ?fin = encode_types ts"
    "map byte_char (subarray (strs_at ?h) (unat (str_len ?h)) ?fin) = strs_data d"
    using lens canon by (simp_all add: subarray_def types_at_def strs_at_def canonical_def comp_def)
  with parse_hdr parse_str tsec repr show ?thesis
    by (intro exI) (auto simp: btf_new_def btf_repr_def)
qed

text \<open>C4. Serializing and parsing are inverse in both byte orders, for the layout that the writer makes: an object
  without cached raw data, whose header is the bare one with the types directly behind it and the strings directly
  behind the types (\<open>canonical\<close>), is written by \<open>btf_get_raw_data\<close> to a blob from which \<open>btf_new\<close> rebuilds the same
  header, types, index and strings, recording the byte order of the blob.\<close>

theorem btf_raw_data_roundtrip:
  assumes repr: "btf_repr d ts" and strs: "strs_ok (base \<noteq> None) d" and canon: "canonical d"
    and none: "(if swap then raw_data_swapped d else raw_data d) = None"
    and some: "ts \<noteq> [] \<or> strs_data d \<noteq> []" and nr: "length ts \<le> BTF_MAX_NR_TYPES"
  shows "\<exists>data b. btf_get_raw_data served d swap = Inr (Some (data, length data)) \<and>
    btf_new served data base = Inr b \<and> hdr (own b) = hdr d \<and> btf_repr (own b) ts \<and>
    strs_data (own b) = strs_data d \<and> swapped_endian (own b) = swap"
  using btf_get_raw_data_layout [OF repr strs canon none] btf_new_raw_layout [OF repr strs canon some nr]
  by blast

text \<open>
  The parser also accepts a header with a gap in front of the types or of the strings. \<open>btf_get_raw_data\<close> leaves the gaps
  out of the blob and the offsets in the header, so the parser refuses what it has written.
\<close>

lemma raw_data_with_gap_refused:
  assumes repr: "btf_repr d ts" and strs: "strs_ok has_base d" and hlen: "unat (hdr_len (hdr d)) = sizeof_btf_header"
    and size: "sizeof_btf_header + unat (str_off (hdr d)) + unat (str_len (hdr d)) < 2 ^ 32"
    and gap: "unat (type_len (hdr d)) < unat (str_off (hdr d))" and magic: "h_magic (hdr d) = BTF_MAGIC"
    and none: "(if swap then raw_data_swapped d else raw_data d) = None"
  shows "\<exists>data. btf_get_raw_data served d swap = Inr (Some (data, length data)) \<and> btf_new served data base = Inl EINVAL"
proof -
  let ?h = "hdr d"
  let ?data = "raw_layout swap ?h ts (strs_data d)"
  have get: "btf_get_raw_data served d swap = Inr (Some (?data, length ?data))"
    using btf_get_raw_data_bytes [OF repr strs hlen _ none] size gap by simp
  have len: "length ?data = sizeof_btf_header + (unat (type_len ?h) + unat (str_len ?h))"
    using repr strs by (simp add: raw_layout_def length_concat comp_def btf_repr_def strs_ok_def encode_types_def)
  have "unat (str_off ?h + str_len ?h) = unat (str_off ?h) + unat (str_len ?h)"
    using size unat_add_wrap [of "str_off ?h" "str_len ?h"] by auto
  then have less: "(of_nat (unat (type_len ?h) + unat (str_len ?h)) :: u32) < str_off ?h + str_len ?h"
    using gap size by (simp add: word_less_nat_alt unat_of_nat del: of_nat_add)
  have "btf_parse_hdr ?data = Inl EINVAL"
  proof (cases "(of_nat (unat (type_len ?h) + unat (str_len ?h)) :: u32) = 0")
    case True
    then show ?thesis using hlen magic len BTF_MAGIC_swapped
      by (simp add: btf_parse_hdr_def Let_def del: of_nat_add) (simp add: raw_layout_def btf_bswap_hdr_def)
  next
    case False
    then show ?thesis using hlen magic len less BTF_MAGIC_swapped
      by (simp add: btf_parse_hdr_def Let_def del: of_nat_add) (simp add: raw_layout_def btf_bswap_hdr_def)
  qed
  then show ?thesis using get by (simp add: btf_new_def)
qed

subsection \<open>Examples\<close>

definition ex_int :: btf_type where
  "ex_int = \<lparr>name_off = 1, info = btf_type_info BTF_KIND_INT 0 False, size_type = 4, vdata = VInt 32\<rparr>"

definition ex_ptr :: btf_type where
  "ex_ptr = \<lparr>name_off = 0, info = btf_type_info BTF_KIND_PTR 0 False, size_type = 1, vdata = VNone\<rparr>"

definition ex_strs :: string where
  "ex_strs = [NUL] @ ''int'' @ [NUL]"

definition ex_hdr :: btf_header where
  "ex_hdr = \<lparr>h_magic = BTF_MAGIC, h_version = BTF_VERSION, h_flags = 0, hdr_len = 24, type_off = 0,
     type_len = 28, str_off = 28, str_len = 5\<rparr>"

definition ex_blob :: "u8 list" where
  "ex_blob = raw_layout True ex_hdr [ex_int, ex_ptr] ex_strs"

definition ex_data :: btf_data where
  "ex_data = (btf_calloc None)\<lparr>hdr := ex_hdr, types_data := encode_types [ex_int, ex_ptr],
     type_offs := [0, 16], nr_types := 2, strs_data := ex_strs\<rparr>"

text \<open>A header whose \<open>str_off + str_len\<close> wraps around to 1.\<close>

definition wrap_blob :: "u8 list" where
  "wrap_blob = encode_hdr (ex_hdr\<lparr>type_len := 0, str_off := 0x90000000, str_len := 0x70000001\<rparr>) @ [0]"

lemma ex_types_wf: "\<forall>t \<in> set [ex_int, ex_ptr]. wf_type t"
  by code_simp

lemma ex_data_ok: "btf_repr ex_data [ex_int, ex_ptr]" "strs_ok False ex_data" "canonical ex_data"
  using ex_types_wf
  by (simp_all add: btf_repr_def ex_data_def ex_hdr_def btf_calloc_def length_encode_type ex_int_def
      ex_ptr_def sizeof_btf_type_def strs_ok_def canonical_def ex_strs_def
      BTF_MAX_STR_OFFSET_def sizeof_btf_header_def)

theorem btf_new_sound_witness:
  "case btf_new served ex_blob None of
     Inl e \<Rightarrow> False
   | Inr b \<Rightarrow> (\<exists>ts. btf_repr (own b) ts) \<and> strs_ok False (own b)"
proof -
  obtain b where b: "btf_new served ex_blob None = Inr b"
    using btf_new_raw_layout [of ex_data "[ex_int, ex_ptr]" None True] ex_data_ok
    by (auto simp: ex_blob_def ex_data_def BTF_MAX_NR_TYPES_def)
  have "length ex_blob < 2 ^ 31"
    by (simp add: ex_blob_def raw_layout_def sizeof_btf_header_def length_encode_type ex_int_def
        ex_ptr_def sizeof_btf_type_def ex_strs_def)
  with btf_new_sound [OF b] b show ?thesis by simp
qed

theorem btf_raw_data_roundtrip_witness:
  "\<exists>data b. btf_get_raw_data served ex_data True = Inr (Some (data, length data)) \<and>
    btf_new served data None = Inr b \<and> hdr (own b) = hdr ex_data \<and>
    btf_repr (own b) [ex_int, ex_ptr] \<and> strs_data (own b) = strs_data ex_data \<and> swapped_endian (own b)"
  using btf_raw_data_roundtrip [of ex_data "[ex_int, ex_ptr]" None True] ex_data_ok
  by (simp add: ex_data_def btf_calloc_def BTF_MAX_NR_TYPES_def)

text \<open>C40. The checks of \<open>btf_parse_hdr\<close> add 32-bit offsets and lengths. Whenever they accept a header whose string
  section, of a length that \<open>btf_parse_str_sec\<close> accepts, in truth ends behind the data, \<open>btf_new\<close> reads the last byte of
  that section outside the data. The example is a blob of 25 bytes whose \<open>str_off + str_len\<close> wraps around to 1.\<close>

theorem btf_new_reads_outside:
  assumes "btf_parse_hdr data = Inr (h, swapped, raw)"
    and "str_len h \<noteq> 0" "unat (str_len h) \<le> BTF_MAX_STR_OFFSET + 1"
    and "length data < unat (hdr_len h) + unat (str_off h) + unat (str_len h)"
  shows "btf_new served data base = Inl OOB"
proof -
  have "length raw = length data"
    using assms(1) by (auto simp: btf_parse_hdr_def rbind_Inr_iff Let_def guard_def split: if_splits)
  then show ?thesis
    using assms unat_minus_one [OF assms(2)] unat_eq_0 [of "str_len h"]
    by (auto simp: btf_new_def btf_parse_str_sec_def array_get_def strs_at_def)
qed

theorem btf_new_reads_outside_witness:
  "length wrap_blob = 25 \<and> btf_new served wrap_blob None = Inl OOB"
proof -
  let ?h = "ex_hdr\<lparr>type_len := 0, str_off := 0x90000000, str_len := 0x70000001\<rparr>"
  have "btf_parse_hdr wrap_blob = Inr (?h, False, wrap_blob)"
    using BTF_MAGIC_swapped by (simp add: btf_parse_hdr_def wrap_blob_def sizeof_btf_header_def) (simp add: ex_hdr_def)
  from btf_new_reads_outside [OF this] show ?thesis
    by (simp add: ex_hdr_def wrap_blob_def BTF_MAX_STR_OFFSET_def sizeof_btf_header_def)
qed

end
