(* ===== verification/Btf_Query.thy ===== *)
theory Btf_Query
  imports Btf_Parse
begin

text \<open>
  The read-only interface of \<^verbatim>\<open>btf.c\<close>: types by id and strings by offset through the chain of
  split BTFs, the guess of the pointer size and its cache, sizes, alignments, resolution of
  modifiers, lookup by name, and the key and value types of a map.

  Type ids and string offsets are the natural numbers behind the 32-bit fields. A NULL result is
  \<open>None\<close>; a read through a NULL pointer is \<open>OOB\<close>. The cached pointer size is state, so the
  functions that may compute it return the updated object.
\<close>

definition btf_void :: btf_type where
  "btf_void = \<lparr>name_off = 0, info = 0, size_type = 0, vdata = VNone\<rparr>"

definition btf__base_btf :: "btf \<Rightarrow> btf option" where
  "btf__base_btf b = base_btf b"

fun btf_type_by_id :: "btf \<Rightarrow> nat \<Rightarrow> btf_type result" where
  "btf_type_by_id (Btf d base) type_id =
     (if type_id = 0 then Inr btf_void
      else if type_id < start_id d
      then (case base of None \<Rightarrow> Inl OOB | Some b \<Rightarrow> btf_type_by_id b type_id)
      else rbind (array_get (type_offs d) (type_id - start_id d))
             (\<lambda>off. btf_type_at (types_data d) (unat off)))"

definition btf__type_by_id :: "btf \<Rightarrow> nat \<Rightarrow> btf_type option result" where
  "btf__type_by_id b type_id =
     (if type_id \<ge> start_id (own b) + nr_types (own b) then Inr None
      else rbind (btf_type_by_id b type_id) (\<lambda>t. Inr (Some t)))"

fun btf__str_by_offset :: "btf \<Rightarrow> nat \<Rightarrow> string option result" where
  "btf__str_by_offset (Btf d base) offset =
     (if offset < start_str_off d
      then (case base of None \<Rightarrow> Inl OOB | Some b \<Rightarrow> btf__str_by_offset b offset)
      else if offset - start_str_off d < unat (str_len (hdr d))
      then Inr (Some (cstr (drop (offset - start_str_off d) (strs_data d))))
      else Inr None)"

definition btf__name_by_offset :: "btf \<Rightarrow> u32 \<Rightarrow> string option result" where
  "btf__name_by_offset b off = btf__str_by_offset b (unat off)"

subsection \<open>The pointer size\<close>

fun long_int_scan :: "btf \<Rightarrow> nat list \<Rightarrow> int result" where
  "long_int_scan b [] = Inr (-1)"
| "long_int_scan b (i # is) =
     rbind (btf__type_by_id b i) (\<lambda>p. rbind (deref p OOB) (\<lambda>t.
     if \<not> btf_is_int t then long_int_scan b is
     else rbind (btf__name_by_offset b (name_off t)) (\<lambda>name.
       case name of
         None \<Rightarrow> long_int_scan b is
       | Some s \<Rightarrow>
           if s = ''long int'' \<or> s = ''long unsigned int''
           then if type_size t \<noteq> 4 \<and> type_size t \<noteq> 8 then long_int_scan b is
                else Inr (int (unat (type_size t)))
           else long_int_scan b is)))"

definition determine_ptr_size :: "btf \<Rightarrow> int result" where
  "determine_ptr_size b =
     (case base_btf b of
        Some b0 \<Rightarrow>
          if ptr_sz (own b0) > 0 then Inr (ptr_sz (own b0))
          else long_int_scan b [1..<btf__get_nr_types b + 1]
      | None \<Rightarrow> long_int_scan b [1..<btf__get_nr_types b + 1])"

definition cache_ptr_sz :: "btf \<Rightarrow> btf result" where
  "cache_ptr_sz b =
     (if ptr_sz (own b) = 0
      then rbind (determine_ptr_size b) (\<lambda>n. Inr (upd_own (\<lambda>d. d\<lparr>ptr_sz := n\<rparr>) b))
      else Inr b)"

definition btf_ptr_sz :: "btf \<Rightarrow> (nat \<times> btf) result" where
  "btf_ptr_sz b =
     rbind (cache_ptr_sz b) (\<lambda>b'.
     Inr (if ptr_sz (own b') < 0 then sizeof_ptr else nat (ptr_sz (own b')), b'))"

definition btf__pointer_size :: "btf \<Rightarrow> (nat \<times> btf) result" where
  "btf__pointer_size b =
     rbind (cache_ptr_sz b) (\<lambda>b'.
     Inr (if ptr_sz (own b') < 0 then 0 else nat (ptr_sz (own b')), b'))"

definition btf__set_pointer_size :: "btf \<Rightarrow> nat \<Rightarrow> btf result" where
  "btf__set_pointer_size b psz =
     (if psz \<noteq> 4 \<and> psz \<noteq> 8 then Inl EINVAL
      else Inr (upd_own (\<lambda>d. d\<lparr>ptr_sz := int psz\<rparr>) b))"

subsection \<open>Endianness\<close>

datatype btf_endianness = BTF_LITTLE_ENDIAN | BTF_BIG_ENDIAN

definition is_host_big_endian :: bool where "is_host_big_endian = False"

definition btf__endianness :: "btf \<Rightarrow> btf_endianness" where
  "btf__endianness b =
     (if is_host_big_endian
      then (if swapped_endian (own b) then BTF_LITTLE_ENDIAN else BTF_BIG_ENDIAN)
      else (if swapped_endian (own b) then BTF_BIG_ENDIAN else BTF_LITTLE_ENDIAN))"

definition btf__set_endianness :: "btf \<Rightarrow> btf_endianness \<Rightarrow> btf" where
  "btf__set_endianness b endian =
     (let swapped = (is_host_big_endian \<noteq> (endian = BTF_BIG_ENDIAN)) in
      upd_own (\<lambda>d. if swapped then d\<lparr>swapped_endian := True\<rparr>
                   else d\<lparr>swapped_endian := False, raw_data_swapped := None\<rparr>) b)"

subsection \<open>Sizes\<close>

text \<open>
  The code compares the address with that of \<open>btf_void\<close>; no type of the type section has its
  contents, since the kind 0 is refused when a section is parsed.
\<close>

definition btf_type_is_void :: "btf_type \<Rightarrow> bool" where
  "btf_type_is_void t \<longleftrightarrow> t = btf_void \<or> btf_is_fwd t"

definition btf_type_is_void_or_null :: "btf_type option \<Rightarrow> bool" where
  "btf_type_is_void_or_null t = (case t of None \<Rightarrow> True | Some t \<Rightarrow> btf_type_is_void t)"

definition MAX_RESOLVE_DEPTH :: nat where "MAX_RESOLVE_DEPTH = 32"
definition UINT32_MAX :: nat where "UINT32_MAX = 2 ^ 32 - 1"

text \<open>The loop of \<open>btf__resolve_size\<close>: it leaves with the size, or -1, and the element count.\<close>

fun resolve_size_loop :: "nat \<Rightarrow> btf \<Rightarrow> u32 \<Rightarrow> btf_type option \<Rightarrow> (int \<times> u32) result \<times> btf" where
  "resolve_size_loop 0 b nelems t = (Inr (-1, nelems), b)"
| "resolve_size_loop (Suc i) b nelems None = (Inr (-1, nelems), b)"
| "resolve_size_loop (Suc i) b nelems (Some t) =
     (let follow = (\<lambda>nelems' type_id.
        case btf__type_by_id b (unat type_id) of
          Inl e \<Rightarrow> (Inl e, b)
        | Inr t' \<Rightarrow> resolve_size_loop i b nelems' t') in
      if btf_type_is_void t then (Inr (-1, nelems), b)
      else case btf_kind t of
        BTF_KIND_INT \<Rightarrow> (Inr (int (unat (type_size t)), nelems), b)
      | BTF_KIND_STRUCT \<Rightarrow> (Inr (int (unat (type_size t)), nelems), b)
      | BTF_KIND_UNION \<Rightarrow> (Inr (int (unat (type_size t)), nelems), b)
      | BTF_KIND_ENUM \<Rightarrow> (Inr (int (unat (type_size t)), nelems), b)
      | BTF_KIND_DATASEC \<Rightarrow> (Inr (int (unat (type_size t)), nelems), b)
      | BTF_KIND_PTR \<Rightarrow>
          (case btf_ptr_sz b of
             Inl e \<Rightarrow> (Inl e, b)
           | Inr (n, b') \<Rightarrow> (Inr (int n, nelems), b'))
      | BTF_KIND_TYPEDEF \<Rightarrow> follow nelems (ref_type t)
      | BTF_KIND_VOLATILE \<Rightarrow> follow nelems (ref_type t)
      | BTF_KIND_CONST \<Rightarrow> follow nelems (ref_type t)
      | BTF_KIND_RESTRICT \<Rightarrow> follow nelems (ref_type t)
      | BTF_KIND_VAR \<Rightarrow> follow nelems (ref_type t)
      | BTF_KIND_ARRAY \<Rightarrow>
          (let array = btf_array t in
           if nelems \<noteq> 0 \<and> unat (a_nelems array) > UINT32_MAX div unat nelems then (Inl E2BIG, b)
           else follow (nelems * a_nelems array) (a_type array))
      | _ \<Rightarrow> (Inl EINVAL, b))"

definition btf__resolve_size :: "btf \<Rightarrow> nat \<Rightarrow> nat result \<times> btf" where
  "btf__resolve_size b type_id =
     (case btf__type_by_id b type_id of
        Inl e \<Rightarrow> (Inl e, b)
      | Inr t \<Rightarrow>
          (case resolve_size_loop MAX_RESOLVE_DEPTH b 1 t of
             (Inl e, b') \<Rightarrow> (Inl e, b')
           | (Inr (elem, nelems), b') \<Rightarrow>
               (if elem < 0 then Inl EINVAL
                else if nelems \<noteq> 0 \<and> nat elem > UINT32_MAX div unat nelems then Inl E2BIG
                else Inr (unat nelems * nat elem), b')))"

subsection \<open>Alignment\<close>

text \<open>
  The recursion of \<open>btf__align_of\<close> has no bound: a typedef or a struct that contains itself makes
  it run out of stack. The first argument bounds its depth, \<open>None\<close> is its exhaustion.
\<close>

fun btf__align_of :: "nat \<Rightarrow> btf \<Rightarrow> nat \<Rightarrow> nat result option \<times> btf"
  and align_members :: "nat \<Rightarrow> btf \<Rightarrow> btf_member_t list \<Rightarrow> nat \<Rightarrow> nat result option \<times> btf" where
  "btf__align_of 0 b tid = (None, b)"
| "btf__align_of (Suc n) b tid =
     (case rbind (btf__type_by_id b tid) (\<lambda>p. deref p OOB) of
        Inl e \<Rightarrow> (Some (Inl e), b)
      | Inr t \<Rightarrow>
          (let int_align = (case btf_ptr_sz b of
                 Inl e \<Rightarrow> (Some (Inl e), b)
               | Inr (p, b') \<Rightarrow> (Some (Inr (min p (unat (type_size t)))), b')) in
           case btf_kind t of
             BTF_KIND_INT \<Rightarrow> int_align
           | BTF_KIND_ENUM \<Rightarrow> int_align
           | BTF_KIND_PTR \<Rightarrow>
               (case btf_ptr_sz b of
                  Inl e \<Rightarrow> (Some (Inl e), b)
                | Inr (p, b') \<Rightarrow> (Some (Inr p), b'))
           | BTF_KIND_TYPEDEF \<Rightarrow> btf__align_of n b (unat (ref_type t))
           | BTF_KIND_VOLATILE \<Rightarrow> btf__align_of n b (unat (ref_type t))
           | BTF_KIND_CONST \<Rightarrow> btf__align_of n b (unat (ref_type t))
           | BTF_KIND_RESTRICT \<Rightarrow> btf__align_of n b (unat (ref_type t))
           | BTF_KIND_ARRAY \<Rightarrow> btf__align_of n b (unat (a_type (btf_array t)))
           | BTF_KIND_STRUCT \<Rightarrow> align_members n b (btf_members t) 1
           | BTF_KIND_UNION \<Rightarrow> align_members n b (btf_members t) 1
           | _ \<Rightarrow> (Some (Inr 0), b)))"
| "align_members n b [] max_align = (Some (Inr max_align), b)"
| "align_members n b (m # ms) max_align =
     (case btf__align_of n b (unat (m_type m)) of
        (Some (Inr align), b') \<Rightarrow>
          if align = 0 then (Some (Inr 0), b') else align_members n b' ms (max max_align align)
      | r \<Rightarrow> r)"

subsection \<open>Resolution and lookup by name\<close>

fun resolve_type_loop :: "nat \<Rightarrow> btf \<Rightarrow> nat \<Rightarrow> btf_type option \<Rightarrow> nat result" where
  "resolve_type_loop 0 b type_id t = Inl EINVAL"
| "resolve_type_loop (Suc depth) b type_id t =
     (case t of
        None \<Rightarrow> Inl EINVAL
      | Some ty \<Rightarrow>
          if btf_type_is_void ty then Inl EINVAL
          else if btf_is_mod ty \<or> btf_is_typedef ty \<or> btf_is_var ty
          then rbind (btf__type_by_id b (unat (ref_type ty)))
                 (\<lambda>t'. resolve_type_loop depth b (unat (ref_type ty)) t')
          else Inr type_id)"

definition btf__resolve_type :: "btf \<Rightarrow> nat \<Rightarrow> nat result" where
  "btf__resolve_type b type_id =
     rbind (btf__type_by_id b type_id) (\<lambda>t. resolve_type_loop MAX_RESOLVE_DEPTH b type_id t)"

fun find_by_name_loop :: "btf \<Rightarrow> string \<Rightarrow> (btf_type \<Rightarrow> bool) \<Rightarrow> nat list \<Rightarrow> nat result" where
  "find_by_name_loop b type_name wanted [] = Inl ENOENT"
| "find_by_name_loop b type_name wanted (i # is) =
     rbind (btf__type_by_id b i) (\<lambda>p. rbind (deref p OOB) (\<lambda>t.
     if \<not> wanted t then find_by_name_loop b type_name wanted is
     else rbind (btf__name_by_offset b (name_off t)) (\<lambda>name.
       if name = Some type_name then Inr i else find_by_name_loop b type_name wanted is)))"

definition btf__find_by_name :: "btf \<Rightarrow> string \<Rightarrow> nat result" where
  "btf__find_by_name b type_name =
     (if type_name = ''void'' then Inr 0
      else find_by_name_loop b type_name (\<lambda>_. True) [1..<btf__get_nr_types b + 1])"

definition btf__find_by_name_kind :: "btf \<Rightarrow> string \<Rightarrow> btf_kind_t \<Rightarrow> nat result" where
  "btf__find_by_name_kind b type_name kind =
     (if kind = BTF_KIND_UNKN \<or> type_name = ''void'' then Inr 0
      else find_by_name_loop b type_name (\<lambda>t. btf_kind t = kind) [1..<btf__get_nr_types b + 1])"

text \<open>
  The key and value types of a map. \<open>snprintf\<close> writes at most 255 characters of the container
  name and returns the length it would have had.
\<close>

definition btf__get_map_kv_tids :: "btf \<Rightarrow> string \<Rightarrow> u32 \<Rightarrow> u32 \<Rightarrow> (u32 \<times> u32) result \<times> btf" where
  "btf__get_map_kv_tids b map_name expected_key_size expected_value_size =
     (let full = ''____btf_map_'' @ map_name; max_name = 256; container_name = take (max_name - 1) full in
      if length full = max_name then (Inl EINVAL, b)
      else case rbind (btf__find_by_name b container_name) (\<lambda>container_id.
                rbind (btf__type_by_id b container_id) (\<lambda>p. deref p EINVAL)) of
        Inl e \<Rightarrow> (Inl e, b)
      | Inr container_type \<Rightarrow>
          if \<not> btf_is_struct container_type \<or> btf_vlen container_type < 2 then (Inl EINVAL, b)
          else
            (let key = btf_members container_type ! 0; value = btf_members container_type ! 1 in
             case btf__resolve_size b (unat (m_type key)) of
               (Inl e, b1) \<Rightarrow> (Inl e, b1)
             | (Inr key_size, b1) \<Rightarrow>
                 if unat expected_key_size \<noteq> key_size then (Inl EINVAL, b1)
                 else (case btf__resolve_size b1 (unat (m_type value)) of
                         (Inl e, b2) \<Rightarrow> (Inl e, b2)
                       | (Inr value_size, b2) \<Rightarrow>
                           if unat expected_value_size \<noteq> value_size then (Inl EINVAL, b2)
                           else (Inr (m_type key, m_type value), b2))))"


subsection \<open>Specifications\<close>

text \<open>
  The types a chain of BTFs holds, in the order of their ids from 1: those of the base first.
\<close>

fun btf_view :: "btf \<Rightarrow> btf_type list \<Rightarrow> bool" where
  "btf_view (Btf d None) ts \<longleftrightarrow> btf_repr d ts \<and> start_id d = 1"
| "btf_view (Btf d (Some b)) ts \<longleftrightarrow>
     (\<exists>ts0 ts1. ts = ts0 @ ts1 \<and> btf_view b ts0 \<and> btf_repr d ts1 \<and> start_id d = length ts0 + 1)"

text \<open>The size of a type, by its definition; the third argument counts the references followed.\<close>

inductive has_size :: "btf \<Rightarrow> nat \<Rightarrow> nat \<Rightarrow> nat \<Rightarrow> bool" for b where
  leaf: "\<lbrakk>btf__type_by_id b tid = Inr (Some t);
          btf_kind t \<in> {BTF_KIND_INT, BTF_KIND_STRUCT, BTF_KIND_UNION, BTF_KIND_ENUM, BTF_KIND_DATASEC}\<rbrakk>
         \<Longrightarrow> has_size b tid 0 (unat (type_size t))"
| ptr: "\<lbrakk>btf__type_by_id b tid = Inr (Some t); btf_kind t = BTF_KIND_PTR; btf_ptr_sz b = Inr (n, b')\<rbrakk>
         \<Longrightarrow> has_size b tid 0 n"
| ref: "\<lbrakk>btf__type_by_id b tid = Inr (Some t);
         btf_kind t \<in> {BTF_KIND_TYPEDEF, BTF_KIND_VOLATILE, BTF_KIND_CONST, BTF_KIND_RESTRICT, BTF_KIND_VAR};
         has_size b (unat (ref_type t)) d n\<rbrakk> \<Longrightarrow> has_size b tid (Suc d) n"
| arr: "\<lbrakk>btf__type_by_id b tid = Inr (Some t); btf_kind t = BTF_KIND_ARRAY;
         has_size b (unat (a_type (btf_array t))) d n\<rbrakk>
         \<Longrightarrow> has_size b tid (Suc d) (unat (a_nelems (btf_array t)) * n)"

text \<open>
  What the chain of references of a type leads to within \<open>n\<close> steps: the counts of the arrays on it, the outermost
  first, and the size of the type behind them, or the error there is instead of one.
\<close>

inductive sized_as :: "btf \<Rightarrow> nat \<Rightarrow> nat \<Rightarrow> nat list \<Rightarrow> nat result \<Rightarrow> bool" for b where
  missing: "btf__type_by_id b tid = Inl e \<Longrightarrow> sized_as b n tid [] (Inl e)"
| deep: "btf__type_by_id b tid = Inr t \<Longrightarrow> sized_as b 0 tid [] (Inl EINVAL)"
| none: "btf__type_by_id b tid = Inr None \<Longrightarrow> sized_as b (Suc n) tid [] (Inl EINVAL)"
| unsized: "\<lbrakk>btf__type_by_id b tid = Inr (Some t);
             btf_kind t \<in> {BTF_KIND_UNKN, BTF_KIND_FWD, BTF_KIND_FUNC, BTF_KIND_FUNC_PROTO}\<rbrakk>
            \<Longrightarrow> sized_as b (Suc n) tid [] (Inl EINVAL)"
| sized: "\<lbrakk>btf__type_by_id b tid = Inr (Some t);
           btf_kind t \<in> {BTF_KIND_INT, BTF_KIND_STRUCT, BTF_KIND_UNION, BTF_KIND_ENUM, BTF_KIND_DATASEC}\<rbrakk>
          \<Longrightarrow> sized_as b (Suc n) tid [] (Inr (unat (type_size t)))"
| pointer: "\<lbrakk>btf__type_by_id b tid = Inr (Some t); btf_kind t = BTF_KIND_PTR\<rbrakk>
            \<Longrightarrow> sized_as b (Suc n) tid [] (map_sum id fst (btf_ptr_sz b))"
| refers: "\<lbrakk>btf__type_by_id b tid = Inr (Some t);
            btf_kind t \<in> {BTF_KIND_TYPEDEF, BTF_KIND_VOLATILE, BTF_KIND_CONST, BTF_KIND_RESTRICT, BTF_KIND_VAR};
            sized_as b n (unat (ref_type t)) dims r\<rbrakk> \<Longrightarrow> sized_as b (Suc n) tid dims r"
| array: "\<lbrakk>btf__type_by_id b tid = Inr (Some t); btf_kind t = BTF_KIND_ARRAY;
           sized_as b n (unat (a_type (btf_array t))) dims r\<rbrakk>
          \<Longrightarrow> sized_as b (Suc n) tid (unat (a_nelems (btf_array t)) # dims) r"

text \<open>The size of an array, where no count on the way and no size in bytes needs more than 32 bits.\<close>

definition size_of_dims :: "nat list \<Rightarrow> nat result \<Rightarrow> nat result" where
  "size_of_dims dims r =
     (if \<exists>i \<le> length dims. UINT32_MAX < prod_list (take i dims) then Inl E2BIG
      else rbind r (\<lambda>n. if UINT32_MAX < prod_list dims * n then Inl E2BIG else Inr (prod_list dims * n)))"

subsection \<open>Types by id\<close>

lemma offs_from_nth:
  "i < length ts \<Longrightarrow> offs_from n ts ! i = of_nat (n + length (encode_types (take i ts)))"
  by (induction ts arbitrary: n i) (auto simp: nth_Cons split: nat.splits simp: ac_simps)

lemma btf_repr_nth:
  assumes "btf_repr d ts" "i < length ts"
  shows "btf_type_at (types_data d) (unat (type_offs d ! i)) = Inr (ts ! i)"
proof -
  have split: "encode_types ts = encode_types (take i ts) @ encode_type (ts ! i) @ encode_types (drop (Suc i) ts)"
    using assms(2) by (metis encode_types_simps(2,3) id_take_nth_drop)
  have "length (encode_types (take i ts)) < 2 ^ 32"
    using assms(1) unsigned_less [of "type_len (hdr d)", where 'a = nat] arg_cong [OF split, of length]
    by (simp add: btf_repr_def)
  then have "unat (type_offs d ! i) = length (encode_types (take i ts))"
    using assms by (simp add: btf_repr_def offs_from_nth unat_of_nat)
  moreover have "types_data d = encode_types (take i ts) @ encode_type (ts ! i) @ encode_types (drop (Suc i) ts)"
    using assms(1) split by (simp add: btf_repr_def)
  moreover have "wf_type (ts ! i)" using assms by (simp add: btf_repr_def)
  ultimately show ?thesis using btf_type_at_encode by metis
qed

lemma btf_type_by_id_view:
  "btf_view b ts \<Longrightarrow> 0 < i \<Longrightarrow> i \<le> length ts \<Longrightarrow> btf_type_by_id b i = Inr (ts ! (i - 1))"
proof (induction b ts rule: btf_view.induct)
  case (1 d ts)
  then show ?case using btf_repr_nth [of d ts "i - 1"] by (simp add: array_get_def btf_repr_def)
next
  case (2 d b ts)
  from "2.prems"(1) obtain ts0 ts1 where v: "ts = ts0 @ ts1" "btf_view b ts0" "btf_repr d ts1"
    "start_id d = length ts0 + 1" by auto
  show ?case
  proof (cases "i \<le> length ts0")
    case True
    then show ?thesis using "2.IH" [of ts0] v "2.prems" by (auto simp: nth_append)
  next
    case False
    then show ?thesis
      using btf_repr_nth [OF v(3), of "i - start_id d"] v "2.prems"
      by (auto simp: array_get_def btf_repr_def nth_append)
  qed
qed

lemma btf_view_nr: "btf_view b ts \<Longrightarrow> start_id (own b) + nr_types (own b) = length ts + 1"
  by (induction b ts rule: btf_view.induct) (auto simp: btf_repr_def)

lemma btf__get_nr_types_view: "btf_view b ts \<Longrightarrow> btf__get_nr_types b = length ts"
  using btf_view_nr by (simp add: btf__get_nr_types_def)

lemma btf_void_by_id [simp]: "btf_type_by_id b 0 = Inr btf_void"
  by (cases b) auto

lemma btf__type_by_id_view:
  assumes "btf_view b ts"
  shows "btf__type_by_id b i =
    Inr (if i = 0 then Some btf_void else if i \<le> length ts then Some (ts ! (i - 1)) else None)"
  using btf_type_by_id_view [OF assms, of i] btf_view_nr [OF assms]
  by (auto simp: btf__type_by_id_def)

subsection \<open>Sizes\<close>

lemma btf_kind_void [simp]: "btf_kind btf_void = BTF_KIND_UNKN"
  by (simp add: btf_void_def btf_kind_def BTF_INFO_KIND_def num_kind_def)

lemma not_void: "btf_kind t \<notin> {BTF_KIND_UNKN, BTF_KIND_FWD} \<Longrightarrow> \<not> btf_type_is_void t"
  by (auto simp: btf_type_is_void_def btf_is_fwd_def)

lemma div_guard: "ne \<noteq> 0 \<Longrightarrow> n \<le> UINT32_MAX div unat ne \<longleftrightarrow> n * unat ne \<le> UINT32_MAX" for ne :: u32
  by (simp add: less_eq_div_iff_mult_less_eq unat_gt_0)

lemma unat_mult_guard:
  assumes "\<not> (ne \<noteq> 0 \<and> unat k > UINT32_MAX div unat ne)"
  shows "unat (ne * k :: u32) = unat ne * unat k"
proof (cases "ne = 0")
  case False
  then have "unat k * unat ne \<le> UINT32_MAX"
    using assms div_guard [of ne "unat k"] by (simp add: not_less)
  then show ?thesis by (simp add: unat_word_ariths UINT32_MAX_def mult.commute)
qed simp

abbreviation ref_kinds :: "btf_kind_t set" where
  "ref_kinds \<equiv> {BTF_KIND_TYPEDEF, BTF_KIND_VOLATILE, BTF_KIND_CONST, BTF_KIND_RESTRICT, BTF_KIND_VAR}"

abbreviation sized_kinds :: "btf_kind_t set" where
  "sized_kinds \<equiv> {BTF_KIND_INT, BTF_KIND_STRUCT, BTF_KIND_UNION, BTF_KIND_ENUM, BTF_KIND_DATASEC}"

definition resolve_follow :: "nat \<Rightarrow> btf \<Rightarrow> u32 \<Rightarrow> u32 \<Rightarrow> (int \<times> u32) result \<times> btf" where
  "resolve_follow i b ne tid = (case btf__type_by_id b (unat tid) of
     Inl e \<Rightarrow> (Inl e, b) | Inr t' \<Rightarrow> resolve_size_loop i b ne t')"

lemma resolve_size_loop_cases:
  "btf_kind t \<in> sized_kinds \<Longrightarrow>
     resolve_size_loop (Suc i) b ne (Some t) = (Inr (int (unat (type_size t)), ne), b)"
  "btf_kind t = BTF_KIND_PTR \<Longrightarrow> resolve_size_loop (Suc i) b ne (Some t) =
     (case btf_ptr_sz b of Inl e \<Rightarrow> (Inl e, b) | Inr (n, b') \<Rightarrow> (Inr (int n, ne), b'))"
  "btf_kind t \<in> ref_kinds \<Longrightarrow>
     resolve_size_loop (Suc i) b ne (Some t) = resolve_follow i b ne (ref_type t)"
  "btf_kind t = BTF_KIND_ARRAY \<Longrightarrow> resolve_size_loop (Suc i) b ne (Some t) =
     (if ne \<noteq> 0 \<and> unat (a_nelems (btf_array t)) > UINT32_MAX div unat ne then (Inl E2BIG, b)
      else resolve_follow i b (ne * a_nelems (btf_array t)) (a_type (btf_array t)))"
  by (auto simp: not_void Let_def resolve_follow_def)

lemma resolve_size_loop_kind:
  assumes "resolve_size_loop (Suc i) b ne (Some t) = (Inr (es, ne'), b')" "0 \<le> es"
  obtains "btf_kind t \<in> sized_kinds" | "btf_kind t = BTF_KIND_PTR" | "btf_kind t \<in> ref_kinds"
    | "btf_kind t = BTF_KIND_ARRAY"
  using assms by (cases "btf_kind t") (auto simp: Let_def split: if_splits)

declare resolve_size_loop.simps(3) [simp del]

lemma resolve_size_loop_sound:
  assumes "resolve_size_loop i b ne t = (Inr (es, ne'), b')" "btf__type_by_id b tid = Inr t" "0 \<le> es"
  shows "\<exists>d < i. \<exists>m. has_size b tid d m \<and> unat ne' * nat es = unat ne * m"
  using assms
proof (induction i arbitrary: ne t tid)
  case (Suc i)
  obtain ty where ty: "t = Some ty" using Suc.prems by (cases t) auto
  note run = Suc.prems(1) [unfolded ty] and tid = Suc.prems(2) [unfolded ty]
  have follow: "\<exists>d < i. \<exists>m. has_size b (unat r) d m \<and> unat ne' * nat es = unat n * m"
    if "resolve_follow i b n r = (Inr (es, ne'), b')" for n r
  proof -
    from that obtain t' where "btf__type_by_id b (unat r) = Inr t'"
      "resolve_size_loop i b n t' = (Inr (es, ne'), b')"
      by (auto simp: resolve_follow_def split: sum.splits)
    then show ?thesis using Suc.IH [of n t' "unat r"] Suc.prems(3) by blast
  qed
  from run Suc.prems(3) show ?case
  proof (cases rule: resolve_size_loop_kind)
    case 1
    then show ?thesis using run resolve_size_loop_cases(1) [OF 1, of i b ne] has_size.leaf [OF tid 1]
      by (intro exI [of _ 0]) auto
  next
    case 2
    then show ?thesis using run resolve_size_loop_cases(2) [OF 2] has_size.ptr [OF tid 2]
      by (fastforce split: sum.splits)
  next
    case 3
    then show ?thesis
      using run resolve_size_loop_cases(3) [OF 3] follow [of ne "ref_type ty"] has_size.ref [OF tid 3]
      by (metis Suc_mono)
  next
    case 4
    let ?k = "a_nelems (btf_array ty)"
    have g: "\<not> (ne \<noteq> 0 \<and> unat ?k > UINT32_MAX div unat ne)"
      and f: "resolve_follow i b (ne * ?k) (a_type (btf_array ty)) = (Inr (es, ne'), b')"
      using run resolve_size_loop_cases(4) [OF 4] by (auto split: if_splits)
    from follow [OF f] obtain d m where "d < i" "has_size b (unat (a_type (btf_array ty))) d m"
      "unat ne' * nat es = unat (ne * ?k) * m" by blast
    then show ?thesis using has_size.arr [OF tid 4] unat_mult_guard [OF g]
      by (metis Suc_mono mult.assoc)
  qed
qed simp

definition size_from :: "nat \<Rightarrow> nat list \<Rightarrow> nat result \<Rightarrow> nat result" where
  "size_from p dims r =
     (if \<exists>i \<le> length dims. UINT32_MAX < p * prod_list (take i dims) then Inl E2BIG
      else rbind r (\<lambda>n. if UINT32_MAX < p * prod_list dims * n then Inl E2BIG else Inr (p * prod_list dims * n)))"

lemma size_from_Nil [simp]:
  "p \<le> UINT32_MAX \<Longrightarrow> size_from p [] r = rbind r (\<lambda>n. if UINT32_MAX < p * n then Inl E2BIG else Inr (p * n))"
  by (cases r) (simp_all add: size_from_def)

lemma size_from_Cons:
  assumes "p \<le> UINT32_MAX"
  shows "size_from p (k # dims) r = (if UINT32_MAX < p * k then Inl E2BIG else size_from (p * k) dims r)"
proof -
  have "(\<exists>i \<le> length (k # dims). UINT32_MAX < p * prod_list (take i (k # dims))) \<longleftrightarrow>
      (\<exists>i \<le> length dims. UINT32_MAX < p * k * prod_list (take i dims))" (is "?l \<longleftrightarrow> ?r")
  proof
    assume ?l
    then obtain i where i: "i \<le> length (k # dims)" "UINT32_MAX < p * prod_list (take i (k # dims))" by blast
    then obtain j where "i = Suc j" using assms by (cases i) auto
    then show ?r using i by (auto simp: mult.assoc)
  next
    assume ?r
    then obtain i where "i \<le> length dims" "UINT32_MAX < p * k * prod_list (take i dims)" by blast
    then show ?l by (intro exI [of _ "Suc i"]) (simp add: mult.assoc)
  qed
  moreover have "\<exists>i \<le> length dims. UINT32_MAX < p * k * prod_list (take i dims)" if "UINT32_MAX < p * k"
    using that by (intro exI [of _ 0]) simp
  ultimately show ?thesis by (cases r) (auto simp: size_from_def mult.assoc)
qed

lemma size_from_one: "size_from (Suc 0) = size_of_dims"
  by (intro ext, rename_tac dims r, case_tac r) (auto simp: size_from_def size_of_dims_def)

definition size_end :: "(int \<times> u32) result \<Rightarrow> nat result" where
  "size_end x = rbind x (\<lambda>(es, ne).
     if es < 0 then Inl EINVAL
     else if ne \<noteq> 0 \<and> nat es > UINT32_MAX div unat ne then Inl E2BIG
     else Inr (unat ne * nat es))"

definition resolve_start :: "nat \<Rightarrow> btf \<Rightarrow> u32 \<Rightarrow> nat \<Rightarrow> (int \<times> u32) result \<times> btf" where
  "resolve_start i b ne tid =
     (case btf__type_by_id b tid of Inl e \<Rightarrow> (Inl e, b) | Inr t \<Rightarrow> resolve_size_loop i b ne t)"

lemma resolve_follow_start: "resolve_follow i b ne tid = resolve_start i b ne (unat tid)"
  by (simp add: resolve_follow_def resolve_start_def)

lemma btf__resolve_size_start: "fst (btf__resolve_size b tid) = size_end (fst (resolve_start MAX_RESOLVE_DEPTH b 1 tid))"
  by (simp add: btf__resolve_size_def resolve_start_def size_end_def split: sum.splits prod.splits)

lemma unat_u32_le [simp]: "unat (ne :: u32) \<le> UINT32_MAX"
  using unsigned_less [of ne, where 'a = nat] by (simp add: UINT32_MAX_def)

lemma size_end_sized [simp]:
  "size_end (Inr (int n, ne)) = (if UINT32_MAX < unat ne * n then Inl E2BIG else Inr (unat ne * n))"
  using div_guard [of ne n] by (cases "ne = 0") (auto simp: size_end_def mult.commute not_le)

lemma size_end_none [simp]: "size_end (Inr (- 1, ne)) = Inl EINVAL" "size_end (Inl e) = Inl e"
  by (simp_all add: size_end_def)

lemma resolve_size_unsized:
  "btf_kind t \<in> {BTF_KIND_UNKN, BTF_KIND_FWD, BTF_KIND_FUNC, BTF_KIND_FUNC_PROTO} \<Longrightarrow>
   size_end (fst (resolve_size_loop (Suc i) b ne (Some t))) = Inl EINVAL"
  by (auto simp: resolve_size_loop.simps(3) Let_def)

lemma resolve_start_sized:
  assumes "sized_as b n tid dims r"
  shows "size_end (fst (resolve_start n b ne tid)) = size_from (unat ne) dims r"
  using assms
proof (induction arbitrary: ne rule: sized_as.induct)
  case (sized tid t n)
  then show ?case
    by (simp add: resolve_start_def resolve_size_loop_cases(1) del: insert_iff of_nat_unat)
next
  case (pointer tid t n)
  then show ?case
    by (cases "btf_ptr_sz b") (auto simp: resolve_start_def resolve_size_loop_cases(2))
next
  case (refers tid t n dims r)
  then show ?case by (simp add: resolve_start_def [of "Suc n"] resolve_size_loop_cases(3) resolve_follow_start del: insert_iff)
next
  case (array tid t n dims r)
  let ?k = "a_nelems (btf_array t)"
  have g: "ne \<noteq> 0 \<and> unat ?k > UINT32_MAX div unat ne \<longleftrightarrow> UINT32_MAX < unat ne * unat ?k"
    using div_guard [of ne "unat ?k"] by (cases "ne = 0") (auto simp: mult.commute not_le)
  show ?case
  proof (cases "UINT32_MAX < unat ne * unat ?k")
    case False
    then have "unat (ne * ?k) = unat ne * unat ?k" using g unat_mult_guard by blast
    then show ?thesis using array False
      by (simp add: resolve_start_def [of "Suc n"] resolve_size_loop_cases(4) resolve_follow_start g size_from_Cons)
  qed (use array in \<open>simp add: resolve_start_def resolve_size_loop_cases(4) g size_from_Cons\<close>)
qed (simp_all add: resolve_start_def resolve_size_unsized)

lemma sized_as_ex: "\<exists>dims r. sized_as b n tid dims r"
proof (induction n arbitrary: tid)
  case 0
  show ?case by (cases "btf__type_by_id b tid") (blast intro: sized_as.intros)+
next
  case (Suc n)
  show ?case
  proof (cases "btf__type_by_id b tid")
    case (Inr t)
    show ?thesis
    proof (cases t)
      case (Some ty)
      note t = Inr [unfolded Some]
      show ?thesis
        using Suc [of "unat (ref_type ty)"] Suc [of "unat (a_type (btf_array ty))"]
          sized_as.unsized [OF t] sized_as.sized [OF t] sized_as.pointer [OF t] sized_as.refers [OF t] sized_as.array [OF t]
        by (cases "btf_kind ty") (simp_all, blast+)
    qed (use Inr sized_as.none in blast)
  qed (use sized_as.missing in blast)
qed

text \<open>
  C6. \<open>btf__resolve_size\<close> computes the size of a type. Within 32 references every type leads to some array counts and
  a size, or to an error behind them (an id that does not exist, a type without a size, no end of the references), and
  the result is the product, or that error; it is \<^verbatim>\<open>E2BIG\<close> if and only if a product of the counts, taken from the
  outside, or the size in bytes does not fit in 32 bits. An overflow of the counts comes before the error behind them.
\<close>

theorem btf__resolve_size_correct:
  "(\<exists>dims r. sized_as b MAX_RESOLVE_DEPTH tid dims r) \<and>
   (\<forall>dims r. sized_as b MAX_RESOLVE_DEPTH tid dims r \<longrightarrow> fst (btf__resolve_size b tid) = size_of_dims dims r)"
  using sized_as_ex resolve_start_sized [of b MAX_RESOLVE_DEPTH tid _ _ 1]
  by (simp add: btf__resolve_size_start size_from_one)

lemma ex_view: "btf_view (Btf ex_data None) [ex_int, ex_ptr]"
  using ex_data_ok(1) by (simp add: ex_data_def btf_calloc_def)

lemma ex_kinds: "btf_kind ex_int = BTF_KIND_INT" "btf_kind ex_ptr = BTF_KIND_PTR"
  by (simp_all add: btf_kind_def ex_int_def ex_ptr_def)

theorem btf__resolve_size_correct_witness: "fst (btf__resolve_size (Btf ex_data None) 1) = Inr 4"
proof -
  have "sized_as (Btf ex_data None) (Suc 31) 1 [] (Inr (unat (type_size ex_int)))"
    by (rule sized_as.sized) (simp_all add: btf__type_by_id_view [OF ex_view] ex_kinds)
  then have "sized_as (Btf ex_data None) MAX_RESOLVE_DEPTH 1 [] (Inr (unat (type_size ex_int)))"
    by (simp add: MAX_RESOLVE_DEPTH_def)
  then have "fst (btf__resolve_size (Btf ex_data None) 1) = size_of_dims [] (Inr (unat (type_size ex_int)))"
    using btf__resolve_size_correct [of "Btf ex_data None" 1] by blast
  then show ?thesis by (simp add: size_of_dims_def ex_int_def UINT32_MAX_def)
qed

subsection \<open>Lookup\<close>

text \<open>Strings below the own section of a BTF are its base's, so only a split BTF may start above 0.\<close>

fun strs_chain :: "btf \<Rightarrow> bool" where
  "strs_chain (Btf d None) \<longleftrightarrow> start_str_off d = 0"
| "strs_chain (Btf d (Some b)) \<longleftrightarrow> strs_chain b"

lemma btf__str_by_offset_total: "strs_chain b \<Longrightarrow> \<exists>r. btf__str_by_offset b off = Inr r"
  by (induction b rule: strs_chain.induct) auto

text \<open>In a parsed BTF every id resolves: there is a list of well-formed types such that id 0 is
  void, the ids up to the number of types are the types of the list in order, every other id
  gives NULL, and no lookup leaves the type section.\<close>

theorem btf__type_by_id_correct:
  assumes "btf_new alloc data None = Inr b" "length data < 2 ^ 31"
  shows "\<exists>ts. length ts = btf__get_nr_types b \<and> (\<forall>t \<in> set ts. wf_type t) \<and>
    (\<forall>i. btf__type_by_id b i =
       Inr (if i = 0 then Some btf_void else if i \<le> length ts then Some (ts ! (i - 1)) else None))"
proof -
  obtain ts where ts: "btf_repr (own b) ts" "start_id (own b) = 1" "base_btf b = None"
    using btf_new_parsed [OF assms] by auto
  then have "btf_view b ts" by (cases b) simp
  with ts(1) show ?thesis
    by (intro exI [of _ ts]) (auto simp: btf__type_by_id_view btf__get_nr_types_view btf_repr_def)
qed

theorem btf__type_by_id_correct_witness:
  "case btf_new served ex_blob None of
     Inl e \<Rightarrow> False
   | Inr b \<Rightarrow> btf__type_by_id b (btf__get_nr_types b + 1) = Inr None"
proof -
  obtain b where b: "btf_new served ex_blob None = Inr b"
    using btf_new_raw_layout [of ex_data "[ex_int, ex_ptr]" None True] ex_data_ok
    by (auto simp: ex_blob_def ex_data_def BTF_MAX_NR_TYPES_def)
  have "length ex_blob < 2 ^ 31"
    by (simp add: ex_blob_def raw_layout_def sizeof_btf_header_def length_encode_type ex_int_def
        ex_ptr_def sizeof_btf_type_def ex_strs_def)
  with btf__type_by_id_correct [OF b] b show ?thesis by auto
qed

definition name_of :: "btf \<Rightarrow> btf_type \<Rightarrow> string option" where
  "name_of b t = projr (btf__name_by_offset b (name_off t))"

lemma name_of_total: "strs_chain b \<Longrightarrow> btf__name_by_offset b (name_off t) = Inr (name_of b t)"
  using btf__str_by_offset_total [of b "unat (name_off t)"]
  by (auto simp: name_of_def btf__name_by_offset_def)

definition first_match :: "(nat \<Rightarrow> bool) \<Rightarrow> nat \<Rightarrow> nat result" where
  "first_match P n = (case filter P [1..<n + 1] of [] \<Rightarrow> Inl ENOENT | i # _ \<Rightarrow> Inr i)"

lemma find_by_name_loop_filter:
  assumes view: "btf_view b ts" and strs: "strs_chain b" and "\<forall>i \<in> set is. 0 < i \<and> i \<le> length ts"
  shows "find_by_name_loop b nm wanted is =
    (case filter (\<lambda>i. wanted (ts ! (i - 1)) \<and> name_of b (ts ! (i - 1)) = Some nm) is of
       [] \<Rightarrow> Inl ENOENT | i # _ \<Rightarrow> Inr i)"
  using assms(3)
  by (induction "is") (auto simp: btf__type_by_id_view [OF view] name_of_total [OF strs])

text \<open>\<open>btf__find_by_name\<close> and \<open>btf__find_by_name_kind\<close> return the lowest id whose type has the
  name (and the kind), across a split BTF and its bases, and \<open>-ENOENT\<close> exactly when there is none.\<close>

theorem btf__find_by_name_kind_first:
  assumes view: "btf_view b ts" and strs: "strs_chain b" and "nm \<noteq> ''void''" "kind \<noteq> BTF_KIND_UNKN"
  shows "btf__find_by_name b nm = first_match (\<lambda>i. name_of b (ts ! (i - 1)) = Some nm) (length ts) \<and>
    btf__find_by_name_kind b nm kind =
      first_match (\<lambda>i. btf_kind (ts ! (i - 1)) = kind \<and> name_of b (ts ! (i - 1)) = Some nm) (length ts)"
proof -
  have "find_by_name_loop b nm wanted [1..<length ts + 1] =
      first_match (\<lambda>i. wanted (ts ! (i - 1)) \<and> name_of b (ts ! (i - 1)) = Some nm) (length ts)" for wanted
    unfolding first_match_def by (rule find_by_name_loop_filter [OF view strs]) auto
  then show ?thesis
    using assms(3,4) unfolding btf__find_by_name_def btf__find_by_name_kind_def btf__get_nr_types_view [OF view]
    by (simp del: upt_Suc)
qed

theorem btf__find_by_name_kind_first_witness:
  "btf__find_by_name (Btf ex_data None) ''int'' =
     first_match (\<lambda>i. name_of (Btf ex_data None) ([ex_int, ex_ptr] ! (i - 1)) = Some ''int'') 2 \<and>
   btf__find_by_name (Btf ex_data None) ''int'' = Inr 1"
proof -
  have v: "strs_chain (Btf ex_data None)" by (simp add: ex_data_def btf_calloc_def)
  have "name_of (Btf ex_data None) ex_int = Some ''int''"
    "name_of (Btf ex_data None) ex_ptr = Some []"
    by (simp_all add: name_of_def btf__name_by_offset_def ex_data_def ex_hdr_def btf_calloc_def
        ex_int_def ex_ptr_def ex_strs_def cstr_def)
  then show ?thesis
    using btf__find_by_name_kind_first [OF ex_view v, of "''int''" BTF_KIND_INT]
    by (simp add: first_match_def upt_rec)
qed

subsection \<open>Resolution of references\<close>

inductive resolves :: "btf \<Rightarrow> nat \<Rightarrow> nat \<Rightarrow> nat \<Rightarrow> bool" for b where
  stop: "\<lbrakk>btf__type_by_id b tid = Inr (Some t); \<not> btf_type_is_void t; btf_kind t \<notin> ref_kinds\<rbrakk>
         \<Longrightarrow> resolves b tid 0 tid"
| step: "\<lbrakk>btf__type_by_id b tid = Inr (Some t); btf_kind t \<in> ref_kinds;
          resolves b (unat (ref_type t)) d r\<rbrakk> \<Longrightarrow> resolves b tid (Suc d) r"

lemma is_ref_kind: "btf_is_mod t \<or> btf_is_typedef t \<or> btf_is_var t \<longleftrightarrow> btf_kind t \<in> ref_kinds"
  by (auto simp: btf_is_mod_def btf_is_typedef_def btf_is_var_def)

lemma resolve_type_loop_sound:
  "resolve_type_loop n b tid t = Inr r \<Longrightarrow> btf__type_by_id b tid = Inr t \<Longrightarrow>
     \<exists>d < n. resolves b tid d r"
proof (induction n arbitrary: tid t)
  case (Suc n)
  from Suc.prems(1) obtain ty where ty: "t = Some ty" "\<not> btf_type_is_void ty"
    by (auto split: option.splits if_splits)
  show ?case
  proof (cases "btf_kind ty \<in> ref_kinds")
    case True
    with ty Suc.prems(1) is_ref_kind [of ty] obtain t' where t': "btf__type_by_id b (unat (ref_type ty)) = Inr t'"
      "resolve_type_loop n b (unat (ref_type ty)) t' = Inr r"
      by (auto simp: rbind_Inr_iff split: if_splits)
    from Suc.IH [OF t'(2,1)] obtain d where
      "d < n" "resolves b (unat (ref_type ty)) d r" by blast
    then show ?thesis using resolves.step [OF Suc.prems(2) [unfolded ty(1)] True] by (metis Suc_mono)
  next
    case False
    with ty Suc.prems(1) is_ref_kind [of ty] have "r = tid" by auto
    then show ?thesis using resolves.stop [OF Suc.prems(2) [unfolded ty(1)] ty(2) False] by blast
  qed
qed simp

lemma resolve_type_loop_complete:
  "resolves b tid d r \<Longrightarrow> d < n \<Longrightarrow>
     \<exists>t. btf__type_by_id b tid = Inr t \<and> resolve_type_loop n b tid t = Inr r"
proof (induction arbitrary: n rule: resolves.induct)
  case (stop tid t)
  then show ?case using is_ref_kind [of t] by (cases n) auto
next
  case (step tid t d r)
  then obtain m where m: "n = Suc m" "d < m" by (cases n) auto
  have "\<not> btf_type_is_void t" using step.hyps(2) by (intro not_void) auto
  with step.IH [OF m(2)] m(1) step.hyps is_ref_kind [of t] show ?case by auto
qed

text \<open>C8. \<open>btf__resolve_type\<close> follows modifiers, typedefs and variables to the first type that is
  none of these; it succeeds exactly when that type is not void and is fewer than 32 references
  away.\<close>

theorem btf__resolve_type_correct:
  "btf__resolve_type b tid = Inr r \<longleftrightarrow> (\<exists>d < MAX_RESOLVE_DEPTH. resolves b tid d r)"
  using resolve_type_loop_sound [of MAX_RESOLVE_DEPTH b tid] resolve_type_loop_complete [of b tid]
  by (fastforce simp: btf__resolve_type_def rbind_Inr_iff)

theorem btf__resolve_type_correct_witness: "btf__resolve_type (Btf ex_data None) 2 = Inr 2"
proof -
  have "resolves (Btf ex_data None) 2 0 2"
    using not_void [of ex_ptr]
    by (intro resolves.stop [where t = ex_ptr]) (auto simp: btf__type_by_id_view [OF ex_view] ex_kinds)
  then show ?thesis
    using btf__resolve_type_correct [of "Btf ex_data None" 2 2] by (auto simp: MAX_RESOLVE_DEPTH_def)
qed

subsection \<open>Strings of a chain of split BTFs\<close>

text \<open>A split BTF resolves the string offsets of its base to the base's strings, and starts its
  own strings right behind them, when the base is not split itself.\<close>

theorem btf__str_by_offset_split:
  assumes "strs_chain b0" "base_btf b0 = None" "btf_new_empty alloc (Some b0) = Inr b"
    "unat (str_len (hdr (own b0))) = length (strs_data (own b0))"
  shows "btf__str_by_offset b off =
    (if off < length (strs_data (own b0)) then btf__str_by_offset b0 off else Inr None) \<and>
    (off < length (strs_data (own b0)) \<longrightarrow>
      btf__str_by_offset b0 off = Inr (Some (cstr (drop off (strs_data (own b0))))))"
  using assms by (cases b0) (auto simp: btf_new_empty_def btf_calloc_def Let_def rbind_Inr_iff)

theorem btf__str_by_offset_split_witness:
  "case btf_new_empty served (Some (Btf ex_data None)) of
     Inl e \<Rightarrow> False
   | Inr b \<Rightarrow> btf__str_by_offset b 1 = Inr (Some ''int'')"
proof -
  obtain b where b: "btf_new_empty served (Some (Btf ex_data None)) = Inr b"
    by (auto simp: btf_new_empty_def Let_def)
  show ?thesis
    using btf__str_by_offset_split [OF _ _ b, of 1] b
    by (simp add: ex_data_def btf_calloc_def ex_strs_def ex_hdr_def cstr_def)
qed

text \<open>On top of a base that is split itself this fails: \<open>start_str_off\<close> becomes the length of the
  base's own string section, not the offset at which the strings of the chain end, so the
  offsets in between, which the base resolves, are not resolved by the new BTF.\<close>

theorem btf__str_by_offset_third_level:
  assumes "b1 = Btf d1 (Some b0)" "base_btf b0 = None" "strs_chain b0"
    "start_str_off d1 = unat (str_len (hdr (own b0)))" "btf_new_empty alloc (Some b1) = Inr b2"
    "unat (str_len (hdr d1)) \<le> off" "off < start_str_off d1 + unat (str_len (hdr d1))"
  shows "btf__str_by_offset b2 off = Inr None \<and> (\<exists>s. btf__str_by_offset b1 off = Inr (Some s))"
  using assms by (cases b0) (auto simp: btf_new_empty_def btf_calloc_def Let_def rbind_Inr_iff)

theorem btf__str_by_offset_third_level_witness:
  "case btf_new_empty served (Some (Btf (ex_data\<lparr>start_str_off := 5\<rparr>) (Some (Btf ex_data None)))) of
     Inl e \<Rightarrow> False
   | Inr b \<Rightarrow> btf__str_by_offset b 6 = Inr None \<and>
       btf__str_by_offset (Btf (ex_data\<lparr>start_str_off := 5\<rparr>) (Some (Btf ex_data None))) 6 = Inr (Some ''int'')"
proof -
  let ?b1 = "Btf (ex_data\<lparr>start_str_off := 5\<rparr>) (Some (Btf ex_data None))"
  obtain b where b: "btf_new_empty served (Some ?b1) = Inr b"
    by (auto simp: btf_new_empty_def Let_def)
  have "btf__str_by_offset b 6 = Inr None"
    using btf__str_by_offset_third_level [OF refl _ _ _ b, of 6]
    by (simp add: ex_data_def btf_calloc_def ex_hdr_def)
  then show ?thesis
    by (simp add: b) (simp add: ex_data_def btf_calloc_def ex_hdr_def ex_strs_def cstr_def)
qed

subsection \<open>Alignment\<close>

definition same_types :: "btf \<Rightarrow> btf \<Rightarrow> bool" where
  "same_types b b' \<longleftrightarrow> (\<forall>i. btf__type_by_id b' i = btf__type_by_id b i)"

lemma btf_ptr_sz_types: "btf_ptr_sz b = Inr (n, b') \<Longrightarrow> same_types b b'"
proof -
  have "btf__type_by_id (upd_own (\<lambda>d. d\<lparr>ptr_sz := m\<rparr>) b) i = btf__type_by_id b i" for m i
    by (cases b) (simp add: btf__type_by_id_def upd_own_def)
  then show "btf_ptr_sz b = Inr (n, b') \<Longrightarrow> same_types b b'"
    by (auto simp: btf_ptr_sz_def cache_ptr_sz_def same_types_def rbind_Inr_iff split: if_splits)
qed

lemma same_types_trans [trans]: "same_types a b \<Longrightarrow> same_types b c \<Longrightarrow> same_types a c"
  by (simp add: same_types_def)

definition align_refs :: "btf_type \<Rightarrow> nat set" where
  "align_refs t =
     (if btf_kind t \<in> {BTF_KIND_TYPEDEF, BTF_KIND_VOLATILE, BTF_KIND_CONST, BTF_KIND_RESTRICT}
      then {unat (ref_type t)}
      else if btf_kind t = BTF_KIND_ARRAY then {unat (a_type (btf_array t))}
      else if btf_is_composite t then (\<lambda>m. unat (m_type m)) ` set (btf_members t) else {})"

definition align_ranked :: "btf \<Rightarrow> (nat \<Rightarrow> nat) \<Rightarrow> bool" where
  "align_ranked b rank \<longleftrightarrow>
     (\<forall>i t. btf__type_by_id b i = Inr (Some t) \<longrightarrow> (\<forall>r \<in> align_refs t. rank r < rank i))"

lemma align_returns:
  "align_ranked b rank \<Longrightarrow> rank tid < n \<Longrightarrow>
     \<exists>r b'. btf__align_of n b tid = (Some r, b') \<and> same_types b b'"
  "align_ranked b rank \<Longrightarrow> \<forall>m \<in> set ms. rank (unat (m_type m)) < n \<Longrightarrow>
     \<exists>r b'. align_members n b ms mx = (Some r, b') \<and> same_types b b'"
proof (induction n b tid and n b ms mx rule: btf__align_of_align_members.induct)
  case (2 n b tid)
  show ?case
  proof (cases "rbind (btf__type_by_id b tid) (\<lambda>p. deref p OOB)")
    case (Inl e)
    then show ?thesis by (simp add: same_types_def)
  next
    case (Inr t)
    then have t: "btf__type_by_id b tid = Inr (Some t)" by (simp add: rbind_Inr_iff deref_iff)
    have less: "\<forall>r \<in> align_refs t. rank r < n"
      using "2.prems" t unfolding align_ranked_def by fastforce
    show ?thesis
      using "2.IH" [OF Inr] less "2.prems"(1) Inr
      by (cases "btf_kind t")
        (auto simp: align_refs_def btf_is_composite_def same_types_def btf_ptr_sz_types [unfolded same_types_def]
          split: sum.splits)
  qed
next
  case (4 n b m ms mx)
  then obtain r b1 where r: "btf__align_of n b (unat (m_type m)) = (Some r, b1)" "same_types b b1" by auto
  show ?case
  proof (cases r)
    case (Inl e)
    then show ?thesis using r by auto
  next
    case (Inr a)
    have "align_ranked b1 rank" using "4.prems"(1) r(2) by (simp add: align_ranked_def same_types_def)
    then have "a \<noteq> 0 \<Longrightarrow> \<exists>r b'. align_members n b1 ms (max mx a) = (Some r, b') \<and> same_types b1 b'"
      using "4.IH"(2) [OF r(1) [symmetric] refl Inr] "4.prems" by auto
    then show ?thesis using Inr r by (auto simp: same_types_def)
  qed
qed (auto simp: same_types_def)

text \<open>C24. \<open>btf__align_of\<close> returns on every BTF whose types do not contain themselves: when the
  references it follows go down in some rank, a recursion depth of one more than the rank of the
  type is enough.\<close>

theorem btf__align_of_terminates:
  assumes "align_ranked b rank" "rank tid < depth"
  shows "\<exists>r. fst (btf__align_of depth b tid) = Some r"
  using align_returns(1) [OF assms] by fastforce

theorem btf__align_of_terminates_witness:
  "\<exists>r. fst (btf__align_of 1 (Btf ex_data None) 2) = Some r"
proof (rule btf__align_of_terminates)
  have "align_refs ex_int = {}" "align_refs ex_ptr = {}" "align_refs btf_void = {}"
    using ex_kinds by (simp_all add: align_refs_def btf_is_composite_def)
  then show "align_ranked (Btf ex_data None) (\<lambda>_. 0)"
    by (auto simp: align_ranked_def btf__type_by_id_view [OF ex_view] nth_Cons split: nat.splits if_splits)
qed simp

text \<open>It does not return on a typedef of itself, a BTF the parser accepts: no recursion depth is
  enough.\<close>

theorem btf__align_of_self_typedef:
  assumes "btf__type_by_id b tid = Inr (Some t)" "btf_kind t = BTF_KIND_TYPEDEF" "unat (ref_type t) = tid"
  shows "fst (btf__align_of depth b tid) = None"
  using assms by (induction depth) auto

definition self_typedef :: btf_type where
  "self_typedef = \<lparr>name_off = 1, info = btf_type_info BTF_KIND_TYPEDEF 0 False, size_type = 1, vdata = VNone\<rparr>"

theorem btf__align_of_self_typedef_witness:
  "fst (btf__align_of 1000 (Btf ((btf_calloc None)\<lparr>hdr := ex_hdr\<lparr>type_len := 12\<rparr>,
     types_data := encode_types [self_typedef], type_offs := [0], nr_types := 1\<rparr>) None) 1) = None"
    (is "fst (btf__align_of _ ?b _) = None")
proof (rule btf__align_of_self_typedef)
  have k: "btf_kind self_typedef = BTF_KIND_TYPEDEF" by (simp add: self_typedef_def btf_kind_def)
  then have "wf_type self_typedef" by (simp add: wf_type_def) (simp add: self_typedef_def)
  then have "btf_view ?b [self_typedef]"
    by (simp add: btf_repr_def btf_calloc_def length_encode_type sizeof_btf_type_def self_typedef_def)
  from btf__type_by_id_view [OF this] show "btf__type_by_id ?b 1 = Inr (Some self_typedef)" by simp
  show "btf_kind self_typedef = BTF_KIND_TYPEDEF" by (rule k)
qed (simp add: self_typedef_def)

subsection \<open>Key and value types\<close>

text \<open>A map name that does not fit the buffer of the container name is not refused: the test
  compares the length \<open>snprintf\<close> returns with the size of the buffer for equality, so two names
  of at least 245 characters that agree on the first 243 get the same key and value types.\<close>

theorem btf__get_map_kv_tids_truncates:
  assumes "length p = 243" "2 \<le> length x" "2 \<le> length y"
  shows "btf__get_map_kv_tids b (p @ x) ks vs = btf__get_map_kv_tids b (p @ y) ks vs"
  using assms by (simp add: btf__get_map_kv_tids_def Let_def take_Cons')

theorem btf__get_map_kv_tids_truncates_witness:
  "btf__get_map_kv_tids (Btf ex_data None) (replicate 243 (CHR ''m'') @ ''_a'') 4 4 =
   btf__get_map_kv_tids (Btf ex_data None) (replicate 243 (CHR ''m'') @ ''_bc'') 4 4"
  by (rule btf__get_map_kv_tids_truncates) simp_all

end
