(* ===== verification/Btf_Ext.thy ===== *)
theory Btf_Ext
  imports Btf_Query
begin

text \<open>
  The \<^verbatim>\<open>.BTF.ext\<close> section (\<^verbatim>\<open>btf.c\<close>, lines 2421 to 2730, and \<^verbatim>\<open>libbpf_internal.h\<close>): validation of its
  header and of its three subsections (function, line and CO-RE relocation records), the iteration
  macros, and the copy of the records of one ELF section with adjusted instruction offsets.

  \<open>struct btf_ext_header\<close> is an overlay on the bytes of the section and may be longer than them, so its
  fields are bounds-checked reads. A pointer into the section is an offset, \<open>0\<close> standing for
  NULL. The contents of a subsection are specified as a list of \<open>ext_sec\<close>: a name and records.
\<close>

subsection \<open>Data\<close>

definition ext_magic :: "u8 list \<Rightarrow> u16 result" where "ext_magic data = read_u16 data 0"
definition ext_version :: "u8 list \<Rightarrow> u8 result" where "ext_version data = array_get data 2"
definition ext_flags :: "u8 list \<Rightarrow> u8 result" where "ext_flags data = array_get data 3"
definition ext_hdr_len :: "u8 list \<Rightarrow> u32 result" where "ext_hdr_len data = read_u32 data 4"

record btf_ext_info =
  ei_info :: nat
  ei_rec_size :: u32
  ei_len :: u32

record btf_ext =
  ext_data :: "u8 list"
  func_info :: btf_ext_info
  line_info :: btf_ext_info
  core_relo_info :: btf_ext_info

record btf_ext_sec_setup_param =
  sp_off :: u32
  sp_len :: u32
  sp_min_rec_size :: nat

definition sizeof_bpf_func_info_min :: nat where "sizeof_bpf_func_info_min = 8"
definition sizeof_bpf_line_info_min :: nat where "sizeof_bpf_line_info_min = 16"
definition sizeof_bpf_core_relo :: nat where "sizeof_bpf_core_relo = 16"
definition sizeof_btf_ext :: nat where "sizeof_btf_ext = 64"
definition sizeof_bpf_insn :: nat where "sizeof_bpf_insn = 8"

text \<open>\<open>sizeof(struct btf_ext_info_sec)\<close> is 8.\<close>

subsection \<open>Validation\<close>

function btf_ext_check_secs :: "u8 list \<Rightarrow> u32 \<Rightarrow> nat \<Rightarrow> nat \<Rightarrow> unit result" where
  "btf_ext_check_secs data record_size sinfo info_left =
     (if info_left = 0 then Inr ()
      else if info_left < 8 then Inl EINVAL
      else case read_u32 data (sinfo + 4) of
             Inl e \<Rightarrow> Inl e
           | Inr num_records \<Rightarrow>
               if num_records = 0 then Inl EINVAL
               else let total_record_size = 8 + unat num_records * unat record_size in
                    if info_left < total_record_size then Inl EINVAL
                    else btf_ext_check_secs data record_size (sinfo + total_record_size)
                           (info_left - total_record_size))"
  by pat_completeness auto
termination
  by (relation "measure (\<lambda>(data, record_size, sinfo, info_left). info_left)") auto

declare btf_ext_check_secs.simps [simp del]

definition btf_ext_setup_info :: "u8 list \<Rightarrow> btf_ext_sec_setup_param \<Rightarrow> btf_ext_info \<Rightarrow> btf_ext_info result" where
  "btf_ext_setup_info data ext_sec ext_info =
     (if sp_len ext_sec = 0 then Inr ext_info
      else rbind (guard (sp_off ext_sec AND 3 = 0) EINVAL) (\<lambda>_.
           rbind (ext_hdr_len data) (\<lambda>hlen.
           let info = unat hlen + unat (sp_off ext_sec); info_left = unat (sp_len ext_sec) in
           rbind (guard (\<not> length data < info + unat (sp_len ext_sec)) EINVAL) (\<lambda>_.
           rbind (guard (\<not> info_left < 4) EINVAL) (\<lambda>_.
           rbind (read_u32 data info) (\<lambda>record_size.
           rbind (guard (\<not> (unat record_size < sp_min_rec_size ext_sec \<or> record_size AND 3 \<noteq> 0)) EINVAL) (\<lambda>_.
           rbind (guard (info_left - 4 \<noteq> 0) EINVAL) (\<lambda>_.
           rbind (btf_ext_check_secs data record_size (info + 4) (info_left - 4)) (\<lambda>_.
           Inr \<lparr>ei_info = info + 4, ei_rec_size = record_size, ei_len = sp_len ext_sec - 4\<rparr>)))))))))"

definition setup_at :: "u8 list \<Rightarrow> nat \<Rightarrow> nat \<Rightarrow> btf_ext_info \<Rightarrow> btf_ext_info result" where
  "setup_at data fld min_rec ext_info =
     rbind (read_u32 data fld) (\<lambda>off. rbind (read_u32 data (fld + 4)) (\<lambda>len.
     btf_ext_setup_info data \<lparr>sp_off = off, sp_len = len, sp_min_rec_size = min_rec\<rparr> ext_info))"

definition btf_ext_setup_func_info :: "btf_ext \<Rightarrow> btf_ext result" where
  "btf_ext_setup_func_info e =
     rbind (setup_at (ext_data e) 8 sizeof_bpf_func_info_min (func_info e)) (\<lambda>i. Inr (e\<lparr>func_info := i\<rparr>))"

definition btf_ext_setup_line_info :: "btf_ext \<Rightarrow> btf_ext result" where
  "btf_ext_setup_line_info e =
     rbind (setup_at (ext_data e) 16 sizeof_bpf_line_info_min (line_info e)) (\<lambda>i. Inr (e\<lparr>line_info := i\<rparr>))"

definition btf_ext_setup_core_relos :: "btf_ext \<Rightarrow> btf_ext result" where
  "btf_ext_setup_core_relos e =
     rbind (setup_at (ext_data e) 24 sizeof_bpf_core_relo (core_relo_info e)) (\<lambda>i. Inr (e\<lparr>core_relo_info := i\<rparr>))"

definition btf_ext_parse_hdr :: "u8 list \<Rightarrow> unit result" where
  "btf_ext_parse_hdr data =
     rbind (guard (8 \<le> length data) EINVAL) (\<lambda>_.
     rbind (ext_hdr_len data) (\<lambda>hlen.
     rbind (guard (\<not> length data < unat hlen) EINVAL) (\<lambda>_.
     rbind (ext_magic data) (\<lambda>magic.
     rbind (guard (magic \<noteq> bswap_16 BTF_MAGIC) ENOTSUP) (\<lambda>_.
     rbind (guard (magic = BTF_MAGIC) EINVAL) (\<lambda>_.
     rbind (ext_version data) (\<lambda>version.
     rbind (guard (version = BTF_VERSION) ENOTSUP) (\<lambda>_.
     rbind (ext_flags data) (\<lambda>flags.
     rbind (guard (flags = 0) ENOTSUP) (\<lambda>_.
     guard (length data \<noteq> unat hlen) EINVAL))))))))))"

definition no_info :: btf_ext_info where
  "no_info = \<lparr>ei_info = 0, ei_rec_size = 0, ei_len = 0\<rparr>"

definition btf_ext__new :: "alloc \<Rightarrow> u8 list \<Rightarrow> btf_ext result" where
  "btf_ext__new alloc data =
     rbind (btf_ext_parse_hdr data) (\<lambda>_.
     rbind (guard (alloc sizeof_btf_ext) ENOMEM) (\<lambda>_.
     rbind (guard (alloc (length data)) ENOMEM) (\<lambda>_.
     rbind (ext_hdr_len data) (\<lambda>hlen.
     let e = \<lparr>ext_data = data, func_info = no_info, line_info = no_info, core_relo_info = no_info\<rparr> in
     if unat hlen < 24 then Inr e
     else rbind (btf_ext_setup_func_info e) (\<lambda>e.
          rbind (btf_ext_setup_line_info e) (\<lambda>e.
          if unat hlen < 32 then Inr e
          else btf_ext_setup_core_relos e))))))"

definition btf_ext__get_raw_data :: "btf_ext \<Rightarrow> u8 list \<times> nat" where
  "btf_ext__get_raw_data e = (ext_data e, length (ext_data e))"

definition btf_ext__func_info_rec_size :: "btf_ext \<Rightarrow> u32" where
  "btf_ext__func_info_rec_size e = ei_rec_size (func_info e)"

definition btf_ext__line_info_rec_size :: "btf_ext \<Rightarrow> u32" where
  "btf_ext__line_info_rec_size e = ei_rec_size (line_info e)"

subsection \<open>Iteration\<close>

text \<open>
  \<open>for_each_btf_ext_rec\<close>: the offsets of the records of a section; \<open>for_each_btf_ext_sec\<close>: the
  offsets of the sections. The step of the latter is a product of 32-bit integers.
\<close>

definition for_each_btf_ext_rec :: "btf_ext_info \<Rightarrow> nat \<Rightarrow> u32 \<Rightarrow> nat list" where
  "for_each_btf_ext_rec seg sec num_info =
     map (\<lambda>i. sec + 8 + i * unat (ei_rec_size seg)) [0..<unat num_info]"

function ext_sec_walk :: "u8 list \<Rightarrow> btf_ext_info \<Rightarrow> nat \<Rightarrow> (nat \<times> u32) list result" where
  "ext_sec_walk data seg sec =
     (if sec < ei_info seg + unat (ei_len seg)
      then case read_u32 data (sec + 4) of
             Inl e \<Rightarrow> Inl e
           | Inr num_info \<Rightarrow>
               rbind (ext_sec_walk data seg (sec + 8 + unat (ei_rec_size seg * num_info)))
                 (\<lambda>rest. Inr ((sec, num_info) # rest))
      else Inr [])"
  by pat_completeness auto
termination
  by (relation "measure (\<lambda>(data, seg, sec). ei_info seg + unat (ei_len seg) - sec)") auto

declare ext_sec_walk.simps [simp del]

definition for_each_btf_ext_sec :: "u8 list \<Rightarrow> btf_ext_info \<Rightarrow> (nat \<times> u32) list result" where
  "for_each_btf_ext_sec data seg = ext_sec_walk data seg (ei_info seg)"

subsection \<open>Copying records\<close>

fun adjust_insn_offs :: "u8 list \<Rightarrow> nat \<Rightarrow> nat \<Rightarrow> u32 \<Rightarrow> nat \<Rightarrow> u8 list result" where
  "adjust_insn_offs data at record_size insns_cnt 0 = Inr data"
| "adjust_insn_offs data at record_size insns_cnt (Suc n) =
     rbind (read_u32 data at) (\<lambda>insn_off.
     rbind (write_u32 data at (insn_off div 8 + insns_cnt)) (\<lambda>data'.
     adjust_insn_offs data' (at + record_size) record_size insns_cnt n))"

text \<open>
  The caller's buffer holds \<open>cnt\<close> records: a buffer of another length, or a 32-bit size that wraps, makes
  the copy leave the buffer or leave a gap, which is \<open>OOB\<close>.
\<close>

definition reloc_copy :: "alloc \<Rightarrow> u8 list \<Rightarrow> u32 \<Rightarrow> nat \<Rightarrow> u32 \<Rightarrow> u32 \<Rightarrow> u8 list \<times> u32 \<Rightarrow> (u8 list \<times> u32) result" where
  "reloc_copy alloc data record_size sinfo num_info insns_cnt = (\<lambda>(info, cnt).
     (let records_len = num_info * record_size; existing_len = cnt * record_size in
      rbind (guard (alloc (unat (existing_len + records_len))) ENOMEM) (\<lambda>_.
      rbind (guard (length info = unat existing_len \<and> unat (existing_len + records_len) = length info + unat records_len \<and>
                    sinfo + 8 + unat records_len \<le> length data) OOB) (\<lambda>_.
      rbind (adjust_insn_offs (info @ take (unat records_len) (drop (sinfo + 8) data)) (unat existing_len)
               (unat record_size) insns_cnt (unat num_info)) (\<lambda>info'.
      Inr (info', cnt + num_info))))))"

function reloc_info_loop :: "alloc \<Rightarrow> btf \<Rightarrow> u8 list \<Rightarrow> u32 \<Rightarrow> string \<Rightarrow> u32 \<Rightarrow> nat \<Rightarrow> u64 \<Rightarrow> u8 list \<times> u32 \<Rightarrow>
    (u8 list \<times> u32) result" where
  "reloc_info_loop alloc b data record_size sec_name insns_cnt sinfo remain_len out =
     (if remain_len > 0
      then case read_words data sinfo 2 of
             Inr [sec_name_off, num_info] \<Rightarrow>
               (let records_len = num_info * record_size in
                case btf__name_by_offset b sec_name_off of
                  Inl e \<Rightarrow> Inl e
                | Inr None \<Rightarrow> Inl OOB
                | Inr (Some info_sec_name) \<Rightarrow>
                    if info_sec_name \<noteq> sec_name
                    then reloc_info_loop alloc b data record_size sec_name insns_cnt
                           (sinfo + 8 + unat records_len) (remain_len - ucast (8 + records_len)) out
                    else reloc_copy alloc data record_size sinfo num_info insns_cnt out)
           | _ \<Rightarrow> Inl OOB
      else Inl ENOENT)"
  by pat_completeness auto
termination
proof (relation "measure (\<lambda>(alloc, b, data, record_size, sec_name, insns_cnt, sinfo, remain_len, out). length data - sinfo)",
    goal_cases)
  case (2 alloc b data record_size sec_name insns_cnt sinfo remain_len out)
  then show ?case using read_words_length by fastforce
qed simp

declare reloc_info_loop.simps [simp del]

definition btf_ext_reloc_info :: "alloc \<Rightarrow> btf \<Rightarrow> u8 list \<Rightarrow> btf_ext_info \<Rightarrow> string \<Rightarrow> u32 \<Rightarrow> u8 list \<times> u32 \<Rightarrow>
    (u8 list \<times> u32) result" where
  "btf_ext_reloc_info alloc b data ext_info sec_name insns_cnt out =
     reloc_info_loop alloc b data (ei_rec_size ext_info) sec_name insns_cnt (ei_info ext_info)
       (ucast (ei_len ext_info)) out"

definition btf_ext__reloc_func_info :: "alloc \<Rightarrow> btf \<Rightarrow> btf_ext \<Rightarrow> string \<Rightarrow> u32 \<Rightarrow> u8 list \<times> u32 \<Rightarrow>
    (u8 list \<times> u32) result" where
  "btf_ext__reloc_func_info alloc b e = btf_ext_reloc_info alloc b (ext_data e) (func_info e)"

definition btf_ext__reloc_line_info :: "alloc \<Rightarrow> btf \<Rightarrow> btf_ext \<Rightarrow> string \<Rightarrow> u32 \<Rightarrow> u8 list \<times> u32 \<Rightarrow>
    (u8 list \<times> u32) result" where
  "btf_ext__reloc_line_info alloc b e = btf_ext_reloc_info alloc b (ext_data e) (line_info e)"

section \<open>Specification\<close>

record ext_sec =
  es_name_off :: u32
  es_recs :: "u8 list list"

definition sec_bytes :: "ext_sec \<Rightarrow> u8 list" where
  "sec_bytes s = le32 (es_name_off s) @ le32 (of_nat (length (es_recs s))) @ concat (es_recs s)"

definition secs_bytes :: "ext_sec list \<Rightarrow> u8 list" where
  "secs_bytes secs = concat (map sec_bytes secs)"

definition sec_wf :: "u32 \<Rightarrow> ext_sec \<Rightarrow> bool" where
  "sec_wf rs s \<longleftrightarrow> es_recs s \<noteq> [] \<and> length (es_recs s) < 2 ^ 32 \<and> (\<forall>r \<in> set (es_recs s). length r = unat rs)"

definition info_holds :: "u8 list \<Rightarrow> btf_ext_info \<Rightarrow> ext_sec list \<Rightarrow> bool" where
  "info_holds data ei secs \<longleftrightarrow>
     length (secs_bytes secs) = unat (ei_len ei) \<and>
     take (unat (ei_len ei)) (drop (ei_info ei) data) = secs_bytes secs \<and>
     (\<forall>s \<in> set secs. sec_wf (ei_rec_size ei) s)"

lemma secs_bytes_simps [simp]: "secs_bytes [] = []" "secs_bytes (s # secs) = sec_bytes s @ secs_bytes secs"
  by (simp_all add: secs_bytes_def)

lemma length_concat_const: "\<forall>r \<in> set rs. length r = k \<Longrightarrow> length (concat rs) = length rs * k"
  by (induction rs) auto

lemma length_sec_bytes: "sec_wf rs s \<Longrightarrow> length (sec_bytes s) = 8 + length (es_recs s) * unat rs"
  by (simp add: sec_bytes_def sec_wf_def length_concat_const)

lemma sec_bytes_ge: "8 \<le> length (sec_bytes s)"
  by (simp add: sec_bytes_def)

lemma chunks_exist: "length xs = n * k \<Longrightarrow> \<exists>rs. concat rs = xs \<and> length rs = n \<and> (\<forall>r \<in> set rs. length r = k)"
proof (induction n arbitrary: xs)
  case (Suc n)
  then have "length (drop k xs) = n * k" by simp
  then obtain rs where "concat rs = drop k xs" "length rs = n" "\<forall>r \<in> set rs. length r = k"
    using Suc.IH by blast
  then show ?case using Suc.prems by (intro exI [of _ "take k xs # rs"]) auto
qed simp

lemma two_words: "read_words bs off 2 = Inr ws \<Longrightarrow> \<exists>a b. ws = [a, b]"
  using read_words_length [of bs off 2 ws] by (auto simp: numeral_2_eq_2 length_Suc_conv)

lemma read_words_two: "read_u32 bs off = Inr a \<Longrightarrow> read_u32 bs (off + 4) = Inr b \<Longrightarrow> read_words bs off 2 = Inr [a, b]"
  by (simp add: numeral_2_eq_2)

lemma read_u32_total: "off + 4 \<le> length bs \<Longrightarrow> \<exists>w. read_u32 bs off = Inr w"
  using read_u32_Inr_iff by blast

lemma read_sec_hdr:
  assumes "take n (drop pos data) = sec_bytes s @ rest" 
  shows "read_u32 data pos = Inr (es_name_off s)" "read_u32 data (pos + 4) = Inr (of_nat (length (es_recs s)))"
proof -
  have n: "take n (drop pos data) = le32 (es_name_off s) @ le32 (of_nat (length (es_recs s))) @ concat (es_recs s) @ rest"
    using assms by (simp add: sec_bytes_def)
  have d: "drop pos data = take n (drop pos data) @ drop n (drop pos data)" by (rule append_take_drop_id [symmetric])
  have len: "pos \<le> length data"
  proof (rule ccontr)
    assume "\<not> ?thesis"
    then show False using arg_cong [OF n, of length] by simp
  qed
  have eq: "data = take pos data @ le32 (es_name_off s) @ le32 (of_nat (length (es_recs s))) @
      (concat (es_recs s) @ rest @ drop n (drop pos data))"
    using d n by (metis append.assoc append_take_drop_id)
  show "read_u32 data pos = Inr (es_name_off s)"
    using read_u32_at [of "take pos data" "es_name_off s"] len by (subst eq) simp
  show "read_u32 data (pos + 4) = Inr (of_nat (length (es_recs s)))"
    using read_u32_at [of "take pos data @ le32 (es_name_off s)"] len by (subst eq) simp
qed

lemma take_drop_rest:
  assumes "take n (drop pos data) = a @ b"
  shows "take (n - length a) (drop (pos + length a) data) = b"
proof -
  have "drop (length a) (take n (drop pos data)) = b" using assms by simp
  then show ?thesis by (simp add: drop_take add.commute)
qed

lemma check_secs_sound:
  assumes "btf_ext_check_secs data rs pos left = Inr ()" "pos + left \<le> length data"
  shows "\<exists>secs. take left (drop pos data) = secs_bytes secs \<and> (\<forall>s \<in> set secs. sec_wf rs s)"
  using assms
proof (induction data rs pos left rule: btf_ext_check_secs.induct)
  case (1 data rs pos left)
  show ?case
  proof (cases "left = 0")
    case False
    with "1.prems" obtain num where left: "8 \<le> left" and num: "read_u32 data (pos + 4) = Inr num" "num \<noteq> 0"
      and tot: "8 + unat num * unat rs \<le> left"
      and rec: "btf_ext_check_secs data rs (pos + (8 + unat num * unat rs)) (left - (8 + unat num * unat rs)) = Inr ()"
      by (subst (asm) (1) btf_ext_check_secs.simps) (auto simp: Let_def not_less split: sum.splits if_splits)
    let ?t = "8 + unat num * unat rs"
    obtain secs where secs: "take (left - ?t) (drop (pos + ?t) data) = secs_bytes secs" "\<forall>s \<in> set secs. sec_wf rs s"
      using "1.IH" [OF False _ num(1) num(2) refl] left tot rec "1.prems"(2) by auto
    obtain nm where nm: "read_u32 data pos = Inr nm" using read_u32_total [of pos data] "1.prems" left by auto
    have "length (take (unat num * unat rs) (drop (pos + 8) data)) = unat num * unat rs"
      using "1.prems"(2) tot by simp
    then obtain recs where recs: "concat recs = take (unat num * unat rs) (drop (pos + 8) data)" "length recs = unat num"
      "\<forall>r \<in> set recs. length r = unat rs" using chunks_exist by blast
    define s where "s = \<lparr>es_name_off = nm, es_recs = recs\<rparr>"
    have "take 8 (drop pos data) = le32 nm @ le32 num"
      using read_words_bytes [OF read_words_two [OF nm num(1)]] by simp
    moreover have "take left (drop pos data) =
        take 8 (drop pos data) @ take (unat num * unat rs) (drop (pos + 8) data) @ take (left - ?t) (drop (pos + ?t) data)"
    proof -
      have "take left (drop pos data) = take (8 + (unat num * unat rs + (left - ?t))) (drop pos data)" using tot by simp
      then show ?thesis by (simp only: take_add drop_drop) (simp add: ac_simps)
    qed
    ultimately have "take left (drop pos data) = sec_bytes s @ secs_bytes secs"
      using recs(1,2) secs(1) by (simp add: s_def sec_bytes_def)
    moreover have "sec_wf rs s"
      using recs num(2) unsigned_less [of num, where 'a = nat] by (auto simp: sec_wf_def s_def unat_eq_0 [symmetric] simp del: unat_eq_0)
    ultimately show ?thesis using secs(2) by (intro exI [of _ "s # secs"]) auto
  qed (auto intro: exI [of _ "[]"])
qed

lemma check_secs_safe: "pos + left \<le> length data \<Longrightarrow> btf_ext_check_secs data rs pos left \<noteq> Inl OOB"
proof (induction data rs pos left rule: btf_ext_check_secs.induct)
  case (1 data rs pos left)
  obtain w where "8 \<le> left \<longrightarrow> read_u32 data (pos + 4) = Inr w"
    using read_u32_total [of "pos + 4" data] "1.prems" by (cases "8 \<le> left") auto
  with "1" show ?case by (subst btf_ext_check_secs.simps) (auto simp: Let_def)
qed

lemma check_secs_complete:
  assumes "take (length (secs_bytes secs)) (drop pos data) = secs_bytes secs" "\<forall>s \<in> set secs. sec_wf rs s"
  shows "btf_ext_check_secs data rs pos (length (secs_bytes secs)) = Inr ()"
  using assms
proof (induction secs arbitrary: pos)
  case Nil
  then show ?case by (simp add: btf_ext_check_secs.simps)
next
  case (Cons s secs)
  have len: "length (sec_bytes s) = 8 + length (es_recs s) * unat rs" using Cons.prems by (simp add: length_sec_bytes)
  have n: "unat (of_nat (length (es_recs s)) :: u32) = length (es_recs s)" and ne: "es_recs s \<noteq> []"
    using Cons.prems by (auto simp: sec_wf_def unat_of_nat)
  have nz: "(of_nat (length (es_recs s)) :: u32) \<noteq> 0" using n ne by (metis length_0_conv unat_0)
  have *: "take (length (secs_bytes (s # secs))) (drop pos data) = sec_bytes s @ secs_bytes secs"
    using Cons.prems by simp
  have "take (length (secs_bytes secs)) (drop (pos + length (sec_bytes s)) data) = secs_bytes secs"
    using take_drop_rest [OF *] by simp
  from Cons.IH [OF this] Cons.prems
  have "btf_ext_check_secs data rs (pos + length (sec_bytes s)) (length (secs_bytes secs)) = Inr ()" by simp
  then show ?case
    using read_sec_hdr(2) [OF *] n nz len by (subst btf_ext_check_secs.simps) (simp add: Let_def)
qed

subsection \<open>Validation accepts exactly the well-formed sections\<close>

definition holds_at_least :: "u8 list \<Rightarrow> nat \<Rightarrow> btf_ext_info \<Rightarrow> ext_sec list \<Rightarrow> bool" where
  "holds_at_least data min_rec ei secs \<longleftrightarrow>
     info_holds data ei secs \<and> (secs \<noteq> [] \<longrightarrow> min_rec \<le> unat (ei_rec_size ei) \<and> ei_rec_size ei AND 3 = 0)"

lemma info_holds_none [simp]: "holds_at_least data m no_info []"
  by (simp add: holds_at_least_def info_holds_def no_info_def)

lemma ex_info_holds_none [simp]: "Ex (holds_at_least data m no_info)"
  using info_holds_none by blast

lemma unat_minus_4: "\<not> unat (w :: u32) < 4 \<Longrightarrow> unat (w - 4) = unat w - 4"
  by (subst unat_sub) (simp_all add: word_le_nat_alt)

lemma setup_info_sound:
  assumes "btf_ext_setup_info data p no_info = Inr ei"
  shows "\<exists>secs. holds_at_least data (sp_min_rec_size p) ei secs"
proof (cases "sp_len p = 0")
  case True
  then show ?thesis using assms by (auto simp: btf_ext_setup_info_def intro: exI [of _ "[]"])
next
  case False
  with assms obtain hlen rs where hlen: "ext_hdr_len data = Inr hlen"
    and bnd: "unat hlen + unat (sp_off p) + unat (sp_len p) \<le> length data"
    and four: "\<not> unat (sp_len p) < 4" and rs: "sp_min_rec_size p \<le> unat rs" "rs AND 3 = 0"
    and chk: "btf_ext_check_secs data rs (unat hlen + unat (sp_off p) + 4) (unat (sp_len p) - 4) = Inr ()"
    and ei: "ei = \<lparr>ei_info = unat hlen + unat (sp_off p) + 4, ei_rec_size = rs, ei_len = sp_len p - 4\<rparr>"
    by (auto simp: btf_ext_setup_info_def result_simps Let_def not_less)
  obtain secs where secs: "take (unat (sp_len p) - 4) (drop (unat hlen + unat (sp_off p) + 4) data) = secs_bytes secs"
    "\<forall>s \<in> set secs. sec_wf rs s"
    using check_secs_sound [OF chk] bnd four by auto
  have "length (secs_bytes secs) = unat (sp_len p) - 4"
    using bnd four by (simp add: secs(1) [symmetric])
  then have "holds_at_least data (sp_min_rec_size p) ei secs"
    using secs rs four by (simp add: holds_at_least_def info_holds_def ei unat_minus_4)
  then show ?thesis ..
qed

lemma setup_info_safe:
  assumes "4 \<le> length data" "sp_len p \<noteq> 0 \<longrightarrow> 8 \<le> length data"
  shows "btf_ext_setup_info data p i \<noteq> Inl OOB"
proof
  assume oob: "btf_ext_setup_info data p i = Inl OOB"
  then have nz: "sp_len p \<noteq> 0" by (auto simp: btf_ext_setup_info_def)
  obtain hlen where hlen: "ext_hdr_len data = Inr hlen"
    using read_u32_total [of 4 data] assms nz by (auto simp: ext_hdr_len_def)
  have rd: "unat hlen + unat (sp_off p) + unat (sp_len p) \<le> length data \<Longrightarrow> \<not> unat (sp_len p) < 4 \<Longrightarrow>
      \<exists>w. read_u32 data (unat hlen + unat (sp_off p)) = Inr w"
    using read_u32_total by auto
  show False
    using oob nz rd check_secs_safe [of "unat hlen + unat (sp_off p) + 4" "unat (sp_len p) - 4" data]
    by (auto simp: btf_ext_setup_info_def Let_def result_simps hlen not_less)
qed

lemma setup_at_sound:
  "setup_at data fld m no_info = Inr ei \<Longrightarrow> \<exists>secs. holds_at_least data m ei secs"
  using setup_info_sound by (fastforce simp: setup_at_def result_simps)

lemma setup_at_safe:
  assumes "fld + 8 \<le> length data"
  shows "setup_at data fld m i \<noteq> Inl OOB"
proof -
  obtain off len where "read_u32 data fld = Inr off" "read_u32 data (fld + 4) = Inr len"
    using read_u32_total [of fld data] read_u32_total [of "fld + 4" data] assms by auto
  then show ?thesis using setup_info_safe assms by (simp add: setup_at_def)
qed

lemma parse_hdr_facts:
  assumes "btf_ext_parse_hdr data = Inr ()"
  shows "8 \<le> length data" "\<exists>hlen. ext_hdr_len data = Inr hlen \<and> unat hlen < length data"
  using assms by (auto simp: btf_ext_parse_hdr_def result_simps not_less)

lemma parse_hdr_safe: "btf_ext_parse_hdr data \<noteq> Inl OOB"
proof (cases "8 \<le> length data")
  case True
  obtain h m where "ext_hdr_len data = Inr h" "read_u16 data 0 = Inr m"
    using True read_u32_total [of 4 data] by (cases data; cases "tl data") (auto simp: ext_hdr_len_def read_u16.simps)
  with True show ?thesis
    by (auto simp: btf_ext_parse_hdr_def result_simps ext_magic_def ext_version_def ext_flags_def array_get_def)
qed (simp add: btf_ext_parse_hdr_def)

lemma btf_ext__new_ok:
  assumes "btf_ext__new alloc data = Inr e"
  shows "ext_data e = data" "\<exists>secs. holds_at_least data sizeof_bpf_func_info_min (func_info e) secs"
    "\<exists>secs. holds_at_least data sizeof_bpf_line_info_min (line_info e) secs"
    "\<exists>secs. holds_at_least data sizeof_bpf_core_relo (core_relo_info e) secs"
  using assms setup_at_sound [of data]
  by (auto simp: btf_ext__new_def result_simps Let_def btf_ext_setup_func_info_def btf_ext_setup_line_info_def
      btf_ext_setup_core_relos_def split: if_splits)

lemma btf_ext__new_safe: "btf_ext__new alloc data \<noteq> Inl OOB"
proof
  assume oob: "btf_ext__new alloc data = Inl OOB"
  show False
    using oob parse_hdr_safe [of data] parse_hdr_facts [of data] setup_at_safe [of _ data]
    by (auto simp: btf_ext__new_def result_simps Let_def btf_ext_setup_func_info_def btf_ext_setup_line_info_def
      btf_ext_setup_core_relos_def split: if_splits)
qed

lemma secs_bytes_ne: "secs \<noteq> [] \<Longrightarrow> 8 \<le> length (secs_bytes secs)"
  using sec_bytes_ge by (cases secs) (auto simp: trans_le_add1)

lemma secs_bytes_Nil [simp]: "secs_bytes secs = [] \<longleftrightarrow> secs = []"
  using secs_bytes_ne [of secs] by (cases secs) auto

definition subsection_grammar :: "u8 list \<Rightarrow> nat \<Rightarrow> u32 \<Rightarrow> ext_sec list \<Rightarrow> bool" where
  "subsection_grammar bs min_rec rs secs \<longleftrightarrow>
     bs = le32 rs @ secs_bytes secs \<and> secs \<noteq> [] \<and> (\<forall>s \<in> set secs. sec_wf rs s) \<and> min_rec \<le> unat rs \<and> rs AND 3 = 0"

lemma setup_info_complete:
  assumes hlen: "ext_hdr_len data = Inr hlen" and nz: "sp_len p \<noteq> 0" and al: "sp_off p AND 3 = 0"
    and bnd: "unat hlen + unat (sp_off p) + unat (sp_len p) \<le> length data"
    and g: "subsection_grammar (take (unat (sp_len p)) (drop (unat hlen + unat (sp_off p)) data)) (sp_min_rec_size p) rs secs"
  shows "btf_ext_setup_info data p i =
    Inr \<lparr>ei_info = unat hlen + unat (sp_off p) + 4, ei_rec_size = rs, ei_len = sp_len p - 4\<rparr>"
proof -
  let ?at = "unat hlen + unat (sp_off p)" and ?n = "unat (sp_len p)"
  have tk: "take ?n (drop ?at data) = le32 rs @ secs_bytes secs" and ne: "secs \<noteq> []" and wf: "\<forall>s \<in> set secs. sec_wf rs s"
    and rs: "sp_min_rec_size p \<le> unat rs" "rs AND 3 = 0"
    using g by (auto simp: subsection_grammar_def)
  have n: "?n = 4 + length (secs_bytes secs)" using arg_cong [OF tk, of length] bnd by simp
  have "data = take ?at data @ take ?n (drop ?at data) @ drop ?n (drop ?at data)"
    by (metis append_take_drop_id)
  then have "data = take ?at data @ le32 rs @ (secs_bytes secs @ drop ?n (drop ?at data))"
    unfolding tk by simp
  then have rd: "read_u32 data ?at = Inr rs"
    using read_u32_at [of "take ?at data" rs] bnd by (metis add_leD1 length_take min.absorb2)
  have "take (length (secs_bytes secs)) (drop (?at + 4) data) = secs_bytes secs"
    using take_drop_rest [OF tk] n by simp
  have ne8: "secs_bytes secs \<noteq> []" using secs_bytes_ne [OF ne] by auto
  from check_secs_complete [OF \<open>take _ _ = secs_bytes secs\<close> wf] show ?thesis
    using hlen nz al bnd n rd rs ne8 by (simp add: btf_ext_setup_info_def Let_def guard_def)
qed

lemma setup_info_grammar:
  assumes hlen: "ext_hdr_len data = Inr hlen" and nz: "sp_len p \<noteq> 0" and ok: "btf_ext_setup_info data p i = Inr ei"
  shows "sp_off p AND 3 = 0" "unat hlen + unat (sp_off p) + unat (sp_len p) \<le> length data"
    "\<exists>rs secs. subsection_grammar (take (unat (sp_len p)) (drop (unat hlen + unat (sp_off p)) data)) (sp_min_rec_size p) rs secs"
proof -
  let ?at = "unat hlen + unat (sp_off p)" and ?n = "unat (sp_len p)"
  from ok nz hlen obtain rs where al: "sp_off p AND 3 = 0" and bnd: "?at + ?n \<le> length data"
    and rs: "sp_min_rec_size p \<le> unat rs" "rs AND 3 = 0" and four: "\<not> ?n < 4" "?n \<noteq> 4"
    and rd: "read_u32 data ?at = Inr rs"
    and chk: "btf_ext_check_secs data rs (?at + 4) (?n - 4) = Inr ()"
    by (auto simp: btf_ext_setup_info_def result_simps Let_def not_less)
  obtain secs where secs: "take (?n - 4) (drop (?at + 4) data) = secs_bytes secs" "\<forall>s \<in> set secs. sec_wf rs s"
    using check_secs_sound [OF chk] bnd four by auto
  have "take ?n (drop ?at data) = take 4 (drop ?at data) @ take (?n - 4) (drop (?at + 4) data)"
    using take_add [of 4 "?n - 4" "drop ?at data"] four by (simp add: ac_simps)
  also have "\<dots> = le32 rs @ secs_bytes secs" using secs(1) read_u32_bytes [OF rd] by simp
  finally have tk: "take ?n (drop ?at data) = le32 rs @ secs_bytes secs" .
  have "secs \<noteq> []" using arg_cong [OF secs(1), of length] bnd four by auto
  with tk secs(2) rs show "\<exists>rs secs. subsection_grammar (take ?n (drop ?at data)) (sp_min_rec_size p) rs secs"
    by (auto simp: subsection_grammar_def)
  show "sp_off p AND 3 = 0" "?at + ?n \<le> length data" using al bnd by auto
qed

subsection \<open>Iteration visits exactly the records\<close>

lemma u32_len: "n < 2 ^ 32 \<Longrightarrow> unat (of_nat n :: u32) = n"
  by (simp add: unat_of_nat)

lemma sec_step:
  assumes "sec_wf rs s" "length (sec_bytes s) < 2 ^ 32"
  shows "unat (rs * of_nat (length (es_recs s))) = length (es_recs s) * unat rs"
    "unat (of_nat (length (es_recs s)) * rs) = length (es_recs s) * unat rs"
proof -
  have "length (es_recs s) < 2 ^ 32" "length (es_recs s) * unat rs < 2 ^ 32"
    using assms length_sec_bytes [OF assms(1)] by (auto simp: sec_wf_def)
  then show "unat (rs * of_nat (length (es_recs s))) = length (es_recs s) * unat rs"
    "unat (of_nat (length (es_recs s)) * rs) = length (es_recs s) * unat rs"
    by (simp_all add: unat_word_ariths unat_of_nat mult.commute)
qed

definition ext_sec_at :: "u8 list \<Rightarrow> btf_ext_info \<Rightarrow> nat \<times> u32 \<Rightarrow> ext_sec" where
  "ext_sec_at data seg = (\<lambda>(sec, num_info).
     \<lparr>es_name_off = projr (read_u32 data sec),
      es_recs = map (\<lambda>rec. take (unat (ei_rec_size seg)) (drop rec data)) (for_each_btf_ext_rec seg sec num_info)\<rparr>)"

lemma concat_slices:
  assumes "take (length recs * k) (drop off data) = concat recs" "\<forall>r \<in> set recs. length r = k"
  shows "map (\<lambda>i. take k (drop (off + i * k) data)) [0..<length recs] = recs"
  using assms
proof (induction recs arbitrary: off)
  case (Cons r recs)
  have "take k (take (length (r # recs) * k) (drop off data)) = r" using Cons.prems by simp
  then have hd: "take k (drop off data) = r" by simp
  have "take (length (r # recs) * k - length r) (drop (off + length r) data) = concat recs"
    using take_drop_rest [of "length (r # recs) * k" off data r "concat recs"] Cons.prems(1) by simp
  then have "map (\<lambda>i. take k (drop (off + k + i * k) data)) [0..<length recs] = recs"
    using Cons.IH [of "off + k"] Cons.prems by simp
  then show ?case using hd by (simp del: upt_Suc add: map_upt_Suc ac_simps)
qed simp

lemma ext_sec_walk_holds:
  assumes "take (length (secs_bytes secs)) (drop sec data) = secs_bytes secs" "\<forall>s \<in> set secs. sec_wf (ei_rec_size seg) s"
    "sec + length (secs_bytes secs) = ei_info seg + unat (ei_len seg)" "length (secs_bytes secs) < 2 ^ 32"
  shows "\<exists>ps. ext_sec_walk data seg sec = Inr ps \<and> map (ext_sec_at data seg) ps = secs"
  using assms
proof (induction secs arbitrary: sec)
  case Nil
  then show ?case by (simp add: ext_sec_walk.simps)
next
  case (Cons s secs)
  let ?rs = "ei_rec_size seg"
  have wf: "sec_wf ?rs s" and small: "length (sec_bytes s) < 2 ^ 32" using Cons.prems by auto
  have len: "length (sec_bytes s) = 8 + length (es_recs s) * unat ?rs" using wf by (simp add: length_sec_bytes)
  have tk: "take (length (secs_bytes (s # secs))) (drop sec data) = sec_bytes s @ secs_bytes secs"
    using Cons.prems by simp
  have "take (length (secs_bytes secs)) (drop (sec + length (sec_bytes s)) data) = secs_bytes secs"
    using take_drop_rest [OF tk] by simp
  then obtain ps where ps: "ext_sec_walk data seg (sec + length (sec_bytes s)) = Inr ps" "map (ext_sec_at data seg) ps = secs"
    using Cons.IH [of "sec + length (sec_bytes s)"] Cons.prems by auto
  have num: "unat (of_nat (length (es_recs s)) :: u32) = length (es_recs s)" using wf by (simp add: sec_wf_def u32_len)
  have "take (length (es_recs s) * unat ?rs + length (secs_bytes secs)) (drop (sec + 8) data) = concat (es_recs s) @ secs_bytes secs"
    using take_drop_rest [of "length (secs_bytes (s # secs))" sec data "le32 (es_name_off s) @ le32 (of_nat (length (es_recs s)))"
        "concat (es_recs s) @ secs_bytes secs"] tk len by (simp add: sec_bytes_def)
  from arg_cong [OF this, of "take (length (es_recs s) * unat ?rs)"]
  have "take (length (es_recs s) * unat ?rs) (drop (sec + 8) data) = concat (es_recs s)"
    using wf length_concat_const [of "es_recs s" "unat ?rs"] by (simp add: sec_wf_def)
  from concat_slices [OF this] wf
  have "ext_sec_at data seg (sec, of_nat (length (es_recs s))) = s"
    using read_sec_hdr(1) [OF tk] num
    by (simp add: ext_sec_at_def for_each_btf_ext_rec_def sec_wf_def comp_def ac_simps)
  moreover have in_seg: "sec < ei_info seg + unat (ei_len seg)" using Cons.prems(3) len by simp
  moreover have next_sec: "sec + 8 + unat (?rs * of_nat (length (es_recs s))) = sec + length (sec_bytes s)"
    using sec_step(1) [OF wf small] len by simp
  moreover have "ext_sec_walk data seg sec = Inr ((sec, of_nat (length (es_recs s))) # ps)"
    using ps(1) read_sec_hdr(2) [OF tk] in_seg by (subst ext_sec_walk.simps) (simp only: next_sec if_True sum.case rbind.simps)
  ultimately show ?case using ps(2) by auto
qed

subsection \<open>The copied records\<close>

definition adjust_rec :: "u32 \<Rightarrow> u8 list \<Rightarrow> u8 list" where
  "adjust_rec insns_cnt r = le32 (projr (read_u32 r 0) div 8 + insns_cnt) @ drop 4 r"

lemma length_adjust_rec [simp]: "4 \<le> length r \<Longrightarrow> length (adjust_rec ic r) = length r"
  by (simp add: adjust_rec_def)

lemma read_u32_rec:
  assumes "4 \<le> length r"
  shows "\<exists>w. read_u32 (pre @ r @ post) (length pre) = Inr w \<and> read_u32 r 0 = Inr w \<and> r = le32 w @ drop 4 r"
proof -
  obtain w where w: "read_u32 r 0 = Inr w" using read_u32_total [of 0 r] assms by auto
  then have r: "r = le32 w @ drop 4 r" using read_u32_bytes [OF w] by (metis append_take_drop_id drop0)
  have "read_u32 (pre @ r @ post) (length pre) = Inr w"
    using read_u32_at [of pre w "drop 4 r @ post"] r by (metis append.assoc)
  with w r show ?thesis by blast
qed

lemma adjust_insn_offs_recs:
  assumes "\<forall>r \<in> set recs. length r = k" "4 \<le> k"
  shows "adjust_insn_offs (pre @ concat recs) (length pre) k ic (length recs) =
    Inr (pre @ concat (map (adjust_rec ic) recs))"
  using assms(1)
proof (induction recs arbitrary: pre)
  case (Cons r recs)
  have r: "length r = k" using Cons.prems by simp
  obtain w where w: "read_u32 (pre @ r @ concat recs) (length pre) = Inr w" "read_u32 r 0 = Inr w"
    using read_u32_rec [of r pre "concat recs"] r assms(2) by auto
  have wr: "write_u32 (pre @ r @ concat recs) (length pre) (w div 8 + ic) = Inr (pre @ adjust_rec ic r @ concat recs)"
    using w(2) r assms(2) by (simp add: write_u32_def adjust_rec_def)
  have "adjust_insn_offs ((pre @ adjust_rec ic r) @ concat recs) (length (pre @ adjust_rec ic r)) k ic (length recs) =
      Inr ((pre @ adjust_rec ic r) @ concat (map (adjust_rec ic) recs))"
    using Cons.prems by (intro Cons.IH) simp
  then show ?case using w(1) wr r assms(2) by simp
qed simp

definition sec_named :: "btf \<Rightarrow> string \<Rightarrow> ext_sec \<Rightarrow> bool" where
  "sec_named b sec_name s \<longleftrightarrow> btf__name_by_offset b (es_name_off s) = Inr (Some sec_name)"

lemma name_by_offset_Inl: "btf__name_by_offset b off = Inl e \<Longrightarrow> e = OOB"
proof -
  have "btf__str_by_offset b n = Inl e \<Longrightarrow> e = OOB" for n
    by (induction b n rule: btf__str_by_offset.induct) (auto split: if_splits option.splits)
  then show "btf__name_by_offset b off = Inl e \<Longrightarrow> e = OOB" by (simp add: btf__name_by_offset_def)
qed

text \<open>
  Sections of other names are skipped. A section whose name does not resolve, which nothing in the loading
  of \<^verbatim>\<open>.BTF.ext\<close> excludes, is compared as a NULL string.
\<close>

definition other_named :: "btf \<Rightarrow> string \<Rightarrow> ext_sec \<Rightarrow> bool" where
  "other_named b sec_name s \<longleftrightarrow>
     (case btf__name_by_offset b (es_name_off s) of Inr (Some nm) \<Rightarrow> nm \<noteq> sec_name | _ \<Rightarrow> False)"

definition reloc_spec :: "btf \<Rightarrow> ext_sec list \<Rightarrow> string \<Rightarrow> u32 \<Rightarrow> u8 list \<times> u32 \<Rightarrow> (u8 list \<times> u32) result" where
  "reloc_spec b secs sec_name ic = (\<lambda>(buf, cnt).
     (case dropWhile (other_named b sec_name) secs of
        [] \<Rightarrow> Inl ENOENT
      | s # _ \<Rightarrow>
          if sec_named b sec_name s
          then Inr (buf @ concat (map (adjust_rec ic) (es_recs s)), cnt + of_nat (length (es_recs s)))
          else Inl OOB))"

lemma reloc_copy_sec:
  assumes wf: "sec_wf rs s" and rs: "4 \<le> unat rs" and small: "length (sec_bytes s) < 2 ^ 32"
    and at: "take (length (sec_bytes s)) (drop sinfo data) = sec_bytes s"
    and buf: "length buf = unat cnt * unat rs" "length buf + length (concat (es_recs s)) < 2 ^ 32"
  shows "reloc_copy served data rs sinfo (of_nat (length (es_recs s))) ic (buf, cnt) =
    Inr (buf @ concat (map (adjust_rec ic) (es_recs s)), cnt + of_nat (length (es_recs s)))"
proof -
  let ?num = "of_nat (length (es_recs s)) :: u32"
  have rl: "unat (?num * rs) = length (concat (es_recs s))"
    using sec_step(2) [OF wf small] wf length_concat_const [of "es_recs s" "unat rs"] by (simp add: sec_wf_def)
  have el: "unat (cnt * rs) = length buf" using buf by (simp add: unat_mult_lem [THEN iffD1])
  have tot: "unat (cnt * rs + ?num * rs) = length buf + length (concat (es_recs s))"
    using buf(2) el rl by (subst unat_add_lem [THEN iffD1]) auto
  have num: "unat ?num = length (es_recs s)" using wf by (simp add: sec_wf_def u32_len)
  have len: "length (sec_bytes s) = 8 + length (concat (es_recs s))"
    using length_sec_bytes [OF wf] wf length_concat_const [of "es_recs s" "unat rs"] by (simp add: sec_wf_def)
  have "sinfo + length (sec_bytes s) \<le> length data"
    using arg_cong [OF at, of length] len by simp
  moreover have "take (length (concat (es_recs s))) (drop (sinfo + 8) data) = concat (es_recs s)"
    using take_drop_rest [of "length (sec_bytes s)" sinfo data "le32 (es_name_off s) @ le32 ?num" "concat (es_recs s)"] at len
    by (simp add: sec_bytes_def)
  moreover have "adjust_insn_offs (buf @ concat (es_recs s)) (length buf) (unat rs) ic (length (es_recs s)) =
      Inr (buf @ concat (map (adjust_rec ic) (es_recs s)))"
    using wf rs by (intro adjust_insn_offs_recs) (auto simp: sec_wf_def)
  ultimately show ?thesis by (simp add: reloc_copy_def Let_def rl el tot num len)
qed

lemma reloc_info_loop_spec:
  assumes "take (length (secs_bytes secs)) (drop sinfo data) = secs_bytes secs" "\<forall>s \<in> set secs. sec_wf rs s"
    "length (secs_bytes secs) < 2 ^ 32" "secs \<noteq> [] \<longrightarrow> 4 \<le> unat rs"
    "length buf = unat cnt * unat rs" "length buf + length (secs_bytes secs) < 2 ^ 32"
  shows "reloc_info_loop served b data rs sec_name ic sinfo (of_nat (length (secs_bytes secs))) (buf, cnt) =
    reloc_spec b secs sec_name ic (buf, cnt)"
  using assms
proof (induction secs arbitrary: sinfo)
  case Nil
  then show ?case by (simp add: reloc_info_loop.simps reloc_spec_def)
next
  case (Cons s secs)
  let ?num = "of_nat (length (es_recs s)) :: u32"
  have wf: "sec_wf rs s" and small: "length (sec_bytes s) < 2 ^ 32" using Cons.prems by auto
  have len: "length (sec_bytes s) = 8 + length (es_recs s) * unat rs" using wf by (simp add: length_sec_bytes)
  have tk: "take (length (secs_bytes (s # secs))) (drop sinfo data) = sec_bytes s @ secs_bytes secs"
    using Cons.prems by simp
  have "unat (of_nat (length (secs_bytes (s # secs))) :: u64) = length (secs_bytes (s # secs))"
    using Cons.prems(3) by (simp only: unat_of_nat) simp
  then have pos: "(0 :: u64) < of_nat (length (secs_bytes (s # secs)))"
    using len unfolding word_less_nat_alt by simp
  note rw = read_words_two [OF read_sec_hdr [OF tk]]
  show ?case
  proof (cases "\<exists>nm. btf__name_by_offset b (es_name_off s) = Inr (Some nm)")
    case unnamed: False
    then show ?thesis
      using pos rw name_by_offset_Inl [of b "es_name_off s"]
      by (subst reloc_info_loop.simps)
        (auto simp: reloc_spec_def sec_named_def other_named_def Let_def split: sum.splits option.splits)
  next
    case True
    then obtain nm where nm: "btf__name_by_offset b (es_name_off s) = Inr (Some nm)" by blast
    show ?thesis
  proof (cases "nm = sec_name")
    case True
    have "take (length (sec_bytes s)) (drop sinfo data) = sec_bytes s"
      using arg_cong [OF tk, of "take (length (sec_bytes s))"] by simp
    moreover have "length buf + length (concat (es_recs s)) < 2 ^ 32"
      using Cons.prems(6) by (simp add: sec_bytes_def)
    ultimately show ?thesis
      using reloc_copy_sec [OF wf _ small, of sinfo data buf cnt ic] Cons.prems(4,5) pos rw nm True
      by (subst reloc_info_loop.simps) (simp add: reloc_spec_def sec_named_def other_named_def)
  next
    case False
    have "take (length (secs_bytes secs)) (drop (sinfo + length (sec_bytes s)) data) = secs_bytes secs"
      using take_drop_rest [OF tk] by simp
    then have IH: "reloc_info_loop served b data rs sec_name ic (sinfo + length (sec_bytes s))
        (of_nat (length (secs_bytes secs))) (buf, cnt) = reloc_spec b secs sec_name ic (buf, cnt)"
      using Cons.prems by (intro Cons.IH) auto
    have nxt: "sinfo + 8 + unat (?num * rs) = sinfo + length (sec_bytes s)"
      using sec_step(2) [OF wf small] len by simp
    have "unat (8 + ?num * rs) = length (sec_bytes s)"
      using sec_step(2) [OF wf small] small len by (simp add: unat_word_ariths)
    then have "ucast (8 + ?num * rs) = (of_nat (length (sec_bytes s)) :: u64)"
      by (metis of_nat_unat)
    then have rem: "of_nat (length (secs_bytes (s # secs))) - ucast (8 + ?num * rs) = (of_nat (length (secs_bytes secs)) :: u64)"
      by simp
    have "reloc_info_loop served b data rs sec_name ic sinfo (of_nat (length (secs_bytes (s # secs)))) (buf, cnt) =
      reloc_info_loop served b data rs sec_name ic (sinfo + length (sec_bytes s)) (of_nat (length (secs_bytes secs))) (buf, cnt)"
      by (subst reloc_info_loop.simps) (simp only: pos if_True rw sum.case list.case Let_def nm option.case False
        not_False_eq_True nxt rem)
    then show ?thesis using IH False nm by (simp add: reloc_spec_def sec_named_def other_named_def)
  qed
  qed
qed

subsection \<open>Error codes\<close>

lemma read_Inl: "read_u32 bs i = Inl e \<Longrightarrow> e = OOB" "read_u16 bs i = Inl e \<Longrightarrow> e = OOB"
  by (auto simp: read_u32.simps read_u16.simps split: list.splits)

lemma check_secs_errs: "btf_ext_check_secs data rs pos left = Inl e \<Longrightarrow> e \<in> {EINVAL, OOB}"
proof (induction data rs pos left rule: btf_ext_check_secs.induct)
  case (1 data rs pos left)
  then show ?case
    by (subst (asm) (2) btf_ext_check_secs.simps)
      (auto simp: Let_def read_Inl split: sum.splits if_splits)
qed

lemma setup_at_errs: "setup_at data fld m i = Inl e \<Longrightarrow> e \<in> {EINVAL, OOB}"
  using read_Inl check_secs_errs
  by (fastforce simp: setup_at_def btf_ext_setup_info_def Let_def result_simps ext_hdr_len_def split: if_splits)

lemma btf_ext__new_errs: "btf_ext__new alloc data = Inl e \<Longrightarrow> e \<in> {EINVAL, ENOTSUP, ENOMEM, OOB}"
  by (auto dest!: setup_at_errs simp: btf_ext__new_def btf_ext_parse_hdr_def result_simps Let_def btf_ext_setup_func_info_def
      btf_ext_setup_line_info_def btf_ext_setup_core_relos_def ext_hdr_len_def ext_magic_def ext_version_def
      ext_flags_def read_Inl split: if_splits)

section \<open>Properties\<close>

text \<open>C21. A \<^verbatim>\<open>.BTF.ext\<close> section is read without leaving it, and when \<open>btf_ext__new\<close> accepts it, each of the
  three subsections is a sequence of sections of whole records of at least the required size; the
  iteration macros visit exactly those records, in order.\<close>

theorem btf_ext__new_sound:
  "btf_ext__new alloc data \<noteq> Inl OOB \<and>
   (case btf_ext__new alloc data of
      Inl e \<Rightarrow> e \<in> {EINVAL, ENOTSUP, ENOMEM}
    | Inr e \<Rightarrow>
        (\<forall>(min_rec, ei) \<in> {(8, func_info e), (16, line_info e), (16, core_relo_info e)}.
           \<exists>secs ps. holds_at_least data min_rec ei secs \<and>
             for_each_btf_ext_sec data ei = Inr ps \<and> map (ext_sec_at data ei) ps = secs))"
proof -
  have walk: "\<exists>secs ps. holds_at_least data m ei secs \<and> for_each_btf_ext_sec data ei = Inr ps \<and>
      map (ext_sec_at data ei) ps = secs" if "\<exists>secs. holds_at_least data m ei secs" for m ei
  proof -
    obtain secs where secs: "holds_at_least data m ei secs" using \<open>\<exists>secs. holds_at_least data m ei secs\<close> by blast
    then have "length (secs_bytes secs) < 2 ^ 32"
      using unsigned_less [of "ei_len ei", where 'a = nat] by (simp add: holds_at_least_def info_holds_def)
    then show ?thesis
      using secs ext_sec_walk_holds [of secs "ei_info ei" data ei]
      by (auto simp: holds_at_least_def info_holds_def for_each_btf_ext_sec_def)
  qed
  show ?thesis
  proof (cases "btf_ext__new alloc data")
    case (Inl e)
    moreover have "e \<in> {EINVAL, ENOTSUP, ENOMEM, OOB}"
      using Inl btf_ext__new_errs by blast
    ultimately show ?thesis using btf_ext__new_safe [of alloc data] by auto
  next
    case (Inr e)
    then show ?thesis
      using btf_ext__new_ok [OF Inr] walk
      by (simp add: sizeof_bpf_func_info_min_def sizeof_bpf_line_info_min_def sizeof_bpf_core_relo_def)
  qed
qed

text \<open>C22. The validation of a subsection decides its grammar: it accepts a non-empty subsection exactly when it
  is aligned, lies in the section, and is a record size of at least the minimum and a multiple of four
  followed by at least one section, each a name offset, a non-zero count and that many records.\<close>

theorem btf_ext_setup_info_decides:
  assumes "ext_hdr_len data = Inr hlen" "sp_len p \<noteq> 0"
  shows "(\<exists>ei. btf_ext_setup_info data p no_info = Inr ei) \<longleftrightarrow>
    sp_off p AND 3 = 0 \<and> unat hlen + unat (sp_off p) + unat (sp_len p) \<le> length data \<and>
    (\<exists>rs secs. subsection_grammar (take (unat (sp_len p)) (drop (unat hlen + unat (sp_off p)) data))
       (sp_min_rec_size p) rs secs)"
  using setup_info_grammar [OF assms] setup_info_complete [OF assms] by blast

text \<open>C23. \<open>btf_ext__reloc_func_info\<close> appends to the caller's buffer the function records of the first section
  with the given name, each with its byte offset turned into an instruction index and moved by
  \<open>insns_cnt\<close>, and fails with \<open>-ENOENT\<close> when no section has the name; it reads through NULL when a
  section before that one has a name offset outside the string section.\<close>

theorem btf_ext__reloc_func_info_correct:
  assumes new: "btf_ext__new alloc data = Inr e" and holds: "info_holds data (func_info e) secs"
    and buf: "length buf = unat cnt * unat (btf_ext__func_info_rec_size e)"
    and small: "length buf + unat (ei_len (func_info e)) < 2 ^ 32"
  shows "btf_ext__reloc_func_info served b e sec_name insns_cnt (buf, cnt) =
    reloc_spec b secs sec_name insns_cnt (buf, cnt)"
proof -
  obtain secs' where h': "holds_at_least data 8 (func_info e) secs'"
    using btf_ext__new_ok(2) [OF new] by (auto simp: sizeof_bpf_func_info_min_def)
  have len: "length (secs_bytes secs) = unat (ei_len (func_info e))" using holds by (simp add: info_holds_def)
  have "length (secs_bytes secs) = length (secs_bytes secs')"
    using h' len by (simp add: holds_at_least_def info_holds_def)
  then have "secs = [] \<longleftrightarrow> secs' = []" by (metis length_0_conv secs_bytes_Nil)
  then have rs: "secs \<noteq> [] \<longrightarrow> 4 \<le> unat (ei_rec_size (func_info e))"
    using h' by (auto simp: holds_at_least_def)
  have rem: "(ucast (ei_len (func_info e)) :: u64) = of_nat (length (secs_bytes secs))"
    by (simp add: len)
  show ?thesis
    unfolding btf_ext__reloc_func_info_def btf_ext_reloc_info_def btf_ext__new_ok(1) [OF new] rem
    using holds buf small rs len
    by (intro reloc_info_loop_spec) (auto simp: info_holds_def btf_ext__func_info_rec_size_def)
qed

subsection \<open>An example\<close>

definition ex_ext_words :: "u32 list" where
  "ex_ext_words = [24, 0, 20, 20, 0, 8, 1, 1, 16, 5]"

definition ex_ext :: "u8 list" where
  "ex_ext = (le16 BTF_MAGIC @ [BTF_VERSION, 0]) @ words_bytes ex_ext_words"

definition ex_sec :: ext_sec where
  "ex_sec = \<lparr>es_name_off = 1, es_recs = [words_bytes [16, 5]]\<rparr>"

lemma read_word_at:
  assumes "i < length ws" "n = length pre + 4 * i"
  shows "read_u32 (pre @ words_bytes ws) n = Inr (ws ! i)"
proof -
  have "words_bytes ws = words_bytes (take i ws @ [ws ! i] @ drop (Suc i) ws)"
    using assms(1) by (simp add: Cons_nth_drop_Suc)
  then show ?thesis
    using read_u32_at [of "pre @ words_bytes (take i ws)" "ws ! i" "words_bytes (drop (Suc i) ws)"] assms by simp
qed

lemma ex_ext_reads:
  "i < 10 \<Longrightarrow> read_u32 ex_ext (4 + 4 * i) = Inr (ex_ext_words ! i)" "length ex_ext = 44"
  using read_word_at [of i ex_ext_words "4 + 4 * i" "le16 BTF_MAGIC @ [BTF_VERSION, 0]"]
  by (simp_all add: ex_ext_def ex_ext_words_def)

lemmas ex_ext_read = ex_ext_reads(1) [of 0, simplified ex_ext_words_def, simplified]
  ex_ext_reads(1) [of 1, simplified ex_ext_words_def, simplified]
  ex_ext_reads(1) [of 2, simplified ex_ext_words_def, simplified]
  ex_ext_reads(1) [of 3, simplified ex_ext_words_def, simplified]
  ex_ext_reads(1) [of 4, simplified ex_ext_words_def, simplified]

lemma ex_ext_grammar: "subsection_grammar (take 20 (drop 24 ex_ext)) 8 8 [ex_sec]"
  by (simp add: subsection_grammar_def ex_ext_def ex_ext_words_def ex_sec_def sec_bytes_def sec_wf_def le16_def le32_def)

definition ex_func_info :: btf_ext_info where
  "ex_func_info = \<lparr>ei_info = 28, ei_rec_size = 8, ei_len = 16\<rparr>"

lemma ex_ext_new:
  "btf_ext__new served ex_ext =
     Inr \<lparr>ext_data = ex_ext, func_info = ex_func_info, line_info = no_info, core_relo_info = no_info\<rparr>"
proof -
  have h: "ext_hdr_len ex_ext = Inr 24" using ex_ext_read(1) by (simp add: ext_hdr_len_def)
  have f: "btf_ext_setup_info ex_ext \<lparr>sp_off = 0, sp_len = 20, sp_min_rec_size = 8\<rparr> no_info = Inr ex_func_info"
    using setup_info_complete [OF h, of "\<lparr>sp_off = 0, sp_len = 20, sp_min_rec_size = 8\<rparr>" 8 "[ex_sec]" no_info]
      ex_ext_grammar ex_ext_reads(2) by (simp add: ex_func_info_def)
  have m: "read_u16 ex_ext 0 = Inr BTF_MAGIC"
    by (simp add: ex_ext_def le16_def read_u16.simps u16_of_le16)
  have v: "array_get ex_ext 2 = Inr BTF_VERSION" "array_get ex_ext 3 = Inr 0"
    by (simp_all add: ex_ext_def array_get_def le16_def ex_ext_words_def)
  have p: "btf_ext_parse_hdr ex_ext = Inr ()"
    by (simp add: btf_ext_parse_hdr_def h ext_magic_def ext_version_def ext_flags_def m v ex_ext_reads(2)
      BTF_MAGIC_def bswap_16_def le16_def u16_of_le_def)
  show ?thesis
    using f by (simp add: btf_ext__new_def p h Let_def btf_ext_setup_func_info_def btf_ext_setup_line_info_def setup_at_def
      ex_ext_read sizeof_bpf_func_info_min_def btf_ext_setup_info_def [of ex_ext "\<lparr>sp_off = 20, sp_len = 0, sp_min_rec_size = _\<rparr>"])
qed

theorem btf_ext__new_sound_witness:
  "\<exists>e secs ps. btf_ext__new served ex_ext = Inr e \<and> holds_at_least ex_ext 8 (func_info e) secs \<and>
     for_each_btf_ext_sec ex_ext (func_info e) = Inr ps \<and> map (ext_sec_at ex_ext (func_info e)) ps = secs"
  using btf_ext__new_sound [of served ex_ext] ex_ext_new by (auto simp: ex_ext_new)

theorem btf_ext_setup_info_decides_witness:
  "\<exists>ei. btf_ext_setup_info ex_ext \<lparr>sp_off = 0, sp_len = 20, sp_min_rec_size = 8\<rparr> no_info = Inr ei"
proof -
  have h: "ext_hdr_len ex_ext = Inr 24" using ex_ext_read(1) by (simp add: ext_hdr_len_def)
  show ?thesis
    using btf_ext_setup_info_decides [OF h, of "\<lparr>sp_off = 0, sp_len = 20, sp_min_rec_size = 8\<rparr>"] ex_ext_grammar ex_ext_reads(2)
    by auto
qed

lemma ex_holds: "info_holds ex_ext ex_func_info [ex_sec]"
  by (simp add: info_holds_def ex_func_info_def ex_sec_def sec_bytes_def sec_wf_def ex_ext_def ex_ext_words_def le16_def le32_def)

lemma ex_sec_named: "sec_named (Btf ex_data None) ''int'' ex_sec"
  by (simp add: sec_named_def ex_sec_def btf__name_by_offset_def ex_data_def ex_hdr_def btf_calloc_def ex_strs_def cstr_def)

theorem btf_ext__reloc_func_info_correct_witness:
  "\<exists>e. btf_ext__new served ex_ext = Inr e \<and>
     btf_ext__reloc_func_info served (Btf ex_data None) e ''int'' 3 ([], 0) = Inr (words_bytes [5, 5], 1)"
proof -
  have a: "adjust_rec 3 (words_bytes [16, 5]) = words_bytes [5, 5]"
    using read_u32_at [of "[]" 16 "le32 5"] by (simp add: adjust_rec_def)
  then show ?thesis
    using btf_ext__reloc_func_info_correct [OF ex_ext_new, of "[ex_sec]" "[]" 0 "Btf ex_data None" "''int''" 3] ex_holds ex_sec_named
    by (simp add: ex_ext_new reloc_spec_def other_named_def sec_named_def ex_func_info_def ex_sec_def)
qed

end
