(* ===== verification/Libc_Sort.thy ===== *)
theory Libc_Sort
  imports Prelude "HOL-Library.Product_Lexorder"
begin

text \<open>
  \<^verbatim>\<open>qsort\<close> and \<^verbatim>\<open>bsearch\<close> of the C library, over a comparison function returning a negative, zero
  or positive number. The contract of a comparison function is the locale \<open>compares_by\<close>: it orders
  those elements that satisfy \<open>ok\<close> by a key. It is interpreted on the comparison functions of \<^verbatim>\<open>libbpf.c\<close> and \<^verbatim>\<open>btf.c\<close>, and the
  program relies on its lemmas only. \<open>qsort\<close> inserts an element before the first one that does not
  compare lower, so elements that compare equal keep their order, as in the merge sort of glibc.
\<close>

fun qsort_insert :: "('a \<Rightarrow> 'a \<Rightarrow> int) \<Rightarrow> 'a \<Rightarrow> 'a list \<Rightarrow> 'a list" where
  "qsort_insert cmp x [] = [x]"
| "qsort_insert cmp x (y # ys) = (if cmp x y \<le> 0 then x # y # ys else y # qsort_insert cmp x ys)"

fun qsort :: "('a \<Rightarrow> 'a \<Rightarrow> int) \<Rightarrow> 'a list \<Rightarrow> 'a list" where
  "qsort cmp [] = []"
| "qsort cmp (x # xs) = qsort_insert cmp x (qsort cmp xs)"

text \<open>The search loop of \<open>bsearch\<close> over the half-open interval from \<open>l\<close> to \<open>u\<close>.\<close>

function bsearch_in :: "('k \<Rightarrow> 'e \<Rightarrow> int) \<Rightarrow> 'k \<Rightarrow> 'e list \<Rightarrow> nat \<Rightarrow> nat \<Rightarrow> nat option" where
  "bsearch_in cmp k xs l u =
     (if l < u
      then let idx = (l + u) div 2; c = cmp k (xs ! idx) in
           if c < 0 then bsearch_in cmp k xs l idx
           else if c > 0 then bsearch_in cmp k xs (idx + 1) u
           else Some idx
      else None)"
  by pat_completeness auto
termination
  by (relation "measure (\<lambda>(cmp, k, xs, l, u). u - l)") (auto simp: Let_def)

declare bsearch_in.simps [simp del]

definition bsearch :: "('k \<Rightarrow> 'e \<Rightarrow> int) \<Rightarrow> 'k \<Rightarrow> 'e list \<Rightarrow> nat option" where
  "bsearch cmp k xs = bsearch_in cmp k xs 0 (length xs)"

lemma mset_qsort_insert [simp]: "mset (qsort_insert cmp x xs) = add_mset x (mset xs)"
  by (induction xs) auto

lemma mset_qsort [simp]: "mset (qsort cmp xs) = mset xs"
  by (induction xs) auto

lemma set_qsort [simp]: "set (qsort cmp xs) = set xs"
  by (metis mset_qsort set_mset_mset)

lemma length_qsort [simp]: "length (qsort cmp xs) = length xs"
  by (metis mset_qsort size_mset)

lemma distinct_map_qsort: "distinct (map f (qsort cmp xs)) \<longleftrightarrow> distinct (map f xs)"
proof -
  have "mset (map f (qsort cmp xs)) = mset (map f xs)" by (simp only: mset_map mset_qsort)
  then show ?thesis by (rule mset_eq_imp_distinct_iff)
qed

subsection \<open>The contract of a comparison function\<close>

locale compares_by =
  fixes cmp :: "'a \<Rightarrow> 'a \<Rightarrow> int" and key :: "'a \<Rightarrow> 'k :: linorder" and ok :: "'a \<Rightarrow> bool"
  assumes lower: "ok x \<Longrightarrow> ok y \<Longrightarrow> key x < key y \<Longrightarrow> cmp x y < 0"
    and higher: "ok x \<Longrightarrow> ok y \<Longrightarrow> key y < key x \<Longrightarrow> 0 < cmp x y"
begin

lemma sorted_insert: "ok x \<Longrightarrow> \<forall>y \<in> set xs. ok y \<Longrightarrow> sorted (map key xs) \<Longrightarrow> sorted (map key (qsort_insert cmp x xs))"
proof (induction xs)
  case (Cons y ys)
  have "set (qsort_insert cmp x ys) = insert x (set ys)"
    using mset_qsort_insert [of cmp x ys] by (metis set_mset_add_mset_insert set_mset_mset)
  moreover have "key x \<le> key y" if "cmp x y \<le> 0" using higher [of x y] Cons.prems that by fastforce
  moreover have "key y \<le> key x" if "\<not> cmp x y \<le> 0" using lower [of x y] Cons.prems that by fastforce
  ultimately show ?case using Cons by auto
qed simp

lemma sorted_qsort: "\<forall>x \<in> set xs. ok x \<Longrightarrow> sorted (map key (qsort cmp xs))"
  by (induction xs) (auto intro: sorted_insert)

lemma qsort_sorted: "\<forall>x \<in> set xs. ok x \<Longrightarrow> sorted (map key xs) \<Longrightarrow> distinct (map key xs) \<Longrightarrow> qsort cmp xs = xs"
proof (induction xs)
  case (Cons x xs)
  then have "qsort cmp xs = xs" by simp
  moreover have "qsort_insert cmp x xs = x # xs"
    using Cons.prems lower [of x] by (cases xs) (auto simp: less_le less_imp_le)
  ultimately show ?case by simp
qed simp

end

locale searches_by =
  fixes cmp :: "'q \<Rightarrow> 'e \<Rightarrow> int" and qkey :: "'q \<Rightarrow> 'k :: linorder" and ekey :: "'e \<Rightarrow> 'k"
  assumes neg: "cmp q e < 0 \<longleftrightarrow> qkey q < ekey e"
    and pos: "0 < cmp q e \<longleftrightarrow> ekey e < qkey q"
begin

lemma bsearch_in_Some: "bsearch_in cmp q xs l u = Some i \<Longrightarrow> l \<le> i \<and> i < u \<and> ekey (xs ! i) = qkey q"
proof (induction "u - l" arbitrary: l u rule: less_induct)
  case less
  let ?m = "(l + u) div 2"
  have lu: "l < u" using less.prems by (subst (asm) bsearch_in.simps) (simp split: if_splits)
  consider "cmp q (xs ! ?m) < 0" | "0 < cmp q (xs ! ?m)" | "cmp q (xs ! ?m) = 0" by linarith
  then show ?case
  proof cases
    case 1
    then have "bsearch_in cmp q xs l ?m = Some i"
      using less.prems lu by (subst (asm) bsearch_in.simps) (simp add: Let_def)
    then show ?thesis using less.hyps [of ?m l] lu by force
  next
    case 2
    then have "bsearch_in cmp q xs (?m + 1) u = Some i"
      using less.prems lu by (subst (asm) bsearch_in.simps) (simp add: Let_def)
    then show ?thesis using less.hyps [of u "?m + 1"] lu by force
  next
    case 3
    then have "i = ?m" using less.prems lu by (subst (asm) bsearch_in.simps) (simp add: Let_def)
    then show ?thesis using 3 neg [of q "xs ! ?m"] pos [of q "xs ! ?m"] lu by auto
  qed
qed

lemma bsearch_in_None:
  assumes "sorted (map ekey xs)" "u \<le> length xs" "bsearch_in cmp q xs l u = None" "l \<le> i" "i < u"
  shows "ekey (xs ! i) \<noteq> qkey q"
  using assms(2-)
proof (induction "u - l" arbitrary: l u rule: less_induct)
  case less
  let ?m = "(l + u) div 2"
  have lu: "l < u" using less.prems by simp
  have mono: "a \<le> b \<Longrightarrow> b < length xs \<Longrightarrow> ekey (xs ! a) \<le> ekey (xs ! b)" for a b
    using sorted_nth_mono [OF assms(1), of a b] by simp
  consider "cmp q (xs ! ?m) < 0" | "0 < cmp q (xs ! ?m)" | "cmp q (xs ! ?m) = 0" by linarith
  then show ?case
  proof cases
    case 1
    then have none: "bsearch_in cmp q xs l ?m = None"
      using less.prems(2) lu by (subst (asm) bsearch_in.simps) (simp add: Let_def)
    show ?thesis
    proof (cases "i < ?m")
      case True
      then show ?thesis using less.hyps [of ?m l] none less.prems lu by force
    next
      case False
      then show ?thesis using mono [of ?m i] less.prems 1 neg [of q "xs ! ?m"] by auto
    qed
  next
    case 2
    then have none: "bsearch_in cmp q xs (?m + 1) u = None"
      using less.prems(2) lu by (subst (asm) bsearch_in.simps) (simp add: Let_def)
    show ?thesis
    proof (cases "?m < i")
      case True
      then show ?thesis using less.hyps [of u "?m + 1"] none less.prems lu by force
    next
      case False
      moreover have "?m < length xs" using lu less.prems by linarith
      ultimately have "ekey (xs ! i) < qkey q" using mono [of i ?m] 2 pos [of q "xs ! ?m"] by (simp add: not_less)
      then show ?thesis by simp
    qed
  next
    case 3
    then show ?thesis using less.prems(2) lu by (subst (asm) bsearch_in.simps) (simp add: Let_def)
  qed
qed

lemma bsearch_None: "sorted (map ekey xs) \<Longrightarrow> bsearch cmp q xs = None \<Longrightarrow> e \<in> set xs \<Longrightarrow> ekey e \<noteq> qkey q"
  using bsearch_in_None [of xs "length xs" q 0] by (metis bsearch_def in_set_conv_nth le0 order_refl)

lemma bsearch_Some: "bsearch cmp q xs = Some i \<Longrightarrow> i < length xs \<and> ekey (xs ! i) = qkey q"
  using bsearch_in_Some by (auto simp: bsearch_def)

end

end
