(* ===== verification/Bpf_Object.thy ===== *)
theory Bpf_Object
  imports Btf_Ext Libc_Sort
begin

text \<open>
  The BPF object of \<^verbatim>\<open>libbpf.c\<close>: instructions, programs, maps, relocation descriptors, externs and
  the object that owns them, the ELF file as libelf presents it, and the helpers that look up sections,
  symbols, programs and maps.

  libelf is not part of the repository: the open ELF file is a record of its query functions, an
  argument of everything that reads the file. A C \<open>int\<close> is an \<open>int\<close>, with the narrowing of a wider value
  written \<open>s32\<close>; \<open>size_t\<close> and unsigned values read from the file are natural numbers.
\<close>

definition s32 :: "nat \<Rightarrow> int" where
  "s32 n = signed_take_bit 31 (int n)"

lemma s32_small: "n < 2 ^ 31 \<Longrightarrow> s32 n = int n"
  by (simp add: s32_def signed_take_bit_int_eq_self)

subsection \<open>Instructions\<close>

record bpf_insn =
  code :: u8
  dst_reg :: u8
  src_reg :: u8
  off :: u16
  imm :: u32

definition BPF_INSN_SZ :: nat where "BPF_INSN_SZ = 8"

definition BPF_PSEUDO_MAP_FD :: u8 where "BPF_PSEUDO_MAP_FD = 1"
definition BPF_PSEUDO_MAP_VALUE :: u8 where "BPF_PSEUDO_MAP_VALUE = 2"
definition BPF_PSEUDO_BTF_ID :: u8 where "BPF_PSEUDO_BTF_ID = 3"
definition BPF_PSEUDO_CALL :: u8 where "BPF_PSEUDO_CALL = 1"

definition BPF_LD :: u8 where "BPF_LD = 0x00"
definition BPF_JMP :: u8 where "BPF_JMP = 0x05"
definition BPF_DW :: u8 where "BPF_DW = 0x18"
definition BPF_IMM :: u8 where "BPF_IMM = 0x00"
definition BPF_CALL :: u8 where "BPF_CALL = 0x80"
definition BPF_K :: u8 where "BPF_K = 0x00"

definition BPF_CLASS :: "u8 \<Rightarrow> u8" where "BPF_CLASS c = c AND 0x07"
definition BPF_OP :: "u8 \<Rightarrow> u8" where "BPF_OP c = c AND 0xf0"
definition BPF_SRC :: "u8 \<Rightarrow> u8" where "BPF_SRC c = c AND 0x08"

text \<open>The layout of \<open>struct bpf_insn\<close>: the destination register is the low half of the second byte.\<close>

definition insn_bytes :: "bpf_insn \<Rightarrow> u8 list" where
  "insn_bytes i = [code i, (dst_reg i AND 0xf) OR push_bit 4 (src_reg i AND 0xf)] @ le16 (off i) @ le32 (imm i)"

fun bytes_insn :: "u8 list \<Rightarrow> bpf_insn" where
  "bytes_insn [b0, b1, b2, b3, b4, b5, b6, b7] =
     \<lparr>code = b0, dst_reg = b1 AND 0xf, src_reg = drop_bit 4 b1, off = u16_of_le b2 b3, imm = u32_of_le b4 b5 b6 b7\<rparr>"
| "bytes_insn _ = \<lparr>code = 0, dst_reg = 0, src_reg = 0, off = 0, imm = 0\<rparr>"

fun decode_insns :: "u8 list \<Rightarrow> bpf_insn list" where
  "decode_insns (b0 # b1 # b2 # b3 # b4 # b5 # b6 # b7 # bs) =
     bytes_insn [b0, b1, b2, b3, b4, b5, b6, b7] # decode_insns bs"
| "decode_insns _ = []"

definition encode_insns :: "bpf_insn list \<Rightarrow> u8 list" where
  "encode_insns is = concat (map insn_bytes is)"

definition insn_is_subprog_call :: "bpf_insn \<Rightarrow> bool" where
  "insn_is_subprog_call insn \<longleftrightarrow>
     BPF_CLASS (code insn) = BPF_JMP \<and> BPF_OP (code insn) = BPF_CALL \<and> BPF_SRC (code insn) = BPF_K \<and>
     src_reg insn = BPF_PSEUDO_CALL \<and> dst_reg insn = 0 \<and> off insn = 0"

subsection \<open>Data\<close>

datatype reloc_type = RELO_LD64 | RELO_CALL | RELO_DATA | RELO_EXTERN

fun reloc_type_num :: "reloc_type \<Rightarrow> nat" where
  "reloc_type_num RELO_LD64 = 0" | "reloc_type_num RELO_CALL = 1" | "reloc_type_num RELO_DATA = 2" | "reloc_type_num RELO_EXTERN = 3"

record reloc_desc =
  rd_type :: reloc_type
  rd_insn_idx :: int
  rd_map_idx :: int
  rd_sym_off :: int
  rd_processed :: bool

record bpf_program =
  p_sec_name :: string
  p_sec_idx :: nat
  sec_insn_off :: nat
  sec_insn_cnt :: nat
  sub_insn_off :: nat
  p_name :: string
  p_pin_name :: string
  insns :: "bpf_insn list"
  insns_cnt :: nat
  p_relocs :: "reloc_desc list"
  p_instances_nr :: int
  p_load :: bool
  p_type :: nat
  p_attach_btf_id :: nat
  p_expected_attach_type :: nat
  p_prog_flags :: u32
  p_func_info :: "u8 list"
  p_func_info_rec_size :: u32
  p_func_info_cnt :: u32
  p_line_info :: "u8 list"
  p_line_info_rec_size :: u32
  p_line_info_cnt :: u32

datatype libbpf_map_type =
  LIBBPF_MAP_UNSPEC | LIBBPF_MAP_DATA | LIBBPF_MAP_BSS | LIBBPF_MAP_RODATA | LIBBPF_MAP_KCONFIG

record bpf_map_def =
  def_type :: u32
  key_size :: u32
  value_size :: u32
  max_entries :: u32
  map_flags :: u32

text \<open>
  A map-in-map carries the description of its inner map, which is a map without inner map, slots and
  struct_ops state of its own. A pointer to another map or to a program is its index.
\<close>

record bpf_struct_ops =
  st_tname :: string
  st_type :: btf_type
  st_type_id :: nat
  st_data :: "u8 list"
  st_progs :: "nat option list"

record bpf_map_core =
  m_name :: "string option"
  m_fd :: int
  m_sec_idx :: int
  m_sec_offset :: nat
  m_inner_map_fd :: int
  m_def :: bpf_map_def
  m_libbpf_type :: libbpf_map_type
  m_mmaped :: "u8 list option"
  m_numa_node :: u32
  m_btf_var_idx :: nat
  m_btf_key_type_id :: u32
  m_btf_value_type_id :: u32
  m_pin_path :: "string option"

record bpf_map = bpf_map_core +
  m_inner_map :: "bpf_map_core option"
  m_init_slots :: "nat option list"
  m_st_ops :: "bpf_struct_ops option"

datatype extern_type = EXT_UNKNOWN | EXT_KCFG | EXT_KSYM

datatype kcfg_type = KCFG_UNKNOWN | KCFG_CHAR | KCFG_BOOL | KCFG_INT | KCFG_TRISTATE | KCFG_CHAR_ARR

record extern_desc =
  ext_type :: extern_type
  ext_sym_idx :: int
  ext_btf_id :: int
  ext_name :: string
  ext_is_set :: bool
  ext_is_weak :: bool
  kcfg_type :: kcfg_type
  kcfg_sz :: int
  kcfg_align :: int
  kcfg_data_off :: int
  kcfg_is_signed :: bool
  ksym_addr :: u64
  ksym_vmlinux_btf_id :: int
  ksym_type_id :: u32

subsection \<open>The ELF file\<close>

record gelf_shdr =
  sh_name :: nat
  sh_type :: nat
  sh_flags :: nat
  sh_size :: nat
  sh_link :: nat
  sh_info :: nat
  sh_entsize :: nat

record gelf_sym =
  st_name :: nat
  st_info :: nat
  st_shndx :: nat
  st_value :: nat
  st_size :: nat

record gelf_rel =
  r_offset :: nat
  r_info :: nat

record elf_data =
  d_buf :: "u8 list option"
  d_size :: nat

record gelf_ehdr =
  e_type :: nat
  e_machine :: nat
  e_data :: nat

text \<open>
  libelf: the number of sections, \<open>gelf_getshdr\<close>, \<open>elf_getdata\<close> and \<open>elf_rawdata\<close> by section index,
  \<open>elf_strptr\<close>, \<open>gelf_getsym\<close>, \<open>gelf_getrel\<close>, \<open>gelf_getehdr\<close>, \<open>elf_getshdrstrndx\<close>.
\<close>

record elf =
  elf_nscn :: nat
  elf_shdr :: "nat \<Rightarrow> gelf_shdr option"
  elf_getdata :: "nat \<Rightarrow> elf_data option"
  elf_rawdata :: "nat \<Rightarrow> bool"
  elf_strptr :: "nat \<Rightarrow> nat \<Rightarrow> string option"
  elf_getsym :: "elf_data \<Rightarrow> nat \<Rightarrow> gelf_sym option"
  elf_getrel :: "elf_data \<Rightarrow> nat \<Rightarrow> gelf_rel option"
  elf_ehdr :: "gelf_ehdr option"
  elf_shstrndx :: "nat option"

definition SHT_PROGBITS :: nat where "SHT_PROGBITS = 1"
definition SHT_SYMTAB :: nat where "SHT_SYMTAB = 2"
definition SHT_STRTAB :: nat where "SHT_STRTAB = 3"
definition SHT_NOBITS :: nat where "SHT_NOBITS = 8"
definition SHT_REL :: nat where "SHT_REL = 9"
definition SHF_EXECINSTR :: nat where "SHF_EXECINSTR = 4"
definition STT_NOTYPE :: nat where "STT_NOTYPE = 0"
definition STT_OBJECT :: nat where "STT_OBJECT = 1"
definition STT_FUNC :: nat where "STT_FUNC = 2"
definition STT_SECTION :: nat where "STT_SECTION = 3"
definition STB_GLOBAL :: nat where "STB_GLOBAL = 1"
definition STB_WEAK :: nat where "STB_WEAK = 2"
definition SHN_UNDEF :: nat where "SHN_UNDEF = 0"
definition SHN_LORESERVE :: nat where "SHN_LORESERVE = 0xff00"
definition ET_REL :: nat where "ET_REL = 1"
definition EM_BPF :: nat where "EM_BPF = 247"
definition ELFDATA2LSB :: nat where "ELFDATA2LSB = 1"

definition GELF_ST_BIND :: "nat \<Rightarrow> nat" where "GELF_ST_BIND i = i div 16"
definition GELF_ST_TYPE :: "nat \<Rightarrow> nat" where "GELF_ST_TYPE i = i mod 16"
definition GELF_R_SYM :: "nat \<Rightarrow> nat" where "GELF_R_SYM i = i div 2 ^ 32"

text \<open>\<open>sizeof(GElf_Sym)\<close> is 24.\<close>

subsection \<open>The object\<close>

record efile_t =
  ef_fd :: int
  ef_elf :: "elf option"
  ef_ehdr :: gelf_ehdr
  ef_symbols :: "elf_data option"
  ef_data :: "elf_data option"
  ef_rodata :: "elf_data option"
  ef_bss :: "elf_data option"
  ef_st_ops_data :: "elf_data option"
  ef_shstrndx :: nat
  ef_strtabidx :: nat
  ef_reloc_sects :: "(gelf_shdr \<times> elf_data) list"
  maps_shndx :: int
  btf_maps_shndx :: int
  btf_maps_sec_btf_id :: nat
  text_shndx :: int
  symbols_shndx :: int
  data_shndx :: int
  rodata_shndx :: int
  bss_shndx :: int
  st_ops_shndx :: int

record bpf_object =
  obj_name :: string
  obj_license :: "u8 list"
  kern_version :: u32
  programs :: "bpf_program list"
  maps :: "bpf_map list"
  maps_cap :: nat
  externs :: "extern_desc list"
  kconfig_map_idx :: int
  rodata_map_idx :: int
  efile :: efile_t
  obj_btf :: "btf option"
  obj_btf_ext :: "btf_ext option"

definition obj_elf_valid :: "bpf_object \<Rightarrow> bool" where
  "obj_elf_valid obj \<longleftrightarrow> ef_elf (efile obj) \<noteq> None"

definition upd_efile :: "(efile_t \<Rightarrow> efile_t) \<Rightarrow> bpf_object \<Rightarrow> bpf_object" where
  "upd_efile f obj = obj\<lparr>efile := f (efile obj)\<rparr>"

subsection \<open>Sections and symbols\<close>

definition elf_str :: "elf option \<Rightarrow> nat \<Rightarrow> nat \<Rightarrow> string option" where
  "elf_str e scn ofs = (case e of None \<Rightarrow> None | Some e \<Rightarrow> elf_strptr e scn ofs)"

definition elf_sym_str :: "bpf_object \<Rightarrow> nat \<Rightarrow> string option" where
  "elf_sym_str obj ofs = elf_str (ef_elf (efile obj)) (ef_strtabidx (efile obj)) ofs"

definition elf_sec_str :: "bpf_object \<Rightarrow> nat \<Rightarrow> string option" where
  "elf_sec_str obj ofs = elf_str (ef_elf (efile obj)) (ef_shstrndx (efile obj)) ofs"

definition elf_sec_by_idx :: "bpf_object \<Rightarrow> nat \<Rightarrow> nat option" where
  "elf_sec_by_idx obj idx =
     (case ef_elf (efile obj) of None \<Rightarrow> None | Some e \<Rightarrow> if idx < elf_nscn e then Some idx else None)"

definition elf_sec_hdr :: "bpf_object \<Rightarrow> nat option \<Rightarrow> gelf_shdr result" where
  "elf_sec_hdr obj scn =
     rbind (deref scn EINVAL) (\<lambda>i. rbind (deref (ef_elf (efile obj)) EINVAL) (\<lambda>e. deref (elf_shdr e i) EINVAL))"

definition elf_sec_name :: "bpf_object \<Rightarrow> nat option \<Rightarrow> string option" where
  "elf_sec_name obj scn =
     (case elf_sec_hdr obj scn of Inl e \<Rightarrow> None | Inr sh \<Rightarrow> elf_sec_str obj (sh_name sh))"

definition elf_sec_data :: "bpf_object \<Rightarrow> nat option \<Rightarrow> elf_data option" where
  "elf_sec_data obj scn =
     (case scn of None \<Rightarrow> None | Some i \<Rightarrow>
        (case ef_elf (efile obj) of None \<Rightarrow> None | Some e \<Rightarrow> elf_getdata e i))"

text \<open>\<open>elf_nextscn\<close> visits the sections from 1 on.\<close>

definition elf_scns :: "elf option \<Rightarrow> nat list" where
  "elf_scns e = (case e of None \<Rightarrow> [] | Some e \<Rightarrow> [1..<elf_nscn e])"

fun sec_by_name_loop :: "bpf_object \<Rightarrow> string \<Rightarrow> nat list \<Rightarrow> nat option" where
  "sec_by_name_loop obj name [] = None"
| "sec_by_name_loop obj name (scn # scns) =
     (case elf_sec_name obj (Some scn) of
        None \<Rightarrow> None
      | Some sec_name \<Rightarrow> if sec_name \<noteq> name then sec_by_name_loop obj name scns else Some scn)"

definition elf_sec_by_name :: "bpf_object \<Rightarrow> string \<Rightarrow> nat option" where
  "elf_sec_by_name obj name = sec_by_name_loop obj name (elf_scns (ef_elf (efile obj)))"

fun sym_loop :: "elf \<Rightarrow> elf_data \<Rightarrow> (gelf_sym \<Rightarrow> bool) \<Rightarrow> nat list \<Rightarrow> gelf_sym option" where
  "sym_loop e symbols p [] = None"
| "sym_loop e symbols p (i # is) =
     (case elf_getsym e symbols i of
        None \<Rightarrow> sym_loop e symbols p is
      | Some sy \<Rightarrow> if p sy then Some sy else sym_loop e symbols p is)"

definition elf_sym_by_sec_off :: "bpf_object \<Rightarrow> nat \<Rightarrow> nat \<Rightarrow> nat \<Rightarrow> gelf_sym result" where
  "elf_sym_by_sec_off obj sec_idx ofs sym_type =
     rbind (deref (ef_symbols (efile obj)) OOB) (\<lambda>symbols.
     rbind (deref (ef_elf (efile obj)) OOB) (\<lambda>e.
     deref (sym_loop e symbols
              (\<lambda>sym. st_shndx sym = sec_idx \<and> st_value sym = ofs \<and> GELF_ST_TYPE (st_info sym) = sym_type)
              [0..<d_size symbols div 24]) ENOENT))"

definition str_prefix :: "string \<Rightarrow> string \<Rightarrow> bool" where
  "str_prefix p s \<longleftrightarrow> take (length p) s = p"

definition is_sec_name_dwarf :: "string \<Rightarrow> bool" where
  "is_sec_name_dwarf name \<longleftrightarrow> str_prefix ''.debug_'' name"

definition ignore_elf_section :: "gelf_shdr \<Rightarrow> string \<Rightarrow> bool" where
  "ignore_elf_section h name \<longleftrightarrow>
     sh_type h = SHT_STRTAB \<or>
     sh_type h = 0x6FFF4C03 \<or>
     (sh_type h = SHT_PROGBITS \<and> sh_size h = 0 \<and> name = ''.text'') \<or>
     is_sec_name_dwarf name \<or>
     (str_prefix ''.rel'' name \<and>
      (is_sec_name_dwarf (drop 4 name) \<or> drop 4 name = ''.BTF'' \<or> drop 4 name = ''.BTF.ext''))"

definition section_have_execinstr :: "bpf_object \<Rightarrow> nat \<Rightarrow> bool" where
  "section_have_execinstr obj idx =
     (case elf_sec_hdr obj (elf_sec_by_idx obj idx) of
        Inl e \<Rightarrow> False | Inr sh \<Rightarrow> sh_flags sh AND SHF_EXECINSTR \<noteq> 0)"

definition sym_is_extern :: "gelf_sym \<Rightarrow> bool" where
  "sym_is_extern sy \<longleftrightarrow>
     (let bind = GELF_ST_BIND (st_info sy) in
      st_shndx sy = SHN_UNDEF \<and> (bind = STB_GLOBAL \<or> bind = STB_WEAK) \<and> GELF_ST_TYPE (st_info sy) = STT_NOTYPE)"

subsection \<open>Programs\<close>

definition sizeof_bpf_program :: nat where "sizeof_bpf_program = 248"

definition bpf_program__pin_name :: "string \<Rightarrow> string" where
  "bpf_program__pin_name sec_name = map (\<lambda>c. if c = CHR ''/'' then CHR ''_'' else c) sec_name"

text \<open>
  \<open>bpf_object__init_prog\<close> clears the slot and fills it; a failed allocation leaves a cleared program in the
  slot, which the caller does not count. The pin name is written through the result of \<^verbatim>\<open>strdup\<close>
  before it is tested. \<open>data\<close> is the section's buffer and \<open>sec_off\<close> the place of the program in it.
\<close>

definition bpf_object__init_prog :: "alloc \<Rightarrow> string \<Rightarrow> nat \<Rightarrow> string \<Rightarrow> nat \<Rightarrow> u8 list option \<Rightarrow> nat \<Rightarrow> bpf_program result" where
  "bpf_object__init_prog alloc name sec_idx sec_name sec_off data insn_data_sz =
     rbind (guard (\<not> (insn_data_sz = 0 \<or> insn_data_sz mod BPF_INSN_SZ \<noteq> 0 \<or> sec_off mod BPF_INSN_SZ \<noteq> 0)) EINVAL) (\<lambda>_.
     rbind (guard (alloc (length sec_name + 1)) ENOMEM) (\<lambda>_.
     rbind (guard (alloc (length name + 1)) ENOMEM) (\<lambda>_.
     rbind (guard (alloc (length sec_name + 1)) OOB) (\<lambda>_.
     rbind (guard (alloc insn_data_sz) ENOMEM) (\<lambda>_.
     rbind (deref data OOB) (\<lambda>bytes.
     rbind (guard (sec_off + insn_data_sz \<le> length bytes) OOB) (\<lambda>_.
     Inr \<lparr>p_sec_name = sec_name, p_sec_idx = sec_idx, sec_insn_off = sec_off div BPF_INSN_SZ,
          sec_insn_cnt = insn_data_sz div BPF_INSN_SZ, sub_insn_off = 0, p_name = name,
          p_pin_name = bpf_program__pin_name sec_name,
          insns = decode_insns (take insn_data_sz (drop sec_off bytes)),
          insns_cnt = insn_data_sz div BPF_INSN_SZ, p_relocs = [], p_instances_nr = -1, p_load = True, p_type = 0,
          p_attach_btf_id = 0, p_expected_attach_type = 0, p_prog_flags = 0,
          p_func_info = [], p_func_info_rec_size = 0, p_func_info_cnt = 0,
          p_line_info = [], p_line_info_rec_size = 0, p_line_info_cnt = 0\<rparr>)))))))"

definition add_program_at :: "alloc \<Rightarrow> bpf_object \<Rightarrow> elf_data \<Rightarrow> string \<Rightarrow> nat \<Rightarrow> nat \<Rightarrow> nat \<Rightarrow> (nat \<times> bpf_program) result" where
  "add_program_at alloc obj sec_data sec_name sec_idx sec_off nr_progs =
     (case elf_sym_by_sec_off obj sec_idx sec_off STT_FUNC of
        Inl e \<Rightarrow> Inl (if e = OOB then OOB else LIBBPF_ERRNO__FORMAT)
      | Inr sy \<Rightarrow>
          rbind (deref (elf_sym_str obj (st_name sy)) LIBBPF_ERRNO__FORMAT) (\<lambda>name.
          rbind (guard (\<not> (sec_off + st_size sy) mod 2 ^ 64 > d_size sec_data) LIBBPF_ERRNO__FORMAT) (\<lambda>_.
          rbind (guard (libbpf_reallocarray alloc (nr_progs + 1) sizeof_bpf_program) ENOMEM) (\<lambda>_.
          rbind (bpf_object__init_prog alloc name sec_idx sec_name sec_off (d_buf sec_data) (st_size sy)) (\<lambda>prog.
          Inr (st_size sy, prog))))))"

lemma init_prog_size:
  "bpf_object__init_prog alloc name sec_idx sec_name sec_off data nb = Inr p \<Longrightarrow>
     0 < nb \<and> (\<exists>bytes. data = Some bytes \<and> sec_off + nb \<le> length bytes)"
  by (auto simp: bpf_object__init_prog_def result_simps)

lemma add_program_at_size:
  "add_program_at alloc obj sec_data sec_name sec_idx sec_off n = Inr (nb, p) \<Longrightarrow> 0 < nb"
  by (auto simp: add_program_at_def result_simps dest!: init_prog_size split: sum.splits)

text \<open>The loop of \<open>bpf_object__add_programs\<close>: the programs appended before a failure stay in the object.\<close>

function add_programs_loop :: "alloc \<Rightarrow> bpf_object \<Rightarrow> elf_data \<Rightarrow> string \<Rightarrow> nat \<Rightarrow> nat \<Rightarrow> unit result \<times> bpf_object" where
  "add_programs_loop alloc obj sec_data sec_name sec_idx sec_off =
     (if sec_off < d_size sec_data
      then case add_program_at alloc obj sec_data sec_name sec_idx sec_off (length (programs obj)) of
             Inl e \<Rightarrow> (Inl e, obj)
           | Inr (prog_sz, prog) \<Rightarrow>
               add_programs_loop alloc (obj\<lparr>programs := programs obj @ [prog]\<rparr>) sec_data sec_name sec_idx (sec_off + prog_sz)
      else (Inr (), obj))"
  by pat_completeness auto
termination
proof (relation "measure (\<lambda>(alloc, obj, sec_data, sec_name, sec_idx, sec_off). d_size sec_data - sec_off)", goal_cases)
  case (2 alloc obj sec_data sec_name sec_idx sec_off r prog_sz prog)
  then show ?case using add_program_at_size by fastforce
qed simp

declare add_programs_loop.simps [simp del]

definition bpf_object__add_programs :: "alloc \<Rightarrow> bpf_object \<Rightarrow> elf_data \<Rightarrow> string \<Rightarrow> nat \<Rightarrow> unit result \<times> bpf_object" where
  "bpf_object__add_programs alloc obj sec_data sec_name sec_idx =
     add_programs_loop alloc obj sec_data sec_name sec_idx 0"

definition prog_is_subprog :: "bpf_object \<Rightarrow> bpf_program \<Rightarrow> bool" where
  "prog_is_subprog obj prog \<longleftrightarrow> int (p_sec_idx prog) = text_shndx (efile obj) \<and> length (programs obj) > 1"

definition bpf_object__find_program_by_title :: "bpf_object \<Rightarrow> string \<Rightarrow> bpf_program option" where
  "bpf_object__find_program_by_title obj title = List.find (\<lambda>pos. p_sec_name pos = title) (programs obj)"

fun find_by_name :: "bpf_object \<Rightarrow> string \<Rightarrow> bpf_program list \<Rightarrow> bpf_program option" where
  "find_by_name obj name [] = None"
| "find_by_name obj name (prog # progs) =
     (if prog_is_subprog obj prog then find_by_name obj name progs
      else if p_name prog = name then Some prog
      else find_by_name obj name progs)"

definition bpf_object__find_program_by_name :: "bpf_object \<Rightarrow> string \<Rightarrow> bpf_program option" where
  "bpf_object__find_program_by_name obj name = find_by_name obj name (programs obj)"

definition cmp_progs :: "bpf_program \<Rightarrow> bpf_program \<Rightarrow> int" where
  "cmp_progs a b =
     (if p_sec_idx a \<noteq> p_sec_idx b then (if p_sec_idx a < p_sec_idx b then -1 else 1)
      else if sec_insn_off a < sec_insn_off b then -1 else 1)"

definition prog_contains_insn :: "bpf_program \<Rightarrow> nat \<Rightarrow> bool" where
  "prog_contains_insn prog insn_idx \<longleftrightarrow>
     insn_idx \<ge> sec_insn_off prog \<and> insn_idx < sec_insn_off prog + sec_insn_cnt prog"

text \<open>The bounds \<open>l\<close> and \<open>r\<close> are \<open>int\<close>: without programs \<open>r\<close> is -1 and entry 0 is read all the same.\<close>

function prog_search :: "bpf_program list \<Rightarrow> nat \<Rightarrow> nat \<Rightarrow> int \<Rightarrow> int \<Rightarrow> int" where
  "prog_search progs sec_idx insn_idx l r =
     (if l < r
      then let m = l + (r - l + 1) div 2; prog = progs ! nat m in
           if p_sec_idx prog < sec_idx \<or> (p_sec_idx prog = sec_idx \<and> sec_insn_off prog \<le> insn_idx)
           then prog_search progs sec_idx insn_idx m r
           else prog_search progs sec_idx insn_idx l (m - 1)
      else l)"
  by pat_completeness auto
termination
  by (relation "measure (\<lambda>(progs, sec_idx, insn_idx, l, r). nat (r - l))") (auto simp: Let_def)

declare prog_search.simps [simp del]

definition find_prog_by_sec_insn :: "bpf_object \<Rightarrow> nat \<Rightarrow> nat \<Rightarrow> nat option result" where
  "find_prog_by_sec_insn obj sec_idx insn_idx =
     (let l = nat (prog_search (programs obj) sec_idx insn_idx 0 (int (length (programs obj)) - 1)) in
      rbind (array_get (programs obj) l) (\<lambda>prog.
      Inr (if p_sec_idx prog = sec_idx \<and> prog_contains_insn prog insn_idx then Some l else None)))"

subsection \<open>Map lookups\<close>

definition bpf_object__shndx_is_data :: "bpf_object \<Rightarrow> int \<Rightarrow> bool" where
  "bpf_object__shndx_is_data obj shndx \<longleftrightarrow>
     shndx = data_shndx (efile obj) \<or> shndx = bss_shndx (efile obj) \<or> shndx = rodata_shndx (efile obj)"

definition bpf_object__shndx_is_maps :: "bpf_object \<Rightarrow> int \<Rightarrow> bool" where
  "bpf_object__shndx_is_maps obj shndx \<longleftrightarrow> shndx = maps_shndx (efile obj) \<or> shndx = btf_maps_shndx (efile obj)"

definition bpf_object__section_to_libbpf_map_type :: "bpf_object \<Rightarrow> int \<Rightarrow> libbpf_map_type" where
  "bpf_object__section_to_libbpf_map_type obj shndx =
     (if shndx = data_shndx (efile obj) then LIBBPF_MAP_DATA
      else if shndx = bss_shndx (efile obj) then LIBBPF_MAP_BSS
      else if shndx = rodata_shndx (efile obj) then LIBBPF_MAP_RODATA
      else if shndx = symbols_shndx (efile obj) then LIBBPF_MAP_KCONFIG
      else LIBBPF_MAP_UNSPEC)"

fun find_index :: "('a \<Rightarrow> bool) \<Rightarrow> 'a list \<Rightarrow> nat option" where
  "find_index p [] = None"
| "find_index p (x # xs) = (if p x then Some 0 else map_option Suc (find_index p xs))"

end
