(* ===== verification/Elf_Collect.thy ===== *)
theory Elf_Collect
  imports Bpf_Object
begin

text \<open>
  Opening an object (\<^verbatim>\<open>libbpf.c\<close>): the new object, the checks of the ELF header, the walk over the
  sections that collects license, version, programs, data sections, relocation sections and BTF, the
  lookups of section sizes and variable offsets, and the maps that hold the global data.

  The environment supplies the kernel version, the result of opening the file, the page size and the
  answers to allocations. An operation that can fail half-way returns its result with the object it
  leaves behind.
\<close>

definition BPF_OBJ_NAME_LEN :: nat where "BPF_OBJ_NAME_LEN = 16"

subsection \<open>A new object\<close>

definition basename :: "string \<Rightarrow> string" where
  "basename path = rev (takeWhile (\<lambda>c. c \<noteq> CHR ''/'') (rev path))"

definition efile_new :: efile_t where
  "efile_new =
     \<lparr>ef_fd = -1, ef_elf = None, ef_ehdr = \<lparr>e_type = 0, e_machine = 0, e_data = 0\<rparr>, ef_symbols = None, ef_data = None,
      ef_rodata = None, ef_bss = None, ef_st_ops_data = None, ef_shstrndx = 0, ef_strtabidx = 0, ef_reloc_sects = [],
      maps_shndx = -1, btf_maps_shndx = -1, btf_maps_sec_btf_id = 0, text_shndx = 0, symbols_shndx = 0, data_shndx = -1, rodata_shndx = -1,
      bss_shndx = -1, st_ops_shndx = -1\<rparr>"

definition bpf_object__new :: "alloc \<Rightarrow> u32 \<Rightarrow> string \<Rightarrow> string option \<Rightarrow> bpf_object result" where
  "bpf_object__new alloc kver path name =
     rbind (guard (alloc (1216 + length path + 1)) ENOMEM) (\<lambda>_.
     Inr \<lparr>obj_name =
            (case name of
               Some n \<Rightarrow> take (BPF_OBJ_NAME_LEN - 1) n
             | None \<Rightarrow> takeWhile (\<lambda>c. c \<noteq> CHR ''.'') (take (BPF_OBJ_NAME_LEN - 1) (basename path))),
          obj_license = replicate 64 0, kern_version = kver, programs = [], maps = [], maps_cap = 0, externs = [],
          kconfig_map_idx = -1, rodata_map_idx = -1, efile = efile_new, obj_btf = None, obj_btf_ext = None\<rparr>)"

definition bpf_object__elf_finish :: "bpf_object \<Rightarrow> bpf_object" where
  "bpf_object__elf_finish obj =
     (if \<not> obj_elf_valid obj then obj
      else upd_efile (\<lambda>ef. ef\<lparr>ef_elf := None, ef_symbols := None, ef_data := None, ef_rodata := None, ef_bss := None,
             ef_st_ops_data := None, ef_reloc_sects := [], ef_fd := -1\<rparr>) obj)"

text \<open>
  \<open>file\<close> is what opening gives: \<open>Inl\<close> the error of \<^verbatim>\<open>open\<close>, otherwise the descriptor and what \<^verbatim>\<open>elf_begin\<close>
  returns (\<^verbatim>\<open>elf_memory\<close> for a buffer). The error path of the section name strings does not release the file.
\<close>

definition bpf_object__elf_init :: "errno + int \<times> elf option \<Rightarrow> bpf_object \<Rightarrow> unit result \<times> bpf_object" where
  "bpf_object__elf_init file obj =
     (if obj_elf_valid obj then (Inl LIBBPF_ERRNO__LIBELF, obj)
      else case file of
             Inl e \<Rightarrow> (Inl e, obj)
           | Inr (fd0, e_opt) \<Rightarrow>
               let obj1 = upd_efile (\<lambda>ef. ef\<lparr>ef_fd := fd0, ef_elf := e_opt\<rparr>) obj in
               (case e_opt of
                  None \<Rightarrow> (Inl LIBBPF_ERRNO__LIBELF, bpf_object__elf_finish obj1)
                | Some e \<Rightarrow>
                    (case elf_ehdr e of
                       None \<Rightarrow> (Inl LIBBPF_ERRNO__FORMAT, bpf_object__elf_finish obj1)
                     | Some ep \<Rightarrow>
                         let obj2 = upd_efile (\<lambda>ef. ef\<lparr>ef_ehdr := ep\<rparr>) obj1 in
                         (case elf_shstrndx e of
                            None \<Rightarrow> (Inl LIBBPF_ERRNO__FORMAT, bpf_object__elf_finish obj2)
                          | Some ndx \<Rightarrow>
                              let obj3 = upd_efile (\<lambda>ef. ef\<lparr>ef_shstrndx := ndx\<rparr>) obj2 in
                              if \<not> (ndx < elf_nscn e \<and> elf_rawdata e ndx) then (Inl LIBBPF_ERRNO__FORMAT, obj3)
                              else if e_type ep \<noteq> ET_REL \<or> (e_machine ep \<noteq> 0 \<and> e_machine ep \<noteq> EM_BPF)
                              then (Inl LIBBPF_ERRNO__FORMAT, bpf_object__elf_finish obj3)
                              else (Inr (), obj3)))))"

definition bpf_object__check_endianness :: "bpf_object \<Rightarrow> unit result" where
  "bpf_object__check_endianness obj = guard (e_data (ef_ehdr (efile obj)) = ELFDATA2LSB) LIBBPF_ERRNO__ENDIAN"

subsection \<open>License and version\<close>

definition data_bytes :: "elf_data \<Rightarrow> u8 list result" where
  "data_bytes d =
     (case d_buf d of
        None \<Rightarrow> if d_size d = 0 then Inr [] else Inl OOB
      | Some bs \<Rightarrow> if d_size d \<le> length bs then Inr (take (d_size d) bs) else Inl OOB)"

definition bpf_object__init_license :: "elf_data \<Rightarrow> bpf_object \<Rightarrow> bpf_object result" where
  "bpf_object__init_license d obj =
     rbind (data_bytes d) (\<lambda>bs. let n = min (d_size d) 63 in
     Inr (obj\<lparr>obj_license := take n bs @ drop n (obj_license obj)\<rparr>))"

definition bpf_object__init_kversion :: "elf_data \<Rightarrow> bpf_object \<Rightarrow> bpf_object result" where
  "bpf_object__init_kversion d obj =
     rbind (guard (d_size d = 4) LIBBPF_ERRNO__FORMAT) (\<lambda>_.
     rbind (data_bytes d) (\<lambda>bs. rbind (read_u32 bs 0) (\<lambda>kver.
     Inr (obj\<lparr>kern_version := kver\<rparr>))))"

definition BPF_MAP_TYPE_HASH_OF_MAPS :: u32 where "BPF_MAP_TYPE_HASH_OF_MAPS = 13"
definition BPF_MAP_TYPE_ARRAY_OF_MAPS :: u32 where "BPF_MAP_TYPE_ARRAY_OF_MAPS = 12"

definition bpf_map_type__is_map_in_map :: "u32 \<Rightarrow> bool" where
  "bpf_map_type__is_map_in_map t \<longleftrightarrow> t = BPF_MAP_TYPE_ARRAY_OF_MAPS \<or> t = BPF_MAP_TYPE_HASH_OF_MAPS"

subsection \<open>Sizes and offsets\<close>

text \<open>The size is returned as a \<open>__u32\<close>: a size of 0 after truncation is an error for the special sections.\<close>

definition bpf_object__section_size :: "bpf_object \<Rightarrow> string option \<Rightarrow> nat result" where
  "bpf_object__section_size obj name =
     (let special = (\<lambda>d. case d of None \<Rightarrow> Inl ENOENT
                          | Some d \<Rightarrow> if d_size d mod 2 ^ 32 = 0 then Inl ENOENT else Inr (d_size d mod 2 ^ 32)) in
      case name of
        None \<Rightarrow> Inl EINVAL
      | Some n \<Rightarrow>
          if n = ''.data'' then special (ef_data (efile obj))
          else if n = ''.bss'' then special (ef_bss (efile obj))
          else if n = ''.rodata'' then special (ef_rodata (efile obj))
          else if n = ''.struct_ops'' then special (ef_st_ops_data (efile obj))
          else case elf_sec_data obj (elf_sec_by_name obj n) of
                 None \<Rightarrow> Inl ENOENT
               | Some d \<Rightarrow> Inr (d_size d mod 2 ^ 32))"

fun variable_offset_loop :: "bpf_object \<Rightarrow> elf \<Rightarrow> elf_data \<Rightarrow> string \<Rightarrow> nat list \<Rightarrow> nat result" where
  "variable_offset_loop obj e symbols name [] = Inl ENOENT"
| "variable_offset_loop obj e symbols name (si # sis) =
     (case elf_getsym e symbols si of
        None \<Rightarrow> variable_offset_loop obj e symbols name sis
      | Some sy \<Rightarrow>
          if GELF_ST_BIND (st_info sy) \<noteq> STB_GLOBAL \<or> GELF_ST_TYPE (st_info sy) \<noteq> STT_OBJECT
          then variable_offset_loop obj e symbols name sis
          else case elf_sym_str obj (st_name sy) of
                 None \<Rightarrow> Inl EIO
               | Some sname \<Rightarrow> if name = sname then Inr (st_value sy mod 2 ^ 32)
                               else variable_offset_loop obj e symbols name sis)"

definition bpf_object__variable_offset :: "bpf_object \<Rightarrow> string option \<Rightarrow> nat result" where
  "bpf_object__variable_offset obj name =
     rbind (deref name EINVAL) (\<lambda>n.
     rbind (deref (ef_symbols (efile obj)) OOB) (\<lambda>symbols.
     rbind (deref (ef_elf (efile obj)) OOB) (\<lambda>e.
     variable_offset_loop obj e symbols n [0..<d_size symbols div 24])))"

subsection \<open>Maps of global data\<close>

definition sizeof_bpf_map :: nat where "sizeof_bpf_map = 168"

definition map_new :: bpf_map where
  "map_new = \<lparr>m_name = None, m_fd = -1, m_sec_idx = 0, m_sec_offset = 0, m_inner_map_fd = -1,
     m_def = \<lparr>def_type = 0, key_size = 0, value_size = 0, max_entries = 0, map_flags = 0\<rparr>,
     m_libbpf_type = LIBBPF_MAP_UNSPEC, m_mmaped = None, m_numa_node = 0, m_btf_var_idx = 0,
     m_btf_key_type_id = 0, m_btf_value_type_id = 0, m_pin_path = None, m_inner_map = None, m_init_slots = [], m_st_ops = None\<rparr>"

text \<open>
  \<open>bpf_object__add_map\<close> hands out a fresh map and its index; the spare entries of the array are fresh
  maps too, so only the capacity is kept of them.
\<close>

definition bpf_object__add_map :: "alloc \<Rightarrow> bpf_object \<Rightarrow> (nat \<times> bpf_object) result" where
  "bpf_object__add_map alloc obj =
     (let n = length (maps obj) in
      if n < maps_cap obj then Inr (n, obj\<lparr>maps := maps obj @ [map_new]\<rparr>)
      else let new_cap = max 4 (maps_cap obj * 3 div 2) in
           rbind (guard (libbpf_reallocarray alloc new_cap sizeof_bpf_map) ENOMEM) (\<lambda>_.
           Inr (n, obj\<lparr>maps_cap := new_cap, maps := maps obj @ [map_new]\<rparr>)))"

definition roundup :: "nat \<Rightarrow> nat \<Rightarrow> nat" where
  "roundup x y = (x + (y - 1)) div y * y"

definition bpf_map_mmap_sz :: "nat \<Rightarrow> bpf_map \<Rightarrow> nat" where
  "bpf_map_mmap_sz page_sz m =
     (let map_sz = (unat ((value_size (m_def m) + 7) div 8 * 8) * unat (max_entries (m_def m))) mod 2 ^ 64 in
      roundup map_sz page_sz mod 2 ^ 64)"

fun libbpf_type_to_btf_name :: "libbpf_map_type \<Rightarrow> string" where
  "libbpf_type_to_btf_name LIBBPF_MAP_DATA = ''.data''"
| "libbpf_type_to_btf_name LIBBPF_MAP_BSS = ''.bss''"
| "libbpf_type_to_btf_name LIBBPF_MAP_RODATA = ''.rodata''"
| "libbpf_type_to_btf_name LIBBPF_MAP_KCONFIG = ''.kconfig''"
| "libbpf_type_to_btf_name LIBBPF_MAP_UNSPEC = []"

definition isalnum :: "char \<Rightarrow> bool" where
  "isalnum c \<longleftrightarrow> (let n = of_char c :: nat in
     (48 \<le> n \<and> n \<le> 57) \<or> (65 \<le> n \<and> n \<le> 90) \<or> (97 \<le> n \<and> n \<le> 122))"

definition internal_map_name :: "alloc \<Rightarrow> bpf_object \<Rightarrow> libbpf_map_type \<Rightarrow> string option" where
  "internal_map_name alloc obj type =
     (let sfx = libbpf_type_to_btf_name type;
          sfx_len = max 7 (length sfx);
          pfx_len = min (BPF_OBJ_NAME_LEN - sfx_len - 1) (length (obj_name obj));
          map_name = take (BPF_OBJ_NAME_LEN - 1) (take pfx_len (obj_name obj) @ take sfx_len sfx);
          clean = map (\<lambda>c. if \<not> isalnum c \<and> c \<noteq> CHR ''_'' \<and> c \<noteq> CHR ''.'' then CHR ''_'' else c) map_name in
      if alloc (length clean + 1) then Some clean else None)"

definition BPF_MAP_TYPE_ARRAY :: u32 where "BPF_MAP_TYPE_ARRAY = 2"
definition BPF_F_RDONLY_PROG :: u32 where "BPF_F_RDONLY_PROG = 128"
definition BPF_F_MMAPABLE :: u32 where "BPF_F_MMAPABLE = 1024"

definition upd_map :: "nat \<Rightarrow> (bpf_map \<Rightarrow> bpf_map) \<Rightarrow> bpf_object \<Rightarrow> bpf_object" where
  "upd_map i f obj = obj\<lparr>maps := (maps obj)[i := f (maps obj ! i)]\<rparr>"

text \<open>\<^verbatim>\<open>mmap\<close> refuses a size of 0 with \<open>-EINVAL\<close> and gives zeroed memory. A failure leaves the map in the object.\<close>

definition bpf_object__init_internal_map :: "alloc \<Rightarrow> nat \<Rightarrow> libbpf_map_type \<Rightarrow> int \<Rightarrow> u8 list option \<Rightarrow> nat \<Rightarrow>
    bpf_object \<Rightarrow> unit result \<times> bpf_object" where
  "bpf_object__init_internal_map alloc page_sz type sec_idx data data_sz obj =
     (case bpf_object__add_map alloc obj of
        Inl e \<Rightarrow> (Inl e, obj)
      | Inr (i, obj1) \<Rightarrow>
          let name = internal_map_name alloc obj type;
              obj2 = upd_map i (\<lambda>m. m\<lparr>m_libbpf_type := type, m_sec_idx := sec_idx, m_sec_offset := 0, m_name := name\<rparr>) obj1 in
          if name = None then (Inl ENOMEM, obj2)
          else let obj3 = upd_map i (\<lambda>m. m\<lparr>m_def :=
                     \<lparr>def_type = BPF_MAP_TYPE_ARRAY, key_size = 4, value_size = of_nat data_sz, max_entries = 1,
                      map_flags = (if type = LIBBPF_MAP_RODATA \<or> type = LIBBPF_MAP_KCONFIG then BPF_F_RDONLY_PROG else 0)
                        OR BPF_F_MMAPABLE\<rparr>\<rparr>) obj2;
                   map_sz = bpf_map_mmap_sz page_sz (maps obj3 ! i) in
               if map_sz = 0 then (Inl EINVAL, upd_map i (\<lambda>m. m\<lparr>m_name := None\<rparr>) obj3)
               else if \<not> alloc map_sz then (Inl ENOMEM, upd_map i (\<lambda>m. m\<lparr>m_name := None\<rparr>) obj3)
               else case data of
                      None \<Rightarrow> (Inr (), upd_map i (\<lambda>m. m\<lparr>m_mmaped := Some (replicate map_sz 0)\<rparr>) obj3)
                    | Some bs \<Rightarrow>
                        if length bs < data_sz \<or> map_sz < data_sz then (Inl OOB, obj3)
                        else (Inr (), upd_map i (\<lambda>m. m\<lparr>m_mmaped := Some (take data_sz bs @ replicate (map_sz - data_sz) 0)\<rparr>) obj3))"

definition and_then :: "unit result \<times> bpf_object \<Rightarrow> (bpf_object \<Rightarrow> unit result \<times> bpf_object) \<Rightarrow> unit result \<times> bpf_object" where
  "and_then r f = (case r of (Inl e, obj) \<Rightarrow> (Inl e, obj) | (Inr u, obj) \<Rightarrow> f obj)"

lemma and_then_Inr: "and_then m f = (Inr u, obj') \<longleftrightarrow> (\<exists>obj1. m = (Inr (), obj1) \<and> f obj1 = (Inr u, obj'))"
  by (cases m; cases "fst m") (auto simp: and_then_def)

lemma and_then_rel:
  assumes "and_then m f = (r, obj')" "\<And>a b c. R a b \<Longrightarrow> R b c \<Longrightarrow> R a c" "\<And>r1 obj1. m = (r1, obj1) \<Longrightarrow> R obj obj1"
    "\<And>obj1. f obj1 = (r, obj') \<Longrightarrow> R obj1 obj'"
  shows "R obj obj'"
  using assms by (cases m; cases "fst m") (auto simp: and_then_def)

definition data_map :: "alloc \<Rightarrow> nat \<Rightarrow> libbpf_map_type \<Rightarrow> bool \<Rightarrow> int \<Rightarrow> elf_data option \<Rightarrow> bpf_object \<Rightarrow> unit result \<times> bpf_object" where
  "data_map alloc page_sz type with_data shndx d obj =
     (if shndx < 0 then (Inr (), obj)
      else case d of
             None \<Rightarrow> (Inl OOB, obj)
           | Some d \<Rightarrow> bpf_object__init_internal_map alloc page_sz type shndx (if with_data then d_buf d else None) (d_size d) obj)"

definition bpf_object__init_global_data_maps :: "alloc \<Rightarrow> nat \<Rightarrow> bpf_object \<Rightarrow> unit result \<times> bpf_object" where
  "bpf_object__init_global_data_maps alloc page_sz obj =
     and_then (data_map alloc page_sz LIBBPF_MAP_DATA True (data_shndx (efile obj)) (ef_data (efile obj)) obj) (\<lambda>obj.
     and_then (and_then (data_map alloc page_sz LIBBPF_MAP_RODATA True (rodata_shndx (efile obj)) (ef_rodata (efile obj)) obj)
       (\<lambda>obj. (Inr (), if rodata_shndx (efile obj) < 0 then obj
                       else obj\<lparr>rodata_map_idx := int (length (maps obj)) - 1\<rparr>))) (\<lambda>obj.
     data_map alloc page_sz LIBBPF_MAP_BSS False (bss_shndx (efile obj)) (ef_bss (efile obj)) obj))"

subsection \<open>BTF of the object\<close>

definition libbpf_needs_btf :: "bpf_object \<Rightarrow> bool" where
  "libbpf_needs_btf obj \<longleftrightarrow>
     btf_maps_shndx (efile obj) \<ge> 0 \<or> st_ops_shndx (efile obj) \<ge> 0 \<or> length (externs obj) > 0"

text \<open>
  \<open>bpf_object__init_btf\<close> ignores a broken \<^verbatim>\<open>.BTF.ext\<close>, and a broken \<^verbatim>\<open>.BTF\<close> unless maps, struct_ops or
  externs need it. Sizes become \<open>__u32\<close> on the way.
\<close>

definition btf_bytes :: "elf_data \<Rightarrow> u8 list result" where
  "btf_bytes d = rbind (data_bytes d) (\<lambda>bs. Inr (take (d_size d mod 2 ^ 32) bs))"

definition init_btf_main :: "alloc \<Rightarrow> elf_data option \<Rightarrow> (errno option \<times> btf option) result" where
  "init_btf_main alloc btf_data =
     (case btf_data of
        None \<Rightarrow> Inr (Some ENOENT, None)
      | Some d \<Rightarrow>
          (case rbind (btf_bytes d) (btf__new alloc) of
             Inl e \<Rightarrow> if e = OOB then Inl OOB else Inr (Some e, None)
           | Inr b \<Rightarrow> Inr (None, Some (case btf__set_pointer_size b 8 of Inl _ \<Rightarrow> b | Inr b' \<Rightarrow> b'))))"

definition bpf_object__init_btf :: "alloc \<Rightarrow> elf_data option \<Rightarrow> elf_data option \<Rightarrow> bpf_object \<Rightarrow> unit result \<times> bpf_object" where
  "bpf_object__init_btf alloc btf_data btf_ext_data obj =
     (case init_btf_main alloc btf_data of
        Inl e \<Rightarrow> (Inl e, obj)
      | Inr (err, b) \<Rightarrow>
          let obj1 = obj\<lparr>obj_btf := b\<rparr>;
              needed = (\<lambda>obj. case err of Some e \<Rightarrow> if libbpf_needs_btf obj then Inl e else Inr () | None \<Rightarrow> Inr ()) in
          (case (btf_ext_data, b) of
             (Some d, Some _) \<Rightarrow>
               (case rbind (btf_bytes d) (btf_ext__new alloc) of
                  Inl e \<Rightarrow> if e = OOB then (Inl OOB, obj1) else (needed obj1, obj1\<lparr>obj_btf_ext := None\<rparr>)
                | Inr x \<Rightarrow> (needed obj1, obj1\<lparr>obj_btf_ext := Some x\<rparr>))
           | _ \<Rightarrow> (needed obj1, obj1)))"

subsection \<open>The walk over the sections\<close>

fun collect_symtab :: "bpf_object \<Rightarrow> nat list \<Rightarrow> unit result \<times> bpf_object" where
  "collect_symtab obj [] = (Inr (), obj)"
| "collect_symtab obj (scn # scns) =
     (case elf_sec_hdr obj (Some scn) of
        Inl e \<Rightarrow> (Inl LIBBPF_ERRNO__FORMAT, obj)
      | Inr sh \<Rightarrow>
          if sh_type sh \<noteq> SHT_SYMTAB then collect_symtab obj scns
          else if ef_symbols (efile obj) \<noteq> None then (Inl LIBBPF_ERRNO__FORMAT, obj)
          else case elf_sec_data obj (Some scn) of
                 None \<Rightarrow> (Inl LIBBPF_ERRNO__FORMAT, obj)
               | Some d \<Rightarrow>
                   collect_symtab (upd_efile (\<lambda>ef. ef\<lparr>ef_symbols := Some d, symbols_shndx := int scn, ef_strtabidx := sh_link sh\<rparr>) obj) scns)"

definition keep :: "bpf_object \<Rightarrow> bpf_object result \<Rightarrow> unit result \<times> bpf_object" where
  "keep obj r = (case r of Inl e \<Rightarrow> (Inl e, obj) | Inr obj' \<Rightarrow> (Inr (), obj'))"

definition collect_progbits :: "alloc \<Rightarrow> nat \<Rightarrow> gelf_shdr \<Rightarrow> string \<Rightarrow> elf_data \<Rightarrow> bpf_object \<Rightarrow> unit result \<times> bpf_object" where
  "collect_progbits alloc idx sh name d obj =
     (if sh_flags sh AND SHF_EXECINSTR \<noteq> 0
      then bpf_object__add_programs alloc
             (if name = ''.text'' then upd_efile (\<lambda>ef. ef\<lparr>text_shndx := int idx\<rparr>) obj else obj) d name idx
      else if name = ''.data'' then (Inr (), upd_efile (\<lambda>ef. ef\<lparr>ef_data := Some d, data_shndx := int idx\<rparr>) obj)
      else if name = ''.rodata'' then (Inr (), upd_efile (\<lambda>ef. ef\<lparr>ef_rodata := Some d, rodata_shndx := int idx\<rparr>) obj)
      else if name = ''.struct_ops'' then (Inr (), upd_efile (\<lambda>ef. ef\<lparr>ef_st_ops_data := Some d, st_ops_shndx := int idx\<rparr>) obj)
      else (Inr (), obj))"

definition collect_rel :: "alloc \<Rightarrow> gelf_shdr \<Rightarrow> string \<Rightarrow> elf_data \<Rightarrow> bpf_object \<Rightarrow> unit result \<times> bpf_object" where
  "collect_rel alloc sh name d obj =
     (if \<not> section_have_execinstr obj (sh_info sh) \<and> name \<noteq> ''.rel.struct_ops'' \<and> name \<noteq> ''.rel.maps''
      then (Inr (), obj)
      else if \<not> libbpf_reallocarray alloc (length (ef_reloc_sects (efile obj)) + 1) 72 then (Inl ENOMEM, obj)
      else (Inr (), upd_efile (\<lambda>ef. ef\<lparr>ef_reloc_sects := ef_reloc_sects ef @ [(sh, d)]\<rparr>) obj))"

text \<open>The state of the second pass: the object and the data of \<^verbatim>\<open>.BTF\<close> and \<^verbatim>\<open>.BTF.ext\<close>.\<close>

type_synonym collect_state = "bpf_object \<times> elf_data option \<times> elf_data option"

definition collect_section :: "alloc \<Rightarrow> nat \<Rightarrow> gelf_shdr \<Rightarrow> string \<Rightarrow> elf_data \<Rightarrow> collect_state \<Rightarrow> unit result \<times> collect_state" where
  "collect_section alloc idx sh name d = (\<lambda>(obj, btf_d, ext_d).
     (let on_obj = (\<lambda>(r, obj'). (r, obj', btf_d, ext_d)) in
      if name = ''license'' then on_obj (keep obj (bpf_object__init_license d obj))
      else if name = ''version'' then on_obj (keep obj (bpf_object__init_kversion d obj))
      else if name = ''maps'' then (Inr (), upd_efile (\<lambda>ef. ef\<lparr>maps_shndx := int idx\<rparr>) obj, btf_d, ext_d)
      else if name = ''.maps'' then (Inr (), upd_efile (\<lambda>ef. ef\<lparr>btf_maps_shndx := int idx\<rparr>) obj, btf_d, ext_d)
      else if name = ''.BTF'' then (Inr (), obj, Some d, ext_d)
      else if name = ''.BTF.ext'' then (Inr (), obj, btf_d, Some d)
      else if sh_type sh = SHT_SYMTAB then (Inr (), obj, btf_d, ext_d)
      else if sh_type sh = SHT_PROGBITS \<and> d_size d > 0 then on_obj (collect_progbits alloc idx sh name d obj)
      else if sh_type sh = SHT_REL then on_obj (collect_rel alloc sh name d obj)
      else if sh_type sh = SHT_NOBITS \<and> name = ''.bss''
      then (Inr (), upd_efile (\<lambda>ef. ef\<lparr>ef_bss := Some d, bss_shndx := int idx\<rparr>) obj, btf_d, ext_d)
      else (Inr (), obj, btf_d, ext_d)))"

fun collect_sections :: "alloc \<Rightarrow> nat list \<Rightarrow> collect_state \<Rightarrow> unit result \<times> collect_state" where
  "collect_sections alloc [] st = (Inr (), st)"
| "collect_sections alloc (scn # scns) st =
     (case elf_sec_hdr (fst st) (Some scn) of
        Inl e \<Rightarrow> (Inl LIBBPF_ERRNO__FORMAT, st)
      | Inr sh \<Rightarrow>
          (case elf_sec_str (fst st) (sh_name sh) of
             None \<Rightarrow> (Inl LIBBPF_ERRNO__FORMAT, st)
           | Some name \<Rightarrow>
               if ignore_elf_section sh name then collect_sections alloc scns st
               else case elf_sec_data (fst st) (Some scn) of
                      None \<Rightarrow> (Inl LIBBPF_ERRNO__FORMAT, st)
                    | Some d \<Rightarrow>
                        (case collect_section alloc scn sh name d st of
                           (Inl e, st') \<Rightarrow> (Inl e, st')
                         | (Inr u, st') \<Rightarrow> collect_sections alloc scns st')))"

definition bpf_object__elf_collect :: "alloc \<Rightarrow> bpf_object \<Rightarrow> unit result \<times> bpf_object" where
  "bpf_object__elf_collect alloc obj =
     (let scns = elf_scns (ef_elf (efile obj)) in
      and_then (collect_symtab obj scns) (\<lambda>obj1.
      case collect_sections alloc scns (obj1, None, None) of
        (Inl e, obj2, _, _) \<Rightarrow> (Inl e, obj2)
      | (Inr u, obj2, btf_d, ext_d) \<Rightarrow>
          if ef_strtabidx (efile obj2) = 0 \<or> ef_strtabidx (efile obj2) > length scns
          then (Inl LIBBPF_ERRNO__FORMAT, obj2)
          else bpf_object__init_btf alloc btf_d ext_d (obj2\<lparr>programs := qsort cmp_progs (programs obj2)\<rparr>)))"

end
