(* ===== verification/Sec_Defs.thy ===== *)
theory Sec_Defs
  imports Bpf_Object
begin

text \<open>
  The table of section names in \<^verbatim>\<open>libbpf.c\<close>: which program type a section name stands for. The table is
  searched in order for the first entry that is a prefix of the name.
\<close>

subsection \<open>Program and attach types\<close>

definition BPF_PROG_TYPE_UNSPEC :: nat where "BPF_PROG_TYPE_UNSPEC = 0"
definition BPF_PROG_TYPE_SOCKET_FILTER :: nat where "BPF_PROG_TYPE_SOCKET_FILTER = 1"
definition BPF_PROG_TYPE_KPROBE :: nat where "BPF_PROG_TYPE_KPROBE = 2"
definition BPF_PROG_TYPE_SCHED_CLS :: nat where "BPF_PROG_TYPE_SCHED_CLS = 3"
definition BPF_PROG_TYPE_SCHED_ACT :: nat where "BPF_PROG_TYPE_SCHED_ACT = 4"
definition BPF_PROG_TYPE_TRACEPOINT :: nat where "BPF_PROG_TYPE_TRACEPOINT = 5"
definition BPF_PROG_TYPE_XDP :: nat where "BPF_PROG_TYPE_XDP = 6"
definition BPF_PROG_TYPE_PERF_EVENT :: nat where "BPF_PROG_TYPE_PERF_EVENT = 7"
definition BPF_PROG_TYPE_CGROUP_SKB :: nat where "BPF_PROG_TYPE_CGROUP_SKB = 8"
definition BPF_PROG_TYPE_CGROUP_SOCK :: nat where "BPF_PROG_TYPE_CGROUP_SOCK = 9"
definition BPF_PROG_TYPE_LWT_IN :: nat where "BPF_PROG_TYPE_LWT_IN = 10"
definition BPF_PROG_TYPE_LWT_OUT :: nat where "BPF_PROG_TYPE_LWT_OUT = 11"
definition BPF_PROG_TYPE_LWT_XMIT :: nat where "BPF_PROG_TYPE_LWT_XMIT = 12"
definition BPF_PROG_TYPE_SOCK_OPS :: nat where "BPF_PROG_TYPE_SOCK_OPS = 13"
definition BPF_PROG_TYPE_SK_SKB :: nat where "BPF_PROG_TYPE_SK_SKB = 14"
definition BPF_PROG_TYPE_CGROUP_DEVICE :: nat where "BPF_PROG_TYPE_CGROUP_DEVICE = 15"
definition BPF_PROG_TYPE_SK_MSG :: nat where "BPF_PROG_TYPE_SK_MSG = 16"
definition BPF_PROG_TYPE_RAW_TRACEPOINT :: nat where "BPF_PROG_TYPE_RAW_TRACEPOINT = 17"
definition BPF_PROG_TYPE_CGROUP_SOCK_ADDR :: nat where "BPF_PROG_TYPE_CGROUP_SOCK_ADDR = 18"
definition BPF_PROG_TYPE_LWT_SEG6LOCAL :: nat where "BPF_PROG_TYPE_LWT_SEG6LOCAL = 19"
definition BPF_PROG_TYPE_LIRC_MODE2 :: nat where "BPF_PROG_TYPE_LIRC_MODE2 = 20"
definition BPF_PROG_TYPE_SK_REUSEPORT :: nat where "BPF_PROG_TYPE_SK_REUSEPORT = 21"
definition BPF_PROG_TYPE_FLOW_DISSECTOR :: nat where "BPF_PROG_TYPE_FLOW_DISSECTOR = 22"
definition BPF_PROG_TYPE_CGROUP_SYSCTL :: nat where "BPF_PROG_TYPE_CGROUP_SYSCTL = 23"
definition BPF_PROG_TYPE_CGROUP_SOCKOPT :: nat where "BPF_PROG_TYPE_CGROUP_SOCKOPT = 25"
definition BPF_PROG_TYPE_TRACING :: nat where "BPF_PROG_TYPE_TRACING = 26"
definition BPF_PROG_TYPE_STRUCT_OPS :: nat where "BPF_PROG_TYPE_STRUCT_OPS = 27"
definition BPF_PROG_TYPE_EXT :: nat where "BPF_PROG_TYPE_EXT = 28"
definition BPF_PROG_TYPE_LSM :: nat where "BPF_PROG_TYPE_LSM = 29"
definition BPF_PROG_TYPE_SK_LOOKUP :: nat where "BPF_PROG_TYPE_SK_LOOKUP = 30"

definition BPF_CGROUP_INET_INGRESS :: nat where "BPF_CGROUP_INET_INGRESS = 0"
definition BPF_CGROUP_INET_EGRESS :: nat where "BPF_CGROUP_INET_EGRESS = 1"
definition BPF_CGROUP_INET_SOCK_CREATE :: nat where "BPF_CGROUP_INET_SOCK_CREATE = 2"
definition BPF_CGROUP_SOCK_OPS :: nat where "BPF_CGROUP_SOCK_OPS = 3"
definition BPF_SK_SKB_STREAM_PARSER :: nat where "BPF_SK_SKB_STREAM_PARSER = 4"
definition BPF_SK_SKB_STREAM_VERDICT :: nat where "BPF_SK_SKB_STREAM_VERDICT = 5"
definition BPF_CGROUP_DEVICE :: nat where "BPF_CGROUP_DEVICE = 6"
definition BPF_SK_MSG_VERDICT :: nat where "BPF_SK_MSG_VERDICT = 7"
definition BPF_CGROUP_INET4_BIND :: nat where "BPF_CGROUP_INET4_BIND = 8"
definition BPF_CGROUP_INET6_BIND :: nat where "BPF_CGROUP_INET6_BIND = 9"
definition BPF_CGROUP_INET4_CONNECT :: nat where "BPF_CGROUP_INET4_CONNECT = 10"
definition BPF_CGROUP_INET6_CONNECT :: nat where "BPF_CGROUP_INET6_CONNECT = 11"
definition BPF_CGROUP_INET4_POST_BIND :: nat where "BPF_CGROUP_INET4_POST_BIND = 12"
definition BPF_CGROUP_INET6_POST_BIND :: nat where "BPF_CGROUP_INET6_POST_BIND = 13"
definition BPF_CGROUP_UDP4_SENDMSG :: nat where "BPF_CGROUP_UDP4_SENDMSG = 14"
definition BPF_CGROUP_UDP6_SENDMSG :: nat where "BPF_CGROUP_UDP6_SENDMSG = 15"
definition BPF_LIRC_MODE2 :: nat where "BPF_LIRC_MODE2 = 16"
definition BPF_FLOW_DISSECTOR :: nat where "BPF_FLOW_DISSECTOR = 17"
definition BPF_CGROUP_SYSCTL :: nat where "BPF_CGROUP_SYSCTL = 18"
definition BPF_CGROUP_UDP4_RECVMSG :: nat where "BPF_CGROUP_UDP4_RECVMSG = 19"
definition BPF_CGROUP_UDP6_RECVMSG :: nat where "BPF_CGROUP_UDP6_RECVMSG = 20"
definition BPF_CGROUP_GETSOCKOPT :: nat where "BPF_CGROUP_GETSOCKOPT = 21"
definition BPF_CGROUP_SETSOCKOPT :: nat where "BPF_CGROUP_SETSOCKOPT = 22"
definition BPF_TRACE_RAW_TP :: nat where "BPF_TRACE_RAW_TP = 23"
definition BPF_TRACE_FENTRY :: nat where "BPF_TRACE_FENTRY = 24"
definition BPF_TRACE_FEXIT :: nat where "BPF_TRACE_FEXIT = 25"
definition BPF_MODIFY_RETURN :: nat where "BPF_MODIFY_RETURN = 26"
definition BPF_LSM_MAC :: nat where "BPF_LSM_MAC = 27"
definition BPF_TRACE_ITER :: nat where "BPF_TRACE_ITER = 28"
definition BPF_CGROUP_INET4_GETPEERNAME :: nat where "BPF_CGROUP_INET4_GETPEERNAME = 29"
definition BPF_CGROUP_INET6_GETPEERNAME :: nat where "BPF_CGROUP_INET6_GETPEERNAME = 30"
definition BPF_CGROUP_INET4_GETSOCKNAME :: nat where "BPF_CGROUP_INET4_GETSOCKNAME = 31"
definition BPF_CGROUP_INET6_GETSOCKNAME :: nat where "BPF_CGROUP_INET6_GETSOCKNAME = 32"
definition BPF_XDP_DEVMAP :: nat where "BPF_XDP_DEVMAP = 33"
definition BPF_CGROUP_INET_SOCK_RELEASE :: nat where "BPF_CGROUP_INET_SOCK_RELEASE = 34"
definition BPF_XDP_CPUMAP :: nat where "BPF_XDP_CPUMAP = 35"
definition BPF_SK_LOOKUP :: nat where "BPF_SK_LOOKUP = 36"
definition BPF_XDP :: nat where "BPF_XDP = 37"

subsection \<open>The table\<close>

datatype attach_fn_t = ATTACH_KPROBE | ATTACH_TP | ATTACH_RAW_TP | ATTACH_TRACE | ATTACH_LSM | ATTACH_ITER

record bpf_sec_def =
  sd_sec :: string
  sd_prog_type :: nat
  sd_expected_attach_type :: nat
  sd_is_exp_attach_type_optional :: bool
  sd_is_attachable :: bool
  sd_is_attach_btf :: bool
  sd_is_sleepable :: bool
  sd_attach_fn :: "attach_fn_t option"

definition BPF_PROG_SEC_IMPL :: "string \<Rightarrow> nat \<Rightarrow> nat \<Rightarrow> bool \<Rightarrow> bool \<Rightarrow> bool \<Rightarrow> bpf_sec_def" where
  "BPF_PROG_SEC_IMPL s ptype eatype eatype_optional attachable attach_btf =
     \<lparr>sd_sec = s, sd_prog_type = ptype, sd_expected_attach_type = eatype, sd_is_exp_attach_type_optional = eatype_optional,
      sd_is_attachable = attachable, sd_is_attach_btf = attach_btf, sd_is_sleepable = False, sd_attach_fn = None\<rparr>"

definition BPF_PROG_SEC :: "string \<Rightarrow> nat \<Rightarrow> bpf_sec_def" where
  "BPF_PROG_SEC s ptype = BPF_PROG_SEC_IMPL s ptype 0 False False False"

definition BPF_APROG_SEC :: "string \<Rightarrow> nat \<Rightarrow> nat \<Rightarrow> bpf_sec_def" where
  "BPF_APROG_SEC s ptype atype = BPF_PROG_SEC_IMPL s ptype atype True True False"

definition BPF_EAPROG_SEC :: "string \<Rightarrow> nat \<Rightarrow> nat \<Rightarrow> bpf_sec_def" where
  "BPF_EAPROG_SEC s ptype eatype = BPF_PROG_SEC_IMPL s ptype eatype False True False"

definition section_defs :: "bpf_sec_def list" where
  "section_defs =
    [BPF_PROG_SEC ''socket'' BPF_PROG_TYPE_SOCKET_FILTER,
     BPF_PROG_SEC ''sk_reuseport'' BPF_PROG_TYPE_SK_REUSEPORT,
     (BPF_PROG_SEC ''kprobe/'' BPF_PROG_TYPE_KPROBE)\<lparr>sd_attach_fn := Some ATTACH_KPROBE\<rparr>,
     BPF_PROG_SEC ''uprobe/'' BPF_PROG_TYPE_KPROBE,
     (BPF_PROG_SEC ''kretprobe/'' BPF_PROG_TYPE_KPROBE)\<lparr>sd_attach_fn := Some ATTACH_KPROBE\<rparr>,
     BPF_PROG_SEC ''uretprobe/'' BPF_PROG_TYPE_KPROBE,
     BPF_PROG_SEC ''classifier'' BPF_PROG_TYPE_SCHED_CLS,
     BPF_PROG_SEC ''action'' BPF_PROG_TYPE_SCHED_ACT,
     (BPF_PROG_SEC ''tracepoint/'' BPF_PROG_TYPE_TRACEPOINT)\<lparr>sd_attach_fn := Some ATTACH_TP\<rparr>,
     (BPF_PROG_SEC ''tp/'' BPF_PROG_TYPE_TRACEPOINT)\<lparr>sd_attach_fn := Some ATTACH_TP\<rparr>,
     (BPF_PROG_SEC ''raw_tracepoint/'' BPF_PROG_TYPE_RAW_TRACEPOINT)\<lparr>sd_attach_fn := Some ATTACH_RAW_TP\<rparr>,
     (BPF_PROG_SEC ''raw_tp/'' BPF_PROG_TYPE_RAW_TRACEPOINT)\<lparr>sd_attach_fn := Some ATTACH_RAW_TP\<rparr>,
     (BPF_PROG_SEC ''tp_btf/'' BPF_PROG_TYPE_TRACING)\<lparr>sd_expected_attach_type := BPF_TRACE_RAW_TP, sd_is_attach_btf := True, sd_attach_fn := Some ATTACH_TRACE\<rparr>,
     (BPF_PROG_SEC ''fentry/'' BPF_PROG_TYPE_TRACING)\<lparr>sd_expected_attach_type := BPF_TRACE_FENTRY, sd_is_attach_btf := True, sd_attach_fn := Some ATTACH_TRACE\<rparr>,
     (BPF_PROG_SEC ''fmod_ret/'' BPF_PROG_TYPE_TRACING)\<lparr>sd_expected_attach_type := BPF_MODIFY_RETURN, sd_is_attach_btf := True, sd_attach_fn := Some ATTACH_TRACE\<rparr>,
     (BPF_PROG_SEC ''fexit/'' BPF_PROG_TYPE_TRACING)\<lparr>sd_expected_attach_type := BPF_TRACE_FEXIT, sd_is_attach_btf := True, sd_attach_fn := Some ATTACH_TRACE\<rparr>,
     (BPF_PROG_SEC ''fentry.s/'' BPF_PROG_TYPE_TRACING)\<lparr>sd_expected_attach_type := BPF_TRACE_FENTRY, sd_is_attach_btf := True, sd_is_sleepable := True, sd_attach_fn := Some ATTACH_TRACE\<rparr>,
     (BPF_PROG_SEC ''fmod_ret.s/'' BPF_PROG_TYPE_TRACING)\<lparr>sd_expected_attach_type := BPF_MODIFY_RETURN, sd_is_attach_btf := True, sd_is_sleepable := True, sd_attach_fn := Some ATTACH_TRACE\<rparr>,
     (BPF_PROG_SEC ''fexit.s/'' BPF_PROG_TYPE_TRACING)\<lparr>sd_expected_attach_type := BPF_TRACE_FEXIT, sd_is_attach_btf := True, sd_is_sleepable := True, sd_attach_fn := Some ATTACH_TRACE\<rparr>,
     (BPF_PROG_SEC ''freplace/'' BPF_PROG_TYPE_EXT)\<lparr>sd_is_attach_btf := True, sd_attach_fn := Some ATTACH_TRACE\<rparr>,
     (BPF_PROG_SEC ''lsm/'' BPF_PROG_TYPE_LSM)\<lparr>sd_expected_attach_type := BPF_LSM_MAC, sd_is_attach_btf := True, sd_attach_fn := Some ATTACH_LSM\<rparr>,
     (BPF_PROG_SEC ''lsm.s/'' BPF_PROG_TYPE_LSM)\<lparr>sd_expected_attach_type := BPF_LSM_MAC, sd_is_attach_btf := True, sd_is_sleepable := True, sd_attach_fn := Some ATTACH_LSM\<rparr>,
     (BPF_PROG_SEC ''iter/'' BPF_PROG_TYPE_TRACING)\<lparr>sd_expected_attach_type := BPF_TRACE_ITER, sd_is_attach_btf := True, sd_attach_fn := Some ATTACH_ITER\<rparr>,
     BPF_EAPROG_SEC ''xdp_devmap/'' BPF_PROG_TYPE_XDP BPF_XDP_DEVMAP,
     BPF_EAPROG_SEC ''xdp_cpumap/'' BPF_PROG_TYPE_XDP BPF_XDP_CPUMAP,
     BPF_APROG_SEC ''xdp'' BPF_PROG_TYPE_XDP BPF_XDP,
     BPF_PROG_SEC ''perf_event'' BPF_PROG_TYPE_PERF_EVENT,
     BPF_PROG_SEC ''lwt_in'' BPF_PROG_TYPE_LWT_IN,
     BPF_PROG_SEC ''lwt_out'' BPF_PROG_TYPE_LWT_OUT,
     BPF_PROG_SEC ''lwt_xmit'' BPF_PROG_TYPE_LWT_XMIT,
     BPF_PROG_SEC ''lwt_seg6local'' BPF_PROG_TYPE_LWT_SEG6LOCAL,
     BPF_APROG_SEC ''cgroup_skb/ingress'' BPF_PROG_TYPE_CGROUP_SKB BPF_CGROUP_INET_INGRESS,
     BPF_APROG_SEC ''cgroup_skb/egress'' BPF_PROG_TYPE_CGROUP_SKB BPF_CGROUP_INET_EGRESS,
     BPF_PROG_SEC ''cgroup/skb'' BPF_PROG_TYPE_CGROUP_SKB,
     BPF_EAPROG_SEC ''cgroup/sock_create'' BPF_PROG_TYPE_CGROUP_SOCK BPF_CGROUP_INET_SOCK_CREATE,
     BPF_EAPROG_SEC ''cgroup/sock_release'' BPF_PROG_TYPE_CGROUP_SOCK BPF_CGROUP_INET_SOCK_RELEASE,
     BPF_APROG_SEC ''cgroup/sock'' BPF_PROG_TYPE_CGROUP_SOCK BPF_CGROUP_INET_SOCK_CREATE,
     BPF_EAPROG_SEC ''cgroup/post_bind4'' BPF_PROG_TYPE_CGROUP_SOCK BPF_CGROUP_INET4_POST_BIND,
     BPF_EAPROG_SEC ''cgroup/post_bind6'' BPF_PROG_TYPE_CGROUP_SOCK BPF_CGROUP_INET6_POST_BIND,
     BPF_APROG_SEC ''cgroup/dev'' BPF_PROG_TYPE_CGROUP_DEVICE BPF_CGROUP_DEVICE,
     BPF_APROG_SEC ''sockops'' BPF_PROG_TYPE_SOCK_OPS BPF_CGROUP_SOCK_OPS,
     BPF_APROG_SEC ''sk_skb/stream_parser'' BPF_PROG_TYPE_SK_SKB BPF_SK_SKB_STREAM_PARSER,
     BPF_APROG_SEC ''sk_skb/stream_verdict'' BPF_PROG_TYPE_SK_SKB BPF_SK_SKB_STREAM_VERDICT,
     BPF_PROG_SEC ''sk_skb'' BPF_PROG_TYPE_SK_SKB,
     BPF_APROG_SEC ''sk_msg'' BPF_PROG_TYPE_SK_MSG BPF_SK_MSG_VERDICT,
     BPF_APROG_SEC ''lirc_mode2'' BPF_PROG_TYPE_LIRC_MODE2 BPF_LIRC_MODE2,
     BPF_APROG_SEC ''flow_dissector'' BPF_PROG_TYPE_FLOW_DISSECTOR BPF_FLOW_DISSECTOR,
     BPF_EAPROG_SEC ''cgroup/bind4'' BPF_PROG_TYPE_CGROUP_SOCK_ADDR BPF_CGROUP_INET4_BIND,
     BPF_EAPROG_SEC ''cgroup/bind6'' BPF_PROG_TYPE_CGROUP_SOCK_ADDR BPF_CGROUP_INET6_BIND,
     BPF_EAPROG_SEC ''cgroup/connect4'' BPF_PROG_TYPE_CGROUP_SOCK_ADDR BPF_CGROUP_INET4_CONNECT,
     BPF_EAPROG_SEC ''cgroup/connect6'' BPF_PROG_TYPE_CGROUP_SOCK_ADDR BPF_CGROUP_INET6_CONNECT,
     BPF_EAPROG_SEC ''cgroup/sendmsg4'' BPF_PROG_TYPE_CGROUP_SOCK_ADDR BPF_CGROUP_UDP4_SENDMSG,
     BPF_EAPROG_SEC ''cgroup/sendmsg6'' BPF_PROG_TYPE_CGROUP_SOCK_ADDR BPF_CGROUP_UDP6_SENDMSG,
     BPF_EAPROG_SEC ''cgroup/recvmsg4'' BPF_PROG_TYPE_CGROUP_SOCK_ADDR BPF_CGROUP_UDP4_RECVMSG,
     BPF_EAPROG_SEC ''cgroup/recvmsg6'' BPF_PROG_TYPE_CGROUP_SOCK_ADDR BPF_CGROUP_UDP6_RECVMSG,
     BPF_EAPROG_SEC ''cgroup/getpeername4'' BPF_PROG_TYPE_CGROUP_SOCK_ADDR BPF_CGROUP_INET4_GETPEERNAME,
     BPF_EAPROG_SEC ''cgroup/getpeername6'' BPF_PROG_TYPE_CGROUP_SOCK_ADDR BPF_CGROUP_INET6_GETPEERNAME,
     BPF_EAPROG_SEC ''cgroup/getsockname4'' BPF_PROG_TYPE_CGROUP_SOCK_ADDR BPF_CGROUP_INET4_GETSOCKNAME,
     BPF_EAPROG_SEC ''cgroup/getsockname6'' BPF_PROG_TYPE_CGROUP_SOCK_ADDR BPF_CGROUP_INET6_GETSOCKNAME,
     BPF_EAPROG_SEC ''cgroup/sysctl'' BPF_PROG_TYPE_CGROUP_SYSCTL BPF_CGROUP_SYSCTL,
     BPF_EAPROG_SEC ''cgroup/getsockopt'' BPF_PROG_TYPE_CGROUP_SOCKOPT BPF_CGROUP_GETSOCKOPT,
     BPF_EAPROG_SEC ''cgroup/setsockopt'' BPF_PROG_TYPE_CGROUP_SOCKOPT BPF_CGROUP_SETSOCKOPT,
     BPF_PROG_SEC ''struct_ops'' BPF_PROG_TYPE_STRUCT_OPS,
     BPF_EAPROG_SEC ''sk_lookup/'' BPF_PROG_TYPE_SK_LOOKUP BPF_SK_LOOKUP]"

definition find_sec_def :: "string \<Rightarrow> bpf_sec_def option" where
  "find_sec_def sec_name = List.find (\<lambda>d. str_prefix (sd_sec d) sec_name) section_defs"

text \<open>\<open>libbpf_prog_type_by_name\<close> returns the program type and the expected attach type.\<close>

definition libbpf_prog_type_by_name :: "string option \<Rightarrow> (nat \<times> nat) result" where
  "libbpf_prog_type_by_name name =
     (case name of
        None \<Rightarrow> Inl EINVAL
      | Some n \<Rightarrow> (case find_sec_def n of
           Some d \<Rightarrow> Inr (sd_prog_type d, sd_expected_attach_type d)
         | None \<Rightarrow> Inl ESRCH))"

lemmas sec_macros = BPF_PROG_SEC_def BPF_APROG_SEC_def BPF_EAPROG_SEC_def BPF_PROG_SEC_IMPL_def

lemma section_defs_order: "sorted_wrt (\<lambda>a b. \<not> str_prefix (sd_sec a) (sd_sec b)) section_defs"
  by code_simp

lemma find_ordered:
  "sorted_wrt (\<lambda>a b. \<not> str_prefix (sd_sec a) (sd_sec b)) ds \<Longrightarrow> d \<in> set ds \<Longrightarrow>
     List.find (\<lambda>e. str_prefix (sd_sec e) (sd_sec d)) ds = Some d"
  by (induction ds) (auto simp: str_prefix_def)

lemma find_sec_def_Some: "find_sec_def n = Some d \<Longrightarrow> d \<in> set section_defs \<and> str_prefix (sd_sec d) n"
  by (auto simp: find_sec_def_def find_Some_iff)

text \<open>No entry of the table is shadowed by a shorter one before it: the name of every entry finds that
  entry, and a name finds the first entry that is a prefix of it, so that \<open>libbpf_prog_type_by_name\<close>
  fails exactly when no entry is.\<close>

theorem section_defs_reachable:
  "(\<forall>d \<in> set section_defs. find_sec_def (sd_sec d) = Some d) \<and>
   (libbpf_prog_type_by_name (Some n) = Inl ESRCH \<longleftrightarrow> (\<forall>d \<in> set section_defs. \<not> str_prefix (sd_sec d) n))"
proof
  show "\<forall>d \<in> set section_defs. find_sec_def (sd_sec d) = Some d"
    using find_ordered [OF section_defs_order] by (simp add: find_sec_def_def)
  show "libbpf_prog_type_by_name (Some n) = Inl ESRCH \<longleftrightarrow> (\<forall>d \<in> set section_defs. \<not> str_prefix (sd_sec d) n)"
    by (auto simp: libbpf_prog_type_by_name_def find_None_iff find_sec_def_def [symmetric] dest!: find_sec_def_Some split: option.splits)
      (simp add: find_sec_def_def find_None_iff)
qed

theorem section_defs_reachable_witness:
  "libbpf_prog_type_by_name (Some ''foo'') = Inl ESRCH"
  using section_defs_reachable [of "''foo''"] by (simp add: section_defs_def sec_macros str_prefix_def)

end
