(* ===== verification/Relocs.thy ===== *)
theory Relocs
  imports Elf_Collect Sec_Defs
begin

text \<open>
  Relocations of programs (\<^verbatim>\<open>libbpf.c\<close>): recording the relocation entries of an ELF section as
  descriptors of the programs whose instructions they patch, and patching the references to maps, global
  data and externs.

  \<open>junk\<close> is what the memory of a new descriptor holds before it is filled: \<^verbatim>\<open>realloc\<close> does not clear it.
  A descriptor refers to its instruction, map and extern by index.
\<close>

subsection \<open>Recording a relocation\<close>

definition fail :: "errno \<Rightarrow> 'a result" where "fail e = Inl e"

definition find_map_at :: "bpf_object \<Rightarrow> libbpf_map_type \<Rightarrow> gelf_sym \<Rightarrow> nat option" where
  "find_map_at obj type sy =
     find_index (\<lambda>m. m_libbpf_type m = type \<and> m_sec_idx m = int (st_shndx sy) \<and> m_sec_offset m = st_value sy) (maps obj)"

definition find_map_of_type :: "bpf_object \<Rightarrow> libbpf_map_type \<Rightarrow> nat option" where
  "find_map_of_type obj type = find_index (\<lambda>m. m_libbpf_type m = type) (maps obj)"

definition record_call :: "bpf_object \<Rightarrow> reloc_desc \<Rightarrow> bpf_insn \<Rightarrow> nat \<Rightarrow> gelf_sym \<Rightarrow> reloc_desc result" where
  "record_call obj desc insn insn_idx sy =
     (if src_reg insn \<noteq> BPF_PSEUDO_CALL then fail LIBBPF_ERRNO__RELOC
      else if st_shndx sy = 0 \<or> int (st_shndx sy) \<noteq> text_shndx (efile obj) then fail LIBBPF_ERRNO__RELOC
      else if st_value sy mod BPF_INSN_SZ \<noteq> 0 then fail LIBBPF_ERRNO__RELOC
      else Inr (desc\<lparr>rd_type := RELO_CALL, rd_insn_idx := s32 insn_idx, rd_sym_off := s32 (st_value sy)\<rparr>))"

definition record_extern :: "bpf_object \<Rightarrow> reloc_desc \<Rightarrow> nat \<Rightarrow> gelf_rel \<Rightarrow> reloc_desc result" where
  "record_extern obj desc insn_idx rel =
     (case find_index (\<lambda>ext. ext_sym_idx ext = s32 (GELF_R_SYM (r_info rel))) (externs obj) of
        None \<Rightarrow> fail LIBBPF_ERRNO__RELOC
      | Some i \<Rightarrow> Inr (desc\<lparr>rd_type := RELO_EXTERN, rd_insn_idx := s32 insn_idx, rd_sym_off := int i\<rparr>))"

definition record_map :: "bpf_object \<Rightarrow> reloc_desc \<Rightarrow> nat \<Rightarrow> gelf_sym \<Rightarrow> reloc_desc result" where
  "record_map obj desc insn_idx sy =
     (if \<not> bpf_object__shndx_is_maps obj (int (st_shndx sy)) then fail LIBBPF_ERRNO__RELOC
      else case find_map_at obj LIBBPF_MAP_UNSPEC sy of
             None \<Rightarrow> fail LIBBPF_ERRNO__RELOC
           | Some map_idx \<Rightarrow> Inr (desc\<lparr>rd_type := RELO_LD64, rd_insn_idx := s32 insn_idx, rd_map_idx := int map_idx,
               rd_sym_off := 0\<rparr>))"

definition record_data :: "bpf_object \<Rightarrow> reloc_desc \<Rightarrow> libbpf_map_type \<Rightarrow> nat \<Rightarrow> gelf_sym \<Rightarrow> reloc_desc result" where
  "record_data obj desc type insn_idx sy =
     (if \<not> bpf_object__shndx_is_data obj (int (st_shndx sy)) then fail LIBBPF_ERRNO__RELOC
      else case find_map_of_type obj type of
             None \<Rightarrow> fail LIBBPF_ERRNO__RELOC
           | Some map_idx \<Rightarrow> Inr (desc\<lparr>rd_type := RELO_DATA, rd_insn_idx := s32 insn_idx, rd_map_idx := int map_idx,
               rd_sym_off := s32 (st_value sy)\<rparr>))"

definition bpf_program__record_reloc :: "bpf_object \<Rightarrow> bpf_program \<Rightarrow> reloc_desc \<Rightarrow> nat \<Rightarrow> gelf_sym \<Rightarrow> gelf_rel \<Rightarrow> reloc_desc result" where
  "bpf_program__record_reloc obj prog desc0 insn_idx sy rel =
     rbind (array_get (insns prog) insn_idx) (\<lambda>insn.
     let desc = desc0\<lparr>rd_processed := False\<rparr> in
     if code insn = BPF_JMP OR BPF_CALL then record_call obj desc insn insn_idx sy
     else if code insn \<noteq> BPF_LD OR BPF_IMM OR BPF_DW then fail LIBBPF_ERRNO__RELOC
     else if sym_is_extern sy then record_extern obj desc insn_idx rel
     else if st_shndx sy = 0 \<or> st_shndx sy \<ge> SHN_LORESERVE then fail LIBBPF_ERRNO__RELOC
     else let type = bpf_object__section_to_libbpf_map_type obj (int (st_shndx sy)) in
          if type = LIBBPF_MAP_UNSPEC then record_map obj desc insn_idx sy
          else record_data obj desc type insn_idx sy)"

subsection \<open>The relocation entries of a section of code\<close>

definition sizeof_reloc_desc :: nat where "sizeof_reloc_desc = 20"

definition add_reloc :: "bpf_object \<Rightarrow> nat \<Rightarrow> reloc_desc \<Rightarrow> bpf_object" where
  "add_reloc obj i desc =
     obj\<lparr>programs := (programs obj)[i := (programs obj ! i)\<lparr>p_relocs := p_relocs (programs obj ! i) @ [desc]\<rparr>]\<rparr>"

definition collect_reloc_entry :: "alloc \<Rightarrow> reloc_desc \<Rightarrow> elf \<Rightarrow> elf_data \<Rightarrow> elf_data \<Rightarrow> nat \<Rightarrow> nat \<Rightarrow> bpf_object \<Rightarrow> bpf_object result" where
  "collect_reloc_entry alloc junk e symbols data sec_idx i obj =
     rbind (deref (elf_getrel e data i) LIBBPF_ERRNO__FORMAT) (\<lambda>rel.
     rbind (deref (elf_getsym e symbols (GELF_R_SYM (r_info rel))) LIBBPF_ERRNO__FORMAT) (\<lambda>sy.
     rbind (guard (r_offset rel mod BPF_INSN_SZ = 0) LIBBPF_ERRNO__FORMAT) (\<lambda>_.
     let insn_idx = (r_offset rel div BPF_INSN_SZ) mod 2 ^ 32 in
     rbind (find_prog_by_sec_insn obj sec_idx insn_idx) (\<lambda>found.
     rbind (deref found LIBBPF_ERRNO__RELOC) (\<lambda>pi.
     let prog = programs obj ! pi in
     rbind (guard (libbpf_reallocarray alloc (length (p_relocs prog) + 1) sizeof_reloc_desc) ENOMEM) (\<lambda>_.
     rbind (bpf_program__record_reloc obj prog junk (insn_idx - sec_insn_off prog) sy rel) (\<lambda>desc.
     Inr (add_reloc obj pi desc))))))))"

fun collect_reloc_entries :: "alloc \<Rightarrow> reloc_desc \<Rightarrow> elf \<Rightarrow> elf_data \<Rightarrow> elf_data \<Rightarrow> nat \<Rightarrow> nat list \<Rightarrow> bpf_object \<Rightarrow>
    unit result \<times> bpf_object" where
  "collect_reloc_entries alloc junk e symbols data sec_idx [] obj = (Inr (), obj)"
| "collect_reloc_entries alloc junk e symbols data sec_idx (i # is) obj =
     (case collect_reloc_entry alloc junk e symbols data sec_idx i obj of
        Inl err \<Rightarrow> (Inl err, obj)
      | Inr obj' \<Rightarrow> collect_reloc_entries alloc junk e symbols data sec_idx is obj')"

text \<open>A section with entries of size 0 divides by zero.\<close>

definition nr_rels :: "gelf_shdr \<Rightarrow> nat list result" where
  "nr_rels shdr = (if sh_entsize shdr = 0 then Inl OOB else Inr [0..<nat (s32 (sh_size shdr div sh_entsize shdr))])"

definition bpf_object__collect_prog_relos :: "alloc \<Rightarrow> reloc_desc \<Rightarrow> gelf_shdr \<Rightarrow> elf_data \<Rightarrow> bpf_object \<Rightarrow>
    unit result \<times> bpf_object" where
  "bpf_object__collect_prog_relos alloc junk shdr data obj =
     (case (elf_sec_str obj (sh_name shdr), elf_sec_name obj (elf_sec_by_idx obj (sh_info shdr))) of
        (Some relo_sec_name, Some sec_name) \<Rightarrow>
          (case nr_rels shdr of
             Inl e \<Rightarrow> (Inl e, obj)
           | Inr is \<Rightarrow>
               (case (ef_elf (efile obj), ef_symbols (efile obj)) of
                  (Some e, Some symbols) \<Rightarrow> collect_reloc_entries alloc junk e symbols data (sh_info shdr) is obj
                | _ \<Rightarrow> (if is = [] then Inr () else Inl OOB, obj)))
      | _ \<Rightarrow> (Inl EINVAL, obj))"

definition cmp_relocs :: "reloc_desc \<Rightarrow> reloc_desc \<Rightarrow> int" where
  "cmp_relocs a b =
     (if rd_insn_idx a \<noteq> rd_insn_idx b then (if rd_insn_idx a < rd_insn_idx b then -1 else 1)
      else if rd_type a \<noteq> rd_type b then (if reloc_type_num (rd_type a) < reloc_type_num (rd_type b) then -1 else 1)
      else 0)"

subsection \<open>Patching data references\<close>

definition set_insn :: "nat \<Rightarrow> (bpf_insn \<Rightarrow> bpf_insn) \<Rightarrow> bpf_insn list \<Rightarrow> bpf_insn list result" where
  "set_insn i f is = (if i < length is then Inr (is[i := f (is ! i)]) else Inl OOB)"

definition insn_at :: "bpf_insn list \<Rightarrow> int \<Rightarrow> bpf_insn result" where
  "insn_at is i = (if i < 0 then Inl OOB else array_get is (nat i))"

definition map_fd :: "bpf_object \<Rightarrow> int \<Rightarrow> u32 result" where
  "map_fd obj i = (if i < 0 then Inl OOB else rbind (array_get (maps obj) (nat i)) (\<lambda>m. Inr (of_int (m_fd m))))"

definition relocate_extern :: "bpf_object \<Rightarrow> extern_desc \<Rightarrow> nat \<Rightarrow> bpf_insn list \<Rightarrow> bpf_insn list result" where
  "relocate_extern obj ext i is =
     (if ext_type ext = EXT_KCFG
      then rbind (map_fd obj (kconfig_map_idx obj)) (\<lambda>mfd.
           rbind (set_insn i (\<lambda>insn. insn\<lparr>src_reg := BPF_PSEUDO_MAP_VALUE, imm := mfd\<rparr>) is) (\<lambda>is.
           set_insn (i + 1) (\<lambda>insn. insn\<lparr>imm := of_int (kcfg_data_off ext)\<rparr>) is))
      else if ksym_type_id ext \<noteq> 0
      then set_insn i (\<lambda>insn. insn\<lparr>src_reg := BPF_PSEUDO_BTF_ID, imm := of_int (ksym_vmlinux_btf_id ext)\<rparr>) is
      else rbind (set_insn i (\<lambda>insn. insn\<lparr>imm := ucast (ksym_addr ext)\<rparr>) is) (\<lambda>is.
           set_insn (i + 1) (\<lambda>insn. insn\<lparr>imm := ucast (drop_bit 32 (ksym_addr ext))\<rparr>) is))"

definition relocate_one :: "bpf_object \<Rightarrow> reloc_desc \<Rightarrow> bpf_insn list \<Rightarrow> bpf_insn list result" where
  "relocate_one obj relo is =
     (let i = nat (rd_insn_idx relo) in
      case rd_type relo of
        RELO_LD64 \<Rightarrow>
          rbind (insn_at is (rd_insn_idx relo)) (\<lambda>_.
          rbind (map_fd obj (rd_map_idx relo)) (\<lambda>mfd.
          set_insn i (\<lambda>insn. insn\<lparr>src_reg := BPF_PSEUDO_MAP_FD, imm := mfd\<rparr>) is))
      | RELO_DATA \<Rightarrow>
          rbind (insn_at is (rd_insn_idx relo)) (\<lambda>insn0.
          rbind (set_insn (i + 1) (\<lambda>insn. insn\<lparr>imm := imm insn0 + of_int (rd_sym_off relo)\<rparr>) is) (\<lambda>is.
          rbind (map_fd obj (rd_map_idx relo)) (\<lambda>mfd.
          set_insn i (\<lambda>insn. insn\<lparr>src_reg := BPF_PSEUDO_MAP_VALUE, imm := mfd\<rparr>) is)))
      | RELO_EXTERN \<Rightarrow>
          rbind (insn_at is (rd_insn_idx relo)) (\<lambda>_.
          rbind (if rd_sym_off relo < 0 then Inl OOB else array_get (externs obj) (nat (rd_sym_off relo))) (\<lambda>ext.
          relocate_extern obj ext i is))
      | RELO_CALL \<Rightarrow> Inr is)"

definition is_processed_by_data :: "reloc_desc \<Rightarrow> bool" where
  "is_processed_by_data relo \<longleftrightarrow> rd_type relo \<noteq> RELO_CALL"

fun relocate_data_loop :: "bpf_object \<Rightarrow> reloc_desc list \<Rightarrow> bpf_insn list \<Rightarrow> bpf_insn list result" where
  "relocate_data_loop obj [] is = Inr is"
| "relocate_data_loop obj (relo # relos) is = rbind (relocate_one obj relo is) (relocate_data_loop obj relos)"

text \<open>Every type of relocation is known here, so the error for an unknown type cannot occur.\<close>

definition bpf_object__relocate_data :: "bpf_object \<Rightarrow> bpf_program \<Rightarrow> bpf_program result" where
  "bpf_object__relocate_data obj prog =
     rbind (relocate_data_loop obj (p_relocs prog) (insns prog)) (\<lambda>is.
     Inr (prog\<lparr>insns := is,
               p_relocs := map (\<lambda>r. if is_processed_by_data r then r\<lparr>rd_processed := True\<rparr> else r) (p_relocs prog)\<rparr>))"

end
