(* ===== verification/User_Maps.thy ===== *)
theory User_Maps
  imports Relocs
begin

text \<open>
  The maps an object defines (\<^verbatim>\<open>libbpf.c\<close>): the legacy \<^verbatim>\<open>maps\<close> section, the maps described by BTF types in
  \<^verbatim>\<open>.maps\<close>, the struct_ops maps, and the relocations that fill the slots of map-in-maps and of
  struct_ops. \<open>skip_mods_and_typedefs\<close> follows references without a limit: its model counts steps, and
  a chain longer than the number of types, which must then contain a cycle, is \<open>NONTERM\<close>.
\<close>

subsection \<open>Following types\<close>

fun skip_mods_loop :: "nat \<Rightarrow> btf \<Rightarrow> nat \<Rightarrow> (btf_type \<times> nat) result" where
  "skip_mods_loop fuel b tid =
     rbind (btf__type_by_id b tid) (\<lambda>p. rbind (deref p OOB) (\<lambda>t.
     if btf_is_mod t \<or> btf_is_typedef t
     then (case fuel of 0 \<Rightarrow> Inl NONTERM | Suc n \<Rightarrow> skip_mods_loop n b (unat (ref_type t)))
     else Inr (t, tid)))"

declare skip_mods_loop.simps [simp del]

definition skip_mods_and_typedefs :: "btf \<Rightarrow> nat \<Rightarrow> (btf_type \<times> nat) result" where
  "skip_mods_and_typedefs b tid = skip_mods_loop (btf__get_nr_types b) b tid"

definition resolve_func_ptr :: "btf \<Rightarrow> nat \<Rightarrow> (btf_type \<times> nat) option result" where
  "resolve_func_ptr b tid =
     rbind (skip_mods_and_typedefs b tid) (\<lambda>(t, _).
     if \<not> btf_is_ptr t then Inr None
     else rbind (skip_mods_and_typedefs b (unat (ref_type t))) (\<lambda>(t', res_id).
          Inr (if btf_is_func_proto t' then Some (t', res_id) else None)))"

definition type_at :: "btf \<Rightarrow> nat \<Rightarrow> btf_type result" where
  "type_at b tid = rbind (btf__type_by_id b tid) (\<lambda>p. deref p OOB)"

definition name_at :: "btf \<Rightarrow> u32 \<Rightarrow> string result" where
  "name_at b noff = rbind (btf__name_by_offset b noff) (\<lambda>n. deref n OOB)"

definition get_map_field_int :: "btf \<Rightarrow> btf_member_t \<Rightarrow> u32 option result" where
  "get_map_field_int b m =
     rbind (skip_mods_and_typedefs b (unat (m_type m))) (\<lambda>(t, _).
     if \<not> btf_is_ptr t then Inr None
     else rbind (btf__type_by_id b (unat (ref_type t))) (\<lambda>arr_t.
          case arr_t of
            None \<Rightarrow> Inr None
          | Some a \<Rightarrow> Inr (if btf_is_array a then Some (a_nelems (btf_array a)) else None)))"

subsection \<open>Legacy map definitions\<close>

definition def_of_bytes :: "u8 list \<Rightarrow> bpf_map_def result" where
  "def_of_bytes bs =
     rbind (read_words (take 20 (bs @ replicate 20 0)) 0 5) (\<lambda>ws.
     Inr \<lparr>def_type = ws ! 0, key_size = ws ! 1, value_size = ws ! 2, max_entries = ws ! 3, map_flags = ws ! 4\<rparr>)"

text \<open>
  One symbol of the section. A map that fails is left half-filled in the object. The size of a definition is an
  \<^verbatim>\<open>int\<close>, which a section of 2 GB and more turns negative; the code then takes the branch of the large definitions
  and copies 20 bytes. \<open>def_span\<close> is the number of bytes it reads.
\<close>

definition def_span :: "int \<Rightarrow> nat" where
  "def_span map_def_sz = (if map_def_sz < 0 then 20 else nat map_def_sz)"

definition init_user_map :: "alloc \<Rightarrow> elf_data \<Rightarrow> int \<Rightarrow> gelf_sym \<Rightarrow> bpf_object \<Rightarrow> unit result \<times> bpf_object" where
  "init_user_map alloc data map_def_sz sy obj =
     (case bpf_object__add_map alloc obj of
        Inl e \<Rightarrow> (Inl e, obj)
      | Inr (i, obj1) \<Rightarrow>
          (case elf_sym_str obj1 (st_name sy) of
             None \<Rightarrow> (Inl LIBBPF_ERRNO__FORMAT, obj1)
           | Some map_name \<Rightarrow>
               let obj2 = upd_map i (\<lambda>m. m\<lparr>m_libbpf_type := LIBBPF_MAP_UNSPEC, m_sec_idx := int (st_shndx sy),
                            m_sec_offset := st_value sy\<rparr>) obj1 in
               if nat ((int (st_value sy) + map_def_sz) mod 2 ^ 64) > d_size data then (Inl EINVAL, obj2)
               else if \<not> alloc (length map_name + 1) then (Inl ENOMEM, obj2)
               else let obj3 = upd_map i (\<lambda>m. m\<lparr>m_name := Some map_name\<rparr>) obj2 in
                    (case rbind (data_bytes data) (\<lambda>bs.
                            if st_value sy + def_span map_def_sz \<le> length bs
                            then def_of_bytes (take (def_span map_def_sz) (drop (st_value sy) bs)) else Inl OOB) of
                       Inl e \<Rightarrow> (Inl e, obj3)
                     | Inr d \<Rightarrow> (Inr (), upd_map i (\<lambda>m. m\<lparr>m_def := d\<rparr>) obj3))))"

fun init_user_maps_loop :: "alloc \<Rightarrow> elf_data \<Rightarrow> int \<Rightarrow> gelf_sym list \<Rightarrow> bpf_object \<Rightarrow> unit result \<times> bpf_object" where
  "init_user_maps_loop alloc data n [] obj = (Inr (), obj)"
| "init_user_maps_loop alloc data n (sy # syms) obj =
     and_then (init_user_map alloc data n sy obj) (init_user_maps_loop alloc data n syms)"

text \<open>The symbols of the \<^verbatim>\<open>maps\<close> section, in the order of the symbol table.\<close>

definition map_syms :: "bpf_object \<Rightarrow> elf \<Rightarrow> elf_data \<Rightarrow> gelf_sym list" where
  "map_syms obj e symbols =
     filter (\<lambda>sy. int (st_shndx sy) = maps_shndx (efile obj)) (List.map_filter (elf_getsym e symbols) [0..<nat (s32 (d_size symbols div 24))])"

definition bpf_object__init_user_maps :: "alloc \<Rightarrow> bpf_object \<Rightarrow> unit result \<times> bpf_object" where
  "bpf_object__init_user_maps alloc obj =
     (if maps_shndx (efile obj) < 0 then (Inr (), obj)
      else case (ef_symbols (efile obj), ef_elf (efile obj), elf_sec_data obj (elf_sec_by_idx obj (nat (maps_shndx (efile obj))))) of
             (Some symbols, Some e, Some data) \<Rightarrow>
               let syms = map_syms obj e symbols; nr_maps = length syms in
               if d_size data = 0 \<or> nr_maps = 0 \<or> d_size data mod nr_maps \<noteq> 0 then (Inl EINVAL, obj)
               else init_user_maps_loop alloc data (s32 (d_size data div nr_maps)) syms obj
           | _ \<Rightarrow> (Inl EINVAL, obj))"

subsection \<open>Map definitions in BTF\<close>

definition PATH_MAX :: nat where "PATH_MAX = 4096"
definition BPF_MAP_TYPE_UNSPEC :: u32 where "BPF_MAP_TYPE_UNSPEC = 0"
definition BPF_MAP_TYPE_STRUCT_OPS :: u32 where "BPF_MAP_TYPE_STRUCT_OPS = 26"
definition LIBBPF_PIN_NONE :: u32 where "LIBBPF_PIN_NONE = 0"
definition LIBBPF_PIN_BY_NAME :: u32 where "LIBBPF_PIN_BY_NAME = 1"

definition bpf_map__is_struct_ops :: "bpf_map \<Rightarrow> bool" where
  "bpf_map__is_struct_ops m \<longleftrightarrow> def_type (m_def m) = BPF_MAP_TYPE_STRUCT_OPS"

definition build_map_pin_path :: "alloc \<Rightarrow> bpf_map_core \<Rightarrow> string option \<Rightarrow> bpf_map_core result" where
  "build_map_pin_path alloc m path =
     rbind (deref (m_name m) OOB) (\<lambda>nm.
     let buf = (case path of None \<Rightarrow> ''/sys/fs/bpf'' | Some p \<Rightarrow> p) @ ''/'' @ nm in
     rbind (guard (length buf < PATH_MAX) ENAMETOOLONG) (\<lambda>_.
     rbind (guard (alloc (length buf + 1)) ENOMEM) (\<lambda>_.
     Inr (m\<lparr>m_pin_path := Some buf\<rparr>))))"

definition set_def :: "(bpf_map_def \<Rightarrow> bpf_map_def) \<Rightarrow> bpf_map_core \<Rightarrow> bpf_map_core" where
  "set_def f m = m\<lparr>m_def := f (m_def m)\<rparr>"

text \<open>The size fields may be given twice, but then agree.\<close>

definition set_key_size :: "u32 \<Rightarrow> nat \<Rightarrow> bpf_map_core \<Rightarrow> bpf_map_core result" where
  "set_key_size w n m =
     (if key_size (m_def m) \<noteq> 0 \<and> unat (key_size (m_def m)) \<noteq> n then Inl EINVAL
      else Inr (set_def (\<lambda>d. d\<lparr>key_size := w\<rparr>) m))"

definition set_value_size :: "u32 \<Rightarrow> nat \<Rightarrow> bpf_map_core \<Rightarrow> bpf_map_core result" where
  "set_value_size w n m =
     (if value_size (m_def m) \<noteq> 0 \<and> unat (value_size (m_def m)) \<noteq> n then Inl EINVAL
      else Inr (set_def (\<lambda>d. d\<lparr>value_size := w\<rparr>) m))"

definition int_field :: "btf \<Rightarrow> btf_member_t \<Rightarrow> (u32 \<Rightarrow> bpf_map_core result) \<Rightarrow> bpf_map_core result" where
  "int_field b mem f = rbind (get_map_field_int b mem) (\<lambda>v. case v of None \<Rightarrow> Inl EINVAL | Some w \<Rightarrow> f w)"

definition type_field :: "btf \<Rightarrow> btf_member_t \<Rightarrow> (btf_type \<Rightarrow> nat \<Rightarrow> bpf_map_core result) \<Rightarrow> bpf_map_core result" where
  "type_field b mem f =
     rbind (btf__type_by_id b (unat (m_type mem))) (\<lambda>p.
     case p of
       None \<Rightarrow> Inl EINVAL
     | Some t \<Rightarrow>
         if \<not> btf_is_ptr t then Inl EINVAL
         else rbind (fst (btf__resolve_size b (unat (ref_type t)))) (f t))"

definition pinning_field :: "alloc \<Rightarrow> btf \<Rightarrow> bool \<Rightarrow> string option \<Rightarrow> btf_member_t \<Rightarrow> bpf_map_core \<Rightarrow> bpf_map_core result" where
  "pinning_field alloc b is_inner pin_root_path mem m =
     (if is_inner then Inl EINVAL
      else int_field b mem (\<lambda>val.
        if val \<noteq> LIBBPF_PIN_NONE \<and> val \<noteq> LIBBPF_PIN_BY_NAME then Inl EINVAL
        else if val = LIBBPF_PIN_BY_NAME then build_map_pin_path alloc m pin_root_path
        else Inr m))"

text \<open>Every field but \<open>values\<close>.\<close>

definition parse_field :: "alloc \<Rightarrow> btf \<Rightarrow> bool \<Rightarrow> bool \<Rightarrow> string option \<Rightarrow> string \<Rightarrow> btf_member_t \<Rightarrow> bpf_map_core \<Rightarrow> bpf_map_core result" where
  "parse_field alloc b strict is_inner pin_root_path name mem m =
     (if name = ''type'' then int_field b mem (\<lambda>w. Inr (set_def (\<lambda>d. d\<lparr>def_type := w\<rparr>) m))
      else if name = ''max_entries'' then int_field b mem (\<lambda>w. Inr (set_def (\<lambda>d. d\<lparr>max_entries := w\<rparr>) m))
      else if name = ''map_flags'' then int_field b mem (\<lambda>w. Inr (set_def (\<lambda>d. d\<lparr>map_flags := w\<rparr>) m))
      else if name = ''numa_node'' then int_field b mem (\<lambda>w. Inr (m\<lparr>m_numa_node := w\<rparr>))
      else if name = ''key_size'' then int_field b mem (\<lambda>w. set_key_size w (unat w) m)
      else if name = ''key''
      then type_field b mem (\<lambda>t n. rbind (set_key_size (of_nat n) n m) (\<lambda>m. Inr (m\<lparr>m_btf_key_type_id := ref_type t\<rparr>)))
      else if name = ''value_size'' then int_field b mem (\<lambda>w. set_value_size w (unat w) m)
      else if name = ''value''
      then type_field b mem (\<lambda>t n. rbind (set_value_size (of_nat n) n m) (\<lambda>m. Inr (m\<lparr>m_btf_value_type_id := ref_type t\<rparr>)))
      else if name = ''pinning'' then pinning_field alloc b is_inner pin_root_path mem m
      else if strict then Inl ENOTSUP
      else Inr m)"

text \<open>The struct behind \<open>values\<close>: a zero-sized array of pointers to structs.\<close>

definition inner_def_type :: "btf \<Rightarrow> btf_member_t \<Rightarrow> btf_type result" where
  "inner_def_type b mem =
     rbind (btf__type_by_id b (unat (m_type mem))) (\<lambda>p.
     case p of
       None \<Rightarrow> Inl EINVAL
     | Some t \<Rightarrow>
         if \<not> btf_is_array t \<or> a_nelems (btf_array t) \<noteq> 0 then Inl EINVAL
         else rbind (skip_mods_and_typedefs b (unat (a_type (btf_array t)))) (\<lambda>(t1, _).
              if \<not> btf_is_ptr t1 then Inl EINVAL
              else rbind (skip_mods_and_typedefs b (unat (ref_type t1))) (\<lambda>(t2, _).
                   if \<not> btf_is_struct t2 then Inl EINVAL else Inr t2)))"

fun parse_inner_fields :: "alloc \<Rightarrow> btf \<Rightarrow> bool \<Rightarrow> btf_member_t list \<Rightarrow> bpf_map_core \<Rightarrow> bpf_map_core result" where
  "parse_inner_fields alloc b strict [] m = Inr m"
| "parse_inner_fields alloc b strict (mem # mems) m =
     rbind (btf__name_by_offset b (m_name_off mem)) (\<lambda>nm.
     rbind (deref nm EINVAL) (\<lambda>name.
     if name = ''values'' then Inl ENOTSUP
     else rbind (parse_field alloc b strict True None name mem m) (parse_inner_fields alloc b strict mems)))"

definition check_map_type :: "bpf_map_core \<Rightarrow> bpf_map_core result" where
  "check_map_type m = (if def_type (m_def m) = BPF_MAP_TYPE_UNSPEC then Inl EINVAL else Inr m)"

definition core_new :: "bpf_map_core" where
  "core_new = \<lparr>m_name = None, m_fd = 0, m_sec_idx = 0, m_sec_offset = 0, m_inner_map_fd = 0,
     m_def = \<lparr>def_type = 0, key_size = 0, value_size = 0, max_entries = 0, map_flags = 0\<rparr>,
     m_libbpf_type = LIBBPF_MAP_UNSPEC, m_mmaped = None, m_numa_node = 0, m_btf_var_idx = 0,
     m_btf_key_type_id = 0, m_btf_value_type_id = 0, m_pin_path = None\<rparr>"

definition parse_values :: "alloc \<Rightarrow> bpf_object \<Rightarrow> btf \<Rightarrow> bool \<Rightarrow> bool \<Rightarrow> btf_member_t \<Rightarrow> bpf_map_core \<Rightarrow>
    (bpf_map_core \<times> bpf_map_core) result" where
  "parse_values alloc obj b strict is_last mem m =
     rbind (guard is_last EINVAL) (\<lambda>_.
     rbind (guard (bpf_map_type__is_map_in_map (def_type (m_def m))) ENOTSUP) (\<lambda>_.
     rbind (guard (value_size (m_def m) = 0 \<or> value_size (m_def m) = 4) EINVAL) (\<lambda>_.
     let m1 = set_def (\<lambda>d. d\<lparr>value_size := 4\<rparr>) m in
     rbind (inner_def_type b mem) (\<lambda>t.
     rbind (guard (alloc sizeof_bpf_map) ENOMEM) (\<lambda>_.
     rbind (deref (m_name m) OOB) (\<lambda>nm.
     rbind (guard (alloc (length nm + 8)) ENOMEM) (\<lambda>_.
     rbind (parse_inner_fields alloc b strict (btf_members t)
              (core_new\<lparr>m_sec_idx := btf_maps_shndx (efile obj), m_name := Some (nm @ ''.inner'')\<rparr>)) (\<lambda>inner.
     rbind (check_map_type inner) (\<lambda>inner.
     Inr (m1, inner))))))))))"

text \<open>\<open>parse_btf_map_def\<close> for a map that is not an inner map; the state is the map and its inner map.\<close>

fun parse_fields :: "alloc \<Rightarrow> bpf_object \<Rightarrow> btf \<Rightarrow> bool \<Rightarrow> string option \<Rightarrow> btf_member_t list \<Rightarrow>
    bpf_map_core \<times> bpf_map_core option \<Rightarrow> (bpf_map_core \<times> bpf_map_core option) result" where
  "parse_fields alloc obj b strict pin_root_path [] st = Inr st"
| "parse_fields alloc obj b strict pin_root_path (mem # mems) st =
     rbind (btf__name_by_offset b (m_name_off mem)) (\<lambda>nm.
     rbind (deref nm EINVAL) (\<lambda>name.
     rbind (if name = ''values''
            then rbind (parse_values alloc obj b strict (mems = []) mem (fst st)) (\<lambda>(m, inner). Inr (m, Some inner))
            else rbind (parse_field alloc b strict False pin_root_path name mem (fst st)) (\<lambda>m. Inr (m, snd st)))
       (parse_fields alloc obj b strict pin_root_path mems)))"

definition core_of :: "bpf_map \<Rightarrow> bpf_map_core" where
  "core_of m = bpf_map_core.truncate m"

definition with_core :: "bpf_map_core \<Rightarrow> bpf_map_core option \<Rightarrow> bpf_map \<Rightarrow> bpf_map" where
  "with_core c inner m =
     bpf_map_core.extend c \<lparr>m_inner_map = inner, m_init_slots = m_init_slots m, m_st_ops = m_st_ops m\<rparr>"

definition parse_btf_map_def :: "alloc \<Rightarrow> bpf_object \<Rightarrow> btf \<Rightarrow> bpf_map \<Rightarrow> btf_type \<Rightarrow> bool \<Rightarrow> string option \<Rightarrow> bpf_map result" where
  "parse_btf_map_def alloc obj b m def strict pin_root_path =
     rbind (parse_fields alloc obj b strict pin_root_path (btf_members def) (core_of m, None)) (\<lambda>(c, inner).
     rbind (check_map_type c) (\<lambda>c. Inr (with_core c inner m)))"

subsection \<open>The maps of \<^verbatim>\<open>.maps\<close>\<close>

text \<open>
  \<open>var_extra\<close> points behind the variable's type and its linkage is read only after the kind is known. The
  section info behind \<open>sec\<close> has as many entries as its count says.
\<close>

definition init_user_btf_map_type :: "bpf_object \<Rightarrow> btf \<Rightarrow> btf_var_secinfo_t \<Rightarrow> elf_data \<Rightarrow> (string \<times> btf_type) result" where
  "init_user_btf_map_type obj b vi data =
     rbind (type_at b (unat (v_type vi))) (\<lambda>var.
     rbind (btf__name_by_offset b (name_off var)) (\<lambda>nm.
     rbind (deref nm EINVAL) (\<lambda>map_name.
     rbind (guard (map_name \<noteq> []) EINVAL) (\<lambda>_.
     rbind (guard (\<not> unat (v_offset vi) + unat (v_size vi) > d_size data) EINVAL) (\<lambda>_.
     rbind (guard (btf_is_var var) EINVAL) (\<lambda>_.
     rbind (guard (btf_var var = 1 \<or> btf_var var = 0) ENOTSUP) (\<lambda>_.
     rbind (skip_mods_and_typedefs b (unat (ref_type var))) (\<lambda>(def, _).
     rbind (guard (btf_is_struct def) EINVAL) (\<lambda>_.
     rbind (guard (\<not> type_size def > v_size vi) EINVAL) (\<lambda>_.
     Inr (map_name, def)))))))))))"

definition bpf_object__init_user_btf_map :: "alloc \<Rightarrow> btf \<Rightarrow> btf_type \<Rightarrow> nat \<Rightarrow> elf_data \<Rightarrow> bool \<Rightarrow> string option \<Rightarrow>
    bpf_object \<Rightarrow> unit result \<times> bpf_object" where
  "bpf_object__init_user_btf_map alloc b sec var_idx data strict pin_root_path obj =
     (let vi = btf_var_secinfos sec ! var_idx in
      case init_user_btf_map_type obj b vi data of
        Inl e \<Rightarrow> (Inl e, obj)
      | Inr (map_name, def) \<Rightarrow>
          (case bpf_object__add_map alloc obj of
             Inl e \<Rightarrow> (Inl e, obj)
           | Inr (i, obj1) \<Rightarrow>
               if \<not> alloc (length map_name + 1) then (Inl ENOMEM, obj1)
               else let obj2 = upd_map i (\<lambda>m. m\<lparr>m_name := Some map_name, m_libbpf_type := LIBBPF_MAP_UNSPEC,
                          m_def := (m_def m)\<lparr>def_type := BPF_MAP_TYPE_UNSPEC\<rparr>, m_sec_idx := btf_maps_shndx (efile obj),
                          m_sec_offset := unat (v_offset vi), m_btf_var_idx := var_idx\<rparr>) obj1 in
                    (case parse_btf_map_def alloc obj2 b (maps obj2 ! i) def strict pin_root_path of
                       Inl e \<Rightarrow> (Inl e, obj2)
                     | Inr m \<Rightarrow> (Inr (), upd_map i (\<lambda>_. m) obj2))))"

fun init_user_btf_maps_loop :: "alloc \<Rightarrow> btf \<Rightarrow> btf_type \<Rightarrow> elf_data \<Rightarrow> bool \<Rightarrow> string option \<Rightarrow> nat list \<Rightarrow> bpf_object \<Rightarrow>
    unit result \<times> bpf_object" where
  "init_user_btf_maps_loop alloc b sec data strict pin [] obj = (Inr (), obj)"
| "init_user_btf_maps_loop alloc b sec data strict pin (i # is) obj =
     and_then (bpf_object__init_user_btf_map alloc b sec i data strict pin obj)
       (init_user_btf_maps_loop alloc b sec data strict pin is)"

fun find_datasec :: "btf \<Rightarrow> string \<Rightarrow> nat list \<Rightarrow> (nat \<times> btf_type) option result" where
  "find_datasec b name [] = Inr None"
| "find_datasec b name (i # is) =
     rbind (type_at b i) (\<lambda>t.
     if \<not> btf_is_datasec t then find_datasec b name is
     else rbind (name_at b (name_off t)) (\<lambda>nm.
          if nm = name then Inr (Some (i, t)) else find_datasec b name is))"

definition bpf_object__init_user_btf_maps :: "alloc \<Rightarrow> bool \<Rightarrow> string option \<Rightarrow> bpf_object \<Rightarrow> unit result \<times> bpf_object" where
  "bpf_object__init_user_btf_maps alloc strict pin_root_path obj =
     (if btf_maps_shndx (efile obj) < 0 then (Inr (), obj)
      else case elf_sec_data obj (elf_sec_by_idx obj (nat (btf_maps_shndx (efile obj)))) of
             None \<Rightarrow> (Inl EINVAL, obj)
           | Some data \<Rightarrow>
               (case obj_btf obj of
                  None \<Rightarrow> (Inl OOB, obj)
                | Some b \<Rightarrow>
                    (case find_datasec b ''.maps'' [1..<btf__get_nr_types b + 1] of
                       Inl e \<Rightarrow> (Inl e, obj)
                     | Inr None \<Rightarrow> (Inl ENOENT, obj)
                     | Inr (Some (i, sec)) \<Rightarrow>
                         init_user_btf_maps_loop alloc b sec data strict pin_root_path [0..<btf_vlen sec]
                           (upd_efile (\<lambda>ef. ef\<lparr>btf_maps_sec_btf_id := i\<rparr>) obj))))"

subsection \<open>Struct_ops maps\<close>

definition init_struct_ops_type :: "btf \<Rightarrow> btf_var_secinfo_t \<Rightarrow> (string option \<times> string \<times> nat \<times> btf_type) result" where
  "init_struct_ops_type b vsi =
     rbind (type_at b (unat (v_type vsi))) (\<lambda>var.
     rbind (btf__name_by_offset b (name_off var)) (\<lambda>var_name.
     rbind (case btf__resolve_type b (unat (v_type vsi)) of Inl e \<Rightarrow> Inl (if e = OOB then OOB else EINVAL) | Inr i \<Rightarrow> Inr i) (\<lambda>type_id.
     rbind (type_at b type_id) (\<lambda>type.
     rbind (name_at b (name_off type)) (\<lambda>tname.
     rbind (guard (tname \<noteq> []) ENOTSUP) (\<lambda>_.
     rbind (guard (btf_is_struct type) EINVAL) (\<lambda>_.
     Inr (var_name, tname, type_id, type))))))))"

definition init_struct_ops_map :: "alloc \<Rightarrow> btf \<Rightarrow> btf_var_secinfo_t \<Rightarrow> bpf_object \<Rightarrow> unit result \<times> bpf_object" where
  "init_struct_ops_map alloc b vsi obj =
     (case init_struct_ops_type b vsi of
        Inl e \<Rightarrow> (Inl e, obj)
      | Inr (var_name, tname, type_id, type) \<Rightarrow>
          (case bpf_object__add_map alloc obj of
             Inl e \<Rightarrow> (Inl e, obj)
           | Inr (i, obj1) \<Rightarrow>
               let obj2 = upd_map i (\<lambda>m. m\<lparr>m_sec_idx := st_ops_shndx (efile obj), m_sec_offset := unat (v_offset vsi)\<rparr>) obj1 in
               (case var_name of
                  None \<Rightarrow> (Inl OOB, obj2)
                | Some nm \<Rightarrow>
                    if \<not> alloc (length nm + 1) then (Inl ENOMEM, obj2)
                    else let obj3 = upd_map i (\<lambda>m. m\<lparr>m_name := Some nm, m_def := \<lparr>def_type = BPF_MAP_TYPE_STRUCT_OPS, key_size = 4,
                               value_size = type_size type, max_entries = 1, map_flags = map_flags (m_def m)\<rparr>\<rparr>) obj2;
                             vlen = btf_vlen type; n = unat (type_size type) in
                         if \<not> (alloc 48 \<and> alloc n \<and> alloc (8 * vlen) \<and> alloc (4 * vlen)) then (Inl ENOMEM, obj3)
                         else (case ef_st_ops_data (efile obj) of
                                 None \<Rightarrow> (Inl OOB, obj3)
                               | Some d \<Rightarrow>
                                   if unat (v_offset vsi + type_size type) > d_size d then (Inl EINVAL, obj3)
                                   else (case data_bytes d of
                                           Inl e \<Rightarrow> (Inl e, obj3)
                                         | Inr bs \<Rightarrow>
                                             if unat (v_offset vsi) + n > length bs then (Inl OOB, obj3)
                                             else (Inr (), upd_map i (\<lambda>m. m\<lparr>m_st_ops := Some
                                                    \<lparr>st_tname = tname, st_type = type, st_type_id = type_id,
                                                     st_data = take n (drop (unat (v_offset vsi)) bs),
                                                     st_progs = replicate vlen None\<rparr>\<rparr>) obj3))))))"

fun init_struct_ops_loop :: "alloc \<Rightarrow> btf \<Rightarrow> btf_var_secinfo_t list \<Rightarrow> bpf_object \<Rightarrow> unit result \<times> bpf_object" where
  "init_struct_ops_loop alloc b [] obj = (Inr (), obj)"
| "init_struct_ops_loop alloc b (v # vs) obj = and_then (init_struct_ops_map alloc b v obj) (init_struct_ops_loop alloc b vs)"

definition bpf_object__init_struct_ops_maps :: "alloc \<Rightarrow> bpf_object \<Rightarrow> unit result \<times> bpf_object" where
  "bpf_object__init_struct_ops_maps alloc obj =
     (if st_ops_shndx (efile obj) = -1 then (Inr (), obj)
      else case obj_btf obj of
             None \<Rightarrow> (Inl OOB, obj)
           | Some b \<Rightarrow>
               (case btf__find_by_name_kind b ''.struct_ops'' BTF_KIND_DATASEC of
                  Inl e \<Rightarrow> (Inl (if e = OOB then OOB else EINVAL), obj)
                | Inr i \<Rightarrow>
                    (case type_at b i of
                       Inl e \<Rightarrow> (Inl e, obj)
                     | Inr datasec \<Rightarrow> init_struct_ops_loop alloc b (btf_var_secinfos datasec) obj)))"

subsection \<open>Relocations of map definitions\<close>

definition bpf_object__find_map_by_name :: "bpf_object \<Rightarrow> string \<Rightarrow> nat option" where
  "bpf_object__find_map_by_name obj name = find_index (\<lambda>m. m_name m = Some name) (maps obj)"

definition secinfo_at :: "btf_type \<Rightarrow> nat \<Rightarrow> btf_var_secinfo_t result" where
  "secinfo_at sec i = array_get (btf_var_secinfos sec) i"

text \<open>The map of \<^verbatim>\<open>.maps\<close> whose variable covers the 8 bytes at \<open>ofs\<close>, with its section info.\<close>

fun map_covering :: "bpf_object \<Rightarrow> btf_type \<Rightarrow> nat \<Rightarrow> nat \<Rightarrow> bpf_map list \<Rightarrow> (nat \<times> btf_var_secinfo_t) option result" where
  "map_covering obj sec ofs j [] = Inr None"
| "map_covering obj sec ofs j (m # ms) =
     (if m_sec_idx m \<noteq> btf_maps_shndx (efile obj) then map_covering obj sec ofs (j + 1) ms
      else rbind (secinfo_at sec (m_btf_var_idx m)) (\<lambda>vi.
           if unat (v_offset vi) \<le> ofs \<and> (ofs + 8) mod 2 ^ 64 \<le> unat (v_offset vi + v_size vi) then Inr (Some (j, vi))
           else map_covering obj sec ofs (j + 1) ms))"

definition set_slot :: "nat \<Rightarrow> nat \<Rightarrow> nat option list \<Rightarrow> nat option list" where
  "set_slot moff targ slots =
     (if moff \<ge> length slots then slots @ replicate (moff + 1 - length slots) None else slots)[moff := Some targ]"

definition collect_map_reloc :: "alloc \<Rightarrow> btf \<Rightarrow> btf_type \<Rightarrow> elf \<Rightarrow> elf_data \<Rightarrow> elf_data \<Rightarrow> nat \<Rightarrow> bpf_object \<Rightarrow> bpf_object result" where
  "collect_map_reloc alloc b sec e symbols data i obj =
     rbind (deref (elf_getrel e data i) LIBBPF_ERRNO__FORMAT) (\<lambda>rel.
     rbind (deref (elf_getsym e symbols (GELF_R_SYM (r_info rel))) LIBBPF_ERRNO__FORMAT) (\<lambda>sy.
     let name = (case elf_sym_str obj (st_name sy) of None \<Rightarrow> ''<?>'' | Some n \<Rightarrow> n) in
     rbind (guard (int (st_shndx sy) = btf_maps_shndx (efile obj)) LIBBPF_ERRNO__RELOC) (\<lambda>_.
     rbind (map_covering obj sec (r_offset rel) 0 (maps obj)) (\<lambda>found.
     rbind (deref found EINVAL) (\<lambda>(j, vi).
     let m = maps obj ! j in
     rbind (guard (bpf_map_type__is_map_in_map (def_type (m_def m))) EINVAL) (\<lambda>_.
     rbind (guard (\<not> (def_type (m_def m) = BPF_MAP_TYPE_HASH_OF_MAPS \<and> key_size (m_def m) \<noteq> 4)) EINVAL) (\<lambda>_.
     rbind (deref (bpf_object__find_map_by_name obj name) ESRCH) (\<lambda>targ.
     rbind (type_at b (unat (v_type vi))) (\<lambda>var.
     rbind (skip_mods_and_typedefs b (unat (ref_type var))) (\<lambda>(def, _).
     rbind (guard (btf_vlen def \<noteq> 0) EINVAL) (\<lambda>_.
     rbind (array_get (btf_members def) (btf_vlen def - 1)) (\<lambda>member.
     rbind (name_at b (m_name_off member)) (\<lambda>mname.
     rbind (guard (mname = ''values'') EINVAL) (\<lambda>_.
     let moff0 = unat (btf_member_bit_offset def (btf_vlen def - 1)) div 8; rel_off = r_offset rel - unat (v_offset vi) in
     rbind (guard (\<not> rel_off < moff0) EINVAL) (\<lambda>_.
     let moff = (rel_off - moff0) mod 2 ^ 32 in
     rbind (guard (moff mod 8 = 0) EINVAL) (\<lambda>_.
     rbind (guard (moff div 8 < length (m_init_slots m) \<or> libbpf_reallocarray alloc (moff div 8 + 1) 8) ENOMEM) (\<lambda>_.
     Inr (upd_map j (\<lambda>m. m\<lparr>m_init_slots := set_slot (moff div 8) targ (m_init_slots m)\<rparr>) obj))))))))))))))))))"

fun reloc_entries :: "(nat \<Rightarrow> bpf_object \<Rightarrow> bpf_object result) \<Rightarrow> nat list \<Rightarrow> bpf_object \<Rightarrow> unit result \<times> bpf_object" where
  "reloc_entries f [] obj = (Inr (), obj)"
| "reloc_entries f (i # is) obj = and_then (keep obj (f i obj)) (reloc_entries f is)"

definition bpf_object__collect_map_relos :: "alloc \<Rightarrow> gelf_shdr \<Rightarrow> elf_data \<Rightarrow> bpf_object \<Rightarrow> unit result \<times> bpf_object" where
  "bpf_object__collect_map_relos alloc shdr data obj =
     (case obj_btf obj of
        None \<Rightarrow> (Inl EINVAL, obj)
      | Some b \<Rightarrow>
          if btf_maps_sec_btf_id (efile obj) = 0 then (Inl EINVAL, obj)
          else case rbind (btf__type_by_id b (btf_maps_sec_btf_id (efile obj))) (\<lambda>p. deref p EINVAL) of
                 Inl e \<Rightarrow> (Inl e, obj)
               | Inr sec \<Rightarrow>
                   (case nr_rels shdr of
                      Inl e \<Rightarrow> (Inl e, obj)
                    | Inr is \<Rightarrow>
                        (case (ef_elf (efile obj), ef_symbols (efile obj)) of
                           (Some e, Some symbols) \<Rightarrow> reloc_entries (collect_map_reloc alloc b sec e symbols data) is obj
                         | _ \<Rightarrow> (if is = [] then Inr () else Inl OOB, obj))))"

definition find_struct_ops_map_by_offset :: "bpf_object \<Rightarrow> nat \<Rightarrow> nat option" where
  "find_struct_ops_map_by_offset obj ofs =
     find_index (\<lambda>m. bpf_map__is_struct_ops m \<and> m_sec_offset m \<le> ofs \<and> ofs - m_sec_offset m < unat (value_size (m_def m))) (maps obj)"

definition find_member_by_offset :: "btf_type \<Rightarrow> u32 \<Rightarrow> nat option" where
  "find_member_by_offset t bit_offset = find_index (\<lambda>i. btf_member_bit_offset t i = bit_offset) [0..<btf_vlen t]"

text \<open>Ties a program to a member of a struct_ops map; a program of another kind, or tied elsewhere, is refused.\<close>

definition bind_struct_ops :: "bpf_struct_ops \<Rightarrow> nat \<Rightarrow> bpf_program \<Rightarrow> bpf_program result" where
  "bind_struct_ops st member_idx prog =
     (if p_type prog = BPF_PROG_TYPE_UNSPEC
      then (case find_sec_def (p_sec_name prog) of
              Some d \<Rightarrow> if sd_prog_type d \<noteq> BPF_PROG_TYPE_STRUCT_OPS then Inl EINVAL
                        else Inr (prog\<lparr>p_type := BPF_PROG_TYPE_STRUCT_OPS, p_attach_btf_id := st_type_id st, p_expected_attach_type := member_idx\<rparr>)
            | None \<Rightarrow> Inr (prog\<lparr>p_type := BPF_PROG_TYPE_STRUCT_OPS, p_attach_btf_id := st_type_id st, p_expected_attach_type := member_idx\<rparr>))
      else if p_type prog \<noteq> BPF_PROG_TYPE_STRUCT_OPS \<or> p_attach_btf_id prog \<noteq> st_type_id st \<or> p_expected_attach_type prog \<noteq> member_idx
      then Inl EINVAL else Inr prog)"

definition collect_st_ops_reloc :: "btf \<Rightarrow> elf \<Rightarrow> elf_data \<Rightarrow> elf_data \<Rightarrow> nat \<Rightarrow> bpf_object \<Rightarrow> bpf_object result" where
  "collect_st_ops_reloc b e symbols data i obj =
     rbind (deref (elf_getrel e data i) LIBBPF_ERRNO__FORMAT) (\<lambda>rel.
     rbind (deref (elf_getsym e symbols (GELF_R_SYM (r_info rel))) LIBBPF_ERRNO__FORMAT) (\<lambda>sy.
     rbind (deref (find_struct_ops_map_by_offset obj (r_offset rel)) EINVAL) (\<lambda>j.
     let m = maps obj ! j; moff = (r_offset rel - m_sec_offset m) mod 2 ^ 32 in
     rbind (guard (\<not> st_shndx sy \<ge> SHN_LORESERVE) LIBBPF_ERRNO__RELOC) (\<lambda>_.
     rbind (guard (st_value sy mod BPF_INSN_SZ = 0) LIBBPF_ERRNO__FORMAT) (\<lambda>_.
     let insn_idx = (st_value sy div BPF_INSN_SZ) mod 2 ^ 32 in
     rbind (deref (m_st_ops m) OOB) (\<lambda>st.
     rbind (deref (find_member_by_offset (st_type st) (of_nat moff * 8)) EINVAL) (\<lambda>member_idx.
     rbind (array_get (btf_members (st_type st)) member_idx) (\<lambda>member.
     rbind (resolve_func_ptr b (unat (m_type member))) (\<lambda>fp.
     rbind (deref fp EINVAL) (\<lambda>_.
     rbind (find_prog_by_sec_insn obj (st_shndx sy) insn_idx) (\<lambda>found.
     rbind (deref found EINVAL) (\<lambda>pi.
     rbind (bind_struct_ops st member_idx (programs obj ! pi)) (\<lambda>prog.
     Inr (upd_map j (\<lambda>m. m\<lparr>m_st_ops := Some (st\<lparr>st_progs := (st_progs st)[member_idx := Some pi]\<rparr>)\<rparr>)
            (obj\<lparr>programs := (programs obj)[pi := prog]\<rparr>)))))))))))))))"

definition bpf_object__collect_st_ops_relos :: "gelf_shdr \<Rightarrow> elf_data \<Rightarrow> bpf_object \<Rightarrow> unit result \<times> bpf_object" where
  "bpf_object__collect_st_ops_relos shdr data obj =
     (case nr_rels shdr of
        Inl e \<Rightarrow> (Inl e, obj)
      | Inr is \<Rightarrow>
          (case (ef_elf (efile obj), ef_symbols (efile obj), obj_btf obj) of
             (Some e, Some symbols, Some b) \<Rightarrow> reloc_entries (collect_st_ops_reloc b e symbols data) is obj
           | _ \<Rightarrow> (if is = [] then Inr () else Inl OOB, obj)))"

subsection \<open>All relocation sections\<close>

definition collect_reloc_sect :: "alloc \<Rightarrow> reloc_desc \<Rightarrow> gelf_shdr \<times> elf_data \<Rightarrow> bpf_object \<Rightarrow> unit result \<times> bpf_object" where
  "collect_reloc_sect alloc junk = (\<lambda>(shdr, data) obj.
     (let idx = s32 (sh_info shdr) in
      if sh_type shdr \<noteq> SHT_REL then (Inl LIBBPF_ERRNO__INTERNAL, obj)
      else if idx = st_ops_shndx (efile obj) then bpf_object__collect_st_ops_relos shdr data obj
      else if idx = btf_maps_shndx (efile obj) then bpf_object__collect_map_relos alloc shdr data obj
      else bpf_object__collect_prog_relos alloc junk shdr data obj))"

fun collect_reloc_sects :: "alloc \<Rightarrow> reloc_desc \<Rightarrow> (gelf_shdr \<times> elf_data) list \<Rightarrow> bpf_object \<Rightarrow> unit result \<times> bpf_object" where
  "collect_reloc_sects alloc junk [] obj = (Inr (), obj)"
| "collect_reloc_sects alloc junk (s # ss) obj = and_then (collect_reloc_sect alloc junk s obj) (collect_reloc_sects alloc junk ss)"

definition sort_relocs :: "bpf_object \<Rightarrow> bpf_object" where
  "sort_relocs obj = obj\<lparr>programs := map (\<lambda>p. p\<lparr>p_relocs := qsort cmp_relocs (p_relocs p)\<rparr>) (programs obj)\<rparr>"

definition bpf_object__collect_relos :: "alloc \<Rightarrow> reloc_desc \<Rightarrow> bpf_object \<Rightarrow> unit result \<times> bpf_object" where
  "bpf_object__collect_relos alloc junk obj =
     and_then (collect_reloc_sects alloc junk (ef_reloc_sects (efile obj)) obj) (\<lambda>obj. (Inr (), sort_relocs obj))"

end
