(* ===== verification/Btf_Write.thy ===== *)
theory Btf_Write
  imports Btf_Query
begin

text \<open>
  The writer of \<^verbatim>\<open>btf.c\<close>: the switch to the modifiable representation with its string index,
  \<open>btf__find_str\<close> and \<open>btf__add_str\<close>, and the functions that append types, members, enumerators,
  parameters and section variables.

  An operation takes the object and returns its result with the object it leaves behind, also
  when it fails. The string index is a hash map whose keys are offsets into the strings, hashed and
  compared through its context; the context is set to the memory behind \<open>strs_data_ptr\<close> before
  each call.

  The lemmas show that every operation keeps the representation of the type section and of the
  string index, that an added string is found again under its offset and stored once, and that
  the returned id is the id of the type that was asked for.
\<close>

subsection \<open>Operations with state and errors\<close>

type_synonym 'a op = "btf \<Rightarrow> 'a result \<times> btf"

definition op_return :: "'a \<Rightarrow> 'a op" where
  "op_return x = (\<lambda>b. (Inr x, b))"

definition op_fail :: "errno \<Rightarrow> 'a op" where
  "op_fail e = (\<lambda>b. (Inl e, b))"

definition op_bind :: "'a op \<Rightarrow> ('a \<Rightarrow> 'b op) \<Rightarrow> 'b op" where
  "op_bind m f = (\<lambda>b. case m b of (Inl e, b') \<Rightarrow> (Inl e, b') | (Inr x, b') \<Rightarrow> f x b')"

definition op_guard :: "bool \<Rightarrow> errno \<Rightarrow> unit op" where
  "op_guard c e = (\<lambda>b. (guard c e, b))"

definition op_get :: "(btf \<Rightarrow> 'a result) \<Rightarrow> 'a op" where
  "op_get f = (\<lambda>b. (f b, b))"

definition op_upd :: "(btf_data \<Rightarrow> btf_data) \<Rightarrow> unit op" where
  "op_upd f = (\<lambda>b. (Inr (), upd_own f b))"

subsection \<open>The string index\<close>

definition strs_hash_fn :: "string \<Rightarrow> nat \<Rightarrow> u64" where
  "strs_hash_fn strs k = str_hash (drop k strs)"

definition strs_hash_equal_fn :: "string \<Rightarrow> nat \<Rightarrow> nat \<Rightarrow> bool" where
  "strs_hash_equal_fn strs k1 k2 \<longleftrightarrow> cstr (drop k1 strs) = cstr (drop k2 strs)"

definition btf_invalidate_raw_data :: "btf_data \<Rightarrow> btf_data" where
  "btf_invalidate_raw_data d = d\<lparr>raw_data := None, raw_data_swapped := None\<rparr>"

type_synonym strs_index = "(string, nat, nat) hashmap"

text \<open>The loop of \<open>btf_ensure_modifiable\<close> over the strings; every failure becomes \<open>-ENOMEM\<close>.\<close>

function index_strs :: "alloc \<Rightarrow> string \<Rightarrow> nat \<Rightarrow> strs_index \<Rightarrow> strs_index result" where
  "index_strs alloc strs off m =
     (if off < length strs
      then if NUL \<notin> set (drop off strs) then Inl OOB
           else (let r = hashmap__add alloc m off off in
                 if ins_err r = None \<or> ins_err r = Some EEXIST
                 then index_strs alloc strs (off + length (cstr (drop off strs)) + 1) (ins_map r)
                 else Inl ENOMEM)
      else Inr m)"
  by pat_completeness auto
termination
  by (relation "measure (\<lambda>(alloc, strs, off, m). length strs - off)") auto

declare index_strs.simps [simp del]

definition btf_split_regions :: "alloc \<Rightarrow> btf \<Rightarrow> btf result" where
  "btf_split_regions alloc b =
     (let d = own b; h = hdr d; strs = strs_data d in
      rbind (guard (alloc (unat (hdr_len h)) \<and> alloc (unat (type_len h)) \<and> alloc (unat (str_len h))) ENOMEM) (\<lambda>_.
      rbind (guard (length (hdr_bytes d) = unat (hdr_len h) \<and> sizeof_btf_header \<le> unat (hdr_len h) \<and>
                    length (types_data d) = unat (type_len h) \<and> length strs = unat (str_len h)) OOB) (\<lambda>_.
      rbind (hashmap__new alloc strs_hash_fn strs_hash_equal_fn strs) (\<lambda>m.
      rbind (index_strs alloc strs 0 m) (\<lambda>hash.
      Inr (upd_own (\<lambda>d. btf_invalidate_raw_data
             (d\<lparr>modifiable := True,
                types_data_cap := unat (type_len h),
                strs_data_cap := unat (str_len h),
                strs_hash := Some hash,
                strs_deduped := (strs_deduped d \<or> str_len h = 0 \<or> (base_btf b = None \<and> str_len h = 1))\<rparr>)) b))))))"

definition btf_ensure_modifiable :: "alloc \<Rightarrow> unit op" where
  "btf_ensure_modifiable alloc b =
     (if modifiable (own b) then (Inr (), upd_own btf_invalidate_raw_data b)
      else case btf_split_regions alloc b of
             Inl e \<Rightarrow> (Inl (if e = OOB then OOB else ENOMEM), b)
           | Inr b' \<Rightarrow> (Inr (), b'))"

definition btf_add_str_mem :: "alloc \<Rightarrow> nat \<Rightarrow> unit op" where
  "btf_add_str_mem alloc add_sz b =
     (case btf_add_mem alloc (strs_data_cap (own b)) 1 (unat (str_len (hdr (own b)))) BTF_MAX_STR_OFFSET add_sz of
        None \<Rightarrow> (Inl ENOMEM, b)
      | Some c \<Rightarrow> (Inr (), upd_own (\<lambda>d. d\<lparr>strs_data_cap := c\<rparr>) b))"

text \<open>The memory of the strings with \<open>s\<close> written behind them, as the index sees it.\<close>

definition strs_with :: "btf_data \<Rightarrow> string \<Rightarrow> string" where
  "strs_with d s = strs_data d @ cstr s @ [NUL]"

definition index_of :: "btf_data \<Rightarrow> string \<Rightarrow> strs_index" where
  "index_of d mem = (the (strs_hash d))\<lparr>ctx := mem\<rparr>"

definition find_str_own :: "alloc \<Rightarrow> string \<Rightarrow> nat op" where
  "find_str_own alloc s =
     op_bind (btf_ensure_modifiable alloc) (\<lambda>_.
     op_bind (btf_add_str_mem alloc (length (cstr s) + 1)) (\<lambda>_.
     op_get (\<lambda>b. let d = own b; new_off = unat (str_len (hdr d)) in
       case hashmap__find (index_of d (strs_with d s)) new_off of
         Some old_off \<Rightarrow> Inr (start_str_off d + old_off)
       | None \<Rightarrow> Inl ENOENT)))"

fun btf__find_str :: "alloc \<Rightarrow> string \<Rightarrow> nat op" where
  "btf__find_str alloc s (Btf d base) =
     (case base of
        None \<Rightarrow> find_str_own alloc s (Btf d None)
      | Some b0 \<Rightarrow>
          (case btf__find_str alloc s b0 of
             (r, b0') \<Rightarrow>
               if r \<noteq> Inl ENOENT then (r, Btf d (Some b0'))
               else find_str_own alloc s (Btf d (Some b0'))))"

text \<open>The insertion of \<open>btf__add_str\<close>: a duplicate keeps the strings, a new string extends them.\<close>

definition add_str_insert :: "alloc \<Rightarrow> string \<Rightarrow> nat op" where
  "add_str_insert alloc s b =
     (let d = own b; new_off = unat (str_len (hdr d)); len = length (cstr s) + 1;
          r = hashmap__insert alloc (index_of d (strs_with d s)) new_off new_off HASHMAP_ADD;
          b' = upd_own (\<lambda>d. d\<lparr>strs_hash := Some (ins_map r)\<rparr>) b in
      case ins_err r of
        Some e \<Rightarrow>
          if e = EEXIST then (Inr (start_str_off d + the (old_key r)), b') else (Inl e, b')
      | None \<Rightarrow>
          (Inr (start_str_off d + new_off),
           upd_own (\<lambda>d. d\<lparr>strs_data := strs_with d s,
                         hdr := (hdr d)\<lparr>str_len := str_len (hdr d) + of_nat len\<rparr>\<rparr>) b'))"

definition add_str_own :: "alloc \<Rightarrow> string \<Rightarrow> nat op" where
  "add_str_own alloc s =
     op_bind (btf_ensure_modifiable alloc) (\<lambda>_.
     op_bind (btf_add_str_mem alloc (length (cstr s) + 1)) (\<lambda>_.
     add_str_insert alloc s))"

definition btf__add_str :: "alloc \<Rightarrow> string \<Rightarrow> nat op" where
  "btf__add_str alloc s b =
     (case base_btf b of
        None \<Rightarrow> add_str_own alloc s b
      | Some b0 \<Rightarrow>
          (case btf__find_str alloc s b0 of
             (r, b0') \<Rightarrow>
               if r \<noteq> Inl ENOENT then (r, Btf (own b) (Some b0'))
               else add_str_own alloc s (Btf (own b) (Some b0'))))"

subsection \<open>Appending types\<close>

definition UINT_MAX :: nat where "UINT_MAX = 2 ^ 32 - 1"

definition btf_add_type_mem :: "alloc \<Rightarrow> nat \<Rightarrow> unit op" where
  "btf_add_type_mem alloc add_sz b =
     (case btf_add_mem alloc (types_data_cap (own b)) 1 (unat (type_len (hdr (own b)))) UINT_MAX add_sz of
        None \<Rightarrow> (Inl ENOMEM, b)
      | Some c \<Rightarrow> (Inr (), upd_own (\<lambda>d. d\<lparr>types_data_cap := c\<rparr>) b))"

definition grow_types :: "u8 list \<Rightarrow> btf_data \<Rightarrow> btf_data" where
  "grow_types bs d =
     d\<lparr>types_data := types_data d @ bs,
       hdr := (hdr d)\<lparr>type_len := type_len (hdr d) + of_nat (length bs),
                      str_off := str_off (hdr d) + of_nat (length bs)\<rparr>\<rparr>"

text \<open>\<open>btf_commit_type\<close> of a type written behind the type section.\<close>

definition btf_commit_type :: "alloc \<Rightarrow> btf_type \<Rightarrow> nat op" where
  "btf_commit_type alloc t b =
     (case btf_add_type_idx_entry alloc (own b) (type_len (hdr (own b))) of
        Inl e \<Rightarrow> (Inl e, b)
      | Inr d \<Rightarrow>
          (let d' = grow_types (encode_type t) d; d'' = d'\<lparr>nr_types := nr_types d' + 1\<rparr> in
           (Inr (start_id d'' + nr_types d'' - 1), Btf d'' (base_btf b))))"

definition no_name :: "string option \<Rightarrow> bool" where
  "no_name name = (case name of None \<Rightarrow> True | Some s \<Rightarrow> cstr s = [])"

definition add_name :: "alloc \<Rightarrow> string option \<Rightarrow> u32 op" where
  "add_name alloc name =
     (if no_name name then op_return 0
      else op_bind (btf__add_str alloc (the name)) (\<lambda>off. op_return (of_nat off)))"

definition add_type :: "alloc \<Rightarrow> nat \<Rightarrow> string option \<Rightarrow> (u32 \<Rightarrow> btf_type) \<Rightarrow> nat op" where
  "add_type alloc nbytes name mk =
     op_bind (btf_ensure_modifiable alloc) (\<lambda>_.
     op_bind (btf_add_type_mem alloc nbytes) (\<lambda>_.
     op_bind (add_name alloc name) (\<lambda>name_off.
     btf_commit_type alloc (mk name_off))))"

definition plain_type :: "btf_kind_t \<Rightarrow> u32 \<Rightarrow> btf_vdata \<Rightarrow> u32 \<Rightarrow> btf_type" where
  "plain_type kind sot vd noff =
     \<lparr>name_off = noff, info = btf_type_info kind 0 False, size_type = sot, vdata = vd\<rparr>"

definition BTF_INT_SIGNED :: u32 where "BTF_INT_SIGNED = 1"
definition BTF_INT_CHAR :: u32 where "BTF_INT_CHAR = 2"
definition BTF_INT_BOOL :: u32 where "BTF_INT_BOOL = 4"

definition pow2_size :: "nat \<Rightarrow> nat \<Rightarrow> bool" where
  "pow2_size mx byte_sz \<longleftrightarrow> byte_sz \<noteq> 0 \<and> byte_sz AND (byte_sz - 1) = 0 \<and> byte_sz \<le> mx"

definition btf__add_int :: "alloc \<Rightarrow> string option \<Rightarrow> nat \<Rightarrow> u32 \<Rightarrow> nat op" where
  "btf__add_int alloc name byte_sz encoding =
     op_bind (op_guard (\<not> no_name name) EINVAL) (\<lambda>_.
     op_bind (op_guard (pow2_size 16 byte_sz) EINVAL) (\<lambda>_.
     op_bind (op_guard (encoding AND NOT (BTF_INT_SIGNED OR BTF_INT_CHAR OR BTF_INT_BOOL) = 0) EINVAL) (\<lambda>_.
     add_type alloc (sizeof_btf_type + 4) name
       (plain_type BTF_KIND_INT (of_nat byte_sz) (VInt (push_bit 24 encoding OR of_nat (byte_sz * 8)))))))"

definition validate_type_id :: "int \<Rightarrow> bool" where
  "validate_type_id tid \<longleftrightarrow> \<not> (tid < 0 \<or> tid > int BTF_MAX_NR_TYPES)"

definition btf_add_ref_kind :: "alloc \<Rightarrow> btf_kind_t \<Rightarrow> string option \<Rightarrow> int \<Rightarrow> nat op" where
  "btf_add_ref_kind alloc kind name ref_type_id =
     op_bind (op_guard (validate_type_id ref_type_id) EINVAL) (\<lambda>_.
     add_type alloc sizeof_btf_type name (plain_type kind (of_int ref_type_id) VNone))"

definition btf__add_ptr :: "alloc \<Rightarrow> int \<Rightarrow> nat op" where
  "btf__add_ptr alloc ref_type_id = btf_add_ref_kind alloc BTF_KIND_PTR None ref_type_id"

definition btf__add_array :: "alloc \<Rightarrow> int \<Rightarrow> int \<Rightarrow> u32 \<Rightarrow> nat op" where
  "btf__add_array alloc index_type_id elem_type_id nr_elems =
     op_bind (op_guard (validate_type_id index_type_id \<and> validate_type_id elem_type_id) EINVAL) (\<lambda>_.
     add_type alloc (sizeof_btf_type + 12) None
       (plain_type BTF_KIND_ARRAY 0
          (VArray \<lparr>a_type = of_int elem_type_id, a_index_type = of_int index_type_id, a_nelems = nr_elems\<rparr>)))"

definition btf_add_composite :: "alloc \<Rightarrow> btf_kind_t \<Rightarrow> string option \<Rightarrow> u32 \<Rightarrow> nat op" where
  "btf_add_composite alloc kind name bytes_sz =
     add_type alloc sizeof_btf_type name (plain_type kind bytes_sz (VMembers []))"

definition btf__add_struct :: "alloc \<Rightarrow> string option \<Rightarrow> u32 \<Rightarrow> nat op" where
  "btf__add_struct alloc name byte_sz = btf_add_composite alloc BTF_KIND_STRUCT name byte_sz"

definition btf__add_union :: "alloc \<Rightarrow> string option \<Rightarrow> u32 \<Rightarrow> nat op" where
  "btf__add_union alloc name byte_sz = btf_add_composite alloc BTF_KIND_UNION name byte_sz"

definition btf__add_enum :: "alloc \<Rightarrow> string option \<Rightarrow> u32 \<Rightarrow> nat op" where
  "btf__add_enum alloc name byte_sz =
     op_bind (op_guard (pow2_size 8 (unat byte_sz)) EINVAL) (\<lambda>_.
     add_type alloc sizeof_btf_type name (plain_type BTF_KIND_ENUM byte_sz (VEnums [])))"

definition btf__add_typedef :: "alloc \<Rightarrow> string option \<Rightarrow> int \<Rightarrow> nat op" where
  "btf__add_typedef alloc name ref_type_id =
     op_bind (op_guard (\<not> no_name name) EINVAL) (\<lambda>_.
     btf_add_ref_kind alloc BTF_KIND_TYPEDEF name ref_type_id)"

definition btf__add_volatile :: "alloc \<Rightarrow> int \<Rightarrow> nat op" where
  "btf__add_volatile alloc ref_type_id = btf_add_ref_kind alloc BTF_KIND_VOLATILE None ref_type_id"

definition btf__add_const :: "alloc \<Rightarrow> int \<Rightarrow> nat op" where
  "btf__add_const alloc ref_type_id = btf_add_ref_kind alloc BTF_KIND_CONST None ref_type_id"

definition btf__add_restrict :: "alloc \<Rightarrow> int \<Rightarrow> nat op" where
  "btf__add_restrict alloc ref_type_id = btf_add_ref_kind alloc BTF_KIND_RESTRICT None ref_type_id"

definition btf__add_func_proto :: "alloc \<Rightarrow> int \<Rightarrow> nat op" where
  "btf__add_func_proto alloc ret_type_id =
     op_bind (op_guard (validate_type_id ret_type_id) EINVAL) (\<lambda>_.
     add_type alloc sizeof_btf_type None (plain_type BTF_KIND_FUNC_PROTO (of_int ret_type_id) (VParams [])))"

definition BTF_VAR_STATIC :: int where "BTF_VAR_STATIC = 0"
definition BTF_VAR_GLOBAL_ALLOCATED :: int where "BTF_VAR_GLOBAL_ALLOCATED = 1"
definition BTF_VAR_GLOBAL_EXTERN :: int where "BTF_VAR_GLOBAL_EXTERN = 2"

definition btf__add_var :: "alloc \<Rightarrow> string option \<Rightarrow> int \<Rightarrow> int \<Rightarrow> nat op" where
  "btf__add_var alloc name linkage type_id =
     op_bind (op_guard (\<not> no_name name) EINVAL) (\<lambda>_.
     op_bind (op_guard (linkage \<in> {BTF_VAR_STATIC, BTF_VAR_GLOBAL_ALLOCATED, BTF_VAR_GLOBAL_EXTERN}) EINVAL) (\<lambda>_.
     op_bind (op_guard (validate_type_id type_id) EINVAL) (\<lambda>_.
     add_type alloc (sizeof_btf_type + 4) name
       (plain_type BTF_KIND_VAR (of_int type_id) (VVar (of_int linkage))))))"

definition btf__add_datasec :: "alloc \<Rightarrow> string option \<Rightarrow> u32 \<Rightarrow> nat op" where
  "btf__add_datasec alloc name byte_sz =
     op_bind (op_guard (\<not> no_name name) EINVAL) (\<lambda>_.
     add_type alloc sizeof_btf_type name (plain_type BTF_KIND_DATASEC byte_sz (VSecinfos [])))"

subsection \<open>Types patched after they were added\<close>

text \<open>\<open>t->info = info\<close> for the type of an id of this BTF.\<close>

definition set_type_info :: "nat \<Rightarrow> u32 \<Rightarrow> unit op" where
  "set_type_info tid new_info b =
     (let d = own b in
      case rbind (array_get (type_offs d) (tid - start_id d)) (\<lambda>off. write_u32 (types_data d) (unat off + 4) new_info) of
        Inl e \<Rightarrow> (Inl e, b)
      | Inr bs \<Rightarrow> (Inr (), upd_own (\<lambda>d. d\<lparr>types_data := bs\<rparr>) b))"

datatype btf_fwd_kind = BTF_FWD_STRUCT | BTF_FWD_UNION | BTF_FWD_ENUM

definition btf__add_fwd :: "alloc \<Rightarrow> string option \<Rightarrow> btf_fwd_kind \<Rightarrow> nat op" where
  "btf__add_fwd alloc name fwd_kind =
     op_bind (op_guard (\<not> no_name name) EINVAL) (\<lambda>_.
     case fwd_kind of
       BTF_FWD_ENUM \<Rightarrow> btf__add_enum alloc name 4
     | _ \<Rightarrow>
         op_bind (btf_add_ref_kind alloc BTF_KIND_FWD name 0) (\<lambda>tid.
         op_bind (set_type_info tid (btf_type_info BTF_KIND_FWD 0 (fwd_kind = BTF_FWD_UNION))) (\<lambda>_.
         op_return tid)))"

datatype btf_func_linkage = BTF_FUNC_STATIC | BTF_FUNC_GLOBAL | BTF_FUNC_EXTERN

fun func_linkage_num :: "btf_func_linkage \<Rightarrow> nat" where
  "func_linkage_num BTF_FUNC_STATIC = 0"
| "func_linkage_num BTF_FUNC_GLOBAL = 1"
| "func_linkage_num BTF_FUNC_EXTERN = 2"

definition btf__add_func :: "alloc \<Rightarrow> string option \<Rightarrow> btf_func_linkage \<Rightarrow> int \<Rightarrow> nat op" where
  "btf__add_func alloc name linkage proto_type_id =
     op_bind (op_guard (\<not> no_name name) EINVAL) (\<lambda>_.
     op_bind (btf_add_ref_kind alloc BTF_KIND_FUNC name proto_type_id) (\<lambda>tid.
     op_bind (set_type_info tid (btf_type_info BTF_KIND_FUNC (func_linkage_num linkage) False)) (\<lambda>_.
     op_return tid)))"

subsection \<open>Extending the last type\<close>

definition btf_last_type :: "btf \<Rightarrow> btf_type result" where
  "btf_last_type b = btf_type_by_id b (btf__get_nr_types b)"

definition last_of_kind :: "(btf_type \<Rightarrow> bool) \<Rightarrow> btf_type op" where
  "last_of_kind p =
     op_get (\<lambda>b. if nr_types (own b) = 0 then Inl EINVAL
                 else rbind (btf_last_type b) (\<lambda>t. if p t then Inr t else Inl EINVAL))"

definition inc_vlen_info :: "btf_type \<Rightarrow> bool \<Rightarrow> u32" where
  "inc_vlen_info t kflag = btf_type_info (btf_kind t) (btf_vlen t + 1) kflag"

definition btf_type_inc_vlen :: "btf_type \<Rightarrow> u32" where
  "btf_type_inc_vlen t = inc_vlen_info t (btf_kflag t)"

text \<open>
  The end of every \<open>btf__add_field\<close>-like function: the element was written behind the type section,
  the info of the last type is updated and the element becomes part of the section.
\<close>

definition extend_last :: "u32 list \<Rightarrow> (btf_type \<Rightarrow> u32) \<Rightarrow> unit op" where
  "extend_last ws new_info =
     op_bind (op_get btf_last_type) (\<lambda>t.
     op_bind (\<lambda>b. set_type_info (btf__get_nr_types b) (new_info t) b) (\<lambda>_.
     op_upd (grow_types (words_bytes ws))))"

definition add_element :: "alloc \<Rightarrow> nat \<Rightarrow> string option \<Rightarrow> (u32 \<Rightarrow> u32 list) \<Rightarrow> (btf_type \<Rightarrow> u32) \<Rightarrow> unit op" where
  "add_element alloc nbytes name mk new_info =
     op_bind (btf_ensure_modifiable alloc) (\<lambda>_.
     op_bind (btf_add_type_mem alloc nbytes) (\<lambda>_.
     op_bind (add_name alloc name) (\<lambda>name_off.
     extend_last (mk name_off) new_info)))"

definition btf__add_field :: "alloc \<Rightarrow> string option \<Rightarrow> int \<Rightarrow> u32 \<Rightarrow> u32 \<Rightarrow> unit op" where
  "btf__add_field alloc name type_id bit_offset bit_size =
     op_bind (last_of_kind btf_is_composite) (\<lambda>t.
     op_bind (op_guard (validate_type_id type_id) EINVAL) (\<lambda>_.
     let is_bitfield = (bit_size \<noteq> 0 \<or> bit_offset mod 8 \<noteq> 0) in
     op_bind (op_guard (\<not> (is_bitfield \<and> (bit_size = 0 \<or> bit_size > 255 \<or> bit_offset > 0xffffff))) EINVAL) (\<lambda>_.
     op_bind (op_guard (\<not> (btf_is_union t \<and> bit_offset \<noteq> 0)) EINVAL) (\<lambda>_.
     add_element alloc 12 name (\<lambda>name_off. [name_off, of_int type_id, bit_offset OR push_bit 24 bit_size])
       (\<lambda>t. inc_vlen_info t (is_bitfield \<or> btf_kflag t))))))"

definition btf__add_enum_value :: "alloc \<Rightarrow> string option \<Rightarrow> int \<Rightarrow> unit op" where
  "btf__add_enum_value alloc name val =
     op_bind (last_of_kind btf_is_enum) (\<lambda>t.
     op_bind (op_guard (\<not> no_name name) EINVAL) (\<lambda>_.
     op_bind (op_guard (\<not> (val < - (2 ^ 31) \<or> val > int UINT_MAX)) E2BIG) (\<lambda>_.
     add_element alloc 8 name (\<lambda>name_off. [name_off, of_int val]) btf_type_inc_vlen)))"

definition btf__add_func_param :: "alloc \<Rightarrow> string option \<Rightarrow> int \<Rightarrow> unit op" where
  "btf__add_func_param alloc name type_id =
     op_bind (op_guard (validate_type_id type_id) EINVAL) (\<lambda>_.
     op_bind (last_of_kind btf_is_func_proto) (\<lambda>t.
     add_element alloc 8 name (\<lambda>name_off. [name_off, of_int type_id]) btf_type_inc_vlen))"

definition btf__add_datasec_var_info :: "alloc \<Rightarrow> int \<Rightarrow> u32 \<Rightarrow> u32 \<Rightarrow> unit op" where
  "btf__add_datasec_var_info alloc var_type_id offset byte_sz =
     op_bind (last_of_kind btf_is_datasec) (\<lambda>t.
     op_bind (op_guard (validate_type_id var_type_id) EINVAL) (\<lambda>_.
     add_element alloc 12 None (\<lambda>_. [of_int var_type_id, offset, byte_sz]) btf_type_inc_vlen))"

subsection \<open>The string index: invariant\<close>

interpretation strs_index: hash_contract "strs_hash_fn strs" "strs_hash_equal_fn strs" for strs
proof
  show "strs_hash_equal_fn strs x y \<Longrightarrow> strs_hash_fn strs x = strs_hash_fn strs y" for x y
    by (metis strs_hash_equal_fn_def strs_hash_fn_def str_hash_cstr)
qed (auto simp: strs_hash_equal_fn_def)

definition terminated :: "string \<Rightarrow> bool" where
  "terminated strs \<longleftrightarrow> strs \<noteq> [] \<longrightarrow> last strs = NUL"

definition str_start :: "string \<Rightarrow> nat \<Rightarrow> bool" where
  "str_start strs off \<longleftrightarrow> off < length strs \<and> (off = 0 \<or> strs ! (off - 1) = NUL)"

definition index_wf :: "string \<Rightarrow> strs_index \<Rightarrow> bool" where
  "index_wf strs m \<longleftrightarrow>
     hashmap_inv m \<and> hash_fn m = strs_hash_fn \<and> equal_fn m = strs_hash_equal_fn \<and> ctx m = strs \<and>
     unique_keys m \<and>
     (\<forall>e \<in> set (hashmap__for_each_entry m). hvalue e = key e \<and> str_start strs (key e))"

definition index_complete :: "string \<Rightarrow> nat \<Rightarrow> strs_index \<Rightarrow> bool" where
  "index_complete strs n m \<longleftrightarrow> (\<forall>off < n. str_start strs off \<longrightarrow> hashmap__find m off \<noteq> None)"

lemma index_wf_callbacks: "index_wf strs m \<Longrightarrow> uses_callbacks (strs_hash_fn strs) (strs_hash_equal_fn strs) m"
  by (simp add: index_wf_def uses_callbacks_def)

lemma NUL_in_drop: "terminated strs \<Longrightarrow> off < length strs \<Longrightarrow> NUL \<in> set (drop off strs)"
  by (metis terminated_def drop_eq_Nil last_drop last_in_set length_0_conv not_less not_less_zero)

lemma cstr_drop_append:
  assumes "terminated strs" "off < length strs"
  shows "cstr (drop off (strs @ x)) = cstr (drop off strs)"
  using cstr_append [OF NUL_in_drop [OF assms]] assms(2) by simp

lemma hash_drop_append:
  assumes "terminated strs" "off < length strs"
  shows "strs_hash_fn (strs @ x) off = strs_hash_fn strs off"
  unfolding strs_hash_fn_def
  by (subst (1 2) str_hash_cstr [symmetric]) (simp add: cstr_drop_append [OF assms] del: drop_append)

lemma index_find_value:
  assumes "index_wf strs m" "hashmap__find m off = Some v"
  shows "str_start strs v" "cstr (drop v strs) = cstr (drop off strs)"
proof -
  note cb = index_wf_callbacks [OF assms(1)]
  have "v \<in> set (key_values m off)"
    using assms strs_index.find_key_values [OF _ cb, of off] by (auto simp: index_wf_def split: list.splits)
  then obtain e where e: "e \<in> set (hashmap__for_each_entry m)" "hvalue e = v"
    "equal_fn m (ctx m) (key e) off" by (auto simp: key_values_def)
  then show "str_start strs v" "cstr (drop v strs) = cstr (drop off strs)"
    using assms(1) by (auto simp: index_wf_def strs_hash_equal_fn_def)
qed

lemma str_start_append: "str_start strs off \<Longrightarrow> str_start (strs @ x) off"
  by (auto simp: str_start_def nth_append)

lemma key_values_ctx:
  "key_values m k = map hvalue (filter (\<lambda>e. equal_fn m (ctx m) (key e) k) (concat (buckets m)))"
  by (simp add: key_values_def hashmap__for_each_entry_def)

text \<open>The index survives a change of the memory that keeps the strings of its keys.\<close>

lemma index_change:
  assumes wf: "index_wf A m"
    and keys: "\<And>e. e \<in> set (concat (buckets m)) \<Longrightarrow> str_start B (key e)"
    and agree: "\<And>e. e \<in> set (concat (buckets m)) \<Longrightarrow> cstr (drop (key e) B) = cstr (drop (key e) A)"
  shows "index_wf B (m\<lparr>ctx := B\<rparr>)"
    "cstr (drop k B) = cstr (drop k A) \<Longrightarrow> hashmap__find (m\<lparr>ctx := B\<rparr>) k = hashmap__find m k"
proof -
  let ?m = "m\<lparr>ctx := B\<rparr>"
  have inv: "hashmap_inv m" using wf by (simp add: index_wf_def)
  have slot: "slot_of ?m (key e) = slot_of m (key e)" if "e \<in> set (concat (buckets m))" for e
  proof -
    have "strs_hash_fn B (key e) = strs_hash_fn A (key e)"
      unfolding strs_hash_fn_def by (subst (1 2) str_hash_cstr [symmetric]) (simp add: agree [OF that])
    then show ?thesis using wf by (simp add: slot_of_def index_wf_def)
  qed
  have "slot_of ?m (key e) = i" if "i < cap m" "e \<in> set (buckets m ! i)" for i e
  proof -
    have "e \<in> set (concat (buckets m))"
      using that hashmap_inv_length [OF inv] nth_mem [of i "buckets m"] by auto
    then show ?thesis using slot [of e] that hashmap_inv_slot [OF inv] by simp
  qed
  then have inv': "hashmap_inv ?m" using inv by (auto simp: hashmap_inv_def)
  have cb: "uses_callbacks (strs_hash_fn B) (strs_hash_equal_fn B) ?m"
    using wf by (simp add: uses_callbacks_def index_wf_def)
  have same: "key_values ?m k = key_values m k" if "cstr (drop k B) = cstr (drop k A)" for k
  proof -
    have "filter (\<lambda>e. strs_hash_equal_fn B (key e) k) (concat (buckets m)) =
        filter (\<lambda>e. strs_hash_equal_fn A (key e) k) (concat (buckets m))"
      using agree that by (intro filter_cong) (simp_all add: strs_hash_equal_fn_def)
    then show ?thesis using wf by (simp add: key_values_ctx index_wf_def)
  qed
  have "length (key_values ?m k) \<le> 1" for k
  proof (cases "key_values ?m k")
    case (Cons v vs)
    then have "v \<in> set (key_values ?m k)" by simp
    then obtain e where e: "e \<in> set (concat (buckets m))" "strs_hash_equal_fn B (key e) k"
      using wf unfolding key_values_ctx by (auto simp: index_wf_def)
    then show ?thesis
      using strs_index.key_values_cong [OF cb e(2)] same [OF agree [OF e(1)]] wf
      by (metis index_wf_def unique_keys_def)
  qed simp
  then have "unique_keys ?m" by (simp add: unique_keys_def)
  then show "index_wf B ?m"
    using inv' wf keys by (auto simp: index_wf_def hashmap__for_each_entry_def)
  show "hashmap__find ?m k = hashmap__find m k" if "cstr (drop k B) = cstr (drop k A)"
    using strs_index.find_key_values [OF inv' cb, of k] same [OF that]
      strs_index.find_key_values [OF inv index_wf_callbacks [OF wf], of k] by simp
qed

lemma index_wf_entries: "index_wf strs m \<Longrightarrow> e \<in> set (concat (buckets m)) \<Longrightarrow> str_start strs (key e)"
  unfolding index_wf_def hashmap__for_each_entry_def by blast

lemma index_extend:
  assumes wf: "index_wf strs m" and nul: "terminated strs"
  shows "index_wf (strs @ x) (m\<lparr>ctx := strs @ x\<rparr>)"
    "k < length strs \<Longrightarrow> hashmap__find (m\<lparr>ctx := strs @ x\<rparr>) k = hashmap__find m k"
proof -
  have "str_start (strs @ x) (key e)" "cstr (drop (key e) (strs @ x)) = cstr (drop (key e) strs)"
    if "e \<in> set (concat (buckets m))" for e
    using index_wf_entries [OF wf that] str_start_append cstr_drop_append [OF nul]
    by (auto simp: str_start_def simp del: drop_append)
  note ch = index_change [OF wf this]
  show "index_wf (strs @ x) (m\<lparr>ctx := strs @ x\<rparr>)" by (rule ch(1))
  show "k < length strs \<Longrightarrow> hashmap__find (m\<lparr>ctx := strs @ x\<rparr>) k = hashmap__find m k"
    using ch(2) cstr_drop_append [OF nul] by simp
qed

lemma index_shrink:
  assumes wf: "index_wf (strs @ x) m" and nul: "terminated strs"
    and keys: "\<And>e. e \<in> set (concat (buckets m)) \<Longrightarrow> str_start strs (key e)"
  shows "index_wf strs (m\<lparr>ctx := strs\<rparr>)"
    "k < length strs \<Longrightarrow> hashmap__find (m\<lparr>ctx := strs\<rparr>) k = hashmap__find m k"
proof -
  have "cstr (drop (key e) strs) = cstr (drop (key e) (strs @ x))" if "e \<in> set (concat (buckets m))" for e
    using keys [OF that] cstr_drop_append [OF nul] by (auto simp: str_start_def simp del: drop_append)
  note ch = index_change [OF wf keys this]
  show "index_wf strs (m\<lparr>ctx := strs\<rparr>)" by (rule ch(1))
  show "k < length strs \<Longrightarrow> hashmap__find (m\<lparr>ctx := strs\<rparr>) k = hashmap__find m k"
    using ch(2) cstr_drop_append [OF nul] by simp
qed

lemma hashmap_insert_new_entries:
  assumes inv: "hashmap_inv m" and ins: "hashmap_insert_new alloc m k v = (m', err)"
  shows "mset (hashmap__for_each_entry m') =
    (if err = None then add_mset \<lparr>key = k, hvalue = v\<rparr> (mset (hashmap__for_each_entry m))
     else mset (hashmap__for_each_entry m))"
proof (cases "hashmap_needs_to_grow m")
  case True
  then show ?thesis
    using ins hashmap_grow_entries [of alloc m] hashmap_inv_grow(1) [OF inv]
      hashmap_grow_cap(3) [of alloc m]
    by (auto simp: hashmap_insert_new_def hashmap_push_entries split: sum.splits if_splits)
next
  case False
  then show ?thesis
    using ins hashmap_push_entries [OF inv]
    by (auto simp: hashmap_insert_new_def hashmap_needs_to_grow_def split: if_splits)
qed

lemma hashmap_insert_new_ctx:
  "hashmap_insert_new alloc m k v = (m', err) \<Longrightarrow>
     hash_fn m' = hash_fn m \<and> equal_fn m' = equal_fn m \<and> ctx m' = ctx m"
  using hashmap_grow_callbacks [of alloc m]
  by (auto simp: hashmap_insert_new_def hashmap_push_def Let_def split: sum.splits if_splits)

lemma index_insert:
  assumes wf: "index_wf strs m" and start: "str_start strs off"
    and r: "r = hashmap__insert alloc m off off HASHMAP_ADD"
  shows "index_wf strs (ins_map r)"
    and "ins_err r = None \<Longrightarrow> hashmap__find m off = None \<and>
      (\<forall>k. hashmap__find (ins_map r) k = (if cstr (drop off strs) = cstr (drop k strs) then Some off else hashmap__find m k))"
    and "ins_err r = Some EEXIST \<Longrightarrow> ins_map r = m \<and> hashmap__find m off = old_key r \<and> old_key r \<noteq> None"
    and "ins_err r \<in> {None, Some EEXIST, Some ENOMEM}"
    and "ins_err r \<noteq> None \<Longrightarrow> hashmap__find (ins_map r) = hashmap__find m"
    and "ins_err r \<noteq> None \<Longrightarrow> set (concat (buckets (ins_map r))) = set (concat (buckets m))"
proof -
  have inv: "hashmap_inv m" and uniq: "unique_keys m" using wf by (simp_all add: index_wf_def)
  note cb = index_wf_callbacks [OF wf]
  note ref = strs_index.insert_refines [OF inv cb uniq _ r, simplified]
  obtain m1 err where new: "hashmap_insert_new alloc m off off = (m1, err)" by fastforce
  have errs: "err = None \<or> err = Some ENOMEM" using strs_index.insert_new_values(3) [OF inv cb new] by blast
  have "set (hashmap__for_each_entry m1) \<subseteq> insert \<lparr>key = off, hvalue = off\<rparr> (set (hashmap__for_each_entry m))"
    using arg_cong [OF hashmap_insert_new_entries [OF inv new], of set_mset] by (auto split: if_splits)
  then have m1: "\<forall>e \<in> set (hashmap__for_each_entry m1). hvalue e = key e \<and> str_start strs (key e)"
    using wf start by (auto simp: index_wf_def)
  have "set (concat (buckets m1)) = set (concat (buckets m))" if "err \<noteq> None"
    using arg_cong [OF hashmap_insert_new_entries [OF inv new], of set_mset] that
    by (simp add: hashmap__for_each_entry_def del: set_concat)
  then show "ins_err r \<noteq> None \<Longrightarrow> set (concat (buckets (ins_map r))) = set (concat (buckets m))"
    by (auto simp: r hashmap__insert_def Let_def new simp del: set_concat split: option.splits)
  have map: "ins_map r = m \<or> ins_map r = m1"
    by (auto simp: r hashmap__insert_def Let_def new split: option.splits)
  show "index_wf strs (ins_map r)"
    using map wf m1 hashmap_insert_new_ctx [OF new] ref(1)
      strs_index.insert_keeps(1) [OF inv cb, of alloc off off HASHMAP_ADD, folded r]
    by (auto simp: index_wf_def)
  show "ins_err r \<in> {None, Some EEXIST, Some ENOMEM}"
    using errs by (auto simp: r hashmap__insert_def Let_def new split: option.splits)
  show "ins_err r \<noteq> None \<Longrightarrow> hashmap__find (ins_map r) = hashmap__find m"
    using ref(2,3) by (cases "ins_err r = Some ENOMEM") (auto simp: insert_spec_def split: option.splits)
  show "hashmap__find m off = None \<and>
      (\<forall>k. hashmap__find (ins_map r) k = (if cstr (drop off strs) = cstr (drop k strs) then Some off else hashmap__find m k))"
    if "ins_err r = None"
    using ref(2) that by (auto simp: insert_spec_def map_put_def strs_hash_equal_fn_def split: option.splits)
  show "ins_map r = m \<and> hashmap__find m off = old_key r \<and> old_key r \<noteq> None" if ee: "ins_err r = Some EEXIST"
  proof -
    obtain i e where f: "hashmap_find_entry m off (slot_of m off) = Some (i, e)"
      using ee errs
      by (cases "hashmap_find_entry m off (slot_of m off)") (auto simp: r hashmap__insert_def Let_def new)
    then have "hashmap__find m off = Some (hvalue e)" by (simp add: hashmap__find_def)
    moreover have "hvalue e = key e"
    proof -
      have "buckets m \<noteq> []" "e \<in> set (buckets m ! slot_of m off)"
        using f by (auto simp: hashmap_find_entry_def split: if_splits dest!: chain_find_Some)
      moreover have "slot_of m off < length (buckets m)"
        using calculation(1) slot_of_less [OF inv, of off] hashmap_inv_length [OF inv]
        by (cases "cap m = 0") auto
      ultimately have "e \<in> set (hashmap__for_each_entry m)"
        by (auto simp: hashmap__for_each_entry_def)
      then show ?thesis using wf by (simp add: index_wf_def)
    qed
    ultimately show ?thesis using f by (simp add: r hashmap__insert_def Let_def)
  qed
qed

subsection \<open>Building the index\<close>

lemma cstr_end:
  assumes "terminated strs" "off < length strs"
  shows "off + length (cstr (drop off strs)) < length strs"
    "strs ! (off + length (cstr (drop off strs))) = NUL"
    "\<And>i. off \<le> i \<Longrightarrow> i < off + length (cstr (drop off strs)) \<Longrightarrow> strs ! i \<noteq> NUL"
proof -
  obtain xs ys where d: "drop off strs = xs @ NUL # ys" "NUL \<notin> set xs"
    using split_list_first [OF NUL_in_drop [OF assms]] by blast
  then have c: "cstr (drop off strs) = xs" by (simp add: cstring_def)
  have nth: "strs ! (off + i) = (xs @ NUL # ys) ! i" for i
    using arg_cong [OF d(1), of "\<lambda>l. l ! i"] assms(2) by simp
  show "off + length (cstr (drop off strs)) < length strs"
    using arg_cong [OF d(1), of length] by (simp add: c)
  show "strs ! (off + length (cstr (drop off strs))) = NUL" by (simp add: c nth)
  show "strs ! i \<noteq> NUL" if "off \<le> i" "i < off + length (cstr (drop off strs))" for i
  proof -
    have "strs ! i = xs ! (i - off)" "xs ! (i - off) \<in> set xs"
      using nth [of "i - off"] that by (auto simp: c nth_append)
    then show ?thesis using d(2) by metis
  qed
qed

lemma index_strs_ok:
  assumes "index_wf strs m" "index_complete strs off m" "terminated strs"
    "off \<le> length strs" "off < length strs \<Longrightarrow> str_start strs off"
  shows "case index_strs alloc strs off m of
      Inl e \<Rightarrow> e = ENOMEM
    | Inr m' \<Rightarrow> index_wf strs m' \<and> index_complete strs (length strs) m'"
  using assms
proof (induction alloc strs off m rule: index_strs.induct)
  case (1 alloc strs off m)
  show ?case
  proof (cases "off < length strs")
    case False
    with "1.prems" show ?thesis by (subst index_strs.simps) (simp add: index_complete_def)
  next
    case True
    let ?r = "hashmap__add alloc m off off" and ?next = "off + length (cstr (drop off strs)) + 1"
    note nul = NUL_in_drop [OF "1.prems"(3) True]
    note e = cstr_end [OF "1.prems"(3) True]
    note ins = index_insert [OF "1.prems"(1) "1.prems"(5) [OF True] hashmap__add_def]
    show ?thesis
    proof (cases "ins_err ?r = None \<or> ins_err ?r = Some EEXIST")
      case ok: True
      have same: "hashmap__find (ins_map ?r) off \<noteq> None" "hashmap__find m k \<noteq> None \<Longrightarrow> hashmap__find (ins_map ?r) k \<noteq> None" for k
        using ok ins(2) ins(3) ins(5) by (fastforce, fastforce)
      have found: "hashmap__find (ins_map ?r) k \<noteq> None" if "str_start strs k" "k < ?next" for k
      proof (cases "k < off")
        case True
        then have "hashmap__find m k \<noteq> None" using "1.prems"(2) that by (simp add: index_complete_def)
        then show ?thesis using same by auto
      next
        case False
        have "k = off"
        proof (rule ccontr)
          assume "k \<noteq> off"
          with False that have "strs ! (k - 1) = NUL" "off \<le> k - 1" "k - 1 < off + length (cstr (drop off strs))"
            by (auto simp: str_start_def)
          with e(3) show False by blast
        qed
        then show ?thesis using same by auto
      qed
      have start: "str_start strs ?next" if "?next < length strs" using e(2) that by (simp add: str_start_def)
      have "case index_strs alloc strs ?next (ins_map ?r) of
          Inl e \<Rightarrow> e = ENOMEM
        | Inr m' \<Rightarrow> index_wf strs m' \<and> index_complete strs (length strs) m'"
      proof (rule "1.IH" [OF True _ refl ok])
        show "\<not> NUL \<notin> set (drop off strs)" using nul by simp
        show "index_wf strs (ins_map ?r)" by (rule ins(1))
        show "index_complete strs ?next (ins_map ?r)" using found by (simp add: index_complete_def)
        show "?next \<le> length strs" using e(1) by simp
      qed (use "1.prems"(3) start in auto)
      then show ?thesis using True nul ok by (subst index_strs.simps) (simp add: Let_def)
    next
      case False
      with True nul show ?thesis by (subst index_strs.simps) (auto simp: Let_def)
    qed
  qed
qed

subsection \<open>The invariant of the writer\<close>

definition index_ok :: "btf_data \<Rightarrow> bool" where
  "index_ok d \<longleftrightarrow>
     (\<exists>m. strs_hash d = Some m \<and> index_wf (strs_data d) (m\<lparr>ctx := strs_data d\<rparr>) \<and>
          index_complete (strs_data d) (length (strs_data d)) (m\<lparr>ctx := strs_data d\<rparr>)) \<and>
     strs_data_cap d \<le> BTF_MAX_STR_OFFSET + 1 \<and> types_data_cap d \<le> UINT_MAX"

definition own_inv :: "bool \<Rightarrow> btf_data \<Rightarrow> btf_type list \<Rightarrow> bool" where
  "own_inv has_base d ts \<longleftrightarrow>
     btf_repr d ts \<and> strs_ok has_base d \<and>
     length (hdr_bytes d) = unat (hdr_len (hdr d)) \<and> sizeof_btf_header \<le> unat (hdr_len (hdr d)) \<and>
     (modifiable d \<longrightarrow> index_ok d)"

text \<open>A BTF without a base, or split over one without a base, whose own types are \<open>ts\<close>.\<close>

definition btf_inv :: "btf \<Rightarrow> btf_type list \<Rightarrow> bool" where
  "btf_inv b ts \<longleftrightarrow> own_inv (base_btf b \<noteq> None) (own b) ts \<and>
     (case base_btf b of
        None \<Rightarrow> start_id (own b) = 1 \<and> start_str_off (own b) = 0
      | Some b0 \<Rightarrow> base_btf b0 = None \<and> start_id (own b0) = 1 \<and> start_str_off (own b0) = 0 \<and>
          (\<exists>ts0. own_inv False (own b0) ts0 \<and> start_id (own b) = length ts0 + 1) \<and>
          start_str_off (own b) = length (strs_data (own b0)))"

lemma strs_ok_terminated: "strs_ok h d \<Longrightarrow> terminated (strs_data d)"
  by (simp add: strs_ok_def terminated_def)

lemma own_inv_terminated: "own_inv h d ts \<Longrightarrow> terminated (strs_data d)"
  using strs_ok_terminated by (auto simp: own_inv_def)

text \<open>What an operation that only touches strings and caches leaves alone.\<close>

definition frame :: "btf_data \<Rightarrow> btf_data \<Rightarrow> bool" where
  "frame d d' \<longleftrightarrow>
     types_data d' = types_data d \<and> type_offs d' = type_offs d \<and> nr_types d' = nr_types d \<and>
     start_id d' = start_id d \<and> start_str_off d' = start_str_off d \<and>
     hdr_extra d' = hdr_extra d \<and> (\<exists>n. hdr d' = (hdr d)\<lparr>str_len := n\<rparr>) \<and>
     (\<exists>x. strs_data d' = strs_data d @ x)"

lemma frame_refl [simp]: "frame d d"
  by (auto simp: frame_def intro: exI [of _ "str_len (hdr d)"])

lemma frame_trans: "frame a b \<Longrightarrow> frame b c \<Longrightarrow> frame a c"
  by (auto simp: frame_def)

lemma frame_repr: "frame d d' \<Longrightarrow> btf_repr d' ts = btf_repr d ts"
  by (auto simp: frame_def btf_repr_def)

lemma frame_hdr_bytes: "frame d d' \<Longrightarrow> length (hdr_bytes d') = length (hdr_bytes d)"
  by (auto simp: frame_def hdr_bytes_def)

subsection \<open>Strings\<close>

lemma index_wf_init: "index_wf strs (hashmap__init strs_hash_fn strs_hash_equal_fn strs)"
  by (simp add: index_wf_def hashmap_inv_init unique_keys_def key_values_def hashmap__for_each_entry_def
      hashmap__init_def hashmap_inv_def)

lemma btf_split_regions_ok:
  assumes inv: "own_inv h (own b) ts"
  shows "case btf_split_regions alloc b of
      Inl e \<Rightarrow> e = ENOMEM
    | Inr b' \<Rightarrow> base_btf b' = base_btf b \<and> frame (own b) (own b') \<and> own_inv h (own b') ts \<and>
        modifiable (own b') \<and> strs_data (own b') = strs_data (own b)"
proof -
  let ?d = "own b" and ?strs = "strs_data (own b)"
  let ?m = "hashmap__init strs_hash_fn strs_hash_equal_fn ?strs"
  have lens: "length (hdr_bytes ?d) = unat (hdr_len (hdr ?d))" "sizeof_btf_header \<le> unat (hdr_len (hdr ?d))"
    "length (types_data ?d) = unat (type_len (hdr ?d))" "length ?strs = unat (str_len (hdr ?d))"
    "unat (str_len (hdr ?d)) \<le> BTF_MAX_STR_OFFSET + 1"
    using inv by (auto simp: own_inv_def btf_repr_def strs_ok_def)
  have idx: "case index_strs alloc ?strs 0 ?m of Inl e \<Rightarrow> e = ENOMEM
    | Inr m' \<Rightarrow> index_wf ?strs m' \<and> index_complete ?strs (length ?strs) m'"
    by (rule index_strs_ok [OF index_wf_init _ own_inv_terminated [OF inv]])
      (auto simp: index_complete_def str_start_def)
  have tcap: "unat (type_len (hdr ?d)) \<le> UINT_MAX"
    using unsigned_less [of "type_len (hdr ?d)", where 'a = nat] by (simp add: UINT_MAX_def)
  have state: "frame ?d d' \<and> own_inv h d' ts \<and> modifiable d' \<and> strs_data d' = ?strs"
    if "index_wf ?strs m'" "index_complete ?strs (length ?strs) m'"
      "d' = btf_invalidate_raw_data (?d\<lparr>modifiable := True, types_data_cap := unat (type_len (hdr ?d)),
         strs_data_cap := unat (str_len (hdr ?d)), strs_hash := Some m', strs_deduped := dd\<rparr>)" for m' d' dd
  proof -
    have "m'\<lparr>ctx := ?strs\<rparr> = m'" using that(1) by (auto simp: index_wf_def)
    then have "index_ok d'" using that lens(5) tcap by (simp add: index_ok_def btf_invalidate_raw_data_def)
    moreover have fr: "frame ?d d'"
      by (auto simp: that(3) frame_def btf_invalidate_raw_data_def intro: exI [of _ "str_len (hdr ?d)"])
    moreover have "strs_ok h d'" "hdr d' = hdr ?d" "modifiable d'" "strs_data d' = ?strs"
      using inv by (simp_all add: that(3) btf_invalidate_raw_data_def own_inv_def strs_ok_def)
    ultimately show ?thesis
      using inv frame_repr [OF fr] frame_hdr_bytes [OF fr] by (simp add: own_inv_def)
  qed
  show ?thesis
  proof (cases "index_strs alloc ?strs 0 ?m")
    case (Inl e)
    with idx lens show ?thesis
      by (simp add: btf_split_regions_def Let_def hashmap__new_def guard_def)
  next
    case (Inr m')
    with idx have m': "index_wf ?strs m'" "index_complete ?strs (length ?strs) m'" by simp_all
    from Inr lens state [OF m' refl] show ?thesis
      by (simp add: btf_split_regions_def Let_def hashmap__new_def guard_def)
  qed
qed

lemma btf_ensure_modifiable_ok:
  assumes inv: "own_inv h (own b) ts" and run: "btf_ensure_modifiable alloc b = (r, b')"
  shows "base_btf b' = base_btf b" "frame (own b) (own b')" "own_inv h (own b') ts"
    "r = Inr () \<and> modifiable (own b') \<or> r = Inl ENOMEM" "strs_data (own b') = strs_data (own b)"
proof -
  have inval: "own_inv h (btf_invalidate_raw_data d) ts = own_inv h d ts" "frame d (btf_invalidate_raw_data d)"
    "strs_data (btf_invalidate_raw_data d) = strs_data d" "modifiable (btf_invalidate_raw_data d) = modifiable d" for d
    by (auto simp: btf_invalidate_raw_data_def own_inv_def btf_repr_def strs_ok_def hdr_bytes_def
        index_ok_def frame_def intro: exI [of _ "str_len (hdr d)"])
  have "base_btf b' = base_btf b \<and> frame (own b) (own b') \<and> own_inv h (own b') ts \<and>
      (r = Inr () \<and> modifiable (own b') \<or> r = Inl ENOMEM) \<and> strs_data (own b') = strs_data (own b)"
    using run btf_split_regions_ok [OF inv, of alloc] inv
    by (auto simp: btf_ensure_modifiable_def inval split: if_splits sum.splits)
  then show "base_btf b' = base_btf b" "frame (own b) (own b')" "own_inv h (own b') ts"
    "r = Inr () \<and> modifiable (own b') \<or> r = Inl ENOMEM" "strs_data (own b') = strs_data (own b)" by auto
qed

lemma frame_caps: "frame d (d\<lparr>strs_data_cap := c\<rparr>)" "frame d (d\<lparr>types_data_cap := c\<rparr>)"
  by (auto simp: frame_def intro: exI [of _ "str_len (hdr d)"])

lemma own_inv_caps:
  "own_inv h d ts \<Longrightarrow> c \<le> BTF_MAX_STR_OFFSET + 1 \<Longrightarrow> own_inv h (d\<lparr>strs_data_cap := c\<rparr>) ts"
  "own_inv h d ts \<Longrightarrow> c \<le> UINT_MAX \<Longrightarrow> own_inv h (d\<lparr>types_data_cap := c\<rparr>) ts"
  by (auto simp: own_inv_def btf_repr_def strs_ok_def hdr_bytes_def index_ok_def)

lemma btf_add_mem_limit:
  "btf_add_mem alloc cp 1 cur mx n = Some c \<Longrightarrow> cp \<le> lim \<Longrightarrow> mx \<le> lim \<Longrightarrow> cur + n \<le> c \<and> c \<le> lim"
  by (auto simp: btf_add_mem_def Let_def split: if_splits)

lemma btf_add_str_mem_ok:
  assumes inv: "own_inv h (own b) ts" "modifiable (own b)" and run: "btf_add_str_mem alloc n b = (r, b')"
  shows "base_btf b' = base_btf b" "frame (own b) (own b')" "own_inv h (own b') ts" "modifiable (own b')"
    "strs_data (own b') = strs_data (own b)"
    "r = Inr () \<and> length (strs_data (own b)) + n \<le> BTF_MAX_STR_OFFSET + 1 \<or> r = Inl ENOMEM"
proof -
  have cp: "strs_data_cap (own b) \<le> BTF_MAX_STR_OFFSET + 1"
    and len: "unat (str_len (hdr (own b))) = length (strs_data (own b))"
    using inv by (auto simp: own_inv_def index_ok_def strs_ok_def)
  have "base_btf b' = base_btf b \<and> frame (own b) (own b') \<and> own_inv h (own b') ts \<and> modifiable (own b') \<and>
    strs_data (own b') = strs_data (own b) \<and>
    (r = Inr () \<and> length (strs_data (own b)) + n \<le> BTF_MAX_STR_OFFSET + 1 \<or> r = Inl ENOMEM)"
  proof (cases "btf_add_mem alloc (strs_data_cap (own b)) 1 (length (strs_data (own b))) BTF_MAX_STR_OFFSET n")
    case None
    with run inv show ?thesis by (auto simp: btf_add_str_mem_def len)
  next
    case (Some c)
    from btf_add_mem_limit [OF Some cp] have "length (strs_data (own b)) + n \<le> c" "c \<le> BTF_MAX_STR_OFFSET + 1" by auto
    with run inv Some own_inv_caps(1) [OF inv(1), of c] show ?thesis
      by (auto simp: btf_add_str_mem_def len frame_caps)
  qed
  then show "base_btf b' = base_btf b" "frame (own b) (own b')" "own_inv h (own b') ts" "modifiable (own b')"
    "strs_data (own b') = strs_data (own b)"
    "r = Inr () \<and> length (strs_data (own b)) + n \<le> BTF_MAX_STR_OFFSET + 1 \<or> r = Inl ENOMEM" by auto
qed

lemma index_of_wf:
  assumes inv: "own_inv h d ts" "modifiable d"
  shows "index_wf (strs_with d s) (index_of d (strs_with d s))"
    "\<And>off. str_start (strs_data d) off \<Longrightarrow> hashmap__find (index_of d (strs_with d s)) off \<noteq> None"
proof -
  obtain m where m: "strs_hash d = Some m" "index_wf (strs_data d) (m\<lparr>ctx := strs_data d\<rparr>)"
    "index_complete (strs_data d) (length (strs_data d)) (m\<lparr>ctx := strs_data d\<rparr>)"
    using inv by (auto simp: own_inv_def index_ok_def)
  note nul = own_inv_terminated [OF inv(1)]
  show wf: "index_wf (strs_with d s) (index_of d (strs_with d s))"
    using index_extend(1) [OF m(2) nul, of "cstr s @ [NUL]"] m(1) by (simp add: index_of_def strs_with_def)
  show "hashmap__find (index_of d (strs_with d s)) off \<noteq> None" if "str_start (strs_data d) off" for off
    using index_extend(2) [OF m(2) nul, where k = off and x = "cstr s @ [NUL]"] m(1,3) that
    by (auto simp: index_of_def strs_with_def index_complete_def str_start_def)
qed

lemma index_of_values:
  assumes inv: "own_inv h d ts" "modifiable d"
    and find: "hashmap__find (index_of d (strs_with d s)) k = Some v"
  shows "str_start (strs_data d) v"
proof -
  obtain m where m: "strs_hash d = Some m" "index_wf (strs_data d) (m\<lparr>ctx := strs_data d\<rparr>)"
    using inv by (auto simp: own_inv_def index_ok_def)
  note wf = index_of_wf(1) [OF inv, of s]
  have "v \<in> set (key_values (index_of d (strs_with d s)) k)"
    using find strs_index.find_key_values [OF _ index_wf_callbacks [OF wf], of k] wf
    by (auto simp: index_wf_def split: list.splits)
  then obtain e where e: "e \<in> set (concat (buckets m))" "hvalue e = v"
    using m(1) by (auto simp: key_values_ctx index_of_def)
  then show ?thesis using m(2) by (auto simp: index_wf_def hashmap__for_each_entry_def)
qed

lemma drop_strs_with [simp]: "drop (length (strs_data d)) (strs_with d s) = cstr s @ [NUL]"
  by (simp add: strs_with_def)

lemma cstr_strs_with:
  assumes "terminated (strs_data d)" "off < length (strs_data d)"
  shows "cstr (drop off (strs_with d s)) = cstr (drop off (strs_data d))"
  using cstr_drop_append [OF assms] by (simp add: strs_with_def del: drop_append)

lemma cstr_with_NUL [simp]: "cstr (cstr s @ [NUL]) = cstr s"
  by (simp add: cstr_NUL)

lemma index_lookup:
  assumes inv: "own_inv h d ts" "modifiable d"
  shows "case hashmap__find (index_of d (strs_with d s)) (length (strs_data d)) of
      Some v \<Rightarrow> cstr (drop v (strs_data d)) = cstr s \<and> str_start (strs_data d) v
    | None \<Rightarrow> \<forall>off. str_start (strs_data d) off \<longrightarrow> cstr (drop off (strs_data d)) \<noteq> cstr s"
proof -
  let ?m = "index_of d (strs_with d s)" and ?n = "length (strs_data d)"
  note wf = index_of_wf(1) [OF inv, of s] and nul = own_inv_terminated [OF inv(1)]
  have "hashmap__find ?m ?n \<noteq> None" if off: "str_start (strs_data d) off" "cstr (drop off (strs_data d)) = cstr s" for off
  proof -
    have "strs_hash_equal_fn (strs_with d s) off ?n"
      using off cstr_strs_with [OF nul] by (simp add: strs_hash_equal_fn_def str_start_def)
    then have "key_values ?m off = key_values ?m ?n"
      by (rule strs_index.key_values_cong [OF index_wf_callbacks [OF wf]])
    then show ?thesis
      using index_of_wf(2) [OF inv off(1), of s] wf strs_index.find_key_values [OF _ index_wf_callbacks [OF wf]]
      by (simp add: index_wf_def)
  qed
  moreover have "cstr (drop v (strs_data d)) = cstr s \<and> str_start (strs_data d) v" if "hashmap__find ?m ?n = Some v" for v
    using index_find_value(2) [OF wf that] index_of_values [OF inv that] cstr_strs_with [OF nul, of v]
    by (simp add: str_start_def)
  ultimately show ?thesis by (auto split: option.splits)
qed

lemma own_str_by_offset:
  assumes "own_inv h (own b) ts" "off < length (strs_data (own b))"
  shows "btf__str_by_offset b (start_str_off (own b) + off) = Inr (Some (cstr (drop off (strs_data (own b)))))"
  using assms by (cases b) (auto simp: own_inv_def strs_ok_def)

lemma op_bind_run:
  "op_bind m f b = (r, b') \<longleftrightarrow>
     (\<exists>e. m b = (Inl e, b') \<and> r = Inl e) \<or> (\<exists>x b1. m b = (Inr x, b1) \<and> f x b1 = (r, b'))"
  by (auto simp: op_bind_def split: sum.splits prod.splits)

definition no_such_str :: "btf_data \<Rightarrow> string \<Rightarrow> bool" where
  "no_such_str d s \<longleftrightarrow> (\<forall>off. str_start (strs_data d) off \<longrightarrow> cstr (drop off (strs_data d)) \<noteq> cstr s)"

lemma find_str_own_ok:
  assumes inv: "own_inv h (own b) ts" and run: "find_str_own alloc s b = (r, b')"
  shows "base_btf b' = base_btf b \<and> frame (own b) (own b') \<and> own_inv h (own b') ts \<and>
    strs_data (own b') = strs_data (own b) \<and>
    (case r of Inl e \<Rightarrow> e = ENOMEM \<or> e = ENOENT \<and> no_such_str (own b) s
     | Inr off \<Rightarrow> \<exists>v. str_start (strs_data (own b)) v \<and> off = start_str_off (own b) + v \<and>
         cstr (drop v (strs_data (own b))) = cstr s)"
proof -
  obtain r1 b1 where e1: "btf_ensure_modifiable alloc b = (r1, b1)" by fastforce
  note m1 = btf_ensure_modifiable_ok [OF inv e1]
  show ?thesis
  proof (cases r1)
    case (Inl e)
    then show ?thesis using run e1 m1 by (auto simp: find_str_own_def op_bind_run)
  next
    case (Inr u)
    obtain r2 b2 where e2: "btf_add_str_mem alloc (length (cstr s) + 1) b1 = (r2, b2)" by fastforce
    have mod: "modifiable (own b1)" using m1(4) Inr by auto
    note m2 = btf_add_str_mem_ok [OF m1(3) mod e2]
    have fr: "frame (own b) (own b2)" using frame_trans [OF m1(2) m2(2)] .
    show ?thesis
    proof (cases r2)
      case (Inl e)
      then show ?thesis using run e1 e2 Inr m1 m2 fr by (auto simp: find_str_own_def op_bind_run)
    next
      case i2: (Inr u2)
      have len: "unat (str_len (hdr (own b2))) = length (strs_data (own b2))"
        using m2(3) by (auto simp: own_inv_def strs_ok_def)
      have soff: "start_str_off (own b2) = start_str_off (own b)" using fr by (simp add: frame_def)
      have run2: "b' = b2" "r = (case hashmap__find (index_of (own b2) (strs_with (own b2) s)) (length (strs_data (own b2))) of
          Some old \<Rightarrow> Inr (start_str_off (own b2) + old) | None \<Rightarrow> Inl ENOENT)"
        using run e1 e2 Inr i2 len by (auto simp: find_str_own_def op_bind_run op_get_def Let_def)
      show ?thesis
        using index_lookup [OF m2(3,4), of s] m1 m2 fr soff
        by (auto simp: run2 no_such_str_def split: option.splits)
    qed
  qed
qed

lemma strs_with_starts:
  assumes "terminated (strs_data d)"
  shows "str_start (strs_with d s) (length (strs_data d))"
    and "str_start (strs_with d s) off \<Longrightarrow> off = length (strs_data d) \<or> str_start (strs_data d) off"
proof -
  show "str_start (strs_with d s) (length (strs_data d))"
    using assms by (cases "strs_data d" rule: rev_cases)
      (auto simp: str_start_def strs_with_def terminated_def nth_append)
  assume start: "str_start (strs_with d s) off"
  show "off = length (strs_data d) \<or> str_start (strs_data d) off"
  proof (cases "off \<le> length (strs_data d)")
    case True
    then show ?thesis using start by (auto simp: str_start_def strs_with_def nth_append split: if_splits)
  next
    case False
    then have "off - 1 - length (strs_data d) < length (cstr s)" "strs_with d s ! (off - 1) = NUL"
      using start by (auto simp: str_start_def strs_with_def)
    with False have "cstr s ! (off - 1 - length (strs_data d)) = NUL"
      by (simp add: strs_with_def nth_append split: if_splits)
    with \<open>off - 1 - length (strs_data d) < length (cstr s)\<close> cstring_cstr [of s] show ?thesis
      by (metis cstring_def nth_mem)
  qed
qed

lemma str_len_grow:
  assumes "unat (str_len (hdr d)) = length (strs_data d)"
    and "length (strs_data d) + n \<le> BTF_MAX_STR_OFFSET + 1"
  shows "unat (str_len (hdr d) + of_nat n) = length (strs_data d) + n"
  using assms by (simp add: unat_word_ariths unat_of_nat BTF_MAX_STR_OFFSET_def)

lemma own_inv_new_str:
  assumes inv: "own_inv h d ts" and room: "length (strs_data d) + (length (cstr s) + 1) \<le> BTF_MAX_STR_OFFSET + 1"
    and m: "index_wf (strs_with d s) m" "index_complete (strs_with d s) (length (strs_with d s)) m"
    and d': "d' = d\<lparr>strs_hash := Some m, strs_data := strs_with d s,
      hdr := (hdr d)\<lparr>str_len := str_len (hdr d) + of_nat (length (cstr s) + 1)\<rparr>\<rparr>"
  shows "frame d d'" "modifiable d \<Longrightarrow> own_inv h d' ts"
proof -
  show fr: "frame d d'" by (auto simp: d' frame_def strs_with_def)
  have sl: "unat (str_len (hdr d) + of_nat (length (cstr s) + 1)) = length (strs_data d) + (length (cstr s) + 1)"
    using inv room by (intro str_len_grow) (auto simp: own_inv_def strs_ok_def)
  have "strs_ok h d'"
    using inv room sl by (auto simp: own_inv_def strs_ok_def d' strs_with_def)
  moreover have "m\<lparr>ctx := strs_with d s\<rparr> = m" using m(1) by (auto simp: index_wf_def)
  then have "modifiable d \<Longrightarrow> index_ok d'"
    using inv m by (simp add: index_ok_def d' own_inv_def)
  moreover have "hdr_len (hdr d') = hdr_len (hdr d)" "modifiable d' = modifiable d" by (simp_all add: d')
  ultimately show "own_inv h d' ts" if "modifiable d"
    using inv that frame_repr [OF fr] frame_hdr_bytes [OF fr] by (simp add: own_inv_def)
qed

lemma own_inv_same_strs:
  assumes inv: "own_inv h d ts" and "modifiable d"
    and m: "index_wf (strs_with d s) m" "\<And>e. e \<in> set (concat (buckets m)) \<Longrightarrow> str_start (strs_data d) (key e)"
    "\<And>k. str_start (strs_data d) k \<Longrightarrow> hashmap__find m k \<noteq> None"
  shows "frame d (d\<lparr>strs_hash := Some m\<rparr>)" "own_inv h (d\<lparr>strs_hash := Some m\<rparr>) ts"
proof -
  note nul = own_inv_terminated [OF inv]
  note sh = index_shrink [OF m(1) [unfolded strs_with_def] nul m(2)]
  show fr: "frame d (d\<lparr>strs_hash := Some m\<rparr>)" by (auto simp: frame_def intro: exI [of _ "str_len (hdr d)"])
  have "index_ok (d\<lparr>strs_hash := Some m\<rparr>)"
    using inv assms(2) sh m(3) by (auto simp: index_ok_def own_inv_def index_complete_def)
  then show "own_inv h (d\<lparr>strs_hash := Some m\<rparr>) ts"
    using inv frame_repr [OF fr] frame_hdr_bytes [OF fr] by (simp add: own_inv_def strs_ok_def)
qed

lemma add_str_insert_ok:
  assumes inv: "own_inv h (own b) ts" "modifiable (own b)"
    and room: "length (strs_data (own b)) + (length (cstr s) + 1) \<le> BTF_MAX_STR_OFFSET + 1"
    and run: "add_str_insert alloc s b = (r, b')"
  shows "base_btf b' = base_btf b \<and> frame (own b) (own b') \<and> own_inv h (own b') ts \<and>
    (case r of Inl e \<Rightarrow> e = ENOMEM \<and> strs_data (own b') = strs_data (own b)
     | Inr off \<Rightarrow> (\<exists>v < length (strs_data (own b')). off = start_str_off (own b) + v \<and>
           cstr (drop v (strs_data (own b'))) = cstr s) \<and>
         strs_data (own b') =
           (if no_such_str (own b) s then strs_data (own b) @ cstr s @ [NUL] else strs_data (own b)))"
proof -
  let ?d = "own b" and ?mem = "strs_with (own b) s" and ?n = "length (strs_data (own b))"
  let ?m = "index_of ?d ?mem"
  define q where "q = hashmap__insert alloc ?m ?n ?n HASHMAP_ADD"
  note nul = own_inv_terminated [OF inv(1)]
  note wf = index_of_wf(1) [OF inv, of s]
  note ins = index_insert [OF wf strs_with_starts(1) [OF nul] q_def]
  have len: "unat (str_len (hdr ?d)) = ?n" using inv by (auto simp: own_inv_def strs_ok_def)
  have found: "hashmap__find ?m k \<noteq> None" if "str_start (strs_data ?d) k" for k
    using index_of_wf(2) [OF inv that] .
  have keys: "str_start (strs_data ?d) (key e)" if "e \<in> set (concat (buckets ?m))" for e
  proof -
    obtain m where "strs_hash ?d = Some m" "index_wf (strs_data ?d) (m\<lparr>ctx := strs_data ?d\<rparr>)"
      using inv by (auto simp: own_inv_def index_ok_def)
    then show ?thesis using index_wf_entries [of "strs_data ?d" "m\<lparr>ctx := strs_data ?d\<rparr>" e] that
      by (simp add: index_of_def)
  qed
  have run': "(r, b') = (case ins_err q of
      Some e \<Rightarrow> if e = EEXIST then (Inr (start_str_off ?d + the (old_key q)), upd_own (\<lambda>d. d\<lparr>strs_hash := Some (ins_map q)\<rparr>) b)
        else (Inl e, upd_own (\<lambda>d. d\<lparr>strs_hash := Some (ins_map q)\<rparr>) b)
    | None \<Rightarrow> (Inr (start_str_off ?d + ?n), upd_own (\<lambda>d. d\<lparr>strs_hash := Some (ins_map q), strs_data := ?mem,
        hdr := (hdr d)\<lparr>str_len := str_len (hdr d) + of_nat (length (cstr s) + 1)\<rparr>\<rparr>) b))"
    unfolding run [symmetric] add_str_insert_def Let_def len q_def [symmetric]
    by (simp add: strs_with_def upd_own_def split: option.split)
  consider "ins_err q = None" | "ins_err q = Some EEXIST" | "ins_err q = Some ENOMEM" using ins(4) by auto
  then show ?thesis
  proof cases
    case 1
    have "hashmap__find (ins_map q) k \<noteq> None" if "str_start ?mem k" for k
      using strs_with_starts(2) [OF nul that] found ins(2) [OF 1] by auto
    then have compl: "index_complete ?mem (length ?mem) (ins_map q)" by (simp add: index_complete_def)
    note new = own_inv_new_str [OF inv(1) room ins(1) compl refl]
    have "no_such_str ?d s"
      using index_lookup [OF inv, of s] ins(2) [OF 1] by (simp add: no_such_str_def)
    then show ?thesis using run' 1 new inv(2)
      by (auto simp: strs_with_def intro!: exI [of _ ?n])
  next
    case 2
    note ex = ins(3) [OF 2]
    note same = own_inv_same_strs [OF inv wf keys found]
    obtain v where v: "old_key q = Some v" "hashmap__find ?m ?n = Some v" using ex by auto
    have sv: "cstr (drop v (strs_data ?d)) = cstr s" "str_start (strs_data ?d) v"
      using index_lookup [OF inv, of s] v(2) by simp_all
    then have "\<not> no_such_str ?d s" by (auto simp: no_such_str_def)
    then show ?thesis using run' 2 same ex v sv by (auto simp: str_start_def)
  next
    case 3
    have "e \<in> set (concat (buckets (ins_map q))) \<Longrightarrow> str_start (strs_data ?d) (key e)" for e
      using keys ins(6) 3 by (simp del: set_concat)
    moreover have "str_start (strs_data ?d) k \<Longrightarrow> hashmap__find (ins_map q) k \<noteq> None" for k
      using found ins(5) 3 by simp
    ultimately show ?thesis using run' 3 own_inv_same_strs [OF inv ins(1)] by auto
  qed
qed

lemma add_str_own_ok:
  assumes inv: "own_inv h (own b) ts" and run: "add_str_own alloc s b = (r, b')"
  shows "base_btf b' = base_btf b \<and> frame (own b) (own b') \<and> own_inv h (own b') ts \<and>
    (case r of Inl e \<Rightarrow> e = ENOMEM \<and> strs_data (own b') = strs_data (own b)
     | Inr off \<Rightarrow> (\<exists>v < length (strs_data (own b')). off = start_str_off (own b) + v \<and>
           cstr (drop v (strs_data (own b'))) = cstr s) \<and>
         strs_data (own b') =
           (if no_such_str (own b) s then strs_data (own b) @ cstr s @ [NUL] else strs_data (own b)))"
proof -
  obtain r1 b1 where e1: "btf_ensure_modifiable alloc b = (r1, b1)" by fastforce
  note m1 = btf_ensure_modifiable_ok [OF inv e1]
  show ?thesis
  proof (cases r1)
    case (Inl e)
    then show ?thesis using run e1 m1 by (auto simp: add_str_own_def op_bind_run)
  next
    case (Inr u)
    obtain r2 b2 where e2: "btf_add_str_mem alloc (length (cstr s) + 1) b1 = (r2, b2)" by fastforce
    have mod: "modifiable (own b1)" using m1(4) Inr by auto
    note m2 = btf_add_str_mem_ok [OF m1(3) mod e2]
    have fr: "frame (own b) (own b2)" using frame_trans [OF m1(2) m2(2)] .
    show ?thesis
    proof (cases r2)
      case (Inl e)
      then show ?thesis using run e1 e2 Inr m1 m2 fr by (auto simp: add_str_own_def op_bind_run)
    next
      case i2: (Inr u2)
      have run2: "add_str_insert alloc s b2 = (r, b')"
        using run e1 e2 Inr i2 by (auto simp: add_str_own_def op_bind_run)
      have room: "length (strs_data (own b2)) + (length (cstr s) + 1) \<le> BTF_MAX_STR_OFFSET + 1"
        using m2(5,6) i2 by simp
      have "start_str_off (own b2) = start_str_off (own b)" using fr by (simp add: frame_def)
      moreover have "no_such_str (own b2) s = no_such_str (own b) s" "strs_data (own b2) = strs_data (own b)"
        using m1(5) m2(5) by (simp_all add: no_such_str_def)
      ultimately show ?thesis
        using add_str_insert_ok [OF m2(3,4) room run2] m1(1) m2(1) frame_trans [OF fr]
        by (auto split: sum.splits)
    qed
  qed
qed

lemma btf__find_str_base:
  assumes inv: "own_inv False (own b0) ts0" and "base_btf b0 = None" and run: "btf__find_str alloc s b0 = (r, b0')"
  shows "base_btf b0' = None \<and> frame (own b0) (own b0') \<and> own_inv False (own b0') ts0 \<and>
    strs_data (own b0') = strs_data (own b0) \<and>
    (case r of Inl e \<Rightarrow> e = ENOMEM \<or> e = ENOENT \<and> no_such_str (own b0) s
     | Inr off \<Rightarrow> \<exists>v. str_start (strs_data (own b0)) v \<and> off = start_str_off (own b0) + v \<and>
         cstr (drop v (strs_data (own b0))) = cstr s)"
  using find_str_own_ok [OF inv, of alloc s r b0'] assms by (cases b0) auto

lemma base_same_strs:
  assumes "base_btf b0 = None" "base_btf b0' = None" "frame (own b0) (own b0')"
    "strs_data (own b0') = strs_data (own b0)" "strs_ok h (own b0)" "strs_ok h (own b0')"
    "start_str_off (own b0) = 0"
  shows "btf__str_by_offset b0' off = btf__str_by_offset b0 off"
  using assms by (cases b0; cases b0') (auto simp: frame_def strs_ok_def)

lemma strs_grow:
  assumes "own_inv h d ts" "own_inv h d' ts" "frame d d'"
    and base: "\<And>off. off < start_str_off d \<Longrightarrow> case base of
        None \<Rightarrow> False
      | Some b0 \<Rightarrow> (\<exists>b0'. base' = Some b0' \<and> btf__str_by_offset b0' off = btf__str_by_offset b0 off)"
    and "btf__str_by_offset (Btf d base) off = Inr (Some str)"
  shows "btf__str_by_offset (Btf d' base') off = Inr (Some str)"
proof (cases "off < start_str_off d")
  case True
  then show ?thesis using base [OF True] assms(3,5) by (auto simp: frame_def split: option.splits)
next
  case False
  obtain x where x: "strs_data d' = strs_data d @ x" "start_str_off d' = start_str_off d"
    using assms(3) by (auto simp: frame_def)
  have lens: "unat (str_len (hdr d)) = length (strs_data d)" "unat (str_len (hdr d')) = length (strs_data d')"
    using assms(1,2) by (auto simp: own_inv_def strs_ok_def)
  have "off - start_str_off d < length (strs_data d)" "str = cstr (drop (off - start_str_off d) (strs_data d))"
    using assms(5) False lens by (auto split: if_splits)
  then show ?thesis
    using False x lens cstr_drop_append [OF own_inv_terminated [OF assms(1)], of "off - start_str_off d" x]
    by (simp del: drop_append)
qed

definition str_present :: "btf \<Rightarrow> string \<Rightarrow> bool" where
  "str_present b s \<longleftrightarrow> \<not> no_such_str (own b) s \<or>
     (case base_btf b of None \<Rightarrow> False | Some b0 \<Rightarrow> \<not> no_such_str (own b0) s)"

lemma own_inv_strs_ok: "own_inv h d ts \<Longrightarrow> strs_ok h d"
  by (simp add: own_inv_def)

text \<open>The strings of \<open>b\<close> are strings of \<open>b'\<close> at the same offsets.\<close>

definition strs_kept :: "btf \<Rightarrow> btf \<Rightarrow> bool" where
  "strs_kept b b' \<longleftrightarrow>
     (\<forall>off str. btf__str_by_offset b off = Inr (Some str) \<longrightarrow> btf__str_by_offset b' off = Inr (Some str))"

lemma btf_inv_frame:
  assumes inv: "btf_inv b ts" and own: "own_inv (base_btf b \<noteq> None) (own b') ts'"
    and base: "base_btf b' = base_btf b" and ids: "start_id (own b') = start_id (own b)"
      "start_str_off (own b') = start_str_off (own b)"
  shows "btf_inv b' ts'"
  using assms by (cases "base_btf b") (auto simp: btf_inv_def)

lemma btf_inv_base:
  assumes "btf_inv b ts" "base_btf b = Some b0"
  obtains ts0 where "base_btf b0 = None" "own_inv False (own b0) ts0" "start_id (own b0) = 1"
    "start_str_off (own b0) = 0" "start_id (own b) = length ts0 + 1"
    "start_str_off (own b) = length (strs_data (own b0))"
  using assms by (auto simp: btf_inv_def)

lemma strs_kept_own:
  assumes "own_inv h (own b) ts" "own_inv h (own b') ts" "frame (own b) (own b')" "base_btf b' = base_btf b"
    and "base_btf b = None \<Longrightarrow> start_str_off (own b) = 0"
  shows "strs_kept b b'"
  unfolding strs_kept_def
proof (intro allI impI)
  fix off str
  assume "btf__str_by_offset b off = Inr (Some str)"
  then have "btf__str_by_offset (Btf (own b') (base_btf b')) off = Inr (Some str)"
    using assms(4,5) by (intro strs_grow [OF assms(1-3), where base = "base_btf b"]) (auto split: option.splits)
  then show "btf__str_by_offset b' off = Inr (Some str)" by simp
qed

lemma btf__add_str_ok:
  assumes inv: "btf_inv b ts" and run: "btf__add_str alloc s b = (r, b')"
  shows "btf_inv b' ts \<and> frame (own b) (own b') \<and> (base_btf b' = None) = (base_btf b = None) \<and> strs_kept b b' \<and>
    (case r of
       Inl e \<Rightarrow> e = ENOMEM
     | Inr off \<Rightarrow> btf__str_by_offset b' off = Inr (Some (cstr s)) \<and>
         strs_data (own b') =
           (if str_present b s then strs_data (own b) else strs_data (own b) @ cstr s @ [NUL]))"
proof (cases "base_btf b")
  case None
  have own: "own_inv False (own b) ts" using inv None by (simp add: btf_inv_def)
  have run': "add_str_own alloc s b = (r, b')" using run None by (simp add: btf__add_str_def)
  note A = add_str_own_ok [OF own run']
  have inv': "btf_inv b' ts" using A None by (intro btf_inv_frame [OF inv]) (auto simp: frame_def)
  have kept: "strs_kept b b'"
    using A None inv by (intro strs_kept_own [OF own]) (auto simp: btf_inv_def)
  have "btf__str_by_offset b' off = Inr (Some (cstr s))" if "r = Inr off" for off
    using A that own_str_by_offset [of False b' ts] by (auto simp: frame_def)
  then show ?thesis using A None inv' kept by (auto simp: str_present_def split: sum.splits)
next
  case (Some b0)
  from inv Some obtain ts0 where base: "base_btf b0 = None" "own_inv False (own b0) ts0" "start_id (own b0) = 1"
    "start_str_off (own b0) = 0" "start_id (own b) = length ts0 + 1"
    "start_str_off (own b) = length (strs_data (own b0))" by (rule btf_inv_base)
  obtain r0 b0' where f: "btf__find_str alloc s b0 = (r0, b0')" by fastforce
  note F = btf__find_str_base [OF base(2,1) f]
  have same: "btf__str_by_offset b0' off = btf__str_by_offset b0 off" for off
    using F base own_inv_strs_ok by (intro base_same_strs [where h = False]) auto
  let ?b1 = "Btf (own b) (Some b0')"
  have own: "own_inv True (own b) ts" using inv Some by (simp add: btf_inv_def)
  have inv1: "btf_inv ?b1 ts"
    using inv Some F base by (auto simp: btf_inv_def frame_def intro!: exI [of _ ts0])
  have kept1: "strs_kept b ?b1"
    unfolding strs_kept_def using same Some by (cases b) auto
  show ?thesis
  proof (cases "r0 = Inl ENOENT")
    case False
    then have rb: "r = r0" "b' = ?b1" using run Some f by (auto simp: btf__add_str_def)
    have "btf__str_by_offset ?b1 off = Inr (Some (cstr s)) \<and> str_present b s" if "r0 = Inr off" for off
    proof -
      from F that base obtain v where start: "str_start (strs_data (own b0)) v" and v: "off = v"
        "cstr (drop v (strs_data (own b0))) = cstr s" by auto
      then have less: "v < length (strs_data (own b0))" and "\<not> no_such_str (own b0) s"
        by (auto simp: str_start_def no_such_str_def)
      moreover have "btf__str_by_offset b0 v = Inr (Some (cstr (drop v (strs_data (own b0)))))"
        using own_str_by_offset [OF base(2) less] base(4) by simp
      ultimately show ?thesis using base same Some v less by (simp add: str_present_def)
    qed
    then show ?thesis using rb F inv1 kept1 Some False by (auto split: sum.splits)
  next
    case True
    then have run': "add_str_own alloc s ?b1 = (r, b')" using run Some f by (simp add: btf__add_str_def)
    have nsb: "no_such_str (own b0) s" using F True by simp
    note A = add_str_own_ok [of True ?b1 ts, simplified, OF own run']
    have inv': "btf_inv b' ts" using A by (intro btf_inv_frame [OF inv1]) (auto simp: frame_def)
    have kept: "strs_kept ?b1 b'" using A own by (intro strs_kept_own [of True ?b1 ts]) auto
    then have "strs_kept b b'" using kept1 by (auto simp: strs_kept_def)
    moreover have "btf__str_by_offset b' off = Inr (Some (cstr s))" if "r = Inr off" for off
      using A that own_str_by_offset [of True b' ts] by (auto simp: frame_def)
    ultimately show ?thesis using A Some inv' nsb by (auto simp: str_present_def split: sum.splits)
  qed
qed

subsection \<open>Types\<close>

lemma btf_inv_view:
  assumes "btf_inv b ts"
  obtains ts0 where "btf_view b (ts0 @ ts)" "start_id (own b) = length ts0 + 1"
proof (cases "base_btf b")
  case None
  then have "btf_view b ts" "start_id (own b) = 1"
    using assms by (cases b; simp add: btf_inv_def own_inv_def)+
  then show thesis using that [of "[]"] by simp
next
  case (Some b0)
  from assms Some obtain ts0 where base: "base_btf b0 = None" "own_inv False (own b0) ts0" "start_id (own b0) = 1"
    "start_id (own b) = length ts0 + 1" by (rule btf_inv_base)
  then have "btf_view b0 ts0" by (cases b0) (simp add: own_inv_def)
  then have "btf_view b (ts0 @ ts)"
    using assms Some base(4) by (cases b) (auto simp: btf_inv_def own_inv_def)
  then show thesis using that base(4) by blast
qed

lemma btf_inv_nr: "btf_inv b ts \<Longrightarrow> nr_types (own b) = length ts \<and> 1 \<le> start_id (own b)"
  by (auto simp: btf_inv_def own_inv_def btf_repr_def split: option.splits)

lemma btf_inv_last:
  assumes "btf_inv b (ts @ [t])"
  shows "btf__type_by_id b (btf__get_nr_types b) = Inr (Some t)" "btf_last_type b = Inr t"
proof -
  from assms obtain ts0 where v: "btf_view b (ts0 @ ts @ [t])" by (rule btf_inv_view)
  have n: "btf__get_nr_types b = length ts0 + length ts + 1" using btf__get_nr_types_view [OF v] by simp
  then show "btf__type_by_id b (btf__get_nr_types b) = Inr (Some t)"
    using btf__type_by_id_view [OF v] by (simp add: nth_append)
  show "btf_last_type b = Inr t"
    using btf_type_by_id_view [OF v, of "btf__get_nr_types b"] n by (simp add: btf_last_type_def nth_append)
qed

lemma offs_from_append: "offs_from n (ts @ [t]) = offs_from n ts @ [of_nat (n + length (encode_types ts))]"
  by (induction ts arbitrary: n) (auto simp: add.assoc)

lemma type_len_of_nat: "btf_repr d ts \<Longrightarrow> type_len (hdr d) = of_nat (length (encode_types ts))"
  using unsigned_less [of "type_len (hdr d)", where 'a = nat]
  by (auto simp: btf_repr_def word_unat_eq_iff unat_of_nat)

lemma own_inv_grow:
  assumes inv: "own_inv h d ts" and repr: "btf_repr d' ts'"
    and same: "hdr_len (hdr d') = hdr_len (hdr d)" "str_len (hdr d') = str_len (hdr d)"
      "hdr_extra d' = hdr_extra d" "strs_data d' = strs_data d" "modifiable d' = modifiable d"
      "strs_hash d' = strs_hash d" "strs_data_cap d' = strs_data_cap d" "types_data_cap d' = types_data_cap d"
  shows "own_inv h d' ts'"
proof -
  have "length (encode_hdr (hdr d')) = length (encode_hdr (hdr d))" by simp
  then have "length (hdr_bytes d') = length (hdr_bytes d)" by (simp add: hdr_bytes_def same)
  then show ?thesis using inv repr by (simp add: own_inv_def strs_ok_def index_ok_def same)
qed

lemma btf_add_type_mem_ok:
  assumes inv: "own_inv h (own b) ts" "modifiable (own b)" and run: "btf_add_type_mem alloc n b = (r, b')"
  shows "base_btf b' = base_btf b" "frame (own b) (own b')" "own_inv h (own b') ts" "modifiable (own b')"
    "strs_data (own b') = strs_data (own b)"
    "r = Inr () \<and> length (encode_types ts) + n \<le> UINT_MAX \<or> r = Inl ENOMEM"
proof -
  have cp: "types_data_cap (own b) \<le> UINT_MAX"
    and len: "unat (type_len (hdr (own b))) = length (encode_types ts)"
    using inv by (auto simp: own_inv_def index_ok_def btf_repr_def)
  have "base_btf b' = base_btf b \<and> frame (own b) (own b') \<and> own_inv h (own b') ts \<and> modifiable (own b') \<and>
    strs_data (own b') = strs_data (own b) \<and>
    (r = Inr () \<and> length (encode_types ts) + n \<le> UINT_MAX \<or> r = Inl ENOMEM)"
  proof (cases "btf_add_mem alloc (types_data_cap (own b)) 1 (length (encode_types ts)) UINT_MAX n")
    case None
    with run inv show ?thesis by (auto simp: btf_add_type_mem_def len)
  next
    case (Some c)
    from btf_add_mem_limit [OF Some cp] have "length (encode_types ts) + n \<le> c" "c \<le> UINT_MAX" by auto
    with run inv Some own_inv_caps(2) [OF inv(1), of c] show ?thesis
      by (auto simp: btf_add_type_mem_def len frame_caps)
  qed
  then show "base_btf b' = base_btf b" "frame (own b) (own b')" "own_inv h (own b') ts" "modifiable (own b')"
    "strs_data (own b') = strs_data (own b)"
    "r = Inr () \<and> length (encode_types ts) + n \<le> UINT_MAX \<or> r = Inl ENOMEM" by auto
qed

lemma type_len_grow:
  assumes "unat (type_len h) = m" "m + n \<le> UINT_MAX"
  shows "unat (type_len h + of_nat n) = m + n"
  using assms by (simp add: unat_word_ariths unat_of_nat UINT_MAX_def)

lemma btf_commit_type_ok:
  assumes inv: "btf_inv b ts" and wf: "wf_type t"
    and room: "length (encode_types ts) + length (encode_type t) \<le> UINT_MAX"
    and run: "btf_commit_type alloc t b = (r, b')"
  shows "case r of Inl e \<Rightarrow> e = ENOMEM \<and> b' = b
    | Inr tid \<Rightarrow> btf_inv b' (ts @ [t]) \<and> base_btf b' = base_btf b \<and> strs_data (own b') = strs_data (own b) \<and>
        str_len (hdr (own b')) = str_len (hdr (own b)) \<and> start_str_off (own b') = start_str_off (own b) \<and>
        tid = btf__get_nr_types b'"
proof -
  let ?d = "own b"
  have own: "own_inv (base_btf b \<noteq> None) ?d ts" using inv by (simp add: btf_inv_def)
  then have repr: "btf_repr ?d ts" by (simp add: own_inv_def)
  consider "btf_add_mem alloc (type_offs_cap ?d) 4 (nr_types ?d) BTF_MAX_NR_TYPES 1 = None"
    | c where "btf_add_mem alloc (type_offs_cap ?d) 4 (nr_types ?d) BTF_MAX_NR_TYPES 1 = Some c"
    by (cases "btf_add_mem alloc (type_offs_cap ?d) 4 (nr_types ?d) BTF_MAX_NR_TYPES 1") auto
  then show ?thesis
  proof cases
    case 1
    then show ?thesis using run by (auto simp: btf_commit_type_def btf_add_type_idx_entry_def)
  next
    case (2 c)
    let ?d' = "grow_types (encode_type t) (?d\<lparr>type_offs := take (nr_types ?d) (type_offs ?d) @ [type_len (hdr ?d)],
      type_offs_cap := c\<rparr>)"
    let ?d2 = "?d'\<lparr>nr_types := nr_types ?d' + 1\<rparr>"
    have b': "b' = Btf ?d2 (base_btf b)" "r = Inr (start_id ?d2 + nr_types ?d2 - 1)"
      using run 2 by (auto simp: btf_commit_type_def btf_add_type_idx_entry_def Let_def)
    have "btf_repr ?d2 (ts @ [t])"
      using repr wf type_len_of_nat [OF repr] type_len_grow [of "hdr ?d" _ "length (encode_type t)", OF _ room]
      by (simp add: btf_repr_def grow_types_def offs_from_append)
    then have "own_inv (base_btf b \<noteq> None) ?d2 (ts @ [t])"
      by (rule own_inv_grow [OF own]) (simp_all add: grow_types_def)
    then have "btf_inv b' (ts @ [t])"
      by (intro btf_inv_frame [OF inv]) (simp_all add: b' grow_types_def)
    then show ?thesis by (simp add: b' grow_types_def btf__get_nr_types_def)
  qed
qed

text \<open>The name offset of a type resolves to the name that was given, an absent name is offset 0.\<close>

definition name_ok :: "btf \<Rightarrow> u32 \<Rightarrow> string option \<Rightarrow> bool" where
  "name_ok b noff name \<longleftrightarrow>
     (if no_name name then noff = 0
      else btf__name_by_offset b noff = Inr (Some (cstr (the name))))"

lemma str_offset_bound:
  assumes inv: "btf_inv b ts" and "btf__str_by_offset b off = Inr (Some s)"
  shows "off < 2 ^ 32"
proof -
  have len: "unat (str_len (hdr (own b))) \<le> 2 ^ 31"
    using inv by (auto simp: btf_inv_def own_inv_def strs_ok_def BTF_MAX_STR_OFFSET_def)
  have "start_str_off (own b) \<le> 2 ^ 31"
  proof (cases "base_btf b")
    case None
    then show ?thesis using inv by (simp add: btf_inv_def)
  next
    case (Some b0)
    from inv Some obtain ts0 where "own_inv False (own b0) ts0" "start_str_off (own b) = length (strs_data (own b0))"
      by (rule btf_inv_base)
    then show ?thesis by (auto simp: own_inv_def strs_ok_def BTF_MAX_STR_OFFSET_def)
  qed
  then show ?thesis using assms(2) len by (cases b) (auto split: if_splits)
qed

lemma strs_kept_refl [simp]: "strs_kept b b"
  by (simp add: strs_kept_def)

lemma strs_kept_trans: "strs_kept a b \<Longrightarrow> strs_kept b c \<Longrightarrow> strs_kept a c"
  by (simp add: strs_kept_def)

lemma name_ok_kept: "name_ok b noff name \<Longrightarrow> strs_kept b b' \<Longrightarrow> name_ok b' noff name"
  by (auto simp: name_ok_def strs_kept_def btf__name_by_offset_def)

lemma frame_ids: "frame d d' \<Longrightarrow> start_id d' = start_id d \<and> start_str_off d' = start_str_off d"
  by (simp add: frame_def)

lemma add_name_ok:
  assumes inv: "btf_inv b ts" and run: "add_name alloc name b = (r, b')"
  shows "btf_inv b' ts \<and> frame (own b) (own b') \<and> strs_kept b b' \<and>
    (case r of Inl e \<Rightarrow> e = ENOMEM | Inr noff \<Rightarrow> name_ok b' noff name)"
proof (cases "no_name name")
  case True
  then show ?thesis using run inv by (auto simp: add_name_def op_return_def name_ok_def)
next
  case False
  obtain r1 b1 where a: "btf__add_str alloc (the name) b = (r1, b1)" by fastforce
  note A = btf__add_str_ok [OF inv a]
  show ?thesis
  proof (cases r1)
    case (Inl e)
    then show ?thesis using run a A False by (auto simp: add_name_def op_bind_run)
  next
    case (Inr off)
    then have r: "r = Inr (of_nat off)" "b' = b1"
      using run a False by (auto simp: add_name_def op_bind_run op_return_def)
    have off: "btf__str_by_offset b1 off = Inr (Some (cstr (the name)))" using A Inr by simp
    have "unat (of_nat off :: u32) = off"
      using str_offset_bound [OF _ off] A by (auto simp: unat_of_nat)
    then show ?thesis using A off False by (simp add: r name_ok_def btf__name_by_offset_def)
  qed
qed

lemma prepare_ok:
  assumes inv: "btf_inv b ts"
    and run: "op_bind (btf_ensure_modifiable alloc) (\<lambda>_. op_bind (btf_add_type_mem alloc n) (\<lambda>_. add_name alloc name)) b = (r, b')"
  shows "btf_inv b' ts \<and> strs_kept b b' \<and>
    (case r of Inl e \<Rightarrow> e = ENOMEM
     | Inr noff \<Rightarrow> name_ok b' noff name \<and> length (encode_types ts) + n \<le> UINT_MAX)"
proof -
  let ?h = "base_btf b \<noteq> None"
  have own: "own_inv ?h (own b) ts" and z: "base_btf b = None \<Longrightarrow> start_str_off (own b) = 0"
    using inv by (auto simp: btf_inv_def)
  obtain r1 b1 where e1: "btf_ensure_modifiable alloc b = (r1, b1)" by fastforce
  note m1 = btf_ensure_modifiable_ok [OF own e1]
  have inv1: "btf_inv b1 ts" using m1 frame_ids [OF m1(2)] by (intro btf_inv_frame [OF inv]) auto
  have k1: "strs_kept b b1" using strs_kept_own [OF own m1(3,2,1) z] .
  show ?thesis
  proof (cases r1)
    case (Inl e)
    then show ?thesis using run e1 m1 inv1 k1 by (auto simp: op_bind_run)
  next
    case (Inr u)
    have mod: "modifiable (own b1)" using m1(4) Inr by auto
    obtain r2 b2 where e2: "btf_add_type_mem alloc n b1 = (r2, b2)" by fastforce
    note m2 = btf_add_type_mem_ok [OF m1(3) mod e2]
    have inv2: "btf_inv b2 ts" using m2 m1 frame_ids [OF m2(2)] by (intro btf_inv_frame [OF inv1]) auto
    have z1: "base_btf b1 = None \<Longrightarrow> start_str_off (own b1) = 0" using inv1 by (auto simp: btf_inv_def)
    have k2: "strs_kept b b2" using strs_kept_trans [OF k1 strs_kept_own [OF m1(3) m2(3,2,1) z1]] .
    show ?thesis
    proof (cases r2)
      case (Inl e)
      then show ?thesis using run e1 e2 Inr m2 inv2 k2 by (auto simp: op_bind_run)
    next
      case i2: (Inr u2)
      then have "add_name alloc name b2 = (r, b')" using run e1 e2 Inr by (auto simp: op_bind_run)
      from add_name_ok [OF inv2 this] k2 m2(6) i2 show ?thesis
        by (auto intro: strs_kept_trans split: sum.splits)
    qed
  qed
qed

lemma op_bind_assoc: "op_bind (op_bind m f) g = op_bind m (\<lambda>x. op_bind (f x) g)"
  by (intro ext) (auto simp: op_bind_def split: prod.splits sum.splits)

lemma strs_kept_same:
  assumes "base_btf b' = base_btf b" "strs_data (own b') = strs_data (own b)"
    "str_len (hdr (own b')) = str_len (hdr (own b))" "start_str_off (own b') = start_str_off (own b)"
  shows "strs_kept b b'"
  using assms by (cases b; cases b') (simp add: strs_kept_def)

lemma add_type_ok:
  assumes inv: "btf_inv b ts" and run: "add_type alloc n name mk b = (r, b')"
    and mk: "\<And>noff. wf_type (mk noff) \<and> length (encode_type (mk noff)) = n"
  shows "strs_kept b b' \<and>
    (case r of Inl e \<Rightarrow> e = ENOMEM \<and> btf_inv b' ts
     | Inr tid \<Rightarrow> \<exists>noff. btf_inv b' (ts @ [mk noff]) \<and> name_ok b' noff name \<and> tid = btf__get_nr_types b')"
proof -
  let ?prep = "op_bind (btf_ensure_modifiable alloc) (\<lambda>_. op_bind (btf_add_type_mem alloc n) (\<lambda>_. add_name alloc name))"
  obtain r1 b1 where p: "?prep b = (r1, b1)" by fastforce
  note P = prepare_ok [OF inv p]
  have run': "op_bind ?prep (\<lambda>noff. btf_commit_type alloc (mk noff)) b = (r, b')"
    using run by (simp add: add_type_def op_bind_assoc)
  show ?thesis
  proof (cases r1)
    case (Inl e)
    then show ?thesis using run' p P by (auto simp: op_bind_run)
  next
    case (Inr noff)
    then have c: "btf_commit_type alloc (mk noff) b1 = (r, b')" using run' p by (auto simp: op_bind_run)
    have "length (encode_types ts) + length (encode_type (mk noff)) \<le> UINT_MAX" using P Inr mk by simp
    note C = btf_commit_type_ok [OF _ _ this c]
    show ?thesis
    proof (cases r)
      case (Inl e)
      then show ?thesis using C P mk by auto
    next
      case i: (Inr tid)
      then have C': "btf_inv b' (ts @ [mk noff])" "tid = btf__get_nr_types b'" and kept: "strs_kept b1 b'"
        using C P mk by (auto intro!: strs_kept_same)
      moreover have "name_ok b' noff name" using P Inr name_ok_kept [OF _ kept] by simp
      moreover have "strs_kept b b'" using P strs_kept_trans [OF _ kept] by blast
      ultimately show ?thesis using i by auto
    qed
  qed
qed

lemma write_info:
  "write_u32 (pre @ encode_type t) (length pre + 4) i = Inr (pre @ encode_type (t\<lparr>info := i\<rparr>))"
proof -
  let ?rest = "le32 (size_type t) @ words_bytes (vdata_words (vdata t))"
  have "encode_type t = le32 (name_off t) @ le32 (info t) @ ?rest"
    "encode_type (t\<lparr>info := i\<rparr>) = le32 (name_off t) @ le32 i @ ?rest"
    by (simp_all add: encode_type_def)
  then show ?thesis using write_u32_at [of "pre @ le32 (name_off t)" "info t" ?rest i] by simp
qed

lemma set_type_info_last:
  assumes inv: "btf_inv b (ts @ [t])"
  shows "set_type_info (btf__get_nr_types b) i b =
    (Inr (), upd_own (\<lambda>d. d\<lparr>types_data := encode_types ts @ encode_type (t\<lparr>info := i\<rparr>)\<rparr>) b)"
proof -
  have repr: "btf_repr (own b) (ts @ [t])" using inv by (simp add: btf_inv_def own_inv_def)
  have idx: "btf__get_nr_types b - start_id (own b) = length ts"
    using btf_inv_nr [OF inv] by (simp add: btf__get_nr_types_def)
  have "length (encode_types ts) < 2 ^ 32"
    using repr unsigned_less [of "type_len (hdr (own b))", where 'a = nat] by (simp add: btf_repr_def)
  then have "array_get (type_offs (own b)) (length ts) = Inr (of_nat (length (encode_types ts)))"
    "unat (of_nat (length (encode_types ts)) :: u32) = length (encode_types ts)"
    using repr by (simp_all add: array_get_def btf_repr_def offs_from_append unat_of_nat nth_append)
  then show ?thesis
    using repr write_info [of "encode_types ts" t i] by (simp add: set_type_info_def idx btf_repr_def Let_def)
qed

lemma btf_repr_replace_last:
  assumes "btf_repr d (ts @ [t])" "wf_type t'" "types_data d' = encode_types (ts @ [t'])"
    "type_offs d' = type_offs d" "nr_types d' = nr_types d"
    "unat (type_len (hdr d')) = length (encode_types (ts @ [t']))"
  shows "btf_repr d' (ts @ [t'])"
  using assms by (simp add: btf_repr_def offs_from_append)

lemma set_type_info_ok:
  assumes inv: "btf_inv b (ts @ [t])" and wf: "wf_type (t\<lparr>info := i\<rparr>)"
    and run: "set_type_info (btf__get_nr_types b) i b = (r, b')"
  shows "r = Inr () \<and> btf_inv b' (ts @ [t\<lparr>info := i\<rparr>]) \<and> strs_kept b b' \<and> btf__get_nr_types b' = btf__get_nr_types b"
proof -
  have b': "r = Inr ()" "b' = upd_own (\<lambda>d. d\<lparr>types_data := encode_types ts @ encode_type (t\<lparr>info := i\<rparr>)\<rparr>) b"
    using run set_type_info_last [OF inv, of i] by auto
  have own: "own_inv (base_btf b \<noteq> None) (own b) (ts @ [t])" using inv by (simp add: btf_inv_def)
  have le: "length (encode_type (t\<lparr>info := i\<rparr>)) = length (encode_type t)" by (simp add: length_encode_type)
  have "btf_repr (own b') (ts @ [t\<lparr>info := i\<rparr>])"
    by (rule btf_repr_replace_last [of "own b" ts t]) (use own wf le in \<open>simp_all add: own_inv_def b' btf_repr_def\<close>)
  then have "own_inv (base_btf b \<noteq> None) (own b') (ts @ [t\<lparr>info := i\<rparr>])"
    by (rule own_inv_grow [OF own]) (simp_all add: b')
  then have "btf_inv b' (ts @ [t\<lparr>info := i\<rparr>])" by (intro btf_inv_frame [OF inv]) (simp_all add: b')
  then show ?thesis by (auto simp: b' btf__get_nr_types_def intro: strs_kept_same)
qed

lemma extend_last_ok:
  assumes inv: "btf_inv b (ts @ [t])" and run: "extend_last ws f b = (r, b')"
    and t': "t' = t\<lparr>info := f t, vdata := v\<rparr>" "vdata_words v = vdata_words (vdata t) @ ws" "wf_type t'"
    and room: "length (encode_types (ts @ [t])) + 4 * length ws \<le> UINT_MAX"
  shows "r = Inr () \<and> btf_inv b' (ts @ [t']) \<and> strs_kept b b'"
proof -
  let ?d = "own b"
  let ?d1 = "?d\<lparr>types_data := encode_types ts @ encode_type (t\<lparr>info := f t\<rparr>)\<rparr>"
  let ?d2 = "grow_types (words_bytes ws) ?d1"
  have own: "own_inv (base_btf b \<noteq> None) ?d (ts @ [t])" using inv by (simp add: btf_inv_def)
  have b': "r = Inr ()" "b' = Btf ?d2 (base_btf b)"
    using run btf_inv_last(2) [OF inv] set_type_info_last [OF inv, of "f t"]
    by (auto simp: extend_last_def op_bind_run op_get_def op_upd_def upd_own_def)
  have bytes: "encode_type t' = encode_type (t\<lparr>info := f t\<rparr>) @ words_bytes ws"
    using t' by (simp add: encode_type_def)
  have "unat (type_len (hdr ?d)) = length (encode_types (ts @ [t]))"
    using own by (simp add: own_inv_def btf_repr_def)
  note tl = type_len_grow [OF this room]
  have le: "length (encode_type (t\<lparr>info := f t\<rparr>)) = length (encode_type t)" by (simp add: length_encode_type)
  have "btf_repr ?d2 (ts @ [t'])"
    by (rule btf_repr_replace_last [of ?d ts t])
      (use own t'(3) tl le in \<open>simp_all add: own_inv_def grow_types_def bytes\<close>)
  then have "own_inv (base_btf b \<noteq> None) ?d2 (ts @ [t'])"
    by (rule own_inv_grow [OF own]) (simp_all add: grow_types_def)
  then have "btf_inv b' (ts @ [t'])" by (intro btf_inv_frame [OF inv]) (simp_all add: b' grow_types_def)
  then show ?thesis by (auto simp: b' grow_types_def intro: strs_kept_same)
qed

lemma add_element_ok:
  assumes inv: "btf_inv b (ts @ [t])" and run: "add_element alloc n name mk f b = (r, b')"
    and n: "\<And>noff. n = 4 * length (mk noff)"
    and t': "\<And>noff. wf_type (t\<lparr>info := f t, vdata := v noff\<rparr>) \<and>
        vdata_words (v noff) = vdata_words (vdata t) @ mk noff"
  shows "strs_kept b b' \<and>
    (case r of Inl e \<Rightarrow> e = ENOMEM \<and> btf_inv b' (ts @ [t])
     | Inr u \<Rightarrow> \<exists>noff. name_ok b' noff name \<and> btf_inv b' (ts @ [t\<lparr>info := f t, vdata := v noff\<rparr>]))"
proof -
  let ?prep = "op_bind (btf_ensure_modifiable alloc) (\<lambda>_. op_bind (btf_add_type_mem alloc n) (\<lambda>_. add_name alloc name))"
  obtain r1 b1 where p: "?prep b = (r1, b1)" by fastforce
  note P = prepare_ok [OF inv p]
  have run': "op_bind ?prep (\<lambda>noff. extend_last (mk noff) f) b = (r, b')"
    using run by (simp add: add_element_def op_bind_assoc)
  show ?thesis
  proof (cases r1)
    case (Inl e)
    then show ?thesis using run' p P by (auto simp: op_bind_run)
  next
    case (Inr noff)
    then have c: "extend_last (mk noff) f b1 = (r, b')" using run' p by (auto simp: op_bind_run)
    have inv1: "btf_inv b1 (ts @ [t])" and "length (encode_types (ts @ [t])) + 4 * length (mk noff) \<le> UINT_MAX"
      and kept: "strs_kept b b1" and nm: "name_ok b1 noff name" using P Inr n by simp_all
    from extend_last_ok [OF inv1 c refl conjunct2 [OF t'] conjunct1 [OF t'] this(2)]
    have "r = Inr ()" "btf_inv b' (ts @ [t\<lparr>info := f t, vdata := v noff\<rparr>])" "strs_kept b1 b'" by auto
    then show ?thesis using strs_kept_trans [OF kept] name_ok_kept [OF nm] by auto
  qed
qed

subsection \<open>The writer as a machine\<close>

datatype btf_cmd =
    AddInt "string option" nat u32
  | AddPtr int
  | AddArray int int u32
  | AddStruct "string option" u32
  | AddUnion "string option" u32
  | AddEnum "string option" u32
  | AddFwd "string option" btf_fwd_kind
  | AddTypedef "string option" int
  | AddVolatile int
  | AddConst int
  | AddRestrict int
  | AddFunc "string option" btf_func_linkage int
  | AddFuncProto int
  | AddVar "string option" int int
  | AddDatasec "string option" u32
  | AddField "string option" int u32 u32
  | AddEnumValue "string option" int
  | AddFuncParam "string option" int
  | AddDatasecVarInfo int u32 u32

fun btf_run :: "alloc \<Rightarrow> btf_cmd \<Rightarrow> nat op" where
  "btf_run a (AddInt nm n enc) = btf__add_int a nm n enc"
| "btf_run a (AddPtr i) = btf__add_ptr a i"
| "btf_run a (AddArray i e n) = btf__add_array a i e n"
| "btf_run a (AddStruct nm n) = btf__add_struct a nm n"
| "btf_run a (AddUnion nm n) = btf__add_union a nm n"
| "btf_run a (AddEnum nm n) = btf__add_enum a nm n"
| "btf_run a (AddFwd nm k) = btf__add_fwd a nm k"
| "btf_run a (AddTypedef nm i) = btf__add_typedef a nm i"
| "btf_run a (AddVolatile i) = btf__add_volatile a i"
| "btf_run a (AddConst i) = btf__add_const a i"
| "btf_run a (AddRestrict i) = btf__add_restrict a i"
| "btf_run a (AddFunc nm l i) = btf__add_func a nm l i"
| "btf_run a (AddFuncProto i) = btf__add_func_proto a i"
| "btf_run a (AddVar nm l i) = btf__add_var a nm l i"
| "btf_run a (AddDatasec nm n) = btf__add_datasec a nm n"
| "btf_run a (AddField nm i bo bs) = op_bind (btf__add_field a nm i bo bs) (\<lambda>_. op_return 0)"
| "btf_run a (AddEnumValue nm v) = op_bind (btf__add_enum_value a nm v) (\<lambda>_. op_return 0)"
| "btf_run a (AddFuncParam nm i) = op_bind (btf__add_func_param a nm i) (\<lambda>_. op_return 0)"
| "btf_run a (AddDatasecVarInfo i off n) = op_bind (btf__add_datasec_var_info a i off n) (\<lambda>_. op_return 0)"

fun cmd_name :: "btf_cmd \<Rightarrow> string option" where
  "cmd_name (AddInt nm _ _) = nm"
| "cmd_name (AddStruct nm _) = nm"
| "cmd_name (AddUnion nm _) = nm"
| "cmd_name (AddEnum nm _) = nm"
| "cmd_name (AddFwd nm _) = nm"
| "cmd_name (AddTypedef nm _) = nm"
| "cmd_name (AddFunc nm _ _) = nm"
| "cmd_name (AddVar nm _ _) = nm"
| "cmd_name (AddDatasec nm _) = nm"
| "cmd_name (AddField nm _ _ _) = nm"
| "cmd_name (AddEnumValue nm _) = nm"
| "cmd_name (AddFuncParam nm _) = nm"
| "cmd_name _ = None"

text \<open>The type a command appends.\<close>

fun new_type :: "btf_cmd \<Rightarrow> u32 \<Rightarrow> btf_type option" where
  "new_type (AddInt _ n enc) noff =
     Some (plain_type BTF_KIND_INT (of_nat n) (VInt (push_bit 24 enc OR of_nat (n * 8))) noff)"
| "new_type (AddPtr i) noff = Some (plain_type BTF_KIND_PTR (of_int i) VNone noff)"
| "new_type (AddArray i e n) noff = Some (plain_type BTF_KIND_ARRAY 0
     (VArray \<lparr>a_type = of_int e, a_index_type = of_int i, a_nelems = n\<rparr>) noff)"
| "new_type (AddStruct _ n) noff = Some (plain_type BTF_KIND_STRUCT n (VMembers []) noff)"
| "new_type (AddUnion _ n) noff = Some (plain_type BTF_KIND_UNION n (VMembers []) noff)"
| "new_type (AddEnum _ n) noff = Some (plain_type BTF_KIND_ENUM n (VEnums []) noff)"
| "new_type (AddFwd _ k) noff = Some
     (if k = BTF_FWD_ENUM then plain_type BTF_KIND_ENUM 4 (VEnums []) noff
      else (plain_type BTF_KIND_FWD 0 VNone noff)
             \<lparr>info := btf_type_info BTF_KIND_FWD 0 (k = BTF_FWD_UNION)\<rparr>)"
| "new_type (AddTypedef _ i) noff = Some (plain_type BTF_KIND_TYPEDEF (of_int i) VNone noff)"
| "new_type (AddVolatile i) noff = Some (plain_type BTF_KIND_VOLATILE (of_int i) VNone noff)"
| "new_type (AddConst i) noff = Some (plain_type BTF_KIND_CONST (of_int i) VNone noff)"
| "new_type (AddRestrict i) noff = Some (plain_type BTF_KIND_RESTRICT (of_int i) VNone noff)"
| "new_type (AddFunc _ l i) noff = Some ((plain_type BTF_KIND_FUNC (of_int i) VNone noff)
     \<lparr>info := btf_type_info BTF_KIND_FUNC (func_linkage_num l) False\<rparr>)"
| "new_type (AddFuncProto i) noff = Some (plain_type BTF_KIND_FUNC_PROTO (of_int i) (VParams []) noff)"
| "new_type (AddVar _ l i) noff = Some (plain_type BTF_KIND_VAR (of_int i) (VVar (of_int l)) noff)"
| "new_type (AddDatasec _ n) noff = Some (plain_type BTF_KIND_DATASEC n (VSecinfos []) noff)"
| "new_type _ noff = None"

text \<open>The last type after a command that extends it by one element.\<close>

fun extended_type :: "btf_cmd \<Rightarrow> u32 \<Rightarrow> btf_type \<Rightarrow> btf_type" where
  "extended_type (AddField _ i bo bs) noff t =
     t\<lparr>info := inc_vlen_info t ((bs \<noteq> 0 \<or> bo mod 8 \<noteq> 0) \<or> btf_kflag t),
       vdata := VMembers (btf_members t @
         [\<lparr>m_name_off = noff, m_type = of_int i, m_offset = bo OR push_bit 24 bs\<rparr>])\<rparr>"
| "extended_type (AddEnumValue _ v) noff t =
     t\<lparr>info := btf_type_inc_vlen t,
       vdata := VEnums (btf_enum t @ [\<lparr>e_name_off = noff, e_val = of_int v\<rparr>])\<rparr>"
| "extended_type (AddFuncParam _ i) noff t =
     t\<lparr>info := btf_type_inc_vlen t,
       vdata := VParams (btf_params t @ [\<lparr>p_name_off = noff, p_type = of_int i\<rparr>])\<rparr>"
| "extended_type (AddDatasecVarInfo i off n) noff t =
     t\<lparr>info := btf_type_inc_vlen t,
       vdata := VSecinfos (btf_var_secinfos t @ [\<lparr>v_type = of_int i, v_offset = off, v_size = n\<rparr>])\<rparr>"
| "extended_type _ noff t = t"

definition cmd_effect :: "btf_cmd \<Rightarrow> u32 \<Rightarrow> btf_type list \<Rightarrow> btf_type list" where
  "cmd_effect c noff ts =
     (case new_type c noff of
        Some t \<Rightarrow> ts @ [t]
      | None \<Rightarrow> butlast ts @ [extended_type c noff (last ts)])"

definition writer_step_ok :: "btf_cmd \<Rightarrow> btf \<Rightarrow> btf_type list \<Rightarrow> nat result \<Rightarrow> btf \<Rightarrow> bool" where
  "writer_step_ok c b ts r b' \<longleftrightarrow> strs_kept b b' \<and>
     (case r of
        Inl e \<Rightarrow> btf_inv b' ts \<and> e \<in> {EINVAL, E2BIG, ENOMEM}
      | Inr tid \<Rightarrow> \<exists>noff. name_ok b' noff (cmd_name c) \<and> btf_inv b' (cmd_effect c noff ts) \<and>
          (new_type c noff \<noteq> None \<longrightarrow> tid = btf__get_nr_types b'))"

lemma guard_run: "op_bind (op_guard c e) f b = (if c then f () b else (Inl e, b))"
  by (simp add: op_bind_def op_guard_def guard_def)

lemma plain_type_kind [simp]:
  "btf_kind (plain_type k s v n) = k" "btf_vlen (plain_type k s v n) = 0" "vdata (plain_type k s v n) = v"
  by (simp_all add: plain_type_def btf_kind_def btf_vlen_def)

lemma plain_type_wf:
  "k \<in> {BTF_KIND_PTR, BTF_KIND_FWD, BTF_KIND_TYPEDEF, BTF_KIND_VOLATILE, BTF_KIND_CONST, BTF_KIND_RESTRICT, BTF_KIND_FUNC}
     \<Longrightarrow> wf_type (plain_type k s VNone n)"
  "wf_type (plain_type BTF_KIND_INT s (VInt x) n)" "wf_type (plain_type BTF_KIND_ARRAY s (VArray a) n)"
  "wf_type (plain_type BTF_KIND_STRUCT s (VMembers []) n)" "wf_type (plain_type BTF_KIND_UNION s (VMembers []) n)"
  "wf_type (plain_type BTF_KIND_ENUM s (VEnums []) n)" "wf_type (plain_type BTF_KIND_FUNC_PROTO s (VParams []) n)"
  "wf_type (plain_type BTF_KIND_VAR s (VVar l) n)" "wf_type (plain_type BTF_KIND_DATASEC s (VSecinfos []) n)"
  by (auto simp: wf_type_def)

lemma add_plain_ok:
  assumes inv: "btf_inv b ts" and run: "add_type alloc n (cmd_name c) mk b = (r, b')"
    and new: "\<And>noff. new_type c noff = Some (mk noff)"
    and mk: "\<And>noff. wf_type (mk noff) \<and> length (encode_type (mk noff)) = n"
  shows "writer_step_ok c b ts r b'"
  using add_type_ok [OF inv run mk] new
  by (auto simp: writer_step_ok_def cmd_effect_def split: sum.splits)

lemma writer_refused: "btf_inv b ts \<Longrightarrow> e \<in> {EINVAL, E2BIG} \<Longrightarrow> writer_step_ok c b ts (Inl e) b"
  by (auto simp: writer_step_ok_def)

abbreviation patched_cmd :: "btf_cmd \<Rightarrow> bool" where
  "patched_cmd c \<equiv> (\<exists>nm l i. c = AddFunc nm l i) \<or> (\<exists>nm k. c = AddFwd nm k)"

lemma info_update [simp]:
  assumes "vlen < 2 ^ 16"
  shows "btf_kind (t\<lparr>info := btf_type_info k vlen f\<rparr>) = k" "btf_vlen (t\<lparr>info := btf_type_info k vlen f\<rparr>) = vlen"
  using assms by (simp_all add: btf_kind_def btf_vlen_def)

lemma func_linkage_less: "func_linkage_num l < 2 ^ 16"
  by (cases l) auto

lemma func_linkage_le: "func_linkage_num l \<le> 2"
  by (cases l) auto

lemma patched_wf:
  "wf_type ((plain_type BTF_KIND_FWD s VNone n)\<lparr>info := btf_type_info BTF_KIND_FWD 0 k\<rparr>)"
  "wf_type ((plain_type BTF_KIND_FUNC s VNone n)\<lparr>info := btf_type_info BTF_KIND_FUNC (func_linkage_num l) False\<rparr>)"
  using func_linkage_less [of l] by (simp_all add: wf_type_def)

lemma new_type_wf:
  "new_type c noff = Some t \<Longrightarrow> wf_type t"
  "new_type c noff = Some t \<Longrightarrow> length (encode_type t) = length (encode_type (the (new_type c 0)))"
  by (cases c; auto simp: plain_type_wf patched_wf) (cases c; auto simp: length_encode_type)

lemma btf_run_append:
  assumes "new_type c 0 \<noteq> None" "\<not> patched_cmd c"
  shows "btf_run alloc c b = add_type alloc (length (encode_type (the (new_type c 0)))) (cmd_name c)
      (\<lambda>noff. the (new_type c noff)) b \<or> btf_run alloc c b = (Inl EINVAL, b)"
  using assms
  by (cases c) (simp_all add: guard_run length_encode_type sizeof_btf_type_def
      btf__add_int_def btf__add_ptr_def btf__add_array_def btf__add_struct_def btf__add_union_def
      btf__add_enum_def btf__add_typedef_def btf__add_volatile_def btf__add_const_def btf__add_restrict_def
      btf__add_func_proto_def btf__add_var_def btf__add_datasec_def btf_add_ref_kind_def btf_add_composite_def)

lemma new_type_all: "new_type c 0 \<noteq> None \<Longrightarrow> new_type c noff = Some (the (new_type c noff))"
  by (cases c) auto

lemma writer_append_ok:
  assumes inv: "btf_inv b ts" and run: "btf_run alloc c b = (r, b')"
    and c: "new_type c 0 \<noteq> None" "\<not> patched_cmd c"
  shows "writer_step_ok c b ts r b'"
  using btf_run_append [OF c, of alloc b]
proof
  assume add: "btf_run alloc c b = add_type alloc (length (encode_type (the (new_type c 0)))) (cmd_name c)
      (\<lambda>noff. the (new_type c noff)) b"
  show ?thesis
  proof (rule add_plain_ok [OF inv])
    show "add_type alloc (length (encode_type (the (new_type c 0)))) (cmd_name c)
      (\<lambda>noff. the (new_type c noff)) b = (r, b')" using add run by simp
    show "new_type c noff = Some (the (new_type c noff))" for noff by (rule new_type_all [OF c(1)])
    then show "wf_type (the (new_type c noff)) \<and>
        length (encode_type (the (new_type c noff))) = length (encode_type (the (new_type c 0)))" for noff
      using new_type_wf by blast
  qed
next
  assume "btf_run alloc c b = (Inl EINVAL, b)"
  then show ?thesis using run writer_refused [OF inv] by auto
qed

lemma add_patched_ok:
  assumes inv: "btf_inv b ts"
    and run: "op_bind (btf_add_ref_kind alloc k name i) (\<lambda>tid. op_bind (set_type_info tid inf0) (\<lambda>_. op_return tid)) b = (r, b')"
    and k: "k \<in> {BTF_KIND_FWD, BTF_KIND_FUNC}" and name: "cmd_name c = name"
    and new: "\<And>noff. new_type c noff = Some ((plain_type k (of_int i) VNone noff)\<lparr>info := inf0\<rparr>)"
  shows "writer_step_ok c b ts r b'"
proof (cases "validate_type_id i")
  case False
  then show ?thesis
    using run writer_refused [OF inv] by (auto simp: btf_add_ref_kind_def guard_run op_bind_run)
next
  case True
  obtain r1 b1 where a: "add_type alloc sizeof_btf_type name (plain_type k (of_int i) VNone) b = (r1, b1)" by fastforce
  have mk: "wf_type (plain_type k (of_int i) VNone noff) \<and> length (encode_type (plain_type k (of_int i) VNone noff)) = sizeof_btf_type" for noff
    using k by (auto simp: plain_type_wf length_encode_type)
  note A = add_type_ok [OF inv a mk]
  show ?thesis
  proof (cases r1)
    case (Inl e)
    then show ?thesis
      using run a A True by (auto simp: btf_add_ref_kind_def guard_run op_bind_run writer_step_ok_def)
  next
    case (Inr tid)
    then obtain noff where t: "btf_inv b1 (ts @ [plain_type k (of_int i) VNone noff])" "name_ok b1 noff name"
      "tid = btf__get_nr_types b1" and kept: "strs_kept b b1" using A by auto
    obtain r2 b2 where s: "set_type_info tid inf0 b1 = (r2, b2)" by fastforce
    note S = set_type_info_ok [OF t(1) new_type_wf(1) [OF new] s [unfolded t(3)]]
    have "r = Inr tid" "b' = b2"
      using run a Inr s S True by (auto simp: btf_add_ref_kind_def guard_run op_bind_run op_return_def)
    moreover have "name_ok b2 noff name" using name_ok_kept [OF t(2)] S by blast
    moreover have "strs_kept b b2" using strs_kept_trans [OF kept] S by blast
    ultimately show ?thesis
      using S t(3) new name by (auto simp: writer_step_ok_def cmd_effect_def)
  qed
qed

lemma writer_patched_ok:
  assumes inv: "btf_inv b ts" and run: "btf_run alloc c b = (r, b')" and c: "patched_cmd c"
  shows "writer_step_ok c b ts r b'"
proof -
  have named: "\<not> no_name nm \<and> f () b = (r, b') \<or> writer_step_ok c b ts r b'"
    if "op_bind (op_guard (\<not> no_name nm) EINVAL) f b = (r, b')" for nm f
    using that writer_refused [OF inv, of EINVAL c] by (auto simp: guard_run split: if_splits)
  from c consider nm l i where "c = AddFunc nm l i" | nm where "c = AddFwd nm BTF_FWD_STRUCT"
    | nm where "c = AddFwd nm BTF_FWD_UNION" | nm where "c = AddFwd nm BTF_FWD_ENUM"
    using btf_fwd_kind.exhaust by metis
  then show ?thesis
  proof cases
    case (1 nm l i)
    have "writer_step_ok c b ts r b'"
      if "op_bind (btf_add_ref_kind alloc BTF_KIND_FUNC nm i) (\<lambda>tid.
        op_bind (set_type_info tid (btf_type_info BTF_KIND_FUNC (func_linkage_num l) False)) (\<lambda>_. op_return tid)) b = (r, b')"
      by (rule add_patched_ok [OF inv that]) (simp_all add: 1)
    then show ?thesis using named run by (auto simp: 1 btf__add_func_def)
  next
    case (2 nm)
    have "writer_step_ok c b ts r b'"
      if "op_bind (btf_add_ref_kind alloc BTF_KIND_FWD nm 0) (\<lambda>tid.
        op_bind (set_type_info tid (btf_type_info BTF_KIND_FWD 0 False)) (\<lambda>_. op_return tid)) b = (r, b')"
      by (rule add_patched_ok [OF inv that]) (simp_all add: 2)
    then show ?thesis using named run by (auto simp: 2 btf__add_fwd_def)
  next
    case (3 nm)
    have "writer_step_ok c b ts r b'"
      if "op_bind (btf_add_ref_kind alloc BTF_KIND_FWD nm 0) (\<lambda>tid.
        op_bind (set_type_info tid (btf_type_info BTF_KIND_FWD 0 True)) (\<lambda>_. op_return tid)) b = (r, b')"
      by (rule add_patched_ok [OF inv that]) (simp_all add: 3)
    then show ?thesis using named run by (auto simp: 3 btf__add_fwd_def)
  next
    case (4 nm)
    have "writer_step_ok c b ts r b'" if "btf__add_enum alloc nm 4 b = (r, b')"
      using writer_append_ok [OF inv, of alloc "AddEnum nm 4" r b'] that
      by (auto simp: 4 writer_step_ok_def cmd_effect_def split: sum.splits)
    then show ?thesis using named run by (auto simp: 4 btf__add_fwd_def)
  qed
qed

lemma last_of_kind_run:
  assumes inv: "btf_inv b ts"
  shows "op_bind (last_of_kind p) f b =
    (if ts \<noteq> [] \<and> p (last ts) then f (last ts) b else (Inl EINVAL, b))"
proof (cases ts rule: rev_cases)
  case Nil
  then show ?thesis using btf_inv_nr [OF inv] by (simp add: op_bind_def last_of_kind_def op_get_def)
next
  case (snoc us t)
  then show ?thesis
    using btf_inv_nr [OF inv] btf_inv_last(2) [of b us t] inv
    by (simp add: op_bind_def last_of_kind_def op_get_def)
qed

lemma inc_vlen_fields:
  assumes "btf_vlen t < 65535"
  shows "btf_kind (t\<lparr>info := inc_vlen_info t f, vdata := v\<rparr>) = btf_kind t"
    "btf_vlen (t\<lparr>info := inc_vlen_info t f, vdata := v\<rparr>) = btf_vlen t + 1"
  using assms by (simp_all add: inc_vlen_info_def btf_kind_def btf_vlen_def)

lemma element_step_ok:
  assumes inv: "btf_inv b (us @ [t])" and run: "op_bind (add_element alloc n name mk f) (\<lambda>_. op_return 0) b = (r, b')"
    and name: "cmd_name c = name" and none: "new_type c = (\<lambda>_. None)"
    and n: "\<And>noff. n = 4 * length (mk noff)"
    and ext: "\<And>noff. extended_type c noff t = t\<lparr>info := f t, vdata := v noff\<rparr>"
    and wf: "\<And>noff. wf_type (t\<lparr>info := f t, vdata := v noff\<rparr>) \<and>
        vdata_words (v noff) = vdata_words (vdata t) @ mk noff"
  shows "writer_step_ok c b (us @ [t]) r b'"
proof -
  obtain r1 b1 where a: "add_element alloc n name mk f b = (r1, b1)" by fastforce
  note A = add_element_ok [OF inv a n wf]
  have "b' = b1" "r = (case r1 of Inl e \<Rightarrow> Inl e | Inr _ \<Rightarrow> Inr 0)"
    using run a by (auto simp: op_bind_run op_return_def)
  then show ?thesis using A by (auto simp: writer_step_ok_def cmd_effect_def none name ext split: sum.splits)
qed

lemma wf_elements:
  assumes "wf_type t"
  shows "btf_is_composite t \<Longrightarrow> vdata t = VMembers (btf_members t) \<and> length (btf_members t) = btf_vlen t"
    "btf_is_enum t \<Longrightarrow> vdata t = VEnums (btf_enum t) \<and> length (btf_enum t) = btf_vlen t"
    "btf_is_func_proto t \<Longrightarrow> vdata t = VParams (btf_params t) \<and> length (btf_params t) = btf_vlen t"
    "btf_is_datasec t \<Longrightarrow> vdata t = VSecinfos (btf_var_secinfos t) \<and> length (btf_var_secinfos t) = btf_vlen t"
  using assms
  by (auto simp: wf_type_def btf_is_composite_def btf_is_enum_def btf_is_func_proto_def btf_is_datasec_def
      btf_members_def btf_enum_def btf_params_def btf_var_secinfos_def split: btf_vdata.splits)

lemma wf_extended:
  assumes wf: "wf_type t" and vlen: "btf_vlen t < 65535"
  shows "btf_is_composite t \<Longrightarrow> wf_type (t\<lparr>info := inc_vlen_info t f, vdata := VMembers (btf_members t @ [m])\<rparr>)"
    "btf_is_enum t \<Longrightarrow> wf_type (t\<lparr>info := inc_vlen_info t f, vdata := VEnums (btf_enum t @ [e])\<rparr>)"
    "btf_is_func_proto t \<Longrightarrow> wf_type (t\<lparr>info := inc_vlen_info t f, vdata := VParams (btf_params t @ [p])\<rparr>)"
    "btf_is_datasec t \<Longrightarrow> wf_type (t\<lparr>info := inc_vlen_info t f, vdata := VSecinfos (btf_var_secinfos t @ [v])\<rparr>)"
  using wf_elements [OF wf] inc_vlen_fields [OF vlen]
  by (auto simp: wf_type_def btf_is_composite_def btf_is_enum_def btf_is_func_proto_def btf_is_datasec_def)

lemma writer_element_ok:
  assumes inv: "btf_inv b ts" and run: "btf_run alloc c b = (r, b')" and c: "new_type c 0 = None"
    and vlen: "ts \<noteq> [] \<longrightarrow> btf_vlen (last ts) < 65535"
  shows "writer_step_ok c b ts r b'"
proof (cases ts rule: rev_cases)
  case Nil
  then show ?thesis
    using run c writer_refused [OF inv]
    by (cases c) (auto simp: btf__add_field_def btf__add_enum_value_def btf__add_func_param_def
        btf__add_datasec_var_info_def op_bind_assoc last_of_kind_run [OF inv] guard_run split: if_splits)
next
  case (snoc us t)
  have inv': "btf_inv b (us @ [t])" and vlen': "btf_vlen t < 65535" using inv vlen snoc by simp_all
  have wf: "wf_type t" using inv' by (simp add: btf_inv_def own_inv_def btf_repr_def)
  note W = wf_extended [OF wf vlen'] and V = wf_elements [OF wf]
  note refused = writer_refused [OF inv']
  show ?thesis
  proof (cases c)
    case (AddField nm i bo bs)
    let ?bf = "bs \<noteq> 0 \<or> bo mod 8 \<noteq> 0"
    have "writer_step_ok c b (us @ [t]) r b'"
      if "btf_is_composite t" "op_bind (add_element alloc 12 nm (\<lambda>name_off. [name_off, of_int i, bo OR push_bit 24 bs])
        (\<lambda>t. inc_vlen_info t (?bf \<or> btf_kflag t))) (\<lambda>_. op_return 0) b = (r, b')"
      by (rule element_step_ok [OF inv' that(2), where v = "\<lambda>noff. VMembers (btf_members t @
            [\<lparr>m_name_off = noff, m_type = of_int i, m_offset = bo OR push_bit 24 bs\<rparr>])"])
        (use V(1) [OF that(1)] W(1) [OF that(1)] in \<open>auto simp: AddField\<close>)
    then show ?thesis
      using run refused by (auto simp: AddField snoc btf__add_field_def Let_def op_bind_assoc
          last_of_kind_run [OF inv'] guard_run split: if_splits)
  next
    case (AddEnumValue nm v)
    have "writer_step_ok c b (us @ [t]) r b'"
      if "btf_is_enum t" "op_bind (add_element alloc 8 nm (\<lambda>name_off. [name_off, of_int v]) btf_type_inc_vlen)
        (\<lambda>_. op_return 0) b = (r, b')"
      by (rule element_step_ok [OF inv' that(2), where v = "\<lambda>noff. VEnums (btf_enum t @
            [\<lparr>e_name_off = noff, e_val = of_int v\<rparr>])"])
        (use V(2) [OF that(1)] W(2) [OF that(1)] in \<open>auto simp: AddEnumValue btf_type_inc_vlen_def\<close>)
    then show ?thesis
      using run refused by (auto simp: AddEnumValue snoc btf__add_enum_value_def op_bind_assoc
          last_of_kind_run [OF inv'] guard_run split: if_splits)
  next
    case (AddFuncParam nm i)
    have "writer_step_ok c b (us @ [t]) r b'"
      if "btf_is_func_proto t" "op_bind (add_element alloc 8 nm (\<lambda>name_off. [name_off, of_int i]) btf_type_inc_vlen)
        (\<lambda>_. op_return 0) b = (r, b')"
      by (rule element_step_ok [OF inv' that(2), where v = "\<lambda>noff. VParams (btf_params t @
            [\<lparr>p_name_off = noff, p_type = of_int i\<rparr>])"])
        (use V(3) [OF that(1)] W(3) [OF that(1)] in \<open>auto simp: AddFuncParam btf_type_inc_vlen_def\<close>)
    then show ?thesis
      using run refused by (auto simp: AddFuncParam snoc btf__add_func_param_def op_bind_assoc
          last_of_kind_run [OF inv'] guard_run split: if_splits)
  next
    case (AddDatasecVarInfo i off n)
    have "writer_step_ok c b (us @ [t]) r b'"
      if "btf_is_datasec t" "op_bind (add_element alloc 12 None (\<lambda>_. [of_int i, off, n]) btf_type_inc_vlen)
        (\<lambda>_. op_return 0) b = (r, b')"
      by (rule element_step_ok [OF inv' that(2), where v = "\<lambda>noff. VSecinfos (btf_var_secinfos t @
            [\<lparr>v_type = of_int i, v_offset = off, v_size = n\<rparr>])"])
        (use V(4) [OF that(1)] W(4) [OF that(1)] in \<open>auto simp: AddDatasecVarInfo btf_type_inc_vlen_def\<close>)
    then show ?thesis
      using run refused by (auto simp: AddDatasecVarInfo snoc btf__add_datasec_var_info_def op_bind_assoc
          last_of_kind_run [OF inv'] guard_run split: if_splits)
  qed (use c in auto)
qed

lemma writer_step:
  assumes "btf_inv b ts" "btf_run alloc c b = (r, b')" "ts \<noteq> [] \<longrightarrow> btf_vlen (last ts) < 65535"
  shows "writer_step_ok c b ts r b'"
  using assms writer_append_ok writer_patched_ok writer_element_ok by (cases "new_type c 0") blast+

subsection \<open>Objects the writer starts from\<close>

lemma btf_new_empty_inv:
  assumes "btf__new_empty alloc = Inr b"
  shows "btf_inv b []"
proof -
  have b: "b = Btf (own b) None" "own b = (btf_calloc None)\<lparr>fd := -1, ptr_sz := int sizeof_ptr,
      hdr := hdr_zero\<lparr>hdr_len := of_nat sizeof_btf_header, h_magic := BTF_MAGIC, h_version := BTF_VERSION, str_len := 1\<rparr>,
      raw_size := sizeof_btf_header + 1, raw_data := raw_data (own b), strs_data := [NUL]\<rparr>"
    using assms by (auto simp: btf__new_empty_def btf_new_empty_def Let_def rbind_Inr_iff)
  have "own_inv False (own b) []"
    by (subst b(2)) (simp add: own_inv_def btf_repr_def strs_ok_def hdr_bytes_def btf_calloc_def hdr_zero_def
        sizeof_btf_header_def BTF_MAX_STR_OFFSET_def)
  moreover have "start_id (own b) = 1" "start_str_off (own b) = 0"
    by (subst b(2), simp add: btf_calloc_def)+
  moreover have "base_btf b = None" by (subst b(1)) simp
  ultimately show ?thesis by (simp add: btf_inv_def)
qed

subsection \<open>What the operations keep of the header\<close>

definition op_keeps :: "(btf_data \<Rightarrow> bool) \<Rightarrow> 'a op \<Rightarrow> bool" where
  "op_keeps P m \<longleftrightarrow> (\<forall>b r b'. P (own b) \<longrightarrow> m b = (r, b') \<longrightarrow> P (own b'))"

lemma op_keepsD: "op_keeps P m \<Longrightarrow> P (own b) \<Longrightarrow> m b = (r, b') \<Longrightarrow> P (own b')"
  by (auto simp: op_keeps_def)

lemma op_keeps_basic [intro]:
  "op_keeps P (op_return x)" "op_keeps P (op_guard c e)" "op_keeps P (op_get q)"
  "op_keeps P m \<Longrightarrow> (\<And>x. op_keeps P (f x)) \<Longrightarrow> op_keeps P (op_bind m f)"
proof -
  assume m: "op_keeps P m" "\<And>x. op_keeps P (f x)"
  show "op_keeps P (op_bind m f)"
    unfolding op_keeps_def op_bind_run
    using op_keepsD [OF m(1)] op_keepsD [OF m(2)] by blast
qed (auto simp: op_keeps_def op_return_def op_guard_def op_get_def)

text \<open>The layout of the writer, and that no serialized copy is cached.\<close>

definition layout :: "btf_data \<Rightarrow> bool" where
  "layout d \<longleftrightarrow> h_magic (hdr d) = BTF_MAGIC \<and> unat (hdr_len (hdr d)) = sizeof_btf_header \<and>
     type_off (hdr d) = 0 \<and> str_off (hdr d) = type_len (hdr d)"

definition uncached :: "btf_data \<Rightarrow> bool" where
  "uncached d \<longleftrightarrow> raw_data d = None \<and> raw_data_swapped d = None"

lemma btf_ensure_modifiable_hdr:
  assumes "btf_ensure_modifiable alloc b = (r, b')"
  shows "hdr (own b') = hdr (own b)" "r = Inr () \<Longrightarrow> uncached (own b')" "uncached (own b) \<Longrightarrow> uncached (own b')"
  using assms
  by (auto simp: btf_ensure_modifiable_def btf_split_regions_def Let_def rbind_Inr_iff uncached_def
      btf_invalidate_raw_data_def split: if_splits sum.splits)

lemma keeps_ensure: "op_keeps layout (btf_ensure_modifiable alloc)" "op_keeps uncached (btf_ensure_modifiable alloc)"
  using btf_ensure_modifiable_hdr by (auto simp: op_keeps_def layout_def)

lemma keeps_mem:
  "op_keeps layout (btf_add_str_mem alloc n)" "op_keeps uncached (btf_add_str_mem alloc n)"
  "op_keeps layout (btf_add_type_mem alloc n)" "op_keeps uncached (btf_add_type_mem alloc n)"
  by (auto simp: op_keeps_def btf_add_str_mem_def btf_add_type_mem_def layout_def uncached_def split: option.splits)

lemma keeps_insert: "op_keeps layout (add_str_insert alloc s)" "op_keeps uncached (add_str_insert alloc s)"
  by (auto simp: op_keeps_def add_str_insert_def Let_def layout_def uncached_def split: option.splits if_splits)

lemma keeps_add_str: "op_keeps layout (btf__add_str alloc s)" "op_keeps uncached (btf__add_str alloc s)"
proof -
  have "op_keeps layout (add_str_own alloc s)" "op_keeps uncached (add_str_own alloc s)"
    unfolding add_str_own_def using keeps_ensure keeps_mem keeps_insert by blast+
  moreover have "op_keeps P (btf__add_str alloc s)" if k: "op_keeps P (add_str_own alloc s)" for P
    unfolding op_keeps_def
  proof (intro allI impI)
    fix b r b'
    assume P: "P (own b)" and run: "btf__add_str alloc s b = (r, b')"
    show "P (own b')"
    proof (cases "base_btf b")
      case None
      then show ?thesis using run op_keepsD [OF k P] by (simp add: btf__add_str_def)
    next
      case (Some b0)
      obtain r0 b0' where f: "btf__find_str alloc s b0 = (r0, b0')" by fastforce
      then show ?thesis
        using Some run P op_keepsD [OF k, of "Btf (own b) (Some b0')" r b']
        by (auto simp: btf__add_str_def split: if_splits)
    qed
  qed
  ultimately show "op_keeps layout (btf__add_str alloc s)" "op_keeps uncached (btf__add_str alloc s)" by auto
qed

lemma keeps_add_name: "op_keeps layout (add_name alloc name)" "op_keeps uncached (add_name alloc name)"
  unfolding add_name_def using keeps_add_str by auto

lemma keeps_grow: "op_keeps layout (op_upd (grow_types bs))" "op_keeps uncached (op_upd (grow_types bs))"
  by (auto simp: op_keeps_def op_upd_def grow_types_def layout_def uncached_def)

lemma keeps_commit: "op_keeps layout (btf_commit_type alloc t)" "op_keeps uncached (btf_commit_type alloc t)"
  by (auto simp: op_keeps_def btf_commit_type_def btf_add_type_idx_entry_def grow_types_def Let_def layout_def
      uncached_def rbind_Inr_iff split: sum.splits)

lemma keeps_set_info: "op_keeps layout (set_type_info i w)" "op_keeps uncached (set_type_info i w)"
  by (auto simp: op_keeps_def set_type_info_def Let_def layout_def uncached_def split: sum.splits)

lemma keeps_extend: "op_keeps layout (extend_last ws f)" "op_keeps uncached (extend_last ws f)"
proof -
  have "op_keeps layout (\<lambda>b. set_type_info (btf__get_nr_types b) w b)"
    "op_keeps uncached (\<lambda>b. set_type_info (btf__get_nr_types b) w b)" for w
    using keeps_set_info by (auto simp: op_keeps_def)
  then show "op_keeps layout (extend_last ws f)" "op_keeps uncached (extend_last ws f)"
    unfolding extend_last_def using keeps_grow by blast+
qed

lemmas keeps_intros = op_keeps_basic keeps_ensure keeps_mem keeps_add_name keeps_commit keeps_extend keeps_set_info

lemma keeps_add:
  "op_keeps layout (add_type alloc n name mk)" "op_keeps layout (add_element alloc n name g f)"
  unfolding add_type_def add_element_def by (intro keeps_intros)+

lemma keeps_last: "op_keeps P (last_of_kind p)"
  unfolding last_of_kind_def by (intro keeps_intros)

lemma keeps_ref: "op_keeps layout (btf_add_ref_kind alloc k nm i)"
  unfolding btf_add_ref_kind_def by (intro keeps_intros keeps_add)

lemmas add_defs = btf__add_int_def btf__add_ptr_def btf__add_array_def btf__add_struct_def btf__add_union_def
  btf__add_enum_def btf__add_typedef_def btf__add_volatile_def btf__add_const_def btf__add_restrict_def
  btf__add_func_proto_def btf__add_var_def btf__add_datasec_def btf_add_composite_def

lemmas element_defs = btf__add_field_def btf__add_enum_value_def btf__add_func_param_def
  btf__add_datasec_var_info_def

lemma keeps_layout_run: "op_keeps layout (btf_run alloc c)"
proof (cases c)
  case (AddFwd nm k)
  show ?thesis unfolding AddFwd btf_run.simps btf__add_fwd_def
    by (cases k) (simp_all only: btf_fwd_kind.case add_defs, (intro keeps_intros keeps_ref keeps_add)+)
next
  case (AddFunc nm l i)
  show ?thesis unfolding AddFunc btf_run.simps btf__add_func_def by (intro keeps_intros keeps_ref)
qed (simp_all only: btf_run.simps add_defs element_defs Let_def,
    (intro keeps_intros keeps_ref keeps_add keeps_last)+)

definition establishes :: "(btf_data \<Rightarrow> bool) \<Rightarrow> 'a op \<Rightarrow> bool" where
  "establishes P m \<longleftrightarrow> (\<forall>b x b'. m b = (Inr x, b') \<longrightarrow> P (own b'))"

lemma establishes_first: "establishes P m \<Longrightarrow> (\<And>x. op_keeps P (f x)) \<Longrightarrow> establishes P (op_bind m f)"
  unfolding establishes_def op_bind_run op_keeps_def by blast

lemma establishes_second: "(\<And>x. establishes P (f x)) \<Longrightarrow> establishes P (op_bind m f)"
  unfolding establishes_def op_bind_run by blast

lemma establishes_add:
  "establishes uncached (add_type alloc n name mk)" "establishes uncached (add_element alloc n name g f)"
proof -
  have e: "establishes uncached (btf_ensure_modifiable alloc)"
    using btf_ensure_modifiable_hdr(2) by (auto simp: establishes_def)
  show "establishes uncached (add_type alloc n name mk)" "establishes uncached (add_element alloc n name g f)"
    unfolding add_type_def add_element_def by (intro establishes_first [OF e] keeps_intros)+
qed

lemma establishes_ref: "establishes uncached (btf_add_ref_kind alloc k nm i)"
  unfolding btf_add_ref_kind_def by (intro establishes_second establishes_add)

lemma establishes_element:
  "establishes uncached (op_bind (add_element alloc n nm g f) (\<lambda>_. op_return x))"
  by (intro establishes_first [OF establishes_add(2)] keeps_intros)

lemma establishes_patched:
  "establishes uncached (op_bind (btf_add_ref_kind alloc k nm i) (\<lambda>tid. op_bind (set_type_info tid (w tid)) (\<lambda>_. op_return tid)))"
  by (intro establishes_first [OF establishes_ref] keeps_intros)

lemma establishes_run: "establishes uncached (btf_run alloc c)"
proof (cases c)
  case (AddFwd nm k)
  show ?thesis unfolding AddFwd btf_run.simps btf__add_fwd_def
    by (rule establishes_second, cases k)
      (simp_all only: btf_fwd_kind.case btf__add_enum_def, (intro establishes_second establishes_patched establishes_add)+)
next
  case (AddFunc nm l i)
  show ?thesis unfolding AddFunc btf_run.simps btf__add_func_def
    by (rule establishes_second) (rule establishes_patched)
qed (simp_all only: btf_run.simps add_defs element_defs op_bind_assoc Let_def,
    ((rule establishes_add establishes_ref establishes_element | rule establishes_second)+))

subsection \<open>Properties of the writer\<close>

lemma vlen_effect:
  assumes "\<forall>t \<in> set ts. btf_vlen t \<le> n" "2 \<le> n" "new_type c noff = None \<longrightarrow> ts \<noteq> []" "n < 65535"
  shows "\<forall>t \<in> set (cmd_effect c noff ts). btf_vlen t \<le> n + 1"
proof (cases "new_type c noff")
  case (Some t)
  then have "btf_vlen t \<le> 2"
    using func_linkage_le func_linkage_less by (cases c) (auto split: if_splits)
  then show ?thesis using assms Some by (auto simp: cmd_effect_def)
next
  case None
  have lim: "btf_vlen (last ts) < 65535" using assms None last_in_set [of ts] by fastforce
  have "btf_vlen (extended_type c noff (last ts)) \<le> btf_vlen (last ts) + 1"
    using inc_vlen_fields(2) [OF lim] by (cases c) (auto simp: btf_type_inc_vlen_def)
  then have "btf_vlen (extended_type c noff (last ts)) \<le> n + 1" using assms(1,3) None last_in_set [of ts] by fastforce
  then show ?thesis using assms(1) None by (fastforce simp: cmd_effect_def dest: in_set_butlastD)
qed

fun btf_runs :: "alloc \<Rightarrow> btf_cmd list \<Rightarrow> btf \<Rightarrow> btf result" where
  "btf_runs alloc [] b = Inr b"
| "btf_runs alloc (c # cs) b =
     (case btf_run alloc c b of (Inl e, b') \<Rightarrow> Inl e | (Inr tid, b') \<Rightarrow> btf_runs alloc cs b')"

lemma element_needs_type:
  assumes "btf_inv b []" "btf_run alloc c b = (Inr tid, b')"
  shows "new_type c noff \<noteq> None"
proof
  assume "new_type c noff = None"
  then show False using assms(2)
    by (cases c) (auto simp: element_defs op_bind_assoc last_of_kind_run [OF assms(1)] guard_run split: if_splits)
qed

lemma btf_runs_ok:
  assumes "btf_inv b ts" "layout (own b)" "\<forall>t \<in> set ts. btf_vlen t \<le> n" "2 \<le> n" "n + length cs < 65535"
    "btf_runs alloc cs b = Inr b'"
  shows "\<exists>ts'. btf_inv b' ts' \<and> layout (own b') \<and> (cs \<noteq> [] \<longrightarrow> uncached (own b')) \<and>
    length ts' \<le> length ts + length cs \<and> (ts \<noteq> [] \<or> cs \<noteq> [] \<longrightarrow> ts' \<noteq> [])"
  using assms
proof (induction cs arbitrary: b ts n)
  case (Cons c cs)
  obtain tid b1 where step: "btf_run alloc c b = (Inr tid, b1)" and rest: "btf_runs alloc cs b1 = Inr b'"
    using Cons.prems(6) by (auto split: prod.splits sum.splits)
  have lim: "ts \<noteq> [] \<longrightarrow> btf_vlen (last ts) < 65535" using Cons.prems by (auto dest!: last_in_set)
  obtain noff where eff: "btf_inv b1 (cmd_effect c noff ts)"
    using writer_step [OF Cons.prems(1) step lim] by (auto simp: writer_step_ok_def)
  have "new_type c noff = None \<longrightarrow> ts \<noteq> []" using element_needs_type [of b alloc c tid b1 noff] Cons.prems(1) step by auto
  then have v: "\<forall>t \<in> set (cmd_effect c noff ts). btf_vlen t \<le> n + 1"
    and l: "length (cmd_effect c noff ts) \<le> length ts + 1"
    using vlen_effect [of ts n c noff] Cons.prems by (auto simp: cmd_effect_def split: option.splits)
  have "layout (own b1)" using op_keepsD [OF keeps_layout_run Cons.prems(2) step] .
  with Cons.IH [OF eff _ v _ _ rest] Cons.prems obtain ts' where ts': "btf_inv b' ts'" "layout (own b')"
    "cs \<noteq> [] \<longrightarrow> uncached (own b')" "length ts' \<le> length (cmd_effect c noff ts) + length cs" "cmd_effect c noff ts \<noteq> [] \<longrightarrow> ts' \<noteq> []" by auto
  have ne: "cmd_effect c noff ts \<noteq> []" by (simp add: cmd_effect_def split: option.split)
  have "uncached (own b1)" using establishes_run step by (auto simp: establishes_def)
  then have "uncached (own b')" using ts'(3) rest by (cases cs) auto
  then show ?case using ts' l ne by auto
qed auto

lemma layout_canonical:
  "layout d \<Longrightarrow> sizeof_btf_header + unat (type_len (hdr d)) + unat (str_len (hdr d)) < 2 ^ 32 \<Longrightarrow> canonical d"
  by (simp add: layout_def canonical_def)

text \<open>C1. A BTF built from an empty one by the writer's functions serializes, in either byte order, to a
  blob that parses to exactly the types and strings that were written.\<close>

theorem btf_writer_roundtrip:
  assumes "btf__new_empty alloc = Inr b0" "btf_runs alloc cs b0 = Inr b" "cs \<noteq> []" "length cs < 65000"
    "sizeof_btf_header + unat (type_len (hdr (own b))) + unat (str_len (hdr (own b))) < 2 ^ 32"
  shows "\<exists>ts data b2. btf_inv b ts \<and> btf_get_raw_data served (own b) swap = Inr (Some (data, length data)) \<and>
    btf_new served data (base_btf b) = Inr b2 \<and> btf_repr (own b2) ts \<and>
    strs_data (own b2) = strs_data (own b) \<and> swapped_endian (own b2) = swap"
proof -
  have "layout (own b0)"
    using assms(1) by (auto simp: btf__new_empty_def btf_new_empty_def Let_def rbind_Inr_iff layout_def hdr_zero_def
        sizeof_btf_header_def)
  from btf_runs_ok [OF btf_new_empty_inv [OF assms(1)] this _ _ _ assms(2), of 2] assms(3,4)
  obtain ts where ts: "btf_inv b ts" "layout (own b)" "uncached (own b)" "length ts \<le> length cs" "ts \<noteq> []"
    by auto
  have own: "own_inv (base_btf b \<noteq> None) (own b) ts" using ts(1) by (simp add: btf_inv_def)
  have repr: "btf_repr (own b) ts" and strs: "strs_ok (base_btf b \<noteq> None) (own b)"
    using own by (simp_all add: own_inv_def)
  have canon: "canonical (own b)" using layout_canonical [OF ts(2) assms(5)] .
  have none: "(if swap then raw_data_swapped (own b) else raw_data (own b)) = None"
    using ts(3) by (simp add: uncached_def)
  have some: "ts \<noteq> [] \<or> strs_data (own b) \<noteq> []" and nr: "length ts \<le> BTF_MAX_NR_TYPES"
    using ts(4,5) assms(4) by (auto simp: BTF_MAX_NR_TYPES_def)
  show ?thesis
    using btf_get_raw_data_layout [OF repr strs canon none] btf_new_raw_layout [OF repr strs canon some nr, of swap] ts(1)
    by blast
qed

definition ex_empty :: btf where
  "ex_empty = projr (btf__new_empty served)"

lemma ex_empty: "btf__new_empty served = Inr ex_empty"
  by (simp add: ex_empty_def btf__new_empty_def btf_new_empty_def Let_def)

lemma ex_empty_data:
  "ex_empty = Btf ((btf_calloc None)\<lparr>fd := -1, ptr_sz := 8,
      hdr := hdr_zero\<lparr>hdr_len := 24, h_magic := BTF_MAGIC, h_version := BTF_VERSION, str_len := 1\<rparr>,
      raw_size := 25, raw_data := raw_data (own ex_empty), strs_data := [NUL]\<rparr>) None"
  by (simp add: ex_empty_def btf__new_empty_def btf_new_empty_def Let_def sizeof_btf_header_def sizeof_ptr_def)

lemma index_one: "\<exists>m. index_strs served [NUL] 0 (hashmap__init strs_hash_fn strs_hash_equal_fn [NUL]) = Inr m"
  by (subst index_strs.simps)
    (simp add: Let_def hashmap__add_def hashmap__insert_def hashmap_find_entry_def hashmap__init_def
      hashmap_insert_new_def hashmap_needs_to_grow_def hashmap_grow_def cstr_def index_strs.simps)

lemma ex_fields:
  "hdr (own ex_empty) = hdr_zero\<lparr>hdr_len := 24, h_magic := BTF_MAGIC, h_version := BTF_VERSION, str_len := 1\<rparr>"
  "strs_data (own ex_empty) = [NUL]" "types_data (own ex_empty) = []" "length (hdr_bytes (own ex_empty)) = 24"
  "base_btf ex_empty = None" "\<not> modifiable (own ex_empty)" "type_offs (own ex_empty) = []" "nr_types (own ex_empty) = 0"
  "type_offs_cap (own ex_empty) = 0"
  by (subst ex_empty_data, simp add: btf_calloc_def hdr_bytes_def sizeof_btf_header_def)+

lemma ex_modifiable:
  "\<exists>b. btf_ensure_modifiable served ex_empty = (Inr (), b) \<and> hdr (own b) = hdr (own ex_empty) \<and>
     types_data_cap (own b) = 0 \<and> nr_types (own b) = 0 \<and> type_offs_cap (own b) = 0"
proof -
  obtain m where m: "index_strs served [NUL] 0 (hashmap__init strs_hash_fn strs_hash_equal_fn [NUL]) = Inr m"
    using index_one by blast
  show ?thesis
    by (simp add: btf_ensure_modifiable_def ex_fields btf_split_regions_def Let_def hdr_zero_def
        sizeof_btf_header_def hashmap__new_def m btf_invalidate_raw_data_def)
qed

lemma ex_run:
  "\<exists>b. btf_runs served [AddPtr 0] ex_empty = Inr b \<and> type_len (hdr (own b)) = 12 \<and> str_len (hdr (own b)) = 1"
proof -
  obtain b1 where b1: "btf_ensure_modifiable served ex_empty = (Inr (), b1)" "hdr (own b1) = hdr (own ex_empty)"
    "types_data_cap (own b1) = 0" "nr_types (own b1) = 0" "type_offs_cap (own b1) = 0"
    using ex_modifiable by blast
  show ?thesis
    by (simp add: btf__add_ptr_def btf_add_ref_kind_def validate_type_id_def add_type_def op_bind_def op_guard_def
       b1 ex_fields hdr_zero_def btf_add_type_mem_def btf_add_mem_def UINT_MAX_def libbpf_reallocarray_def
       sizeof_btf_type_def add_name_def no_name_def op_return_def
      btf_commit_type_def btf_add_type_idx_entry_def BTF_MAX_NR_TYPES_def grow_types_def length_encode_type)
qed

theorem btf_writer_roundtrip_witness:
  "\<exists>b ts data b2. btf_runs served [AddPtr 0] ex_empty = Inr b \<and> btf_inv b ts \<and>
    btf_get_raw_data served (own b) True = Inr (Some (data, length data)) \<and>
    btf_new served data (base_btf b) = Inr b2 \<and> btf_repr (own b2) ts \<and> swapped_endian (own b2)"
proof -
  obtain b where b: "btf_runs served [AddPtr 0] ex_empty = Inr b" "type_len (hdr (own b)) = 12" "str_len (hdr (own b)) = 1"
    using ex_run by blast
  from btf_writer_roundtrip [OF ex_empty b(1), of True] b show ?thesis
    by (auto simp: sizeof_btf_header_def)
qed

text \<open>C7. \<open>btf__add_str\<close> stores a string once: on success the returned offset resolves to the string,
  every string that could be resolved before still is, at the same offset, and the section grows
  only when neither the BTF nor its base has the string already. The only failure is
  \<open>-ENOMEM\<close>, and the types are untouched.\<close>

theorem btf__add_str_correct:
  assumes "btf_inv b ts" "btf__add_str alloc s b = (r, b')"
  shows "btf_inv b' ts \<and> strs_kept b b' \<and>
    (case r of
       Inl e \<Rightarrow> e = ENOMEM
     | Inr off \<Rightarrow> btf__str_by_offset b' off = Inr (Some (cstr s)) \<and>
         strs_data (own b') =
           (if str_present b s then strs_data (own b) else strs_data (own b) @ cstr s @ [NUL]))"
  using btf__add_str_ok [OF assms] by auto

theorem btf__add_str_correct_witness:
  "case btf__add_str served ''int'' ex_empty of (r, b') \<Rightarrow> btf_inv b' [] \<and> strs_kept ex_empty b'"
  using btf__add_str_correct [OF btf_new_empty_inv [OF ex_empty], of served "''int''"]
  by (cases "btf__add_str served ''int'' ex_empty") auto

text \<open>C2. Every function of the writer implements its specification: a refused or failed call leaves
  the types as they were; a successful one appends the type it describes, or the element to the
  last type, with the name offset resolving to the given name, and returns the id of the new type.
  (The element functions need room in the 16-bit count of the last type.)\<close>

theorem btf_writer_refines:
  assumes "btf_inv b ts" "btf_run alloc c b = (r, b')" "ts \<noteq> [] \<longrightarrow> btf_vlen (last ts) < 65535"
  shows "strs_kept b b' \<and>
     (case r of
        Inl e \<Rightarrow> btf_inv b' ts \<and> e \<in> {EINVAL, E2BIG, ENOMEM}
      | Inr tid \<Rightarrow> \<exists>noff. name_ok b' noff (cmd_name c) \<and> btf_inv b' (cmd_effect c noff ts) \<and>
          (new_type c noff \<noteq> None \<longrightarrow> btf__type_by_id b' tid = Inr (new_type c noff)))"
proof -
  note W = writer_step [OF assms]
  have "btf__type_by_id b' tid = Inr (new_type c noff)"
    if "new_type c noff \<noteq> None" "btf_inv b' (cmd_effect c noff ts)" "tid = btf__get_nr_types b'" for noff tid
    using that btf_inv_last(1) [of b' ts] by (auto simp: cmd_effect_def)
  then show ?thesis using W by (auto simp: writer_step_ok_def split: sum.splits)
qed

theorem btf_writer_refines_witness:
  "case btf_run served (AddInt (Some ''int'') 4 1) ex_empty of
     (Inl e, b') \<Rightarrow> btf_inv b' []
   | (Inr tid, b') \<Rightarrow> \<exists>noff. name_ok b' noff (Some ''int'') \<and>
       btf__type_by_id b' tid = Inr (new_type (AddInt (Some ''int'') 4 1) noff)"
proof -
  obtain r b' where run: "btf_run served (AddInt (Some ''int'') 4 1) ex_empty = (r, b')" by fastforce
  have "[] \<noteq> [] \<longrightarrow> btf_vlen (last []) < 65535" by simp
  from btf_writer_refines [OF btf_new_empty_inv [OF ex_empty] run this] show ?thesis
    unfolding run prod.case by (cases r) auto
qed

end
