(* ===== verification/Externs.thy ===== *)
theory Externs
  imports User_Maps Btf_Write "HOL-Library.Signed_Division"
begin

text \<open>
  Externs and the fixing of section sizes and variable offsets in the object's BTF: collecting the extern
  symbols (\<^verbatim>\<open>libbpf.c\<close>, lines 2975 to 3278), the map of Kconfig values, and \<open>btf__finalize_data\<close>
  (\<^verbatim>\<open>btf.c\<close>, lines 1088 to 1179).

  Types are changed in place. A BTF that has not been split into regions keeps them inside its raw data,
  which changes with them.
\<close>

subsection \<open>Changing a type in place\<close>

definition overwrite :: "nat \<Rightarrow> u8 list \<Rightarrow> u8 list \<Rightarrow> u8 list" where
  "overwrite at bs mem = take at mem @ bs @ drop (at + length bs) mem"

definition store_type :: "nat \<Rightarrow> btf_type \<Rightarrow> btf \<Rightarrow> btf result" where
  "store_type tid t b =
     (let d = own b; bs = encode_type t in
      rbind (guard (start_id d \<le> tid) OOB) (\<lambda>_.
      rbind (array_get (type_offs d) (tid - start_id d)) (\<lambda>ofs.
      rbind (guard (unat ofs + length bs \<le> length (types_data d)) OOB) (\<lambda>_.
      Inr (upd_own (\<lambda>d. d\<lparr>types_data := overwrite (unat ofs) bs (types_data d),
             raw_data := (if modifiable d then raw_data d
                          else map_option (overwrite (types_at (hdr d) + unat ofs) bs) (raw_data d))\<rparr>) b)))))"

subsection \<open>Finding externs in BTF\<close>

definition BTF_VAR_EXTERN :: u32 where "BTF_VAR_EXTERN = 2"
definition BTF_VAR_ALLOCATED :: u32 where "BTF_VAR_ALLOCATED = 1"

fun find_extern_loop :: "btf \<Rightarrow> string \<Rightarrow> nat list \<Rightarrow> nat result" where
  "find_extern_loop b ext_nm [] = Inl ENOENT"
| "find_extern_loop b ext_nm (i # is) =
     rbind (type_at b i) (\<lambda>t.
     if \<not> btf_is_var t then find_extern_loop b ext_nm is
     else rbind (name_at b (name_off t)) (\<lambda>var_name.
          if var_name \<noteq> ext_nm then find_extern_loop b ext_nm is
          else if btf_var t \<noteq> BTF_VAR_EXTERN then Inl EINVAL
          else Inr i))"

definition find_extern_btf_id :: "btf option \<Rightarrow> string \<Rightarrow> nat result" where
  "find_extern_btf_id b ext_nm =
     (case b of None \<Rightarrow> Inl ESRCH | Some b \<Rightarrow> find_extern_loop b ext_nm [1..<btf__get_nr_types b + 1])"

fun find_extern_sec_loop :: "btf \<Rightarrow> nat \<Rightarrow> nat list \<Rightarrow> nat result" where
  "find_extern_sec_loop b var_id [] = Inl ENOENT"
| "find_extern_sec_loop b var_id (i # is) =
     rbind (type_at b i) (\<lambda>t.
     if btf_is_datasec t \<and> (\<exists>vs \<in> set (btf_var_secinfos t). unat (v_type vs) = var_id) then Inr i
     else find_extern_sec_loop b var_id is)"

definition find_extern_sec_btf_id :: "btf option \<Rightarrow> nat \<Rightarrow> nat result" where
  "find_extern_sec_btf_id b var_id =
     (case b of None \<Rightarrow> Inl ESRCH | Some b \<Rightarrow> find_extern_sec_loop b var_id [1..<btf__get_nr_types b + 1])"

text \<open>
  The type and the signedness of a Kconfig extern. An array asks for the type of its element; the
  recursion is bounded by the number of types, beyond which it does not end.
\<close>

fun find_kcfg_type :: "nat \<Rightarrow> btf \<Rightarrow> nat \<Rightarrow> (kcfg_type \<times> bool) result" where
  "find_kcfg_type fuel b tid =
     rbind (skip_mods_and_typedefs b tid) (\<lambda>(t, _).
     rbind (btf__name_by_offset b (name_off t)) (\<lambda>name.
     case btf_kind t of
       BTF_KIND_INT \<Rightarrow>
         (let enc = btf_int_encoding t in
          if enc AND 4 \<noteq> 0 then Inr (if type_size t = 1 then KCFG_BOOL else KCFG_UNKNOWN, False)
          else let sgn = (enc AND 1 \<noteq> 0) in
               if type_size t = 1 then Inr (KCFG_CHAR, sgn)
               else if type_size t < 1 \<or> type_size t > 8 \<or> type_size t AND (type_size t - 1) \<noteq> 0 then Inr (KCFG_UNKNOWN, sgn)
               else Inr (KCFG_INT, sgn))
     | BTF_KIND_ENUM \<Rightarrow>
         if type_size t \<noteq> 4 then Inr (KCFG_UNKNOWN, False)
         else rbind (deref name OOB) (\<lambda>n. Inr (if n = ''libbpf_tristate'' then KCFG_TRISTATE else KCFG_UNKNOWN, False))
     | BTF_KIND_ARRAY \<Rightarrow>
         if a_nelems (btf_array t) = 0 then Inr (KCFG_UNKNOWN, False)
         else (case fuel of
                 0 \<Rightarrow> Inl NONTERM
               | Suc n \<Rightarrow> rbind (find_kcfg_type n b (unat (a_type (btf_array t)))) (\<lambda>(k, _).
                   Inr (if k = KCFG_CHAR then KCFG_CHAR_ARR else KCFG_UNKNOWN, False)))
     | _ \<Rightarrow> Inr (KCFG_UNKNOWN, False)))"

declare find_kcfg_type.simps [simp del]

fun strcmp :: "string \<Rightarrow> string \<Rightarrow> int" where
  "strcmp [] [] = 0"
| "strcmp [] (c # cs) = -1"
| "strcmp (c # cs) [] = 1"
| "strcmp (c # cs) (d # ds) =
     (if c = d then strcmp cs ds else if (of_char c :: nat) < of_char d then -1 else 1)"

fun extern_type_num :: "extern_type \<Rightarrow> nat" where
  "extern_type_num EXT_UNKNOWN = 0" | "extern_type_num EXT_KCFG = 1" | "extern_type_num EXT_KSYM = 2"

definition cmp_externs :: "extern_desc \<Rightarrow> extern_desc \<Rightarrow> int" where
  "cmp_externs a b =
     (if ext_type a \<noteq> ext_type b then (if extern_type_num (ext_type a) < extern_type_num (ext_type b) then -1 else 1)
      else if ext_type a = EXT_KCFG \<and> kcfg_align a \<noteq> kcfg_align b then (if kcfg_align a > kcfg_align b then -1 else 1)
      else if ext_type a = EXT_KCFG \<and> kcfg_sz a \<noteq> kcfg_sz b then (if kcfg_sz a < kcfg_sz b then -1 else 1)
      else strcmp (ext_name a) (ext_name b))"

fun find_int_loop :: "btf \<Rightarrow> nat list \<Rightarrow> nat result" where
  "find_int_loop b [] = Inr 0"
| "find_int_loop b (i # is) =
     rbind (type_at b i) (\<lambda>t. if btf_is_int t \<and> btf_int_bits t = 32 then Inr i else find_int_loop b is)"

definition find_int_btf_id :: "btf \<Rightarrow> nat result" where
  "find_int_btf_id b = find_int_loop b [1..<btf__get_nr_types b + 1]"

subsection \<open>Collecting externs\<close>

definition extern_new :: extern_desc where
  "extern_new = \<lparr>ext_type = EXT_UNKNOWN, ext_sym_idx = 0, ext_btf_id = 0, ext_name = [], ext_is_set = False, ext_is_weak = False,
     kcfg_type = KCFG_UNKNOWN, kcfg_sz = 0, kcfg_align = 0, kcfg_data_off = 0, kcfg_is_signed = False,
     ksym_addr = 0, ksym_vmlinux_btf_id = 0, ksym_type_id = 0\<rparr>"

datatype extern_step = Done extern_desc | Collected extern_desc "nat option" "nat option"

text \<open>
  A Kconfig extern: a size that is 0 or negative as an \<open>int\<close> is returned as the result of the whole
  collection, so a size of 0 ends it with success (\<open>Done\<close>).
\<close>

definition kcfg_extern :: "btf \<Rightarrow> nat \<Rightarrow> btf_type \<Rightarrow> extern_desc \<Rightarrow> extern_step result" where
  "kcfg_extern b sec_id t ext =
     rbind (fst (btf__resolve_size b (unat (ref_type t)))) (\<lambda>n.
     if s32 n = 0 then Inr (Done (ext\<lparr>ext_type := EXT_KCFG\<rparr>))
     else if s32 n < 0 then Inl (RAW (s32 n))
     else (case fst (btf__align_of (btf__get_nr_types b + 1) b (unat (ref_type t))) of
             None \<Rightarrow> Inl NONTERM
           | Some (Inl e) \<Rightarrow> Inl e
           | Some (Inr align) \<Rightarrow>
               if s32 align \<le> 0 then Inl EINVAL
               else rbind (find_kcfg_type (btf__get_nr_types b) b (unat (ref_type t))) (\<lambda>(k, sgn).
                    if k = KCFG_UNKNOWN then Inl ENOTSUP
                    else Inr (Collected (ext\<lparr>ext_type := EXT_KCFG, kcfg_sz := s32 n, kcfg_align := s32 align, kcfg_type := k,
                                kcfg_is_signed := sgn\<rparr>) (Some sec_id) None))))"

definition collect_extern :: "btf option \<Rightarrow> nat \<Rightarrow> gelf_sym \<Rightarrow> string \<Rightarrow> extern_step result" where
  "collect_extern bopt i sy ext_nm =
     rbind (find_extern_btf_id bopt ext_nm) (\<lambda>btf_id.
     rbind (deref bopt OOB) (\<lambda>b.
     rbind (type_at b btf_id) (\<lambda>t.
     rbind (name_at b (name_off t)) (\<lambda>nm.
     let ext = extern_new\<lparr>ext_btf_id := int btf_id, ext_name := nm, ext_sym_idx := int i,
                 ext_is_weak := (GELF_ST_BIND (st_info sy) = STB_WEAK)\<rparr> in
     rbind (find_extern_sec_btf_id bopt btf_id) (\<lambda>sec_id.
     rbind (type_at b sec_id) (\<lambda>sec.
     rbind (name_at b (name_off sec)) (\<lambda>sec_name.
     if sec_name = ''.kconfig'' then kcfg_extern b sec_id t ext
     else if sec_name = ''.ksyms''
     then rbind (skip_mods_and_typedefs b (unat (ref_type t))) (\<lambda>(_, type_id).
          Inr (Collected (ext\<lparr>ext_type := EXT_KSYM, ksym_type_id := of_nat type_id\<rparr>) None (Some sec_id)))
     else Inl ENOTSUP)))))))"

text \<open>The state of the loop: the externs so far, the Kconfig and the ksym section. The result says whether
  all symbols were visited.\<close>

type_synonym extern_state = "extern_desc list \<times> nat option \<times> nat option"

fun collect_externs_loop :: "alloc \<Rightarrow> bpf_object \<Rightarrow> elf \<Rightarrow> elf_data \<Rightarrow> nat list \<Rightarrow> extern_state \<Rightarrow> (bool \<times> extern_state) result" where
  "collect_externs_loop alloc obj e symbols [] st = Inr (True, st)"
| "collect_externs_loop alloc obj e symbols (i # is) st =
     (case elf_getsym e symbols i of
        None \<Rightarrow> Inl LIBBPF_ERRNO__FORMAT
      | Some sy \<Rightarrow>
          if \<not> sym_is_extern sy then collect_externs_loop alloc obj e symbols is st
          else (case elf_sym_str obj (st_name sy) of
                  None \<Rightarrow> collect_externs_loop alloc obj e symbols is st
                | Some ext_nm \<Rightarrow>
                    if ext_nm = [] then collect_externs_loop alloc obj e symbols is st
                    else rbind (guard (libbpf_reallocarray alloc (length (fst st) + 1) 72) ENOMEM) (\<lambda>_.
                         rbind (collect_extern (obj_btf obj) i sy ext_nm) (\<lambda>r.
                         case r of
                           Done ext \<Rightarrow> Inr (False, fst st @ [ext], snd st)
                         | Collected ext kcfg ksym \<Rightarrow>
                             collect_externs_loop alloc obj e symbols is
                               (fst st @ [ext], if kcfg = None then fst (snd st) else kcfg,
                                if ksym = None then snd (snd st) else ksym)))))"

subsection \<open>Giving externs a place\<close>

definition find_extern_by_name :: "extern_desc list \<Rightarrow> string \<Rightarrow> nat option" where
  "find_extern_by_name exts name = find_index (\<lambda>x. ext_name x = name) exts"

definition set_secinfo :: "nat \<Rightarrow> (btf_var_secinfo_t \<Rightarrow> btf_var_secinfo_t) \<Rightarrow> btf_type \<Rightarrow> btf_type" where
  "set_secinfo i f sec =
     (let vs = btf_var_secinfos sec in sec\<lparr>vdata := VSecinfos (vs[i := f (vs ! i)])\<rparr>)"

text \<open>
  One entry of the section: the variable becomes an allocated one. A type that is not a variable has no
  linkage to write: the write would hit the type behind it.
\<close>

definition place_extern :: "extern_desc list \<Rightarrow> (btf_type \<Rightarrow> btf_type) \<Rightarrow> (extern_desc \<Rightarrow> btf_var_secinfo_t \<Rightarrow> btf_var_secinfo_t) \<Rightarrow>
    nat \<Rightarrow> nat \<Rightarrow> btf \<Rightarrow> btf result" where
  "place_extern exts upd_var upd_vs sec_id i b =
     rbind (type_at b sec_id) (\<lambda>sec.
     rbind (array_get (btf_var_secinfos sec) i) (\<lambda>vs.
     rbind (type_at b (unat (v_type vs))) (\<lambda>vt.
     rbind (name_at b (name_off vt)) (\<lambda>nm.
     rbind (deref (find_extern_by_name exts nm) ESRCH) (\<lambda>k.
     rbind (guard (btf_is_var vt) OOB) (\<lambda>_.
     rbind (store_type (unat (v_type vs)) (upd_var (vt\<lparr>vdata := VVar BTF_VAR_ALLOCATED\<rparr>)) b) (\<lambda>b1.
     store_type sec_id (set_secinfo i (upd_vs (exts ! k)) sec) b1)))))))"

fun place_externs :: "(nat \<Rightarrow> btf \<Rightarrow> btf result) \<Rightarrow> nat list \<Rightarrow> btf \<Rightarrow> btf result" where
  "place_externs f [] b = Inr b"
| "place_externs f (i # is) b = rbind (f i b) (place_externs f is)"

definition set_sec_size :: "nat \<Rightarrow> u32 \<Rightarrow> btf \<Rightarrow> btf result" where
  "set_sec_size sec_id n b = rbind (type_at b sec_id) (\<lambda>sec. store_type sec_id (sec\<lparr>size_type := n\<rparr>) b)"

definition place_ksyms :: "extern_desc list \<Rightarrow> nat \<Rightarrow> btf \<Rightarrow> btf result" where
  "place_ksyms exts sec_id b =
     rbind (find_int_btf_id b) (\<lambda>int_id.
     rbind (type_at b sec_id) (\<lambda>sec.
     rbind (place_externs (\<lambda>i. place_extern exts (\<lambda>vt. vt\<lparr>size_type := of_nat int_id\<rparr>)
              (\<lambda>_ vs. vs\<lparr>v_offset := of_nat (4 * i), v_size := 4\<rparr>) sec_id i) [0..<btf_vlen sec] b) (\<lambda>b1.
     set_sec_size sec_id (of_nat (4 * btf_vlen sec)) b1)))"

text \<open>The offsets of the Kconfig values: aligned, in the sorted order.\<close>

text \<open>\<^verbatim>\<open>roundup\<close> of numbers of type \<^verbatim>\<open>int\<close>, as all offsets here: they wrap around, and the division rounds to 0.\<close>

definition roundup_int :: "int \<Rightarrow> int \<Rightarrow> int" where
  "roundup_int x y = int32 (int32 (x + (y - 1)) sdiv y * y)"

fun kcfg_layout :: "int \<Rightarrow> extern_desc list \<Rightarrow> int \<times> extern_desc list" where
  "kcfg_layout ofs [] = (ofs, [])"
| "kcfg_layout ofs (ext # exts) =
     (if ext_type ext \<noteq> EXT_KCFG then (let (n, r) = kcfg_layout ofs exts in (n, ext # r))
      else let at = roundup_int ofs (kcfg_align ext);
               (n, r) = kcfg_layout (int32 (at + kcfg_sz ext)) exts in
           (n, ext\<lparr>kcfg_data_off := at\<rparr> # r))"

definition place_kcfgs :: "extern_desc list \<Rightarrow> int \<Rightarrow> nat \<Rightarrow> btf \<Rightarrow> btf result" where
  "place_kcfgs exts n sec_id b =
     rbind (set_sec_size sec_id (of_int n) b) (\<lambda>b1.
     rbind (type_at b1 sec_id) (\<lambda>sec.
     place_externs (\<lambda>i. place_extern exts id (\<lambda>ext vs. vs\<lparr>v_offset := of_int (kcfg_data_off ext)\<rparr>) sec_id i) [0..<btf_vlen sec] b1))"

definition place_all :: "bpf_object \<Rightarrow> extern_state \<Rightarrow> bpf_object result" where
  "place_all obj = (\<lambda>(exts0, kcfg_sec, ksym_sec).
     (let exts1 = qsort cmp_externs exts0;
          (n, exts2) = (case kcfg_sec of None \<Rightarrow> (0, exts1) | Some _ \<Rightarrow> kcfg_layout 0 exts1) in
      case obj_btf obj of
        None \<Rightarrow> Inl OOB
      | Some b \<Rightarrow>
          rbind (case ksym_sec of None \<Rightarrow> Inr b | Some i \<Rightarrow> place_ksyms exts1 i b) (\<lambda>b1.
          rbind (case kcfg_sec of None \<Rightarrow> Inr b1 | Some i \<Rightarrow> place_kcfgs exts2 n i b1) (\<lambda>b2.
          Inr (obj\<lparr>externs := exts2, obj_btf := Some b2\<rparr>)))))"

definition bpf_object__collect_externs :: "alloc \<Rightarrow> bpf_object \<Rightarrow> bpf_object result" where
  "bpf_object__collect_externs alloc obj =
     (case (ef_symbols (efile obj), ef_elf (efile obj)) of
        (Some symbols, Some e) \<Rightarrow>
          (case elf_sec_hdr obj (elf_sec_by_idx obj (nat (symbols_shndx (efile obj)))) of
             Inl _ \<Rightarrow> Inl LIBBPF_ERRNO__FORMAT
           | Inr sh \<Rightarrow>
               rbind (nr_rels sh) (\<lambda>is.
               rbind (collect_externs_loop alloc obj e symbols is ([], None, None)) (\<lambda>(finished, st).
               if \<not> finished then Inr (obj\<lparr>externs := fst st\<rparr>)
               else if fst st = [] then Inr obj
               else place_all obj st)))
      | (None, _) \<Rightarrow> Inr obj
      | (Some _, None) \<Rightarrow> Inl OOB)"

subsection \<open>Finalizing the BTF\<close>

text \<open>The difference of the offsets is taken in 32 bits and read as an \<open>int\<close>.\<close>

definition compare_vsi_off :: "btf_var_secinfo_t \<Rightarrow> btf_var_secinfo_t \<Rightarrow> int" where
  "compare_vsi_off a b = sint (v_offset a - v_offset b)"

definition fixup_var :: "bpf_object \<Rightarrow> btf \<Rightarrow> btf_var_secinfo_t \<Rightarrow> btf_var_secinfo_t result" where
  "fixup_var obj b vs =
     rbind (type_at b (unat (v_type vs))) (\<lambda>t_var.
     rbind (guard (btf_is_var t_var) EINVAL) (\<lambda>_.
     if btf_var t_var = 0 then Inr vs
     else rbind (btf__name_by_offset b (name_off t_var)) (\<lambda>nm.
          rbind (deref nm ENOENT) (\<lambda>name.
          case bpf_object__variable_offset obj (Some name) of
            Inl e \<Rightarrow> Inl (if e = OOB then OOB else ENOENT)
          | Inr ofs \<Rightarrow> Inr (vs\<lparr>v_offset := of_nat ofs\<rparr>)))))"

fun fixup_vars :: "bpf_object \<Rightarrow> btf \<Rightarrow> btf_var_secinfo_t list \<Rightarrow> btf_var_secinfo_t list result" where
  "fixup_vars obj b [] = Inr []"
| "fixup_vars obj b (vs # vss) =
     rbind (fixup_var obj b vs) (\<lambda>v. rbind (fixup_vars obj b vss) (\<lambda>r. Inr (v # r)))"

definition btf_fixup_datasec :: "bpf_object \<Rightarrow> btf \<Rightarrow> btf_type \<Rightarrow> btf_type result" where
  "btf_fixup_datasec obj b t =
     rbind (btf__name_by_offset b (name_off t)) (\<lambda>nm.
     rbind (deref nm ENOENT) (\<lambda>name.
     rbind (if type_size t \<noteq> 0 then Inr t
            else case bpf_object__section_size obj (Some name) of
                   Inl e \<Rightarrow> Inl (if e = OOB then OOB else ENOENT)
                 | Inr n \<Rightarrow>
                     if n = 0 then Inl ENOENT
                     else rbind (fixup_vars obj b (btf_var_secinfos t)) (\<lambda>vss.
                          Inr (t\<lparr>size_type := of_nat n, vdata := VSecinfos vss\<rparr>))) (\<lambda>t1.
     Inr (t1\<lparr>vdata := VSecinfos (qsort compare_vsi_off (btf_var_secinfos t1))\<rparr>))))"

fun finalize_loop :: "bpf_object \<Rightarrow> nat list \<Rightarrow> btf \<Rightarrow> btf result" where
  "finalize_loop obj [] b = Inr b"
| "finalize_loop obj (i # is) b =
     rbind (btf_type_by_id b i) (\<lambda>t.
     if \<not> btf_is_datasec t then finalize_loop obj is b
     else rbind (btf_fixup_datasec obj b t) (\<lambda>t'. rbind (store_type i t' b) (finalize_loop obj is)))"

definition btf__finalize_data :: "bpf_object \<Rightarrow> btf \<Rightarrow> btf result" where
  "btf__finalize_data obj b = finalize_loop obj [1..<nr_types (own b) + 1] b"

definition bpf_object__finalize_btf :: "bpf_object \<Rightarrow> bpf_object result" where
  "bpf_object__finalize_btf obj =
     (case obj_btf obj of
        None \<Rightarrow> Inr obj
      | Some b \<Rightarrow> rbind (btf__finalize_data obj b) (\<lambda>b'. Inr (obj\<lparr>obj_btf := Some b'\<rparr>)))"

subsection \<open>The Kconfig map\<close>

definition last_kcfg :: "extern_desc list \<Rightarrow> extern_desc option" where
  "last_kcfg exts = (case filter (\<lambda>x. ext_type x = EXT_KCFG) exts of [] \<Rightarrow> None | xs \<Rightarrow> Some (last xs))"

definition bpf_object__init_kconfig_map :: "alloc \<Rightarrow> nat \<Rightarrow> bpf_object \<Rightarrow> unit result \<times> bpf_object" where
  "bpf_object__init_kconfig_map alloc page_sz obj =
     (case last_kcfg (externs obj) of
        None \<Rightarrow> (Inr (), obj)
      | Some x \<Rightarrow>
          and_then (bpf_object__init_internal_map alloc page_sz LIBBPF_MAP_KCONFIG (symbols_shndx (efile obj)) None
                      (nat (int32 (kcfg_data_off x + kcfg_sz x) mod 2 ^ 64)) obj)
            (\<lambda>obj. (Inr (), obj\<lparr>kconfig_map_idx := int (length (maps obj)) - 1\<rparr>)))"

end
