(* ===== verification/Extract.thy ===== *)
theory Extract
  imports Externs Decimal
begin

text \<open>
  The extractor (\<^verbatim>\<open>libbpf.c\<close>, lines 7087 to 7205 and 11176 to 11301, and \<^verbatim>\<open>elf_extract.c\<close>): opening an object
  file, numbering its maps, patching the data references of every program and writing the instructions,
  the relocations and the maps of each.

  The environment is a record: answers to allocations, kernel version, page size, the contents of fresh
  memory, the result of opening the object file, and which output files can be opened. The output is a
  map from file names to contents; opening a file for writing empties it.
\<close>

subsection \<open>Opening an object\<close>

record env =
  env_alloc :: alloc
  env_kver :: u32
  env_page_sz :: nat
  env_junk :: reloc_desc
  env_file :: "string \<Rightarrow> errno + int \<times> elf option"
  env_writable :: "string \<Rightarrow> bool"

record open_opts =
  object_name :: "string option"
  relaxed_maps :: bool
  pin_root_path :: "string option"

definition no_opts :: open_opts where
  "no_opts = \<lparr>object_name = None, relaxed_maps = False, pin_root_path = None\<rparr>"

definition bpf_object__init_maps :: "env \<Rightarrow> open_opts \<Rightarrow> bpf_object \<Rightarrow> unit result \<times> bpf_object" where
  "bpf_object__init_maps env opts obj =
     (let alloc = env_alloc env; strict = (\<not> relaxed_maps opts) in
      and_then (bpf_object__init_user_maps alloc obj) (\<lambda>obj.
      and_then (bpf_object__init_user_btf_maps alloc strict (pin_root_path opts) obj) (\<lambda>obj.
      and_then (bpf_object__init_global_data_maps alloc (env_page_sz env) obj) (\<lambda>obj.
      and_then (bpf_object__init_kconfig_map alloc (env_page_sz env) obj) (\<lambda>obj.
      bpf_object__init_struct_ops_maps alloc obj)))))"

definition BPF_F_SLEEPABLE :: u32 where "BPF_F_SLEEPABLE = 16"

definition set_sec_def :: "bpf_program \<Rightarrow> bpf_program" where
  "set_sec_def prog =
     (case find_sec_def (p_sec_name prog) of
        None \<Rightarrow> prog
      | Some d \<Rightarrow> prog\<lparr>p_prog_flags := (if sd_is_sleepable d then p_prog_flags prog OR BPF_F_SLEEPABLE else p_prog_flags prog),
                       p_type := sd_prog_type d, p_expected_attach_type := sd_expected_attach_type d\<rparr>)"

definition open_steps :: "env \<Rightarrow> open_opts \<Rightarrow> string \<Rightarrow> bpf_object \<Rightarrow> unit result \<times> bpf_object" where
  "open_steps env opts path obj =
     and_then (bpf_object__elf_init (env_file env path) obj) (\<lambda>obj.
     and_then (bpf_object__check_endianness obj, obj) (\<lambda>obj.
     and_then (bpf_object__elf_collect (env_alloc env) obj) (\<lambda>obj.
     and_then (keep obj (bpf_object__collect_externs (env_alloc env) obj)) (\<lambda>obj.
     and_then (keep obj (bpf_object__finalize_btf obj)) (\<lambda>obj.
     and_then (bpf_object__init_maps env opts obj) (\<lambda>obj.
     bpf_object__collect_relos (env_alloc env) (env_junk env) obj))))))"

text \<open>A failed step closes the object and returns the error.\<close>

definition bpf_object__open :: "env \<Rightarrow> open_opts \<Rightarrow> string \<Rightarrow> bpf_object result" where
  "bpf_object__open env opts path =
     rbind (bpf_object__new (env_alloc env) (env_kver env) path (object_name opts)) (\<lambda>obj0.
     case open_steps env opts path obj0 of
       (Inl e, obj) \<Rightarrow> Inl e
     | (Inr u, obj) \<Rightarrow>
         let obj' = bpf_object__elf_finish obj in
         Inr (obj'\<lparr>programs := map set_sec_def (programs obj')\<rparr>))"

definition bpf_object__open_file :: "env \<Rightarrow> string option \<Rightarrow> bpf_object result" where
  "bpf_object__open_file env path =
     (case path of None \<Rightarrow> Inl EINVAL | Some p \<Rightarrow> bpf_object__open env no_opts p)"

definition u32_of_int :: "int \<Rightarrow> nat" where
  "u32_of_int i = nat (i mod 2 ^ 32)"

subsection \<open>Output files\<close>

type_synonym files = "string \<Rightarrow> string option"

definition slash_to_dash :: "char \<Rightarrow> char" where
  "slash_to_dash c = (if c = CHR ''/'' then CHR ''-'' else c)"

text \<open>Both buffers of \<open>fix_progname\<close> have 128 bytes, terminator included.\<close>

definition fix_progname :: "string \<Rightarrow> string result" where
  "fix_progname progname =
     (if length progname < 128 then Inr (map slash_to_dash progname) else Inl OOB)"

definition snprintf128 :: "string \<Rightarrow> string" where "snprintf128 s = take 127 s"

definition fopen_w :: "env \<Rightarrow> string \<Rightarrow> files \<Rightarrow> files result" where
  "fopen_w env name fs = (if env_writable env name then Inr (fs(name \<mapsto> [])) else Inl OOB)"

definition fputs :: "string \<Rightarrow> string \<Rightarrow> files \<Rightarrow> files" where
  "fputs name s fs = fs(name \<mapsto> the (fs name) @ s)"

definition newline :: string where "newline = [CHR 0x0A]"

definition insn_line :: "bpf_insn \<Rightarrow> string" where
  "insn_line i =
     ''{'' @ fmt_d (int (unat (code i))) @ '' '' @ fmt_d (int (unat (src_reg i))) @ '' '' @ fmt_d (int (unat (dst_reg i)))
     @ '' '' @ fmt_d (sint (off i)) @ '' '' @ fmt_d (sint (imm i)) @ ''}'' @ newline"

fun write_insns_loop :: "string \<Rightarrow> string \<Rightarrow> bpf_insn list \<Rightarrow> files \<Rightarrow> files" where
  "write_insns_loop f g [] fs = fs"
| "write_insns_loop f g (i # is) fs =
     write_insns_loop f g is (fputs g (insn_line i) (fputs f (map byte_char (insn_bytes i)) fs))"

text \<open>A failed \<^verbatim>\<open>malloc\<close> or \<^verbatim>\<open>fopen\<close> is used as if it had succeeded.\<close>

definition write_insns :: "env \<Rightarrow> string \<Rightarrow> nat \<Rightarrow> bpf_insn list \<Rightarrow> files \<Rightarrow> files result" where
  "write_insns env output_name num_insns is fs =
     rbind (guard (env_alloc env 128) OOB) (\<lambda>_.
     rbind (fix_progname output_name) (\<lambda>nm.
     let f = snprintf128 (nm @ ''.insns''); g = snprintf128 (nm @ ''.txt'') in
     rbind (fopen_w env f fs) (\<lambda>fs1.
     rbind (fopen_w env g fs1) (\<lambda>fs2.
     rbind (guard (num_insns \<le> length is) OOB) (\<lambda>_.
     Inr (write_insns_loop f g (take num_insns is) fs2))))))"

definition str_or_null :: "string option \<Rightarrow> string" where
  "str_or_null s = (case s of None \<Rightarrow> ''(null)'' | Some n \<Rightarrow> n)"

definition map_line :: "bpf_map \<Rightarrow> string" where
  "map_line m =
     snprintf128 (str_or_null (m_name m) @ '' { type = '' @ fmt_d (sint (def_type (m_def m))) @ '', key_size = ''
       @ fmt_u (unat (key_size (m_def m))) @ '', value_size = '' @ fmt_u (unat (value_size (m_def m)))
       @ '', max_entries = '' @ fmt_u (unat (max_entries (m_def m))) @ '', fd = '' @ fmt_d (m_fd m) @ '' }'' @ newline)"

definition write_maps :: "env \<Rightarrow> string \<Rightarrow> bpf_map list \<Rightarrow> files \<Rightarrow> files result" where
  "write_maps env output_name ms fs =
     rbind (guard (env_alloc env 128) OOB) (\<lambda>_.
     rbind (fix_progname output_name) (\<lambda>nm.
     let f = snprintf128 (nm @ ''.maps'') in
     rbind (fopen_w env f fs) (\<lambda>fs1.
     Inr (fold (\<lambda>m. fputs f (map_line m)) ms fs1))))"

definition reloc_line :: "nat \<Rightarrow> reloc_desc \<Rightarrow> string" where
  "reloc_line i r =
     snprintf128 (take 31 (''reloc_'' @ fmt_d (int i)) @ '' { type = '' @ fmt_d (int (reloc_type_num (rd_type r)))
       @ '', insn_idx = '' @ fmt_u (u32_of_int (rd_insn_idx r)) @ '', map_idx = '' @ fmt_u (u32_of_int (rd_map_idx r))
       @ '', sym_off = '' @ fmt_u (u32_of_int (rd_sym_off r)) @ '' }'' @ newline)"

definition write_relocs :: "env \<Rightarrow> string \<Rightarrow> reloc_desc list \<Rightarrow> files \<Rightarrow> files result" where
  "write_relocs env output_name rs fs =
     rbind (guard (env_alloc env 128) OOB) (\<lambda>_.
     rbind (fix_progname output_name) (\<lambda>nm.
     let f = snprintf128 (nm @ ''.rel'') in
     rbind (fopen_w env f fs) (\<lambda>fs1.
     Inr (fold (\<lambda>(i, r). fputs f (reloc_line i r)) (enumerate 0 rs) fs1))))"

subsection \<open>The extractor\<close>

definition number_maps :: "bpf_object \<Rightarrow> bpf_object" where
  "number_maps obj = obj\<lparr>maps := map (\<lambda>(i, m). m\<lparr>m_fd := int i\<rparr>) (enumerate 0 (maps obj))\<rparr>"

definition extract_program :: "env \<Rightarrow> nat \<Rightarrow> bpf_object \<times> files \<Rightarrow> (bpf_object \<times> files) result" where
  "extract_program env i = (\<lambda>(obj, fs).
     rbind (bpf_object__relocate_data obj (programs obj ! i)) (\<lambda>prog.
     rbind (write_insns env (p_sec_name prog) (sec_insn_cnt prog) (insns prog) fs) (\<lambda>fs1.
     rbind (write_relocs env (p_sec_name prog) (p_relocs prog) fs1) (\<lambda>fs2.
     rbind (write_maps env (p_sec_name prog) (maps obj) fs2) (\<lambda>fs3.
     Inr (obj\<lparr>programs := (programs obj)[i := prog]\<rparr>, fs3))))))"

fun extract_programs :: "env \<Rightarrow> nat list \<Rightarrow> bpf_object \<times> files \<Rightarrow> (bpf_object \<times> files) result" where
  "extract_programs env [] st = Inr st"
| "extract_programs env (i # is) st = rbind (extract_program env i st) (extract_programs env is)"

text \<open>
  \<open>extract\<close> returns its exit code and the files. The relocation sections are gone when it collects
  relocations, so that only sorts the descriptors again, and its result is ignored.
\<close>

definition extract_file :: "env \<Rightarrow> string \<Rightarrow> files \<Rightarrow> (int \<times> files) result" where
  "extract_file env file_name fs =
     (case bpf_object__open_file env (Some file_name) of
        Inl e \<Rightarrow> if e = OOB \<or> e = NONTERM then Inl e else Inr (1, fs)
      | Inr obj \<Rightarrow>
          (case bpf_object__collect_relos (env_alloc env) (env_junk env) (number_maps obj) of
             (r, obj1) \<Rightarrow>
               if r = Inl OOB then Inl OOB
               else rbind (extract_programs env [0..<length (programs obj1)] (obj1, fs)) (\<lambda>(obj2, fs'). Inr (0, fs'))))"

definition elf_extract_main :: "env \<Rightarrow> string list \<Rightarrow> files \<Rightarrow> (int \<times> files) result" where
  "elf_extract_main env argv fs =
     (if length argv \<noteq> 2 then Inr (1, fs)
      else rbind (extract_file env (argv ! 1) fs) (\<lambda>(r, fs'). Inr (if r \<noteq> 0 then 2 else 0, fs')))"

end
