(* ===== verification/Programs.thy ===== *)
theory Programs
  imports Elf_Collect
begin

text \<open>
  Programs of an object: the layout of instructions is one-to-one, a section of code is split into
  consecutive programs that together are the section, the programs of a collected object are ordered and
  disjoint, and the binary search finds the program that contains an instruction.
\<close>

subsection \<open>Instructions as bytes\<close>

lemma insn_bytes_bytes_insn: "insn_bytes (bytes_insn [b0, b1, b2, b3, b4, b5, b6, b7]) = [b0, b1, b2, b3, b4, b5, b6, b7]"
proof -
  have b: "(15 :: u8) = mask 4" by (simp add: mask_eq_exp_minus_1)
  have "(b1 AND 15) AND 15 OR push_bit 4 (drop_bit 4 b1 AND 15) = b1"
    unfolding b by (rule bit_word_eqI) (auto simp: bit_simps)
  then show ?thesis by (simp add: insn_bytes_def le16_u16_of_le le32_u32_of_le)
qed

lemma length_insn_bytes [simp]: "length (insn_bytes i) = 8"
  by (simp add: insn_bytes_def)

lemma length_encode_insns [simp]: "length (encode_insns is) = 8 * length is"
  by (induction "is") (simp_all add: encode_insns_def)

lemma encode_decode: "length bs mod 8 = 0 \<Longrightarrow> encode_insns (decode_insns bs) = bs"
proof (induction bs rule: decode_insns.induct)
  case (1 b0 b1 b2 b3 b4 b5 b6 b7 bs)
  then have "encode_insns (decode_insns bs) = bs" by simp
  then show ?case using insn_bytes_bytes_insn by (simp add: encode_insns_def)
qed (simp_all add: encode_insns_def)

lemma length_decode_insns: "length (decode_insns bs) = length bs div 8"
  by (induction bs rule: decode_insns.induct) simp_all

definition regs_ok :: "bpf_insn \<Rightarrow> bool" where
  "regs_ok i \<longleftrightarrow> dst_reg i < 16 \<and> src_reg i < 16"

lemma low_half: "take_bit 4 r = r \<longleftrightarrow> r < 16" for r :: u8
  by (simp add: word_unat_eq_iff unsigned_take_bit_eq take_bit_nat_eq_self_iff word_less_nat_alt)

lemma mask_4: "(15 :: u8) = mask 4"
  by (simp add: mask_eq_exp_minus_1)

lemma low_high_nibble:
  fixes d s :: u8
  assumes "d < 16" "s < 16"
  shows "(d AND 15 OR push_bit 4 (s AND 15)) AND 15 = d" "drop_bit 4 (d AND 15 OR push_bit 4 (s AND 15)) = s"
proof -
  have t: "take_bit 4 d = d" "take_bit 4 s = s" using assms by (simp_all add: low_half)
  have "take_bit 4 (take_bit 4 d OR push_bit 4 (take_bit 4 s)) = take_bit 4 d"
    by (rule bit_word_eqI) (auto simp: bit_simps)
  then show "(d AND 15 OR push_bit 4 (s AND 15)) AND 15 = d"
    unfolding mask_4 take_bit_eq_mask [symmetric] t .
  have "drop_bit 4 (take_bit 4 d OR push_bit 4 (take_bit 4 s)) = take_bit 4 s"
    by (rule bit_word_eqI) (auto simp: bit_simps)
  then show "drop_bit 4 (d AND 15 OR push_bit 4 (s AND 15)) = s"
    unfolding mask_4 take_bit_eq_mask [symmetric] t .
qed

lemma bytes_insn_insn_bytes: "regs_ok i \<Longrightarrow> bytes_insn (insn_bytes i) = i"
  using low_high_nibble [of "dst_reg i" "src_reg i"]
  by (simp add: regs_ok_def insn_bytes_def le16_def le32_def u16_of_le16 u32_of_le32 del: push_bit_and)

lemma decode_append: "decode_insns (insn_bytes i @ bs) = bytes_insn (insn_bytes i) # decode_insns bs"
  by (simp add: insn_bytes_def le16_def le32_def)

lemma decode_encode: "(\<And>i. i \<in> set is \<Longrightarrow> regs_ok i) \<Longrightarrow> decode_insns (encode_insns is) = is"
  by (induction "is") (simp_all add: encode_insns_def decode_append bytes_insn_insn_bytes)

lemma regs_ok_bytes_insn: "regs_ok (bytes_insn [b0, b1, b2, b3, b4, b5, b6, b7])"
proof -
  have "take_bit 4 (drop_bit 4 b1) = drop_bit 4 b1"
    by (rule bit_word_eqI) (auto simp: bit_simps dest: bit_imp_le_length)
  moreover have "take_bit 4 (take_bit 4 b1) = take_bit 4 b1" by simp
  ultimately show ?thesis unfolding low_half by (simp add: regs_ok_def mask_4 flip: take_bit_eq_mask)
qed

lemma regs_ok_decode: "i \<in> set (decode_insns bs) \<Longrightarrow> regs_ok i"
proof (induction bs rule: decode_insns.induct)
  case (1 b0 b1 b2 b3 b4 b5 b6 b7 bs)
  then show ?case using regs_ok_bytes_insn [of b0 b1 b2 b3 b4 b5 b6 b7] by auto
qed simp_all

subsection \<open>Splitting a section into programs\<close>

fun consecutive :: "nat \<Rightarrow> bpf_program list \<Rightarrow> nat \<Rightarrow> bool" where
  "consecutive a [] b \<longleftrightarrow> a = b"
| "consecutive a (p # ps) b \<longleftrightarrow> sec_insn_off p = a \<and> 0 < sec_insn_cnt p \<and> consecutive (a + sec_insn_cnt p) ps b"

lemma consecutive_append: "consecutive a (ps @ [p]) c \<longleftrightarrow> (\<exists>b. consecutive a ps b \<and> consecutive b [p] c)"
  by (induction ps arbitrary: a) auto

lemma consecutive_ge: "consecutive a ps b \<Longrightarrow> a \<le> b \<and> (ps \<noteq> [] \<longrightarrow> a < b)"
  by (induction ps arbitrary: a) fastforce+

text \<open>What the collection keeps of every program of a section.\<close>

definition program_of :: "nat \<Rightarrow> string \<Rightarrow> bpf_program \<Rightarrow> bool" where
  "program_of idx nm p \<longleftrightarrow>
     p_sec_idx p = idx \<and> p_sec_name p = nm \<and> insns_cnt p = sec_insn_cnt p \<and> length (insns p) = sec_insn_cnt p \<and>
     p_relocs p = [] \<and> (\<forall>i \<in> set (insns p). regs_ok i)"

definition code_bytes :: "bpf_program list \<Rightarrow> u8 list" where
  "code_bytes ps = concat (map (\<lambda>p. encode_insns (insns p)) ps)"

text \<open>An allocator refuses what exceeds half of the address space.\<close>

definition bounded_alloc :: "alloc \<Rightarrow> bool" where
  "bounded_alloc alloc \<longleftrightarrow> (\<forall>n \<ge> 2 ^ 63. \<not> alloc n)"

lemma init_prog_program:
  assumes "bpf_object__init_prog alloc name idx nm so data nb = Inr p"
  shows "program_of idx nm p" "sec_insn_off p = so div 8" "sec_insn_cnt p = nb div 8" "0 < nb" "nb mod 8 = 0" "so mod 8 = 0" "alloc nb"
    "\<exists>bs. data = Some bs \<and> so + nb \<le> length bs \<and> encode_insns (insns p) = take nb (drop so bs)"
proof -
  from assms obtain bs where bs: "data = Some bs" "so + nb \<le> length bs"
      and p: "insns p = decode_insns (take nb (drop so bs))" and nb: "0 < nb" "nb mod 8 = 0" "so mod 8 = 0" "alloc nb"
    by (auto simp: bpf_object__init_prog_def result_simps BPF_INSN_SZ_def)
  have len: "length (take nb (drop so bs)) = nb" using bs by simp
  show "program_of idx nm p" "sec_insn_off p = so div 8" "sec_insn_cnt p = nb div 8"
    using assms len p
    by (auto simp: bpf_object__init_prog_def result_simps BPF_INSN_SZ_def program_of_def length_decode_insns regs_ok_decode)
  show "0 < nb" "nb mod 8 = 0" "so mod 8 = 0" "alloc nb" using nb by simp_all
  have "encode_insns (insns p) = take nb (drop so bs)" using encode_decode [of "take nb (drop so bs)"] len nb(2) p by simp
  then show "\<exists>bs. data = Some bs \<and> so + nb \<le> length bs \<and> encode_insns (insns p) = take nb (drop so bs)"
    using bs by blast
qed

lemma add_program_at_program:
  assumes "add_program_at alloc obj d nm idx so n = Inr (nb, p)" "bounded_alloc alloc" "so < 2 ^ 63"
  shows "program_of idx nm p" "8 * sec_insn_off p = so" "8 * sec_insn_cnt p = nb" "0 < nb" "so + nb \<le> d_size d"
    "\<exists>bs. d_buf d = Some bs \<and> so + nb \<le> length bs \<and> encode_insns (insns p) = take nb (drop so bs)"
proof -
  obtain name where i: "bpf_object__init_prog alloc name idx nm so (d_buf d) nb = Inr p"
      and le: "(so + nb) mod 2 ^ 64 \<le> d_size d"
    using assms(1) by (auto simp: add_program_at_def result_simps not_less split: sum.splits)
  note facts = init_prog_program [OF i]
  have "nb < 2 ^ 63" using facts(7) assms(2) by (meson bounded_alloc_def not_less)
  then show "so + nb \<le> d_size d" using le assms(3) by simp
  show "8 * sec_insn_off p = so" unfolding facts(2) using facts(6) by presburger
  show "8 * sec_insn_cnt p = nb" unfolding facts(3) using facts(5) by presburger
  show "program_of idx nm p" "0 < nb" "\<exists>bs. d_buf d = Some bs \<and> so + nb \<le> length bs \<and> encode_insns (insns p) = take nb (drop so bs)"
    by (rule facts(1) facts(4) facts(8))+
qed

lemma code_bytes_next:
  assumes ok: "8 * n = m \<and> (so + nb < m \<longrightarrow> (\<exists>bs. buf = Some bs \<and> m \<le> length bs \<and>
      code_bytes ps = take (m - (so + nb)) (drop (so + nb) bs)))"
    and bs: "buf = Some bs" "so + nb \<le> length bs" "encode_insns (insns p) = take nb (drop so bs)"
    and le: "so + nb \<le> m" and c: "consecutive ((so + nb) div 8) ps n"
  shows "8 * n = m \<and> m \<le> length bs \<and> code_bytes (p # ps) = take (m - so) (drop so bs)"
proof (cases "so + nb < m")
  case True
  then have "code_bytes ps = take (m - (so + nb)) (drop (so + nb) bs)" "m \<le> length bs" "8 * n = m"
    using ok bs(1) by auto
  moreover have "take (m - so) (drop so bs) = take nb (drop so bs) @ take (m - (so + nb)) (drop (so + nb) bs)"
    using take_add [of nb "m - (so + nb)" "drop so bs"] le by (simp add: add.commute)
  ultimately show ?thesis using bs(3) by (simp add: code_bytes_def)
next
  case False
  then have eq: "so + nb = m" using le by simp
  then have "(so + nb) div 8 = n" using ok by simp
  then have "ps = []" using c consecutive_ge by (cases ps) fastforce+
  moreover have "m - so = nb" using eq by simp
  ultimately show ?thesis using ok bs eq by (simp add: code_bytes_def)
qed

lemma add_programs_done: "\<not> so < d_size d \<Longrightarrow> add_programs_loop alloc obj d nm idx so = (Inr (), obj)"
  by (subst add_programs_loop.simps) simp

lemma add_programs_fail:
  "so < d_size d \<Longrightarrow> add_program_at alloc obj d nm idx so (length (programs obj)) = Inl e \<Longrightarrow>
     add_programs_loop alloc obj d nm idx so = (Inl e, obj)"
  by (subst add_programs_loop.simps) simp

lemma add_programs_next:
  "so < d_size d \<Longrightarrow> add_program_at alloc obj d nm idx so (length (programs obj)) = Inr (nb, p) \<Longrightarrow>
     add_programs_loop alloc obj d nm idx so = add_programs_loop alloc (obj\<lparr>programs := programs obj @ [p]\<rparr>) d nm idx (so + nb)"
  by (subst add_programs_loop.simps) simp

lemma eights: "8 * a = so \<Longrightarrow> 8 * b = nb \<Longrightarrow> (so + nb) mod 8 = 0 \<and> (so + nb) div 8 = so div 8 + b \<and> so div 8 = a"
  for a b so nb :: nat
  by presburger

lemma add_programs_loop_splits:
  assumes "add_programs_loop alloc obj d nm idx so = (r, obj')" "bounded_alloc alloc" "d_size d < 2 ^ 63" "so \<le> d_size d" "so mod 8 = 0"
  shows "\<exists>ps n. obj' = obj\<lparr>programs := programs obj @ ps\<rparr> \<and> (\<forall>p \<in> set ps. program_of idx nm p) \<and>
     consecutive (so div 8) ps n \<and>
     (r = Inr () \<longrightarrow> 8 * n = d_size d \<and> (so < d_size d \<longrightarrow> (\<exists>bs. d_buf d = Some bs \<and> d_size d \<le> length bs \<and>
        code_bytes ps = take (d_size d - so) (drop so bs))))"
  using assms
proof (induction alloc obj d nm idx so arbitrary: r obj' rule: add_programs_loop.induct)
  case (1 alloc obj d nm idx so)
  show ?case
  proof (cases "so < d_size d")
    case False
    then have "r = Inr ()" "obj' = obj" using 1(2) by (simp_all add: add_programs_done)
    then show ?thesis using False 1(5,6) by (intro exI [of _ "[]"]) auto
  next
    case so: True
    show ?thesis
    proof (cases "add_program_at alloc obj d nm idx so (length (programs obj))")
      case (Inl e)
      then have "r = Inl e" "obj' = obj" using 1(2) so by (simp_all add: add_programs_fail)
      then show ?thesis by (intro exI [of _ "[]"]) auto
    next
      case (Inr q)
      obtain nb p where q: "q = (nb, p)" by (cases q)
      note f = add_program_at_program [OF Inr [unfolded q] 1(3)]
      have so63: "so < 2 ^ 63" using so 1(4) by simp
      have rec: "add_programs_loop alloc (obj\<lparr>programs := programs obj @ [p]\<rparr>) d nm idx (so + nb) = (r, obj')"
        using 1(2) add_programs_next [OF so Inr [unfolded q]] by simp
      have mod8: "(so + nb) mod 8 = 0" and div8: "(so + nb) div 8 = so div 8 + sec_insn_cnt p" "so div 8 = sec_insn_off p"
        using eights [OF f(2,3) [OF so63]] by blast+
      obtain ps n where ps: "obj' = obj\<lparr>programs := programs obj @ [p] @ ps\<rparr>" "\<forall>p \<in> set ps. program_of idx nm p"
          "consecutive ((so + nb) div 8) ps n"
          and ok: "r = Inr () \<Longrightarrow> 8 * n = d_size d \<and> (so + nb < d_size d \<longrightarrow> (\<exists>bs. d_buf d = Some bs \<and> d_size d \<le> length bs \<and>
            code_bytes ps = take (d_size d - (so + nb)) (drop (so + nb) bs)))"
        using 1(1) [OF so Inr q [symmetric] rec 1(3,4) f(5) [OF so63] mod8] by auto
      have c: "consecutive (so div 8) (p # ps) n"
        using ps(3) f(3,4) [OF so63] div8 by auto
      obtain bs where bs: "d_buf d = Some bs" "so + nb \<le> length bs" "encode_insns (insns p) = take nb (drop so bs)"
        using f(6) [OF so63] by blast
      have "r = Inr () \<Longrightarrow> 8 * n = d_size d \<and> d_size d \<le> length bs \<and> code_bytes (p # ps) = take (d_size d - so) (drop so bs)"
        using code_bytes_next [OF _ bs f(5) [OF so63] ps(3)] ok by blast
      then show ?thesis using ps(1,2) c f(1) [OF so63] bs(1)
        by (intro exI [of _ "p # ps"] exI [of _ n]) auto
    qed
  qed
qed

lemma data_bytes_take: "d_buf d = Some bs \<Longrightarrow> d_size d \<le> length bs \<Longrightarrow> data_bytes d = Inr (take (d_size d) bs)"
  by (simp add: data_bytes_def)

lemma add_programs_split:
  assumes "bpf_object__add_programs alloc obj d nm idx = (r, obj')" "bounded_alloc alloc" "d_size d < 2 ^ 63"
  shows "\<exists>ps n. obj' = obj\<lparr>programs := programs obj @ ps\<rparr> \<and> (\<forall>p \<in> set ps. program_of idx nm p) \<and> consecutive 0 ps n \<and>
     (r = Inr () \<longrightarrow> 8 * n = d_size d \<and> data_bytes d = Inr (code_bytes ps))"
proof -
  obtain ps n where ps: "obj' = obj\<lparr>programs := programs obj @ ps\<rparr>" "\<forall>p \<in> set ps. program_of idx nm p" "consecutive 0 ps n"
      and ok: "r = Inr () \<Longrightarrow> 8 * n = d_size d \<and> (0 < d_size d \<longrightarrow> (\<exists>bs. d_buf d = Some bs \<and> d_size d \<le> length bs \<and>
        code_bytes ps = take (d_size d) bs))"
    using add_programs_loop_splits [OF assms(1) [unfolded bpf_object__add_programs_def] assms(2,3)] by auto
  have "r = Inr () \<Longrightarrow> 8 * n = d_size d \<and> data_bytes d = Inr (code_bytes ps)"
  proof (cases "d_size d = 0")
    case True
    assume "r = Inr ()"
    then have "n = 0" using ok True by simp
    then have "ps = []" using ps(3) consecutive_ge by fastforce
    then show ?thesis using \<open>n = 0\<close> True by (simp add: data_bytes_def code_bytes_def split: option.split)
  qed (use ok data_bytes_take in auto)
  then show ?thesis using ps by blast
qed

subsection \<open>Ordered and disjoint programs\<close>

definition prog_before :: "bpf_program \<Rightarrow> bpf_program \<Rightarrow> bool" where
  "prog_before p q \<longleftrightarrow>
     p_sec_idx p < p_sec_idx q \<or> (p_sec_idx p = p_sec_idx q \<and> sec_insn_off p + sec_insn_cnt p \<le> sec_insn_off q)"

definition progs_wf :: "bpf_program list \<Rightarrow> bool" where
  "progs_wf ps \<longleftrightarrow> sorted_wrt prog_before ps \<and>
     (\<forall>p \<in> set ps. 0 < sec_insn_cnt p \<and> length (insns p) = sec_insn_cnt p \<and> insns_cnt p = sec_insn_cnt p)"

lemma consecutive_starts: "consecutive a ps b \<Longrightarrow> p \<in> set ps \<Longrightarrow> a \<le> sec_insn_off p \<and> 0 < sec_insn_cnt p"
  by (induction ps arbitrary: a) fastforce+

lemma consecutive_wf: "consecutive a ps n \<Longrightarrow> (\<forall>p \<in> set ps. program_of idx nm p) \<Longrightarrow> progs_wf ps"
proof (induction ps arbitrary: a)
  case (Cons p ps)
  then have "prog_before p q" if "q \<in> set ps" for q
    using consecutive_starts [of "a + sec_insn_cnt p" ps n q] that by (auto simp: prog_before_def program_of_def)
  then show ?case using Cons by (auto simp: progs_wf_def program_of_def)
qed (simp add: progs_wf_def)

lemma progs_wf_append:
  "progs_wf ps \<Longrightarrow> progs_wf qs \<Longrightarrow> (\<And>p q. p \<in> set ps \<Longrightarrow> q \<in> set qs \<Longrightarrow> p_sec_idx p < p_sec_idx q) \<Longrightarrow> progs_wf (ps @ qs)"
  by (auto simp: progs_wf_def sorted_wrt_append prog_before_def)

text \<open>The comparison of programs orders by section and offset.\<close>

definition prog_key :: "bpf_program \<Rightarrow> nat \<times> nat" where
  "prog_key p = (p_sec_idx p, sec_insn_off p)"

interpretation progs: compares_by cmp_progs prog_key "\<lambda>_. True"
  by unfold_locales (auto simp: cmp_progs_def prog_key_def less_prod_def)

lemma progs_wf_keys: "progs_wf ps \<Longrightarrow> sorted (map prog_key ps) \<and> distinct (map prog_key ps)"
proof (induction ps)
  case (Cons p ps)
  then have "prog_key p < prog_key q" if "q \<in> set ps" for q
    using that by (auto simp: progs_wf_def prog_before_def prog_key_def less_prod_def)
  then show ?case using Cons by (force simp: progs_wf_def less_imp_le)
qed simp

lemma qsort_progs_wf: "progs_wf ps \<Longrightarrow> qsort cmp_progs ps = ps"
  using progs_wf_keys progs.qsort_sorted by blast

subsection \<open>Finding the program of an instruction\<close>

definition starts_by :: "nat \<Rightarrow> nat \<Rightarrow> bpf_program \<Rightarrow> bool" where
  "starts_by sec_idx insn_idx p \<longleftrightarrow> p_sec_idx p < sec_idx \<or> (p_sec_idx p = sec_idx \<and> sec_insn_off p \<le> insn_idx)"

lemma progs_wf_nth: "progs_wf progs \<Longrightarrow> i < k \<Longrightarrow> k < length progs \<Longrightarrow> prog_before (progs ! i) (progs ! k)"
  by (simp add: progs_wf_def sorted_wrt_iff_nth_less)

lemma starts_by_mono:
  "progs_wf progs \<Longrightarrow> i \<le> k \<Longrightarrow> k < length progs \<Longrightarrow> starts_by s n (progs ! k) \<Longrightarrow> starts_by s n (progs ! i)"
  using progs_wf_nth [of progs i k] by (cases "i = k") (auto simp: starts_by_def prog_before_def)

lemma prog_search_step:
  assumes "l < r"
  obtains m where "l < m" "m \<le> r"
    "starts_by s n (progs ! nat m) \<Longrightarrow> prog_search progs s n l r = prog_search progs s n m r"
    "\<not> starts_by s n (progs ! nat m) \<Longrightarrow> prog_search progs s n l r = prog_search progs s n l (m - 1)"
proof
  let ?m = "l + (r - l + 1) div 2"
  show "l < ?m" "?m \<le> r" using assms by simp_all
  show "starts_by s n (progs ! nat ?m) \<Longrightarrow> prog_search progs s n l r = prog_search progs s n ?m r"
    "\<not> starts_by s n (progs ! nat ?m) \<Longrightarrow> prog_search progs s n l r = prog_search progs s n l (?m - 1)"
    using assms by (subst prog_search.simps, simp only: starts_by_def Let_def if_True if_False simp_thms)+
qed

lemma prog_search_spec:
  assumes wf: "progs_wf progs"
    and "0 \<le> l" "l \<le> r" "r < int (length progs)" "l = 0 \<or> starts_by s n (progs ! nat l)"
      "\<And>i. r < int i \<Longrightarrow> i < length progs \<Longrightarrow> \<not> starts_by s n (progs ! i)"
  shows "\<exists>k. prog_search progs s n l r = int k \<and> k < length progs \<and> (k = 0 \<or> starts_by s n (progs ! k)) \<and>
     (\<forall>i. k < i \<longrightarrow> i < length progs \<longrightarrow> \<not> starts_by s n (progs ! i))"
  using assms(2-)
proof (induction "nat (r - l)" arbitrary: l r rule: less_induct)
  case less
  show ?case
  proof (cases "l < r")
    case False
    then have "prog_search progs s n l r = l" by (subst prog_search.simps) simp
    moreover have "l = r" using False less.prems by simp
    ultimately show ?thesis using less.prems by (intro exI [of _ "nat l"]) auto
  next
    case True
    obtain m where m: "l < m" "m \<le> r"
      and up: "starts_by s n (progs ! nat m) \<Longrightarrow> prog_search progs s n l r = prog_search progs s n m r"
      and down: "\<not> starts_by s n (progs ! nat m) \<Longrightarrow> prog_search progs s n l r = prog_search progs s n l (m - 1)"
      using prog_search_step [OF True] by blast
    show ?thesis
    proof (cases "starts_by s n (progs ! nat m)")
      case P: True
      show ?thesis unfolding up [OF P]
        by (rule less.hyps) (use m P less.prems in auto)
    next
      case False
      have "\<not> starts_by s n (progs ! i)" if "m - 1 < int i" "i < length progs" for i
      proof
        assume "starts_by s n (progs ! i)"
        then have "starts_by s n (progs ! nat m)" by (rule starts_by_mono [OF wf, rotated 2]) (use that in auto)
        then show False using False by simp
      qed
      then show ?thesis unfolding down [OF False]
        by (intro less.hyps) (use m less.prems in auto)
    qed
  qed
qed

lemma prog_search_result:
  assumes "progs_wf progs" "progs \<noteq> []"
  obtains k where "prog_search progs s n 0 (int (length progs) - 1) = int k" "k < length progs"
    "k = 0 \<or> starts_by s n (progs ! k)" "\<And>i. k < i \<Longrightarrow> i < length progs \<Longrightarrow> \<not> starts_by s n (progs ! i)"
proof -
  have "0 \<le> int (length progs) - 1" using assms(2) by (cases progs) auto
  then show thesis using prog_search_spec [OF assms(1), of 0 "int (length progs) - 1" s n] that by auto
qed

lemma prog_search_at:
  assumes "progs_wf progs" "j < length progs" "p_sec_idx (progs ! j) = s" "prog_contains_insn (progs ! j) n"
  shows "prog_search progs s n 0 (int (length progs) - 1) = int j"
proof -
  have ne: "progs \<noteq> []" using assms(2) by auto
  obtain k where k: "prog_search progs s n 0 (int (length progs) - 1) = int k" "k < length progs"
      "k = 0 \<or> starts_by s n (progs ! k)" "\<And>i. k < i \<Longrightarrow> i < length progs \<Longrightarrow> \<not> starts_by s n (progs ! i)"
    using prog_search_result [OF assms(1) ne] by blast
  have "starts_by s n (progs ! j)" using assms(3,4) by (simp add: starts_by_def prog_contains_insn_def)
  then have "j \<le> k" using k(4) assms(2) by (meson not_less)
  moreover have False if "j < k"
  proof -
    have "starts_by s n (progs ! k)" using k(3) that by auto
    then show False using progs_wf_nth [OF assms(1) that k(2)] assms(3,4)
      unfolding starts_by_def prog_before_def prog_contains_insn_def by linarith
  qed
  ultimately show ?thesis using k(1) by fastforce
qed

lemma containing_unique:
  assumes "progs_wf progs" "i < length progs" "j < length progs" "p_sec_idx (progs ! i) = p_sec_idx (progs ! j)"
    "prog_contains_insn (progs ! i) n" "prog_contains_insn (progs ! j) n"
  shows "i = j"
  using prog_search_at [OF assms(1,2) assms(4,5)] prog_search_at [OF assms(1,3) refl assms(6)] by simp

text \<open>
  C20. \<^verbatim>\<open>find_prog_by_sec_insn\<close> on ordered and disjoint programs: the search never reads outside the array, a
  program is found exactly when it belongs to the section and contains the instruction, and nothing is
  found when no program contains it.
\<close>

theorem find_prog_by_sec_insn_correct:
  assumes "progs_wf (programs obj)" "programs obj \<noteq> []"
  shows "\<exists>found. find_prog_by_sec_insn obj sec_idx insn_idx = Inr found \<and>
     (\<forall>i. found = Some i \<longleftrightarrow> i < length (programs obj) \<and> p_sec_idx (programs obj ! i) = sec_idx \<and>
        prog_contains_insn (programs obj ! i) insn_idx)"
proof -
  let ?ps = "programs obj" and ?k = "prog_search (programs obj) sec_idx insn_idx 0 (int (length (programs obj)) - 1)"
  obtain k where k: "?k = int k" "k < length ?ps" using prog_search_result [OF assms] by blast
  have "i = k" if "i < length ?ps" "p_sec_idx (?ps ! i) = sec_idx" "prog_contains_insn (?ps ! i) insn_idx" for i
    using prog_search_at [OF assms(1) that] k(1) by simp
  note only = this
  have f: "find_prog_by_sec_insn obj sec_idx insn_idx =
      Inr (if p_sec_idx (?ps ! k) = sec_idx \<and> prog_contains_insn (?ps ! k) insn_idx then Some k else None)"
    using k by (simp add: find_prog_by_sec_insn_def array_get_def)
  show ?thesis unfolding f
  proof (rule exI, rule conjI [OF refl], intro allI iffI)
    fix i
    assume "(if p_sec_idx (?ps ! k) = sec_idx \<and> prog_contains_insn (?ps ! k) insn_idx then Some k else None) = Some i"
    then show "i < length ?ps \<and> p_sec_idx (?ps ! i) = sec_idx \<and> prog_contains_insn (?ps ! i) insn_idx"
      using k(2) by (simp split: if_splits)
  next
    fix i
    assume i: "i < length ?ps \<and> p_sec_idx (?ps ! i) = sec_idx \<and> prog_contains_insn (?ps ! i) insn_idx"
    then have "i = k" using only by blast
    then show "(if p_sec_idx (?ps ! k) = sec_idx \<and> prog_contains_insn (?ps ! k) insn_idx then Some k else None) = Some i"
      using i by simp
  qed
qed

subsection \<open>The programs of a collected object\<close>

definition same_file :: "bpf_object \<Rightarrow> bpf_object \<Rightarrow> bool" where
  "same_file obj obj' \<longleftrightarrow>
     ef_elf (efile obj') = ef_elf (efile obj) \<and> ef_shstrndx (efile obj') = ef_shstrndx (efile obj)"

lemma same_file_lookups:
  assumes "same_file obj obj'"
  shows "elf_sec_hdr obj' scn = elf_sec_hdr obj scn" "elf_sec_str obj' n = elf_sec_str obj n" "elf_sec_data obj' scn = elf_sec_data obj scn"
  using assms by (simp_all add: same_file_def elf_sec_hdr_def elf_sec_str_def elf_sec_data_def split: option.split)

lemma same_file_refl [simp]: "same_file obj obj"
  by (simp add: same_file_def)

lemma same_file_trans: "same_file a b \<Longrightarrow> same_file b c \<Longrightarrow> same_file a c"
  by (simp add: same_file_def)

text \<open>A section that the second pass takes as code: none of the sections that its name gives another meaning.\<close>

definition special_name :: "string \<Rightarrow> bool" where
  "special_name name \<longleftrightarrow> name \<in> {''license'', ''version'', ''maps'', ''.maps'', ''.BTF'', ''.BTF.ext''}"

definition takes_code :: "gelf_shdr \<Rightarrow> string \<Rightarrow> elf_data \<Rightarrow> bool" where
  "takes_code sh name d \<longleftrightarrow>
     \<not> special_name name \<and> sh_type sh = SHT_PROGBITS \<and>
     d_size d > 0 \<and> sh_flags sh AND SHF_EXECINSTR \<noteq> 0"

definition code_section :: "bpf_object \<Rightarrow> nat \<Rightarrow> string \<Rightarrow> elf_data \<Rightarrow> bool" where
  "code_section obj idx name d \<longleftrightarrow>
     (\<exists>sh. elf_sec_hdr obj (Some idx) = Inr sh \<and> elf_sec_str obj (sh_name sh) = Some name \<and> \<not> ignore_elf_section sh name \<and>
        elf_sec_data obj (Some idx) = Some d \<and> takes_code sh name d)"

lemma upd_efile_simps [simp]: "programs (upd_efile f obj) = programs obj" "efile (upd_efile f obj) = f (efile obj)"
  by (simp_all add: upd_efile_def)

lemma init_license_kversion:
  "bpf_object__init_license d obj = Inr obj' \<Longrightarrow> programs obj' = programs obj \<and> same_file obj obj'"
  "bpf_object__init_kversion d obj = Inr obj' \<Longrightarrow> programs obj' = programs obj \<and> same_file obj obj'"
  by (auto simp: bpf_object__init_license_def bpf_object__init_kversion_def result_simps Let_def same_file_def)

definition adds_programs :: "nat \<Rightarrow> string \<Rightarrow> bpf_object \<Rightarrow> bpf_object \<Rightarrow> bpf_program list \<Rightarrow> bool" where
  "adds_programs idx name obj obj' ps \<longleftrightarrow>
     same_file obj obj' \<and> programs obj' = programs obj @ ps \<and> (\<forall>p \<in> set ps. program_of idx name p) \<and> (\<exists>n. consecutive 0 ps n)"

lemma adds_none: "same_file obj obj' \<Longrightarrow> programs obj' = programs obj \<Longrightarrow> adds_programs idx name obj obj' []"
  by (simp add: adds_programs_def)

lemma collect_progbits_programs:
  assumes "collect_progbits alloc idx sh name d obj = (r, obj')" "bounded_alloc alloc" "d_size d < 2 ^ 63"
  shows "\<exists>ps. adds_programs idx name obj obj' ps \<and>
     (if sh_flags sh AND SHF_EXECINSTR \<noteq> 0 then r = Inr () \<longrightarrow> data_bytes d = Inr (code_bytes ps) else ps = [])"
proof (cases "sh_flags sh AND SHF_EXECINSTR = 0")
  case True
  then have "adds_programs idx name obj obj' []"
    using assms(1) by (auto simp: collect_progbits_def same_file_def intro!: adds_none split: if_splits)
  then show ?thesis using True by auto
next
  case False
  define obj1 where "obj1 = (if name = ''.text'' then upd_efile (\<lambda>ef. ef\<lparr>text_shndx := int idx\<rparr>) obj else obj)"
  have s: "same_file obj obj1" "programs obj1 = programs obj" by (simp_all add: obj1_def same_file_def)
  have "bpf_object__add_programs alloc obj1 d name idx = (r, obj')"
    using assms(1) False by (simp add: collect_progbits_def obj1_def)
  then obtain ps n where ps: "obj' = obj1\<lparr>programs := programs obj1 @ ps\<rparr>" "\<forall>p \<in> set ps. program_of idx name p" "consecutive 0 ps n"
      "r = Inr () \<longrightarrow> data_bytes d = Inr (code_bytes ps)"
    using add_programs_split [OF _ assms(2,3)] by blast
  then have "adds_programs idx name obj obj' ps" using s by (auto simp: adds_programs_def same_file_def)
  then show ?thesis using False ps(4) by auto
qed

lemma collect_rel_programs: "collect_rel alloc sh name d obj = (r, obj') \<Longrightarrow> programs obj' = programs obj \<and> same_file obj obj'"
  by (auto simp: collect_rel_def same_file_def split: if_splits)

lemma keep_eq: "keep obj m = (r, obj') \<longleftrightarrow> (\<exists>e. m = Inl e \<and> r = Inl e \<and> obj' = obj) \<or> (m = Inr obj' \<and> r = Inr ())"
  by (cases m) (auto simp: keep_def)

definition unchanged :: "bpf_object \<Rightarrow> unit result \<times> collect_state \<Rightarrow> bool" where
  "unchanged obj res \<longleftrightarrow> programs (fst (snd res)) = programs obj \<and> same_file obj (fst (snd res))"

lemma unchanged_if: "(c \<Longrightarrow> unchanged obj a) \<Longrightarrow> (\<not> c \<Longrightarrow> unchanged obj b) \<Longrightarrow> unchanged obj (if c then a else b)"
  by simp

lemma unchanged_efile:
  "ef_elf (f (efile obj)) = ef_elf (efile obj) \<Longrightarrow> ef_shstrndx (f (efile obj)) = ef_shstrndx (efile obj) \<Longrightarrow>
     unchanged obj (r, upd_efile f obj, b, x)"
  by (simp add: unchanged_def same_file_def)

lemma unchanged_obj: "unchanged obj (r, obj, b, x)"
  by (simp add: unchanged_def)

lemma unchanged_keep:
  "(\<And>obj'. m = Inr obj' \<Longrightarrow> programs obj' = programs obj \<and> same_file obj obj') \<Longrightarrow>
     unchanged obj (case keep obj m of (r, obj') \<Rightarrow> (r, obj', b, x))"
  by (cases m) (simp_all add: keep_def unchanged_def)

lemma unchanged_rel: "unchanged obj (case collect_rel alloc sh name d obj of (r, obj') \<Rightarrow> (r, obj', b, x))"
  using collect_rel_programs by (simp add: unchanged_def split: prod.split)

lemma collect_section_unchanged:
  assumes "special_name name \<or> \<not> (sh_type sh = SHT_PROGBITS \<and> d_size d > 0)"
  shows "unchanged obj (collect_section alloc idx sh name d (obj, b, x))"
  unfolding collect_section_def Let_def prod.case
  by (intro unchanged_if unchanged_obj unchanged_efile unchanged_keep unchanged_rel init_license_kversion)
    (use assms in \<open>simp_all add: special_name_def\<close>)

lemma collect_section_progbits:
  assumes "\<not> special_name name" "sh_type sh = SHT_PROGBITS" "d_size d > 0"
  shows "collect_section alloc idx sh name d (obj, b, x) = (case collect_progbits alloc idx sh name d obj of (r, obj') \<Rightarrow> (r, obj', b, x))"
  using assms by (simp add: collect_section_def SHT_PROGBITS_def SHT_SYMTAB_def special_name_def)

lemma collect_section_programs:
  assumes "collect_section alloc idx sh name d (obj, b, x) = (r, obj', b', x')" "bounded_alloc alloc" "d_size d < 2 ^ 63"
  shows "\<exists>ps. adds_programs idx name obj obj' ps \<and> (takes_code sh name d \<longrightarrow> r = Inr () \<longrightarrow> data_bytes d = Inr (code_bytes ps)) \<and>
     (\<not> takes_code sh name d \<longrightarrow> ps = [])"
proof (cases "special_name name \<or> \<not> (sh_type sh = SHT_PROGBITS \<and> d_size d > 0)")
  case False
  then have f: "\<not> special_name name" "sh_type sh = SHT_PROGBITS" "d_size d > 0"
    by blast+
  have cp: "collect_progbits alloc idx sh name d obj = (r, obj')"
    using assms(1) unfolding collect_section_progbits [OF f] by (simp split: prod.splits)
  have tc: "takes_code sh name d \<longleftrightarrow> sh_flags sh AND SHF_EXECINSTR \<noteq> 0"
    unfolding takes_code_def using f by blast
  obtain ps where ps: "adds_programs idx name obj obj' ps"
      "if sh_flags sh AND SHF_EXECINSTR \<noteq> 0 then r = Inr () \<longrightarrow> data_bytes d = Inr (code_bytes ps) else ps = []"
    using collect_progbits_programs [OF cp assms(2,3)] by blast
  then show ?thesis unfolding tc by (intro exI [of _ ps]) (simp split: if_splits)
next
  case True
  then have "unchanged obj (r, obj', b', x')" using collect_section_unchanged assms(1) by metis
  then have "adds_programs idx name obj obj' []" using adds_none by (simp add: unchanged_def)
  moreover have "\<not> takes_code sh name d" using True unfolding takes_code_def by blast
  ultimately show ?thesis by blast
qed

lemma adds_programs_wf: "adds_programs idx name obj obj' ps \<Longrightarrow> progs_wf ps \<and> (\<forall>p \<in> set ps. p_sec_idx p = idx)"
  unfolding adds_programs_def using consecutive_wf program_of_def by blast

definition code_of :: "bpf_program list \<Rightarrow> nat \<Rightarrow> u8 list" where
  "code_of ps idx = code_bytes (filter (\<lambda>p. p_sec_idx p = idx) ps)"

definition small_sections :: "bpf_object \<Rightarrow> bool" where
  "small_sections obj \<longleftrightarrow> (\<forall>scn d. elf_sec_data obj (Some scn) = Some d \<longrightarrow> d_size d < 2 ^ 63)"

lemma small_sections_same: "same_file obj obj' \<Longrightarrow> small_sections obj' = small_sections obj"
  by (simp add: small_sections_def same_file_lookups)

lemma code_section_same: "same_file obj obj' \<Longrightarrow> code_section obj' idx name d = code_section obj idx name d"
  by (simp add: code_section_def same_file_lookups)

text \<open>What a run over the sections \<open>scns\<close> adds to the object.\<close>

definition collected :: "bpf_object \<Rightarrow> nat list \<Rightarrow> unit result \<Rightarrow> bpf_object \<Rightarrow> bpf_program list \<Rightarrow> bool" where
  "collected obj scns r obj' ps \<longleftrightarrow>
     same_file obj obj' \<and> programs obj' = programs obj @ ps \<and> progs_wf ps \<and> p_sec_idx ` set ps \<subseteq> set scns \<and>
     (\<forall>p \<in> set ps. \<exists>name. program_of (p_sec_idx p) name p) \<and>
     (r = Inr () \<longrightarrow> (\<forall>idx \<in> set scns. \<forall>name d. code_section obj idx name d \<longrightarrow> data_bytes d = Inr (code_of ps idx)))"

lemma collected_Nil: "collected obj [] r obj []"
  by (simp add: collected_def progs_wf_def)

lemma collected_skip:
  assumes "collected obj scns r obj' ps" "\<And>name d. \<not> code_section obj scn name d"
  shows "collected obj (scn # scns) r obj' ps"
  using assms unfolding collected_def by (auto simp: subset_insertI2)

lemma collected_fail: "adds_programs idx name obj obj' ps \<Longrightarrow> r \<noteq> Inr () \<Longrightarrow> collected obj (idx # scns) r obj' ps"
  unfolding collected_def using adds_programs_wf [of idx name obj obj' ps] by (auto simp: adds_programs_def)

lemma code_of_own: "(\<forall>p \<in> set ps. p_sec_idx p = idx) \<Longrightarrow> code_of ps idx = code_bytes ps"
  by (simp add: code_of_def)

lemma code_of_other: "idx \<notin> p_sec_idx ` set ps \<Longrightarrow> code_of ps idx = []"
proof -
  assume "idx \<notin> p_sec_idx ` set ps"
  then have "filter (\<lambda>p. p_sec_idx p = idx) ps = []" by (auto simp: filter_empty_conv)
  then show ?thesis by (simp add: code_of_def code_bytes_def)
qed

lemma code_of_append: "code_of (ps @ qs) idx = code_of ps idx @ code_of qs idx"
  by (simp add: code_of_def code_bytes_def)

lemma collected_next:
  assumes add: "adds_programs idx name obj obj1 ps" and rest: "collected obj1 scns r obj' qs"
    and lt: "\<forall>i \<in> set scns. idx < i"
    and code: "\<And>nm d. code_section obj idx nm d \<Longrightarrow> data_bytes d = Inr (code_bytes ps)"
  shows "collected obj (idx # scns) r obj' (ps @ qs)"
proof -
  note wf = adds_programs_wf [OF add]
  have same: "same_file obj obj1" using add by (simp add: adds_programs_def)
  have "progs_wf (ps @ qs)"
    using wf rest lt by (intro progs_wf_append) (auto simp: collected_def)
  moreover have "data_bytes d = Inr (code_of (ps @ qs) i)"
    if "r = Inr ()" "i \<in> set (idx # scns)" "code_section obj i nm d" for i nm d
  proof (cases "i = idx")
    case True
    then have "code_of qs i = []" using rest lt code_of_other [of i qs] by (auto simp: collected_def)
    then show ?thesis using True code that(3) wf by (simp add: code_of_append code_of_own)
  next
    case False
    then have "code_of ps i = []" using wf code_of_other [of i ps] by auto
    then show ?thesis using rest that False code_section_same [OF same] by (auto simp: collected_def code_of_append)
  qed
  moreover have "same_file obj obj'" using same rest same_file_trans by (auto simp: collected_def)
  moreover have "\<exists>nm. program_of (p_sec_idx p) nm p" if "p \<in> set (ps @ qs)" for p
    using that add rest wf by (cases "p \<in> set ps") (auto simp: collected_def adds_programs_def intro: exI [of _ name])
  ultimately show ?thesis using add rest wf unfolding collected_def adds_programs_def by simp blast
qed

lemma collect_sections_collected:
  assumes "collect_sections alloc scns (obj, b, x) = (r, obj', b', x')" "bounded_alloc alloc" "small_sections obj"
    "sorted_wrt (<) scns"
  shows "\<exists>ps. collected obj scns r obj' ps"
  using assms
proof (induction scns arbitrary: obj b x)
  case Nil
  then show ?case using collected_Nil by auto
next
  case (Cons scn scns)
  show ?case
  proof (cases "\<exists>name d. \<exists>sh. elf_sec_hdr obj (Some scn) = Inr sh \<and> elf_sec_str obj (sh_name sh) = Some name \<and>
        \<not> ignore_elf_section sh name \<and> elf_sec_data obj (Some scn) = Some d")
    case True
    then obtain sh name d where sec: "elf_sec_hdr obj (Some scn) = Inr sh" "elf_sec_str obj (sh_name sh) = Some name"
        "\<not> ignore_elf_section sh name" "elf_sec_data obj (Some scn) = Some d" by blast
    obtain r1 obj1 b1 x1 where step: "collect_section alloc scn sh name d (obj, b, x) = (r1, obj1, b1, x1)"
      by (metis prod_cases4)
    have small: "d_size d < 2 ^ 63" using Cons.prems(3) sec(4) by (simp add: small_sections_def)
    obtain ps where ps: "adds_programs scn name obj obj1 ps" "takes_code sh name d \<Longrightarrow> r1 = Inr () \<Longrightarrow> data_bytes d = Inr (code_bytes ps)"
      using collect_section_programs [OF step Cons.prems(2) small] by blast
    show ?thesis
    proof (cases r1)
      case (Inl e)
      then have "r = Inl e" "obj' = obj1" using Cons.prems(1) sec step by simp_all
      then show ?thesis using collected_fail [OF ps(1)] by blast
    next
      case (Inr u)
      then have run: "collect_sections alloc scns (obj1, b1, x1) = (r, obj', b', x')" using Cons.prems(1) sec step by simp
      have same: "same_file obj obj1" using ps(1) by (simp add: adds_programs_def)
      obtain qs where qs: "collected obj1 scns r obj' qs"
        using Cons.IH [OF run Cons.prems(2)] Cons.prems(3,4) small_sections_same [OF same] by auto
      have "data_bytes d' = Inr (code_bytes ps)" if "code_section obj scn nm d'" for nm d'
        using that sec ps(2) Inr by (auto simp: code_section_def)
      then show ?thesis using collected_next [OF ps(1) qs] Cons.prems(4) by fastforce
    qed
  next
    case False
    then have no: "\<not> code_section obj scn name d" for name d by (auto simp: code_section_def)
    have "(collect_sections alloc scns (obj, b, x) = (r, obj', b', x')) \<or> (r \<noteq> Inr () \<and> obj' = obj)"
      using Cons.prems(1) False by (auto split: sum.splits option.splits if_splits)
    then show ?thesis
    proof
      assume run: "collect_sections alloc scns (obj, b, x) = (r, obj', b', x')"
      have "sorted_wrt (<) scns" using Cons.prems(4) by simp
      from Cons.IH [OF run Cons.prems(2,3) this] show ?thesis using collected_skip [OF _ no] by blast
    next
      assume "r \<noteq> Inr () \<and> obj' = obj"
      then show ?thesis by (intro exI [of _ "[]"]) (simp add: collected_def progs_wf_def)
    qed
  qed
qed

lemma collect_symtab_programs: "collect_symtab obj scns = (r, obj') \<Longrightarrow> programs obj' = programs obj \<and> same_file obj obj'"
proof (induction scns arbitrary: obj)
  case (Cons scn scns)
  have same: "same_file obj (upd_efile (\<lambda>ef. ef\<lparr>ef_symbols := Some d, symbols_shndx := i, ef_strtabidx := j\<rparr>) obj)" for d i j
    by (simp add: same_file_def)
  show ?case
    using Cons.prems Cons.IH same_file_trans [OF same] by (fastforce split: sum.splits if_splits option.splits)
qed simp

lemma init_btf_programs: "bpf_object__init_btf alloc bd xd obj = (r, obj') \<Longrightarrow> programs obj' = programs obj \<and> same_file obj obj'"
  by (auto simp: bpf_object__init_btf_def Let_def same_file_def split: sum.splits option.splits prod.splits if_splits)

lemma elf_collect_result:
  assumes "bpf_object__elf_collect alloc obj = (r, obj')" "programs obj = []" "bounded_alloc alloc" "small_sections obj"
  shows "same_file obj obj' \<and> progs_wf (programs obj') \<and> (\<forall>p \<in> set (programs obj'). \<exists>name. program_of (p_sec_idx p) name p) \<and>
     (r = Inr () \<longrightarrow> (\<forall>idx name d. idx \<in> set (elf_scns (ef_elf (efile obj))) \<longrightarrow> code_section obj idx name d \<longrightarrow>
        data_bytes d = Inr (code_of (programs obj') idx)))"
proof -
  let ?scns = "elf_scns (ef_elf (efile obj))"
  obtain r1 obj1 where sym: "collect_symtab obj ?scns = (r1, obj1)" by (cases "collect_symtab obj ?scns")
  note s1 = collect_symtab_programs [OF sym]
  show ?thesis
  proof (cases r1)
    case (Inl e)
    then have "r = Inl e" "obj' = obj1" using assms(1) sym by (simp_all add: bpf_object__elf_collect_def and_then_def)
    then show ?thesis using s1 assms(2) by (simp add: progs_wf_def)
  next
    case (Inr u)
    obtain r2 obj2 b x where run: "collect_sections alloc ?scns (obj1, None, None) = (r2, obj2, b, x)" by (metis prod_cases4)
    have "sorted_wrt (<) ?scns" by (simp add: elf_scns_def split: option.split)
    then obtain ps where ps: "collected obj1 ?scns r2 obj2 ps"
      using collect_sections_collected [OF run assms(3)] assms(4) small_sections_same s1 by blast
    have wf: "progs_wf (programs obj2)" and p2: "programs obj2 = ps" using ps s1 assms(2) by (simp_all add: collected_def)
    have fin: "programs obj' = programs obj2 \<and> same_file obj2 obj' \<and> (r = Inr () \<longrightarrow> r2 = Inr ())"
      using assms(1) sym Inr run qsort_progs_wf [OF wf]
      by (auto simp: bpf_object__elf_collect_def and_then_def Let_def same_file_def dest: init_btf_programs split: sum.splits if_splits)
    have "data_bytes d = Inr (code_of ps idx)" if "r = Inr ()" "idx \<in> set ?scns" "code_section obj idx name d" for idx name d
      using ps that fin code_section_same [of obj obj1 idx name d] s1 by (auto simp: collected_def)
    moreover have "same_file obj obj'" using s1 ps fin by (auto simp: collected_def intro: same_file_trans)
    ultimately show ?thesis using fin p2 wf ps by (simp add: collected_def)
  qed
qed

text \<open>
  C19. The programs of a collected object: whatever the sections hold, the programs are ordered and disjoint,
  so that the search among them is sound; each has the instructions its section holds at its place, and
  after a successful collection the programs of a section of code are, one after the other, the whole section.
\<close>

theorem elf_collect_programs:
  assumes "bpf_object__elf_collect alloc obj = (r, obj')" "programs obj = []" "bounded_alloc alloc" "small_sections obj"
  shows "progs_wf (programs obj') \<and> (\<forall>p \<in> set (programs obj'). \<exists>name. program_of (p_sec_idx p) name p) \<and>
     (r = Inr () \<longrightarrow> (\<forall>idx name d. idx \<in> set (elf_scns (ef_elf (efile obj))) \<longrightarrow> code_section obj idx name d \<longrightarrow>
        data_bytes d = Inr (code_of (programs obj') idx)))"
  using elf_collect_result [OF assms] by blast

subsection \<open>An object file\<close>

text \<open>
  A file with the section \<^verbatim>\<open>xdp\<close> of two programs, \<open>f\<close> (a load of the address of the variable \<open>v\<close>, exit) and
  \<open>g\<close> (exit), the relocation of the load, and the section \<^verbatim>\<open>.data\<close> of the variable.
\<close>

definition ex_code :: "u8 list" where
  "ex_code = [0x18, 0x01, 0, 0, 0, 0, 0, 0,  0, 0, 0, 0, 0, 0, 0, 0,  0x95, 0, 0, 0, 0, 0, 0, 0,  0x95, 0, 0, 0, 7, 0, 0, 0]"

definition ex_shdr :: "nat \<Rightarrow> nat \<Rightarrow> nat \<Rightarrow> nat \<Rightarrow> nat \<Rightarrow> nat \<Rightarrow> nat \<Rightarrow> gelf_shdr" where
  "ex_shdr nm ty fl n lk tgt es = \<lparr>sh_name = nm, sh_type = ty, sh_flags = fl, sh_size = n, sh_link = lk, sh_info = tgt, sh_entsize = es\<rparr>"

definition ex_sym :: "nat \<Rightarrow> nat \<Rightarrow> nat \<Rightarrow> nat \<Rightarrow> nat \<Rightarrow> gelf_sym" where
  "ex_sym nm bt sx v n = \<lparr>st_name = nm, st_info = bt, st_shndx = sx, st_value = v, st_size = n\<rparr>"

definition ex_data :: "nat \<Rightarrow> u8 list \<Rightarrow> elf_data" where
  "ex_data n bs = \<lparr>d_buf = Some bs, d_size = n\<rparr>"

definition nth_opt :: "'a list \<Rightarrow> nat \<Rightarrow> 'a option" where
  "nth_opt xs i = (if i < length xs then Some (xs ! i) else None)"

definition ex_elf :: elf where
  "ex_elf = \<lparr>elf_nscn = 6,
     elf_shdr = nth_opt [ex_shdr 0 0 0 0 0 0 0, ex_shdr 1 SHT_STRTAB 0 1 0 0 0, ex_shdr 2 SHT_SYMTAB 0 96 1 0 24,
       ex_shdr 3 SHT_PROGBITS 6 32 0 0 0, ex_shdr 4 SHT_REL 0 16 2 3 16, ex_shdr 5 SHT_PROGBITS 3 4 0 0 0],
     elf_getdata = nth_opt [ex_data 0 [], ex_data 1 [0], ex_data 96 (replicate 96 0), ex_data 32 ex_code, ex_data 16 (replicate 16 0), ex_data 4 [1, 2, 3, 4]],
     elf_rawdata = (\<lambda>i. i < 6),
     elf_strptr = (\<lambda>_. nth_opt [[], ''.strtab'', ''.symtab'', ''xdp'', ''.relxdp'', ''.data'', ''f'', ''g'', ''v'']),
     elf_getsym = (\<lambda>_. nth_opt [ex_sym 0 0 0 0 0, ex_sym 6 0x12 3 0 24, ex_sym 7 0x12 3 24 8, ex_sym 8 0x11 5 0 4]),
     elf_getrel = (\<lambda>_. nth_opt [\<lparr>r_offset = 0, r_info = 3 * 2 ^ 32 + 1\<rparr>]),
     elf_ehdr = Some \<lparr>e_type = ET_REL, e_machine = EM_BPF, e_data = ELFDATA2LSB\<rparr>, elf_shstrndx = Some 1\<rparr>"

definition ex_alloc :: alloc where "ex_alloc n \<longleftrightarrow> n < 2 ^ 20"

definition ex_obj :: bpf_object where
  "ex_obj = (case bpf_object__new ex_alloc 0 ''x.o'' None of
     Inr obj \<Rightarrow> snd (bpf_object__elf_init (Inr (3, Some ex_elf)) obj))"

lemma ex_alloc: "bounded_alloc ex_alloc"
  by (simp add: bounded_alloc_def ex_alloc_def)

lemma ex_obj_eq: "ex_obj = \<lparr>obj_name = ''x'', obj_license = replicate 64 0, kern_version = 0, programs = [], maps = [], maps_cap = 0,
    externs = [], kconfig_map_idx = -1, rodata_map_idx = -1,
    efile = efile_new\<lparr>ef_fd := 3, ef_elf := Some ex_elf, ef_ehdr := \<lparr>e_type = ET_REL, e_machine = EM_BPF, e_data = ELFDATA2LSB\<rparr>,
      ef_shstrndx := 1\<rparr>, obj_btf = None, obj_btf_ext = None\<rparr>"
  by (simp add: ex_obj_def bpf_object__new_def ex_alloc_def bpf_object__elf_init_def efile_new_def obj_elf_valid_def
      upd_efile_def ex_elf_def Let_def EM_BPF_def BPF_OBJ_NAME_LEN_def basename_def)

lemma nth_opt_simps [simp]: "nth_opt [] i = None" "nth_opt (x # xs) i = (if i = 0 then Some x else nth_opt xs (i - 1))"
  by (auto simp: nth_opt_def)

lemmas elf_consts = SHT_PROGBITS_def SHT_SYMTAB_def SHT_STRTAB_def SHT_NOBITS_def SHT_REL_def SHF_EXECINSTR_def STT_NOTYPE_def
  STT_OBJECT_def STT_FUNC_def STT_SECTION_def STB_GLOBAL_def STB_WEAK_def SHN_UNDEF_def SHN_LORESERVE_def ET_REL_def EM_BPF_def
  ELFDATA2LSB_def GELF_ST_BIND_def GELF_ST_TYPE_def GELF_R_SYM_def

lemmas elf_lookups = elf_sec_hdr_def elf_sec_str_def elf_str_def elf_sec_data_def elf_sec_by_idx_def elf_sec_name_def elf_scns_def
  ignore_elf_section_def is_sec_name_dwarf_def str_prefix_def elf_sym_str_def section_have_execinstr_def

lemma ex_elf_simps [simp]:
  "elf_nscn ex_elf = 6"
  "elf_shdr ex_elf = nth_opt [ex_shdr 0 0 0 0 0 0 0, ex_shdr 1 SHT_STRTAB 0 1 0 0 0, ex_shdr 2 SHT_SYMTAB 0 96 1 0 24,
       ex_shdr 3 SHT_PROGBITS 6 32 0 0 0, ex_shdr 4 SHT_REL 0 16 2 3 16, ex_shdr 5 SHT_PROGBITS 3 4 0 0 0]"
  "elf_getdata ex_elf = nth_opt [ex_data 0 [], ex_data 1 [0], ex_data 96 (replicate 96 0), ex_data 32 ex_code,
     ex_data 16 (replicate 16 0), ex_data 4 [1, 2, 3, 4]]"
  "elf_rawdata ex_elf i \<longleftrightarrow> i < 6"
  "elf_strptr ex_elf scn = nth_opt [[], ''.strtab'', ''.symtab'', ''xdp'', ''.relxdp'', ''.data'', ''f'', ''g'', ''v'']"
  "elf_getsym ex_elf d = nth_opt [ex_sym 0 0 0 0 0, ex_sym 6 0x12 3 0 24, ex_sym 7 0x12 3 24 8, ex_sym 8 0x11 5 0 4]"
  "elf_getrel ex_elf d = nth_opt [\<lparr>r_offset = 0, r_info = 3 * 2 ^ 32 + 1\<rparr>]"
  "elf_ehdr ex_elf = Some \<lparr>e_type = ET_REL, e_machine = EM_BPF, e_data = ELFDATA2LSB\<rparr>" "elf_shstrndx ex_elf = Some 1"
  by (simp_all add: ex_elf_def)

lemma ex_small: "small_sections ex_obj"
  by (auto simp: small_sections_def elf_sec_data_def ex_obj_eq efile_new_def ex_data_def ex_code_def split: if_splits)

lemmas ex_file = ex_shdr_def ex_sym_def ex_data_def ex_alloc_def

lemma ex_symtab: "collect_symtab ex_obj [1, 2, 3, 4, 5] =
    (Inr (), upd_efile (\<lambda>ef. ef\<lparr>ef_symbols := Some (ex_data 96 (replicate 96 0)), symbols_shndx := 2, ef_strtabidx := 1\<rparr>) ex_obj)"
  by (simp add: elf_lookups elf_consts ex_file ex_obj_eq efile_new_def upd_efile_def)

lemmas collect_defs = bpf_object__elf_collect_def and_then_def collect_section_def collect_progbits_def collect_rel_def keep_def
  bpf_object__add_programs_def add_programs_loop.simps add_program_at_def elf_sym_by_sec_off_def bpf_object__init_prog_def
  libbpf_reallocarray_def bpf_object__init_btf_def init_btf_main_def libbpf_needs_btf_def

lemmas collect_eval = elf_lookups elf_consts ex_file ex_obj_eq efile_new_def upd_efile_def collect_defs ex_code_def sizeof_bpf_program_def BPF_INSN_SZ_def
  deref_def guard_def

definition ex_insn :: "u8 \<Rightarrow> u8 \<Rightarrow> u8 \<Rightarrow> u32 \<Rightarrow> bpf_insn" where
  "ex_insn c d r i = \<lparr>code = c, dst_reg = d, src_reg = r, off = 0, imm = i\<rparr>"

definition ex_prog :: "string \<Rightarrow> nat \<Rightarrow> bpf_insn list \<Rightarrow> bpf_program" where
  "ex_prog name at is = \<lparr>p_sec_name = ''xdp'', p_sec_idx = 3, sec_insn_off = at, sec_insn_cnt = length is, sub_insn_off = 0,
     p_name = name, p_pin_name = ''xdp'', insns = is, insns_cnt = length is, p_relocs = [], p_instances_nr = -1, p_load = True,
     p_type = 0, p_attach_btf_id = 0, p_expected_attach_type = 0, p_prog_flags = 0, p_func_info = [], p_func_info_rec_size = 0,
     p_func_info_cnt = 0, p_line_info = [], p_line_info_rec_size = 0, p_line_info_cnt = 0\<rparr>"

definition ex_f :: bpf_program where
  "ex_f = ex_prog ''f'' 0 [ex_insn 0x18 1 0 0, ex_insn 0 0 0 0, ex_insn 0x95 0 0 0]"

definition ex_g :: bpf_program where
  "ex_g = ex_prog ''g'' 3 [ex_insn 0x95 0 0 7]"

definition ex_obj2 :: bpf_object where
  "ex_obj2 = ex_obj\<lparr>programs := [ex_f, ex_g], efile := (efile ex_obj)\<lparr>ef_symbols := Some (ex_data 96 (replicate 96 0)),
     ef_data := Some (ex_data 4 [1, 2, 3, 4]), ef_strtabidx := 1,
     ef_reloc_sects := [(ex_shdr 4 SHT_REL 0 16 2 3 16, ex_data 16 (replicate 16 0))], symbols_shndx := 2, data_shndx := 5\<rparr>\<rparr>"

lemma ex_collect: "bpf_object__elf_collect ex_alloc ex_obj = (Inr (), ex_obj2)"
  by (simp add: collect_eval upt_rec cmp_progs_def ex_obj2_def ex_f_def ex_g_def ex_prog_def ex_insn_def bpf_program__pin_name_def
      u16_of_le_def u32_of_le_def)

lemma ex_code_section: "code_section ex_obj 3 ''xdp'' (ex_data 32 ex_code)"
  by (simp add: code_section_def takes_code_def special_name_def collect_eval)

theorem elf_collect_programs_witness:
  "bpf_object__elf_collect ex_alloc ex_obj = (Inr (), ex_obj2) \<and> map p_name (programs ex_obj2) = [''f'', ''g''] \<and>
     progs_wf (programs ex_obj2) \<and> code_of (programs ex_obj2) 3 = ex_code"
proof -
  have "programs ex_obj = []" by (simp add: ex_obj_eq)
  note collected = elf_collect_programs [OF ex_collect this ex_alloc ex_small]
  have "data_bytes (ex_data 32 ex_code) = Inr (code_of (programs ex_obj2) 3)"
    using collected ex_code_section by (simp add: elf_scns_def ex_obj_eq)
  then have "code_of (programs ex_obj2) 3 = ex_code" by (simp add: data_bytes_def ex_data_def ex_code_def)
  moreover have "progs_wf (programs ex_obj2)" using collected by blast
  ultimately show ?thesis using ex_collect by (simp add: ex_obj2_def ex_f_def ex_g_def ex_prog_def)
qed

lemma ex_progs: "programs ex_obj2 = [ex_f, ex_g]" "progs_wf [ex_f, ex_g]"
  by (simp_all add: ex_obj2_def progs_wf_def prog_before_def ex_f_def ex_g_def ex_prog_def)

theorem find_prog_by_sec_insn_correct_witness:
  "find_prog_by_sec_insn ex_obj2 3 3 = Inr (Some 1) \<and> find_prog_by_sec_insn ex_obj2 3 4 = Inr None"
proof -
  have wf: "progs_wf (programs ex_obj2)" "programs ex_obj2 \<noteq> []" by (simp_all add: ex_progs)
  obtain f1 f2 where f: "find_prog_by_sec_insn ex_obj2 3 3 = Inr f1" "find_prog_by_sec_insn ex_obj2 3 4 = Inr f2"
      "\<forall>i. f1 = Some i \<longleftrightarrow> i < length (programs ex_obj2) \<and> p_sec_idx (programs ex_obj2 ! i) = 3 \<and> prog_contains_insn (programs ex_obj2 ! i) 3"
      "\<forall>i. f2 = Some i \<longleftrightarrow> i < length (programs ex_obj2) \<and> p_sec_idx (programs ex_obj2 ! i) = 3 \<and> prog_contains_insn (programs ex_obj2 ! i) 4"
    using find_prog_by_sec_insn_correct [OF wf, of 3 3] find_prog_by_sec_insn_correct [OF wf, of 3 4] by blast
  have "f1 = Some 1" using f(3) [THEN spec, of 1] by (simp add: ex_progs prog_contains_insn_def ex_g_def ex_prog_def)
  moreover have "f2 = None"
  proof (cases f2)
    case (Some i)
    then have "i < 2" "prog_contains_insn ([ex_f, ex_g] ! i) 4" using f(4) [THEN spec, of i] by (simp_all add: ex_progs)
    then show ?thesis by (auto simp: prog_contains_insn_def less_2_cases_iff ex_f_def ex_g_def ex_prog_def)
  qed
  ultimately show ?thesis using f(1,2) by simp
qed

end
