(* ===== verification/Reloc_Facts.thy ===== *)
theory Reloc_Facts
  imports Programs User_Maps
begin

text \<open>
  The descriptors of relocations: every descriptor collected for a program refers to one of its
  instructions and to a map or extern of the object, and patching the data references changes the
  referenced instructions and nothing else.
\<close>

subsection \<open>The order of descriptors\<close>

definition reloc_key :: "reloc_desc \<Rightarrow> int \<times> nat" where
  "reloc_key r = (rd_insn_idx r, reloc_type_num (rd_type r))"

lemma reloc_type_num_inject: "reloc_type_num a = reloc_type_num b \<longleftrightarrow> a = b"
  by (cases a; cases b) simp_all

interpretation relocs: compares_by cmp_relocs reloc_key "\<lambda>_. True"
  by unfold_locales (auto simp: cmp_relocs_def reloc_key_def less_prod_def reloc_type_num_inject)

subsection \<open>Descriptors in range\<close>

text \<open>The instruction a descriptor is recorded for, by its index in the program.\<close>

definition reloc_ok :: "libbpf_map_type list \<Rightarrow> nat \<Rightarrow> bpf_insn list \<Rightarrow> reloc_desc \<Rightarrow> bool" where
  "reloc_ok types nr_externs is r \<longleftrightarrow>
     (\<exists>k < length is. rd_insn_idx r = s32 k \<and>
        (case rd_type r of
           RELO_CALL \<Rightarrow> code (is ! k) = BPF_JMP OR BPF_CALL \<and> src_reg (is ! k) = BPF_PSEUDO_CALL
         | RELO_LD64 \<Rightarrow> code (is ! k) = BPF_LD OR BPF_IMM OR BPF_DW \<and> rd_sym_off r = 0 \<and>
             (\<exists>m < length types. rd_map_idx r = int m \<and> types ! m = LIBBPF_MAP_UNSPEC)
         | RELO_DATA \<Rightarrow> code (is ! k) = BPF_LD OR BPF_IMM OR BPF_DW \<and>
             (\<exists>m < length types. rd_map_idx r = int m \<and> types ! m \<noteq> LIBBPF_MAP_UNSPEC)
         | RELO_EXTERN \<Rightarrow> code (is ! k) = BPF_LD OR BPF_IMM OR BPF_DW \<and>
             (\<exists>e < nr_externs. rd_sym_off r = int e)))"

abbreviation map_types :: "bpf_object \<Rightarrow> libbpf_map_type list" where
  "map_types obj \<equiv> map m_libbpf_type (maps obj)"

lemma find_index_Some: "find_index p xs = Some i \<Longrightarrow> i < length xs \<and> p (xs ! i)"
  by (induction xs arbitrary: i) (auto split: if_splits)

lemma record_reloc_ok:
  assumes "bpf_program__record_reloc obj prog junk k sy rel = Inr r"
  shows "reloc_ok (map_types obj) (length (externs obj)) (insns prog) r \<and> \<not> rd_processed r"
proof -
  have k: "k < length (insns prog)" using assms by (auto simp: bpf_program__record_reloc_def result_simps)
  define insn where "insn = insns prog ! k"
  define desc where "desc = junk\<lparr>rd_processed := False\<rparr>"
  define ty where "ty = bpf_object__section_to_libbpf_map_type obj (int (st_shndx sy))"
  consider "code insn = BPF_JMP OR BPF_CALL" "record_call obj desc insn k sy = Inr r"
    | "code insn = BPF_LD OR BPF_IMM OR BPF_DW" "record_extern obj desc k rel = Inr r"
    | "code insn = BPF_LD OR BPF_IMM OR BPF_DW" "record_map obj desc k sy = Inr r"
    | "code insn = BPF_LD OR BPF_IMM OR BPF_DW" "ty \<noteq> LIBBPF_MAP_UNSPEC" "record_data obj desc ty k sy = Inr r"
    using assms k
    by (auto simp: bpf_program__record_reloc_def array_get_def fail_def Let_def insn_def desc_def ty_def split: if_splits)
  then show ?thesis
  proof cases
    case 1
    then show ?thesis using k
      by (auto simp: reloc_ok_def record_call_def fail_def insn_def desc_def split: if_splits)
  next
    case 2
    then obtain e where "e < length (externs obj)" "r = desc\<lparr>rd_type := RELO_EXTERN, rd_insn_idx := s32 k, rd_sym_off := int e\<rparr>"
      by (auto simp: record_extern_def fail_def dest: find_index_Some split: option.splits)
    then show ?thesis using k 2(1) by (auto simp: reloc_ok_def insn_def desc_def)
  next
    case 3
    then obtain m where "m < length (maps obj)" "m_libbpf_type (maps obj ! m) = LIBBPF_MAP_UNSPEC"
        "r = desc\<lparr>rd_type := RELO_LD64, rd_insn_idx := s32 k, rd_map_idx := int m, rd_sym_off := 0\<rparr>"
      by (auto simp: record_map_def fail_def find_map_at_def dest!: find_index_Some split: option.splits if_splits)
    then show ?thesis using k 3(1) by (auto simp: reloc_ok_def insn_def desc_def)
  next
    case 4
    then obtain m where "m < length (maps obj)" "m_libbpf_type (maps obj ! m) = ty"
        "r = desc\<lparr>rd_type := RELO_DATA, rd_insn_idx := s32 k, rd_map_idx := int m, rd_sym_off := s32 (st_value sy)\<rparr>"
      by (auto simp: record_data_def fail_def find_map_of_type_def dest!: find_index_Some split: option.splits if_splits)
    then show ?thesis using k 4(1,2) by (auto simp: reloc_ok_def insn_def desc_def)
  qed
qed

definition skeleton :: "bpf_program \<Rightarrow> nat \<times> nat \<times> nat \<times> nat \<times> string \<times> bpf_insn list" where
  "skeleton p = (p_sec_idx p, sec_insn_off p, sec_insn_cnt p, insns_cnt p, p_sec_name p, insns p)"

definition relocs_ok :: "bpf_object \<Rightarrow> bool" where
  "relocs_ok obj \<longleftrightarrow> (\<forall>p \<in> set (programs obj). \<forall>r \<in> set (p_relocs p). reloc_ok (map_types obj) (length (externs obj)) (insns p) r)"

text \<open>What a step of the collection leaves alone, and that it keeps the descriptors in range.\<close>

definition keeps_relocs :: "bpf_object \<Rightarrow> bpf_object \<Rightarrow> bool" where
  "keeps_relocs obj obj' \<longleftrightarrow>
     map skeleton (programs obj') = map skeleton (programs obj) \<and> map_types obj' = map_types obj \<and> externs obj' = externs obj \<and>
     kconfig_map_idx obj' = kconfig_map_idx obj \<and> ef_elf (efile obj') = ef_elf (efile obj) \<and> (relocs_ok obj \<longrightarrow> relocs_ok obj')"

lemma keeps_refl [simp]: "keeps_relocs obj obj"
  by (simp add: keeps_relocs_def)

lemma keeps_trans: "keeps_relocs a b \<Longrightarrow> keeps_relocs b c \<Longrightarrow> keeps_relocs a c"
  by (simp add: keeps_relocs_def)

lemma skeleton_insns: "skeleton p = skeleton q \<Longrightarrow> insns p = insns q"
  by (simp add: skeleton_def)

lemma progs_wf_skeleton: "map skeleton qs = map skeleton ps \<Longrightarrow> progs_wf ps \<Longrightarrow> progs_wf qs"
proof -
  assume eq: "map skeleton qs = map skeleton ps" and wf: "progs_wf ps"
  then have len: "length qs = length ps" by (metis length_map)
  have sk: "skeleton (qs ! i) = skeleton (ps ! i)" if "i < length ps" for i
    using arg_cong [OF eq, of "\<lambda>xs. xs ! i"] that len by simp
  show "progs_wf qs"
    using wf sk len by (auto simp: progs_wf_def sorted_wrt_iff_nth_less prog_before_def skeleton_def all_set_conv_all_nth)
qed

lemma find_prog_bound: "find_prog_by_sec_insn obj s n = Inr (Some i) \<Longrightarrow> i < length (programs obj)"
  by (auto simp: find_prog_by_sec_insn_def result_simps Let_def split: if_splits)

lemma keeps_update:
  assumes "i < length (programs obj)" "skeleton q = skeleton (programs obj ! i)"
    "\<And>r. r \<in> set (p_relocs q) \<Longrightarrow> r \<in> set (p_relocs (programs obj ! i)) \<or>
       reloc_ok (map_types obj) (length (externs obj)) (insns (programs obj ! i)) r"
    "programs obj' = (programs obj)[i := q]" "map_types obj' = map_types obj" "externs obj' = externs obj"
    "kconfig_map_idx obj' = kconfig_map_idx obj" "ef_elf (efile obj') = ef_elf (efile obj)"
  shows "keeps_relocs obj obj'"
proof -
  have "map skeleton (programs obj') = map skeleton (programs obj)"
    using assms(1,2,4) by (simp add: map_update list_update_same_conv)
  moreover have "relocs_ok obj'" if ok: "relocs_ok obj"
    unfolding relocs_ok_def
  proof (intro ballI)
    fix p r
    assume p: "p \<in> set (programs obj')" and r: "r \<in> set (p_relocs p)"
    show "reloc_ok (map_types obj') (length (externs obj')) (insns p) r"
    proof (cases "p = q")
      case True
      have "programs obj ! i \<in> set (programs obj)" using assms(1) by simp
      then show ?thesis using True r ok assms(3,5,6) skeleton_insns [OF assms(2)] unfolding relocs_ok_def by metis
    next
      case False
      then have "p \<in> set (programs obj)" using p assms(4) by (metis set_update_subset_insert insertE subsetD)
      then show ?thesis using ok r assms(5,6) by (simp add: relocs_ok_def)
    qed
  qed
  ultimately show ?thesis using assms(5-8) by (simp add: keeps_relocs_def)
qed

lemma collect_reloc_entry_keeps:
  assumes "collect_reloc_entry alloc junk e symbols data s i obj = Inr obj'"
  shows "keeps_relocs obj obj'"
proof -
  obtain insn_idx pi sy rel desc where f: "find_prog_by_sec_insn obj s insn_idx = Inr (Some pi)"
      and r: "bpf_program__record_reloc obj (programs obj ! pi) junk (insn_idx - sec_insn_off (programs obj ! pi)) sy rel = Inr desc"
      and obj': "obj' = add_reloc obj pi desc"
    using assms by (auto simp: collect_reloc_entry_def result_simps Let_def)
  show ?thesis unfolding obj' add_reloc_def
    by (rule keeps_update [OF find_prog_bound [OF f]]) (use record_reloc_ok [OF r] in \<open>auto simp: skeleton_def\<close>)
qed

lemma collect_reloc_entries_keeps:
  "collect_reloc_entries alloc junk e symbols data s is obj = (r, obj') \<Longrightarrow> keeps_relocs obj obj'"
proof (induction "is" arbitrary: obj)
  case (Cons i "is")
  then show ?case using collect_reloc_entry_keeps keeps_trans by (cases "collect_reloc_entry alloc junk e symbols data s i obj") fastforce+
qed simp

lemma collect_prog_relos_keeps:
  "bpf_object__collect_prog_relos alloc junk shdr data obj = (r, obj') \<Longrightarrow> keeps_relocs obj obj'"
  using collect_reloc_entries_keeps
  by (auto simp: bpf_object__collect_prog_relos_def split: option.splits sum.splits if_splits)

lemma keeps_same_programs:
  "programs obj' = programs obj \<Longrightarrow> map_types obj' = map_types obj \<Longrightarrow> externs obj' = externs obj \<Longrightarrow>
     kconfig_map_idx obj' = kconfig_map_idx obj \<Longrightarrow> ef_elf (efile obj') = ef_elf (efile obj) \<Longrightarrow> keeps_relocs obj obj'"
  by (simp add: keeps_relocs_def relocs_ok_def)

lemma upd_map_types:
  "(\<And>m. m_libbpf_type (f m) = m_libbpf_type m) \<Longrightarrow> map_types (upd_map i f obj) = map_types obj"
  by (cases "i < length (maps obj)") (simp_all add: upd_map_def map_update list_update_same_conv list_update_beyond)

lemma upd_map_simps [simp]: "programs (upd_map i f obj) = programs obj" "externs (upd_map i f obj) = externs obj"
    "efile (upd_map i f obj) = efile obj" "kconfig_map_idx (upd_map i f obj) = kconfig_map_idx obj" "length (maps (upd_map i f obj)) = length (maps obj)"
  by (simp_all add: upd_map_def)

lemma collect_map_reloc_keeps: "collect_map_reloc alloc b sec e symbols data i obj = Inr obj' \<Longrightarrow> keeps_relocs obj obj'"
  unfolding collect_map_reloc_def Let_def
  by (elim rbind_InrE prodE) (auto simp: upd_map_types intro!: keeps_same_programs)

lemma collect_st_ops_reloc_keeps:
  assumes "collect_st_ops_reloc b e symbols data i obj = Inr obj'"
  shows "keeps_relocs obj obj'"
proof -
  obtain n s pi st k prog g j where f: "find_prog_by_sec_insn obj s n = Inr (Some pi)"
      and b: "bind_struct_ops st k (programs obj ! pi) = Inr prog"
      and obj': "obj' = upd_map j g (obj\<lparr>programs := (programs obj)[pi := prog]\<rparr>)" "\<And>m. m_libbpf_type (g m) = m_libbpf_type m"
    using assms by (auto simp: collect_st_ops_reloc_def result_simps Let_def)
  have "skeleton prog = skeleton (programs obj ! pi)" "p_relocs prog = p_relocs (programs obj ! pi)"
    using b by (auto simp: bind_struct_ops_def skeleton_def split: if_splits option.splits)
  then have "keeps_relocs obj (obj\<lparr>programs := (programs obj)[pi := prog]\<rparr>)"
    by (intro keeps_update [OF find_prog_bound [OF f]]) simp_all
  moreover have "keeps_relocs (obj\<lparr>programs := (programs obj)[pi := prog]\<rparr>) obj'"
    unfolding obj'(1) by (rule keeps_same_programs) (simp_all add: upd_map_types obj'(2))
  ultimately show ?thesis by (rule keeps_trans)
qed

lemma reloc_entries_keeps:
  assumes "\<And>i obj obj'. f i obj = Inr obj' \<Longrightarrow> keeps_relocs obj obj'" "reloc_entries f is obj = (r, obj')"
  shows "keeps_relocs obj obj'"
  using assms(2)
proof (induction "is" arbitrary: obj)
  case (Cons i "is")
  have "and_then (keep obj (f i obj)) (reloc_entries f is) = (r, obj')" using Cons.prems by simp
  then show ?case by (rule and_then_rel [where R = keeps_relocs]) (use keeps_trans Cons.IH assms(1) in \<open>auto simp: keep_eq\<close>)
qed simp

lemma collect_reloc_sect_keeps: "collect_reloc_sect alloc junk s obj = (r, obj') \<Longrightarrow> keeps_relocs obj obj'"
  using collect_prog_relos_keeps reloc_entries_keeps [OF collect_map_reloc_keeps] reloc_entries_keeps [OF collect_st_ops_reloc_keeps]
  by (auto simp: collect_reloc_sect_def bpf_object__collect_map_relos_def bpf_object__collect_st_ops_relos_def Let_def
      split: if_splits option.splits sum.splits prod.splits)

lemma collect_reloc_sects_keeps: "collect_reloc_sects alloc junk ss obj = (r, obj') \<Longrightarrow> keeps_relocs obj obj'"
proof (induction ss arbitrary: obj)
  case (Cons s ss)
  have "and_then (collect_reloc_sect alloc junk s obj) (collect_reloc_sects alloc junk ss) = (r, obj')" using Cons.prems by simp
  then show ?case by (rule and_then_rel [where R = keeps_relocs]) (use keeps_trans Cons.IH collect_reloc_sect_keeps in blast)+
qed simp

lemma sort_relocs_keeps: "keeps_relocs obj (sort_relocs obj)"
  by (auto simp: keeps_relocs_def sort_relocs_def relocs_ok_def skeleton_def)

lemma sort_relocs_sorted: "p \<in> set (programs (sort_relocs obj)) \<Longrightarrow> sorted (map reloc_key (p_relocs p))"
  by (auto simp: sort_relocs_def intro: relocs.sorted_qsort)

lemma collect_relos_keeps: "bpf_object__collect_relos alloc junk obj = (r, obj') \<Longrightarrow> keeps_relocs obj obj'"
  unfolding bpf_object__collect_relos_def
  by (erule and_then_rel [where R = keeps_relocs]) (use keeps_trans collect_reloc_sects_keeps sort_relocs_keeps in \<open>auto\<close>)

subsection \<open>Patching\<close>

text \<open>The instructions a descriptor changes: both halves of a 16-byte load, or its first half only.\<close>

definition reloc_at :: "reloc_desc \<Rightarrow> nat" where
  "reloc_at r = nat (rd_insn_idx r)"

definition reloc_extern :: "bpf_object \<Rightarrow> reloc_desc \<Rightarrow> extern_desc" where
  "reloc_extern obj r = externs obj ! nat (rd_sym_off r)"

definition is_wide :: "bpf_object \<Rightarrow> reloc_desc \<Rightarrow> bool" where
  "is_wide obj r \<longleftrightarrow> rd_type r = RELO_DATA \<or>
     (rd_type r = RELO_EXTERN \<and> (ext_type (reloc_extern obj r) = EXT_KCFG \<or> ksym_type_id (reloc_extern obj r) = 0))"

definition touched :: "bpf_object \<Rightarrow> reloc_desc \<Rightarrow> nat set" where
  "touched obj r =
     (if rd_type r = RELO_CALL then {} else if is_wide obj r then {reloc_at r, reloc_at r + 1} else {reloc_at r})"

definition fd_of :: "bpf_object \<Rightarrow> int \<Rightarrow> u32" where
  "fd_of obj i = of_int (m_fd (maps obj ! nat i))"

text \<open>What the two halves hold afterwards.\<close>

definition first_half :: "bpf_object \<Rightarrow> reloc_desc \<Rightarrow> bpf_insn \<Rightarrow> bpf_insn" where
  "first_half obj r insn =
     (let ext = reloc_extern obj r in
      case rd_type r of
        RELO_CALL \<Rightarrow> insn
      | RELO_LD64 \<Rightarrow> insn\<lparr>src_reg := BPF_PSEUDO_MAP_FD, imm := fd_of obj (rd_map_idx r)\<rparr>
      | RELO_DATA \<Rightarrow> insn\<lparr>src_reg := BPF_PSEUDO_MAP_VALUE, imm := fd_of obj (rd_map_idx r)\<rparr>
      | RELO_EXTERN \<Rightarrow>
          if ext_type ext = EXT_KCFG then insn\<lparr>src_reg := BPF_PSEUDO_MAP_VALUE, imm := fd_of obj (kconfig_map_idx obj)\<rparr>
          else if ksym_type_id ext \<noteq> 0 then insn\<lparr>src_reg := BPF_PSEUDO_BTF_ID, imm := of_int (ksym_vmlinux_btf_id ext)\<rparr>
          else insn\<lparr>imm := ucast (ksym_addr ext)\<rparr>)"

definition second_half :: "bpf_object \<Rightarrow> reloc_desc \<Rightarrow> bpf_insn \<Rightarrow> bpf_insn \<Rightarrow> bpf_insn" where
  "second_half obj r insn next =
     (let ext = reloc_extern obj r in
      if rd_type r = RELO_DATA then next\<lparr>imm := imm insn + of_int (rd_sym_off r)\<rparr>
      else if ext_type ext = EXT_KCFG then next\<lparr>imm := of_int (kcfg_data_off ext)\<rparr>
      else next\<lparr>imm := ucast (drop_bit 32 (ksym_addr ext))\<rparr>)"

definition patched :: "bpf_object \<Rightarrow> reloc_desc \<Rightarrow> bpf_insn list \<Rightarrow> bpf_insn list \<Rightarrow> bool" where
  "patched obj r is is' \<longleftrightarrow>
     rd_type r = RELO_CALL \<or>
     (is' ! reloc_at r = first_half obj r (is ! reloc_at r) \<and>
      (is_wide obj r \<longrightarrow> is' ! (reloc_at r + 1) = second_half obj r (is ! reloc_at r) (is ! (reloc_at r + 1))))"

text \<open>
  A reference the patching can follow: within the program, with a second half where it has one, to a map or
  extern of the object.
\<close>

definition patchable :: "bpf_object \<Rightarrow> bpf_insn list \<Rightarrow> reloc_desc \<Rightarrow> bool" where
  "patchable obj is r \<longleftrightarrow>
     0 \<le> rd_insn_idx r \<and> reloc_at r < length is \<and> (is_wide obj r \<longrightarrow> reloc_at r + 1 < length is) \<and>
     (rd_type r = RELO_LD64 \<or> rd_type r = RELO_DATA \<longrightarrow> 0 \<le> rd_map_idx r \<and> nat (rd_map_idx r) < length (maps obj)) \<and>
     (rd_type r = RELO_EXTERN \<longrightarrow> 0 \<le> rd_sym_off r \<and> nat (rd_sym_off r) < length (externs obj) \<and>
        (ext_type (reloc_extern obj r) = EXT_KCFG \<longrightarrow> 0 \<le> kconfig_map_idx obj \<and> nat (kconfig_map_idx obj) < length (maps obj)))"

lemma set_insn_ok: "i < length is \<Longrightarrow> set_insn i f is = Inr (is[i := f (is ! i)])"
  by (simp add: set_insn_def)

lemma map_fd_ok: "0 \<le> i \<Longrightarrow> nat i < length (maps obj) \<Longrightarrow> map_fd obj i = Inr (fd_of obj i)"
  by (simp add: map_fd_def fd_of_def array_get_def)

lemma relocate_one_ok:
  assumes "patchable obj is r"
  shows "\<exists>is'. relocate_one obj r is = Inr is' \<and> length is' = length is \<and> patched obj r is is' \<and>
     (\<forall>i. i \<notin> touched obj r \<longrightarrow> is' ! i = is ! i)"
proof -
  let ?i = "reloc_at r"
  have i: "0 \<le> rd_insn_idx r" "?i < length is" "insn_at is (rd_insn_idx r) = Inr (is ! ?i)"
    using assms by (simp_all add: patchable_def insn_at_def array_get_def reloc_at_def)
  show ?thesis
  proof (cases "rd_type r")
    case RELO_CALL
    then show ?thesis by (simp add: relocate_one_def patched_def)
  next
    case RELO_LD64
    then show ?thesis using assms i
      by (simp add: relocate_one_def patchable_def map_fd_ok set_insn_ok patched_def first_half_def touched_def is_wide_def
          flip: reloc_at_def)
  next
    case RELO_DATA
    then show ?thesis using assms i
      by (simp add: relocate_one_def patchable_def map_fd_ok set_insn_ok patched_def first_half_def second_half_def touched_def is_wide_def
          Let_def flip: reloc_at_def)
  next
    case RELO_EXTERN
    then have "array_get (externs obj) (nat (rd_sym_off r)) = Inr (reloc_extern obj r)" "0 \<le> rd_sym_off r"
      using assms by (simp_all add: patchable_def array_get_def reloc_extern_def)
    then show ?thesis using assms i RELO_EXTERN
      by (simp add: relocate_one_def relocate_extern_def patchable_def map_fd_ok set_insn_ok patched_def first_half_def second_half_def
          touched_def is_wide_def Let_def flip: reloc_at_def)
  qed
qed

lemma patched_cong:
  "(\<And>i. i \<in> touched obj r \<Longrightarrow> is ! i = js ! i) \<Longrightarrow> (\<And>i. i \<in> touched obj r \<Longrightarrow> is' ! i = js' ! i) \<Longrightarrow>
     patched obj r is is' \<Longrightarrow> patched obj r js js'"
  by (auto simp: patched_def touched_def split: if_splits)

lemma patchable_length: "patchable obj is r \<Longrightarrow> length js = length is \<Longrightarrow> patchable obj js r"
  by (simp add: patchable_def)

lemma relocate_data_loop_ok:
  assumes "\<forall>r \<in> set rs. patchable obj is r" "\<forall>i < length rs. \<forall>j < i. touched obj (rs ! i) \<inter> touched obj (rs ! j) = {}"
  shows "\<exists>is'. relocate_data_loop obj rs is = Inr is' \<and> length is' = length is \<and> (\<forall>r \<in> set rs. patched obj r is is') \<and>
     (\<forall>i. (\<forall>r \<in> set rs. i \<notin> touched obj r) \<longrightarrow> is' ! i = is ! i)"
  using assms
proof (induction rs arbitrary: "is")
  case (Cons r rs)
  obtain is1 where is1: "relocate_one obj r is = Inr is1" "length is1 = length is" "patched obj r is is1"
      "\<And>i. i \<notin> touched obj r \<Longrightarrow> is1 ! i = is ! i"
    using relocate_one_ok Cons.prems(1) by (metis list.set_intros(1))
  have apart: "touched obj q \<inter> touched obj r = {}" if q: "q \<in> set rs" for q
  proof -
    obtain n where "n < length rs" "rs ! n = q" using q by (auto simp: in_set_conv_nth)
    then show ?thesis using Cons.prems(2) [rule_format, of "Suc n" 0] by simp
  qed
  have "\<forall>q \<in> set rs. patchable obj is1 q" using Cons.prems(1) patchable_length is1(2) by fastforce
  moreover have "\<forall>i < length rs. \<forall>j < i. touched obj (rs ! i) \<inter> touched obj (rs ! j) = {}"
  proof (intro allI impI)
    fix i j
    assume "i < length rs" "j < i"
    then show "touched obj (rs ! i) \<inter> touched obj (rs ! j) = {}" using Cons.prems(2) [rule_format, of "Suc i" "Suc j"] by simp
  qed
  ultimately obtain is' where is': "relocate_data_loop obj rs is1 = Inr is'" "length is' = length is1"
      "\<And>q. q \<in> set rs \<Longrightarrow> patched obj q is1 is'" "\<And>i. (\<And>q. q \<in> set rs \<Longrightarrow> i \<notin> touched obj q) \<Longrightarrow> is' ! i = is1 ! i"
    using Cons.IH [of is1] by blast
  have keep_r: "is1 ! i = is' ! i" if "i \<in> touched obj r" for i
    by (rule is'(4) [symmetric]) (use apart that in blast)
  have keep_q: "is1 ! i = is ! i" if "q \<in> set rs" "i \<in> touched obj q" for i q
    by (rule is1(4)) (use apart that in blast)
  have "patched obj r is is'" by (rule patched_cong [OF refl keep_r is1(3)])
  moreover have "patched obj q is is'" if "q \<in> set rs" for q
    by (rule patched_cong [OF keep_q [OF that] refl is'(3) [OF that]])
  moreover have "is' ! i = is ! i" if "\<forall>q \<in> set (r # rs). i \<notin> touched obj q" for i
    using is'(4) [of i] is1(4) [of i] that by simp
  ultimately show ?case using is1(1,2) is'(1,2) by simp
qed simp

text \<open>The second half of a 16-byte load has the opcode 0.\<close>

definition loads_complete :: "bpf_insn list \<Rightarrow> bool" where
  "loads_complete is \<longleftrightarrow> (\<forall>k < length is. code (is ! k) = BPF_LD OR BPF_IMM OR BPF_DW \<longrightarrow> k + 1 < length is \<and> code (is ! (k + 1)) = 0)"

definition kconfig_ok :: "bpf_object \<Rightarrow> bool" where
  "kconfig_ok obj \<longleftrightarrow> (\<forall>ext \<in> set (externs obj). ext_type ext = EXT_KCFG \<longrightarrow>
     0 \<le> kconfig_map_idx obj \<and> nat (kconfig_map_idx obj) < length (maps obj))"

lemma reloc_ok_at:
  assumes "reloc_ok types n is r" "length is < 2 ^ 31"
  shows "0 \<le> rd_insn_idx r" "reloc_at r < length is" "code (is ! reloc_at r) \<noteq> 0"
    "rd_type r \<noteq> RELO_CALL \<Longrightarrow> code (is ! reloc_at r) = BPF_LD OR BPF_IMM OR BPF_DW"
proof -
  obtain k where k: "k < length is" "rd_insn_idx r = s32 k"
      "rd_type r = RELO_CALL \<Longrightarrow> code (is ! k) = BPF_JMP OR BPF_CALL"
      "rd_type r \<noteq> RELO_CALL \<Longrightarrow> code (is ! k) = BPF_LD OR BPF_IMM OR BPF_DW"
    using assms(1) unfolding reloc_ok_def by (cases "rd_type r") auto
  have s: "s32 k = int k" using k(1) assms(2) by (intro s32_small) simp
  then show "0 \<le> rd_insn_idx r" "reloc_at r < length is" using k by (simp_all add: reloc_at_def)
  show "code (is ! reloc_at r) \<noteq> 0"
    using k s by (cases "rd_type r = RELO_CALL")
      (simp_all add: reloc_at_def BPF_JMP_def BPF_CALL_def BPF_LD_def BPF_IMM_def BPF_DW_def)
  show "rd_type r \<noteq> RELO_CALL \<Longrightarrow> code (is ! reloc_at r) = BPF_LD OR BPF_IMM OR BPF_DW"
    using k s by (simp add: reloc_at_def)
qed

lemma reloc_ok_patchable:
  assumes "reloc_ok (map_types obj) (length (externs obj)) is r" "length is < 2 ^ 31" "loads_complete is" "kconfig_ok obj"
  shows "patchable obj is r"
proof -
  note at = reloc_ok_at [OF assms(1,2)]
  have "is_wide obj r \<Longrightarrow> reloc_at r + 1 < length is"
    using at(2,4) assms(3) by (auto simp: loads_complete_def is_wide_def)
  moreover have "rd_type r = RELO_LD64 \<or> rd_type r = RELO_DATA \<Longrightarrow> 0 \<le> rd_map_idx r \<and> nat (rd_map_idx r) < length (maps obj)"
    using assms(1) by (auto simp: reloc_ok_def)
  moreover have "rd_type r = RELO_EXTERN \<Longrightarrow> 0 \<le> rd_sym_off r \<and> nat (rd_sym_off r) < length (externs obj)"
    using assms(1) by (auto simp: reloc_ok_def)
  ultimately show ?thesis using at(1,2) assms(4) by (auto simp: patchable_def kconfig_ok_def reloc_extern_def)
qed

lemma touched_disjoint:
  assumes "reloc_ok types n is r" "reloc_ok types n is q" "length is < 2 ^ 31" "loads_complete is" "rd_insn_idx r \<noteq> rd_insn_idx q"
  shows "touched obj r \<inter> touched obj q = {}"
proof -
  note r = reloc_ok_at [OF assms(1,3)] and q = reloc_ok_at [OF assms(2,3)]
  have ne: "reloc_at r \<noteq> reloc_at q" using assms(5) r(1) q(1) by (simp add: reloc_at_def)
  have half: "reloc_at s + 1 \<noteq> reloc_at t" if "reloc_ok types n is s" "reloc_ok types n is t" "rd_type s \<noteq> RELO_CALL" for s t
  proof
    assume eq: "reloc_at s + 1 = reloc_at t"
    have "code (is ! (reloc_at s + 1)) = 0"
      using reloc_ok_at [OF that(1) assms(3)] that(3) assms(4) by (simp add: loads_complete_def)
    then show False using reloc_ok_at(3) [OF that(2) assms(3)] eq by simp
  qed
  show ?thesis using ne half [OF assms(1,2)] half [OF assms(2,1)] by (auto simp: touched_def split: if_splits)
qed

lemma relocate_data_result:
  assumes "\<forall>r \<in> set (p_relocs prog). reloc_ok (map_types obj) (length (externs obj)) (insns prog) r"
    and "distinct (map rd_insn_idx (p_relocs prog))" "length (insns prog) < 2 ^ 31" "loads_complete (insns prog)" "kconfig_ok obj"
  shows "\<exists>prog'. bpf_object__relocate_data obj prog = Inr prog' \<and> length (insns prog') = length (insns prog) \<and>
     (\<forall>r \<in> set (p_relocs prog). patched obj r (insns prog) (insns prog')) \<and>
     (\<forall>i. (\<forall>r \<in> set (p_relocs prog). i \<notin> touched obj r) \<longrightarrow> insns prog' ! i = insns prog ! i) \<and>
     (\<forall>r \<in> set (p_relocs prog'). rd_type r \<noteq> RELO_CALL \<longrightarrow> rd_processed r)"
proof -
  let ?rs = "p_relocs prog" and ?is = "insns prog"
  have "\<forall>r \<in> set ?rs. patchable obj ?is r" using reloc_ok_patchable assms by blast
  moreover have "\<forall>i < length ?rs. \<forall>j < i. touched obj (?rs ! i) \<inter> touched obj (?rs ! j) = {}"
  proof (intro allI impI)
    fix i j
    assume ij: "i < length ?rs" "j < i"
    then have "rd_insn_idx (?rs ! i) \<noteq> rd_insn_idx (?rs ! j)" using assms(2) by (auto simp: distinct_conv_nth)
    then show "touched obj (?rs ! i) \<inter> touched obj (?rs ! j) = {}"
      using assms(1) ij by (intro touched_disjoint [OF _ _ assms(3,4)]) auto
  qed
  ultimately obtain js where js: "relocate_data_loop obj ?rs ?is = Inr js" "length js = length ?is"
      "\<forall>r \<in> set ?rs. patched obj r ?is js" "\<forall>i. (\<forall>r \<in> set ?rs. i \<notin> touched obj r) \<longrightarrow> js ! i = ?is ! i"
    using relocate_data_loop_ok by blast
  then show ?thesis by (auto simp: bpf_object__relocate_data_def is_processed_by_data_def)
qed

text \<open>
  C18. Patching a program whose descriptors are in range, one per instruction, and whose 16-byte loads are
  complete: it succeeds; every referenced load gets the file descriptor of its map, the offset of its
  variable, or the extern's value in the halves the reference has; every other instruction stays as it is;
  and every descriptor but a call is marked as processed.
\<close>

theorem relocate_data_correct:
  assumes "\<forall>r \<in> set (p_relocs prog). reloc_ok (map_types obj) (length (externs obj)) (insns prog) r"
    and "distinct (map rd_insn_idx (p_relocs prog))" "length (insns prog) < 2 ^ 31" "loads_complete (insns prog)" "kconfig_ok obj"
  shows "\<exists>prog'. bpf_object__relocate_data obj prog = Inr prog' \<and> length (insns prog') = length (insns prog) \<and>
     (\<forall>r \<in> set (p_relocs prog). patched obj r (insns prog) (insns prog')) \<and>
     (\<forall>i. (\<forall>r \<in> set (p_relocs prog). i \<notin> touched obj r) \<longrightarrow> insns prog' ! i = insns prog ! i) \<and>
     (\<forall>r \<in> set (p_relocs prog'). rd_type r \<noteq> RELO_CALL \<longrightarrow> rd_processed r)"
  using relocate_data_result [OF assms] .

text \<open>Patching depends on the maps and externs of the object only.\<close>

lemma relocate_one_programs: "relocate_one (obj\<lparr>programs := ps\<rparr>) r is = relocate_one obj r is"
proof -
  have m: "map_fd (obj\<lparr>programs := ps\<rparr>) = map_fd obj" by (simp add: map_fd_def fun_eq_iff)
  have "relocate_extern (obj\<lparr>programs := ps\<rparr>) ext i js = relocate_extern obj ext i js" for ext i js
    by (simp add: relocate_extern_def m)
  then show ?thesis by (cases "rd_type r") (simp_all add: relocate_one_def m Let_def)
qed

lemma relocate_data_programs: "bpf_object__relocate_data (obj\<lparr>programs := ps\<rparr>) p = bpf_object__relocate_data obj p"
proof -
  have "relocate_data_loop (obj\<lparr>programs := ps\<rparr>) rs is = relocate_data_loop obj rs is" for rs "is"
  proof (induction rs arbitrary: "is")
    case (Cons r rs)
    have "relocate_data_loop (obj\<lparr>programs := ps\<rparr>) rs = relocate_data_loop obj rs" using Cons.IH by (simp add: fun_eq_iff)
    then show ?case by (simp add: relocate_one_programs)
  qed simp
  then show ?thesis by (simp add: bpf_object__relocate_data_def)
qed

text \<open>A program of three instructions, the load of map 1 at offset 4 and an exit.\<close>

definition ex_load :: "bpf_program" where
  "ex_load = (ex_prog ''f'' 0 [ex_insn 0x18 1 0 2, ex_insn 0 0 0 0, ex_insn 0x95 0 0 0])\<lparr>p_relocs := [\<lparr>rd_type = RELO_DATA, rd_insn_idx = 0, rd_map_idx = 1, rd_sym_off = 4, rd_processed = False\<rparr>]\<rparr>"

definition ex_maps :: bpf_object where
  "ex_maps = ex_obj\<lparr>maps := [map_new\<lparr>m_fd := 0\<rparr>, map_new\<lparr>m_fd := 1, m_libbpf_type := LIBBPF_MAP_DATA\<rparr>]\<rparr>"

theorem relocate_data_correct_witness:
  "\<exists>prog'. bpf_object__relocate_data ex_maps ex_load = Inr prog' \<and> insns prog' ! 0 = ex_insn 0x18 1 2 1 \<and>
     insns prog' ! 1 = ex_insn 0 0 0 6 \<and> insns prog' ! 2 = ex_insn 0x95 0 0 0"
proof -
  let ?r = "\<lparr>rd_type = RELO_DATA, rd_insn_idx = 0, rd_map_idx = 1, rd_sym_off = 4, rd_processed = False\<rparr>"
  have "reloc_ok (map_types ex_maps) (length (externs ex_maps)) (insns ex_load) ?r"
    by (simp add: reloc_ok_def ex_load_def ex_prog_def ex_maps_def ex_insn_def BPF_LD_def BPF_IMM_def BPF_DW_def s32_def exI [of _ 0])
  moreover have "loads_complete (insns ex_load)" "kconfig_ok ex_maps"
    by (simp_all add: loads_complete_def ex_load_def ex_prog_def ex_insn_def less_Suc_eq BPF_LD_def BPF_IMM_def BPF_DW_def kconfig_ok_def
        ex_maps_def ex_obj_eq)
  ultimately obtain q where q: "bpf_object__relocate_data ex_maps ex_load = Inr q" "patched ex_maps ?r (insns ex_load) (insns q)"
      "\<forall>i. i \<notin> touched ex_maps ?r \<longrightarrow> insns q ! i = insns ex_load ! i"
    using relocate_data_correct [of ex_load ex_maps] by (auto simp: ex_load_def ex_prog_def)
  then show ?thesis
    by (auto simp: patched_def reloc_at_def first_half_def second_half_def is_wide_def touched_def fd_of_def ex_load_def ex_prog_def ex_maps_def
        ex_insn_def BPF_PSEUDO_MAP_VALUE_def)
qed

text \<open>
  C33. A reference to data in the last instruction of a program, which the collection accepts, makes the
  patching write behind the instructions.
\<close>

theorem relocate_data_behind_end:
  assumes "bpf_program__record_reloc obj prog junk (length (insns prog) - 1) sy rel = Inr r" "rd_type r = RELO_DATA"
    "length (insns prog) \<le> 2 ^ 31"
  shows "bpf_object__relocate_data obj' (prog\<lparr>p_relocs := r # rs\<rparr>) = Inl OOB"
proof -
  obtain k where k: "length (insns prog) = Suc k"
    using assms(1) by (cases "insns prog") (auto simp: bpf_program__record_reloc_def array_get_def)
  have "rd_insn_idx r = s32 k"
    using assms(1,2) k
    by (auto simp: bpf_program__record_reloc_def array_get_def fail_def record_call_def record_extern_def record_map_def record_data_def Let_def
        split: if_splits option.splits)
  then have "rd_insn_idx r = int k" using k assms(3) by (simp add: s32_small)
  then have "relocate_one obj' r (insns prog) = Inl OOB"
    using assms(2) k by (simp add: relocate_one_def insn_at_def array_get_def set_insn_def Let_def)
  then show ?thesis by (simp add: bpf_object__relocate_data_def)
qed

definition ex_fresh :: reloc_desc where
  "ex_fresh = \<lparr>rd_type = RELO_CALL, rd_insn_idx = 0, rd_map_idx = 77, rd_sym_off = 0, rd_processed = True\<rparr>"

theorem relocate_data_behind_end_witness:
  "\<exists>r. bpf_program__record_reloc (ex_maps\<lparr>efile := (efile ex_obj)\<lparr>data_shndx := 5\<rparr>\<rparr>)
         (ex_load\<lparr>insns := [ex_insn 0x18 1 0 2]\<rparr>) ex_fresh 0 (ex_sym 8 0x11 5 4 4) \<lparr>r_offset = 0, r_info = 0\<rparr> = Inr r \<and>
       rd_type r = RELO_DATA \<and> bpf_object__relocate_data ex_maps (ex_load\<lparr>insns := [ex_insn 0x18 1 0 2], p_relocs := [r]\<rparr>) = Inl OOB"
proof -
  let ?r = "\<lparr>rd_type = RELO_DATA, rd_insn_idx = 0, rd_map_idx = 1, rd_sym_off = 4, rd_processed = False\<rparr>"
  have r: "bpf_program__record_reloc (ex_maps\<lparr>efile := (efile ex_obj)\<lparr>data_shndx := 5\<rparr>\<rparr>)
         (ex_load\<lparr>insns := [ex_insn 0x18 1 0 2]\<rparr>) ex_fresh 0 (ex_sym 8 0x11 5 4 4) \<lparr>r_offset = 0, r_info = 0\<rparr> = Inr ?r"
    by (simp add: bpf_program__record_reloc_def array_get_def ex_insn_def BPF_JMP_def BPF_CALL_def BPF_LD_def BPF_IMM_def BPF_DW_def
        ex_sym_def sym_is_extern_def elf_consts bpf_object__section_to_libbpf_map_type_def ex_maps_def record_data_def
        bpf_object__shndx_is_data_def find_map_of_type_def map_new_def ex_fresh_def s32_def Let_def)
  then show ?thesis
    using relocate_data_behind_end [of "ex_maps\<lparr>efile := (efile ex_obj)\<lparr>data_shndx := 5\<rparr>\<rparr>"
        "ex_load\<lparr>insns := [ex_insn 0x18 1 0 2]\<rparr>" ex_fresh "ex_sym 8 0x11 5 4 4" "\<lparr>r_offset = 0, r_info = 0\<rparr>" ?r ex_maps "[]"]
    by simp
qed

end
