(* ===== verification/Extract_Facts.thy ===== *)
theory Extract_Facts
  imports Extract Reloc_Facts
begin

text \<open>
  The extractor as a whole: what holds of every object that opens, and what the files written for it contain.
\<close>

subsection \<open>An opened object\<close>

text \<open>The creation of maps changes the maps of an object and nothing the programs depend on.\<close>

definition adds_maps :: "bpf_object \<Rightarrow> bpf_object \<Rightarrow> bool" where
  "adds_maps obj obj' \<longleftrightarrow>
     programs obj' = programs obj \<and> externs obj' = externs obj \<and> kconfig_map_idx obj' = kconfig_map_idx obj \<and>
     ef_elf (efile obj') = ef_elf (efile obj) \<and> length (maps obj) \<le> length (maps obj')"

lemma adds_maps_refl [simp]: "adds_maps obj obj"
  by (simp add: adds_maps_def)

lemma adds_maps_trans: "adds_maps a b \<Longrightarrow> adds_maps b c \<Longrightarrow> adds_maps a c"
  by (simp add: adds_maps_def)

lemma adds_maps_upd: "adds_maps obj (upd_map i f obj') = adds_maps obj obj'"
  by (simp add: adds_maps_def upd_map_def)

lemma add_map_adds: "bpf_object__add_map alloc obj = Inr (i, obj') \<Longrightarrow> adds_maps obj obj'"
  by (auto simp: bpf_object__add_map_def adds_maps_def Let_def result_simps split: if_splits)

lemmas and_then_adds = and_then_rel [where R = adds_maps, OF _ adds_maps_trans]

lemma init_user_map_adds: "init_user_map alloc d n sy obj = (r, obj') \<Longrightarrow> adds_maps obj obj'"
  by (auto simp: init_user_map_def Let_def adds_maps_upd dest!: add_map_adds split: sum.splits option.splits prod.splits if_splits)

lemma init_user_maps_loop_adds: "init_user_maps_loop alloc d n syms obj = (r, obj') \<Longrightarrow> adds_maps obj obj'"
proof (induction syms arbitrary: obj)
  case (Cons sy syms)
  have "and_then (init_user_map alloc d n sy obj) (init_user_maps_loop alloc d n syms) = (r, obj')" using Cons.prems by simp
  then show ?case by (rule and_then_adds) (use Cons.IH init_user_map_adds in blast)+
qed simp

lemma init_user_maps_adds: "bpf_object__init_user_maps alloc obj = (r, obj') \<Longrightarrow> adds_maps obj obj'"
  using init_user_maps_loop_adds
  by (auto simp: bpf_object__init_user_maps_def Let_def split: option.splits if_splits)

lemma init_user_btf_map_adds: "bpf_object__init_user_btf_map alloc b sec i d s pin obj = (r, obj') \<Longrightarrow> adds_maps obj obj'"
  by (auto simp: bpf_object__init_user_btf_map_def Let_def adds_maps_upd dest!: add_map_adds split: sum.splits prod.splits if_splits)

lemma init_user_btf_maps_loop_adds: "init_user_btf_maps_loop alloc b sec d s pin is obj = (r, obj') \<Longrightarrow> adds_maps obj obj'"
proof (induction "is" arbitrary: obj)
  case (Cons i "is")
  have "and_then (bpf_object__init_user_btf_map alloc b sec i d s pin obj) (init_user_btf_maps_loop alloc b sec d s pin is) = (r, obj')"
    using Cons.prems by simp
  then show ?case by (rule and_then_adds) (use Cons.IH init_user_btf_map_adds in blast)+
qed simp

lemma init_user_btf_maps_adds: "bpf_object__init_user_btf_maps alloc s pin obj = (r, obj') \<Longrightarrow> adds_maps obj obj'"
  by (auto simp: bpf_object__init_user_btf_maps_def dest!: init_user_btf_maps_loop_adds
      simp: adds_maps_def upd_efile_def split: option.splits sum.splits prod.splits if_splits)

lemma init_internal_map_adds: "bpf_object__init_internal_map alloc pg ty si dat n obj = (r, obj') \<Longrightarrow> adds_maps obj obj'"
  by (auto simp: bpf_object__init_internal_map_def Let_def adds_maps_upd dest!: add_map_adds split: sum.splits prod.splits option.splits if_splits)

lemma data_map_adds: "data_map alloc pg ty w shndx d obj = (r, obj') \<Longrightarrow> adds_maps obj obj'"
  using init_internal_map_adds by (auto simp: data_map_def split: option.splits if_splits)

lemma init_global_data_maps_adds: "bpf_object__init_global_data_maps alloc pg obj = (r, obj') \<Longrightarrow> adds_maps obj obj'"
  unfolding bpf_object__init_global_data_maps_def
  by (elim and_then_adds; (erule and_then_adds)?) (auto dest: data_map_adds simp: adds_maps_def)

lemma init_struct_ops_map_adds: "init_struct_ops_map alloc b v obj = (r, obj') \<Longrightarrow> adds_maps obj obj'"
  by (auto simp: init_struct_ops_map_def Let_def adds_maps_upd dest!: add_map_adds split: sum.splits prod.splits option.splits if_splits)

lemma init_struct_ops_loop_adds: "init_struct_ops_loop alloc b vs obj = (r, obj') \<Longrightarrow> adds_maps obj obj'"
proof (induction vs arbitrary: obj)
  case (Cons v vs)
  have "and_then (init_struct_ops_map alloc b v obj) (init_struct_ops_loop alloc b vs) = (r, obj')" using Cons.prems by simp
  then show ?case by (rule and_then_adds) (use Cons.IH init_struct_ops_map_adds in blast)+
qed simp

lemma init_struct_ops_maps_adds: "bpf_object__init_struct_ops_maps alloc obj = (r, obj') \<Longrightarrow> adds_maps obj obj'"
  using init_struct_ops_loop_adds
  by (auto simp: bpf_object__init_struct_ops_maps_def split: option.splits sum.splits if_splits)

lemma init_kconfig_map_ok:
  assumes "bpf_object__init_kconfig_map alloc pg obj = (Inr (), obj')"
  shows "kconfig_ok obj' \<and> programs obj' = programs obj \<and> externs obj' = externs obj \<and> ef_elf (efile obj') = ef_elf (efile obj)"
proof (cases "last_kcfg (externs obj)")
  case None
  then have "obj' = obj" "\<forall>ext \<in> set (externs obj). ext_type ext \<noteq> EXT_KCFG"
    using assms by (auto simp: bpf_object__init_kconfig_map_def last_kcfg_def filter_empty_conv split: list.splits)
  then show ?thesis by (simp add: kconfig_ok_def)
next
  case (Some x)
  then obtain obj1 where i: "bpf_object__init_internal_map alloc pg LIBBPF_MAP_KCONFIG (symbols_shndx (efile obj)) None
        (nat (int32 (kcfg_data_off x + kcfg_sz x) mod 2 ^ 64)) obj = (Inr (), obj1)" "obj' = obj1\<lparr>kconfig_map_idx := int (length (maps obj1)) - 1\<rparr>"
    using assms by (auto simp: bpf_object__init_kconfig_map_def and_then_def split: prod.splits sum.splits)
  have "length (maps obj1) = Suc (length (maps obj))"
    using i(1) by (auto simp: bpf_object__init_internal_map_def bpf_object__add_map_def upd_map_def Let_def result_simps
        split: sum.splits prod.splits if_splits)
  then show ?thesis using i(2) init_internal_map_adds [OF i(1)] by (simp add: kconfig_ok_def adds_maps_def)
qed

lemma init_maps_ok:
  assumes "bpf_object__init_maps env opts obj = (Inr (), obj')"
  shows "kconfig_ok obj' \<and> programs obj' = programs obj \<and> externs obj' = externs obj \<and> ef_elf (efile obj') = ef_elf (efile obj)"
proof -
  obtain o1 o2 o3 o4 where o: "bpf_object__init_user_maps (env_alloc env) obj = (Inr (), o1)"
      "bpf_object__init_user_btf_maps (env_alloc env) (\<not> relaxed_maps opts) (pin_root_path opts) o1 = (Inr (), o2)"
      "bpf_object__init_global_data_maps (env_alloc env) (env_page_sz env) o2 = (Inr (), o3)"
      "bpf_object__init_kconfig_map (env_alloc env) (env_page_sz env) o3 = (Inr (), o4)"
      "bpf_object__init_struct_ops_maps (env_alloc env) o4 = (Inr (), obj')"
    using assms by (auto simp: bpf_object__init_maps_def Let_def and_then_Inr)
  note adds = init_user_maps_adds [OF o(1)] init_user_btf_maps_adds [OF o(2)] init_global_data_maps_adds [OF o(3)]
    init_struct_ops_maps_adds [OF o(5)]
  show ?thesis using adds init_kconfig_map_ok [OF o(4)] by (auto simp: adds_maps_def kconfig_ok_def)
qed

lemma collect_externs_programs: "bpf_object__collect_externs alloc obj = Inr obj' \<Longrightarrow> programs obj' = programs obj \<and> efile obj' = efile obj"
  by (auto simp: bpf_object__collect_externs_def place_all_def Let_def result_simps split: option.splits sum.splits prod.splits if_splits)

lemma finalize_btf_programs: "bpf_object__finalize_btf obj = Inr obj' \<Longrightarrow> programs obj' = programs obj \<and> efile obj' = efile obj"
  by (auto simp: bpf_object__finalize_btf_def result_simps split: option.splits)

lemma elf_init_ok:
  "bpf_object__elf_init file obj = (Inr (), obj') \<Longrightarrow>
     programs obj' = programs obj \<and> (\<exists>fd0 e. file = Inr (fd0, Some e) \<and> ef_elf (efile obj') = Some e)"
  by (auto simp: bpf_object__elf_init_def Let_def split: if_splits sum.splits prod.splits option.splits)

lemma elf_finish_facts:
  "programs (bpf_object__elf_finish obj) = programs obj" "externs (bpf_object__elf_finish obj) = externs obj"
  "maps (bpf_object__elf_finish obj) = maps obj" "kconfig_map_idx (bpf_object__elf_finish obj) = kconfig_map_idx obj"
  "ef_elf (efile obj) \<noteq> None \<Longrightarrow> ef_reloc_sects (efile (bpf_object__elf_finish obj)) = []"
  by (simp_all add: bpf_object__elf_finish_def upd_efile_def obj_elf_valid_def)

lemma set_sec_def_facts [simp]: "skeleton (set_sec_def p) = skeleton p" "p_relocs (set_sec_def p) = p_relocs p" "insns (set_sec_def p) = insns p"
    "p_sec_name (set_sec_def p) = p_sec_name p" "sec_insn_cnt (set_sec_def p) = sec_insn_cnt p"
  by (simp_all add: set_sec_def_def skeleton_def split: option.split)

definition opened :: "bpf_object \<Rightarrow> bool" where
  "opened obj \<longleftrightarrow> ef_reloc_sects (efile obj) = [] \<and> progs_wf (programs obj) \<and> relocs_ok obj \<and> kconfig_ok obj \<and> (\<forall>p \<in> set (programs obj). sorted (map reloc_key (p_relocs p)))"

definition small_file :: "env \<Rightarrow> string \<Rightarrow> bool" where
  "small_file env path \<longleftrightarrow>
     (\<forall>fd0 e scn d. env_file env path = Inr (fd0, Some e) \<longrightarrow> elf_getdata e scn = Some d \<longrightarrow> d_size d < 2 ^ 63)"

lemma kconfig_ok_keeps:
  assumes "keeps_relocs obj obj'" "kconfig_ok obj"
  shows "kconfig_ok obj'"
proof -
  have "length (maps obj') = length (maps obj)" using assms(1) by (metis keeps_relocs_def length_map)
  then show ?thesis using assms by (simp add: kconfig_ok_def keeps_relocs_def)
qed

lemma elf_init_new:
  assumes "bpf_object__new alloc kver path nm = Inr obj0" "bpf_object__elf_init (env_file env path) obj0 = (Inr (), obj)" "small_file env path"
  shows "programs obj = []" "small_sections obj" "ef_elf (efile obj) \<noteq> None"
proof -
  obtain fd0 e where e: "programs obj = programs obj0" "env_file env path = Inr (fd0, Some e)" "ef_elf (efile obj) = Some e"
    using elf_init_ok [OF assms(2)] by blast
  show "programs obj = []" using e(1) assms(1) by (auto simp: bpf_object__new_def result_simps)
  show "small_sections obj" using e assms(3) by (auto simp: small_sections_def small_file_def elf_sec_data_def)
  show "ef_elf (efile obj) \<noteq> None" using e by simp
qed

definition collected_opened :: "bpf_object \<Rightarrow> bool" where
  "collected_opened obj \<longleftrightarrow> ef_elf (efile obj) \<noteq> None \<and> progs_wf (programs obj) \<and> relocs_ok obj \<and> kconfig_ok obj \<and>
     (\<forall>p \<in> set (programs obj). sorted (map reloc_key (p_relocs p)))"

lemma open_steps_opened:
  assumes new: "bpf_object__new (env_alloc env) (env_kver env) path nm = Inr obj0"
    and run: "open_steps env opts path obj0 = (Inr (), obj)" and small: "small_file env path"
    and alloc: "bounded_alloc (env_alloc env)"
  shows "collected_opened obj"
proof -
  obtain o1 o2 o3 o4 o5 where o: "bpf_object__elf_init (env_file env path) obj0 = (Inr (), o1)"
      "bpf_object__elf_collect (env_alloc env) o1 = (Inr (), o2)" "bpf_object__collect_externs (env_alloc env) o2 = Inr o3"
      "bpf_object__finalize_btf o3 = Inr o4" "bpf_object__init_maps env opts o4 = (Inr (), o5)"
      "bpf_object__collect_relos (env_alloc env) (env_junk env) o5 = (Inr (), obj)"
    using run by (auto simp: open_steps_def and_then_Inr keep_eq)
  note o1 = elf_init_new [OF new o(1) small]
  have o2: "ef_elf (efile o2) \<noteq> None \<and> progs_wf (programs o2) \<and> (\<forall>p \<in> set (programs o2). p_relocs p = [])"
    using elf_collect_result [OF o(2) o1(1) alloc o1(2)] o1(3) by (auto simp: program_of_def same_file_def)
  note o5 = init_maps_ok [OF o(5)]
  have p5: "programs o5 = programs o2"
    using o5 finalize_btf_programs [OF o(4)] collect_externs_programs [OF o(3)] by simp
  then have ok5: "relocs_ok o5" using o2 by (simp add: relocs_ok_def)
  note keeps = collect_relos_keeps [OF o(6)]
  obtain o6 where o6: "obj = sort_relocs o6"
    using o(6) by (auto simp: bpf_object__collect_relos_def and_then_Inr)
  have "progs_wf (programs obj)" using progs_wf_skeleton [of "programs obj" "programs o5"] keeps p5 o2 by (simp add: keeps_relocs_def)
  moreover have "relocs_ok obj" using keeps ok5 by (simp add: keeps_relocs_def)
  moreover have "kconfig_ok obj" using kconfig_ok_keeps [OF keeps] o5 by blast
  moreover have "ef_elf (efile obj) \<noteq> None"
    using keeps o5 finalize_btf_programs [OF o(4)] collect_externs_programs [OF o(3)] o2 by (simp add: keeps_relocs_def)
  ultimately show ?thesis using sort_relocs_sorted o6 by (simp add: collected_opened_def)
qed

lemma opened_finish:
  assumes "collected_opened obj"
  shows "opened (bpf_object__elf_finish obj\<lparr>programs := map set_sec_def (programs (bpf_object__elf_finish obj))\<rparr>)"
proof -
  have "progs_wf (map set_sec_def (programs obj))"
    by (rule progs_wf_skeleton [of _ "programs obj"]) (use assms in \<open>simp_all add: collected_opened_def\<close>)
  then show ?thesis using assms by (auto simp: opened_def collected_opened_def relocs_ok_def kconfig_ok_def elf_finish_facts simp del: not_None_eq)
qed

lemma open_result:
  assumes "bpf_object__open env opts path = Inr obj" "bounded_alloc (env_alloc env)" "small_file env path"
  shows "opened obj"
proof -
  obtain obj0 where new: "bpf_object__new (env_alloc env) (env_kver env) path (object_name opts) = Inr obj0"
    using assms(1) by (auto simp: bpf_object__open_def result_simps)
  obtain r obj1 where run: "open_steps env opts path obj0 = (r, obj1)" by (cases "open_steps env opts path obj0")
  have o: "r = Inr ()" "obj = bpf_object__elf_finish obj1\<lparr>programs := map set_sec_def (programs (bpf_object__elf_finish obj1))\<rparr>"
    using assms(1) new run by (auto simp: bpf_object__open_def Let_def split: sum.splits)
  show ?thesis unfolding o(2) by (rule opened_finish [OF open_steps_opened [OF new run [unfolded o(1)] assms(3,2)]])
qed

text \<open>
  C9. Every object that opens is consistent: its programs are ordered and disjoint, every descriptor of a
  program refers to one of its instructions and to a map or extern of the object, the descriptors are sorted
  by instruction, and a Kconfig extern has the map that holds its value.
\<close>

theorem open_consistent:
  assumes "bpf_object__open env opts path = Inr obj" "bounded_alloc (env_alloc env)" "small_file env path"
  shows "opened obj"
  using open_result [OF assms] .

definition ex_env :: env where
  "ex_env = \<lparr>env_alloc = ex_alloc, env_kver = 0, env_page_sz = 4096, env_junk = ex_fresh,
     env_file = (\<lambda>path. if path = ''x.o'' then Inr (3, Some ex_elf) else Inl ENOENT), env_writable = (\<lambda>_. True)\<rparr>"

lemma ex_env_facts: "bounded_alloc (env_alloc ex_env)" "small_file ex_env ''x.o''"
  using ex_alloc ex_small
  by (simp_all add: ex_env_def small_file_def small_sections_def elf_sec_data_def ex_obj_eq)

lemma ex_elf_init: "bpf_object__new ex_alloc 0 ''x.o'' None = Inr obj0 \<Longrightarrow> bpf_object__elf_init (Inr (3, Some ex_elf)) obj0 = (Inr (), ex_obj)"
  by (auto simp: ex_obj_eq bpf_object__new_def ex_alloc_def bpf_object__elf_init_def efile_new_def obj_elf_valid_def
      upd_efile_def Let_def elf_consts BPF_OBJ_NAME_LEN_def basename_def)

lemmas ex_obj2_eval = ex_obj2_def ex_obj_eq efile_new_def

lemma ex_externs: "bpf_object__collect_externs ex_alloc ex_obj2 = Inr ex_obj2" "bpf_object__finalize_btf ex_obj2 = Inr ex_obj2"
  by (simp_all add: bpf_object__collect_externs_def elf_lookups elf_consts ex_file ex_obj2_eval nr_rels_def s32_def upt_rec sym_is_extern_def
      deref_def bpf_object__finalize_btf_def)

definition ex_data_map :: bpf_map where
  "ex_data_map = map_new\<lparr>m_name := Some ''x.data'', m_sec_idx := 5, m_libbpf_type := LIBBPF_MAP_DATA,
     m_def := \<lparr>def_type = 2, key_size = 4, value_size = 4, max_entries = 1, map_flags = 1024\<rparr>,
     m_mmaped := Some ([1, 2, 3, 4] @ replicate 4092 0)\<rparr>"

definition ex_obj3 :: bpf_object where
  "ex_obj3 = ex_obj2\<lparr>maps := [ex_data_map], maps_cap := 4\<rparr>"

lemma ex_init_maps: "bpf_object__init_maps ex_env no_opts ex_obj2 = (Inr (), ex_obj3)"
  by (simp add: bpf_object__init_maps_def no_opts_def bpf_object__init_user_maps_def ex_obj2_eval ex_env_def and_then_def
      bpf_object__init_user_btf_maps_def bpf_object__init_global_data_maps_def data_map_def bpf_object__init_internal_map_def
      bpf_object__add_map_def libbpf_reallocarray_def ex_alloc_def sizeof_bpf_map_def internal_map_name_def BPF_OBJ_NAME_LEN_def
      isalnum_def upd_map_def map_new_def ex_data_def bpf_map_mmap_sz_def roundup_def Let_def
      bpf_object__init_kconfig_map_def last_kcfg_def bpf_object__init_struct_ops_maps_def ex_obj3_def ex_data_map_def
      BPF_MAP_TYPE_ARRAY_def BPF_F_MMAPABLE_def)

definition ex_reloc :: reloc_desc where
  "ex_reloc = \<lparr>rd_type = RELO_DATA, rd_insn_idx = 0, rd_map_idx = 0, rd_sym_off = 0, rd_processed = False\<rparr>"

definition ex_obj4 :: bpf_object where
  "ex_obj4 = ex_obj3\<lparr>programs := [ex_f\<lparr>p_relocs := [ex_reloc]\<rparr>, ex_g]\<rparr>"

lemma ex_find: "find_prog_by_sec_insn ex_obj3 3 0 = Inr (Some 0)"
  by (simp add: find_prog_by_sec_insn_def ex_obj3_def ex_progs prog_search.simps ex_f_def ex_g_def ex_prog_def array_get_def
      prog_contains_insn_def)

lemma ex_obj3_simps [simp]:
  "programs ex_obj3 = [ex_f, ex_g]" "maps ex_obj3 = [ex_data_map]" "externs ex_obj3 = []"
  "ef_elf (efile ex_obj3) = Some ex_elf" "ef_symbols (efile ex_obj3) = Some (ex_data 96 (replicate 96 0))"
  "ef_shstrndx (efile ex_obj3) = 1" "ef_strtabidx (efile ex_obj3) = 1"
  "ef_reloc_sects (efile ex_obj3) = [(ex_shdr 4 SHT_REL 0 16 2 3 16, ex_data 16 (replicate 16 0))]"
  "st_ops_shndx (efile ex_obj3) = -1" "btf_maps_shndx (efile ex_obj3) = -1" "maps_shndx (efile ex_obj3) = -1"
  "data_shndx (efile ex_obj3) = 5" "bss_shndx (efile ex_obj3) = -1" "rodata_shndx (efile ex_obj3) = -1" "symbols_shndx (efile ex_obj3) = 2"
  by (simp_all add: ex_obj3_def ex_obj2_eval)

lemma ex_record: "bpf_program__record_reloc ex_obj3 ex_f ex_fresh 0 (ex_sym 8 0x11 5 0 4) rel = Inr ex_reloc"
  by (simp add: bpf_program__record_reloc_def array_get_def ex_f_def ex_prog_def ex_insn_def BPF_JMP_def BPF_CALL_def BPF_LD_def
      BPF_IMM_def BPF_DW_def ex_sym_def sym_is_extern_def elf_consts bpf_object__section_to_libbpf_map_type_def record_data_def
      bpf_object__shndx_is_data_def find_map_of_type_def ex_data_map_def map_new_def ex_fresh_def s32_def ex_reloc_def)

lemma ex_entry: "collect_reloc_entry ex_alloc ex_fresh ex_elf (ex_data 96 (replicate 96 0)) (ex_data 16 (replicate 16 0)) 3 0 ex_obj3 = Inr ex_obj4"
  by (simp add: collect_reloc_entry_def GELF_R_SYM_def BPF_INSN_SZ_def ex_find libbpf_reallocarray_def ex_alloc_def sizeof_reloc_desc_def
      ex_record add_reloc_def ex_obj4_def) (simp add: ex_f_def ex_prog_def libbpf_reallocarray_def ex_alloc_def ex_record)

lemma ex_relos: "bpf_object__collect_relos ex_alloc ex_fresh ex_obj3 = (Inr (), ex_obj4)"
proof -
  have "qsort cmp_relocs (p_relocs ex_g) = p_relocs ex_g" by (simp add: ex_g_def ex_prog_def)
  then show ?thesis
    by (simp add: bpf_object__collect_relos_def and_then_def collect_reloc_sect_def ex_shdr_def s32_def SHT_REL_def
      bpf_object__collect_prog_relos_def elf_sec_str_def elf_str_def elf_sec_name_def elf_sec_hdr_def elf_sec_by_idx_def nr_rels_def ex_entry
      sort_relocs_def ex_obj4_def)
qed

definition ex_opened :: bpf_object where
  "ex_opened = bpf_object__elf_finish ex_obj4\<lparr>programs := map set_sec_def (programs (bpf_object__elf_finish ex_obj4))\<rparr>"

lemma ex_endian: "bpf_object__check_endianness ex_obj = Inr ()"
  by (simp add: bpf_object__check_endianness_def ex_obj_eq efile_new_def elf_consts)

lemma ex_new: "\<exists>obj0. bpf_object__new ex_alloc 0 ''x.o'' None = Inr obj0"
  by (simp add: bpf_object__new_def ex_alloc_def basename_def BPF_OBJ_NAME_LEN_def)

lemma ex_open_steps:
  assumes "bpf_object__new ex_alloc 0 ''x.o'' None = Inr obj0"
  shows "open_steps ex_env no_opts ''x.o'' obj0 = (Inr (), ex_obj4)"
  by (simp add: open_steps_def ex_env_def ex_elf_init [OF assms] and_then_def ex_endian ex_collect keep_def ex_externs
      ex_init_maps [unfolded ex_env_def] ex_relos)

lemma ex_open: "bpf_object__open ex_env no_opts ''x.o'' = Inr ex_opened"
proof -
  obtain obj0 where new: "bpf_object__new ex_alloc 0 ''x.o'' None = Inr obj0" using ex_new by blast
  moreover have "env_alloc ex_env = ex_alloc" "env_kver ex_env = 0" "object_name no_opts = None" by (simp_all add: ex_env_def no_opts_def)
  ultimately show ?thesis by (simp add: bpf_object__open_def ex_open_steps [OF new] ex_opened_def Let_def)
qed

theorem open_consistent_witness: "bpf_object__open ex_env no_opts ''x.o'' = Inr ex_opened \<and> opened ex_opened"
  using open_consistent [OF ex_open ex_env_facts] ex_open by blast

end
