(* ===== verification/Extract_Files.thy ===== *)
theory Extract_Files
  imports Extract_Facts
begin

text \<open>
  What the extractor writes: the contents of every output file in terms of the patched programs, and that
  the text form of the instructions loses nothing.
\<close>

subsection \<open>Decimal numbers\<close>

lemma digits_char: "c \<in> set (digits n) \<Longrightarrow> of_char c \<in> {48..<58 :: nat}"
proof (induction n rule: digits.induct)
  case (1 n)
  then show ?case by (subst (asm) digits.simps) (auto split: if_splits)
qed

definition of_digits :: "string \<Rightarrow> nat" where
  "of_digits s = foldl (\<lambda>n c. n * 10 + (of_char c - 48)) 0 s"

lemma of_digits_digits [simp]: "of_digits (digits n) = n"
proof (induction n rule: digits.induct)
  case (1 n)
  then show ?case by (subst digits.simps) (auto simp: of_digits_def)
qed

lemma digits_nonempty: "digits n \<noteq> []"
  by (subst digits.simps) simp

lemma digits_inj: "digits m = digits n \<longleftrightarrow> m = n"
  by (metis of_digits_digits)

lemma minus_not_digit: "CHR ''-'' \<notin> set (digits n)"
  using digits_char [of "CHR ''-''" n] by auto

lemma fmt_d_inj: "fmt_d i = fmt_d j \<longleftrightarrow> i = j"
proof -
  have "digits m \<noteq> ''-'' @ s" for m s using minus_not_digit [of m] by (metis append_Cons list.set_intros(1))
  then show ?thesis by (auto simp: fmt_d_def digits_inj dest: sym)
qed

lemma fmt_d_chars: "c \<in> set (fmt_d i) \<Longrightarrow> c \<noteq> CHR '' '' \<and> c \<noteq> CHR ''}'' \<and> c \<noteq> CHR 0x0A"
proof -
  have "c = CHR ''-'' \<or> of_char c \<in> {48..<58 :: nat}" if "c \<in> set (fmt_d i)"
    using that digits_char by (auto simp: fmt_d_def split: if_splits)
  then show "c \<in> set (fmt_d i) \<Longrightarrow> c \<noteq> CHR '' '' \<and> c \<noteq> CHR ''}'' \<and> c \<noteq> CHR 0x0A" by auto
qed

text \<open>A field ends at the first character that is in no number.\<close>

lemma field_ends:
  assumes "x \<notin> set s" "x \<notin> set t" "s @ x # r = t @ x # q"
  shows "s = t \<and> r = q"
  using assms by (induction s arbitrary: t) (auto simp: Cons_eq_append_conv)

lemma field_inj:
  assumes "fmt_d i @ x # r = fmt_d j @ x # q" "x = CHR '' '' \<or> x = CHR ''}''"
  shows "i = j \<and> r = q"
  using field_ends [OF _ _ assms(1)] fmt_d_chars [of x] assms(2) fmt_d_inj by blast

lemma insn_line_inj:
  assumes "insn_line i @ r = insn_line j @ q"
  shows "i = j \<and> r = q"
proof -
  let ?u = "\<lambda>w. fmt_d (int (unat w))" and ?s = "\<lambda>w. fmt_d (sint w)"
  have 1: "?u (code i) @ CHR '' '' # ?u (src_reg i) @ CHR '' '' # ?u (dst_reg i) @ CHR '' '' # ?s (off i) @ CHR '' '' # ?s (imm i) @ CHR ''}'' # newline @ r
      = ?u (code j) @ CHR '' '' # ?u (src_reg j) @ CHR '' '' # ?u (dst_reg j) @ CHR '' '' # ?s (off j) @ CHR '' '' # ?s (imm j) @ CHR ''}'' # newline @ q"
    using assms by (simp add: insn_line_def)
  note 2 = field_inj [OF 1, simplified]
  note 3 = field_inj [OF conjunct2 [OF 2], simplified]
  note 4 = field_inj [OF conjunct2 [OF 3], simplified]
  note 5 = field_inj [OF conjunct2 [OF 4], simplified]
  note 6 = field_inj [OF conjunct2 [OF 5], simplified]
  have "off i = off j" "imm i = imm j" using 5 6 by (auto intro: signed_word_eqI)
  moreover have "code i = code j" "src_reg i = src_reg j" "dst_reg i = dst_reg j" using 2 3 4 by (simp_all add: word_uint_eq_iff)
  moreover have "r = q" using 6 by (simp add: newline_def)
  ultimately show ?thesis by simp
qed

definition txt_of :: "bpf_insn list \<Rightarrow> string" where
  "txt_of is = concat (map insn_line is)"

lemma insn_line_nonempty: "insn_line i \<noteq> []"
  by (simp add: insn_line_def)

lemma txt_of_inj: "txt_of is = txt_of js \<longleftrightarrow> is = js"
proof (induction "is" arbitrary: js)
  case Nil
  then show ?case by (cases js) (auto simp: txt_of_def insn_line_nonempty)
next
  case (Cons i "is")
  show ?case
  proof (cases js)
    case Nil
    then show ?thesis by (simp add: txt_of_def insn_line_nonempty)
  next
    case (Cons j js')
    then show ?thesis using insn_line_inj [of i "txt_of is" j "txt_of js'"] Cons.IH [of js'] by (auto simp: txt_of_def)
  qed
qed

subsection \<open>The files of a program\<close>

definition out_file :: "bpf_program \<Rightarrow> string \<Rightarrow> string" where
  "out_file p suffix = map slash_to_dash (p_sec_name p) @ suffix"

definition rel_of :: "reloc_desc list \<Rightarrow> string" where
  "rel_of rs = concat (map (\<lambda>(i, r). reloc_line i r) (enumerate 0 rs))"

definition maps_of :: "bpf_map list \<Rightarrow> string" where
  "maps_of ms = concat (map map_line ms)"

lemma snprintf_short: "length s \<le> 127 \<Longrightarrow> snprintf128 s = s"
  by (simp add: snprintf128_def)

lemma fold_fputs: "f \<in> dom fs \<Longrightarrow> fold (\<lambda>x. fputs f (line x)) xs fs = fs(f \<mapsto> the (fs f) @ concat (map line xs))"
proof (induction xs arbitrary: fs)
  case (Cons x xs)
  then have "f \<in> dom (fputs f (line x) fs)" by (simp add: fputs_def)
  note IH = Cons.IH [OF this]
  show ?case by (simp add: IH) (auto simp: fputs_def)
qed auto

lemma write_insns_loop_eq:
  assumes "f \<noteq> g" "f \<in> dom fs" "g \<in> dom fs"
  shows "write_insns_loop f g is fs =
    fs(f \<mapsto> the (fs f) @ map byte_char (encode_insns is), g \<mapsto> the (fs g) @ txt_of is)"
  using assms(2,3)
proof (induction "is" arbitrary: fs)
  case Nil
  then show ?case by (auto simp: txt_of_def encode_insns_def)
next
  case (Cons i "is")
  let ?fs = "fputs g (insn_line i) (fputs f (map byte_char (insn_bytes i)) fs)"
  have "f \<in> dom ?fs" "g \<in> dom ?fs" by (simp_all add: fputs_def)
  note IH = Cons.IH [OF this]
  show ?case using assms(1) by (simp add: IH) (auto simp: fputs_def txt_of_def encode_insns_def)
qed


text \<open>The files of a patched program, in the order they are written.\<close>

definition add_files :: "bpf_object \<Rightarrow> bpf_program \<Rightarrow> files \<Rightarrow> files" where
  "add_files obj p fs = fs(
     out_file p ''.insns'' \<mapsto> map byte_char (encode_insns (insns p)), out_file p ''.txt'' \<mapsto> txt_of (insns p),
     out_file p ''.rel'' \<mapsto> rel_of (p_relocs p), out_file p ''.maps'' \<mapsto> maps_of (maps obj))"

definition outputs_open :: "env \<Rightarrow> bool" where
  "outputs_open env \<longleftrightarrow> env_alloc env 128 \<and> (\<forall>f. env_writable env f)"

definition name_fits :: "bpf_program \<Rightarrow> bool" where
  "name_fits p \<longleftrightarrow> length (p_sec_name p) \<le> 121"

lemma fix_progname_fits: "name_fits p \<Longrightarrow> fix_progname (p_sec_name p) = Inr (map slash_to_dash (p_sec_name p))"
  by (simp add: fix_progname_def name_fits_def)

lemma out_file_fits: "name_fits p \<Longrightarrow> length suffix \<le> 6 \<Longrightarrow> snprintf128 (map slash_to_dash (p_sec_name p) @ suffix) = out_file p suffix"
  by (simp add: out_file_def snprintf_short name_fits_def)

definition suffixes :: "string list" where
  "suffixes = [''.insns'', ''.txt'', ''.rel'', ''.maps'']"

lemma out_file_eq:
  assumes "s \<in> set suffixes" "t \<in> set suffixes" "out_file p s = out_file q t"
  shows "s = t \<and> map slash_to_dash (p_sec_name p) = map slash_to_dash (p_sec_name q)"
proof -
  have "rev s @ rev (map slash_to_dash (p_sec_name p)) = rev t @ rev (map slash_to_dash (p_sec_name q))"
    using arg_cong [OF assms(3), of rev] by (simp add: out_file_def)
  then show ?thesis using assms(1,2) by (auto simp: suffixes_def)
qed

lemma out_files_differ: "s \<in> set suffixes \<Longrightarrow> t \<in> set suffixes \<Longrightarrow> s \<noteq> t \<Longrightarrow> out_file p s \<noteq> out_file p t"
  using out_file_eq by blast

lemma write_insns_ok:
  assumes "outputs_open env" "name_fits p" "sec_insn_cnt p = length (insns p)"
  shows "write_insns env (p_sec_name p) (sec_insn_cnt p) (insns p) fs =
    Inr (fs(out_file p ''.insns'' \<mapsto> map byte_char (encode_insns (insns p)), out_file p ''.txt'' \<mapsto> txt_of (insns p)))"
proof -
  have "out_file p ''.insns'' \<noteq> out_file p ''.txt''" by (rule out_files_differ) (simp_all add: suffixes_def)
  then show ?thesis
    using assms(1,3) by (auto simp: write_insns_def fix_progname_fits [OF assms(2)] out_file_fits [OF assms(2)] fopen_w_def
        outputs_open_def write_insns_loop_eq Let_def)
qed

lemma write_relocs_ok:
  assumes "outputs_open env" "name_fits p"
  shows "write_relocs env (p_sec_name p) rs fs = Inr (fs(out_file p ''.rel'' \<mapsto> rel_of rs))"
proof -
  let ?f = "out_file p ''.rel''"
  have "fold (\<lambda>(i, r). fputs ?f (reloc_line i r)) xs = fold (\<lambda>x. fputs ?f (case x of (i, r) \<Rightarrow> reloc_line i r)) xs" for xs
    by (simp add: case_prod_unfold)
  then show ?thesis
    using assms(1) by (simp add: write_relocs_def fix_progname_fits [OF assms(2)] out_file_fits [OF assms(2)] fopen_w_def
        outputs_open_def fold_fputs Let_def rel_of_def)
qed

lemma write_maps_ok:
  assumes "outputs_open env" "name_fits p"
  shows "write_maps env (p_sec_name p) ms fs = Inr (fs(out_file p ''.maps'' \<mapsto> maps_of ms))"
  using assms(1) by (simp add: write_maps_def fix_progname_fits [OF assms(2)] out_file_fits [OF assms(2)] fopen_w_def
        outputs_open_def fold_fputs Let_def maps_of_def)

lemma relocate_data_frame:
  "bpf_object__relocate_data obj p = Inr q \<Longrightarrow> p_sec_name q = p_sec_name p \<and> sec_insn_cnt q = sec_insn_cnt p"
  by (auto simp: bpf_object__relocate_data_def result_simps)

lemma extract_program_ok:
  assumes "outputs_open env" "name_fits p" "bpf_object__relocate_data obj p = Inr q" "sec_insn_cnt p = length (insns q)"
  shows "extract_program env (length qs) (obj\<lparr>programs := qs @ p # ps\<rparr>, fs) =
    Inr (obj\<lparr>programs := qs @ q # ps\<rparr>, add_files obj q fs)"
proof -
  have q: "name_fits q" "sec_insn_cnt q = length (insns q)" "p_sec_name q = p_sec_name p"
    using relocate_data_frame [OF assms(3)] assms(2,4) by (simp_all add: name_fits_def)
  note w = write_insns_ok [OF assms(1) q(1,2)] write_relocs_ok [OF assms(1) q(1)] write_maps_ok [OF assms(1) q(1)]
  show ?thesis
    by (simp add: extract_program_def relocate_data_programs assms(3) w add_files_def)
qed

definition extractable :: "bpf_object \<Rightarrow> bpf_program \<Rightarrow> bpf_program \<Rightarrow> bool" where
  "extractable obj p q \<longleftrightarrow> name_fits p \<and> bpf_object__relocate_data obj p = Inr q \<and> sec_insn_cnt p = length (insns q)"

lemma extract_programs_ok:
  assumes "outputs_open env" "list_all2 (extractable obj) ps qs"
  shows "extract_programs env [length ds ..< length ds + length ps] (obj\<lparr>programs := ds @ ps\<rparr>, fs) =
    Inr (obj\<lparr>programs := ds @ qs\<rparr>, fold (add_files obj) qs fs)"
  using assms(2)
proof (induction ps qs arbitrary: ds fs rule: list_all2_induct)
  case (Cons p ps q qs)
  have up: "[length ds ..< length ds + length (p # ps)] = length ds # [length (ds @ [q]) ..< length (ds @ [q]) + length ps]"
    by (subst upt_rec) simp
  have p: "name_fits p" "bpf_object__relocate_data obj p = Inr q" "sec_insn_cnt p = length (insns q)"
    using Cons.hyps(1) by (simp_all add: extractable_def)
  have "extract_programs env [length (ds @ [q]) ..< length (ds @ [q]) + length ps] (obj\<lparr>programs := ds @ q # ps\<rparr>, add_files obj q fs) =
      Inr (obj\<lparr>programs := ds @ q # qs\<rparr>, fold (add_files obj) qs (add_files obj q fs))"
    using Cons.IH [of "ds @ [q]" "add_files obj q fs"] by simp
  then show ?case
    unfolding up by (simp add: extract_program_ok [OF assms(1) p])
qed simp

definition same_name :: "bpf_program \<Rightarrow> bpf_program \<Rightarrow> bool" where
  "same_name p q \<longleftrightarrow> map slash_to_dash (p_sec_name p) = map slash_to_dash (p_sec_name q)"

lemma add_files_other:
  assumes "s \<in> set suffixes" "\<not> same_name p q"
  shows "add_files obj q fs (out_file p s) = fs (out_file p s)"
proof -
  have "out_file p s \<noteq> out_file q t" if "t \<in> set suffixes" for t
    using out_file_eq [OF assms(1) that] assms(2) by (auto simp: same_name_def)
  note this [of "''.insns''"] this [of "''.txt''"] this [of "''.rel''"] this [of "''.maps''"]
  then show ?thesis by (simp add: add_files_def suffixes_def)
qed

lemma add_files_own:
  "add_files obj p fs (out_file p ''.insns'') = Some (map byte_char (encode_insns (insns p)))"
  "add_files obj p fs (out_file p ''.txt'') = Some (txt_of (insns p))"
  "add_files obj p fs (out_file p ''.rel'') = Some (rel_of (p_relocs p))"
  "add_files obj p fs (out_file p ''.maps'') = Some (maps_of (maps obj))"
  using out_files_differ [of _ _ p] by (simp_all add: add_files_def suffixes_def)

lemma last_files:
  assumes "s \<in> set suffixes" "\<forall>q \<in> set qs. \<not> same_name p q"
  shows "fold (add_files obj) qs fs (out_file p s) = fs (out_file p s)"
  using assms(2) by (induction qs arbitrary: fs) (simp_all add: add_files_other [OF assms(1)])

subsection \<open>The whole extraction\<close>

definition well_formed_code :: "bpf_program \<Rightarrow> bool" where
  "well_formed_code p \<longleftrightarrow> distinct (map rd_insn_idx (p_relocs p)) \<and> length (insns p) < 2 ^ 31 \<and> loads_complete (insns p) \<and> name_fits p"

definition holds_files :: "bpf_object \<Rightarrow> bpf_program \<Rightarrow> files \<Rightarrow> bool" where
  "holds_files obj p fs \<longleftrightarrow>
     fs (out_file p ''.insns'') = Some (map byte_char (encode_insns (insns p))) \<and>
     fs (out_file p ''.txt'') = Some (txt_of (insns p)) \<and>
     fs (out_file p ''.rel'') = Some (rel_of (p_relocs p)) \<and>
     fs (out_file p ''.maps'') = Some (maps_of (maps obj))"

lemma number_maps_simps [simp]: "programs (number_maps obj) = programs obj" "externs (number_maps obj) = externs obj"
    "efile (number_maps obj) = efile obj" "kconfig_map_idx (number_maps obj) = kconfig_map_idx obj"
    "length (maps (number_maps obj)) = length (maps obj)"
  by (simp_all add: number_maps_def)

lemma number_maps_types: "map_types (number_maps obj) = map_types obj"
  by (rule nth_equalityI) (simp_all add: number_maps_def nth_enumerate_eq)

lemma sort_relocs_id:
  assumes "opened obj" "\<forall>p \<in> set (programs obj). well_formed_code p"
  shows "sort_relocs (number_maps obj) = number_maps obj"
proof -
  have "qsort cmp_relocs (p_relocs p) = p_relocs p" if "p \<in> set (programs obj)" for p
  proof (rule relocs.qsort_sorted)
    show "sorted (map reloc_key (p_relocs p))" using assms(1) that by (simp add: opened_def)
    have "distinct (map rd_insn_idx (p_relocs p))" using assms(2) that by (simp add: well_formed_code_def)
    then show "distinct (map reloc_key (p_relocs p))" by (auto simp: distinct_map inj_on_def reloc_key_def)
  qed simp
  then have "map (\<lambda>p. p\<lparr>p_relocs := qsort cmp_relocs (p_relocs p)\<rparr>) (programs obj) = programs obj" by (simp add: map_idI)
  then show ?thesis by (simp add: sort_relocs_def number_maps_def)
qed

lemma opened_extractable:
  assumes "opened obj" "\<forall>p \<in> set (programs obj). well_formed_code p"
  shows "\<exists>qs. list_all2 (extractable (number_maps obj)) (programs obj) qs"
proof -
  have k: "kconfig_ok (number_maps obj)" using assms(1) by (simp add: opened_def kconfig_ok_def)
  have "\<exists>q. extractable (number_maps obj) p q" if "p \<in> set (programs obj)" for p
  proof -
    have p: "distinct (map rd_insn_idx (p_relocs p))" "length (insns p) < 2 ^ 31" "loads_complete (insns p)" "name_fits p"
      using assms(2) that by (simp_all add: well_formed_code_def)
    have "\<forall>r \<in> set (p_relocs p). reloc_ok (map_types (number_maps obj)) (length (externs (number_maps obj))) (insns p) r"
      using assms(1) that by (simp add: opened_def relocs_ok_def number_maps_types)
    then obtain q where "bpf_object__relocate_data (number_maps obj) p = Inr q" "length (insns q) = length (insns p)"
      using relocate_data_result [OF _ p(1-3) k] by blast
    then show ?thesis using assms(1) that p(4) by (auto simp: extractable_def opened_def progs_wf_def)
  qed
  then have "\<forall>i < length (programs obj). \<exists>q. extractable (number_maps obj) (programs obj ! i) q" by simp
  then obtain f where "\<forall>i < length (programs obj). extractable (number_maps obj) (programs obj ! i) (f i)" by metis
  then have "list_all2 (extractable (number_maps obj)) (programs obj) (map f [0..<length (programs obj)])"
    by (simp add: list_all2_conv_all_nth)
  then show ?thesis by blast
qed

lemma fold_files:
  assumes "i < length qs" "\<forall>j. i < j \<and> j < length qs \<longrightarrow> \<not> same_name (qs ! i) (qs ! j)"
  shows "holds_files obj (qs ! i) (fold (add_files obj) qs fs)"
proof -
  have qs: "qs = take i qs @ qs ! i # drop (Suc i) qs" by (rule id_take_nth_drop [OF assms(1)])
  have "\<not> same_name (qs ! i) q" if q: "q \<in> set (drop (Suc i) qs)" for q
  proof -
    obtain k where "k < length (drop (Suc i) qs)" "drop (Suc i) qs ! k = q" using q unfolding in_set_conv_nth by blast
    then show ?thesis using spec [OF assms(2), of "Suc i + k"] by auto
  qed
  then have other: "fold (add_files obj) (drop (Suc i) qs) fs' (out_file (qs ! i) s) = fs' (out_file (qs ! i) s)"
    if "s \<in> set suffixes" for s fs'
    using last_files [OF that] by blast
  have "fold (add_files obj) qs fs = fold (add_files obj) (drop (Suc i) qs) (add_files obj (qs ! i) (fold (add_files obj) (take i qs) fs))"
    by (subst qs) simp
  then show ?thesis using other by (simp add: holds_files_def add_files_own suffixes_def)
qed

lemma open_no_OOB: "extract_file env path fs =
  (case bpf_object__open env no_opts path of
     Inl e \<Rightarrow> if e = OOB \<or> e = NONTERM then Inl e else Inr (1, fs)
   | Inr obj \<Rightarrow>
      (case bpf_object__collect_relos (env_alloc env) (env_junk env) (number_maps obj) of
         (r, obj1) \<Rightarrow> if r = Inl OOB then Inl OOB
           else rbind (extract_programs env [0..<length (programs obj1)] (obj1, fs)) (\<lambda>(obj2, fs'). Inr (0, fs'))))"
  by (simp add: extract_file_def bpf_object__open_file_def)

lemma extract_result:
  assumes "bpf_object__open env no_opts path = Inr obj" "bounded_alloc (env_alloc env)" "small_file env path"
    "\<forall>p \<in> set (programs obj). well_formed_code p" "outputs_open env"
  shows "\<exists>qs. list_all2 (extractable (number_maps obj)) (programs obj) qs \<and>
    extract_file env path fs = Inr (0, fold (add_files (number_maps obj)) qs fs)"
proof -
  let ?obj = "number_maps obj"
  have op: "opened obj" using open_result [OF assms(1-3)] .
  obtain qs where qs: "list_all2 (extractable ?obj) (programs obj) qs" using opened_extractable [OF op assms(4)] by blast
  have "bpf_object__collect_relos (env_alloc env) (env_junk env) ?obj = (Inr (), ?obj)"
    using op sort_relocs_id [OF op assms(4)] by (simp add: bpf_object__collect_relos_def opened_def and_then_def)
  moreover have "extract_programs env [0..<length (programs obj)] (?obj, fs) = Inr (?obj\<lparr>programs := qs\<rparr>, fold (add_files ?obj) qs fs)"
    using extract_programs_ok [OF assms(5) qs, of "[]" fs] by (simp add: number_maps_def)
  ultimately show ?thesis using assms(1) qs by (intro exI [of _ qs]) (simp add: open_no_OOB)
qed

text \<open>
  C11. The extraction of an object file that opens, whose code is well formed, with output files that can be
  written, succeeds. It patches every program, and the files named after a section hold the instructions
  (as bytes and as text), the descriptors and the maps of the last program with that section name.
\<close>

theorem extract_correct:
  assumes "bpf_object__open env no_opts path = Inr obj" "bounded_alloc (env_alloc env)" "small_file env path"
    "\<forall>p \<in> set (programs obj). well_formed_code p" "outputs_open env"
  shows "\<exists>qs fs'. extract_file env path fs = Inr (0, fs') \<and>
    list_all2 (\<lambda>p q. bpf_object__relocate_data (number_maps obj) p = Inr q) (programs obj) qs \<and>
    (\<forall>i < length qs. (\<forall>j. i < j \<and> j < length qs \<longrightarrow> \<not> same_name (qs ! i) (qs ! j)) \<longrightarrow>
       holds_files (number_maps obj) (qs ! i) fs')"
proof -
  obtain qs where qs: "list_all2 (extractable (number_maps obj)) (programs obj) qs"
      "extract_file env path fs = Inr (0, fold (add_files (number_maps obj)) qs fs)"
    using extract_result [OF assms] by blast
  have "list_all2 (\<lambda>p q. bpf_object__relocate_data (number_maps obj) p = Inr q) (programs obj) qs"
    using qs(1) by (rule list_all2_mono) (simp add: extractable_def)
  then show ?thesis using qs(2) fold_files by blast
qed

lemma ex_programs: "programs ex_opened = [set_sec_def (ex_f\<lparr>p_relocs := [ex_reloc]\<rparr>), set_sec_def ex_g]"
  by (simp add: ex_opened_def elf_finish_facts ex_obj4_def)

lemma ex_well_formed: "\<forall>p \<in> set (programs ex_opened). well_formed_code p"
  by (simp add: ex_programs well_formed_code_def name_fits_def loads_complete_def ex_f_def ex_g_def ex_prog_def ex_insn_def
      less_Suc_eq BPF_LD_def BPF_IMM_def BPF_DW_def)

lemma ex_outputs: "outputs_open ex_env"
  by (simp add: outputs_open_def ex_env_def ex_alloc_def)

theorem extract_correct_witness:
  "\<exists>fs'. extract_file ex_env ''x.o'' Map.empty = Inr (0, fs') \<and>
     fs' ''xdp.insns'' = Some (map byte_char [0x95, 0, 0, 0, 7, 0, 0, 0]) \<and> fs' ''xdp.txt'' = Some (''{149 0 0 0 7}'' @ newline)"
proof -
  obtain qs fs' where run: "extract_file ex_env ''x.o'' Map.empty = Inr (0, fs')"
      and qs: "list_all2 (\<lambda>p q. bpf_object__relocate_data (number_maps ex_opened) p = Inr q) (programs ex_opened) qs"
      and files: "\<forall>i < length qs. (\<forall>j. i < j \<and> j < length qs \<longrightarrow> \<not> same_name (qs ! i) (qs ! j)) \<longrightarrow>
        holds_files (number_maps ex_opened) (qs ! i) fs'"
    using extract_correct [OF ex_open ex_env_facts ex_well_formed ex_outputs] by blast
  obtain f g where fg: "qs = [f, g]" "bpf_object__relocate_data (number_maps ex_opened) (set_sec_def ex_g) = Inr g"
    using qs by (auto simp: ex_programs list_all2_Cons1)
  have g: "insns g = insns ex_g" "p_sec_name g = ''xdp''"
    using fg(2) by (auto simp: bpf_object__relocate_data_def ex_g_def ex_prog_def)
  have "holds_files (number_maps ex_opened) g fs'" using spec [OF files, of 1] fg(1) by (auto simp: less_Suc_eq)
  then show ?thesis using run g
    by (simp add: holds_files_def out_file_def slash_to_dash_def ex_g_def ex_prog_def ex_insn_def encode_insns_def insn_bytes_def
        le16_def le32_def txt_of_def insn_line_def fmt_d_def digits.simps char_of_def bit_Suc_0_iff)
qed

text \<open>
  What \<^verbatim>\<open>write_insns\<close> writes loses nothing. It succeeds only with as many instructions as it is asked for; the
  binary file then holds bytes that decode to these instructions, the text file their lines in their order, no other file
  is touched, and the text files of two calls are the same exactly if the instructions are. (A section name of 121
  characters at most leaves room for the suffix.)
\<close>

definition name_file :: "string \<Rightarrow> string \<Rightarrow> string" where
  "name_file name suffix = map slash_to_dash name @ suffix"

lemma write_insns_result:
  assumes "write_insns env name n is fs = Inr fs'" "length name \<le> 121"
  shows "n \<le> length is \<and> fs' = fs(name_file name ''.insns'' \<mapsto> map byte_char (encode_insns (take n is)),
    name_file name ''.txt'' \<mapsto> txt_of (take n is))"
proof -
  have nm: "fix_progname name = Inr (map slash_to_dash name)" using assms(2) by (simp add: fix_progname_def)
  have short: "snprintf128 (map slash_to_dash name @ ''.insns'') = name_file name ''.insns''"
    "snprintf128 (map slash_to_dash name @ ''.txt'') = name_file name ''.txt''"
    using assms(2) by (simp_all add: snprintf_short name_file_def)
  have ne: "name_file name ''.insns'' \<noteq> name_file name ''.txt''" by (simp add: name_file_def)
  show ?thesis using assms(1) ne
    by (auto simp: write_insns_def nm short Let_def rbind_Inr_iff guard_def fopen_w_def write_insns_loop_eq split: if_splits)
qed

theorem write_insns_lossless:
  assumes "write_insns env name n is fs = Inr fs'" "length name \<le> 121" "\<forall>i \<in> set (take n is). regs_ok i"
  shows "n \<le> length is \<and>
    (\<exists>bs. fs' (name_file name ''.insns'') = Some (map byte_char bs) \<and> decode_insns bs = take n is) \<and>
    fs' (name_file name ''.txt'') = Some (concat (map insn_line (take n is))) \<and>
    (\<forall>f. f \<notin> {name_file name ''.insns'', name_file name ''.txt''} \<longrightarrow> fs' f = fs f) \<and>
    (\<forall>env2 name2 m js gs gs'. write_insns env2 name2 m js gs = Inr gs' \<and> length name2 \<le> 121 \<longrightarrow>
       (fs' (name_file name ''.txt'') = gs' (name_file name2 ''.txt'') \<longleftrightarrow> take n is = take m js))"
proof -
  note R = write_insns_result [OF assms(1,2)]
  have ne: "name_file name ''.insns'' \<noteq> name_file name ''.txt''" by (simp add: name_file_def)
  have text_file: "fs' (name_file name ''.txt'') = Some (txt_of (take n is))" using R by simp
  have same: "fs' (name_file name ''.txt'') = gs' (name_file name2 ''.txt'') \<longleftrightarrow> take n is = take m js"
    if "write_insns env2 name2 m js gs = Inr gs'" "length name2 \<le> 121" for env2 name2 m js gs gs'
    using write_insns_result [OF that] text_file txt_of_inj by simp
  have "fs' (name_file name ''.insns'') = Some (map byte_char (encode_insns (take n is)))"
    "\<forall>f. f \<notin> {name_file name ''.insns'', name_file name ''.txt''} \<longrightarrow> fs' f = fs f" "n \<le> length is"
    using R ne by auto
  moreover have "decode_insns (encode_insns (take n is)) = take n is" using decode_encode assms(3) by blast
  ultimately show ?thesis using same text_file unfolding txt_of_def by blast
qed

theorem write_insns_lossless_witness:
  "\<exists>fs'. write_insns ex_env ''xdp/a'' 1 [ex_insn 0x95 0 0 7, ex_insn 0x18 0 0 0] Map.empty = Inr fs' \<and>
     fs' ''xdp-a.txt'' = Some (insn_line (ex_insn 0x95 0 0 7))"
proof -
  have ne: "''xdp-a.insns'' \<noteq> ''xdp-a.txt''" by simp
  obtain fs' where w: "write_insns ex_env ''xdp/a'' 1 [ex_insn 0x95 0 0 7, ex_insn 0x18 0 0 0] Map.empty = Inr fs'"
    using ex_outputs
    by (simp add: write_insns_def fix_progname_def slash_to_dash_def fopen_w_def outputs_open_def Let_def)
  have "\<forall>i \<in> set (take 1 [ex_insn 0x95 0 0 7, ex_insn 0x18 0 0 0]). regs_ok i" by (simp add: regs_ok_def ex_insn_def)
  from write_insns_lossless [OF w _ this] w show ?thesis by (simp add: name_file_def slash_to_dash_def)
qed

end
