(* ===== verification/Subprogs.thy ===== *)
theory Subprogs
  imports User_Maps
begin

text \<open>
  Linking of sub-programs (\<^verbatim>\<open>libbpf.c\<close>, lines 6186 to 6615). The sub-programs a main program calls, directly
  or not, are appended to it, each once, and every call is redirected to its place in the result; function
  and line information follows the code. Programs are named by their index in the object, so that the
  aliasing of the main program, the program in work and the called one is that of the C pointers.
\<close>

subsection \<open>Function and line information\<close>

text \<open>
  The information of a program: its records, their number and their size. \<open>NULL\<close> is the empty list: a
  buffer is only allocated for at least one record.
\<close>

type_synonym prog_info = "u8 list \<times> u32 \<times> u32"

text \<open>
  The records of a section for the instructions from \<open>lo\<close> to \<open>hi\<close>: the walk skips those below and stops at the
  first one behind. The result is the place of the first and the end of the last.
\<close>

fun copied_range :: "u8 list \<Rightarrow> nat \<Rightarrow> nat \<Rightarrow> nat \<Rightarrow> nat list \<Rightarrow> (nat \<times> nat) option \<Rightarrow> (nat \<times> nat) option result" where
  "copied_range data rec_size lo hi [] rng = Inr rng"
| "copied_range data rec_size lo hi (r # rs) rng =
     rbind (read_u32 data r) (\<lambda>byte_off.
     let insn_off = unat byte_off div 8 in
     if insn_off < lo then copied_range data rec_size lo hi rs rng
     else if insn_off \<ge> hi then Inr rng
     else copied_range data rec_size lo hi rs
            (Some (case rng of None \<Rightarrow> r | Some (copy_start, _) \<Rightarrow> copy_start, r + rec_size)))"

definition append_records :: "alloc \<Rightarrow> u8 list \<Rightarrow> btf_ext_info \<Rightarrow> u32 \<Rightarrow> nat \<Rightarrow> nat \<Rightarrow> prog_info \<Rightarrow> prog_info result" where
  "append_records alloc data ext_info off_adj copy_start copy_end = (\<lambda>(prog_info, prog_rec_cnt, _).
     let rs = unat (ei_rec_size ext_info); old_sz = unat prog_rec_cnt * rs; copied = copy_end - copy_start; new_sz = old_sz + copied in
     rbind (guard (alloc new_sz) ENOMEM) (\<lambda>_.
     rbind (guard (rs > 0 \<and> length prog_info = old_sz \<and> copy_end \<le> length data) OOB) (\<lambda>_.
     rbind (adjust_insn_offs (prog_info @ take copied (drop copy_start data)) old_sz rs off_adj (copied div rs)) (\<lambda>info.
     Inr (info, of_nat (new_sz div rs), ei_rec_size ext_info)))))"

function adjust_prog_info_from :: "alloc \<Rightarrow> btf \<Rightarrow> bpf_program \<Rightarrow> u8 list \<Rightarrow> btf_ext_info \<Rightarrow> nat \<Rightarrow> prog_info \<Rightarrow> prog_info result" where
  "adjust_prog_info_from alloc b prog data ext_info sec out =
     (if sec < ei_info ext_info + unat (ei_len ext_info)
      then case read_words data sec 2 of
             Inr [sec_name_off, num_info] \<Rightarrow>
               (case btf__name_by_offset b sec_name_off of
                  Inl e \<Rightarrow> Inl e
                | Inr None \<Rightarrow> Inl EINVAL
                | Inr (Some sec_name) \<Rightarrow>
                    if sec_name \<noteq> p_sec_name prog
                    then adjust_prog_info_from alloc b prog data ext_info (sec + 8 + unat (ei_rec_size ext_info * num_info)) out
                    else rbind (copied_range data (unat (ei_rec_size ext_info)) (sec_insn_off prog) (sec_insn_off prog + sec_insn_cnt prog)
                           (for_each_btf_ext_rec ext_info sec num_info) None) (\<lambda>rng.
                         case rng of
                           None \<Rightarrow> Inl ENOENT
                         | Some (copy_start, copy_end) \<Rightarrow>
                             append_records alloc data ext_info (of_nat (sub_insn_off prog) - of_nat (sec_insn_off prog))
                               copy_start copy_end out))
           | _ \<Rightarrow> Inl OOB
      else Inl ENOENT)"
  by pat_completeness auto
termination
  by (relation "measure (\<lambda>(alloc, b, prog, data, ext_info, sec, out). ei_info ext_info + unat (ei_len ext_info) - sec)") auto

declare adjust_prog_info_from.simps [simp del]

definition adjust_prog_btf_ext_info :: "alloc \<Rightarrow> btf \<Rightarrow> bpf_program \<Rightarrow> u8 list \<Rightarrow> btf_ext_info \<Rightarrow> prog_info \<Rightarrow> prog_info result" where
  "adjust_prog_btf_ext_info alloc b prog data ext_info = adjust_prog_info_from alloc b prog data ext_info (ei_info ext_info)"

text \<open>
  One kind of information: left out for a sub-program whose main program has none; missing information is
  an error only after some was found.
\<close>

definition reloc_info_step :: "bool \<Rightarrow> (prog_info \<Rightarrow> prog_info result) \<Rightarrow> prog_info \<Rightarrow> prog_info result" where
  "reloc_info_step is_main adjust old =
     (if \<not> is_main \<and> fst old = [] then Inr old
      else case adjust old of
             Inr new \<Rightarrow> Inr new
           | Inl e \<Rightarrow> if e \<noteq> ENOENT then Inl e else if fst old \<noteq> [] then Inl e else Inr old)"

definition upd_prog :: "nat \<Rightarrow> (bpf_program \<Rightarrow> bpf_program) \<Rightarrow> bpf_object \<Rightarrow> bpf_object" where
  "upd_prog i f obj = obj\<lparr>programs := (programs obj)[i := f (programs obj ! i)]\<rparr>"

definition func_info_of :: "bpf_program \<Rightarrow> prog_info" where
  "func_info_of p = (p_func_info p, p_func_info_cnt p, p_func_info_rec_size p)"

definition line_info_of :: "bpf_program \<Rightarrow> prog_info" where
  "line_info_of p = (p_line_info p, p_line_info_cnt p, p_line_info_rec_size p)"

definition set_func_info :: "prog_info \<Rightarrow> bpf_program \<Rightarrow> bpf_program" where
  "set_func_info = (\<lambda>(info, cnt, rs) p. p\<lparr>p_func_info := info, p_func_info_cnt := cnt, p_func_info_rec_size := rs\<rparr>)"

definition set_line_info :: "prog_info \<Rightarrow> bpf_program \<Rightarrow> bpf_program" where
  "set_line_info = (\<lambda>(info, cnt, rs) p. p\<lparr>p_line_info := info, p_line_info_cnt := cnt, p_line_info_rec_size := rs\<rparr>)"

text \<open>What linking takes from outside: the allocator and whether the kernel supports function information.\<close>

record link_env =
  link_alloc :: alloc
  feat_btf_func :: bool

definition reloc_prog_func_and_line_info :: "link_env \<Rightarrow> nat \<Rightarrow> nat \<Rightarrow> bpf_object \<Rightarrow> unit result \<times> bpf_object" where
  "reloc_prog_func_and_line_info env main_prog prog obj =
     (case obj_btf_ext obj of
        None \<Rightarrow> (Inr (), obj)
      | Some ext \<Rightarrow>
          if \<not> feat_btf_func env then (Inr (), obj)
          else case obj_btf obj of
            None \<Rightarrow> (Inl OOB, obj)
          | Some b \<Rightarrow>
              let adjust = adjust_prog_btf_ext_info (link_alloc env) b in
              and_then (keep obj (rbind (reloc_info_step (main_prog = prog) (adjust (programs obj ! prog) (ext_data ext) (func_info ext))
                          (func_info_of (programs obj ! main_prog))) (\<lambda>info. Inr (upd_prog main_prog (set_func_info info) obj)))) (\<lambda>obj.
              keep obj (rbind (reloc_info_step (main_prog = prog) (adjust (programs obj ! prog) (ext_data ext) (line_info ext))
                          (line_info_of (programs obj ! main_prog))) (\<lambda>info. Inr (upd_prog main_prog (set_line_info info) obj)))))"

subsection \<open>Calls\<close>

text \<open>Both sides are compared as 64-bit numbers.\<close>

definition cmp_relo_by_insn_idx :: "nat \<Rightarrow> reloc_desc \<Rightarrow> int" where
  "cmp_relo_by_insn_idx insn_idx relo =
     (let elem = nat (rd_insn_idx relo mod 2 ^ 64) in
      if insn_idx = elem then 0 else if insn_idx < elem then -1 else 1)"

definition find_prog_insn_relo :: "bpf_program \<Rightarrow> nat \<Rightarrow> nat option" where
  "find_prog_insn_relo prog insn_idx = bsearch cmp_relo_by_insn_idx insn_idx (p_relocs prog)"

text \<open>The instruction of \<^verbatim>\<open>.text\<close> a call refers to, in 64 bits.\<close>

definition sub_insn_idx :: "bpf_program \<Rightarrow> nat \<Rightarrow> reloc_desc option \<Rightarrow> bpf_insn \<Rightarrow> nat" where
  "sub_insn_idx prog insn_idx relo insn =
     nat (((case relo of
              Some r \<Rightarrow> rd_sym_off r mod 2 ^ 64 div 8
            | None \<Rightarrow> int (sec_insn_off prog) + int insn_idx) + sint (imm insn) + 1) mod 2 ^ 64)"

text \<open>
  Appending a program: its place is set first, then the code of the main program grows and the instructions
  are copied. When the program is the main program itself, \<open>insns_cnt\<close> has grown before the copy reads it.
\<close>

definition append_subprog :: "alloc \<Rightarrow> nat \<Rightarrow> nat \<Rightarrow> bpf_object \<Rightarrow> unit result \<times> bpf_object" where
  "append_subprog alloc main_prog subprog obj =
     (let old_cnt = insns_cnt (programs obj ! main_prog);
          new_cnt = old_cnt + insns_cnt (programs obj ! subprog);
          obj1 = upd_prog subprog (\<lambda>p. p\<lparr>sub_insn_off := old_cnt\<rparr>) obj in
      if \<not> libbpf_reallocarray alloc new_cnt 8 then (Inl ENOMEM, obj1)
      else
        let obj2 = upd_prog main_prog (\<lambda>p. p\<lparr>insns_cnt := new_cnt\<rparr>) obj1;
            sub = programs obj2 ! subprog; code = insns (programs obj2 ! main_prog) in
        if length code < old_cnt \<or> length (insns sub) < insns_cnt sub \<or> new_cnt < sub_insn_off sub + insns_cnt sub
        then (Inl OOB, obj2)
        else (Inr (), upd_prog main_prog (\<lambda>p. p\<lparr>insns := take old_cnt code @ take (insns_cnt sub) (insns sub)\<rparr>) obj2))"

text \<open>The call instruction is looked up again afterwards and gets the distance to the called program, in 32 bits.\<close>

definition redirect_call :: "nat \<Rightarrow> nat \<Rightarrow> nat \<Rightarrow> nat \<Rightarrow> nat option \<Rightarrow> bpf_object \<Rightarrow> unit result \<times> bpf_object" where
  "redirect_call main_prog prog subprog insn_idx relo obj =
     (let p = programs obj ! prog; at = sub_insn_off p + insn_idx in
      keep obj (rbind (set_insn at (\<lambda>insn. insn\<lparr>imm := of_nat (sub_insn_off (programs obj ! subprog)) - of_nat at - 1\<rparr>)
                         (insns (programs obj ! main_prog))) (\<lambda>is.
      let obj' = upd_prog main_prog (\<lambda>p. p\<lparr>insns := is\<rparr>) obj in
      Inr (case relo of
             None \<Rightarrow> obj'
           | Some j \<Rightarrow> upd_prog prog (\<lambda>p. p\<lparr>p_relocs := (p_relocs p)[j := (p_relocs p ! j)\<lparr>rd_processed := True\<rparr>]\<rparr>) obj'))))"

text \<open>One step of the loop of \<open>bpf_object__reloc_code\<close>; \<open>recurse\<close> is its recursive call.\<close>

definition reloc_call :: "link_env \<Rightarrow> (nat \<Rightarrow> bpf_object \<Rightarrow> unit result \<times> bpf_object) \<Rightarrow> nat \<Rightarrow> nat \<Rightarrow> nat \<Rightarrow> bpf_object \<Rightarrow>
    unit result \<times> bpf_object" where
  "reloc_call env recurse main_prog prog insn_idx obj =
     (let p = programs obj ! prog in
      case array_get (insns (programs obj ! main_prog)) (sub_insn_off p + insn_idx) of
        Inl e \<Rightarrow> (Inl e, obj)
      | Inr insn \<Rightarrow>
          if \<not> insn_is_subprog_call insn then (Inr (), obj)
          else
            let relo = find_prog_insn_relo p insn_idx; desc = map_option ((!) (p_relocs p)) relo in
            if \<exists>r. desc = Some r \<and> rd_type r \<noteq> RELO_CALL then (Inl LIBBPF_ERRNO__RELOC, obj)
            else case find_prog_by_sec_insn obj (nat (text_shndx (efile obj) mod 2 ^ 64)) (sub_insn_idx p insn_idx desc insn) of
              Inl e \<Rightarrow> (Inl e, obj)
            | Inr None \<Rightarrow> (Inl LIBBPF_ERRNO__RELOC, obj)
            | Inr (Some subprog) \<Rightarrow>
                and_then (if sub_insn_off (programs obj ! subprog) = 0
                          then and_then (append_subprog (link_alloc env) main_prog subprog obj) (recurse subprog)
                          else (Inr (), obj))
                  (redirect_call main_prog prog subprog insn_idx relo))"

fun run_steps :: "(nat \<Rightarrow> bpf_object \<Rightarrow> unit result \<times> bpf_object) \<Rightarrow> nat list \<Rightarrow> bpf_object \<Rightarrow> unit result \<times> bpf_object" where
  "run_steps f [] obj = (Inr (), obj)"
| "run_steps f (i # is) obj = and_then (f i obj) (run_steps f is)"

text \<open>The fuel bounds the depth of the recursion.\<close>

primrec bpf_object__reloc_code :: "nat \<Rightarrow> link_env \<Rightarrow> nat \<Rightarrow> nat \<Rightarrow> bpf_object \<Rightarrow> unit result \<times> bpf_object" where
  "bpf_object__reloc_code 0 env main_prog prog obj = (Inl NONTERM, obj)"
| "bpf_object__reloc_code (Suc depth) env main_prog prog obj =
     and_then (reloc_prog_func_and_line_info env main_prog prog obj) (\<lambda>obj.
     run_steps (reloc_call env (bpf_object__reloc_code depth env main_prog) main_prog prog)
       [0..<sec_insn_cnt (programs obj ! prog)] obj)"

definition unlink_subprog :: "bpf_program \<Rightarrow> bpf_program" where
  "unlink_subprog p =
     p\<lparr>sub_insn_off := 0, p_relocs := map (\<lambda>r. if rd_type r = RELO_CALL then r\<lparr>rd_processed := False\<rparr> else r) (p_relocs p)\<rparr>"

definition unlink_subprogs :: "bpf_object \<Rightarrow> bpf_object" where
  "unlink_subprogs obj = obj\<lparr>programs := map (\<lambda>p. if prog_is_subprog obj p then unlink_subprog p else p) (programs obj)\<rparr>"

definition bpf_object__relocate_calls :: "nat \<Rightarrow> link_env \<Rightarrow> nat \<Rightarrow> bpf_object \<Rightarrow> unit result \<times> bpf_object" where
  "bpf_object__relocate_calls depth env prog obj = bpf_object__reloc_code depth env prog prog (unlink_subprogs obj)"

text \<open>The data references of one of the programs.\<close>

definition relocate_data_of :: "nat \<Rightarrow> bpf_object \<Rightarrow> unit result \<times> bpf_object" where
  "relocate_data_of i obj =
     keep obj (rbind (bpf_object__relocate_data obj (programs obj ! i)) (\<lambda>prog. Inr (upd_prog i (\<lambda>_. prog) obj)))"

end
