(* ===== verification/Subprog_Facts.thy ===== *)
theory Subprog_Facts
  imports Subprogs Reloc_Facts
begin

text \<open>
  Linking is correct: the linked program is the main program followed by the sub-programs it needs, each at
  its recorded place, every instruction as in the object but for the calls, which lead to the start of the
  program they name; and the recursion is never deeper than the number of programs.
\<close>

subsection \<open>What linking leaves alone\<close>

definition unprocessed :: "reloc_desc \<Rightarrow> reloc_desc" where
  "unprocessed r = r\<lparr>rd_processed := False\<rparr>"

definition shape :: "bpf_program \<Rightarrow> nat \<times> nat \<times> nat \<times> string \<times> reloc_desc list" where
  "shape p = (p_sec_idx p, sec_insn_off p, sec_insn_cnt p, p_sec_name p, map unprocessed (p_relocs p))"

definition same_lookups :: "bpf_object \<Rightarrow> bpf_object \<Rightarrow> bool" where
  "same_lookups obj obj' \<longleftrightarrow>
     map shape (programs obj') = map shape (programs obj) \<and> efile obj' = efile obj \<and>
     obj_btf obj' = obj_btf obj \<and> obj_btf_ext obj' = obj_btf_ext obj"

lemma same_lookups_refl [simp]: "same_lookups obj obj"
  by (simp add: same_lookups_def)

lemma same_lookups_trans: "same_lookups a b \<Longrightarrow> same_lookups b c \<Longrightarrow> same_lookups a c"
  by (simp add: same_lookups_def)

lemma same_lookups_length: "same_lookups obj obj' \<Longrightarrow> length (programs obj') = length (programs obj)"
  unfolding same_lookups_def by (metis length_map)

lemma same_lookups_nth:
  assumes "same_lookups obj obj'" "i < length (programs obj)"
  shows "shape (programs obj' ! i) = shape (programs obj ! i)"
proof -
  have "map shape (programs obj') ! i = map shape (programs obj) ! i" using assms(1) by (simp add: same_lookups_def)
  then show ?thesis using assms same_lookups_length by simp
qed

lemma shape_eqD:
  assumes "shape p = shape q"
  shows "p_sec_idx p = p_sec_idx q" "sec_insn_off p = sec_insn_off q" "sec_insn_cnt p = sec_insn_cnt q" "length (p_relocs p) = length (p_relocs q)"
    "i < length (p_relocs q) \<Longrightarrow> rd_insn_idx (p_relocs p ! i) = rd_insn_idx (p_relocs q ! i) \<and>
       rd_type (p_relocs p ! i) = rd_type (p_relocs q ! i) \<and> rd_sym_off (p_relocs p ! i) = rd_sym_off (p_relocs q ! i)"
proof -
  have m: "map unprocessed (p_relocs p) = map unprocessed (p_relocs q)" using assms by (simp add: shape_def)
  then show len: "length (p_relocs p) = length (p_relocs q)" by (metis length_map)
  show "p_sec_idx p = p_sec_idx q" "sec_insn_off p = sec_insn_off q" "sec_insn_cnt p = sec_insn_cnt q" using assms by (simp_all add: shape_def)
  assume i: "i < length (p_relocs q)"
  then have "unprocessed (p_relocs p ! i) = unprocessed (p_relocs q ! i)" using arg_cong [OF m, of "\<lambda>xs. xs ! i"] len by simp
  then show "rd_insn_idx (p_relocs p ! i) = rd_insn_idx (p_relocs q ! i) \<and>
       rd_type (p_relocs p ! i) = rd_type (p_relocs q ! i) \<and> rd_sym_off (p_relocs p ! i) = rd_sym_off (p_relocs q ! i)"
    by (auto simp: unprocessed_def dest: arg_cong [of _ _ rd_insn_idx] arg_cong [of _ _ rd_type] arg_cong [of _ _ rd_sym_off])
qed

lemma prog_search_same:
  assumes "same_lookups obj obj'" "0 \<le> l" "r < int (length (programs obj))"
  shows "prog_search (programs obj') s n l r = prog_search (programs obj) s n l r"
  using assms(2,3)
proof (induction "programs obj" s n l r rule: prog_search.induct)
  case (1 s n l r)
  let ?m = "l + (r - l + 1) div 2"
  show ?case
  proof (cases "l < r")
    case True
    then have "nat ?m < length (programs obj)" using 1(3,4) by linarith
    note sh = shape_eqD(1,2) [OF same_lookups_nth [OF assms(1) this]]
    have "prog_search (programs obj') s n ?m r = prog_search (programs obj) s n ?m r" if "starts_by s n (programs obj ! nat ?m)"
      using 1(1) [OF True refl refl] that 1(3,4) True by (auto simp: starts_by_def)
    moreover have "prog_search (programs obj') s n l (?m - 1) = prog_search (programs obj) s n l (?m - 1)"
        if "\<not> starts_by s n (programs obj ! nat ?m)"
      using 1(2) [OF True refl refl] that 1(3,4) True by (auto simp: starts_by_def)
    ultimately show ?thesis
      using True sh by (subst (1 2) prog_search.simps) (auto simp: Let_def starts_by_def)
  next
    case False
    then show ?thesis by (subst (1 2) prog_search.simps) simp
  qed
qed

lemma find_prog_same:
  assumes "same_lookups obj obj'"
  shows "find_prog_by_sec_insn obj' s n = find_prog_by_sec_insn obj s n"
proof (cases "programs obj = []")
  case True
  then have "programs obj' = []" using same_lookups_length [OF assms] by simp
  then show ?thesis using True by (simp add: find_prog_by_sec_insn_def)
next
  case False
  let ?k = "prog_search (programs obj) s n 0 (int (length (programs obj)) - 1)"
  have len: "length (programs obj') = length (programs obj)" by (rule same_lookups_length [OF assms])
  have k: "prog_search (programs obj') s n 0 (int (length (programs obj')) - 1) = ?k"
    unfolding len by (rule prog_search_same [OF assms]) simp_all
  show ?thesis
  proof (cases "nat ?k < length (programs obj)")
    case True
    note sh = shape_eqD(1-3) [OF same_lookups_nth [OF assms True]]
    show ?thesis unfolding find_prog_by_sec_insn_def k Let_def using True sh len by (simp add: array_get_def prog_contains_insn_def)
  next
    case False
    then show ?thesis unfolding find_prog_by_sec_insn_def k Let_def using len by (simp add: array_get_def)
  qed
qed

lemma find_prog_text: "find_prog_by_sec_insn obj s n = Inr (Some t) \<Longrightarrow> t < length (programs obj) \<and> p_sec_idx (programs obj ! t) = s"
  by (auto simp: find_prog_by_sec_insn_def result_simps Let_def split: if_splits)

lemma bsearch_in_cong:
  assumes "\<And>i. i < u0 \<Longrightarrow> cmp k (xs ! i) = cmp k (ys ! i)" "u \<le> u0"
  shows "bsearch_in cmp k xs l u = bsearch_in cmp k ys l u"
  using assms(2)
proof (induction "u - l" arbitrary: l u rule: less_induct)
  case less
  let ?m = "(l + u) div 2"
  show ?case
  proof (cases "l < u")
    case True
    then have "cmp k (xs ! ?m) = cmp k (ys ! ?m)" using assms(1) [of ?m] less.prems by simp
    moreover have "bsearch_in cmp k xs l ?m = bsearch_in cmp k ys l ?m" by (rule less.hyps) (use True less.prems in auto)
    moreover have "bsearch_in cmp k xs (?m + 1) u = bsearch_in cmp k ys (?m + 1) u" by (rule less.hyps) (use True less.prems in auto)
    ultimately show ?thesis using True by (subst (1 2) bsearch_in.simps) (simp add: Let_def)
  next
    case False
    then show ?thesis by (subst (1 2) bsearch_in.simps) simp
  qed
qed

lemma find_relo_same:
  assumes "shape p = shape q"
  shows "find_prog_insn_relo p n = find_prog_insn_relo q n"
proof -
  have "bsearch_in cmp_relo_by_insn_idx n (p_relocs p) 0 (length (p_relocs q)) = bsearch_in cmp_relo_by_insn_idx n (p_relocs q) 0 (length (p_relocs q))"
    by (rule bsearch_in_cong [OF _ order_refl]) (use shape_eqD(5) [OF assms] in \<open>simp add: cmp_relo_by_insn_idx_def\<close>)
  then show ?thesis using shape_eqD(4) [OF assms] by (simp add: find_prog_insn_relo_def bsearch_def)
qed

interpretation relo_search: searches_by cmp_relo_by_insn_idx id "\<lambda>r. nat (rd_insn_idx r mod 2 ^ 64)"
  by unfold_locales (auto simp: cmp_relo_by_insn_idx_def Let_def)

lemma find_relo_bound: "find_prog_insn_relo p n = Some j \<Longrightarrow> j < length (p_relocs p) \<and> nat (rd_insn_idx (p_relocs p ! j) mod 2 ^ 64) = n"
  using relo_search.bsearch_Some [of n "p_relocs p" j] by (simp add: find_prog_insn_relo_def)

subsection \<open>The layout of a linked program\<close>

definition text_idx :: "bpf_object \<Rightarrow> nat" where
  "text_idx obj = nat (text_shndx (efile obj) mod 2 ^ 64)"

definition plen :: "bpf_object \<Rightarrow> nat \<Rightarrow> nat" where
  "plen obj j = length (insns (programs obj ! j))"

definition place :: "bpf_object \<Rightarrow> nat \<Rightarrow> nat" where
  "place obj j = sub_insn_off (programs obj ! j)"

definition code_len :: "bpf_object \<Rightarrow> nat list \<Rightarrow> nat" where
  "code_len obj js = sum_list (map (plen obj) js)"

text \<open>The object before linking: whole programs, none of them placed. Main programs linked before need not be whole.\<close>

definition linked_in :: "nat \<Rightarrow> bpf_object \<Rightarrow> nat \<Rightarrow> bool" where
  "linked_in main obj j \<longleftrightarrow> j = main \<or> p_sec_idx (programs obj ! j) = text_idx obj"

definition linkable :: "nat \<Rightarrow> bpf_object \<Rightarrow> bool" where
  "linkable main obj \<longleftrightarrow> main < length (programs obj) \<and> place obj main = 0 \<and>
     (\<forall>j < length (programs obj). linked_in main obj j \<longrightarrow>
        0 < plen obj j \<and> sec_insn_cnt (programs obj ! j) = plen obj j \<and> insns_cnt (programs obj ! j) = plen obj j) \<and>
     (\<forall>j < length (programs obj). p_sec_idx (programs obj ! j) = text_idx obj \<longrightarrow> place obj j = 0)"

text \<open>
  The programs \<open>js\<close>, the main program first, are placed one behind the other in the code of the main program;
  the other programs of \<^verbatim>\<open>.text\<close> have no place, and no program but the main one has changed.
\<close>

definition laid_out :: "nat \<Rightarrow> bpf_object \<Rightarrow> nat list \<Rightarrow> bpf_object \<Rightarrow> bool" where
  "laid_out main obj0 js obj \<longleftrightarrow>
     same_lookups obj0 obj \<and> distinct js \<and> js \<noteq> [] \<and> hd js = main \<and> set js \<subseteq> {..<length (programs obj0)} \<and> (\<forall>j \<in> set js. linked_in main obj0 j) \<and>
     (\<forall>k < length js. place obj (js ! k) = code_len obj0 (take k js)) \<and>
     plen obj main = code_len obj0 js \<and> insns_cnt (programs obj ! main) = code_len obj0 js \<and>
     (\<forall>j < length (programs obj0). j \<notin> set js \<longrightarrow> p_sec_idx (programs obj0 ! j) = text_idx obj0 \<longrightarrow> place obj j = 0) \<and>
     (\<forall>j < length (programs obj0). j \<noteq> main \<longrightarrow> insns (programs obj ! j) = insns (programs obj0 ! j) \<and>
        insns_cnt (programs obj ! j) = insns_cnt (programs obj0 ! j) \<and> (j \<notin> set js \<longrightarrow> place obj j = place obj0 j))"

lemma linkable_nth: "linkable main obj \<Longrightarrow> j < length (programs obj) \<Longrightarrow> linked_in main obj j \<Longrightarrow>
    0 < plen obj j \<and> sec_insn_cnt (programs obj ! j) = plen obj j \<and> insns_cnt (programs obj ! j) = plen obj j"
  by (simp add: linkable_def)

lemma laid_out_start: "linkable main obj \<Longrightarrow> laid_out main obj [main] obj"
proof -
  assume ok: "linkable main obj"
  then have "main < length (programs obj)" "place obj main = 0" by (simp_all add: linkable_def)
  moreover have "insns_cnt (programs obj ! main) = plen obj main" using linkable_nth [OF ok] calculation(1) by (simp add: linked_in_def)
  ultimately show ?thesis using ok by (simp add: laid_out_def linked_in_def code_len_def linkable_def)
qed

lemma code_len_append [simp]: "code_len obj (js @ ks) = code_len obj js + code_len obj ks"
  by (simp add: code_len_def)

lemma code_len_single [simp]: "code_len obj [] = 0" "code_len obj [j] = plen obj j"
  by (simp_all add: code_len_def)

lemma laid_out_place:
  assumes "laid_out main obj0 js obj" "j \<in> set js"
  obtains k where "k < length js" "j = js ! k" "place obj j = code_len obj0 (take k js)"
    "place obj j + plen obj0 j = code_len obj0 (take (Suc k) js)"
proof -
  obtain k where k: "k < length js" "j = js ! k" using assms(2) by (auto simp: in_set_conv_nth)
  moreover have "place obj j = code_len obj0 (take k js)" using assms(1) k by (simp add: laid_out_def)
  moreover have "code_len obj0 (take (Suc k) js) = code_len obj0 (take k js) + plen obj0 j" using k by (simp add: take_Suc_conv_app_nth)
  ultimately show ?thesis using that by simp
qed

lemma code_len_take_mono: "k \<le> m \<Longrightarrow> code_len obj (take k js) \<le> code_len obj (take m js)"
proof -
  assume "k \<le> m"
  then have "take m js = take k js @ take (m - k) (drop k js)" by (metis take_add le_add_diff_inverse)
  then show ?thesis by (metis code_len_append le_add1)
qed

lemma segment_in_code: "laid_out main obj0 js obj \<Longrightarrow> j \<in> set js \<Longrightarrow> place obj j + plen obj0 j \<le> plen obj main"
proof -
  assume l: "laid_out main obj0 js obj" "j \<in> set js"
  obtain k where "place obj j + plen obj0 j = code_len obj0 (take (Suc k) js)" by (rule laid_out_place [OF l])
  then show "place obj j + plen obj0 j \<le> plen obj main"
    using l(1) code_len_take_mono [of "Suc k" "max (Suc k) (length js)" obj0 js] by (simp add: laid_out_def)
qed

lemma segments_apart:
  assumes "laid_out main obj0 js obj" "i \<in> set js" "j \<in> set js" "i \<noteq> j" "x < plen obj0 i" "y < plen obj0 j"
  shows "place obj i + x \<noteq> place obj j + y"
proof -
  have before: "place obj a + plen obj0 a \<le> place obj b"
    if "k < m" "place obj a + plen obj0 a = code_len obj0 (take (Suc k) js)" "place obj b = code_len obj0 (take m js)" for a b k m
    using that code_len_take_mono [of "Suc k" m obj0 js] by simp
  obtain k where k: "k < length js" "i = js ! k" "place obj i = code_len obj0 (take k js)" "place obj i + plen obj0 i = code_len obj0 (take (Suc k) js)"
    by (rule laid_out_place [OF assms(1,2)])
  obtain m where m: "m < length js" "j = js ! m" "place obj j = code_len obj0 (take m js)" "place obj j + plen obj0 j = code_len obj0 (take (Suc m) js)"
    by (rule laid_out_place [OF assms(1,3)])
  have "k < m \<or> m < k" using assms(4) k(2) m(2) by (metis nat_neq_iff)
  then show ?thesis using before [OF _ k(4) m(3)] before [OF _ m(4) k(3)] assms(5,6) by auto
qed

lemma placed_later:
  assumes "laid_out main obj0 js obj" "linkable main obj0" "j \<in> set js" "j \<noteq> main"
  shows "0 < place obj j"
proof -
  obtain k where k: "k < length js" "j = js ! k" "place obj j = code_len obj0 (take k js)"
    using laid_out_place [OF assms(1,3)] by metis
  have "hd js = main" "js \<noteq> []" using assms(1) by (simp_all add: laid_out_def)
  then have "0 < k" "take (Suc 0) js = [main]" using k assms(4) by (cases js; auto simp: nth_Cons split: nat.splits)+
  then have "plen obj0 main \<le> place obj j" using code_len_take_mono [of "Suc 0" k obj0 js] k(3) by simp
  then show ?thesis using linkable_nth [OF assms(2), of main] assms(2) by (simp add: linkable_def linked_in_def)
qed

text \<open>The instruction of program \<open>j\<close> at \<open>x\<close>, where it now is.\<close>

definition at :: "nat \<Rightarrow> bpf_object \<Rightarrow> nat \<Rightarrow> nat \<Rightarrow> bpf_insn" where
  "at main obj j x = insns (programs obj ! main) ! (place obj j + x)"

definition own :: "bpf_object \<Rightarrow> nat \<Rightarrow> nat \<Rightarrow> bpf_insn" where
  "own obj j x = insns (programs obj ! j) ! x"

text \<open>The program that the call of program \<open>j\<close> at \<open>x\<close> names.\<close>

definition callee :: "bpf_object \<Rightarrow> nat \<Rightarrow> nat \<Rightarrow> nat option result" where
  "callee obj j x =
     (let p = programs obj ! j in
      find_prog_by_sec_insn obj (text_idx obj)
        (sub_insn_idx p x (map_option ((!) (p_relocs p)) (find_prog_insn_relo p x)) (own obj j x)))"

definition linked_at :: "nat \<Rightarrow> bpf_object \<Rightarrow> nat list \<Rightarrow> bpf_object \<Rightarrow> nat \<Rightarrow> nat \<Rightarrow> bool" where
  "linked_at main obj0 js obj j x \<longleftrightarrow>
     (if insn_is_subprog_call (own obj0 j x)
      then \<exists>t. callee obj0 j x = Inr (Some t) \<and> t \<in> set js \<and> t \<noteq> main \<and>
        at main obj j x = (own obj0 j x)\<lparr>imm := of_nat (place obj t) - of_nat (place obj j + x) - 1\<rparr>
      else at main obj j x = own obj0 j x)"

lemma linked_at_mono:
  assumes "linked_at main obj0 js obj j x" "j \<in> set js" "set js \<subseteq> set js'"
    "\<And>i. i \<in> set js \<Longrightarrow> place obj' i = place obj i" "at main obj' j x = at main obj j x"
  shows "linked_at main obj0 js' obj' j x"
  using assms by (auto simp: linked_at_def split: if_splits)

lemma laid_out_grows:
  assumes "laid_out main obj0 js obj" "laid_out main obj0 (js @ new) obj'" "i \<in> set js"
  shows "place obj' i = place obj i"
proof -
  obtain k where k: "k < length js" "i = js ! k" "place obj i = code_len obj0 (take k js)"
    by (rule laid_out_place [OF assms(1,3)])
  have "place obj' ((js @ new) ! k) = code_len obj0 (take k (js @ new))" using assms(2) k(1) by (simp add: laid_out_def)
  then show ?thesis using k by (simp add: nth_append)
qed

subsection \<open>The steps of linking\<close>

lemma upd_prog_nth: "i < length (programs obj) \<Longrightarrow> programs (upd_prog i f obj) ! j = (if j = i then f (programs obj ! i) else programs obj ! j)"
  by (simp add: upd_prog_def)

lemma upd_prog_simps [simp]: "length (programs (upd_prog i f obj)) = length (programs obj)" "efile (upd_prog i f obj) = efile obj"
    "obj_btf (upd_prog i f obj) = obj_btf obj" "obj_btf_ext (upd_prog i f obj) = obj_btf_ext obj"
  by (simp_all add: upd_prog_def)

lemma same_lookups_upd:
  assumes "shape (f (programs obj ! i)) = shape (programs obj ! i)"
  shows "same_lookups obj (upd_prog i f obj)"
proof (cases "i < length (programs obj)")
  case True
  then show ?thesis using assms by (simp add: same_lookups_def upd_prog_def map_update list_update_same_conv)
next
  case False
  then show ?thesis by (simp add: same_lookups_def upd_prog_def list_update_beyond)
qed

lemma same_lookups_updI: "same_lookups a b \<Longrightarrow> shape (f (programs b ! i)) = shape (programs b ! i) \<Longrightarrow> same_lookups a (upd_prog i f b)"
  using same_lookups_trans same_lookups_upd by blast

text \<open>An update that changes no code and no place.\<close>

definition code_view :: "bpf_program \<Rightarrow> bpf_insn list \<times> nat \<times> nat" where
  "code_view p = (insns p, insns_cnt p, sub_insn_off p)"

definition same_code :: "bpf_object \<Rightarrow> bpf_object \<Rightarrow> bool" where
  "same_code obj obj' \<longleftrightarrow> same_lookups obj obj' \<and> (\<forall>j < length (programs obj). code_view (programs obj' ! j) = code_view (programs obj ! j))"

lemma same_code_refl [simp]: "same_code obj obj"
  by (simp add: same_code_def)

lemma same_code_trans:
  assumes "same_code a b" "same_code b c"
  shows "same_code a c"
proof -
  have "same_lookups a b" "same_lookups b c" using assms by (simp_all add: same_code_def)
  note same_lookups_trans [OF this] same_lookups_length [OF this(1)]
  then show ?thesis using assms by (simp add: same_code_def)
qed

lemma same_code_upd:
  assumes "i < length (programs obj)" "shape (f (programs obj ! i)) = shape (programs obj ! i)" "code_view (f (programs obj ! i)) = code_view (programs obj ! i)"
  shows "same_code obj (upd_prog i f obj)"
proof -
  have "same_lookups obj (upd_prog i f obj)" by (rule same_lookups_upd) (rule assms(2))
  then show ?thesis using assms(1,3) by (simp add: same_code_def upd_prog_nth)
qed

lemma same_code_views:
  assumes "same_code obj obj'" "j < length (programs obj)"
  shows "insns (programs obj' ! j) = insns (programs obj ! j)" "insns_cnt (programs obj' ! j) = insns_cnt (programs obj ! j)"
    "place obj' j = place obj j" "plen obj' j = plen obj j"
  using assms by (auto simp: same_code_def code_view_def place_def plen_def)

lemma laid_out_length: "laid_out main obj0 js obj \<Longrightarrow> length (programs obj) = length (programs obj0)"
  unfolding laid_out_def using same_lookups_length by blast

lemma laid_out_lt: "laid_out main obj0 js obj \<Longrightarrow> j \<in> set js \<Longrightarrow> j < length (programs obj) \<and> j < length (programs obj0)"
  using laid_out_length [of main obj0 js obj] by (auto simp: laid_out_def)

lemma laid_out_main: "laid_out main obj0 js obj \<Longrightarrow> main < length (programs obj) \<and> main \<in> set js"
  using laid_out_lt [of main obj0 js obj main] by (cases js) (auto simp: laid_out_def)

lemma laid_out_same_code:
  assumes "laid_out main obj0 js obj" "same_code obj obj'"
  shows "laid_out main obj0 js obj'"
proof -
  have n: "length (programs obj) = length (programs obj0)" using assms(1) same_lookups_length by (auto simp: laid_out_def)
  note v = same_code_views [OF assms(2)]
  have m: "main < length (programs obj)" using laid_out_main [OF assms(1)] by blast
  have p: "place obj' (js ! k) = place obj (js ! k)" if "k < length js" for k
    using v(3) laid_out_lt [OF assms(1), of "js ! k"] that by simp
  have "same_lookups obj0 obj'" using assms same_lookups_trans by (auto simp: laid_out_def same_code_def)
  then show ?thesis
    using assms(1) v m n p by (simp add: laid_out_def)
qed

lemma at_same_code:
  assumes "laid_out main obj0 js obj" "same_code obj obj'" "j \<in> set js"
  shows "at main obj' j x = at main obj j x"
  using same_code_views [OF assms(2)] laid_out_main [OF assms(1)] laid_out_lt [OF assms(1,3)] by (simp add: at_def)

lemma info_same_code:
  assumes "reloc_prog_func_and_line_info env main prog obj = (r, obj')" "main < length (programs obj)"
  shows "same_code obj obj'"
proof -
  have f: "same_code o1 (upd_prog main (set_func_info i) o1)" "same_code o1 (upd_prog main (set_line_info i) o1)"
    if "main < length (programs o1)" for o1 i
    using that by (cases i; intro same_code_upd; simp add: set_func_info_def set_line_info_def shape_def code_view_def)+
  show ?thesis
    using assms f same_code_trans [OF f(1) f(2)]
    by (auto simp: reloc_prog_func_and_line_info_def and_then_def keep_def Let_def result_simps split: option.splits if_splits sum.splits prod.splits)
qed

lemma append_self_fails:
  assumes "main < length (programs obj)" "0 < insns_cnt (programs obj ! main)"
  shows "append_subprog alloc main main obj \<noteq> (Inr u, obj')"
  using assms by (simp add: append_subprog_def Let_def upd_prog_nth)

lemma append_subprog_ok:
  assumes l: "laid_out main obj0 js obj" and ok: "linkable main obj0" and t: "t < length (programs obj0)" "t \<notin> set js" "p_sec_idx (programs obj0 ! t) = text_idx obj0"
    and run: "append_subprog alloc main t obj = (Inr (), obj')"
  shows "laid_out main obj0 (js @ [t]) obj'" "q \<in> set js \<Longrightarrow> x < plen obj0 q \<Longrightarrow> at main obj' q x = at main obj q x"
    "x < plen obj0 t \<Longrightarrow> at main obj' t x = own obj0 t x"
proof -
  have n: "length (programs obj) = length (programs obj0)" by (rule laid_out_length [OF l])
  have m: "main < length (programs obj)" "main \<in> set js" using laid_out_main [OF l] by simp_all
  have mt: "main \<noteq> t" using t(2) m(2) by blast
  define c where "c = code_len obj0 js"
  have main: "length (insns (programs obj ! main)) = c" "insns_cnt (programs obj ! main) = c"
    using l by (simp_all add: laid_out_def c_def plen_def)
  have sub: "insns (programs obj ! t) = insns (programs obj0 ! t)" "insns_cnt (programs obj ! t) = plen obj0 t"
    using l t(1) mt linkable_nth [OF ok t(1)] t(3) by (auto simp: laid_out_def linked_in_def)
  have obj': "programs obj' ! j = (if j = main then (programs obj ! main)\<lparr>insns_cnt := c + plen obj0 t,
         insns := insns (programs obj ! main) @ insns (programs obj0 ! t)\<rparr>
       else if j = t then (programs obj ! t)\<lparr>sub_insn_off := c\<rparr> else programs obj ! j)" for j
    using run m t(1) mt n main sub by (auto simp: append_subprog_def Let_def upd_prog_nth plen_def split: if_splits)
  have same: "same_lookups obj obj'"
    using run by (auto simp: append_subprog_def Let_def shape_def intro!: same_lookups_updI split: if_splits)
  have pl: "place obj' j = (if j = t then c else place obj j)" for j using mt by (simp add: place_def obj')
  have lk: "same_lookups obj0 obj'" using same_lookups_trans same l by (auto simp: laid_out_def)
  have places: "place obj' ((js @ [t]) ! k) = code_len obj0 (take k (js @ [t]))" if "k < length (js @ [t])" for k
  proof (cases "k < length js")
    case True
    then have "js ! k \<noteq> t" using t(2) by auto
    then show ?thesis using True l by (simp add: pl nth_append laid_out_def)
  next
    case False
    then show ?thesis using that by (simp add: pl nth_append c_def)
  qed
  show "laid_out main obj0 (js @ [t]) obj'"
    using l t lk places mt main by (auto simp: laid_out_def linked_in_def obj' pl plen_def c_def)
  have end_of: "place obj q + plen obj0 q \<le> c" if "q \<in> set js" for q
    using segment_in_code [OF l that] main(1) by (simp add: plen_def)
  show "at main obj' q x = at main obj q x" if "q \<in> set js" "x < plen obj0 q"
    using end_of [OF that(1)] that t(2) main(1) by (auto simp: at_def obj' pl nth_append)
  show "x < plen obj0 t \<Longrightarrow> at main obj' t x = own obj0 t x"
    using main(1) by (simp add: at_def obj' pl own_def nth_append)
qed

lemma flag_unprocessed: "map unprocessed (rs[j := (rs ! j)\<lparr>rd_processed := b\<rparr>]) = map unprocessed rs"
proof (cases "j < length rs")
  case True
  have "unprocessed ((rs ! j)\<lparr>rd_processed := b\<rparr>) = unprocessed (rs ! j)" by (simp add: unprocessed_def)
  then show ?thesis using True by (simp add: map_update list_update_same_conv)
qed (simp add: list_update_beyond)

lemma redirect_call_ok:
  assumes l: "laid_out main obj0 js obj" and prog: "prog \<in> set js" "x < plen obj0 prog" and t: "t \<in> set js"
    and run: "redirect_call main prog t x relo obj = (Inr (), obj')"
  shows "laid_out main obj0 js obj'"
    "at main obj' prog x = (at main obj prog x)\<lparr>imm := of_nat (place obj t) - of_nat (place obj prog + x) - 1\<rparr>"
    "q \<in> set js \<Longrightarrow> y < plen obj0 q \<Longrightarrow> q \<noteq> prog \<or> y \<noteq> x \<Longrightarrow> at main obj' q y = at main obj q y"
    "\<And>j. place obj' j = place obj j"
proof -
  have m: "main < length (programs obj)" using laid_out_main [OF l] by blast
  have p: "prog < length (programs obj)" using laid_out_lt [OF l prog(1)] by blast
  define k where "k = place obj prog + x"
  define f where "f = (\<lambda>i :: bpf_insn. i\<lparr>imm := of_nat (place obj t) - of_nat k - 1\<rparr>)"
  define is' where "is' = (insns (programs obj ! main))[k := f (insns (programs obj ! main) ! k)]"
  define g where "g = (\<lambda>p :: bpf_program. p\<lparr>insns := is'\<rparr>)"
  define h where "h = (\<lambda>p :: bpf_program. case relo of None \<Rightarrow> p
    | Some j \<Rightarrow> p\<lparr>p_relocs := (p_relocs p)[j := (p_relocs p ! j)\<lparr>rd_processed := True\<rparr>]\<rparr>)"
  have gh: "shape (g p) = shape p" "shape (h p) = shape p" "insns (g p) = is'" "insns (h p) = insns p"
      "insns_cnt (g p) = insns_cnt p" "insns_cnt (h p) = insns_cnt p" "sub_insn_off (g p) = sub_insn_off p" "sub_insn_off (h p) = sub_insn_off p" for p
    by (simp_all add: g_def h_def shape_def flag_unprocessed split: option.split)
  have obj': "obj' = upd_prog prog h (upd_prog main g obj)"
    using run p by (auto simp: redirect_call_def Let_def keep_def result_simps set_insn_def g_def h_def is'_def f_def k_def place_def
        upd_prog_def list_update_id split: if_splits option.splits sum.splits)
  have k: "k < length (insns (programs obj ! main))"
    using segment_in_code [OF l prog(1)] prog(2) by (simp add: k_def plen_def)
  have views: "insns (programs obj' ! j) = (if j = main then is' else insns (programs obj ! j))"
      "insns_cnt (programs obj' ! j) = insns_cnt (programs obj ! j)" "sub_insn_off (programs obj' ! j) = sub_insn_off (programs obj ! j)" for j
    using m p by (simp_all add: obj' upd_prog_nth gh)
  show pl: "place obj' j = place obj j" for j by (simp add: place_def views)
  have "same_lookups obj obj'" unfolding obj' by (intro same_lookups_updI same_lookups_upd) (simp_all add: gh)
  then have lk: "same_lookups obj0 obj'" using same_lookups_trans l by (auto simp: laid_out_def)
  show "laid_out main obj0 js obj'"
    using l lk by (simp add: laid_out_def pl views plen_def is'_def)
  show "at main obj' prog x = (at main obj prog x)\<lparr>imm := of_nat (place obj t) - of_nat (place obj prog + x) - 1\<rparr>"
    using k by (simp add: at_def pl views is'_def f_def flip: k_def)
  show "at main obj' q y = at main obj q y" if "q \<in> set js" "y < plen obj0 q" "q \<noteq> prog \<or> y \<noteq> x"
  proof -
    have "place obj q + y \<noteq> k"
      using segments_apart [OF l that(1) prog(1) _ that(2) prog(2)] that(3) by (cases "q = prog") (auto simp: k_def)
    then show ?thesis by (simp add: at_def pl views is'_def)
  qed
qed

text \<open>No program but the first is there without a call of it by an earlier one.\<close>

definition called :: "bpf_object \<Rightarrow> nat list \<Rightarrow> bool" where
  "called obj js \<longleftrightarrow>
     (\<forall>m. 0 < m \<and> m < length js \<longrightarrow>
        (\<exists>k < m. \<exists>x < plen obj (js ! k). insn_is_subprog_call (own obj (js ! k) x) \<and> callee obj (js ! k) x = Inr (Some (js ! m))))"

lemma called_single [simp]: "called obj [j]"
  unfolding called_def by fastforce

lemma called_append:
  assumes "called obj js" "prog \<in> set js" "x < plen obj prog" "insn_is_subprog_call (own obj prog x)" "callee obj prog x = Inr (Some t)"
  shows "called obj (js @ [t])"
  unfolding called_def
proof (intro allI impI)
  fix m assume m: "0 < m \<and> m < length (js @ [t])"
  show "\<exists>k < m. \<exists>x < plen obj ((js @ [t]) ! k). insn_is_subprog_call (own obj ((js @ [t]) ! k) x) \<and>
      callee obj ((js @ [t]) ! k) x = Inr (Some ((js @ [t]) ! m))"
  proof (cases "m < length js")
    case True
    then obtain k x where k: "k < m" "x < plen obj (js ! k)" "insn_is_subprog_call (own obj (js ! k) x)" "callee obj (js ! k) x = Inr (Some (js ! m))"
      using assms(1) m unfolding called_def by blast
    then have "(js @ [t]) ! k = js ! k" "(js @ [t]) ! m = js ! m" using True by (simp_all add: nth_append)
    then show ?thesis using k by (intro exI [of _ k] conjI exI [of _ x]) simp_all
  next
    case False
    then have last: "m = length js" using m by simp
    obtain k where k: "k < length js" "js ! k = prog" using assms(2) by (auto simp: in_set_conv_nth)
    have "(js @ [t]) ! k = prog" "(js @ [t]) ! m = t" using k last by (simp_all add: nth_append)
    then show ?thesis using k(1) last assms(3-5) by auto
  qed
qed

text \<open>
  The instructions of program \<open>prog\<close> from \<open>a\<close> to \<open>b\<close> have been linked: programs may have been added, each linked
  as a whole; what was placed before is unchanged.
\<close>

definition progress :: "nat \<Rightarrow> bpf_object \<Rightarrow> nat \<Rightarrow> nat list \<Rightarrow> bpf_object \<Rightarrow> nat list \<Rightarrow> bpf_object \<Rightarrow> nat \<Rightarrow> nat \<Rightarrow> bool" where
  "progress main obj0 prog js obj js' obj' a b \<longleftrightarrow>
     (\<exists>new. js' = js @ new \<and> laid_out main obj0 js' obj' \<and>
       (\<forall>q \<in> set new. \<forall>x < plen obj0 q. linked_at main obj0 js' obj' q x) \<and>
       (\<forall>q \<in> set js. \<forall>x < plen obj0 q. (q = prog \<and> a \<le> x \<and> x < b) \<or> at main obj' q x = at main obj q x) \<and>
       (\<forall>x. a \<le> x \<and> x < b \<longrightarrow> linked_at main obj0 js' obj' prog x) \<and>
       (called obj0 js \<longrightarrow> called obj0 js'))"

lemma progress_called: "progress main obj0 prog js obj js' obj' a b \<Longrightarrow> called obj0 js \<Longrightarrow> called obj0 js'"
  unfolding progress_def by blast

lemma progressE:
  assumes "progress main obj0 prog js obj js' obj' a b"
  obtains new where "js' = js @ new" "laid_out main obj0 js' obj'"
    "\<forall>q \<in> set new. \<forall>x < plen obj0 q. linked_at main obj0 js' obj' q x"
    "\<forall>q \<in> set js. \<forall>x < plen obj0 q. (q = prog \<and> a \<le> x \<and> x < b) \<or> at main obj' q x = at main obj q x"
    "\<forall>x. a \<le> x \<and> x < b \<longrightarrow> linked_at main obj0 js' obj' prog x"
  using assms unfolding progress_def by (elim exE conjE) (rule that)

lemma progress_trans:
  assumes p1: "progress main obj0 prog js o1 js1 o2 a b" and p2: "progress main obj0 prog js1 o2 js2 o3 b c"
    and l: "laid_out main obj0 js o1" "prog \<in> set js" and ab: "a \<le> b" "b \<le> c" "c \<le> plen obj0 prog"
  shows "progress main obj0 prog js o1 js2 o3 a c"
proof -
  obtain n1 where n1: "js1 = js @ n1" "laid_out main obj0 js1 o2"
      "\<forall>q \<in> set n1. \<forall>x < plen obj0 q. linked_at main obj0 js1 o2 q x"
      "\<forall>q \<in> set js. \<forall>x < plen obj0 q. (q = prog \<and> a \<le> x \<and> x < b) \<or> at main o2 q x = at main o1 q x"
      "\<forall>x. a \<le> x \<and> x < b \<longrightarrow> linked_at main obj0 js1 o2 prog x"
    using p1 by (rule progressE)
  obtain n2 where n2: "js2 = js1 @ n2" "laid_out main obj0 js2 o3"
      "\<forall>q \<in> set n2. \<forall>x < plen obj0 q. linked_at main obj0 js2 o3 q x"
      "\<forall>q \<in> set js1. \<forall>x < plen obj0 q. (q = prog \<and> b \<le> x \<and> x < c) \<or> at main o3 q x = at main o2 q x"
      "\<forall>x. b \<le> x \<and> x < c \<longrightarrow> linked_at main obj0 js2 o3 prog x"
    using p2 by (rule progressE)
  have keep: "linked_at main obj0 js2 o3 q x"
    if "linked_at main obj0 js1 o2 q x" "q \<in> set js1" "at main o3 q x = at main o2 q x" for q x
    by (rule linked_at_mono [OF that(1,2)]) (use n2 laid_out_grows [OF n1(2)] that(3) in auto)
  have "prog \<notin> set n1" using n1(1,2) l(2) by (auto simp: laid_out_def)
  then have "linked_at main obj0 js2 o3 q x" if "q \<in> set (n1 @ n2)" "x < plen obj0 q" for q x
  proof (cases "q \<in> set n1")
    case True
    then have "q \<noteq> prog" "q \<in> set js1" using \<open>prog \<notin> set n1\<close> n1(1) by auto
    then show ?thesis using keep [of q x] n1(3) n2(4) True that(2) by blast
  next
    case False
    then show ?thesis using that n2(3) by simp
  qed
  moreover have "linked_at main obj0 js2 o3 prog x" if "a \<le> x" "x < c" for x
  proof (cases "x < b")
    case True
    have "x < plen obj0 prog" "prog \<in> set js1" using that(2) ab(3) n1(1) l(2) by simp_all
    then have "at main o3 prog x = at main o2 prog x" using bspec [OF n2(4), of prog] True by (meson not_less)
    then show ?thesis using keep [of prog x] n1(5) that True \<open>prog \<in> set js1\<close> by blast
  next
    case False
    then show ?thesis using n2(5) that by simp
  qed
  moreover have "(q = prog \<and> a \<le> x \<and> x < c) \<or> at main o3 q x = at main o1 q x" if "q \<in> set js" "x < plen obj0 q" for q x
  proof -
    have "q \<in> set js1" using that(1) n1(1) by simp
    then have "(q = prog \<and> b \<le> x \<and> x < c) \<or> at main o3 q x = at main o2 q x" using n2(4) that(2) by blast
    moreover have "(q = prog \<and> a \<le> x \<and> x < b) \<or> at main o2 q x = at main o1 q x" using n1(4) that by blast
    ultimately show ?thesis using ab by auto
  qed
  ultimately show ?thesis
    unfolding progress_def using n1(1) n2(1,2) progress_called [OF p1] progress_called [OF p2] by (intro exI [of _ "n1 @ n2"]) simp
qed

lemma sub_insn_idx_same:
  assumes "shape p = shape q" "insn_is_subprog_call i"
  shows "sub_insn_idx p x (map_option ((!) (p_relocs p)) (find_prog_insn_relo p x)) i =
    sub_insn_idx q x (map_option ((!) (p_relocs q)) (find_prog_insn_relo q x)) i"
proof (cases "find_prog_insn_relo q x")
  case None
  then show ?thesis using find_relo_same [OF assms(1)] shape_eqD(2) [OF assms(1)] by (simp add: sub_insn_idx_def)
next
  case (Some j)
  then have "rd_sym_off (p_relocs p ! j) = rd_sym_off (p_relocs q ! j)"
    using shape_eqD(5) [OF assms(1)] find_relo_bound by blast
  then show ?thesis using Some find_relo_same [OF assms(1)] by (simp add: sub_insn_idx_def)
qed

definition links :: "nat \<Rightarrow> bpf_object \<Rightarrow> (nat \<Rightarrow> bpf_object \<Rightarrow> unit result \<times> bpf_object) \<Rightarrow> bool" where
  "links main obj0 f \<longleftrightarrow>
     (\<forall>t js obj obj'. laid_out main obj0 js obj \<longrightarrow> t \<in> set js \<longrightarrow> (\<forall>y < plen obj0 t. at main obj t y = own obj0 t y) \<longrightarrow>
        f t obj = (Inr (), obj') \<longrightarrow> (\<exists>js'. progress main obj0 t js obj js' obj' 0 (plen obj0 t)))"

lemma reloc_call_cases:
  assumes l: "laid_out main obj0 js obj" and prog: "prog \<in> set js" "x < plen obj0 prog" and own: "at main obj prog x = own obj0 prog x"
    and run: "reloc_call env rec main prog x obj = (r, obj')" and call: "insn_is_subprog_call (own obj0 prog x)"
  obtains e where "r = Inl e" "obj' = obj" "e = LIBBPF_ERRNO__RELOC \<or> callee obj0 prog x = Inl e"
  | t relo where "callee obj0 prog x = Inr (Some t)" "t < length (programs obj0)" "p_sec_idx (programs obj0 ! t) = text_idx obj0"
      "(r, obj') = and_then (if place obj t = 0 then and_then (append_subprog (link_alloc env) main t obj) (rec t) else (Inr (), obj))
         (redirect_call main prog t x relo)"
proof -
  have lk: "same_lookups obj0 obj" using l by (simp add: laid_out_def)
  have p0: "prog < length (programs obj0)" using laid_out_lt [OF l prog(1)] by blast
  note sh = same_lookups_nth [OF lk p0]
  have "place obj prog + x < plen obj main" using segment_in_code [OF l prog(1)] prog(2) by simp
  then have insn: "array_get (insns (programs obj ! main)) (sub_insn_off (programs obj ! prog) + x) = Inr (own obj0 prog x)"
    using own by (simp add: array_get_def plen_def place_def at_def)
  have ef: "efile obj = efile obj0" using lk by (simp add: same_lookups_def)
  have callee: "find_prog_by_sec_insn obj (nat (text_shndx (efile obj) mod 2 ^ 64))
      (sub_insn_idx (programs obj ! prog) x (map_option ((!) (p_relocs (programs obj ! prog))) (find_prog_insn_relo (programs obj ! prog) x))
        (own obj0 prog x)) = callee obj0 prog x"
    by (simp add: callee_def Let_def find_prog_same [OF lk] ef text_idx_def sub_insn_idx_same [OF sh call])
  have ft: "t < length (programs obj0) \<and> p_sec_idx (programs obj0 ! t) = text_idx obj0" if "callee obj0 prog x = Inr (Some t)" for t
    using that find_prog_text by (auto simp: callee_def Let_def)
  note run' = run [unfolded reloc_call_def Let_def insn, simplified, unfolded callee]
  show thesis
  proof (cases "\<exists>z. find_prog_insn_relo (programs obj ! prog) x = Some z \<and> rd_type (p_relocs (programs obj ! prog) ! z) \<noteq> RELO_CALL")
    case True
    then show thesis using run' call that(1) by auto
  next
    case False
    show thesis
    proof (cases "callee obj0 prog x")
      case (Inl e)
      then show thesis using run' call that(1) False by (auto split: if_splits)
    next
      case (Inr c)
      show thesis
      proof (cases c)
        case None
        then show thesis using run' call that(1) False Inr by (auto split: if_splits)
      next
        case (Some t)
        have "(r, obj') = and_then (if place obj t = 0 then and_then (append_subprog (link_alloc env) main t obj) (rec t) else (Inr (), obj))
           (redirect_call main prog t x (find_prog_insn_relo (programs obj ! prog) x))"
          using run' call False Inr Some by (auto simp: place_def split: if_splits)
        then show thesis using that(2) [of t] ft [of t] Inr Some by blast
      qed
    qed
  qed
qed

lemma reloc_call_ok:
  assumes ok: "linkable main obj0" and rec: "links main obj0 rec"
    and l: "laid_out main obj0 js obj" and prog: "prog \<in> set js" "x < plen obj0 prog" and own: "at main obj prog x = own obj0 prog x"
    and run: "reloc_call env rec main prog x obj = (Inr (), obj')"
  shows "\<exists>js'. progress main obj0 prog js obj js' obj' x (Suc x)"
proof (cases "insn_is_subprog_call (own obj0 prog x)")
  case False
  have "place obj prog + x < plen obj main" using segment_in_code [OF l prog(1)] prog(2) by simp
  then have "obj' = obj" using run False own by (auto simp: reloc_call_def array_get_def plen_def place_def at_def Let_def)
  then have "progress main obj0 prog js obj js obj' x (Suc x)"
    using l own False by (auto simp: progress_def linked_at_def less_Suc_eq_le)
  then show ?thesis ..
next
  case True
  obtain t relo where t: "callee obj0 prog x = Inr (Some t)" "t < length (programs obj0)" "p_sec_idx (programs obj0 ! t) = text_idx obj0"
      and r: "(Inr (), obj') = and_then (if place obj t = 0 then and_then (append_subprog (link_alloc env) main t obj) (rec t) else (Inr (), obj))
         (redirect_call main prog t x relo)"
    by (rule reloc_call_cases [OF l prog own run True]) auto
  have m: "main < length (programs obj)" "main \<in> set js" using laid_out_main [OF l] by simp_all
  have pm: "place obj main = 0"
    using l by (cases js) (auto simp: laid_out_def)
  have pos: "0 < insns_cnt (programs obj ! main)"
    using segment_in_code [OF l prog(1)] prog(2) l by (simp add: laid_out_def)
  have "\<exists>js1 o1. progress main obj0 prog js obj js1 o1 x x \<and> t \<in> set js1 \<and> t \<noteq> main \<and> redirect_call main prog t x relo o1 = (Inr (), obj')"
  proof (cases "place obj t = 0")
    case True
    then obtain o1 o2 where o: "append_subprog (link_alloc env) main t obj = (Inr (), o1)" "rec t o1 = (Inr (), o2)"
        "redirect_call main prog t x relo o2 = (Inr (), obj')"
      using r by (auto simp: and_then_def split: prod.splits sum.splits)
    have tm: "t \<noteq> main" using o(1) append_self_fails [OF m(1) pos] by blast
    have tj: "t \<notin> set js" using placed_later [OF l ok _ tm] True by auto
    note ap = append_subprog_ok [OF l ok t(2) tj t(3) o(1)]
    obtain js2 where js2: "progress main obj0 t (js @ [t]) o1 js2 o2 0 (plen obj0 t)"
      using rec [unfolded links_def, rule_format, OF ap(1) _ ap(3) o(2)] by auto
    then obtain new where new: "js2 = (js @ [t]) @ new" "laid_out main obj0 js2 o2"
        "\<forall>q \<in> set new. \<forall>x < plen obj0 q. linked_at main obj0 js2 o2 q x"
        "\<forall>q \<in> set (js @ [t]). \<forall>x < plen obj0 q. (q = t \<and> 0 \<le> x \<and> x < plen obj0 t) \<or> at main o2 q x = at main o1 q x"
        "\<forall>x. 0 \<le> x \<and> x < plen obj0 t \<longrightarrow> linked_at main obj0 js2 o2 t x"
      by (rule progressE)
    have "called obj0 js \<longrightarrow> called obj0 js2"
      using called_append [OF _ prog \<open>insn_is_subprog_call (own obj0 prog x)\<close> t(1)] progress_called [OF js2] by blast
    moreover have "at main o2 q y = at main obj q y" if "q \<in> set js" "y < plen obj0 q" for q y
    proof -
      have "q \<noteq> t" using that(1) tj by blast
      then have "at main o2 q y = at main o1 q y" using new(4) that by auto
      then show ?thesis using ap(2) [OF that] by simp
    qed
    ultimately have "progress main obj0 prog js obj js2 o2 x x"
      unfolding progress_def using new by (intro exI [of _ "t # new"]) auto
    moreover have "t \<in> set js2" using new(1) by simp
    ultimately show ?thesis using o(3) tm by blast
  next
    case False
    then have "redirect_call main prog t x relo obj = (Inr (), obj')" using r by (simp add: and_then_def)
    moreover have "t \<in> set js" using False l t(2,3) by (auto simp: laid_out_def)
    moreover have "progress main obj0 prog js obj js obj x x" using l by (auto simp: progress_def)
    moreover have "t \<noteq> main" using False pm by auto
    ultimately show ?thesis by blast
  qed
  then obtain js1 o1 where s1: "progress main obj0 prog js obj js1 o1 x x" "t \<in> set js1" "t \<noteq> main"
      "redirect_call main prog t x relo o1 = (Inr (), obj')" by blast
  obtain new where new: "js1 = js @ new" "laid_out main obj0 js1 o1"
        "\<forall>q \<in> set js. \<forall>y < plen obj0 q. (q = prog \<and> x \<le> y \<and> y < x) \<or> at main o1 q y = at main obj q y"
    using s1(1) by (rule progressE)
  have pj: "prog \<in> set js1" using prog(1) new(1) by simp
  note rd = redirect_call_ok [OF new(2) pj prog(2) s1(2,4)]
  have "at main o1 prog x = at main obj prog x" using spec [OF bspec [OF new(3) prog(1)], of x] prog(2) by simp
  then have "at main o1 prog x = own obj0 prog x" using own by simp
  then have "linked_at main obj0 js1 obj' prog x"
    using True t(1) s1(2,3) rd(2) by (simp add: linked_at_def rd(4))
  then have "progress main obj0 prog js1 o1 js1 obj' x (Suc x)"
    unfolding progress_def using rd(1,3) by (auto simp: less_Suc_eq_le dest: le_antisym)
  from progress_trans [OF s1(1) this l prog(1)] show ?thesis using prog(2) by auto
qed

lemma run_steps_ok:
  assumes ok: "linkable main obj0" and rec: "links main obj0 rec" and prog: "prog \<in> set js"
    and l: "laid_out main obj0 js obj" and own: "\<forall>x. a \<le> x \<and> x < plen obj0 prog \<longrightarrow> at main obj prog x = own obj0 prog x"
    and ab: "a \<le> plen obj0 prog"
    and run: "run_steps (reloc_call env rec main prog) [a..<plen obj0 prog] obj = (Inr (), obj')"
  shows "\<exists>js'. progress main obj0 prog js obj js' obj' a (plen obj0 prog)"
  using prog l own ab run
proof (induction "plen obj0 prog - a" arbitrary: a js obj)
  case 0
  then have "obj' = obj" "a = plen obj0 prog" by simp_all
  then have "progress main obj0 prog js obj js obj' a (plen obj0 prog)" using 0 by (auto simp: progress_def)
  then show ?case ..
next
  case (Suc n)
  then have a: "a < plen obj0 prog" by simp
  obtain o1 where o1: "reloc_call env rec main prog a obj = (Inr (), o1)"
      "run_steps (reloc_call env rec main prog) [Suc a..<plen obj0 prog] o1 = (Inr (), obj')"
    using Suc.prems(5) a by (auto simp: upt_conv_Cons and_then_def split: prod.splits sum.splits)
  obtain js1 where js1: "progress main obj0 prog js obj js1 o1 a (Suc a)"
    using reloc_call_ok [OF ok rec Suc.prems(2,1) a _ o1(1)] Suc.prems(3) a by auto
  then obtain new where new: "js1 = js @ new" "laid_out main obj0 js1 o1"
        "\<forall>q \<in> set js. \<forall>y < plen obj0 q. (q = prog \<and> a \<le> y \<and> y < Suc a) \<or> at main o1 q y = at main obj q y"
    by (rule progressE)
  have own1: "\<forall>x. Suc a \<le> x \<and> x < plen obj0 prog \<longrightarrow> at main o1 prog x = own obj0 prog x"
  proof (intro allI impI)
    fix x assume x: "Suc a \<le> x \<and> x < plen obj0 prog"
    then have "at main o1 prog x = at main obj prog x"
      using spec [OF bspec [OF new(3) Suc.prems(1)], of x] by linarith
    then show "at main o1 prog x = own obj0 prog x" using Suc.prems(3) x by auto
  qed
  have "\<exists>js'. progress main obj0 prog js1 o1 js' obj' (Suc a) (plen obj0 prog)"
    by (rule Suc.hyps(1) [OF _ _ new(2) own1 _ o1(2)]) (use Suc.hyps(2) Suc.prems(1) new(1) a in auto)
  then obtain js2 where js2: "progress main obj0 prog js1 o1 js2 obj' (Suc a) (plen obj0 prog)" ..
  have "progress main obj0 prog js obj js2 obj' a (plen obj0 prog)"
    by (rule progress_trans [OF js1 js2 Suc.prems(2,1)]) (use a in auto)
  then show ?case ..
qed

lemma reloc_code_links: "linkable main obj0 \<Longrightarrow> links main obj0 (bpf_object__reloc_code depth env main)"
proof (induction depth)
  case 0
  then show ?case by (simp add: links_def)
next
  case (Suc depth)
  show ?case
    unfolding links_def
  proof (intro allI impI)
    fix t js obj obj'
    assume l: "laid_out main obj0 js obj" and t: "t \<in> set js" and own: "\<forall>y < plen obj0 t. at main obj t y = own obj0 t y"
      and run: "bpf_object__reloc_code (Suc depth) env main t obj = (Inr (), obj')"
    obtain o1 where o1: "reloc_prog_func_and_line_info env main t obj = (Inr (), o1)"
        "run_steps (reloc_call env (bpf_object__reloc_code depth env main) main t) [0..<sec_insn_cnt (programs o1 ! t)] o1 = (Inr (), obj')"
      using run by (auto simp: and_then_def split: prod.splits sum.splits)
    have same: "same_code obj o1" using info_same_code [OF o1(1)] laid_out_main [OF l] by blast
    note l1 = laid_out_same_code [OF l same]
    have t0: "t < length (programs obj0)" using laid_out_lt [OF l t] by blast
    have "same_lookups obj0 o1" using l1 by (simp add: laid_out_def)
    from shape_eqD(3) [OF same_lookups_nth [OF this t0]]
    have "sec_insn_cnt (programs o1 ! t) = plen obj0 t" using linkable_nth [OF Suc.prems t0] l t by (simp add: laid_out_def)
    then have "run_steps (reloc_call env (bpf_object__reloc_code depth env main) main t) [0..<plen obj0 t] o1 = (Inr (), obj')"
      using o1(2) by simp
    then obtain js' where js': "progress main obj0 t js o1 js' obj' 0 (plen obj0 t)"
      using run_steps_ok [OF Suc.prems Suc.IH [OF Suc.prems] t l1, of 0 env obj'] own at_same_code [OF l same t] by auto
    have "progress main obj0 t js obj js' obj' 0 (plen obj0 t)"
      using js' at_same_code [OF l same] unfolding progress_def by auto
    then show "\<exists>js'. progress main obj0 t js obj js' obj' 0 (plen obj0 t)" ..
  qed
qed

subsection \<open>Linked code\<close>

text \<open>
  The specification of a linked program: the instructions of the programs \<open>js\<close>, one after the other, with every
  call leading to the start of the program it names, and every program but the first called by an earlier one.
\<close>

definition linked_insn :: "bpf_object \<Rightarrow> nat list \<Rightarrow> nat \<Rightarrow> nat \<Rightarrow> bpf_insn \<Rightarrow> bool" where
  "linked_insn obj js k x insn \<longleftrightarrow>
     (let i = own obj (js ! k) x in
      if insn_is_subprog_call i
      then \<exists>m. 0 < m \<and> m < length js \<and> callee obj (js ! k) x = Inr (Some (js ! m)) \<and>
        insn = i\<lparr>imm := of_nat (code_len obj (take m js)) - of_nat (code_len obj (take k js) + x) - 1\<rparr>
      else insn = i)"

definition linked_code :: "nat \<Rightarrow> bpf_object \<Rightarrow> nat list \<Rightarrow> bpf_insn list \<Rightarrow> bool" where
  "linked_code main obj js is \<longleftrightarrow>
     distinct js \<and> js \<noteq> [] \<and> hd js = main \<and> set js \<subseteq> {..<length (programs obj)} \<and> (\<forall>j \<in> set js. linked_in main obj j) \<and>
     called obj js \<and> length is = code_len obj js \<and>
     (\<forall>k < length js. \<forall>x < plen obj (js ! k). linked_insn obj js k x (is ! (code_len obj (take k js) + x)))"

lemma linked_at_insn:
  assumes l: "laid_out main obj0 js obj" and k: "k < length js" and lk: "linked_at main obj0 js obj (js ! k) x"
  shows "linked_insn obj0 js k x (insns (programs obj ! main) ! (code_len obj0 (take k js) + x))"
proof -
  have pl: "place obj (js ! m) = code_len obj0 (take m js)" if "m < length js" for m using l that by (simp add: laid_out_def)
  show ?thesis
  proof (cases "insn_is_subprog_call (own obj0 (js ! k) x)")
    case False
    then show ?thesis using lk pl [OF k] by (simp add: linked_at_def linked_insn_def at_def)
  next
    case True
    then obtain t where t: "callee obj0 (js ! k) x = Inr (Some t)" "t \<in> set js" "t \<noteq> main"
        "at main obj (js ! k) x = (own obj0 (js ! k) x)\<lparr>imm := of_nat (place obj t) - of_nat (place obj (js ! k) + x) - 1\<rparr>"
      using lk by (auto simp: linked_at_def)
    obtain m where m: "m < length js" "t = js ! m" using t(2) by (auto simp: in_set_conv_nth)
    have "0 < m" using l t(3) m(2) by (cases js; cases m) (auto simp: laid_out_def)
    then show ?thesis using True t(1,4) m pl [OF k] pl [OF m(1)] by (auto simp: linked_insn_def at_def Let_def intro!: exI [of _ m])
  qed
qed

lemma linked_laid_out:
  assumes l: "laid_out main obj0 js obj" and q: "\<forall>q \<in> set js. \<forall>x < plen obj0 q. linked_at main obj0 js obj q x"
    and c: "called obj0 js"
  shows "linked_code main obj0 js (insns (programs obj ! main))"
proof -
  have "linked_insn obj0 js k x (insns (programs obj ! main) ! (code_len obj0 (take k js) + x))"
    if "k < length js" "x < plen obj0 (js ! k)" for k x
    by (rule linked_at_insn [OF l that(1)]) (use q that in auto)
  then show ?thesis using l c by (simp add: linked_code_def laid_out_def plen_def)
qed

lemma unlink_subprogs_same: "same_lookups obj (unlink_subprogs obj)"
proof -
  have "shape (unlink_subprog p) = shape p" for p
    by (simp add: unlink_subprog_def shape_def unprocessed_def)
  then show ?thesis by (simp add: same_lookups_def unlink_subprogs_def)
qed

lemma unlink_subprogs_nth:
  "j < length (programs obj) \<Longrightarrow> insns (programs (unlink_subprogs obj) ! j) = insns (programs obj ! j) \<and>
     insns_cnt (programs (unlink_subprogs obj) ! j) = insns_cnt (programs obj ! j) \<and>
     place (unlink_subprogs obj) j = (if prog_is_subprog obj (programs obj ! j) then 0 else place obj j)"
  by (simp add: unlink_subprogs_def unlink_subprog_def place_def)

lemma linked_code_same:
  assumes same: "same_lookups obj obj'" and ins: "\<And>j. j \<in> set js \<Longrightarrow> insns (programs obj' ! j) = insns (programs obj ! j)"
    and link: "linked_code main obj' js out"
  shows "linked_code main obj js out"
proof -
  have n: "length (programs obj') = length (programs obj)" by (rule same_lookups_length [OF same])
  have len: "plen obj' j = plen obj j" if "j \<in> set js" for j using ins [OF that] by (simp add: plen_def)
  have cl: "code_len obj' (take k js) = code_len obj (take k js)" for k
    unfolding code_len_def by (rule arg_cong [of _ _ sum_list]) (use len set_take_subset in fastforce)
  have ow: "own obj' j x = own obj j x" if "j \<in> set js" for j x using ins [OF that] by (simp add: own_def)
  have ca: "callee obj' j x = callee obj j x" if "j \<in> set js" "insn_is_subprog_call (own obj j x)" for j x
  proof -
    have j: "j < length (programs obj)" using link that(1) n by (auto simp: linked_code_def)
    have "text_idx obj' = text_idx obj" using same by (simp add: text_idx_def same_lookups_def)
    then show ?thesis
      using sub_insn_idx_same [OF same_lookups_nth [OF same j] that(2)] by (simp add: callee_def Let_def find_prog_same [OF same] ow [OF that(1)])
  qed
  have li: "linked_insn obj js k x i" if "k < length js" "linked_insn obj' js k x i" for k x i
    using that(2) ca [of "js ! k" x] that(1) by (auto simp: linked_insn_def Let_def ow cl)
  have cd: "called obj js"
    unfolding called_def
  proof (intro allI impI)
    fix m assume m: "0 < m \<and> m < length js"
    have "called obj' js" using link by (simp add: linked_code_def)
    then obtain k x where k: "k < m" "x < plen obj' (js ! k)" "insn_is_subprog_call (own obj' (js ! k) x)"
        "callee obj' (js ! k) x = Inr (Some (js ! m))"
      using m unfolding called_def by blast
    then have "js ! k \<in> set js" using m by simp
    then show "\<exists>k < m. \<exists>x < plen obj (js ! k). insn_is_subprog_call (own obj (js ! k) x) \<and> callee obj (js ! k) x = Inr (Some (js ! m))"
      using k len [of "js ! k"] ow [of "js ! k" x] ca [of "js ! k" x] by auto
  qed
  have cj: "code_len obj' js = code_len obj js" using cl [of "length js"] by simp
  have lj: "linked_in main obj j" if "j \<in> set js" for j
  proof -
    have "j < length (programs obj)" using link that n by (auto simp: linked_code_def)
    note shape_eqD(1) [OF same_lookups_nth [OF same this]]
    moreover have "text_idx obj' = text_idx obj" using same by (simp add: text_idx_def same_lookups_def)
    ultimately show ?thesis using link that by (auto simp: linked_code_def linked_in_def)
  qed
  show ?thesis
    using link li len lj cd by (auto simp: linked_code_def n cl cj)
qed

text \<open>A main program that can be linked: it and the sub-programs are as the collection left them.\<close>

definition main_ready :: "bpf_object \<Rightarrow> nat \<Rightarrow> bool" where
  "main_ready obj main \<longleftrightarrow>
     main < length (programs obj) \<and> sub_insn_off (programs obj ! main) = 0 \<and> \<not> prog_is_subprog obj (programs obj ! main) \<and>
     0 \<le> text_shndx (efile obj) \<and> text_shndx (efile obj) < 2 ^ 31 \<and>
     (\<forall>j < length (programs obj). j = main \<or> prog_is_subprog obj (programs obj ! j) \<longrightarrow>
        0 < sec_insn_cnt (programs obj ! j) \<and> length (insns (programs obj ! j)) = sec_insn_cnt (programs obj ! j) \<and>
        insns_cnt (programs obj ! j) = sec_insn_cnt (programs obj ! j))"

lemma main_ready_linkable:
  assumes "main_ready obj main"
  shows "linkable main (unlink_subprogs obj)"
proof -
  have m: "main < length (programs obj)" and ti: "text_shndx (efile obj) = int (text_idx obj)"
    using assms by (simp_all add: main_ready_def text_idx_def)
  have sub: "prog_is_subprog obj (programs obj ! j) \<or> j = main"
    if "j < length (programs obj)" "p_sec_idx (programs obj ! j) = text_idx obj" for j
    using that m by (cases "length (programs obj) > 1") (auto simp: prog_is_subprog_def ti)
  note n = same_lookups_length [OF unlink_subprogs_same [of obj]]
  note sh = shape_eqD(1,3) [OF same_lookups_nth [OF unlink_subprogs_same [of obj]]]
  have t: "text_idx (unlink_subprogs obj) = text_idx obj" by (simp add: text_idx_def unlink_subprogs_def)
  have whole: "0 < sec_insn_cnt (programs obj ! j) \<and> length (insns (programs obj ! j)) = sec_insn_cnt (programs obj ! j) \<and>
      insns_cnt (programs obj ! j) = sec_insn_cnt (programs obj ! j)"
    if "j < length (programs obj)" "j = main \<or> p_sec_idx (programs obj ! j) = text_idx obj" for j
  proof -
    have "j = main \<or> prog_is_subprog obj (programs obj ! j)" using sub that by blast
    then show ?thesis using assms that(1) by (auto simp: main_ready_def)
  qed
  have "place (unlink_subprogs obj) j = 0" if "j < length (programs obj)" "j = main \<or> p_sec_idx (programs obj ! j) = text_idx obj" for j
    using sub [of j] that assms unlink_subprogs_nth [OF that(1)] by (auto simp: main_ready_def place_def [of obj])
  then show ?thesis
    using whole m by (simp add: linkable_def linked_in_def n t plen_def sh unlink_subprogs_nth)
qed

lemma relocate_calls_result:
  assumes ready: "main_ready obj main" and run: "bpf_object__relocate_calls depth env main obj = (Inr (), obj')"
  shows "(\<exists>js. linked_code main obj js (insns (programs obj' ! main))) \<and> same_lookups obj obj' \<and>
    (\<forall>j < length (programs obj). j \<noteq> main \<longrightarrow> insns (programs obj' ! j) = insns (programs obj ! j) \<and>
       insns_cnt (programs obj' ! j) = insns_cnt (programs obj ! j) \<and>
       (\<not> prog_is_subprog obj (programs obj ! j) \<longrightarrow> place obj' j = place obj j))"
proof -
  let ?obj0 = "unlink_subprogs obj"
  note ok = main_ready_linkable [OF ready]
  note l = laid_out_start [OF ok]
  have "\<forall>y < plen ?obj0 main. at main ?obj0 main y = own ?obj0 main y" using ok by (simp add: at_def own_def linkable_def)
  then have "\<exists>js. progress main ?obj0 main [main] ?obj0 js obj' 0 (plen ?obj0 main)"
    by (intro reloc_code_links [OF ok, of depth env, unfolded links_def, rule_format, OF l])
      (use run in \<open>simp_all add: bpf_object__relocate_calls_def\<close>)
  then obtain js where js: "progress main ?obj0 main [main] ?obj0 js obj' 0 (plen ?obj0 main)" ..
  then obtain new where new: "js = [main] @ new" "laid_out main ?obj0 js obj'"
      "\<forall>q \<in> set new. \<forall>x < plen ?obj0 q. linked_at main ?obj0 js obj' q x"
      "\<forall>x. 0 \<le> x \<and> x < plen ?obj0 main \<longrightarrow> linked_at main ?obj0 js obj' main x"
    by (rule progressE)
  have code: "linked_code main ?obj0 js (insns (programs obj' ! main))"
    by (rule linked_laid_out [OF new(2)]) (use new(1,3,4) progress_called [OF js] in auto)
  have "linked_code main obj js (insns (programs obj' ! main))"
  proof (rule linked_code_same [OF unlink_subprogs_same _ code])
    fix j assume "j \<in> set js"
    then show "insns (programs ?obj0 ! j) = insns (programs obj ! j)"
      using laid_out_lt [OF new(2)] same_lookups_length [OF unlink_subprogs_same [of obj]] unlink_subprogs_nth by auto
  qed
  moreover have "same_lookups obj obj'"
    using new(2) same_lookups_trans [OF unlink_subprogs_same] by (auto simp: laid_out_def)
  moreover have "place obj' j = place obj j" if "j < length (programs obj)" "j \<noteq> main" "\<not> prog_is_subprog obj (programs obj ! j)" for j
  proof -
    have "p_sec_idx (programs ?obj0 ! j) \<noteq> text_idx ?obj0"
      using that ready shape_eqD(1) [OF same_lookups_nth [OF unlink_subprogs_same that(1)]]
      by (auto simp: main_ready_def prog_is_subprog_def text_idx_def unlink_subprogs_def)
    then have "j \<notin> set js" using new(2) that(2) by (auto simp: laid_out_def linked_in_def)
    then show ?thesis
      using new(2) that unlink_subprogs_nth [OF that(1)] same_lookups_length [OF unlink_subprogs_same [of obj]] by (simp add: laid_out_def)
  qed
  moreover have "insns (programs obj' ! j) = insns (programs obj ! j) \<and> insns_cnt (programs obj' ! j) = insns_cnt (programs obj ! j)"
    if "j < length (programs obj)" "j \<noteq> main" for j
    using new(2) that unlink_subprogs_nth [OF that(1)] same_lookups_length [OF unlink_subprogs_same [of obj]] by (simp add: laid_out_def)
  ultimately show ?thesis by blast
qed

text \<open>
  C10. Linking implements the specification: when it succeeds, the main program is its own code followed by
  the sub-programs it needs, those that it or one of them before calls, each once, with every call redirected to the
  start of the program it names, and no other program has changed.
\<close>

theorem relocate_calls_correct:
  assumes "main_ready obj main" "bpf_object__relocate_calls depth env main obj = (Inr (), obj')"
  shows "(\<exists>js. linked_code main obj js (insns (programs obj' ! main))) \<and>
    (\<forall>j < length (programs obj). j \<noteq> main \<longrightarrow> insns (programs obj' ! j) = insns (programs obj ! j))"
  using relocate_calls_result [OF assms] by blast

subsection \<open>The depth of the recursion\<close>

lemma for_errors: "copied_range data rs lo hi recs rng = Inl e \<Longrightarrow> e = OOB"
  by (induction data rs lo hi recs rng rule: copied_range.induct)
    (auto simp: result_simps Let_def dest: read_Inl split: if_splits)

lemma adjust_insn_offs_error: "adjust_insn_offs data a rs cnt n = Inl e \<Longrightarrow> e = OOB"
  by (induction data a rs cnt n rule: adjust_insn_offs.induct)
    (auto simp: result_simps write_u32_def dest: read_Inl split: if_splits)

lemma append_records_error: "append_records alloc data ei adj s0 s1 out = Inl e \<Longrightarrow> e = OOB \<or> e = ENOMEM"
  by (cases out) (auto simp: append_records_def Let_def result_simps dest: adjust_insn_offs_error)

lemma name_error: "btf__name_by_offset b n = Inl e \<Longrightarrow> e = OOB"
proof -
  have "btf__str_by_offset b m = Inl e \<Longrightarrow> e = OOB" for m
    by (induction b m rule: btf__str_by_offset.induct) (auto split: if_splits option.splits)
  then show "btf__name_by_offset b n = Inl e \<Longrightarrow> e = OOB" by (simp add: btf__name_by_offset_def)
qed

lemma adjust_error: "adjust_prog_info_from alloc b prog data ei sec out = Inl e \<Longrightarrow> e \<noteq> NONTERM"
proof (induction alloc b prog data ei sec out rule: adjust_prog_info_from.induct)
  case (1 alloc b prog data ei sec out)
  note run = 1(2) [unfolded adjust_prog_info_from.simps [of alloc b prog data ei sec out]]
  show ?case
  proof (cases "\<exists>o1 n s1. sec < ei_info ei + unat (ei_len ei) \<and> read_words data sec 2 = Inr [o1, n] \<and>
      btf__name_by_offset b o1 = Inr (Some s1) \<and> s1 \<noteq> p_sec_name prog")
    case True
    then obtain o1 n s1 where c: "sec < ei_info ei + unat (ei_len ei)" "read_words data sec 2 = Inr [o1, n]"
        "btf__name_by_offset b o1 = Inr (Some s1)" "s1 \<noteq> p_sec_name prog" by blast
    then have "adjust_prog_info_from alloc b prog data ei (sec + 8 + unat (ei_rec_size ei * n)) out = Inl e" using run by simp
    then show ?thesis using 1(1) [of "[o1, n]" o1 "[n]" n "[]" "Some s1" s1] c by blast
  next
    case False
    then show ?thesis
      using run by (auto simp: result_simps dest: for_errors append_records_error name_error
          split: if_splits sum.splits list.splits option.splits)
  qed
qed

lemma info_error:
  assumes "reloc_prog_func_and_line_info env main prog obj = (Inl e, obj')"
  shows "e \<noteq> NONTERM"
proof -
  have "reloc_info_step m (adjust_prog_btf_ext_info alloc b p data ei) old = Inl e \<Longrightarrow> e \<noteq> NONTERM" for m alloc b p data ei old
    using adjust_error by (auto simp: reloc_info_step_def adjust_prog_btf_ext_info_def split: if_splits sum.splits)
  then show ?thesis
    using assms by (auto simp: reloc_prog_func_and_line_info_def and_then_def keep_def Let_def result_simps
        split: option.splits if_splits sum.splits prod.splits)
qed

text \<open>
  The recursion at program \<open>t\<close> with \<open>js\<close> placed ends: every deeper level has placed one program more.
\<close>

definition ends :: "nat \<Rightarrow> bpf_object \<Rightarrow> nat \<Rightarrow> (nat \<Rightarrow> bpf_object \<Rightarrow> unit result \<times> bpf_object) \<Rightarrow> bool" where
  "ends main obj0 room f \<longleftrightarrow>
     (\<forall>t js obj. laid_out main obj0 js obj \<longrightarrow> t \<in> set js \<longrightarrow> (\<forall>y < plen obj0 t. at main obj t y = own obj0 t y) \<longrightarrow>
        length (programs obj0) < room + length js \<longrightarrow> fst (f t obj) \<noteq> Inl NONTERM)"

lemma callee_error: "callee obj j x = Inl e \<Longrightarrow> e = OOB"
  by (auto simp: callee_def Let_def find_prog_by_sec_insn_def result_simps)

lemma redirect_error: "fst (redirect_call main prog t x relo obj) \<noteq> Inl NONTERM"
  by (auto simp: redirect_call_def Let_def keep_def set_insn_def result_simps split: sum.splits if_splits)

lemma append_error: "fst (append_subprog alloc main t obj) \<noteq> Inl NONTERM"
  by (simp add: append_subprog_def Let_def)

lemma and_then_ends:
  "fst m \<noteq> Inl NONTERM \<Longrightarrow> (\<And>obj. m = (Inr (), obj) \<Longrightarrow> fst (f obj) \<noteq> Inl NONTERM) \<Longrightarrow> fst (and_then m f) \<noteq> Inl NONTERM"
  by (cases m; cases "fst m") (auto simp: and_then_def)

lemma reloc_call_ends:
  assumes ok: "linkable main obj0" and rec: "ends main obj0 room rec"
    and l: "laid_out main obj0 js obj" and prog: "prog \<in> set js" "x < plen obj0 prog" and own: "at main obj prog x = own obj0 prog x"
    and room: "length (programs obj0) < Suc (room + length js)"
  shows "fst (reloc_call env rec main prog x obj) \<noteq> Inl NONTERM"
proof (cases "insn_is_subprog_call (own obj0 prog x)")
  case False
  have "place obj prog + x < plen obj main" using segment_in_code [OF l prog(1)] prog(2) by simp
  then show ?thesis using False own by (simp add: reloc_call_def array_get_def plen_def place_def at_def Let_def)
next
  case True
  obtain r obj' where run: "reloc_call env rec main prog x obj = (r, obj')" by fastforce
  show ?thesis
  proof (rule reloc_call_cases [OF l prog own run True])
    fix e assume "r = Inl e" "e = LIBBPF_ERRNO__RELOC \<or> callee obj0 prog x = Inl e"
    then show ?thesis using run callee_error by auto
  next
    fix t relo
    assume t: "t < length (programs obj0)" "p_sec_idx (programs obj0 ! t) = text_idx obj0"
      and r: "(r, obj') = and_then (if place obj t = 0 then and_then (append_subprog (link_alloc env) main t obj) (rec t) else (Inr (), obj))
         (redirect_call main prog t x relo)"
    have "fst (rec t o1) \<noteq> Inl NONTERM" if z: "place obj t = 0" and o1: "append_subprog (link_alloc env) main t obj = (Inr (), o1)" for o1
    proof -
      have pos: "0 < insns_cnt (programs obj ! main)"
        using segment_in_code [OF l prog(1)] prog(2) l by (simp add: laid_out_def)
      have tm: "t \<noteq> main" using o1 append_self_fails [OF conjunct1 [OF laid_out_main [OF l]] pos] by blast
      have tj: "t \<notin> set js" using placed_later [OF l ok _ tm] z by auto
      note ap = append_subprog_ok [OF l ok t(1) tj t(2) o1]
      show ?thesis using rec [unfolded ends_def, rule_format, OF ap(1) _ ap(3)] room by simp
    qed
    then have "place obj t = 0 \<Longrightarrow> fst (and_then (append_subprog (link_alloc env) main t obj) (rec t)) \<noteq> Inl NONTERM"
      by (intro and_then_ends append_error) blast
    then have "fst (if place obj t = 0 then and_then (append_subprog (link_alloc env) main t obj) (rec t) else (Inr (), obj)) \<noteq> Inl NONTERM"
      by simp
    then have "fst (and_then (if place obj t = 0 then and_then (append_subprog (link_alloc env) main t obj) (rec t) else (Inr (), obj))
         (redirect_call main prog t x relo)) \<noteq> Inl NONTERM"
      by (rule and_then_ends) (rule redirect_error)
    then show ?thesis using r run by (metis fst_conv)
  qed
qed

lemma run_steps_ends:
  assumes ok: "linkable main obj0" and rec: "ends main obj0 room rec" "links main obj0 rec" and prog: "prog \<in> set js"
    and l: "laid_out main obj0 js obj" and own: "\<forall>x. a \<le> x \<and> x < plen obj0 prog \<longrightarrow> at main obj prog x = own obj0 prog x"
    and room: "length (programs obj0) < Suc (room + length js)"
  shows "fst (run_steps (reloc_call env rec main prog) [a..<plen obj0 prog] obj) \<noteq> Inl NONTERM"
  using prog l own room
proof (induction "plen obj0 prog - a" arbitrary: a js obj)
  case 0
  then show ?case by simp
next
  case (Suc n)
  then have a: "a < plen obj0 prog" by simp
  have own_a: "at main obj prog a = own obj0 prog a" using Suc.prems(3) a by simp
  have "fst (and_then (reloc_call env rec main prog a obj) (run_steps (reloc_call env rec main prog) [Suc a..<plen obj0 prog])) \<noteq> Inl NONTERM"
  proof (rule and_then_ends)
    show "fst (reloc_call env rec main prog a obj) \<noteq> Inl NONTERM"
      by (rule reloc_call_ends [OF ok rec(1) Suc.prems(2,1) a own_a Suc.prems(4)])
    fix o1 assume o1: "reloc_call env rec main prog a obj = (Inr (), o1)"
    obtain js1 where js1: "progress main obj0 prog js obj js1 o1 a (Suc a)"
      using reloc_call_ok [OF ok rec(2) Suc.prems(2,1) a own_a o1] by blast
    then obtain new where new: "js1 = js @ new" "laid_out main obj0 js1 o1"
        "\<forall>q \<in> set js. \<forall>y < plen obj0 q. (q = prog \<and> a \<le> y \<and> y < Suc a) \<or> at main o1 q y = at main obj q y"
      by (rule progressE)
    have own1: "at main o1 prog x = own obj0 prog x" if "Suc a \<le> x" "x < plen obj0 prog" for x
      using spec [OF bspec [OF new(3) Suc.prems(1)], of x] Suc.prems(3) that by auto
    show "fst (run_steps (reloc_call env rec main prog) [Suc a..<plen obj0 prog] o1) \<noteq> Inl NONTERM"
      by (rule Suc.hyps(1) [of _ js1]) (use Suc.hyps(2) Suc.prems(1,4) new(1,2) own1 in auto)
  qed
  then show ?case using a by (simp add: upt_conv_Cons)
qed

lemma reloc_code_ends: "linkable main obj0 \<Longrightarrow> ends main obj0 depth (bpf_object__reloc_code depth env main)"
proof (induction depth)
  case 0
  have "length js \<le> length (programs obj0)" if "laid_out main obj0 js obj" for js obj
  proof -
    have "distinct js" "set js \<subseteq> {..<length (programs obj0)}" using that by (simp_all add: laid_out_def)
    then show ?thesis by (metis card_lessThan card_mono distinct_card finite_lessThan)
  qed
  then show ?case by (fastforce simp: ends_def)
next
  case (Suc depth)
  show ?case
    unfolding ends_def
  proof (intro allI impI)
    fix t js obj
    assume l: "laid_out main obj0 js obj" and t: "t \<in> set js" and own: "\<forall>y < plen obj0 t. at main obj t y = own obj0 t y"
      and room: "length (programs obj0) < Suc depth + length js"
    have "fst (and_then (reloc_prog_func_and_line_info env main t obj) (\<lambda>obj. run_steps (reloc_call env (bpf_object__reloc_code depth env main) main t)
        [0..<sec_insn_cnt (programs obj ! t)] obj)) \<noteq> Inl NONTERM"
    proof (rule and_then_ends)
      show "fst (reloc_prog_func_and_line_info env main t obj) \<noteq> Inl NONTERM"
        using info_error [of env main t obj] by (metis prod.collapse)
      fix o1 assume o1: "reloc_prog_func_and_line_info env main t obj = (Inr (), o1)"
      have same: "same_code obj o1" using info_same_code [OF o1] laid_out_main [OF l] by blast
      note l1 = laid_out_same_code [OF l same]
      have t0: "t < length (programs obj0)" using laid_out_lt [OF l t] by blast
      have "same_lookups obj0 o1" using l1 by (simp add: laid_out_def)
      from shape_eqD(3) [OF same_lookups_nth [OF this t0]]
      have cnt: "sec_insn_cnt (programs o1 ! t) = plen obj0 t" using linkable_nth [OF Suc.prems t0] l t by (simp add: laid_out_def)
      show "fst (run_steps (reloc_call env (bpf_object__reloc_code depth env main) main t) [0..<sec_insn_cnt (programs o1 ! t)] o1) \<noteq> Inl NONTERM"
        unfolding cnt
        by (rule run_steps_ends [OF Suc.prems Suc.IH [OF Suc.prems] reloc_code_links [OF Suc.prems] t l1])
          (use own at_same_code [OF l same t] room in auto)
    qed
    then show "fst (bpf_object__reloc_code (Suc depth) env main t obj) \<noteq> Inl NONTERM" by simp
  qed
qed

lemma relocate_calls_ends:
  assumes "main_ready obj main" "length (programs obj) \<le> depth"
  shows "fst (bpf_object__relocate_calls depth env main obj) \<noteq> Inl NONTERM"
proof -
  let ?obj0 = "unlink_subprogs obj"
  note ok = main_ready_linkable [OF assms(1)]
  have "\<forall>y < plen ?obj0 main. at main ?obj0 main y = own ?obj0 main y" using ok by (simp add: at_def own_def linkable_def)
  then show ?thesis
    using reloc_code_ends [OF ok, of depth env, unfolded ends_def, rule_format, OF laid_out_start [OF ok], of main] assms(2)
      same_lookups_length [OF unlink_subprogs_same [of obj]]
    by (simp add: bpf_object__relocate_calls_def)
qed

text \<open>
  C17. The recursion of the linker is never deeper than the number of programs of the object: with that depth
  it returns, whatever calls the programs contain.
\<close>

theorem relocate_calls_terminates:
  assumes "main_ready obj main" "length (programs obj) \<le> depth"
  shows "fst (bpf_object__relocate_calls depth env main obj) \<noteq> Inl NONTERM"
  using relocate_calls_ends [OF assms] .

subsection \<open>All relocations of an object\<close>

text \<open>What the linking of the main programs needs of the object, and keeps for those still to come.\<close>

definition mains_ready :: "bpf_object \<Rightarrow> nat set \<Rightarrow> bool" where
  "mains_ready obj todo \<longleftrightarrow> (\<forall>i \<in> todo. i < length (programs obj) \<and> (\<not> prog_is_subprog obj (programs obj ! i) \<longrightarrow> main_ready obj i))"

lemma same_lookups_subprog:
  assumes "same_lookups obj obj'" "j < length (programs obj)"
  shows "prog_is_subprog obj' (programs obj' ! j) = prog_is_subprog obj (programs obj ! j)"
  using shape_eqD(1) [OF same_lookups_nth [OF assms]] same_lookups_length [OF assms(1)] assms(1)
  by (simp add: prog_is_subprog_def same_lookups_def)

lemma ready_after:
  assumes "main_ready obj main" "main_ready obj i" "bpf_object__relocate_calls depth env main obj = (Inr (), obj')" "i \<noteq> main"
  shows "main_ready obj' i"
proof -
  note r = relocate_calls_result [OF assms(1,3)]
  then have same: "same_lookups obj obj'" by blast
  note n = same_lookups_length [OF same] and sub = same_lookups_subprog [OF same]
  have "sec_insn_cnt (programs obj' ! j) = sec_insn_cnt (programs obj ! j)" if "j < length (programs obj)" for j
    using shape_eqD(3) [OF same_lookups_nth [OF same that]] .
  moreover have "efile obj' = efile obj" using same by (simp add: same_lookups_def)
  moreover have "j \<noteq> main" if "j < length (programs obj)" "j = i \<or> prog_is_subprog obj (programs obj ! j)" for j
    using that assms(1,4) by (auto simp: main_ready_def)
  ultimately show ?thesis
    using assms(2,4) r n sub by (auto simp: main_ready_def place_def)
qed

definition link_main :: "nat \<Rightarrow> link_env \<Rightarrow> nat \<Rightarrow> bpf_object \<Rightarrow> unit result \<times> bpf_object" where
  "link_main depth env i obj =
     (if prog_is_subprog obj (programs obj ! i) then (Inr (), obj) else bpf_object__relocate_calls depth env i obj)"

lemma link_mains:
  assumes "run_steps (link_main depth env) is obj = (Inr (), obj')" "distinct is" "mains_ready obj (set is)"
  shows "same_lookups obj obj' \<and> (\<forall>j < length (programs obj). j \<notin> set is \<or> prog_is_subprog obj (programs obj ! j) \<longrightarrow>
        insns (programs obj' ! j) = insns (programs obj ! j)) \<and>
     (\<forall>i \<in> set is. \<not> prog_is_subprog obj (programs obj ! i) \<longrightarrow>
        (\<exists>js. linked_code i obj js (insns (programs obj' ! i))))"
  using assms
proof (induction "is" arbitrary: obj)
  case (Cons i "is")
  have i: "i < length (programs obj)" using Cons.prems(3) by (simp add: mains_ready_def)
  show ?case
  proof (cases "prog_is_subprog obj (programs obj ! i)")
    case True
    then have run: "run_steps (link_main depth env) is obj = (Inr (), obj')"
      using Cons.prems(1) by (simp add: link_main_def [of depth env i] and_then_def)
    have "mains_ready obj (set is)" using Cons.prems(3) by (simp add: mains_ready_def)
    then show ?thesis using Cons.IH [OF run] Cons.prems(2) True by auto
  next
    case False
    then obtain o1 where o1: "bpf_object__relocate_calls depth env i obj = (Inr (), o1)" "run_steps (link_main depth env) is o1 = (Inr (), obj')"
      using Cons.prems(1) by (auto simp: link_main_def [of depth env i] and_then_Inr)
    have ri: "main_ready obj i" using Cons.prems(3) False by (simp add: mains_ready_def)
    note r = relocate_calls_result [OF ri o1(1)]
    have same: "same_lookups obj o1" using r by blast
    note n = same_lookups_length [OF same] and sub = same_lookups_subprog [OF same]
    have "mains_ready o1 (set is)"
      using Cons.prems(2,3) ready_after [OF ri _ o1(1)] n sub by (auto simp: mains_ready_def)
    then have IH: "same_lookups o1 obj'" "\<And>j. j < length (programs obj) \<Longrightarrow> j \<notin> set is \<or> prog_is_subprog obj (programs obj ! j) \<Longrightarrow>
          insns (programs obj' ! j) = insns (programs o1 ! j)"
        "\<And>j. j \<in> set is \<Longrightarrow> \<not> prog_is_subprog obj (programs obj ! j) \<Longrightarrow> \<exists>js. linked_code j o1 js (insns (programs obj' ! j))"
      using Cons.IH [OF o1(2)] Cons.prems(2,3) n sub by (auto simp: mains_ready_def)
    have "\<exists>js. linked_code j obj js (insns (programs obj' ! j))" if j: "j \<in> set (i # is)" "\<not> prog_is_subprog obj (programs obj ! j)" for j
    proof (cases "j = i")
      case True
      have "insns (programs obj' ! i) = insns (programs o1 ! i)" using IH(2) [OF i] Cons.prems(2) by simp
      then show ?thesis using r True by simp
    next
      case False
      then obtain js where js: "linked_code j o1 js (insns (programs obj' ! j))" using IH(3) j by auto
      have "insns (programs o1 ! k) = insns (programs obj ! k)" if k: "k \<in> set js" for k
      proof -
        have "k < length (programs obj)" using js k n by (auto simp: linked_code_def)
        moreover have "k \<noteq> i"
        proof
          assume "k = i"
          then have "linked_in j o1 i" using js k by (simp add: linked_code_def)
          then have "p_sec_idx (programs obj ! i) = text_idx obj"
            using \<open>j \<noteq> i\<close> shape_eqD(1) [OF same_lookups_nth [OF same i]] same by (simp add: linked_in_def text_idx_def same_lookups_def)
          then have "length (programs obj) = 1" using \<open>\<not> prog_is_subprog obj (programs obj ! i)\<close> ri i
            by (auto simp: prog_is_subprog_def text_idx_def main_ready_def)
          moreover have "j < length (programs obj)" using j Cons.prems(3) by (auto simp: mains_ready_def)
          ultimately show False using \<open>j \<noteq> i\<close> i by simp
        qed
        ultimately show ?thesis using r by blast
      qed
      then show ?thesis using linked_code_same [OF same _ js] by blast
    qed
    then show ?thesis using IH r same same_lookups_trans False Cons.prems(2) by auto
  qed
qed simp

lemma relocate_data_shape:
  assumes "bpf_object__relocate_data obj p = Inr q"
  shows "p_sec_idx q = p_sec_idx p" "sec_insn_cnt q = sec_insn_cnt p" "insns_cnt q = insns_cnt p" "sub_insn_off q = sub_insn_off p"
    "length (insns q) = length (insns p)"
proof -
  have one: "length is' = length is" if "relocate_one obj r is = Inr is'" for r "is" is'
    using that by (cases "rd_type r") (auto simp: relocate_one_def relocate_extern_def set_insn_def Let_def result_simps split: if_splits)
  have "length is' = length is" if "relocate_data_loop obj rs is = Inr is'" for rs "is" is'
    using that one by (induction rs arbitrary: "is") (auto simp: result_simps)
  then show "length (insns q) = length (insns p)"
    using assms by (auto simp: bpf_object__relocate_data_def result_simps)
  show "p_sec_idx q = p_sec_idx p" "sec_insn_cnt q = sec_insn_cnt p" "insns_cnt q = insns_cnt p" "sub_insn_off q = sub_insn_off p"
    using assms by (auto simp: bpf_object__relocate_data_def result_simps)
qed

lemma relocate_data_steps:
  assumes "run_steps relocate_data_of [a..<length (programs obj)] obj = (Inr (), obj')" "a \<le> length (programs obj)"
  shows "efile obj' = efile obj \<and> length (programs obj') = length (programs obj) \<and>
    (\<forall>j < length (programs obj). if j < a then programs obj' ! j = programs obj ! j
       else bpf_object__relocate_data obj (programs obj ! j) = Inr (programs obj' ! j))"
  using assms
proof (induction "length (programs obj) - a" arbitrary: a obj)
  case (Suc n)
  then have a: "a < length (programs obj)" by simp
  then obtain q where q: "bpf_object__relocate_data obj (programs obj ! a) = Inr q"
      "run_steps relocate_data_of [Suc a..<length (programs obj)] (upd_prog a (\<lambda>_. q) obj) = (Inr (), obj')"
    using Suc.prems(1) by (auto simp: upt_conv_Cons and_then_Inr relocate_data_of_def keep_eq result_simps)
  let ?o = "upd_prog a (\<lambda>_. q) obj"
  have rel: "bpf_object__relocate_data ?o p = bpf_object__relocate_data obj p" for p
    by (simp add: upd_prog_def relocate_data_programs)
  have IH: "efile obj' = efile obj \<and> length (programs obj') = length (programs obj) \<and>
    (\<forall>j < length (programs obj). if j < Suc a then programs obj' ! j = programs ?o ! j
       else bpf_object__relocate_data obj (programs ?o ! j) = Inr (programs obj' ! j))"
    using Suc.hyps(1) [of ?o "Suc a"] Suc.hyps(2) q(2) a by (simp add: rel cong: if_cong)
  show ?case
  proof (intro conjI allI impI)
    fix j assume j: "j < length (programs obj)"
    show "if j < a then programs obj' ! j = programs obj ! j
       else bpf_object__relocate_data obj (programs obj ! j) = Inr (programs obj' ! j)"
    proof (cases "j = a")
      case True
      then have "programs obj' ! j = q" using IH a by (simp add: upd_prog_nth)
      then show ?thesis using True q(1) by simp
    next
      case False
      then have "programs ?o ! j = programs obj ! j" by (simp add: upd_prog_def)
      then show ?thesis using spec [OF conjunct2 [OF conjunct2 [OF IH]], of j] j False by (simp add: less_Suc_eq cong: if_cong)
    qed
  qed (use IH in simp_all)
qed simp

lemma data_and_link:
  assumes o2: "run_steps relocate_data_of [0..<length (programs obj)] obj = (Inr (), o2)"
    and o3: "run_steps (link_main depth env) [0..<length (programs o2)] o2 = (Inr (), o3)"
    and whole: "\<forall>p \<in> set (programs obj). 0 < sec_insn_cnt p \<and> length (insns p) = sec_insn_cnt p \<and> insns_cnt p = sec_insn_cnt p \<and>
      sub_insn_off p = 0"
    and shndx: "0 \<le> text_shndx (efile obj)" "text_shndx (efile obj) < 2 ^ 31"
  shows "length (programs o2) = length (programs obj) \<and> length (programs o3) = length (programs obj) \<and>
    (\<forall>j < length (programs obj). bpf_object__relocate_data obj (programs obj ! j) = Inr (programs o2 ! j)) \<and>
    (\<forall>i < length (programs obj). \<not> prog_is_subprog obj (programs obj ! i) \<longrightarrow> (\<exists>js. linked_code i o2 js (insns (programs o3 ! i))))"
proof -
  let ?n = "length (programs obj)"
  note data = relocate_data_steps [OF o2, simplified]
  note sh = relocate_data_shape
  have p: "0 < sec_insn_cnt (programs obj ! j)" "length (insns (programs obj ! j)) = sec_insn_cnt (programs obj ! j)"
      "insns_cnt (programs obj ! j) = sec_insn_cnt (programs obj ! j)" "sub_insn_off (programs obj ! j) = 0" if "j < ?n" for j
    using whole that by simp_all
  have shj: "p_sec_idx (programs o2 ! j) = p_sec_idx (programs obj ! j)" "sec_insn_cnt (programs o2 ! j) = sec_insn_cnt (programs obj ! j)"
      "insns_cnt (programs o2 ! j) = insns_cnt (programs obj ! j)" "sub_insn_off (programs o2 ! j) = sub_insn_off (programs obj ! j)"
      "length (insns (programs o2 ! j)) = length (insns (programs obj ! j))" if "j < ?n" for j
    using data that sh by blast+
  have ready: "mains_ready o2 (set [0..<length (programs o2)])"
    using data p shj shndx by (auto simp: mains_ready_def main_ready_def)
  have sub: "prog_is_subprog o2 (programs o2 ! i) = prog_is_subprog obj (programs obj ! i)" if "i < ?n" for i
    using data shj [OF that] by (simp add: prog_is_subprog_def)
  note r = link_mains [OF o3 _ ready, simplified]
  have "length (programs o3) = ?n" using r same_lookups_length data by metis
  then show ?thesis using data r sub by auto
qed

text \<open>An object with the main program \<open>f\<close>, which calls \<open>g\<close> of \<^verbatim>\<open>.text\<close> through a relocation.\<close>

definition ex_main :: bpf_program where
  "ex_main = (ex_prog ''f'' 0 [ex_insn 0x85 0 1 0xffffffff, ex_insn 0x95 0 0 0])\<lparr>
     p_relocs := [\<lparr>rd_type = RELO_CALL, rd_insn_idx = 0, rd_map_idx = 0, rd_sym_off = 0, rd_processed = False\<rparr>]\<rparr>"

definition ex_sub :: bpf_program where
  "ex_sub = (ex_prog ''g'' 0 [ex_insn 0x95 0 0 7])\<lparr>p_sec_idx := 2, p_sec_name := ''.text''\<rparr>"

definition ex_calls :: bpf_object where
  "ex_calls = ex_obj\<lparr>programs := [ex_sub, ex_main], efile := (efile ex_obj)\<lparr>text_shndx := 2\<rparr>\<rparr>"

definition ex_link_env :: link_env where
  "ex_link_env = \<lparr>link_alloc = \<lambda>n. n < 1000, feat_btf_func = True\<rparr>"

lemma ex_calls_simps: "programs ex_calls = [ex_sub, ex_main]" "text_shndx (efile ex_calls) = 2" "obj_btf_ext ex_calls = None"
  by (simp_all add: ex_calls_def ex_obj_eq)

lemmas ex_call_defs = ex_calls_def ex_main_def ex_sub_def ex_prog_def ex_insn_def

lemma ex_calls_ready: "main_ready ex_calls 1"
  by (auto simp: main_ready_def ex_calls_simps prog_is_subprog_def ex_call_defs less_Suc_eq)

lemmas link_eval = bpf_object__relocate_calls_def unlink_subprogs_def unlink_subprog_def and_then_def reloc_prog_func_and_line_info_def
  ex_calls_simps prog_is_subprog_def upt_rec reloc_call_def array_get_def insn_is_subprog_call_def
  BPF_CLASS_def BPF_JMP_def BPF_OP_def BPF_CALL_def BPF_SRC_def BPF_K_def BPF_PSEUDO_CALL_def find_prog_insn_relo_def bsearch_def
  bsearch_in.simps cmp_relo_by_insn_idx_def sub_insn_idx_def find_prog_by_sec_insn_def prog_search.simps prog_contains_insn_def
  append_subprog_def upd_prog_def libbpf_reallocarray_def ex_link_env_def redirect_call_def keep_def set_insn_def

lemma ex_calls_run:
  "\<exists>obj'. bpf_object__relocate_calls (Suc (Suc 0)) ex_link_env 1 ex_calls = (Inr (), obj') \<and>
     insns (programs obj' ! 1) = [ex_insn 0x85 0 1 1, ex_insn 0x95 0 0 0, ex_insn 0x95 0 0 7]"
  by (simp add: link_eval Let_def ex_main_def ex_sub_def ex_prog_def ex_insn_def)

theorem relocate_calls_correct_witness:
  "\<exists>obj' js. bpf_object__relocate_calls (Suc (Suc 0)) ex_link_env 1 ex_calls = (Inr (), obj') \<and>
     linked_code 1 ex_calls js [ex_insn 0x85 0 1 1, ex_insn 0x95 0 0 0, ex_insn 0x95 0 0 7]"
  using relocate_calls_correct [OF ex_calls_ready] ex_calls_run by metis

theorem relocate_calls_terminates_witness: "fst (bpf_object__relocate_calls 2 ex_link_env 1 ex_calls) \<noteq> Inl NONTERM"
  by (rule relocate_calls_terminates [OF ex_calls_ready]) (simp add: ex_calls_simps)

subsection \<open>A program that calls itself\<close>

text \<open>
  The only program of an object, in \<^verbatim>\<open>.text\<close>, is its own main program, not a sub-program. When it calls
  itself, the linker appends it to itself and copies twice as many instructions as it made room for.
\<close>

theorem self_call_overflows:
  assumes p: "programs obj = [p]" "insns_cnt p = sec_insn_cnt p" "length (insns p) = sec_insn_cnt p" "sub_insn_off p = 0"
      "p_sec_idx p = nat (text_shndx (efile obj) mod 2 ^ 64)" "p_relocs p = []"
    and call: "insns p = pre @ insn # post" "\<forall>i \<in> set pre. \<not> insn_is_subprog_call i" "insn_is_subprog_call insn"
      "prog_contains_insn p (sub_insn_idx p (length pre) None insn)"
    and env: "libbpf_reallocarray (link_alloc env) (2 * sec_insn_cnt p) 8" "obj_btf_ext obj = None"
  shows "fst (bpf_object__relocate_calls (Suc depth) env 0 obj) = Inl OOB"
proof -
  have u: "unlink_subprogs obj = obj" using p(1) by (cases obj) (simp add: unlink_subprogs_def prog_is_subprog_def)
  let ?step = "reloc_call env (bpf_object__reloc_code depth env 0) 0 0"
  have skip: "?step x obj = (Inr (), obj)" if "x < length pre" for x
    using that call(1,2) p(1,4) by (simp add: reloc_call_def array_get_def nth_append)
  have find: "find_prog_by_sec_insn obj (nat (text_shndx (efile obj) mod 2 ^ 64)) n = Inr (Some 0)" if "prog_contains_insn p n" for n
    using that p(1,5) by (simp add: find_prog_by_sec_insn_def prog_search.simps array_get_def)
  have "fst (?step (length pre) obj) = Inl OOB"
    using call p env(1) find [OF call(4)]
    by (simp add: reloc_call_def array_get_def find_prog_insn_relo_def bsearch_def bsearch_in.simps and_then_def append_subprog_def
        Let_def upd_prog_def mult_2)
  then have fails: "fst (run_steps ?step (length pre # rest) obj) = Inl OOB" for rest
    by (cases "?step (length pre) obj") (auto simp: and_then_def)
  have skips: "run_steps ?step (xs @ rest) obj = run_steps ?step rest obj" if "set xs \<subseteq> {..<length pre}" for xs rest
    using that skip by (induction xs) (auto simp: and_then_def)
  have "fst (run_steps ?step ([0..<length pre] @ length pre # rest) obj) = Inl OOB" for rest
    using fails [of rest] skips [of "[0..<length pre]" "length pre # rest"] by (simp add: atLeast0LessThan del: run_steps.simps)
  moreover have "[0..<sec_insn_cnt p] = [0..<length pre] @ length pre # [Suc (length pre)..<sec_insn_cnt p]"
  proof -
    have "length pre < sec_insn_cnt p" using call(1) p(3) by (metis length_append length_Cons less_add_Suc1 add_Suc_right)
    then show ?thesis using upt_add_eq_append [of 0 "length pre" "sec_insn_cnt p - length pre"] by (simp add: upt_conv_Cons)
  qed
  ultimately show ?thesis
    using p(1) env(2) by (simp add: bpf_object__relocate_calls_def u reloc_prog_func_and_line_info_def and_then_def)
qed

definition ex_self :: bpf_object where
  "ex_self = ex_obj\<lparr>programs := [(ex_prog ''f'' 0 [ex_insn 0x85 0 1 0xffffffff, ex_insn 0x95 0 0 0])\<lparr>p_sec_idx := 2\<rparr>],
     efile := (efile ex_obj)\<lparr>text_shndx := 2\<rparr>\<rparr>"

theorem self_call_overflows_witness: "fst (bpf_object__relocate_calls 1 ex_link_env 0 ex_self) = Inl OOB"
proof -
  let ?p = "(ex_prog ''f'' 0 [ex_insn 0x85 0 1 0xffffffff, ex_insn 0x95 0 0 0])\<lparr>p_sec_idx := 2\<rparr>"
  have "programs ex_self = [?p]" by (simp add: ex_self_def)
  from self_call_overflows [OF this, of "[]" _ _ ex_link_env 0]
  show ?thesis
    by (simp add: ex_self_def ex_prog_def ex_insn_def insn_is_subprog_call_def BPF_CLASS_def BPF_JMP_def BPF_OP_def BPF_CALL_def BPF_SRC_def
        BPF_K_def BPF_PSEUDO_CALL_def prog_contains_insn_def sub_insn_idx_def libbpf_reallocarray_def ex_link_env_def ex_obj_eq)
qed

end
