(* ===== verification/Kconfig.thy ===== *)
theory Kconfig
  imports Externs
begin

text \<open>
  Values of Kconfig externs (\<^verbatim>\<open>libbpf.c\<close>, lines 1477 to 1735): parsing of the lines of a kernel configuration,
  range checks, and the stores into the Kconfig map. A value is stored at the place of its extern in the
  memory of the map; a store outside is \<open>OOB\<close>.
\<close>

subsection \<open>Stores\<close>

definition store_bytes :: "u8 list \<Rightarrow> int \<Rightarrow> u8 list \<Rightarrow> u8 list result" where
  "store_bytes mem at bs =
     (if 0 \<le> at \<and> nat at + length bs \<le> length mem
      then Inr (take (nat at) mem @ bs @ drop (nat at + length bs) mem) else Inl OOB)"

fun le_bytes :: "nat \<Rightarrow> u64 \<Rightarrow> u8 list" where
  "le_bytes 0 v = []"
| "le_bytes (Suc n) v = ucast v # le_bytes n (drop_bit 8 v)"

type_synonym kcfg_state = "extern_desc \<times> u8 list"

definition mark_set :: "extern_desc \<Rightarrow> u8 list result \<Rightarrow> kcfg_state result" where
  "mark_set ext stored = rbind stored (\<lambda>mem. Inr (ext\<lparr>ext_is_set := True\<rparr>, mem))"

text \<open>\<open>libbpf_tristate\<close> is an \<^verbatim>\<open>enum\<close> of four bytes: no, yes, module.\<close>

definition set_kcfg_value_tri :: "extern_desc \<Rightarrow> char \<Rightarrow> u8 list \<Rightarrow> kcfg_state result" where
  "set_kcfg_value_tri ext value mem =
     (case kcfg_type ext of
        KCFG_BOOL \<Rightarrow>
          if value = CHR ''m'' then Inl EINVAL
          else mark_set ext (store_bytes mem (kcfg_data_off ext) [if value = CHR ''y'' then 1 else 0])
      | KCFG_TRISTATE \<Rightarrow>
          mark_set ext (store_bytes mem (kcfg_data_off ext)
            (le32 (if value = CHR ''y'' then 1 else if value = CHR ''m'' then 2 else 0)))
      | KCFG_CHAR \<Rightarrow> mark_set ext (store_bytes mem (kcfg_data_off ext) [char_byte value])
      | _ \<Rightarrow> Inl EINVAL)"

text \<open>
  The value is the memory of the line from the quote on. The length without the quotes is a 64-bit number; for
  a quote alone it wraps, and the copy takes what the buffer holds behind the line.
\<close>

definition set_kcfg_value_str :: "extern_desc \<Rightarrow> string \<Rightarrow> u8 list \<Rightarrow> kcfg_state result" where
  "set_kcfg_value_str ext value mem =
     (let len = length (cstr value) in
      if kcfg_type ext \<noteq> KCFG_CHAR_ARR then Inl EINVAL
      else if value ! (len - 1) \<noteq> CHR 0x22 then Inl EINVAL
      else
        let inner = (int len - 2) mod 2 ^ 64;
            n = nat (if inner \<ge> kcfg_sz ext mod 2 ^ 64 then kcfg_sz ext - 1 else inner) in
        rbind (guard (1 + n \<le> length value) OOB) (\<lambda>_.
        mark_set ext (store_bytes mem (kcfg_data_off ext) (map char_byte (take n (drop 1 value)) @ [0]))))"

subsection \<open>Numbers\<close>

definition isspace :: "char \<Rightarrow> bool" where
  "isspace c \<longleftrightarrow> c \<in> {CHR '' '', CHR 0x09, CHR 0x0A, CHR 0x0B, CHR 0x0C, CHR 0x0D}"

definition digit_val :: "char \<Rightarrow> nat" where
  "digit_val c =
     (let n = of_char c :: nat in
      if 48 \<le> n \<and> n < 58 then n - 48 else if 97 \<le> n \<and> n < 123 then n - 87 else if 65 \<le> n \<and> n < 91 then n - 55 else 36)"

definition digits_value :: "nat \<Rightarrow> string \<Rightarrow> nat" where
  "digits_value base s = foldl (\<lambda>n c. n * base + digit_val c) 0 s"

text \<open>
  \<open>strtoull\<close> with base 0: the number, what follows it, and whether it was out of range. A prefix \<^verbatim>\<open>0x\<close> needs a
  digit behind it. Without digits the result is 0 and all of the text.
\<close>

definition int_base :: "string \<Rightarrow> nat \<times> string" where
  "int_base s =
     (case s of
        z # x # d # cs \<Rightarrow>
          if z = CHR ''0'' \<and> (x = CHR ''x'' \<or> x = CHR ''X'') \<and> digit_val d < 16 then (16, d # cs)
          else (if z = CHR ''0'' then 8 else 10, s)
      | z # cs \<Rightarrow> (if z = CHR ''0'' then 8 else 10, s)
      | [] \<Rightarrow> (10, s))"

definition strtoull :: "string \<Rightarrow> u64 \<times> string \<times> bool" where
  "strtoull s =
     (let s1 = dropWhile isspace s;
          neg = (s1 \<noteq> [] \<and> hd s1 = CHR ''-'');
          s2 = (if s1 \<noteq> [] \<and> (hd s1 = CHR ''-'' \<or> hd s1 = CHR ''+'') then tl s1 else s1);
          (base, s3) = int_base s2;
          ds = takeWhile (\<lambda>c. digit_val c < base) s3;
          n = digits_value base ds in
      if ds = [] then (0, s, False)
      else if n \<ge> 2 ^ 64 then (- 1, drop (length ds) s3, True)
      else (if neg then - of_nat n else of_nat n, drop (length ds) s3, False))"

definition parse_u64 :: "string \<Rightarrow> u64 result" where
  "parse_u64 value =
     (case strtoull value of (res, value_end, out_of_range) \<Rightarrow>
        if out_of_range then Inl ERANGE else if value_end \<noteq> [] then Inl EINVAL else Inr res)"

definition is_kcfg_value_in_range :: "extern_desc \<Rightarrow> u64 \<Rightarrow> bool" where
  "is_kcfg_value_in_range ext v =
     (let bit_sz = nat (kcfg_sz ext * 8) in
      if kcfg_sz ext = 8 then True
      else if kcfg_is_signed ext then v + push_bit (bit_sz - 1) 1 < push_bit bit_sz 1
      else drop_bit bit_sz v = 0)"

definition set_kcfg_value_num :: "extern_desc \<Rightarrow> u64 \<Rightarrow> u8 list \<Rightarrow> kcfg_state result" where
  "set_kcfg_value_num ext value mem =
     (if kcfg_type ext \<noteq> KCFG_INT \<and> kcfg_type ext \<noteq> KCFG_CHAR then Inl EINVAL
      else if \<not> is_kcfg_value_in_range ext value then Inl ERANGE
      else if kcfg_sz ext \<in> {1, 2, 4, 8}
      then mark_set ext (store_bytes mem (kcfg_data_off ext) (le_bytes (nat (kcfg_sz ext)) value))
      else Inl EINVAL)"

subsection \<open>Lines\<close>

text \<open>
  The line is the string in the buffer \<open>buf\<close>, which is changed: the newline at its end and the \<^verbatim>\<open>=\<close> become
  terminators. Only a Kconfig extern has a value to set; for another extern of the name the members of the
  other half of the union are read, which is \<open>OOB\<close> here, as is a map without memory.
\<close>

definition set_kcfg_value :: "extern_desc \<Rightarrow> string \<Rightarrow> u8 list \<Rightarrow> kcfg_state result" where
  "set_kcfg_value ext value mem =
     (if hd value \<in> {CHR ''y'', CHR ''n'', CHR ''m''} then set_kcfg_value_tri ext (hd value) mem
      else if hd value = CHR 0x22 then set_kcfg_value_str ext value mem
      else rbind (parse_u64 (cstr value)) (\<lambda>num. set_kcfg_value_num ext num mem))"

type_synonym kcfg_data = "extern_desc list \<times> u8 list option"

definition process_kconfig_line :: "kcfg_data \<Rightarrow> string \<Rightarrow> kcfg_data result \<times> string" where
  "process_kconfig_line = (\<lambda>(exts, kdata) buf.
     (let line = cstr buf; len = length line in
      if take 7 line \<noteq> ''CONFIG_'' then (Inr (exts, kdata), buf)
      else case find_index (\<lambda>c. c = CHR ''='') line of
        None \<Rightarrow> (Inl EINVAL, buf)
      | Some sep \<Rightarrow>
          let buf1 = (if line ! (len - 1) = CHR 0x0A then buf[len - 1 := NUL] else buf);
              buf2 = buf1[sep := NUL] in
          if buf2 ! (sep + 1) = NUL then (Inl EINVAL, buf1)
          else case find_extern_by_name exts (cstr buf2) of
            None \<Rightarrow> (Inr (exts, kdata), buf2)
          | Some i \<Rightarrow>
              if ext_is_set (exts ! i) then (Inr (exts, kdata), buf2)
              else (case kdata of
                      None \<Rightarrow> Inl OOB
                    | Some mem \<Rightarrow>
                        if ext_type (exts ! i) \<noteq> EXT_KCFG then Inl OOB
                        else rbind (set_kcfg_value (exts ! i) (drop (sep + 1) buf2) mem) (\<lambda>(ext, mem').
                             Inr (exts[i := ext], Some mem')), buf2)))"

subsection \<open>Files\<close>

text \<open>
  \<open>fgets\<close> and \<open>gzgets\<close> with a buffer of 4096 bytes: up to 4095 characters to the end of the line; what the buffer
  held behind the terminator stays.
\<close>

definition PATH_MAX :: nat where "PATH_MAX = 4096"

definition next_line :: "string \<Rightarrow> string" where
  "next_line input =
     (let l = takeWhile (\<lambda>c. c \<noteq> CHR 0x0A) input in take (PATH_MAX - 1) (take (length l + 1) input))"

definition fill_buf :: "string \<Rightarrow> string \<Rightarrow> string" where
  "fill_buf s buf = s @ NUL # drop (length s + 1) buf"

function read_config_lines :: "string \<Rightarrow> string \<Rightarrow> kcfg_data \<Rightarrow> kcfg_data result" where
  "read_config_lines input buf d =
     (if input = [] then Inr d
      else let l = next_line input in
        case process_kconfig_line d (fill_buf l buf) of
          (Inl e, _) \<Rightarrow> Inl e
        | (Inr d', buf') \<Rightarrow> read_config_lines (drop (length l) input) buf' d')"
  by pat_completeness auto
termination
  by (relation "measure (\<lambda>(input, buf, d). length input)") (auto simp: next_line_def PATH_MAX_def Let_def)

declare read_config_lines.simps [simp del]

text \<open>
  The system's answers: the kernel release, the (decompressed) contents of files, the error of \<open>fmemopen\<close>, if any,
  and what a fresh buffer holds.
\<close>

record kconfig_env =
  kc_release :: string
  kc_files :: "string \<Rightarrow> string option"
  kc_memopen :: "errno option"
  kc_buf :: string

definition bpf_object__read_kconfig_file :: "kconfig_env \<Rightarrow> kcfg_data \<Rightarrow> kcfg_data result" where
  "bpf_object__read_kconfig_file env d =
     (let path = ''/boot/config-'' @ kc_release env in
      if length path \<ge> PATH_MAX then Inl ENAMETOOLONG
      else case (case kc_files env path of None \<Rightarrow> kc_files env ''/proc/config.gz'' | Some f \<Rightarrow> Some f) of
        None \<Rightarrow> Inl ENOENT
      | Some input \<Rightarrow> read_config_lines input (fill_buf path (kc_buf env)) d)"

definition bpf_object__read_kconfig_mem :: "kconfig_env \<Rightarrow> string \<Rightarrow> kcfg_data \<Rightarrow> kcfg_data result" where
  "bpf_object__read_kconfig_mem env config d =
     (case kc_memopen env of
        Some e \<Rightarrow> Inl e
      | None \<Rightarrow> read_config_lines config (kc_buf env) d)"

subsection \<open>Kernel symbols\<close>

text \<open>The result of a \<open>fscanf\<close> on a line of \<^verbatim>\<open>/proc/kallsyms\<close>: address and name, or not three items.\<close>

fun read_kallsyms :: "(u64 \<times> string) option list \<Rightarrow> extern_desc list \<Rightarrow> extern_desc list result" where
  "read_kallsyms [] exts = Inr exts"
| "read_kallsyms (None # rest) exts = Inl EINVAL"
| "read_kallsyms (Some (addr, name) # rest) exts =
     (case find_extern_by_name exts name of
        None \<Rightarrow> read_kallsyms rest exts
      | Some i \<Rightarrow>
          let ext = exts ! i in
          if ext_type ext \<noteq> EXT_KSYM then read_kallsyms rest exts
          else if ext_is_set ext
          then (if ksym_addr ext \<noteq> addr then Inl EINVAL else read_kallsyms rest exts)
          else read_kallsyms rest (exts[i := ext\<lparr>ext_is_set := True, ksym_addr := addr\<rparr>]))"

definition bpf_object__read_kallsyms_file :: "(errno + (u64 \<times> string) option list) \<Rightarrow> extern_desc list \<Rightarrow> extern_desc list result" where
  "bpf_object__read_kallsyms_file kallsyms exts = rbind kallsyms (\<lambda>entries. read_kallsyms entries exts)"

end
