(* ===== verification/Core_Spec.thy ===== *)
theory Core_Spec
  imports Kconfig Hashmap
begin

text \<open>
  CO-RE relocations, first part (\<^verbatim>\<open>libbpf.c\<close>, lines 4349 to 5245): parsing the access string of a relocation into
  a specification, finding the candidate types of the kernel, and matching a specification against one of them.

  An accessor array of 64 entries is a list with a guard on its length. The pointer of a specification to its
  BTF is an argument of the functions that follow it.
\<close>

subsection \<open>Data\<close>

datatype core_relo_kind =
    BPF_FIELD_BYTE_OFFSET | BPF_FIELD_BYTE_SIZE | BPF_FIELD_EXISTS | BPF_FIELD_SIGNED | BPF_FIELD_LSHIFT_U64
  | BPF_FIELD_RSHIFT_U64 | BPF_TYPE_ID_LOCAL | BPF_TYPE_ID_TARGET | BPF_TYPE_EXISTS | BPF_TYPE_SIZE
  | BPF_ENUMVAL_EXISTS | BPF_ENUMVAL_VALUE | BPF_RELO_UNKNOWN u32

definition core_relo_kind_of :: "u32 \<Rightarrow> core_relo_kind" where
  "core_relo_kind_of n =
     (let ks = [BPF_FIELD_BYTE_OFFSET, BPF_FIELD_BYTE_SIZE, BPF_FIELD_EXISTS, BPF_FIELD_SIGNED, BPF_FIELD_LSHIFT_U64,
                BPF_FIELD_RSHIFT_U64, BPF_TYPE_ID_LOCAL, BPF_TYPE_ID_TARGET, BPF_TYPE_EXISTS, BPF_TYPE_SIZE,
                BPF_ENUMVAL_EXISTS, BPF_ENUMVAL_VALUE] in
      if unat n < length ks then ks ! unat n else BPF_RELO_UNKNOWN n)"

record bpf_core_relo =
  cr_insn_off :: u32
  cr_type_id :: u32
  cr_access_str_off :: u32
  cr_kind :: core_relo_kind

definition BPF_CORE_SPEC_MAX_LEN :: nat where "BPF_CORE_SPEC_MAX_LEN = 64"

record core_accessor =
  acc_type_id :: nat
  acc_idx :: u32
  acc_name :: "string option"

record core_spec =
  cs_root_type_id :: nat
  cs_relo_kind :: core_relo_kind
  cs_accs :: "core_accessor list"
  cs_raw :: "int list"
  cs_bit_offset :: u32

definition str_is_empty :: "string option \<Rightarrow> bool" where
  "str_is_empty s \<longleftrightarrow> s = None \<or> s = Some []"

text \<open>Whether the array \<open>arr\<close> reached through the accessor before it is a flexible array member.\<close>

definition is_flex_arr :: "btf \<Rightarrow> core_accessor \<Rightarrow> btf_array_t \<Rightarrow> bool result" where
  "is_flex_arr b acc arr =
     (if acc_name acc = None \<or> a_nelems arr > 0 then Inr False
      else rbind (type_at b (acc_type_id acc)) (\<lambda>t. Inr (acc_idx acc = of_nat (btf_vlen t) - 1)))"

definition core_relo_is_field_based :: "core_relo_kind \<Rightarrow> bool" where
  "core_relo_is_field_based kind \<longleftrightarrow>
     kind \<in> {BPF_FIELD_BYTE_OFFSET, BPF_FIELD_BYTE_SIZE, BPF_FIELD_EXISTS, BPF_FIELD_SIGNED, BPF_FIELD_LSHIFT_U64, BPF_FIELD_RSHIFT_U64}"

definition core_relo_is_type_based :: "core_relo_kind \<Rightarrow> bool" where
  "core_relo_is_type_based kind \<longleftrightarrow> kind \<in> {BPF_TYPE_ID_LOCAL, BPF_TYPE_ID_TARGET, BPF_TYPE_EXISTS, BPF_TYPE_SIZE}"

definition core_relo_is_enumval_based :: "core_relo_kind \<Rightarrow> bool" where
  "core_relo_is_enumval_based kind \<longleftrightarrow> kind \<in> {BPF_ENUMVAL_EXISTS, BPF_ENUMVAL_VALUE}"

subsection \<open>Parsing a specification\<close>

text \<open>\<open>sscanf\<close> with \<^verbatim>\<open>%d\<close>: the number and the rest. The result of a number that is no \<open>int\<close> is undefined.\<close>

definition scan_sign :: "string \<Rightarrow> bool \<times> string" where
  "scan_sign s =
     (case s of
        c # cs \<Rightarrow> if c = CHR ''-'' then (True, cs) else if c = CHR ''+'' then (False, cs) else (False, s)
      | [] \<Rightarrow> (False, []))"

definition scan_int :: "string \<Rightarrow> (int \<times> string) result" where
  "scan_int s =
     (let (neg, s2) = scan_sign (dropWhile isspace s);
          ds = takeWhile (\<lambda>c. digit_val c < 10) s2;
          v = (if neg then - int (digits_value 10 ds) else int (digits_value 10 ds)) in
      if ds = [] then Inl EINVAL
      else if v < - (2 ^ 31) \<or> 2 ^ 31 \<le> v then Inl OOB
      else Inr (v, drop (length ds) s2))"

lemma scan_sign_length: "length (snd (scan_sign s)) \<le> length s"
  by (simp add: scan_sign_def split: list.split)

lemma scan_int_shorter:
  assumes "scan_int s = Inr (v, rest)"
  shows "length rest < length s"
proof -
  obtain neg s2 where s2: "scan_sign (dropWhile isspace s) = (neg, s2)" by fastforce
  then have le: "length s2 \<le> length s"
    using scan_sign_length [of "dropWhile isspace s"] length_dropWhile_le [of isspace s] by simp
  let ?ds = "takeWhile (\<lambda>c. digit_val c < 10) s2"
  have ds: "?ds \<noteq> []" "rest = drop (length ?ds) s2"
    using assms unfolding scan_int_def s2 Let_def prod.case by (auto split: if_splits)
  then have "s2 \<noteq> []" by auto
  then show ?thesis using ds le by (cases s2) auto
qed

function core_parse_raw :: "string \<Rightarrow> int list \<Rightarrow> int list result" where
  "core_parse_raw s raw =
     (if s = [] then Inr raw
      else case scan_int (if hd s = CHR '':'' then tl s else s) of
             Inl e \<Rightarrow> Inl e
           | Inr (access_idx, rest) \<Rightarrow>
               if length raw = BPF_CORE_SPEC_MAX_LEN then Inl E2BIG
               else core_parse_raw rest (raw @ [access_idx]))"
  by pat_completeness auto
termination
proof (relation "measure (\<lambda>(s, raw). length s)", goal_cases)
  case (2 s raw x v rest)
  then have "length rest < length (if hd s = CHR '':'' then tl s else s)" using scan_int_shorter by metis
  then show ?case by (simp split: if_splits)
qed simp

declare core_parse_raw.simps [simp del]

text \<open>\<open>add_acc\<close> is the store behind the last accessor.\<close>

definition add_acc :: "nat \<Rightarrow> u32 \<Rightarrow> string option \<Rightarrow> core_spec \<Rightarrow> core_spec result" where
  "add_acc type_id idx name spec =
     rbind (guard (length (cs_accs spec) < BPF_CORE_SPEC_MAX_LEN) OOB) (\<lambda>_.
     Inr (spec\<lparr>cs_accs := cs_accs spec @ [\<lparr>acc_type_id = type_id, acc_idx = idx, acc_name = name\<rparr>]\<rparr>))"

definition add_bits :: "u32 \<Rightarrow> core_spec \<Rightarrow> core_spec" where
  "add_bits n spec = spec\<lparr>cs_bit_offset := cs_bit_offset spec + n\<rparr>"

text \<open>
  One accessor of a field. The index is an \<open>int\<close> and is compared with the number of members as such, so a negative
  one passes and the read is in front of the members; with the number of elements it is compared as an
  unsigned number. The size of an array element is added as it is multiplied, in 64 bits, and cut to 32.
\<close>

definition core_parse_step :: "btf \<Rightarrow> int \<Rightarrow> core_spec \<times> nat \<Rightarrow> (core_spec \<times> nat) result" where
  "core_parse_step b access_idx = (\<lambda>(spec, type_id).
     rbind (skip_mods_and_typedefs b type_id) (\<lambda>(t, tid).
     if btf_is_composite t
     then if access_idx \<ge> int (btf_vlen t) then Inl EINVAL
          else if access_idx < 0 then Inl OOB
          else rbind (array_get (btf_members t) (nat access_idx)) (\<lambda>m.
               let spec1 = add_bits (btf_member_bit_offset t (nat access_idx)) spec in
               rbind (if m_name_off m = 0 then Inr spec1
                      else rbind (btf__name_by_offset b (m_name_off m)) (\<lambda>name.
                           if str_is_empty name then Inl EINVAL else add_acc tid (of_int access_idx) name spec1)) (\<lambda>spec2.
               Inr (spec2, unat (m_type m))))
     else if btf_is_array t
     then rbind (skip_mods_and_typedefs b (unat (a_type (btf_array t)))) (\<lambda>(_, elem).
          rbind (is_flex_arr b (last (cs_accs spec)) (btf_array t)) (\<lambda>flex.
          if \<not> flex \<and> of_int access_idx \<ge> a_nelems (btf_array t) then Inl EINVAL
          else rbind (add_acc elem (of_int access_idx) None spec) (\<lambda>spec1.
               rbind (fst (btf__resolve_size b elem)) (\<lambda>sz.
               Inr (add_bits (of_int (access_idx * int sz * 8)) spec1, elem)))))
     else Inl EINVAL))"

fun core_parse_steps :: "btf \<Rightarrow> int list \<Rightarrow> core_spec \<times> nat \<Rightarrow> (core_spec \<times> nat) result" where
  "core_parse_steps b [] st = Inr st"
| "core_parse_steps b (i # is) st = rbind (core_parse_step b i st) (core_parse_steps b is)"

definition spec_new :: "nat \<Rightarrow> core_relo_kind \<Rightarrow> core_spec" where
  "spec_new type_id kind = \<lparr>cs_root_type_id = type_id, cs_relo_kind = kind, cs_accs = [], cs_raw = [], cs_bit_offset = 0\<rparr>"

definition bpf_core_parse_spec :: "btf \<Rightarrow> nat \<Rightarrow> string option \<Rightarrow> core_relo_kind \<Rightarrow> core_spec result" where
  "bpf_core_parse_spec b type_id spec_str kind =
     (case spec_str of
        None \<Rightarrow> Inl EINVAL
      | Some s \<Rightarrow>
          if s = [] \<or> hd s = CHR '':'' then Inl EINVAL
          else if core_relo_is_type_based kind
          then (if s \<noteq> ''0'' then Inl EINVAL else Inr (spec_new type_id kind))
          else rbind (core_parse_raw s []) (\<lambda>raw.
               if raw = [] then Inl EINVAL
               else rbind (skip_mods_and_typedefs b type_id) (\<lambda>(t, tid).
               let access_idx = hd raw; spec = (spec_new type_id kind)\<lparr>cs_raw := raw\<rparr> in
               if core_relo_is_enumval_based kind
               then (if \<not> btf_is_enum t \<or> length raw > 1 \<or> access_idx \<ge> int (btf_vlen t) then Inl EINVAL
                     else if access_idx < 0 then Inl OOB
                     else rbind (array_get (btf_enum t) (nat access_idx)) (\<lambda>e.
                          rbind (btf__name_by_offset b (e_name_off e)) (\<lambda>name.
                          add_acc tid (of_int access_idx) name spec)))
               else if \<not> core_relo_is_field_based kind then Inl EINVAL
               else rbind (add_acc tid (of_int access_idx) None spec) (\<lambda>spec1.
                    rbind (fst (btf__resolve_size b tid)) (\<lambda>sz.
                    rbind (core_parse_steps b (tl raw) (add_bits (of_int (access_idx * int sz * 8)) spec1, tid)) (\<lambda>(spec2, _).
                    Inr spec2))))))"

subsection \<open>Candidates\<close>

definition bpf_core_is_flavor_sep :: "string \<Rightarrow> bool" where
  "bpf_core_is_flavor_sep s \<longleftrightarrow>
     s ! 0 \<noteq> CHR ''_'' \<and> s ! 1 = CHR ''_'' \<and> s ! 2 = CHR ''_'' \<and> s ! 3 = CHR ''_'' \<and> s ! 4 \<noteq> CHR ''_''"

fun essential_loop :: "string \<Rightarrow> nat \<Rightarrow> nat" where
  "essential_loop name 0 = length name"
| "essential_loop name (Suc i) = (if bpf_core_is_flavor_sep (drop i name) then i + 1 else essential_loop name i)"

definition bpf_core_essential_name_len :: "string \<Rightarrow> nat" where
  "bpf_core_essential_name_len name = essential_loop name (length name - 4)"

record core_cand =
  cand_btf :: btf
  cand_id :: nat

text \<open>\<open>strncmp\<close> of names that are at least \<open>n\<close> long.\<close>

definition same_prefix :: "nat \<Rightarrow> string \<Rightarrow> string \<Rightarrow> bool" where
  "same_prefix n s t \<longleftrightarrow> take n s = take n t"

fun bpf_core_add_cands_loop :: "alloc \<Rightarrow> btf_kind_t \<Rightarrow> string \<Rightarrow> nat \<Rightarrow> btf \<Rightarrow> nat list \<Rightarrow> core_cand list \<Rightarrow> core_cand list result" where
  "bpf_core_add_cands_loop alloc kind name len b [] cands = Inr cands"
| "bpf_core_add_cands_loop alloc kind name len b (i # is) cands =
     rbind (type_at b i) (\<lambda>t.
     if btf_kind t \<noteq> kind then bpf_core_add_cands_loop alloc kind name len b is cands
     else rbind (btf__name_by_offset b (name_off t)) (\<lambda>targ_name.
     if str_is_empty targ_name \<or> bpf_core_essential_name_len (the targ_name) \<noteq> len \<or> \<not> same_prefix len name (the targ_name)
     then bpf_core_add_cands_loop alloc kind name len b is cands
     else rbind (guard (libbpf_reallocarray alloc (length cands + 1) 32) ENOMEM) (\<lambda>_.
          bpf_core_add_cands_loop alloc kind name len b is (cands @ [\<lparr>cand_btf = b, cand_id = i\<rparr>]))))"

definition bpf_core_add_cands :: "alloc \<Rightarrow> btf_kind_t \<Rightarrow> string \<Rightarrow> nat \<Rightarrow> btf \<Rightarrow> nat \<Rightarrow> core_cand list \<Rightarrow> core_cand list result" where
  "bpf_core_add_cands alloc kind name len b start cands =
     bpf_core_add_cands_loop alloc kind name len b [start..<btf__get_nr_types b + 1] cands"

text \<open>
  The kernel's answers: its BTF, the BTF given in its place, and the result of loading the BTF of its modules.
\<close>

record core_env =
  ce_alloc :: alloc
  ce_vmlinux :: "btf option"
  ce_override :: "btf option"
  ce_modules :: "btf list result"

fun add_module_cands :: "alloc \<Rightarrow> btf_kind_t \<Rightarrow> string \<Rightarrow> nat \<Rightarrow> nat \<Rightarrow> btf list \<Rightarrow> core_cand list \<Rightarrow> core_cand list result" where
  "add_module_cands alloc kind name len start [] cands = Inr cands"
| "add_module_cands alloc kind name len start (b # bs) cands =
     rbind (bpf_core_add_cands alloc kind name len b start cands) (add_module_cands alloc kind name len start bs)"

definition bpf_core_find_cands :: "core_env \<Rightarrow> btf \<Rightarrow> nat \<Rightarrow> core_cand list result" where
  "bpf_core_find_cands env local_btf local_type_id =
     rbind (btf__type_by_id local_btf local_type_id) (\<lambda>p.
     rbind (deref p EINVAL) (\<lambda>t.
     rbind (btf__name_by_offset local_btf (name_off t)) (\<lambda>nm.
     if str_is_empty nm then Inl EINVAL
     else let name = the nm; len = bpf_core_essential_name_len name in
       rbind (guard (ce_alloc env 16) ENOMEM) (\<lambda>_.
       rbind (deref (case ce_override env of Some b \<Rightarrow> Some b | None \<Rightarrow> ce_vmlinux env) OOB) (\<lambda>main_btf.
       rbind (bpf_core_add_cands (ce_alloc env) (btf_kind t) name len main_btf 1 []) (\<lambda>cands.
       if cands \<noteq> [] \<or> ce_override env \<noteq> None then Inr cands
       else rbind (ce_modules env) (\<lambda>mods.
            if mods = [] then Inr cands
            else rbind (deref (ce_vmlinux env) OOB) (\<lambda>vmlinux.
                 add_module_cands (ce_alloc env) (btf_kind t) name len (btf__get_nr_types vmlinux + 1) mods cands))))))))"

subsection \<open>Compatibility of fields and of types\<close>

text \<open>
  Through arrays the comparison goes on without a limit. Its state is the pair of types, so after more steps than
  there are pairs it does not end.
\<close>

definition names_compat :: "string option \<Rightarrow> string option \<Rightarrow> bool result" where
  "names_compat local_nm targ_nm =
     rbind (deref local_nm OOB) (\<lambda>local_name.
     rbind (deref targ_nm OOB) (\<lambda>targ_name.
     let local_len = bpf_core_essential_name_len local_name; targ_len = bpf_core_essential_name_len targ_name in
     Inr (local_len = 0 \<or> targ_len = 0 \<or> (local_len = targ_len \<and> same_prefix local_len local_name targ_name))))"

fun fields_compat :: "nat \<Rightarrow> btf \<Rightarrow> nat \<Rightarrow> btf \<Rightarrow> nat \<Rightarrow> bool result" where
  "fields_compat fuel lb local_id tb targ_id =
     rbind (skip_mods_and_typedefs lb local_id) (\<lambda>(lt, _).
     rbind (skip_mods_and_typedefs tb targ_id) (\<lambda>(tt, _).
     if btf_is_composite lt \<and> btf_is_composite tt then Inr True
     else if btf_kind lt \<noteq> btf_kind tt then Inr False
     else if btf_kind lt = BTF_KIND_PTR then Inr True
     else if btf_kind lt = BTF_KIND_FWD \<or> btf_kind lt = BTF_KIND_ENUM
     then rbind (btf__name_by_offset lb (name_off lt)) (\<lambda>local_nm.
          rbind (btf__name_by_offset tb (name_off tt)) (\<lambda>targ_nm.
          names_compat local_nm targ_nm))
     else if btf_kind lt = BTF_KIND_INT then Inr (btf_int_offset lt = 0 \<and> btf_int_offset tt = 0)
     else if btf_kind lt = BTF_KIND_ARRAY
     then (case fuel of
             0 \<Rightarrow> Inl NONTERM
           | Suc n \<Rightarrow> fields_compat n lb (unat (a_type (btf_array lt))) tb (unat (a_type (btf_array tt))))
     else Inr False))"

declare fields_compat.simps [simp del]

definition type_pairs :: "btf \<Rightarrow> btf \<Rightarrow> nat" where
  "type_pairs lb tb = Suc (btf__get_nr_types lb) * Suc (btf__get_nr_types tb)"

definition bpf_core_fields_are_compat :: "btf \<Rightarrow> nat \<Rightarrow> btf \<Rightarrow> nat \<Rightarrow> bool result" where
  "bpf_core_fields_are_compat lb local_id tb targ_id = fields_compat (type_pairs lb tb) lb local_id tb targ_id"

text \<open>
  The comparison of types counts its steps, but starts a new count for every parameter of a function. \<open>recur\<close>
  is the recursive call.
\<close>

fun compat_params :: "(nat \<Rightarrow> nat \<Rightarrow> bool result) \<Rightarrow> btf \<Rightarrow> btf \<Rightarrow> (btf_param_t \<times> btf_param_t) list \<Rightarrow> bool result" where
  "compat_params recur lb tb [] = Inr True"
| "compat_params recur lb tb ((local_p, targ_p) # ps) =
     rbind (skip_mods_and_typedefs lb (unat (btf_param_t.p_type local_p))) (\<lambda>(_, local_id).
     rbind (skip_mods_and_typedefs tb (unat (btf_param_t.p_type targ_p))) (\<lambda>(_, targ_id).
     rbind (recur local_id targ_id) (\<lambda>ok. if ok then compat_params recur lb tb ps else Inr False)))"

fun compat_loop :: "(nat \<Rightarrow> nat \<Rightarrow> bool result) \<Rightarrow> nat \<Rightarrow> btf \<Rightarrow> nat \<Rightarrow> btf \<Rightarrow> nat \<Rightarrow> bool result" where
  "compat_loop recur 0 lb local_id tb targ_id = Inl EINVAL"
| "compat_loop recur (Suc depth) lb local_id tb targ_id =
     rbind (skip_mods_and_typedefs lb local_id) (\<lambda>(lt, _).
     rbind (skip_mods_and_typedefs tb targ_id) (\<lambda>(tt, _).
     if btf_kind lt \<noteq> btf_kind tt then Inr False
     else if btf_kind lt \<in> {BTF_KIND_UNKN, BTF_KIND_STRUCT, BTF_KIND_UNION, BTF_KIND_ENUM, BTF_KIND_FWD} then Inr True
     else if btf_kind lt = BTF_KIND_INT then Inr (btf_int_offset lt = 0 \<and> btf_int_offset tt = 0)
     else if btf_kind lt = BTF_KIND_PTR then compat_loop recur depth lb (unat (ref_type lt)) tb (unat (ref_type tt))
     else if btf_kind lt = BTF_KIND_ARRAY
     then compat_loop recur depth lb (unat (a_type (btf_array lt))) tb (unat (a_type (btf_array tt)))
     else if btf_kind lt = BTF_KIND_FUNC_PROTO
     then if btf_vlen lt \<noteq> btf_vlen tt then Inr False
          else rbind (compat_params recur lb tb (zip (btf_params lt) (btf_params tt))) (\<lambda>ok.
               if \<not> ok then Inr False
               else rbind (skip_mods_and_typedefs lb (unat (ref_type lt))) (\<lambda>(_, local_id).
                    rbind (skip_mods_and_typedefs tb (unat (ref_type tt))) (\<lambda>(_, targ_id).
                    compat_loop recur depth lb local_id tb targ_id)))
     else Inr False))"

declare compat_loop.simps(2) [simp del]

primrec types_compat :: "nat \<Rightarrow> btf \<Rightarrow> btf \<Rightarrow> nat \<Rightarrow> nat \<Rightarrow> bool result" where
  "types_compat 0 lb tb local_id targ_id = Inl NONTERM"
| "types_compat (Suc fuel) lb tb local_id targ_id =
     rbind (type_at lb local_id) (\<lambda>lt.
     rbind (type_at tb targ_id) (\<lambda>tt.
     if btf_kind lt \<noteq> btf_kind tt then Inr False
     else compat_loop (types_compat fuel lb tb) 32 lb local_id tb targ_id))"

definition bpf_core_types_are_compat :: "btf \<Rightarrow> nat \<Rightarrow> btf \<Rightarrow> nat \<Rightarrow> bool result" where
  "bpf_core_types_are_compat lb local_id tb targ_id = types_compat (Suc (type_pairs lb tb)) lb tb local_id targ_id"

subsection \<open>Matching\<close>

text \<open>
  The search for a member: the members of the target are tried in order, those of anonymous ones within. The result
  is the type of the member found, if any, and the specification as it was left: a member of the name that is not
  compatible ends the search at its level without taking back its step.
\<close>

type_synonym member_search = "(nat option \<times> core_spec) result"

definition push_raw :: "nat \<Rightarrow> u32 \<Rightarrow> core_spec \<Rightarrow> core_spec" where
  "push_raw i bits spec = add_bits bits (spec\<lparr>cs_raw := cs_raw spec @ [int i]\<rparr>)"

definition pop_raw :: "u32 \<Rightarrow> core_spec \<Rightarrow> core_spec" where
  "pop_raw bits spec = spec\<lparr>cs_raw := butlast (cs_raw spec), cs_bit_offset := cs_bit_offset spec - bits\<rparr>"

fun match_members :: "(nat \<Rightarrow> core_spec \<Rightarrow> member_search) \<Rightarrow> btf \<Rightarrow> string option \<Rightarrow> nat \<Rightarrow> btf \<Rightarrow> btf_type \<Rightarrow> nat \<Rightarrow>
    nat list \<Rightarrow> core_spec \<Rightarrow> member_search" where
  "match_members recur lb local_name local_mt tb tt targ_id [] spec = Inr (None, spec)"
| "match_members recur lb local_name local_mt tb tt targ_id (i # is) spec =
     (if length (cs_raw spec) = BPF_CORE_SPEC_MAX_LEN then Inl E2BIG
      else rbind (array_get (btf_members tt) i) (\<lambda>m.
           let bits = btf_member_bit_offset tt i; spec1 = push_raw i bits spec in
           rbind (btf__name_by_offset tb (m_name_off m)) (\<lambda>targ_name.
           if str_is_empty targ_name
           then rbind (recur (unat (m_type m)) spec1) (\<lambda>(found, spec2).
                if found \<noteq> None then Inr (found, spec2)
                else match_members recur lb local_name local_mt tb tt targ_id is (pop_raw bits spec2))
           else rbind (deref local_name OOB) (\<lambda>lname.
                if lname = the targ_name
                then rbind (add_acc targ_id (of_nat i) targ_name spec1) (\<lambda>spec2.
                     rbind (bpf_core_fields_are_compat lb local_mt tb (unat (m_type m))) (\<lambda>ok.
                     if ok then Inr (Some (unat (m_type m)), spec2) else Inr (None, spec1)))
                else match_members recur lb local_name local_mt tb tt targ_id is (pop_raw bits spec1)))))"

text \<open>The recursion is bounded by the length of the access path, so the fuel does not run out.\<close>

primrec match_member :: "nat \<Rightarrow> btf \<Rightarrow> core_accessor \<Rightarrow> btf \<Rightarrow> nat \<Rightarrow> core_spec \<Rightarrow> member_search" where
  "match_member 0 lb local_acc tb tid spec = Inl NONTERM"
| "match_member (Suc n) lb local_acc tb tid spec =
     rbind (skip_mods_and_typedefs tb tid) (\<lambda>(tt, targ_id).
     if \<not> btf_is_composite tt then Inr (None, spec)
     else rbind (type_at lb (acc_type_id local_acc)) (\<lambda>lt.
          rbind (array_get (btf_members lt) (unat (acc_idx local_acc))) (\<lambda>local_member.
          rbind (btf__name_by_offset lb (m_name_off local_member)) (\<lambda>local_name.
          match_members (match_member n lb local_acc tb) lb local_name (unat (m_type local_member)) tb tt targ_id
            [0..<btf_vlen tt] spec))))"

definition bpf_core_match_member :: "btf \<Rightarrow> core_accessor \<Rightarrow> btf \<Rightarrow> nat \<Rightarrow> core_spec \<Rightarrow> member_search" where
  "bpf_core_match_member lb local_acc tb targ_id spec =
     match_member (BPF_CORE_SPEC_MAX_LEN + 1 - length (cs_raw spec)) lb local_acc tb targ_id spec"

text \<open>One accessor of a specification; the size of the element is narrowed to an \<open>int\<close>.\<close>

definition match_array_acc :: "core_accessor \<Rightarrow> btf \<Rightarrow> nat \<Rightarrow> core_spec \<Rightarrow> (core_spec \<times> nat) option result" where
  "match_array_acc local_acc tb targ_id spec =
     (if length (cs_raw spec) = BPF_CORE_SPEC_MAX_LEN then Inl E2BIG
      else rbind (add_acc targ_id (acc_idx local_acc) None spec) (\<lambda>spec1.
           rbind (fst (btf__resolve_size tb targ_id)) (\<lambda>sz.
           if s32 sz < 0 then Inl (RAW (s32 sz))
           else Inr (Some (add_bits (acc_idx local_acc * of_nat sz * 8)
                             (spec1\<lparr>cs_raw := cs_raw spec1 @ [sint (acc_idx local_acc)]\<rparr>), targ_id)))))"

definition match_acc :: "btf \<Rightarrow> core_accessor \<Rightarrow> nat \<Rightarrow> btf \<Rightarrow> core_spec \<times> nat \<Rightarrow> (core_spec \<times> nat) option result" where
  "match_acc lb local_acc i tb = (\<lambda>(spec, tid).
     rbind (skip_mods_and_typedefs tb tid) (\<lambda>(tt, targ_id).
     if acc_name local_acc \<noteq> None
     then rbind (bpf_core_match_member lb local_acc tb targ_id spec) (\<lambda>(found, spec1).
          Inr (map_option (\<lambda>next_id. (spec1, next_id)) found))
     else if i > 0
     then if \<not> btf_is_array tt then Inr None
          else rbind (is_flex_arr tb (last (cs_accs spec)) (btf_array tt)) (\<lambda>flex.
               if \<not> flex \<and> acc_idx local_acc \<ge> a_nelems (btf_array tt) then Inr None
               else rbind (skip_mods_and_typedefs tb (unat (a_type (btf_array tt)))) (\<lambda>(_, elem).
                    match_array_acc local_acc tb elem spec))
     else match_array_acc local_acc tb targ_id spec))"

fun match_accs :: "btf \<Rightarrow> core_accessor list \<Rightarrow> nat \<Rightarrow> btf \<Rightarrow> core_spec \<times> nat \<Rightarrow> core_spec option result" where
  "match_accs lb [] i tb st = Inr (Some (fst st))"
| "match_accs lb (a # as) i tb st =
     rbind (match_acc lb a i tb st) (\<lambda>r. case r of None \<Rightarrow> Inr None | Some st' \<Rightarrow> match_accs lb as (i + 1) tb st')"

fun match_enumval :: "string \<Rightarrow> btf \<Rightarrow> nat \<Rightarrow> nat \<Rightarrow> btf_enum_t list \<Rightarrow> core_spec \<Rightarrow> core_spec option result" where
  "match_enumval local_name tb targ_id i [] spec = Inr None"
| "match_enumval local_name tb targ_id i (e # es) spec =
     rbind (btf__name_by_offset tb (e_name_off e)) (\<lambda>nm.
     rbind (deref nm OOB) (\<lambda>targ_name.
     let len = bpf_core_essential_name_len local_name in
     if bpf_core_essential_name_len targ_name = len \<and> same_prefix len local_name targ_name
     then rbind (add_acc targ_id (of_nat i) nm spec) (\<lambda>spec1. Inr (Some (spec1\<lparr>cs_raw := cs_raw spec1 @ [int i]\<rparr>)))
     else match_enumval local_name tb targ_id (i + 1) es spec))"

definition bpf_core_spec_match :: "btf \<Rightarrow> core_spec \<Rightarrow> btf \<Rightarrow> nat \<Rightarrow> core_spec option result" where
  "bpf_core_spec_match lb local_spec tb targ_id =
     (let kind = cs_relo_kind local_spec; spec = spec_new targ_id kind in
      if core_relo_is_type_based kind
      then rbind (bpf_core_types_are_compat lb (cs_root_type_id local_spec) tb targ_id) (\<lambda>ok.
           Inr (if ok then Some spec else None))
      else if core_relo_is_enumval_based kind
      then rbind (skip_mods_and_typedefs tb targ_id) (\<lambda>(tt, tid).
           if \<not> btf_is_enum tt then Inr None
           else rbind (array_get (cs_accs local_spec) 0) (\<lambda>acc.
                rbind (deref (acc_name acc) OOB) (\<lambda>local_name.
                match_enumval local_name tb tid 0 (btf_enum tt) spec)))
      else if \<not> core_relo_is_field_based kind then Inl EINVAL
      else match_accs lb (cs_accs local_spec) 0 tb (spec, targ_id))"

end
