(* ===== verification/Core_Relo.thy ===== *)
theory Core_Relo
  imports Core_Spec
begin

text \<open>
  CO-RE relocations, second part (\<^verbatim>\<open>libbpf.c\<close>, lines 5246 to 6127): the values of a relocation for the local and the
  target type, patching the instruction, and the relocation of all records of the \<^verbatim>\<open>.BTF.ext\<close> section.
\<close>

subsection \<open>Values\<close>

definition BTF_INT_SIGNED :: u8 where "BTF_INT_SIGNED = 1"

text \<open>The word behind the type, where an integer has its encoding; other types may have none.\<close>

definition word_behind :: "btf_type \<Rightarrow> u32 result" where
  "word_behind t = (case vdata_words (vdata t) of [] \<Rightarrow> Inl OOB | w # ws \<Rightarrow> Inr w)"

text \<open>
  The integer to load for a bitfield, as offset and size: the declared one, or a greater one that holds the field. A
  size of 0 is a division by zero.
\<close>

function bitfield_unit :: "u32 \<Rightarrow> u32 \<Rightarrow> u32 \<Rightarrow> (u32 \<times> u32) result" where
  "bitfield_unit bit_off bit_sz byte_sz =
     (if byte_sz = 0 then Inl OOB
      else let byte_off = bit_off div 8 div byte_sz * byte_sz in
        if bit_off + bit_sz - byte_off * 8 > byte_sz * 8
        then if byte_sz \<ge> 8 then Inl E2BIG else bitfield_unit bit_off bit_sz (byte_sz * 2)
        else Inr (byte_off, byte_sz))"
  by pat_completeness auto
termination
proof (relation "measure (\<lambda>(bit_off, bit_sz, byte_sz). 8 - unat byte_sz)", goal_cases)
  case (2 bit_off bit_sz byte_sz)
  then have "unat byte_sz < 8" "0 < unat byte_sz" by (simp_all add: word_less_nat_alt word_le_nat_alt unat_gt_0)
  then show ?case by (simp add: unat_word_ariths)
qed simp

declare bitfield_unit.simps [simp del]

record field_val =
  fv_val :: u32
  fv_sz :: u32
  fv_type_id :: nat
  fv_validate :: bool

definition fv :: "u32 \<Rightarrow> bool \<Rightarrow> field_val" where
  "fv v validate = \<lparr>fv_val = v, fv_sz = 0, fv_type_id = 0, fv_validate = validate\<rparr>"

definition calc_array_relo :: "core_relo_kind \<Rightarrow> btf \<Rightarrow> core_spec \<Rightarrow> core_accessor \<Rightarrow> field_val result" where
  "calc_array_relo kind b spec acc =
     (case kind of
        BPF_FIELD_BYTE_OFFSET \<Rightarrow>
          (case fst (btf__resolve_size b (acc_type_id acc)) of
             Inl e \<Rightarrow> Inl (if e = OOB then OOB else EINVAL)
           | Inr n \<Rightarrow> Inr \<lparr>fv_val = cs_bit_offset spec div 8, fv_sz = of_nat n, fv_type_id = acc_type_id acc, fv_validate = True\<rparr>)
      | BPF_FIELD_BYTE_SIZE \<Rightarrow>
          (case fst (btf__resolve_size b (acc_type_id acc)) of
             Inl e \<Rightarrow> Inl (if e = OOB then OOB else EINVAL)
           | Inr n \<Rightarrow> Inr (fv (of_nat n) True))
      | _ \<Rightarrow> Inl EINVAL)"

text \<open>The last step: the aspect of the field that the relocation asks for. \<open>mt\<close> is the type of the member.\<close>

definition field_aspect :: "core_relo_kind \<Rightarrow> btf_type \<Rightarrow> bool \<Rightarrow> nat \<Rightarrow> u32 \<Rightarrow> u32 \<Rightarrow> u32 \<Rightarrow> u32 \<Rightarrow> field_val result" where
  "field_aspect kind mt bitfield field_type_id byte_off byte_sz bit_off bit_sz =
     (case kind of
        BPF_FIELD_BYTE_OFFSET \<Rightarrow>
          Inr (if bitfield then fv byte_off False
               else \<lparr>fv_val = byte_off, fv_sz = byte_sz, fv_type_id = field_type_id, fv_validate = True\<rparr>)
      | BPF_FIELD_BYTE_SIZE \<Rightarrow> Inr (fv byte_sz (\<not> bitfield))
      | BPF_FIELD_SIGNED \<Rightarrow>
          if btf_is_enum mt then Inr (fv 1 True)
          else rbind (word_behind mt) (\<lambda>w. Inr (fv (if BTF_INT_ENCODING w AND BTF_INT_SIGNED \<noteq> 0 then 1 else 0) True))
      | BPF_FIELD_LSHIFT_U64 \<Rightarrow> Inr (fv (64 - (bit_off + bit_sz - byte_off * 8)) (\<not> bitfield))
      | BPF_FIELD_RSHIFT_U64 \<Rightarrow> Inr (fv (64 - bit_sz) True)
      | _ \<Rightarrow> Inl ENOTSUP)"

definition calc_member_relo :: "core_relo_kind \<Rightarrow> btf \<Rightarrow> core_spec \<Rightarrow> core_accessor \<Rightarrow> field_val result" where
  "calc_member_relo kind b spec acc =
     rbind (type_at b (acc_type_id acc)) (\<lambda>t.
     rbind (array_get (btf_members t) (unat (acc_idx acc))) (\<lambda>m.
     rbind (skip_mods_and_typedefs b (unat (m_type m))) (\<lambda>(mt, field_type_id).
     let bit_off = cs_bit_offset spec; bit_sz = btf_member_bitfield_size t (unat (acc_idx acc)) in
     if bit_sz > 0
     then rbind (bitfield_unit bit_off bit_sz (type_size mt)) (\<lambda>(byte_off, byte_sz).
          field_aspect kind mt True field_type_id byte_off byte_sz bit_off bit_sz)
     else (case fst (btf__resolve_size b field_type_id) of
             Inl e \<Rightarrow> Inl (if e = OOB then OOB else EINVAL)
           | Inr n \<Rightarrow> field_aspect kind mt False field_type_id (bit_off div 8) (of_nat n) bit_off (of_nat n * 8)))))"

text \<open>A specification comes with its BTF; \<open>EUCLEAN\<close> asks for the instruction to be poisoned.\<close>

definition bpf_core_calc_field_relo :: "core_relo_kind \<Rightarrow> (btf \<times> core_spec) option \<Rightarrow> field_val result" where
  "bpf_core_calc_field_relo kind bspec =
     (if kind = BPF_FIELD_EXISTS then Inr (fv (if bspec = None then 0 else 1) True)
      else case bspec of
             None \<Rightarrow> Inl EUCLEAN
           | Some (b, spec) \<Rightarrow>
               if cs_accs spec = [] then Inl OOB
               else let acc = last (cs_accs spec) in
                 if acc_name acc = None
                 then rbind (type_at b (acc_type_id acc)) (\<lambda>_. calc_array_relo kind b spec acc)
                 else calc_member_relo kind b spec acc)"

definition bpf_core_calc_type_relo :: "core_relo_kind \<Rightarrow> (btf \<times> core_spec) option \<Rightarrow> u32 result" where
  "bpf_core_calc_type_relo kind bspec =
     (case bspec of
        None \<Rightarrow> Inr 0
      | Some (b, spec) \<Rightarrow>
          (case kind of
             BPF_TYPE_ID_TARGET \<Rightarrow> Inr (of_nat (cs_root_type_id spec))
           | BPF_TYPE_EXISTS \<Rightarrow> Inr 1
           | BPF_TYPE_SIZE \<Rightarrow>
               (case fst (btf__resolve_size b (cs_root_type_id spec)) of
                  Inl e \<Rightarrow> Inl (if e = OOB then OOB else EINVAL)
                | Inr n \<Rightarrow> Inr (of_nat n))
           | _ \<Rightarrow> Inl ENOTSUP))"

definition bpf_core_calc_enumval_relo :: "core_relo_kind \<Rightarrow> (btf \<times> core_spec) option \<Rightarrow> u32 result" where
  "bpf_core_calc_enumval_relo kind bspec =
     (case kind of
        BPF_ENUMVAL_EXISTS \<Rightarrow> Inr (if bspec = None then 0 else 1)
      | BPF_ENUMVAL_VALUE \<Rightarrow>
          (case bspec of
             None \<Rightarrow> Inl EUCLEAN
           | Some (b, spec) \<Rightarrow>
               rbind (array_get (cs_accs spec) 0) (\<lambda>acc.
               rbind (type_at b (acc_type_id acc)) (\<lambda>t.
               rbind (array_get (btf_enum t) (unat (acc_idx acc))) (\<lambda>e. Inr (e_val e)))))
      | _ \<Rightarrow> Inl ENOTSUP)"

subsection \<open>The result of a relocation\<close>

record core_relo_res =
  rr_orig_val :: u32
  rr_new_val :: u32
  rr_poison :: bool
  rr_validate :: bool
  rr_fail_memsz_adjust :: bool
  rr_orig_sz :: u32
  rr_orig_type_id :: nat
  rr_new_sz :: u32
  rr_new_type_id :: nat

definition res_new :: core_relo_res where
  "res_new = \<lparr>rr_orig_val = 0, rr_new_val = 0, rr_poison = False, rr_validate = True, rr_fail_memsz_adjust = False,
     rr_orig_sz = 0, rr_orig_type_id = 0, rr_new_sz = 0, rr_new_type_id = 0\<rparr>"

definition or_poison :: "'a result \<Rightarrow> core_relo_res \<Rightarrow> ('a \<Rightarrow> core_relo_res result) \<Rightarrow> core_relo_res result" where
  "or_poison m res f =
     (case m of Inl e \<Rightarrow> if e = EUCLEAN then Inr (res\<lparr>rr_poison := True\<rparr>) else Inl e | Inr x \<Rightarrow> f x)"

text \<open>Whether a load may change its size with the field: pointers and unsigned integers.\<close>

definition memsz_adjustable :: "btf_type \<Rightarrow> btf_type \<Rightarrow> bool" where
  "memsz_adjustable orig_t new_t \<longleftrightarrow>
     (btf_is_ptr orig_t \<and> btf_is_ptr new_t) \<or>
     (btf_is_int orig_t \<and> btf_is_int new_t \<and> btf_int_encoding orig_t \<noteq> BTF_INT_SIGNED \<and> btf_int_encoding new_t \<noteq> BTF_INT_SIGNED)"

definition check_memsz :: "btf \<Rightarrow> btf option \<Rightarrow> core_relo_res \<Rightarrow> core_relo_res result" where
  "check_memsz lb tb res =
     (if rr_orig_sz res = rr_new_sz res then Inr res
      else rbind (type_at lb (rr_orig_type_id res)) (\<lambda>orig_t.
           rbind (deref tb OOB) (\<lambda>tb.
           rbind (type_at tb (rr_new_type_id res)) (\<lambda>new_t.
           Inr (if memsz_adjustable orig_t new_t then res else res\<lparr>rr_fail_memsz_adjust := True\<rparr>)))))"

definition bpf_core_calc_relo :: "core_relo_kind \<Rightarrow> btf \<Rightarrow> core_spec \<Rightarrow> (btf \<times> core_spec) option \<Rightarrow> core_relo_res result" where
  "bpf_core_calc_relo kind lb local_spec targ =
     (if core_relo_is_field_based kind
      then or_poison (bpf_core_calc_field_relo kind (Some (lb, local_spec))) res_new (\<lambda>v.
           let res = res_new\<lparr>rr_orig_val := fv_val v, rr_orig_sz := fv_sz v, rr_orig_type_id := fv_type_id v, rr_validate := fv_validate v\<rparr> in
           or_poison (bpf_core_calc_field_relo kind targ) res (\<lambda>n.
           check_memsz lb (map_option fst targ)
             (res\<lparr>rr_new_val := fv_val n, rr_new_sz := fv_sz n, rr_new_type_id := fv_type_id n\<rparr>)))
      else if core_relo_is_type_based kind
      then or_poison (bpf_core_calc_type_relo kind (Some (lb, local_spec))) res_new (\<lambda>v.
           or_poison (bpf_core_calc_type_relo kind targ) (res_new\<lparr>rr_orig_val := v\<rparr>) (\<lambda>n.
           Inr (res_new\<lparr>rr_orig_val := v, rr_new_val := n\<rparr>)))
      else if core_relo_is_enumval_based kind
      then or_poison (bpf_core_calc_enumval_relo kind (Some (lb, local_spec))) res_new (\<lambda>v.
           or_poison (bpf_core_calc_enumval_relo kind targ) (res_new\<lparr>rr_orig_val := v\<rparr>) (\<lambda>n.
           Inr (res_new\<lparr>rr_orig_val := v, rr_new_val := n\<rparr>)))
      else Inl ENOTSUP)"

subsection \<open>Patching\<close>

definition BPF_LDX :: u8 where "BPF_LDX = 0x01"
definition BPF_ST :: u8 where "BPF_ST = 0x02"
definition BPF_STX :: u8 where "BPF_STX = 0x03"
definition BPF_ALU :: u8 where "BPF_ALU = 0x04"
definition BPF_ALU64 :: u8 where "BPF_ALU64 = 0x07"
definition BPF_W :: u8 where "BPF_W = 0x00"
definition BPF_H :: u8 where "BPF_H = 0x08"
definition BPF_B :: u8 where "BPF_B = 0x10"
definition BPF_SIZE :: "u8 \<Rightarrow> u8" where "BPF_SIZE c = c AND 0x18"
definition BPF_MODE :: "u8 \<Rightarrow> u8" where "BPF_MODE c = c AND 0xe0"

definition SHRT_MAX :: u32 where "SHRT_MAX = 32767"

definition poisoned :: "bpf_insn \<Rightarrow> bpf_insn" where
  "poisoned insn = insn\<lparr>code := BPF_JMP OR BPF_CALL, dst_reg := 0, src_reg := 0, off := 0, imm := 195896080\<rparr>"

definition bpf_core_poison_insn :: "nat \<Rightarrow> bpf_insn list \<Rightarrow> bpf_insn list result" where
  "bpf_core_poison_insn i is = set_insn i poisoned is"

definition is_ldimm64 :: "bpf_insn \<Rightarrow> bool" where
  "is_ldimm64 insn \<longleftrightarrow> code insn = (BPF_LD OR BPF_IMM OR BPF_DW)"

definition insn_bpf_size_to_bytes :: "bpf_insn \<Rightarrow> u32" where
  "insn_bpf_size_to_bytes insn =
     (let s = BPF_SIZE (code insn) in
      if s = BPF_DW then 8 else if s = BPF_W then 4 else if s = BPF_H then 2 else if s = BPF_B then 1 else -1)"

definition insn_bytes_to_bpf_size :: "u32 \<Rightarrow> u8 option" where
  "insn_bytes_to_bpf_size n =
     (if n = 8 then Some BPF_DW else if n = 4 then Some BPF_W else if n = 2 then Some BPF_H else if n = 1 then Some BPF_B else None)"

text \<open>The second half of a load of 64 bits is poisoned first, wherever it is.\<close>

definition poison_at :: "nat \<Rightarrow> bpf_insn list \<Rightarrow> bpf_insn list result" where
  "poison_at i is =
     rbind (array_get is i) (\<lambda>insn.
     rbind (if is_ldimm64 insn then bpf_core_poison_insn (i + 1) is else Inr is) (bpf_core_poison_insn i))"

definition patch_alu :: "core_relo_res \<Rightarrow> nat \<Rightarrow> bpf_insn \<Rightarrow> bpf_insn list \<Rightarrow> bpf_insn list result" where
  "patch_alu res i insn is =
     (if BPF_SRC (code insn) \<noteq> BPF_K then Inl EINVAL
      else if rr_validate res \<and> imm insn \<noteq> rr_orig_val res then Inl EINVAL
      else set_insn i (\<lambda>insn. insn\<lparr>imm := rr_new_val res\<rparr>) is)"

definition patch_mem :: "core_relo_res \<Rightarrow> nat \<Rightarrow> bpf_insn \<Rightarrow> bpf_insn list \<Rightarrow> bpf_insn list result" where
  "patch_mem res i insn is =
     (if rr_validate res \<and> scast (off insn) \<noteq> rr_orig_val res then Inl EINVAL
      else if rr_new_val res > SHRT_MAX then Inl ERANGE
      else if rr_fail_memsz_adjust res then poison_at i is
      else let insn1 = insn\<lparr>off := ucast (rr_new_val res)\<rparr> in
        if rr_new_sz res = rr_orig_sz res then set_insn i (\<lambda>_. insn1) is
        else if insn_bpf_size_to_bytes insn1 \<noteq> rr_orig_sz res then Inl EINVAL
        else case insn_bytes_to_bpf_size (rr_new_sz res) of
               None \<Rightarrow> Inl EINVAL
             | Some bpf_sz \<Rightarrow> set_insn i (\<lambda>_. insn1\<lparr>code := BPF_MODE (code insn1) OR bpf_sz OR BPF_CLASS (code insn1)\<rparr>) is)"

text \<open>The first half of the constant is an \<open>int\<close> and is extended with its sign before the second is added.\<close>

definition ldimm64_value :: "bpf_insn \<Rightarrow> bpf_insn \<Rightarrow> u64" where
  "ldimm64_value insn insn1 = scast (imm insn) + push_bit 32 (scast (imm insn1))"

definition patch_ld :: "core_relo_res \<Rightarrow> nat \<Rightarrow> nat \<Rightarrow> bpf_insn \<Rightarrow> bpf_insn list \<Rightarrow> bpf_insn list result" where
  "patch_ld res cnt i insn is =
     (if \<not> is_ldimm64 insn \<or> src_reg insn \<noteq> 0 \<or> off insn \<noteq> 0 \<or> i + 1 \<ge> cnt then Inl EINVAL
      else rbind (array_get is (i + 1)) (\<lambda>insn1.
           if code insn1 \<noteq> 0 \<or> dst_reg insn1 \<noteq> 0 \<or> src_reg insn1 \<noteq> 0 \<or> off insn1 \<noteq> 0 then Inl EINVAL
           else if rr_validate res \<and> ldimm64_value insn insn1 \<noteq> ucast (rr_orig_val res) then Inl EINVAL
           else rbind (set_insn i (\<lambda>insn. insn\<lparr>imm := rr_new_val res\<rparr>) is) (\<lambda>is.
                set_insn (i + 1) (\<lambda>insn. insn\<lparr>imm := 0\<rparr>) is)))"

definition bpf_core_patch_insn :: "bpf_program \<Rightarrow> bpf_core_relo \<Rightarrow> core_relo_res \<Rightarrow> bpf_program result" where
  "bpf_core_patch_insn prog relo res =
     (if cr_insn_off relo mod of_nat BPF_INSN_SZ \<noteq> 0 then Inl EINVAL
      else let idx = int (unat (cr_insn_off relo) div BPF_INSN_SZ) - int (sec_insn_off prog); i = nat idx; is = insns prog in
        rbind (insn_at is idx) (\<lambda>insn.
        let cls = BPF_CLASS (code insn) in
        rbind (if rr_poison res then poison_at i is
               else if cls = BPF_ALU \<or> cls = BPF_ALU64 then patch_alu res i insn is
               else if cls = BPF_LDX \<or> cls = BPF_ST \<or> cls = BPF_STX then patch_mem res i insn is
               else if cls = BPF_LD then patch_ld res (insns_cnt prog) i insn is
               else Inl EINVAL) (\<lambda>is'.
        Inr (prog\<lparr>insns := is'\<rparr>))))"

subsection \<open>Applying a relocation\<close>

text \<open>
  The cache of candidates: the table maps a type id to a list, which is shared by the relocations of the type and
  shortened in place. Here the lists are a store, and the table holds indices.
\<close>

record core_cache =
  cc_map :: "(unit, u64, nat) hashmap"
  cc_lists :: "core_cand list list"

text \<open>What the loop over the candidates keeps: those that matched, and the result and specification of the first.\<close>

type_synonym core_target = "(core_relo_res \<times> core_spec) option"

definition agrees :: "core_relo_res \<times> core_spec \<Rightarrow> core_relo_res \<times> core_spec \<Rightarrow> bool" where
  "agrees = (\<lambda>(res, spec) (tres, tspec).
     cs_bit_offset spec = cs_bit_offset tspec \<and> rr_poison res = rr_poison tres \<and> rr_new_val res = rr_new_val tres)"

fun core_try_cands :: "core_relo_kind \<Rightarrow> btf \<Rightarrow> core_spec \<Rightarrow> core_cand list \<Rightarrow> core_cand list \<times> core_target \<Rightarrow>
    (core_cand list \<times> core_target) result" where
  "core_try_cands kind lb local_spec [] st = Inr st"
| "core_try_cands kind lb local_spec (c # cs) st =
     rbind (bpf_core_spec_match lb local_spec (cand_btf c) (cand_id c)) (\<lambda>r.
     case r of
       None \<Rightarrow> core_try_cands kind lb local_spec cs st
     | Some spec \<Rightarrow>
         rbind (bpf_core_calc_relo kind lb local_spec (Some (cand_btf c, spec))) (\<lambda>res.
         case snd st of
           None \<Rightarrow> core_try_cands kind lb local_spec cs (fst st @ [c], Some (res, spec))
         | Some targ \<Rightarrow>
             if \<not> agrees (res, spec) targ then Inl EINVAL
             else core_try_cands kind lb local_spec cs (fst st @ [c], Some targ)))"

definition core_cands :: "core_env \<Rightarrow> btf \<Rightarrow> nat \<Rightarrow> u64 \<Rightarrow> core_cache \<Rightarrow> (nat \<times> core_cache) result" where
  "core_cands env lb local_id type_key cache =
     (case hashmap__find (cc_map cache) type_key of
        Some i \<Rightarrow> Inr (i, cache)
      | None \<Rightarrow>
          rbind (bpf_core_find_cands env lb local_id) (\<lambda>cands.
          let i = length (cc_lists cache); r = hashmap__set (ce_alloc env) (cc_map cache) type_key i in
          case ins_err r of
            Some e \<Rightarrow> Inl e
          | None \<Rightarrow> Inr (i, \<lparr>cc_map = ins_map r, cc_lists = cc_lists cache @ [cands]\<rparr>)))"

definition core_target_res :: "core_env \<Rightarrow> bpf_core_relo \<Rightarrow> btf \<Rightarrow> core_spec \<Rightarrow> core_cache \<Rightarrow> (core_relo_res \<times> core_cache) result" where
  "core_target_res env relo lb local_spec cache =
     rbind (core_cands env lb (unat (cr_type_id relo)) (u32_as_hash_key (cr_type_id relo)) cache) (\<lambda>(i, cache1).
     rbind (array_get (cc_lists cache1) i) (\<lambda>cands.
     rbind (core_try_cands (cr_kind relo) lb local_spec cands ([], None)) (\<lambda>(kept, targ).
     case targ of
       Some (res, _) \<Rightarrow> Inr (res, cache1\<lparr>cc_lists := (cc_lists cache1)[i := kept]\<rparr>)
     | None \<Rightarrow> rbind (bpf_core_calc_relo (cr_kind relo) lb local_spec None) (\<lambda>res. Inr (res, cache1)))))"

text \<open>An error becomes \<open>-EINVAL\<close>; what is undefined stays so.\<close>

definition as_EINVAL :: "'a result \<Rightarrow> 'a result" where
  "as_EINVAL m = (case m of Inl e \<Rightarrow> Inl (if e = OOB \<or> e = NONTERM then e else EINVAL) | Inr x \<Rightarrow> Inr x)"

text \<open>\<open>junk\<close> is what the local variable \<open>targ_res\<close> holds before it is written.\<close>

definition bpf_core_apply_relo :: "core_env \<Rightarrow> core_relo_res \<Rightarrow> bpf_program \<Rightarrow> bpf_core_relo \<Rightarrow> btf \<Rightarrow> core_cache \<Rightarrow>
    (bpf_program \<times> core_cache) result" where
  "bpf_core_apply_relo env junk prog relo lb cache =
     rbind (btf__type_by_id lb (unat (cr_type_id relo))) (\<lambda>p.
     rbind (deref p EINVAL) (\<lambda>local_type.
     rbind (btf__name_by_offset lb (name_off local_type)) (\<lambda>local_name.
     rbind (guard (local_name \<noteq> None) EINVAL) (\<lambda>_.
     rbind (btf__name_by_offset lb (cr_access_str_off relo)) (\<lambda>spec_str.
     rbind (guard (\<not> str_is_empty spec_str) EINVAL) (\<lambda>_.
     rbind (as_EINVAL (bpf_core_parse_spec lb (unat (cr_type_id relo)) spec_str (cr_kind relo))) (\<lambda>local_spec.
     rbind (if cr_kind relo = BPF_TYPE_ID_LOCAL
            then let v = of_nat (cs_root_type_id local_spec) in
                 Inr (junk\<lparr>rr_validate := True, rr_poison := False, rr_orig_val := v, rr_new_val := v\<rparr>, cache)
            else core_target_res env relo lb local_spec cache) (\<lambda>(res, cache1).
     rbind (as_EINVAL (bpf_core_patch_insn prog relo res)) (\<lambda>prog1.
     Inr (prog1, cache1))))))))))"

subsection \<open>All relocations\<close>

definition core_relo_at :: "u8 list \<Rightarrow> nat \<Rightarrow> bpf_core_relo result" where
  "core_relo_at data pos =
     rbind (read_u32 data pos) (\<lambda>insn_off.
     rbind (read_u32 data (pos + 4)) (\<lambda>type_id.
     rbind (read_u32 data (pos + 8)) (\<lambda>str_off.
     rbind (read_u32 data (pos + 12)) (\<lambda>kind.
     Inr \<lparr>cr_insn_off = insn_off, cr_type_id = type_id, cr_access_str_off = str_off, cr_kind = core_relo_kind_of kind\<rparr>))))"

text \<open>The loop that looks for a program of the section leaves with the last program when there is none.\<close>

fun prog_of_section :: "bpf_program list \<Rightarrow> string \<Rightarrow> bpf_program option \<Rightarrow> bpf_program option" where
  "prog_of_section [] sec_name prog = prog"
| "prog_of_section (p # ps) sec_name prog = (if p_sec_name p = sec_name then Some p else prog_of_section ps sec_name (Some p))"

fun core_relo_recs :: "core_env \<Rightarrow> core_relo_res \<Rightarrow> btf \<Rightarrow> nat \<Rightarrow> bpf_core_relo list \<Rightarrow> bpf_object \<times> core_cache \<Rightarrow> (bpf_object \<times> core_cache) result" where
  "core_relo_recs env junk lb sec_idx [] st = Inr st"
| "core_relo_recs env junk lb sec_idx (rec # recs) st =
     rbind (find_prog_by_sec_insn (fst st) sec_idx (unat (cr_insn_off rec) div BPF_INSN_SZ)) (\<lambda>found.
     rbind (deref found EINVAL) (\<lambda>i.
     let prog = programs (fst st) ! i in
     if \<not> p_load prog then core_relo_recs env junk lb sec_idx recs st
     else rbind (bpf_core_apply_relo env junk prog rec lb (snd st)) (\<lambda>(prog1, cache).
          core_relo_recs env junk lb sec_idx recs ((fst st)\<lparr>programs := (programs (fst st))[i := prog1]\<rparr>, cache))))"

fun core_relos_at :: "u8 list \<Rightarrow> nat list \<Rightarrow> bpf_core_relo list result" where
  "core_relos_at data [] = Inr []"
| "core_relos_at data (pos # ps) = rbind (core_relo_at data pos) (\<lambda>r. rbind (core_relos_at data ps) (\<lambda>rs. Inr (r # rs)))"

fun core_relo_secs :: "core_env \<Rightarrow> core_relo_res \<Rightarrow> btf \<Rightarrow> u8 list \<Rightarrow> btf_ext_info \<Rightarrow> (nat \<times> u32) list \<Rightarrow> bpf_object \<times> core_cache \<Rightarrow>
    (bpf_object \<times> core_cache) result" where
  "core_relo_secs env junk lb data seg [] st = Inr st"
| "core_relo_secs env junk lb data seg ((sec, num_info) # secs) st =
     rbind (read_u32 data sec) (\<lambda>sec_name_off.
     rbind (btf__name_by_offset lb sec_name_off) (\<lambda>sec_name.
     rbind (guard (\<not> str_is_empty sec_name) EINVAL) (\<lambda>_.
     rbind (deref (prog_of_section (programs (fst st)) (the sec_name) None) ENOENT) (\<lambda>prog.
     rbind (core_relos_at data (for_each_btf_ext_rec seg sec num_info)) (\<lambda>recs.
     rbind (core_relo_recs env junk lb (p_sec_idx prog) recs st)
       (core_relo_secs env junk lb data seg secs))))))"

text \<open>\<open>targ\<close> is the result of \<open>btf__parse\<close> of the path given for the kernel's BTF, if one was.\<close>

definition bpf_object__relocate_core :: "core_env \<Rightarrow> core_relo_res \<Rightarrow> btf result option \<Rightarrow> bpf_object \<Rightarrow> bpf_object result" where
  "bpf_object__relocate_core env junk targ obj =
     rbind (deref (obj_btf_ext obj) OOB) (\<lambda>ext.
     if ei_len (core_relo_info ext) = 0 then Inr obj
     else rbind (case targ of None \<Rightarrow> Inr (ce_override env) | Some r \<Rightarrow> rbind r (\<lambda>b. Inr (Some b))) (\<lambda>override.
          rbind (hashmap__new (ce_alloc env) bpf_core_hash_fn bpf_core_equal_fn ()) (\<lambda>m.
          rbind (deref (obj_btf obj) OOB) (\<lambda>lb.
          rbind (for_each_btf_ext_sec (ext_data ext) (core_relo_info ext)) (\<lambda>secs.
          rbind (core_relo_secs (env\<lparr>ce_override := override\<rparr>) junk lb (ext_data ext) (core_relo_info ext) secs
                   (obj, \<lparr>cc_map = m, cc_lists = []\<rparr>)) (\<lambda>(obj1, _).
          Inr obj1))))))"

end
