(* ===== verification/Core_Match.thy ===== *)
theory Core_Match
  imports Core_Spec
begin

text \<open>
  What the matching of CO-RE specifications finds: the field of a name, at any depth of anonymous members, with its
  path and offset.
\<close>

subsection \<open>Fields\<close>

definition named :: "btf \<Rightarrow> btf_member_t \<Rightarrow> string \<Rightarrow> bool" where
  "named b m name \<longleftrightarrow> btf__name_by_offset b (m_name_off m) = Inr (Some name) \<and> name \<noteq> []"

definition anonymous :: "btf \<Rightarrow> btf_member_t \<Rightarrow> bool" where
  "anonymous b m \<longleftrightarrow> (\<exists>nm. btf__name_by_offset b (m_name_off m) = Inr nm \<and> str_is_empty nm)"

text \<open>
  \<open>field_at b tid name path bits owner mt\<close>: the type \<open>tid\<close> has a field \<open>name\<close>, reached over the members \<open>path\<close>, at bit
  offset \<open>bits\<close>, a direct member of \<open>owner\<close> and of type \<open>mt\<close>.
\<close>

inductive field_at :: "btf \<Rightarrow> nat \<Rightarrow> string \<Rightarrow> nat list \<Rightarrow> u32 \<Rightarrow> nat \<Rightarrow> nat \<Rightarrow> bool" for b where
  direct: "\<lbrakk>skip_mods_and_typedefs b tid = Inr (t, owner); btf_is_composite t; i < btf_vlen t; i < length (btf_members t);
            named b (btf_members t ! i) name\<rbrakk>
           \<Longrightarrow> field_at b tid name [i] (btf_member_bit_offset t i) owner (unat (m_type (btf_members t ! i)))"
| nested: "\<lbrakk>skip_mods_and_typedefs b tid = Inr (t, tid'); btf_is_composite t; i < btf_vlen t; i < length (btf_members t);
            anonymous b (btf_members t ! i); field_at b (unat (m_type (btf_members t ! i))) name path bits owner mt\<rbrakk>
           \<Longrightarrow> field_at b tid name (i # path) (btf_member_bit_offset t i + bits) owner mt"

text \<open>The order in which the members of a type are declared, an anonymous member before those behind it.\<close>

fun declared_before :: "nat list \<Rightarrow> nat list \<Rightarrow> bool" where
  "declared_before [] q = True"
| "declared_before (i # p) [] = False"
| "declared_before (i # p) (j # q) \<longleftrightarrow> i < j \<or> i = j \<and> declared_before p q"

definition first_of :: "(nat list \<Rightarrow> u32 \<Rightarrow> nat \<Rightarrow> nat \<Rightarrow> bool) \<Rightarrow> nat list \<Rightarrow> u32 \<Rightarrow> nat \<Rightarrow> nat \<Rightarrow> bool" where
  "first_of field path bits owner mt \<longleftrightarrow> field path bits owner mt \<and>
     (\<forall>path' bits' owner' mt'. field path' bits' owner' mt' \<longrightarrow> declared_before path path')"

text \<open>As the rules of the language ask, a name is the name of one field.\<close>

definition only_one :: "(nat list \<Rightarrow> u32 \<Rightarrow> nat \<Rightarrow> nat \<Rightarrow> bool) \<Rightarrow> bool" where
  "only_one field \<longleftrightarrow>
     (\<forall>path bits owner mt path' bits' owner' mt'. field path bits owner mt \<and> field path' bits' owner' mt' \<longrightarrow> path = path')"

lemma declared_before_refl [simp]: "declared_before p p"
  by (induction p) auto

definition extend_spec :: "core_spec \<Rightarrow> nat list \<Rightarrow> u32 \<Rightarrow> nat \<Rightarrow> string \<Rightarrow> core_spec" where
  "extend_spec spec path bits owner name =
     spec\<lparr>cs_accs := cs_accs spec @ [\<lparr>acc_type_id = owner, acc_idx = of_nat (last path), acc_name = Some name\<rparr>],
          cs_raw := cs_raw spec @ map int path, cs_bit_offset := cs_bit_offset spec + bits\<rparr>"

lemma extend_spec_push: "path \<noteq> [] \<Longrightarrow> extend_spec (push_raw i bits spec) path bits' owner name = extend_spec spec (i # path) (bits + bits') owner name"
  by (simp add: extend_spec_def push_raw_def add_bits_def add.assoc)

lemma pop_push [simp]: "pop_raw bits (push_raw i bits spec) = spec"
  by (simp add: pop_raw_def push_raw_def add_bits_def)

lemma field_at_ne: "field_at b tid name path bits owner mt \<Longrightarrow> path \<noteq> []"
  by (cases rule: field_at.cases) auto

text \<open>The fields reached over one member of a type.\<close>

definition field_over :: "btf \<Rightarrow> btf_type \<Rightarrow> nat \<Rightarrow> nat \<Rightarrow> string \<Rightarrow> nat list \<Rightarrow> u32 \<Rightarrow> nat \<Rightarrow> nat \<Rightarrow> bool" where
  "field_over b t tid i name path bits owner mt \<longleftrightarrow>
     i < length (btf_members t) \<and>
     (if anonymous b (btf_members t ! i)
      then \<exists>p bs. path = i # p \<and> bits = btf_member_bit_offset t i + bs \<and> field_at b (unat (m_type (btf_members t ! i))) name p bs owner mt
      else named b (btf_members t ! i) name \<and> path = [i] \<and> bits = btf_member_bit_offset t i \<and> owner = tid \<and>
           mt = unat (m_type (btf_members t ! i)))"

lemma named_not_anonymous: "named b m name \<Longrightarrow> \<not> anonymous b m"
  by (auto simp: named_def anonymous_def str_is_empty_def)

lemma field_over_deeper:
  "i < length (btf_members t) \<Longrightarrow> anonymous b (btf_members t ! i) \<Longrightarrow> field_at b (unat (m_type (btf_members t ! i))) name p bs owner mt \<Longrightarrow>
     field_over b t tid i name (i # p) (btf_member_bit_offset t i + bs) owner mt"
  by (simp add: field_over_def)

lemma field_over_hit:
  "i < length (btf_members t) \<Longrightarrow> named b (btf_members t ! i) name \<Longrightarrow>
     field_over b t tid i name [i] (btf_member_bit_offset t i) tid (unat (m_type (btf_members t ! i)))"
  by (simp add: field_over_def named_not_anonymous)

lemma field_over_hd: "field_over b t tid i name path bits owner mt \<Longrightarrow> \<exists>p. path = i # p"
  by (auto simp: field_over_def split: if_splits)

lemma field_at_iff:
  assumes "skip_mods_and_typedefs b tid = Inr (t, owner')" "btf_is_composite t"
  shows "field_at b tid name path bits owner mt \<longleftrightarrow> (\<exists>i < btf_vlen t. field_over b t owner' i name path bits owner mt)"
proof
  assume "field_at b tid name path bits owner mt"
  then show "\<exists>i < btf_vlen t. field_over b t owner' i name path bits owner mt"
    by (cases rule: field_at.cases) (use assms named_not_anonymous in \<open>auto simp: field_over_def\<close>)
next
  assume "\<exists>i < btf_vlen t. field_over b t owner' i name path bits owner mt"
  then obtain i where i: "i < btf_vlen t" "field_over b t owner' i name path bits owner mt" by blast
  then show "field_at b tid name path bits owner mt"
    using assms field_at.direct [OF assms i(1)] field_at.nested [OF assms i(1)]
    by (auto simp: field_over_def split: if_splits)
qed

lemma not_composite_no_field: "skip_mods_and_typedefs b tid = Inr (t, tid') \<Longrightarrow> \<not> btf_is_composite t \<Longrightarrow> \<not> field_at b tid name path bits owner mt"
  by (auto elim: field_at.cases)

subsection \<open>The search\<close>

text \<open>What the search of some fields leaves: the first one if it is compatible.\<close>

definition search_ok :: "btf \<Rightarrow> nat \<Rightarrow> btf \<Rightarrow> (nat list \<Rightarrow> u32 \<Rightarrow> nat \<Rightarrow> nat \<Rightarrow> bool) \<Rightarrow> string \<Rightarrow> core_spec \<Rightarrow> nat option \<times> core_spec \<Rightarrow> bool" where
  "search_ok lb lmt tb field name spec r \<longleftrightarrow>
     (if \<exists>path bits owner mt. field path bits owner mt
      then \<exists>path bits owner mt. first_of field path bits owner mt \<and>
             (if bpf_core_fields_are_compat lb lmt tb mt = Inr True
              then r = (Some mt, extend_spec spec path bits owner name)
              else bpf_core_fields_are_compat lb lmt tb mt = Inr False \<and>
                   (length path = 1 \<or> only_one field \<longrightarrow> fst r = None))
      else r = (None, spec))"

lemma search_ok_first:
  assumes "first_of field path bits owner mt"
    and "if bpf_core_fields_are_compat lb lmt tb mt = Inr True then r = (Some mt, extend_spec spec path bits owner name)
         else bpf_core_fields_are_compat lb lmt tb mt = Inr False \<and> (length path = 1 \<or> only_one field \<longrightarrow> fst r = None)"
  shows "search_ok lb lmt tb field name spec r"
proof -
  have "\<exists>path bits owner mt. field path bits owner mt" using assms(1) unfolding first_of_def by blast
  then show ?thesis using assms unfolding search_ok_def by (simp only: if_True) blast
qed

lemma search_ok_none: "search_ok lb lmt tb field name spec r \<Longrightarrow> \<not> (\<exists>path bits owner mt. field path bits owner mt) \<Longrightarrow> r = (None, spec)"
  unfolding search_ok_def by presburger

lemma search_okD: "search_ok lb lmt tb field name spec (Some mt, spec') \<Longrightarrow> \<exists>path bits owner mt. field path bits owner mt"
  using search_ok_none by blast

text \<open>The rest of the loop: \<open>over\<close> are the fields reached over the members that are left.\<close>

abbreviation over :: "btf \<Rightarrow> btf_type \<Rightarrow> nat \<Rightarrow> string \<Rightarrow> nat list \<Rightarrow> nat list \<Rightarrow> u32 \<Rightarrow> nat \<Rightarrow> nat \<Rightarrow> bool" where
  "over tb tt tid name is \<equiv> \<lambda>path bits owner mt. \<exists>i \<in> set is. field_over tb tt tid i name path bits owner mt"

definition recur_ok :: "(nat \<Rightarrow> core_spec \<Rightarrow> member_search) \<Rightarrow> btf \<Rightarrow> nat \<Rightarrow> btf \<Rightarrow> btf_type \<Rightarrow> string \<Rightarrow> nat list \<Rightarrow> bool" where
  "recur_ok recur lb lmt tb tt name is \<longleftrightarrow>
     (\<forall>i \<in> set is. i < length (btf_members tt) \<longrightarrow> anonymous tb (btf_members tt ! i) \<longrightarrow>
        (\<forall>spec r. recur (unat (m_type (btf_members tt ! i))) spec = Inr r \<longrightarrow>
           search_ok lb lmt tb (field_at tb (unat (m_type (btf_members tt ! i))) name) name spec r))"

text \<open>One member: its kind decides.\<close>

lemma match_members_step:
  assumes "match_members recur lb (Some name) lmt tb tt tid (i # is) spec = Inr r"
  obtains (deeper) m spec1 found spec2 where "i < length (btf_members tt)" "m = btf_members tt ! i" "anonymous tb m"
      "spec1 = push_raw i (btf_member_bit_offset tt i) spec" "recur (unat (m_type m)) spec1 = Inr (found, spec2)"
      "if found \<noteq> None then r = (found, spec2)
       else match_members recur lb (Some name) lmt tb tt tid is (pop_raw (btf_member_bit_offset tt i) spec2) = Inr r"
    | (hit) m spec1 ok where "i < length (btf_members tt)" "m = btf_members tt ! i" "named tb m name"
      "spec1 = push_raw i (btf_member_bit_offset tt i) spec"
      "bpf_core_fields_are_compat lb lmt tb (unat (m_type m)) = Inr ok"
      "r = (if ok then (Some (unat (m_type m)), spec1\<lparr>cs_accs := cs_accs spec1 @ [\<lparr>acc_type_id = tid, acc_idx = of_nat i, acc_name = Some name\<rparr>]\<rparr>)
            else (None, spec1))"
    | (miss) m where "i < length (btf_members tt)" "m = btf_members tt ! i" "\<not> anonymous tb m" "\<not> named tb m name"
      "match_members recur lb (Some name) lmt tb tt tid is spec = Inr r"
proof -
  obtain nm where i: "i < length (btf_members tt)" "btf__name_by_offset tb (m_name_off (btf_members tt ! i)) = Inr nm"
    using assms by (auto simp: result_simps Let_def split: if_splits)
  note run = assms [unfolded match_members.simps, simplified, unfolded array_get_def, simplified i if_True rbind.simps Let_def]
  show thesis
  proof (cases "str_is_empty nm")
    case True
    then have "anonymous tb (btf_members tt ! i)" using i(2) by (auto simp: anonymous_def)
    then show ?thesis using run True deeper [OF i(1) refl] by (auto simp: result_simps split: if_splits)
  next
    case False
    then obtain s where s: "nm = Some s" "s \<noteq> []" by (auto simp: str_is_empty_def)
    then have n: "named tb (btf_members tt ! i) s" using i(2) by (simp add: named_def)
    then have na: "\<not> anonymous tb (btf_members tt ! i)" by (rule named_not_anonymous)
    show ?thesis
    proof (cases "name = s")
      case True
      then show ?thesis using run False s n hit [OF i(1) refl] by (auto simp: result_simps add_acc_def split: if_splits)
    next
      case other: False
      then have "\<not> named tb (btf_members tt ! i) name" using n by (simp add: named_def)
      then show ?thesis using run False s other miss [OF i(1) refl na] by (auto simp: result_simps split: if_splits)
    qed
  qed
qed

lemma match_members_finds:
  assumes "match_members recur lb (Some name) lmt tb tt tid is spec = Inr (Some mt, spec')" "recur_ok recur lb lmt tb tt name is"
  shows "\<exists>path bits owner mt. over tb tt tid name is path bits owner mt"
  using assms
proof (induction "is" arbitrary: spec)
  case (Cons i "is")
  have rest: "recur_ok recur lb lmt tb tt name is" using Cons.prems(2) by (simp add: recur_ok_def)
  from Cons.prems(1) show ?case
  proof (cases rule: match_members_step)
    case (deeper m spec1 found spec2)
    show ?thesis
    proof (cases found)
      case (Some x)
      then have "search_ok lb lmt tb (field_at tb (unat (m_type m)) name) name spec1 (Some mt, spec2)"
        using deeper Cons.prems(2) by (auto simp: recur_ok_def)
      from search_okD [OF this] show ?thesis using deeper field_over_deeper [of i tt tb name] by fastforce
    next
      case None
      then have "\<exists>path bits owner mt. over tb tt tid name is path bits owner mt" using Cons.IH [OF _ rest] deeper(6) by simp
      then show ?thesis by (meson list.set_intros(2))
    qed
  next
    case (hit m spec1 ok)
    then show ?thesis using field_over_hit [of i tt tb name] by (fastforce split: if_splits)
  next
    case (miss m)
    then have "\<exists>path bits owner mt. over tb tt tid name is path bits owner mt" using Cons.IH [OF _ rest] by simp
    then show ?thesis by (meson list.set_intros(2))
  qed
qed simp

text \<open>A field over a member is declared before the fields over those behind it.\<close>

lemma first_over:
  assumes "field_over tb tt tid i name path bits owner mt"
    and "\<And>path' bits' owner' mt'. field_over tb tt tid i name path' bits' owner' mt' \<Longrightarrow> declared_before path path'"
    and "\<forall>j \<in> set is. i < j"
  shows "first_of (over tb tt tid name (i # is)) path bits owner mt"
  unfolding first_of_def
proof (intro conjI allI impI)
  show "over tb tt tid name (i # is) path bits owner mt" using assms(1) by simp
  fix path' bits' owner' mt'
  assume "over tb tt tid name (i # is) path' bits' owner' mt'"
  then obtain j where j: "j \<in> set (i # is)" "field_over tb tt tid j name path' bits' owner' mt'" by blast
  show "declared_before path path'"
  proof (cases "j = i")
    case True
    then show ?thesis using assms(2) j(2) by simp
  next
    case False
    then have "i < j" using j(1) assms(3) by auto
    then show ?thesis using field_over_hd [OF assms(1)] field_over_hd [OF j(2)] by auto
  qed
qed

lemma match_members_search:
  assumes "match_members recur lb (Some name) lmt tb tt tid is spec = Inr r" "recur_ok recur lb lmt tb tt name is" "sorted_wrt (<) is"
  shows "search_ok lb lmt tb (over tb tt tid name is) name spec r"
  using assms
proof (induction "is" arbitrary: spec)
  case Nil
  then show ?case by (simp add: search_ok_def)
next
  case (Cons i "is")
  have rest: "recur_ok recur lb lmt tb tt name is" "sorted_wrt (<) is" "\<forall>j \<in> set is. i < j"
    using Cons.prems(2,3) by (simp_all add: recur_ok_def)
  note IH = Cons.IH [OF _ rest(1,2)]
  from Cons.prems(1) show ?case
  proof (cases rule: match_members_step)
    case (deeper m spec1 found spec2)
    let ?sub = "field_at tb (unat (m_type m)) name"
    have sub: "search_ok lb lmt tb ?sub name spec1 (found, spec2)"
      using deeper(1-5) Cons.prems(2) by (auto simp: recur_ok_def)
    have over_i: "field_over tb tt tid i name path bits owner mt \<longleftrightarrow>
        (\<exists>p bs. path = i # p \<and> bits = btf_member_bit_offset tt i + bs \<and> ?sub p bs owner mt)" for path bits owner mt
      using deeper(1-3) by (simp add: field_over_def)
    show ?thesis
    proof (cases "\<exists>p bs owner mt. ?sub p bs owner mt")
      case False
      then have "found = None" "spec2 = spec1" using search_ok_none [OF sub] by simp_all
      then have ok: "search_ok lb lmt tb (over tb tt tid name is) name spec r" using IH deeper(4,6) by simp
      have "over tb tt tid name (i # is) = over tb tt tid name is" using False over_i by (intro ext) auto
      then show ?thesis using ok by simp
    next
      case True
      then obtain p bs owner mt where p: "first_of ?sub p bs owner mt"
          "if bpf_core_fields_are_compat lb lmt tb mt = Inr True then (found, spec2) = (Some mt, extend_spec spec1 p bs owner name)
           else bpf_core_fields_are_compat lb lmt tb mt = Inr False \<and> (length p = 1 \<or> only_one ?sub \<longrightarrow> found = None)"
        using sub True unfolding search_ok_def fst_conv by meson
      have fp: "?sub p bs owner mt" using p(1) by (simp add: first_of_def)
      have first: "first_of (over tb tt tid name (i # is)) (i # p) (btf_member_bit_offset tt i + bs) owner mt"
      proof (rule first_over [OF _ _ rest(3)])
        show "field_over tb tt tid i name (i # p) (btf_member_bit_offset tt i + bs) owner mt" using over_i fp by blast
        fix path' bits' owner' mt'
        assume "field_over tb tt tid i name path' bits' owner' mt'"
        then obtain q bs' where "path' = i # q" "?sub q bs' owner' mt'" using over_i by blast
        then show "declared_before (i # p) path'" using p(1) unfolding first_of_def by auto
      qed
      show ?thesis
      proof (rule search_ok_first [OF first], cases "bpf_core_fields_are_compat lb lmt tb mt = Inr True")
        case True
        then show "if bpf_core_fields_are_compat lb lmt tb mt = Inr True
            then r = (Some mt, extend_spec spec (i # p) (btf_member_bit_offset tt i + bs) owner name)
            else bpf_core_fields_are_compat lb lmt tb mt = Inr False \<and>
              (length (i # p) = 1 \<or> only_one (over tb tt tid name (i # is)) \<longrightarrow> fst r = None)"
          using p(2) deeper(4,6) extend_spec_push [OF field_at_ne [OF fp]] by simp
      next
        case False
        have "fst r = None" if one: "only_one (over tb tt tid name (i # is))"
        proof (rule ccontr)
          assume "fst r \<noteq> None"
          then obtain x spec' where r: "r = (Some x, spec')" by (cases r) auto
          have "only_one ?sub" using one over_i unfolding only_one_def by (metis list.inject list.set_intros(1))
          then have "found = None" using p(2) False by simp
          then have "match_members recur lb (Some name) lmt tb tt tid is (pop_raw (btf_member_bit_offset tt i) spec2) = Inr (Some x, spec')"
            using deeper(6) r by simp
          from match_members_finds [OF this rest(1)] obtain path bits ow mt' j where
            j: "j \<in> set is" "field_over tb tt tid j name path bits ow mt'" by blast
          have "path = i # p" using one first j unfolding only_one_def first_of_def by (metis list.set_intros(2))
          then show False using field_over_hd [OF j(2)] j(1) rest(3) by auto
        qed
        then show "if bpf_core_fields_are_compat lb lmt tb mt = Inr True
            then r = (Some mt, extend_spec spec (i # p) (btf_member_bit_offset tt i + bs) owner name)
            else bpf_core_fields_are_compat lb lmt tb mt = Inr False \<and>
              (length (i # p) = 1 \<or> only_one (over tb tt tid name (i # is)) \<longrightarrow> fst r = None)"
          using False p(2) field_at_ne [OF fp] by simp
      qed
    qed
  next
    case (hit m spec1 ok)
    have over_i: "field_over tb tt tid i name path bits owner mt \<longleftrightarrow>
        path = [i] \<and> bits = btf_member_bit_offset tt i \<and> owner = tid \<and> mt = unat (m_type m)" for path bits owner mt
      using hit(1-3) named_not_anonymous by (auto simp: field_over_def)
    have first: "first_of (over tb tt tid name (i # is)) [i] (btf_member_bit_offset tt i) tid (unat (m_type m))"
      by (rule first_over [OF _ _ rest(3)]) (use over_i in auto)
    show ?thesis
      by (rule search_ok_first [OF first]) (use hit(4-6) in \<open>auto simp: extend_spec_def push_raw_def add_bits_def\<close>)
  next
    case (miss m)
    have "over tb tt tid name (i # is) = over tb tt tid name is"
      using miss(2-4) by (intro ext) (auto simp: field_over_def)
    then show ?thesis using IH miss(5) by simp
  qed
qed

lemma match_member_search:
  assumes "match_member n lb acc tb tid spec = Inr r"
    "type_at lb (acc_type_id acc) = Inr lt" "array_get (btf_members lt) (unat (acc_idx acc)) = Inr lm"
    "btf__name_by_offset lb (m_name_off lm) = Inr (Some name)"
  shows "search_ok lb (unat (m_type lm)) tb (field_at tb tid name) name spec r"
  using assms(1)
proof (induction n arbitrary: tid spec r)
  case (Suc n)
  obtain tt owner where s: "skip_mods_and_typedefs tb tid = Inr (tt, owner)" using Suc.prems(1) by (auto simp: result_simps)
  show ?case
  proof (cases "btf_is_composite tt")
    case False
    then have "r = (None, spec)" using Suc.prems(1) s by simp
    then show ?thesis using not_composite_no_field [OF s False] by (simp add: search_ok_def)
  next
    case True
    have run: "match_members (match_member n lb acc tb) lb (Some name) (unat (m_type lm)) tb tt owner [0..<btf_vlen tt] spec = Inr r"
      using Suc.prems(1) s True assms(2-4) by simp
    have fields: "field_at tb tid name = over tb tt owner name [0..<btf_vlen tt]"
      using field_at_iff [OF s True] by (intro ext) auto
    have "recur_ok (match_member n lb acc tb) lb (unat (m_type lm)) tb tt name [0..<btf_vlen tt]"
      unfolding recur_ok_def using Suc.IH by blast
    then show ?thesis unfolding fields by (rule match_members_search [OF run]) simp
  qed
qed simp

text \<open>
  C37. The search for a member of a local specification in a target type, which may be of a number of fields at any depth
  of anonymous members. If no field has the name, nothing is found and the specification is as it was. Otherwise there is
  a first field of the name, in the order of declaration, with the fields of an anonymous member in its place. If it is
  compatible with the local member it is found, and the specification is extended by its path and its offset. If it is
  not, nothing is found, when it is a direct member of the type or the only field of its name; for several fields of one
  name, against the rules of C, the search goes on behind an incompatible one in an anonymous member.
\<close>

theorem bpf_core_match_member_correct:
  assumes "bpf_core_match_member lb acc tb tid spec = Inr (found, spec')"
    "type_at lb (acc_type_id acc) = Inr lt" "array_get (btf_members lt) (unat (acc_idx acc)) = Inr lm"
    "btf__name_by_offset lb (m_name_off lm) = Inr (Some name)"
  shows "if \<exists>path bits owner mt. field_at tb tid name path bits owner mt
    then \<exists>path bits owner mt. first_of (field_at tb tid name) path bits owner mt \<and>
       (if bpf_core_fields_are_compat lb (unat (m_type lm)) tb mt = Inr True
        then found = Some mt \<and>
          spec' = spec\<lparr>cs_accs := cs_accs spec @ [\<lparr>acc_type_id = owner, acc_idx = of_nat (last path), acc_name = Some name\<rparr>],
                       cs_raw := cs_raw spec @ map int path, cs_bit_offset := cs_bit_offset spec + bits\<rparr>
        else bpf_core_fields_are_compat lb (unat (m_type lm)) tb mt = Inr False \<and>
          (length path = 1 \<or> only_one (field_at tb tid name) \<longrightarrow> found = None))
    else found = None \<and> spec' = spec"
  using match_member_search [OF assms(1) [unfolded bpf_core_match_member_def] assms(2-4)]
  unfolding search_ok_def extend_spec_def prod.inject fst_conv .

subsection \<open>An object from a list of types\<close>

definition btf_of :: "btf_type list \<Rightarrow> string \<Rightarrow> btf" where
  "btf_of ts s = Btf ((btf_calloc None)\<lparr>hdr := ex_hdr\<lparr>type_len := of_nat (length (encode_types ts)), str_len := of_nat (length s)\<rparr>,
     types_data := encode_types ts, type_offs := offs_from 0 ts, nr_types := length ts, strs_data := s, ptr_sz := 8\<rparr>) None"

lemma btf_of_view:
  assumes "list_all wf_type ts" "length (encode_types ts) < 2 ^ 32"
  shows "btf_view (btf_of ts s) ts"
  using assms by (simp add: btf_of_def btf_repr_def btf_calloc_def list_all_iff unat_of_nat)

lemma btf_of_name:
  assumes "length s < 2 ^ 32" "unat ofs < length s"
  shows "btf__name_by_offset (btf_of ts s) ofs = Inr (Some (cstr (drop (unat ofs) s)))"
  using assms by (simp add: btf_of_def btf__name_by_offset_def btf_calloc_def unat_of_nat)

lemma btf_of_type:
  assumes "list_all wf_type ts" "length (encode_types ts) < 2 ^ 32" "0 < i" "i \<le> length ts"
  shows "type_at (btf_of ts s) i = Inr (ts ! (i - 1))" "btf__type_by_id (btf_of ts s) i = Inr (Some (ts ! (i - 1)))"
  using assms btf__type_by_id_view [OF btf_of_view [OF assms(1,2), of s], of i] by (simp_all add: type_at_def)

lemma skip_mods_none:
  assumes "btf__type_by_id b i = Inr (Some t)" "\<not> btf_is_mod t" "\<not> btf_is_typedef t"
  shows "skip_mods_and_typedefs b i = Inr (t, i)"
  using assms by (simp add: skip_mods_and_typedefs_def skip_mods_loop.simps)

text \<open>\<open>struct s { int a; struct { int b; }; }\<close>\<close>

definition cx_inner :: btf_type where
  "cx_inner = \<lparr>name_off = 0, info = btf_type_info BTF_KIND_STRUCT 1 False, size_type = 4,
     vdata = VMembers [\<lparr>m_name_off = 3, m_type = 1, m_offset = 0\<rparr>]\<rparr>"

definition cx_outer :: btf_type where
  "cx_outer = \<lparr>name_off = 5, info = btf_type_info BTF_KIND_STRUCT 2 False, size_type = 8,
     vdata = VMembers [\<lparr>m_name_off = 1, m_type = 1, m_offset = 0\<rparr>, \<lparr>m_name_off = 0, m_type = 2, m_offset = 32\<rparr>]\<rparr>"

definition cx_btf :: btf where
  "cx_btf = btf_of [ex_int, cx_inner, cx_outer] (NUL # ''a'' @ NUL # ''b'' @ NUL # ''s'' @ [NUL])"

lemma cx_kinds [simp]: "btf_kind ex_int = BTF_KIND_INT" "btf_kind cx_inner = BTF_KIND_STRUCT" "btf_kind cx_outer = BTF_KIND_STRUCT"
    "btf_vlen cx_inner = 1" "btf_vlen cx_outer = 2" "btf_kflag cx_inner = False" "btf_kflag cx_outer = False"
  by (simp_all add: btf_kind_def ex_int_def cx_inner_def cx_outer_def btf_vlen_def btf_kflag_def)

lemma cx_members [simp]: "btf_members cx_inner = [\<lparr>m_name_off = 3, m_type = 1, m_offset = 0\<rparr>]"
    "btf_members cx_outer = [\<lparr>m_name_off = 1, m_type = 1, m_offset = 0\<rparr>, \<lparr>m_name_off = 0, m_type = 2, m_offset = 32\<rparr>]"
  by (simp_all add: btf_members_def cx_inner_def cx_outer_def)

lemma cx_data [simp]: "vdata ex_int = VInt 32" "vdata cx_inner = VMembers [\<lparr>m_name_off = 3, m_type = 1, m_offset = 0\<rparr>]"
    "vdata cx_outer = VMembers [\<lparr>m_name_off = 1, m_type = 1, m_offset = 0\<rparr>, \<lparr>m_name_off = 0, m_type = 2, m_offset = 32\<rparr>]"
  by (simp_all add: ex_int_def cx_inner_def cx_outer_def)

lemma cx_wf: "list_all wf_type [ex_int, cx_inner, cx_outer]"
  by (simp add: wf_type_def)

lemma cx_len: "length (encode_types [ex_int, cx_inner, cx_outer]) < 2 ^ 32"
  by (simp add: length_encode_type sizeof_btf_type_def)

lemma cx_types: "btf__type_by_id cx_btf 1 = Inr (Some ex_int)" "btf__type_by_id cx_btf 2 = Inr (Some cx_inner)"
    "btf__type_by_id cx_btf 3 = Inr (Some cx_outer)" "type_at cx_btf 2 = Inr cx_inner"
  using btf_of_type [OF cx_wf cx_len] by (simp_all add: cx_btf_def)

lemma cx_names: "btf__name_by_offset cx_btf 0 = Inr (Some [])" "btf__name_by_offset cx_btf 1 = Inr (Some ''a'')"
    "btf__name_by_offset cx_btf 3 = Inr (Some ''b'')"
  by (simp_all add: cx_btf_def btf_of_name cstr_def)

lemma cx_skip: "skip_mods_and_typedefs cx_btf 1 = Inr (ex_int, 1)" "skip_mods_and_typedefs cx_btf 2 = Inr (cx_inner, 2)"
    "skip_mods_and_typedefs cx_btf 3 = Inr (cx_outer, 3)"
  using cx_types by (auto intro!: skip_mods_none simp: btf_is_mod_def btf_is_typedef_def simp del: One_nat_def)

lemma cx_comp: "btf_is_composite cx_inner" "btf_is_composite cx_outer" "\<not> btf_is_composite ex_int"
  by (simp_all add: btf_is_composite_def)

lemma cx_compat: "bpf_core_fields_are_compat cx_btf 1 cx_btf 1 = Inr True"
proof -
  have "btf_int_offset ex_int = 0" by (simp add: btf_int_offset_def btf_int_data_def BTF_INT_OFFSET_def ex_int_def)
  then show ?thesis by (simp add: bpf_core_fields_are_compat_def fields_compat.simps cx_skip [simplified] cx_comp)
qed

lemma cx_fields:
  "field_at cx_btf 2 ''b'' path bits owner mt \<longleftrightarrow> path = [0] \<and> bits = 0 \<and> owner = 2 \<and> mt = 1"
  "field_at cx_btf 3 ''b'' path bits owner mt \<longleftrightarrow> path = [1, 0] \<and> bits = 32 \<and> owner = 2 \<and> mt = 1"
proof -
  have n: "named cx_btf \<lparr>m_name_off = 3, m_type = 1, m_offset = 0\<rparr> ''b''" "\<not> anonymous cx_btf \<lparr>m_name_off = 3, m_type = 1, m_offset = 0\<rparr>"
    "\<not> named cx_btf \<lparr>m_name_off = 1, m_type = 1, m_offset = 0\<rparr> ''b''" "\<not> anonymous cx_btf \<lparr>m_name_off = 1, m_type = 1, m_offset = 0\<rparr>"
    "anonymous cx_btf \<lparr>m_name_off = 0, m_type = 2, m_offset = 32\<rparr>"
    by (simp_all add: named_def anonymous_def cx_names str_is_empty_def)
  show in2: "field_at cx_btf 2 ''b'' path bits owner mt \<longleftrightarrow> path = [0] \<and> bits = 0 \<and> owner = 2 \<and> mt = 1" for path bits owner mt
    unfolding field_at_iff [OF cx_skip(2) cx_comp(1)] by (simp add: field_over_def n btf_member_bit_offset_def)
  show "field_at cx_btf 3 ''b'' path bits owner mt \<longleftrightarrow> path = [1, 0] \<and> bits = 32 \<and> owner = 2 \<and> mt = 1"
    unfolding field_at_iff [OF cx_skip(3) cx_comp(2)]
    by (auto simp: field_over_def n btf_member_bit_offset_def less_2_cases_iff in2)
qed

definition cx_acc :: core_accessor where
  "cx_acc = \<lparr>acc_type_id = 2, acc_idx = 0, acc_name = Some ''b''\<rparr>"

definition cx_spec :: core_spec where
  "cx_spec = (spec_new 3 BPF_FIELD_BYTE_OFFSET)\<lparr>cs_accs := [\<lparr>acc_type_id = 3, acc_idx = 0, acc_name = None\<rparr>], cs_raw := [0]\<rparr>"

lemma cx_match: "\<exists>spec'. bpf_core_match_member cx_btf cx_acc cx_btf 3 cx_spec = Inr (Some 1, spec')"
proof -
  have "\<exists>spec'. match_member (Suc (Suc n)) cx_btf cx_acc cx_btf 3 cx_spec = Inr (Some 1, spec')" for n
    by (simp add: cx_skip cx_comp cx_types cx_acc_def array_get_def cx_names upt_rec BPF_CORE_SPEC_MAX_LEN_def cx_spec_def str_is_empty_def
        push_raw_def pop_raw_def add_bits_def add_acc_def cx_compat [simplified] spec_new_def)
  moreover have "BPF_CORE_SPEC_MAX_LEN + 1 - length (cs_raw cx_spec) = Suc (Suc 62)" by (simp add: BPF_CORE_SPEC_MAX_LEN_def cx_spec_def)
  ultimately show ?thesis unfolding bpf_core_match_member_def by presburger
qed

theorem bpf_core_match_member_correct_witness:
  "\<exists>spec'. bpf_core_match_member cx_btf cx_acc cx_btf 3 cx_spec = Inr (Some 1, spec') \<and> cs_raw spec' = [0, 1, 0] \<and> cs_bit_offset spec' = 32"
proof -
  obtain spec' where m: "bpf_core_match_member cx_btf cx_acc cx_btf 3 cx_spec = Inr (Some 1, spec')" using cx_match by blast
  have "cs_raw spec' = [0, 1, 0] \<and> cs_bit_offset spec' = 32"
    using bpf_core_match_member_correct [OF m, of cx_inner "\<lparr>m_name_off = 3, m_type = 1, m_offset = 0\<rparr>" "''b''"]
    by (auto simp: cx_types cx_acc_def array_get_def cx_names cx_fields cx_spec_def spec_new_def first_of_def cx_compat [simplified])
  then show ?thesis using m by blast
qed

subsection \<open>Comparison without end\<close>

text \<open>A pointer to a function whose first parameter is that pointer again: \<^verbatim>\<open>void f(f_t)\<close> with \<^verbatim>\<open>f_t\<close> a pointer to \<^verbatim>\<open>f\<close>.\<close>

definition takes_itself :: "btf \<Rightarrow> nat \<Rightarrow> nat \<Rightarrow> bool" where
  "takes_itself b pid n \<longleftrightarrow>
     (\<exists>p f fid q qs. type_at b pid = Inr p \<and> btf_kind p = BTF_KIND_PTR \<and>
        skip_mods_and_typedefs b pid = Inr (p, pid) \<and> skip_mods_and_typedefs b (unat (ref_type p)) = Inr (f, fid) \<and>
        btf_kind f = BTF_KIND_FUNC_PROTO \<and> btf_vlen f = n \<and> btf_params f = q # qs \<and>
        skip_mods_and_typedefs b (unat (btf_param_t.p_type q)) = Inr (p, pid))"

text \<open>
  The comparison of types counts its steps to end on cyclic types, but the count starts anew for every parameter of a
  function: for two pointers to functions that take themselves it never returns, with any stack.
\<close>

theorem types_compat_never_returns:
  assumes "takes_itself lb lid n" "takes_itself tb tid n"
  shows "types_compat fuel lb tb lid tid = Inl NONTERM"
proof (induction fuel)
  case (Suc fuel)
  obtain p f fid q qs where l: "type_at lb lid = Inr p" "btf_kind p = BTF_KIND_PTR" "skip_mods_and_typedefs lb lid = Inr (p, lid)"
      "skip_mods_and_typedefs lb (unat (ref_type p)) = Inr (f, fid)" "btf_kind f = BTF_KIND_FUNC_PROTO" "btf_vlen f = n"
      "btf_params f = q # qs" "skip_mods_and_typedefs lb (unat (btf_param_t.p_type q)) = Inr (p, lid)"
    using assms(1) unfolding takes_itself_def by blast
  obtain p' f' fid' q' qs' where t: "type_at tb tid = Inr p'" "btf_kind p' = BTF_KIND_PTR" "skip_mods_and_typedefs tb tid = Inr (p', tid)"
      "skip_mods_and_typedefs tb (unat (ref_type p')) = Inr (f', fid')" "btf_kind f' = BTF_KIND_FUNC_PROTO" "btf_vlen f' = n"
      "btf_params f' = q' # qs'" "skip_mods_and_typedefs tb (unat (btf_param_t.p_type q')) = Inr (p', tid)"
    using assms(2) unfolding takes_itself_def by blast
  have "compat_loop (types_compat fuel lb tb) (Suc (Suc m)) lb lid tb tid = Inl NONTERM" for m
    by (simp add: compat_loop.simps(2) l t Suc.IH)
  moreover have "(32 :: nat) = Suc (Suc 30)" by simp
  ultimately have "compat_loop (types_compat fuel lb tb) 32 lb lid tb tid = Inl NONTERM" by presburger
  then show ?case using l(1,2) t(1,2) by simp
qed simp

definition cx_ptr :: btf_type where
  "cx_ptr = \<lparr>name_off = 0, info = btf_type_info BTF_KIND_PTR 0 False, size_type = 2, vdata = VNone\<rparr>"

definition cx_proto :: btf_type where
  "cx_proto = \<lparr>name_off = 0, info = btf_type_info BTF_KIND_FUNC_PROTO 1 False, size_type = 0,
     vdata = VParams [\<lparr>p_name_off = 0, p_type = 1\<rparr>]\<rparr>"

definition cx_cyclic :: btf where
  "cx_cyclic = btf_of [cx_ptr, cx_proto] [NUL]"

theorem types_compat_never_returns_witness:
  "bpf_core_types_are_compat cx_cyclic 1 cx_cyclic 1 = Inl NONTERM"
proof -
  have k: "btf_kind cx_ptr = BTF_KIND_PTR" "btf_kind cx_proto = BTF_KIND_FUNC_PROTO" "btf_vlen cx_proto = 1"
    by (simp_all add: btf_kind_def cx_ptr_def cx_proto_def btf_vlen_def)
  have d: "vdata cx_ptr = VNone" "vdata cx_proto = VParams [\<lparr>p_name_off = 0, p_type = 1\<rparr>]" "ref_type cx_ptr = 2"
    by (simp_all add: cx_ptr_def cx_proto_def)
  have "list_all wf_type [cx_ptr, cx_proto]" "length (encode_types [cx_ptr, cx_proto]) < 2 ^ 32"
    by (simp_all add: wf_type_def k d length_encode_type sizeof_btf_type_def)
  note ty0 = btf_of_type [OF this, where s = "[NUL]", folded cx_cyclic_def]
  have ty: "type_at cx_cyclic 1 = Inr cx_ptr" "btf__type_by_id cx_cyclic 1 = Inr (Some cx_ptr)"
    "btf__type_by_id cx_cyclic 2 = Inr (Some cx_proto)"
    using ty0 [of 1] ty0(2) [of 2] by simp_all
  have s: "skip_mods_and_typedefs cx_cyclic 1 = Inr (cx_ptr, 1)" "skip_mods_and_typedefs cx_cyclic 2 = Inr (cx_proto, 2)"
    by (rule skip_mods_none [OF ty(2)], simp_all add: btf_is_mod_def btf_is_typedef_def k)
      (rule skip_mods_none [OF ty(3)], simp_all add: btf_is_mod_def btf_is_typedef_def k)
  have "takes_itself cx_cyclic 1 1"
    unfolding takes_itself_def
    by (intro exI [of _ cx_ptr] exI [of _ cx_proto] exI [of _ 2] exI [of _ "\<lparr>p_name_off = 0, p_type = 1\<rparr>"] exI [of _ "[]"])
      (simp add: ty [simplified] s [simplified] k d btf_params_def)
  from types_compat_never_returns [OF this this] show ?thesis by (simp add: bpf_core_types_are_compat_def)
qed

subsection \<open>Negative accessors\<close>

text \<open>
  The index of an accessor is an \<^verbatim>\<open>int\<close> and only compared with the number of members: a negative one in the access
  string of a relocation passes the check, and the member in front of the first is read.
\<close>

theorem negative_accessor_reads_outside:
  assumes "skip_mods_and_typedefs b tid = Inr (t, tid')" "btf_is_composite t" "i < 0"
  shows "core_parse_step b i (spec, tid) = Inl OOB"
  using assms by (simp add: core_parse_step_def)

theorem negative_accessor_reads_outside_witness:
  "bpf_core_parse_spec cx_btf 3 (Some ''0:-1'') BPF_FIELD_EXISTS = Inl OOB"
proof -
  have "core_parse_step cx_btf (-1) (spec, 3) = Inl OOB" for spec
    using negative_accessor_reads_outside [OF cx_skip(3) cx_comp(2)] by simp
  moreover have "core_parse_raw ''0:-1'' [] = Inr [0, -1]"
    by (simp add: core_parse_raw.simps scan_int_def scan_sign_def isspace_def digit_val_def digits_value_def BPF_CORE_SPEC_MAX_LEN_def)
  moreover have "fst (btf__resolve_size cx_btf 3) = Inr 8"
  proof -
    have "resolve_size_loop 32 cx_btf 1 (Some cx_outer) = (Inr (8, 1), cx_btf)"
      using resolve_size_loop_cases(1) [of cx_outer 31 cx_btf 1] by simp (simp add: cx_outer_def)
    then show ?thesis by (simp add: btf__resolve_size_def MAX_RESOLVE_DEPTH_def cx_types) (simp add: UINT32_MAX_def)
  qed
  ultimately show ?thesis
    by (simp add: bpf_core_parse_spec_def cx_skip core_relo_is_type_based_def core_relo_is_enumval_based_def core_relo_is_field_based_def
        add_acc_def spec_new_def BPF_CORE_SPEC_MAX_LEN_def)
qed

end
