(* ===== verification/Core_Patch.thy ===== *)
theory Core_Patch
  imports Core_Relo Core_Match Programs
begin

text \<open>
  What the CO-RE relocations do: the load and the shifts of a bitfield give the field, the candidates agree on the
  value, the value is what the instruction has after patching, and the cases in which this goes wrong.
\<close>

subsection \<open>Bitfields\<close>

lemma bitfield_unit_result:
  assumes "bitfield_unit bit_off bit_sz n = Inr (byte_off, byte_sz)" "n \<in> {1, 2, 4, 8}"
  shows "byte_sz \<in> {1, 2, 4, 8} \<and> byte_off = bit_off div 8 div byte_sz * byte_sz \<and>
    \<not> bit_off + bit_sz - byte_off * 8 > byte_sz * 8"
  using assms
proof (induction bit_off bit_sz n rule: bitfield_unit.induct)
  case (1 bit_off bit_sz n)
  show ?case
  proof (cases "bit_off + bit_sz - bit_off div 8 div n * n * 8 > n * 8")
    case False
    then show ?thesis using "1.prems" by (subst (asm) bitfield_unit.simps) (auto simp: Let_def split: if_splits)
  next
    case True
    then have "n \<in> {1, 2, 4}" "bitfield_unit bit_off bit_sz (n * 2) = Inr (byte_off, byte_sz)"
      using "1.prems" by (subst (asm) bitfield_unit.simps, auto simp: Let_def split: if_splits)+
    moreover from this have "n * 2 \<in> {1, 2, 4, 8}" "n \<noteq> 0" "\<not> n \<ge> 8" by (auto simp: word_le_nat_alt)
    ultimately show ?thesis using "1.IH" [OF _ refl True] by blast
  qed
qed

lemma unit_bounds:
  fixes bit_off bit_sz byte_sz :: u32
  assumes "byte_sz \<in> {1, 2, 4, 8}" "\<not> bit_off + bit_sz - bit_off div 8 div byte_sz * byte_sz * 8 > byte_sz * 8"
    "unat bit_off + unat bit_sz < 2 ^ 32"
  shows "8 * unat (bit_off div 8 div byte_sz * byte_sz) \<le> unat bit_off"
    "unat bit_off + unat bit_sz \<le> 8 * unat (bit_off div 8 div byte_sz * byte_sz) + 8 * unat byte_sz"
proof -
  define q where "q = unat bit_off div 8 div unat byte_sz * unat byte_sz"
  have q: "8 * q \<le> unat bit_off"
  proof -
    have "q \<le> unat bit_off div 8" by (simp add: q_def)
    then show ?thesis by simp
  qed
  have small: "q < 2 ^ 32" "8 * q < 2 ^ 32" using q assms(3) by linarith+
  have u: "unat (bit_off div 8 div byte_sz * byte_sz) = q"
  proof -
    have "unat (bit_off div 8 div byte_sz) = unat bit_off div 8 div unat byte_sz" by (simp add: unat_div)
    then show ?thesis using small(1) by (simp add: q_def unat_word_ariths(2))
  qed
  show "8 * unat (bit_off div 8 div byte_sz * byte_sz) \<le> unat bit_off" using q u by simp
  have m: "unat (bit_off div 8 div byte_sz * byte_sz * 8) = 8 * q" using small(2) u by (simp add: unat_word_ariths)
  have s: "unat (bit_off + bit_sz) = unat bit_off + unat bit_sz" using assms(3) by (simp add: unat_word_ariths)
  have "unat (bit_off + bit_sz - bit_off div 8 div byte_sz * byte_sz * 8) = unat bit_off + unat bit_sz - 8 * q"
    using q by (subst unat_sub) (simp_all add: word_le_nat_alt m s)
  moreover have "unat (byte_sz * 8) = 8 * unat byte_sz" using assms(1) by auto
  ultimately show "unat bit_off + unat bit_sz \<le> 8 * unat (bit_off div 8 div byte_sz * byte_sz) + 8 * unat byte_sz"
    using assms(2) u by (simp add: word_less_nat_alt not_less)
qed

text \<open>The word that a load of \<open>n\<close> bytes at \<open>byte_off\<close> gives: bits of the memory \<open>mem\<close>, little endian, zeros above.\<close>

definition loads :: "(nat \<Rightarrow> bool) \<Rightarrow> nat \<Rightarrow> nat \<Rightarrow> u64 \<Rightarrow> bool" where
  "loads mem byte_off n v \<longleftrightarrow> (\<forall>i < 64. bit v i \<longleftrightarrow> i < 8 * n \<and> mem (8 * byte_off + i))"

lemma shifts_extract:
  fixes v :: u64
  assumes "loads mem a n v" "8 * a \<le> pos" "pos + k \<le> 8 * a + 8 * n" "n \<le> 8" "0 < k" "k \<le> 64"
  shows "bit (drop_bit (64 - k) (push_bit (64 - (pos + k - 8 * a)) v)) i \<longleftrightarrow> i < k \<and> mem (pos + i)"
proof (cases "i < k")
  case True
  then have "64 - k + i < 64" "64 - (pos + k - 8 * a) \<le> 64 - k + i" "64 - k + i - (64 - (pos + k - 8 * a)) = pos - 8 * a + i"
    using assms(2-6) by simp_all
  moreover have "pos - 8 * a + i < 64" "pos - 8 * a + i < 8 * n" "8 * a + (pos - 8 * a + i) = pos + i"
    using True assms(2-4) by simp_all
  ultimately show ?thesis using True assms(1) by (simp add: bit_drop_bit_eq bit_push_bit_iff loads_def)
next
  case False
  then have "64 \<le> 64 - k + i" using assms(6) by simp
  then show ?thesis using False by (simp add: bit_drop_bit_eq bit_push_bit_iff)
qed

text \<open>The specification ends at a bitfield of \<open>bit_sz\<close> bits, of an integer type.\<close>

definition bitfield_of :: "btf \<Rightarrow> core_spec \<Rightarrow> u32 \<Rightarrow> bool" where
  "bitfield_of b spec bit_sz \<longleftrightarrow>
     cs_accs spec \<noteq> [] \<and> acc_name (last (cs_accs spec)) \<noteq> None \<and> 0 < bit_sz \<and> bit_sz \<le> 64 \<and>
     unat (cs_bit_offset spec) + unat bit_sz < 2 ^ 32 \<and>
     (\<exists>t m mt field_id. type_at b (acc_type_id (last (cs_accs spec))) = Inr t \<and>
        array_get (btf_members t) (unat (acc_idx (last (cs_accs spec)))) = Inr m \<and>
        skip_mods_and_typedefs b (unat (m_type m)) = Inr (mt, field_id) \<and>
        bit_sz = btf_member_bitfield_size t (unat (acc_idx (last (cs_accs spec)))) \<and> type_size mt \<in> {1, 2, 4, 8})"

lemma calc_bitfield:
  assumes "bitfield_of b spec bit_sz" "kind \<noteq> BPF_FIELD_EXISTS"
  obtains mt field_id where "type_size mt \<in> {1, 2, 4, 8}"
    "\<And>kind. kind \<noteq> BPF_FIELD_EXISTS \<Longrightarrow> bpf_core_calc_field_relo kind (Some (b, spec)) =
       rbind (bitfield_unit (cs_bit_offset spec) bit_sz (type_size mt)) (\<lambda>(byte_off, byte_sz).
         field_aspect kind mt True field_id byte_off byte_sz (cs_bit_offset spec) bit_sz)"
proof -
  from assms(1) obtain t m mt field_id where f: "cs_accs spec \<noteq> []" "acc_name (last (cs_accs spec)) \<noteq> None" "0 < bit_sz"
      "type_at b (acc_type_id (last (cs_accs spec))) = Inr t" "array_get (btf_members t) (unat (acc_idx (last (cs_accs spec)))) = Inr m"
      "skip_mods_and_typedefs b (unat (m_type m)) = Inr (mt, field_id)"
      "btf_member_bitfield_size t (unat (acc_idx (last (cs_accs spec)))) = bit_sz" "type_size mt \<in> {1, 2, 4, 8}"
    unfolding bitfield_of_def by metis
  show thesis
  proof (rule that [OF f(8)])
    fix kind :: core_relo_kind
    assume "kind \<noteq> BPF_FIELD_EXISTS"
    then show "bpf_core_calc_field_relo kind (Some (b, spec)) =
       rbind (bitfield_unit (cs_bit_offset spec) bit_sz (type_size mt)) (\<lambda>(byte_off, byte_sz).
         field_aspect kind mt True field_id byte_off byte_sz (cs_bit_offset spec) bit_sz)"
      using f(1-7) by (simp add: bpf_core_calc_field_relo_def calc_member_relo_def Let_def del: not_None_eq)
  qed
qed

text \<open>
  C38. The four values that a program asks for to read a bitfield fit together: loading the bytes at the relocated
  offset and of the relocated size, as a little-endian word, and shifting by the two relocated amounts gives
  exactly the bits of the field.
\<close>

theorem bitfield_read_correct:
  assumes "bitfield_of b spec bit_sz"
    "bpf_core_calc_field_relo BPF_FIELD_BYTE_OFFSET (Some (b, spec)) = Inr byte_off"
    "bpf_core_calc_field_relo BPF_FIELD_BYTE_SIZE (Some (b, spec)) = Inr byte_sz"
    "bpf_core_calc_field_relo BPF_FIELD_LSHIFT_U64 (Some (b, spec)) = Inr lshift"
    "bpf_core_calc_field_relo BPF_FIELD_RSHIFT_U64 (Some (b, spec)) = Inr rshift"
    "loads mem (unat (fv_val byte_off)) (unat (fv_val byte_sz)) v"
  shows "bit (drop_bit (unat (fv_val rshift)) (push_bit (unat (fv_val lshift)) v)) i \<longleftrightarrow>
    i < unat bit_sz \<and> mem (unat (cs_bit_offset spec) + i)"
proof -
  obtain mt field_id where mt: "type_size mt \<in> {1, 2, 4, 8}" and
    calc: "\<And>kind. kind \<noteq> BPF_FIELD_EXISTS \<Longrightarrow> bpf_core_calc_field_relo kind (Some (b, spec)) =
       rbind (bitfield_unit (cs_bit_offset spec) bit_sz (type_size mt)) (\<lambda>(byte_off, byte_sz).
         field_aspect kind mt True field_id byte_off byte_sz (cs_bit_offset spec) bit_sz)"
    using calc_bitfield [OF assms(1), of BPF_FIELD_BYTE_OFFSET] by blast
  let ?off = "cs_bit_offset spec"
  obtain a n where u: "bitfield_unit ?off bit_sz (type_size mt) = Inr (a, n)"
    using assms(2) calc [of BPF_FIELD_BYTE_OFFSET] by (auto simp: result_simps)
  have v: "fv_val byte_off = a" "fv_val byte_sz = n" "fv_val lshift = 64 - (?off + bit_sz - a * 8)" "fv_val rshift = 64 - bit_sz"
    using assms(2-5) by (auto simp: calc u field_aspect_def fv_def)
  have r: "n \<in> {1, 2, 4, 8}" "a = ?off div 8 div n * n" "\<not> ?off + bit_sz - a * 8 > n * 8" using bitfield_unit_result [OF u mt] by blast+
  have b: "unat ?off + unat bit_sz < 2 ^ 32" "0 < unat bit_sz" "unat bit_sz \<le> 64"
    using assms(1) by (auto simp: bitfield_of_def word_less_nat_alt word_le_nat_alt)
  have bounds: "8 * unat a \<le> unat ?off" "unat ?off + unat bit_sz \<le> 8 * unat a + 8 * unat n"
    using unit_bounds [OF r(1) r(3) [unfolded r(2)] b(1)] unfolding r(2) by blast+
  have n8: "unat n \<le> 8" using r(1) by auto
  have "unat (a * 8) = 8 * unat a" using bounds(1) b(1) by (simp add: unat_word_ariths)
  moreover have "unat (?off + bit_sz) = unat ?off + unat bit_sz" using b(1) by (simp add: unat_word_ariths)
  ultimately have d: "unat (?off + bit_sz - a * 8) = unat ?off + unat bit_sz - 8 * unat a"
    using bounds(1) by (subst unat_sub) (simp_all add: word_le_nat_alt)
  have "unat (64 - (?off + bit_sz - a * 8)) = 64 - (unat ?off + unat bit_sz - 8 * unat a)"
    using d bounds(2) n8 by (subst unat_sub) (simp_all add: word_le_nat_alt)
  moreover have "unat (64 - bit_sz) = 64 - unat bit_sz" using b(3) by (subst unat_sub) (simp_all add: word_le_nat_alt)
  ultimately show ?thesis
    using shifts_extract [OF assms(6) [unfolded v(1,2)] bounds n8 b(2,3)] unfolding v(3,4) by presburger
qed

text \<open>\<open>struct { int pad; int : 3; int f : 5; }\<close>\<close>

definition bx_struct :: btf_type where
  "bx_struct = \<lparr>name_off = 0, info = btf_type_info BTF_KIND_STRUCT 1 True, size_type = 8,
     vdata = VMembers [\<lparr>m_name_off = 1, m_type = 1, m_offset = 0x05000023\<rparr>]\<rparr>"

definition bx_btf :: btf where
  "bx_btf = btf_of [ex_int, bx_struct] (NUL # ''f'' @ [NUL])"

definition bx_spec :: core_spec where
  "bx_spec = (spec_new 2 BPF_FIELD_BYTE_OFFSET)\<lparr>cs_accs := [\<lparr>acc_type_id = 2, acc_idx = 0, acc_name = Some ''f''\<rparr>], cs_bit_offset := 35\<rparr>"

lemma bx_kinds [simp]: "btf_kind bx_struct = BTF_KIND_STRUCT" "btf_vlen bx_struct = 1" "btf_kflag bx_struct" "type_size ex_int = 4"
    "vdata bx_struct = VMembers [\<lparr>m_name_off = 1, m_type = 1, m_offset = 0x05000023\<rparr>]"
  by (simp_all add: btf_kind_def bx_struct_def btf_vlen_def btf_kflag_def ex_int_def)

lemma bx_types: "type_at bx_btf 2 = Inr bx_struct" "skip_mods_and_typedefs bx_btf 1 = Inr (ex_int, 1)"
proof -
  have "list_all wf_type [ex_int, bx_struct]" "length (encode_types [ex_int, bx_struct]) < 2 ^ 32"
    by (simp_all add: wf_type_def length_encode_type sizeof_btf_type_def)
  note ty0 = btf_of_type [OF this, where s = "NUL # ''f'' @ [NUL]", folded bx_btf_def]
  have "btf__type_by_id bx_btf 1 = Inr (Some ex_int)" using ty0(2) [of 1] by simp
  then show "skip_mods_and_typedefs bx_btf 1 = Inr (ex_int, 1)"
    by (rule skip_mods_none) (simp_all add: btf_is_mod_def btf_is_typedef_def)
  show "type_at bx_btf 2 = Inr bx_struct" using ty0(1) [of 2] by simp
qed

lemma bx_bitfield: "bitfield_of bx_btf bx_spec 5"
  by (simp add: bitfield_of_def bx_spec_def spec_new_def bx_types [simplified] btf_members_def array_get_def
      btf_member_bitfield_size_def BTF_MEMBER_BITFIELD_SIZE_def word_less_nat_alt word_le_nat_alt)

lemma bx_unit: "bitfield_unit 35 5 4 = Inr (4, 4)"
  by (simp add: bitfield_unit.simps)

lemma bx_calc:
  assumes "kind \<noteq> BPF_FIELD_EXISTS"
  shows "bpf_core_calc_field_relo kind (Some (bx_btf, bx_spec)) = field_aspect kind ex_int True 1 4 4 35 5"
  using assms by (simp add: bpf_core_calc_field_relo_def calc_member_relo_def bx_spec_def spec_new_def bx_types [simplified]
      btf_members_def array_get_def btf_member_bitfield_size_def BTF_MEMBER_BITFIELD_SIZE_def bx_unit)

lemma bx_vals:
  "bpf_core_calc_field_relo BPF_FIELD_BYTE_OFFSET (Some (bx_btf, bx_spec)) = Inr (fv 4 False)"
  "bpf_core_calc_field_relo BPF_FIELD_BYTE_SIZE (Some (bx_btf, bx_spec)) = Inr (fv 4 False)"
  "bpf_core_calc_field_relo BPF_FIELD_LSHIFT_U64 (Some (bx_btf, bx_spec)) = Inr (fv 56 False)"
  "bpf_core_calc_field_relo BPF_FIELD_RSHIFT_U64 (Some (bx_btf, bx_spec)) = Inr (fv 59 True)"
  by (simp_all add: bx_calc field_aspect_def)

lemma bx_loads: "loads (\<lambda>i. i = 35) (unat (fv_val (fv 4 False))) (unat (fv_val (fv 4 False))) (2 ^ 3)"
proof -
  have b: "bit ((2 :: u64) ^ 3) j \<longleftrightarrow> j = 3" for j by (simp only: bit_exp_iff) auto
  have v: "unat (fv_val (fv 4 False)) = 4" by (simp add: fv_def)
  show ?thesis unfolding loads_def v b by auto
qed

theorem bitfield_read_correct_witness:
  "\<forall>i. bit (drop_bit (unat (59 :: u32)) (push_bit (unat (56 :: u32)) (2 ^ 3 :: u64))) i \<longleftrightarrow>
     i < unat (5 :: u32) \<and> unat (35 :: u32) + i = 35"
proof
  fix i
  have v: "fv_val (fv x f) = x" "cs_bit_offset bx_spec = 35" for x f by (simp_all add: fv_def bx_spec_def)
  show "bit (drop_bit (unat (59 :: u32)) (push_bit (unat (56 :: u32)) (2 ^ 3 :: u64))) i \<longleftrightarrow>
      i < unat (5 :: u32) \<and> unat (35 :: u32) + i = 35"
    using bitfield_read_correct [OF bx_bitfield bx_vals bx_loads, of i] unfolding v .
qed

subsection \<open>Candidates\<close>

definition cand_matches :: "btf \<Rightarrow> core_spec \<Rightarrow> core_cand \<Rightarrow> bool" where
  "cand_matches lb local_spec c \<longleftrightarrow> (case bpf_core_spec_match lb local_spec (cand_btf c) (cand_id c) of Inr (Some _) \<Rightarrow> True | _ \<Rightarrow> False)"

text \<open>The candidate gives the value and decision of \<open>res\<close>.\<close>

definition cand_gives :: "core_relo_kind \<Rightarrow> btf \<Rightarrow> core_spec \<Rightarrow> core_relo_res \<Rightarrow> core_cand \<Rightarrow> bool" where
  "cand_gives kind lb local_spec res c \<longleftrightarrow>
     (\<exists>spec r. bpf_core_spec_match lb local_spec (cand_btf c) (cand_id c) = Inr (Some spec) \<and>
        bpf_core_calc_relo kind lb local_spec (Some (cand_btf c, spec)) = Inr r \<and>
        rr_new_val r = rr_new_val res \<and> rr_poison r = rr_poison res)"

lemma try_cands_from:
  assumes "core_try_cands kind lb local_spec cs (kept0, Some targ) = Inr (kept, targ')"
  shows "targ' = Some targ \<and> kept = kept0 @ filter (cand_matches lb local_spec) cs \<and>
    (\<forall>c \<in> set cs. cand_matches lb local_spec c \<longrightarrow> cand_gives kind lb local_spec (fst targ) c)"
  using assms
proof (induction cs arbitrary: kept0)
  case (Cons c cs)
  obtain r where m: "bpf_core_spec_match lb local_spec (cand_btf c) (cand_id c) = Inr r"
    using Cons.prems by (auto simp: result_simps)
  have cm: "cand_matches lb local_spec c \<longleftrightarrow> r \<noteq> None" using m by (simp add: cand_matches_def split: option.split)
  show ?case
  proof (cases r)
    case None
    then have "core_try_cands kind lb local_spec cs (kept0, Some targ) = Inr (kept, targ')" using Cons.prems m by simp
    from Cons.IH [OF this] show ?thesis using cm None by simp
  next
    case (Some spec)
    then obtain res where res: "bpf_core_calc_relo kind lb local_spec (Some (cand_btf c, spec)) = Inr res" "agrees (res, spec) targ"
        "core_try_cands kind lb local_spec cs (kept0 @ [c], Some targ) = Inr (kept, targ')"
      using Cons.prems m by (auto simp: result_simps split: if_splits)
    have "cand_gives kind lb local_spec (fst targ) c"
      using m Some res(1,2) by (cases targ) (auto simp: cand_gives_def agrees_def)
    then show ?thesis using Cons.IH [OF res(3)] cm Some by simp
  qed
qed simp

lemma try_cands_all:
  assumes "core_try_cands kind lb local_spec cs ([], None) = Inr (kept, targ)"
  shows "kept = filter (cand_matches lb local_spec) cs \<and> (targ = None \<longleftrightarrow> kept = []) \<and>
    (\<forall>res spec. targ = Some (res, spec) \<longrightarrow>
       (\<forall>c \<in> set cs. cand_matches lb local_spec c \<longrightarrow> cand_gives kind lb local_spec res c))"
  using assms
proof (induction cs)
  case (Cons c cs)
  obtain r where m: "bpf_core_spec_match lb local_spec (cand_btf c) (cand_id c) = Inr r"
    using Cons.prems by (auto simp: result_simps)
  have cm: "cand_matches lb local_spec c \<longleftrightarrow> r \<noteq> None" using m by (simp add: cand_matches_def split: option.split)
  show ?case
  proof (cases r)
    case None
    then have "core_try_cands kind lb local_spec cs ([], None) = Inr (kept, targ)" using Cons.prems m by simp
    from Cons.IH [OF this] show ?thesis using cm None by simp
  next
    case (Some spec)
    then obtain res where res: "bpf_core_calc_relo kind lb local_spec (Some (cand_btf c, spec)) = Inr res"
        "core_try_cands kind lb local_spec cs ([c], Some (res, spec)) = Inr (kept, targ)"
      using Cons.prems m by (auto simp: result_simps)
    have "cand_gives kind lb local_spec res c" using m Some res(1) by (auto simp: cand_gives_def)
    then show ?thesis using try_cands_from [OF res(2)] cm Some by simp
  qed
qed simp

text \<open>
  C36. A relocation is resolved only when it is unambiguous: every candidate of the kernel that matches the specification gives
  the value and the decision the instruction is patched with. If none matches, the result is the one for a missing
  target. The candidates kept for later relocations of the type are those that matched, or all if none did.
\<close>

theorem core_target_unambiguous:
  assumes "core_target_res env relo lb local_spec cache = Inr (res, cache')"
  shows "\<exists>i cache1 cands.
    core_cands env lb (unat (cr_type_id relo)) (u32_as_hash_key (cr_type_id relo)) cache = Inr (i, cache1) \<and>
    i < length (cc_lists cache1) \<and> cands = cc_lists cache1 ! i \<and>
    (\<forall>c \<in> set cands. cand_matches lb local_spec c \<longrightarrow> cand_gives (cr_kind relo) lb local_spec res c) \<and>
    (if filter (cand_matches lb local_spec) cands = []
     then cache' = cache1 \<and> bpf_core_calc_relo (cr_kind relo) lb local_spec None = Inr res
     else cache' = cache1\<lparr>cc_lists := (cc_lists cache1)[i := filter (cand_matches lb local_spec) cands]\<rparr>)"
proof -
  obtain i cache1 kept targ where c: "core_cands env lb (unat (cr_type_id relo)) (u32_as_hash_key (cr_type_id relo)) cache = Inr (i, cache1)"
      "i < length (cc_lists cache1)" "core_try_cands (cr_kind relo) lb local_spec (cc_lists cache1 ! i) ([], None) = Inr (kept, targ)"
      "(case targ of
          Some (res, _) \<Rightarrow> Inr (res, cache1\<lparr>cc_lists := (cc_lists cache1)[i := kept]\<rparr>)
        | None \<Rightarrow> rbind (bpf_core_calc_relo (cr_kind relo) lb local_spec None) (\<lambda>res. Inr (res, cache1))) = Inr (res, cache')"
    using assms by (auto simp: core_target_res_def result_simps)
  note t = try_cands_all [OF c(3)]
  show ?thesis
  proof (intro exI conjI)
    show "core_cands env lb (unat (cr_type_id relo)) (u32_as_hash_key (cr_type_id relo)) cache = Inr (i, cache1)"
      "i < length (cc_lists cache1)" "cc_lists cache1 ! i = cc_lists cache1 ! i" using c(1,2) by simp_all
    show "\<forall>c \<in> set (cc_lists cache1 ! i). cand_matches lb local_spec c \<longrightarrow> cand_gives (cr_kind relo) lb local_spec res c"
    proof (cases targ)
      case None
      then show ?thesis using t by (auto simp: filter_empty_conv)
    next
      case (Some p)
      then show ?thesis using t c(4) by (cases p) auto
    qed
    show "if filter (cand_matches lb local_spec) (cc_lists cache1 ! i) = []
      then cache' = cache1 \<and> bpf_core_calc_relo (cr_kind relo) lb local_spec None = Inr res
      else cache' = cache1\<lparr>cc_lists := (cc_lists cache1)[i := filter (cand_matches lb local_spec) (cc_lists cache1 ! i)]\<rparr>"
      using t c(4) by (cases targ) (auto simp: result_simps)
  qed
qed

definition tx_env :: core_env where
  "tx_env = \<lparr>ce_alloc = served, ce_vmlinux = Some cx_btf, ce_override = None, ce_modules = Inr []\<rparr>"

definition tx_relo :: bpf_core_relo where
  "tx_relo = \<lparr>cr_insn_off = 8, cr_type_id = 3, cr_access_str_off = 0, cr_kind = BPF_TYPE_EXISTS\<rparr>"

definition tx_cache :: core_cache where
  "tx_cache = \<lparr>cc_map = hashmap__init bpf_core_hash_fn bpf_core_equal_fn (), cc_lists = []\<rparr>"

definition tx_spec :: core_spec where
  "tx_spec = spec_new 3 BPF_TYPE_EXISTS"

lemma tx_find: "bpf_core_find_cands tx_env cx_btf 3 = Inr [\<lparr>cand_btf = cx_btf, cand_id = 3\<rparr>]"
proof -
  have nr: "btf__get_nr_types cx_btf = 3"
    using btf__get_nr_types_view [OF btf_of_view [OF cx_wf cx_len]] by (simp add: cx_btf_def)
  have ids: "[Suc 0..<Suc 3] = [1, 2, 3]" by code_simp
  have ty: "type_at cx_btf 1 = Inr ex_int" "type_at cx_btf 3 = Inr cx_outer" using cx_types by (simp_all add: type_at_def)
  have nm: "btf__name_by_offset cx_btf 5 = Inr (Some ''s'')" by (simp add: cx_btf_def btf_of_name cstr_def)
  have o: "name_off cx_outer = 5" "name_off cx_inner = 0" by (simp_all add: cx_outer_def cx_inner_def)
  have e: "bpf_core_essential_name_len ''s'' = 1" by (simp add: bpf_core_essential_name_len_def)
  show ?thesis
    by (simp add: bpf_core_find_cands_def bpf_core_add_cands_def nr ids [simplified] tx_env_def cx_types ty [simplified] nm o e cx_names
        str_is_empty_def same_prefix_def libbpf_reallocarray_def Let_def del: upt_Suc)
qed

lemma tx_target: "core_target_res tx_env tx_relo cx_btf tx_spec tx_cache \<noteq> Inl e"
proof -
  have ins: "ins_err (hashmap__set served (hashmap__init bpf_core_hash_fn bpf_core_equal_fn ()) 3 (0 :: nat)) = None"
    by (simp add: hashmap__set_def hashmap__insert_def hashmap__init_def hashmap_find_entry_def Let_def hashmap_insert_new_def
        hashmap_needs_to_grow_def hashmap_grow_def)
  have none: "hashmap__find (hashmap__init bpf_core_hash_fn bpf_core_equal_fn () :: (unit, u64, nat) hashmap) 3 = None"
    by (simp add: hashmap__find_def hashmap__init_def hashmap_find_entry_def Let_def)
  have "compat_loop recur 32 cx_btf 3 cx_btf 3 = Inr True" for recur
  proof -
    have "compat_loop recur (Suc 31) cx_btf 3 cx_btf 3 = Inr True" unfolding compat_loop.simps(2) by (simp add: cx_skip)
    then show ?thesis by simp
  qed
  moreover have "type_at cx_btf 3 = Inr cx_outer" using cx_types by (simp add: type_at_def)
  ultimately have "bpf_core_spec_match cx_btf tx_spec cx_btf 3 = Inr (Some (spec_new 3 BPF_TYPE_EXISTS))"
    by (simp add: bpf_core_spec_match_def tx_spec_def spec_new_def core_relo_is_type_based_def bpf_core_types_are_compat_def)
  then show ?thesis
    using ins tx_find none
    by (simp add: core_target_res_def core_cands_def tx_relo_def tx_cache_def u32_as_hash_key_def tx_env_def array_get_def Let_def
        bpf_core_calc_relo_def core_relo_is_type_based_def core_relo_is_field_based_def bpf_core_calc_type_relo_def or_poison_def)
qed

theorem core_target_unambiguous_witness:
  "\<exists>res cache'. core_target_res tx_env tx_relo cx_btf tx_spec tx_cache = Inr (res, cache') \<and>
     (\<exists>i cache1. core_cands tx_env cx_btf 3 3 tx_cache = Inr (i, cache1) \<and>
        (\<forall>c \<in> set (cc_lists cache1 ! i). cand_matches cx_btf tx_spec c \<longrightarrow> cand_gives BPF_TYPE_EXISTS cx_btf tx_spec res c))"
proof -
  obtain res cache' where t: "core_target_res tx_env tx_relo cx_btf tx_spec tx_cache = Inr (res, cache')"
    using tx_target by (metis sum.exhaust_sel surj_pair)
  from core_target_unambiguous [OF this] show ?thesis using t by (auto simp: tx_relo_def u32_as_hash_key_def)
qed

subsection \<open>Patching\<close>

text \<open>
  The operand a relocation replaces: the immediate of an arithmetic instruction, the offset of a load or store, the
  constant of a load of 64 bits over two instructions.
\<close>

definition operand :: "bpf_insn list \<Rightarrow> nat \<Rightarrow> u64" where
  "operand is i =
     (let c = BPF_CLASS (code (is ! i)) in
      if c = BPF_LDX \<or> c = BPF_ST \<or> c = BPF_STX then ucast (off (is ! i))
      else if c = BPF_LD then ucast (imm (is ! i)) + push_bit 32 (ucast (imm (is ! (i + 1))))
      else ucast (imm (is ! i)))"

definition insn_index :: "bpf_program \<Rightarrow> bpf_core_relo \<Rightarrow> nat" where
  "insn_index prog relo = nat (int (unat (cr_insn_off relo) div BPF_INSN_SZ) - int (sec_insn_off prog))"

lemma BPF_CLASS_keeps: "BPF_CLASS (BPF_MODE c OR s OR BPF_CLASS c) = BPF_CLASS c" if "s AND 7 = 0" for c s :: u8
proof -
  have "(BPF_MODE c OR s OR BPF_CLASS c) AND 7 = (BPF_MODE c AND 7) OR (s AND 7) OR (BPF_CLASS c AND 7)" by (simp add: bit.conj_disj_distrib2)
  moreover have "BPF_MODE c AND 7 = 0" by (simp add: BPF_MODE_def and.assoc)
  moreover have "BPF_CLASS c AND 7 = BPF_CLASS c" by (simp add: BPF_CLASS_def and.assoc)
  ultimately show ?thesis using that by (simp add: BPF_CLASS_def)
qed

lemma bpf_size_low: "insn_bytes_to_bpf_size n = Some s \<Longrightarrow> s AND 7 = 0"
  by (auto simp: insn_bytes_to_bpf_size_def BPF_DW_def BPF_W_def BPF_H_def BPF_B_def split: if_splits)

lemma BPF_MODE_keeps: "BPF_MODE (BPF_MODE c OR s OR BPF_CLASS c) = BPF_MODE c" if "s AND 0xe0 = 0" for c s :: u8
proof -
  have "(BPF_MODE c OR s OR BPF_CLASS c) AND 0xe0 = (BPF_MODE c AND 0xe0) OR (s AND 0xe0) OR (BPF_CLASS c AND 0xe0)"
    by (simp add: bit.conj_disj_distrib2)
  moreover have "BPF_MODE c AND 0xe0 = BPF_MODE c" by (simp add: BPF_MODE_def and.assoc)
  moreover have "BPF_CLASS c AND 0xe0 = 0" by (simp add: BPF_CLASS_def and.assoc)
  ultimately show ?thesis using that by (simp add: BPF_MODE_def)
qed

lemma BPF_SIZE_new: "BPF_SIZE (BPF_MODE c OR s OR BPF_CLASS c) = s" if "s AND 0x18 = s" for c s :: u8
proof -
  have "(BPF_MODE c OR s OR BPF_CLASS c) AND 0x18 = (BPF_MODE c AND 0x18) OR (s AND 0x18) OR (BPF_CLASS c AND 0x18)"
    by (simp add: bit.conj_disj_distrib2)
  moreover have "BPF_MODE c AND 0x18 = 0" by (simp add: BPF_MODE_def and.assoc)
  moreover have "BPF_CLASS c AND 0x18 = 0" by (simp add: BPF_CLASS_def and.assoc)
  ultimately show ?thesis using that by (simp add: BPF_SIZE_def)
qed

lemma resized_code:
  assumes "insn_bytes_to_bpf_size n = Some s"
  shows "BPF_CLASS (BPF_MODE c OR s OR BPF_CLASS c) = BPF_CLASS c" "BPF_MODE (BPF_MODE c OR s OR BPF_CLASS c) = BPF_MODE c"
    "insn_bpf_size_to_bytes (insn\<lparr>code := BPF_MODE c OR s OR BPF_CLASS c\<rparr>) = n"
proof -
  have s: "s AND 7 = 0" "s AND 0xe0 = 0" "s AND 0x18 = s"
    using assms by (auto simp: insn_bytes_to_bpf_size_def BPF_DW_def BPF_W_def BPF_H_def BPF_B_def split: if_splits)
  show "BPF_CLASS (BPF_MODE c OR s OR BPF_CLASS c) = BPF_CLASS c" by (rule BPF_CLASS_keeps [OF s(1)])
  show "BPF_MODE (BPF_MODE c OR s OR BPF_CLASS c) = BPF_MODE c" by (rule BPF_MODE_keeps [OF s(2)])
  show "insn_bpf_size_to_bytes (insn\<lparr>code := BPF_MODE c OR s OR BPF_CLASS c\<rparr>) = n"
    using assms BPF_SIZE_new [OF s(3)]
    by (auto simp: insn_bpf_size_to_bytes_def Let_def insn_bytes_to_bpf_size_def BPF_DW_def BPF_W_def BPF_H_def BPF_B_def split: if_splits)
qed

abbreviation is_mem :: "bpf_insn \<Rightarrow> bool" where
  "is_mem insn \<equiv> BPF_CLASS (code insn) \<in> {BPF_LDX, BPF_ST, BPF_STX}"

text \<open>The value that a relocation which validates compares with the local one; half of a load is extended with its sign.\<close>

definition compared :: "bpf_insn list \<Rightarrow> nat \<Rightarrow> u64" where
  "compared is i =
     (if is_mem (is ! i) then ucast (scast (off (is ! i)) :: u32)
      else if BPF_CLASS (code (is ! i)) = BPF_LD then scast (imm (is ! i)) + push_bit 32 (scast (imm (is ! (i + 1))))
      else ucast (imm (is ! i)))"

text \<open>
  What patching does: the operand of instruction \<open>i\<close> becomes the new value, and the size of its access the new size.
  Everything else stays, but for the second half of a load of 64 bits.
\<close>

definition core_patched :: "bpf_insn list \<Rightarrow> bpf_insn list \<Rightarrow> nat \<Rightarrow> core_relo_res \<Rightarrow> bool" where
  "core_patched is is' i res \<longleftrightarrow>
     i < length is \<and> length is' = length is \<and>
     (rr_validate res \<longrightarrow> compared is i = ucast (rr_orig_val res)) \<and>
     operand is' i = ucast (rr_new_val res) \<and>
     dst_reg (is' ! i) = dst_reg (is ! i) \<and> src_reg (is' ! i) = src_reg (is ! i) \<and>
     BPF_CLASS (code (is' ! i)) = BPF_CLASS (code (is ! i)) \<and> BPF_MODE (code (is' ! i)) = BPF_MODE (code (is ! i)) \<and>
     (if is_mem (is ! i)
      then imm (is' ! i) = imm (is ! i) \<and>
           (if rr_new_sz res = rr_orig_sz res then code (is' ! i) = code (is ! i)
            else insn_bpf_size_to_bytes (is ! i) = rr_orig_sz res \<and> insn_bpf_size_to_bytes (is' ! i) = rr_new_sz res)
      else off (is' ! i) = off (is ! i) \<and> code (is' ! i) = code (is ! i)) \<and>
     (\<forall>j < length is. j \<noteq> i \<longrightarrow>
        is' ! j = (if j = i + 1 \<and> BPF_CLASS (code (is ! i)) = BPF_LD then (is ! j)\<lparr>imm := 0\<rparr> else is ! j))"

text \<open>What poisoning does: the instruction, and the second half of a load of 64 bits, call a helper that does not exist.\<close>

definition made_poison :: "bpf_insn list \<Rightarrow> bpf_insn list \<Rightarrow> nat \<Rightarrow> bool" where
  "made_poison is is' i \<longleftrightarrow>
     i < length is \<and> length is' = length is \<and> (is_ldimm64 (is ! i) \<longrightarrow> i + 1 < length is) \<and>
     (\<forall>j < length is. is' ! j = (if j = i \<or> j = i + 1 \<and> is_ldimm64 (is ! i) then poisoned (is ! j) else is ! j))"

lemma poison_at_ok: "poison_at i is = Inr is' \<Longrightarrow> made_poison is is' i"
  by (auto simp: made_poison_def poison_at_def bpf_core_poison_insn_def set_insn_def array_get_def rbind_Inr_iff nth_list_update
      split: if_splits)

lemma patch_alu_ok:
  assumes "patch_alu res i (is ! i) is = Inr is'" "BPF_CLASS (code (is ! i)) \<in> {BPF_ALU, BPF_ALU64}"
  shows "core_patched is is' i res"
proof -
  have r: "i < length is" "is' = is[i := (is ! i)\<lparr>imm := rr_new_val res\<rparr>]" "rr_validate res \<longrightarrow> imm (is ! i) = rr_orig_val res"
    using assms(1) by (auto simp: patch_alu_def set_insn_def split: if_splits)
  have c: "BPF_CLASS (code (is ! i)) \<noteq> BPF_LDX" "BPF_CLASS (code (is ! i)) \<noteq> BPF_ST" "BPF_CLASS (code (is ! i)) \<noteq> BPF_STX"
      "BPF_CLASS (code (is ! i)) \<noteq> BPF_LD"
    using assms(2) by (auto simp: BPF_ALU_def BPF_ALU64_def BPF_LDX_def BPF_ST_def BPF_STX_def BPF_LD_def)
  show ?thesis using r c by (simp add: core_patched_def operand_def compared_def Let_def)
qed

lemma ucast_short: "\<not> v > SHRT_MAX \<Longrightarrow> ucast (ucast v :: u16) = (ucast v :: u64)" for v :: u32
proof -
  assume "\<not> v > SHRT_MAX"
  then have small: "uint v < 2 ^ 16" by (simp add: SHRT_MAX_def word_le_def not_less)
  have "take_bit 16 (uint v) = uint v" "take_bit 64 (uint v) = uint v"
    using small by (simp_all add: take_bit_int_eq_self_iff)
  then have "uint (ucast (ucast v :: u16) :: u64) = uint (ucast v :: u64)" by (simp only: unsigned_ucast_eq unsigned_take_bit_eq len_num0 len_bit0 len_num1) simp
  then show ?thesis by (simp only: word_uint_eq_iff)
qed

lemma patch_mem_ok:
  assumes "patch_mem res i (is ! i) is = Inr is'" "is_mem (is ! i)"
  shows "if rr_fail_memsz_adjust res then made_poison is is' i else core_patched is is' i res"
proof (cases "rr_fail_memsz_adjust res")
  case True
  then have "poison_at i is = Inr is'" using assms(1) by (simp add: patch_mem_def split: if_splits)
  then show ?thesis using True poison_at_ok by simp
next
  case False
  have small: "\<not> rr_new_val res > SHRT_MAX" and val: "rr_validate res \<longrightarrow> scast (off (is ! i)) = rr_orig_val res"
    using assms(1) by (auto simp: patch_mem_def split: if_splits)
  obtain c where c: "i < length is" "is' = is[i := (is ! i)\<lparr>off := ucast (rr_new_val res), code := c\<rparr>]"
      "BPF_CLASS c = BPF_CLASS (code (is ! i))" "BPF_MODE c = BPF_MODE (code (is ! i))"
      "if rr_new_sz res = rr_orig_sz res then c = code (is ! i)
       else insn_bpf_size_to_bytes (is ! i) = rr_orig_sz res \<and> insn_bpf_size_to_bytes (is' ! i) = rr_new_sz res"
  proof (cases "rr_new_sz res = rr_orig_sz res")
    case True
    then have "i < length is" "is' = is[i := (is ! i)\<lparr>off := ucast (rr_new_val res), code := code (is ! i)\<rparr>]"
      using assms(1) False by (auto simp: patch_mem_def Let_def set_insn_def split: if_splits)
    then show ?thesis using that [of "code (is ! i)"] True by simp
  next
    case sz: False
    then obtain bsz where b: "insn_bytes_to_bpf_size (rr_new_sz res) = Some bsz" "i < length is"
        "insn_bpf_size_to_bytes (is ! i) = rr_orig_sz res"
        "is' = is[i := (is ! i)\<lparr>off := ucast (rr_new_val res), code := BPF_MODE (code (is ! i)) OR bsz OR BPF_CLASS (code (is ! i))\<rparr>]"
      using assms(1) False by (auto simp: patch_mem_def Let_def set_insn_def insn_bpf_size_to_bytes_def split: if_splits option.splits)
    show ?thesis using that [of "BPF_MODE (code (is ! i)) OR bsz OR BPF_CLASS (code (is ! i))"] b sz resized_code [OF b(1)] by simp
  qed
  have mem: "is_mem (is' ! i)" using assms(2) c(1-3) by simp
  have "operand is' i = ucast (off (is' ! i))" using mem by (simp add: operand_def Let_def disj_assoc)
  then have o: "operand is' i = ucast (rr_new_val res)" using c(1,2) ucast_short [OF small] by simp
  have l: "BPF_CLASS (code (is ! i)) \<noteq> BPF_LD" using assms(2) by (auto simp: BPF_LDX_def BPF_ST_def BPF_STX_def BPF_LD_def)
  have "compared is i = ucast (rr_orig_val res)" if "rr_validate res" using val that assms(2) by (simp add: compared_def)
  then show ?thesis using False assms(2) o l c by (simp add: core_patched_def split: if_splits)
qed

lemma patch_ld_ok:
  assumes "patch_ld res cnt i (is ! i) is = Inr is'"
  shows "core_patched is is' i res"
proof -
  have r: "i + 1 < length is" "is_ldimm64 (is ! i)"
      "is' = is[i := (is ! i)\<lparr>imm := rr_new_val res\<rparr>, i + 1 := (is ! (i + 1))\<lparr>imm := 0\<rparr>]"
      "rr_validate res \<longrightarrow> ldimm64_value (is ! i) (is ! (i + 1)) = ucast (rr_orig_val res)"
    using assms by (auto simp: patch_ld_def set_insn_def array_get_def split: if_splits)
  have c: "BPF_CLASS (code (is ! i)) = BPF_LD"
    using r(2) by (simp add: is_ldimm64_def BPF_CLASS_def BPF_LD_def BPF_IMM_def BPF_DW_def)
  have l: "BPF_LD \<noteq> BPF_LDX" "BPF_LD \<noteq> BPF_ST" "BPF_LD \<noteq> BPF_STX" by (simp_all add: BPF_LD_def BPF_LDX_def BPF_ST_def BPF_STX_def)
  have o: "operand is' i = ucast (rr_new_val res)"
    using r(1) c l by (simp add: r(3) operand_def Let_def nth_list_update)
  show ?thesis using r(1,2,4) o c l by (auto simp: core_patched_def r(3) nth_list_update compared_def ldimm64_value_def)
qed

lemma core_patch_result:
  assumes "bpf_core_patch_insn prog relo res = Inr prog'"
  shows "(if rr_poison res \<or> rr_fail_memsz_adjust res \<and> is_mem (insns prog ! insn_index prog relo)
          then made_poison (insns prog) (insns prog') (insn_index prog relo)
          else core_patched (insns prog) (insns prog') (insn_index prog relo) res) \<and>
         prog' = prog\<lparr>insns := insns prog'\<rparr>"
proof -
  let ?i = "insn_index prog relo" and ?is = "insns prog"
  let ?c = "BPF_CLASS (code (?is ! ?i))"
  let ?r = "if rr_poison res then poison_at ?i ?is
    else if ?c = BPF_ALU \<or> ?c = BPF_ALU64 then patch_alu res ?i (?is ! ?i) ?is
    else if ?c = BPF_LDX \<or> ?c = BPF_ST \<or> ?c = BPF_STX then patch_mem res ?i (?is ! ?i) ?is
    else if ?c = BPF_LD then patch_ld res (insns_cnt prog) ?i (?is ! ?i) ?is
    else Inl EINVAL"
  obtain is' where r: "?r = Inr is'" "prog' = prog\<lparr>insns := is'\<rparr>"
    using assms
    by (auto simp: bpf_core_patch_insn_def Let_def insn_index_def insn_at_def array_get_def rbind_Inr_iff split: if_splits)
  have alu: "\<not> is_mem (?is ! ?i)" if "?c = BPF_ALU \<or> ?c = BPF_ALU64"
    using that by (auto simp: BPF_ALU_def BPF_ALU64_def BPF_LDX_def BPF_ST_def BPF_STX_def)
  have "if rr_poison res \<or> rr_fail_memsz_adjust res \<and> is_mem (?is ! ?i) then made_poison ?is is' ?i else core_patched ?is is' ?i res"
    using r(1) poison_at_ok [of ?i ?is is'] patch_alu_ok [of res ?i ?is is'] patch_mem_ok [of res ?i ?is is']
      patch_ld_ok [of res "insns_cnt prog" ?i ?is is'] alu
    by (auto split: if_splits)
  then show ?thesis using r(2) by simp
qed

text \<open>
  C35. A successful \<^verbatim>\<open>bpf_core_patch_insn\<close>. If the relocation is not resolved, or a memory access of the instruction cannot
  be adjusted to the size of the target, the instruction the record names (with the second half of a load of 64 bits)
  becomes the call of a helper that does not exist, and every other instruction is as it was. Otherwise the old operand was
  the expected one, if the relocation validates; the new operand (immediate, offset or constant of 64 bits) is the new
  value; an access to memory has the new size, and registers, class and mode stay; and every other instruction is as it
  was, but for the second half of a load of 64 bits, whose immediate is 0. Nothing else of the program changes.
\<close>

theorem core_patch_correct:
  assumes "bpf_core_patch_insn prog relo res = Inr prog'"
  shows "(if rr_poison res \<or> rr_fail_memsz_adjust res \<and> is_mem (insns prog ! insn_index prog relo)
          then made_poison (insns prog) (insns prog') (insn_index prog relo)
          else core_patched (insns prog) (insns prog') (insn_index prog relo) res) \<and>
         prog' = prog\<lparr>insns := insns prog'\<rparr>"
  by (rule core_patch_result [OF assms])

lemma bit31_of_large: "bit w 31" if "w \<ge> 0x80000000" for w :: u32
proof (rule ccontr)
  assume n: "\<not> bit w 31"
  have "take_bit 31 w = w"
  proof (rule bit_word_eqI)
    fix k assume "k < LENGTH(32)"
    then have "k < 31 \<or> k = 31" by auto
    then show "bit (take_bit 31 w) k = bit w k" using n by (auto simp: bit_take_bit_iff)
  qed
  then have "uint w = take_bit 31 (uint w)" by (metis unsigned_take_bit_eq)
  then have "uint w < 2 ^ 31" by (metis take_bit_int_less_exp)
  then show False using that by (simp add: word_le_def)
qed

text \<open>
  C39. A load of a constant of 64 bits whose low half has bit 31 set and whose high half is zero is refused by
  every relocation that validates: the code adds the low half as a signed number, so a value of
  \<open>2\<^sup>3\<^sup>1\<close> or more is never found in the instruction.
\<close>

theorem ldimm64_large_rejected:
  assumes "i + 1 < length is" "i + 1 < cnt" "imm (is ! i) \<ge> 0x80000000" "imm (is ! (i + 1)) = 0"
    and "rr_validate res"
  shows "patch_ld res cnt i (is ! i) is = Inl EINVAL"
proof -
  have neg: "scast (imm (is ! i)) \<noteq> (ucast v :: u64)" for v :: u32
  proof
    assume eq: "scast (imm (is ! i)) = (ucast v :: u64)"
    have "bit (imm (is ! i)) 31" using assms(3) bit31_of_large by blast
    then have "bit (scast (imm (is ! i)) :: u64) 40" by (simp add: bit_signed_iff)
    moreover have "\<not> bit (ucast v :: u64) 40" by (simp add: bit_unsigned_iff impossible_bit)
    ultimately show False using eq by simp
  qed
  show ?thesis using assms(1,2,4,5) neg [of "rr_orig_val res"]
    by (simp add: patch_ld_def array_get_def ldimm64_value_def)
qed

text \<open>A relocation of the load of 64 bits that \<open>ex_f\<close> begins with.\<close>

definition px_relo :: bpf_core_relo where
  "px_relo = \<lparr>cr_insn_off = 0, cr_type_id = 1, cr_access_str_off = 0, cr_kind = BPF_FIELD_BYTE_OFFSET\<rparr>"

lemma px_patch:
  "bpf_core_patch_insn ex_f px_relo (res_new\<lparr>rr_new_val := 7\<rparr>) = Inr (ex_f\<lparr>insns := [ex_insn 0x18 1 0 7, ex_insn 0 0 0 0, ex_insn 0x95 0 0 0]\<rparr>)"
  by code_simp

theorem core_patch_correct_witness:
  "\<exists>prog'. bpf_core_patch_insn ex_f px_relo (res_new\<lparr>rr_new_val := 7\<rparr>) = Inr prog' \<and>
     core_patched (insns ex_f) (insns prog') 0 (res_new\<lparr>rr_new_val := 7\<rparr>)"
proof -
  have i: "insn_index ex_f px_relo = 0" by code_simp
  show ?thesis using core_patch_correct [OF px_patch] px_patch by (simp add: i res_new_def)
qed

theorem ldimm64_large_rejected_witness:
  "patch_ld (res_new\<lparr>rr_orig_val := 0x80000000\<rparr>) 2 0 (ex_insn 0x18 1 0 0x80000000)
     [ex_insn 0x18 1 0 0x80000000, ex_insn 0 0 0 0] = Inl EINVAL"
  using ldimm64_large_rejected [of 0 "[ex_insn 0x18 1 0 0x80000000, ex_insn 0 0 0 0]" 2 "res_new\<lparr>rr_orig_val := 0x80000000\<rparr>"]
  by (simp add: ex_insn_def res_new_def)

lemma prog_of_section_falls_back:
  "(\<forall>p \<in> set ps. p_sec_name p \<noteq> sec_name) \<Longrightarrow> prog_of_section ps sec_name prog = (if ps = [] then prog else Some (last ps))"
  by (induction ps arbitrary: prog) auto

lemma prog_of_section_found:
  "p \<in> set ps \<Longrightarrow> p_sec_name p = sec_name \<Longrightarrow> \<exists>q \<in> set ps. prog_of_section ps sec_name prog = Some q \<and> p_sec_name q = sec_name"
  by (induction ps arbitrary: prog) auto

end
