(* ===== verification/Relocate.thy ===== *)
theory Relocate
  imports Subprog_Facts Core_Patch
begin

text \<open>
  All relocations of an object (\<^verbatim>\<open>bpf_object__relocate\<close>, \<^verbatim>\<open>libbpf.c\<close>, lines 6554 to 6615): the CO-RE relocations, if the
  object has a \<^verbatim>\<open>.BTF.ext\<close> section, the data references of all programs, the calls of every main program.
\<close>

text \<open>
  The programs that CO-RE relocations have changed before one of them fails are not in the result of the error; the
  object is not used any more then. \<open>core_env\<close>, \<open>junk\<close> and \<open>targ\<close> are the arguments of \<open>bpf_object__relocate_core\<close>.
\<close>

definition bpf_object__relocate ::
    "nat \<Rightarrow> link_env \<Rightarrow> core_env \<Rightarrow> core_relo_res \<Rightarrow> btf result option \<Rightarrow> bpf_object \<Rightarrow> unit result \<times> bpf_object" where
  "bpf_object__relocate depth env cenv junk targ obj =
     and_then (if obj_btf_ext obj = None then (Inr (), obj) else keep obj (bpf_object__relocate_core cenv junk targ obj)) (\<lambda>obj.
     and_then (run_steps relocate_data_of [0..<length (programs obj)] obj) (\<lambda>obj.
     and_then (run_steps (\<lambda>i obj. if prog_is_subprog obj (programs obj ! i) then (Inr (), obj)
                                   else bpf_object__relocate_calls depth env i obj)
                 [0..<length (programs obj)] obj) (\<lambda>obj.
     (Inr (), obj\<lparr>programs := map (\<lambda>p. p\<lparr>p_relocs := []\<rparr>) (programs obj)\<rparr>))))"

subsection \<open>What CO-RE relocations keep\<close>

definition code_only :: "bpf_program \<Rightarrow> bpf_program \<Rightarrow> bool" where
  "code_only p q \<longleftrightarrow> q = p\<lparr>insns := insns q\<rparr> \<and> length (insns q) = length (insns p)"

lemma code_only_refl [simp]: "code_only p p"
  by (simp add: code_only_def)

lemma code_only_trans: "code_only p q \<Longrightarrow> code_only q r \<Longrightarrow> code_only p r"
proof -
  assume q: "code_only p q" and r: "code_only q r"
  have "q\<lparr>insns := c\<rparr> = p\<lparr>insns := c\<rparr>" for c
    using arg_cong [OF conjunct1 [OF q [unfolded code_only_def]], of "insns_update (\<lambda>_. c)"] by simp
  then show ?thesis using q r by (simp add: code_only_def)
qed

lemma as_EINVAL_Inr: "as_EINVAL m = Inr x \<longleftrightarrow> m = Inr x"
  by (simp add: as_EINVAL_def split: sum.split)

lemma core_patch_code_only: "bpf_core_patch_insn prog relo res = Inr prog' \<Longrightarrow> code_only prog prog'"
  using core_patch_result [of prog relo res prog'] by (auto simp: code_only_def core_patched_def made_poison_def split: if_splits)

lemma core_apply_code_only: "bpf_core_apply_relo env junk prog relo lb cache = Inr (prog', cache') \<Longrightarrow> code_only prog prog'"
  by (auto simp: bpf_core_apply_relo_def rbind_Inr_iff as_EINVAL_Inr intro: core_patch_code_only)

text \<open>The object that CO-RE relocations lead to.\<close>

definition core_step :: "bpf_object \<Rightarrow> bpf_object \<Rightarrow> bool" where
  "core_step obj obj' \<longleftrightarrow> obj' = obj\<lparr>programs := programs obj'\<rparr> \<and> list_all2 code_only (programs obj) (programs obj')"

lemma core_step_refl [simp]: "core_step obj obj"
  by (simp add: core_step_def list_all2_refl)

lemma core_step_trans:
  assumes "core_step a b" "core_step b c"
  shows "core_step a c"
proof -
  have "list_all2 code_only (programs a) (programs c)"
    using assms list_all2_trans [of code_only code_only code_only] code_only_trans unfolding core_step_def by metis
  moreover have "c = a\<lparr>programs := programs c\<rparr>"
  proof -
    obtain ps qs where "b = a\<lparr>programs := ps\<rparr>" "c = b\<lparr>programs := qs\<rparr>" using assms unfolding core_step_def by blast
    then show ?thesis by simp
  qed
  ultimately show ?thesis by (simp add: core_step_def)
qed

lemma core_step_prog:
  assumes "code_only (programs obj ! i) q"
  shows "core_step obj (obj\<lparr>programs := (programs obj)[i := q]\<rparr>)"
  using assms by (cases "i < length (programs obj)") (auto simp: core_step_def list_all2_conv_all_nth nth_list_update)

lemma core_recs_step: "core_relo_recs env junk lb sec recs st = Inr st' \<Longrightarrow> core_step (fst st) (fst st')"
proof (induction recs arbitrary: st)
  case (Cons rec recs)
  obtain found i where i: "find_prog_by_sec_insn (fst st) sec (unat (cr_insn_off rec) div BPF_INSN_SZ) = Inr found" "found = Some i"
    using Cons.prems by (auto simp: rbind_Inr_iff deref_def split: option.splits)
  show ?case
  proof (cases "p_load (programs (fst st) ! i)")
    case False
    then show ?thesis using Cons i by simp
  next
    case True
    then obtain prog1 cache where p: "bpf_core_apply_relo env junk (programs (fst st) ! i) rec lb (snd st) = Inr (prog1, cache)"
        "core_relo_recs env junk lb sec recs ((fst st)\<lparr>programs := (programs (fst st))[i := prog1]\<rparr>, cache) = Inr st'"
      using Cons.prems i by (auto simp: rbind_Inr_iff)
    show ?thesis using core_step_trans [OF core_step_prog [OF core_apply_code_only [OF p(1)]]] Cons.IH [OF p(2)] by simp
  qed
qed simp

lemma core_secs_step: "core_relo_secs env junk lb data seg secs st = Inr st' \<Longrightarrow> core_step (fst st) (fst st')"
proof (induction env junk lb data seg secs st rule: core_relo_secs.induct)
  case (2 env junk lb data seg sec num secs st)
  then obtain sec_idx recs st1 where s: "core_relo_recs env junk lb sec_idx recs st = Inr st1" "core_relo_secs env junk lb data seg secs st1 = Inr st'"
      "core_step (fst st1) (fst st')"
    by (auto simp: rbind_Inr_iff)
  show ?case by (rule core_step_trans [OF core_recs_step [OF s(1)] s(3)])
qed simp

lemma relocate_core_step: "bpf_object__relocate_core env junk targ obj = Inr obj' \<Longrightarrow> core_step obj obj'"
  using core_secs_step by (fastforce simp: bpf_object__relocate_core_def rbind_Inr_iff split: if_splits)

subsection \<open>All relocations\<close>

text \<open>
  C16. When all relocations of an object succeed: the CO-RE relocations, if it has any, have changed nothing but the
  instructions of programs; all data references of the result have been patched; every main program is its patched code
  followed by the patched sub-programs it needs, with its calls redirected; and no relocation descriptor is left.
\<close>

theorem relocate_correct:
  assumes "bpf_object__relocate depth env cenv junk targ obj = (Inr (), obj')"
    "progs_wf (programs obj)" "\<forall>p \<in> set (programs obj). sub_insn_off p = 0"
    "0 \<le> text_shndx (efile obj)" "text_shndx (efile obj) < 2 ^ 31"
  shows "\<exists>obj1 obj2.
    (if obj_btf_ext obj = None then obj1 = obj else bpf_object__relocate_core cenv junk targ obj = Inr obj1) \<and>
    obj1 = obj\<lparr>programs := programs obj1\<rparr> \<and> list_all2 code_only (programs obj) (programs obj1) \<and>
    (\<forall>j < length (programs obj). bpf_object__relocate_data obj1 (programs obj1 ! j) = Inr (programs obj2 ! j)) \<and>
    (\<forall>i < length (programs obj). \<not> prog_is_subprog obj (programs obj ! i) \<longrightarrow> (\<exists>js. linked_code i obj2 js (insns (programs obj' ! i)))) \<and>
    length (programs obj') = length (programs obj) \<and> (\<forall>p \<in> set (programs obj'). p_relocs p = [])"
proof -
  obtain o1 o2 o3 where
      o1: "if obj_btf_ext obj = None then o1 = obj else bpf_object__relocate_core cenv junk targ obj = Inr o1"
      and o2: "run_steps relocate_data_of [0..<length (programs o1)] o1 = (Inr (), o2)"
      and o3: "run_steps (link_main depth env) [0..<length (programs o2)] o2 = (Inr (), o3)"
      and obj': "obj' = o3\<lparr>programs := map (\<lambda>p. p\<lparr>p_relocs := []\<rparr>) (programs o3)\<rparr>"
    using assms(1) by (auto simp: bpf_object__relocate_def and_then_Inr keep_eq link_main_def [abs_def] split: if_splits)
  have step: "core_step obj o1" using o1 relocate_core_step by (auto split: if_splits)
  then have n: "length (programs o1) = length (programs obj)" and co: "\<And>i. i < length (programs obj) \<Longrightarrow> code_only (programs obj ! i) (programs o1 ! i)"
    by (auto simp: core_step_def list_all2_conv_all_nth)
  have o1_eq: "o1 = obj\<lparr>programs := programs o1\<rparr>" and co_all: "list_all2 code_only (programs obj) (programs o1)"
    using step by (simp_all add: core_step_def)
  have same: "efile o1 = efile obj" using arg_cong [OF o1_eq, of efile] by simp
  have fields: "sec_insn_cnt (programs o1 ! i) = sec_insn_cnt (programs obj ! i)" "insns_cnt (programs o1 ! i) = insns_cnt (programs obj ! i)"
      "sub_insn_off (programs o1 ! i) = sub_insn_off (programs obj ! i)" "p_sec_idx (programs o1 ! i) = p_sec_idx (programs obj ! i)"
      "length (insns (programs o1 ! i)) = length (insns (programs obj ! i))" if "i < length (programs obj)" for i
  proof -
    have q: "programs o1 ! i = (programs obj ! i)\<lparr>insns := insns (programs o1 ! i)\<rparr>"
        "length (insns (programs o1 ! i)) = length (insns (programs obj ! i))"
      using co [OF that] by (simp_all add: code_only_def)
    show "sec_insn_cnt (programs o1 ! i) = sec_insn_cnt (programs obj ! i)" using arg_cong [OF q(1), of sec_insn_cnt] by simp
    show "insns_cnt (programs o1 ! i) = insns_cnt (programs obj ! i)" using arg_cong [OF q(1), of insns_cnt] by simp
    show "sub_insn_off (programs o1 ! i) = sub_insn_off (programs obj ! i)" using arg_cong [OF q(1), of sub_insn_off] by simp
    show "p_sec_idx (programs o1 ! i) = p_sec_idx (programs obj ! i)" using arg_cong [OF q(1), of p_sec_idx] by simp
    show "length (insns (programs o1 ! i)) = length (insns (programs obj ! i))" by (rule q(2))
  qed
  have whole: "\<forall>p \<in> set (programs o1). 0 < sec_insn_cnt p \<and> length (insns p) = sec_insn_cnt p \<and> insns_cnt p = sec_insn_cnt p \<and>
      sub_insn_off p = 0"
  proof
    fix p assume "p \<in> set (programs o1)"
    then obtain i where i: "i < length (programs obj)" "p = programs o1 ! i" using n by (auto simp: in_set_conv_nth)
    then have "programs obj ! i \<in> set (programs obj)" by simp
    then show "0 < sec_insn_cnt p \<and> length (insns p) = sec_insn_cnt p \<and> insns_cnt p = sec_insn_cnt p \<and> sub_insn_off p = 0"
      using i fields [OF i(1)] assms(2,3) by (simp add: progs_wf_def)
  qed
  have shndx: "0 \<le> text_shndx (efile o1)" "text_shndx (efile o1) < 2 ^ 31" using same assms(4,5) by simp_all
  note L = data_and_link [OF o2 o3 whole shndx]
  have sub: "prog_is_subprog o1 (programs o1 ! i) = prog_is_subprog obj (programs obj ! i)" if "i < length (programs obj)" for i
    using fields(4) [OF that] n same by (simp add: prog_is_subprog_def)
  have "insns (programs obj' ! i) = insns (programs o3 ! i)" if "i < length (programs obj)" for i
    using that L n by (simp add: obj')
  then have linked: "\<forall>i < length (programs obj). \<not> prog_is_subprog obj (programs obj ! i) \<longrightarrow>
      (\<exists>js. linked_code i o2 js (insns (programs obj' ! i)))"
    using L n sub by simp
  have data: "\<forall>j < length (programs obj). bpf_object__relocate_data o1 (programs o1 ! j) = Inr (programs o2 ! j)" using L n by simp
  have left: "length (programs obj') = length (programs obj)" "\<forall>p \<in> set (programs obj'). p_relocs p = []"
    using L n by (auto simp: obj')
  show ?thesis using o1 o1_eq co_all data linked left by blast
qed

lemma ex_relocate_run:
  "\<exists>obj'. bpf_object__relocate (Suc (Suc 0)) ex_link_env cenv junk targ ex_calls = (Inr (), obj')"
  by (simp add: bpf_object__relocate_def relocate_data_of_def bpf_object__relocate_data_def relocate_one_def is_processed_by_data_def
      link_eval Let_def ex_main_def ex_sub_def ex_prog_def ex_insn_def)

theorem relocate_correct_witness:
  "\<forall>cenv junk targ. \<exists>obj' obj2 js. bpf_object__relocate (Suc (Suc 0)) ex_link_env cenv junk targ ex_calls = (Inr (), obj') \<and>
     linked_code 1 obj2 js (insns (programs obj' ! 1))"
proof (intro allI)
  fix cenv junk targ
  obtain obj' where run: "bpf_object__relocate (Suc (Suc 0)) ex_link_env cenv junk targ ex_calls = (Inr (), obj')"
    using ex_relocate_run by blast
  have "progs_wf (programs ex_calls)" "\<forall>p \<in> set (programs ex_calls). sub_insn_off p = 0"
    by (simp_all add: progs_wf_def prog_before_def ex_call_defs)
  from relocate_correct [OF run this] obtain obj2 where
    "\<forall>i < length (programs ex_calls). \<not> prog_is_subprog ex_calls (programs ex_calls ! i) \<longrightarrow> (\<exists>js. linked_code i obj2 js (insns (programs obj' ! i)))"
    by (auto simp: ex_calls_simps)
  from spec [OF this, of 1]
  show "\<exists>obj' obj2 js. bpf_object__relocate (Suc (Suc 0)) ex_link_env cenv junk targ ex_calls = (Inr (), obj') \<and>
      linked_code 1 obj2 js (insns (programs obj' ! 1))"
    using run by (auto simp: ex_calls_simps prog_is_subprog_def ex_main_def ex_prog_def)
qed

end
