(* ===== verification/Kconfig_Facts.thy ===== *)
theory Kconfig_Facts
  imports Kconfig Reloc_Facts
begin

text \<open>
  Kconfig values: a number is stored exactly when it fits its extern, and reading the extern gives it back;
  a line of the configuration changes nothing but the place of the extern it names; the places of the
  externs of an object are aligned, disjoint and inside the Kconfig map.
\<close>

subsection \<open>Numbers fit\<close>

definition num_fits :: "extern_desc \<Rightarrow> u64 \<Rightarrow> bool" where
  "num_fits ext v \<longleftrightarrow>
     (let w = 8 * nat (kcfg_sz ext) in
      if kcfg_is_signed ext then - (2 ^ (w - 1)) \<le> sint v \<and> sint v < 2 ^ (w - 1) else uint v < 2 ^ w)"

text \<open>The number an extern holds: its bytes, read with its sign.\<close>

definition kcfg_bytes :: "extern_desc \<Rightarrow> u8 list \<Rightarrow> u8 list" where
  "kcfg_bytes ext mem = take (nat (kcfg_sz ext)) (drop (nat (kcfg_data_off ext)) mem)"

definition kcfg_num :: "extern_desc \<Rightarrow> u8 list \<Rightarrow> int" where
  "kcfg_num ext mem =
     (let n = horner_sum uint 256 (kcfg_bytes ext mem) in
      if kcfg_is_signed ext then signed_take_bit (8 * nat (kcfg_sz ext) - 1) n else n)"

lemma mod_once: "m \<le> x \<Longrightarrow> x < 2 * m \<Longrightarrow> x mod m = x - m" for x m :: int
  using minus_mod_self2 [of x m] mod_pos_pos_trivial [of "x - m" m] by simp

lemma div_power_0: "0 \<le> u \<Longrightarrow> u div 2 ^ n = 0 \<longleftrightarrow> u < 2 ^ n" for u :: int
  by (auto simp: zdiv_eq_0_iff)

lemma half_range:
  fixes u h :: int
  assumes "0 \<le> u" "u < 2 ^ 64" "0 < h" "h \<le> 2 ^ 62"
  shows "(u + h) mod 2 ^ 64 < 2 * h \<longleftrightarrow> - h \<le> (if u < 2 ^ 63 then u else u - 2 ^ 64) \<and> (if u < 2 ^ 63 then u else u - 2 ^ 64) < h"
  using assms mod_once [of "2 ^ 64" "u + h"] by (cases "u + h < 2 ^ 64") auto

lemma signed_range:
  fixes v :: u64
  assumes "0 < k" "k < 64"
  shows "v + push_bit (k - 1) 1 < push_bit k 1 \<longleftrightarrow> - (2 ^ (k - 1)) \<le> sint v \<and> sint v < 2 ^ (k - 1)"
proof -
  have p: "push_bit k (1 :: u64) = 2 ^ k" "push_bit (k - 1) (1 :: u64) = 2 ^ (k - 1)" by (simp_all add: push_bit_of_1)
  have u: "uint ((2 :: u64) ^ m) = 2 ^ m" if "m < 64" for m using that
    by (simp add: unsigned_push_bit_eq take_bit_push_bit take_bit_of_1 flip: push_bit_of_1)
  have half: "(2 :: int) ^ k = 2 * 2 ^ (k - 1)" using assms(1) by (simp add: power_eq_if)
  have small: "(2 :: int) ^ (k - 1) \<le> 2 ^ 62" by (rule power_increasing) (use assms in auto)
  have lt: "v + 2 ^ (k - 1) < 2 ^ k \<longleftrightarrow> (uint v + 2 ^ (k - 1)) mod 2 ^ 64 < 2 ^ k"
    using assms by (simp add: word_less_def uint_word_ariths u)
  have r: "0 \<le> uint v" "uint v < 2 ^ 64" using uint_bounded [of v] by simp_all
  have s: "sint v = (if uint v < 2 ^ 63 then uint v else uint v - 2 ^ 64)"
    using r mod_once [of "2 ^ 64" "uint v + 2 ^ 63"]
    by (simp add: sint_uint signed_take_bit_eq_take_bit_shift take_bit_eq_mod)
  have "(0 :: int) < 2 ^ (k - 1)" by simp
  from half_range [OF r this small] show ?thesis unfolding p lt s half .
qed

lemma value_in_range:
  assumes "kcfg_sz ext \<in> {1, 2, 4, 8}"
  shows "is_kcfg_value_in_range ext v \<longleftrightarrow> num_fits ext v"
proof (cases "kcfg_sz ext = 8")
  case True
  have "sint v < 2 ^ 63" "- (2 ^ 63) \<le> sint v" using sint_lt [of v] sint_ge [of v] by simp_all
  then show ?thesis using True uint_bounded [of v] by (simp add: is_kcfg_value_in_range_def num_fits_def)
next
  case False
  then have k: "0 < nat (kcfg_sz ext * 8)" "nat (kcfg_sz ext * 8) < 64" "nat (kcfg_sz ext * 8) = 8 * nat (kcfg_sz ext)"
    using assms by auto
  have "drop_bit (8 * nat (kcfg_sz ext)) v = 0 \<longleftrightarrow> uint v < 2 ^ (8 * nat (kcfg_sz ext))"
  proof -
    have "uint (drop_bit n v) = uint v div 2 ^ n" for n 
      using uint_bounded [of v] by (simp only: unsigned_drop_bit_eq) (simp add: drop_bit_eq_div take_bit_eq_mod)
    then show ?thesis by (simp only: word_uint_eq_iff unsigned_0 div_power_0 [OF uint_ge_0])
  qed
  then show ?thesis
    using signed_range [OF k(1,2), of v] False by (simp add: is_kcfg_value_in_range_def num_fits_def Let_def k(3))
qed

subsection \<open>Numbers are stored\<close>

lemma length_le_bytes [simp]: "length (le_bytes n v) = n"
  by (induction n arbitrary: v) simp_all

lemma uint_low_byte: "uint (ucast v :: u8) = uint v mod 256" for v :: u64
  by (simp add: unsigned_ucast_eq take_bit_eq_mod)

lemma uint_drop_byte: "uint (drop_bit 8 v) = uint v div 256" for v :: u64
proof -
  have "uint (drop_bit 8 v) = uint v div 2 ^ 8"
    using uint_bounded [of v] by (simp only: unsigned_drop_bit_eq) (simp add: drop_bit_eq_div take_bit_eq_mod)
  then show ?thesis by simp
qed

lemma horner_le_bytes: "horner_sum uint 256 (le_bytes n v) = uint v mod 2 ^ (8 * n)"
proof (induction n arbitrary: v)
  case (Suc n)
  have "uint v mod (256 * 2 ^ (8 * n)) = 256 * (uint v div 256 mod 2 ^ (8 * n)) + uint v mod 256"
    by (rule zmod_zmult2_eq) simp
  moreover have "(2 :: int) ^ (8 * Suc n) = 256 * 2 ^ (8 * n)" by (simp add: power_add)
  ultimately show ?case using Suc.IH [of "drop_bit 8 v"] by (simp add: uint_low_byte uint_drop_byte)
qed simp

lemma store_bytes_ok:
  "0 \<le> at \<Longrightarrow> nat at + length bs \<le> length mem \<Longrightarrow>
     store_bytes mem at bs = Inr (take (nat at) mem @ bs @ drop (nat at + length bs) mem)"
  by (simp add: store_bytes_def)

lemma store_bytes_frame:
  assumes "store_bytes mem at bs = Inr mem'"
  shows "length mem' = length mem" "k < length mem \<Longrightarrow> int k < at \<or> at + int (length bs) \<le> int k \<Longrightarrow> mem' ! k = mem ! k"
    "take (length bs) (drop (nat at) mem') = bs" "0 \<le> at" "nat at + length bs \<le> length mem"
proof -
  have m: "mem' = take (nat at) mem @ bs @ drop (nat at + length bs) mem" and r: "0 \<le> at" "nat at + length bs \<le> length mem"
    using assms by (auto simp: store_bytes_def split: if_splits)
  show "length mem' = length mem" "take (length bs) (drop (nat at) mem') = bs" "0 \<le> at" "nat at + length bs \<le> length mem"
    using m r by simp_all
  assume k: "k < length mem" "int k < at \<or> at + int (length bs) \<le> int k"
  then consider "k < nat at" | "nat at + length bs \<le> k" using r by linarith
  then show "mem' ! k = mem ! k"
  proof cases
    case 1
    then show ?thesis using m r by (simp add: nth_append)
  next
    case 2
    then obtain j where "k = nat at + length bs + j" using le_Suc_ex by blast
    then show ?thesis using m r k(1) by (simp add: nth_append)
  qed
qed

lemma num_of_stored:
  assumes "kcfg_sz ext \<in> {1, 2, 4, 8}" "num_fits ext v" "kcfg_bytes ext mem = le_bytes (nat (kcfg_sz ext)) v"
  shows "kcfg_num ext mem = (if kcfg_is_signed ext then sint v else uint v)"
proof -
  define w where "w = 8 * nat (kcfg_sz ext)"
  have w: "0 < w" "w - 1 \<le> 63" using assms(1) by (auto simp: w_def)
  have h: "horner_sum uint 256 (kcfg_bytes ext mem) = take_bit w (uint v)"
    using horner_le_bytes assms(3) by (simp add: w_def take_bit_eq_mod)
  show ?thesis
  proof (cases "kcfg_is_signed ext")
    case False
    have "take_bit w (uint v) = uint v"
      by (rule take_bit_int_eq_self) (use assms(2) False in \<open>simp_all add: num_fits_def w_def\<close>)
    then show ?thesis using False h by (simp add: kcfg_num_def)
  next
    case True
    have "signed_take_bit (w - 1) (take_bit w (uint v)) = signed_take_bit (w - 1) (uint v)"
      using w(1) signed_take_bit_take_bit [of "w - 1" w "uint v"] by (simp split: if_splits)
    also have "\<dots> = signed_take_bit (w - 1) (sint v)"
      using w by (simp add: sint_uint signed_take_bit_signed_take_bit min_def)
    also have "\<dots> = sint v"
      by (rule signed_take_bit_int_eq_self) (use assms(2) True in \<open>simp_all add: num_fits_def w_def Let_def\<close>)
    finally show ?thesis using True h by (simp add: kcfg_num_def w_def)
  qed
qed

text \<open>
  C27. A number is stored exactly when it fits the extern: within the unsigned range of its width, or, read as a
  signed number, within the signed one; otherwise the result is \<open>-ERANGE\<close>. Reading the extern, with its sign,
  gives the number back, and no other byte of the map changes.
\<close>

theorem set_kcfg_value_num_correct:
  assumes "kcfg_type ext = KCFG_INT \<or> kcfg_type ext = KCFG_CHAR" "kcfg_sz ext \<in> {1, 2, 4, 8}"
    "0 \<le> kcfg_data_off ext" "nat (kcfg_data_off ext + kcfg_sz ext) \<le> length mem"
  shows "if num_fits ext v
    then \<exists>mem'. set_kcfg_value_num ext v mem = Inr (ext\<lparr>ext_is_set := True\<rparr>, mem') \<and>
      kcfg_num ext mem' = (if kcfg_is_signed ext then sint v else uint v) \<and> length mem' = length mem \<and>
      (\<forall>k < length mem. int k < kcfg_data_off ext \<or> kcfg_data_off ext + kcfg_sz ext \<le> int k \<longrightarrow> mem' ! k = mem ! k)
    else set_kcfg_value_num ext v mem = Inl ERANGE"
proof (cases "num_fits ext v")
  case False
  then show ?thesis using assms(1) value_in_range [OF assms(2)] by (auto simp: set_kcfg_value_num_def)
next
  case True
  let ?n = "nat (kcfg_sz ext)"
  have n: "nat (kcfg_data_off ext) + length (le_bytes ?n v) \<le> length mem" "int ?n = kcfg_sz ext"
    using assms(2-4) by auto
  obtain mem' where st: "store_bytes mem (kcfg_data_off ext) (le_bytes ?n v) = Inr mem'"
    using store_bytes_ok [OF assms(3) n(1)] by blast
  note fr = store_bytes_frame [OF st, simplified]
  have "set_kcfg_value_num ext v mem = Inr (ext\<lparr>ext_is_set := True\<rparr>, mem')"
    using True assms(1,2) value_in_range [OF assms(2)] st by (auto simp: set_kcfg_value_num_def mark_set_def)
  moreover have "kcfg_num ext mem' = (if kcfg_is_signed ext then sint v else uint v)"
    by (rule num_of_stored [OF assms(2) True]) (use fr(3) in \<open>simp add: kcfg_bytes_def\<close>)
  ultimately show ?thesis using True fr(1,2) n(2) by auto
qed

definition ex_ext :: extern_desc where
  "ex_ext = extern_new\<lparr>ext_type := EXT_KCFG, ext_name := ''CONFIG_X'', kcfg_type := KCFG_INT, kcfg_sz := 2, kcfg_align := 2,
     kcfg_data_off := 2, kcfg_is_signed := True\<rparr>"

theorem set_kcfg_value_num_correct_witness:
  "(\<exists>mem'. set_kcfg_value_num ex_ext (- 5) (replicate 6 0) = Inr (ex_ext\<lparr>ext_is_set := True\<rparr>, mem') \<and> kcfg_num ex_ext mem' = - 5) \<and>
   set_kcfg_value_num ex_ext 40000 (replicate 6 0) = Inl ERANGE"
proof -
  have e: "kcfg_type ex_ext = KCFG_INT \<or> kcfg_type ex_ext = KCFG_CHAR" "kcfg_sz ex_ext \<in> {1, 2, 4, 8}" "0 \<le> kcfg_data_off ex_ext"
      "nat (kcfg_data_off ex_ext + kcfg_sz ex_ext) \<le> length (replicate 6 (0 :: u8))"
    by (simp_all add: ex_ext_def)
  show ?thesis
    using set_kcfg_value_num_correct [OF e, of "- 5"] set_kcfg_value_num_correct [OF e, of 40000]
    by (auto simp: num_fits_def ex_ext_def)
qed

subsection \<open>Lines\<close>

text \<open>The size of an extern agrees with its type.\<close>

definition kcfg_ok :: "extern_desc \<Rightarrow> bool" where
  "kcfg_ok ext \<longleftrightarrow>
     (case kcfg_type ext of
        KCFG_BOOL \<Rightarrow> kcfg_sz ext = 1 | KCFG_CHAR \<Rightarrow> kcfg_sz ext = 1 | KCFG_TRISTATE \<Rightarrow> kcfg_sz ext = 4
      | KCFG_INT \<Rightarrow> kcfg_sz ext \<in> {1, 2, 4, 8} | KCFG_CHAR_ARR \<Rightarrow> 0 < kcfg_sz ext \<and> kcfg_sz ext < 2 ^ 31 | KCFG_UNKNOWN \<Rightarrow> False)"

text \<open>What a store changes: the bytes of the extern and nothing else.\<close>

definition changes_only :: "extern_desc \<Rightarrow> u8 list \<Rightarrow> u8 list \<Rightarrow> bool" where
  "changes_only ext mem mem' \<longleftrightarrow> length mem' = length mem \<and>
     (\<forall>k < length mem. int k < kcfg_data_off ext \<or> kcfg_data_off ext + kcfg_sz ext \<le> int k \<longrightarrow> mem' ! k = mem ! k)"

lemma mark_set_changes:
  assumes "mark_set ext (store_bytes mem (kcfg_data_off ext) bs) = Inr (ext', mem')" "int (length bs) \<le> kcfg_sz ext"
  shows "ext' = ext\<lparr>ext_is_set := True\<rparr> \<and> changes_only ext mem mem'"
proof -
  have st: "store_bytes mem (kcfg_data_off ext) bs = Inr mem'" "ext' = ext\<lparr>ext_is_set := True\<rparr>"
    using assms(1) by (auto simp: mark_set_def result_simps)
  note fr = store_bytes_frame(1,2) [OF st(1)]
  then show ?thesis using st(2) assms(2) by (auto simp: changes_only_def)
qed

definition stores :: "extern_desc \<Rightarrow> u8 list \<Rightarrow> kcfg_state \<Rightarrow> bool" where
  "stores ext mem r \<longleftrightarrow> (\<exists>bs. mark_set ext (store_bytes mem (kcfg_data_off ext) bs) = Inr r \<and> int (length bs) \<le> kcfg_sz ext)"

lemma storesI: "mark_set ext (store_bytes mem (kcfg_data_off ext) bs) = Inr r \<Longrightarrow> int (length bs) \<le> kcfg_sz ext \<Longrightarrow> stores ext mem r"
  by (auto simp: stores_def)

lemma set_kcfg_value_changes:
  assumes run: "set_kcfg_value ext value mem = Inr (ext', mem')" and ok: "kcfg_ok ext"
  shows "ext' = ext\<lparr>ext_is_set := True\<rparr> \<and> changes_only ext mem mem'"
proof -
  have "stores ext mem (ext', mem')"
  proof (cases "hd value \<in> {CHR ''y'', CHR ''n'', CHR ''m''}")
    case True
    then have "set_kcfg_value_tri ext (hd value) mem = Inr (ext', mem')" using run by (simp add: set_kcfg_value_def)
    then show ?thesis using ok
      by (cases "kcfg_type ext") (auto simp: set_kcfg_value_tri_def kcfg_ok_def intro: storesI split: if_splits)
  next
    case False
    show ?thesis
    proof (cases "hd value = CHR 0x22")
      case True
      define inner where "inner = (int (length (cstr value)) - 2) mod 2 ^ 64"
      define n where "n = nat (if inner \<ge> kcfg_sz ext mod 2 ^ 64 then kcfg_sz ext - 1 else inner)"
      have "set_kcfg_value_str ext value mem = Inr (ext', mem')" using run False True by (simp add: set_kcfg_value_def)
      then have m: "kcfg_type ext = KCFG_CHAR_ARR" "1 + n \<le> length value"
          "mark_set ext (store_bytes mem (kcfg_data_off ext) (map char_byte (take n (drop 1 value)) @ [0])) = Inr (ext', mem')"
        by (auto simp: set_kcfg_value_str_def Let_def result_simps inner_def n_def split: if_splits)
      have sz: "0 < kcfg_sz ext" "kcfg_sz ext mod 2 ^ 64 = kcfg_sz ext" using ok m(1) by (auto simp: kcfg_ok_def)
      have "int n < kcfg_sz ext" unfolding n_def sz(2) using sz(1) by auto
      then have "int (length (map char_byte (take n (drop 1 value)) @ [0])) \<le> kcfg_sz ext" using m(2) by simp
      then show ?thesis using m(3) by (rule storesI [rotated])
    next
      case False
      then obtain num where "set_kcfg_value_num ext num mem = Inr (ext', mem')"
        using run \<open>hd value \<notin> _\<close> by (auto simp: set_kcfg_value_def result_simps)
      then show ?thesis by (auto simp: set_kcfg_value_num_def intro: storesI split: if_splits)
    qed
  qed
  then show ?thesis unfolding stores_def using mark_set_changes by blast
qed

text \<open>A line sets one extern that was not set, or changes nothing.\<close>

lemma process_line_cases:
  assumes run: "process_kconfig_line (exts, kdata) buf = (Inr (exts', kdata'), buf')"
    and ok: "\<forall>e \<in> set exts. ext_type e = EXT_KCFG \<longrightarrow> kcfg_ok e"
  shows "(exts' = exts \<and> kdata' = kdata) \<or>
    (\<exists>i mem mem'. i < length exts \<and> ext_type (exts ! i) = EXT_KCFG \<and> \<not> ext_is_set (exts ! i) \<and> kdata = Some mem \<and> kdata' = Some mem' \<and>
       exts' = exts[i := (exts ! i)\<lparr>ext_is_set := True\<rparr>] \<and> changes_only (exts ! i) mem mem')"
proof (cases "exts' = exts \<and> kdata' = kdata")
  case False
  define b1 where "b1 = (if cstr buf ! (length (cstr buf) - 1) = CHR 0x0A then buf[length (cstr buf) - 1 := NUL] else buf)"
  have cfg: "take 7 (cstr buf) = ''CONFIG_''"
  proof (rule ccontr)
    assume "take 7 (cstr buf) \<noteq> ''CONFIG_''"
    then show False using run False by (simp add: process_kconfig_line_def Let_def)
  qed
  have "find_index (\<lambda>c. c = CHR ''='') (cstr buf) \<noteq> None"
  proof
    assume "find_index (\<lambda>c. c = CHR ''='') (cstr buf) = None"
    then show False using run cfg by (simp add: process_kconfig_line_def Let_def)
  qed
  then obtain sep where sep: "find_index (\<lambda>c. c = CHR ''='') (cstr buf) = Some sep" by blast
  define b2 where "b2 = b1[sep := NUL]"
  have r: "(if b2 ! (sep + 1) = NUL then (Inl EINVAL, b1)
      else case find_extern_by_name exts (cstr b2) of
        None \<Rightarrow> (Inr (exts, kdata), b2)
      | Some i \<Rightarrow>
          if ext_is_set (exts ! i) then (Inr (exts, kdata), b2)
          else (case kdata of
                  None \<Rightarrow> Inl OOB
                | Some mem \<Rightarrow>
                    if ext_type (exts ! i) \<noteq> EXT_KCFG then Inl OOB
                    else rbind (set_kcfg_value (exts ! i) (drop (sep + 1) b2) mem) (\<lambda>(ext, mem').
                         Inr (exts[i := ext], Some mem')), b2)) = (Inr (exts', kdata'), buf')"
    using run unfolding process_kconfig_line_def prod.case Let_def cfg sep option.case simp_thms if_False
    unfolding b2_def b1_def by assumption
  then obtain i where i: "find_extern_by_name exts (cstr b2) = Some i" "\<not> ext_is_set (exts ! i)"
    using False by (cases "find_extern_by_name exts (cstr b2)") (auto split: if_splits)
  then obtain mem e mem' where m: "kdata = Some mem" "ext_type (exts ! i) = EXT_KCFG" "exts' = exts[i := e]" "kdata' = Some mem'"
      "set_kcfg_value (exts ! i) (drop (sep + 1) b2) mem = Inr (e, mem')"
    using r by (cases kdata) (auto simp: result_simps split: if_splits)
  have "i < length exts" using i(1) find_index_Some unfolding find_extern_by_name_def by blast
  then show ?thesis using i(2) m set_kcfg_value_changes [OF m(5)] ok by auto
qed simp

subsection \<open>Places\<close>

definition kcfg_end :: "extern_desc list \<Rightarrow> int" where
  "kcfg_end exts = (case last_kcfg exts of None \<Rightarrow> 0 | Some x \<Rightarrow> kcfg_data_off x + kcfg_sz x)"

definition kcfg_before :: "extern_desc \<Rightarrow> extern_desc \<Rightarrow> bool" where
  "kcfg_before x y \<longleftrightarrow> (ext_type x = EXT_KCFG \<and> ext_type y = EXT_KCFG \<longrightarrow> kcfg_data_off x + kcfg_sz x \<le> kcfg_data_off y)"

text \<open>The Kconfig externs are aligned, follow each other without overlap, and end with the last one.\<close>

definition places_ok :: "extern_desc list \<Rightarrow> bool" where
  "places_ok exts \<longleftrightarrow> sorted_wrt kcfg_before exts \<and>
     (\<forall>x \<in> set exts. ext_type x = EXT_KCFG \<longrightarrow> 0 < kcfg_sz x \<and> 0 \<le> kcfg_data_off x \<and> kcfg_align x dvd kcfg_data_off x \<and>
        kcfg_data_off x + kcfg_sz x \<le> kcfg_end exts)"

lemma last_kcfg_eq:
  "last_kcfg exts = (let ks = filter (\<lambda>x. ext_type x = EXT_KCFG) exts in if ks = [] then None else Some (last ks))"
  by (simp add: last_kcfg_def Let_def split: list.split)

lemma kcfg_end_last:
  "ext_type x = EXT_KCFG \<Longrightarrow> \<forall>y \<in> set ys. ext_type y \<noteq> EXT_KCFG \<Longrightarrow> kcfg_end (xs @ x # ys) = kcfg_data_off x + kcfg_sz x"
  by (simp add: kcfg_end_def last_kcfg_eq filter_empty_conv)

lemma round_up:
  fixes a :: int
  assumes "0 < a"
  shows "ofs \<le> (ofs + (a - 1)) div a * a" "(ofs + (a - 1)) div a * a < ofs + a"
proof -
  have "ofs + (a - 1) = (ofs + (a - 1)) div a * a + (ofs + (a - 1)) mod a" by simp
  moreover have "0 \<le> (ofs + (a - 1)) mod a" "(ofs + (a - 1)) mod a < a" using assms by simp_all
  ultimately show "ofs \<le> (ofs + (a - 1)) div a * a" "(ofs + (a - 1)) div a * a < ofs + a" by linarith+
qed

text \<open>The layout starts at \<open>ofs\<close> and ends at \<open>n\<close>.\<close>

definition laid :: "int \<Rightarrow> int \<Rightarrow> extern_desc list \<Rightarrow> bool" where
  "laid ofs n exts \<longleftrightarrow> ofs \<le> n \<and> sorted_wrt kcfg_before exts \<and>
     (\<forall>x \<in> set exts. ext_type x = EXT_KCFG \<longrightarrow> ofs \<le> kcfg_data_off x \<and> kcfg_align x dvd kcfg_data_off x \<and>
        kcfg_data_off x + kcfg_sz x \<le> n) \<and>
     ((\<exists>x \<in> set exts. ext_type x = EXT_KCFG) \<longrightarrow> kcfg_end exts = n)"

lemma kcfg_end_Cons: "(\<exists>y \<in> set xs. ext_type y = EXT_KCFG) \<Longrightarrow> kcfg_end (x # xs) = kcfg_end xs"
  by (cases "ext_type x = EXT_KCFG") (auto simp: kcfg_end_def last_kcfg_def filter_empty_conv split: list.split)

text \<open>The room the externs need at most, with the gaps for the alignment.\<close>

definition kcfg_span :: "extern_desc list \<Rightarrow> int" where
  "kcfg_span exts = sum_list (map (\<lambda>x. kcfg_align x + kcfg_sz x) (filter (\<lambda>x. ext_type x = EXT_KCFG) exts))"

lemma kcfg_span_Cons [simp]:
  "kcfg_span [] = 0" "kcfg_span (x # xs) = (if ext_type x = EXT_KCFG then kcfg_align x + kcfg_sz x else 0) + kcfg_span xs"
  by (simp_all add: kcfg_span_def)

lemma kcfg_span_ge_0:
  "\<forall>x \<in> set exts. ext_type x = EXT_KCFG \<longrightarrow> 0 < kcfg_align x \<and> 0 < kcfg_sz x \<Longrightarrow> 0 \<le> kcfg_span exts"
  by (induction exts) (auto simp: add_nonneg_nonneg)

lemma roundup_int_small:
  assumes "0 \<le> ofs" "0 < a" "ofs + a < 2 ^ 31"
  shows "ofs \<le> roundup_int ofs a" "a dvd roundup_int ofs a" "roundup_int ofs a < ofs + a"
proof -
  have r: "ofs \<le> (ofs + (a - 1)) div a * a" "(ofs + (a - 1)) div a * a < ofs + a" using round_up [OF assms(2)] by simp_all
  have "int32 (ofs + (a - 1)) = ofs + (a - 1)" using assms by (intro int32_small) simp_all
  moreover have "(ofs + (a - 1)) sdiv a = (ofs + (a - 1)) div a" using assms by (cases "ofs + (a - 1) = 0") (simp_all add: signed_divide_int_def)
  moreover have "int32 ((ofs + (a - 1)) div a * a) = (ofs + (a - 1)) div a * a" using r assms by (intro int32_small) linarith+
  ultimately have "roundup_int ofs a = (ofs + (a - 1)) div a * a" by (simp add: roundup_int_def)
  then show "ofs \<le> roundup_int ofs a" "a dvd roundup_int ofs a" "roundup_int ofs a < ofs + a" using r by simp_all
qed

lemma kcfg_layout_keeps:
  "kcfg_layout ofs exts = (n, exts') \<Longrightarrow> map (kcfg_data_off_update (\<lambda>_. 0)) exts' = map (kcfg_data_off_update (\<lambda>_. 0)) exts"
  by (induction exts arbitrary: ofs n exts') (auto simp: Let_def split: if_splits prod.splits)

lemma kcfg_layout_laid:
  assumes "kcfg_layout ofs exts = (n, exts')" "\<forall>x \<in> set exts. ext_type x = EXT_KCFG \<longrightarrow> 0 < kcfg_align x \<and> 0 < kcfg_sz x"
    "0 \<le> ofs" "ofs + kcfg_span exts < 2 ^ 31"
  shows "laid ofs n exts' \<and> n < 2 ^ 31"
  using assms
proof (induction exts arbitrary: ofs n exts')
  case Nil
  then show ?case by (simp add: laid_def)
next
  case (Cons x xs)
  show ?case
  proof (cases "ext_type x = EXT_KCFG")
    case False
    then obtain r where r: "kcfg_layout ofs xs = (n, r)" "exts' = x # r" using Cons.prems(1) by (auto split: prod.splits)
    note IH = Cons.IH [OF r(1)]
    have "laid ofs n (x # r)"
      using IH Cons.prems(2-4) False kcfg_end_Cons [of r x] by (auto simp: laid_def kcfg_before_def)
    then show ?thesis using IH Cons.prems(2-4) False r(2) by simp
  next
    case True
    define at where "at = roundup_int ofs (kcfg_align x)"
    have pos: "0 < kcfg_align x" "0 < kcfg_sz x" using Cons.prems(2) True by simp_all
    have span: "0 \<le> kcfg_span xs" using Cons.prems(2) by (intro kcfg_span_ge_0) simp
    have room: "ofs + kcfg_align x + kcfg_sz x + kcfg_span xs < 2 ^ 31" using Cons.prems(4) True by simp
    have at: "ofs \<le> at" "kcfg_align x dvd at" "at < ofs + kcfg_align x"
      using roundup_int_small [of ofs "kcfg_align x"] Cons.prems(3) pos room span unfolding at_def by linarith+
    have e: "int32 (at + kcfg_sz x) = at + kcfg_sz x" using at(1,3) Cons.prems(3) pos room span by (intro int32_small) linarith+
    obtain r where r: "kcfg_layout (at + kcfg_sz x) xs = (n, r)" "exts' = x\<lparr>kcfg_data_off := at\<rparr> # r"
      using Cons.prems(1) True e by (auto simp: at_def Let_def split: prod.splits)
    have IH: "laid (at + kcfg_sz x) n r \<and> n < 2 ^ 31"
      by (rule Cons.IH [OF r(1)]) (use Cons.prems(2,3) at pos room in auto)
    then have l: "laid (at + kcfg_sz x) n r" by simp
    have "laid ofs n (x\<lparr>kcfg_data_off := at\<rparr> # r)"
    proof (cases "\<exists>y \<in> set r. ext_type y = EXT_KCFG")
      case True
      then show ?thesis using l at pos kcfg_end_Cons [OF True, of "x\<lparr>kcfg_data_off := at\<rparr>"]
        by (auto simp: laid_def kcfg_before_def)
    next
      case False
      have "n = at + kcfg_sz x"
      proof -
        have "ext_type y \<noteq> EXT_KCFG" if "y \<in> set xs" for y
        proof -
          have "map ext_type r = map ext_type xs"
            using arg_cong [OF kcfg_layout_keeps [OF r(1)], of "map ext_type"] by (simp add: comp_def)
          then show ?thesis using False that by (metis (mono_tags, lifting) imageE image_eqI image_set)
        qed
        then have "kcfg_layout k xs = (k, xs)" for k by (induction xs) auto
        then show ?thesis using r(1) by simp
      qed
      then show ?thesis using l at pos True False kcfg_end_last [of "x\<lparr>kcfg_data_off := at\<rparr>" r "[]"]
        by (auto simp: laid_def kcfg_before_def)
    qed
    then show ?thesis using IH r(2) by simp
  qed
qed

text \<open>Without the bound the places wrap around: the third of three externs of \<open>2\<^sup>3\<^sup>1 - 1\<close> bytes is in front of the map.\<close>

lemma kcfg_layout_wraps:
  assumes "ext_type x = EXT_KCFG" "kcfg_sz x = 0x7fffffff" "kcfg_align x = 1"
  shows "map kcfg_data_off (snd (kcfg_layout 0 [x, x, x])) = [0, 0x7fffffff, - 2]"
  using assms by (simp add: roundup_int_def Let_def) code_simp

end
