(* ===== verification/Kconfig_Places.thy ===== *)
theory Kconfig_Places
  imports Kconfig_Facts Extract_Facts
begin

text \<open>
  From the collection of the externs to their places: what is collected has a size that agrees with its type,
  and the layout gives every Kconfig extern a place of its own. With that, reading a configuration changes
  only the externs it sets.
\<close>

subsection \<open>Collected externs\<close>

lemma power_of_two_upto_8:
  fixes x :: u32
  assumes "\<not> x < 1" "\<not> 8 < x" "x AND (x - 1) = 0"
  shows "x \<in> {1, 2, 4, 8}"
proof -
  have "unat x \<le> 8" "0 < unat x" using assms(1,2) by (simp_all add: word_less_nat_alt word_le_nat_alt not_less)
  then have "unat x \<in> {1, 2, 3, 4, 5, 6, 7, 8}" by auto
  then have "x \<in> {1, 2, 3, 4, 5, 6, 7, 8}" by (auto simp: word_unat_eq_iff)
  then show ?thesis using assms(3) by auto
qed

lemma skip_mods_size:
  assumes "has_size b tid d n" "skip_mods_loop f b tid = Inr (t, i)" "btf_kind t \<in> {BTF_KIND_INT, BTF_KIND_ENUM}"
  shows "n = unat (type_size t)"
  using assms
proof (induction tid d n arbitrary: f rule: has_size.induct)
  case (leaf tid ty)
  then show ?case by (subst (asm) skip_mods_loop.simps) (auto simp: result_simps btf_is_mod_def btf_is_typedef_def)
next
  case (ptr tid ty n b')
  then show ?case by (subst (asm) skip_mods_loop.simps) (auto simp: result_simps btf_is_mod_def btf_is_typedef_def)
next
  case (ref tid ty d n)
  then show ?case
    by (subst (asm) (2) skip_mods_loop.simps) (auto simp: result_simps btf_is_mod_def btf_is_typedef_def split: nat.splits if_splits)
next
  case (arr tid ty d n)
  then show ?case by (subst (asm) (2) skip_mods_loop.simps) (auto simp: result_simps btf_is_mod_def btf_is_typedef_def)
qed

lemma find_kcfg_type_size:
  assumes "find_kcfg_type f b tid = Inr (k, sg)" "has_size b tid d n" "0 < n" "n < 2 ^ 31" "k \<noteq> KCFG_UNKNOWN"
    "kcfg_type ext = k" "kcfg_sz ext = int n"
  shows "kcfg_ok ext"
proof -
  obtain t i where t: "skip_mods_and_typedefs b tid = Inr (t, i)"
    using assms(1) by (subst (asm) find_kcfg_type.simps) (auto simp: result_simps)
  note run = assms(1) [unfolded find_kcfg_type.simps [of f] t, simplified]
  have n: "btf_kind t \<in> {BTF_KIND_INT, BTF_KIND_ENUM} \<Longrightarrow> n = unat (type_size t)"
    using skip_mods_size [OF assms(2)] t unfolding skip_mods_and_typedefs_def by blast
  show ?thesis
  proof (cases "btf_kind t")
    case BTF_KIND_INT
    then show ?thesis using run n assms(3-) power_of_two_upto_8 [of "type_size t"]
      by (auto simp: result_simps Let_def kcfg_ok_def split: if_splits)
  next
    case BTF_KIND_ENUM
    then show ?thesis using run n assms(3-) by (auto simp: result_simps Let_def kcfg_ok_def split: if_splits)
  next
    case BTF_KIND_ARRAY
    then show ?thesis using run assms(3-) by (auto simp: result_simps Let_def kcfg_ok_def split: if_splits nat.splits)
  qed (use run assms(5) in \<open>auto simp: result_simps\<close>)
qed

lemma resolved_has_size:
  assumes "fst (btf__resolve_size b tid) = Inr n" "0 < n"
  shows "\<exists>d. has_size b tid d n" "n \<le> UINT32_MAX"
proof -
  obtain t es ne b' where t: "btf__type_by_id b tid = Inr t"
    and run: "resolve_size_loop MAX_RESOLVE_DEPTH b 1 t = (Inr (es, ne), b')" "0 \<le> es"
    and g: "\<not> (ne \<noteq> 0 \<and> nat es > UINT32_MAX div unat ne)" and n: "n = unat ne * nat es"
    using assms(1) by (auto simp: btf__resolve_size_def split: sum.splits prod.splits if_splits)
  from resolve_size_loop_sound [OF run(1) t run(2)] n show "\<exists>d. has_size b tid d n" by auto
  have "ne \<noteq> 0" using n assms(2) by auto
  then show "n \<le> UINT32_MAX" using g n div_guard [of ne "nat es"] by (simp add: not_less mult.commute)
qed

lemma s32_pos: "0 < s32 n \<Longrightarrow> n \<le> UINT32_MAX \<Longrightarrow> n < 2 ^ 31 \<and> s32 n = int n"
  by (cases "n < 2 ^ 31") (auto simp: s32_small s32_def UINT32_MAX_def signed_take_bit_eq_take_bit_shift take_bit_eq_mod mod_once)

definition kcfg_fit :: "extern_desc \<Rightarrow> bool" where
  "kcfg_fit x \<longleftrightarrow> (ext_type x = EXT_KCFG \<longrightarrow> 0 < kcfg_align x \<and> 0 < kcfg_sz x \<and> kcfg_ok x)"


lemma kcfg_fit_upd [simp]: "kcfg_fit (x\<lparr>kcfg_data_off := n\<rparr>) \<longleftrightarrow> kcfg_fit x"
  by (simp add: kcfg_fit_def kcfg_ok_def split: kcfg_type.split)

lemma kcfg_extern_fit:
  assumes "kcfg_extern b sec_id t ext = Inr r"
  shows "case r of Done x \<Rightarrow> ext_type x = EXT_KCFG \<and> kcfg_sz x = kcfg_sz ext | Collected x k s \<Rightarrow> kcfg_fit x \<and> k = Some sec_id"
proof -
  obtain n where n: "fst (btf__resolve_size b (unat (ref_type t))) = Inr n"
    using assms by (auto simp: kcfg_extern_def result_simps)
  note run = assms [unfolded kcfg_extern_def n, simplified]
  show ?thesis
  proof (cases "0 < s32 n")
    case False
    then show ?thesis using run by (auto split: if_splits)
  next
    case True
    then obtain align k sg where r: "0 < s32 align" "find_kcfg_type (btf__get_nr_types b) b (unat (ref_type t)) = Inr (k, sg)"
        "k \<noteq> KCFG_UNKNOWN"
        "r = Collected (ext\<lparr>ext_type := EXT_KCFG, kcfg_sz := s32 n, kcfg_align := s32 align, kcfg_type := k, kcfg_is_signed := sg\<rparr>)
               (Some sec_id) None"
      using run by (auto simp: result_simps not_le split: option.splits sum.splits if_splits)
    have "0 < n" using True by (cases n) (simp_all add: s32_def)
    note rs = resolved_has_size [OF n this]
    obtain d where "has_size b (unat (ref_type t)) d n" using rs(1) by blast
    then show ?thesis using r s32_pos [OF True rs(2)] True \<open>0 < n\<close> find_kcfg_type_size [OF r(2)]
      by (simp add: kcfg_fit_def)
  qed
qed

lemma collect_extern_fit:
  assumes "collect_extern bopt i sy nm = Inr r"
  shows "case r of Done x \<Rightarrow> ext_type x = EXT_KCFG \<and> kcfg_sz x = 0
    | Collected x k s \<Rightarrow> kcfg_fit x \<and> (ext_type x = EXT_KCFG \<longrightarrow> k \<noteq> None)"
  using assms unfolding collect_extern_def
  by (auto simp: result_simps Let_def extern_new_def kcfg_fit_def dest!: kcfg_extern_fit split: if_splits extern_step.splits)

definition collected :: "extern_state \<Rightarrow> bool" where
  "collected st \<longleftrightarrow> list_all kcfg_fit (fst st) \<and> (fst (snd st) = None \<longrightarrow> list_all (\<lambda>x. ext_type x \<noteq> EXT_KCFG) (fst st))"

lemma collect_externs_loop_fit:
  assumes "collect_externs_loop alloc obj e symbols is st = Inr (finished, st')" "collected st"
  shows "if finished then collected st' else \<exists>x \<in> set (fst st'). ext_type x = EXT_KCFG \<and> kcfg_sz x = 0"
  using assms
proof (induction "is" arbitrary: st)
  case Nil
  then show ?case by simp
next
  case (Cons i "is")
  obtain sy where sy: "elf_getsym e symbols i = Some sy" using Cons.prems(1) by (auto split: option.splits)
  show ?case
  proof (cases "sym_is_extern sy \<and> elf_sym_str obj (st_name sy) \<noteq> None \<and> elf_sym_str obj (st_name sy) \<noteq> Some []")
    case False
    then have "collect_externs_loop alloc obj e symbols is st = Inr (finished, st')"
      using Cons.prems(1) sy by (auto split: option.splits if_splits)
    then show ?thesis using Cons.IH Cons.prems(2) by blast
  next
    case True
    then obtain ext_nm r where c: "collect_extern (obj_btf obj) i sy ext_nm = Inr r"
        "(case r of Done ext \<Rightarrow> Inr (False, fst st @ [ext], snd st)
          | Collected ext kcfg ksym \<Rightarrow> collect_externs_loop alloc obj e symbols is
              (fst st @ [ext], if kcfg = None then fst (snd st) else kcfg, if ksym = None then snd (snd st) else ksym)) =
         Inr (finished, st')"
      using Cons.prems(1) sy by (auto simp: result_simps)
    note fit = collect_extern_fit [OF c(1)]
    show ?thesis
    proof (cases r)
      case (Done x)
      then show ?thesis using c(2) fit by auto
    next
      case (Collected x k s)
      have "collected (fst st @ [x], if k = None then fst (snd st) else k, if s = None then snd (snd st) else s)"
        using fit Collected Cons.prems(2) by (auto simp: collected_def)
      then show ?thesis by (rule Cons.IH [OF c(2) [unfolded Collected extern_step.case]])
    qed
  qed
qed

lemma kcfg_layout_fit: "kcfg_layout ofs exts = (n, exts') \<Longrightarrow> list_all kcfg_fit exts' \<longleftrightarrow> list_all kcfg_fit exts"
  by (induction exts arbitrary: ofs n exts') (auto simp: Let_def split: if_splits prod.splits)

lemma no_kcfg_places: "list_all (\<lambda>x. ext_type x \<noteq> EXT_KCFG) xs \<Longrightarrow> places_ok xs"
proof -
  assume no: "list_all (\<lambda>x. ext_type x \<noteq> EXT_KCFG) xs"
  then have "sorted_wrt kcfg_before xs" by (induction xs) (auto simp: kcfg_before_def)
  then show ?thesis using no by (auto simp: places_ok_def list_all_iff)
qed

lemma no_kcfg_end: "list_all (\<lambda>x. ext_type x \<noteq> EXT_KCFG) xs \<Longrightarrow> kcfg_end xs < 2 ^ 31"
  by (simp add: kcfg_end_def last_kcfg_eq list_all_iff filter_empty_conv)

lemma kcfg_span_keeps: "map (kcfg_data_off_update (\<lambda>_. 0)) xs = map (kcfg_data_off_update (\<lambda>_. 0)) ys \<Longrightarrow> kcfg_span xs = kcfg_span ys"
proof (induction xs arbitrary: ys)
  case (Cons x xs)
  obtain y zs where ys: "ys = y # zs" "x\<lparr>kcfg_data_off := 0\<rparr> = y\<lparr>kcfg_data_off := 0\<rparr>"
      "map (kcfg_data_off_update (\<lambda>_. 0)) xs = map (kcfg_data_off_update (\<lambda>_. 0)) zs"
    using Cons.prems by (cases ys) auto
  note y = ys(1,2) Cons.IH [OF ys(3)]
  have "ext_type x = ext_type y" "kcfg_align x = kcfg_align y" "kcfg_sz x = kcfg_sz y"
    using arg_cong [OF y(2), of ext_type] arg_cong [OF y(2), of kcfg_align] arg_cong [OF y(2), of kcfg_sz] by simp_all
  then show ?case using y by simp
qed simp

lemma place_all_ok:
  assumes "place_all obj st = Inr obj'" "collected st" "kcfg_span (externs obj') < 2 ^ 31"
  shows "list_all kcfg_fit (externs obj') \<and> places_ok (externs obj') \<and> kcfg_end (externs obj') < 2 ^ 31"
proof -
  obtain exts kcfg ksym where st: "st = (exts, kcfg, ksym)" by (cases st) auto
  have fit: "list_all kcfg_fit (qsort cmp_externs exts)" using assms(2) st by (simp add: collected_def list_all_iff)
  show ?thesis
  proof (cases kcfg)
    case None
    then have "externs obj' = qsort cmp_externs exts"
      using assms(1) by (auto simp: place_all_def st Let_def result_simps split: option.splits)
    moreover have "list_all (\<lambda>x. ext_type x \<noteq> EXT_KCFG) (qsort cmp_externs exts)"
      using assms(2) None by (simp add: collected_def st list_all_iff)
    ultimately show ?thesis using fit no_kcfg_places no_kcfg_end by simp
  next
    case (Some sec_id)
    obtain n exts2 where l: "kcfg_layout 0 (qsort cmp_externs exts) = (n, exts2)" by fastforce
    then have e: "externs obj' = exts2"
      using assms(1) Some by (auto simp: place_all_def st Let_def result_simps split: option.splits)
    have pos: "\<forall>x \<in> set (qsort cmp_externs exts). ext_type x = EXT_KCFG \<longrightarrow> 0 < kcfg_align x \<and> 0 < kcfg_sz x"
      using fit by (simp add: list_all_iff kcfg_fit_def)
    have fit2: "list_all kcfg_fit exts2" using kcfg_layout_fit [OF l] fit by simp
    have "kcfg_span exts2 = kcfg_span (qsort cmp_externs exts)" using kcfg_layout_keeps [OF l] by (rule kcfg_span_keeps)
    then have "laid 0 n exts2 \<and> n < 2 ^ 31" using kcfg_layout_laid [OF l pos] assms(3) e by simp
    then have "places_ok exts2 \<and> kcfg_end exts2 < 2 ^ 31"
      using fit2 no_kcfg_end [of exts2] by (auto simp: laid_def places_ok_def list_all_iff kcfg_fit_def)
    then show ?thesis using e fit2 by simp
  qed
qed

lemma kcfg_end_ge_0: "places_ok exts \<Longrightarrow> 0 \<le> kcfg_end exts"
  unfolding places_ok_def kcfg_end_def last_kcfg_eq Let_def
  by (auto split: option.splits dest!: last_in_set [of "filter _ exts"])

text \<open>The object just opened has no externs.\<close>

lemma collect_externs_places:
  assumes "bpf_object__collect_externs alloc obj = Inr obj'" "externs obj = []"
    "\<forall>x \<in> set (externs obj'). ext_type x = EXT_KCFG \<longrightarrow> kcfg_sz x \<noteq> 0" "kcfg_span (externs obj') < 2 ^ 31"
  shows "list_all kcfg_fit (externs obj') \<and> places_ok (externs obj') \<and> kcfg_end (externs obj') < 2 ^ 31"
proof (cases "externs obj' = []")
  case True
  then show ?thesis by (simp add: no_kcfg_places kcfg_end_def last_kcfg_def)
next
  case False
  then obtain symbols e "is" finished st where
    l: "collect_externs_loop alloc obj e symbols is ([], None, None) = Inr (finished, st)"
      "(if \<not> finished then Inr (obj\<lparr>externs := fst st\<rparr>) else if fst st = [] then Inr obj else place_all obj st) = Inr obj'"
    using assms(1,2) by (auto simp: bpf_object__collect_externs_def result_simps split: option.splits sum.splits)
  have fit: "if finished then collected st else \<exists>x \<in> set (fst st). ext_type x = EXT_KCFG \<and> kcfg_sz x = 0"
    by (rule collect_externs_loop_fit [OF l(1)]) (simp add: collected_def)
  then have "finished" using assms(3) l(2) by (auto split: if_splits)
  then show ?thesis using l(2) fit False assms(2,4) place_all_ok by (auto split: if_splits)
qed

text \<open>The Kconfig map is as big as the end of the last extern.\<close>

lemma kconfig_map_size:
  assumes "bpf_object__init_kconfig_map alloc pg obj = (Inr (), obj')" "x \<in> set (externs obj)" "ext_type x = EXT_KCFG"
    "0 \<le> kcfg_end (externs obj)" "kcfg_end (externs obj) < 2 ^ 31"
  shows "nat (kconfig_map_idx obj') < length (maps obj') \<and>
    uint (value_size (m_def (maps obj' ! nat (kconfig_map_idx obj')))) = kcfg_end (externs obj)"
proof -
  obtain y where y: "last_kcfg (externs obj) = Some y"
    using assms(2,3) by (metis (mono_tags, lifting) filter_empty_conv last_kcfg_eq)
  have "int32 (kcfg_end (externs obj)) mod 2 ^ 64 = kcfg_end (externs obj)" using assms(4,5) by (simp add: int32_small)
  then obtain obj1 where i: "bpf_object__init_internal_map alloc pg LIBBPF_MAP_KCONFIG (symbols_shndx (efile obj)) None
        (nat (kcfg_end (externs obj))) obj = (Inr (), obj1)" "obj' = obj1\<lparr>kconfig_map_idx := int (length (maps obj1)) - 1\<rparr>"
    using assms(1) y by (auto simp: bpf_object__init_kconfig_map_def and_then_def kcfg_end_def split: prod.splits sum.splits)
  have "length (maps obj1) = Suc (length (maps obj)) \<and>
      value_size (m_def (maps obj1 ! length (maps obj))) = of_nat (nat (kcfg_end (externs obj)))"
    using i(1) by (auto simp: bpf_object__init_internal_map_def bpf_object__add_map_def upd_map_def Let_def result_simps
        split: sum.splits prod.splits if_splits)
  moreover have "uint (of_nat (nat (kcfg_end (externs obj))) :: u32) = kcfg_end (externs obj)"
    using assms(4,5) by (simp add: unsigned_of_int take_bit_int_eq_self)
  ultimately show ?thesis using i(2) by auto
qed

text \<open>
  C26. The externs collected from an object have places in the Kconfig map: the size of each agrees with its type,
  its offset is aligned and its bytes lie behind those of the one before and within the map, whose value is as big
  as the end of the last one. Excluded are the case that an extern without a size ended the collection, and externs
  that together, with their alignments, need \<open>2\<^sup>3\<^sup>1\<close> bytes or more, for which the offsets wrap around.
\<close>

theorem collect_externs_layout:
  assumes "bpf_object__collect_externs alloc obj = Inr obj1" "externs obj = []"
    "\<forall>x \<in> set (externs obj1). ext_type x = EXT_KCFG \<longrightarrow> kcfg_sz x \<noteq> 0" "kcfg_span (externs obj1) < 2 ^ 31"
    "externs obj2 = externs obj1" "bpf_object__init_kconfig_map alloc pg obj2 = (Inr (), obj3)"
  shows "sorted_wrt kcfg_before (externs obj3) \<and>
    (\<forall>x \<in> set (externs obj3). ext_type x = EXT_KCFG \<longrightarrow>
       kcfg_ok x \<and> 0 \<le> kcfg_data_off x \<and> kcfg_align x dvd kcfg_data_off x \<and>
       nat (kconfig_map_idx obj3) < length (maps obj3) \<and>
       kcfg_data_off x + kcfg_sz x \<le> uint (value_size (m_def (maps obj3 ! nat (kconfig_map_idx obj3)))) \<and>
       uint (value_size (m_def (maps obj3 ! nat (kconfig_map_idx obj3)))) = kcfg_end (externs obj3))"
proof -
  have e: "externs obj3 = externs obj1" using init_kconfig_map_ok [OF assms(6)] assms(5) by simp
  have c: "list_all kcfg_fit (externs obj1)" "places_ok (externs obj1)" "kcfg_end (externs obj1) < 2 ^ 31"
    using collect_externs_places [OF assms(1-4)] by simp_all
  have "0 \<le> kcfg_end (externs obj2)" "kcfg_end (externs obj2) < 2 ^ 31" using kcfg_end_ge_0 [OF c(2)] c(3) assms(5) by simp_all
  then show ?thesis using c kconfig_map_size [OF assms(6)] by (auto simp: e assms(5) places_ok_def kcfg_fit_def list_all_iff)
qed

subsection \<open>Configurations\<close>

text \<open>What reading lines keeps: every extern that was set, and every one it does not set.\<close>

definition lines_keep :: "extern_desc list \<times> u8 list \<Rightarrow> extern_desc list \<times> u8 list \<Rightarrow> bool" where
  "lines_keep = (\<lambda>(exts, mem) (exts', mem').
     length exts' = length exts \<and> length mem' = length mem \<and>
     (\<forall>i < length exts. exts' ! i = exts ! i \<or>
        ext_type (exts ! i) = EXT_KCFG \<and> \<not> ext_is_set (exts ! i) \<and> exts' ! i = (exts ! i)\<lparr>ext_is_set := True\<rparr>) \<and>
     (\<forall>i < length exts. ext_type (exts ! i) = EXT_KCFG \<and> (ext_is_set (exts ! i) \<or> \<not> ext_is_set (exts' ! i)) \<longrightarrow>
        kcfg_bytes (exts ! i) mem' = kcfg_bytes (exts ! i) mem))"

lemma lines_keep_refl: "lines_keep d d"
  by (simp add: lines_keep_def split: prod.split)

lemma kcfg_bytes_set [simp]: "kcfg_bytes (x\<lparr>ext_is_set := s\<rparr>) mem = kcfg_bytes x mem"
  by (simp add: kcfg_bytes_def)

lemma lines_keep_trans:
  assumes "lines_keep (exts, mem) (exts1, mem1)" "lines_keep (exts1, mem1) (exts2, mem2)"
  shows "lines_keep (exts, mem) (exts2, mem2)"
proof -
  have a: "length exts1 = length exts" "length mem1 = length mem" "length exts2 = length exts" "length mem2 = length mem"
    using assms by (simp_all add: lines_keep_def)
  have one: "(exts2 ! i = exts ! i \<or>
        ext_type (exts ! i) = EXT_KCFG \<and> \<not> ext_is_set (exts ! i) \<and> exts2 ! i = (exts ! i)\<lparr>ext_is_set := True\<rparr>) \<and>
      (ext_type (exts ! i) = EXT_KCFG \<and> (ext_is_set (exts ! i) \<or> \<not> ext_is_set (exts2 ! i)) \<longrightarrow>
        kcfg_bytes (exts ! i) mem2 = kcfg_bytes (exts ! i) mem)" if i: "i < length exts" for i
  proof -
    have s1: "exts1 ! i = exts ! i \<or>
        ext_type (exts ! i) = EXT_KCFG \<and> \<not> ext_is_set (exts ! i) \<and> exts1 ! i = (exts ! i)\<lparr>ext_is_set := True\<rparr>"
      "ext_type (exts ! i) = EXT_KCFG \<and> (ext_is_set (exts ! i) \<or> \<not> ext_is_set (exts1 ! i)) \<longrightarrow>
        kcfg_bytes (exts ! i) mem1 = kcfg_bytes (exts ! i) mem"
      using assms(1) i by (simp_all add: lines_keep_def)
    have s2: "exts2 ! i = exts1 ! i \<or>
        ext_type (exts1 ! i) = EXT_KCFG \<and> \<not> ext_is_set (exts1 ! i) \<and> exts2 ! i = (exts1 ! i)\<lparr>ext_is_set := True\<rparr>"
      "ext_type (exts1 ! i) = EXT_KCFG \<and> (ext_is_set (exts1 ! i) \<or> \<not> ext_is_set (exts2 ! i)) \<longrightarrow>
        kcfg_bytes (exts1 ! i) mem2 = kcfg_bytes (exts1 ! i) mem1"
      using assms(2) i a(1) by (simp_all add: lines_keep_def)
    show ?thesis using s1 s2 by auto
  qed
  then show ?thesis using a by (simp add: lines_keep_def)
qed

text \<open>The bytes of another extern are not touched.\<close>

lemma changes_only_other:
  assumes "changes_only x mem mem'" "kcfg_data_off y + kcfg_sz y \<le> kcfg_data_off x \<or> kcfg_data_off x + kcfg_sz x \<le> kcfg_data_off y"
    "0 \<le> kcfg_data_off y"
  shows "kcfg_bytes y mem' = kcfg_bytes y mem"
proof (rule nth_equalityI)
  have "length mem' = length mem" using assms(1) by (simp add: changes_only_def)
  then show "length (kcfg_bytes y mem') = length (kcfg_bytes y mem)" by (simp add: kcfg_bytes_def)
  fix k
  assume k: "k < length (kcfg_bytes y mem')"
  then have r: "k < nat (kcfg_sz y)" "nat (kcfg_data_off y) + k < length mem"
    using \<open>length mem' = length mem\<close> by (auto simp: kcfg_bytes_def less_diff_conv add.commute)
  have "int (nat (kcfg_data_off y) + k) = kcfg_data_off y + int k" using assms(3) by simp
  then have "mem' ! (nat (kcfg_data_off y) + k) = mem ! (nat (kcfg_data_off y) + k)"
    using assms(1,2) r unfolding changes_only_def by force
  then show "kcfg_bytes y mem' ! k = kcfg_bytes y mem ! k" using r \<open>length mem' = length mem\<close> by (simp add: kcfg_bytes_def)
qed

lemma places_apart:
  assumes "places_ok exts" "i < length exts" "j < length exts" "i \<noteq> j" "ext_type (exts ! i) = EXT_KCFG" "ext_type (exts ! j) = EXT_KCFG"
  shows "kcfg_data_off (exts ! j) + kcfg_sz (exts ! j) \<le> kcfg_data_off (exts ! i) \<or>
    kcfg_data_off (exts ! i) + kcfg_sz (exts ! i) \<le> kcfg_data_off (exts ! j)"
  using assms sorted_wrt_nth_less [of kcfg_before exts i j] sorted_wrt_nth_less [of kcfg_before exts j i]
  by (cases "i < j") (auto simp: places_ok_def kcfg_before_def)

lemma line_keeps:
  assumes run: "process_kconfig_line (exts, Some mem) buf = (Inr (exts', kdata'), buf')"
    and ok: "list_all kcfg_fit exts" "places_ok exts"
  shows "\<exists>mem'. kdata' = Some mem' \<and> lines_keep (exts, mem) (exts', mem')"
proof -
  have "\<forall>e \<in> set exts. ext_type e = EXT_KCFG \<longrightarrow> kcfg_ok e" using ok(1) by (simp add: list_all_iff kcfg_fit_def)
  from process_line_cases [OF run this] show ?thesis
  proof (elim disjE exE conjE)
    fix i m mem'
    assume i: "i < length exts" "ext_type (exts ! i) = EXT_KCFG" "\<not> ext_is_set (exts ! i)" "Some mem = Some m" "kdata' = Some mem'"
      "exts' = exts[i := (exts ! i)\<lparr>ext_is_set := True\<rparr>]" "changes_only (exts ! i) m mem'"
    have "kcfg_bytes (exts ! j) mem' = kcfg_bytes (exts ! j) mem"
      if j: "j < length exts" "ext_type (exts ! j) = EXT_KCFG" "i \<noteq> j" for j
    proof (rule changes_only_other [OF _ places_apart])
      show "0 \<le> kcfg_data_off (exts ! j)" using ok(2) j by (simp add: places_ok_def)
    qed (use i j ok in simp_all)
    then show ?thesis using i by (auto simp: lines_keep_def changes_only_def nth_list_update)
  qed (auto simp: lines_keep_refl)
qed

lemma lines_keep_inv:
  assumes "lines_keep (exts, mem) (exts', mem')" "list_all kcfg_fit exts" "places_ok exts"
  shows "list_all kcfg_fit exts'" "places_ok exts'"
proof -
  have len: "length exts' = length exts" and
    same: "i < length exts \<Longrightarrow> exts' ! i = exts ! i \<or> exts' ! i = (exts ! i)\<lparr>ext_is_set := True\<rparr>" for i
    using assms(1) by (auto simp: lines_keep_def)
  have eq: "map (ext_is_set_update (\<lambda>_. True)) exts' = map (ext_is_set_update (\<lambda>_. True)) exts"
    using len same by (intro nth_equalityI) force+
  define f where "f = (ext_is_set_update (\<lambda>_. True) :: extern_desc \<Rightarrow> extern_desc)"
  have f: "kcfg_fit (f x) = kcfg_fit x" "kcfg_before (f x) (f y) = kcfg_before x y" "ext_type (f x) = ext_type x"
    "kcfg_sz (f x) = kcfg_sz x" "kcfg_data_off (f x) = kcfg_data_off x" "kcfg_align (f x) = kcfg_align x" for x y
    by (simp_all add: f_def kcfg_fit_def kcfg_ok_def kcfg_before_def split: kcfg_type.split)
  have fit: "list_all kcfg_fit (map f xs) = list_all kcfg_fit xs" for xs by (simp add: list.pred_map comp_def f)
  have "kcfg_end (map f xs) = kcfg_end xs" for xs
    by (simp add: kcfg_end_def last_kcfg_eq Let_def filter_map comp_def f last_map)
  then have pl: "places_ok (map f xs) = places_ok xs" for xs
    by (simp add: places_ok_def sorted_wrt_map f)
  show "list_all kcfg_fit exts'" using assms(2) fit [of exts] fit [of exts'] eq by (simp add: f_def)
  show "places_ok exts'" using assms(3) pl [of exts] pl [of exts'] eq by (simp add: f_def)
qed

lemma read_config_lines_keep:
  assumes "read_config_lines input buf (exts, Some mem) = Inr (exts', kdata')" "list_all kcfg_fit exts" "places_ok exts"
  shows "\<exists>mem'. kdata' = Some mem' \<and> lines_keep (exts, mem) (exts', mem')"
  using assms
proof (induction "length input" arbitrary: input buf exts mem rule: less_induct)
  case less
  show ?case
  proof (cases "input = []")
    case True
    then show ?thesis using less.prems(1) lines_keep_refl by (auto simp: read_config_lines.simps)
  next
    case False
    let ?l = "next_line input"
    obtain exts1 k1 b1 where s: "process_kconfig_line (exts, Some mem) (fill_buf ?l buf) = (Inr (exts1, k1), b1)"
        "read_config_lines (drop (length ?l) input) b1 (exts1, k1) = Inr (exts', kdata')"
      using less.prems(1) False
      by (subst (asm) read_config_lines.simps) (auto simp: Let_def split: prod.splits sum.splits)
    obtain mem1 where m: "k1 = Some mem1" "lines_keep (exts, mem) (exts1, mem1)"
      using line_keeps [OF s(1) less.prems(2,3)] by blast
    have shorter: "length (drop (length ?l) input) < length input"
      using False by (auto simp: next_line_def PATH_MAX_def Let_def)
    obtain mem' where "kdata' = Some mem'" "lines_keep (exts1, mem1) (exts', mem')"
      using less.hyps [OF shorter s(2) [unfolded m(1)] lines_keep_inv [OF m(2) less.prems(2,3)]] by blast
    then show ?thesis using lines_keep_trans [OF m(2)] by blast
  qed
qed

text \<open>
  C25. Reading a configuration, whatever its text, changes an extern only by setting one that was not set, and the first
  line that sets an extern decides its value: the bytes of the externs that were set before, and of those that
  remain unset, are what they were, and no extern moves.
\<close>

theorem read_config_lines_first_wins:
  assumes "read_config_lines input buf (exts, Some mem) = Inr (exts', kdata')"
    "\<forall>x \<in> set exts. ext_type x = EXT_KCFG \<longrightarrow> 0 < kcfg_align x \<and> 0 < kcfg_sz x \<and> kcfg_ok x" "places_ok exts"
  shows "\<exists>mem'. kdata' = Some mem' \<and> length exts' = length exts \<and> length mem' = length mem \<and>
     (\<forall>i < length exts. exts' ! i = exts ! i \<or>
        ext_type (exts ! i) = EXT_KCFG \<and> \<not> ext_is_set (exts ! i) \<and> exts' ! i = (exts ! i)\<lparr>ext_is_set := True\<rparr>) \<and>
     (\<forall>i < length exts. ext_type (exts ! i) = EXT_KCFG \<and> (ext_is_set (exts ! i) \<or> \<not> ext_is_set (exts' ! i)) \<longrightarrow>
        kcfg_bytes (exts ! i) mem' = kcfg_bytes (exts ! i) mem)"
proof -
  have "list_all kcfg_fit exts" using assms(2) by (simp add: list_all_iff kcfg_fit_def)
  from read_config_lines_keep [OF assms(1) this assms(3)] show ?thesis by (simp add: lines_keep_def)
qed

definition ex_quiet :: extern_desc where
  "ex_quiet = ex_ext\<lparr>ext_name := ''CONFIG_Y'', kcfg_data_off := 0\<rparr>"

lemma ex_num: "parse_u64 ''7'' = Inr 7"
  by (simp add: parse_u64_def strtoull_def isspace_def int_base_def digit_val_def digits_value_def Let_def)

lemma ex_set: "set_kcfg_value ex_ext (''7'' @ replicate 5 NUL) [5, 5, 0, 0] = Inr (ex_ext\<lparr>ext_is_set := True\<rparr>, [5, 5, 7, 0])"
proof -
  have "cstr (''7'' @ replicate 5 NUL) = ''7''" by code_simp
  moreover have "le_bytes 2 7 = [7, 0]" unfolding numeral_2_eq_2 by (simp only: le_bytes.simps) simp
  ultimately show ?thesis
    using ex_num by (simp add: set_kcfg_value_def set_kcfg_value_num_def is_kcfg_value_in_range_def Let_def mark_set_def
        store_bytes_def ex_ext_def extern_new_def)
qed

lemma ex_line: "process_kconfig_line ([ex_quiet, ex_ext], Some [5, 5, 0, 0]) (''CONFIG_X=7'' @ replicate 5 NUL) =
    (Inr ([ex_quiet, ex_ext\<lparr>ext_is_set := True\<rparr>], Some [5, 5, 7, 0]), ''CONFIG_X'' @ NUL # ''7'' @ replicate 5 NUL)"
proof -
  have l: "cstr (''CONFIG_X=7'' @ replicate 5 NUL) = ''CONFIG_X=7''" by code_simp
  have s: "find_index (\<lambda>c. c = CHR ''='') ''CONFIG_X=7'' = Some 8" by code_simp
  have b: "(''CONFIG_X=7'' @ replicate 5 NUL)[8 := NUL] = ''CONFIG_X'' @ NUL # ''7'' @ replicate 5 NUL" by code_simp
  have n: "cstr (''CONFIG_X'' @ NUL # ''7'' @ replicate 5 NUL) = ''CONFIG_X''" by code_simp
  have f: "find_extern_by_name [ex_quiet, ex_ext] ''CONFIG_X'' = Some 1" by code_simp
  have d: "drop (8 + 1) (''CONFIG_X'' @ NUL # ''7'' @ replicate 5 NUL) = ''7'' @ replicate 5 NUL"
    "(''CONFIG_X'' @ NUL # ''7'' @ replicate 5 NUL) ! (8 + 1) = CHR ''7''" by simp_all
  have c: "(take 7 ''CONFIG_X=7'' \<noteq> ''CONFIG_'') = False"
    "(''CONFIG_X=7'' ! (length ''CONFIG_X=7'' - 1) = CHR 0x0A) = False" "(CHR ''7'' = NUL) = False" by simp_all
  have k: "ext_is_set ex_ext = False" "ext_type ex_ext = EXT_KCFG" by (simp_all add: ex_ext_def extern_new_def)
  show ?thesis
    by (simp only: process_kconfig_line_def prod.case Let_def l s option.case c if_False b n f d) (simp add: k ex_set [simplified])
qed

lemma ex_lines: "read_config_lines ''CONFIG_X=7'' (replicate 15 NUL) ([ex_quiet, ex_ext], Some [5, 5, 0, 0]) =
    Inr ([ex_quiet, ex_ext\<lparr>ext_is_set := True\<rparr>], Some [5, 5, 7, 0])"
proof -
  have "next_line ''CONFIG_X=7'' = ''CONFIG_X=7''" "next_line [] = []" by (simp_all add: next_line_def PATH_MAX_def)
  moreover have "fill_buf ''CONFIG_X=7'' (replicate 15 NUL) = ''CONFIG_X=7'' @ replicate 5 NUL" by code_simp
  ultimately show ?thesis using ex_line by (simp add: read_config_lines.simps)
qed

theorem read_config_lines_first_wins_witness:
  "\<exists>mem'. read_config_lines ''CONFIG_X=7'' (replicate 15 NUL) ([ex_quiet, ex_ext], Some [5, 5, 0, 0]) =
       Inr ([ex_quiet, ex_ext\<lparr>ext_is_set := True\<rparr>], Some mem') \<and>
     kcfg_bytes ex_quiet mem' = [5, 5]"
proof -
  have e: "ext_type ex_quiet = EXT_KCFG" "ext_type ex_ext = EXT_KCFG" "kcfg_align ex_quiet = 2" "kcfg_align ex_ext = 2"
    "kcfg_sz ex_quiet = 2" "kcfg_sz ex_ext = 2" "kcfg_data_off ex_quiet = 0" "kcfg_data_off ex_ext = 2" "kcfg_ok ex_quiet" "kcfg_ok ex_ext"
    "ext_is_set ex_quiet = False"
    by (simp_all add: ex_quiet_def ex_ext_def extern_new_def kcfg_ok_def)
  have "places_ok [ex_quiet, ex_ext]" by (simp add: places_ok_def kcfg_before_def kcfg_end_def last_kcfg_eq e)
  from read_config_lines_first_wins [OF ex_lines _ this] show ?thesis
    using ex_lines by (auto simp: e less_Suc_eq kcfg_bytes_def)
qed

text \<open>
  A value that is a lone quote is taken as a string: the length without the quotes wraps to the greatest size,
  and the extern is filled with a terminator and then with what the buffer holds behind the line.
\<close>

theorem lone_quote_copies_stale:
  assumes "kcfg_type ext = KCFG_CHAR_ARR" "0 < kcfg_sz ext" "kcfg_sz ext < 2 ^ 31" "0 \<le> kcfg_data_off ext"
    "nat (kcfg_data_off ext + kcfg_sz ext) \<le> length mem" "nat (kcfg_sz ext) \<le> length stale + 2"
  shows "\<exists>mem'. set_kcfg_value ext (CHR 0x22 # NUL # stale) mem = Inr (ext\<lparr>ext_is_set := True\<rparr>, mem') \<and>
    kcfg_bytes ext mem' = take (nat (kcfg_sz ext) - 1) (0 # map char_byte stale) @ [0]"
proof -
  define bs where "bs = take (nat (kcfg_sz ext) - 1) (0 # map char_byte stale) @ [0]"
  have len: "length bs = nat (kcfg_sz ext)" using assms(2,6) by (simp add: bs_def)
  have at: "nat (kcfg_data_off ext) + length bs \<le> length mem" unfolding len using assms(2,4,5) by simp
  obtain mem' where st: "store_bytes mem (kcfg_data_off ext) bs = Inr mem'" using store_bytes_ok [OF assms(4) at] by blast
  have wrap: "((int (length (cstr (CHR 0x22 # NUL # stale))) - 2) mod 2 ^ 64 \<ge> kcfg_sz ext mod 2 ^ 64) = True"
    using assms(2,3) by (simp add: cstr_def)
  have n: "nat (kcfg_sz ext - 1) = nat (kcfg_sz ext) - 1" using assms(2) by simp
  have "map char_byte (take (nat (kcfg_sz ext) - 1) (drop 1 (CHR 0x22 # NUL # stale))) @ [0] = bs"
    by (simp add: bs_def take_map [symmetric] char_byte_def)
  then have "set_kcfg_value ext (CHR 0x22 # NUL # stale) mem = Inr (ext\<lparr>ext_is_set := True\<rparr>, mem')"
    using assms(1,6) st unfolding set_kcfg_value_def set_kcfg_value_str_def Let_def wrap if_True n
    by (simp add: cstr_def guard_def mark_set_def)
  moreover have "kcfg_bytes ext mem' = bs" using store_bytes_frame(3) [OF st] unfolding len by (simp add: kcfg_bytes_def)
  ultimately show ?thesis by (simp add: bs_def)
qed

definition ex_str_ext :: extern_desc where
  "ex_str_ext = extern_new\<lparr>ext_type := EXT_KCFG, ext_name := ''CONFIG_S'', kcfg_type := KCFG_CHAR_ARR, kcfg_sz := 4, kcfg_align := 1\<rparr>"

theorem lone_quote_copies_stale_witness:
  "\<exists>mem'. set_kcfg_value ex_str_ext (CHR 0x22 # NUL # ''abc'') [0, 0, 0, 0] = Inr (ex_str_ext\<lparr>ext_is_set := True\<rparr>, mem') \<and>
     kcfg_bytes ex_str_ext mem' = [0, 97, 98, 0]"
  using lone_quote_copies_stale [of ex_str_ext "[0, 0, 0, 0]" "''abc''"]
  by (simp add: ex_str_ext_def extern_new_def char_byte_def)

subsection \<open>An object with an extern\<close>

lemma offs_from_update:
  "i < length ts \<Longrightarrow> length (encode_type t) = length (encode_type (ts ! i)) \<Longrightarrow> offs_from n (ts[i := t]) = offs_from n ts"
  by (induction ts arbitrary: n i) (auto split: nat.split)

lemma overwrite_type:
  assumes "i < length ts" "length (encode_type t) = length (encode_type (ts ! i))"
  shows "overwrite (length (encode_types (take i ts))) (encode_type t) (encode_types ts) = encode_types (ts[i := t])"
proof -
  have s: "encode_types ts = encode_types (take i ts) @ encode_type (ts ! i) @ encode_types (drop (Suc i) ts)"
    using assms(1) by (metis encode_types_simps(2,3) id_take_nth_drop)
  have "encode_types (ts[i := t]) = encode_types (take i ts) @ encode_type t @ encode_types (drop (Suc i) ts)"
    using assms(1) by (simp add: upd_conv_take_nth_drop)
  then show ?thesis using assms(2) unfolding s by (simp add: overwrite_def)
qed

text \<open>A store of a type of the same length is a replacement in the list of types; nothing but the bytes changes.\<close>

lemma store_type_repr:
  assumes "btf_repr d ts" "start_id d = 1" "0 < i" "i \<le> length ts" "wf_type t" "length (encode_type t) = length (encode_type (ts ! (i - 1)))"
  shows "\<exists>mem raw. store_type i t (Btf d None) = Inr (Btf (d\<lparr>types_data := mem, raw_data := raw\<rparr>) None) \<and>
    btf_repr (d\<lparr>types_data := mem, raw_data := raw\<rparr>) (ts[i - 1 := t])"
proof -
  let ?p = "length (encode_types (take (i - 1) ts))"
  have k: "i - 1 < length ts" using assms(3,4) by simp
  have s: "encode_types ts = encode_types (take (i - 1) ts) @ encode_type (ts ! (i - 1)) @ encode_types (drop (Suc (i - 1)) ts)"
    using k by (metis encode_types_simps(2,3) id_take_nth_drop)
  have fits: "?p + length (encode_type t) \<le> length (encode_types ts)" unfolding arg_cong [OF s, of length] using assms(6) by simp
  have "length (encode_types ts) < 2 ^ 32"
    using assms(1) unsigned_less [of "type_len (hdr d)", where 'a = nat] by (simp add: btf_repr_def)
  then have at: "unat (type_offs d ! (i - 1)) = ?p" "i - 1 < length (type_offs d)"
    using assms(1) fits k by (auto simp: btf_repr_def offs_from_nth unat_of_nat)
  have o: "overwrite ?p (encode_type t) (types_data d) = encode_types (ts[i - 1 := t])"
    using assms(1) overwrite_type [OF k assms(6)] by (simp add: btf_repr_def)
  have len: "length (encode_types (ts[i - 1 := t])) = length (encode_types ts)"
    using s assms(6) k by (simp add: upd_conv_take_nth_drop)
  have wf: "\<forall>u \<in> set (ts[i - 1 := t]). wf_type u"
    using assms(1,5) set_update_subset_insert [of ts "i - 1" t] by (auto simp: btf_repr_def)
  let ?raw = "if modifiable d then raw_data d else map_option (overwrite (types_at (hdr d) + ?p) (encode_type t)) (raw_data d)"
  let ?d = "d\<lparr>types_data := encode_types (ts[i - 1 := t]), raw_data := ?raw\<rparr>"
  have "store_type i t (Btf d None) = Inr (Btf ?d None)"
    using assms(1-3) at fits o by (simp add: store_type_def array_get_def guard_def btf_repr_def Let_def upd_own_def)
  moreover have "btf_repr ?d (ts[i - 1 := t])"
    using assms(1) wf len offs_from_update [OF k assms(6)] by (simp add: btf_repr_def)
  ultimately show ?thesis by blast
qed

definition kx_var :: "u32 \<Rightarrow> btf_type" where
  "kx_var l = \<lparr>name_off = 5, info = btf_type_info BTF_KIND_VAR 0 False, size_type = 1, vdata = VVar l\<rparr>"

definition kx_sec :: "u32 \<Rightarrow> btf_type" where
  "kx_sec n = \<lparr>name_off = 14, info = btf_type_info BTF_KIND_DATASEC 1 False, size_type = n,
     vdata = VSecinfos [\<lparr>v_type = 2, v_offset = 0, v_size = 4\<rparr>]\<rparr>"

definition kx_types :: "btf_type list" where
  "kx_types = [ex_int, kx_var BTF_VAR_EXTERN, kx_sec 0]"

definition kx_strs :: string where
  "kx_strs = NUL # ''int'' @ NUL # ''CONFIG_X'' @ NUL # ''.kconfig'' @ [NUL]"

definition kx_data :: btf_data where
  "kx_data = (btf_calloc None)\<lparr>hdr := ex_hdr\<lparr>type_len := 56, str_off := 56, str_len := 23\<rparr>, types_data := encode_types kx_types,
     type_offs := [0, 16, 32], nr_types := 3, strs_data := kx_strs, ptr_sz := 8\<rparr>"

definition kx_syms :: "nat \<Rightarrow> gelf_sym option" where
  "kx_syms = nth_opt [ex_sym 0 0 0 0 0, ex_sym 9 0x10 0 0 0, ex_sym 6 0x12 3 0 24, ex_sym 7 0x12 3 24 8]"

definition kx_obj :: bpf_object where
  "kx_obj = ex_obj2\<lparr>obj_btf := Some (Btf kx_data None), efile := (efile ex_obj2)\<lparr>ef_elf := Some (ex_elf\<lparr>elf_getsym := (\<lambda>_. kx_syms),
     elf_strptr := (\<lambda>_. nth_opt [[], ''.strtab'', ''.symtab'', ''xdp'', ''.relxdp'', ''.data'', ''f'', ''g'', ''v'', ''CONFIG_X''])\<rparr>)\<rparr>\<rparr>"

lemma kx_kinds [simp]: "btf_kind ex_int = BTF_KIND_INT" "btf_kind (kx_var l) = BTF_KIND_VAR" "btf_kind (kx_sec n) = BTF_KIND_DATASEC"
    "btf_vlen (kx_sec n) = 1" "btf_vlen ex_int = 0" "btf_vlen (kx_var l) = 0"
  by (simp_all add: btf_kind_def ex_int_def kx_var_def kx_sec_def btf_vlen_def)

lemma kx_data_of [simp]: "vdata ex_int = VInt 32" "vdata (kx_var l) = VVar l" "vdata (kx_sec n) = VSecinfos [\<lparr>v_type = 2, v_offset = 0, v_size = 4\<rparr>]"
  by (simp_all add: ex_int_def kx_var_def kx_sec_def)

lemma kx_offs [simp]: "name_off ex_int = 1" "name_off (kx_var l) = 5" "name_off (kx_sec n) = 14" "size_type ex_int = 4" "size_type (kx_var l) = 1"
  by (simp_all add: ex_int_def kx_var_def kx_sec_def)

lemma kx_wf [simp]: "wf_type ex_int" "wf_type (kx_var l)" "wf_type (kx_sec n)"
  by (simp_all add: wf_type_def)

lemma kx_len [simp]: "length (encode_type ex_int) = 16" "length (encode_type (kx_var l)) = 16" "length (encode_type (kx_sec n)) = 24"
  by (simp_all add: length_encode_type sizeof_btf_type_def)

lemma kx_repr: "btf_repr kx_data kx_types" "start_id kx_data = 1"
  by (simp_all add: btf_repr_def kx_data_def kx_types_def btf_calloc_def ex_hdr_def)

lemma kx_reads:
  assumes "btf_repr d ts" "start_id d = 1" "length ts = 3"
  shows "type_at (Btf d None) 1 = Inr (ts ! 0)" "type_at (Btf d None) 2 = Inr (ts ! 1)" "type_at (Btf d None) 3 = Inr (ts ! 2)"
    "btf__type_by_id (Btf d None) 1 = Inr (Some (ts ! 0))" "btf__get_nr_types (Btf d None) = 3"
proof -
  have v: "btf_view (Btf d None) ts" using assms(1,2) by simp
  show "type_at (Btf d None) 1 = Inr (ts ! 0)" "type_at (Btf d None) 2 = Inr (ts ! 1)" "type_at (Btf d None) 3 = Inr (ts ! 2)"
    "btf__type_by_id (Btf d None) 1 = Inr (Some (ts ! 0))" "btf__get_nr_types (Btf d None) = 3"
    using assms(3) by (simp_all add: type_at_def btf__type_by_id_view [OF v] btf__get_nr_types_view [OF v] deref_def)
qed

lemma kx_names:
  assumes "strs_data d = kx_strs" "hdr d = hdr kx_data" "start_str_off d = 0"
  shows "name_at (Btf d None) 1 = Inr ''int''" "name_at (Btf d None) 5 = Inr ''CONFIG_X''" "name_at (Btf d None) 14 = Inr ''.kconfig''"
    "btf__name_by_offset (Btf d None) 1 = Inr (Some ''int'')"
  using assms by (simp_all add: name_at_def btf__name_by_offset_def kx_data_def ex_hdr_def btf_calloc_def kx_strs_def cstr_def deref_def)

definition kx_ext :: extern_desc where
  "kx_ext = extern_new\<lparr>ext_btf_id := 2, ext_name := ''CONFIG_X'', ext_sym_idx := 1, ext_type := EXT_KCFG, kcfg_sz := 4, kcfg_align := 4,
     kcfg_type := KCFG_INT, kcfg_is_signed := False\<rparr>"

lemma kx_d: "strs_data kx_data = kx_strs" "hdr kx_data = hdr kx_data" "start_str_off kx_data = 0" "ptr_sz kx_data = 8"
  by (simp_all add: kx_data_def btf_calloc_def)

lemmas kx_reads0 = kx_reads [OF kx_repr, unfolded kx_types_def, simplified] kx_names [OF kx_d(1-3)]

lemma kx_ids: "[Suc 0..<4] = [1, 2, 3]" "MAX_RESOLVE_DEPTH = Suc 31"
  by (code_simp, simp add: MAX_RESOLVE_DEPTH_def)

lemma kx_find: "find_extern_btf_id (Some (Btf kx_data None)) ''CONFIG_X'' = Inr 2"
  "find_extern_sec_btf_id (Some (Btf kx_data None)) 2 = Inr 3"
  by (simp_all add: find_extern_btf_id_def find_extern_sec_btf_id_def kx_reads0 kx_ids btf_is_var_def btf_is_datasec_def btf_var_def
      btf_var_secinfos_def BTF_VAR_EXTERN_def)

lemma kx_kcfg: "kcfg_extern (Btf kx_data None) 3 (kx_var 2) ext =
    Inr (Collected (ext\<lparr>ext_type := EXT_KCFG, kcfg_sz := 4, kcfg_align := 4, kcfg_type := KCFG_INT, kcfg_is_signed := False\<rparr>) (Some 3) None)"
proof -
  have "fst (btf__resolve_size (Btf kx_data None) 1) = Inr 4"
  proof -
    have "resolve_size_loop 32 (Btf kx_data None) 1 (Some ex_int) = (Inr (4, 1), Btf kx_data None)"
      using resolve_size_loop_cases(1) [of ex_int 31 "Btf kx_data None" 1] by simp
    then show ?thesis by (simp add: btf__resolve_size_def MAX_RESOLVE_DEPTH_def kx_reads0) (simp add: UINT32_MAX_def)
  qed
  moreover have "fst (btf__align_of (btf__get_nr_types (Btf kx_data None) + 1) (Btf kx_data None) 1) = Some (Inr 4)"
  proof -
    have n: "btf__get_nr_types (Btf kx_data None) + 1 = Suc 3" by (simp add: kx_reads0)
    show ?thesis unfolding n btf__align_of.simps(2) by (simp add: kx_reads0 btf_ptr_sz_def cache_ptr_sz_def kx_d deref_def)
  qed
  moreover have "find_kcfg_type (btf__get_nr_types (Btf kx_data None)) (Btf kx_data None) 1 = Inr (KCFG_INT, False)"
    by (subst find_kcfg_type.simps) (simp add: skip_mods_and_typedefs_def skip_mods_loop.simps kx_reads0 btf_is_mod_def btf_is_typedef_def
        deref_def btf_int_encoding_def btf_int_data_def BTF_INT_ENCODING_def Let_def)
  ultimately show ?thesis by (simp add: kcfg_extern_def s32_small)
qed

lemma kx_collect: "collect_externs_loop ex_alloc kx_obj e (ex_data 96 (replicate 96 0)) [0, 1, 2, 3] ([], None, None) =
    Inr (True, [kx_ext], Some 3, None)" if "elf_getsym e = (\<lambda>_. kx_syms)"
proof -
  have "collect_extern (obj_btf kx_obj) 1 (ex_sym 9 0x10 0 0 0) ''CONFIG_X'' = Inr (Collected kx_ext (Some 3) None)"
    by (simp add: collect_extern_def kx_obj_def kx_find kx_reads0 deref_def kx_kcfg [unfolded BTF_VAR_EXTERN_def] BTF_VAR_EXTERN_def
        ex_sym_def elf_consts kx_ext_def extern_new_def)
  then show ?thesis
    by (simp add: that kx_syms_def nth_opt_def sym_is_extern_def ex_sym_def elf_consts elf_sym_str_def elf_str_def kx_obj_def ex_obj2_eval
        libbpf_reallocarray_def ex_alloc_def)
qed

definition kx_placed :: extern_desc where
  "kx_placed = kx_ext\<lparr>kcfg_data_off := 0\<rparr>"

lemma kx_place: "\<exists>obj1. place_all kx_obj ([kx_ext], Some 3, None) = Inr obj1 \<and> externs obj1 = [kx_placed]"
proof -
  obtain m1 r1 where s1: "store_type 3 (kx_sec 4) (Btf kx_data None) = Inr (Btf (kx_data\<lparr>types_data := m1, raw_data := r1\<rparr>) None)"
      "btf_repr (kx_data\<lparr>types_data := m1, raw_data := r1\<rparr>) [ex_int, kx_var 2, kx_sec 4]"
    using store_type_repr [OF kx_repr, of 3 "kx_sec 4"] by (auto simp: kx_types_def BTF_VAR_EXTERN_def)
  let ?d1 = "kx_data\<lparr>types_data := m1, raw_data := r1\<rparr>"
  obtain m2 r2 where s2: "store_type 2 (kx_var 1) (Btf ?d1 None) = Inr (Btf (kx_data\<lparr>types_data := m2, raw_data := r2\<rparr>) None)"
      "btf_repr (kx_data\<lparr>types_data := m2, raw_data := r2\<rparr>) [ex_int, kx_var 1, kx_sec 4]"
    using store_type_repr [OF s1(2), of 2 "kx_var 1"] kx_repr(2) by auto
  let ?d2 = "kx_data\<lparr>types_data := m2, raw_data := r2\<rparr>"
  obtain b3 where s3: "store_type 3 (kx_sec 4) (Btf ?d2 None) = Inr b3"
    using store_type_repr [OF s2(2), of 3 "kx_sec 4"] kx_repr(2) by auto
  have d1: "start_id ?d1 = 1" "length [ex_int, kx_var 2, kx_sec 4] = 3" "strs_data ?d1 = kx_strs" "hdr ?d1 = hdr kx_data" "start_str_off ?d1 = 0"
    using kx_repr(2) kx_d by simp_all
  note rd1 = kx_reads [OF s1(2) d1(1,2), simplified] kx_names [OF d1(3-5)]
  have upd: "kx_sec 0\<lparr>size_type := 4\<rparr> = kx_sec 4" "kx_var 2\<lparr>vdata := VVar BTF_VAR_ALLOCATED\<rparr> = kx_var 1"
      "set_secinfo 0 (\<lambda>vs. vs\<lparr>v_offset := 0\<rparr>) (kx_sec 4) = kx_sec 4"
    by (simp_all add: kx_sec_def kx_var_def BTF_VAR_ALLOCATED_def set_secinfo_def btf_var_secinfos_def)
  have "place_kcfgs [kx_placed] 4 3 (Btf kx_data None) = Inr b3"
    by (simp add: place_kcfgs_def set_sec_size_def kx_reads0 upd s1(1) rd1 place_extern_def btf_var_secinfos_def array_get_def deref_def
        find_extern_by_name_def kx_placed_def kx_ext_def guard_def btf_is_var_def s2(1) s3 extern_new_def)
  moreover have "kcfg_layout 0 [kx_ext] = (4, [kx_placed])" by (simp add: kx_ext_def kx_placed_def extern_new_def Let_def roundup_int_def int32_small)
  ultimately show ?thesis by (simp add: place_all_def kx_obj_def)
qed

lemma kx_externs: "\<exists>obj1. bpf_object__collect_externs ex_alloc kx_obj = Inr obj1 \<and> externs obj1 = [kx_placed]"
proof -
  obtain obj1 where o: "place_all kx_obj ([kx_ext], Some 3, None) = Inr obj1" "externs obj1 = [kx_placed]" using kx_place by blast
  obtain e where e: "ef_elf (efile kx_obj) = Some e" "elf_getsym e = (\<lambda>_. kx_syms)" by (simp add: kx_obj_def)
  have h: "elf_sec_hdr kx_obj (elf_sec_by_idx kx_obj (nat (symbols_shndx (efile kx_obj)))) = Inr (ex_shdr 2 SHT_SYMTAB 0 96 1 0 24)"
    "nr_rels (ex_shdr 2 SHT_SYMTAB 0 96 1 0 24) = Inr [0, 1, 2, 3]"
    "ef_symbols (efile kx_obj) = Some (ex_data 96 (replicate 96 0))"
    by (simp_all add: elf_sec_hdr_def elf_sec_by_idx_def kx_obj_def ex_obj2_eval deref_def ex_elf_def nth_opt_def)
      (simp add: nr_rels_def s32_small ex_shdr_def upt_rec)
  have "bpf_object__collect_externs ex_alloc kx_obj = Inr obj1"
    unfolding bpf_object__collect_externs_def e h option.case prod.case sum.case rbind.simps kx_collect [OF e(2)] using o(1) by simp
  then show ?thesis using o(2) by blast
qed

lemma kx_map: "\<exists>obj3. bpf_object__init_kconfig_map ex_alloc 4096 (ex_obj2\<lparr>externs := [kx_placed]\<rparr>) = (Inr (), obj3)"
  by (simp add: bpf_object__init_kconfig_map_def last_kcfg_eq kx_placed_def kx_ext_def extern_new_def and_then_def
      bpf_object__init_internal_map_def bpf_object__add_map_def ex_obj2_eval libbpf_reallocarray_def ex_alloc_def sizeof_bpf_map_def
      internal_map_name_def BPF_OBJ_NAME_LEN_def isalnum_def upd_map_def map_new_def bpf_map_mmap_sz_def roundup_def Let_def int32_small)

theorem collect_externs_layout_witness:
  "\<exists>obj3. bpf_object__init_kconfig_map ex_alloc 4096 (ex_obj2\<lparr>externs := [kx_placed]\<rparr>) = (Inr (), obj3) \<and>
     kcfg_data_off kx_placed + kcfg_sz kx_placed = 4 \<and> uint (value_size (m_def (maps obj3 ! nat (kconfig_map_idx obj3)))) = 4"
proof -
  obtain obj1 where o1: "bpf_object__collect_externs ex_alloc kx_obj = Inr obj1" "externs obj1 = [kx_placed]" using kx_externs by blast
  obtain obj3 where o3: "bpf_object__init_kconfig_map ex_alloc 4096 (ex_obj2\<lparr>externs := [kx_placed]\<rparr>) = (Inr (), obj3)" using kx_map by blast
  have k: "ext_type kx_placed = EXT_KCFG" "kcfg_sz kx_placed = 4" "kcfg_data_off kx_placed = 0" "externs kx_obj = []"
    by (simp_all add: kx_placed_def kx_ext_def kx_obj_def ex_obj2_eval)
  have e: "externs obj3 = [kx_placed]" using init_kconfig_map_ok [OF o3] by simp
  have span: "kcfg_span [kx_placed] < 2 ^ 31" by (simp add: kx_placed_def kx_ext_def)
  have sz: "\<forall>x \<in> set (externs obj1). ext_type x = EXT_KCFG \<longrightarrow> kcfg_sz x \<noteq> 0" using o1(2) k(2) by simp
  have "uint (value_size (m_def (maps obj3 ! nat (kconfig_map_idx obj3)))) = kcfg_end (externs obj3)"
    using collect_externs_layout [OF o1(1) k(4) sz _ _ o3] o1(2) e k(1) span by simp
  moreover have "kcfg_end (externs obj3) = 4" using k(1-3) by (simp add: e kcfg_end_def last_kcfg_eq)
  ultimately show ?thesis using o3 k(2,3) by simp
qed

end
