(* ===== verification/Btf_Dedup.thy ===== *)
theory Btf_Dedup
  imports Btf_Write Btf_Ext
begin

text \<open>
  Deduplication of a BTF (\<^verbatim>\<open>btf.c\<close>, lines 2740 to 4555): the strings, then integers, enums and forward declarations,
  then structs and unions by comparing their graphs, then the types that refer to one other type, and the
  compaction and renumbering of what is left.

  The types of the object that is deduplicated are kept decoded, \<open>dd_types\<close>, as they are overwritten in place; they
  are written back at the end. The maps from type ids to type ids are lists of numbers below \<open>2\<^sup>3\<^sup>2\<close>. After an
  error the object is garbled, as the comment of \<^verbatim>\<open>btf__dedup\<close> says, so an error has no object.
\<close>

subsection \<open>State\<close>

definition BTF_UNPROCESSED_ID :: nat where "BTF_UNPROCESSED_ID = 0xffffffff"
definition BTF_IN_PROGRESS_ID :: nat where "BTF_IN_PROGRESS_ID = 0xfffffffe"

record btf_dedup_opts =
  dedup_table_size :: nat
  dont_resolve_fwds :: bool

record btf_dedup =
  dd_btf :: btf
  dd_types :: "btf_type list"
  dd_table :: "(unit, u64, nat) hashmap"
  dd_map :: "nat list"
  hypot_map :: "nat list"
  hypot_list :: "nat list"
  hypot_cap :: nat
  hypot_adjust_canon :: bool
  dd_dont_resolve_fwds :: bool

definition dd_start :: "btf_dedup \<Rightarrow> nat" where "dd_start d = start_id (own (dd_btf d))"

text \<open>\<open>btf_type_by_id\<close> of the object that is deduplicated.\<close>

definition dedup_type :: "btf_dedup \<Rightarrow> nat \<Rightarrow> btf_type result" where
  "dedup_type d tid =
     (if tid = 0 then Inr btf_void
      else if tid < dd_start d then rbind (deref (base_btf (dd_btf d)) OOB) (\<lambda>b. btf_type_by_id b tid)
      else array_get (dd_types d) (tid - dd_start d))"

text \<open>A store through a pointer to a type of the object; the types of the base are never written.\<close>

definition set_dedup_type :: "nat \<Rightarrow> btf_type \<Rightarrow> btf_dedup \<Rightarrow> btf_dedup result" where
  "set_dedup_type tid t d =
     (if dd_start d \<le> tid \<and> tid - dd_start d < length (dd_types d)
      then Inr (d\<lparr>dd_types := (dd_types d)[tid - dd_start d := t]\<rparr>) else Inl OOB)"

definition set_map :: "nat \<Rightarrow> nat \<Rightarrow> btf_dedup \<Rightarrow> btf_dedup result" where
  "set_map tid new_id d = (if tid < length (dd_map d) then Inr (d\<lparr>dd_map := (dd_map d)[tid := new_id]\<rparr>) else Inl OOB)"

text \<open>The ids of the types of the object itself.\<close>

definition own_ids :: "btf_dedup \<Rightarrow> nat list" where
  "own_ids d = [dd_start d..<dd_start d + length (dd_types d)]"

definition hash_combine :: "u64 \<Rightarrow> u64 \<Rightarrow> u64" where
  "hash_combine h value = h * 31 + value"

definition for_each_dedup_cand :: "btf_dedup \<Rightarrow> u64 \<Rightarrow> nat list" where
  "for_each_dedup_cand d hash = map hvalue (hashmap__for_each_key_entry (dd_table d) hash)"

definition btf_dedup_table_add :: "alloc \<Rightarrow> u64 \<Rightarrow> nat \<Rightarrow> btf_dedup \<Rightarrow> btf_dedup result" where
  "btf_dedup_table_add alloc hash type_id d =
     (let r = hashmap__append alloc (dd_table d) hash type_id in
      if ins_err r = None then Inr (d\<lparr>dd_table := ins_map r\<rparr>) else Inl ENOMEM)"

definition btf_dedup_hypot_map_add :: "alloc \<Rightarrow> nat \<Rightarrow> nat \<Rightarrow> btf_dedup \<Rightarrow> btf_dedup result" where
  "btf_dedup_hypot_map_add alloc from_id to_id d =
     (let cap' = (if length (hypot_list d) = hypot_cap d then hypot_cap d + max 16 (hypot_cap d div 2) else hypot_cap d) in
      if cap' \<noteq> hypot_cap d \<and> \<not> libbpf_reallocarray alloc cap' 4 then Inl ENOMEM
      else if from_id < length (hypot_map d)
      then Inr (d\<lparr>hypot_cap := cap', hypot_list := hypot_list d @ [from_id], hypot_map := (hypot_map d)[from_id := to_id]\<rparr>)
      else Inl OOB)"

definition btf_dedup_clear_hypot_map :: "btf_dedup \<Rightarrow> btf_dedup" where
  "btf_dedup_clear_hypot_map d =
     d\<lparr>hypot_map := fold (\<lambda>i m. m[i := BTF_UNPROCESSED_ID]) (hypot_list d) (hypot_map d), hypot_list := [],
       hypot_adjust_canon := False\<rparr>"

fun read_types :: "btf \<Rightarrow> nat list \<Rightarrow> btf_type list result" where
  "read_types b [] = Inr []"
| "read_types b (i # is) = rbind (btf_type_by_id b i) (\<lambda>t. rbind (read_types b is) (\<lambda>ts. Inr (t # ts)))"

definition sizeof_btf_dedup :: nat where "sizeof_btf_dedup = 112"

definition btf_dedup_new :: "alloc \<Rightarrow> btf \<Rightarrow> btf_dedup_opts option \<Rightarrow> btf_dedup result" where
  "btf_dedup_new alloc b opts =
     rbind (guard (alloc sizeof_btf_dedup) ENOMEM) (\<lambda>_.
     let hash_fn = (if (case opts of None \<Rightarrow> False | Some o1 \<Rightarrow> dedup_table_size o1 = 1) then btf_dedup_collision_hash_fn else btf_dedup_identity_hash_fn);
         type_cnt = btf__get_nr_types b + 1 in
     rbind (hashmap__new alloc hash_fn btf_dedup_equal_fn ()) (\<lambda>table.
     rbind (guard (alloc (4 * type_cnt)) ENOMEM) (\<lambda>_.
     rbind (read_types b [1..<type_cnt]) (\<lambda>ts.
     rbind (guard (alloc (4 * type_cnt)) ENOMEM) (\<lambda>_.
     Inr \<lparr>dd_btf = b, dd_types = drop (start_id (own b) - 1) ts, dd_table = table,
          dd_map = 0 # map (\<lambda>(i, t). if btf_is_var t \<or> btf_is_datasec t then i else BTF_UNPROCESSED_ID) (zip [1..<type_cnt] ts),
          hypot_map = replicate type_cnt BTF_UNPROCESSED_ID, hypot_list = [], hypot_cap = 0, hypot_adjust_canon = False,
          dd_dont_resolve_fwds = (case opts of None \<Rightarrow> False | Some o1 \<Rightarrow> dont_resolve_fwds o1)\<rparr>)))))"

subsection \<open>Strings\<close>

text \<open>
  The new string section is built in an object that differs from the old one in its strings only, \<open>sb\<close>: the
  table of strings hashes and compares through the strings it is pointed to, which are switched to the new ones.
\<close>

definition strs_dedup_remap_str_off :: "alloc \<Rightarrow> btf \<Rightarrow> u32 \<Rightarrow> btf \<Rightarrow> (u32 \<times> btf) result" where
  "strs_dedup_remap_str_off alloc b noff sb =
     (if noff = 0 \<or> unat noff < start_str_off (own b) then Inr (noff, sb)
      else rbind (btf__str_by_offset b (unat noff)) (\<lambda>p.
           rbind (deref p OOB) (\<lambda>s.
           case btf__add_str alloc s sb of
             (Inl e, _) \<Rightarrow> Inl e
           | (Inr new_off, sb') \<Rightarrow> Inr (of_nat new_off, sb'))))"

fun remap_list :: "('a \<Rightarrow> btf \<Rightarrow> ('a \<times> btf) result) \<Rightarrow> 'a list \<Rightarrow> btf \<Rightarrow> ('a list \<times> btf) result" where
  "remap_list f [] sb = Inr ([], sb)"
| "remap_list f (x # xs) sb =
     rbind (f x sb) (\<lambda>(y, sb1). rbind (remap_list f xs sb1) (\<lambda>(ys, sb2). Inr (y # ys, sb2)))"

text \<open>The offsets in a type: its name, then the names of its members, enumerators or parameters.\<close>

definition remap_member :: "(u32 \<Rightarrow> btf \<Rightarrow> (u32 \<times> btf) result) \<Rightarrow> btf_member_t \<Rightarrow> btf \<Rightarrow> (btf_member_t \<times> btf) result" where
  "remap_member f m sb = rbind (f (m_name_off m) sb) (\<lambda>(n, sb1). Inr (m\<lparr>m_name_off := n\<rparr>, sb1))"

definition remap_enum :: "(u32 \<Rightarrow> btf \<Rightarrow> (u32 \<times> btf) result) \<Rightarrow> btf_enum_t \<Rightarrow> btf \<Rightarrow> (btf_enum_t \<times> btf) result" where
  "remap_enum f m sb = rbind (f (e_name_off m) sb) (\<lambda>(n, sb1). Inr (m\<lparr>e_name_off := n\<rparr>, sb1))"

definition remap_param :: "(u32 \<Rightarrow> btf \<Rightarrow> (u32 \<times> btf) result) \<Rightarrow> btf_param_t \<Rightarrow> btf \<Rightarrow> (btf_param_t \<times> btf) result" where
  "remap_param f m sb = rbind (f (p_name_off m) sb) (\<lambda>(n, sb1). Inr (m\<lparr>p_name_off := n\<rparr>, sb1))"

definition remap_vdata :: "(u32 \<Rightarrow> btf \<Rightarrow> (u32 \<times> btf) result) \<Rightarrow> btf_type \<Rightarrow> btf \<Rightarrow> (btf_vdata \<times> btf) result" where
  "remap_vdata f t sb =
     (if btf_is_composite t then rbind (remap_list (remap_member f) (btf_members t) sb) (\<lambda>(ms, sb1). Inr (VMembers ms, sb1))
      else if btf_is_enum t then rbind (remap_list (remap_enum f) (btf_enum t) sb) (\<lambda>(es, sb1). Inr (VEnums es, sb1))
      else if btf_is_func_proto t then rbind (remap_list (remap_param f) (btf_params t) sb) (\<lambda>(ps, sb1). Inr (VParams ps, sb1))
      else Inr (vdata t, sb))"

definition remap_type_strs :: "(u32 \<Rightarrow> btf \<Rightarrow> (u32 \<times> btf) result) \<Rightarrow> btf_type \<Rightarrow> btf \<Rightarrow> (btf_type \<times> btf) result" where
  "remap_type_strs f t sb =
     rbind (f (name_off t) sb) (\<lambda>(n, sb1).
     rbind (remap_vdata f t sb1) (\<lambda>(v, sb2).
     Inr (t\<lparr>name_off := n, vdata := v\<rparr>, sb2)))"

text \<open>The offsets in the line records of \<^verbatim>\<open>.BTF.ext\<close>: the name of each section, and the file and the line of each record.\<close>

function line_str_offs :: "u8 list \<Rightarrow> nat \<Rightarrow> nat \<Rightarrow> nat \<Rightarrow> nat list result" where
  "line_str_offs data rec_size line_data_cur line_data_end =
     (if line_data_cur < line_data_end
      then rbind (read_u32 data (line_data_cur + 4)) (\<lambda>num_info.
           let recs = map (\<lambda>i. line_data_cur + 8 + i * rec_size) [0..<unat num_info] in
           rbind (line_str_offs data rec_size (line_data_cur + 8 + unat num_info * rec_size) line_data_end) (\<lambda>rest.
           Inr (line_data_cur # concat (map (\<lambda>p. [p + 4, p + 8]) recs) @ rest)))
      else Inr [])"
  by pat_completeness auto
termination
  by (relation "measure (\<lambda>(data, rec_size, cur, end). end - cur)") auto

declare line_str_offs.simps [simp del]

fun remap_at :: "(u32 \<Rightarrow> btf \<Rightarrow> (u32 \<times> btf) result) \<Rightarrow> nat list \<Rightarrow> u8 list \<times> btf \<Rightarrow> (u8 list \<times> btf) result" where
  "remap_at f [] st = Inr st"
| "remap_at f (p # ps) st =
     rbind (read_u32 (fst st) p) (\<lambda>off.
     rbind (f off (snd st)) (\<lambda>(n, sb).
     rbind (write_u32 (fst st) p n) (\<lambda>data.
     remap_at f ps (data, sb))))"

definition btf_for_each_str_off :: "(u32 \<Rightarrow> btf \<Rightarrow> (u32 \<times> btf) result) \<Rightarrow> btf_type list \<Rightarrow> btf_ext option \<Rightarrow> btf \<Rightarrow>
    (btf_type list \<times> btf_ext option \<times> btf) result" where
  "btf_for_each_str_off f ts ext sb =
     rbind (remap_list (remap_type_strs f) ts sb) (\<lambda>(ts', sb1).
     case ext of
       None \<Rightarrow> Inr (ts', None, sb1)
     | Some e \<Rightarrow>
         let li = line_info e in
         rbind (line_str_offs (ext_data e) (unat (ei_rec_size li)) (ei_info li) (ei_info li + unat (ei_len li))) (\<lambda>ps.
         rbind (remap_at f ps (ext_data e, sb1)) (\<lambda>(data, sb2).
         Inr (ts', Some (e\<lparr>ext_data := data\<rparr>), sb2))))"

definition no_strs :: "btf_data \<Rightarrow> btf_data" where
  "no_strs d = d\<lparr>strs_data := [], strs_data_cap := 0, hdr := (hdr d)\<lparr>str_len := 0\<rparr>\<rparr>"

text \<open>The first string of an object without a base is the empty one.\<close>

definition dedup_strs_init :: "alloc \<Rightarrow> btf \<Rightarrow> btf result" where
  "dedup_strs_init alloc b =
     rbind (hashmap__new alloc strs_hash_fn strs_hash_equal_fn []) (\<lambda>m.
     let sb = upd_own (\<lambda>d. (no_strs d)\<lparr>strs_hash := Some m\<rparr>) b in
     if base_btf b \<noteq> None then Inr sb
     else rbind (deref (btf_add_mem alloc 0 1 0 BTF_MAX_STR_OFFSET 1) ENOMEM) (\<lambda>cap.
          let r = hashmap__insert alloc (m\<lparr>ctx := [NUL]\<rparr>) 0 0 HASHMAP_ADD in
          case ins_err r of
            Some e \<Rightarrow> Inl e
          | None \<Rightarrow> Inr (upd_own (\<lambda>d. d\<lparr>strs_data := [NUL], strs_data_cap := cap, hdr := (hdr d)\<lparr>str_len := 1\<rparr>,
                                      strs_hash := Some (ins_map r)\<rparr>) sb)))"

definition btf_dedup_strings :: "alloc \<Rightarrow> btf \<Rightarrow> btf_type list \<Rightarrow> btf_ext option \<Rightarrow> (btf_type list \<times> btf_ext option \<times> btf) result" where
  "btf_dedup_strings alloc b ts ext =
     (if strs_deduped (own b) then Inr (ts, ext, b)
      else rbind (dedup_strs_init alloc b) (\<lambda>sb.
           rbind (btf_for_each_str_off (strs_dedup_remap_str_off alloc b) ts ext sb) (\<lambda>(ts', ext', sb').
           Inr (ts', ext', upd_own (\<lambda>d. d\<lparr>strs_deduped := True\<rparr>) sb'))))"

subsection \<open>Signatures and equality of types\<close>

text \<open>\<^verbatim>\<open>info & ~0xffff\<close>: without the number of elements.\<close>

definition info_no_vlen :: "btf_type \<Rightarrow> u32" where
  "info_no_vlen t = info t AND 0xffff0000"

definition btf_hash_common :: "btf_type \<Rightarrow> u64" where
  "btf_hash_common t = hash_combine (hash_combine (hash_combine 0 (ucast (name_off t))) (ucast (info t))) (ucast (size_type t))"

definition btf_equal_common :: "btf_type \<Rightarrow> btf_type \<Rightarrow> bool" where
  "btf_equal_common t1 t2 \<longleftrightarrow> name_off t1 = name_off t2 \<and> info t1 = info t2 \<and> size_type t1 = size_type t2"

definition btf_hash_int :: "btf_type \<Rightarrow> u64" where
  "btf_hash_int t = hash_combine (btf_hash_common t) (ucast (btf_int_data t))"

definition btf_equal_int :: "btf_type \<Rightarrow> btf_type \<Rightarrow> bool" where
  "btf_equal_int t1 t2 \<longleftrightarrow> btf_equal_common t1 t2 \<and> btf_int_data t1 = btf_int_data t2"

definition btf_hash_enum :: "btf_type \<Rightarrow> u64" where
  "btf_hash_enum t = hash_combine (hash_combine (hash_combine 0 (ucast (name_off t))) (ucast (info_no_vlen t))) (ucast (size_type t))"

definition btf_equal_enum :: "btf_type \<Rightarrow> btf_type \<Rightarrow> bool" where
  "btf_equal_enum t1 t2 \<longleftrightarrow> btf_equal_common t1 t2 \<and>
     list_all2 (\<lambda>m1 m2. e_name_off m1 = e_name_off m2 \<and> e_val m1 = e_val m2) (btf_enum t1) (btf_enum t2)"

definition btf_is_enum_fwd :: "btf_type \<Rightarrow> bool" where
  "btf_is_enum_fwd t \<longleftrightarrow> btf_is_enum t \<and> btf_vlen t = 0"

definition btf_compat_enum :: "btf_type \<Rightarrow> btf_type \<Rightarrow> bool" where
  "btf_compat_enum t1 t2 \<longleftrightarrow>
     (if \<not> btf_is_enum_fwd t1 \<and> \<not> btf_is_enum_fwd t2 then btf_equal_enum t1 t2
      else name_off t1 = name_off t2 \<and> info_no_vlen t1 = info_no_vlen t2 \<and> size_type t1 = size_type t2)"

definition btf_hash_struct :: "btf_type \<Rightarrow> u64" where
  "btf_hash_struct t =
     fold (\<lambda>m h. hash_combine (hash_combine h (ucast (m_name_off m))) (ucast (m_offset m))) (btf_members t) (btf_hash_common t)"

definition btf_shallow_equal_struct :: "btf_type \<Rightarrow> btf_type \<Rightarrow> bool" where
  "btf_shallow_equal_struct t1 t2 \<longleftrightarrow> btf_equal_common t1 t2 \<and>
     list_all2 (\<lambda>m1 m2. m_name_off m1 = m_name_off m2 \<and> m_offset m1 = m_offset m2) (btf_members t1) (btf_members t2)"

definition btf_hash_array :: "btf_type \<Rightarrow> u64" where
  "btf_hash_array t =
     (let a = btf_array t in
      hash_combine (hash_combine (hash_combine (btf_hash_common t) (ucast (a_type a))) (ucast (a_index_type a))) (ucast (a_nelems a)))"

definition btf_equal_array :: "btf_type \<Rightarrow> btf_type \<Rightarrow> bool" where
  "btf_equal_array t1 t2 \<longleftrightarrow> btf_equal_common t1 t2 \<and> a_type (btf_array t1) = a_type (btf_array t2) \<and>
     a_index_type (btf_array t1) = a_index_type (btf_array t2) \<and> a_nelems (btf_array t1) = a_nelems (btf_array t2)"

definition btf_compat_array :: "btf_type \<Rightarrow> btf_type \<Rightarrow> bool" where
  "btf_compat_array t1 t2 \<longleftrightarrow> btf_equal_common t1 t2 \<and> a_nelems (btf_array t1) = a_nelems (btf_array t2)"

definition btf_hash_fnproto :: "btf_type \<Rightarrow> u64" where
  "btf_hash_fnproto t =
     fold (\<lambda>p h. hash_combine (hash_combine h (ucast (p_name_off p))) (ucast (btf_param_t.p_type p))) (btf_params t) (btf_hash_common t)"

definition btf_equal_fnproto :: "btf_type \<Rightarrow> btf_type \<Rightarrow> bool" where
  "btf_equal_fnproto t1 t2 \<longleftrightarrow> btf_equal_common t1 t2 \<and>
     list_all2 (\<lambda>p1 p2. p_name_off p1 = p_name_off p2 \<and> btf_param_t.p_type p1 = btf_param_t.p_type p2) (btf_params t1) (btf_params t2)"

definition btf_compat_fnproto :: "btf_type \<Rightarrow> btf_type \<Rightarrow> bool" where
  "btf_compat_fnproto t1 t2 \<longleftrightarrow> name_off t1 = name_off t2 \<and> info t1 = info t2 \<and>
     list_all2 (\<lambda>p1 p2. p_name_off p1 = p_name_off p2) (btf_params t1) (btf_params t2)"

subsection \<open>The types of the base\<close>

definition prep_hash :: "btf_type \<Rightarrow> u64 option result" where
  "prep_hash t =
     (case btf_kind t of
        BTF_KIND_VAR \<Rightarrow> Inr None
      | BTF_KIND_DATASEC \<Rightarrow> Inr None
      | BTF_KIND_CONST \<Rightarrow> Inr (Some (btf_hash_common t))
      | BTF_KIND_VOLATILE \<Rightarrow> Inr (Some (btf_hash_common t))
      | BTF_KIND_RESTRICT \<Rightarrow> Inr (Some (btf_hash_common t))
      | BTF_KIND_PTR \<Rightarrow> Inr (Some (btf_hash_common t))
      | BTF_KIND_FWD \<Rightarrow> Inr (Some (btf_hash_common t))
      | BTF_KIND_TYPEDEF \<Rightarrow> Inr (Some (btf_hash_common t))
      | BTF_KIND_FUNC \<Rightarrow> Inr (Some (btf_hash_common t))
      | BTF_KIND_INT \<Rightarrow> Inr (Some (btf_hash_int t))
      | BTF_KIND_ENUM \<Rightarrow> Inr (Some (btf_hash_enum t))
      | BTF_KIND_STRUCT \<Rightarrow> Inr (Some (btf_hash_struct t))
      | BTF_KIND_UNION \<Rightarrow> Inr (Some (btf_hash_struct t))
      | BTF_KIND_ARRAY \<Rightarrow> Inr (Some (btf_hash_array t))
      | BTF_KIND_FUNC_PROTO \<Rightarrow> Inr (Some (btf_hash_fnproto t))
      | BTF_KIND_UNKN \<Rightarrow> Inl EINVAL)"

fun prep_types :: "alloc \<Rightarrow> nat list \<Rightarrow> btf_dedup \<Rightarrow> btf_dedup result" where
  "prep_types alloc [] d = Inr d"
| "prep_types alloc (tid # tids) d =
     rbind (dedup_type d tid) (\<lambda>t.
     rbind (set_map tid tid d) (\<lambda>d1.
     rbind (prep_hash t) (\<lambda>h.
     case h of
       None \<Rightarrow> prep_types alloc tids d1
     | Some h \<Rightarrow> rbind (btf_dedup_table_add alloc h tid d1) (prep_types alloc tids))))"

definition btf_dedup_prep :: "alloc \<Rightarrow> btf_dedup \<Rightarrow> btf_dedup result" where
  "btf_dedup_prep alloc d = (if base_btf (dd_btf d) = None then Inr d else prep_types alloc [1..<dd_start d] d)"

subsection \<open>Primitive types\<close>

text \<open>The first candidate that is equal.\<close>

fun find_equal :: "(btf_type \<Rightarrow> bool) \<Rightarrow> btf_dedup \<Rightarrow> nat \<Rightarrow> nat list \<Rightarrow> nat result" where
  "find_equal eq d new_id [] = Inr new_id"
| "find_equal eq d new_id (cand_id # cs) =
     rbind (dedup_type d cand_id) (\<lambda>cand. if eq cand then Inr cand_id else find_equal eq d new_id cs)"

text \<open>An enum may also be the declaration or the definition of a candidate; a declaration is then mapped to it.\<close>

fun find_enum :: "nat \<Rightarrow> btf_type \<Rightarrow> nat list \<Rightarrow> btf_dedup \<Rightarrow> (nat \<times> btf_dedup) result" where
  "find_enum type_id t [] d = Inr (type_id, d)"
| "find_enum type_id t (cand_id # cs) d =
     rbind (dedup_type d cand_id) (\<lambda>cand.
     if btf_equal_enum t cand then Inr (cand_id, d)
     else if dd_dont_resolve_fwds d then find_enum type_id t cs d
     else if btf_compat_enum t cand
     then if btf_is_enum_fwd t then Inr (cand_id, d)
          else rbind (set_map cand_id type_id d) (find_enum type_id t cs)
     else find_enum type_id t cs d)"

text \<open>The end of all three passes: the type gets its representative, and is a candidate if it is its own.\<close>

definition set_canonical :: "alloc \<Rightarrow> nat \<Rightarrow> nat \<Rightarrow> u64 \<Rightarrow> btf_dedup \<Rightarrow> btf_dedup result" where
  "set_canonical alloc type_id new_id h d =
     rbind (set_map type_id new_id d) (\<lambda>d1. if type_id = new_id then btf_dedup_table_add alloc h type_id d1 else Inr d1)"

definition btf_dedup_prim_type :: "alloc \<Rightarrow> nat \<Rightarrow> btf_dedup \<Rightarrow> btf_dedup result" where
  "btf_dedup_prim_type alloc type_id d =
     rbind (dedup_type d type_id) (\<lambda>t.
     case btf_kind t of
       BTF_KIND_INT \<Rightarrow>
         let h = btf_hash_int t in
         rbind (find_equal (btf_equal_int t) d type_id (for_each_dedup_cand d h)) (\<lambda>new_id.
         set_canonical alloc type_id new_id h d)
     | BTF_KIND_ENUM \<Rightarrow>
         let h = btf_hash_enum t in
         rbind (find_enum type_id t (for_each_dedup_cand d h) d) (\<lambda>(new_id, d1).
         set_canonical alloc type_id new_id h d1)
     | BTF_KIND_FWD \<Rightarrow>
         let h = btf_hash_common t in
         rbind (find_equal (btf_equal_common t) d type_id (for_each_dedup_cand d h)) (\<lambda>new_id.
         set_canonical alloc type_id new_id h d)
     | BTF_KIND_UNKN \<Rightarrow> Inl EINVAL
     | _ \<Rightarrow> Inr d)"

fun for_types :: "(nat \<Rightarrow> btf_dedup \<Rightarrow> btf_dedup result) \<Rightarrow> nat list \<Rightarrow> btf_dedup \<Rightarrow> btf_dedup result" where
  "for_types f [] d = Inr d"
| "for_types f (tid # tids) d = rbind (f tid d) (for_types f tids)"

definition btf_dedup_prim_types :: "alloc \<Rightarrow> btf_dedup \<Rightarrow> btf_dedup result" where
  "btf_dedup_prim_types alloc d = for_types (btf_dedup_prim_type alloc) (own_ids d) d"

subsection \<open>Canonical types\<close>

definition is_type_mapped :: "nat list \<Rightarrow> nat \<Rightarrow> bool result" where
  "is_type_mapped m type_id = rbind (array_get m type_id) (\<lambda>v. Inr (v \<le> BTF_MAX_NR_TYPES))"

text \<open>The loop follows the map. A path longer than the map has a cycle and does not end.\<close>

primrec resolve_from :: "nat \<Rightarrow> nat list \<Rightarrow> nat \<Rightarrow> nat result" where
  "resolve_from 0 m type_id = Inl NONTERM"
| "resolve_from (Suc n) m type_id =
     rbind (is_type_mapped m type_id) (\<lambda>mapped.
     if mapped \<and> m ! type_id \<noteq> type_id then resolve_from n m (m ! type_id) else Inr type_id)"

definition resolve_type_id :: "btf_dedup \<Rightarrow> nat \<Rightarrow> nat result" where
  "resolve_type_id d type_id = resolve_from (Suc (length (dd_map d))) (dd_map d) type_id"

definition resolve_fwd_id :: "btf_dedup \<Rightarrow> nat \<Rightarrow> nat result" where
  "resolve_fwd_id d orig_type_id =
     rbind (dedup_type d orig_type_id) (\<lambda>t.
     if \<not> btf_is_fwd t then Inr orig_type_id
     else rbind (resolve_type_id d orig_type_id) (\<lambda>type_id.
          rbind (dedup_type d type_id) (\<lambda>t1.
          Inr (if \<not> btf_is_fwd t1 then type_id else orig_type_id))))"

definition fwd_kind_of :: "btf_type \<Rightarrow> btf_kind_t" where
  "fwd_kind_of t = (if btf_kflag t then BTF_KIND_UNION else BTF_KIND_STRUCT)"

definition btf_dedup_identical_arrays :: "btf_dedup \<Rightarrow> nat \<Rightarrow> nat \<Rightarrow> bool result" where
  "btf_dedup_identical_arrays d id1 id2 =
     rbind (dedup_type d id1) (\<lambda>t1.
     rbind (dedup_type d id2) (\<lambda>t2.
     Inr (btf_is_array t1 \<and> btf_is_array t2 \<and> btf_equal_array t1 t2)))"

subsection \<open>Equivalence of type graphs\<close>

text \<open>
  The comparison of two types of the same kind: \<open>None\<close> if they differ, otherwise the pairs of types they refer to,
  in the order in which these are compared.
\<close>

definition type_pair :: "u32 \<Rightarrow> u32 \<Rightarrow> nat \<times> nat" where
  "type_pair a b = (unat a, unat b)"

definition equiv_refs :: "bool \<Rightarrow> btf_type \<Rightarrow> btf_type \<Rightarrow> (nat \<times> nat) list option result" where
  "equiv_refs dont_resolve cand_type canon_type =
     (let leaf = (\<lambda>eq. Inr (if eq then Some [] else None));
          ref = type_pair (ref_type cand_type) (ref_type canon_type);
          refs = (\<lambda>eq ps. Inr (if eq then Some ps else None)) in
      case btf_kind cand_type of
        BTF_KIND_INT \<Rightarrow> leaf (btf_equal_int cand_type canon_type)
      | BTF_KIND_ENUM \<Rightarrow>
          leaf (if dont_resolve then btf_equal_enum cand_type canon_type else btf_compat_enum cand_type canon_type)
      | BTF_KIND_FWD \<Rightarrow> leaf (btf_equal_common cand_type canon_type)
      | BTF_KIND_CONST \<Rightarrow> refs (info cand_type = info canon_type) [ref]
      | BTF_KIND_VOLATILE \<Rightarrow> refs (info cand_type = info canon_type) [ref]
      | BTF_KIND_RESTRICT \<Rightarrow> refs (info cand_type = info canon_type) [ref]
      | BTF_KIND_PTR \<Rightarrow> refs (info cand_type = info canon_type) [ref]
      | BTF_KIND_TYPEDEF \<Rightarrow> refs (info cand_type = info canon_type) [ref]
      | BTF_KIND_FUNC \<Rightarrow> refs (info cand_type = info canon_type) [ref]
      | BTF_KIND_ARRAY \<Rightarrow>
          refs (btf_compat_array cand_type canon_type)
            [type_pair (a_index_type (btf_array cand_type)) (a_index_type (btf_array canon_type)),
             type_pair (a_type (btf_array cand_type)) (a_type (btf_array canon_type))]
      | BTF_KIND_STRUCT \<Rightarrow>
          refs (btf_shallow_equal_struct cand_type canon_type)
            (map (\<lambda>(m1, m2). type_pair (m_type m1) (m_type m2)) (zip (btf_members cand_type) (btf_members canon_type)))
      | BTF_KIND_UNION \<Rightarrow>
          refs (btf_shallow_equal_struct cand_type canon_type)
            (map (\<lambda>(m1, m2). type_pair (m_type m1) (m_type m2)) (zip (btf_members cand_type) (btf_members canon_type)))
      | BTF_KIND_FUNC_PROTO \<Rightarrow>
          refs (btf_compat_fnproto cand_type canon_type)
            (ref # map (\<lambda>(p1, p2). type_pair (btf_param_t.p_type p1) (btf_param_t.p_type p2))
                     (zip (btf_params cand_type) (btf_params canon_type)))
      | _ \<Rightarrow> Inl EINVAL)"

fun equiv_list :: "(nat \<Rightarrow> nat \<Rightarrow> btf_dedup \<Rightarrow> (bool \<times> btf_dedup) result) \<Rightarrow> (nat \<times> nat) list \<Rightarrow> btf_dedup \<Rightarrow>
    (bool \<times> btf_dedup) result" where
  "equiv_list recur [] d = Inr (True, d)"
| "equiv_list recur ((cand_id, canon_id) # ps) d =
     rbind (recur cand_id canon_id d) (\<lambda>(eq, d1). if eq then equiv_list recur ps d1 else Inr (False, d1))"

text \<open>A declaration against a struct or union of its name.\<close>

definition fwd_against :: "btf_dedup \<Rightarrow> btf_type \<Rightarrow> nat \<Rightarrow> btf_type \<Rightarrow> bool \<times> btf_dedup" where
  "fwd_against d cand_type canon_id canon_type =
     (if btf_kind cand_type = BTF_KIND_FWD then (fwd_kind_of cand_type = btf_kind canon_type, d)
      else let eq = (fwd_kind_of canon_type = btf_kind cand_type) in
           (eq, if eq \<and> canon_id < dd_start d then d\<lparr>hypot_adjust_canon := True\<rparr> else d))"

definition equiv_types :: "(nat \<Rightarrow> nat \<Rightarrow> btf_dedup \<Rightarrow> (bool \<times> btf_dedup) result) \<Rightarrow> nat \<Rightarrow> nat \<Rightarrow> btf_dedup \<Rightarrow>
    (bool \<times> btf_dedup) result" where
  "equiv_types recur cand_id canon_id d =
     rbind (dedup_type d cand_id) (\<lambda>cand_type.
     rbind (dedup_type d canon_id) (\<lambda>canon_type.
     if name_off cand_type \<noteq> name_off canon_type then Inr (False, d)
     else if \<not> dd_dont_resolve_fwds d \<and> (btf_is_fwd cand_type \<or> btf_is_fwd canon_type) \<and> btf_kind cand_type \<noteq> btf_kind canon_type
     then Inr (fwd_against d cand_type canon_id canon_type)
     else if btf_kind cand_type \<noteq> btf_kind canon_type then Inr (False, d)
     else rbind (equiv_refs (dd_dont_resolve_fwds d) cand_type canon_type) (\<lambda>r.
          case r of None \<Rightarrow> Inr (False, d) | Some ps \<Rightarrow> equiv_list recur ps d)))"

text \<open>
  Every call that goes deeper has marked one more type in \<open>hypot_map\<close>, so the depth is bounded by its length.
\<close>

primrec is_equiv :: "nat \<Rightarrow> alloc \<Rightarrow> nat \<Rightarrow> nat \<Rightarrow> btf_dedup \<Rightarrow> (bool \<times> btf_dedup) result" where
  "is_equiv 0 alloc cand_id canon d = Inl NONTERM"
| "is_equiv (Suc n) alloc cand_id canon d =
     rbind (resolve_type_id d cand_id) (\<lambda>c1.
     rbind (resolve_type_id d canon) (\<lambda>c2.
     if c1 = c2 then Inr (True, d)
     else rbind (resolve_fwd_id d canon) (\<lambda>canon_id.
          rbind (array_get (hypot_map d) canon_id) (\<lambda>hypot_type_id.
          if hypot_type_id \<le> BTF_MAX_NR_TYPES
          then if hypot_type_id = cand_id then Inr (True, d)
               else rbind (btf_dedup_identical_arrays d hypot_type_id cand_id) (\<lambda>eq. Inr (eq, d))
          else rbind (btf_dedup_hypot_map_add alloc canon_id cand_id d)
                 (equiv_types (is_equiv n alloc) cand_id canon_id)))))"

definition btf_dedup_is_equiv :: "alloc \<Rightarrow> nat \<Rightarrow> nat \<Rightarrow> btf_dedup \<Rightarrow> (bool \<times> btf_dedup) result" where
  "btf_dedup_is_equiv alloc cand_id canon_id d = is_equiv (Suc (length (hypot_map d))) alloc cand_id canon_id d"

subsection \<open>Structs and unions\<close>

definition merge_one :: "nat \<Rightarrow> btf_dedup \<Rightarrow> btf_dedup result" where
  "merge_one canon_type_id d =
     rbind (array_get (hypot_map d) canon_type_id) (\<lambda>targ_type_id.
     rbind (resolve_type_id d targ_type_id) (\<lambda>t_id.
     rbind (resolve_type_id d canon_type_id) (\<lambda>c_id.
     rbind (dedup_type d t_id) (\<lambda>t.
     rbind (dedup_type d c_id) (\<lambda>c.
     rbind (if \<not> btf_is_fwd t \<and> btf_is_fwd c then set_map c_id t_id d else Inr d) (\<lambda>d1.
     if hypot_adjust_canon d1 then Inr d1
     else rbind (if btf_is_fwd t \<and> \<not> btf_is_fwd c then set_map t_id c_id d1 else Inr d1) (\<lambda>d2.
          rbind (is_type_mapped (dd_map d2) c_id) (\<lambda>c_mapped.
          rbind (is_type_mapped (dd_map d2) t_id) (\<lambda>t_mapped.
          if btf_is_composite t \<and> \<not> btf_is_fwd c \<and> c_mapped \<and> \<not> t_mapped then set_map t_id c_id d2
          else Inr d2)))))))))"

definition btf_dedup_merge_hypot_map :: "btf_dedup \<Rightarrow> btf_dedup result" where
  "btf_dedup_merge_hypot_map d = for_types merge_one (hypot_list d) d"

fun struct_cands :: "alloc \<Rightarrow> nat \<Rightarrow> btf_type \<Rightarrow> nat list \<Rightarrow> btf_dedup \<Rightarrow> (nat \<times> btf_dedup) result" where
  "struct_cands alloc type_id t [] d = Inr (type_id, d)"
| "struct_cands alloc type_id t (cand_id # cs) d =
     rbind (dedup_type d cand_id) (\<lambda>cand_type.
     if \<not> btf_shallow_equal_struct t cand_type then struct_cands alloc type_id t cs d
     else rbind (btf_dedup_is_equiv alloc type_id cand_id (btf_dedup_clear_hypot_map d)) (\<lambda>(eq, d1).
          if \<not> eq then struct_cands alloc type_id t cs d1
          else rbind (btf_dedup_merge_hypot_map d1) (\<lambda>d2.
               if hypot_adjust_canon d2 then struct_cands alloc type_id t cs d2 else Inr (cand_id, d2))))"

definition btf_dedup_struct_type :: "alloc \<Rightarrow> nat \<Rightarrow> btf_dedup \<Rightarrow> btf_dedup result" where
  "btf_dedup_struct_type alloc type_id d =
     rbind (is_type_mapped (dd_map d) type_id) (\<lambda>mapped.
     if mapped then Inr d
     else rbind (dedup_type d type_id) (\<lambda>t.
          if \<not> btf_is_composite t then Inr d
          else let h = btf_hash_struct t in
               rbind (struct_cands alloc type_id t (for_each_dedup_cand d h) d) (\<lambda>(new_id, d1).
               set_canonical alloc type_id new_id h d1)))"

definition btf_dedup_struct_types :: "alloc \<Rightarrow> btf_dedup \<Rightarrow> btf_dedup result" where
  "btf_dedup_struct_types alloc d = for_types (btf_dedup_struct_type alloc) (own_ids d) d"

subsection \<open>Types that refer to others\<close>

text \<open>The types that a type refers to, in the order in which they are deduplicated, and the type with other ones.\<close>

definition dedup_refs :: "btf_type \<Rightarrow> nat list result" where
  "dedup_refs t =
     (case btf_kind t of
        BTF_KIND_CONST \<Rightarrow> Inr [unat (ref_type t)]
      | BTF_KIND_VOLATILE \<Rightarrow> Inr [unat (ref_type t)]
      | BTF_KIND_RESTRICT \<Rightarrow> Inr [unat (ref_type t)]
      | BTF_KIND_PTR \<Rightarrow> Inr [unat (ref_type t)]
      | BTF_KIND_TYPEDEF \<Rightarrow> Inr [unat (ref_type t)]
      | BTF_KIND_FUNC \<Rightarrow> Inr [unat (ref_type t)]
      | BTF_KIND_ARRAY \<Rightarrow> Inr [unat (a_type (btf_array t)), unat (a_index_type (btf_array t))]
      | BTF_KIND_FUNC_PROTO \<Rightarrow> Inr (unat (ref_type t) # map (\<lambda>p. unat (btf_param_t.p_type p)) (btf_params t))
      | _ \<Rightarrow> Inl EINVAL)"

definition with_refs :: "btf_type \<Rightarrow> nat list \<Rightarrow> btf_type" where
  "with_refs t ids =
     (if btf_is_array t
      then t\<lparr>vdata := VArray ((btf_array t)\<lparr>a_type := of_nat (ids ! 0), a_index_type := of_nat (ids ! 1)\<rparr>)\<rparr>
      else if btf_is_func_proto t
      then t\<lparr>size_type := of_nat (hd ids), vdata := VParams (map2 (\<lambda>p i. p\<lparr>p_type := of_nat i\<rparr>) (btf_params t) (tl ids))\<rparr>
      else t\<lparr>size_type := of_nat (hd ids)\<rparr>)"

definition ref_hash :: "btf_type \<Rightarrow> u64" where
  "ref_hash t = (if btf_is_array t then btf_hash_array t else if btf_is_func_proto t then btf_hash_fnproto t else btf_hash_common t)"

definition ref_equal :: "btf_type \<Rightarrow> btf_type \<Rightarrow> bool" where
  "ref_equal t cand =
     (if btf_is_array t then btf_equal_array t cand else if btf_is_func_proto t then btf_equal_fnproto t cand
      else btf_equal_common t cand)"

fun ref_list :: "(nat \<Rightarrow> btf_dedup \<Rightarrow> (nat \<times> btf_dedup) result) \<Rightarrow> nat list \<Rightarrow> btf_dedup \<Rightarrow> (nat list \<times> btf_dedup) result" where
  "ref_list recur [] d = Inr ([], d)"
| "ref_list recur (i # is) d =
     rbind (recur i d) (\<lambda>(r, d1). rbind (ref_list recur is d1) (\<lambda>(rs, d2). Inr (r # rs, d2)))"

text \<open>
  The code stores each reference as soon as it is resolved. Until the last one the type is marked as in progress and is
  no candidate, so nothing reads it; here they are stored together. A call goes deeper only from a type it
  has marked, so the depth is bounded by the length of the map.
\<close>

primrec ref_type_id :: "nat \<Rightarrow> alloc \<Rightarrow> nat \<Rightarrow> btf_dedup \<Rightarrow> (nat \<times> btf_dedup) result" where
  "ref_type_id 0 alloc type_id d = Inl NONTERM"
| "ref_type_id (Suc n) alloc type_id d =
     rbind (array_get (dd_map d) type_id) (\<lambda>m.
     if m = BTF_IN_PROGRESS_ID then Inl ELOOP
     else if m \<le> BTF_MAX_NR_TYPES then rbind (resolve_type_id d type_id) (\<lambda>r. Inr (r, d))
     else rbind (dedup_type d type_id) (\<lambda>t.
          rbind (set_map type_id BTF_IN_PROGRESS_ID d) (\<lambda>d1.
          rbind (dedup_refs t) (\<lambda>refs.
          rbind (ref_list (ref_type_id n alloc) refs d1) (\<lambda>(ids, d2).
          let t1 = with_refs t ids in
          rbind (set_dedup_type type_id t1 d2) (\<lambda>d3.
          rbind (find_equal (ref_equal t1) d3 type_id (for_each_dedup_cand d3 (ref_hash t1))) (\<lambda>new_id.
          rbind (set_canonical alloc type_id new_id (ref_hash t1) d3) (\<lambda>d4.
          Inr (new_id, d4)))))))))"

definition btf_dedup_ref_type :: "alloc \<Rightarrow> nat \<Rightarrow> btf_dedup \<Rightarrow> (nat \<times> btf_dedup) result" where
  "btf_dedup_ref_type alloc type_id d = ref_type_id (Suc (length (dd_map d))) alloc type_id d"

definition btf_dedup_ref_types :: "alloc \<Rightarrow> btf_dedup \<Rightarrow> btf_dedup result" where
  "btf_dedup_ref_types alloc d =
     for_types (\<lambda>tid d. rbind (btf_dedup_ref_type alloc tid d) (\<lambda>(_, d1). Inr d1)) (own_ids d) d"

subsection \<open>Compaction and renumbering\<close>

text \<open>The canonical types are kept in their order; \<open>hypot_map\<close> gets their new ids.\<close>

fun compact_from :: "btf_dedup \<Rightarrow> nat list \<Rightarrow> nat list \<times> btf_type list \<Rightarrow> (nat list \<times> btf_type list) result" where
  "compact_from d [] st = Inr st"
| "compact_from d (tid # tids) (hm, kept) =
     rbind (array_get (dd_map d) tid) (\<lambda>m.
     if m \<noteq> tid then compact_from d tids (hm, kept)
     else rbind (dedup_type d tid) (\<lambda>t.
          rbind (btf_type_size t) (\<lambda>len.
          compact_from d tids (hm[tid := dd_start d + length kept], kept @ [t]))))"

definition btf_dedup_compact_types :: "alloc \<Rightarrow> btf_dedup \<Rightarrow> btf_dedup result" where
  "btf_dedup_compact_types alloc d =
     rbind (compact_from d (own_ids d) (0 # [1..<dd_start d] @ replicate (length (dd_types d)) BTF_UNPROCESSED_ID, []))
       (\<lambda>(hm, kept).
     rbind (guard (kept = [] \<or> libbpf_reallocarray alloc (length kept) 4) ENOMEM) (\<lambda>_.
     Inr (d\<lparr>hypot_map := hm, dd_types := kept\<rparr>)))"

definition btf_dedup_remap_type_id :: "btf_dedup \<Rightarrow> u32 \<Rightarrow> u32 result" where
  "btf_dedup_remap_type_id d type_id =
     rbind (resolve_type_id d (unat type_id)) (\<lambda>resolved_type_id.
     rbind (array_get (hypot_map d) resolved_type_id) (\<lambda>new_type_id.
     if new_type_id > BTF_MAX_NR_TYPES then Inl EINVAL else Inr (of_nat new_type_id)))"

fun result_list :: "('a \<Rightarrow> 'b result) \<Rightarrow> 'a list \<Rightarrow> 'b list result" where
  "result_list f [] = Inr []"
| "result_list f (x # xs) = rbind (f x) (\<lambda>y. rbind (result_list f xs) (\<lambda>ys. Inr (y # ys)))"

definition remap_refs :: "(u32 \<Rightarrow> u32 result) \<Rightarrow> btf_type \<Rightarrow> btf_type result" where
  "remap_refs f t =
     (let ref = rbind (f (ref_type t)) (\<lambda>r. Inr (t\<lparr>size_type := r\<rparr>));
          members = rbind (result_list (\<lambda>m. rbind (f (m_type m)) (\<lambda>r. Inr (m\<lparr>m_type := r\<rparr>))) (btf_members t)) (\<lambda>ms.
                    Inr (t\<lparr>vdata := VMembers ms\<rparr>)) in
      case btf_kind t of
        BTF_KIND_INT \<Rightarrow> Inr t
      | BTF_KIND_ENUM \<Rightarrow> Inr t
      | BTF_KIND_FWD \<Rightarrow> ref
      | BTF_KIND_CONST \<Rightarrow> ref
      | BTF_KIND_VOLATILE \<Rightarrow> ref
      | BTF_KIND_RESTRICT \<Rightarrow> ref
      | BTF_KIND_PTR \<Rightarrow> ref
      | BTF_KIND_TYPEDEF \<Rightarrow> ref
      | BTF_KIND_FUNC \<Rightarrow> ref
      | BTF_KIND_VAR \<Rightarrow> ref
      | BTF_KIND_ARRAY \<Rightarrow>
          rbind (f (a_type (btf_array t))) (\<lambda>r.
          rbind (f (a_index_type (btf_array t))) (\<lambda>i.
          Inr (t\<lparr>vdata := VArray ((btf_array t)\<lparr>a_type := r, a_index_type := i\<rparr>)\<rparr>)))
      | BTF_KIND_STRUCT \<Rightarrow> members
      | BTF_KIND_UNION \<Rightarrow> members
      | BTF_KIND_FUNC_PROTO \<Rightarrow>
          rbind (f (ref_type t)) (\<lambda>r.
          rbind (result_list (\<lambda>p. rbind (f (btf_param_t.p_type p)) (\<lambda>i. Inr (p\<lparr>p_type := i\<rparr>))) (btf_params t)) (\<lambda>ps.
          Inr (t\<lparr>size_type := r, vdata := VParams ps\<rparr>)))
      | BTF_KIND_DATASEC \<Rightarrow>
          rbind (result_list (\<lambda>v. rbind (f (v_type v)) (\<lambda>i. Inr (v\<lparr>v_type := i\<rparr>))) (btf_var_secinfos t)) (\<lambda>vs.
          Inr (t\<lparr>vdata := VSecinfos vs\<rparr>))
      | BTF_KIND_UNKN \<Rightarrow> Inl EINVAL)"

definition btf_dedup_remap_type :: "nat \<Rightarrow> btf_dedup \<Rightarrow> btf_dedup result" where
  "btf_dedup_remap_type type_id d =
     rbind (dedup_type d type_id) (\<lambda>t.
     rbind (remap_refs (btf_dedup_remap_type_id d) t) (\<lambda>t1.
     set_dedup_type type_id t1 d))"

definition btf_dedup_remap_types :: "btf_dedup \<Rightarrow> btf_dedup result" where
  "btf_dedup_remap_types d = for_types btf_dedup_remap_type (own_ids d) d"

subsection \<open>All passes\<close>

text \<open>The types as they are left in the object, with the index of their offsets and the header.\<close>

definition store_types :: "btf_type list \<Rightarrow> btf_data \<Rightarrow> btf_data" where
  "store_types ts d =
     (let len = of_nat (length (encode_types ts)) in
      d\<lparr>types_data := encode_types ts, type_offs := offs_from 0 ts, nr_types := length ts, type_offs_cap := length ts,
        hdr := (hdr d)\<lparr>type_len := len, str_off := len\<rparr>,
        raw_size := unat (hdr_len (hdr d) + len + str_len (hdr d))\<rparr>)"

definition dedup_passes :: "alloc \<Rightarrow> btf_ext option \<Rightarrow> btf_dedup \<Rightarrow> (btf_ext option \<times> btf_dedup) result" where
  "dedup_passes alloc ext d =
     rbind (btf_dedup_prep alloc d) (\<lambda>d.
     rbind (btf_dedup_strings alloc (dd_btf d) (dd_types d) ext) (\<lambda>(ts, ext', b).
     rbind (btf_dedup_prim_types alloc (d\<lparr>dd_types := ts, dd_btf := b\<rparr>)) (\<lambda>d.
     rbind (btf_dedup_struct_types alloc d) (\<lambda>d.
     rbind (btf_dedup_ref_types alloc d) (\<lambda>d.
     rbind (btf_dedup_compact_types alloc d) (\<lambda>d.
     rbind (btf_dedup_remap_types d) (\<lambda>d.
     Inr (ext', d))))))))"

definition btf__dedup :: "alloc \<Rightarrow> btf \<Rightarrow> btf_ext option \<Rightarrow> btf_dedup_opts option \<Rightarrow> (btf \<times> btf_ext option) result" where
  "btf__dedup alloc b ext opts =
     (case btf_dedup_new alloc b opts of
        Inl e \<Rightarrow> Inl (if e = OOB then OOB else EINVAL)
      | Inr d \<Rightarrow>
          (case btf_ensure_modifiable alloc b of
             (Inl e, _) \<Rightarrow> Inl (if e = OOB then OOB else ENOMEM)
           | (Inr _, b1) \<Rightarrow>
               rbind (dedup_passes alloc ext (d\<lparr>dd_btf := b1\<rparr>)) (\<lambda>(ext', d1).
               Inr (upd_own (store_types (dd_types d1)) (dd_btf d1), ext'))))"

end
