(* ===== verification/Dedup_Equiv.thy ===== *)
theory Dedup_Equiv
  imports Btf_Dedup
begin

text \<open>
  The comparison of two type graphs in the deduplication: what a successful comparison means, and that it ends.
\<close>

subsection \<open>What a comparison keeps\<close>

definition same_graph :: "btf_dedup \<Rightarrow> btf_dedup \<Rightarrow> bool" where
  "same_graph d d' \<longleftrightarrow>
     dd_btf d' = dd_btf d \<and> dd_types d' = dd_types d \<and> dd_map d' = dd_map d \<and> dd_table d' = dd_table d \<and>
     dd_dont_resolve_fwds d' = dd_dont_resolve_fwds d"

lemma same_graph_refl [simp]: "same_graph d d"
  by (simp add: same_graph_def)

lemma same_graph_trans: "same_graph d d1 \<Longrightarrow> same_graph d1 d2 \<Longrightarrow> same_graph d d2"
  by (simp add: same_graph_def)

lemma same_graph_lookups:
  assumes "same_graph d d'"
  shows "dedup_type d' = dedup_type d" "resolve_type_id d' = resolve_type_id d" "resolve_fwd_id d' = resolve_fwd_id d"
    "btf_dedup_identical_arrays d' = btf_dedup_identical_arrays d" "dd_start d' = dd_start d"
    "dd_dont_resolve_fwds d' = dd_dont_resolve_fwds d"
proof -
  show t: "dedup_type d' = dedup_type d" using assms by (auto simp: fun_eq_iff dedup_type_def same_graph_def dd_start_def)
  show r: "resolve_type_id d' = resolve_type_id d" using assms by (auto simp: fun_eq_iff resolve_type_id_def same_graph_def)
  show "resolve_fwd_id d' = resolve_fwd_id d" by (intro ext) (simp add: resolve_fwd_id_def t r cong: if_cong)
  show "btf_dedup_identical_arrays d' = btf_dedup_identical_arrays d"
    by (simp add: fun_eq_iff btf_dedup_identical_arrays_def t)
  show "dd_start d' = dd_start d" "dd_dont_resolve_fwds d' = dd_dont_resolve_fwds d"
    using assms by (simp_all add: same_graph_def dd_start_def)
qed

text \<open>The assumptions the comparison has made: the types of the canonical graph that have a counterpart.\<close>

definition hypot :: "btf_dedup \<Rightarrow> nat \<Rightarrow> nat option" where
  "hypot d k = (if k < length (hypot_map d) \<and> hypot_map d ! k \<le> BTF_MAX_NR_TYPES then Some (hypot_map d ! k) else None)"

definition extends :: "btf_dedup \<Rightarrow> btf_dedup \<Rightarrow> bool" where
  "extends d d' \<longleftrightarrow> same_graph d d' \<and> hypot d \<subseteq>\<^sub>m hypot d' \<and> length (hypot_map d') = length (hypot_map d)"

lemma extends_refl [simp]: "extends d d"
  by (simp add: extends_def)

lemma extends_trans: "extends d d1 \<Longrightarrow> extends d1 d2 \<Longrightarrow> extends d d2"
  by (auto simp: extends_def intro: same_graph_trans map_le_trans)

lemmas extends_lookups = same_graph_lookups [OF conjunct1 [OF iffD1 [OF extends_def]]]

text \<open>
  Two types are covered if they have the same representative, or the assumptions relate them, where a declaration
  stands for what it is resolved to, and an array for its identical copies.
\<close>

definition covered :: "btf_dedup \<Rightarrow> nat \<Rightarrow> nat \<Rightarrow> bool" where
  "covered d c k \<longleftrightarrow>
     (\<exists>r. resolve_type_id d c = Inr r \<and> resolve_type_id d k = Inr r) \<or>
     (\<exists>k' h. resolve_fwd_id d k = Inr k' \<and> hypot d k' = Some h \<and> (h = c \<or> btf_dedup_identical_arrays d h c = Inr True))"

definition fwd_pair :: "btf_dedup \<Rightarrow> btf_type \<Rightarrow> btf_type \<Rightarrow> bool" where
  "fwd_pair d ct kt \<longleftrightarrow>
     \<not> dd_dont_resolve_fwds d \<and> (btf_is_fwd ct \<or> btf_is_fwd kt) \<and> btf_kind ct \<noteq> btf_kind kt"

definition matches :: "btf_dedup \<Rightarrow> nat \<Rightarrow> nat \<Rightarrow> bool" where
  "matches d c k \<longleftrightarrow>
     (\<exists>ct kt. dedup_type d c = Inr ct \<and> dedup_type d k = Inr kt \<and> name_off ct = name_off kt \<and>
        (if fwd_pair d ct kt then fwd_kind_of (if btf_is_fwd ct then ct else kt) = btf_kind (if btf_is_fwd ct then kt else ct)
         else btf_kind ct = btf_kind kt \<and>
              (\<exists>ps. equiv_refs (dd_dont_resolve_fwds d) ct kt = Inr (Some ps) \<and> (\<forall>(c', k') \<in> set ps. covered d c' k'))))"

lemma covered_mono: "extends d d' \<Longrightarrow> covered d c k \<Longrightarrow> covered d' c k"
  unfolding covered_def using extends_lookups [of d d'] by (auto simp: extends_def map_le_def dom_def)

lemma matches_mono:
  assumes "extends d d'" "matches d c k"
  shows "matches d' c k"
proof -
  have "fwd_pair d' = fwd_pair d" using extends_lookups [OF assms(1)] by (simp add: fun_eq_iff fwd_pair_def)
  then show ?thesis
    using assms(2) extends_lookups [OF assms(1)] covered_mono [OF assms(1)] unfolding matches_def by (fastforce split: if_splits)
qed

text \<open>All assumptions beyond those of \<open>d\<close> are justified.\<close>

definition new_match :: "btf_dedup \<Rightarrow> btf_dedup \<Rightarrow> bool" where
  "new_match d d' \<longleftrightarrow> (\<forall>k c. hypot d' k = Some c \<and> hypot d k = None \<longrightarrow> matches d' c k)"

lemma new_match_refl [simp]: "new_match d d"
  by (auto simp: new_match_def)

lemma new_match_trans:
  assumes "new_match d d1" "new_match d1 d2" "extends d1 d2"
  shows "new_match d d2"
  unfolding new_match_def
proof (intro allI impI)
  fix k c
  assume k: "hypot d2 k = Some c \<and> hypot d k = None"
  show "matches d2 c k"
  proof (cases "hypot d1 k")
    case None
    then show ?thesis using assms(2) k by (simp add: new_match_def)
  next
    case (Some c')
    then have "c' = c" using assms(3) k by (auto simp: extends_def map_le_def dom_def)
    then show ?thesis using assms(1) Some k matches_mono [OF assms(3)] by (simp add: new_match_def)
  qed
qed

text \<open>The ids of types are small enough to be told from the marks of the maps.\<close>

definition small :: "btf_dedup \<Rightarrow> bool" where
  "small d \<longleftrightarrow> dd_start d + length (dd_types d) \<le> BTF_MAX_NR_TYPES \<and> 0 < dd_start d"

lemma small_type: "small d \<Longrightarrow> dedup_type d c = Inr t \<Longrightarrow> c \<le> BTF_MAX_NR_TYPES"
  by (auto simp: small_def dedup_type_def array_get_def split: if_splits)

lemma hypot_map_add_facts:
  assumes "btf_dedup_hypot_map_add alloc k c d = Inr d1"
  shows "same_graph d d1" "hypot_map d1 = (hypot_map d)[k := c]" "k < length (hypot_map d)"
  using assms by (auto simp: btf_dedup_hypot_map_add_def Let_def same_graph_def split: if_splits)

lemma hypot_add:
  assumes "btf_dedup_hypot_map_add alloc k c d = Inr d1" "c \<le> BTF_MAX_NR_TYPES"
  shows "hypot d1 = (hypot d)(k \<mapsto> c)"
  using hypot_map_add_facts [OF assms(1)] assms(2) by (auto simp: fun_eq_iff hypot_def)

lemma extends_add:
  assumes "btf_dedup_hypot_map_add alloc k c d = Inr d1" "c \<le> BTF_MAX_NR_TYPES" "hypot d k = None"
  shows "extends d d1"
  using hypot_add [OF assms(1,2)] hypot_map_add_facts [OF assms(1)] assms(3)
  by (auto simp: extends_def map_le_def)

lemma hypot_adjust [simp]: "hypot (d\<lparr>hypot_adjust_canon := b\<rparr>) = hypot d"
  by (simp add: fun_eq_iff hypot_def)

lemma extends_adjust [simp]: "extends d (d\<lparr>hypot_adjust_canon := b\<rparr>)"
  by (simp add: extends_def same_graph_def)

lemma new_match_adjust: "new_match d d1 \<Longrightarrow> new_match d (d1\<lparr>hypot_adjust_canon := b\<rparr>)"
  by (erule new_match_trans) (auto simp: new_match_def)

lemma extends_small: "extends d d' \<Longrightarrow> small d' = small d"
  by (simp add: extends_def small_def same_graph_def dd_start_def)

subsection \<open>A successful comparison\<close>

lemma equiv_list_ok:
  assumes "\<And>c k d d'. recur c k d = Inr (True, d') \<Longrightarrow> small d \<Longrightarrow> extends d d' \<and> new_match d d' \<and> covered d' c k"
    and "equiv_list recur ps d = Inr (True, d')" "small d"
  shows "extends d d' \<and> new_match d d' \<and> (\<forall>(c, k) \<in> set ps. covered d' c k)"
  using assms(2,3)
proof (induction ps arbitrary: d)
  case (Cons p ps)
  obtain c k where p: "p = (c, k)" by fastforce
  obtain d1 where d1: "recur c k d = Inr (True, d1)" "equiv_list recur ps d1 = Inr (True, d')"
    using Cons.prems(1) p by (auto simp: rbind_Inr_iff split: if_splits)
  note A = assms(1) [OF d1(1) Cons.prems(2)]
  then have "small d1" using extends_small Cons.prems(2) by blast
  note B = Cons.IH [OF d1(2) this]
  have "extends d d'" using A B extends_trans by blast
  moreover have "new_match d d'" using A B new_match_trans by blast
  moreover have "covered d' c k" using A B covered_mono by blast
  ultimately show ?case using B p by simp
qed simp

lemma equiv_types_ok:
  assumes rec: "\<And>c k d d'. recur c k d = Inr (True, d') \<Longrightarrow> small d \<Longrightarrow> extends d d' \<and> new_match d d' \<and> covered d' c k"
    and run: "equiv_types recur c k d = Inr (True, d')" and small: "small d"
  shows "extends d d' \<and> new_match d d' \<and> matches d' c k"
proof -
  obtain ct kt where t: "dedup_type d c = Inr ct" "dedup_type d k = Inr kt" "name_off ct = name_off kt"
    using run by (auto simp: equiv_types_def rbind_Inr_iff split: if_splits)
  show ?thesis
  proof (cases "fwd_pair d ct kt")
    case True
    then have f: "fwd_against d ct k kt = (True, d')"
      using run t by (auto simp: equiv_types_def fwd_pair_def)
    have e: "d' = d \<or> d' = d\<lparr>hypot_adjust_canon := True\<rparr>"
      using f by (auto simp: fwd_against_def Let_def split: if_splits)
    then have x: "extends d d'" "new_match d d'" using new_match_adjust [OF new_match_refl] by auto
    have k: "fwd_kind_of (if btf_is_fwd ct then ct else kt) = btf_kind (if btf_is_fwd ct then kt else ct)"
      using f by (auto simp: fwd_against_def Let_def btf_is_fwd_def split: if_splits)
    have "fwd_pair d' ct kt" using True extends_lookups [OF x(1)] by (simp add: fwd_pair_def)
    then show ?thesis using x t k extends_lookups [OF x(1)] unfolding matches_def by auto
  next
    case False
    then obtain ps where ps: "btf_kind ct = btf_kind kt" "equiv_refs (dd_dont_resolve_fwds d) ct kt = Inr (Some ps)"
        "equiv_list recur ps d = Inr (True, d')"
      using run t by (auto simp: equiv_types_def fwd_pair_def rbind_Inr_iff split: if_splits option.splits)
    note L = equiv_list_ok [OF rec ps(3) small]
    then have x: "extends d d'" by blast
    have "\<not> fwd_pair d' ct kt" using False extends_lookups [OF x] by (simp add: fwd_pair_def)
    then show ?thesis using L ps(1,2) t extends_lookups [OF x] unfolding matches_def by auto
  qed
qed

lemma is_equiv_ok:
  "is_equiv n alloc c k d = Inr (True, d') \<Longrightarrow> small d \<Longrightarrow> extends d d' \<and> new_match d d' \<and> covered d' c k"
proof (induction n arbitrary: c k d d')
  case (Suc n)
  obtain c1 c2 where r: "resolve_type_id d c = Inr c1" "resolve_type_id d k = Inr c2"
    using Suc.prems(1) by (auto simp: rbind_Inr_iff)
  show ?case
  proof (cases "c1 = c2")
    case True
    then show ?thesis using Suc.prems(1) r by (auto simp: covered_def)
  next
    case False
    then obtain k1 h where k1: "resolve_fwd_id d k = Inr k1" "k1 < length (hypot_map d)" "hypot_map d ! k1 = h"
      using Suc.prems(1) r by (auto simp: rbind_Inr_iff array_get_iff)
    show ?thesis
    proof (cases "h \<le> BTF_MAX_NR_TYPES")
      case True
      then have h: "hypot d k1 = Some h" using k1 by (simp add: hypot_def)
      have "d' = d \<and> (h = c \<or> btf_dedup_identical_arrays d h c = Inr True)"
        using Suc.prems(1) r False k1 True by (auto simp: rbind_Inr_iff array_get_def split: if_splits)
      then show ?thesis using h k1(1) by (auto simp: covered_def)
    next
      case h: False
      then obtain d1 where d1: "btf_dedup_hypot_map_add alloc k1 c d = Inr d1" "equiv_types (is_equiv n alloc) c k1 d1 = Inr (True, d')"
        using Suc.prems(1) r False k1 by (auto simp: rbind_Inr_iff array_get_def)
      have sg: "same_graph d d1" using hypot_map_add_facts [OF d1(1)] by simp
      have small1: "small d1" using sg Suc.prems(2) by (simp add: small_def same_graph_def dd_start_def)
      obtain ct where "dedup_type d1 c = Inr ct" using d1(2) by (auto simp: equiv_types_def rbind_Inr_iff)
      then have c: "c \<le> BTF_MAX_NR_TYPES" using small_type small1 by blast
      note T = equiv_types_ok [OF Suc.IH d1(2) small1]
      have none: "hypot d k1 = None" using h k1 by (simp add: hypot_def)
      have e1: "extends d d1" using extends_add [OF d1(1) c none] .
      have hyp1: "hypot d1 = (hypot d)(k1 \<mapsto> c)" using hypot_add [OF d1(1) c] .
      have e: "extends d d'" using e1 T extends_trans by blast
      have hk: "hypot d' k1 = Some c" using T hyp1 by (auto simp: extends_def map_le_def dom_def)
      have nm: "new_match d d'"
        unfolding new_match_def
      proof (intro allI impI)
        fix k' c'
        assume a: "hypot d' k' = Some c' \<and> hypot d k' = None"
        show "matches d' c' k'"
        proof (cases "k' = k1")
          case True
          then show ?thesis using a hk T by simp
        next
          case False
          then show ?thesis using a hyp1 T by (simp add: new_match_def)
        qed
      qed
      have "covered d' c k" using hk k1(1) extends_lookups [OF e] by (auto simp: covered_def)
      then show ?thesis using e nm by blast
    qed
  qed
qed simp

text \<open>The state before a comparison: no assumption is made.\<close>

definition cleared :: "btf_dedup \<Rightarrow> bool" where
  "cleared d \<longleftrightarrow> (\<forall>h \<in> set (hypot_map d). h > BTF_MAX_NR_TYPES)"

lemma cleared_hypot: "cleared d \<Longrightarrow> hypot d k = None"
  unfolding cleared_def hypot_def using nth_mem [of k "hypot_map d"] by fastforce

subsection \<open>What it means\<close>

text \<open>
  Independently of the comparison: a type without the types it refers to, and these in their order. A declaration of a
  struct or union by its name agrees with the struct or union.
\<close>

definition bare_type :: "btf_type \<Rightarrow> btf_type" where
  "bare_type t = t\<lparr>
     size_type := (if btf_kind t \<in> {BTF_KIND_PTR, BTF_KIND_TYPEDEF, BTF_KIND_CONST, BTF_KIND_VOLATILE, BTF_KIND_RESTRICT,
                                   BTF_KIND_FUNC, BTF_KIND_FUNC_PROTO} then 0 else size_type t),
     vdata := (case vdata t of
                 VArray a \<Rightarrow> VArray (a\<lparr>a_type := 0, a_index_type := 0\<rparr>)
               | VMembers ms \<Rightarrow> VMembers (map (\<lambda>m. m\<lparr>m_type := 0\<rparr>) ms)
               | VParams ps \<Rightarrow> VParams (map (\<lambda>p. p\<lparr>btf_param_t.p_type := 0\<rparr>) ps)
               | v \<Rightarrow> v)\<rparr>"

definition referred :: "btf_type \<Rightarrow> u32 list" where
  "referred t =
     (if btf_kind t \<in> {BTF_KIND_PTR, BTF_KIND_TYPEDEF, BTF_KIND_CONST, BTF_KIND_VOLATILE, BTF_KIND_RESTRICT,
                       BTF_KIND_FUNC, BTF_KIND_FUNC_PROTO} then [size_type t] else []) @
     (case vdata t of
        VArray a \<Rightarrow> [a_index_type a, a_type a]
      | VMembers ms \<Rightarrow> map m_type ms
      | VParams ps \<Rightarrow> map btf_param_t.p_type ps
      | _ \<Rightarrow> [])"

definition declares :: "btf_type \<Rightarrow> btf_type \<Rightarrow> bool" where
  "declares f t \<longleftrightarrow> btf_kind f = BTF_KIND_FWD \<and> btf_kind t = (if btf_kflag f then BTF_KIND_UNION else BTF_KIND_STRUCT)"

definition declares_enum :: "btf_type \<Rightarrow> btf_type \<Rightarrow> bool" where
  "declares_enum f t \<longleftrightarrow>
     btf_kind f = BTF_KIND_ENUM \<and> btf_kind t = BTF_KIND_ENUM \<and> btf_vlen f = 0 \<and>
     info f AND 0xffff0000 = info t AND 0xffff0000 \<and> size_type f = size_type t"

definition related :: "btf_dedup \<Rightarrow> nat \<Rightarrow> nat \<Rightarrow> bool" where
  "related d c k \<longleftrightarrow>
     (\<exists>r. resolve_type_id d c = Inr r \<and> resolve_type_id d k = Inr r) \<or>
     (\<exists>k' h. resolve_fwd_id d k = Inr k' \<and> hypot d k' = Some h \<and>
        (h = c \<or> (\<exists>a. btf_is_array a \<and> dedup_type d h = Inr a \<and> dedup_type d c = Inr a)))"

definition agree :: "btf_dedup \<Rightarrow> nat \<Rightarrow> nat \<Rightarrow> bool" where
  "agree d c k \<longleftrightarrow>
     (\<exists>ct kt. dedup_type d c = Inr ct \<and> dedup_type d k = Inr kt \<and> name_off ct = name_off kt \<and>
        (bare_type ct = bare_type kt \<and> btf_kind ct \<notin> {BTF_KIND_VAR, BTF_KIND_DATASEC} \<and>
           list_all2 (\<lambda>x y. related d (unat x) (unat y)) (referred ct) (referred kt) \<or>
         \<not> dd_dont_resolve_fwds d \<and>
           (declares ct kt \<or> declares kt ct \<or> declares_enum ct kt \<or> declares_enum kt ct)))"

definition types_wf :: "btf_dedup \<Rightarrow> bool" where
  "types_wf d \<longleftrightarrow> (\<forall>i t. 0 < i \<and> dedup_type d i = Inr t \<longrightarrow> wf_type t)"

lemma types_wf_kind: "types_wf d \<Longrightarrow> dedup_type d i = Inr t \<Longrightarrow> btf_kind t \<noteq> BTF_KIND_UNKN \<Longrightarrow> wf_type t"
proof (cases "i = 0")
  case True
  assume "dedup_type d i = Inr t" "btf_kind t \<noteq> BTF_KIND_UNKN"
  then have "btf_kind btf_void \<noteq> BTF_KIND_UNKN" using True by (simp add: dedup_type_def)
  moreover have "btf_kind btf_void = BTF_KIND_UNKN" by code_simp
  ultimately show ?thesis by simp
qed (simp add: types_wf_def)

lemma identical_arrays_same:
  assumes "types_wf d" "btf_dedup_identical_arrays d h c = Inr True"
  shows "\<exists>a. btf_is_array a \<and> dedup_type d h = Inr a \<and> dedup_type d c = Inr a"
proof -
  obtain t1 t2 where t: "dedup_type d h = Inr t1" "dedup_type d c = Inr t2" "btf_is_array t1" "btf_is_array t2" "btf_equal_array t1 t2"
    using assms(2) by (auto simp: btf_dedup_identical_arrays_def rbind_Inr_iff)
  have "wf_type t1" "wf_type t2" using types_wf_kind [OF assms(1)] t(1-4) by (auto simp: btf_is_array_def)
  then have "t1 = t2" using t(3-5)
    by (auto simp: btf_is_array_def wf_type_def btf_equal_array_def btf_equal_common_def btf_array_def split: btf_vdata.splits
        intro!: btf_type.equality btf_array_t.equality)
  then show ?thesis using t by blast
qed

lemma covered_related: "types_wf d \<Longrightarrow> covered d c k \<Longrightarrow> related d c k"
  unfolding covered_def related_def using identical_arrays_same by blast

lemma members_bare:
  fixes ms ns :: "btf_member_t list"
  shows "list_all2 (\<lambda>m1 m2. m_name_off m1 = m_name_off m2 \<and> m_offset m1 = m_offset m2) ms ns \<Longrightarrow>
   map (\<lambda>m. m\<lparr>m_type := 0\<rparr>) ms = map (\<lambda>m. m\<lparr>m_type := 0\<rparr>) ns"
  by (induction rule: list_all2_induct) (auto intro: btf_member_t.equality)

lemma params_bare:
  fixes ps qs :: "btf_param_t list"
  shows "list_all2 (\<lambda>p1 p2. p_name_off p1 = p_name_off p2) ps qs \<Longrightarrow>
   map (\<lambda>p. p\<lparr>btf_param_t.p_type := 0\<rparr>) ps = map (\<lambda>p. p\<lparr>btf_param_t.p_type := 0\<rparr>) qs"
  by (induction rule: list_all2_induct) (auto intro: btf_param_t.equality)

lemma enums_same:
  fixes es fs :: "btf_enum_t list"
  shows "list_all2 (\<lambda>m1 m2. e_name_off m1 = e_name_off m2 \<and> e_val m1 = e_val m2) es fs \<Longrightarrow> es = fs"
  by (induction rule: list_all2_induct) (auto intro: btf_enum_t.equality)

lemma pairs_related:
  assumes "\<forall>(c, k) \<in> set (map (\<lambda>(x, y). type_pair (f x) (f y)) (zip xs ys)). P c k" "length xs = length ys"
  shows "list_all2 (\<lambda>a b. P (unat a) (unat b)) (map f xs) (map f ys)"
  using assms by (fastforce simp: list_all2_conv_all_nth set_zip type_pair_def)

lemma members_agree:
  assumes kind: "btf_kind ct = btf_kind kt" "btf_kind ct = BTF_KIND_STRUCT \<or> btf_kind ct = BTF_KIND_UNION"
    and wf: "wf_type ct" "wf_type kt" and eq: "btf_shallow_equal_struct ct kt"
    and P: "\<forall>(c, k) \<in> set (map (\<lambda>(m1, m2). type_pair (m_type m1) (m_type m2)) (zip (btf_members ct) (btf_members kt))). P c k"
  shows "bare_type ct = bare_type kt \<and> list_all2 (\<lambda>x y. P (unat x) (unat y)) (referred ct) (referred kt)"
proof -
  obtain ms ns where v: "vdata ct = VMembers ms" "vdata kt = VMembers ns"
    using kind wf by (cases "vdata ct"; cases "vdata kt") (auto simp: wf_type_def)
  have l: "list_all2 (\<lambda>m1 m2. m_name_off m1 = m_name_off m2 \<and> m_offset m1 = m_offset m2) ms ns"
    using eq v by (simp add: btf_shallow_equal_struct_def btf_members_def)
  have "list_all2 (\<lambda>x y. P (unat x) (unat y)) (map m_type ms) (map m_type ns)"
    using pairs_related [of m_type ms ns P] P v l list_all2_lengthD by (fastforce simp: btf_members_def)
  then show ?thesis using kind v eq members_bare [OF l]
    by (auto simp: bare_type_def referred_def btf_shallow_equal_struct_def btf_equal_common_def intro!: btf_type.equality)
qed

lemma equiv_refs_agree:
  assumes refs: "equiv_refs dont ct kt = Inr (Some ps)" and kind: "btf_kind ct = btf_kind kt" and name: "name_off ct = name_off kt"
    and wf: "wf_type ct" "wf_type kt" and P: "\<forall>(c, k) \<in> set ps. P c k"
  shows "bare_type ct = bare_type kt \<and> btf_kind ct \<notin> {BTF_KIND_VAR, BTF_KIND_DATASEC} \<and>
           list_all2 (\<lambda>x y. P (unat x) (unat y)) (referred ct) (referred kt) \<or>
         \<not> dont \<and> (declares_enum ct kt \<or> declares_enum kt ct)"
proof (cases "btf_kind ct")
  case BTF_KIND_INT
  then show ?thesis using assms
    by (auto simp: equiv_refs_def wf_type_def bare_type_def referred_def btf_equal_int_def btf_equal_common_def btf_int_data_def
        split: btf_vdata.splits if_splits intro!: btf_type.equality)
next
  case BTF_KIND_PTR
  then show ?thesis using assms
    by (auto simp: equiv_refs_def wf_type_def bare_type_def referred_def type_pair_def split: if_splits intro!: btf_type.equality)
next
  case BTF_KIND_ARRAY
  then show ?thesis using assms
    by (auto simp: equiv_refs_def wf_type_def bare_type_def referred_def type_pair_def btf_compat_array_def btf_equal_common_def btf_array_def
      split: btf_vdata.splits if_splits intro!: btf_type.equality btf_array_t.equality)
next
  case BTF_KIND_STRUCT
  then show ?thesis using members_agree [of ct kt] assms by (auto simp: equiv_refs_def split: if_splits)
next
  case BTF_KIND_UNION
  then show ?thesis using members_agree [of ct kt] assms by (auto simp: equiv_refs_def split: if_splits)
next
  case BTF_KIND_ENUM
  then show ?thesis using assms enums_same
    by (auto simp: equiv_refs_def wf_type_def bare_type_def referred_def declares_enum_def btf_compat_enum_def btf_equal_enum_def btf_is_enum_fwd_def
      btf_is_enum_def info_no_vlen_def btf_equal_common_def btf_enum_def
      split: btf_vdata.splits if_splits intro!: btf_type.equality)
next
  case BTF_KIND_FWD
  then show ?thesis using assms
    by (auto simp: equiv_refs_def wf_type_def bare_type_def referred_def btf_equal_common_def split: if_splits intro!: btf_type.equality)
next
  case BTF_KIND_TYPEDEF
  then show ?thesis using assms
    by (auto simp: equiv_refs_def wf_type_def bare_type_def referred_def type_pair_def split: if_splits intro!: btf_type.equality)
next
  case BTF_KIND_VOLATILE
  then show ?thesis using assms
    by (auto simp: equiv_refs_def wf_type_def bare_type_def referred_def type_pair_def split: if_splits intro!: btf_type.equality)
next
  case BTF_KIND_CONST
  then show ?thesis using assms
    by (auto simp: equiv_refs_def wf_type_def bare_type_def referred_def type_pair_def split: if_splits intro!: btf_type.equality)
next
  case BTF_KIND_RESTRICT
  then show ?thesis using assms
    by (auto simp: equiv_refs_def wf_type_def bare_type_def referred_def type_pair_def split: if_splits intro!: btf_type.equality)
next
  case BTF_KIND_FUNC
  then show ?thesis using assms
    by (auto simp: equiv_refs_def wf_type_def bare_type_def referred_def type_pair_def split: if_splits intro!: btf_type.equality)
next
  case BTF_KIND_FUNC_PROTO
  then obtain xs ys where v: "vdata ct = VParams xs" "vdata kt = VParams ys" using kind wf
    by (auto simp: wf_type_def split: btf_vdata.splits)
  have eq: "btf_compat_fnproto ct kt" and ps: "ps = type_pair (ref_type ct) (ref_type kt) #
      map (\<lambda>(x, y). type_pair (btf_param_t.p_type x) (btf_param_t.p_type y)) (zip xs ys)"
    using refs BTF_KIND_FUNC_PROTO v by (auto simp: equiv_refs_def btf_params_def split: if_splits)
  have l: "list_all2 (\<lambda>p1 p2. p_name_off p1 = p_name_off p2) xs ys"
    using eq v by (simp add: btf_compat_fnproto_def btf_params_def)
  then have "list_all2 (\<lambda>x y. P (unat x) (unat y)) (map btf_param_t.p_type xs) (map btf_param_t.p_type ys)"
    using P ps pairs_related [of btf_param_t.p_type xs ys P] list_all2_lengthD by fastforce
  then show ?thesis
    using BTF_KIND_FUNC_PROTO kind eq v P ps params_bare [OF l]
    by (auto simp: bare_type_def referred_def btf_compat_fnproto_def type_pair_def intro!: btf_type.equality)
qed (use assms in \<open>auto simp: equiv_refs_def\<close>)

lemma matches_agree:
  assumes "types_wf d" "matches d c k"
  shows "agree d c k"
proof -
  obtain ct kt where t: "dedup_type d c = Inr ct" "dedup_type d k = Inr kt" "name_off ct = name_off kt"
    using assms(2) by (auto simp: matches_def)
  show ?thesis
  proof (cases "fwd_pair d ct kt")
    case True
    then have "declares ct kt \<or> declares kt ct"
      using assms(2) t by (auto simp: matches_def declares_def fwd_kind_of_def btf_is_fwd_def fwd_pair_def split: if_splits)
    then show ?thesis using True t by (auto simp: agree_def fwd_pair_def)
  next
    case False
    then obtain ps where ps: "btf_kind ct = btf_kind kt" "equiv_refs (dd_dont_resolve_fwds d) ct kt = Inr (Some ps)"
        "\<forall>(c', k') \<in> set ps. related d c' k'"
      using assms t covered_related [OF assms(1)] by (fastforce simp: matches_def)
    have "btf_kind ct \<noteq> BTF_KIND_UNKN" using ps(2) by (auto simp: equiv_refs_def)
    then have "wf_type ct" "wf_type kt" using types_wf_kind [OF assms(1)] t ps(1) by auto
    then show ?thesis using equiv_refs_agree [OF ps(2,1) t(3)] ps(3) t unfolding agree_def by blast
  qed
qed

text \<open>
  C13. A successful \<^verbatim>\<open>btf_dedup_is_equiv\<close> has a reason: the two types are related, and the assumptions it leaves
  behind are a simulation. Every pair of types they relate has the same name, and either the two types are the same
  but for the types they refer to (\<open>bare_type\<close>: kind, flags, sizes, encodings, and the names, offsets, values and numbers
  of their elements), and the types they refer to, in their order, are pairwise related again; or, if declarations are
  resolved, one of them is a forward declaration and the other a struct or union of its kind, or one of them is an
  enumeration without enumerators and the other an enumeration of its size. Related is: of the same representative, or
  assumed to correspond, where a declaration stands for what it is resolved to and an array for its identical copies.
  The types and the map of representatives are unchanged.
\<close>

theorem btf_dedup_is_equiv_sound:
  assumes "btf_dedup_is_equiv alloc cand_id canon_id d = Inr (True, d')" "small d" "cleared d" "types_wf d"
  shows "same_graph d d' \<and> related d' cand_id canon_id \<and> (\<forall>c k. hypot d' k = Some c \<longrightarrow> agree d' c k)"
proof -
  have e: "extends d d' \<and> new_match d d' \<and> covered d' cand_id canon_id"
    using is_equiv_ok [OF assms(1) [unfolded btf_dedup_is_equiv_def] assms(2)] .
  then have "types_wf d'" using assms(4) extends_lookups(1) [of d d'] by (auto simp: types_wf_def)
  then show ?thesis
    using e matches_agree covered_related cleared_hypot [OF assms(3)] by (auto simp: extends_def new_match_def)
qed

subsection \<open>Termination\<close>

definition unmarked :: "btf_dedup \<Rightarrow> nat" where
  "unmarked d = card {k. k < length (hypot_map d) \<and> hypot d k = None}"

lemma unmarked_mono: "extends d d' \<Longrightarrow> unmarked d' \<le> unmarked d"
  unfolding unmarked_def extends_def by (rule card_mono) (auto simp: map_le_def dom_def)

lemma unmarked_add:
  assumes "btf_dedup_hypot_map_add alloc k c d = Inr d1" "c \<le> BTF_MAX_NR_TYPES" "hypot d k = None"
  shows "unmarked d1 < unmarked d"
  unfolding unmarked_def
proof (rule psubset_card_mono)
  show "{i. i < length (hypot_map d1) \<and> hypot d1 i = None} \<subset> {i. i < length (hypot_map d) \<and> hypot d i = None}"
    using hypot_add [OF assms(1,2)] hypot_map_add_facts [OF assms(1)] assms(3) by auto
qed simp

definition map_resolves :: "btf_dedup \<Rightarrow> bool" where
  "map_resolves d \<longleftrightarrow> (\<forall>i. resolve_type_id d i \<noteq> Inl NONTERM)"

lemma btf_type_at_returns: "btf_type_at bs off \<noteq> Inl NONTERM"
proof
  assume "btf_type_at bs off = Inl NONTERM"
  moreover have "read_words bs i n \<noteq> Inl NONTERM" for i n
    by (induction n arbitrary: i) (auto simp: result_simps read_u32.simps split: list.splits)
  moreover have "kind_size k n \<noteq> Inl NONTERM" for k n by (cases k) (simp_all add: kind_size_def)
  ultimately show False by (auto simp: btf_type_at_def btf_base_at_def result_simps btf_type_size_def)
qed

lemma btf_type_by_id_returns: "btf_type_by_id b i \<noteq> Inl NONTERM"
  by (induction b i rule: btf_type_by_id.induct) (auto simp: result_simps btf_type_at_returns split: if_splits option.splits)

lemma dedup_type_returns [simp]: "dedup_type d i \<noteq> Inl NONTERM"
  by (simp add: dedup_type_def result_simps btf_type_by_id_returns)

lemma equiv_refs_returns [simp]: "equiv_refs b t u \<noteq> Inl NONTERM"
  by (simp add: equiv_refs_def Let_def split: btf_kind_t.split)

lemma resolve_fwd_returns: "map_resolves d \<Longrightarrow> resolve_fwd_id d i \<noteq> Inl NONTERM"
  by (simp add: resolve_fwd_id_def map_resolves_def result_simps)

lemma equiv_list_returns:
  assumes "\<And>c k d d'. recur c k d = Inr (True, d') \<Longrightarrow> small d \<Longrightarrow> extends d d'"
    and "\<And>c k d. small d \<Longrightarrow> map_resolves d \<Longrightarrow> unmarked d < n \<Longrightarrow> recur c k d \<noteq> Inl NONTERM"
    and "small d" "map_resolves d" "unmarked d < n"
  shows "equiv_list recur ps d \<noteq> Inl NONTERM"
  using assms(3-5)
proof (induction ps arbitrary: d)
  case (Cons p ps)
  obtain c k where p: "p = (c, k)" by fastforce
  have "equiv_list recur ps d1 \<noteq> Inl NONTERM" if "recur c k d = Inr (True, d1)" for d1
  proof -
    have e: "extends d d1" using assms(1) [OF that Cons.prems(1)] .
    show ?thesis
      using Cons.IH [of d1] Cons.prems extends_small [OF e] extends_lookups(2) [OF e] unmarked_mono [OF e] by (simp add: map_resolves_def)
  qed
  then show ?case using assms(2) [OF Cons.prems, of c k] p by (auto simp: result_simps split: if_splits)
qed simp

lemma is_equiv_returns:
  "small d \<Longrightarrow> map_resolves d \<Longrightarrow> unmarked d < n \<Longrightarrow> is_equiv n alloc c k d \<noteq> Inl NONTERM"
proof (induction n arbitrary: c k d)
  case (Suc n)
  have types: "equiv_types (is_equiv n alloc) c k1 d1 \<noteq> Inl NONTERM"
    if add: "btf_dedup_hypot_map_add alloc k1 c d = Inr d1" and none: "hypot d k1 = None" for k1 d1
  proof (cases "\<exists>ct. dedup_type d1 c = Inr ct")
    case False
    then obtain e where "dedup_type d1 c = Inl e" using sum.exhaust_sel by metis
    moreover have "e \<noteq> NONTERM" using calculation by auto
    ultimately show ?thesis by (simp add: equiv_types_def)
  next
    case True
    have sg: "same_graph d d1" using hypot_map_add_facts [OF add] by simp
    have small1: "small d1" using sg Suc.prems(1) by (simp add: small_def same_graph_def dd_start_def)
    have res1: "map_resolves d1" using Suc.prems(2) same_graph_lookups(2) [OF sg] by (simp add: map_resolves_def)
    from True small1 have c: "c \<le> BTF_MAX_NR_TYPES" using small_type by blast
    have m1: "unmarked d1 < n" using unmarked_add [OF add c none] Suc.prems(3) by simp
    have "equiv_list (is_equiv n alloc) ps d1 \<noteq> Inl NONTERM" for ps
      using equiv_list_returns [of "is_equiv n alloc" n d1 ps] Suc.IH is_equiv_ok small1 res1 m1 by blast
    then show ?thesis by (auto simp: equiv_types_def result_simps split: if_splits option.splits)
  qed
  have none: "hypot d k1 = None" if "hypot_map d ! k1 = h" "\<not> h \<le> BTF_MAX_NR_TYPES" for k1 h
    using that by (simp add: hypot_def)
  have add: "btf_dedup_hypot_map_add alloc k1 c d \<noteq> Inl NONTERM" for k1
    by (simp add: btf_dedup_hypot_map_add_def Let_def)
  have arr: "btf_dedup_identical_arrays d i j \<noteq> Inl NONTERM" for i j
    by (simp add: btf_dedup_identical_arrays_def result_simps)
  have res: "resolve_type_id d i \<noteq> Inl NONTERM" for i using Suc.prems(2) by (simp add: map_resolves_def)
  note fwd = resolve_fwd_returns [OF Suc.prems(2)]
  show ?case
  proof
    assume "is_equiv (Suc n) alloc c k d = Inl NONTERM"
    then obtain k1 h where "array_get (hypot_map d) k1 = Inr h" "\<not> h \<le> BTF_MAX_NR_TYPES"
        "rbind (btf_dedup_hypot_map_add alloc k1 c d) (equiv_types (is_equiv n alloc) c k1) = Inl NONTERM"
      using res fwd arr by (auto simp: result_simps split: if_splits)
    then show False using types none add by (auto simp: result_simps)
  qed
qed simp

text \<open>
  C15. \<^verbatim>\<open>btf_dedup_is_equiv\<close> returns on every graph, also a cyclic one, as long as the map of representatives has no
  cycle: each call that goes deeper marks one more type.
\<close>

theorem btf_dedup_is_equiv_terminates:
  assumes "small d" "map_resolves d"
  shows "btf_dedup_is_equiv alloc cand_id canon_id d \<noteq> Inl NONTERM"
proof -
  have "unmarked d \<le> card {k. k < length (hypot_map d)}" unfolding unmarked_def by (rule card_mono) auto
  then show ?thesis unfolding btf_dedup_is_equiv_def by (intro is_equiv_returns [OF assms]) simp
qed

subsection \<open>Examples\<close>

text \<open>An integer and two copies of a struct with one member of it, before the second struct is deduplicated.\<close>

definition dx_int :: btf_type where
  "dx_int = \<lparr>name_off = 1, info = btf_type_info BTF_KIND_INT 0 False, size_type = 4, vdata = VInt 32\<rparr>"

definition dx_struct :: btf_type where
  "dx_struct = \<lparr>name_off = 5, info = btf_type_info BTF_KIND_STRUCT 1 False, size_type = 4,
     vdata = VMembers [\<lparr>m_name_off = 7, m_type = 1, m_offset = 0\<rparr>]\<rparr>"

definition dx_dedup :: btf_dedup where
  "dx_dedup = \<lparr>dd_btf = Btf (btf_calloc None) None, dd_types = [dx_int, dx_struct, dx_struct],
     dd_table = hashmap__init btf_dedup_identity_hash_fn btf_dedup_equal_fn (),
     dd_map = [0, 1, 2, BTF_UNPROCESSED_ID], hypot_map = replicate 4 BTF_UNPROCESSED_ID, hypot_list = [], hypot_cap = 0,
     hypot_adjust_canon = False, dd_dont_resolve_fwds = False\<rparr>"

lemma dx_small: "small dx_dedup" "cleared dx_dedup"
  by (simp_all add: small_def cleared_def dx_dedup_def dd_start_def btf_calloc_def BTF_MAX_NR_TYPES_def BTF_UNPROCESSED_ID_def)

lemma dx_kinds: "btf_kind dx_struct = BTF_KIND_STRUCT" "btf_is_fwd dx_struct = False" "btf_is_array dx_struct = False"
  unfolding btf_is_fwd_def btf_is_array_def by code_simp+

lemma dx_types: "dedup_type dx_dedup 2 = Inr dx_struct" "dedup_type dx_dedup 3 = Inr dx_struct"
  by (simp_all add: dedup_type_def dx_dedup_def dd_start_def btf_calloc_def array_get_def)

lemma dx_resolve: "resolve_type_id dx_dedup 1 = Inr 1" "resolve_type_id dx_dedup 2 = Inr 2" "resolve_type_id dx_dedup 3 = Inr 3"
  by (simp_all add: resolve_type_id_def dx_dedup_def is_type_mapped_def array_get_def BTF_MAX_NR_TYPES_def BTF_UNPROCESSED_ID_def)

lemma dx_refs: "equiv_refs False dx_struct dx_struct = Inr (Some [(1, 1)])"
proof -
  have m: "btf_members dx_struct = [\<lparr>m_name_off = 7, m_type = 1, m_offset = 0\<rparr>]" by (simp add: btf_members_def dx_struct_def)
  show ?thesis
    unfolding equiv_refs_def dx_kinds Let_def btf_kind_t.case
    by (simp add: btf_shallow_equal_struct_def btf_equal_common_def m type_pair_def)
qed

lemma dx_equiv: "\<exists>d'. btf_dedup_is_equiv served 3 2 dx_dedup = Inr (True, d')"
proof -
  have fwd: "resolve_fwd_id dx_dedup 2 = Inr 2" by (simp add: resolve_fwd_id_def dx_types dx_kinds)
  have hyp: "length (hypot_map dx_dedup) = 4" "hypot_map dx_dedup ! 2 = BTF_UNPROCESSED_ID" "\<not> BTF_UNPROCESSED_ID \<le> BTF_MAX_NR_TYPES"
    by (simp_all add: dx_dedup_def BTF_MAX_NR_TYPES_def BTF_UNPROCESSED_ID_def)
  obtain d1 where d1: "btf_dedup_hypot_map_add served 2 3 dx_dedup = Inr d1"
    by (simp add: btf_dedup_hypot_map_add_def Let_def hyp libbpf_reallocarray_def) (simp add: dx_dedup_def)
  note sg = hypot_map_add_facts(1) [OF d1]
  have l: "dd_dont_resolve_fwds d1 = False" using sg by (simp add: same_graph_def dx_dedup_def)
  have int: "is_equiv (Suc n) served 1 1 d1 = Inr (True, d1)" for n
    using dx_resolve(1) same_graph_lookups(2) [OF sg] by simp
  have "is_equiv 4 served 1 1 d1 = Inr (True, d1)" by (subst numeral_eq_Suc) (rule int)
  then have "equiv_types (is_equiv 4 served) 3 2 d1 = Inr (True, d1)"
    using dx_types same_graph_lookups(1) [OF sg] by (simp add: equiv_types_def dx_kinds l dx_refs)
  then show ?thesis
    unfolding btf_dedup_is_equiv_def hyp is_equiv.simps(2) by (simp add: dx_resolve fwd array_get_def hyp d1)
qed

lemma dx_types_wf: "types_wf dx_dedup"
  unfolding types_wf_def
proof (intro allI impI)
  fix i t
  assume "0 < i \<and> dedup_type dx_dedup i = Inr t"
  then have "t = dx_int \<or> t = dx_struct"
    by (auto simp: dedup_type_def dx_dedup_def dd_start_def btf_calloc_def array_get_def nth_Cons split: if_splits nat.splits)
  moreover have "wf_type dx_int" "wf_type dx_struct" by code_simp+
  ultimately show "wf_type t" by blast
qed

theorem btf_dedup_is_equiv_sound_witness:
  "\<exists>d'. btf_dedup_is_equiv served 3 2 dx_dedup = Inr (True, d') \<and> related d' 3 2 \<and>
     (\<forall>c k. hypot d' k = Some c \<longrightarrow> agree d' c k)"
proof -
  obtain d' where "btf_dedup_is_equiv served 3 2 dx_dedup = Inr (True, d')" using dx_equiv by blast
  with btf_dedup_is_equiv_sound [OF this dx_small dx_types_wf] show ?thesis by blast
qed

lemma dx_resolves: "map_resolves dx_dedup"
  by (simp add: map_resolves_def resolve_type_id_def dx_dedup_def is_type_mapped_def array_get_def result_simps nth_Cons split: nat.split)

theorem btf_dedup_is_equiv_terminates_witness:
  "\<forall>alloc c k. btf_dedup_is_equiv alloc c k dx_dedup \<noteq> Inl NONTERM"
  using btf_dedup_is_equiv_terminates [OF dx_small(1) dx_resolves] by blast

end
