(* ===== verification/Dedup_Strings.thy ===== *)
theory Dedup_Strings
  imports Dedup_Equiv
begin

text \<open>
  The first pass of the deduplication: every string offset of a type is replaced by one that stands for the same
  string in the new section, which holds each string once.
\<close>

subsection \<open>The new section\<close>

definition distinct_strs :: "btf \<Rightarrow> bool" where
  "distinct_strs b \<longleftrightarrow>
     (\<forall>i j. str_start (strs_data (own b)) i \<and> str_start (strs_data (own b)) j \<and>
        cstr (drop i (strs_data (own b))) = cstr (drop j (strs_data (own b))) \<longrightarrow> i = j)"

text \<open>\<open>sb\<close> is the object with the section under construction.\<close>

definition strs_of :: "btf \<Rightarrow> btf_type list \<Rightarrow> btf \<Rightarrow> bool" where
  "strs_of b ts sb \<longleftrightarrow>
     btf_inv sb ts \<and> start_id (own sb) = start_id (own b) \<and> start_str_off (own sb) = start_str_off (own b) \<and>
     (base_btf sb = None) = (base_btf b = None) \<and> distinct_strs sb \<and>
     (\<forall>off < start_str_off (own b). btf__str_by_offset sb off = btf__str_by_offset b off)"

lemma str_start_less: "str_start strs i \<Longrightarrow> i < length strs"
  by (simp add: str_start_def)

lemma strs_init_index:
  assumes "r = hashmap__insert alloc (hashmap__init strs_hash_fn strs_hash_equal_fn [NUL]) 0 0 HASHMAP_ADD" "ins_err r = None"
  shows "index_wf [NUL] (ins_map r)" "index_complete [NUL] 1 (ins_map r)"
proof -
  have s: "str_start [NUL] 0" by (simp add: str_start_def)
  note I = index_insert [OF index_wf_init s assms(1)]
  show "index_wf [NUL] (ins_map r)" by (rule I(1))
  show "index_complete [NUL] 1 (ins_map r)" using I(2) [OF assms(2)] by (simp add: index_complete_def)
qed

lemma dedup_strs_init_ok:
  assumes inv: "btf_inv b ts" "modifiable (own b)" and run: "dedup_strs_init alloc b = Inr sb"
  shows "strs_of b ts sb"
proof -
  let ?m = "hashmap__init strs_hash_fn strs_hash_equal_fn ([] :: string)"
  have own: "own_inv (base_btf b \<noteq> None) (own b) ts" using inv by (simp add: btf_inv_def)
  have cap: "types_data_cap (own b) \<le> UINT_MAX" using own inv(2) by (simp add: own_inv_def index_ok_def)
  obtain m strs c where d: "own sb = (own b)\<lparr>strs_data := strs, strs_data_cap := c, hdr := (hdr (own b))\<lparr>str_len := of_nat (length strs)\<rparr>, strs_hash := Some m\<rparr>"
      "base_btf sb = base_btf b" "strs = (if base_btf b = None then [NUL] else [])" "c \<le> BTF_MAX_STR_OFFSET + 1"
      "index_wf strs (m\<lparr>ctx := strs\<rparr>)" "index_complete strs (length strs) (m\<lparr>ctx := strs\<rparr>)"
  proof (cases "base_btf b")
    case None
    obtain cp r where x: "btf_add_mem alloc 0 1 0 BTF_MAX_STR_OFFSET 1 = Some cp"
        "r = hashmap__insert alloc (hashmap__init strs_hash_fn strs_hash_equal_fn [NUL]) 0 0 HASHMAP_ADD" "ins_err r = None"
        "sb = upd_own (\<lambda>d. d\<lparr>strs_data := [NUL], strs_data_cap := cp, hdr := (hdr d)\<lparr>str_len := 1\<rparr>, strs_hash := Some (ins_map r)\<rparr>)
                (upd_own (\<lambda>d. (no_strs d)\<lparr>strs_hash := Some ?m\<rparr>) b)"
      using run None
      by (auto simp: dedup_strs_init_def hashmap__new_def hashmap__init_def Let_def rbind_Inr_iff deref_iff split: if_splits option.splits)
    have "ctx (ins_map r) = [NUL]" using strs_init_index(1) [OF x(2,3)] by (simp add: index_wf_def)
    then have "(ins_map r)\<lparr>ctx := [NUL]\<rparr> = ins_map r" by simp
    moreover have "cp \<le> BTF_MAX_STR_OFFSET + 1" using btf_add_mem_limit [OF x(1), of "BTF_MAX_STR_OFFSET + 1"] by simp
    ultimately show ?thesis
      using that [of "ins_map r" "[NUL]" cp] None x(4) strs_init_index [OF x(2,3)] by (simp add: no_strs_def upd_own_def)
  next
    case (Some b0)
    then have "sb = upd_own (\<lambda>d. (no_strs d)\<lparr>strs_hash := Some ?m\<rparr>) b"
      using run by (auto simp: dedup_strs_init_def hashmap__new_def Let_def rbind_Inr_iff split: if_splits)
    then show ?thesis
      using that [of ?m "[]" 0] Some index_wf_init [of "[]"] by (simp add: no_strs_def upd_own_def index_complete_def hashmap__init_def)
  qed
  have own': "own_inv (base_btf sb \<noteq> None) (own sb) ts"
    using own d(1-4) cap d(5,6)
    by (auto simp: own_inv_def btf_repr_def strs_ok_def index_ok_def hdr_bytes_def BTF_MAX_STR_OFFSET_def)
  have bi: "btf_inv sb ts" using btf_inv_frame [OF inv(1)] own' d(1,2) by simp
  have "btf__str_by_offset sb off = btf__str_by_offset b off" if "off < start_str_off (own b)" for off
    using that d(1,2) by (cases sb; cases b) simp
  moreover have "distinct_strs sb" using d(1,3) by (auto simp: distinct_strs_def dest!: str_start_less split: if_splits)
  ultimately show ?thesis using bi d(1,2) by (simp add: strs_of_def)
qed

subsection \<open>One offset\<close>

definition same_name :: "btf \<Rightarrow> btf \<Rightarrow> u32 \<Rightarrow> u32 \<Rightarrow> bool" where
  "same_name b b' n n' \<longleftrightarrow> (\<exists>s. btf__name_by_offset b n = Inr (Some s) \<and> btf__name_by_offset b' n' = Inr (Some s))"

lemma same_name_mono: "same_name b b1 n n' \<Longrightarrow> strs_kept b1 b2 \<Longrightarrow> same_name b b2 n n'"
  by (auto simp: same_name_def strs_kept_def btf__name_by_offset_def)

lemma base_strs_resolve:
  assumes "btf_inv b ts" "off < start_str_off (own b)"
  shows "\<exists>s. btf__str_by_offset b off = Inr (Some s)"
proof (cases "base_btf b")
  case None
  then show ?thesis using assms by (simp add: btf_inv_def)
next
  case (Some b0)
  obtain ts0 where b0: "own_inv False (own b0) ts0" "start_str_off (own b0) = 0" "start_str_off (own b) = length (strs_data (own b0))"
    using btf_inv_base [OF assms(1) Some] by metis
  show ?thesis using own_str_by_offset [OF b0(1), of off] assms(2) b0(2,3) Some by (cases b) auto
qed

lemma empty_str:
  assumes "btf_inv b ts" "base_btf b = None"
  shows "btf__str_by_offset b 0 = Inr (Some [])"
proof -
  have own: "own_inv False (own b) ts" and st: "start_str_off (own b) = 0" using assms by (simp_all add: btf_inv_def)
  then have s: "strs_data (own b) \<noteq> []" "hd (strs_data (own b)) = NUL" by (simp_all add: own_inv_def strs_ok_def)
  then have "cstr (strs_data (own b)) = []" by (cases "strs_data (own b)") (simp_all add: cstr_def)
  then show ?thesis using own_str_by_offset [OF own, of 0] s st by simp
qed

lemma distinct_strs_with:
  assumes "terminated (strs_data (own sb))" "distinct_strs sb" "no_such_str (own sb) s" "strs_data (own sb') = strs_with (own sb) s"
  shows "distinct_strs sb'"
proof -
  let ?old = "strs_data (own sb)" and ?new = "strs_with (own sb) s"
  have at_end: "cstr (drop (length ?old) ?new) = cstr s" by (simp add: strs_with_def)
  have keep: "cstr (drop i ?new) = cstr (drop i ?old)" if "str_start ?old i" for i
    using cstr_strs_with [OF assms(1)] str_start_less [OF that] by simp
  have "i = j" if "str_start ?new i" "str_start ?new j" "cstr (drop i ?new) = cstr (drop j ?new)" for i j
  proof -
    have i: "i = length ?old \<or> str_start ?old i" and j: "j = length ?old \<or> str_start ?old j"
      using strs_with_starts(2) [OF assms(1)] that(1,2) by blast+
    show ?thesis
    proof (cases "i = length ?old \<or> j = length ?old")
      case True
      then show ?thesis using i j that(3) keep at_end assms(3) by (auto simp: no_such_str_def)
    next
      case False
      then show ?thesis using i j that(3) keep assms(2) by (auto simp: distinct_strs_def)
    qed
  qed
  then show ?thesis using assms(4) by (simp add: distinct_strs_def)
qed

lemma add_str_of:
  assumes S: "strs_of b ts sb" and run: "btf__add_str alloc s sb = (Inr new_off, sb')" and inv: "btf_inv b ts"
  shows "strs_of b ts sb'" "strs_kept sb sb'" "btf__str_by_offset sb' new_off = Inr (Some (cstr s))"
proof -
  have sbi: "btf_inv sb ts" "distinct_strs sb" using S by (simp_all add: strs_of_def)
  note A = btf__add_str_ok [OF sbi(1) run]
  show kept: "strs_kept sb sb'" and "btf__str_by_offset sb' new_off = Inr (Some (cstr s))" using A by simp_all
  have ids: "start_id (own sb') = start_id (own sb)" "start_str_off (own sb') = start_str_off (own sb)" using A by (auto dest: frame_ids)
  have low: "btf__str_by_offset sb' off = btf__str_by_offset b off" if "off < start_str_off (own b)" for off
    using base_strs_resolve [OF inv that] S kept that by (auto simp: strs_of_def strs_kept_def)
  have nul: "terminated (strs_data (own sb))" using sbi(1) own_inv_terminated by (auto simp: btf_inv_def)
  have "distinct_strs sb'"
  proof (cases "str_present sb s")
    case True
    then show ?thesis using A sbi(2) by (simp add: distinct_strs_def)
  next
    case False
    then show ?thesis
      using distinct_strs_with [OF nul sbi(2), of s sb'] A by (simp add: str_present_def strs_with_def)
  qed
  then show "strs_of b ts sb'" using S A ids low by (simp add: strs_of_def)
qed

lemma str_off_small:
  assumes "btf_inv b ts" "btf__str_by_offset b off = Inr (Some s)"
  shows "off < 2 ^ 32"
proof -
  have max: "length (strs_data d) \<le> BTF_MAX_STR_OFFSET + 1 \<and> unat (str_len (hdr d)) = length (strs_data d)" if "own_inv h d x" for h d x
    using that by (simp add: own_inv_def strs_ok_def)
  obtain h where own: "own_inv h (own b) ts" using assms(1) by (auto simp: btf_inv_def)
  have start: "start_str_off (own b) \<le> BTF_MAX_STR_OFFSET + 1"
  proof (cases "base_btf b")
    case (Some b0)
    obtain ts0 where "own_inv False (own b0) ts0" "start_str_off (own b) = length (strs_data (own b0))"
      using btf_inv_base [OF assms(1) Some] by metis
    then show ?thesis using max by metis
  qed (use assms(1) in \<open>simp add: btf_inv_def\<close>)
  have "off < start_str_off (own b) \<or> off - start_str_off (own b) < length (strs_data (own b))"
    using assms(2) max [OF own] by (cases b) (auto split: if_splits)
  then show ?thesis using start max [OF own] by (auto simp: BTF_MAX_STR_OFFSET_def)
qed

lemma remap_str_off_ok:
  assumes inv: "btf_inv b ts" and S: "strs_of b ts sb" and run: "strs_dedup_remap_str_off alloc b n sb = Inr (n', sb')"
  shows "strs_of b ts sb' \<and> strs_kept sb sb' \<and> same_name b sb' n n'"
proof (cases "n = 0 \<or> unat n < start_str_off (own b)")
  case True
  then have r: "n' = n" "sb' = sb" using run by (auto simp: strs_dedup_remap_str_off_def)
  have "\<exists>s. btf__str_by_offset b (unat n) = Inr (Some s) \<and> btf__str_by_offset sb (unat n) = Inr (Some s)"
  proof (cases "unat n < start_str_off (own b)")
    case True
    then show ?thesis using base_strs_resolve [OF inv True] S by (auto simp: strs_of_def)
  next
    case False
    then have n: "n = 0" using \<open>n = 0 \<or> unat n < start_str_off (own b)\<close> by simp
    have "base_btf b = None"
    proof (rule ccontr)
      assume "base_btf b \<noteq> None"
      then obtain b0 ts0 where "own_inv False (own b0) ts0" "start_str_off (own b) = length (strs_data (own b0))"
        using btf_inv_base [OF inv] by (metis not_None_eq)
      then show False using False n by (simp add: own_inv_def strs_ok_def)
    qed
    then show ?thesis using empty_str [OF inv] empty_str [of sb ts] S n by (simp add: strs_of_def)
  qed
  then show ?thesis using r S by (simp add: same_name_def btf__name_by_offset_def)
next
  case False
  then obtain s where s1: "btf__str_by_offset b (unat n) = Inr (Some s)"
      "(case btf__add_str alloc s sb of (Inl e, _) \<Rightarrow> Inl e | (Inr new_off, sb') \<Rightarrow> Inr (of_nat new_off, sb')) = Inr (n', sb')"
    using run by (auto simp: strs_dedup_remap_str_off_def rbind_Inr_iff deref_iff)
  obtain r sb1 where add: "btf__add_str alloc s sb = (r, sb1)" by fastforce
  then obtain off where s: "btf__str_by_offset b (unat n) = Inr (Some s)" "btf__add_str alloc s sb = (Inr off, sb')" "n' = of_nat off"
    using s1 by (cases r) auto
  note A = add_str_of [OF S s(2) inv]
  have "cstr s = s"
  proof -
    have "s \<in> range cstr"
      using s(1)
      by (induction b "unat n" arbitrary: s rule: btf__str_by_offset.induct) (auto split: if_splits option.splits)
    then obtain m where m: "s = cstr m" by blast
    then have "cstring s" by simp
    then show ?thesis unfolding cstr_def cstring_def by (intro takeWhile_eq_all_conv [THEN iffD2]) auto
  qed
  moreover have "unat n' = off"
    using str_off_small [of sb' ts off] A(1,3) s(3) by (simp add: strs_of_def unat_of_nat take_bit_nat_eq_self_iff)
  ultimately have "same_name b sb' n n'" using s(1) A(3) by (simp add: same_name_def btf__name_by_offset_def)
  then show ?thesis using A(1,2) by simp
qed

subsection \<open>All offsets\<close>

text \<open>Nothing but the offsets of strings has changed, and these stand for the same strings.\<close>

definition same_type :: "btf \<Rightarrow> btf \<Rightarrow> btf_type \<Rightarrow> btf_type \<Rightarrow> bool" where
  "same_type b b' t t' \<longleftrightarrow>
     same_name b b' (name_off t) (name_off t') \<and> info t' = info t \<and> size_type t' = size_type t \<and>
     (if btf_is_composite t
      then \<exists>ms. vdata t' = VMembers ms \<and>
             list_all2 (\<lambda>m m'. same_name b b' (m_name_off m) (m_name_off m') \<and> m' = m\<lparr>m_name_off := m_name_off m'\<rparr>) (btf_members t) ms
      else if btf_is_enum t
      then \<exists>es. vdata t' = VEnums es \<and>
             list_all2 (\<lambda>m m'. same_name b b' (e_name_off m) (e_name_off m') \<and> m' = m\<lparr>e_name_off := e_name_off m'\<rparr>) (btf_enum t) es
      else if btf_is_func_proto t
      then \<exists>ps. vdata t' = VParams ps \<and>
             list_all2 (\<lambda>m m'. same_name b b' (p_name_off m) (p_name_off m') \<and> m' = m\<lparr>p_name_off := p_name_off m'\<rparr>) (btf_params t) ps
      else vdata t' = vdata t)"

lemma same_type_mono: "same_type b b1 t t' \<Longrightarrow> strs_kept b1 b2 \<Longrightarrow> same_type b b2 t t'"
  unfolding same_type_def using same_name_mono [of b b1 _ _ b2] by (auto elim!: list_all2_mono split: if_splits)

lemma remap_list_ok:
  assumes step: "\<And>x sb y sb'. strs_of b ts sb \<Longrightarrow> f x sb = Inr (y, sb') \<Longrightarrow> strs_of b ts sb' \<and> strs_kept sb sb' \<and> P sb' x y"
    and mono: "\<And>sb sb' x y. P sb x y \<Longrightarrow> strs_kept sb sb' \<Longrightarrow> P sb' x y"
    and run: "strs_of b ts sb" "remap_list f xs sb = Inr (ys, sb')"
  shows "strs_of b ts sb' \<and> strs_kept sb sb' \<and> list_all2 (P sb') xs ys"
  using run
proof (induction xs arbitrary: sb ys)
  case (Cons x xs)
  obtain y sb1 ys1 where r: "f x sb = Inr (y, sb1)" "remap_list f xs sb1 = Inr (ys1, sb')" "ys = y # ys1"
    using Cons.prems(2) by (auto simp: rbind_Inr_iff)
  note A = step [OF Cons.prems(1) r(1)]
  note B = Cons.IH [OF conjunct1 [OF A] r(2)]
  show ?case using A B mono strs_kept_trans r(3) by auto
qed simp

lemma remap_type_ok:
  assumes step: "\<And>n sb n' sb'. strs_of b ts sb \<Longrightarrow> f n sb = Inr (n', sb') \<Longrightarrow> strs_of b ts sb' \<and> strs_kept sb sb' \<and> same_name b sb' n n'"
    and S: "strs_of b ts sb" and run: "remap_type_strs f t sb = Inr (t', sb')"
  shows "strs_of b ts sb' \<and> strs_kept sb sb' \<and> same_type b sb' t t'"
proof -
  obtain n sb1 v where r: "f (name_off t) sb = Inr (n, sb1)" "remap_vdata f t sb1 = Inr (v, sb')" "t' = t\<lparr>name_off := n, vdata := v\<rparr>"
    using run by (auto simp: remap_type_strs_def rbind_Inr_iff)
  note N = step [OF S r(1)]
  note mono = same_name_mono
  have V: "strs_of b ts sb' \<and> strs_kept sb1 sb' \<and>
     (if btf_is_composite t
      then \<exists>ms. v = VMembers ms \<and>
             list_all2 (\<lambda>m m'. same_name b sb' (m_name_off m) (m_name_off m') \<and> m' = m\<lparr>m_name_off := m_name_off m'\<rparr>) (btf_members t) ms
      else if btf_is_enum t
      then \<exists>es. v = VEnums es \<and>
             list_all2 (\<lambda>m m'. same_name b sb' (e_name_off m) (e_name_off m') \<and> m' = m\<lparr>e_name_off := e_name_off m'\<rparr>) (btf_enum t) es
      else if btf_is_func_proto t
      then \<exists>ps. v = VParams ps \<and>
             list_all2 (\<lambda>m m'. same_name b sb' (p_name_off m) (p_name_off m') \<and> m' = m\<lparr>p_name_off := p_name_off m'\<rparr>) (btf_params t) ps
      else v = vdata t)" (is "?G v")
  proof (cases "btf_is_composite t")
    case True
    then obtain ms where ms: "remap_list (remap_member f) (btf_members t) sb1 = Inr (ms, sb')" "v = VMembers ms"
      using r(2) by (auto simp: remap_vdata_def rbind_Inr_iff)
    have "strs_of b ts sb' \<and> strs_kept sb1 sb' \<and>
        list_all2 (\<lambda>m m'. same_name b sb' (m_name_off m) (m_name_off m') \<and> m' = m\<lparr>m_name_off := m_name_off m'\<rparr>) (btf_members t) ms"
      by (rule remap_list_ok [where f = "remap_member f", OF _ _ conjunct1 [OF N] ms(1)])
        (auto simp: remap_member_def rbind_Inr_iff dest: step mono)
    then show ?thesis using True ms(2) by simp
  next
    case c: False
    show ?thesis
    proof (cases "btf_is_enum t")
      case True
      then obtain es where es: "remap_list (remap_enum f) (btf_enum t) sb1 = Inr (es, sb')" "v = VEnums es"
        using r(2) c by (auto simp: remap_vdata_def rbind_Inr_iff)
      have "strs_of b ts sb' \<and> strs_kept sb1 sb' \<and>
          list_all2 (\<lambda>m m'. same_name b sb' (e_name_off m) (e_name_off m') \<and> m' = m\<lparr>e_name_off := e_name_off m'\<rparr>) (btf_enum t) es"
        by (rule remap_list_ok [where f = "remap_enum f", OF _ _ conjunct1 [OF N] es(1)])
          (auto simp: remap_enum_def rbind_Inr_iff dest: step mono)
      then show ?thesis using True c es(2) by simp
    next
      case e: False
      show ?thesis
      proof (cases "btf_is_func_proto t")
        case True
        then obtain ps where ps: "remap_list (remap_param f) (btf_params t) sb1 = Inr (ps, sb')" "v = VParams ps"
          using r(2) c e by (auto simp: remap_vdata_def rbind_Inr_iff)
        have "strs_of b ts sb' \<and> strs_kept sb1 sb' \<and>
            list_all2 (\<lambda>m m'. same_name b sb' (p_name_off m) (p_name_off m') \<and> m' = m\<lparr>p_name_off := p_name_off m'\<rparr>) (btf_params t) ps"
          by (rule remap_list_ok [where f = "remap_param f", OF _ _ conjunct1 [OF N] ps(1)])
            (auto simp: remap_param_def rbind_Inr_iff dest: step mono)
        then show ?thesis using True c e ps(2) by simp
      next
        case False
        then show ?thesis using r(2) c e N by (simp add: remap_vdata_def)
      qed
    qed
  qed
  have "same_name b sb' (name_off t) n" using N V mono by blast
  then show ?thesis using N V r(3) strs_kept_trans [of sb sb1 sb'] by (simp add: same_type_def)
qed

lemma remap_at_ok:
  assumes step: "\<And>n sb n' sb'. strs_of b ts sb \<Longrightarrow> f n sb = Inr (n', sb') \<Longrightarrow> strs_of b ts sb' \<and> strs_kept sb sb'"
    and run: "strs_of b ts sb" "remap_at f ps (data, sb) = Inr (data', sb')"
  shows "strs_of b ts sb' \<and> strs_kept sb sb' \<and> length data' = length data"
  using run
proof (induction ps arbitrary: data sb)
  case (Cons p ps)
  obtain n n' sb1 data1 where r: "f n sb = Inr (n', sb1)" "write_u32 data p n' = Inr data1" "remap_at f ps (data1, sb1) = Inr (data', sb')"
    using Cons.prems(2) by (auto simp: rbind_Inr_iff)
  note A = step [OF Cons.prems(1) r(1)]
  note B = Cons.IH [OF conjunct1 [OF A] r(3)]
  have "length data1 = length data" using r(2) by (auto simp: write_u32_def split: if_splits)
  then show ?case using A B strs_kept_trans by metis
qed simp

lemma dedup_strings_ok:
  assumes inv: "btf_inv b ts" and mod: "modifiable (own b)" and todo: "\<not> strs_deduped (own b)"
    and run: "btf_dedup_strings alloc b us ext = Inr (us', ext', b')"
  shows "strs_of b ts b' \<and> list_all2 (same_type b b') us us'"
proof -
  let ?f = "strs_dedup_remap_str_off alloc b"
  obtain sb sb' where r: "dedup_strs_init alloc b = Inr sb" "btf_for_each_str_off ?f us ext sb = Inr (us', ext', sb')"
      "b' = upd_own (\<lambda>d. d\<lparr>strs_deduped := True\<rparr>) sb'"
    using run todo by (auto simp: btf_dedup_strings_def rbind_Inr_iff)
  note S = dedup_strs_init_ok [OF inv mod r(1)]
  note step = remap_str_off_ok [OF inv]
  obtain sb1 where l: "remap_list (remap_type_strs ?f) us sb = Inr (us', sb1)"
    using r(2) by (auto simp: btf_for_each_str_off_def rbind_Inr_iff Let_def split: option.splits)
  have L: "strs_of b ts sb1 \<and> strs_kept sb sb1 \<and> list_all2 (same_type b sb1) us us'"
    by (rule remap_list_ok [where f = "remap_type_strs ?f", OF remap_type_ok same_type_mono S l]) (use step in auto)
  have E: "strs_of b ts sb' \<and> strs_kept sb1 sb'"
  proof (cases ext)
    case None
    then show ?thesis using r(2) l L by (auto simp: btf_for_each_str_off_def)
  next
    case (Some e)
    then obtain ps data where "remap_at ?f ps (ext_data e, sb1) = Inr (data, sb')"
      using r(2) l by (auto simp: btf_for_each_str_off_def rbind_Inr_iff Let_def)
    then show ?thesis using remap_at_ok [of b ts ?f sb1 ps "ext_data e" data sb'] L step by blast
  qed
  have own: "own_inv h (d\<lparr>strs_deduped := True\<rparr>) ts = own_inv h d ts" for h d
    by (simp add: own_inv_def btf_repr_def strs_ok_def hdr_bytes_def index_ok_def)
  have str: "btf__str_by_offset b' off = btf__str_by_offset sb' off" for off by (cases sb') (simp add: r(3) upd_own_def)
  then have "strs_of b ts b'" "strs_kept sb' b'"
    using E by (auto simp: strs_of_def btf_inv_def own r(3) distinct_strs_def strs_kept_def split: option.splits)
  moreover have "same_type b b' t t'" if "same_type b sb1 t t'" for t t'
    using that same_type_mono E calculation(2) by blast
  ultimately show ?thesis using L by (auto elim: list_all2_mono)
qed

text \<open>
  C14. The string pass of the deduplication: the types are unchanged but for their string offsets, every offset
  resolves to the string it resolved to before, and the new string section holds each of its strings once.
\<close>

theorem btf_dedup_strings_correct:
  assumes "btf_inv b ts" "modifiable (own b)" "\<not> strs_deduped (own b)" "btf_dedup_strings alloc b ts ext = Inr (ts', ext', b')"
  shows "btf_inv b' ts \<and> distinct_strs b' \<and> list_all2 (same_type b b') ts ts'"
  using dedup_strings_ok [OF assms] by (simp add: strs_of_def)

subsection \<open>An example\<close>

lemma served_insert: "ins_err (hashmap__insert served m k v HASHMAP_ADD) \<in> {None, Some EEXIST}"
  by (auto simp: hashmap__insert_def Let_def hashmap_insert_new_def hashmap_grow_def split: option.splits prod.splits if_splits sum.splits)

lemma served_index_strs: "index_strs served strs off m \<noteq> Inl ENOMEM"
proof (induction "served" strs off m rule: index_strs.induct)
  case (1 strs off m)
  then show ?case using served_insert [of m off off] by (subst index_strs.simps) (auto simp: Let_def hashmap__add_def)
qed

text \<open>An object with one integer, as the parser gives it, and the same one opened for writing.\<close>

definition sx_int :: btf_type where
  "sx_int = \<lparr>name_off = 1, info = btf_type_info BTF_KIND_INT 0 False, size_type = 4, vdata = VInt 32\<rparr>"

definition sx_btf :: btf where
  "sx_btf = Btf ((btf_calloc None)\<lparr>hdr := hdr_zero\<lparr>hdr_len := 24, type_len := 16, str_len := 5\<rparr>, types_data := encode_type sx_int,
     type_offs := [0], nr_types := 1, strs_data := NUL # ''int'' @ [NUL]\<rparr>) None"

lemma sx_kind: "btf_kind sx_int = BTF_KIND_INT"
  by code_simp

lemma sx_inv: "btf_inv sx_btf [sx_int]"
proof -
  have "wf_type sx_int" by (simp add: wf_type_def sx_kind) (simp add: sx_int_def)
  moreover have "length (encode_type sx_int) = 16" by (simp add: encode_type_def sx_int_def)
  ultimately show ?thesis
    by (simp add: sx_btf_def btf_inv_def own_inv_def btf_repr_def strs_ok_def hdr_bytes_def btf_calloc_def hdr_zero_def
        sizeof_btf_header_def BTF_MAX_STR_OFFSET_def)
qed

lemma sx_open: "\<exists>b. btf_ensure_modifiable served sx_btf = (Inr (), b) \<and> btf_inv b [sx_int] \<and> modifiable (own b) \<and> \<not> strs_deduped (own b)
    \<and> strs_data (own b) = NUL # ''int'' @ [NUL] \<and> base_btf b = None"
proof -
  have own: "own_inv False (own sx_btf) [sx_int]" using sx_inv by (simp add: btf_inv_def sx_btf_def)
  obtain r b where run: "btf_ensure_modifiable served sx_btf = (r, b)" by fastforce
  note M = btf_ensure_modifiable_ok [OF own run]
  have "btf_split_regions served sx_btf \<noteq> Inl e" for e
  proof
    assume a: "btf_split_regions served sx_btf = Inl e"
    then have "e = ENOMEM" using btf_split_regions_ok [OF own, of served] by simp
    moreover have "length (encode_type sx_int) = 16" by (simp add: encode_type_def sx_int_def)
    ultimately show False
      using a served_index_strs
      by (auto simp: btf_split_regions_def Let_def sx_btf_def hashmap__new_def hdr_zero_def hdr_bytes_def btf_calloc_def
          sizeof_btf_header_def result_simps guard_def split: if_splits)
  qed
  then have "r = Inr () \<and> \<not> strs_deduped (own b)"
    using run by (auto simp: btf_ensure_modifiable_def btf_split_regions_def Let_def sx_btf_def btf_calloc_def hdr_zero_def rbind_Inr_iff
        upd_own_def btf_invalidate_raw_data_def split: sum.splits)
  moreover have "btf_inv b [sx_int]" using btf_inv_frame [OF sx_inv] M(1,2,3) by (auto simp: sx_btf_def dest: frame_ids)
  ultimately show ?thesis using M run by (auto simp: sx_btf_def)
qed

lemma served_insert_err:
  "e \<noteq> EEXIST \<Longrightarrow> ins_err (hashmap__insert served m k v HASHMAP_ADD) \<noteq> Some e"
  using served_insert [of m k v] by auto

lemma served_add_str:
  assumes "btf_inv b ts" "modifiable (own b)" "base_btf b = None" "length (strs_data (own b)) + length (cstr s) < 1000"
  shows "\<exists>n b'. btf__add_str served s b = (Inr n, b')"
proof -
  obtain r b' where run: "btf__add_str served s b = (r, b')" by fastforce
  have len: "unat (str_len (hdr (own b))) = length (strs_data (own b))"
    using assms(1) by (auto simp: btf_inv_def own_inv_def strs_ok_def)
  let ?b1 = "upd_own btf_invalidate_raw_data b"
  have "\<exists>c. btf_add_mem served (strs_data_cap (own b)) 1 (length (strs_data (own b))) BTF_MAX_STR_OFFSET (length (cstr s) + 1) = Some c"
    using assms(4) by (auto simp: btf_add_mem_def Let_def libbpf_reallocarray_def BTF_MAX_STR_OFFSET_def)
  then obtain c where c: "btf_add_str_mem served (length (cstr s) + 1) ?b1 = (Inr (), upd_own (\<lambda>d. d\<lparr>strs_data_cap := c\<rparr>) ?b1)"
    by (auto simp: btf_add_str_mem_def len btf_invalidate_raw_data_def)
  have "r \<noteq> Inl e" for e
    using run assms(2,3) c
    by (auto simp: btf__add_str_def add_str_own_def op_bind_def btf_ensure_modifiable_def add_str_insert_def Let_def served_insert_err split: option.splits if_splits)
  then show ?thesis using run by (cases r) auto
qed

lemma sx_strings:
  "\<exists>b n b'. btf_ensure_modifiable served sx_btf = (Inr (), b) \<and>
     btf_dedup_strings served b [sx_int] None = Inr ([sx_int\<lparr>name_off := of_nat n\<rparr>], None, b') \<and>
     btf_inv b [sx_int] \<and> modifiable (own b) \<and> \<not> strs_deduped (own b)"
proof -
  obtain b where b: "btf_ensure_modifiable served sx_btf = (Inr (), b)" "btf_inv b [sx_int]" "modifiable (own b)"
      "\<not> strs_deduped (own b)" "strs_data (own b) = NUL # ''int'' @ [NUL]" "base_btf b = None"
    using sx_open by blast
  have ins: "ins_err (hashmap__insert served (hashmap__init strs_hash_fn strs_hash_equal_fn [NUL]) (0::nat) (0::nat) HASHMAP_ADD) = None"
    by (simp add: hashmap__insert_def hashmap_find_entry_def hashmap__init_def hashmap_insert_new_def hashmap_needs_to_grow_def hashmap_grow_def HASHMAP_MIN_CAP_BITS_def Let_def)
  have add: "btf_add_mem served 0 1 0 BTF_MAX_STR_OFFSET 1 = Some 16"
    by (simp add: btf_add_mem_def BTF_MAX_STR_OFFSET_def libbpf_reallocarray_def)
  obtain sb where sb: "dedup_strs_init served b = Inr sb" "modifiable (own sb)" "strs_data (own sb) = [NUL]" "base_btf sb = None"
    using ins add b(3,6) by (auto simp: dedup_strs_init_def hashmap__new_def hashmap__init_def Let_def no_strs_def split: option.splits)
  have "btf_inv sb [sx_int]" using dedup_strs_init_ok [OF b(2,3) sb(1)] by (simp add: strs_of_def)
  then obtain n b1 where n: "btf__add_str served ''int'' sb = (Inr n, b1)"
    using served_add_str [of sb "[sx_int]" "''int''"] sb(2-4) by (auto simp: cstr_def)
  have len: "unat (str_len (hdr (own b))) = 5" using b(2,5) by (auto simp: btf_inv_def own_inv_def strs_ok_def)
  have start: "start_str_off (own b) = 0" using b(2,6) by (simp add: btf_inv_def)
  have "btf__str_by_offset b 1 = Inr (Some ''int'')" using len start b(5) by (cases b) (simp add: cstr_def)
  then have "remap_type_strs (strs_dedup_remap_str_off served b) sx_int sb = Inr (sx_int\<lparr>name_off := of_nat n\<rparr>, b1)"
    using n start by (simp add: remap_type_strs_def strs_dedup_remap_str_off_def remap_vdata_def btf_is_composite_def btf_is_enum_def btf_is_func_proto_def sx_kind)
      (simp add: sx_int_def)
  then have "btf_dedup_strings served b [sx_int] None =
      Inr ([sx_int\<lparr>name_off := of_nat n\<rparr>], None, upd_own (\<lambda>d. d\<lparr>strs_deduped := True\<rparr>) b1)"
    using sb(1) b(4) by (simp add: btf_dedup_strings_def btf_for_each_str_off_def)
  then show ?thesis using b(1-4) by blast
qed

theorem btf_dedup_strings_correct_witness:
  "\<exists>b t b'. btf_ensure_modifiable served sx_btf = (Inr (), b) \<and> btf_dedup_strings served b [sx_int] None = Inr ([t], None, b') \<and>
     btf_inv b' [sx_int] \<and> distinct_strs b' \<and> same_type b b' sx_int t"
proof -
  obtain b n b' where x: "btf_ensure_modifiable served sx_btf = (Inr (), b)"
      "btf_dedup_strings served b [sx_int] None = Inr ([sx_int\<lparr>name_off := of_nat n\<rparr>], None, b')"
      "btf_inv b [sx_int]" "modifiable (own b)" "\<not> strs_deduped (own b)"
    using sx_strings by blast
  show ?thesis using btf_dedup_strings_correct [OF x(3-5,2)] x(1,2) by auto
qed

end
