(* ===== verification/Dedup_Result.thy ===== *)
theory Dedup_Result
  imports Dedup_Strings "HOL-Library.Sublist"
begin

text \<open>
  The result of the deduplication: a well-formed BTF with some of the types of the original, in their order, under
  their names, and with references to types of the result only.
\<close>

subsection \<open>What the passes keep of a type\<close>

text \<open>Between the strings and the compaction a type changes in its references only.\<close>

definition same_head :: "btf_type \<Rightarrow> btf_type \<Rightarrow> bool" where
  "same_head t t' \<longleftrightarrow> info t' = info t \<and> name_off t' = name_off t"

lemma same_head_refl [simp]: "same_head t t"
  by (simp add: same_head_def)

lemma same_head_trans: "same_head t u \<Longrightarrow> same_head u v \<Longrightarrow> same_head t v"
  by (simp add: same_head_def)

definition all_wf :: "btf_dedup \<Rightarrow> bool" where
  "all_wf d \<longleftrightarrow> 0 < dd_start d \<and> (\<forall>t \<in> set (dd_types d). wf_type t)"

definition dd_keeps :: "btf_dedup \<Rightarrow> btf_dedup \<Rightarrow> bool" where
  "dd_keeps d d' \<longleftrightarrow> dd_btf d' = dd_btf d \<and> (all_wf d \<longrightarrow> all_wf d' \<and> list_all2 same_head (dd_types d) (dd_types d'))"

lemma dd_keeps_refl [simp]: "dd_keeps d d"
  by (simp add: dd_keeps_def list.rel_refl)

lemma same_heads_trans: "list_all2 same_head ts us \<Longrightarrow> list_all2 same_head us vs \<Longrightarrow> list_all2 same_head ts vs"
  by (rule list_all2_trans [OF same_head_trans])

lemma dd_keeps_trans: "dd_keeps d d1 \<Longrightarrow> dd_keeps d1 d2 \<Longrightarrow> dd_keeps d d2"
  by (auto simp: dd_keeps_def intro: same_heads_trans)

lemma dd_keeps_frame: "dd_btf d' = dd_btf d \<Longrightarrow> dd_types d' = dd_types d \<Longrightarrow> dd_keeps d d'"
  by (simp add: dd_keeps_def list.rel_refl dd_start_def all_wf_def)

lemma dd_keeps_set_map: "set_map i j d = Inr d' \<Longrightarrow> dd_keeps d d'"
  by (auto simp: set_map_def intro!: dd_keeps_frame split: if_splits)

lemma dd_keeps_table_add: "btf_dedup_table_add alloc h i d = Inr d' \<Longrightarrow> dd_keeps d d'"
  by (auto simp: btf_dedup_table_add_def Let_def intro!: dd_keeps_frame split: if_splits)

lemma dd_keeps_canonical: "set_canonical alloc i j h d = Inr d' \<Longrightarrow> dd_keeps d d'"
  by (auto simp: set_canonical_def rbind_Inr_iff split: if_splits dest!: dd_keeps_set_map dd_keeps_table_add intro: dd_keeps_trans)

lemma dd_keeps_for_types:
  assumes "\<And>i d d'. f i d = Inr d' \<Longrightarrow> dd_keeps d d'"
  shows "for_types f ids d = Inr d' \<Longrightarrow> dd_keeps d d'"
proof (induction ids arbitrary: d)
  case (Cons i ids)
  then obtain d1 where "f i d = Inr d1" "for_types f ids d1 = Inr d'" by (auto simp: rbind_Inr_iff)
  then show ?case using assms Cons.IH dd_keeps_trans by metis
qed simp

lemma dd_keeps_prep: "prep_types alloc ids d = Inr d' \<Longrightarrow> dd_keeps d d'"
proof (induction ids arbitrary: d)
  case (Cons i ids)
  then obtain d1 h where r: "set_map i i d = Inr d1"
    "(case h of None \<Rightarrow> prep_types alloc ids d1 | Some h \<Rightarrow> rbind (btf_dedup_table_add alloc h i d1) (prep_types alloc ids)) = Inr d'"
    by (auto simp: rbind_Inr_iff)
  obtain d2 where "dd_keeps d1 d2" "prep_types alloc ids d2 = Inr d'"
  proof (cases h)
    case None
    then show ?thesis using that [of d1] r(2) by simp
  next
    case (Some x)
    then obtain d2 where "btf_dedup_table_add alloc x i d1 = Inr d2" "prep_types alloc ids d2 = Inr d'"
      using r(2) by (auto simp: rbind_Inr_iff)
    then show ?thesis using that dd_keeps_table_add by metis
  qed
  then show ?case using dd_keeps_set_map [OF r(1)] Cons.IH dd_keeps_trans by metis
qed simp

lemma prep_types_frame: "prep_types alloc ids d = Inr d' \<Longrightarrow> dd_btf d' = dd_btf d \<and> dd_types d' = dd_types d"
proof (induction ids arbitrary: d)
  case (Cons i ids)
  then show ?case
    by (auto simp: rbind_Inr_iff set_map_def btf_dedup_table_add_def Let_def split: option.splits if_splits) (metis+)?
qed simp

lemma dd_keeps_find_enum: "find_enum i t cs d = Inr (j, d') \<Longrightarrow> dd_keeps d d'"
proof (induction cs arbitrary: d)
  case (Cons c cs)
  have "find_enum i t cs d = Inr (j, d') \<or> d' = d \<or> (\<exists>d1. set_map c i d = Inr d1 \<and> find_enum i t cs d1 = Inr (j, d'))"
    using Cons.prems by (auto simp: rbind_Inr_iff split: if_splits)
  then show ?case using Cons.IH dd_keeps_set_map dd_keeps_trans by (metis dd_keeps_refl)
qed simp

lemma dd_keeps_prim: "btf_dedup_prim_type alloc i d = Inr d' \<Longrightarrow> dd_keeps d d'"
proof -
  assume "btf_dedup_prim_type alloc i d = Inr d'"
  then have "d' = d \<or> (\<exists>j h. set_canonical alloc i j h d = Inr d') \<or>
      (\<exists>t cs j h d1. find_enum i t cs d = Inr (j, d1) \<and> set_canonical alloc i j h d1 = Inr d')"
    unfolding btf_dedup_prim_type_def Let_def rbind_Inr_iff
    by (elim exE conjE) (split btf_kind_t.split_asm; fastforce simp: rbind_Inr_iff)
  then show ?thesis using dd_keeps_canonical dd_keeps_find_enum dd_keeps_trans by (metis dd_keeps_refl)
qed

subsection \<open>Structs\<close>

text \<open>A comparison writes its own maps only, whatever its result.\<close>

lemma dd_keeps_equiv_list:
  assumes "\<And>c k d r d'. recur c k d = Inr (r, d') \<Longrightarrow> dd_keeps d d'"
  shows "equiv_list recur ps d = Inr (r, d') \<Longrightarrow> dd_keeps d d'"
proof (induction ps arbitrary: d)
  case (Cons p ps)
  obtain c k where p: "p = (c, k)" by fastforce
  show ?case using Cons.prems p by (auto simp: rbind_Inr_iff split: if_splits dest!: assms Cons.IH intro: dd_keeps_trans)
qed simp

lemma dd_keeps_is_equiv: "is_equiv n alloc c k d = Inr (r, d') \<Longrightarrow> dd_keeps d d'"
proof (induction n arbitrary: c k d r d')
  case (Suc n)
  have fwd: "dd_keeps d1 d2" if "fwd_against d1 ct k1 kt = (r2, d2)" for d1 d2 ct k1 kt r2
    using that by (auto simp: fwd_against_def Let_def intro!: dd_keeps_frame split: if_splits)
  have types: "dd_keeps d1 d2" if "equiv_types (is_equiv n alloc) c k1 d1 = Inr (r2, d2)" for k1 d1 d2 r2
    using that fwd dd_keeps_equiv_list [OF Suc.IH]
    by (auto simp: equiv_types_def rbind_Inr_iff split: if_splits option.splits)
  have add: "dd_keeps d1 d2" if "btf_dedup_hypot_map_add alloc k1 c d1 = Inr d2" for k1 d1 d2
    using hypot_map_add_facts(1) [OF that] by (simp add: same_graph_def dd_keeps_frame)
  show ?case using Suc.prems
    by (auto simp: rbind_Inr_iff split: if_splits dest!: types add intro: dd_keeps_trans)
qed simp

lemma dd_keeps_merge: "merge_one i d = Inr d' \<Longrightarrow> dd_keeps d d'"
  by (auto simp: merge_one_def rbind_Inr_iff split: if_splits dest!: dd_keeps_set_map intro: dd_keeps_trans)

lemma dd_keeps_clear: "dd_keeps d (btf_dedup_clear_hypot_map d)"
  by (simp add: btf_dedup_clear_hypot_map_def dd_keeps_frame)

lemma dd_keeps_struct_cands: "struct_cands alloc i t cs d = Inr (j, d') \<Longrightarrow> dd_keeps d d'"
proof (induction cs arbitrary: d)
  case (Cons c cs)
  obtain ct where ct: "dedup_type d c = Inr ct" using Cons.prems by (auto simp: rbind_Inr_iff)
  show ?case
  proof (cases "btf_shallow_equal_struct t ct")
    case False
    then show ?thesis using Cons ct by simp
  next
    case True
    obtain eq d1 where e: "btf_dedup_is_equiv alloc i c (btf_dedup_clear_hypot_map d) = Inr (eq, d1)"
        "(if \<not> eq then struct_cands alloc i t cs d1 else rbind (btf_dedup_merge_hypot_map d1) (\<lambda>d2.
               if hypot_adjust_canon d2 then struct_cands alloc i t cs d2 else Inr (c, d2))) = Inr (j, d')"
      using Cons.prems ct True by (auto simp: rbind_Inr_iff)
    have k1: "dd_keeps d d1"
      using dd_keeps_trans [OF dd_keeps_clear dd_keeps_is_equiv [OF e(1) [unfolded btf_dedup_is_equiv_def]]] .
    have m: "dd_keeps d1 d2" if "btf_dedup_merge_hypot_map d1 = Inr d2" for d2
      using dd_keeps_for_types [OF dd_keeps_merge that [unfolded btf_dedup_merge_hypot_map_def]] .
    have "dd_keeps d1 d'"
      using e(2) m by (auto simp: rbind_Inr_iff split: if_splits dest!: Cons.IH intro: dd_keeps_trans)
    then show ?thesis using k1 dd_keeps_trans by metis
  qed
qed simp

lemma dd_keeps_struct: "btf_dedup_struct_type alloc i d = Inr d' \<Longrightarrow> dd_keeps d d'"
  by (auto simp: btf_dedup_struct_type_def Let_def rbind_Inr_iff split: if_splits
      dest!: dd_keeps_canonical dd_keeps_struct_cands intro: dd_keeps_trans)

subsection \<open>Types that refer to others\<close>

lemma wf_type_same:
  assumes "btf_kind t' = btf_kind t" "btf_vlen t' = btf_vlen t" "vdata t' = vdata t"
  shows "wf_type t' = wf_type t"
  by (simp only: wf_type_def assms)

lemma with_refs_head:
  assumes "wf_type t" "dedup_refs t = Inr refs" "length ids = length refs"
  shows "same_head t (with_refs t ids)" "wf_type (with_refs t ids)"
proof -
  show "same_head t (with_refs t ids)" by (simp add: same_head_def with_refs_def)
  have k: "btf_kind (with_refs t ids) = btf_kind t" "btf_vlen (with_refs t ids) = btf_vlen t"
    by (simp_all add: with_refs_def btf_kind_def btf_vlen_def)
  show "wf_type (with_refs t ids)"
  proof (cases "btf_is_array t \<or> btf_is_func_proto t")
    case False
    then have "vdata (with_refs t ids) = vdata t" by (simp add: with_refs_def)
    then show ?thesis using assms(1) k wf_type_same by blast
  next
    case True
    then have "btf_kind t = BTF_KIND_ARRAY \<or> btf_kind t = BTF_KIND_FUNC_PROTO" by (simp add: btf_is_array_def btf_is_func_proto_def)
    then show ?thesis
    proof
      assume a: "btf_kind t = BTF_KIND_ARRAY"
      then show ?thesis using k unfolding wf_type_def by (simp add: with_refs_def btf_is_array_def)
    next
      assume f: "btf_kind t = BTF_KIND_FUNC_PROTO"
      then have "length (btf_params t) = btf_vlen t" "length ids = Suc (length (btf_params t))"
        using assms by (auto simp: wf_type_def btf_params_def dedup_refs_def split: btf_vdata.splits)
      then show ?thesis using f k unfolding wf_type_def
        by (simp add: with_refs_def btf_is_array_def btf_is_func_proto_def)
    qed
  qed
qed

lemma ref_list_length: "ref_list recur ids d = Inr (rs, d') \<Longrightarrow> length rs = length ids"
  by (induction ids arbitrary: d rs) (auto simp: rbind_Inr_iff)

lemma dd_keeps_ref_list:
  assumes "\<And>i d r d'. recur i d = Inr (r, d') \<Longrightarrow> dd_keeps d d'"
  shows "ref_list recur ids d = Inr (rs, d') \<Longrightarrow> dd_keeps d d'"
proof (induction ids arbitrary: d rs)
  case (Cons i ids)
  then obtain r rs1 d1 where "recur i d = Inr (r, d1)" "ref_list recur ids d1 = Inr (rs1, d')" by (auto simp: rbind_Inr_iff)
  then show ?case using assms Cons.IH dd_keeps_trans by metis
qed simp

lemma dd_keeps_set_type:
  assumes "dd_keeps d d2" "dedup_type d i = Inr t" "set_dedup_type i t' d2 = Inr d3"
    and "wf_type t \<Longrightarrow> same_head t t' \<and> wf_type t'"
  shows "dd_keeps d d3"
proof -
  have st: "dd_start d2 = dd_start d" using assms(1) by (simp add: dd_keeps_def dd_start_def)
  have i: "dd_start d \<le> i" "i - dd_start d < length (dd_types d2)" "d3 = d2\<lparr>dd_types := (dd_types d2)[i - dd_start d := t']\<rparr>"
    using assms(3) st by (auto simp: set_dedup_type_def split: if_splits)
  let ?i = "i - dd_start d"
  show ?thesis
    unfolding dd_keeps_def
  proof (intro conjI impI)
    show "dd_btf d3 = dd_btf d" using assms(1) i(3) by (simp add: dd_keeps_def)
    assume wf: "all_wf d"
    then have l: "all_wf d2" "list_all2 same_head (dd_types d) (dd_types d2)" using assms(1) by (simp_all add: dd_keeps_def)
    have t: "?i < length (dd_types d)" "dd_types d ! ?i = t"
      using assms(2) i(1) wf by (auto simp: all_wf_def dedup_type_def array_get_iff split: if_splits)
    then have n: "wf_type t'" "same_head (dd_types d ! ?i) t'" using wf assms(4) nth_mem by (auto simp: all_wf_def)
    have "set (dd_types d3) \<subseteq> insert t' (set (dd_types d2))" using i(3) set_update_subset_insert by simp
    then have "all_wf d3" using n(1) l(1) i(3) by (auto simp: all_wf_def dd_start_def)
    moreover have "list_all2 same_head (dd_types d) (dd_types d3)"
      using list_all2_update_cong [OF l(2) n(2), of ?i] i(3) by simp
    ultimately show "all_wf d3" "list_all2 same_head (dd_types d) (dd_types d3)" by simp_all
  qed
qed

lemma dd_keeps_ref_type: "ref_type_id n alloc i d = Inr (r, d') \<Longrightarrow> dd_keeps d d'"
proof (induction n arbitrary: i d r d')
  case (Suc n)
  obtain m where m: "array_get (dd_map d) i = Inr m" "m \<noteq> BTF_IN_PROGRESS_ID" using Suc.prems by (auto simp: rbind_Inr_iff split: if_splits)
  show ?case
  proof (cases "m \<le> BTF_MAX_NR_TYPES")
    case True
    then show ?thesis using Suc.prems m by (auto simp: rbind_Inr_iff)
  next
    case False
    then obtain t d1 refs ids d2 d3 j where s: "dedup_type d i = Inr t" "set_map i BTF_IN_PROGRESS_ID d = Inr d1"
        "dedup_refs t = Inr refs" "ref_list (ref_type_id n alloc) refs d1 = Inr (ids, d2)"
        "set_dedup_type i (with_refs t ids) d2 = Inr d3" "set_canonical alloc i j (ref_hash (with_refs t ids)) d3 = Inr d'"
      using Suc.prems m by (auto simp: rbind_Inr_iff Let_def)
    have "dd_keeps d d2" using dd_keeps_trans [OF dd_keeps_set_map [OF s(2)] dd_keeps_ref_list [OF Suc.IH s(4)]] .
    then have "dd_keeps d d3"
      by (rule dd_keeps_set_type [OF _ s(1) s(5)]) (use with_refs_head [OF _ s(3) ref_list_length [OF s(4)]] in simp)
    then show ?thesis using dd_keeps_canonical [OF s(6)] dd_keeps_trans by metis
  qed
qed simp

lemma dd_keeps_refs: "btf_dedup_ref_types alloc d = Inr d' \<Longrightarrow> dd_keeps d d'"
  unfolding btf_dedup_ref_types_def
  by (erule dd_keeps_for_types [rotated]) (auto simp: btf_dedup_ref_type_def rbind_Inr_iff simp del: ref_type_id.simps intro: dd_keeps_ref_type)

subsection \<open>Compaction and renumbering\<close>

lemma compact_from_ok:
  assumes "compact_from d [dd_start d + i..<dd_start d + length (dd_types d)] (hm, kept) = Inr (hm', kept')"
    "i \<le> length (dd_types d)" "0 < dd_start d"
  shows "\<exists>more. kept' = kept @ more \<and> subseq more (drop i (dd_types d)) \<and>
    set hm' \<subseteq> set hm \<union> {dd_start d + length kept..<dd_start d + length kept'}"
  using assms(1,2)
proof (induction "length (dd_types d) - i" arbitrary: i hm kept)
  case 0
  then show ?case by simp
next
  case (Suc n)
  let ?ids = "[dd_start d + Suc i..<dd_start d + length (dd_types d)]"
  have i: "i < length (dd_types d)" "n = length (dd_types d) - Suc i" using Suc.hyps(2) by simp_all
  have ids: "[dd_start d + i..<dd_start d + length (dd_types d)] = (dd_start d + i) # ?ids" using i by (simp add: upt_conv_Cons)
  have dr: "drop i (dd_types d) = dd_types d ! i # drop (Suc i) (dd_types d)" using i by (simp add: Cons_nth_drop_Suc)
  have ty: "dedup_type d (dd_start d + i) = Inr (dd_types d ! i)" using i assms(3) by (simp add: dedup_type_def array_get_def)
  note IH = Suc.hyps(1) [OF i(2)]
  consider (skip) "compact_from d ?ids (hm, kept) = Inr (hm', kept')"
    | (keep) "compact_from d ?ids (hm[dd_start d + i := dd_start d + length kept], kept @ [dd_types d ! i]) = Inr (hm', kept')"
    using Suc.prems(1) ty unfolding ids by (auto simp: rbind_Inr_iff split: if_splits)
  then show ?case
  proof cases
    case skip
    then show ?thesis using IH [OF skip] i(1) by (auto simp: dr)
  next
    case keep
    then obtain more where m: "kept' = (kept @ [dd_types d ! i]) @ more" "subseq more (drop (Suc i) (dd_types d))"
      "set hm' \<subseteq> set (hm[dd_start d + i := dd_start d + length kept]) \<union> {dd_start d + length (kept @ [dd_types d ! i])..<dd_start d + length kept'}"
      using IH [OF keep] i(1) by auto
    have "set (hm[dd_start d + i := dd_start d + length kept]) \<subseteq> insert (dd_start d + length kept) (set hm)"
      by (rule set_update_subset_insert)
    then have "set hm' \<subseteq> set hm \<union> {dd_start d + length kept..<dd_start d + length kept'}" using m(1,3) by fastforce
    then show ?thesis using m(1,2) dr by (intro exI [of _ "dd_types d ! i # more"]) auto
  qed
qed

text \<open>The ids a type refers to.\<close>

definition type_refs :: "btf_type \<Rightarrow> u32 list" where
  "type_refs t =
     (case btf_kind t of
        BTF_KIND_UNKN \<Rightarrow> []
      | BTF_KIND_INT \<Rightarrow> []
      | BTF_KIND_ENUM \<Rightarrow> []
      | BTF_KIND_ARRAY \<Rightarrow> [a_type (btf_array t), a_index_type (btf_array t)]
      | BTF_KIND_STRUCT \<Rightarrow> map m_type (btf_members t)
      | BTF_KIND_UNION \<Rightarrow> map m_type (btf_members t)
      | BTF_KIND_FUNC_PROTO \<Rightarrow> ref_type t # map btf_param_t.p_type (btf_params t)
      | BTF_KIND_DATASEC \<Rightarrow> map v_type (btf_var_secinfos t)
      | _ \<Rightarrow> [ref_type t])"

lemma result_list_ok:
  assumes "\<And>x y. f x = Inr y \<Longrightarrow> P y"
  shows "result_list f xs = Inr ys \<Longrightarrow> length ys = length xs \<and> (\<forall>y \<in> set ys. P y)"
  by (induction xs arbitrary: ys) (auto simp: rbind_Inr_iff assms)

lemma remap_refs_ok:
  assumes "wf_type t" "remap_refs f t = Inr u"
  shows "same_head t u" "wf_type u" "\<forall>r \<in> set (type_refs u). \<exists>x. f x = Inr r"
proof -
  have members: "length ms' = length ms \<and> (\<forall>m \<in> set ms'. \<exists>x. f x = Inr (m_type m))"
    if "result_list (\<lambda>m. rbind (f (m_type m)) (\<lambda>r. Inr (m\<lparr>m_type := r\<rparr>))) ms = Inr ms'" for ms ms'
    by (rule result_list_ok [OF _ that]) (auto simp: rbind_Inr_iff)
  have params: "length ps' = length ps \<and> (\<forall>p \<in> set ps'. \<exists>x. f x = Inr (btf_param_t.p_type p))"
    if "result_list (\<lambda>p. rbind (f (btf_param_t.p_type p)) (\<lambda>r. Inr (p\<lparr>p_type := r\<rparr>))) ps = Inr ps'" for ps ps'
    by (rule result_list_ok [OF _ that]) (auto simp: rbind_Inr_iff)
  have vars: "length vs' = length vs \<and> (\<forall>v \<in> set vs'. \<exists>x. f x = Inr (v_type v))"
    if "result_list (\<lambda>v. rbind (f (v_type v)) (\<lambda>r. Inr (v\<lparr>v_type := r\<rparr>))) vs = Inr vs'" for vs vs'
    by (rule result_list_ok [OF _ that]) (auto simp: rbind_Inr_iff)
  have i: "info u = info t \<and> name_off u = name_off t"
    using assms(2) by (auto simp: remap_refs_def Let_def rbind_Inr_iff split: btf_kind_t.splits)
  then show "same_head t u" by (simp add: same_head_def)
  have k: "btf_kind u = btf_kind t" "btf_vlen u = btf_vlen t" using i by (simp_all add: btf_kind_def btf_vlen_def)
  have "wf_type u \<and> (\<forall>r \<in> set (type_refs u). \<exists>x. f x = Inr r)"
  proof (cases "btf_kind t = BTF_KIND_ARRAY")
    case True
    then obtain r1 r2 where "f (a_type (btf_array t)) = Inr r1" "f (a_index_type (btf_array t)) = Inr r2"
        "u = t\<lparr>vdata := VArray ((btf_array t)\<lparr>a_type := r1, a_index_type := r2\<rparr>)\<rparr>"
      using assms(2) by (auto simp: remap_refs_def Let_def rbind_Inr_iff)
    then show ?thesis using True k(1) unfolding wf_type_def type_refs_def by (auto simp: btf_array_def)
  next
    case False
    then show ?thesis
      using assms k
      by (cases "btf_kind t")
        (auto simp: remap_refs_def Let_def rbind_Inr_iff wf_type_def type_refs_def btf_members_def btf_params_def
          btf_var_secinfos_def split: btf_vdata.splits dest!: members params vars)
  qed
  then show "wf_type u" "\<forall>r \<in> set (type_refs u). \<exists>x. f x = Inr r" by simp_all
qed

lemma remap_types_ok:
  assumes "for_types btf_dedup_remap_type [dd_start d + i..<dd_start d + length (dd_types d)] d = Inr d'"
    "i \<le> length (dd_types d)" "0 < dd_start d"
  shows "\<exists>us. d' = d\<lparr>dd_types := take i (dd_types d) @ us\<rparr> \<and>
    list_all2 (\<lambda>t u. remap_refs (btf_dedup_remap_type_id d) t = Inr u) (drop i (dd_types d)) us"
  using assms
proof (induction "length (dd_types d) - i" arbitrary: i d)
  case 0
  then show ?case by (auto simp: rbind_Inr_iff)
next
  case (Suc n)
  have i: "i < length (dd_types d)" using Suc.hyps(2) by simp
  have ids: "[dd_start d + i..<dd_start d + length (dd_types d)] = (dd_start d + i) # [dd_start d + Suc i..<dd_start d + length (dd_types d)]"
    using i by (simp add: upt_conv_Cons)
  have ty: "dedup_type d (dd_start d + i) = Inr (dd_types d ! i)" using i Suc.prems(3) by (simp add: dedup_type_def array_get_def)
  obtain u where u: "remap_refs (btf_dedup_remap_type_id d) (dd_types d ! i) = Inr u"
      "for_types btf_dedup_remap_type [dd_start d + Suc i..<dd_start d + length (dd_types d)] (d\<lparr>dd_types := (dd_types d)[i := u]\<rparr>) = Inr d'"
    using Suc.prems(1) i unfolding ids by (auto simp: btf_dedup_remap_type_def ty rbind_Inr_iff set_dedup_type_def split: if_splits)
  let ?d = "d\<lparr>dd_types := (dd_types d)[i := u]\<rparr>"
  have st: "dd_start ?d = dd_start d" by (simp add: dd_start_def)
  have f: "btf_dedup_remap_type_id ?d = btf_dedup_remap_type_id d"
    by (simp add: fun_eq_iff btf_dedup_remap_type_id_def resolve_type_id_def)
  have "\<exists>us. d' = ?d\<lparr>dd_types := take (Suc i) (dd_types ?d) @ us\<rparr> \<and>
    list_all2 (\<lambda>t u. remap_refs (btf_dedup_remap_type_id ?d) t = Inr u) (drop (Suc i) (dd_types ?d)) us"
    by (rule Suc.hyps(1)) (use u(2) i Suc.hyps(2) Suc.prems(3) in \<open>simp_all add: st\<close>)
  then obtain us where us: "d' = ?d\<lparr>dd_types := take (Suc i) (dd_types ?d) @ us\<rparr>"
      "list_all2 (\<lambda>t u. remap_refs (btf_dedup_remap_type_id d) t = Inr u) (drop (Suc i) (dd_types d)) us"
    by (auto simp: f)
  have "d' = d\<lparr>dd_types := take i (dd_types d) @ u # us\<rparr>" using us(1) i by (simp add: take_Suc_conv_app_nth)
  moreover have "drop i (dd_types d) = dd_types d ! i # drop (Suc i) (dd_types d)" using i by (simp add: Cons_nth_drop_Suc)
  ultimately show ?case using us(2) u(1) by (intro exI [of _ "u # us"]) simp
qed

subsection \<open>The object before and after\<close>

lemma read_types_view:
  assumes "btf_view b vs"
  shows "0 < k \<Longrightarrow> k \<le> length vs + 1 \<Longrightarrow> read_types b [k..<length vs + 1] = Inr (drop (k - 1) vs)"
proof (induction "length vs + 1 - k" arbitrary: k)
  case 0
  then show ?case by simp
next
  case (Suc n)
  have "k \<le> length vs" using Suc.hyps(2) by linarith
  then have r: "read_types b [Suc k..<length vs + 1] = Inr (drop k vs)" using Suc.hyps(1) [of "Suc k"] Suc.hyps(2) by simp
  have s: "[k..<length vs + 1] = k # [Suc k..<length vs + 1]" using \<open>k \<le> length vs\<close> by (simp add: upt_conv_Cons)
  have "vs ! (k - 1) # drop k vs = drop (k - 1) vs"
    using \<open>k \<le> length vs\<close> Suc.prems(1) Cons_nth_drop_Suc [of "k - 1" vs] by simp
  then show ?case
    unfolding s using r btf_type_by_id_view [OF assms, of k] \<open>k \<le> length vs\<close> Suc.prems(1) by (simp del: upt_Suc)
qed

lemma btf_dedup_new_ok:
  assumes "btf_inv b ts" "btf_dedup_new alloc b opts = Inr d"
  shows "dd_btf d = b" "dd_types d = ts"
proof -
  obtain ts0 where v: "btf_view b (ts0 @ ts)" "start_id (own b) = length ts0 + 1" by (rule btf_inv_view [OF assms(1)])
  have "read_types b [1..<btf__get_nr_types b + 1] = Inr (ts0 @ ts)"
    using read_types_view [OF v(1), of 1] btf__get_nr_types_view [OF v(1)] by simp
  then show "dd_btf d = b" "dd_types d = ts"
    using assms(2) v(2) by (auto simp: btf_dedup_new_def Let_def rbind_Inr_iff)
qed

lemma length_encode_same: "wf_type t \<Longrightarrow> wf_type u \<Longrightarrow> info u = info t \<Longrightarrow> length (encode_type u) = length (encode_type t)"
  using btf_type_size_encode [of t] btf_type_size_encode [of u] by (simp add: btf_type_size_def btf_kind_def btf_vlen_def)

lemma length_encode_heads:
  "list_all2 same_head ts us \<Longrightarrow> \<forall>t \<in> set ts. wf_type t \<Longrightarrow> \<forall>u \<in> set us. wf_type u \<Longrightarrow>
    length (encode_types us) = length (encode_types ts)"
  by (induction ts us rule: list_all2_induct) (auto simp: same_head_def length_encode_same)

lemma length_encode_subseq: "subseq us ts \<Longrightarrow> length (encode_types us) \<le> length (encode_types ts)"
  by (induction us ts rule: list_emb.induct) auto

lemma subseq_set: "subseq us ts \<Longrightarrow> set us \<subseteq> set ts"
  by (induction us ts rule: list_emb.induct) auto

lemma subseq_pullback:
  "subseq us vs \<Longrightarrow> list_all2 R ts vs \<Longrightarrow> \<exists>ss. subseq ss ts \<and> list_all2 R ss us"
proof (induction us vs arbitrary: ts rule: list_emb.induct)
  case (list_emb_Nil vs)
  then show ?case by auto
next
  case (list_emb_Cons us vs v)
  then obtain t ts1 where t: "ts = t # ts1" "list_all2 R ts1 vs" by (auto simp: list_all2_Cons2)
  then obtain ss where "subseq ss ts1" "list_all2 R ss us" using list_emb_Cons.IH by blast
  then show ?case using t(1) by auto
next
  case (list_emb_Cons2 u v us vs)
  then obtain t ts1 where t: "ts = t # ts1" "R t v" "list_all2 R ts1 vs" by (auto simp: list_all2_Cons2)
  then obtain ss where "subseq ss ts1" "list_all2 R ss us" using list_emb_Cons2.IH by blast
  then show ?case using t(1,2) list_emb_Cons2.hyps(1) by (intro exI [of _ "t # ss"]) simp
qed

lemma store_types_inv:
  assumes "btf_inv b ts" "\<forall>u \<in> set us. wf_type u" "length (encode_types us) \<le> length (encode_types ts)"
  shows "btf_inv (upd_own (store_types us) b) us"
proof -
  have own: "own_inv (base_btf b \<noteq> None) (own b) ts" using assms(1) by (simp add: btf_inv_def)
  then have "length (encode_types ts) < 2 ^ 32"
    using unsigned_less [of "type_len (hdr (own b))", where 'a = nat] by (simp add: own_inv_def btf_repr_def)
  then have "length (encode_types us) < 2 ^ 32" using assms(3) by simp
  then have "own_inv (base_btf b \<noteq> None) (store_types us (own b)) us"
    using own assms(2)
    by (simp add: own_inv_def btf_repr_def strs_ok_def store_types_def Let_def hdr_bytes_def index_ok_def encode_hdr_def
        unat_of_nat take_bit_nat_eq_self_iff)
  then show ?thesis by (intro btf_inv_frame [OF assms(1)]) (simp_all add: store_types_def Let_def)
qed

lemma store_types_names: "btf__str_by_offset (upd_own (store_types us) b) off = btf__str_by_offset b off"
  by (cases b) (simp add: store_types_def Let_def upd_own_def)

lemma ensure_names:
  assumes "btf_inv b ts" "btf_ensure_modifiable alloc b = (Inr (), b1)"
  shows "btf_inv b1 ts" "modifiable (own b1)" "start_id (own b1) = start_id (own b)"
    "btf__str_by_offset b1 off = btf__str_by_offset b off"
proof -
  have own: "own_inv (base_btf b \<noteq> None) (own b) ts" using assms(1) by (simp add: btf_inv_def)
  note E = btf_ensure_modifiable_ok [OF own assms(2)]
  have f: "start_id (own b1) = start_id (own b)" "start_str_off (own b1) = start_str_off (own b)" using E(2) by (simp_all add: frame_def)
  have "str_len (hdr (own b1)) = str_len (hdr (own b))"
    using own E(3,5) by (simp add: own_inv_def strs_ok_def word_unat_eq_iff)
  then show "btf__str_by_offset b1 off = btf__str_by_offset b off" using f(2) E(1,5) by (cases b; cases b1) simp
  show "btf_inv b1 ts" using btf_inv_frame [OF assms(1) E(3) E(1)] f by simp
  show "modifiable (own b1)" "start_id (own b1) = start_id (own b)" using E(4) f by simp_all
qed

text \<open>What the result has in common with the original: kind, flags, number of elements, and the name.\<close>

definition same_decl :: "btf \<Rightarrow> btf \<Rightarrow> btf_type \<Rightarrow> btf_type \<Rightarrow> bool" where
  "same_decl b b' t u \<longleftrightarrow> info u = info t \<and> btf__name_by_offset b' (name_off u) = btf__name_by_offset b (name_off t)"

lemma same_type_decl:
  assumes "same_type b b' t u"
  shows "same_decl b b' t u" "wf_type t \<Longrightarrow> wf_type u"
proof -
  show "same_decl b b' t u" using assms by (auto simp: same_type_def same_decl_def same_name_def)
  assume wf: "wf_type t"
  have k: "btf_kind u = btf_kind t" "btf_vlen u = btf_vlen t" using assms by (simp_all add: same_type_def btf_kind_def btf_vlen_def)
  have v: "vdata u = vdata t" if "\<not> btf_is_composite t" "\<not> btf_is_enum t" "\<not> btf_is_func_proto t"
    using assms that by (simp add: same_type_def)
  have m: "\<exists>ms. vdata u = VMembers ms \<and> length ms = length (btf_members t)" if "btf_is_composite t"
    using assms that by (auto simp: same_type_def dest: list_all2_lengthD)
  have e: "\<exists>es. vdata u = VEnums es \<and> length es = length (btf_enum t)" if "btf_is_enum t"
    using assms that by (auto simp: same_type_def btf_is_enum_def btf_is_composite_def dest: list_all2_lengthD)
  have p: "\<exists>ps. vdata u = VParams ps \<and> length ps = length (btf_params t)" if "btf_is_func_proto t"
    using assms that
    by (auto simp: same_type_def btf_is_enum_def btf_is_composite_def btf_is_func_proto_def dest: list_all2_lengthD)
  show "wf_type u"
    using wf m e p wf_type_same [OF k v]
    by (cases "btf_kind t")
      (auto simp: wf_type_def k btf_is_composite_def btf_is_enum_def btf_is_func_proto_def btf_members_def btf_enum_def btf_params_def
        split: btf_vdata.splits)
qed

lemma dedup_strings_decls:
  assumes "btf_inv b ts" "modifiable (own b)" "btf_dedup_strings alloc b ts ext = Inr (us, ext', b')"
  shows "btf_inv b' ts" "start_id (own b') = start_id (own b)" "list_all2 (same_decl b b') ts us" "\<forall>u \<in> set us. wf_type u"
proof -
  have wf: "\<forall>t \<in> set ts. wf_type t" using assms(1) by (simp add: btf_inv_def own_inv_def btf_repr_def)
  have "btf_inv b' ts \<and> start_id (own b') = start_id (own b) \<and> list_all2 (same_decl b b') ts us \<and> (\<forall>u \<in> set us. wf_type u)"
  proof (cases "strs_deduped (own b)")
    case True
    then show ?thesis using assms wf by (auto simp: btf_dedup_strings_def same_decl_def list.rel_refl)
  next
    case False
    have s: "strs_of b ts b' \<and> list_all2 (same_type b b') ts us"
      by (rule dedup_strings_ok [OF assms(1,2) False assms(3)])
    then have l: "length us = length ts" using list_all2_lengthD by force
    have e: "same_decl b b' (ts ! i) (us ! i) \<and> wf_type (us ! i)" if "i < length us" for i
      using same_type_decl [OF list_all2_nthD2 [OF conjunct2 [OF s] that]] wf that l by simp
    have "list_all2 (same_decl b b') ts us" using e l by (simp add: list_all2_conv_all_nth)
    moreover have "\<forall>u \<in> set us. wf_type u" unfolding all_set_conv_all_nth using e by blast
    ultimately show ?thesis using s by (simp add: strs_of_def)
  qed
  then show "btf_inv b' ts" "start_id (own b') = start_id (own b)" "list_all2 (same_decl b b') ts us" "\<forall>u \<in> set us. wf_type u" by simp_all
qed

lemma same_decl_heads: "list_all2 (same_decl b b') ts us \<Longrightarrow> list_all2 same_head us vs \<Longrightarrow> list_all2 (same_decl b b') ts vs"
  by (simp add: list_all2_conv_all_nth same_decl_def same_head_def)

subsection \<open>The whole deduplication\<close>

lemma remap_type_id_new:
  assumes "set (hypot_map d) \<subseteq> {0..<n} \<union> {BTF_UNPROCESSED_ID}" "btf_dedup_remap_type_id d i = Inr r"
  shows "unat r < n"
proof -
  obtain j where j: "array_get (hypot_map d) j = Inr (hypot_map d ! j)" "hypot_map d ! j \<le> BTF_MAX_NR_TYPES" "r = of_nat (hypot_map d ! j)"
    using assms(2) by (auto simp: btf_dedup_remap_type_id_def rbind_Inr_iff array_get_def split: if_splits)
  define v where "v = hypot_map d ! j"
  have v: "v \<in> set (hypot_map d)" "v \<le> BTF_MAX_NR_TYPES" "r = of_nat v" using j by (auto simp: v_def array_get_iff)
  then have "v < n" using assms(1) by (auto simp: BTF_UNPROCESSED_ID_def BTF_MAX_NR_TYPES_def)
  then show ?thesis using v(2,3) by (simp add: unat_of_nat take_bit_nat_eq_self_iff BTF_MAX_NR_TYPES_def)
qed

lemma compact_types_ok:
  assumes "btf_dedup_compact_types alloc d = Inr d'" "0 < dd_start d"
  shows "dd_btf d' = dd_btf d" "subseq (dd_types d') (dd_types d)"
    "set (hypot_map d') \<subseteq> {0..<dd_start d + length (dd_types d')} \<union> {BTF_UNPROCESSED_ID}"
proof -
  let ?hm = "0 # [1..<dd_start d] @ replicate (length (dd_types d)) BTF_UNPROCESSED_ID"
  obtain hm kept where c: "compact_from d (own_ids d) (?hm, []) = Inr (hm, kept)" "d' = d\<lparr>hypot_map := hm, dd_types := kept\<rparr>"
    using assms(1) by (auto simp: btf_dedup_compact_types_def rbind_Inr_iff)
  have "compact_from d [dd_start d + 0..<dd_start d + length (dd_types d)] (?hm, []) = Inr (hm, kept)"
    using c(1) by (simp add: own_ids_def)
  note K = compact_from_ok [OF this _ assms(2)]
  show "dd_btf d' = dd_btf d" "subseq (dd_types d') (dd_types d)" using K c(2) by auto
  have "set ?hm \<subseteq> {0..<dd_start d} \<union> {BTF_UNPROCESSED_ID}" using assms(2) by (auto simp: set_replicate_conv_if)
  then show "set (hypot_map d') \<subseteq> {0..<dd_start d + length (dd_types d')} \<union> {BTF_UNPROCESSED_ID}"
    using K c(2) by fastforce
qed

lemma dedup_passes_ok:
  assumes inv: "btf_inv (dd_btf d) ts" "modifiable (own (dd_btf d))" "dd_types d = ts"
    and run: "dedup_passes alloc ext d = Inr (ext', d')"
  shows "btf_inv (dd_btf d') ts \<and> start_id (own (dd_btf d')) = start_id (own (dd_btf d)) \<and> (\<forall>u \<in> set (dd_types d'). wf_type u) \<and>
    length (encode_types (dd_types d')) \<le> length (encode_types ts) \<and>
    (\<exists>kept. subseq kept ts \<and> list_all2 (same_decl (dd_btf d) (dd_btf d')) kept (dd_types d')) \<and>
    (\<forall>u \<in> set (dd_types d'). \<forall>r \<in> set (type_refs u). unat r < start_id (own (dd_btf d)) + length (dd_types d'))"
proof -
  obtain d1 ts2 b d3 d4 d5 d6 where r: "btf_dedup_prep alloc d = Inr d1"
      "btf_dedup_strings alloc (dd_btf d1) (dd_types d1) ext = Inr (ts2, ext', b)"
      "btf_dedup_prim_types alloc (d1\<lparr>dd_types := ts2, dd_btf := b\<rparr>) = Inr d3"
      "btf_dedup_struct_types alloc d3 = Inr d4" "btf_dedup_ref_types alloc d4 = Inr d5"
      "btf_dedup_compact_types alloc d5 = Inr d6" "btf_dedup_remap_types d6 = Inr d'"
    using run by (auto simp: dedup_passes_def rbind_Inr_iff)
  let ?d2 = "d1\<lparr>dd_types := ts2, dd_btf := b\<rparr>" and ?s = "start_id (own (dd_btf d))"
  have d1: "dd_btf d1 = dd_btf d" "dd_types d1 = ts"
    using r(1) inv(3) prep_types_frame by (auto simp: btf_dedup_prep_def split: if_splits)
  note S = dedup_strings_decls [OF inv(1,2) r(2) [unfolded d1]]
  have s: "0 < ?s" using btf_inv_nr [OF inv(1)] by simp
  have wf2: "all_wf ?d2" using S(2,4) s by (simp add: all_wf_def dd_start_def)
  have "dd_keeps ?d2 d3" using dd_keeps_for_types [OF dd_keeps_prim r(3) [unfolded btf_dedup_prim_types_def]] .
  moreover have "dd_keeps d3 d4" using dd_keeps_for_types [OF dd_keeps_struct r(4) [unfolded btf_dedup_struct_types_def]] .
  ultimately have k: "dd_keeps ?d2 d5" using dd_keeps_refs [OF r(5)] dd_keeps_trans by metis
  then have d5: "dd_btf d5 = b" "all_wf d5" "list_all2 same_head ts2 (dd_types d5)" using wf2 by (simp_all add: dd_keeps_def)
  have st5: "dd_start d5 = ?s" using d5(1) S(2) by (simp add: dd_start_def)
  note C = compact_types_ok [OF r(6) s [folded st5]]
  have st6: "dd_start d6 = ?s" using C(1) st5 by (simp add: dd_start_def)
  have "for_types btf_dedup_remap_type [dd_start d6 + 0..<dd_start d6 + length (dd_types d6)] d6 = Inr d'"
    using r(7) by (simp add: btf_dedup_remap_types_def own_ids_def)
  from remap_types_ok [OF this] s st6 obtain us where us: "d' = d6\<lparr>dd_types := us\<rparr>"
      "list_all2 (\<lambda>t u. remap_refs (btf_dedup_remap_type_id d6) t = Inr u) (dd_types d6) us" by auto
  have wf6: "\<forall>t \<in> set (dd_types d6). wf_type t" using subseq_set [OF C(2)] d5(2) by (auto simp: all_wf_def)
  have each: "same_head t u \<and> wf_type u \<and> (\<forall>r \<in> set (type_refs u). unat r < ?s + length (dd_types d6))"
    if "remap_refs (btf_dedup_remap_type_id d6) t = Inr u" "t \<in> set (dd_types d6)" for t u
    using remap_refs_ok [OF wf6 [rule_format, OF that(2)] that(1)] remap_type_id_new [OF C(3) [unfolded st5]] by blast
  have l: "length us = length (dd_types d6)" using list_all2_lengthD [OF us(2)] by simp
  have h: "list_all2 same_head (dd_types d6) us" "\<forall>u \<in> set us. wf_type u \<and> (\<forall>r \<in> set (type_refs u). unat r < ?s + length us)"
  proof -
    have e: "same_head (dd_types d6 ! i) (us ! i) \<and> wf_type (us ! i) \<and> (\<forall>r \<in> set (type_refs (us ! i)). unat r < ?s + length us)" if "i < length us" for i
      using each [of "dd_types d6 ! i" "us ! i"] list_all2_nthD2 [OF us(2) that] that l by simp
    show "list_all2 same_head (dd_types d6) us" using e l by (simp add: list_all2_conv_all_nth)
    show "\<forall>u \<in> set us. wf_type u \<and> (\<forall>r \<in> set (type_refs u). unat r < ?s + length us)"
      unfolding all_set_conv_all_nth [of us] using e by blast
  qed
  obtain kept where kept: "subseq kept ts" "list_all2 (same_decl (dd_btf d) b) kept (dd_types d6)"
    using subseq_pullback [OF C(2) same_decl_heads [OF S(3) d5(3)]] by blast
  have "length (encode_types us) \<le> length (encode_types ts)"
  proof -
    have info: "list_all2 (\<lambda>t u. wf_type t \<and> wf_type u \<and> info u = info t) kept us"
      using list_all2_lengthD [OF kept(2)] kept h wf6 inv(1) subseq_set [OF kept(1)] l
      by (auto simp: list_all2_conv_all_nth same_decl_def same_head_def btf_inv_def own_inv_def btf_repr_def subset_iff)
    then have "length (encode_types us) = length (encode_types kept)"
      by (induction kept us rule: list_all2_induct) (auto simp: length_encode_same)
    then show ?thesis using length_encode_subseq [OF kept(1)] by simp
  qed
  then show ?thesis using S(1,2) us(1) C(1) d5(1) h kept(1) same_decl_heads [OF kept(2) h(1)] by auto
qed

text \<open>
  C12. The result of \<^verbatim>\<open>btf__dedup\<close> is a well-formed BTF: its types are some of those of the original, in their order,
  with their kinds, flags and names, its encoding, index and header agree, and every type refers to types that exist.
\<close>

theorem btf__dedup_well_formed:
  assumes "btf_inv b ts" "btf__dedup alloc b ext opts = Inr (b', ext')"
  shows "\<exists>us kept. btf_inv b' us \<and> subseq kept ts \<and> list_all2 (same_decl b b') kept us \<and>
    (\<forall>u \<in> set us. \<forall>r \<in> set (type_refs u). unat r \<le> btf__get_nr_types b')"
proof -
  obtain d b1 d1 where r: "btf_dedup_new alloc b opts = Inr d" "btf_ensure_modifiable alloc b = (Inr (), b1)"
      "dedup_passes alloc ext (d\<lparr>dd_btf := b1\<rparr>) = Inr (ext', d1)" "b' = upd_own (store_types (dd_types d1)) (dd_btf d1)"
    using assms(2) by (auto simp: btf__dedup_def rbind_Inr_iff split: sum.splits prod.splits if_splits)
  note E = ensure_names [OF assms(1) r(2)]
  let ?d = "d\<lparr>dd_btf := b1\<rparr>"
  have "btf_inv (dd_btf ?d) ts" "modifiable (own (dd_btf ?d))" "dd_types ?d = ts"
    using E btf_dedup_new_ok [OF assms(1) r(1)] by simp_all
  note P = dedup_passes_ok [OF this r(3)]
  have inv: "btf_inv b' (dd_types d1)" unfolding r(4) using P by (intro store_types_inv [where ts = ts]) simp_all
  have decl: "same_decl b1 (dd_btf d1) = same_decl b b'"
    by (simp add: fun_eq_iff same_decl_def btf__name_by_offset_def E(4) r(4) store_types_names)
  have nr: "btf__get_nr_types b' + 1 = start_id (own b1) + length (dd_types d1)"
    using P btf_inv_nr [OF inv] by (simp add: r(4) store_types_def Let_def btf__get_nr_types_def)
  obtain kept where "subseq kept ts" "list_all2 (same_decl b b') kept (dd_types d1)" using P decl by auto
  moreover have "\<forall>u \<in> set (dd_types d1). \<forall>r \<in> set (type_refs u). unat r \<le> btf__get_nr_types b'"
    using P nr by fastforce
  ultimately show ?thesis using inv by blast
qed

subsection \<open>An example\<close>

lemma sx_dedup: "\<exists>b'. btf__dedup served sx_btf None None = Inr (b', None)"
proof -
  obtain b n b' where x: "btf_ensure_modifiable served sx_btf = (Inr (), b)"
      "btf_dedup_strings served b [sx_int] None = Inr ([sx_int\<lparr>name_off := of_nat n\<rparr>], None, b')"
      "btf_inv b [sx_int]" "modifiable (own b)"
    using sx_strings by blast
  let ?t = "sx_int\<lparr>name_off := of_nat n\<rparr>"
  obtain d where d: "btf_dedup_new served sx_btf None = Inr d" "dd_map d = [0, BTF_UNPROCESSED_ID]" "dd_table d = hashmap__init btf_dedup_identity_hash_fn btf_dedup_equal_fn ()"
  proof -
    have v: "btf_view sx_btf [sx_int]" using sx_inv by (simp add: btf_inv_def own_inv_def sx_btf_def)
    have "read_types sx_btf [1..<2] = Inr [sx_int]" using read_types_view [OF v, of 1] by (simp add: numeral_2_eq_2)
    then show ?thesis using that btf__get_nr_types_view [OF v]
      by (simp add: btf_dedup_new_def Let_def hashmap__new_def btf_is_var_def btf_is_datasec_def sx_kind numeral_2_eq_2 guard_def)
  qed
  note N = btf_dedup_new_ok [OF sx_inv d(1)]
  have own: "own_inv False (own sx_btf) [sx_int]" using sx_inv by (simp add: btf_inv_def sx_btf_def)
  have b: "base_btf b = None" using btf_ensure_modifiable_ok(1) [OF own x(1)] by (simp add: sx_btf_def)
  have start: "start_id (own b') = 1" using dedup_strings_decls(2) [OF x(3,4,2)] x(3) b by (simp add: btf_inv_def)
  have k: "btf_kind ?t = BTF_KIND_INT" using sx_kind by (simp add: btf_kind_def)
  define d2 where "d2 = d\<lparr>dd_types := [?t], dd_btf := b'\<rparr>"
  have ids: "own_ids d2 = [1]" by (simp add: own_ids_def d2_def dd_start_def start)
  have ty: "dedup_type d2' 1 = Inr ?t" if "dd_btf d2' = b'" "dd_types d2' = [?t]" for d2'
    using that by (simp add: dedup_type_def dd_start_def start array_get_def)
  note ty1 = ty [unfolded One_nat_def]
  obtain d3 where d3: "btf_dedup_prim_types served d2 = Inr d3" "dd_map d3 = [0, 1]" "dd_btf d3 = b'" "dd_types d3 = [?t]"
  proof -
    obtain m where m: "btf_dedup_table_add served (btf_hash_int ?t) 1 (d2\<lparr>dd_map := [0, 1]\<rparr>) = Inr (d2\<lparr>dd_map := [0, 1], dd_table := m\<rparr>)"
      by (simp add: btf_dedup_table_add_def Let_def d2_def d(3) hashmap__append_def hashmap__insert_def hashmap__init_def
          hashmap_insert_new_def hashmap_needs_to_grow_def hashmap_grow_def HASHMAP_MIN_CAP_BITS_def)
    have "for_each_dedup_cand d2 h = []" for h
      by (simp add: for_each_dedup_cand_def d2_def d(3) hashmap__for_each_key_entry_def hashmap__init_def)
    moreover have f: "dd_map d2 = [0, BTF_UNPROCESSED_ID]" "dd_btf d2 = b'" "dd_types d2 = [?t]" by (simp_all add: d2_def d(2))
    ultimately have "btf_dedup_prim_types served d2 = Inr (d2\<lparr>dd_map := [0, 1], dd_table := m\<rparr>)"
      using m k ty [OF f(2,3)] by (simp add: btf_dedup_prim_types_def ids btf_dedup_prim_type_def set_canonical_def set_map_def Let_def)
    then show ?thesis using that f(2,3) by simp
  qed
  have ids3: "own_ids d3 = [1]" by (simp add: own_ids_def dd_start_def start d3)
  have s: "btf_dedup_struct_types served d3 = Inr d3"
    by (simp add: btf_dedup_struct_types_def ids3 btf_dedup_struct_type_def is_type_mapped_def d3 array_get_def BTF_MAX_NR_TYPES_def)
  have r: "btf_dedup_ref_types served d3 = Inr d3"
    by (simp add: btf_dedup_ref_types_def ids3 btf_dedup_ref_type_def is_type_mapped_def d3 array_get_def BTF_MAX_NR_TYPES_def
        BTF_IN_PROGRESS_ID_def resolve_type_id_def)
  obtain d4 where c: "btf_dedup_compact_types served d3 = Inr d4" "dd_types d4 = [?t]" "dd_btf d4 = b'"
    by (simp add: btf_dedup_compact_types_def ids3 d3 array_get_def ty1 k btf_type_size_def kind_size_def dd_start_def start
        libbpf_reallocarray_def)
  have ids4: "own_ids d4 = [1]" by (simp add: own_ids_def dd_start_def start c)
  have m: "btf_dedup_remap_types d4 = Inr d4"
    using c by (simp add: btf_dedup_remap_types_def ids4 btf_dedup_remap_type_def ty1 remap_refs_def k Let_def set_dedup_type_def dd_start_def start)
  have "dedup_passes served None (d\<lparr>dd_btf := b\<rparr>) = Inr (None, d4)"
    using x(2) N b d3(1) s r c(1) m by (simp add: dedup_passes_def btf_dedup_prep_def d2_def)
  then show ?thesis using d(1) x(1) by (simp add: btf__dedup_def)
qed

theorem btf__dedup_well_formed_witness:
  "\<exists>b' us. btf__dedup served sx_btf None None = Inr (b', None) \<and> btf_inv b' us \<and>
     (\<forall>u \<in> set us. \<forall>r \<in> set (type_refs u). unat r \<le> btf__get_nr_types b')"
proof -
  obtain b' where b': "btf__dedup served sx_btf None None = Inr (b', None)" using sx_dedup by blast
  show ?thesis using btf__dedup_well_formed [OF sx_inv b'] b' by blast
qed

end
