(* ===== verification/Prog_Linfo.thy ===== *)
theory Prog_Linfo
  imports Bytes
begin

text \<open>
  Line information of a loaded program (\<^verbatim>\<open>bpf_prog_linfo.c\<close>): the records that the kernel reports, and the search for
  the line of an instruction of the program or of an address of the code it was translated to.

  The buffers the kernel has filled are fields of \<open>bpf_prog_info\<close>; a null pointer is \<open>None\<close>. A pointer into a
  buffer of records is its position.
\<close>

subsection \<open>State\<close>

definition read_u64 :: "u8 list \<Rightarrow> nat \<Rightarrow> u64 result" where
  "read_u64 bs off =
     rbind (read_u32 bs off) (\<lambda>lo. rbind (read_u32 bs (off + 4)) (\<lambda>hi.
     Inr (ucast lo OR push_bit 32 (ucast hi))))"

record bpf_prog_info =
  nr_jited_ksyms :: u32
  nr_jited_func_lens :: u32
  jited_ksyms :: "u64 list option"
  jited_func_lens :: "u32 list option"
  nr_line_info :: u32
  pi_line_info :: "u8 list"
  jited_line_info :: "u8 list option"
  nr_jited_line_info :: u32
  line_info_rec_size :: u32
  jited_line_info_rec_size :: u32

text \<open>The arrays per function are filled in order; the lists hold the entries that are written.\<close>

record bpf_prog_linfo =
  raw_linfo :: "u8 list"
  raw_jited_linfo :: "u8 list"
  nr_jited_linfo_per_func :: "u32 list"
  jited_linfo_func_idx :: "u32 list"
  nr_linfo :: u32
  nr_jited_func :: u32
  rec_size :: u32
  jited_rec_size :: u32

definition sizeof_bpf_prog_linfo :: nat where "sizeof_bpf_prog_linfo = 48"

subsection \<open>Functions\<close>

text \<open>
  The loop of \<^verbatim>\<open>dissect_jited_func\<close>, from record \<open>i\<close> and function \<open>f\<close>; \<open>last_addr\<close> is the address of the record before
  and \<open>prev_i\<close> the first record of function \<open>f - 1\<close>.
\<close>

function dissect_from :: "u64 list \<Rightarrow> u32 list \<Rightarrow> u64 \<Rightarrow> nat \<Rightarrow> nat \<Rightarrow> nat \<Rightarrow> bpf_prog_linfo \<Rightarrow>
    (nat \<times> nat \<times> bpf_prog_linfo) result" where
  "dissect_from ksym_func ksym_len last_addr prev_i i f pl =
     (if i < unat (nr_linfo pl) \<and> f < unat (nr_jited_func pl)
      then rbind (read_u64 (raw_jited_linfo pl) (i * unat (jited_rec_size pl))) (\<lambda>addr.
           rbind (array_get ksym_func f) (\<lambda>start.
           if start = addr
           then rbind (array_get ksym_func (f - 1)) (\<lambda>before.
                rbind (array_get ksym_len (f - 1)) (\<lambda>len.
                if last_addr - before + 1 > ucast len then Inl EINVAL
                else dissect_from ksym_func ksym_len addr i (i + 1) (f + 1)
                       (pl\<lparr>jited_linfo_func_idx := jited_linfo_func_idx pl @ [of_nat i],
                           nr_jited_linfo_per_func := nr_jited_linfo_per_func pl @ [of_nat (i - prev_i)]\<rparr>)))
           else if addr \<le> last_addr then Inl EINVAL
           else dissect_from ksym_func ksym_len addr prev_i (i + 1) f pl))
      else Inr (prev_i, f, pl))"
  by pat_completeness auto
termination
  by (relation "measure (\<lambda>(kf, kl, l, p, i, f, pl). unat (nr_linfo pl) - i)") auto

declare dissect_from.simps [simp del]

definition dissect_jited_func :: "bpf_prog_linfo \<Rightarrow> u64 list \<Rightarrow> u32 list \<Rightarrow> bpf_prog_linfo result" where
  "dissect_jited_func pl ksym_func ksym_len =
     rbind (array_get ksym_func 0) (\<lambda>start.
     rbind (read_u64 (raw_jited_linfo pl) 0) (\<lambda>addr.
     if start \<noteq> addr then Inl EINVAL
     else rbind (dissect_from ksym_func ksym_len addr 0 1 1 (pl\<lparr>jited_linfo_func_idx := [0], nr_jited_linfo_per_func := []\<rparr>))
            (\<lambda>(prev_i, f, pl').
          if f \<noteq> unat (nr_jited_func pl') then Inl EINVAL
          else Inr (pl'\<lparr>nr_jited_linfo_per_func := nr_jited_linfo_per_func pl' @ [nr_linfo pl' - of_nat prev_i]\<rparr>))))"

text \<open>\<^verbatim>\<open>memcpy\<close> of \<open>n\<close> bytes to a new buffer of that size.\<close>

definition copy_of :: "u8 list \<Rightarrow> nat \<Rightarrow> u8 list result" where
  "copy_of bs n = (if n \<le> length bs then Inr (take n bs) else Inl OOB)"

text \<open>A null pointer is returned for every error; \<open>Inl OOB\<close> is an access outside of what the kernel has filled.\<close>

definition null_on_error :: "'a result \<Rightarrow> 'a option result" where
  "null_on_error r = (case r of Inl OOB \<Rightarrow> Inl OOB | Inl e \<Rightarrow> Inr None | Inr x \<Rightarrow> Inr (Some x))"

definition bpf_prog_linfo__new :: "alloc \<Rightarrow> bpf_prog_info \<Rightarrow> bpf_prog_linfo option result" where
  "bpf_prog_linfo__new alloc i =
     (let nr = nr_line_info i; size1 = unat nr * unat (line_info_rec_size i); size2 = unat nr * unat (jited_line_info_rec_size i);
          nf = nr_jited_ksyms i in
      if nr = 0 \<or> line_info_rec_size i < 4 then Inr None
      else null_on_error (
        rbind (guard (alloc sizeof_bpf_prog_linfo) ENOMEM) (\<lambda>_.
        rbind (guard (alloc size1) ENOMEM) (\<lambda>_.
        rbind (copy_of (pi_line_info i) size1) (\<lambda>raw.
        let pl = \<lparr>raw_linfo = raw, raw_jited_linfo = [], nr_jited_linfo_per_func = [], jited_linfo_func_idx = [],
                  nr_linfo = nr, nr_jited_func = 0, rec_size = line_info_rec_size i, jited_rec_size = 0\<rparr> in
        case (jited_line_info i, jited_ksyms i, jited_func_lens i) of
          (Some jli, Some ks, Some lens) \<Rightarrow>
            if nf = 0 \<or> nr_jited_line_info i \<noteq> nr \<or> jited_line_info_rec_size i < 8 \<or> nr_jited_func_lens i \<noteq> nf then Inr pl
            else rbind (guard (alloc size2) ENOMEM) (\<lambda>_.
                 rbind (copy_of jli size2) (\<lambda>jited.
                 rbind (guard (alloc (unat nf * 4)) ENOMEM) (\<lambda>_.
                 rbind (guard (alloc (unat nf * 4)) ENOMEM) (\<lambda>_.
                 dissect_jited_func (pl\<lparr>nr_jited_func := nf, jited_rec_size := jited_line_info_rec_size i, raw_jited_linfo := jited\<rparr>) ks lens))))
        | _ \<Rightarrow> Inr pl)))))"

subsection \<open>Searches\<close>

text \<open>
  Both loops step from record to record until one lies behind what is searched for, and return the one before.
  \<open>read k\<close> is the key of the record \<open>k\<close> steps on; the result counts the steps.
\<close>

function steps_to :: "(nat \<Rightarrow> 'a :: linorder result) \<Rightarrow> 'a \<Rightarrow> nat \<Rightarrow> nat \<Rightarrow> nat result" where
  "steps_to read x n i =
     (if i < n then rbind (read i) (\<lambda>k. if x < k then Inr i else steps_to read x n (i + 1)) else Inr i)"
  by pat_completeness auto
termination
  by (relation "measure (\<lambda>(read, x, n, i). n - i)") auto

declare steps_to.simps [simp del]

text \<open>The offset of the first record is a product of 32-bit numbers.\<close>

definition bpf_prog_linfo__lfind_addr_func :: "bpf_prog_linfo \<Rightarrow> u64 \<Rightarrow> u32 \<Rightarrow> u32 \<Rightarrow> nat option result" where
  "bpf_prog_linfo__lfind_addr_func pl addr func_idx nr_skip =
     (if func_idx \<ge> nr_jited_func pl then Inr None
      else rbind (array_get (nr_jited_linfo_per_func pl) (unat func_idx)) (\<lambda>nr.
           if nr_skip \<ge> nr then Inr None
           else rbind (array_get (jited_linfo_func_idx pl) (unat func_idx)) (\<lambda>idx.
                let start = idx + nr_skip; jited = unat (start * jited_rec_size pl); raw = unat (start * rec_size pl);
                    read = (\<lambda>i. read_u64 (raw_jited_linfo pl) (jited + i * unat (jited_rec_size pl))) in
                rbind (read 0) (\<lambda>k.
                if addr < k then Inr None
                else rbind (steps_to read addr (unat (nr - nr_skip)) 0) (\<lambda>i.
                     Inr (Some (raw + i * unat (rec_size pl) - unat (rec_size pl))))))))"

definition bpf_prog_linfo__lfind :: "bpf_prog_linfo \<Rightarrow> u32 \<Rightarrow> u32 \<Rightarrow> nat option result" where
  "bpf_prog_linfo__lfind pl insn_off nr_skip =
     (if nr_skip \<ge> nr_linfo pl then Inr None
      else let raw = unat (nr_skip * rec_size pl);
               read = (\<lambda>i. read_u32 (raw_linfo pl) (raw + i * unat (rec_size pl))) in
           rbind (read 0) (\<lambda>k.
           if insn_off < k then Inr None
           else rbind (steps_to read insn_off (unat (nr_linfo pl - nr_skip)) 0) (\<lambda>i.
                Inr (Some (raw + i * unat (rec_size pl) - unat (rec_size pl))))))"

subsection \<open>The search for an instruction\<close>

lemma steps_to_finds:
  assumes "\<And>i. i < n \<Longrightarrow> read i = Inr (ks i)" "i \<le> n"
  shows "\<exists>j. steps_to read x n i = Inr j \<and> i \<le> j \<and> j \<le> n \<and> (\<forall>l. i \<le> l \<and> l < j \<longrightarrow> ks l \<le> x) \<and> (j < n \<longrightarrow> x < ks j)"
  using assms(2)
proof (induction "n - i" arbitrary: i)
  case 0
  then show ?case by (subst steps_to.simps) auto
next
  case (Suc m)
  show ?case
  proof (cases "x < ks i")
    case True
    then show ?thesis using Suc.hyps(2) assms(1) by (subst steps_to.simps) auto
  next
    case False
    obtain j where j: "steps_to read x n (i + 1) = Inr j" "i + 1 \<le> j" "j \<le> n" "\<forall>l. i + 1 \<le> l \<and> l < j \<longrightarrow> ks l \<le> x" "j < n \<longrightarrow> x < ks j"
    proof -
      have "m = n - (i + 1)" "i + 1 \<le> n" using Suc.hyps(2) by linarith+
      then show ?thesis using Suc.hyps(1) [of "i + 1"] that by blast
    qed
    have "ks l \<le> x" if "i \<le> l" "l < j" for l using False j(4) that by (cases "l = i") auto
    then show ?thesis using j False Suc.hyps(2) assms(1) by (subst steps_to.simps) auto
  qed
qed

text \<open>The records of a table: record \<open>k\<close> has the key \<open>ks ! k\<close>, and all positions fit in 32 bits.\<close>

definition table_of :: "(nat \<Rightarrow> 'a result) \<Rightarrow> u32 \<Rightarrow> 'a list \<Rightarrow> bool" where
  "table_of read sz ks \<longleftrightarrow> (\<forall>k < length ks. read (k * unat sz) = Inr (ks ! k)) \<and> length ks * unat sz < 2 ^ 32"

text \<open>The record \<open>k\<close> is the last one from \<open>a\<close> up to \<open>b\<close> whose key is not behind \<open>x\<close>.\<close>

definition last_upto :: "'a :: linorder list \<Rightarrow> 'a \<Rightarrow> nat \<Rightarrow> nat \<Rightarrow> nat \<Rightarrow> bool" where
  "last_upto ks x a b k \<longleftrightarrow> a \<le> k \<and> k < b \<and> ks ! k \<le> x \<and> (\<forall>j. k < j \<and> j < b \<longrightarrow> x < ks ! j)"

definition table_sorted :: "'a :: linorder list \<Rightarrow> nat \<Rightarrow> nat \<Rightarrow> bool" where
  "table_sorted ks a b \<longleftrightarrow> (\<forall>i j. a \<le> i \<and> i \<le> j \<and> j < b \<longrightarrow> ks ! i \<le> ks ! j)"

text \<open>From \<open>a\<close> to \<open>k\<close> no key is behind \<open>x\<close>, and the next one, if it is before \<open>b\<close>, is.\<close>

definition run_upto :: "'a :: linorder list \<Rightarrow> 'a \<Rightarrow> nat \<Rightarrow> nat \<Rightarrow> nat \<Rightarrow> bool" where
  "run_upto ks x a b k \<longleftrightarrow> a \<le> k \<and> k < b \<and> (\<forall>j. a \<le> j \<and> j \<le> k \<longrightarrow> ks ! j \<le> x) \<and> (k + 1 < b \<longrightarrow> x < ks ! (k + 1))"

lemma run_upto_last:
  assumes "run_upto ks x a b k" "table_sorted ks a b"
  shows "last_upto ks x a b k"
proof -
  have k: "a \<le> k" "k < b" "ks ! k \<le> x" "k + 1 < b \<longrightarrow> x < ks ! (k + 1)" using assms(1) by (auto simp: run_upto_def)
  have "x < ks ! m" if "k < m" "m < b" for m
  proof -
    have "x < ks ! (k + 1)" "k + 1 \<le> m" "a \<le> k + 1" using k that by auto
    then show ?thesis using assms(2) that(2) unfolding table_sorted_def by (meson less_le_trans)
  qed
  then show ?thesis using k by (simp add: last_upto_def)
qed

lemma search_run:
  fixes ks :: "'a :: linorder list"
  assumes "table_of read sz ks" "a < b" "b \<le> length ks" "ks ! a \<le> x"
  shows "\<exists>i. steps_to (\<lambda>i. read (a * unat sz + i * unat sz)) x (b - a) 0 = Inr (Suc i) \<and> run_upto ks x a b (a + i)"
proof -
  have r: "read (a * unat sz + i * unat sz) = Inr (ks ! (a + i))" if "i < b - a" for i
    using assms(1,3) that by (simp add: table_of_def flip: add_mult_distrib)
  obtain j where j: "steps_to (\<lambda>i. read (a * unat sz + i * unat sz)) x (b - a) 0 = Inr j" "j \<le> b - a"
      "\<forall>l. l < j \<longrightarrow> ks ! (a + l) \<le> x" "j < b - a \<longrightarrow> x < ks ! (a + j)"
    using steps_to_finds [of "b - a" _ "\<lambda>i. ks ! (a + i)" 0 x, OF r] by auto
  have "j \<noteq> 0"
  proof
    assume "j = 0"
    then show False using j(4) assms(2,4) by simp
  qed
  then obtain i where i: "j = Suc i" by (cases j) auto
  have "ks ! l \<le> x" if "a \<le> l" "l \<le> a + i" for l
    using j(3) i that by (metis le_add_diff_inverse less_Suc_eq_le nat_add_left_cancel_le)
  then have "run_upto ks x a b (a + i)" using j(2,4) i by (auto simp: run_upto_def)
  then show ?thesis using j(1) i by blast
qed

lemma search_table:
  fixes ks :: "'a :: linorder list"
  assumes "table_of read sz ks" "a < b" "b \<le> length ks" "table_sorted ks a b" "ks ! a \<le> x"
  shows "\<exists>i. steps_to (\<lambda>i. read (a * unat sz + i * unat sz)) x (b - a) 0 = Inr (Suc i) \<and> last_upto ks x a b (a + i)"
  using search_run [OF assms(1-3,5)] run_upto_last assms(4) by blast

lemma table_start:
  assumes "n * unat sz < 2 ^ 32" "unat w < n"
  shows "unat (w * sz) = unat w * unat (sz :: u32)"
proof -
  have "unat w * unat sz < 2 ^ 32" using assms by (meson le_less_trans less_imp_le mult_le_mono1)
  then show ?thesis using unat_mult_lem [of w sz] by simp
qed

text \<open>
  \<^verbatim>\<open>bpf_prog_linfo__lfind\<close> on sorted records returns the last record, not counting the skipped ones, that does not
  lie behind the instruction, and nothing exactly if there is none.
\<close>

theorem bpf_prog_linfo__lfind_correct:
  assumes "table_of (read_u32 (raw_linfo pl)) (rec_size pl) offs" "length offs = unat (nr_linfo pl)" "sorted offs"
  shows "if \<exists>k. unat nr_skip \<le> k \<and> k < length offs \<and> offs ! k \<le> insn_off
    then \<exists>k. bpf_prog_linfo__lfind pl insn_off nr_skip = Inr (Some (k * unat (rec_size pl))) \<and>
           last_upto offs insn_off (unat nr_skip) (length offs) k
    else bpf_prog_linfo__lfind pl insn_off nr_skip = Inr None"
proof (cases "unat nr_skip < length offs")
  case False
  then have "nr_linfo pl \<le> nr_skip" using assms(2) by (simp add: word_le_nat_alt)
  then show ?thesis using False by (auto simp: bpf_prog_linfo__lfind_def)
next
  case True
  then have lt: "\<not> nr_linfo pl \<le> nr_skip" using assms(2) by (simp add: word_le_nat_alt)
  note st = table_start [OF conjunct2 [OF assms(1) [unfolded table_of_def]] True]
  have first: "read_u32 (raw_linfo pl) (unat nr_skip * unat (rec_size pl)) = Inr (offs ! unat nr_skip)"
    using assms(1) True by (simp add: table_of_def)
  have s: "table_sorted offs (unat nr_skip) (length offs)" using assms(3) by (auto simp: table_sorted_def sorted_nth_mono)
  have n: "unat (nr_linfo pl - nr_skip) = length offs - unat nr_skip" using lt assms(2) by (simp add: unat_sub)
  show ?thesis
  proof (cases "insn_off < offs ! unat nr_skip")
    case less: True
    then have "\<not> (\<exists>k. unat nr_skip \<le> k \<and> k < length offs \<and> offs ! k \<le> insn_off)"
      using s by (auto simp: table_sorted_def not_le intro: less_le_trans)
    then show ?thesis using lt less first by (simp add: bpf_prog_linfo__lfind_def Let_def st)
  next
    case False
    then obtain i where i: "steps_to (\<lambda>i. read_u32 (raw_linfo pl) (unat nr_skip * unat (rec_size pl) + i * unat (rec_size pl))) insn_off
          (length offs - unat nr_skip) 0 = Inr (Suc i)" "last_upto offs insn_off (unat nr_skip) (length offs) (unat nr_skip + i)"
      using search_table [OF assms(1) True _ s] by (auto simp: not_less)
    have "bpf_prog_linfo__lfind pl insn_off nr_skip = Inr (Some ((unat nr_skip + i) * unat (rec_size pl)))"
      using lt False first i(1) by (simp add: bpf_prog_linfo__lfind_def Let_def st n add_mult_distrib)
    moreover have "\<exists>k. unat nr_skip \<le> k \<and> k < length offs \<and> offs ! k \<le> insn_off"
      using True False by (intro exI [of _ "unat nr_skip"]) auto
    ultimately show ?thesis using i(2) by auto
  qed
qed

subsection \<open>The functions\<close>

definition func_start :: "bpf_prog_linfo \<Rightarrow> nat \<Rightarrow> nat" where
  "func_start pl f = unat (jited_linfo_func_idx pl ! f)"

definition func_end :: "bpf_prog_linfo \<Rightarrow> nat \<Rightarrow> nat" where
  "func_end pl f = func_start pl f + unat (nr_jited_linfo_per_func pl ! f)"

definition increasing :: "u64 list \<Rightarrow> nat \<Rightarrow> nat \<Rightarrow> bool" where
  "increasing addrs a b \<longleftrightarrow> (\<forall>j. a \<le> j \<and> j + 1 < b \<longrightarrow> addrs ! j < addrs ! (j + 1))"

lemma increasing_sorted:
  assumes "increasing addrs a b"
  shows "table_sorted addrs a b"
  unfolding table_sorted_def
proof (intro allI impI)
  fix i j
  assume a: "a \<le> i \<and> i \<le> j \<and> j < b"
  then have "i \<le> j" "j < b" by simp_all
  then show "addrs ! i \<le> addrs ! j"
  proof (induction j rule: dec_induct)
    case (step n)
    then have "addrs ! n < addrs ! Suc n" using assms a by (auto simp: increasing_def)
    then show ?case using step by (simp add: less_imp_le order_trans)
  qed simp
qed

text \<open>The functions before \<open>f\<close> lie one behind the other, each starts at its address, and their addresses increase.\<close>

definition dissected :: "u64 list \<Rightarrow> u64 list \<Rightarrow> bpf_prog_linfo \<Rightarrow> nat \<Rightarrow> nat \<Rightarrow> nat \<Rightarrow> bool" where
  "dissected addrs ks pl prev_i i f \<longleftrightarrow>
     length (jited_linfo_func_idx pl) = f \<and> length (nr_jited_linfo_per_func pl) + 1 = f \<and> f \<le> unat (nr_jited_func pl) \<and>
     prev_i < i \<and> i \<le> length addrs \<and> func_start pl 0 = 0 \<and> func_start pl (f - 1) = prev_i \<and>
     (\<forall>g. g + 1 < f \<longrightarrow> func_end pl g = func_start pl (g + 1) \<and> increasing addrs (func_start pl g) (func_start pl (g + 1))) \<and>
     (\<forall>g. g + 1 < f \<longrightarrow> func_start pl g < func_start pl (g + 1)) \<and>
     (\<forall>g < f. addrs ! func_start pl g = ks ! g \<and> func_start pl g < i) \<and> increasing addrs prev_i i"

definition same_table :: "bpf_prog_linfo \<Rightarrow> bpf_prog_linfo \<Rightarrow> bool" where
  "same_table pl pl' \<longleftrightarrow> raw_linfo pl' = raw_linfo pl \<and> raw_jited_linfo pl' = raw_jited_linfo pl \<and> nr_linfo pl' = nr_linfo pl \<and>
     nr_jited_func pl' = nr_jited_func pl \<and> rec_size pl' = rec_size pl \<and> jited_rec_size pl' = jited_rec_size pl"

lemma unat_of_small: "m < 2 ^ 32 \<Longrightarrow> unat (of_nat m :: u32) = m"
  by (simp add: unat_of_nat take_bit_nat_eq_self_iff)

lemma dissected_found:
  assumes d: "dissected addrs ks pl prev_i i f" and i: "i < length addrs" "addrs ! i = ks ! f" "f < unat (nr_jited_func pl)"
    and small: "length addrs < 2 ^ 32"
  shows "dissected addrs ks (pl\<lparr>jited_linfo_func_idx := jited_linfo_func_idx pl @ [of_nat i],
      nr_jited_linfo_per_func := nr_jited_linfo_per_func pl @ [of_nat (i - prev_i)]\<rparr>) i (i + 1) (f + 1)" (is "dissected _ _ ?pl _ _ _")
proof -
  have l: "length (jited_linfo_func_idx pl) = f" "length (nr_jited_linfo_per_func pl) + 1 = f" "prev_i < i" "f > 0"
    using d by (auto simp: dissected_def)
  have old: "func_start ?pl g = func_start pl g" if "g < f" for g using that l by (simp add: func_start_def nth_append)
  have olde: "func_end ?pl g = func_end pl g" if "g + 1 < f" for g using that l old [of g] by (simp add: func_end_def nth_append)
  have new: "func_start ?pl f = i" using l i small unat_of_small [of i] by (simp add: func_start_def nth_append)
  have "nr_jited_linfo_per_func ?pl ! (f - 1) = of_nat (i - prev_i)" 
  proof -
    have "f - 1 = length (nr_jited_linfo_per_func pl)" using l by simp
    then show ?thesis by (simp del: of_nat_diff)
  qed
  moreover have "unat (of_nat (i - prev_i) :: u32) = i - prev_i" using i small by (intro unat_of_small) simp
  ultimately have newe: "func_end ?pl (f - 1) = i"
    using l old [of "f - 1"] d unfolding func_end_def by (simp add: dissected_def del: of_nat_diff)
  have "func_end ?pl g = func_start ?pl (g + 1) \<and> increasing addrs (func_start ?pl g) (func_start ?pl (g + 1)) \<and>
      func_start ?pl g < func_start ?pl (g + 1)" if "g + 1 < f + 1" for g
  proof (cases "g + 1 < f")
    case True
    then show ?thesis using d old olde by (simp add: dissected_def)
  next
    case False
    then have "g = f - 1" "g + 1 = f" using that l by auto
    then show ?thesis using new newe old [of g] d l by (simp add: dissected_def)
  qed
  moreover have "addrs ! func_start ?pl g = ks ! g \<and> func_start ?pl g < i + 1" if "g < f + 1" for g
    using that d old new i by (cases "g = f") (auto simp: dissected_def less_SucI)
  ultimately show ?thesis using d l i old [of 0] new by (simp add: dissected_def increasing_def)
qed

lemma dissect_from_ok:
  assumes "dissected addrs ks pl prev_i i f" "last_addr = addrs ! (i - 1)"
    and "table_of (read_u64 (raw_jited_linfo pl)) (jited_rec_size pl) addrs" "length addrs = unat (nr_linfo pl)"
    and "dissect_from ks lens last_addr prev_i i f pl = Inr (prev', f', pl')"
  shows "same_table pl pl' \<and> (\<exists>i'. dissected addrs ks pl' prev' i' f')"
  using assms
proof (induction ks lens last_addr prev_i i f pl rule: dissect_from.induct)
  case (1 ks lens last_addr prev_i i f pl)
  have small: "length addrs < 2 ^ 32" using "1.prems"(4) unsigned_less [of "nr_linfo pl", where 'a = nat] by simp
  note run = "1.prems"(5) [unfolded dissect_from.simps [of ks lens last_addr prev_i i f pl]]
  show ?case
  proof (cases "i < unat (nr_linfo pl) \<and> f < unat (nr_jited_func pl)")
    case False
    then show ?thesis using "1.prems"(1) run by (auto simp: same_table_def)
  next
    case True
    have addr: "read_u64 (raw_jited_linfo pl) (i * unat (jited_rec_size pl)) = Inr (addrs ! i)"
      using "1.prems"(3,4) True by (simp add: table_of_def)
    obtain s where s: "array_get ks f = Inr s" using run True addr
      by (auto simp: rbind_Inr_iff)
    then have ks: "s = ks ! f" by (simp add: array_get_iff)
    show ?thesis
    proof (cases "s = addrs ! i")
      case eq: True
      let ?pl = "pl\<lparr>jited_linfo_func_idx := jited_linfo_func_idx pl @ [of_nat i],
        nr_jited_linfo_per_func := nr_jited_linfo_per_func pl @ [of_nat (i - prev_i)]\<rparr>"
      obtain before len where b: "array_get ks (f - 1) = Inr before" "array_get lens (f - 1) = Inr len"
          "\<not> last_addr - before + 1 > ucast len" "dissect_from ks lens (addrs ! i) i (i + 1) (f + 1) ?pl = Inr (prev', f', pl')"
        using run True addr s eq by (auto simp: rbind_Inr_iff split: if_splits)
      have d: "dissected addrs ks ?pl i (i + 1) (f + 1)"
        by (rule dissected_found [OF "1.prems"(1)]) (use True "1.prems"(4) eq ks small in simp_all)
      have "same_table ?pl pl' \<and> (\<exists>i'. dissected addrs ks pl' prev' i' f')"
        by (rule "1.IH"(1) [OF True eq b(3)]) (use d b(4) "1.prems"(3,4) in simp_all)
      then show ?thesis by (simp add: same_table_def)
    next
      case ne: False
      then have r: "\<not> addrs ! i \<le> last_addr" "dissect_from ks lens (addrs ! i) prev_i (i + 1) f pl = Inr (prev', f', pl')"
        using run True addr s by (auto simp: rbind_Inr_iff split: if_splits)
      have "increasing addrs prev_i (i + 1)"
        unfolding increasing_def
      proof (intro allI impI)
        fix j
        assume j: "prev_i \<le> j \<and> j + 1 < i + 1"
        show "addrs ! j < addrs ! (j + 1)"
        proof (cases "j + 1 = i")
          case True
          then have "j = i - 1" by simp
          then show ?thesis using r(1) "1.prems"(2) True by simp
        next
          case False
          then show ?thesis using "1.prems"(1) j by (auto simp: dissected_def increasing_def)
        qed
      qed
      then have "dissected addrs ks pl prev_i (i + 1) f" using "1.prems"(1,4) True by (auto simp: dissected_def less_SucI)
      then show ?thesis using "1.IH"(2) [OF True ne r(1)] r(2) "1.prems"(3,4) by simp
    qed
  qed
qed

lemma dissect_ok:
  assumes "dissect_jited_func pl0 ks lens = Inr pl" "table_of (read_u64 (raw_jited_linfo pl0)) (jited_rec_size pl0) addrs"
    "length addrs = unat (nr_linfo pl0)" "0 < nr_linfo pl0" "0 < nr_jited_func pl0"
  shows "same_table pl0 pl" "length (jited_linfo_func_idx pl) = unat (nr_jited_func pl0)"
    "length (nr_jited_linfo_per_func pl) = unat (nr_jited_func pl0)" "func_start pl 0 = 0"
    "\<forall>g < unat (nr_jited_func pl0). addrs ! func_start pl g = ks ! g \<and> func_start pl g < func_end pl g \<and> func_end pl g \<le> length addrs \<and>
       (if g + 1 = unat (nr_jited_func pl0) then func_end pl g = length addrs
        else func_end pl g = func_start pl (g + 1) \<and> increasing addrs (func_start pl g) (func_start pl (g + 1)))"
proof -
  let ?pl = "pl0\<lparr>jited_linfo_func_idx := [0], nr_jited_linfo_per_func := []\<rparr>"
  have n: "0 < length addrs" "0 < unat (nr_jited_func pl0)" using assms(3-5) by (simp_all add: word_less_nat_alt)
  have read0: "read_u64 (raw_jited_linfo pl0) 0 = Inr (addrs ! 0)" using assms(2) n by (force simp: table_of_def)
  obtain prev f pl1 where r: "array_get ks 0 = Inr (addrs ! 0)" "dissect_from ks lens (addrs ! 0) 0 1 1 ?pl = Inr (prev, f, pl1)"
      "f = unat (nr_jited_func pl1)" "pl = pl1\<lparr>nr_jited_linfo_per_func := nr_jited_linfo_per_func pl1 @ [nr_linfo pl1 - of_nat prev]\<rparr>"
    using assms(1) read0 by (auto simp: dissect_jited_func_def rbind_Inr_iff split: if_splits)
  have "dissected addrs ks ?pl 0 1 1"
    using n r(1) by (simp add: dissected_def func_start_def increasing_def array_get_iff Suc_le_eq)
  then have D: "same_table ?pl pl1 \<and> (\<exists>i'. dissected addrs ks pl1 prev i' f)"
    by (rule dissect_from_ok [OF _ _ _ _ r(2)]) (use assms(2,3) in simp_all)
  then obtain i' where i': "dissected addrs ks pl1 prev i' f" by blast
  have nf: "f = unat (nr_jited_func pl0)" and nl: "nr_linfo pl1 = nr_linfo pl0" using D r(3) by (simp_all add: same_table_def)
  show "same_table pl0 pl" using D r(4) by (simp add: same_table_def)
  show len: "length (jited_linfo_func_idx pl) = unat (nr_jited_func pl0)" "length (nr_jited_linfo_per_func pl) = unat (nr_jited_func pl0)"
    using i' nf r(4) by (auto simp: dissected_def)
  have st: "func_start pl g = func_start pl1 g" for g by (simp add: func_start_def r(4))
  have en: "func_end pl g = func_end pl1 g" if "g + 1 < f" for g
  proof -
    have "nr_jited_linfo_per_func pl ! g = nr_jited_linfo_per_func pl1 ! g" using that i' r(4) by (simp add: nth_append dissected_def)
    then show ?thesis by (simp add: func_end_def st)
  qed
  have fe: "func_end pl (f - 1) = length addrs"
  proof -
    have l: "f - 1 = length (nr_jited_linfo_per_func pl1)" "prev < length addrs" "func_start pl1 (f - 1) = prev" using i' by (auto simp: dissected_def)
    have "prev < 2 ^ 32" using l(2) assms(3) unsigned_less [of "nr_linfo pl0", where 'a = nat] by simp
    then have "unat (nr_linfo pl1 - of_nat prev) = length addrs - prev"
      using l(2) assms(3) nl unat_of_small [of prev] by (simp add: unat_sub word_le_nat_alt)
    moreover have "nr_jited_linfo_per_func pl ! (f - 1) = nr_linfo pl1 - of_nat prev" using l(1) r(4) by simp
    ultimately show ?thesis using l by (simp add: func_end_def st)
  qed
  show "func_start pl 0 = 0" using i' st by (simp add: dissected_def)
  have ord: "func_start pl1 g < length addrs \<and> (g + 1 < f \<longrightarrow> func_start pl1 g < func_start pl1 (g + 1))" if "g < f" for g
    using i' that by (auto simp: dissected_def intro: less_le_trans)
  show "\<forall>g < unat (nr_jited_func pl0). addrs ! func_start pl g = ks ! g \<and> func_start pl g < func_end pl g \<and> func_end pl g \<le> length addrs \<and>
       (if g + 1 = unat (nr_jited_func pl0) then func_end pl g = length addrs
        else func_end pl g = func_start pl (g + 1) \<and> increasing addrs (func_start pl g) (func_start pl (g + 1)))"
  proof (intro allI impI)
    fix g
    assume g: "g < unat (nr_jited_func pl0)"
    show "addrs ! func_start pl g = ks ! g \<and> func_start pl g < func_end pl g \<and> func_end pl g \<le> length addrs \<and>
       (if g + 1 = unat (nr_jited_func pl0) then func_end pl g = length addrs
        else func_end pl g = func_start pl (g + 1) \<and> increasing addrs (func_start pl g) (func_start pl (g + 1)))"
    proof (cases "g + 1 = f")
      case True
      then have "g = f - 1" by simp
      then have "func_end pl g = length addrs" using fe by simp
      then show ?thesis using True i' st g nf ord [of g] by (auto simp: dissected_def)
    next
      case False
      then have "g + 1 < f" using g nf by simp
      then show ?thesis using i' st en [of g] ord [of g] ord [of "g + 1"] False nf by (auto simp: dissected_def)
    qed
  qed
qed

text \<open>
  C32. The search for an address in the tables that \<^verbatim>\<open>dissect_jited_func\<close> accepts (of less than 4 GB). The records of a
  function go from its address to the address of the next function, and to the end of the table for the last one; the
  search stays within them. It finds nothing exactly if all of them are skipped or the first one that is not lies behind
  the address; otherwise it returns the record in front of the first one behind the address. The addresses of every
  function but the last are checked to increase, and where they do this is the last record that does not lie behind.
\<close>

theorem bpf_prog_linfo__lfind_addr_func_correct:
  assumes new: "dissect_jited_func pl0 ks lens = Inr pl" "table_of (read_u64 (raw_jited_linfo pl0)) (jited_rec_size pl0) addrs"
      "length addrs = unat (nr_linfo pl0)" "length addrs * unat (rec_size pl0) < 2 ^ 32"
    and f: "addrs \<noteq> []" "unat f < unat (nr_jited_func pl0)"
  shows "\<exists>a b. addrs ! a = ks ! unat f \<and> a < b \<and> b \<le> length addrs \<and>
      (if unat f + 1 = unat (nr_jited_func pl0) then b = length addrs
       else addrs ! b = ks ! (unat f + 1) \<and> increasing addrs a b) \<and>
      (if a + unat nr_skip < b \<and> addrs ! (a + unat nr_skip) \<le> addr
       then \<exists>k. bpf_prog_linfo__lfind_addr_func pl addr f nr_skip = Inr (Some (k * unat (rec_size pl0))) \<and>
              run_upto addrs addr (a + unat nr_skip) b k \<and>
              (increasing addrs a b \<longrightarrow> last_upto addrs addr (a + unat nr_skip) b k)
       else bpf_prog_linfo__lfind_addr_func pl addr f nr_skip = Inr None)"
proof -
  have pos: "0 < nr_linfo pl0" "0 < nr_jited_func pl0"
    using f new(3) by (auto simp: word_less_nat_alt simp flip: length_greater_0_conv)
  note D = dissect_ok [OF new(1-3) pos]
  let ?f = "unat f" and ?skip = "unat nr_skip"
  define a b where "a = func_start pl ?f" and "b = func_end pl ?f"
  have seg: "addrs ! a = ks ! ?f" "a < b" "b \<le> length addrs"
      "if ?f + 1 = unat (nr_jited_func pl0) then b = length addrs else addrs ! b = ks ! (?f + 1) \<and> increasing addrs a b"
  proof -
    have F: "addrs ! a = ks ! ?f \<and> a < b \<and> b \<le> length addrs \<and> (if ?f + 1 = unat (nr_jited_func pl0) then b = length addrs
        else b = func_start pl (?f + 1) \<and> increasing addrs a (func_start pl (?f + 1)))"
      using D(5) f(2) unfolding a_def b_def by blast
    have N: "addrs ! func_start pl (?f + 1) = ks ! (?f + 1)" if "?f + 1 \<noteq> unat (nr_jited_func pl0)"
    proof -
      have "?f + 1 < unat (nr_jited_func pl0)" using that f(2) by linarith
      then show ?thesis using D(5) by blast
    qed
    show "addrs ! a = ks ! ?f" "a < b" "b \<le> length addrs" using F by simp_all
    show "if ?f + 1 = unat (nr_jited_func pl0) then b = length addrs else addrs ! b = ks ! (?f + 1) \<and> increasing addrs a b"
      using F N by (auto simp: a_def split: if_splits)
  qed
  have same: "nr_jited_func pl = nr_jited_func pl0" "rec_size pl = rec_size pl0" "jited_rec_size pl = jited_rec_size pl0"
      "raw_jited_linfo pl = raw_jited_linfo pl0"
    using D(1) by (simp_all add: same_table_def)
  obtain w cnt where w: "array_get (jited_linfo_func_idx pl) ?f = Inr w" "unat w = a"
      "array_get (nr_jited_linfo_per_func pl) ?f = Inr cnt" "unat cnt = b - a"
    using D(2,3) f(2) by (simp add: array_get_def a_def b_def func_start_def func_end_def)
  have nf: "\<not> nr_jited_func pl \<le> f" using f(2) same(1) by (simp add: word_le_nat_alt)
  have "if a + ?skip < b \<and> addrs ! (a + ?skip) \<le> addr
       then \<exists>k. bpf_prog_linfo__lfind_addr_func pl addr f nr_skip = Inr (Some (k * unat (rec_size pl0))) \<and>
              run_upto addrs addr (a + ?skip) b k \<and> (increasing addrs a b \<longrightarrow> last_upto addrs addr (a + ?skip) b k)
       else bpf_prog_linfo__lfind_addr_func pl addr f nr_skip = Inr None"
  proof (cases "cnt \<le> nr_skip")
    case True
    then have "b \<le> a + ?skip" using w(4) seg(2) by (simp add: word_le_nat_alt)
    then show ?thesis using True nf w(3) by (simp add: bpf_prog_linfo__lfind_addr_func_def)
  next
    case False
    then have lt: "a + ?skip < b" using w(4) by (simp add: word_le_nat_alt)
    let ?start = "w + nr_skip"
    have big: "length addrs < 2 ^ 32" using new(3) unsigned_less [of "nr_linfo pl0", where 'a = nat] by simp
    have start: "unat ?start = a + ?skip" using lt seg(3) big w(2) unat_add_lem [of w nr_skip] by simp
    have jited: "unat (?start * jited_rec_size pl0) = (a + ?skip) * unat (jited_rec_size pl0)"
      using table_start [OF conjunct2 [OF new(2) [unfolded table_of_def]], of ?start] start lt seg(3) by simp
    have raw: "unat (?start * rec_size pl0) = (a + ?skip) * unat (rec_size pl0)"
      using table_start [OF new(4), of ?start] start lt seg(3) by simp
    have n: "unat (cnt - nr_skip) = b - (a + ?skip)" using False w(4) by (simp add: unat_sub word_le_nat_alt)
    have first: "read_u64 (raw_jited_linfo pl0) ((a + ?skip) * unat (jited_rec_size pl0)) = Inr (addrs ! (a + ?skip))"
      using new(2) lt seg(3) by (simp add: table_of_def)
    show ?thesis
    proof (cases "addr < addrs ! (a + ?skip)")
      case less: True
      then show ?thesis using False lt first nf w jited same by (simp add: bpf_prog_linfo__lfind_addr_func_def Let_def)
    next
      case ge: False
      then obtain i where i: "steps_to (\<lambda>i. read_u64 (raw_jited_linfo pl0) ((a + ?skip) * unat (jited_rec_size pl0) + i * unat (jited_rec_size pl0)))
            addr (b - (a + ?skip)) 0 = Inr (Suc i)" "run_upto addrs addr (a + ?skip) b (a + ?skip + i)"
        using search_run [OF new(2) lt seg(3), of addr] by (auto simp: not_less)
      have "bpf_prog_linfo__lfind_addr_func pl addr f nr_skip = Inr (Some ((a + ?skip + i) * unat (rec_size pl0)))"
        using False ge first nf w i(1) jited raw same n
        by (simp add: bpf_prog_linfo__lfind_addr_func_def Let_def add_mult_distrib)
      moreover have "last_upto addrs addr (a + ?skip) b (a + ?skip + i)" if "increasing addrs a b"
        using run_upto_last [OF i(2)] increasing_sorted [OF that] by (auto simp: table_sorted_def)
      ultimately show ?thesis using i(2) lt ge by auto
    qed
  qed
  then show ?thesis using seg by blast
qed

subsection \<open>An example\<close>

text \<open>Three records, the first two in one function and the third in another.\<close>

definition lx_linfo :: bpf_prog_linfo where
  "lx_linfo = \<lparr>raw_linfo = words_bytes [0, 3, 5], raw_jited_linfo = words_bytes [100, 0, 104, 0, 200, 0],
     nr_jited_linfo_per_func = [], jited_linfo_func_idx = [], nr_linfo = 3, nr_jited_func = 2, rec_size = 4, jited_rec_size = 8\<rparr>"

definition lx_dissected :: bpf_prog_linfo where
  "lx_dissected = lx_linfo\<lparr>nr_jited_linfo_per_func := [2, 1], jited_linfo_func_idx := [0, 2]\<rparr>"

lemma lx_tables:
  "table_of (read_u32 (raw_linfo lx_linfo)) (rec_size lx_linfo) [0, 3, 5]"
  "table_of (read_u64 (raw_jited_linfo lx_linfo)) (jited_rec_size lx_linfo) [100, 104, 200]"
proof -
  have "\<forall>k \<in> {0, 1, 2}. read_u32 (raw_linfo lx_linfo) (k * 4) = Inr ([0, 3, 5] ! k)" by code_simp
  then show "table_of (read_u32 (raw_linfo lx_linfo)) (rec_size lx_linfo) [0, 3, 5]"
    by (auto simp: table_of_def lx_linfo_def less_Suc_eq)
  have "\<forall>k \<in> {0, 1, 2}. read_u64 (raw_jited_linfo lx_linfo) (k * 8) = Inr ([100, 104, 200] ! k)" by code_simp
  then show "table_of (read_u64 (raw_jited_linfo lx_linfo)) (jited_rec_size lx_linfo) [100, 104, 200]"
    by (auto simp: table_of_def lx_linfo_def less_Suc_eq)
qed

lemma lx_dissect: "dissect_jited_func lx_linfo [100, 200] [8, 8] = Inr lx_dissected"
  by code_simp

theorem bpf_prog_linfo__lfind_correct_witness:
  "\<exists>k. bpf_prog_linfo__lfind lx_linfo 4 1 = Inr (Some (k * unat (rec_size lx_linfo))) \<and> last_upto [0, 3, 5] (4 :: u32) 1 3 k"
proof -
  let ?offs = "[0, 3, 5] :: u32 list"
  have l: "length ?offs = unat (nr_linfo lx_linfo)" "sorted ?offs" by (simp_all add: lx_linfo_def)
  have "unat (1 :: u32) \<le> 1 \<and> 1 < length ?offs \<and> ?offs ! 1 \<le> 4" by simp
  then have "\<exists>k. unat (1 :: u32) \<le> k \<and> k < length ?offs \<and> ?offs ! k \<le> 4" by blast
  moreover have "unat (1 :: u32) = 1" "length ?offs = 3" by simp_all
  ultimately show ?thesis using bpf_prog_linfo__lfind_correct [OF lx_tables(1) l, of 1 4] by metis
qed

text \<open>
  The loop ends with the start of the last function, so the addresses of its records are not checked: here they fall,
  and the search for 95 finds nothing although two records do not lie behind it.
\<close>

definition lx_falling :: bpf_prog_linfo where
  "lx_falling = lx_linfo\<lparr>raw_jited_linfo := words_bytes [100, 0, 90, 0, 80, 0], nr_jited_func := 1\<rparr>"

definition lx_falling_dissected :: bpf_prog_linfo where
  "lx_falling_dissected = lx_falling\<lparr>nr_jited_linfo_per_func := [3], jited_linfo_func_idx := [0]\<rparr>"

lemma last_function_unchecked: "dissect_jited_func lx_falling [100] [8] = Inr lx_falling_dissected"
  by code_simp

lemma lx_falling_table: "table_of (read_u64 (raw_jited_linfo lx_falling)) (jited_rec_size lx_falling) [100, 90, 80]"
proof -
  have "\<forall>k \<in> {0, 1, 2}. read_u64 (raw_jited_linfo lx_falling) (k * 8) = Inr ([100, 90, 80] ! k)" by code_simp
  then show ?thesis by (auto simp: table_of_def lx_falling_def lx_linfo_def less_Suc_eq)
qed

theorem bpf_prog_linfo__lfind_addr_func_correct_witness:
  "(\<exists>a b. [100, 104, 200] ! a = (100 :: u64) \<and> a < b \<and> b \<le> 3 \<and>
     (if a + 0 < b \<and> [100, 104, 200] ! (a + 0) \<le> (110 :: u64)
      then \<exists>k. bpf_prog_linfo__lfind_addr_func lx_dissected 110 0 0 = Inr (Some (k * unat (rec_size lx_linfo))) \<and>
             run_upto [100, 104, 200] (110 :: u64) (a + 0) b k
      else bpf_prog_linfo__lfind_addr_func lx_dissected 110 0 0 = Inr None)) \<and>
   (\<exists>a b. [100, 90, 80] ! a = (100 :: u64) \<and> a < b \<and> b = 3 \<and>
     (if a + 0 < b \<and> [100, 90, 80] ! (a + 0) \<le> (95 :: u64)
      then \<exists>k. bpf_prog_linfo__lfind_addr_func lx_falling_dissected 95 0 0 = Inr (Some (k * unat (rec_size lx_falling)))
      else bpf_prog_linfo__lfind_addr_func lx_falling_dissected 95 0 0 = Inr None))"
proof (rule conjI, goal_cases)
  case 1
  let ?addrs = "[100, 104, 200] :: u64 list"
  have n: "length ?addrs = unat (nr_linfo lx_linfo)" "length ?addrs * unat (rec_size lx_linfo) < 2 ^ 32" "?addrs \<noteq> []"
    "unat (0 :: u32) < unat (nr_jited_func lx_linfo)"
    by (simp_all add: lx_linfo_def)
  have e: "unat (0 :: u32) = 0" "[100, 200] ! 0 = (100 :: u64)" "length ?addrs = 3" by simp_all
  show ?case
    using bpf_prog_linfo__lfind_addr_func_correct [OF lx_dissect lx_tables(2) n, of 0 110] unfolding e
    by (elim exE conjE) (intro exI conjI, assumption+, auto split: if_splits)
next
  case 2
  let ?addrs = "[100, 90, 80] :: u64 list"
  have n: "length ?addrs = unat (nr_linfo lx_falling)" "length ?addrs * unat (rec_size lx_falling) < 2 ^ 32" "?addrs \<noteq> []"
    "unat (0 :: u32) < unat (nr_jited_func lx_falling)" "unat (0 :: u32) + 1 = unat (nr_jited_func lx_falling)"
    by (simp_all add: lx_falling_def lx_linfo_def)
  have e: "unat (0 :: u32) = 0" "[100] ! 0 = (100 :: u64)" "length ?addrs = 3" by simp_all
  show ?case
    using bpf_prog_linfo__lfind_addr_func_correct [OF last_function_unchecked lx_falling_table n(1-4), of 0 95] n(5) unfolding e
    by (elim exE conjE) (intro exI conjI, assumption+, auto split: if_splits)
qed

end
