(* ===== verification/Btf_Dump.thy ===== *)
theory Btf_Dump
  imports Btf_Query Hashmap Decimal
begin

text \<open>
  The BTF to C converter (\<^verbatim>\<open>btf_dump.c\<close>): the order in which types are defined, and the C text of their
  definitions and declarations.

  The text is what the callback \<open>printf_fn\<close> has been given, the field \<open>dump_text\<close> of the state. A step returns
  a value or an error together with the state, as the code leaves a state behind after an error as well. The functions
  that return nothing in C fail with \<open>OOB\<close> or \<open>NONTERM\<close> only.
\<close>

subsection \<open>State\<close>

datatype btf_dump_type_order_state = NOT_ORDERED | ORDERING | ORDERED
datatype btf_dump_type_emit_state = NOT_EMITTED | EMITTING | EMITTED

record btf_dump_type_aux_state =
  order_state :: btf_dump_type_order_state
  emit_state :: btf_dump_type_emit_state
  fwd_emitted :: bool
  name_resolved :: bool
  referenced :: bool

definition aux_zero :: btf_dump_type_aux_state where
  "aux_zero = \<lparr>order_state = NOT_ORDERED, emit_state = NOT_EMITTED, fwd_emitted = False, name_resolved = False, referenced = False\<rparr>"

type_synonym name_map = "(unit, string, nat) hashmap"

record btf_dump =
  dump_btf :: btf
  dump_text :: string
  dump_ptr_sz :: nat
  strip_mods :: bool
  last_id :: nat
  type_states :: "btf_dump_type_aux_state list"
  cached_names :: "string option list"
  emit_queue :: "nat list"
  emit_queue_cap :: nat
  decl_stack :: "nat list"
  decl_stack_cap :: nat
  type_names :: name_map
  ident_names :: name_map

text \<open>The arrays \<open>type_states\<close> and \<open>cached_names\<close> have as many elements as there is memory for them.\<close>

definition sizeof_btf_dump :: nat where "sizeof_btf_dump = 128"
definition sizeof_aux_state :: nat where "sizeof_aux_state = 4"

subsection \<open>Steps\<close>

type_synonym 'a dump = "btf_dump \<Rightarrow> 'a result \<times> btf_dump"

definition d_ret :: "'a \<Rightarrow> 'a dump" where "d_ret x = (\<lambda>d. (Inr x, d))"
definition d_fail :: "errno \<Rightarrow> 'a dump" where "d_fail e = (\<lambda>d. (Inl e, d))"

definition d_bind :: "'a dump \<Rightarrow> ('a \<Rightarrow> 'b dump) \<Rightarrow> 'b dump" where
  "d_bind m f = (\<lambda>d. case m d of (Inl e, d') \<Rightarrow> (Inl e, d') | (Inr x, d') \<Rightarrow> f x d')"

definition d_then :: "unit dump \<Rightarrow> 'b dump \<Rightarrow> 'b dump" where
  "d_then m n = d_bind m (\<lambda>_. n)"

definition d_get :: "(btf_dump \<Rightarrow> 'a result) \<Rightarrow> 'a dump" where "d_get f = (\<lambda>d. (f d, d))"
definition d_upd :: "(btf_dump \<Rightarrow> btf_dump) \<Rightarrow> unit dump" where "d_upd f = (\<lambda>d. (Inr (), f d))"

text \<open>A step that uses the state as it is.\<close>

definition d_with :: "(btf_dump \<Rightarrow> 'a dump) \<Rightarrow> 'a dump" where "d_with f = (\<lambda>d. f d d)"

definition d_when :: "bool \<Rightarrow> unit dump \<Rightarrow> unit dump" where "d_when c m = (if c then m else d_ret ())"

fun d_each :: "('x \<Rightarrow> unit dump) \<Rightarrow> 'x list \<Rightarrow> unit dump" where
  "d_each f [] = d_ret ()"
| "d_each f (x # xs) = d_then (f x) (d_each f xs)"

definition btf_dump_printf :: "string \<Rightarrow> unit dump" where
  "btf_dump_printf s = d_upd (\<lambda>d. d\<lparr>dump_text := dump_text d @ s\<rparr>)"

definition get_type :: "nat \<Rightarrow> btf_type dump" where
  "get_type i = d_get (\<lambda>d. rbind (btf__type_by_id (dump_btf d) i) (\<lambda>p. deref p OOB))"

definition get_state :: "nat \<Rightarrow> btf_dump_type_aux_state dump" where
  "get_state i = d_get (\<lambda>d. array_get (type_states d) i)"

definition upd_state :: "nat \<Rightarrow> (btf_dump_type_aux_state \<Rightarrow> btf_dump_type_aux_state) \<Rightarrow> unit dump" where
  "upd_state i f =
     d_bind (get_state i) (\<lambda>s. d_upd (\<lambda>d. d\<lparr>type_states := (type_states d)[i := f s]\<rparr>))"

definition set_order :: "nat \<Rightarrow> btf_dump_type_order_state \<Rightarrow> unit dump" where
  "set_order i s = upd_state i (\<lambda>a. a\<lparr>order_state := s\<rparr>)"

definition set_emit :: "nat \<Rightarrow> btf_dump_type_emit_state \<Rightarrow> unit dump" where
  "set_emit i s = upd_state i (\<lambda>a. a\<lparr>emit_state := s\<rparr>)"

definition btf_name_of :: "u32 \<Rightarrow> string option dump" where
  "btf_name_of off = d_get (\<lambda>d. btf__name_by_offset (dump_btf d) off)"

text \<open>A use of the string; a null pointer has none.\<close>

definition use_name :: "string option \<Rightarrow> string dump" where
  "use_name p = d_get (\<lambda>_. deref p OOB)"

subsection \<open>Creation\<close>

text \<open>The types that a type refers to and that are marked: the result of a function prototype is not among them.\<close>

definition mark_refs :: "btf_type \<Rightarrow> nat list result" where
  "mark_refs t =
     (case btf_kind t of
        BTF_KIND_INT \<Rightarrow> Inr []
      | BTF_KIND_ENUM \<Rightarrow> Inr []
      | BTF_KIND_FWD \<Rightarrow> Inr []
      | BTF_KIND_VOLATILE \<Rightarrow> Inr [unat (ref_type t)]
      | BTF_KIND_CONST \<Rightarrow> Inr [unat (ref_type t)]
      | BTF_KIND_RESTRICT \<Rightarrow> Inr [unat (ref_type t)]
      | BTF_KIND_PTR \<Rightarrow> Inr [unat (ref_type t)]
      | BTF_KIND_TYPEDEF \<Rightarrow> Inr [unat (ref_type t)]
      | BTF_KIND_FUNC \<Rightarrow> Inr [unat (ref_type t)]
      | BTF_KIND_VAR \<Rightarrow> Inr [unat (ref_type t)]
      | BTF_KIND_ARRAY \<Rightarrow> Inr [unat (a_index_type (btf_array t)), unat (a_type (btf_array t))]
      | BTF_KIND_STRUCT \<Rightarrow> Inr (map (\<lambda>m. unat (m_type m)) (btf_members t))
      | BTF_KIND_UNION \<Rightarrow> Inr (map (\<lambda>m. unat (m_type m)) (btf_members t))
      | BTF_KIND_FUNC_PROTO \<Rightarrow> Inr (map (\<lambda>p. unat (btf_param_t.p_type p)) (btf_params t))
      | BTF_KIND_DATASEC \<Rightarrow> Inr (map (\<lambda>v. unat (v_type v)) (btf_var_secinfos t))
      | BTF_KIND_UNKN \<Rightarrow> Inl EINVAL)"

definition mark_type :: "nat \<Rightarrow> unit dump" where
  "mark_type i =
     d_bind (get_type i) (\<lambda>t.
     d_bind (d_get (\<lambda>_. mark_refs t)) (\<lambda>refs.
     d_each (\<lambda>r. upd_state r (\<lambda>a. a\<lparr>referenced := True\<rparr>)) refs))"

definition btf_dump_mark_referenced :: "unit dump" where
  "btf_dump_mark_referenced = d_with (\<lambda>d. d_each mark_type [last_id d + 1..<btf__get_nr_types (dump_btf d) + 1])"

definition grow_array :: "alloc \<Rightarrow> 'a \<Rightarrow> nat \<Rightarrow> nat \<Rightarrow> 'a list \<Rightarrow> 'a list result" where
  "grow_array alloc zero elem_sz n xs =
     rbind (btf_ensure_mem alloc (length xs) elem_sz n) (\<lambda>c. Inr (xs @ replicate (c - length xs) zero))"

definition btf_dump_resize :: "alloc \<Rightarrow> unit dump" where
  "btf_dump_resize alloc =
     d_with (\<lambda>d.
     let n = btf__get_nr_types (dump_btf d) in
     if n \<le> last_id d then d_ret ()
     else d_bind (d_get (\<lambda>d. grow_array alloc aux_zero sizeof_aux_state (n + 1) (type_states d))) (\<lambda>ts.
          d_then (d_upd (\<lambda>d. d\<lparr>type_states := ts\<rparr>))
          (d_bind (d_get (\<lambda>d. grow_array alloc None sizeof_ptr (n + 1) (cached_names d))) (\<lambda>ns.
          d_then (d_upd (\<lambda>d. d\<lparr>cached_names := ns\<rparr>))
          (d_then (d_when (last_id d = 0) (d_then (set_order 0 ORDERED) (set_emit 0 EMITTED)))
          (d_then btf_dump_mark_referenced
          (d_upd (\<lambda>d. d\<lparr>last_id := n\<rparr>))))))))"

definition btf_dump__new :: "alloc \<Rightarrow> btf \<Rightarrow> btf_dump result" where
  "btf_dump__new alloc b =
     rbind (guard (alloc sizeof_btf_dump) ENOMEM) (\<lambda>_.
     rbind (btf__pointer_size b) (\<lambda>(psz, b').
     rbind (hashmap__new alloc str_hash_fn str_equal_fn ()) (\<lambda>tn.
     rbind (hashmap__new alloc str_hash_fn str_equal_fn ()) (\<lambda>idn.
     let d = \<lparr>dump_btf = b', dump_text = [], dump_ptr_sz = (if psz = 0 then sizeof_ptr else psz), strip_mods = False, last_id = 0,
              type_states = [], cached_names = [], emit_queue = [], emit_queue_cap = 0, decl_stack = [], decl_stack_cap = 0,
              type_names = tn, ident_names = idn\<rparr> in
     case btf_dump_resize alloc d of
       (Inl e, _) \<Rightarrow> Inl e
     | (Inr _, d') \<Rightarrow> Inr d'))))"

subsection \<open>The order of definitions\<close>

definition grown_cap :: "alloc \<Rightarrow> nat \<Rightarrow> nat \<Rightarrow> nat result" where
  "grown_cap alloc cnt old_cap =
     (if cnt \<ge> old_cap
      then let new_cap = max 16 (old_cap * 3 div 2) in
           if libbpf_reallocarray alloc new_cap 4 then Inr new_cap else Inl ENOMEM
      else Inr old_cap)"

definition btf_dump_add_emit_queue_id :: "alloc \<Rightarrow> nat \<Rightarrow> unit dump" where
  "btf_dump_add_emit_queue_id alloc i =
     d_bind (d_get (\<lambda>d. grown_cap alloc (length (emit_queue d)) (emit_queue_cap d))) (\<lambda>c.
     d_upd (\<lambda>d. d\<lparr>emit_queue_cap := c, emit_queue := emit_queue d @ [i]\<rparr>))"

text \<open>The state is set whether or not the step before fails.\<close>

definition d_always :: "'a dump \<Rightarrow> unit dump \<Rightarrow> 'a dump" where
  "d_always m n = (\<lambda>d. case m d of (r, d') \<Rightarrow> (case n d' of (Inl e, d2) \<Rightarrow> (Inl e, d2) | (Inr _, d2) \<Rightarrow> (r, d2)))"

text \<open>All types; the answer is whether one of them is part of a strong link.\<close>

fun order_any :: "(nat \<Rightarrow> bool dump) \<Rightarrow> nat list \<Rightarrow> bool dump" where
  "order_any recur [] = d_ret False"
| "order_any recur (i # is) = d_bind (recur i) (\<lambda>s. d_bind (order_any recur is) (\<lambda>r. d_ret (s \<or> r)))"

definition order_struct :: "(nat \<Rightarrow> bool \<Rightarrow> bool dump) \<Rightarrow> alloc \<Rightarrow> nat \<Rightarrow> btf_type \<Rightarrow> bool \<Rightarrow> bool dump" where
  "order_struct recur alloc i t through_ptr =
     (if through_ptr \<and> name_off t \<noteq> 0 then d_ret False
      else d_then (set_order i ORDERING)
           (d_then (d_each (\<lambda>m. d_bind (recur (unat (m_type m)) False) (\<lambda>_. d_ret ())) (btf_members t))
           (d_then (d_when (name_off t \<noteq> 0) (btf_dump_add_emit_queue_id alloc i))
           (d_then (set_order i ORDERED) (d_ret True)))))"

definition order_leaf :: "alloc \<Rightarrow> nat \<Rightarrow> btf_type \<Rightarrow> bool \<Rightarrow> bool dump" where
  "order_leaf alloc i t is_referenced =
     d_then (d_when (name_off t \<noteq> 0 \<or> \<not> is_referenced) (btf_dump_add_emit_queue_id alloc i))
     (d_then (set_order i ORDERED) (d_ret True))"

text \<open>
  The first argument bounds the depth of the recursion. The answer is \<open>True\<close> for 1, a strong link, and \<open>False\<close> for 0.
\<close>

primrec order_type :: "nat \<Rightarrow> alloc \<Rightarrow> nat \<Rightarrow> bool \<Rightarrow> bool dump" where
  "order_type 0 alloc i through_ptr = d_fail NONTERM"
| "order_type (Suc n) alloc i through_ptr =
     d_bind (get_state i) (\<lambda>s.
     if order_state s = ORDERED then d_ret True
     else d_bind (get_type i) (\<lambda>t.
          if order_state s = ORDERING
          then if btf_is_composite t \<and> through_ptr \<and> name_off t \<noteq> 0 then d_ret False else d_fail ELOOP
          else case btf_kind t of
            BTF_KIND_INT \<Rightarrow> d_then (set_order i ORDERED) (d_ret False)
          | BTF_KIND_PTR \<Rightarrow> d_always (order_type n alloc (unat (ref_type t)) True) (set_order i ORDERED)
          | BTF_KIND_ARRAY \<Rightarrow> order_type n alloc (unat (a_type (btf_array t))) through_ptr
          | BTF_KIND_STRUCT \<Rightarrow> order_struct (order_type n alloc) alloc i t through_ptr
          | BTF_KIND_UNION \<Rightarrow> order_struct (order_type n alloc) alloc i t through_ptr
          | BTF_KIND_ENUM \<Rightarrow> order_leaf alloc i t (referenced s)
          | BTF_KIND_FWD \<Rightarrow> order_leaf alloc i t (referenced s)
          | BTF_KIND_TYPEDEF \<Rightarrow>
              d_bind (order_type n alloc (unat (ref_type t)) through_ptr) (\<lambda>is_strong.
              if through_ptr \<and> \<not> is_strong then d_ret False
              else d_then (btf_dump_add_emit_queue_id alloc i) (d_then (set_order i ORDERED) (d_ret True)))
          | BTF_KIND_VOLATILE \<Rightarrow> order_type n alloc (unat (ref_type t)) through_ptr
          | BTF_KIND_CONST \<Rightarrow> order_type n alloc (unat (ref_type t)) through_ptr
          | BTF_KIND_RESTRICT \<Rightarrow> order_type n alloc (unat (ref_type t)) through_ptr
          | BTF_KIND_FUNC_PROTO \<Rightarrow>
              order_any (\<lambda>j. order_type n alloc j through_ptr)
                (unat (ref_type t) # map (\<lambda>p. unat (btf_param_t.p_type p)) (btf_params t))
          | BTF_KIND_FUNC \<Rightarrow> d_then (set_order i ORDERED) (d_ret False)
          | BTF_KIND_VAR \<Rightarrow> d_then (set_order i ORDERED) (d_ret False)
          | BTF_KIND_DATASEC \<Rightarrow> d_then (set_order i ORDERED) (d_ret False)
          | BTF_KIND_UNKN \<Rightarrow> d_fail EINVAL))"

text \<open>
  A path of the recursion that is longer than this has met a type twice, the same way, without marking a struct in
  between, so it never ends.
\<close>

definition order_depth :: "btf_dump \<Rightarrow> nat" where
  "order_depth d = (let n = btf__get_nr_types (dump_btf d) + 2 in 4 * n * n)"

definition btf_dump_order_type :: "alloc \<Rightarrow> nat \<Rightarrow> bool \<Rightarrow> bool dump" where
  "btf_dump_order_type alloc i through_ptr = d_with (\<lambda>d. order_type (order_depth d) alloc i through_ptr)"

subsection \<open>Names\<close>

abbreviation NL :: string where "NL \<equiv> [CHR 0x0A]"

definition pfx :: "int \<Rightarrow> string" where
  "pfx lvl = replicate (if 0 \<le> lvl \<and> lvl < 13 then nat lvl else 13) (CHR 0x09)"

text \<open>
  The number of uses of a name so far, this one included. A failure to store it is ignored.
\<close>

definition btf_dump_name_dups :: "alloc \<Rightarrow> (btf_dump \<Rightarrow> name_map) \<Rightarrow> ((name_map \<Rightarrow> name_map) \<Rightarrow> btf_dump \<Rightarrow> btf_dump) \<Rightarrow>
    string \<Rightarrow> nat dump" where
  "btf_dump_name_dups alloc get put orig_name =
     d_bind (d_get (\<lambda>d. Inr (case hashmap__find (get d) orig_name of None \<Rightarrow> 1 | Some k \<Rightarrow> k + 1))) (\<lambda>dup_cnt.
     d_then (d_upd (put (\<lambda>m. ins_map (hashmap__set alloc m orig_name dup_cnt)))) (d_ret dup_cnt))"

definition unique_name :: "string \<Rightarrow> nat \<Rightarrow> string" where
  "unique_name orig_name dup_cnt = take 255 (orig_name @ ''___'' @ fmt_u dup_cnt)"

definition btf_dump_resolve_name :: "alloc \<Rightarrow> (btf_dump \<Rightarrow> name_map) \<Rightarrow> ((name_map \<Rightarrow> name_map) \<Rightarrow> btf_dump \<Rightarrow> btf_dump) \<Rightarrow>
    nat \<Rightarrow> string dump" where
  "btf_dump_resolve_name alloc get put i =
     d_bind (get_state i) (\<lambda>s.
     d_bind (get_type i) (\<lambda>t.
     d_bind (btf_name_of (name_off t)) (\<lambda>orig.
     d_bind (d_get (\<lambda>d. array_get (cached_names d) i)) (\<lambda>cached.
     if name_off t = 0 then d_ret []
     else if name_resolved s then use_name (if cached = None then orig else cached)
     else d_bind (use_name orig) (\<lambda>orig_name.
          d_bind (btf_dump_name_dups alloc get put orig_name) (\<lambda>dup_cnt.
          let new_name = (if dup_cnt \<le> 1 then cached
                          else if alloc (length (unique_name orig_name dup_cnt) + 1) then Some (unique_name orig_name dup_cnt)
                          else None) in
          d_then (d_upd (\<lambda>d. d\<lparr>cached_names := (cached_names d)[i := new_name]\<rparr>))
          (d_then (upd_state i (\<lambda>a. a\<lparr>name_resolved := True\<rparr>))
          (d_ret (case new_name of None \<Rightarrow> orig_name | Some n \<Rightarrow> n)))))))))"

definition btf_dump_type_name :: "alloc \<Rightarrow> nat \<Rightarrow> string dump" where
  "btf_dump_type_name alloc = btf_dump_resolve_name alloc type_names type_names_update"

definition btf_dump_ident_name :: "alloc \<Rightarrow> nat \<Rightarrow> string dump" where
  "btf_dump_ident_name alloc = btf_dump_resolve_name alloc ident_names ident_names_update"

subsection \<open>Layout\<close>

text \<open>The queries of the BTF that may cache its pointer size.\<close>

definition align_of :: "nat \<Rightarrow> int dump" where
  "align_of i = (\<lambda>d.
     case btf__align_of (btf__get_nr_types (dump_btf d) + 2) (dump_btf d) i of
       (None, b) \<Rightarrow> (Inl NONTERM, d\<lparr>dump_btf := b\<rparr>)
     | (Some (Inl e), b) \<Rightarrow> (Inl e, d\<lparr>dump_btf := b\<rparr>)
     | (Some (Inr a), b) \<Rightarrow> (Inr (int a), d\<lparr>dump_btf := b\<rparr>))"

text \<open>\<^verbatim>\<open>max(0, btf__resolve_size(...))\<close>, stored in an \<^verbatim>\<open>int\<close>.\<close>

definition size_or_0 :: "nat \<Rightarrow> int dump" where
  "size_or_0 i = (\<lambda>d.
     case btf__resolve_size (dump_btf d) i of
       (Inl OOB, b) \<Rightarrow> (Inl OOB, d\<lparr>dump_btf := b\<rparr>)
     | (Inl e, b) \<Rightarrow> (Inr 0, d\<lparr>dump_btf := b\<rparr>)
     | (Inr n, b) \<Rightarrow> (Inr (signed_take_bit 31 (int n)), d\<lparr>dump_btf := b\<rparr>))"

definition as_int :: "u32 \<Rightarrow> int" where "as_int w = sint w"


text \<open>The members from the first on; \<open>i\<close> counts them.\<close>

fun members_packed :: "btf_type \<Rightarrow> nat \<Rightarrow> btf_member_t list \<Rightarrow> bool dump" where
  "members_packed t i [] = d_ret False"
| "members_packed t i (m # ms) =
     d_bind (align_of (unat (m_type m))) (\<lambda>align.
     if align \<noteq> 0 \<and> btf_member_bitfield_size t i = 0 \<and> int (unat (m_offset m)) mod (8 * align) \<noteq> 0 then d_ret True
     else members_packed t (i + 1) ms)"

definition btf_is_struct_packed :: "nat \<Rightarrow> btf_type \<Rightarrow> bool dump" where
  "btf_is_struct_packed i t =
     d_bind (align_of i) (\<lambda>align.
     if align \<noteq> 0 \<and> int (unat (size_type t)) mod align \<noteq> 0 then d_ret True
     else members_packed t 0 (btf_members t))"

definition chip_away_bits :: "nat \<Rightarrow> nat \<Rightarrow> nat" where
  "chip_away_bits bits at_most = (if bits mod at_most \<noteq> 0 then bits mod at_most else at_most)"

definition pad_bits :: "nat \<Rightarrow> nat \<Rightarrow> string \<times> nat" where
  "pad_bits ptr_bits off_diff =
     (if ptr_bits > 32 \<and> off_diff > 32 then (''long'', chip_away_bits off_diff ptr_bits)
      else if off_diff > 16 then (''int'', chip_away_bits off_diff 32)
      else if off_diff > 8 then (''short'', chip_away_bits off_diff 16)
      else (''char'', chip_away_bits off_diff 8))"

lemma chip_away_pos: "0 < at_most \<Longrightarrow> 0 < chip_away_bits bits at_most"
  by (simp add: chip_away_bits_def)

lemma pad_bits_pos: "0 < snd (pad_bits ptr_bits off_diff)"
  by (simp add: pad_bits_def chip_away_pos)

text \<open>The loop: the fields that fill the gap.\<close>

function pad_fields :: "nat \<Rightarrow> nat \<Rightarrow> (string \<times> nat) list" where
  "pad_fields ptr_bits off_diff =
     (if off_diff > 0
      then pad_bits ptr_bits off_diff # pad_fields ptr_bits (off_diff - snd (pad_bits ptr_bits off_diff))
      else [])"
  by pat_completeness auto
termination
  using pad_bits_pos by (relation "measure snd") auto

declare pad_fields.simps [simp del]

definition btf_dump_emit_bit_padding :: "int \<Rightarrow> int \<Rightarrow> int \<Rightarrow> int \<Rightarrow> int \<Rightarrow> unit dump" where
  "btf_dump_emit_bit_padding cur_off m_off m_bit_sz align lvl =
     (let off_diff = int32 (m_off - cur_off) in
      if off_diff \<le> 0 \<or> (m_bit_sz = 0 \<and> off_diff < int32 (align * 8)) then d_ret ()
      else d_with (\<lambda>d. d_each (\<lambda>(pad_type, bits). btf_dump_printf (NL @ pfx lvl @ pad_type @ '': '' @ fmt_u bits @ '';''))
             (pad_fields (dump_ptr_sz d * 8) (nat off_diff))))"

subsection \<open>Definitions\<close>

text \<open>\<open>decl\<close> is \<open>btf_dump_emit_type_decl\<close>, at a smaller depth of the recursion.\<close>

type_synonym decl_fn = "nat \<Rightarrow> string option \<Rightarrow> int \<Rightarrow> unit dump"

definition btf_dump_emit_struct_fwd :: "alloc \<Rightarrow> nat \<Rightarrow> btf_type \<Rightarrow> unit dump" where
  "btf_dump_emit_struct_fwd alloc i t =
     d_bind (btf_dump_type_name alloc i) (\<lambda>name.
     btf_dump_printf ((if btf_is_struct t then ''struct'' else ''union'') @ '' '' @ name))"

fun emit_members :: "decl_fn \<Rightarrow> bool \<Rightarrow> btf_type \<Rightarrow> int \<Rightarrow> nat \<Rightarrow> int \<Rightarrow> btf_member_t list \<Rightarrow> int dump" where
  "emit_members decl packed t lvl i cur_off [] = d_ret cur_off"
| "emit_members decl packed t lvl i cur_off (m # ms) =
     d_bind (btf_name_of (m_name_off m)) (\<lambda>fname.
     let m_sz = as_int (btf_member_bitfield_size t i); m_off = as_int (btf_member_bit_offset t i) in
     d_bind (if packed then d_ret 1 else align_of (unat (m_type m))) (\<lambda>align.
     d_then (btf_dump_emit_bit_padding cur_off m_off m_sz align (lvl + 1))
     (d_then (btf_dump_printf (NL @ pfx (lvl + 1)))
     (d_then (decl (unat (m_type m)) fname (lvl + 1))
     (d_bind (if m_sz \<noteq> 0 then d_then (btf_dump_printf ('': '' @ fmt_d m_sz)) (d_ret (int32 (m_off + m_sz)))
              else d_bind (size_or_0 (unat (m_type m))) (\<lambda>s. d_ret (int32 (m_off + s * 8)))) (\<lambda>cur_off'.
     d_then (btf_dump_printf '';'') (emit_members decl packed t lvl (i + 1) cur_off' ms)))))))"

definition btf_dump_emit_struct_def :: "decl_fn \<Rightarrow> alloc \<Rightarrow> nat \<Rightarrow> btf_type \<Rightarrow> int \<Rightarrow> unit dump" where
  "btf_dump_emit_struct_def decl alloc i t lvl =
     d_bind (if btf_is_struct t then btf_is_struct_packed i t else d_ret False) (\<lambda>packed.
     d_bind (btf_dump_type_name alloc i) (\<lambda>name.
     d_then (btf_dump_printf ((if btf_is_struct t then ''struct'' else ''union'') @ (if name_off t \<noteq> 0 then '' '' else []) @ name @ '' {''))
     (d_bind (emit_members decl packed t lvl 0 0 (btf_members t)) (\<lambda>cur_off.
     d_then (d_when (btf_is_struct t)
               (d_bind (if packed then d_ret 1 else align_of i) (\<lambda>align.
                btf_dump_emit_bit_padding cur_off (as_int (size_type t * 8)) 0 align (lvl + 1))))
     (d_then (d_when (btf_members t \<noteq> []) (btf_dump_printf NL))
     (d_then (btf_dump_printf (pfx lvl @ ''}''))
     (d_when packed (btf_dump_printf '' __attribute__((packed))''))))))))"

definition missing_base_types :: "(string \<times> string) list" where
  "missing_base_types =
     [(''__Poly8_t'', ''unsigned char''), (''__Poly16_t'', ''unsigned short''),
      (''__Poly64_t'', ''unsigned long long''), (''__Poly128_t'', ''unsigned __int128'')]"

definition btf_dump_emit_missing_aliases :: "alloc \<Rightarrow> nat \<Rightarrow> unit dump" where
  "btf_dump_emit_missing_aliases alloc i =
     d_bind (btf_dump_type_name alloc i) (\<lambda>name.
     case map_of missing_base_types name of
       None \<Rightarrow> d_ret ()
     | Some base \<Rightarrow> btf_dump_printf (''typedef '' @ base @ '' '' @ name @ '';'' @ NL @ NL))"

definition btf_dump_emit_enum_fwd :: "alloc \<Rightarrow> nat \<Rightarrow> unit dump" where
  "btf_dump_emit_enum_fwd alloc i = d_bind (btf_dump_type_name alloc i) (\<lambda>name. btf_dump_printf (''enum '' @ name))"

definition emit_enumerator :: "alloc \<Rightarrow> int \<Rightarrow> btf_enum_t \<Rightarrow> unit dump" where
  "emit_enumerator alloc lvl v =
     d_bind (btf_name_of (e_name_off v)) (\<lambda>p.
     d_bind (use_name p) (\<lambda>name.
     d_bind (btf_dump_name_dups alloc ident_names ident_names_update name) (\<lambda>dup_cnt.
     btf_dump_printf (NL @ pfx (lvl + 1) @ name @ (if dup_cnt > 1 then ''___'' @ fmt_u dup_cnt else []) @ '' = '' @
       fmt_u (unat (e_val v)) @ '',''))))"

definition btf_dump_emit_enum_def :: "alloc \<Rightarrow> nat \<Rightarrow> btf_type \<Rightarrow> int \<Rightarrow> unit dump" where
  "btf_dump_emit_enum_def alloc i t lvl =
     d_bind (btf_dump_type_name alloc i) (\<lambda>name.
     d_then (btf_dump_printf (''enum'' @ (if name_off t \<noteq> 0 then '' '' else []) @ name))
     (d_when (btf_enum t \<noteq> [])
       (d_then (btf_dump_printf '' {'')
       (d_then (d_each (emit_enumerator alloc lvl) (btf_enum t))
       (btf_dump_printf (NL @ pfx lvl @ ''}''))))))"

definition btf_dump_emit_fwd_def :: "alloc \<Rightarrow> nat \<Rightarrow> btf_type \<Rightarrow> unit dump" where
  "btf_dump_emit_fwd_def alloc i t =
     d_bind (btf_dump_type_name alloc i) (\<lambda>name.
     btf_dump_printf ((if btf_kflag t then ''union '' else ''struct '') @ name))"

definition btf_dump_emit_typedef_def :: "decl_fn \<Rightarrow> alloc \<Rightarrow> nat \<Rightarrow> btf_type \<Rightarrow> int \<Rightarrow> unit dump" where
  "btf_dump_emit_typedef_def decl alloc i t lvl =
     d_bind (btf_dump_ident_name alloc i) (\<lambda>name.
     if ref_type t = 0 \<and> name = ''__gnuc_va_list'' then btf_dump_printf ''typedef __builtin_va_list __gnuc_va_list''
     else d_then (btf_dump_printf ''typedef '') (decl (unat (ref_type t)) (Some name) lvl))"

subsection \<open>Declarations\<close>

definition btf_dump_push_decl_stack_id :: "alloc \<Rightarrow> nat \<Rightarrow> unit dump" where
  "btf_dump_push_decl_stack_id alloc i =
     d_bind (d_get (\<lambda>d. grown_cap alloc (length (decl_stack d)) (decl_stack_cap d))) (\<lambda>c.
     d_upd (\<lambda>d. d\<lparr>decl_stack_cap := c, decl_stack := decl_stack d @ [i]\<rparr>))"

text \<open>\<open>False\<close> if there is no memory for the type.\<close>

definition try_push :: "alloc \<Rightarrow> nat \<Rightarrow> bool dump" where
  "try_push alloc i = (\<lambda>d.
     case btf_dump_push_decl_stack_id alloc i d of (Inl e, d') \<Rightarrow> (Inr False, d') | (Inr _, d') \<Rightarrow> (Inr True, d'))"

text \<open>The next type of a chain.\<close>

definition chain_next :: "btf_type \<Rightarrow> nat option" where
  "chain_next t =
     (case btf_kind t of
        BTF_KIND_PTR \<Rightarrow> Some (unat (ref_type t))
      | BTF_KIND_VOLATILE \<Rightarrow> Some (unat (ref_type t))
      | BTF_KIND_CONST \<Rightarrow> Some (unat (ref_type t))
      | BTF_KIND_RESTRICT \<Rightarrow> Some (unat (ref_type t))
      | BTF_KIND_FUNC_PROTO \<Rightarrow> Some (unat (ref_type t))
      | BTF_KIND_ARRAY \<Rightarrow> Some (unat (a_type (btf_array t)))
      | _ \<Rightarrow> None)"

text \<open>
  The loop that pushes a chain. A chain longer than the number of types has a cycle: the stack then grows until there is
  no memory for it, and, when modifiers are skipped, may never end; both are \<open>NONTERM\<close>.
\<close>

primrec push_chain :: "nat \<Rightarrow> alloc \<Rightarrow> nat \<Rightarrow> bool dump" where
  "push_chain 0 alloc i = d_fail NONTERM"
| "push_chain (Suc n) alloc i =
     d_bind (get_type i) (\<lambda>t.
     d_with (\<lambda>d.
     d_bind (if strip_mods d \<and> btf_is_mod t then d_ret True else try_push alloc i) (\<lambda>pushed.
     if \<not> pushed then d_ret False
     else if i = 0 then d_ret True
     else case chain_next t of None \<Rightarrow> d_ret True | Some j \<Rightarrow> push_chain n alloc j)))"

definition is_mod_id :: "btf \<Rightarrow> nat \<Rightarrow> bool" where
  "is_mod_id b i = (case btf__type_by_id b i of Inr (Some t) \<Rightarrow> btf_is_mod t | _ \<Rightarrow> False)"

definition emit_mod :: "nat \<Rightarrow> unit dump" where
  "emit_mod i =
     d_bind (get_type i) (\<lambda>t.
     btf_dump_printf (case btf_kind t of BTF_KIND_VOLATILE \<Rightarrow> ''volatile '' | BTF_KIND_CONST \<Rightarrow> ''const '' | _ \<Rightarrow> ''restrict ''))"

text \<open>The modifiers on top of a stack, whose top is the head of the list, and what is below them.\<close>

definition btf_dump_emit_mods :: "nat list \<Rightarrow> unit dump" where
  "btf_dump_emit_mods ids = d_with (\<lambda>d. d_each emit_mod (takeWhile (is_mod_id (dump_btf d)) ids))"

definition btf_dump_drop_mods :: "btf \<Rightarrow> nat list \<Rightarrow> nat list" where
  "btf_dump_drop_mods b ids = dropWhile (is_mod_id b) ids"

lemma drop_mods_le [termination_simp]: "length (btf_dump_drop_mods b ids) < Suc (length ids)"
  by (simp add: btf_dump_drop_mods_def length_dropWhile_le less_Suc_eq_le)

definition btf_dump_emit_name :: "string option \<Rightarrow> bool \<Rightarrow> unit dump" where
  "btf_dump_emit_name name last_was_ptr =
     d_bind (use_name name) (\<lambda>s. btf_dump_printf ((if s \<noteq> [] \<and> \<not> last_was_ptr then '' '' else []) @ s))"

fun emit_params :: "decl_fn \<Rightarrow> int \<Rightarrow> bool \<Rightarrow> btf_param_t list \<Rightarrow> unit dump" where
  "emit_params decl lvl is_first [] = d_ret ()"
| "emit_params decl lvl is_first (p # ps) =
     d_then (d_when (\<not> is_first) (btf_dump_printf '', ''))
     (if ps = [] \<and> btf_param_t.p_type p = 0 then btf_dump_printf ''...''
      else d_bind (btf_name_of (p_name_off p)) (\<lambda>name.
           d_then (decl (unat (btf_param_t.p_type p)) name lvl) (emit_params decl lvl False ps)))"

text \<open>
  The chain is a view of the shared stack, \<open>view_cap\<close> the memory the stack had when it was taken. The definition of an
  anonymous struct within the chain pushes more types; when the stack is moved to a larger memory for them, the view is
  stale and the next read of it is outside of any object.
\<close>

function emit_chain :: "decl_fn \<Rightarrow> alloc \<Rightarrow> nat \<Rightarrow> string option \<Rightarrow> int \<Rightarrow> bool \<Rightarrow> nat list \<Rightarrow> unit dump" where
  "emit_chain decl alloc view_cap fname lvl last_was_ptr [] = btf_dump_emit_name fname last_was_ptr"
| "emit_chain decl alloc view_cap fname lvl last_was_ptr (i # ids) =
     d_with (\<lambda>d.
     let rest = btf_dump_drop_mods (dump_btf d) ids;
         terminal = (\<lambda>m. d_then (btf_dump_emit_mods ids) (d_then m (emit_chain decl alloc view_cap fname lvl False rest))) in
     if decl_stack_cap d \<noteq> view_cap then d_fail OOB
     else if i = 0 then terminal (btf_dump_printf ''void'')
     else d_bind (get_type i) (\<lambda>t.
       case btf_kind t of
         BTF_KIND_INT \<Rightarrow>
           terminal (d_bind (btf_name_of (name_off t)) (\<lambda>p. d_bind (use_name p) btf_dump_printf))
       | BTF_KIND_STRUCT \<Rightarrow>
           terminal (if name_off t = 0 then btf_dump_emit_struct_def decl alloc i t lvl else btf_dump_emit_struct_fwd alloc i t)
       | BTF_KIND_UNION \<Rightarrow>
           terminal (if name_off t = 0 then btf_dump_emit_struct_def decl alloc i t lvl else btf_dump_emit_struct_fwd alloc i t)
       | BTF_KIND_ENUM \<Rightarrow>
           terminal (if name_off t = 0 then btf_dump_emit_enum_def alloc i t lvl else btf_dump_emit_enum_fwd alloc i)
       | BTF_KIND_FWD \<Rightarrow> terminal (btf_dump_emit_fwd_def alloc i t)
       | BTF_KIND_TYPEDEF \<Rightarrow> terminal (d_bind (btf_dump_ident_name alloc i) btf_dump_printf)
       | BTF_KIND_PTR \<Rightarrow>
           d_then (btf_dump_printf (if last_was_ptr then ''*'' else '' *'')) (emit_chain decl alloc view_cap fname lvl True ids)
       | BTF_KIND_VOLATILE \<Rightarrow>
           d_then (btf_dump_printf '' volatile'') (emit_chain decl alloc view_cap fname lvl False ids)
       | BTF_KIND_CONST \<Rightarrow>
           d_then (btf_dump_printf '' const'') (emit_chain decl alloc view_cap fname lvl False ids)
       | BTF_KIND_RESTRICT \<Rightarrow>
           d_then (btf_dump_printf '' restrict'') (emit_chain decl alloc view_cap fname lvl False ids)
       | BTF_KIND_ARRAY \<Rightarrow>
           let dim = btf_dump_printf (''['' @ fmt_u (unat (a_nelems (btf_array t))) @ '']'') in
           if rest = [] then d_then (btf_dump_emit_name fname last_was_ptr) dim
           else d_bind (get_type (hd rest)) (\<lambda>next_t.
                d_bind (use_name fname) (\<lambda>s.
                d_then (d_when (s \<noteq> [] \<and> \<not> last_was_ptr) (btf_dump_printf '' ''))
                (d_then (d_when (\<not> btf_is_array next_t) (btf_dump_printf ''(''))
                (d_then (emit_chain decl alloc view_cap fname lvl True rest)
                (d_then (d_when (\<not> btf_is_array next_t) (btf_dump_printf '')'')) dim)))))
       | BTF_KIND_FUNC_PROTO \<Rightarrow>
           d_then (if rest \<noteq> []
                   then d_then (btf_dump_printf '' ('') (d_then (emit_chain decl alloc view_cap fname lvl True rest) (btf_dump_printf '')''))
                   else btf_dump_emit_name fname last_was_ptr)
           (d_then (btf_dump_printf ''('')
           (d_then (case btf_params t of
                      [p] \<Rightarrow> if btf_param_t.p_type p = 0 then d_ret () else emit_params decl lvl True (btf_params t)
                    | _ \<Rightarrow> emit_params decl lvl True (btf_params t))
           (btf_dump_printf '')'')))
       | _ \<Rightarrow> d_ret ()))"
  by pat_completeness auto
termination
  by (relation "measure (\<lambda>(decl, alloc, view_cap, fname, lvl, last_was_ptr, ids). length ids)") (auto simp: drop_mods_le)

declare emit_chain.simps(2) [simp del]

primrec emit_type_decl :: "nat \<Rightarrow> alloc \<Rightarrow> nat \<Rightarrow> string option \<Rightarrow> int \<Rightarrow> unit dump" where
  "emit_type_decl 0 alloc i fname lvl = d_fail NONTERM"
| "emit_type_decl (Suc n) alloc i fname lvl =
     d_with (\<lambda>d.
     let stack_start = length (decl_stack d); pop = d_upd (\<lambda>d. d\<lparr>decl_stack := take stack_start (decl_stack d)\<rparr>) in
     d_bind (push_chain (btf__get_nr_types (dump_btf d) + 2) alloc i) (\<lambda>pushed.
     if \<not> pushed then pop
     else d_with (\<lambda>d1.
          d_then (emit_chain (emit_type_decl n alloc) alloc (decl_stack_cap d1) fname lvl True (rev (drop stack_start (decl_stack d1))))
          pop)))"

text \<open>A declaration within a declaration of the same type would be emitted again and again, so this depth is never exceeded.\<close>

definition btf_dump_emit_type_decl :: "alloc \<Rightarrow> nat \<Rightarrow> string option \<Rightarrow> int \<Rightarrow> unit dump" where
  "btf_dump_emit_type_decl alloc i fname lvl =
     d_with (\<lambda>d. emit_type_decl (btf__get_nr_types (dump_btf d) + 2) alloc i fname lvl)"

record btf_dump_emit_type_decl_opts =
  opts_valid :: bool
  field_name :: "string option"
  indent_level :: int
  opt_strip_mods :: bool

text \<open>\<open>opts_valid\<close> is the answer of \<^verbatim>\<open>OPTS_VALID\<close>; a field that the caller's struct does not have has its default.\<close>

definition btf_dump__emit_type_decl :: "alloc \<Rightarrow> nat \<Rightarrow> btf_dump_emit_type_decl_opts option \<Rightarrow> unit dump" where
  "btf_dump__emit_type_decl alloc i opts =
     (if opts \<noteq> None \<and> \<not> opts_valid (the opts) then d_fail EINVAL
      else (\<lambda>d. case btf_dump_resize alloc d of
          (Inl e, d') \<Rightarrow> (Inl (if e = OOB then OOB else EINVAL), d')
        | (Inr _, d') \<Rightarrow>
            d_then (d_upd (\<lambda>d. d\<lparr>strip_mods := (case opts of None \<Rightarrow> False | Some o1 \<Rightarrow> opt_strip_mods o1)\<rparr>))
            (d_then (btf_dump_emit_type_decl alloc i (case opts of None \<Rightarrow> Some [] | Some o1 \<Rightarrow> field_name o1)
                      (case opts of None \<Rightarrow> 0 | Some o1 \<Rightarrow> indent_level o1))
            (d_upd (\<lambda>d. d\<lparr>strip_mods := False\<rparr>))) d'))"

subsection \<open>Emission\<close>

definition btf_dump_is_blacklisted :: "nat \<Rightarrow> bool dump" where
  "btf_dump_is_blacklisted i =
     d_bind (get_type i) (\<lambda>t.
     if name_off t = 0 then d_ret False
     else d_bind (btf_name_of (name_off t)) (\<lambda>p.
          d_bind (use_name p) (\<lambda>name. d_ret (name = ''__builtin_va_list''))))"

abbreviation end_decl :: "unit dump" where "end_decl \<equiv> btf_dump_printf ('';'' @ NL @ NL)"

definition emit_typedef :: "alloc \<Rightarrow> nat \<Rightarrow> btf_type \<Rightarrow> unit dump" where
  "emit_typedef alloc i t =
     d_bind (btf_dump_is_blacklisted i) (\<lambda>b.
     d_when (\<not> b) (d_then (btf_dump_emit_typedef_def (btf_dump_emit_type_decl alloc) alloc i t 0) end_decl))"

definition emit_fwd :: "alloc \<Rightarrow> nat \<Rightarrow> btf_type \<Rightarrow> unit dump" where
  "emit_fwd alloc i t =
     d_then (btf_dump_emit_struct_fwd alloc i t)
     (d_then end_decl (upd_state i (\<lambda>a. a\<lparr>fwd_emitted := True\<rparr>)))"

text \<open>A type that is met while it is being emitted.\<close>

definition emit_again :: "alloc \<Rightarrow> nat \<Rightarrow> btf_type \<Rightarrow> nat \<Rightarrow> unit dump" where
  "emit_again alloc i t cont_id =
     (if btf_is_composite t
      then d_when (i \<noteq> cont_id \<and> name_off t \<noteq> 0) (emit_fwd alloc i t)
      else if btf_is_typedef t
      then d_then (emit_typedef alloc i t) (upd_state i (\<lambda>a. a\<lparr>fwd_emitted := True\<rparr>))
      else d_ret ())"

definition emit_struct :: "(nat \<Rightarrow> nat \<Rightarrow> unit dump) \<Rightarrow> alloc \<Rightarrow> nat \<Rightarrow> btf_type \<Rightarrow> nat \<Rightarrow> unit dump" where
  "emit_struct recur alloc i t cont_id =
     d_then (set_emit i EMITTING)
     (d_then (if cont_id = 0 \<or> name_off t = 0
              then d_each (\<lambda>m. recur (unat (m_type m)) (if name_off t = 0 then cont_id else i)) (btf_members t)
              else d_bind (get_state i) (\<lambda>s. d_when (\<not> fwd_emitted s \<and> i \<noteq> cont_id) (emit_fwd alloc i t)))
     (if cont_id = 0
      then d_then (btf_dump_emit_struct_def (btf_dump_emit_type_decl alloc) alloc i t 0) (d_then end_decl (set_emit i EMITTED))
      else set_emit i NOT_EMITTED))"

primrec emit_type :: "nat \<Rightarrow> alloc \<Rightarrow> nat \<Rightarrow> nat \<Rightarrow> unit dump" where
  "emit_type 0 alloc i cont_id = d_fail NONTERM"
| "emit_type (Suc n) alloc i cont_id =
     d_bind (get_state i) (\<lambda>s.
     if emit_state s = EMITTED then d_ret ()
     else d_bind (get_type i) (\<lambda>t.
          if emit_state s = EMITTING then d_when (\<not> fwd_emitted s) (emit_again alloc i t cont_id)
          else case btf_kind t of
            BTF_KIND_INT \<Rightarrow> d_then (btf_dump_emit_missing_aliases alloc i) (set_emit i EMITTED)
          | BTF_KIND_ENUM \<Rightarrow>
              d_then (d_when (cont_id = 0) (d_then (btf_dump_emit_enum_def alloc i t 0) end_decl)) (set_emit i EMITTED)
          | BTF_KIND_PTR \<Rightarrow> emit_type n alloc (unat (ref_type t)) cont_id
          | BTF_KIND_VOLATILE \<Rightarrow> emit_type n alloc (unat (ref_type t)) cont_id
          | BTF_KIND_CONST \<Rightarrow> emit_type n alloc (unat (ref_type t)) cont_id
          | BTF_KIND_RESTRICT \<Rightarrow> emit_type n alloc (unat (ref_type t)) cont_id
          | BTF_KIND_ARRAY \<Rightarrow> emit_type n alloc (unat (a_type (btf_array t))) cont_id
          | BTF_KIND_FWD \<Rightarrow> d_then (btf_dump_emit_fwd_def alloc i t) (d_then end_decl (set_emit i EMITTED))
          | BTF_KIND_TYPEDEF \<Rightarrow>
              d_then (set_emit i EMITTING)
              (d_then (emit_type n alloc (unat (ref_type t)) i)
              (d_bind (get_state i) (\<lambda>s1.
               d_then (d_when (\<not> fwd_emitted s1) (emit_typedef alloc i t)) (set_emit i EMITTED))))
          | BTF_KIND_STRUCT \<Rightarrow> emit_struct (emit_type n alloc) alloc i t cont_id
          | BTF_KIND_UNION \<Rightarrow> emit_struct (emit_type n alloc) alloc i t cont_id
          | BTF_KIND_FUNC_PROTO \<Rightarrow>
              d_each (\<lambda>j. emit_type n alloc j cont_id) (unat (ref_type t) # map (\<lambda>p. unat (btf_param_t.p_type p)) (btf_params t))
          | _ \<Rightarrow> d_ret ()))"

text \<open>As for the order, a longer path has met a type twice without a mark in between.\<close>

definition btf_dump_emit_type :: "alloc \<Rightarrow> nat \<Rightarrow> nat \<Rightarrow> unit dump" where
  "btf_dump_emit_type alloc i cont_id = d_with (\<lambda>d. emit_type (order_depth d) alloc i cont_id)"

definition btf_dump__dump_type :: "alloc \<Rightarrow> nat \<Rightarrow> unit dump" where
  "btf_dump__dump_type alloc i =
     d_with (\<lambda>d.
     if i > btf__get_nr_types (dump_btf d) then d_fail EINVAL
     else d_then (btf_dump_resize alloc)
          (d_then (d_upd (\<lambda>d. d\<lparr>emit_queue := []\<rparr>))
          (d_bind (btf_dump_order_type alloc i False) (\<lambda>_.
           d_with (\<lambda>d. d_each (\<lambda>j. btf_dump_emit_type alloc j 0) (emit_queue d))))))"

end
