(* ===== verification/Dump_Order.thy ===== *)
theory Dump_Order
  imports Btf_Dump Dedup_Equiv
begin

text \<open>
  The order of definitions: a type is defined after the types it embeds, and the search for the order ends when every
  cycle of types goes through a struct or union.
\<close>

subsection \<open>Steps\<close>

lemma d_bindE:
  assumes "d_bind m f d = (r, d')"
  obtains (error) e where "m d = (Inl e, d')" "r = Inl e"
  | (step) x d1 where "m d = (Inr x, d1)" "f x d1 = (r, d')"
proof (cases "m d")
  case (Pair a d1)
  then show ?thesis using assms that by (cases a) (auto simp: d_bind_def)
qed

lemma d_thenE:
  assumes "d_then m n d = (r, d')"
  obtains (error) e where "m d = (Inl e, d')" "r = Inl e"
  | (step) d1 where "m d = (Inr (), d1)" "n d1 = (r, d')"
  using assms unfolding d_then_def by (rule d_bindE) auto

lemma get_stateE:
  assumes "get_state i d = (r, d')"
  obtains (error) "r = Inl OOB" "d' = d" | (step) "r = Inr (type_states d ! i)" "d' = d" "i < length (type_states d)"
proof (cases "i < length (type_states d)")
  case True
  show ?thesis by (rule step) (use assms True in \<open>auto simp: get_state_def d_get_def array_get_def\<close>)
next
  case False
  show ?thesis by (rule error) (use assms False in \<open>auto simp: get_state_def d_get_def array_get_def\<close>)
qed

lemma get_typeE:
  assumes "get_type i d = (r, d')"
  obtains (error) e where "r = Inl e" "d' = d" "e \<noteq> NONTERM"
  | (step) t where "r = Inr t" "d' = d" "btf__type_by_id (dump_btf d) i = Inr (Some t)"
proof (cases "btf__type_by_id (dump_btf d) i")
  case (Inl e)
  moreover have "e \<noteq> NONTERM" using Inl btf_type_by_id_returns by (auto simp: btf__type_by_id_def result_simps split: if_splits)
  ultimately show ?thesis using assms that(1) [of e] by (simp add: get_type_def d_get_def)
next
  case (Inr p)
  then show ?thesis using assms that by (cases p) (auto simp: get_type_def d_get_def)
qed

subsection \<open>What a definition needs\<close>

text \<open>The types a type embeds: they have to be complete before it can be defined.\<close>

definition embeds :: "btf_type \<Rightarrow> nat list" where
  "embeds t =
     (case btf_kind t of
        BTF_KIND_ARRAY \<Rightarrow> [unat (a_type (btf_array t))]
      | BTF_KIND_VOLATILE \<Rightarrow> [unat (ref_type t)]
      | BTF_KIND_CONST \<Rightarrow> [unat (ref_type t)]
      | BTF_KIND_RESTRICT \<Rightarrow> [unat (ref_type t)]
      | BTF_KIND_TYPEDEF \<Rightarrow> [unat (ref_type t)]
      | BTF_KIND_STRUCT \<Rightarrow> map (\<lambda>m. unat (m_type m)) (btf_members t)
      | BTF_KIND_UNION \<Rightarrow> map (\<lambda>m. unat (m_type m)) (btf_members t)
      | _ \<Rightarrow> [])"

definition embeds_id :: "btf \<Rightarrow> nat \<Rightarrow> nat \<Rightarrow> bool" where
  "embeds_id b i j \<longleftrightarrow> (\<exists>t. btf__type_by_id b i = Inr (Some t) \<and> j \<in> set (embeds t))"

inductive needs :: "btf \<Rightarrow> nat \<Rightarrow> nat \<Rightarrow> bool" for b where
  direct: "embeds_id b i j \<Longrightarrow> needs b i j"
| through: "embeds_id b i j \<Longrightarrow> needs b j k \<Longrightarrow> needs b i k"

text \<open>The types that have a definition of their own: a typedef, a named struct or union, and an enum or forward declaration
  that is named or that no other type refers to.\<close>

definition definable :: "btf_dump \<Rightarrow> nat \<Rightarrow> bool" where
  "definable d i \<longleftrightarrow>
     (\<exists>t. btf__type_by_id (dump_btf d) i = Inr (Some t) \<and>
        (btf_is_typedef t \<or> btf_is_composite t \<and> name_off t \<noteq> 0 \<or>
         (btf_is_enum t \<or> btf_is_fwd t) \<and> (name_off t \<noteq> 0 \<or> \<not> referenced (type_states d ! i))))"

definition ordered :: "btf_dump \<Rightarrow> nat set" where
  "ordered d = {i. i < length (type_states d) \<and> order_state (type_states d ! i) = ORDERED}"

text \<open>Arrays and modifiers have no state; they are settled when what they embed is.\<close>

inductive settled :: "btf \<Rightarrow> nat set \<Rightarrow> nat \<Rightarrow> bool" for b S where
  ordered: "i \<in> S \<Longrightarrow> settled b S i"
| through: "btf__type_by_id b i = Inr (Some t) \<Longrightarrow> btf_is_array t \<or> btf_is_mod t \<or> btf_is_func_proto t \<Longrightarrow>
    \<forall>j \<in> set (embeds t). settled b S j \<Longrightarrow> settled b S i"

lemma settled_mono: "settled b S i \<Longrightarrow> S \<subseteq> S' \<Longrightarrow> settled b S' i"
  by (induction rule: settled.induct) (auto intro: settled.intros)

definition closed :: "btf_dump \<Rightarrow> bool" where
  "closed d \<longleftrightarrow> (\<forall>i \<in> ordered d. \<forall>j. embeds_id (dump_btf d) i j \<longrightarrow> settled (dump_btf d) (ordered d) j)"

lemma settled_needs:
  assumes "needs b i k" "\<forall>j. embeds_id b i j \<longrightarrow> settled b S j" "\<forall>i \<in> S. \<forall>j. embeds_id b i j \<longrightarrow> settled b S j"
  shows "settled b S k"
  using assms(1,2)
proof (induction rule: needs.induct)
  case (through i j k)
  have "settled b S j" using through.hyps(1) through.prems by blast
  then have "\<forall>l. embeds_id b j l \<longrightarrow> settled b S l"
    using assms(3) by (cases rule: settled.cases) (auto simp: embeds_id_def)
  then show ?case using through.IH by blast
qed blast

lemma settled_definable:
  assumes "settled (dump_btf d) S k" "definable d k"
  shows "k \<in> S"
  using assms
  by (cases rule: settled.cases)
    (auto simp: definable_def btf_is_typedef_def btf_is_composite_def btf_is_enum_def btf_is_fwd_def btf_is_array_def
      btf_is_mod_def btf_is_func_proto_def)

text \<open>Everything that the definitions of a queue need comes before them, or has been ordered earlier, in \<open>S0\<close>.\<close>

definition queue_ok :: "nat set \<Rightarrow> btf_dump \<Rightarrow> bool" where
  "queue_ok S0 d \<longleftrightarrow>
     (\<forall>k < length (emit_queue d). \<forall>j. needs (dump_btf d) (emit_queue d ! k) j \<and> definable d j \<longrightarrow>
        j \<in> S0 \<or> j \<in> set (take k (emit_queue d)))"

definition order_inv :: "nat set \<Rightarrow> btf_dump \<Rightarrow> bool" where
  "order_inv S0 d \<longleftrightarrow> closed d \<and> (\<forall>i \<in> ordered d. definable d i \<longrightarrow> i \<in> S0 \<or> i \<in> set (emit_queue d)) \<and> queue_ok S0 d"

text \<open>What the search for the order changes.\<close>

definition orders :: "btf_dump \<Rightarrow> btf_dump \<Rightarrow> bool" where
  "orders d d' \<longleftrightarrow>
     dump_btf d' = dump_btf d \<and> length (type_states d') = length (type_states d) \<and>
     (\<forall>i. referenced (type_states d' ! i) = referenced (type_states d ! i)) \<and> ordered d \<subseteq> ordered d' \<and>
     (\<exists>more. emit_queue d' = emit_queue d @ more)"

lemma orders_refl [simp]: "orders d d"
  by (simp add: orders_def)

lemma orders_trans: "orders d d1 \<Longrightarrow> orders d1 d2 \<Longrightarrow> orders d d2"
  by (auto simp: orders_def)

lemma orders_definable: "orders d d' \<Longrightarrow> definable d' = definable d"
  by (simp add: orders_def definable_def fun_eq_iff)

lemma orders_settled: "orders d d' \<Longrightarrow> settled (dump_btf d) (ordered d) i \<Longrightarrow> settled (dump_btf d') (ordered d') i"
  using settled_mono by (auto simp: orders_def)

subsection \<open>The search keeps the order\<close>

text \<open>A step from a state that is in order leads to one that is, and what it returns satisfies \<open>Q\<close>.\<close>

definition keeps_order :: "nat set \<Rightarrow> btf_dump \<Rightarrow> 'a dump \<Rightarrow> (btf_dump \<Rightarrow> 'a \<Rightarrow> bool) \<Rightarrow> bool" where
  "keeps_order S0 d m Q \<longleftrightarrow>
     (\<forall>r d'. m d = (r, d') \<longrightarrow> orders d d' \<and> order_inv S0 d' \<and> (\<forall>x. r = Inr x \<longrightarrow> Q d' x))"

lemma ko_bind:
  assumes "keeps_order S0 d m Q"
    and "\<And>x d1. orders d d1 \<Longrightarrow> order_inv S0 d1 \<Longrightarrow> Q d1 x \<Longrightarrow> keeps_order S0 d1 (f x) R"
  shows "keeps_order S0 d (d_bind m f) R"
  unfolding keeps_order_def
proof (intro allI impI)
  fix r d'
  assume "d_bind m f d = (r, d')"
  then show "orders d d' \<and> order_inv S0 d' \<and> (\<forall>x. r = Inr x \<longrightarrow> R d' x)"
  proof (cases rule: d_bindE)
    case (error e)
    then show ?thesis using assms(1) by (auto simp: keeps_order_def)
  next
    case (step x d1)
    then have "orders d d1 \<and> order_inv S0 d1 \<and> Q d1 x" using assms(1) by (auto simp: keeps_order_def)
    then show ?thesis using assms(2) [of d1 x] step(2) orders_trans unfolding keeps_order_def by blast
  qed
qed

lemma ko_then:
  assumes "keeps_order S0 d m Q"
    and "\<And>d1. orders d d1 \<Longrightarrow> order_inv S0 d1 \<Longrightarrow> Q d1 () \<Longrightarrow> keeps_order S0 d1 n R"
  shows "keeps_order S0 d (d_then m n) R"
  unfolding d_then_def by (rule ko_bind [OF assms(1)]) (use assms(2) in simp)

lemma ko_ret: "order_inv S0 d \<Longrightarrow> Q d x \<Longrightarrow> keeps_order S0 d (d_ret x) Q"
  by (simp add: keeps_order_def d_ret_def)

lemma ko_fail: "order_inv S0 d \<Longrightarrow> keeps_order S0 d (d_fail e) Q"
  by (simp add: keeps_order_def d_fail_def)

lemma ko_weaken: "keeps_order S0 d m Q \<Longrightarrow> (\<And>d' x. orders d d' \<Longrightarrow> Q d' x \<Longrightarrow> R d' x) \<Longrightarrow> keeps_order S0 d m R"
  by (auto simp: keeps_order_def)

text \<open>The changes of the state.\<close>

lemma order_inv_same:
  assumes "order_inv S0 d" "dump_btf d' = dump_btf d" "ordered d' = ordered d" "emit_queue d' = emit_queue d"
    and "\<And>i. referenced (type_states d' ! i) = referenced (type_states d ! i)"
  shows "order_inv S0 d'"
proof -
  have "definable d' = definable d" using assms(2,5) by (simp add: definable_def fun_eq_iff)
  then show ?thesis using assms(1-4) by (simp add: order_inv_def closed_def queue_ok_def)
qed

lemma set_order_result:
  "set_order i s d = (if i < length (type_states d)
     then (Inr (), d\<lparr>type_states := (type_states d)[i := (type_states d ! i)\<lparr>order_state := s\<rparr>]\<rparr>) else (Inl OOB, d))"
  by (simp add: set_order_def upd_state_def get_state_def d_bind_def d_get_def d_upd_def array_get_def)

lemma ko_ordering:
  assumes "order_inv S0 d" "i \<notin> ordered d"
  shows "keeps_order S0 d (set_order i ORDERING) (\<lambda>d' _. True)"
proof (cases "i < length (type_states d)")
  case False
  then show ?thesis using assms(1) by (simp add: keeps_order_def set_order_result)
next
  case True
  let ?d = "d\<lparr>type_states := (type_states d)[i := (type_states d ! i)\<lparr>order_state := ORDERING\<rparr>]\<rparr>"
  have o: "ordered ?d = ordered d" using assms(2) True by (auto simp: ordered_def nth_list_update split: if_splits)
  have r: "referenced (type_states ?d ! j) = referenced (type_states d ! j)" for j
    using True by (cases "j = i") simp_all
  have "order_inv S0 ?d" by (rule order_inv_same [OF assms(1)]) (use o r in simp_all)
  moreover have "orders d ?d" using o r by (simp add: orders_def)
  ultimately show ?thesis using True by (simp add: keeps_order_def set_order_result)
qed

lemma ko_ordered:
  assumes inv: "order_inv S0 d" and emb: "\<And>j. embeds_id (dump_btf d) i j \<Longrightarrow> settled (dump_btf d) (ordered d) j"
    and def: "definable d i \<Longrightarrow> i \<in> S0 \<or> i \<in> set (emit_queue d)"
  shows "keeps_order S0 d (set_order i ORDERED) (\<lambda>d' _. i \<in> ordered d')"
proof (cases "i < length (type_states d)")
  case False
  then show ?thesis using inv by (simp add: keeps_order_def set_order_result)
next
  case True
  let ?d = "d\<lparr>type_states := (type_states d)[i := (type_states d ! i)\<lparr>order_state := ORDERED\<rparr>]\<rparr>"
  have o: "ordered ?d = insert i (ordered d)" using True by (auto simp: ordered_def nth_list_update split: if_splits)
  have r: "referenced (type_states ?d ! j) = referenced (type_states d ! j)" for j
    using True by (cases "j = i") simp_all
  have D: "definable ?d = definable d" using r by (simp add: definable_def fun_eq_iff)
  have "closed ?d"
    using inv emb settled_mono [of "dump_btf d" "ordered d" _ "insert i (ordered d)"] by (auto simp: closed_def o order_inv_def)
  then have "order_inv S0 ?d" using inv def by (auto simp: order_inv_def o D queue_ok_def)
  moreover have "orders d ?d" using o r by (auto simp: orders_def)
  ultimately show ?thesis using True o by (simp add: keeps_order_def set_order_result)
qed

lemma ko_queue:
  assumes inv: "order_inv S0 d" and emb: "\<And>j. embeds_id (dump_btf d) i j \<Longrightarrow> settled (dump_btf d) (ordered d) j"
  shows "keeps_order S0 d (btf_dump_add_emit_queue_id alloc i) (\<lambda>d' _. i \<in> set (emit_queue d') \<and> ordered d' = ordered d)"
proof -
  have new: "j \<in> S0 \<or> j \<in> set (emit_queue d)" if "needs (dump_btf d) i j" "definable d j" for j
  proof -
    have "settled (dump_btf d) (ordered d) j"
      using settled_needs [OF that(1)] emb inv by (auto simp: order_inv_def closed_def)
    then show ?thesis using settled_definable that(2) inv by (auto simp: order_inv_def)
  qed
  have ok: "order_inv S0 (d\<lparr>emit_queue_cap := c, emit_queue := emit_queue d @ [i]\<rparr>)" (is "order_inv S0 ?d") for c
  proof -
    have D: "definable ?d = definable d" "ordered ?d = ordered d" by (simp_all add: definable_def fun_eq_iff ordered_def)
    have "queue_ok S0 ?d"
      unfolding queue_ok_def D
    proof (intro allI impI)
      fix k j
      assume k: "k < length (emit_queue ?d)" and j: "needs (dump_btf ?d) (emit_queue ?d ! k) j \<and> definable d j"
      show "j \<in> S0 \<or> j \<in> set (take k (emit_queue ?d))"
      proof (cases "k < length (emit_queue d)")
        case True
        then show ?thesis using inv j by (auto simp: order_inv_def queue_ok_def nth_append)
      next
        case False
        then show ?thesis using k j new by (auto simp: nth_append not_less less_Suc_eq)
      qed
    qed
    then show ?thesis using inv by (auto simp: order_inv_def closed_def D)
  qed
  have "orders d (d\<lparr>emit_queue_cap := c, emit_queue := emit_queue d @ [i]\<rparr>)" for c by (simp add: orders_def ordered_def)
  then show ?thesis using ok inv
    by (auto simp: keeps_order_def btf_dump_add_emit_queue_id_def d_bind_def d_get_def d_upd_def ordered_def split: sum.splits prod.splits)
qed

lemma ko_get_state:
  "order_inv S0 d \<Longrightarrow> keeps_order S0 d (get_state i) (\<lambda>d' s. d' = d \<and> s = type_states d ! i \<and> i < length (type_states d))"
  unfolding keeps_order_def by (auto elim!: get_stateE)

lemma ko_get_type:
  "order_inv S0 d \<Longrightarrow> keeps_order S0 d (get_type i) (\<lambda>d' t. d' = d \<and> btf__type_by_id (dump_btf d) i = Inr (Some t))"
  unfolding keeps_order_def by (auto elim!: get_typeE)

lemma ko_when: "(c \<Longrightarrow> keeps_order S0 d m Q) \<Longrightarrow> order_inv S0 d \<Longrightarrow> (\<not> c \<Longrightarrow> Q d ()) \<Longrightarrow> keeps_order S0 d (d_when c m) Q"
  by (auto simp: d_when_def intro: ko_ret)

lemma ko_each:
  assumes "\<And>x d. x \<in> set xs \<Longrightarrow> order_inv S0 d \<Longrightarrow> orders d0 d \<Longrightarrow> keeps_order S0 d (f x) (\<lambda>d' _. P d' x)"
    and "\<And>x d d'. P d x \<Longrightarrow> orders d d' \<Longrightarrow> P d' x"
    and "order_inv S0 d" "orders d0 d"
  shows "keeps_order S0 d (d_each f xs) (\<lambda>d' _. \<forall>x \<in> set xs. P d' x)"
  using assms(1,3,4)
proof (induction xs arbitrary: d)
  case Nil
  then show ?case by (simp add: ko_ret)
next
  case (Cons x xs)
  show ?case
    unfolding d_each.simps
  proof (rule ko_then [OF Cons.prems(1) [of x d]])
    fix d1
    assume d1: "orders d d1" "order_inv S0 d1" "P d1 x"
    show "keeps_order S0 d1 (d_each f xs) (\<lambda>d' _. \<forall>y \<in> set (x # xs). P d' y)"
    proof (rule ko_weaken [OF Cons.IH])
      show "orders d0 d1" using orders_trans [OF Cons.prems(3) d1(1)] .
      show "order_inv S0 d1" by (rule d1(2))
      show "keeps_order S0 d (f y) (\<lambda>d' _. P d' y)" if "y \<in> set xs" "order_inv S0 d" "orders d0 d" for y d
        using Cons.prems(1) that by simp
      show "\<forall>y \<in> set (x # xs). P d' y" if "orders d1 d'" "\<forall>y \<in> set xs. P d' y" for d'
        using that assms(2) [OF d1(3)] by simp
    qed
  qed (use Cons.prems in simp_all)
qed

lemma ko_order_any:
  assumes "\<And>i d. i \<in> set ids \<Longrightarrow> order_inv S0 d \<Longrightarrow> keeps_order S0 d (f i) (\<lambda>_ _. True)"
    and "order_inv S0 d"
  shows "keeps_order S0 d (order_any f ids) (\<lambda>_ _. True)"
  using assms
proof (induction ids arbitrary: d)
  case Nil
  then show ?case by (simp add: ko_ret)
next
  case (Cons i ids)
  show ?case
    unfolding order_any.simps
  proof (rule ko_bind)
    show "keeps_order S0 d (f i) (\<lambda>_ _. True)" using Cons.prems by simp
    fix s d1
    assume d1: "order_inv S0 d1"
    show "keeps_order S0 d1 (d_bind (order_any f ids) (\<lambda>r. d_ret (s \<or> r))) (\<lambda>_ _. True)"
    proof (rule ko_bind)
      show "keeps_order S0 d1 (order_any f ids) (\<lambda>_ _. True)" by (rule Cons.IH) (use Cons.prems d1 in simp_all)
    qed (simp add: ko_ret)
  qed
qed

text \<open>Sets a state after a step that may fail.\<close>

lemma ko_always:
  assumes "keeps_order S0 d m Q" and "\<And>d1. orders d d1 \<Longrightarrow> order_inv S0 d1 \<Longrightarrow> keeps_order S0 d1 n (\<lambda>d' _. R d')"
  shows "keeps_order S0 d (d_always m n) (\<lambda>d' _. R d')"
  unfolding keeps_order_def
proof (intro allI impI)
  fix r d'
  assume a: "d_always m n d = (r, d')"
  obtain r1 d1 where m: "m d = (r1, d1)" by fastforce
  obtain r2 d2 where n: "n d1 = (r2, d2)" by fastforce
  have d1: "orders d d1" "order_inv S0 d1" using assms(1) m unfolding keeps_order_def by blast+
  then have "orders d1 d2 \<and> order_inv S0 d2 \<and> (\<forall>x. r2 = Inr x \<longrightarrow> R d2)" using assms(2) n unfolding keeps_order_def by blast
  moreover have "d' = d2" using a m n by (cases r2) (simp_all add: d_always_def)
  moreover have "\<exists>y. r2 = Inr y" if "r = Inr x" for x using that a m n by (cases r2) (simp_all add: d_always_def)
  moreover have "orders d d2" using orders_trans [OF d1(1)] calculation(1) by blast
  ultimately show "orders d d' \<and> order_inv S0 d' \<and> (\<forall>x. r = Inr x \<longrightarrow> R d')" by blast
qed

lemma embeds_id_type: "btf__type_by_id b i = Inr (Some t) \<Longrightarrow> embeds_id b i j \<longleftrightarrow> j \<in> set (embeds t)"
  by (simp add: embeds_id_def)

definition order_post :: "nat \<Rightarrow> bool \<Rightarrow> btf_dump \<Rightarrow> bool \<Rightarrow> bool" where
  "order_post i through_ptr d s \<longleftrightarrow> (\<not> through_ptr \<or> s \<longrightarrow> settled (dump_btf d) (ordered d) i)"

lemma order_post_ordered: "i \<in> ordered d \<Longrightarrow> order_post i tp d s"
  by (simp add: order_post_def settled.ordered)

text \<open>A type without a definition of its own that embeds nothing.\<close>

lemma ko_plain:
  assumes "order_inv S0 d" "btf__type_by_id (dump_btf d) i = Inr (Some t)" "embeds t = []" "\<not> definable d i"
  shows "keeps_order S0 d (set_order i ORDERED) (\<lambda>d' _. i \<in> ordered d')"
  by (rule ko_ordered) (use assms in \<open>auto simp: embeds_id_type\<close>)

lemma ko_struct:
  assumes rec: "\<And>j d. order_inv S0 d \<Longrightarrow> keeps_order S0 d (recur j False) (order_post j False)"
    and inv: "order_inv S0 d" and t: "btf__type_by_id (dump_btf d) i = Inr (Some t)" "btf_is_composite t" "i \<notin> ordered d"
  shows "keeps_order S0 d (order_struct recur alloc i t tp) (order_post i tp)"
proof (cases "tp \<and> name_off t \<noteq> 0")
  case True
  then show ?thesis using inv by (simp add: order_struct_def order_post_def ko_ret)
next
  case False
  have e: "set (embeds t) = (\<lambda>m. unat (m_type m)) ` set (btf_members t)"
    using t(2) by (auto simp: embeds_def btf_is_composite_def)
  show ?thesis
    unfolding order_struct_def if_not_P [OF False]
  proof (rule ko_then [OF ko_ordering [OF inv t(3)]])
    fix d1
    assume d1: "orders d d1" "order_inv S0 d1"
    have each: "keeps_order S0 d1 (d_each (\<lambda>m. d_bind (recur (unat (m_type m)) False) (\<lambda>_. d_ret ())) (btf_members t))
        (\<lambda>d' _. \<forall>m \<in> set (btf_members t). settled (dump_btf d') (ordered d') (unat (m_type m)))"
    proof (rule ko_each [where ?d0.0 = d1])
      show "keeps_order S0 d2 (d_bind (recur (unat (m_type m)) False) (\<lambda>_. d_ret ())) (\<lambda>d' _. settled (dump_btf d') (ordered d') (unat (m_type m)))"
        if "order_inv S0 d2" for m d2
        by (rule ko_bind [OF rec [OF that]]) (simp add: ko_ret order_post_def)
    qed (use d1 orders_settled in auto)
    show "keeps_order S0 d1 (d_then (d_each (\<lambda>m. d_bind (recur (unat (m_type m)) False) (\<lambda>_. d_ret ())) (btf_members t))
        (d_then (d_when (name_off t \<noteq> 0) (btf_dump_add_emit_queue_id alloc i)) (d_then (set_order i ORDERED) (d_ret True)))) (order_post i tp)"
    proof (rule ko_then [OF each])
      fix d2
      assume d2: "orders d1 d2" "order_inv S0 d2" "\<forall>m \<in> set (btf_members t). settled (dump_btf d2) (ordered d2) (unat (m_type m))"
      have o: "orders d d2" using orders_trans [OF d1(1) d2(1)] .
      have t2: "btf__type_by_id (dump_btf d2) i = Inr (Some t)" using t(1) o by (simp add: orders_def)
      have emb: "settled (dump_btf d2) (ordered d2) j" if "embeds_id (dump_btf d2) i j" for j
        using that d2(3) e by (auto simp: embeds_id_type [OF t2])
      have "keeps_order S0 d2 (d_when (name_off t \<noteq> 0) (btf_dump_add_emit_queue_id alloc i))
          (\<lambda>d' _. ordered d' = ordered d2 \<and> (name_off t \<noteq> 0 \<longrightarrow> i \<in> set (emit_queue d')))"
        by (rule ko_when) (use d2(2) in \<open>auto intro: ko_weaken [OF ko_queue [OF d2(2) emb]]\<close>)
      then show "keeps_order S0 d2 (d_then (d_when (name_off t \<noteq> 0) (btf_dump_add_emit_queue_id alloc i))
          (d_then (set_order i ORDERED) (d_ret True))) (order_post i tp)"
      proof (rule ko_then)
        fix d3
        assume d3: "orders d2 d3" "order_inv S0 d3" "ordered d3 = ordered d2 \<and> (name_off t \<noteq> 0 \<longrightarrow> i \<in> set (emit_queue d3))"
        have t3: "btf__type_by_id (dump_btf d3) i = Inr (Some t)" using t2 d3(1) by (simp add: orders_def)
        show "keeps_order S0 d3 (d_then (set_order i ORDERED) (d_ret True)) (order_post i tp)"
        proof (rule ko_then [OF ko_ordered [OF d3(2)]])
          show "settled (dump_btf d3) (ordered d3) j" if "embeds_id (dump_btf d3) i j" for j
            using emb [of j] that d3 by (simp add: orders_def)
          show "i \<in> S0 \<or> i \<in> set (emit_queue d3)" if "definable d3 i"
            using that d3(3) t3 t(2)
            by (auto simp: definable_def btf_is_composite_def btf_is_typedef_def btf_is_enum_def btf_is_fwd_def)
        qed (simp add: ko_ret order_post_ordered)
      qed
    qed
  qed
qed

lemma ko_leaf:
  assumes inv: "order_inv S0 d" and t: "btf__type_by_id (dump_btf d) i = Inr (Some t)" "btf_is_enum t \<or> btf_is_fwd t"
  shows "keeps_order S0 d (order_leaf alloc i t (referenced (type_states d ! i))) (order_post i tp)"
  unfolding order_leaf_def
proof (rule ko_then)
  have e: "embeds t = []" using t(2) by (auto simp: embeds_def btf_is_enum_def btf_is_fwd_def)
  let ?c = "name_off t \<noteq> 0 \<or> \<not> referenced (type_states d ! i)"
  show "keeps_order S0 d (d_when ?c (btf_dump_add_emit_queue_id alloc i)) (\<lambda>d' _. ?c \<longrightarrow> i \<in> set (emit_queue d'))"
    by (rule ko_when) (use inv e in \<open>auto simp: embeds_id_type [OF t(1)] intro!: ko_weaken [OF ko_queue [OF inv]]\<close>)
  fix d1
  assume d1: "orders d d1" "order_inv S0 d1" "?c \<longrightarrow> i \<in> set (emit_queue d1)"
  have t1: "btf__type_by_id (dump_btf d1) i = Inr (Some t)" using t(1) d1(1) by (simp add: orders_def)
  show "keeps_order S0 d1 (d_then (set_order i ORDERED) (d_ret True)) (order_post i tp)"
  proof (rule ko_then [OF ko_ordered [OF d1(2)]])
    show "settled (dump_btf d1) (ordered d1) j" if "embeds_id (dump_btf d1) i j" for j
      using that e by (simp add: embeds_id_type [OF t1])
    show "i \<in> S0 \<or> i \<in> set (emit_queue d1)" if "definable d1 i"
      using that d1 t1 t(2) by (auto simp: definable_def btf_is_composite_def btf_is_typedef_def btf_is_enum_def btf_is_fwd_def orders_def)
  qed (simp add: ko_ret order_post_ordered)
qed

lemma ko_typedef:
  assumes rec: "keeps_order S0 d m (order_post (unat (ref_type t)) tp)"
    and t: "btf__type_by_id (dump_btf d) i = Inr (Some t)" "btf_is_typedef t"
  shows "keeps_order S0 d (d_bind m (\<lambda>is_strong. if tp \<and> \<not> is_strong then d_ret False
      else d_then (btf_dump_add_emit_queue_id alloc i) (d_then (set_order i ORDERED) (d_ret True)))) (order_post i tp)"
proof (rule ko_bind [OF rec])
  fix s d1
  assume d1: "orders d d1" "order_inv S0 d1" "order_post (unat (ref_type t)) tp d1 s"
  show "keeps_order S0 d1 (if tp \<and> \<not> s then d_ret False
      else d_then (btf_dump_add_emit_queue_id alloc i) (d_then (set_order i ORDERED) (d_ret True))) (order_post i tp)"
  proof (cases "tp \<and> \<not> s")
    case True
    then show ?thesis using d1(2) by (simp add: ko_ret order_post_def)
  next
    case False
    have e: "embeds t = [unat (ref_type t)]" using t(2) by (simp add: embeds_def btf_is_typedef_def)
    have t1: "btf__type_by_id (dump_btf d1) i = Inr (Some t)" using t(1) d1(1) by (simp add: orders_def)
    have emb: "settled (dump_btf d1) (ordered d1) j" if "embeds_id (dump_btf d1) i j" for j
      using that d1(3) False e by (auto simp: embeds_id_type [OF t1] order_post_def)
    show ?thesis
      unfolding if_not_P [OF False]
    proof (rule ko_then [OF ko_queue [OF d1(2) emb]])
      fix d2
      assume d2: "orders d1 d2" "order_inv S0 d2" "i \<in> set (emit_queue d2) \<and> ordered d2 = ordered d1"
      show "keeps_order S0 d2 (d_then (set_order i ORDERED) (d_ret True)) (order_post i tp)"
      proof (rule ko_then [OF ko_ordered [OF d2(2)]])
        show "settled (dump_btf d2) (ordered d2) j" if "embeds_id (dump_btf d2) i j" for j
          using emb [of j] that d2 by (simp add: orders_def)
        show "i \<in> S0 \<or> i \<in> set (emit_queue d2)" using d2(3) by simp
      qed (simp add: ko_ret order_post_ordered)
    qed simp
  qed
qed

text \<open>A type that passes the question on.\<close>

lemma ko_through:
  assumes rec: "keeps_order S0 d m (order_post j tp)"
    and t: "btf__type_by_id (dump_btf d) i = Inr (Some t)" "btf_is_array t \<or> btf_is_mod t" "embeds t = [j]"
  shows "keeps_order S0 d m (order_post i tp)"
proof (rule ko_weaken [OF rec])
  fix d' s
  assume d': "orders d d'" "order_post j tp d' s"
  have t': "btf__type_by_id (dump_btf d') i = Inr (Some t)" using t(1) d'(1) by (simp add: orders_def)
  show "order_post i tp d' s"
    unfolding order_post_def
  proof
    assume "\<not> tp \<or> s"
    then have "settled (dump_btf d') (ordered d') j" using d'(2) by (simp add: order_post_def)
    then show "settled (dump_btf d') (ordered d') i" using t(2,3) by (intro settled.through [OF t']) auto
  qed
qed

lemma not_definable:
  assumes "btf__type_by_id (dump_btf d) i = Inr (Some t)"
    "btf_kind t \<in> {BTF_KIND_INT, BTF_KIND_PTR, BTF_KIND_FUNC, BTF_KIND_VAR, BTF_KIND_DATASEC}"
  shows "embeds t = []" "\<not> definable d i"
  using assms
  by (auto simp: embeds_def definable_def btf_is_composite_def btf_is_typedef_def btf_is_enum_def btf_is_fwd_def)

lemma ko_order_type: "order_inv S0 d \<Longrightarrow> keeps_order S0 d (order_type n alloc i tp) (order_post i tp)"
proof (induction n arbitrary: d i tp)
  case 0
  then show ?case by (simp add: ko_fail)
next
  case (Suc n)
  show ?case
    unfolding order_type.simps
  proof (rule ko_bind [OF ko_get_state [OF Suc.prems]])
    fix s d1
    assume "d1 = d \<and> s = type_states d ! i \<and> i < length (type_states d)"
    then have s: "d1 = d" "s = type_states d ! i" "i < length (type_states d)" by simp_all
    note inv = Suc.prems
    let ?case_of = "\<lambda>t. case btf_kind t of
            BTF_KIND_INT \<Rightarrow> d_then (set_order i ORDERED) (d_ret False)
          | BTF_KIND_PTR \<Rightarrow> d_always (order_type n alloc (unat (ref_type t)) True) (set_order i ORDERED)
          | BTF_KIND_ARRAY \<Rightarrow> order_type n alloc (unat (a_type (btf_array t))) tp
          | BTF_KIND_STRUCT \<Rightarrow> order_struct (order_type n alloc) alloc i t tp
          | BTF_KIND_UNION \<Rightarrow> order_struct (order_type n alloc) alloc i t tp
          | BTF_KIND_ENUM \<Rightarrow> order_leaf alloc i t (referenced s)
          | BTF_KIND_FWD \<Rightarrow> order_leaf alloc i t (referenced s)
          | BTF_KIND_TYPEDEF \<Rightarrow>
              d_bind (order_type n alloc (unat (ref_type t)) tp) (\<lambda>is_strong.
              if tp \<and> \<not> is_strong then d_ret False
              else d_then (btf_dump_add_emit_queue_id alloc i) (d_then (set_order i ORDERED) (d_ret True)))
          | BTF_KIND_VOLATILE \<Rightarrow> order_type n alloc (unat (ref_type t)) tp
          | BTF_KIND_CONST \<Rightarrow> order_type n alloc (unat (ref_type t)) tp
          | BTF_KIND_RESTRICT \<Rightarrow> order_type n alloc (unat (ref_type t)) tp
          | BTF_KIND_FUNC_PROTO \<Rightarrow>
              order_any (\<lambda>j. order_type n alloc j tp)
                (unat (ref_type t) # map (\<lambda>p. unat (btf_param_t.p_type p)) (btf_params t))
          | BTF_KIND_FUNC \<Rightarrow> d_then (set_order i ORDERED) (d_ret False)
          | BTF_KIND_VAR \<Rightarrow> d_then (set_order i ORDERED) (d_ret False)
          | BTF_KIND_DATASEC \<Rightarrow> d_then (set_order i ORDERED) (d_ret False)
          | BTF_KIND_UNKN \<Rightarrow> d_fail EINVAL"
    have plain: "keeps_order S0 d (d_then (set_order i ORDERED) (d_ret False)) (order_post i tp)"
      if "btf__type_by_id (dump_btf d) i = Inr (Some t)"
        "btf_kind t \<in> {BTF_KIND_INT, BTF_KIND_PTR, BTF_KIND_FUNC, BTF_KIND_VAR, BTF_KIND_DATASEC}" for t
      by (rule ko_then [OF ko_plain [OF inv that(1) not_definable [OF that]]]) (simp add: ko_ret order_post_ordered)
    have kinds: "keeps_order S0 d (?case_of t) (order_post i tp)"
      if t: "btf__type_by_id (dump_btf d) i = Inr (Some t)" and no: "order_state s \<noteq> ORDERED" for t
    proof -
      have new: "i \<notin> ordered d" using no s by (simp add: ordered_def)
      have struct: "keeps_order S0 d (order_struct (order_type n alloc) alloc i t tp) (order_post i tp)" if "btf_is_composite t"
        by (rule ko_struct [OF _ inv t that new]) (rule Suc.IH)
      have leaf: "keeps_order S0 d (order_leaf alloc i t (referenced s)) (order_post i tp)" if "btf_is_enum t \<or> btf_is_fwd t"
        using ko_leaf [OF inv t that] s(2) by simp
      have ptr: "keeps_order S0 d (d_always (order_type n alloc (unat (ref_type t)) True) (set_order i ORDERED)) (order_post i tp)"
        if "btf_kind t = BTF_KIND_PTR"
      proof (rule ko_weaken [OF ko_always [OF Suc.IH [OF inv]]])
        fix d1
        assume d1: "orders d d1" "order_inv S0 d1"
        then have "btf__type_by_id (dump_btf d1) i = Inr (Some t)" using t by (simp add: orders_def)
        then show "keeps_order S0 d1 (set_order i ORDERED) (\<lambda>d' _. i \<in> ordered d')"
          by (rule ko_plain [OF d1(2)]) (use not_definable [OF \<open>btf__type_by_id (dump_btf d1) i = Inr (Some t)\<close>] that in simp_all)
      qed (simp add: order_post_ordered)
      have func: "keeps_order S0 d (order_any (\<lambda>j. order_type n alloc j tp) ids) (order_post i tp)" if "btf_kind t = BTF_KIND_FUNC_PROTO" for ids
      proof (rule ko_weaken [OF ko_order_any])
        show "keeps_order S0 d2 (order_type n alloc j tp) (\<lambda>_ _. True)" if "order_inv S0 d2" for j d2
          by (rule ko_weaken [OF Suc.IH [OF that]]) simp
        fix d' r
        assume "orders d d'"
        then have "btf__type_by_id (dump_btf d') i = Inr (Some t)" using t by (simp add: orders_def)
        then have "settled (dump_btf d') (ordered d') i"
          by (rule settled.through) (use that in \<open>simp_all add: btf_is_func_proto_def embeds_def\<close>)
        then show "order_post i tp d' r" by (simp add: order_post_def)
      qed (rule inv)
      show ?thesis
      proof (cases "btf_kind t")
        case BTF_KIND_TYPEDEF
        then show ?thesis using ko_typedef [OF Suc.IH [OF inv] t] by (simp add: btf_is_typedef_def)
      next
        case BTF_KIND_ARRAY
        then show ?thesis using ko_through [OF Suc.IH [OF inv] t] by (simp add: btf_is_array_def embeds_def)
      next
        case BTF_KIND_VOLATILE
        then show ?thesis using ko_through [OF Suc.IH [OF inv] t] by (simp add: btf_is_mod_def embeds_def)
      next
        case BTF_KIND_CONST
        then show ?thesis using ko_through [OF Suc.IH [OF inv] t] by (simp add: btf_is_mod_def embeds_def)
      next
        case BTF_KIND_RESTRICT
        then show ?thesis using ko_through [OF Suc.IH [OF inv] t] by (simp add: btf_is_mod_def embeds_def)
      next
        case BTF_KIND_STRUCT
        then show ?thesis using struct by (simp add: btf_is_composite_def)
      next
        case BTF_KIND_UNION
        then show ?thesis using struct by (simp add: btf_is_composite_def)
      next
        case BTF_KIND_ENUM
        then show ?thesis using leaf by (simp add: btf_is_enum_def)
      next
        case BTF_KIND_FWD
        then show ?thesis using leaf by (simp add: btf_is_fwd_def)
      next
        case BTF_KIND_FUNC_PROTO
        then show ?thesis by (simp add: func del: order_any.simps)
      qed (use plain [OF t] ptr func inv in \<open>simp_all add: ko_fail\<close>)
    qed
    show "keeps_order S0 d1 (if order_state s = ORDERED then d_ret True
        else d_bind (get_type i) (\<lambda>t. if order_state s = ORDERING
          then if btf_is_composite t \<and> tp \<and> name_off t \<noteq> 0 then d_ret False else d_fail ELOOP else ?case_of t)) (order_post i tp)"
    proof (cases "order_state s = ORDERED")
      case True
      then have "i \<in> ordered d" using s by (simp add: ordered_def)
      then show ?thesis using True inv s by (simp add: ko_ret order_post_ordered)
    next
      case False
      show ?thesis
        unfolding if_not_P [OF False] s(1)
      proof (rule ko_bind [OF ko_get_type [OF inv]])
        fix t d2
        assume "d2 = d \<and> btf__type_by_id (dump_btf d) i = Inr (Some t)"
        then have t: "d2 = d" "btf__type_by_id (dump_btf d) i = Inr (Some t)" by simp_all
        show "keeps_order S0 d2 (if order_state s = ORDERING
          then if btf_is_composite t \<and> tp \<and> name_off t \<noteq> 0 then d_ret False else d_fail ELOOP else ?case_of t) (order_post i tp)"
        proof (cases "order_state s = ORDERING")
          case True
          then show ?thesis using inv t(1) by (auto simp: ko_fail order_post_def intro: ko_ret)
        next
          case no: False
          show ?thesis unfolding if_not_P [OF no] t(1) by (rule kinds [OF t(2) False])
        qed
      qed
    qed
  qed
qed

text \<open>
  C28. The order in which \<^verbatim>\<open>btf_dump_order_type\<close> puts the definitions: every definition that a queued one needs, directly
  or through the types it embeds, comes before it in the queue, or had been ordered by an earlier call. The asked
  type and what it needs is then ordered, and the state is again one from which this holds.
\<close>

theorem btf_dump_order_type_sorts:
  assumes "closed d" "emit_queue d = []" "btf_dump_order_type alloc i False d = (Inr s, d')"
  shows "closed d' \<and>
    (\<forall>k < length (emit_queue d'). \<forall>j. needs (dump_btf d) (emit_queue d' ! k) j \<and> definable d j \<longrightarrow>
       j \<in> ordered d \<or> j \<in> set (take k (emit_queue d'))) \<and>
    (\<forall>j. (j = i \<or> needs (dump_btf d) i j) \<and> definable d j \<longrightarrow> j \<in> ordered d \<or> j \<in> set (emit_queue d'))"
proof -
  have inv: "order_inv (ordered d) d" using assms(1,2) by (simp add: order_inv_def queue_ok_def)
  have run: "order_type (order_depth d) alloc i False d = (Inr s, d')" using assms(3) by (simp add: btf_dump_order_type_def d_with_def)
  have K: "orders d d'" "order_inv (ordered d) d'" "settled (dump_btf d') (ordered d') i"
    using ko_order_type [OF inv, of "order_depth d" alloc i False] run by (auto simp: keeps_order_def order_post_def)
  have b: "dump_btf d' = dump_btf d" "definable d' = definable d" using K(1) orders_definable by (simp_all add: orders_def)
  have cl: "closed d'" using K(2) by (simp add: order_inv_def)
  have "settled (dump_btf d') (ordered d') j" if "needs (dump_btf d) i j" for j
  proof -
    have "\<forall>j. embeds_id (dump_btf d') i j \<longrightarrow> settled (dump_btf d') (ordered d') j"
      using K(3) cl by (cases rule: settled.cases) (auto simp: closed_def embeds_id_def)
    then show ?thesis using settled_needs [of "dump_btf d'" i j] that cl b(1) by (simp add: closed_def)
  qed
  then have "j \<in> ordered d'" if "j = i \<or> needs (dump_btf d) i j" "definable d j" for j
    using that settled_definable [of d' "ordered d'" j] K(3) b(2) by auto
  then show ?thesis using K(2) b by (auto simp: order_inv_def queue_ok_def)
qed

subsection \<open>An example\<close>

text \<open>\<^verbatim>\<open>struct A { struct B b; }\<close> before \<^verbatim>\<open>struct B { struct A *x; }\<close>, and a converter for them.\<close>

definition dx_ptr :: btf_type where
  "dx_ptr = \<lparr>name_off = 0, info = btf_type_info BTF_KIND_PTR 0 False, size_type = 2, vdata = VNone\<rparr>"

definition dx_A :: btf_type where
  "dx_A = \<lparr>name_off = 1, info = btf_type_info BTF_KIND_STRUCT 1 False, size_type = 8,
     vdata = VMembers [\<lparr>m_name_off = 5, m_type = 3, m_offset = 0\<rparr>]\<rparr>"

definition dx_B :: btf_type where
  "dx_B = \<lparr>name_off = 3, info = btf_type_info BTF_KIND_STRUCT 1 False, size_type = 8,
     vdata = VMembers [\<lparr>m_name_off = 7, m_type = 1, m_offset = 0\<rparr>]\<rparr>"

definition dx_btf :: btf where
  "dx_btf = Btf ((btf_calloc None)\<lparr>hdr := hdr_zero\<lparr>hdr_len := 24, type_len := 60, str_len := 9\<rparr>,
     types_data := encode_types [dx_ptr, dx_A, dx_B], type_offs := [0, 12, 36], nr_types := 3,
     strs_data := NUL # ''A'' @ [NUL] @ ''B'' @ [NUL] @ ''b'' @ [NUL] @ ''x'' @ [NUL]\<rparr>) None"

definition dx_dump :: btf_dump where
  "dx_dump = \<lparr>dump_btf = dx_btf, dump_text = [], dump_ptr_sz = 8, strip_mods = False, last_id = 3,
     type_states = [aux_zero\<lparr>order_state := ORDERED, emit_state := EMITTED\<rparr>, aux_zero\<lparr>referenced := True\<rparr>, aux_zero,
       aux_zero\<lparr>referenced := True\<rparr>],
     cached_names = replicate 4 None, emit_queue = [], emit_queue_cap = 0, decl_stack = [], decl_stack_cap = 0,
     type_names = hashmap__init str_hash_fn str_equal_fn (), ident_names = hashmap__init str_hash_fn str_equal_fn ()\<rparr>"

lemma dx_type_kinds [simp]:
  "btf_kind dx_ptr = BTF_KIND_PTR" "btf_kind dx_A = BTF_KIND_STRUCT" "btf_kind dx_B = BTF_KIND_STRUCT"
  by code_simp+

lemma dx_vlens: "btf_vlen dx_A = 1" "btf_vlen dx_B = 1"
  by code_simp+

lemma dx_view: "btf_view dx_btf [dx_ptr, dx_A, dx_B]"
proof -
  have "wf_type dx_ptr" "wf_type dx_A" "wf_type dx_B" 
    by (simp_all add: wf_type_def dx_vlens [unfolded One_nat_def]) (simp_all add: dx_ptr_def dx_A_def dx_B_def dx_vlens [unfolded dx_A_def dx_B_def One_nat_def])
  moreover have "length (encode_type dx_ptr) = 12" "length (encode_type dx_A) = 24" "length (encode_type dx_B) = 24"
    by (simp_all add: encode_type_def dx_ptr_def dx_A_def dx_B_def)
  ultimately show ?thesis by (simp add: btf_repr_def dx_btf_def btf_calloc_def hdr_zero_def)
qed

lemma dx_members [simp]:
  "btf_members dx_A = [\<lparr>m_name_off = 5, m_type = 3, m_offset = 0\<rparr>]" "btf_members dx_B = [\<lparr>m_name_off = 7, m_type = 1, m_offset = 0\<rparr>]"
  by (simp_all add: btf_members_def dx_A_def dx_B_def)

lemma dx_by_id [simp]:
  "btf__type_by_id dx_btf (Suc 0) = Inr (Some dx_ptr)" "btf__type_by_id dx_btf 2 = Inr (Some dx_A)"
  "btf__type_by_id dx_btf 3 = Inr (Some dx_B)"
  using btf_type_by_id_view [OF dx_view, of 1] btf_type_by_id_view [OF dx_view, of 2] btf_type_by_id_view [OF dx_view, of 3]
  by (simp_all add: btf__type_by_id_def) (simp_all add: dx_btf_def btf_calloc_def)

lemma dx_void [simp]: "btf__type_by_id dx_btf 0 = Inr (Some btf_void)"
  by (simp add: btf__type_by_id_def result_simps) (simp add: dx_btf_def btf_calloc_def)

lemma dx_names [simp]: "name_off dx_A \<noteq> 0" "name_off dx_B \<noteq> 0" "ref_type dx_ptr = 2"
  by (simp_all add: dx_A_def dx_B_def dx_ptr_def)

lemmas dump_steps = d_bind_def d_then_def d_get_def d_upd_def d_ret_def d_fail_def d_with_def d_when_def get_type_def get_state_def
  array_get_def upd_state_def set_order_def d_always_def

definition dx_done :: btf_dump where
  "dx_done = dx_dump\<lparr>emit_queue := [3, 2], emit_queue_cap := 16,
     type_states := [aux_zero\<lparr>order_state := ORDERED, emit_state := EMITTED\<rparr>,
       aux_zero\<lparr>order_state := ORDERED, referenced := True\<rparr>, aux_zero\<lparr>order_state := ORDERED\<rparr>,
       aux_zero\<lparr>order_state := ORDERED, referenced := True\<rparr>]\<rparr>"

lemma dx_order_type: "order_type (Suc (Suc (Suc (Suc n)))) served 2 False dx_dump = (Inr True, dx_done)"
  by (simp add: dump_steps dx_dump_def dx_done_def order_struct_def aux_zero_def btf_dump_add_emit_queue_id_def
      grown_cap_def libbpf_reallocarray_def btf_is_composite_def)

lemma dx_order: "btf_dump_order_type served 2 False dx_dump = (Inr True, dx_done)"
proof -
  have "order_depth dx_dump = Suc (Suc (Suc (Suc 96)))"
    by (simp add: order_depth_def btf__get_nr_types_def dx_dump_def dx_btf_def btf_calloc_def)
  then show ?thesis unfolding btf_dump_order_type_def d_with_def by (simp only: dx_order_type)
qed

lemma dx_closed: "closed dx_dump" "emit_queue dx_dump = []"
proof -
  have "ordered dx_dump = {0}" by (auto simp: ordered_def dx_dump_def aux_zero_def less_Suc_eq numeral_eq_Suc nth_Cons')
  then show "closed dx_dump" by (simp add: closed_def embeds_id_def btf__type_by_id_def embeds_def result_simps)
qed (simp add: dx_dump_def)

theorem btf_dump_order_type_sorts_witness:
  "\<exists>d'. btf_dump_order_type served 2 False dx_dump = (Inr True, d') \<and> emit_queue d' = [3, 2] \<and> closed d' \<and>
     (\<forall>j. (j = 2 \<or> needs (dump_btf dx_dump) 2 j) \<and> definable dx_dump j \<longrightarrow> j \<in> ordered dx_dump \<or> j \<in> set (emit_queue d'))"
  using btf_dump_order_type_sorts [OF dx_closed dx_order] dx_order by (simp add: dx_done_def)

end
