(* ===== verification/Dump_Ends.thy ===== *)
theory Dump_Ends
  imports Dump_Order
begin

text \<open>
  The search for the order of definitions ends: within the depth the model gives it, when every cycle of references goes
  through a struct or union.
\<close>

subsection \<open>References the search follows without a mark\<close>

text \<open>A struct or union is marked before its members are visited; from the other types the search goes on at once.\<close>

definition links :: "btf_type \<Rightarrow> nat list" where
  "links t =
     (case btf_kind t of
        BTF_KIND_PTR \<Rightarrow> [unat (ref_type t)]
      | BTF_KIND_ARRAY \<Rightarrow> [unat (a_type (btf_array t))]
      | BTF_KIND_TYPEDEF \<Rightarrow> [unat (ref_type t)]
      | BTF_KIND_VOLATILE \<Rightarrow> [unat (ref_type t)]
      | BTF_KIND_CONST \<Rightarrow> [unat (ref_type t)]
      | BTF_KIND_RESTRICT \<Rightarrow> [unat (ref_type t)]
      | BTF_KIND_FUNC_PROTO \<Rightarrow> unat (ref_type t) # map (\<lambda>p. unat (btf_param_t.p_type p)) (btf_params t)
      | _ \<Rightarrow> [])"

definition link :: "btf \<Rightarrow> (nat \<times> nat) set" where
  "link b = {(i, j). \<exists>t. btf__type_by_id b i = Inr (Some t) \<and> j \<in> set (links t)}"

definition reach :: "btf \<Rightarrow> nat \<Rightarrow> nat set" where
  "reach b i = {k. (i, k) \<in> (link b)\<^sup>* \<and> k \<le> btf__get_nr_types b}"

lemma type_by_id_le: "btf__type_by_id b i = Inr (Some t) \<Longrightarrow> i \<le> btf__get_nr_types b"
  by (simp add: btf__type_by_id_def btf__get_nr_types_def split: if_splits)

lemma finite_reach [simp]: "finite (reach b i)"
  by (rule finite_subset [of _ "{..btf__get_nr_types b}"]) (auto simp: reach_def)

lemma card_reach_le: "card (reach b i) \<le> Suc (btf__get_nr_types b)"
  using card_mono [of "{..btf__get_nr_types b}" "reach b i"] by (auto simp: reach_def)

lemma card_reach_link:
  assumes "acyclic (link b)" "btf__type_by_id b i = Inr (Some t)" "j \<in> set (links t)"
  shows "card (reach b j) < card (reach b i)"
proof (rule psubset_card_mono)
  have ij: "(i, j) \<in> link b" using assms(2,3) by (auto simp: link_def)
  have "reach b j \<subseteq> reach b i" using ij by (auto simp: reach_def intro: converse_rtrancl_into_rtrancl)
  moreover have "i \<in> reach b i" using type_by_id_le [OF assms(2)] by (simp add: reach_def)
  moreover have "i \<notin> reach b j"
  proof
    assume "i \<in> reach b j"
    then have "(i, i) \<in> (link b)\<^sup>+" using ij by (auto simp: reach_def intro: rtrancl_into_trancl2)
    then show False using assms(1) by (simp add: acyclic_def)
  qed
  ultimately show "reach b j \<subset> reach b i" by blast
qed simp

lemma card_reach_pos: "btf__type_by_id b i = Inr (Some t) \<Longrightarrow> 0 < card (reach b i)"
  using type_by_id_le [of b i t] by (auto simp: card_gt_0_iff reach_def)

subsection \<open>Steps that end\<close>

definition unvisited :: "btf_dump \<Rightarrow> nat set" where
  "unvisited d = {i. i < length (type_states d) \<and> i \<le> btf__get_nr_types (dump_btf d) \<and> order_state (type_states d ! i) = NOT_ORDERED}"

lemma finite_unvisited [simp]: "finite (unvisited d)"
  by (simp add: unvisited_def)

lemma card_unvisited_le: "card (unvisited d) \<le> Suc (btf__get_nr_types (dump_btf d))"
  using card_mono [of "{..btf__get_nr_types (dump_btf d)}" "unvisited d"] by (auto simp: unvisited_def)

definition marks :: "btf_dump \<Rightarrow> btf_dump \<Rightarrow> bool" where
  "marks d d' \<longleftrightarrow> dump_btf d' = dump_btf d \<and> unvisited d' \<subseteq> unvisited d"

lemma marks_refl [simp]: "marks d d"
  by (simp add: marks_def)

lemma marks_trans: "marks d d1 \<Longrightarrow> marks d1 d2 \<Longrightarrow> marks d d2"
  by (auto simp: marks_def)

text \<open>A step that ends, and only marks more types.\<close>

definition ends :: "btf_dump \<Rightarrow> 'a dump \<Rightarrow> (btf_dump \<Rightarrow> 'a \<Rightarrow> bool) \<Rightarrow> bool" where
  "ends d m Q \<longleftrightarrow> (\<forall>r d'. m d = (r, d') \<longrightarrow> r \<noteq> Inl NONTERM \<and> marks d d' \<and> (\<forall>x. r = Inr x \<longrightarrow> Q d' x))"

lemma ends_bind:
  assumes "ends d m Q" and "\<And>x d1. marks d d1 \<Longrightarrow> Q d1 x \<Longrightarrow> ends d1 (f x) R"
  shows "ends d (d_bind m f) R"
  unfolding ends_def
proof (intro allI impI)
  fix r d'
  assume "d_bind m f d = (r, d')"
  then show "r \<noteq> Inl NONTERM \<and> marks d d' \<and> (\<forall>x. r = Inr x \<longrightarrow> R d' x)"
  proof (cases rule: d_bindE)
    case (error e)
    then show ?thesis using assms(1) by (auto simp: ends_def)
  next
    case (step x d1)
    then have d1: "marks d d1" "Q d1 x" using assms(1) by (auto simp: ends_def)
    show ?thesis using assms(2) [OF d1] step(2) marks_trans [OF d1(1)] by (auto simp: ends_def)
  qed
qed

lemma ends_then:
  assumes "ends d m Q" and "\<And>d1. marks d d1 \<Longrightarrow> Q d1 () \<Longrightarrow> ends d1 n R"
  shows "ends d (d_then m n) R"
  unfolding d_then_def by (rule ends_bind [OF assms(1)]) (use assms(2) in simp)

lemma ends_ret: "Q d x \<Longrightarrow> ends d (d_ret x) Q"
  by (simp add: ends_def d_ret_def)

lemma ends_fail: "e \<noteq> NONTERM \<Longrightarrow> ends d (d_fail e) Q"
  by (simp add: ends_def d_fail_def)

lemma ends_when: "(c \<Longrightarrow> ends d m (\<lambda>_ _. True)) \<Longrightarrow> ends d (d_when c m) (\<lambda>_ _. True)"
  by (simp add: d_when_def ends_ret)

lemma ends_any: "ends d m Q \<Longrightarrow> ends d m (\<lambda>_ _. True)"
  by (simp add: ends_def)

lemma ends_each:
  assumes "\<And>x d1. x \<in> set xs \<Longrightarrow> marks d d1 \<Longrightarrow> ends d1 (f x) (\<lambda>_ _. True)"
  shows "ends d (d_each f xs) (\<lambda>_ _. True)"
  using assms
proof (induction xs arbitrary: d)
  case (Cons x xs)
  show ?case
    unfolding d_each.simps
  proof (rule ends_then)
    show "ends d (f x) (\<lambda>_ _. True)" using Cons.prems by simp
    show "ends d1 (d_each f xs) (\<lambda>_ _. True)" if "marks d d1" for d1
      by (rule Cons.IH) (use Cons.prems marks_trans [OF that] in simp)
  qed
qed (simp add: ends_ret)

lemma ends_order_any:
  assumes "\<And>i d1. i \<in> set ids \<Longrightarrow> marks d d1 \<Longrightarrow> ends d1 (f i) (\<lambda>_ _. True)"
  shows "ends d (order_any f ids) (\<lambda>_ _. True)"
  using assms
proof (induction ids arbitrary: d)
  case (Cons i ids)
  show ?case
    unfolding order_any.simps
  proof (rule ends_bind)
    show "ends d (f i) (\<lambda>_ _. True)" using Cons.prems by simp
    fix x d1
    assume d1: "marks d d1"
    have "ends d1 (order_any f ids) (\<lambda>_ _. True)"
      by (rule Cons.IH) (use Cons.prems marks_trans [OF d1] in simp)
    then show "ends d1 (d_bind (order_any f ids) (\<lambda>r. d_ret (x \<or> r))) (\<lambda>_ _. True)"
      by (rule ends_bind) (simp add: ends_ret)
  qed
qed (simp add: ends_ret)

lemma ends_get_state:
  "ends d (get_state i) (\<lambda>d' s. d' = d \<and> i < length (type_states d) \<and> s = type_states d ! i)"
  unfolding ends_def by (auto elim!: get_stateE)

lemma ends_get_type: "ends d (get_type i) (\<lambda>d' t. d' = d \<and> btf__type_by_id (dump_btf d) i = Inr (Some t))"
  unfolding ends_def by (auto elim!: get_typeE)

lemma ends_set_order:
  assumes "s \<noteq> NOT_ORDERED"
  shows "ends d (set_order i s) (\<lambda>d' _. i \<notin> unvisited d')"
  using assms by (auto simp: ends_def set_order_result marks_def unvisited_def nth_list_update split: if_splits)

lemma ends_queue: "ends d (btf_dump_add_emit_queue_id alloc i) (\<lambda>_ _. True)"
  by (auto simp: ends_def btf_dump_add_emit_queue_id_def d_bind_def d_get_def d_upd_def grown_cap_def marks_def unvisited_def Let_def
      split: if_splits sum.splits prod.splits)

lemma ends_always:
  assumes "ends d m (\<lambda>_ _. True)" "\<And>d1. marks d d1 \<Longrightarrow> ends d1 n (\<lambda>_ _. True)"
  shows "ends d (d_always m n) (\<lambda>_ _. True)"
  using assms unfolding ends_def d_always_def by (fastforce split: prod.splits sum.splits intro: marks_trans)

subsection \<open>The depth of the search\<close>

text \<open>What the search still has to visit from a type: the unmarked types, between two of which it follows at most as many references
  as there are types, and the types that it reaches from this one without a mark.\<close>

definition search_bound :: "btf_dump \<Rightarrow> nat \<Rightarrow> nat" where
  "search_bound d i = card (unvisited d) * (btf__get_nr_types (dump_btf d) + 2) + card (reach (dump_btf d) i)"

lemma search_bound_link:
  assumes "acyclic (link (dump_btf d))" "btf__type_by_id (dump_btf d) i = Inr (Some t)" "j \<in> set (links t)" "marks d d1"
  shows "search_bound d1 j < search_bound d i"
proof -
  have "card (unvisited d1) \<le> card (unvisited d)" using assms(4) by (simp add: marks_def card_mono)
  then have "card (unvisited d1) * (btf__get_nr_types (dump_btf d) + 2) \<le> card (unvisited d) * (btf__get_nr_types (dump_btf d) + 2)"
    by (rule mult_le_mono1)
  then show ?thesis
    using card_reach_link [OF assms(1-3)] assms(4) by (simp add: search_bound_def marks_def add_le_less_mono)
qed

lemma search_bound_mark:
  assumes "marks d d1" "i \<in> unvisited d" "i \<notin> unvisited d1" "btf__type_by_id (dump_btf d) i = Inr (Some t)"
  shows "search_bound d1 j < search_bound d i"
proof -
  have "unvisited d1 \<subset> unvisited d" using assms(1-3) by (auto simp: marks_def)
  then have "card (unvisited d1) < card (unvisited d)" by (rule psubset_card_mono [OF finite_unvisited])
  then have "Suc (card (unvisited d1)) * (btf__get_nr_types (dump_btf d) + 2) \<le> card (unvisited d) * (btf__get_nr_types (dump_btf d) + 2)"
    by (intro mult_le_mono1) simp
  then show ?thesis
    using card_reach_le [of "dump_btf d" j] card_reach_pos [OF assms(4)] assms(1) unfolding search_bound_def marks_def by simp
qed

lemma order_type_ends:
  assumes "acyclic (link (dump_btf d))" "search_bound d i < n"
  shows "ends d (order_type n alloc i tp) (\<lambda>_ _. True)"
  using assms
proof (induction n arbitrary: i tp d)
  case (Suc n)
  have rec: "ends d1 (order_type n alloc j tp1) (\<lambda>_ _. True)" if "marks d d1" "search_bound d1 j < search_bound d i" for j tp1 d1
    by (rule Suc.IH) (use Suc.prems that in \<open>auto simp: marks_def\<close>)
  have linked: "ends d1 (order_type n alloc j tp1) (\<lambda>_ _. True)"
    if "btf__type_by_id (dump_btf d) i = Inr (Some t)" "j \<in> set (links t)" "marks d d1" for t j tp1 d1
    by (rule rec [OF that(3) search_bound_link [OF Suc.prems(1) that]])
  show ?case
    unfolding order_type.simps
  proof (rule ends_bind [OF ends_get_state])
    fix s d0
    assume "d0 = d \<and> i < length (type_states d) \<and> s = type_states d ! i"
    then have s: "d0 = d" "i < length (type_states d)" "s = type_states d ! i" by simp_all
    have struct: "ends d (order_struct (order_type n alloc) alloc i t tp) (\<lambda>_ _. True)"
      if t: "btf__type_by_id (dump_btf d) i = Inr (Some t)" and new: "order_state s = NOT_ORDERED" for t
    proof -
      have i: "i \<in> unvisited d" using s new type_by_id_le [OF t] by (simp add: unvisited_def)
      have "ends d (d_then (set_order i ORDERING)
           (d_then (d_each (\<lambda>m. d_bind (order_type n alloc (unat (m_type m)) False) (\<lambda>_. d_ret ())) (btf_members t))
           (d_then (d_when (name_off t \<noteq> 0) (btf_dump_add_emit_queue_id alloc i))
           (d_then (set_order i ORDERED) (d_ret True))))) (\<lambda>_ _. True)"
      proof (rule ends_then [OF ends_set_order], simp)
        fix d1
        assume d1: "marks d d1" "i \<notin> unvisited d1"
        show "ends d1 (d_then (d_each (\<lambda>m. d_bind (order_type n alloc (unat (m_type m)) False) (\<lambda>_. d_ret ())) (btf_members t))
           (d_then (d_when (name_off t \<noteq> 0) (btf_dump_add_emit_queue_id alloc i))
           (d_then (set_order i ORDERED) (d_ret True)))) (\<lambda>_ _. True)"
        proof (rule ends_then [OF ends_each])
          fix m d2
          assume "marks d1 d2"
          then have d2: "marks d d2" "i \<notin> unvisited d2" using d1 marks_trans by (auto simp: marks_def)
          show "ends d2 (d_bind (order_type n alloc (unat (m_type m)) False) (\<lambda>_. d_ret ())) (\<lambda>_ _. True)"
            by (rule ends_bind [OF rec [OF d2(1) search_bound_mark [OF d2(1) i d2(2) t]]]) (simp add: ends_ret)
        next
          show "ends d2 (d_then (d_when (name_off t \<noteq> 0) (btf_dump_add_emit_queue_id alloc i)) (d_then (set_order i ORDERED) (d_ret True)))
            (\<lambda>_ _. True)" for d2
            by (intro ends_then [OF ends_when [OF ends_queue]] ends_then [OF ends_any [OF ends_set_order]] ends_ret) simp_all
        qed
      qed
      then show ?thesis by (simp add: order_struct_def ends_ret)
    qed
    have leaf: "ends d (order_leaf alloc i t r) (\<lambda>_ _. True)" for t r
      unfolding order_leaf_def
      by (intro ends_then [OF ends_when [OF ends_queue]] ends_then [OF ends_any [OF ends_set_order]] ends_ret) simp_all
    have plain: "ends d1 (d_then (set_order i ORDERED) (d_ret x)) (\<lambda>_ _. True)" for d1 and x :: bool
      by (intro ends_then [OF ends_any [OF ends_set_order]] ends_ret) simp_all
    show "ends d0 (if order_state s = ORDERED then d_ret True
     else d_bind (get_type i) (\<lambda>t.
          if order_state s = ORDERING
          then if btf_is_composite t \<and> tp \<and> name_off t \<noteq> 0 then d_ret False else d_fail ELOOP
          else case btf_kind t of
            BTF_KIND_INT \<Rightarrow> d_then (set_order i ORDERED) (d_ret False)
          | BTF_KIND_PTR \<Rightarrow> d_always (order_type n alloc (unat (ref_type t)) True) (set_order i ORDERED)
          | BTF_KIND_ARRAY \<Rightarrow> order_type n alloc (unat (a_type (btf_array t))) tp
          | BTF_KIND_STRUCT \<Rightarrow> order_struct (order_type n alloc) alloc i t tp
          | BTF_KIND_UNION \<Rightarrow> order_struct (order_type n alloc) alloc i t tp
          | BTF_KIND_ENUM \<Rightarrow> order_leaf alloc i t (referenced s)
          | BTF_KIND_FWD \<Rightarrow> order_leaf alloc i t (referenced s)
          | BTF_KIND_TYPEDEF \<Rightarrow>
              d_bind (order_type n alloc (unat (ref_type t)) tp) (\<lambda>is_strong.
              if tp \<and> \<not> is_strong then d_ret False
              else d_then (btf_dump_add_emit_queue_id alloc i) (d_then (set_order i ORDERED) (d_ret True)))
          | BTF_KIND_VOLATILE \<Rightarrow> order_type n alloc (unat (ref_type t)) tp
          | BTF_KIND_CONST \<Rightarrow> order_type n alloc (unat (ref_type t)) tp
          | BTF_KIND_RESTRICT \<Rightarrow> order_type n alloc (unat (ref_type t)) tp
          | BTF_KIND_FUNC_PROTO \<Rightarrow>
              order_any (\<lambda>j. order_type n alloc j tp)
                (unat (ref_type t) # map (\<lambda>p. unat (btf_param_t.p_type p)) (btf_params t))
          | BTF_KIND_FUNC \<Rightarrow> d_then (set_order i ORDERED) (d_ret False)
          | BTF_KIND_VAR \<Rightarrow> d_then (set_order i ORDERED) (d_ret False)
          | BTF_KIND_DATASEC \<Rightarrow> d_then (set_order i ORDERED) (d_ret False)
          | BTF_KIND_UNKN \<Rightarrow> d_fail EINVAL)) (\<lambda>_ _. True)"
    proof (cases "order_state s")
      case ORDERED
      then show ?thesis by (simp add: ends_ret)
    next
      case ORDERING
      then show ?thesis by (auto intro!: ends_bind [OF ends_get_type] ends_ret ends_fail)
    next
      case NOT_ORDERED
      show ?thesis
        unfolding s(1) NOT_ORDERED
      proof (simp only: btf_dump_type_order_state.distinct if_False, rule ends_bind [OF ends_get_type])
        fix t d1
        assume "d1 = d \<and> btf__type_by_id (dump_btf d) i = Inr (Some t)"
        then have t: "d1 = d" "btf__type_by_id (dump_btf d) i = Inr (Some t)" by simp_all
        note next_type = linked [OF t(2)]
        show "ends d1 (case btf_kind t of
            BTF_KIND_INT \<Rightarrow> d_then (set_order i ORDERED) (d_ret False)
          | BTF_KIND_PTR \<Rightarrow> d_always (order_type n alloc (unat (ref_type t)) True) (set_order i ORDERED)
          | BTF_KIND_ARRAY \<Rightarrow> order_type n alloc (unat (a_type (btf_array t))) tp
          | BTF_KIND_STRUCT \<Rightarrow> order_struct (order_type n alloc) alloc i t tp
          | BTF_KIND_UNION \<Rightarrow> order_struct (order_type n alloc) alloc i t tp
          | BTF_KIND_ENUM \<Rightarrow> order_leaf alloc i t (referenced s)
          | BTF_KIND_FWD \<Rightarrow> order_leaf alloc i t (referenced s)
          | BTF_KIND_TYPEDEF \<Rightarrow>
              d_bind (order_type n alloc (unat (ref_type t)) tp) (\<lambda>is_strong.
              if tp \<and> \<not> is_strong then d_ret False
              else d_then (btf_dump_add_emit_queue_id alloc i) (d_then (set_order i ORDERED) (d_ret True)))
          | BTF_KIND_VOLATILE \<Rightarrow> order_type n alloc (unat (ref_type t)) tp
          | BTF_KIND_CONST \<Rightarrow> order_type n alloc (unat (ref_type t)) tp
          | BTF_KIND_RESTRICT \<Rightarrow> order_type n alloc (unat (ref_type t)) tp
          | BTF_KIND_FUNC_PROTO \<Rightarrow>
              order_any (\<lambda>j. order_type n alloc j tp)
                (unat (ref_type t) # map (\<lambda>p. unat (btf_param_t.p_type p)) (btf_params t))
          | BTF_KIND_FUNC \<Rightarrow> d_then (set_order i ORDERED) (d_ret False)
          | BTF_KIND_VAR \<Rightarrow> d_then (set_order i ORDERED) (d_ret False)
          | BTF_KIND_DATASEC \<Rightarrow> d_then (set_order i ORDERED) (d_ret False)
          | BTF_KIND_UNKN \<Rightarrow> d_fail EINVAL) (\<lambda>_ _. True)"
        proof (cases "btf_kind t")
          case BTF_KIND_PTR
          then show ?thesis
            unfolding t(1) by (auto intro!: ends_always next_type ends_any [OF ends_set_order] simp: links_def)
        next
          case BTF_KIND_TYPEDEF
          have "ends d1 (if tp \<and> \<not> strong then d_ret False
              else d_then (btf_dump_add_emit_queue_id alloc i) (d_then (set_order i ORDERED) (d_ret True))) (\<lambda>_ _. True)" for d1 strong
            by (auto intro!: ends_ret ends_then [OF ends_queue] plain)
          then show ?thesis
            using BTF_KIND_TYPEDEF unfolding t(1) by (auto intro!: ends_bind [OF next_type] simp: links_def)
        next
          case BTF_KIND_FUNC_PROTO
          then show ?thesis
            unfolding t(1) by (auto intro!: ends_order_any next_type simp: links_def simp del: order_any.simps)
        qed (use t(1) struct [OF t(2) NOT_ORDERED] leaf plain next_type [OF _ marks_refl] in \<open>simp_all add: links_def ends_fail\<close>)
      qed
    qed
  qed
qed simp

text \<open>
  C29. \<^verbatim>\<open>btf_dump_order_type\<close> ends on every BTF in which a cycle of references goes through a struct or union, whatever
  has been ordered before: it returns an answer or one of the code's errors. The same depth serves every such BTF.
\<close>

theorem btf_dump_order_type_returns:
  assumes "acyclic (link (dump_btf d))"
  shows "fst (btf_dump_order_type alloc i tp d) \<noteq> Inl NONTERM"
proof -
  define n where "n = btf__get_nr_types (dump_btf d)"
  have "card (unvisited d) * (n + 2) \<le> Suc n * (n + 2)" using card_unvisited_le unfolding n_def by (rule mult_le_mono1)
  then have "search_bound d i \<le> Suc n * (n + 2) + Suc n"
    using card_reach_le [of "dump_btf d" i] by (simp add: search_bound_def n_def)
  also have "\<dots> < order_depth d" by (simp add: order_depth_def n_def [symmetric] Let_def algebra_simps)
  finally have "ends d (order_type (order_depth d) alloc i tp) (\<lambda>_ _. True)" by (rule order_type_ends [OF assms])
  then show ?thesis by (cases "order_type (order_depth d) alloc i tp d") (auto simp: ends_def btf_dump_order_type_def d_with_def)
qed

theorem btf_dump_order_type_returns_witness:
  "acyclic (link (dump_btf dx_dump)) \<and> fst (btf_dump_order_type served 2 False dx_dump) \<noteq> Inl NONTERM"
proof -
  have "link (dump_btf dx_dump) \<subseteq> {(1, 2)}"
  proof
    fix p
    assume "p \<in> link (dump_btf dx_dump)"
    then obtain i t where p: "btf__type_by_id dx_btf i = Inr (Some t)" "fst p = i" "snd p \<in> set (links t)"
      by (auto simp: link_def dx_dump_def)
    have "i \<le> 3" using type_by_id_le [OF p(1)] by (simp add: btf__get_nr_types_def dx_btf_def btf_calloc_def)
    then have "i = 0 \<or> i = Suc 0 \<or> i = 2 \<or> i = 3" by linarith
    then show "p \<in> {(1, 2)}"
      using p by (cases p) (auto simp: links_def)
  qed
  then have "acyclic (link (dump_btf dx_dump))"
    using acyclic_subset [of "{(1::nat, 2)}"] by (auto simp: acyclic_def trancl_insert)
  then show ?thesis using btf_dump_order_type_returns by blast
qed

text \<open>Without a struct on the cycle it does not end: a pointer to itself.\<close>

lemma order_type_self_pointer:
  assumes "btf__type_by_id (dump_btf d) i = Inr (Some t)" "btf_kind t = BTF_KIND_PTR" "unat (ref_type t) = i"
    and "i < length (type_states d)" "order_state (type_states d ! i) = NOT_ORDERED"
  shows "\<exists>d'. order_type n alloc i tp d = (Inl NONTERM, d') \<and> length (type_states d') = length (type_states d)"
proof (induction n arbitrary: tp)
  case (Suc n)
  obtain d' where "order_type n alloc i True d = (Inl NONTERM, d')" "length (type_states d') = length (type_states d)"
    using Suc [of True] by blast
  then show ?case using assms
    by (simp add: d_bind_def get_state_def get_type_def d_get_def array_get_def d_always_def set_order_result)
qed (simp add: d_fail_def)

end
