(* ===== verification/Dump_Names.thy ===== *)
theory Dump_Names
  imports Dump_Order
begin

text \<open>
  The names that types get, with a number when another type has the same name, and the padding that
  fills a gap between the members of a struct.
\<close>

subsection \<open>Names of types\<close>

definition names_ok :: "name_map \<Rightarrow> bool" where
  "names_ok m \<longleftrightarrow> hashmap_inv m \<and> uses_callbacks (str_hash_fn ()) (str_equal_fn ()) m \<and> unique_keys m"

definition name_uses :: "name_map \<Rightarrow> string \<Rightarrow> nat" where
  "name_uses m s = (case hashmap__find m s of None \<Rightarrow> 0 | Some k \<Rightarrow> k)"

lemma names_ok_init: "names_ok (hashmap__init str_hash_fn str_equal_fn ())" "name_uses (hashmap__init str_hash_fn str_equal_fn ()) s = 0"
  using hashmap_inv_init [of str_hash_fn str_equal_fn "()"]
  by (auto simp: names_ok_def name_uses_def uses_callbacks_def hashmap__init_def unique_keys_def key_values_def
      hashmap__for_each_entry_def hashmap__find_def hashmap_find_entry_def)

lemma set_name:
  assumes "names_ok m"
  shows "names_ok (ins_map (hashmap__set served m s k))"
    and "name_uses (ins_map (hashmap__set served m s k)) s' = (if cstr s' = cstr s then k else name_uses m s')"
proof -
  have m: "hashmap_inv m" "uses_callbacks (str_hash_fn ()) (str_equal_fn ()) m" "unique_keys m"
    using assms by (simp_all add: names_ok_def)
  define r where "r = hashmap__insert served m s k HASHMAP_SET"
  have mem: "ins_err r \<noteq> Some ENOMEM"
    by (auto simp: r_def hashmap__insert_def Let_def hashmap_insert_new_def hashmap_grow_def split: option.splits prod.splits if_splits)
  note R = dump_names.insert_refines [OF m _ r_def]
  show "names_ok (ins_map (hashmap__set served m s k))"
    using R(1) dump_names.insert_keeps [OF m(1,2), of served s k HASHMAP_SET] by (simp add: names_ok_def hashmap__set_def r_def)
  have "hashmap__find (ins_map r) = map_put (str_equal_fn ()) (hashmap__find m) s k"
    using R(2) mem by (simp add: insert_spec_def)
  then show "name_uses (ins_map (hashmap__set served m s k)) s' = (if cstr s' = cstr s then k else name_uses m s')"
    by (simp add: hashmap__set_def r_def [symmetric] name_uses_def map_put_def str_equal_fn_def)
qed

lemma uses_cstr: "names_ok m \<Longrightarrow> cstr s' = cstr s \<Longrightarrow> name_uses m s' = name_uses m s"
  using dump_names.find_key_values [of m] dump_names.key_values_cong [of m s' s]
  by (simp add: names_ok_def name_uses_def str_equal_fn_def)

text \<open>The text of the n-th type of a name.\<close>

definition numbered :: "string \<Rightarrow> nat \<Rightarrow> string" where
  "numbered s n = (if n \<le> 1 then s else take 255 (s @ ''___'' @ digits n))"

text \<open>A type that has a name but has not been given one in the output.\<close>

definition unnamed :: "btf_dump \<Rightarrow> nat \<Rightarrow> string \<Rightarrow> bool" where
  "unnamed d i s \<longleftrightarrow> i < length (type_states d) \<and> i < length (cached_names d) \<and> cached_names d ! i = None \<and>
     \<not> name_resolved (type_states d ! i) \<and>
     (\<exists>t. btf__type_by_id (dump_btf d) i = Inr (Some t) \<and> name_off t \<noteq> 0 \<and> btf__name_by_offset (dump_btf d) (name_off t) = Inr (Some s))"

lemma type_name_step:
  assumes "names_ok (type_names d)" "unnamed d i s"
  shows "\<exists>d1. btf_dump_type_name served i d = (Inr (numbered s (Suc (name_uses (type_names d) s))), d1) \<and>
     names_ok (type_names d1) \<and>
     (\<forall>s'. name_uses (type_names d1) s' = name_uses (type_names d) s' + (if cstr s' = cstr s then 1 else 0)) \<and>
     (\<forall>j s'. j \<noteq> i \<longrightarrow> unnamed d1 j s' = unnamed d j s') \<and>
     d1 = d\<lparr>type_names := type_names d1,
       cached_names := (cached_names d)[i := if name_uses (type_names d) s = 0 then None
                                            else Some (numbered s (Suc (name_uses (type_names d) s)))],
       type_states := (type_states d)[i := (type_states d ! i)\<lparr>name_resolved := True\<rparr>]\<rparr> \<and>
     (\<forall>alloc. btf_dump_type_name alloc i d1 = (Inr (numbered s (Suc (name_uses (type_names d) s))), d1))"
proof -
  obtain t where i: "i < length (type_states d)" "i < length (cached_names d)" "cached_names d ! i = None"
      "\<not> name_resolved (type_states d ! i)"
    and t: "btf__type_by_id (dump_btf d) i = Inr (Some t)" "name_off t \<noteq> 0"
      "btf__name_by_offset (dump_btf d) (name_off t) = Inr (Some s)"
    using assms(2) by (auto simp: unnamed_def)
  define n where "n = Suc (name_uses (type_names d) s)"
  define new where "new = (if n \<le> 1 then None else Some (unique_name s n))"
  define d1 where "d1 = d\<lparr>type_names := ins_map (hashmap__set served (type_names d) s n),
      cached_names := (cached_names d)[i := new], type_states := (type_states d)[i := (type_states d ! i)\<lparr>name_resolved := True\<rparr>]\<rparr>"
  have n: "(case hashmap__find (type_names d) s of None \<Rightarrow> 1 | Some k \<Rightarrow> k + 1) = n"
    by (simp add: n_def name_uses_def split: option.splits)
  have name: "(case new of None \<Rightarrow> s | Some n \<Rightarrow> n) = numbered s n" by (simp add: new_def numbered_def unique_name_def fmt_u_def)
  note S = d_bind_def d_then_def d_get_def d_upd_def d_ret_def get_type_def get_state_def array_get_def upd_state_def
    btf_dump_type_name_def btf_dump_resolve_name_def btf_dump_name_dups_def btf_name_of_def use_name_def
  have "btf_dump_type_name served i d = (Inr (numbered s n), d1)"
    using i t n name by (cases "n \<le> 1") (simp_all add: S d1_def Let_def new_def)
  moreover have "btf_dump_type_name alloc i d1 = (Inr (numbered s n), d1)" for alloc
    using i t name by (cases new) (simp_all add: S d1_def)
  moreover have "names_ok (type_names d1)"
    using set_name(1) [OF assms(1)] by (simp add: d1_def)
  moreover have "name_uses (type_names d1) s' = name_uses (type_names d) s' + (if cstr s' = cstr s then 1 else 0)" for s'
    using set_name(2) [OF assms(1)] uses_cstr [OF assms(1), of s' s] by (simp add: d1_def n_def)
  moreover have "unnamed d1 j s' = unnamed d j s'" if "j \<noteq> i" for j s'
    using that by (simp add: unnamed_def d1_def)
  moreover have "d1 = d\<lparr>type_names := type_names d1, cached_names := (cached_names d)[i := if name_uses (type_names d) s = 0 then None
      else Some (numbered s n)], type_states := (type_states d)[i := (type_states d ! i)\<lparr>name_resolved := True\<rparr>]\<rparr>"
    by (simp add: d1_def new_def n_def numbered_def unique_name_def fmt_u_def)
  ultimately show ?thesis unfolding n_def [symmetric] by blast
qed

text \<open>
  C30. The names of types: the n-th type of a name that is printed gets the name itself for n = 1 and the name with
  \<open>___n\<close> after it otherwise, cut to 255 characters. The count of the name goes up by one and those of the other names
  stay. Nothing else changes but the type itself, which is marked and keeps the numbered name if it differs from its own:
  the cached names and states of the other types and the printed text stay as they are. From then on the type keeps the
  name it got.
\<close>

theorem btf_dump_type_name_numbers:
  assumes "names_ok (type_names d)" "unnamed d i s"
  shows "\<exists>d1. btf_dump_type_name served i d = (Inr (numbered s (Suc (name_uses (type_names d) s))), d1) \<and>
     names_ok (type_names d1) \<and>
     (\<forall>s'. name_uses (type_names d1) s' = name_uses (type_names d) s' + (if cstr s' = cstr s then 1 else 0)) \<and>
     (\<forall>j s'. j \<noteq> i \<longrightarrow> unnamed d1 j s' = unnamed d j s') \<and>
     d1 = d\<lparr>type_names := type_names d1,
       cached_names := (cached_names d)[i := if name_uses (type_names d) s = 0 then None
                                            else Some (numbered s (Suc (name_uses (type_names d) s)))],
       type_states := (type_states d)[i := (type_states d ! i)\<lparr>name_resolved := True\<rparr>]\<rparr> \<and>
     (\<forall>alloc. btf_dump_type_name alloc i d1 = (Inr (numbered s (Suc (name_uses (type_names d) s))), d1))"
  by (rule type_name_step [OF assms])

theorem btf_dump_type_name_numbers_witness:
  "\<exists>d1. btf_dump_type_name served 2 dx_dump = (Inr ''A'', d1) \<and> name_uses (type_names d1) ''A'' = 1 \<and>
     btf_dump_type_name served 2 d1 = (Inr ''A'', d1)"
proof -
  have "btf__name_by_offset dx_btf 1 = Inr (Some ''A'')" by code_simp
  then have "unnamed dx_dump 2 ''A''"
    by (simp add: unnamed_def dx_dump_def aux_zero_def) (simp add: dx_A_def)
  moreover have "names_ok (type_names dx_dump)" "name_uses (type_names dx_dump) ''A'' = 0"
    by (simp_all add: dx_dump_def names_ok_init)
  ultimately show ?thesis
    using btf_dump_type_name_numbers [of dx_dump 2 "''A''"] by (auto simp: numbered_def)
qed

text \<open>
  The numbered names are not set apart from the names in the BTF: the second type of a name and a type that has this very
  name with \<open>___2\<close> after it get the same.
\<close>

lemma type_names_collide:
  assumes "names_ok (type_names d)" "unnamed d i s" "unnamed d j s" "unnamed d k (s @ ''___2'')" "distinct [i, j, k]"
    and "name_uses (type_names d) s = 0" "name_uses (type_names d) (s @ ''___2'') = 0" "length s < 250" "cstring s"
  shows "\<exists>d1 d2 d3 x. btf_dump_type_name served i d = (Inr s, d1) \<and> btf_dump_type_name served j d1 = (Inr x, d2) \<and>
    btf_dump_type_name served k d2 = (Inr x, d3)"
proof -
  have c: "cstr (s @ ''___2'') \<noteq> cstr s"
    using assms(9) by (simp add: cstr_def cstring_def takeWhile_append takeWhile_eq_all_conv [THEN iffD2])
  obtain d1 where d1: "btf_dump_type_name served i d = (Inr s, d1)" "names_ok (type_names d1)"
    "name_uses (type_names d1) s = 1" "name_uses (type_names d1) (s @ ''___2'') = 0" "unnamed d1 j s" "unnamed d1 k (s @ ''___2'')"
    using type_name_step [OF assms(1,2)] assms(3-7) c by (auto simp: numbered_def)
  obtain d2 where d2: "btf_dump_type_name served j d1 = (Inr (numbered s 2), d2)" "names_ok (type_names d2)"
    "name_uses (type_names d2) (s @ ''___2'') = 0" "unnamed d2 k (s @ ''___2'')"
    using type_name_step [OF d1(2,5)] d1(3,4,6) assms(5) c by (auto simp: numeral_2_eq_2)
  obtain d3 where "btf_dump_type_name served k d2 = (Inr (s @ ''___2''), d3)"
    using type_name_step [OF d2(2,4)] d2(3) by (auto simp: numbered_def)
  moreover have "digits 2 = ''2''" by code_simp
  then have "numbered s 2 = s @ ''___2''" using assms(8) by (simp add: numbered_def)
  ultimately show ?thesis using d1(1) d2(1) by auto
qed

subsection \<open>Padding\<close>

text \<open>The bits that a field of a type can hold.\<close>

definition pad_width :: "nat \<Rightarrow> string \<Rightarrow> nat" where
  "pad_width ptr_bits ty = the (map_of [(''long'', ptr_bits), (''int'', 32), (''short'', 16), (''char'', 8)] ty)"

lemma pad_bits_fit:
  assumes "0 < n" "0 < ptr_bits"
  shows "snd (pad_bits ptr_bits n) \<le> n"
    and "snd (pad_bits ptr_bits n) \<le> pad_width ptr_bits (fst (pad_bits ptr_bits n))"
    and "fst (pad_bits ptr_bits n) \<in> {''long'', ''int'', ''short'', ''char''}"
proof -
  have c: "chip_away_bits n m \<le> m" "chip_away_bits n m \<le> n" if "0 < m" for m
    using that assms(1) by (auto simp: chip_away_bits_def less_imp_le mod_eq_0_iff_dvd dvd_imp_le)
  show "snd (pad_bits ptr_bits n) \<le> n" using assms(2) by (simp add: pad_bits_def c)
  show "snd (pad_bits ptr_bits n) \<le> pad_width ptr_bits (fst (pad_bits ptr_bits n))"
    using assms(2) by (simp add: pad_bits_def pad_width_def c)
  show "fst (pad_bits ptr_bits n) \<in> {''long'', ''int'', ''short'', ''char''}" by (simp add: pad_bits_def)
qed

lemma pad_fields_fill:
  assumes "0 < ptr_bits"
  shows "sum_list (map snd (pad_fields ptr_bits n)) = n \<and>
    (\<forall>(ty, bits) \<in> set (pad_fields ptr_bits n). 0 < bits \<and> bits \<le> pad_width ptr_bits ty \<and> ty \<in> {''long'', ''int'', ''short'', ''char''})"
using assms
proof (induction ptr_bits n rule: pad_fields.induct)
  case (1 ptr_bits n)
  show ?case
  proof (cases "0 < n")
    case True
    obtain ty bits where p: "pad_bits ptr_bits n = (ty, bits)" by fastforce
    then have "0 < bits \<and> bits \<le> n \<and> bits \<le> pad_width ptr_bits ty \<and> ty \<in> {''long'', ''int'', ''short'', ''char''}"
      using pad_bits_pos [of ptr_bits n] pad_bits_fit [OF True 1(2)] by simp
    moreover have "pad_fields ptr_bits n = (ty, bits) # pad_fields ptr_bits (n - bits)"
      using True p by (subst pad_fields.simps) simp
    ultimately show ?thesis using 1 True p by simp
  qed (simp add: pad_fields.simps)
qed

lemma print_each:
  "d_each (\<lambda>x. btf_dump_printf (f x)) xs d = (Inr (), d\<lparr>dump_text := dump_text d @ concat (map f xs)\<rparr>)"
  by (induction xs arbitrary: d) (simp_all add: d_ret_def d_then_def d_bind_def btf_dump_printf_def d_upd_def)

text \<open>
  C31. The padding of a gap: bit fields of nonzero width, none wider than its type, that together have exactly the bits
  of the gap, which is the difference of the two offsets as a 32-bit \<^verbatim>\<open>int\<close>. No padding is printed when it is not
  positive, or the alignment of a member that is no bit field fills it.
\<close>

theorem btf_dump_emit_bit_padding_fills:
  assumes "0 < dump_ptr_sz d"
  shows "\<exists>fields. btf_dump_emit_bit_padding cur_off m_off m_bit_sz align lvl d =
      (Inr (), d\<lparr>dump_text := dump_text d @ concat (map (\<lambda>(ty, bits). NL @ pfx lvl @ ty @ '': '' @ digits bits @ '';'') fields)\<rparr>) \<and>
    sum_list (map snd fields) =
      (if m_bit_sz = 0 \<and> int32 (m_off - cur_off) < int32 (align * 8) then 0 else nat (int32 (m_off - cur_off))) \<and>
    (\<forall>(ty, bits) \<in> set fields. 0 < bits \<and> bits \<le> pad_width (8 * dump_ptr_sz d) ty \<and>
       ty \<in> {''long'', ''int'', ''short'', ''char''})"
proof -
  define fields where "fields = (if int32 (m_off - cur_off) \<le> 0 \<or> m_bit_sz = 0 \<and> int32 (m_off - cur_off) < int32 (align * 8) then []
    else pad_fields (dump_ptr_sz d * 8) (nat (int32 (m_off - cur_off))))"
  have each: "d_each (\<lambda>(ty, bits). btf_dump_printf (NL @ pfx lvl @ ty @ '': '' @ fmt_u bits @ '';'')) fields d =
      (Inr (), d\<lparr>dump_text := dump_text d @ concat (map (\<lambda>(ty, bits). NL @ pfx lvl @ ty @ '': '' @ digits bits @ '';'') fields)\<rparr>)"
    using print_each [of "\<lambda>(ty, bits). NL @ pfx lvl @ ty @ '': '' @ digits bits @ '';''"] by (simp add: case_prod_unfold fmt_u_def)
  have run: "btf_dump_emit_bit_padding cur_off m_off m_bit_sz align lvl d =
      d_each (\<lambda>(ty, bits). btf_dump_printf (NL @ pfx lvl @ ty @ '': '' @ fmt_u bits @ '';'')) fields d"
    by (auto simp: btf_dump_emit_bit_padding_def fields_def d_with_def Let_def)
  have "sum_list (map snd fields) =
      (if m_bit_sz = 0 \<and> int32 (m_off - cur_off) < int32 (align * 8) then 0 else nat (int32 (m_off - cur_off))) \<and>
    (\<forall>(ty, bits) \<in> set fields. 0 < bits \<and> bits \<le> pad_width (8 * dump_ptr_sz d) ty \<and> ty \<in> {''long'', ''int'', ''short'', ''char''})"
    using pad_fields_fill [of "dump_ptr_sz d * 8"] assms by (auto simp: fields_def mult.commute)
  then show ?thesis unfolding run each by blast
qed

theorem btf_dump_emit_bit_padding_fills_witness:
  "\<exists>fields. btf_dump_emit_bit_padding 32 96 0 4 1 dx_dump =
      (Inr (), dx_dump\<lparr>dump_text := concat (map (\<lambda>(ty, bits). NL @ pfx 1 @ ty @ '': '' @ digits bits @ '';'') fields)\<rparr>) \<and>
    sum_list (map snd fields) = 64"
proof -
  have "0 < dump_ptr_sz dx_dump" "dump_text dx_dump = []" by (simp_all add: dx_dump_def)
  then show ?thesis using btf_dump_emit_bit_padding_fills [of dx_dump 32 96 0 4 1] by (auto simp: int32_small)
qed

end
