(* ===== verification/Spec2Isabelle.thy ===== *)
theory Spec2Isabelle
  imports Extract_Files Relocate Kconfig_Places Dedup_Result Prog_Linfo Dump_Ends Dump_Names
begin

text \<open>
  \<^bold>\<open>Verification of the BPF ELF tools\<close>

  This library models the program under \<^verbatim>\<open>src/text-extractor\<close>: a fork of \<^verbatim>\<open>libbpf\<close> and the tool \<^verbatim>\<open>extract\<close>
  (\<^verbatim>\<open>elf_extract.c\<close>) that opens a BPF object file, collects its programs, maps, externs and relocations, patches the
  map and data references of every program and writes the instructions, the relocations and the maps to files.
  Its theories follow the code bottom-up; a name of the code is kept where Isabelle allows it, so \<^verbatim>\<open>btf__add_int\<close> of
  \<^verbatim>\<open>btf.c\<close> is \<open>btf__add_int\<close> of theory \<open>Btf_Write\<close>. File names below are relative to \<^verbatim>\<open>src/text-extractor\<close>.

  \<^bold>\<open>How the parts interact.\<close> \<^verbatim>\<open>elf_extract.c\<close> calls \<^verbatim>\<open>extract\<close> of \<^verbatim>\<open>libbpf.c\<close>, which opens the object with
  \<^verbatim>\<open>bpf_object__open\<close>: the sections of the ELF file are collected (license, version, maps, programs, \<^verbatim>\<open>.BTF\<close> and
  \<^verbatim>\<open>.BTF.ext\<close>), the externs get their places, the BTF is completed, the maps are built, and the relocation entries
  become descriptors of the programs. \<^verbatim>\<open>extract\<close> then numbers the maps and patches and writes program after program.
  Loading an object adds the CO-RE relocations, the linking of sub-programs and the Kconfig values, which are modelled
  too. BTF is parsed, queried, written, serialized and deduplicated by \<^verbatim>\<open>btf.c\<close>, over the hash table of \<^verbatim>\<open>hashmap.c\<close>,
  and turned into C declarations by \<^verbatim>\<open>btf_dump.c\<close>.

  \<^bold>\<open>Conventions.\<close>
  \<^item> A function that can fail returns \<open>errno + 'a\<close>. The constructors of \<open>errno\<close> are the error codes of the code and three
    of the model: \<open>OOB\<close> is an access outside an object, which is undefined in C, \<open>NONTERM\<close> a loop or recursion that
    does not return, and \<open>RAW\<close> a negative result that is no error code. A theorem that excludes \<open>OOB\<close> or \<open>NONTERM\<close> is a
    theorem about memory safety or termination; where the code does run into them, a theorem says so.
  \<^item> Unsigned fields and sums are words of their width, so they wrap as in C; an \<^verbatim>\<open>int\<close> is an \<open>int\<close> with \<open>s32\<close> (from a
    size) or \<open>int32\<close> (from a sum) at every place where the code stores or narrows it, signed overflow wrapping; positions
    in buffers are \<open>nat\<close>. The host is little endian and LP64.
  \<^item> Memory is granted by a function \<open>alloc :: nat \<Rightarrow> bool\<close> from the size of a request, so every theorem that does not
    restrict it covers every allocation failure; \<open>served\<close> grants everything.
  \<^item> State is a record that is returned updated (\<open>btf\<close>, \<open>bpf_object\<close>, \<open>hashmap\<close>, \<open>btf_dedup\<close>); an operation on a BTF that
    can fail after it has changed the object returns both the error and the object (\<open>op\<close>).
  \<^item> \<^verbatim>\<open>libelf\<close> is not under \<^verbatim>\<open>src\<close>: its queries are the fields of a record \<open>elf\<close>, an argument of the model, and what
    the code relies on is a named hypothesis. The kernel's BTF is an argument of the CO-RE relocations. Files are maps
    from names to contents.

  \<^bold>\<open>The theories.\<close>
  \<^item> \<open>Prelude\<close>, \<open>Bytes\<close>: results, words, lists, C strings; byte order and bounds-checked reads and writes.
    \<open>Libc_Sort\<close>: \<^verbatim>\<open>qsort\<close> and \<^verbatim>\<open>bsearch\<close> under the contracts \<open>compares_by\<close> and \<open>searches_by\<close> of a comparison function,
    which the comparison functions of programs and relocations fulfil.
  \<^item> \<open>Hashmap\<close> (\<^verbatim>\<open>hashmap.c\<close>, \<^verbatim>\<open>hashmap.h\<close>): the buckets as lists, every operation with its growth. The locale
    \<open>hash_contract\<close> (equal keys have equal hashes, equality is an equivalence) is fulfilled by every pair of callbacks of
    the program; under it the table refines a finite map.
  \<^item> \<open>Btf_Types\<close> (\<^verbatim>\<open>btf.h\<close>, \<^verbatim>\<open>include/uapi/linux/btf.h\<close>): kinds, types with their trailing data, the byte encoding.
    \<open>Btf_Parse\<close>: \<^verbatim>\<open>struct btf\<close>, the parser, byte swapping and serialization. \<open>Btf_Query\<close>: lookups, sizes, alignment,
    resolution. \<open>Btf_Write\<close>: the string index and every \<^verbatim>\<open>btf__add_*\<close>. \<open>Btf_Ext\<close>: \<^verbatim>\<open>.BTF.ext\<close>. All of them from \<^verbatim>\<open>btf.c\<close>.
  \<^item> \<open>Btf_Dedup\<close> (\<^verbatim>\<open>btf.c\<close>, from line 2880): all passes of \<^verbatim>\<open>btf__dedup\<close>. \<open>Dedup_Equiv\<close>: a comparison of type graphs
    that succeeds leaves a simulation in the sense of the BTF format, whose relation \<open>agree\<close> is stated without the
    functions of the code, and every comparison ends. \<open>Dedup_Strings\<close>: the string pass keeps all names
    and stores each once. \<open>Dedup_Result\<close>: the result is a well-formed BTF.
  \<^item> \<open>Bpf_Object\<close>, \<open>Sec_Defs\<close>, \<open>Elf_Collect\<close>, \<open>Relocs\<close>, \<open>User_Maps\<close>, \<open>Externs\<close>, \<open>Extract\<close> (\<^verbatim>\<open>libbpf.c\<close>, \<^verbatim>\<open>elf_extract.c\<close>):
    the object and what opening and extracting does to it, in the order of the code. \<open>Programs\<close>: the programs of a
    collected object are ordered, disjoint and make up the code sections, and the binary search finds them.
    \<open>Reloc_Facts\<close>: the descriptors are in range and patching changes exactly what they name. \<open>Extract_Facts\<close>,
    \<open>Extract_Files\<close>: the invariant of an opened object and the contents of the files.
  \<^item> \<open>Subprogs\<close>, \<open>Subprog_Facts\<close>: linking of sub-programs, its specification (\<open>linked_code\<close>: every called sub-program
    once and no other, every call to its start) and the proof. \<open>Relocate\<close>: all relocations of an object, from the CO-RE
    relocations to the linked main programs.
  \<^item> \<open>Kconfig\<close>, \<open>Kconfig_Facts\<close>, \<open>Kconfig_Places\<close>: parsing of kernel configurations and the places of the externs.
  \<^item> \<open>Prog_Linfo\<close> (\<^verbatim>\<open>bpf_prog_linfo.c\<close>): the line tables of a loaded program and the searches in them.
  \<^item> \<open>Btf_Dump\<close> (\<^verbatim>\<open>btf_dump.c\<close>): the converter from BTF to C. What the callback of the caller prints is a string of its
    state, and a step leaves a state behind after an error too. \<open>Dump_Order\<close>: a definition is queued behind what it embeds.
    \<open>Dump_Ends\<close>: the search for the order returns. \<open>Dump_Names\<close>: the numbers that tell types of one name apart, and the
    padding of structs.
  \<^item> \<open>Core_Spec\<close>, \<open>Core_Relo\<close>, \<open>Core_Match\<close>, \<open>Core_Patch\<close>: CO-RE relocations, from the access string to the patched
    instruction, and what matching and patching guarantee.

  \<^bold>\<open>What the lemmas show.\<close> Parsers: no access outside the buffer but where a theorem shows one, and an accepted input has
  the structure of the format. Writers: every operation keeps the invariant \<open>btf_inv\<close> and appends exactly its type, and
  serialization is inverse to parsing in either byte order. Lookups and resolution: equality with inductive or
  list-based specifications, error cases included. Object: ordered and disjoint programs, descriptors in range, patching
  and linking against a specification of the resulting code. Deduplication and CO-RE: the comparison of graphs is
  a simulation, a relocation has one value. Findings about the code are theorems on concrete inputs.

  \<^bold>\<open>Bounds and fuel.\<close> Loops over buffers recurse on the rest of the buffer. Where the code recurses without a
  structural bound the model has fuel, chosen so that running out means that the code does not return:
  \<^item> \<open>btf__align_of\<close>: any fuel; ranked types need their rank. The resolution loops have the code's own limit of 32.
  \<^item> the linker: the number of programs, enough for every object (\<open>relocate_calls_terminates\<close>).
  \<^item> \<open>bpf_core_match_member\<close>: the room left in the raw accessor, which each level uses up.
  \<^item> \<open>bpf_core_fields_are_compat\<close> and \<open>bpf_core_types_are_compat\<close>: the number of pairs of types, or the stack depth; a
    longer path repeats a pair.
  \<^item> \<open>btf_dedup_is_equiv\<close>: the length of the hypothetical map and one, as each level marks an entry; \<open>resolve_type_id\<close>:
    the length of the map of representatives and one, as a longer path has a cycle; \<open>btf_dedup_ref_type\<close>: the length of
    the map and one, as each level marks its type as in progress.
  \<^item> \<open>order_type\<close> and \<open>emit_type\<close>: \<open>order_depth\<close>, four times the square of the number of types, as a longer path has met a type
    twice with no change of the state in between; \<open>btf_dump_order_type_returns\<close> shows that it is enough. \<open>push_chain\<close> and
    \<open>emit_type_decl\<close>: the number of types and two, as a longer chain or nesting repeats a type.

  Sizes that the code keeps in 32 bits and the model in \<open>nat\<close> agree below these bounds: the data given to \<open>btf_new\<close> has less
  than 4 GB (its length is a \<^verbatim>\<open>__u32\<close>), the strings of a BTF and its bases together less than 2 GB (\<open>btf__add_str\<close> returns
  the offset as an \<^verbatim>\<open>int\<close>). The places of Kconfig externs are computed in 32 bits; \<open>collect_externs_layout\<close> assumes that
  they fit, and \<open>kcfg_layout_wraps\<close> shows what happens otherwise. \<open>write_insns\<close> takes the text and the binary file for two
  files; their names, cut off at 127 characters, coincide for section names of 126 characters and more, where the code
  has two independent streams on one file. The theorems about files assume shorter names (\<open>name_fits\<close>).

  \<^bold>\<open>Not modelled.\<close> System calls and what needs a kernel: loading and pinning of programs and maps, probing of kernel
  features, attaching, links, perf and ring buffers, skeletons, netlink, \<^verbatim>\<open>load_module_btfs\<close>. Output for humans: log
  messages, error strings. Opening and reading files beyond their contents. Freeing of memory,
  but for uses after it that change a result. Headers that are compiled into BPF programs. The older copy under
  \<^verbatim>\<open>src/old-text-extractor\<close>, which the README calls obsolete, and the Python script under \<^verbatim>\<open>src/patch_insns\<close>.
\<close>

end
